(* ===== verification/Prelude.thy ===== *)
theory Prelude
  imports Complex_Main "HOL-Library.AList" "HOL-Library.Multiset" "HOL-Library.Char_ord"
    "HOL-Library.List_Lexorder" "HOL-Library.Product_Lexorder" "HOL-Library.Sublist"
begin

text \<open>
  Shared vocabulary of the development: Python exceptions as the left summand of a result,
  insertion-ordered dictionaries as association lists, JSON-like values, the string methods the
  sources call, and the generic lemmas on lists and groupings that the component theories use.

  Conventions.  A Python \<open>dict\<close> is an association list whose order is the insertion order:
  \<open>d[k] = v\<close> is \<^const>\<open>AList.update\<close> (an existing key keeps its place, a new one goes to the
  end, as in CPython), \<open>d.pop(k, None)\<close> is \<^const>\<open>AList.delete\<close> and \<open>d.get(k)\<close> is
  \<^const>\<open>map_of\<close>.  Python integers are \<^typ>\<open>int\<close> or, for lengths and counters that only
  grow, \<^typ>\<open>nat\<close>.  Finite floats are \<^typ>\<open>real\<close>: rounding is not modelled; where the code
  tests for infinities or NaN the model uses the type \<open>pyfloat\<close> below.
\<close>

section \<open>Named collections\<close>

named_theorems dict_simps "rewriting of dictionary reads after dictionary writes"
named_theorems result_splits "case rules for computations that may raise"


section \<open>Exceptions and results\<close>

datatype exn =
    ValueError string
  | TypeError string
  | KeyError string
  | IndexError string
  | RuntimeError string
  | AssertionError string
  | ZeroDivisionError
  | TimeoutError string
  | SessionFinalizedError string
  | HTTPException int string
  | OtherError string

type_synonym 'a result = "exn + 'a"

definition rbind :: "'e + 'a \<Rightarrow> ('a \<Rightarrow> 'e + 'b) \<Rightarrow> 'e + 'b" where
  "rbind r f = (case r of Inl e \<Rightarrow> Inl e | Inr x \<Rightarrow> f x)"

lemma rbind_Inl [simp]: "rbind (Inl e) f = Inl e"
  by (simp add: rbind_def)

lemma rbind_Inr [simp]: "rbind (Inr x) f = f x"
  by (simp add: rbind_def)

lemma rbind_eq_Inr [result_splits]:
  "rbind r f = Inr y \<longleftrightarrow> (\<exists>x. r = Inr x \<and> f x = Inr y)"
  by (auto simp: rbind_def split: sum.splits)

lemma rbind_eq_Inl [result_splits]:
  "rbind r f = Inl e \<longleftrightarrow> r = Inl e \<or> (\<exists>x. r = Inr x \<and> f x = Inl e)"
  by (auto simp: rbind_def split: sum.splits)

text \<open>A list comprehension whose element expression may raise: the first exception wins.\<close>

fun rmap :: "('a \<Rightarrow> 'e + 'b) \<Rightarrow> 'a list \<Rightarrow> 'e + 'b list" where
  "rmap f [] = Inr []"
| "rmap f (x # xs) = rbind (f x) (\<lambda>y. rbind (rmap f xs) (\<lambda>ys. Inr (y # ys)))"

lemma rmap_eq_Inr_iff:
  "rmap f xs = Inr ys \<longleftrightarrow> list_all2 (\<lambda>x y. f x = Inr y) xs ys"
  by (induction xs arbitrary: ys) (auto simp: rbind_eq_Inr list_all2_Cons1)

lemma rmap_total: "\<forall>x\<in>set xs. f x = Inr (g x) \<Longrightarrow> rmap f xs = Inr (map g xs)"
  by (induction xs) auto

lemma rmap_origin: "rmap f xs = Inr ys \<Longrightarrow> y \<in> set ys \<Longrightarrow> \<exists>x\<in>set xs. f x = Inr y"
  by (induction xs arbitrary: ys) (auto simp: rbind_eq_Inr)

lemma rmap_length: "rmap f xs = Inr ys \<Longrightarrow> length ys = length xs"
  by (auto simp: rmap_eq_Inr_iff list_all2_lengthD)

definition guard :: "bool \<Rightarrow> 'e \<Rightarrow> 'e + unit" where
  "guard b e = (if b then Inr () else Inl e)"

lemma guard_eq_Inr [simp]: "guard b e = Inr u \<longleftrightarrow> b"
  by (simp add: guard_def)

lemma guard_eq_Inl [simp]: "guard b e = Inl e' \<longleftrightarrow> \<not> b \<and> e' = e"
  by (auto simp: guard_def)

lemma guard_True [simp]: "guard True e = Inr ()"
  by (simp add: guard_def)


section \<open>Insertion-ordered dictionaries\<close>

type_synonym ('k, 'v) dict = "('k \<times> 'v) list"

abbreviation dget :: "('k, 'v) dict \<Rightarrow> 'k \<Rightarrow> 'v option" where
  "dget d k \<equiv> map_of d k"

abbreviation dset :: "'k \<Rightarrow> 'v \<Rightarrow> ('k, 'v) dict \<Rightarrow> ('k, 'v) dict" where
  "dset k v d \<equiv> AList.update k v d"

abbreviation dpop :: "'k \<Rightarrow> ('k, 'v) dict \<Rightarrow> ('k, 'v) dict" where
  "dpop k d \<equiv> AList.delete k d"

abbreviation dkeys :: "('k, 'v) dict \<Rightarrow> 'k list" where
  "dkeys d \<equiv> map fst d"

abbreviation dvalues :: "('k, 'v) dict \<Rightarrow> 'v list" where
  "dvalues d \<equiv> map snd d"

definition dict_ok :: "('k, 'v) dict \<Rightarrow> bool" where
  "dict_ok d \<longleftrightarrow> distinct (dkeys d)"

definition dget_or :: "('k, 'v) dict \<Rightarrow> 'k \<Rightarrow> 'v \<Rightarrow> 'v" where
  "dget_or d k v = (case dget d k of None \<Rightarrow> v | Some w \<Rightarrow> w)"

definition dmem :: "'k \<Rightarrow> ('k, 'v) dict \<Rightarrow> bool" where
  "dmem k d \<longleftrightarrow> dget d k \<noteq> None"

text \<open>\<open>d.setdefault(k, v)\<close>.\<close>

definition dsetdefault :: "'k \<Rightarrow> 'v \<Rightarrow> ('k, 'v) dict \<Rightarrow> ('k, 'v) dict" where
  "dsetdefault k v d = (if dmem k d then d else dset k v d)"

text \<open>
  The contract the dictionary clients rely on: what a lookup returns after a store or a removal,
  and that distinctness of the keys is kept.
\<close>

locale ordered_dict =
  fixes get :: "'d \<Rightarrow> 'k \<Rightarrow> 'v option"
    and put :: "'k \<Rightarrow> 'v \<Rightarrow> 'd \<Rightarrow> 'd"
    and pop :: "'k \<Rightarrow> 'd \<Rightarrow> 'd"
    and keys :: "'d \<Rightarrow> 'k list"
    and ok :: "'d \<Rightarrow> bool"
  assumes get_put: "get (put k v d) k' = (if k' = k then Some v else get d k')"
    and get_pop: "get (pop k d) k' = (if k' = k then None else get d k')"
    and get_keys: "get d k \<noteq> None \<longleftrightarrow> k \<in> set (keys d)"
    and ok_put: "ok d \<Longrightarrow> ok (put k v d)"
    and ok_pop: "ok d \<Longrightarrow> ok (pop k d)"
begin

lemma put_then_pop: "get (pop k (put k v d)) = get (pop k d)"
  by (rule ext) (simp add: get_pop get_put)

lemma put_commute: "k \<noteq> k' \<Longrightarrow> get (put k v (put k' v' d)) = get (put k' v' (put k v d))"
  by (rule ext) (simp add: get_put)

lemma set_keys_put: "set (keys (put k v d)) = insert k (set (keys d))"
  by (auto simp: get_put simp flip: get_keys split: if_splits)

lemma set_keys_pop: "set (keys (pop k d)) = set (keys d) - {k}"
  by (auto simp: get_pop simp flip: get_keys split: if_splits)

lemma ok_put_many: "ok d \<Longrightarrow> ok (fold (\<lambda>(k, v). put k v) kvs d)"
  by (induction kvs arbitrary: d) (auto intro: ok_put)

lemma ok_pop_many: "ok d \<Longrightarrow> ok (fold pop ks d)"
  by (induction ks arbitrary: d) (auto intro: ok_pop)

lemma get_pop_many: "get (fold pop ks d) k = (if k \<in> set ks then None else get d k)"
  by (induction ks arbitrary: d) (auto simp: get_pop)

end

lemma dget_dset [simp, dict_simps]: "dget (dset k v d) k' = (if k' = k then Some v else dget d k')"
  by (simp add: update_conv)

lemma dget_dpop [simp, dict_simps]: "dget (dpop k d) k' = (if k' = k then None else dget d k')"
  by (simp add: delete_conv)

lemma dict_ok_dset [simp, intro]: "dict_ok d \<Longrightarrow> dict_ok (dset k v d)"
  by (simp add: dict_ok_def distinct_update)

lemma dict_ok_dpop [simp, intro]: "dict_ok d \<Longrightarrow> dict_ok (dpop k d)"
  by (simp add: dict_ok_def distinct_delete)

interpretation pd: ordered_dict map_of AList.update AList.delete dkeys dict_ok
proof (unfold_locales, goal_cases)
  case (3 d k)
  show ?case by (metis map_of_eq_None_iff list.set_map)
qed (simp_all add: dict_ok_dset dict_ok_dpop)

lemma dict_ok_Nil [simp, intro]: "dict_ok []"
  by (simp add: dict_ok_def)

lemma dmem_iff: "dmem k d \<longleftrightarrow> k \<in> fst ` set d"
  by (auto simp: dmem_def map_of_eq_None_iff image_iff)

lemma dmem_dset [simp]: "dmem k' (dset k v d) \<longleftrightarrow> k' = k \<or> dmem k' d"
  by (auto simp: dmem_def)

lemma dmem_dpop [simp]: "dmem k' (dpop k d) \<longleftrightarrow> k' \<noteq> k \<and> dmem k' d"
  by (auto simp: dmem_def)

lemma dget_or_dset [simp, dict_simps]: "dget_or (dset k v d) k' x = (if k' = k then v else dget_or d k' x)"
  by (simp add: dget_or_def)

lemma dget_or_Nil [simp]: "dget_or [] k x = x"
  by (simp add: dget_or_def)

lemma dict_ok_dsetdefault [simp, intro]: "dict_ok d \<Longrightarrow> dict_ok (dsetdefault k v d)"
  by (simp add: dsetdefault_def)

lemma dget_dsetdefault [simp, dict_simps]:
  "dget (dsetdefault k v d) k' =
    (if k' = k then Some (dget_or d k v) else dget d k')"
  by (auto simp: dsetdefault_def dmem_def dget_or_def split: option.splits)

lemma dget_in_set: "dict_ok d \<Longrightarrow> dget d k = Some v \<longleftrightarrow> (k, v) \<in> set d"
  by (auto simp: dict_ok_def dest: map_of_SomeD)

lemma dset_new: "\<not> dmem k d \<Longrightarrow> dset k v d = d @ [(k, v)]"
  by (induction d) (auto simp: dmem_def split: if_splits)

lemma dset_values_subset: "set (dvalues (dset k v d)) \<subseteq> insert v (set (dvalues d))"
  by (induction d) auto

lemma dpop_values_subset: "set (dvalues (dpop k d)) \<subseteq> set (dvalues d)"
  by (auto simp: AList.delete_eq)

lemma dict_ok_map_values: "dict_ok (map (\<lambda>(k, v). (k, f k v)) d) \<longleftrightarrow> dict_ok d"
  by (simp add: dict_ok_def split_def comp_def)

lemma dget_map_values: "dget (map (\<lambda>(k, v). (k, f k v)) d) k = map_option (f k) (dget d k)"
  by (induction d) auto

lemma dict_ok_filter: "dict_ok d \<Longrightarrow> dict_ok (filter P d)"
  by (simp add: dict_ok_def distinct_map_filter)

lemma dget_filter_keys: "dget (filter (\<lambda>(k, v). P k) d) k = (if P k then dget d k else None)"
  by (induction d) auto


section \<open>Grouping: \<open>d.setdefault(k, []).append(x)\<close>\<close>

definition group_append :: "'k \<Rightarrow> 'v \<Rightarrow> ('k, 'v list) dict \<Rightarrow> ('k, 'v list) dict" where
  "group_append k x d = dset k (dget_or d k [] @ [x]) d"

definition group_by :: "('v \<Rightarrow> 'k) \<Rightarrow> 'v list \<Rightarrow> ('k, 'v list) dict" where
  "group_by f xs = fold (\<lambda>x. group_append (f x) x) xs []"

lemma dget_group_append [simp, dict_simps]:
  "dget (group_append k x d) k' = (if k' = k then Some (dget_or d k [] @ [x]) else dget d k')"
  by (simp add: group_append_def)

lemma dict_ok_group_append [simp, intro]: "dict_ok d \<Longrightarrow> dict_ok (group_append k x d)"
  by (simp add: group_append_def)

lemma dget_or_group_append:
  "dget_or (group_append k x d) k' [] = dget_or d k' [] @ (if k' = k then [x] else [])"
  by (simp add: dget_or_def)

lemma dget_or_group_fold:
  "dget_or (fold (\<lambda>x. group_append (f x) x) xs d) k [] = dget_or d k [] @ filter (\<lambda>x. f x = k) xs"
  by (induction xs arbitrary: d) (auto simp: dget_or_group_append)

lemma dict_ok_group_fold: "dict_ok d \<Longrightarrow> dict_ok (fold (\<lambda>x. group_append (f x) x) xs d)"
  by (induction xs arbitrary: d) auto

lemma dmem_group_fold: "dmem k (fold (\<lambda>x. group_append (f x) x) xs d) \<longleftrightarrow> dmem k d \<or> k \<in> f ` set xs"
  by (induction xs arbitrary: d) (auto simp: dmem_def dest: spec)

lemma dict_ok_group_by: "dict_ok (group_by f xs)"
  by (simp add: group_by_def dict_ok_group_fold)

lemma dget_group_by:
  "dget (group_by f xs) k = (if k \<in> f ` set xs then Some (filter (\<lambda>x. f x = k) xs) else None)"
  using dget_or_group_fold [of f xs "[]" k] dmem_group_fold [of k f xs "[]"]
  by (auto simp: group_by_def dget_or_def dmem_def split: option.splits)


section \<open>JSON-like values\<close>

datatype pyfloat = Fin real | PosInf | NegInf | NaN

definition is_finite :: "pyfloat \<Rightarrow> bool" where
  "is_finite x \<longleftrightarrow> (case x of Fin _ \<Rightarrow> True | _ \<Rightarrow> False)"

fun pyf_less :: "pyfloat \<Rightarrow> pyfloat \<Rightarrow> bool" where
  "pyf_less NaN y = False"
| "pyf_less x NaN = False"
| "pyf_less (Fin a) (Fin b) = (a < b)"
| "pyf_less NegInf NegInf = False"
| "pyf_less NegInf y = True"
| "pyf_less (Fin a) PosInf = True"
| "pyf_less (Fin a) NegInf = False"
| "pyf_less PosInf y = False"

fun pyf_eq :: "pyfloat \<Rightarrow> pyfloat \<Rightarrow> bool" where
  "pyf_eq (Fin a) (Fin b) = (a = b)"
| "pyf_eq PosInf PosInf = True"
| "pyf_eq NegInf NegInf = True"
| "pyf_eq _ _ = False"

text \<open>\<open>max(xs)\<close>: the first element, replaced whenever a later one compares greater.\<close>

definition pyf_max :: "pyfloat \<Rightarrow> pyfloat list \<Rightarrow> pyfloat" where
  "pyf_max x xs = fold (\<lambda>y m. if pyf_less m y then y else m) xs x"

datatype pyval =
    PNone
  | PBool bool
  | PInt int
  | PFloat pyfloat
  | PStr string
  | PList "pyval list"
  | PDict "(string \<times> pyval) list"

fun truthy :: "pyval \<Rightarrow> bool" where
  "truthy PNone = False"
| "truthy (PBool b) = b"
| "truthy (PInt i) = (i \<noteq> 0)"
| "truthy (PFloat x) = (\<not> pyf_eq x (Fin 0))"
| "truthy (PStr s) = (s \<noteq> [])"
| "truthy (PList xs) = (xs \<noteq> [])"
| "truthy (PDict d) = (d \<noteq> [])"

text \<open>\<open>v.get(k)\<close> on a dictionary value; \<open>None\<close> stands for a missing key and for a null.\<close>

definition pget :: "(string \<times> pyval) list \<Rightarrow> string \<Rightarrow> pyval" where
  "pget d k = (case dget d k of None \<Rightarrow> PNone | Some v \<Rightarrow> v)"

text \<open>Numbers compare across \<open>bool\<close>, \<open>int\<close> and \<open>float\<close>, as in Python.\<close>

fun num_of :: "pyval \<Rightarrow> pyfloat option" where
  "num_of (PBool b) = Some (Fin (if b then 1 else 0))"
| "num_of (PInt i) = Some (Fin (of_int i))"
| "num_of (PFloat x) = Some x"
| "num_of _ = None"

lemma size_dict_value [termination_simp]:
  "(k, v) \<in> set d \<Longrightarrow> size (v :: pyval) < Suc (size_list (size_prod (\<lambda>_. 0) size) d)"
  by (induction d) auto

lemma size_zip_left [termination_simp]:
  "(x, y) \<in> set (zip xs ys) \<Longrightarrow> size (x :: pyval) < Suc (size_list size xs)"
  using size_list_estimation' [of x xs "size x" size] by (auto dest: set_zip_leftD)

fun py_eq :: "pyval \<Rightarrow> pyval \<Rightarrow> bool" where
  "py_eq (PList xs) w =
     (case w of PList ys \<Rightarrow> length xs = length ys \<and> (\<forall>(x, y)\<in>set (zip xs ys). py_eq x y)
      | _ \<Rightarrow> False)"
| "py_eq (PDict d) w =
     (case w of PDict e \<Rightarrow> length d = length e \<and>
        (\<forall>(k, v)\<in>set d. case dget e k of None \<Rightarrow> False | Some u \<Rightarrow> py_eq v u)
      | _ \<Rightarrow> False)"
| "py_eq v w =
     (case (v, w) of
        (PNone, PNone) \<Rightarrow> True
      | (PStr s, PStr t) \<Rightarrow> s = t
      | (_, _) \<Rightarrow> (case (num_of v, num_of w) of (Some a, Some b) \<Rightarrow> pyf_eq a b | _ \<Rightarrow> False))"


text \<open>
  Equality is reflexive on values that hold no NaN and whose dictionaries have distinct keys.
\<close>

fun plain_value :: "pyval \<Rightarrow> bool" where
  "plain_value (PFloat x) = (x \<noteq> NaN)"
| "plain_value (PList xs) = (\<forall>x\<in>set xs. plain_value x)"
| "plain_value (PDict d) = (distinct (map fst d) \<and> (\<forall>(k, v)\<in>set d. plain_value v))"
| "plain_value _ = True"

lemma pyf_eq_refl: "x \<noteq> NaN \<Longrightarrow> pyf_eq x x"
  by (cases x) auto

lemma py_eq_refl: "plain_value v \<Longrightarrow> py_eq v v"
proof (induction v rule: plain_value.induct)
  case (2 xs)
  then show ?case by (auto simp: set_zip)
next
  case (3 d)
  have "dget d k = Some v" if "(k, v) \<in> set d" for k v
    using 3 that by (simp add: map_of_is_SomeI)
  with 3 show ?case by fastforce
qed (auto simp: pyf_eq_refl)

section \<open>Strings\<close>

text \<open>
  Text is a list of characters with code points below 256; the white space and letter case of
  the string methods are those of that range.
\<close>

definition is_space :: "char \<Rightarrow> bool" where
  "is_space c \<longleftrightarrow> c \<in> {CHR '' '', CHR 0x09, CHR 0x0A, CHR 0x0B, CHR 0x0C, CHR 0x0D,
     CHR 0x1C, CHR 0x1D, CHR 0x1E, CHR 0x1F, CHR 0x85, CHR 0xA0}"

definition lstrip_by :: "(char \<Rightarrow> bool) \<Rightarrow> string \<Rightarrow> string" where
  "lstrip_by p s = dropWhile p s"

definition rstrip_by :: "(char \<Rightarrow> bool) \<Rightarrow> string \<Rightarrow> string" where
  "rstrip_by p s = rev (dropWhile p (rev s))"

definition strip_by :: "(char \<Rightarrow> bool) \<Rightarrow> string \<Rightarrow> string" where
  "strip_by p s = rstrip_by p (lstrip_by p s)"

definition strip :: "string \<Rightarrow> string" where
  "strip s = strip_by is_space s"

definition lower_char :: "char \<Rightarrow> char" where
  "lower_char c =
     (if (CHR ''A'' \<le> c \<and> c \<le> CHR ''Z'') \<or> (CHR 0xC0 \<le> c \<and> c \<le> CHR 0xDE \<and> c \<noteq> CHR 0xD7)
      then char_of (of_char c + 32 :: nat) else c)"

definition lower :: "string \<Rightarrow> string" where
  "lower s = map lower_char s"

definition startswith :: "string \<Rightarrow> string \<Rightarrow> bool" where
  "startswith s p \<longleftrightarrow> take (length p) s = p"

lemma startswith_prefix: "startswith s p \<longleftrightarrow> prefix p s"
  unfolding startswith_def
  by (metis append_eq_conv_conj append_take_drop_id prefix_def)

definition endswith :: "string \<Rightarrow> string \<Rightarrow> bool" where
  "endswith s p \<longleftrightarrow> length p \<le> length s \<and> drop (length s - length p) s = p"

text \<open>\<open>needle in s\<close> on text.\<close>

fun contains_str :: "string \<Rightarrow> string \<Rightarrow> bool" where
  "contains_str [] needle \<longleftrightarrow> needle = []"
| "contains_str (c # s) needle \<longleftrightarrow> startswith (c # s) needle \<or> contains_str s needle"

definition is_alnum :: "char \<Rightarrow> bool" where
  "is_alnum c \<longleftrightarrow> (CHR ''A'' \<le> c \<and> c \<le> CHR ''Z'') \<or> (CHR ''a'' \<le> c \<and> c \<le> CHR ''z'') \<or>
     (CHR ''0'' \<le> c \<and> c \<le> CHR ''9'')"


text \<open>\<open>s.replace(",", " ").split()\<close> and friends: the maximal runs of non-separators.\<close>

fun split_ws :: "string \<Rightarrow> string \<Rightarrow> string list" where
  "split_ws cur [] = (if cur = [] then [] else [rev cur])"
| "split_ws cur (c # s) =
     (if is_space c then (if cur = [] then split_ws [] s else rev cur # split_ws [] s)
      else split_ws (c # cur) s)"

text \<open>Decimal rendering of counters, as \<open>str(n)\<close> and \<open>f"{n:06d}"\<close> print them.\<close>

definition digit_char :: "nat \<Rightarrow> char" where
  "digit_char n = char_of (48 + n)"

fun show_nat :: "nat \<Rightarrow> string" where
  "show_nat n = (if n < 10 then [digit_char n] else show_nat (n div 10) @ [digit_char (n mod 10)])"

declare show_nat.simps [simp del]

definition show_nat_padded :: "nat \<Rightarrow> nat \<Rightarrow> string" where
  "show_nat_padded w n = replicate (w - length (show_nat n)) (CHR ''0'') @ show_nat n"

fun digits_value :: "nat \<Rightarrow> string \<Rightarrow> nat" where
  "digits_value acc [] = acc"
| "digits_value acc (c # s) = digits_value (10 * acc + (of_char c - 48)) s"

lemma digits_value_append: "digits_value acc (s @ t) = digits_value (digits_value acc s) t"
  by (induction s arbitrary: acc) auto

lemma of_char_digit: "n < 10 \<Longrightarrow> of_char (digit_char n) = 48 + n"
  by (simp add: digit_char_def of_char_of)

lemma digits_value_show_nat: "digits_value 0 (show_nat n) = n"
proof (induction n rule: show_nat.induct)
  case (1 n)
  then show ?case
    by (subst show_nat.simps) (auto simp: digits_value_append of_char_digit)
qed

lemma digits_value_zeros: "digits_value 0 (replicate k (CHR ''0'') @ s) = digits_value 0 s"
  by (induction k) auto

lemma show_nat_padded_inject: "show_nat_padded w m = show_nat_padded w n \<longleftrightarrow> m = n"
  by (metis digits_value_show_nat digits_value_zeros show_nat_padded_def)

lemma show_nat_inject: "show_nat m = show_nat n \<longleftrightarrow> m = n"
  by (metis digits_value_show_nat)


section \<open>Conversions of JSON-like values\<close>

definition show_int :: "int \<Rightarrow> string" where
  "show_int i = (if i < 0 then CHR ''-'' # show_nat (nat (- i)) else show_nat (nat i))"

text \<open>\<open>str(v)\<close>.  The rendering of floats and containers is a parameter.\<close>

fun py_str :: "(pyval \<Rightarrow> string) \<Rightarrow> pyval \<Rightarrow> string" where
  "py_str repr (PStr s) = s"
| "py_str repr PNone = ''None''"
| "py_str repr (PBool b) = (if b then ''True'' else ''False'')"
| "py_str repr (PInt i) = show_int i"
| "py_str repr v = repr v"

text \<open>\<open>int(s)\<close> on text: an optional sign, then digits with single underscores between them.\<close>

fun int_digits :: "bool \<Rightarrow> string \<Rightarrow> string option" where
  "int_digits ok [] = (if ok then Some [] else None)"
| "int_digits ok (c # s) =
     (if CHR ''0'' \<le> c \<and> c \<le> CHR ''9'' then map_option ((#) c) (int_digits True s)
      else if c = CHR ''_'' \<and> ok then int_digits False s else None)"

definition parse_int :: "string \<Rightarrow> int option" where
  "parse_int s =
     (case strip s of
        [] \<Rightarrow> None
      | c # t \<Rightarrow>
          (let (neg, body) = (if c = CHR ''-'' then (True, t)
                              else if c = CHR ''+'' then (False, t) else (False, c # t))
           in case int_digits False body of None \<Rightarrow> None
              | Some ds \<Rightarrow> Some ((if neg then - 1 else 1) * int (digits_value 0 ds))))"

fun py_int :: "pyval \<Rightarrow> int result" where
  "py_int (PInt i) = Inr i"
| "py_int (PBool b) = Inr (if b then 1 else 0)"
| "py_int (PFloat (Fin r)) = Inr (if 0 \<le> r then \<lfloor>r\<rfloor> else \<lceil>r\<rceil>)"
| "py_int (PFloat NaN) = Inl (ValueError ''cannot convert float NaN to integer'')"
| "py_int (PFloat _) = Inl (OtherError ''OverflowError'')"
| "py_int (PStr s) = (case parse_int s of Some i \<Rightarrow> Inr i | None \<Rightarrow> Inl (ValueError ''invalid literal for int()''))"
| "py_int _ = Inl (TypeError ''int() argument must be a string or a number'')"

text \<open>
  What the sources use of the standard library and is not spelled out: JSON parsing (\<open>None\<close> for
  a \<open>JSONDecodeError\<close>), JSON printing with sorted keys and compact separators, the rendering of
  floats and containers by \<open>str\<close>, SHA-256 in hexadecimal, and \<open>float\<close> on text.
\<close>

record py_lib =
  json_loads :: "string \<Rightarrow> pyval option"
  json_dumps :: "pyval \<Rightarrow> string"
  py_repr :: "pyval \<Rightarrow> string"
  sha256_hex :: "string \<Rightarrow> string"
  text_float :: "string \<Rightarrow> pyfloat option"

definition py_float :: "py_lib \<Rightarrow> pyval \<Rightarrow> pyfloat option" where
  "py_float lib v = (case v of PStr s \<Rightarrow> text_float lib s | _ \<Rightarrow> num_of v)"

text \<open>\<open>for x in v\<close>.\<close>

fun py_iter :: "pyval \<Rightarrow> pyval list result" where
  "py_iter (PList xs) = Inr xs"
| "py_iter (PDict d) = Inr (map PStr (dkeys d))"
| "py_iter (PStr s) = Inr (map (\<lambda>c. PStr [c]) s)"
| "py_iter _ = Inl (TypeError ''object is not iterable'')"

text \<open>\<open>d[k]\<close>.\<close>

definition pkey :: "(string \<times> pyval) list \<Rightarrow> string \<Rightarrow> pyval result" where
  "pkey d k = (case dget d k of None \<Rightarrow> Inl (KeyError k) | Some v \<Rightarrow> Inr v)"


section \<open>Lists\<close>

text \<open>\<open>xs[a:b]\<close> with Python's treatment of negative and out-of-range bounds.\<close>

definition slice_bound :: "nat \<Rightarrow> int \<Rightarrow> nat" where
  "slice_bound n i = nat (if i < 0 then max 0 (int n + i) else min i (int n))"

definition pyslice :: "'a list \<Rightarrow> int \<Rightarrow> int \<Rightarrow> 'a list" where
  "pyslice xs a b =
     (let lo = slice_bound (length xs) a; hi = slice_bound (length xs) b
      in take (hi - lo) (drop lo xs))"

lemma slice_bound_nat [simp]: "slice_bound n (int i) = min i n"
  by (auto simp: slice_bound_def)

lemma pyslice_nat: "pyslice xs (int a) (int b) = take (b - a) (drop a xs)"
proof (cases "a \<le> length xs")
  case True
  then show ?thesis by (auto simp: pyslice_def Let_def min_def)
next
  case False
  then show ?thesis by (simp add: pyslice_def Let_def)
qed

lemma length_concat_map: "length (concat (map f xs)) = sum_list (map (\<lambda>x. length (f x)) xs)"
  by (induction xs) auto

lemma list_all2_concat_length:
  assumes "list_all (\<lambda>x. length (f x) = length (g x)) xs"
  shows "length (concat (map f xs)) = length (concat (map g xs))"
  using assms by (induction xs) auto

text \<open>Order-preserving removal of later duplicates.\<close>

fun ordered_unique_onto :: "'a list \<Rightarrow> 'a list \<Rightarrow> 'a list" where
  "ordered_unique_onto acc [] = acc"
| "ordered_unique_onto acc (x # xs) =
     ordered_unique_onto (if x \<in> set acc then acc else acc @ [x]) xs"

lemma set_ordered_unique_onto: "set (ordered_unique_onto acc xs) = set acc \<union> set xs"
  by (induction xs arbitrary: acc) auto

lemma distinct_ordered_unique_onto: "distinct acc \<Longrightarrow> distinct (ordered_unique_onto acc xs)"
  by (induction xs arbitrary: acc) auto

lemma ordered_unique_onto_prefix: "prefix acc (ordered_unique_onto acc xs)"
proof (induction xs arbitrary: acc)
  case (Cons x xs)
  have "prefix acc (if x \<in> set acc then acc else acc @ [x])" by simp
  with Cons.IH show ?case by (metis ordered_unique_onto.simps(2) prefix_order.trans)
qed simp

text \<open>
  A reduction over list elements that keeps a projection of the state keeps it over the whole
  list; used for the frame conditions of the loops.
\<close>

lemma fold_invariant_proj: "(\<And>x s. x \<in> set xs \<Longrightarrow> g (f x s) = g s) \<Longrightarrow> g (fold f xs s) = g s"
  by (induction xs arbitrary: s) auto

lemma fold_invariant_pred:
  "\<lbrakk>P s; \<And>x s. x \<in> set xs \<Longrightarrow> P s \<Longrightarrow> P (f x s)\<rbrakk> \<Longrightarrow> P (fold f xs s)"
  by (induction xs arbitrary: s) auto


section \<open>Invariants of transition systems\<close>

text \<open>
  Components whose handlers interleave are step relations.  The contract below is what each of
  them discharges once; its consequence is the invariant in every reachable state.
\<close>

locale transition_system =
  fixes init :: "'s \<Rightarrow> bool"
    and step :: "'s \<Rightarrow> 's \<Rightarrow> bool"
    and inv :: "'s \<Rightarrow> bool"
  assumes init_inv: "init s \<Longrightarrow> inv s"
    and step_inv: "\<lbrakk>inv s; step s t\<rbrakk> \<Longrightarrow> inv t"
begin

lemma steps_inv: "\<lbrakk>step\<^sup>*\<^sup>* s t; inv s\<rbrakk> \<Longrightarrow> inv t"
  by (induction rule: rtranclp_induct) (auto intro: step_inv)

lemma reach_inv: "\<lbrakk>init s; step\<^sup>*\<^sup>* s t\<rbrakk> \<Longrightarrow> inv t"
  by (auto intro: steps_inv init_inv)

end

end
