(* ===== verification/Transport.thy ===== *)
theory Transport
  imports Prelude
begin

text \<open>
  TransferQueue field offload: the typed references, fragments and layouts of
  \<open>dressage/transport/fields.py\<close> with their dictionary codecs, the layout builders of
  \<open>dressage/transport/layouts.py\<close>, and the materialisation of a logprob layout on the training
  side (\<open>dressage/training/tq_hydration.py\<close>).  The lemmas show that the codecs round-trip, that a
  linear layout tiles its token range, and that materialising a layout built from per-step
  columns gives back the concatenation of those columns.  The TransferQueue client itself is a
  third-party package and enters only as the table of fetched values.
\<close>

section \<open>References, fragments, layouts\<close>

definition TQ_FIELD_REF_SCHEMA :: string where
  "TQ_FIELD_REF_SCHEMA = ''dressage.tq.field-ref.v1''"

definition TQ_FIELD_FRAGMENT_SCHEMA :: string where
  "TQ_FIELD_FRAGMENT_SCHEMA = ''dressage.tq.field-fragment.v1''"

definition TQ_FIELD_LAYOUT_SCHEMA :: string where
  "TQ_FIELD_LAYOUT_SCHEMA = ''dressage.tq.field-layout.v1''"

definition TQ_TRAJECTORY_REF_SCHEMA :: string where
  "TQ_TRAJECTORY_REF_SCHEMA = ''dressage.tq.trajectory-ref.v1''"

definition TQ_LOGPROBS_CODEC :: string where
  "TQ_LOGPROBS_CODEC = ''float32''"

definition TQ_ROUTED_EXPERTS_CODEC :: string where
  "TQ_ROUTED_EXPERTS_CODEC = ''routed_experts_chunks''"

record TQFieldRef =
  ref_store_id :: string
  ref_partition :: string
  ref_key :: string
  ref_field :: string
  ref_incarnation_id :: string
  ref_schema_version :: string

record TQFieldFragment =
  frag_ref :: TQFieldRef
  frag_source_start :: int
  frag_target_start :: int
  frag_length :: int
  frag_schema_version :: string

record TQFieldLayout =
  lay_logical_field :: string
  lay_codec :: string
  lay_fragments :: "TQFieldFragment list"
  lay_token_count :: int
  lay_shape :: "int list option"
  lay_schema_version :: string

record TQTrajectoryRef =
  traj_store_id :: string
  traj_trajectory_id :: string
  traj_incarnation_id :: string
  traj_refs :: "TQFieldRef list"
  traj_schema_version :: string

definition has_schema :: "pyval \<Rightarrow> string \<Rightarrow> bool" where
  "has_schema v schema \<longleftrightarrow>
     (case v of PDict d \<Rightarrow> py_eq (pget d ''schema_version'') (PStr schema) | _ \<Rightarrow> False)"

definition is_tq_field_ref_dict :: "pyval \<Rightarrow> bool" where
  "is_tq_field_ref_dict v = has_schema v TQ_FIELD_REF_SCHEMA"

definition is_tq_field_fragment_dict :: "pyval \<Rightarrow> bool" where
  "is_tq_field_fragment_dict v = has_schema v TQ_FIELD_FRAGMENT_SCHEMA"

definition is_tq_field_layout_dict :: "pyval \<Rightarrow> bool" where
  "is_tq_field_layout_dict v = has_schema v TQ_FIELD_LAYOUT_SCHEMA"

definition is_tq_trajectory_ref_dict :: "pyval \<Rightarrow> bool" where
  "is_tq_trajectory_ref_dict v = has_schema v TQ_TRAJECTORY_REF_SCHEMA"

text \<open>The entries of a value already known to be a mapping.\<close>

fun dict_entries :: "pyval \<Rightarrow> (string \<times> pyval) list" where
  "dict_entries (PDict d) = d"
| "dict_entries _ = []"

definition str_key :: "(pyval \<Rightarrow> string) \<Rightarrow> (string \<times> pyval) list \<Rightarrow> string \<Rightarrow> string result" where
  "str_key repr d k = rbind (pkey d k) (\<lambda>v. Inr (py_str repr v))"

definition int_key :: "(string \<times> pyval) list \<Rightarrow> string \<Rightarrow> int result" where
  "int_key d k = rbind (pkey d k) py_int"

definition field_ref_to_dict :: "TQFieldRef \<Rightarrow> pyval" where
  "field_ref_to_dict r = PDict
     [(''schema_version'', PStr (ref_schema_version r)),
      (''store_id'', PStr (ref_store_id r)),
      (''partition'', PStr (ref_partition r)),
      (''key'', PStr (ref_key r)),
      (''field'', PStr (ref_field r)),
      (''incarnation_id'', PStr (ref_incarnation_id r))]"

definition field_ref_from_dict :: "(pyval \<Rightarrow> string) \<Rightarrow> pyval \<Rightarrow> TQFieldRef result" where
  "field_ref_from_dict repr v =
     (if \<not> is_tq_field_ref_dict v
      then Inl (ValueError ''TransferQueue field reference schema does not match'')
      else let d = dict_entries v in
        rbind (str_key repr d ''store_id'') (\<lambda>sid.
        rbind (str_key repr d ''partition'') (\<lambda>p.
        rbind (str_key repr d ''key'') (\<lambda>k.
        rbind (str_key repr d ''field'') (\<lambda>f.
        rbind (str_key repr d ''incarnation_id'') (\<lambda>inc.
        rbind (str_key repr d ''schema_version'') (\<lambda>sv.
          Inr \<lparr>ref_store_id = sid, ref_partition = p, ref_key = k, ref_field = f,
               ref_incarnation_id = inc, ref_schema_version = sv\<rparr>)))))))"

definition fragment_to_dict :: "TQFieldFragment \<Rightarrow> pyval" where
  "fragment_to_dict f = PDict
     [(''schema_version'', PStr (frag_schema_version f)),
      (''ref'', field_ref_to_dict (frag_ref f)),
      (''source_start'', PInt (frag_source_start f)),
      (''target_start'', PInt (frag_target_start f)),
      (''length'', PInt (frag_length f))]"

definition fragment_from_dict :: "(pyval \<Rightarrow> string) \<Rightarrow> pyval \<Rightarrow> TQFieldFragment result" where
  "fragment_from_dict repr v =
     (if \<not> is_tq_field_fragment_dict v
      then Inl (ValueError ''TransferQueue field fragment schema does not match'')
      else let d = dict_entries v in
        rbind (pkey d ''ref'') (\<lambda>rv.
        rbind (field_ref_from_dict repr rv) (\<lambda>r.
        rbind (int_key d ''source_start'') (\<lambda>s.
        rbind (int_key d ''target_start'') (\<lambda>t.
        rbind (int_key d ''length'') (\<lambda>n.
        rbind (str_key repr d ''schema_version'') (\<lambda>sv.
          Inr \<lparr>frag_ref = r, frag_source_start = s, frag_target_start = t, frag_length = n,
               frag_schema_version = sv\<rparr>)))))))"

definition layout_to_dict :: "TQFieldLayout \<Rightarrow> pyval" where
  "layout_to_dict l = PDict
     [(''schema_version'', PStr (lay_schema_version l)),
      (''logical_field'', PStr (lay_logical_field l)),
      (''codec'', PStr (lay_codec l)),
      (''fragments'', PList (map fragment_to_dict (lay_fragments l))),
      (''token_count'', PInt (lay_token_count l)),
      (''shape'', (case lay_shape l of None \<Rightarrow> PNone | Some sh \<Rightarrow> PList (map PInt sh)))]"

definition shape_from_value :: "pyval \<Rightarrow> int list option result" where
  "shape_from_value v =
     (if v = PNone then Inr None
      else rbind (py_iter v) (\<lambda>xs. rbind (rmap py_int xs) (\<lambda>is. Inr (Some is))))"

definition layout_from_dict :: "(pyval \<Rightarrow> string) \<Rightarrow> pyval \<Rightarrow> TQFieldLayout result" where
  "layout_from_dict repr v =
     (if \<not> is_tq_field_layout_dict v
      then Inl (ValueError ''TransferQueue field layout schema does not match'')
      else let d = dict_entries v in
        rbind (str_key repr d ''logical_field'') (\<lambda>lf.
        rbind (str_key repr d ''codec'') (\<lambda>c.
        rbind (pkey d ''fragments'') (\<lambda>fv.
        rbind (py_iter fv) (\<lambda>fvs.
        rbind (rmap (fragment_from_dict repr) fvs) (\<lambda>fs.
        rbind (int_key d ''token_count'') (\<lambda>n.
        rbind (shape_from_value (pget d ''shape'')) (\<lambda>sh.
        rbind (str_key repr d ''schema_version'') (\<lambda>sv.
          Inr \<lparr>lay_logical_field = lf, lay_codec = c, lay_fragments = fs, lay_token_count = n,
               lay_shape = sh, lay_schema_version = sv\<rparr>)))))))))"

definition trajectory_ref_to_dict :: "TQTrajectoryRef \<Rightarrow> pyval" where
  "trajectory_ref_to_dict t = PDict
     [(''schema_version'', PStr (traj_schema_version t)),
      (''store_id'', PStr (traj_store_id t)),
      (''trajectory_id'', PStr (traj_trajectory_id t)),
      (''incarnation_id'', PStr (traj_incarnation_id t)),
      (''refs'', PList (map field_ref_to_dict (traj_refs t)))]"

definition trajectory_ref_from_dict :: "(pyval \<Rightarrow> string) \<Rightarrow> pyval \<Rightarrow> TQTrajectoryRef result" where
  "trajectory_ref_from_dict repr v =
     (if \<not> is_tq_trajectory_ref_dict v
      then Inl (ValueError ''TransferQueue trajectory reference schema does not match'')
      else let d = dict_entries v in
        rbind (str_key repr d ''store_id'') (\<lambda>sid.
        rbind (str_key repr d ''trajectory_id'') (\<lambda>tid.
        rbind (str_key repr d ''incarnation_id'') (\<lambda>inc.
        rbind (pkey d ''refs'') (\<lambda>rv.
        rbind (py_iter rv) (\<lambda>rvs.
        rbind (rmap (field_ref_from_dict repr) rvs) (\<lambda>rs.
        rbind (str_key repr d ''schema_version'') (\<lambda>sv.
          Inr \<lparr>traj_store_id = sid, traj_trajectory_id = tid, traj_incarnation_id = inc,
               traj_refs = rs, traj_schema_version = sv\<rparr>))))))))"

text \<open>The schema tags the constructors put by default.\<close>

definition ref_ok :: "TQFieldRef \<Rightarrow> bool" where
  "ref_ok r \<longleftrightarrow> ref_schema_version r = TQ_FIELD_REF_SCHEMA"

definition fragment_ok :: "TQFieldFragment \<Rightarrow> bool" where
  "fragment_ok f \<longleftrightarrow> frag_schema_version f = TQ_FIELD_FRAGMENT_SCHEMA \<and> ref_ok (frag_ref f)"

definition layout_ok :: "TQFieldLayout \<Rightarrow> bool" where
  "layout_ok l \<longleftrightarrow> lay_schema_version l = TQ_FIELD_LAYOUT_SCHEMA \<and>
     (\<forall>f\<in>set (lay_fragments l). fragment_ok f)"

definition trajectory_ref_ok :: "TQTrajectoryRef \<Rightarrow> bool" where
  "trajectory_ref_ok t \<longleftrightarrow> traj_schema_version t = TQ_TRAJECTORY_REF_SCHEMA \<and>
     (\<forall>r\<in>set (traj_refs t). ref_ok r)"

section \<open>Transfer parameters\<close>

definition SUPPORTED_TRANSFER_PARAMS :: "string list" where
  "SUPPORTED_TRANSFER_PARAMS = [''logprobs'', ''routed_experts'']"

definition split_params :: "string \<Rightarrow> string list" where
  "split_params s = split_ws [] (map (\<lambda>c. if c = CHR '','' then CHR '' '' else c) s)"

text \<open>
  The argument is \<open>None\<close>, one string, or an iterable of strings; a single string is first split
  and then treated as such an iterable.
\<close>

datatype transfer_arg = NoParams | OneParam string | ManyParams "string list"

definition normalize_transfer_params :: "transfer_arg \<Rightarrow> string list result" where
  "normalize_transfer_params a =
     (case a of NoParams \<Rightarrow> Inr []
      | _ \<Rightarrow>
        (let values = (case a of OneParam s \<Rightarrow> split_params s | ManyParams vs \<Rightarrow> vs | NoParams \<Rightarrow> []);
             requested = concat (map split_params values)
         in if \<exists>r\<in>set requested. r \<notin> set SUPPORTED_TRANSFER_PARAMS
            then Inl (ValueError ''Unsupported TransferQueue parameters'')
            else Inr (filter (\<lambda>name. name \<in> set requested) SUPPORTED_TRANSFER_PARAMS)))"

definition resolve_step_transfer_fields :: "transfer_arg \<Rightarrow> string \<Rightarrow> string list result" where
  "resolve_step_transfer_fields a token_build_mode =
     (if token_build_mode \<notin> {''snapshot'', ''tito''}
      then Inl (ValueError ''Unsupported token build mode'')
      else rbind (normalize_transfer_params a) (\<lambda>params. Inr
        ((if ''logprobs'' \<in> set params
          then [''prompt_token_logprobs'', ''response_logprobs'', ''all_logprobs''] @
               (if token_build_mode = ''tito'' then [''concat_response_logprobs''] else [])
          else []) @
         (if ''routed_experts'' \<in> set params then [''response_routed_experts_chunks''] else []))))"

section \<open>Layout builders\<close>

fun linear_fragments :: "TQFieldRef list \<Rightarrow> int list \<Rightarrow> int \<Rightarrow> TQFieldFragment list" where
  "linear_fragments (r # rs) (n # ns) offset =
     \<lparr>frag_ref = r, frag_source_start = 0, frag_target_start = offset, frag_length = n,
      frag_schema_version = TQ_FIELD_FRAGMENT_SCHEMA\<rparr> # linear_fragments rs ns (offset + n)"
| "linear_fragments _ _ _ = []"

definition build_linear_layout ::
  "TQFieldRef list \<Rightarrow> int list \<Rightarrow> string \<Rightarrow> string \<Rightarrow> int \<Rightarrow> int \<Rightarrow> int list option \<Rightarrow> TQFieldLayout result"
where
  "build_linear_layout refs lengths logical_field codec token_count target_start shape =
     (if length refs \<noteq> length lengths then Inl (ValueError ''zip() arguments differ in length'')
      else Inr \<lparr>lay_logical_field = logical_field, lay_codec = codec,
                lay_fragments = linear_fragments refs lengths target_start,
                lay_token_count = token_count, lay_shape = shape,
                lay_schema_version = TQ_FIELD_LAYOUT_SCHEMA\<rparr>)"

text \<open>
  \<open>tofloat\<close> is Python's \<open>float\<close>, with \<open>None\<close> for the \<open>TypeError\<close> and \<open>ValueError\<close> that the
  loop treats alike.
\<close>

definition normalize_logprobs_to_length ::
  "('a \<Rightarrow> pyfloat option) \<Rightarrow> 'a list \<Rightarrow> nat \<Rightarrow> pyfloat list \<times> bool" where
  "normalize_logprobs_to_length tofloat values token_count =
     fold (\<lambda>index (normalized, invalid).
        if index \<ge> length values then (normalized @ [Fin 0], invalid)
        else case tofloat (values ! index) of
               Some x \<Rightarrow> (normalized @ [x], invalid)
             | None \<Rightarrow> (normalized @ [Fin 0], True))
       [0..<token_count] ([], length values \<noteq> token_count)"

datatype 'a field_value = Local 'a | Remote TQFieldRef

datatype 'a built_field = Actual 'a | Layout TQFieldLayout

fun is_remote :: "'a field_value \<Rightarrow> bool" where
  "is_remote (Remote r) = True"
| "is_remote (Local x) = False"

definition remote_refs :: "'a field_value list \<Rightarrow> TQFieldRef list" where
  "remote_refs vs = concat (map (\<lambda>v. case v of Remote r \<Rightarrow> [r] | Local x \<Rightarrow> []) vs)"

definition local_values :: "'a field_value list \<Rightarrow> 'a list" where
  "local_values vs = concat (map (\<lambda>v. case v of Remote r \<Rightarrow> [] | Local x \<Rightarrow> [x]) vs)"

definition build_snapshot_logprobs ::
  "('a \<Rightarrow> pyfloat option) \<Rightarrow> 'a list field_value \<Rightarrow> nat \<Rightarrow> nat \<Rightarrow> nat \<Rightarrow> bool
    \<Rightarrow> (pyfloat list built_field \<times> bool) result" where
  "build_snapshot_logprobs tofloat value prompt_length response_length token_count remote_invalid =
     (if prompt_length + response_length \<noteq> token_count
      then Inl (RuntimeError ''snapshot logprobs are not aligned with trajectory tokens'')
      else case value of
        Remote r \<Rightarrow>
          rbind (build_linear_layout [r] [int response_length] ''full_logprobs'' TQ_LOGPROBS_CODEC
                  (int token_count) (int prompt_length) (Some [int token_count]))
            (\<lambda>l. Inr (Layout l, remote_invalid))
      | Local values \<Rightarrow>
          (let (normalized, invalid) = normalize_logprobs_to_length tofloat values response_length
           in Inr (Actual (replicate prompt_length (Fin 0) @ normalized), invalid)))"

definition build_concatenated_logprobs ::
  "pyfloat list field_value list \<Rightarrow> nat list \<Rightarrow> nat \<Rightarrow> pyfloat list built_field result" where
  "build_concatenated_logprobs values lengths token_count =
     (if sum_list lengths \<noteq> token_count
      then Inl (RuntimeError ''TITO logprobs are not aligned with trajectory tokens'')
      else let refs = remote_refs values in
        if refs = [] then
          (let result = concat (local_values values) in
           if length result \<noteq> token_count
           then Inl (RuntimeError ''TITO logprobs are not aligned with trajectory tokens'')
           else Inr (Actual result))
        else if length refs \<noteq> length values
        then Inl (RuntimeError ''TITO logprobs cannot mix local values and TransferQueue refs'')
        else rbind (build_linear_layout refs (map int lengths) ''full_logprobs'' TQ_LOGPROBS_CODEC
                     (int token_count) 0 (Some [int token_count]))
               (\<lambda>l. Inr (Layout l)))"

definition build_concatenated_routed_experts ::
  "'c list field_value list \<Rightarrow> nat list \<Rightarrow> nat \<Rightarrow> 'c list built_field option result" where
  "build_concatenated_routed_experts values lengths token_count =
     (let refs = remote_refs values in
      if refs = [] then
        (let chunks = concat (local_values values) in
         Inr (if chunks = [] then None else Some (Actual chunks)))
      else if length refs \<noteq> length values
      then Inl (RuntimeError ''routed experts cannot mix local values and TransferQueue refs'')
      else let expected_rows = token_count - 1 in
        if sum_list lengths \<noteq> expected_rows
        then Inl (RuntimeError ''routed experts layout is not aligned with trajectory tokens'')
        else rbind (build_linear_layout refs (map int lengths) ''routed_experts''
                     TQ_ROUTED_EXPERTS_CODEC (int token_count) 0 (Some [int expected_rows]))
               (\<lambda>l. Inr (Some (Layout l))))"

section \<open>Materialisation on the training side\<close>

type_synonym value_key = "string \<times> string \<times> string \<times> string"

definition value_key :: "TQFieldRef \<Rightarrow> value_key" where
  "value_key r = (ref_store_id r, ref_partition r, ref_key r, ref_field r)"

text \<open>
  \<open>output[a:b] = source\<close> on a one-dimensional tensor: sizes must agree, a single element is
  broadcast.
\<close>

definition tensor_assign :: "'a list \<Rightarrow> int \<Rightarrow> int \<Rightarrow> 'a list \<Rightarrow> 'a list result" where
  "tensor_assign xs a b ys =
     (let lo = slice_bound (length xs) a; hi = slice_bound (length xs) b; n = hi - lo in
      if length ys = n then Inr (take lo xs @ ys @ drop (lo + n) xs)
      else if length ys = 1 then Inr (take lo xs @ replicate n (hd ys) @ drop (lo + n) xs)
      else Inl (RuntimeError ''The expanded size of the tensor must match''))"

text \<open>One fragment copied into the output; \<open>coerce\<close> is the float32 conversion of a value.\<close>

definition copy_fragment ::
  "('a \<Rightarrow> pyfloat) \<Rightarrow> (value_key, 'a list) dict \<Rightarrow> int \<Rightarrow> TQFieldFragment \<Rightarrow> pyfloat list
    \<Rightarrow> pyfloat list result" where
  "copy_fragment coerce values token_count fragment output =
     (let copy_length = min (frag_length fragment) (max 0 (token_count - frag_target_start fragment)) in
      if copy_length \<le> 0 then Inr output
      else case dget values (value_key (frag_ref fragment)) of
        None \<Rightarrow> Inl (KeyError ''layout value'')
      | Some column \<Rightarrow>
          (let source = map coerce (pyslice column (frag_source_start fragment)
                                     (frag_source_start fragment + copy_length)) in
           if source = [] then Inr output
           else tensor_assign output (frag_target_start fragment)
                  (frag_target_start fragment + int (length source)) source))"

fun copy_fragments ::
  "('a \<Rightarrow> pyfloat) \<Rightarrow> (value_key, 'a list) dict \<Rightarrow> int \<Rightarrow> TQFieldFragment list \<Rightarrow> pyfloat list
    \<Rightarrow> pyfloat list result" where
  "copy_fragments coerce values token_count [] output = Inr output"
| "copy_fragments coerce values token_count (f # fs) output =
     rbind (copy_fragment coerce values token_count f output)
       (\<lambda>output'. copy_fragments coerce values token_count fs output')"

definition materialize_logprobs ::
  "('a \<Rightarrow> pyfloat) \<Rightarrow> TQFieldLayout \<Rightarrow> (value_key, 'a list) dict \<Rightarrow> nat \<Rightarrow> pyfloat list result" where
  "materialize_logprobs coerce layout values token_count =
     (if lay_codec layout \<noteq> TQ_LOGPROBS_CODEC
      then Inl (ValueError ''TransferQueue logprob layout codec does not match'')
      else if lay_token_count layout < int token_count
      then Inl (ValueError ''TransferQueue logprob layout is shorter than the sample'')
      else copy_fragments coerce values (int token_count) (lay_fragments layout)
             (replicate token_count (Fin 0)))"

text \<open>
  \<open>_coerce_float32_tensor\<close> element by element: what \<open>float\<close> accepts is rounded to single
  precision (\<open>to_f32\<close>), anything else becomes zero.
\<close>

definition coerce_float32 :: "(pyfloat \<Rightarrow> pyfloat) \<Rightarrow> ('a \<Rightarrow> pyfloat option) \<Rightarrow> 'a \<Rightarrow> pyfloat" where
  "coerce_float32 to_f32 tofloat x = (case tofloat x of Some y \<Rightarrow> to_f32 y | None \<Rightarrow> Fin 0)"

record routed_chunk =
  chunk_row_count :: int
  chunk_dtype :: string
  chunk_data :: "int list"

fun rows_of :: "nat \<Rightarrow> nat \<Rightarrow> 'a list \<Rightarrow> 'a list list" where
  "rows_of 0 width xs = []"
| "rows_of (Suc n) width xs = take width xs # rows_of n width (drop width xs)"

definition decode_chunk :: "nat \<Rightarrow> routed_chunk \<Rightarrow> int list list result" where
  "decode_chunk width c =
     (if chunk_dtype c \<notin> {''uint8'', ''uint16'', ''int32''}
      then Inl (ValueError ''unsupported routed experts dtype'')
      else if int (length (chunk_data c)) \<noteq> chunk_row_count c * int width
      then Inl (ValueError ''TransferQueue routed experts chunk shape does not match'')
      else Inr (rows_of (nat (chunk_row_count c)) width (chunk_data c)))"

definition decode_routed_experts_chunks :: "routed_chunk list \<Rightarrow> nat \<Rightarrow> int list list result" where
  "decode_routed_experts_chunks chunks width =
     rbind (rmap (decode_chunk width) chunks) (\<lambda>arrays. Inr (concat arrays))"

definition copy_rows ::
  "(value_key, routed_chunk list) dict \<Rightarrow> nat \<Rightarrow> int \<Rightarrow> TQFieldFragment \<Rightarrow> int list list
    \<Rightarrow> int list list result" where
  "copy_rows values width target_rows fragment output =
     (case dget values (value_key (frag_ref fragment)) of
        None \<Rightarrow> Inl (KeyError ''layout value'')
      | Some chunks \<Rightarrow>
          rbind (decode_routed_experts_chunks chunks width) (\<lambda>source.
            if int (length source) < frag_source_start fragment + frag_length fragment
            then Inl (ValueError ''TransferQueue routed experts fragment is shorter than its layout'')
            else
              (let copy_length = min (frag_length fragment)
                                   (max 0 (target_rows - frag_target_start fragment)) in
               if copy_length = 0 then Inr output
               else tensor_assign output (frag_target_start fragment)
                      (frag_target_start fragment + copy_length)
                      (pyslice source (frag_source_start fragment)
                        (frag_source_start fragment + copy_length)))))"

fun copy_rows_all ::
  "(value_key, routed_chunk list) dict \<Rightarrow> nat \<Rightarrow> int \<Rightarrow> TQFieldFragment list \<Rightarrow> int list list
    \<Rightarrow> int list list result" where
  "copy_rows_all values width target_rows [] output = Inr output"
| "copy_rows_all values width target_rows (f # fs) output =
     rbind (copy_rows values width target_rows f output)
       (\<lambda>output'. copy_rows_all values width target_rows fs output')"

text \<open>The rows of the result; each has \<open>num_layers * topk\<close> entries, which the code then regroups.\<close>

definition materialize_routed_experts ::
  "TQFieldLayout \<Rightarrow> (value_key, routed_chunk list) dict \<Rightarrow> nat \<Rightarrow> nat \<Rightarrow> nat
    \<Rightarrow> int list list result" where
  "materialize_routed_experts layout values token_count num_layers topk =
     (if lay_codec layout \<noteq> TQ_ROUTED_EXPERTS_CODEC
      then Inl (ValueError ''TransferQueue routed experts layout codec does not match'')
      else if lay_token_count layout < int token_count
      then Inl (ValueError ''TransferQueue routed experts layout is shorter than the sample'')
      else let width = num_layers * topk; target_rows = token_count - 1 in
        copy_rows_all values width (int target_rows) (lay_fragments layout)
          (replicate target_rows (replicate width 0)))"

text \<open>
  The reads of a batch.  A bundle maps logical fields to layouts; the keys wanted from each
  column are collected without repetition and fetched in one call per column.  \<open>batch_get\<close> is
  the TransferQueue client: the values of the keys of one partition and field, in order.
\<close>

type_synonym layout_bundle = "(string, TQFieldLayout) dict"
type_synonym 'v batch_get = "string list \<Rightarrow> string \<Rightarrow> string \<Rightarrow> 'v list result"

definition add_request ::
  "TQFieldRef \<Rightarrow> (string \<times> string \<times> string, string list) dict
    \<Rightarrow> (string \<times> string \<times> string, string list) dict" where
  "add_request r requests =
     (let rk = (ref_store_id r, ref_partition r, ref_field r); keys = dget_or requests rk [] in
      dset rk (if ref_key r \<in> set keys then keys else keys @ [ref_key r]) requests)"

definition bundle_refs :: "layout_bundle list \<Rightarrow> string list \<Rightarrow> TQFieldRef list" where
  "bundle_refs layouts logical_fields =
     concat (map (\<lambda>bundle. concat (map (\<lambda>f. case dget bundle f of None \<Rightarrow> []
        | Some l \<Rightarrow> map frag_ref (lay_fragments l)) logical_fields)) layouts)"

definition read_column ::
  "'v batch_get \<Rightarrow> string \<times> string \<times> string \<Rightarrow> string list \<Rightarrow> (value_key, 'v) dict
    \<Rightarrow> (value_key, 'v) dict result" where
  "read_column batch_get rk keys values =
     (case rk of (store_id, part, field) \<Rightarrow>
        rbind (batch_get keys part field) (\<lambda>column.
          if length column \<noteq> length keys
          then Inl (RuntimeError ''TransferQueue returned an unexpected field value count'')
          else Inr (fold (\<lambda>(k, v). dset (store_id, part, k, field) v)
                      (zip keys column) values)))"

fun read_columns ::
  "'v batch_get \<Rightarrow> (string \<times> string \<times> string, string list) dict \<Rightarrow> (value_key, 'v) dict
    \<Rightarrow> (value_key, 'v) dict result" where
  "read_columns batch_get [] values = Inr values"
| "read_columns batch_get ((rk, keys) # rest) values =
     rbind (read_column batch_get rk keys values) (\<lambda>values'. read_columns batch_get rest values')"

definition read_layout_values ::
  "layout_bundle list \<Rightarrow> string list \<Rightarrow> 'v batch_get \<Rightarrow> (value_key, 'v) dict result" where
  "read_layout_values layouts logical_fields batch_get =
     read_columns batch_get (fold add_request (bundle_refs layouts logical_fields) []) []"

text \<open>The logprob part of \<open>hydrate_training_layouts\<close>, for one sample and then for the shard.\<close>

definition FULL_LOGPROBS_FIELD :: string where
  "FULL_LOGPROBS_FIELD = ''full_logprobs''"

definition hydrate_sample_logprobs ::
  "('a \<Rightarrow> pyfloat) \<Rightarrow> (value_key, 'a list) dict \<Rightarrow> layout_bundle \<times> nat \<times> nat \<Rightarrow> pyfloat list result"
where
  "hydrate_sample_logprobs coerce values sample =
     (case sample of (bundle, total_length, response_length) \<Rightarrow>
        case dget bundle FULL_LOGPROBS_FIELD of
          None \<Rightarrow> Inr (replicate response_length (Fin 0))
        | Some layout \<Rightarrow>
            rbind (materialize_logprobs coerce layout values total_length) (\<lambda>full.
              Inr (pyslice full (int total_length - int response_length) (int total_length))))"

definition hydrate_logprobs ::
  "('a \<Rightarrow> pyfloat) \<Rightarrow> layout_bundle list \<Rightarrow> nat list \<Rightarrow> nat list \<Rightarrow> 'a list batch_get
    \<Rightarrow> pyfloat list list result" where
  "hydrate_logprobs coerce layouts total_lengths response_lengths batch_get =
     (if length layouts \<noteq> length total_lengths
      then Inl (ValueError ''TransferQueue layout count does not match the DP shard'')
      else rbind (read_layout_values layouts [FULL_LOGPROBS_FIELD] batch_get) (\<lambda>values.
        if length response_lengths \<noteq> length total_lengths
        then Inl (ValueError ''zip() arguments differ in length'')
        else rmap (hydrate_sample_logprobs coerce values)
               (zip layouts (zip total_lengths response_lengths))))"

definition clear_requests_from_layouts ::
  "layout_bundle list \<Rightarrow> string set option \<Rightarrow> (string, string list) dict" where
  "clear_requests_from_layouts layouts logical_fields =
     fold (\<lambda>r requests. dset (ref_partition r)
             (let keys = dget_or requests (ref_partition r) [] in
              if ref_key r \<in> set keys then keys else keys @ [ref_key r]) requests)
       (concat (map (\<lambda>bundle. concat (map (\<lambda>(f, l).
          if (case logical_fields of None \<Rightarrow> True | Some fs \<Rightarrow> f \<in> fs)
          then map frag_ref (lay_fragments l) else []) bundle)) layouts))
       []"

section \<open>The proxy-side runtime\<close>

record transfer_runtime =
  rt_store_id :: string
  rt_transfer_fields :: "string list"
  rt_retention_seconds :: real

definition transfer_runtime_init :: "string \<Rightarrow> transfer_arg \<Rightarrow> string \<Rightarrow> real \<Rightarrow> transfer_runtime result" where
  "transfer_runtime_init store_id a token_build_mode retention =
     rbind (normalize_transfer_params a) (\<lambda>params.
     rbind (resolve_step_transfer_fields (ManyParams params) token_build_mode) (\<lambda>selected_fields.
       if selected_fields = [] then Inl (ValueError ''TransferQueue requires at least one transfer parameter'')
       else Inr \<lparr>rt_store_id = store_id, rt_transfer_fields = selected_fields,
                 rt_retention_seconds = retention\<rparr>))"

definition step_partition :: "transfer_runtime \<Rightarrow> string" where
  "step_partition rt = ''dressage:'' @ rt_store_id rt @ '':steps''"

definition step_key :: "transfer_runtime \<Rightarrow> string \<Rightarrow> string \<Rightarrow> nat \<Rightarrow> string" where
  "step_key rt trajectory_id incarnation_id step_index =
     rt_store_id rt @ '':'' @ trajectory_id @ '':'' @ incarnation_id @ '':step:'' @ show_nat step_index"

text \<open>
  One write to the queue: partition, key, the selected columns and the expiry tag.  The result
  pairs the write with one reference per column.
\<close>

record 'v tq_put =
  put_partition :: string
  put_key :: string
  put_fields :: "(string, 'v) dict"
  put_expires_at :: real

definition offload_step ::
  "transfer_runtime \<Rightarrow> string \<Rightarrow> string \<Rightarrow> nat \<Rightarrow> (string, 'v) dict \<Rightarrow> real
    \<Rightarrow> ('v tq_put \<times> (string, TQFieldRef) dict) result" where
  "offload_step rt session_id incarnation_id step_index columns now =
     rbind (rmap (\<lambda>name. case dget columns name of None \<Rightarrow> Inl (KeyError name)
                  | Some v \<Rightarrow> Inr (name, v)) (rt_transfer_fields rt)) (\<lambda>selected.
       let key = step_key rt session_id incarnation_id step_index in
       Inr (\<lparr>put_partition = step_partition rt, put_key = key, put_fields = selected,
             put_expires_at = now + rt_retention_seconds rt\<rparr>,
            map (\<lambda>(name, v). (name,
              \<lparr>ref_store_id = rt_store_id rt, ref_partition = step_partition rt, ref_key = key,
               ref_field = name, ref_incarnation_id = incarnation_id,
               ref_schema_version = TQ_FIELD_REF_SCHEMA\<rparr>)) selected))"

text \<open>
  \<open>getref step field\<close> is \<open>getattr(step, field)\<close> when it is a field reference.
\<close>

definition collect_step_refs ::
  "('s \<Rightarrow> string \<Rightarrow> TQFieldRef option) \<Rightarrow> string list \<Rightarrow> 's list \<Rightarrow> TQFieldRef list" where
  "collect_step_refs getref transfer_fields steps =
     concat (map (\<lambda>step. concat (map (\<lambda>f. case getref step f of None \<Rightarrow> [] | Some r \<Rightarrow> [r]) transfer_fields))
       steps)"

fun unique_refs :: "(string \<times> string) list \<Rightarrow> TQFieldRef list \<Rightarrow> TQFieldRef list" where
  "unique_refs seen [] = []"
| "unique_refs seen (r # rs) =
     (if (ref_partition r, ref_key r) \<in> set seen then unique_refs seen rs
      else r # unique_refs ((ref_partition r, ref_key r) # seen) rs)"

definition trajectory_ref ::
  "transfer_runtime \<Rightarrow> ('s \<Rightarrow> string \<Rightarrow> TQFieldRef option) \<Rightarrow> string \<Rightarrow> string \<Rightarrow> 's list
    \<Rightarrow> TQTrajectoryRef" where
  "trajectory_ref rt getref session_id incarnation_id steps =
     \<lparr>traj_store_id = rt_store_id rt, traj_trajectory_id = session_id,
      traj_incarnation_id = incarnation_id,
      traj_refs = unique_refs [] (collect_step_refs getref (rt_transfer_fields rt) steps),
      traj_schema_version = TQ_TRAJECTORY_REF_SCHEMA\<rparr>"

text \<open>The clear calls issued by \<open>clear_refs\<close>, one per partition with sorted keys.\<close>

definition clear_refs :: "TQFieldRef list \<Rightarrow> (string \<times> string list) list" where
  "clear_refs refs =
     map (\<lambda>(part, rs). (part, sort (remdups (map ref_key rs)))) (group_by ref_partition refs)"

definition sweep_expired :: "(string, pyfloat) dict \<Rightarrow> pyfloat \<Rightarrow> string list" where
  "sweep_expired entries deadline =
     sort (map fst (filter (\<lambda>(key, expires_at). pyf_less expires_at deadline \<or> pyf_eq expires_at deadline)
       entries))"

section \<open>Codec lemmas\<close>

lemma str_key_Cons [simp]:
  "str_key repr ((k, PStr s) # d) k' = (if k' = k then Inr s else str_key repr d k')"
  by (simp add: str_key_def pkey_def)

lemma str_key_Cons_other [simp]: "k' \<noteq> k \<Longrightarrow> str_key repr ((k, v) # d) k' = str_key repr d k'"
  by (simp add: str_key_def pkey_def)

lemma int_key_Cons [simp]:
  "int_key ((k, PInt i) # d) k' = (if k' = k then Inr i else int_key d k')"
  by (simp add: int_key_def pkey_def)

lemma int_key_Cons_other [simp]: "k' \<noteq> k \<Longrightarrow> int_key ((k, v) # d) k' = int_key d k'"
  by (simp add: int_key_def pkey_def)

lemma field_ref_roundtrip: "ref_ok r \<Longrightarrow> field_ref_from_dict repr (field_ref_to_dict r) = Inr r"
  by (simp add: field_ref_from_dict_def field_ref_to_dict_def is_tq_field_ref_dict_def
      has_schema_def pget_def ref_ok_def)

lemma fragment_roundtrip: "fragment_ok f \<Longrightarrow> fragment_from_dict repr (fragment_to_dict f) = Inr f"
  by (simp add: fragment_from_dict_def fragment_to_dict_def is_tq_field_fragment_dict_def
      has_schema_def pget_def fragment_ok_def pkey_def field_ref_roundtrip)

lemma shape_roundtrip:
  "shape_from_value (case sh of None \<Rightarrow> PNone | Some is \<Rightarrow> PList (map PInt is)) = Inr sh"
proof (cases sh)
  case (Some "is")
  have "rmap py_int (map PInt is) = Inr is" for "is" by (induction "is") auto
  with Some show ?thesis by (simp add: shape_from_value_def)
qed (simp add: shape_from_value_def)

lemma layout_roundtrip_lemma:
  assumes "layout_ok l"
  shows "layout_from_dict repr (layout_to_dict l) = Inr l"
proof -
  have "rmap (fragment_from_dict repr) (map fragment_to_dict (lay_fragments l)) = Inr (lay_fragments l)"
    using assms rmap_total [of "map fragment_to_dict (lay_fragments l)" "fragment_from_dict repr" "\<lambda>v. the (case fragment_from_dict repr v of Inr f \<Rightarrow> Some f | _ \<Rightarrow> None)"]
    by (auto simp: layout_ok_def fragment_roundtrip comp_def intro!: map_idI)
  with assms show ?thesis
    by (simp add: layout_from_dict_def layout_to_dict_def is_tq_field_layout_dict_def
        has_schema_def pget_def layout_ok_def pkey_def shape_roundtrip)
qed

lemma trajectory_ref_roundtrip_lemma:
  assumes "trajectory_ref_ok t"
  shows "trajectory_ref_from_dict repr (trajectory_ref_to_dict t) = Inr t"
proof -
  have "rmap (field_ref_from_dict repr) (map field_ref_to_dict rs) = Inr rs" if "\<forall>r\<in>set rs. ref_ok r" for rs
    using that by (induction rs) (auto simp: field_ref_roundtrip)
  with assms show ?thesis
    by (simp add: trajectory_ref_from_dict_def trajectory_ref_to_dict_def is_tq_trajectory_ref_dict_def
        has_schema_def pget_def trajectory_ref_ok_def pkey_def)
qed

section \<open>Layouts tile their range\<close>

lemma linear_fragments_ok: "list_all ref_ok refs \<Longrightarrow> list_all fragment_ok (linear_fragments refs ns k)"
  by (induction refs ns k rule: linear_fragments.induct) (auto simp: fragment_ok_def)

lemma tensor_assign_inside:
  assumes "o1 + length ys \<le> length xs"
  shows "tensor_assign xs (int o1) (int o1 + int (length ys)) ys =
    Inr (take o1 xs @ ys @ drop (o1 + length ys) xs)"
proof -
  have "slice_bound (length xs) (int o1 + int (length ys)) = o1 + length ys"
    using assms slice_bound_nat [of "length xs" "o1 + length ys"] by simp
  then show ?thesis using assms by (simp add: tensor_assign_def Let_def)
qed

text \<open>One fragment writes its part of the column, cut at the end of the output, and nothing else.\<close>

lemma copy_fragment_linear:
  assumes "dget values (value_key r) = Some column" "length out0 = n"
  shows "copy_fragment coerce values (int n)
      \<lparr>frag_ref = r, frag_source_start = 0, frag_target_start = int o1, frag_length = int len,
       frag_schema_version = sv\<rparr> out0 =
    Inr (let src = map coerce (take (min len (n - o1)) column) in
         take o1 out0 @ src @ drop (o1 + length src) out0)"
proof (cases "len = 0 \<or> n \<le> o1")
  case True
  then show ?thesis using assms by (auto simp: copy_fragment_def Let_def)
next
  case False
  define m where "m = min len (n - o1)"
  define src where "src = map coerce (take m column)"
  have cl: "max 0 (int n - int o1) = int n - int o1" "min (int len) (int n - int o1) = int m" "0 < m"
    using False by (auto simp: m_def)
  have sl: "pyslice column 0 (int m) = take m column"
    using pyslice_nat [of column 0 m] by simp
  have "o1 + length src \<le> length out0" using False assms(2) by (auto simp: src_def m_def)
  from tensor_assign_inside [OF this]
  have ta: "tensor_assign out0 (int o1) (int o1 + int (length src)) src =
    Inr (take o1 out0 @ src @ drop (o1 + length src) out0)" .
  have "copy_fragment coerce values (int n)
      \<lparr>frag_ref = r, frag_source_start = 0, frag_target_start = int o1, frag_length = int len,
       frag_schema_version = sv\<rparr> out0 =
    (if src = [] then Inr out0 else tensor_assign out0 (int o1) (int o1 + int (length src)) src)"
    using assms cl sl by (simp add: copy_fragment_def Let_def src_def)
  then show ?thesis using ta by (simp add: src_def m_def Let_def)
qed

lemma copy_fragments_linear:
  assumes "list_all2 (\<lambda>r c. dget values (value_key r) = Some c) refs columns"
    and "length out0 = n"
  shows "copy_fragments coerce values (int n)
      (linear_fragments refs (map (\<lambda>c. int (length c)) columns) (int o1)) out0 =
    Inr (take o1 out0 @ take (n - o1) (map coerce (concat columns)) @
         drop (o1 + length (concat columns)) out0)"
  using assms
proof (induction refs columns arbitrary: out0 o1 rule: list_all2_induct)
  case Nil
  then show ?case by simp
next
  case (Cons r refs c columns)
  define out where "out = take o1 out0 @ take (n - o1) (map coerce c) @
    drop (o1 + min (length c) (n - o1)) out0"
  have one: "copy_fragment coerce values (int n)
      \<lparr>frag_ref = r, frag_source_start = 0, frag_target_start = int o1,
       frag_length = int (length c), frag_schema_version = TQ_FIELD_FRAGMENT_SCHEMA\<rparr> out0 = Inr out"
    using copy_fragment_linear [OF Cons.hyps(1) Cons.prems]
    by (simp add: Let_def out_def take_map min_def)
  have len: "length out = n" using Cons.prems by (auto simp: out_def)
  have off: "int o1 + int (length c) = int (o1 + length c)" by simp
  show ?case
  proof (cases "o1 \<le> n")
    case True
    have "take (o1 + length c) out = take o1 out0 @ take (n - o1) (map coerce c)"
      using True Cons.prems by (auto simp: out_def min_def)
    moreover have "drop (o1 + length c + length (concat columns)) out =
        drop (o1 + length c + length (concat columns)) out0"
      using True Cons.prems by (auto simp: out_def min_def ac_simps)
    ultimately show ?thesis
      using Cons.IH [OF len, of "o1 + length c"] True
      by (simp add: one off add.assoc del: of_nat_add)
  next
    case False
    then show ?thesis
      using Cons.IH [OF len, of "o1 + length c"] Cons.prems
      by (simp add: one off out_def del: of_nat_add)
  qed
qed

lemma length_normalize_fold:
  "fold (\<lambda>index (normalized, invalid).
        if index \<ge> length values then (normalized @ [Fin 0], invalid)
        else case tofloat (values ! index) of
               Some x \<Rightarrow> (normalized @ [x], invalid)
             | None \<Rightarrow> (normalized @ [Fin 0], True)) [0..<n] ([], b) =
   (map (coerce_float32 id tofloat) (take n values) @ replicate (n - length values) (Fin 0),
    b \<or> (\<exists>x\<in>set (take n values). tofloat x = None))"
proof (induction n)
  case (Suc n)
  then show ?case
  proof (cases "n < length values")
    case True
    then show ?thesis using Suc
      by (auto simp: take_Suc_conv_app_nth coerce_float32_def split: option.splits)
  next
    case False
    then show ?thesis using Suc by (simp add: Suc_diff_le replicate_append_same)
  qed
qed simp

lemma normalize_logprobs_eq:
  "normalize_logprobs_to_length tofloat values n =
    (map (coerce_float32 id tofloat) (take n values) @ replicate (n - length values) (Fin 0),
     length values \<noteq> n \<or> (\<exists>x\<in>set (take n values). tofloat x = None))"
  unfolding normalize_logprobs_to_length_def by (rule length_normalize_fold)

section \<open>Offloading is transparent to training\<close>

lemma remote_refs_Remote [simp]: "remote_refs (map Remote refs) = refs"
  by (induction refs) (simp_all add: remote_refs_def)

lemma remote_refs_Local [simp]: "remote_refs (map Local xs) = []"
  by (induction xs) (simp_all add: remote_refs_def)

lemma local_values_Local [simp]: "local_values (map Local xs) = xs"
  by (induction xs) (simp_all add: local_values_def)

text \<open>
  C27: storing the response logprobs of a step in the TransferQueue instead of in the segment
  does not change what training reads.  For any column, of the expected length or not, the
  column materialised from the layout built for its reference equals, in single precision, the
  one the proxy would have put in the segment: padded with zeros for the prompt and for missing
  entries, cut at the response length, unreadable entries replaced by zero.
\<close>

theorem offload_transparent_snapshot:
  assumes "dget values (value_key r) = Some column"
    and "prompt_length + response_length = n"
    and "to_f32 (Fin 0) = Fin 0"
  shows "\<exists>l xs invalid.
    build_snapshot_logprobs tofloat (Remote r) prompt_length response_length n remote_invalid
      = Inr (Layout l, remote_invalid) \<and>
    build_snapshot_logprobs tofloat (Local column) prompt_length response_length n remote_invalid
      = Inr (Actual xs, invalid) \<and>
    length xs = n \<and>
    materialize_logprobs (coerce_float32 to_f32 tofloat) l values n = Inr (map to_f32 xs)"
proof -
  have comp: "to_f32 (coerce_float32 id tofloat x) = coerce_float32 to_f32 tofloat x" for x
    using assms(3) by (simp add: coerce_float32_def split: option.splits)
  have "min response_length (n - prompt_length) = response_length" using assms(2) by simp
  with assms copy_fragment_linear [OF assms(1), of "replicate n (Fin 0)" n
      "coerce_float32 to_f32 tofloat" prompt_length response_length TQ_FIELD_FRAGMENT_SCHEMA]
  show ?thesis
    by (auto simp: build_snapshot_logprobs_def build_linear_layout_def materialize_logprobs_def
        normalize_logprobs_eq Let_def comp comp_def)
qed

theorem offload_transparent_snapshot_witness:
  "\<exists>l xs invalid.
    build_snapshot_logprobs Some (Remote \<lparr>ref_store_id = ''s'', ref_partition = ''p'', ref_key = ''k'',
        ref_field = ''f'', ref_incarnation_id = ''i'', ref_schema_version = TQ_FIELD_REF_SCHEMA\<rparr>) 1 2 3 False
      = Inr (Layout l, False) \<and>
    build_snapshot_logprobs Some (Local [Fin (-1)]) 1 2 3 False = Inr (Actual xs, invalid) \<and>
    length xs = 3 \<and>
    materialize_logprobs (coerce_float32 id Some) l [((''s'', ''p'', ''k'', ''f''), [Fin (-1)])] 3
      = Inr (map id xs)"
  by (rule offload_transparent_snapshot) (simp_all add: value_key_def)

text \<open>
  The logprob column of a concatenated (TITO) segment whose steps were offloaded is the
  concatenation of the step columns: the layout tiles the token range without gap or overlap,
  and a sample cut to fewer tokens reads the corresponding prefix.
\<close>

theorem offload_transparent_concatenated:
  assumes "list_all2 (\<lambda>r c. dget values (value_key r) = Some c) refs columns"
    and "refs \<noteq> []"
    and "m \<le> sum_list (map length columns)"
  shows "\<exists>l. build_concatenated_logprobs (map Remote refs) (map length columns)
        (sum_list (map length columns)) = Inr (Layout l) \<and>
    build_concatenated_logprobs (map Local columns) (map length columns)
        (sum_list (map length columns)) = Inr (Actual (concat columns)) \<and>
    materialize_logprobs coerce l values m = Inr (map coerce (take m (concat columns)))"
proof -
  have "length refs = length columns" using assms(1) by (rule list_all2_lengthD)
  then show ?thesis
    using copy_fragments_linear [OF assms(1), of "replicate m (Fin 0)" m coerce 0] assms(2,3)
    by (auto simp: build_concatenated_logprobs_def build_linear_layout_def materialize_logprobs_def
        length_concat take_map Let_def comp_def)
qed

theorem offload_transparent_concatenated_witness:
  "\<exists>l. build_concatenated_logprobs (map Remote
         [\<lparr>ref_store_id = ''s'', ref_partition = ''p'', ref_key = ''k0'', ref_field = ''f'',
           ref_incarnation_id = ''i'', ref_schema_version = TQ_FIELD_REF_SCHEMA\<rparr>,
          \<lparr>ref_store_id = ''s'', ref_partition = ''p'', ref_key = ''k1'', ref_field = ''f'',
           ref_incarnation_id = ''i'', ref_schema_version = TQ_FIELD_REF_SCHEMA\<rparr>])
        (map length [[Fin 1, Fin 2], [Fin 3]]) (sum_list (map length [[Fin 1, Fin 2], [Fin 3]]))
        = Inr (Layout l) \<and>
    build_concatenated_logprobs (map Local [[Fin 1, Fin 2], [Fin 3]])
        (map length [[Fin 1, Fin 2], [Fin 3]]) (sum_list (map length [[Fin 1, Fin 2], [Fin 3]]))
        = Inr (Actual (concat [[Fin 1, Fin 2], [Fin 3]])) \<and>
    materialize_logprobs id l
      [((''s'', ''p'', ''k0'', ''f''), [Fin 1, Fin 2]), ((''s'', ''p'', ''k1'', ''f''), [Fin 3])] 3
      = Inr (map id (take 3 (concat [[Fin 1, Fin 2], [Fin 3]])))"
  by (rule offload_transparent_concatenated) (simp_all add: value_key_def)

end
