(* ===== verification/Messages.thy ===== *)
theory Messages
  imports Prelude
begin

text \<open>
  Chat messages and their normal forms: the tool-call-id and reasoning canonicalisers, the
  comparison form used by the session manager (\<open>SessionManager._normalize_message\<close>), the
  template form used by the mask builder and the one used by the TITO tokenizers, and the TITO
  tokenizers themselves (\<open>dressage/proxy/tito\<close>).  A message is an insertion-ordered dictionary.
  The chat template, the text encoder and the JSON functions are parameters.  The lemmas show
  that a continuation is recognised as append-only exactly when the normalised prefix agrees,
  and that incremental tokenisation never rewrites the tokens it extends.
\<close>

type_synonym message = "(string \<times> pyval) list"
type_synonym tool_list = "pyval list option"

section \<open>Canonical ids and reasoning text\<close>

fun canonicalize_openclaw_tool_call_id :: "pyval \<Rightarrow> pyval" where
  "canonicalize_openclaw_tool_call_id (PStr s) = PStr (filter is_alnum s)"
| "canonicalize_openclaw_tool_call_id v = v"

definition canonicalize_reasoning_content :: "py_lib \<Rightarrow> pyval \<Rightarrow> string option" where
  "canonicalize_reasoning_content lib v =
     (if v = PNone then None
      else let stripped = strip (py_str (py_repr lib) v) in
        if stripped = [] then None else Some stripped)"

section \<open>The comparison form of the session manager\<close>

definition normalize_tool_call_arguments :: "py_lib \<Rightarrow> pyval \<Rightarrow> pyval" where
  "normalize_tool_call_arguments lib arguments =
     (case arguments of
        PStr s \<Rightarrow> (case json_loads lib s of
                    None \<Rightarrow> PStr s
                  | Some v \<Rightarrow> PStr (json_dumps lib v))
      | v \<Rightarrow> PStr (json_dumps lib v))"

definition normalize_tool_call :: "py_lib \<Rightarrow> pyval \<Rightarrow> pyval" where
  "normalize_tool_call lib tool_call =
     (case tool_call of
        PDict d \<Rightarrow> PDict
          [(''id'', canonicalize_openclaw_tool_call_id (pget d ''id'')),
           (''type'', pget d ''type''),
           (''function'', (case pget d ''function'' of
              PDict f \<Rightarrow> PDict [(''name'', pget f ''name''),
                               (''arguments'', normalize_tool_call_arguments lib (pget f ''arguments''))]
            | v \<Rightarrow> v))]
      | v \<Rightarrow> v)"

definition normalize_tool_calls :: "py_lib \<Rightarrow> pyval \<Rightarrow> pyval" where
  "normalize_tool_calls lib tool_calls =
     (case tool_calls of PList xs \<Rightarrow> PList (map (normalize_tool_call lib) xs) | v \<Rightarrow> v)"

definition has_tool_calls :: "message \<Rightarrow> bool" where
  "has_tool_calls m = (case pget m ''tool_calls'' of PList xs \<Rightarrow> xs \<noteq> [] | _ \<Rightarrow> False)"

definition normalize_message :: "py_lib \<Rightarrow> message \<Rightarrow> message" where
  "normalize_message lib m =
     (let content = pget m ''content'';
          content' = (if has_tool_calls m \<and> content = PStr [] then PNone else content)
      in [(''role'', pget m ''role''), (''content'', content')] @
         (case dget m ''name'' of None \<Rightarrow> [] | Some v \<Rightarrow> [(''name'', v)]) @
         (case dget m ''reasoning_content'' of None \<Rightarrow> []
          | Some v \<Rightarrow> (case canonicalize_reasoning_content lib v of None \<Rightarrow> []
                     | Some r \<Rightarrow> [(''reasoning_content'', PStr r)])) @
         (case dget m ''tool_call_id'' of None \<Rightarrow> []
          | Some v \<Rightarrow> [(''tool_call_id'', canonicalize_openclaw_tool_call_id v)]) @
         (case dget m ''tool_calls'' of None \<Rightarrow> []
          | Some v \<Rightarrow> [(''tool_calls'', normalize_tool_calls lib v)]))"

definition messages_eq :: "message list \<Rightarrow> message list \<Rightarrow> bool" where
  "messages_eq xs ys = py_eq (PList (map PDict xs)) (PList (map PDict ys))"

definition is_append_only_continuation :: "py_lib \<Rightarrow> message list \<Rightarrow> message list \<Rightarrow> bool" where
  "is_append_only_continuation lib previous_messages current_messages =
     (if length current_messages < length previous_messages then False
      else messages_eq (map (normalize_message lib) previous_messages)
             (map (normalize_message lib) (take (length previous_messages) current_messages)))"

section \<open>The template form of the mask builder\<close>

text \<open>
  A tool call that is not a mapping makes the membership test or the attribute access raise.
\<close>

definition template_tool_call :: "py_lib \<Rightarrow> pyval \<Rightarrow> pyval result" where
  "template_tool_call lib tool_call =
     (case tool_call of
        PDict d \<Rightarrow>
          (let d1 = (case dget d ''id'' of None \<Rightarrow> d
                     | Some v \<Rightarrow> dset ''id'' (canonicalize_openclaw_tool_call_id v) d)
           in case pget d1 ''function'' of
                PDict f \<Rightarrow>
                  (case pget f ''arguments'' of
                     PStr s \<Rightarrow> (case json_loads lib s of
                        None \<Rightarrow> Inr (PDict d1)
                      | Some v \<Rightarrow> Inr (PDict (dset ''function'' (PDict (dset ''arguments'' v f)) d1)))
                   | _ \<Rightarrow> Inr (PDict d1))
              | _ \<Rightarrow> Inr (PDict d1))
      | PStr s \<Rightarrow> Inl (if contains_str s ''id'' then TypeError ''string indices must be integers''
                      else OtherError ''AttributeError'')
      | PList xs \<Rightarrow> Inl (if \<exists>x\<in>set xs. py_eq x (PStr ''id'')
                       then TypeError ''list indices must be integers or slices''
                       else OtherError ''AttributeError'')
      | _ \<Rightarrow> Inl (TypeError ''argument is not iterable''))"

definition template_message :: "py_lib \<Rightarrow> message \<Rightarrow> message result" where
  "template_message lib m =
     (let m1 = (case dget m ''reasoning_content'' of None \<Rightarrow> m
                | Some v \<Rightarrow> (case canonicalize_reasoning_content lib v of
                     None \<Rightarrow> dpop ''reasoning_content'' m
                   | Some r \<Rightarrow> dset ''reasoning_content'' (PStr r) m));
          m2 = (case dget m1 ''tool_call_id'' of None \<Rightarrow> m1
                | Some v \<Rightarrow> dset ''tool_call_id'' (canonicalize_openclaw_tool_call_id v) m1)
      in case pget m2 ''tool_calls'' of
           PList xs \<Rightarrow> rbind (rmap (template_tool_call lib) xs)
                        (\<lambda>ys. Inr (dset ''tool_calls'' (PList ys) m2))
         | _ \<Rightarrow> Inr m2)"

definition normalize_template_messages :: "py_lib \<Rightarrow> message list \<Rightarrow> message list result" where
  "normalize_template_messages lib messages = rmap (template_message lib) messages"

section \<open>The template form of the TITO helpers\<close>

definition tito_tool_call :: "py_lib \<Rightarrow> pyval \<Rightarrow> pyval" where
  "tito_tool_call lib tool_call =
     (case tool_call of
        PDict d \<Rightarrow> (case template_tool_call lib (PDict d) of Inr v \<Rightarrow> v | Inl e \<Rightarrow> PDict d)
      | v \<Rightarrow> v)"

definition tito_message :: "py_lib \<Rightarrow> message \<Rightarrow> message" where
  "tito_message lib m =
     (let m1 = (if py_eq (pget m ''role'') (PStr ''assistant'') \<and> truthy (pget m ''tool_calls'') \<and>
                   pget m ''content'' = PNone
                then dset ''content'' (PStr []) m else m)
      in case pget m1 ''tool_calls'' of
           PList xs \<Rightarrow> dset ''tool_calls'' (PList (map (tito_tool_call lib) xs)) m1
         | _ \<Rightarrow> m1)"

definition tito_normalize_messages :: "py_lib \<Rightarrow> message list \<Rightarrow> message list" where
  "tito_normalize_messages lib messages = map (tito_message lib) messages"

definition normalize_value :: "pyval \<Rightarrow> pyval" where
  "normalize_value v = (if v = PNone \<or> v = PStr [] \<or> v = PList [] then PNone else v)"

fun canonical_jsonish :: "pyval \<Rightarrow> pyval" where
  "canonical_jsonish (PDict d) =
     PDict (sort_key fst (filter (\<lambda>(k, v). k \<noteq> ''index'') (map (\<lambda>(k, v). (k, canonical_jsonish v)) d)))"
| "canonical_jsonish (PList xs) = PList (map canonical_jsonish xs)"
| "canonical_jsonish v = v"

definition TEMPLATE_RELEVANT_KEYS :: "string list" where
  "TEMPLATE_RELEVANT_KEYS = [''role'', ''content'', ''reasoning_content'', ''tool_calls'']"

definition message_matches :: "py_lib \<Rightarrow> message \<Rightarrow> message \<Rightarrow> bool" where
  "message_matches lib stored0 current0 =
     (let stored = tito_message lib stored0; current = tito_message lib current0 in
      list_all (\<lambda>key.
        if key = ''reasoning_content''
        then canonicalize_reasoning_content lib (pget stored key) =
             canonicalize_reasoning_content lib (pget current key)
        else py_eq (canonical_jsonish (normalize_value (pget stored key)))
                   (canonical_jsonish (normalize_value (pget current key))))
      TEMPLATE_RELEVANT_KEYS)"

definition role_in :: "message \<Rightarrow> string list \<Rightarrow> bool" where
  "role_in m roles = list_ex (\<lambda>r. py_eq (pget m ''role'') (PStr r)) roles"

definition assert_append_only_with_roles ::
  "py_lib \<Rightarrow> message list \<Rightarrow> message list \<Rightarrow> string list \<Rightarrow> unit result" where
  "assert_append_only_with_roles lib stored current allowed =
     (if length current < length stored
      then Inl (ValueError ''new messages are fewer than stored messages'')
      else if \<not> list_all (\<lambda>(s, c). message_matches lib s c) (zip stored current)
      then Inl (ValueError ''message mismatch'')
      else if \<not> list_all (\<lambda>m. role_in m allowed) (drop (length stored) current)
      then Inl (ValueError ''appended message has a role that is not allowed'')
      else Inr ())"

section \<open>The TITO tokenizers\<close>

datatype tito_model = Qwen35 | Qwen36

text \<open>
  The tokenizer object: the chat template (messages after normalisation, tools, generation
  prompt flag; it may raise), the text encoder, the single newline token if there is one, and
  the id of the end-of-message token.
\<close>

record tito_tokenizer =
  tt_model :: tito_model
  tt_template :: "message list \<Rightarrow> tool_list \<Rightarrow> bool \<Rightarrow> string result"
  tt_encode :: "string \<Rightarrow> int list"
  tt_im_end_id :: "int option"

definition newline_id :: "tito_tokenizer \<Rightarrow> int option" where
  "newline_id tk = (case tt_encode tk [CHR 0x0A] of [i] \<Rightarrow> Some i | _ \<Rightarrow> None)"

text \<open>
  \<open>apply_chat_template\<close> retries without tools when the template raises a \<open>TypeError\<close>.
\<close>

definition tito_render :: "py_lib \<Rightarrow> tito_tokenizer \<Rightarrow> message list \<Rightarrow> bool \<Rightarrow> tool_list \<Rightarrow> string result" where
  "tito_render lib tk messages add_generation_prompt tools =
     (let normalized = tito_normalize_messages lib messages in
      case tt_template tk normalized tools add_generation_prompt of
        Inl (TypeError e) \<Rightarrow> tt_template tk normalized None add_generation_prompt
      | r \<Rightarrow> r)"

definition DUMMY_SYSTEM :: message where
  "DUMMY_SYSTEM = [(''role'', PStr ''system''), (''content'', PStr ''dummy system'')]"

definition DUMMY_USER :: message where
  "DUMMY_USER = [(''role'', PStr ''user''), (''content'', PStr ''dummy user'')]"

definition py_or :: "pyval \<Rightarrow> pyval \<Rightarrow> pyval" where
  "py_or a b = (if truthy a then a else b)"

definition build_dummy_assistant :: "message list \<Rightarrow> message" where
  "build_dummy_assistant tool_responses =
     [(''role'', PStr ''assistant''), (''content'', PStr ''''), (''reasoning_content'', PStr '' ''),
      (''tool_calls'', PList (map (\<lambda>(index, response).
         PDict [(''id'', py_or (pget response ''tool_call_id'') (PStr (''call0000'' @ show_nat index))),
                (''type'', PStr ''function''),
                (''function'', PDict [(''name'', py_or (pget response ''name'') (PStr ''dummy_func'')),
                                      (''arguments'', PDict [])])])
       (enumerate 0 tool_responses)))]"

text \<open>Maximal runs of tool messages, and single user messages.\<close>

definition is_role :: "string \<Rightarrow> message \<Rightarrow> bool" where
  "is_role r m = py_eq (pget m ''role'') (PStr r)"

function split_appended_segments :: "message list \<Rightarrow> message list list result" where
  "split_appended_segments [] = Inr []"
| "split_appended_segments (m # ms) =
     (if is_role ''tool'' m
      then rbind (split_appended_segments (dropWhile (is_role ''tool'') ms))
             (\<lambda>rest. Inr ((m # takeWhile (is_role ''tool'') ms) # rest))
      else if is_role ''user'' m
      then rbind (split_appended_segments ms) (\<lambda>rest. Inr ([m] # rest))
      else Inl (ValueError ''unsupported appended role for TITO tokenization''))"
  by pat_completeness auto
termination
  by (relation "measure length") (auto simp: le_imp_less_Suc length_dropWhile_le)

definition tokenize_rendered_suffix ::
  "py_lib \<Rightarrow> tito_tokenizer \<Rightarrow> message list \<Rightarrow> message list \<Rightarrow> tool_list \<Rightarrow> bool \<Rightarrow> int list result" where
  "tokenize_rendered_suffix lib tk base appended tools add_generation_prompt =
     rbind (tito_render lib tk base False tools) (\<lambda>rendered_without.
     rbind (tito_render lib tk (base @ appended) add_generation_prompt tools) (\<lambda>rendered_with.
       if \<not> startswith rendered_with rendered_without
       then Inl (ValueError ''rendered suffix diff failed'')
       else Inr (tt_encode tk (drop (length rendered_without) rendered_with))))"

definition dummy_prefix :: "tito_tokenizer \<Rightarrow> message list" where
  "dummy_prefix tk = (case tt_model tk of Qwen35 \<Rightarrow> [DUMMY_SYSTEM] | Qwen36 \<Rightarrow> [DUMMY_SYSTEM, DUMMY_USER])"

definition tokenize_tool_segment ::
  "py_lib \<Rightarrow> tito_tokenizer \<Rightarrow> message list \<Rightarrow> tool_list \<Rightarrow> int list result" where
  "tokenize_tool_segment lib tk appended tools =
     tokenize_rendered_suffix lib tk (dummy_prefix tk @ [build_dummy_assistant appended]) appended tools False"

definition tokenize_user_segment ::
  "py_lib \<Rightarrow> tito_tokenizer \<Rightarrow> message \<Rightarrow> tool_list \<Rightarrow> int list result" where
  "tokenize_user_segment lib tk appended tools =
     tokenize_rendered_suffix lib tk (dummy_prefix tk) [appended] tools False"

definition tokenize_segment ::
  "py_lib \<Rightarrow> tito_tokenizer \<Rightarrow> tool_list \<Rightarrow> message list \<Rightarrow> int list result" where
  "tokenize_segment lib tk tools segment =
     (if is_role ''tool'' (hd segment) then tokenize_tool_segment lib tk segment tools
      else if is_role ''user'' (hd segment) then tokenize_user_segment lib tk (hd segment) tools
      else Inl (ValueError ''unsupported appended role for TITO tokenization''))"

definition tokenize_additional_non_assistant ::
  "py_lib \<Rightarrow> tito_tokenizer \<Rightarrow> message list \<Rightarrow> message list \<Rightarrow> tool_list \<Rightarrow> int list result" where
  "tokenize_additional_non_assistant lib tk old_messages new_messages tools =
     rbind (assert_append_only_with_roles lib old_messages new_messages [''tool'', ''user'']) (\<lambda>_.
       if tt_model tk = Qwen36 \<and> old_messages = []
       then rbind (tito_render lib tk new_messages True tools) (\<lambda>text. Inr (tt_encode tk text))
       else
         rbind (split_appended_segments (drop (length old_messages) new_messages)) (\<lambda>segments.
         rbind (rmap (tokenize_segment lib tk tools) segments) (\<lambda>parts.
         rbind (tokenize_rendered_suffix lib tk new_messages [] tools True) (\<lambda>gen.
           Inr (concat parts @ gen)))))"

definition merge_tokens ::
  "py_lib \<Rightarrow> tito_tokenizer \<Rightarrow> message list \<Rightarrow> message list \<Rightarrow> int list \<Rightarrow> tool_list \<Rightarrow> int list result" where
  "merge_tokens lib tk old_messages new_messages pretokenized tools =
     rbind (tokenize_additional_non_assistant lib tk old_messages new_messages tools) (\<lambda>incremental.
       let newline = (case (tt_im_end_id tk, newline_id tk) of
             (Some e, Some n) \<Rightarrow> (if pretokenized \<noteq> [] \<and> last pretokenized = e then [n] else [])
           | _ \<Rightarrow> [])
       in Inr (pretokenized @ newline @ incremental))"

section \<open>Normal forms are comparable\<close>

lemma plain_pget: "plain_value (PDict m) \<Longrightarrow> plain_value (pget m k)"
  by (auto simp: pget_def split: option.splits dest!: map_of_SomeD)

lemma plain_dget: "plain_value (PDict m) \<Longrightarrow> dget m k = Some v \<Longrightarrow> plain_value v"
  by (auto dest!: map_of_SomeD)

lemma plain_canonical_id: "plain_value v \<Longrightarrow> plain_value (canonicalize_openclaw_tool_call_id v)"
  by (cases v) auto

lemma plain_normalize_arguments: "plain_value (normalize_tool_call_arguments lib v)"
  by (auto simp: normalize_tool_call_arguments_def split: pyval.splits option.splits)

lemma plain_normalize_tool_call: "plain_value v \<Longrightarrow> plain_value (normalize_tool_call lib v)"
proof (cases v)
  case (PDict d)
  assume "plain_value v"
  with PDict have d: "plain_value (PDict d)" by simp
  note pl = plain_pget [OF d]
  have f: "plain_value (pget f k)" if "pget d ''function'' = PDict f" for f k
    using plain_pget [of f k] pl [of "''function''"] that by simp
  have "plain_value (case pget d ''function'' of
      PDict f \<Rightarrow> PDict [(''name'', pget f ''name''),
        (''arguments'', normalize_tool_call_arguments lib (pget f ''arguments''))] | v \<Rightarrow> v)"
    using pl [of "''function''"] f plain_normalize_arguments
    by (cases "pget d ''function''") auto
  with PDict pl show ?thesis
    by (simp add: normalize_tool_call_def plain_canonical_id)
qed (auto simp: normalize_tool_call_def)

lemma plain_normalize_tool_calls: "plain_value v \<Longrightarrow> plain_value (normalize_tool_calls lib v)"
  by (auto simp: normalize_tool_calls_def plain_normalize_tool_call split: pyval.splits)

lemma plain_normalize_message:
  assumes "plain_value (PDict m)"
  shows "plain_value (PDict (normalize_message lib m))"
  using plain_pget [OF assms] plain_dget [OF assms]
  by (auto simp: normalize_message_def Let_def plain_canonical_id plain_normalize_tool_calls
      split: option.splits)

lemma messages_eq_refl: "\<forall>m\<in>set ms. plain_value (PDict m) \<Longrightarrow> messages_eq ms ms"
  unfolding messages_eq_def by (rule py_eq_refl) auto

lemma append_only_iff:
  "is_append_only_continuation lib previous current \<longleftrightarrow>
    length previous \<le> length current \<and>
    list_all2 (\<lambda>p c. py_eq (PDict (normalize_message lib p)) (PDict (normalize_message lib c)))
      previous (take (length previous) current)"
  by (auto simp: is_append_only_continuation_def messages_eq_def list_all2_iff zip_map_map
      simp del: py_eq.simps(2))

section \<open>Incremental tokenisation\<close>

text \<open>
  What the proxy relies on: whatever the tokenizer does with the new messages, the tokens it is
  given stay a prefix of the tokens it returns.
\<close>

locale token_merger =
  fixes merge :: "message list \<Rightarrow> message list \<Rightarrow> int list \<Rightarrow> tool_list \<Rightarrow> int list result"
  assumes merge_extends: "merge old new pre tools = Inr ts \<Longrightarrow> take (length pre) ts = pre"
begin

lemma merge_split: "merge old new pre tools = Inr ts \<Longrightarrow> pre @ drop (length pre) ts = ts"
  using merge_extends by (metis append_take_drop_id)

lemma merge_length: "merge old new pre tools = Inr ts \<Longrightarrow> length pre \<le> length ts"
  using merge_split by (metis length_append le_add1)

end

lemma merge_tokens_shape:
  "merge_tokens lib tk old new pre tools = Inr ts \<Longrightarrow>
    \<exists>nl incremental. ts = pre @ nl @ incremental \<and> length nl \<le> 1 \<and>
      tokenize_additional_non_assistant lib tk old new tools = Inr incremental"
  by (auto simp: merge_tokens_def rbind_eq_Inr Let_def split: option.splits if_splits)

interpretation qwen: token_merger "merge_tokens lib tk" for lib tk
  by unfold_locales (auto dest: merge_tokens_shape)

lemma split_appended_concat:
  "split_appended_segments ms = Inr segs \<Longrightarrow> concat segs = ms \<and> [] \<notin> set segs"
  by (induction ms arbitrary: segs rule: split_appended_segments.induct)
    (auto simp: rbind_eq_Inr split: if_splits)

lemma split_appended_total:
  "list_all (\<lambda>m. role_in m [''tool'', ''user'']) ms \<Longrightarrow> \<exists>segs. split_appended_segments ms = Inr segs"
proof (induction ms rule: split_appended_segments.induct)
  case (2 m ms)
  have "list_all (\<lambda>m. role_in m [''tool'', ''user'']) (dropWhile (is_role ''tool'') ms)"
    using 2(3) by (auto simp: list_all_iff dest: set_dropWhileD)
  with 2 show ?case by (auto simp: role_in_def is_role_def)
qed simp

lemma split_appended_rejects:
  "split_appended_segments ms = Inr segs \<Longrightarrow> list_all (\<lambda>m. role_in m [''tool'', ''user'']) ms"
proof (induction ms arbitrary: segs rule: split_appended_segments.induct)
  case (2 m ms)
  show ?case
  proof (cases "is_role ''tool'' m")
    case True
    with 2 obtain rest where "split_appended_segments (dropWhile (is_role ''tool'') ms) = Inr rest"
      by (auto simp: rbind_eq_Inr)
    with 2 True have "list_all (\<lambda>m. role_in m [''tool'', ''user'']) (dropWhile (is_role ''tool'') ms)" by blast
    moreover have "list_all (\<lambda>m. role_in m [''tool'', ''user'']) (takeWhile (is_role ''tool'') ms)"
      by (auto simp: list_all_iff role_in_def is_role_def dest: set_takeWhileD)
    ultimately have "list_all (\<lambda>m. role_in m [''tool'', ''user''])
        (takeWhile (is_role ''tool'') ms @ dropWhile (is_role ''tool'') ms)"
      by (simp only: list_all_append simp_thms)
    with True show ?thesis by (simp add: role_in_def is_role_def)
  next
    case False
    with 2 show ?thesis by (auto simp: rbind_eq_Inr role_in_def is_role_def split: if_splits)
  qed
qed simp

text \<open>
  A template that renders message by message, with a run of tool messages rendered as one block
  whatever non-tool message precedes it: \<open>body\<close> is the text of a message list, \<open>seg_text\<close> the
  text a segment adds, \<open>gen\<close> the generation prompt.
\<close>

definition is_segment :: "message list \<Rightarrow> bool" where
  "is_segment s \<longleftrightarrow> (s \<noteq> [] \<and> list_all (is_role ''tool'') s) \<or> (\<exists>m. s = [m] \<and> is_role ''user'' m)"

definition compositional_template ::
  "py_lib \<Rightarrow> tito_tokenizer \<Rightarrow> tool_list \<Rightarrow> (message list \<Rightarrow> string) \<Rightarrow> string
    \<Rightarrow> (message list \<Rightarrow> string) \<Rightarrow> bool" where
  "compositional_template lib tk tools body gen seg_text \<longleftrightarrow>
     (\<forall>ms. tito_render lib tk ms False tools = Inr (body ms)) \<and>
     (\<forall>ms. tito_render lib tk ms True tools = Inr (body ms @ gen)) \<and>
     (\<forall>b s. is_segment s \<longrightarrow> b \<noteq> [] \<longrightarrow> \<not> (is_role ''tool'' (last b) \<and> is_role ''tool'' (hd s)) \<longrightarrow>
        body (b @ s) = body b @ seg_text s)"

definition lossless_tokens :: "tito_tokenizer \<Rightarrow> (int list \<Rightarrow> string) \<Rightarrow> bool" where
  "lossless_tokens tk decode \<longleftrightarrow>
     (\<forall>t. decode (tt_encode tk t) = t) \<and> (\<forall>xs ys. decode (xs @ ys) = decode xs @ decode ys)"

lemma tokenize_segment_text:
  assumes "compositional_template lib tk tools body gen seg_text" "is_segment s"
  shows "tokenize_segment lib tk tools s = Inr (tt_encode tk (seg_text s))"
proof -
  have dp: "dummy_prefix tk \<noteq> []" "\<not> is_role ''tool'' (last (dummy_prefix tk))"
    by (auto simp: dummy_prefix_def is_role_def DUMMY_SYSTEM_def DUMMY_USER_def pget_def
        split: tito_model.splits)
  have da: "\<not> is_role ''tool'' (build_dummy_assistant s)"
    by (simp add: is_role_def build_dummy_assistant_def pget_def)
  have excl: "\<not> is_role ''tool'' m" if "is_role ''user'' m" for m
    using that by (cases "pget m ''role''") (auto simp: is_role_def)
  from assms(2) consider (tool) "is_role ''tool'' (hd s)" | (user) m where "s = [m]" "is_role ''user'' m"
    by (cases s) (auto simp: is_segment_def)
  then show ?thesis
  proof cases
    case tool
    then show ?thesis
      using assms da dp
      by (simp add: tokenize_segment_def tokenize_tool_segment_def tokenize_rendered_suffix_def
          compositional_template_def startswith_def del: append_assoc)
  next
    case user
    then show ?thesis
      using assms dp excl
      by (simp add: tokenize_segment_def tokenize_user_segment_def tokenize_rendered_suffix_def
          compositional_template_def startswith_def)
  qed
qed

lemma tokenize_segments_text:
  assumes "compositional_template lib tk tools body gen seg_text" "lossless_tokens tk decode"
    and "split_appended_segments ms = Inr segs"
    and "b \<noteq> []" "ms \<noteq> [] \<Longrightarrow> \<not> (is_role ''tool'' (last b) \<and> is_role ''tool'' (hd ms))"
  shows "\<exists>parts. rmap (tokenize_segment lib tk tools) segs = Inr parts \<and>
    body b @ decode (concat parts) = body (b @ ms)"
  using assms(3-)
proof (induction ms arbitrary: segs b rule: split_appended_segments.induct)
  case 1
  have "decode [] = []"
    using assms(2) unfolding lossless_tokens_def by (metis append_Nil append_self_conv)
  with 1 show ?case by simp
next
  case (2 m ms)
  have dec: "decode (xs @ ys) = decode xs @ decode ys" "decode (tt_encode tk t) = t" for xs ys t
    using assms(2) by (auto simp: lossless_tokens_def)
  obtain s rest where segs: "segs = s # rest" and s: "is_segment s" "hd s = m"
    and split: "m # ms = s @ concat rest" "split_appended_segments (concat rest) = Inr rest"
    and tool: "is_role ''tool'' (last s) \<Longrightarrow> concat rest \<noteq> [] \<Longrightarrow> \<not> is_role ''tool'' (hd (concat rest))"
    and IH: "\<And>b. \<lbrakk>b \<noteq> []; concat rest \<noteq> [] \<Longrightarrow> \<not> (is_role ''tool'' (last b) \<and> is_role ''tool'' (hd (concat rest)))\<rbrakk>
      \<Longrightarrow> \<exists>parts. rmap (tokenize_segment lib tk tools) rest = Inr parts \<and>
          body b @ decode (concat parts) = body (b @ concat rest)"
  proof (cases "is_role ''tool'' m")
    case True
    with 2(3) obtain rest where r: "split_appended_segments (dropWhile (is_role ''tool'') ms) = Inr rest"
      "segs = (m # takeWhile (is_role ''tool'') ms) # rest" by (auto simp: rbind_eq_Inr)
    have c: "concat rest = dropWhile (is_role ''tool'') ms" using split_appended_concat [OF r(1)] by simp
    have "is_segment (m # takeWhile (is_role ''tool'') ms)"
      using True by (auto simp: is_segment_def list_all_iff dest: set_takeWhileD)
    moreover note 2(1) [OF True r(1)] and hd_dropWhile [of "is_role ''tool''" ms]
    ultimately show ?thesis
      using r by (intro that [of "m # takeWhile (is_role ''tool'') ms" rest]) (simp_all add: c)
  next
    case False
    with 2(3) obtain rest where r: "is_role ''user'' m" "split_appended_segments ms = Inr rest" "segs = [m] # rest"
      by (auto simp: rbind_eq_Inr split: if_splits)
    have c: "concat rest = ms" using split_appended_concat [OF r(2)] by simp
    note 2(2) [OF False r(1,2)]
    then show ?thesis
      using r False by (intro that [of "[m]" rest]) (simp_all add: c is_segment_def)
  qed
  have bs: "body (b @ s) = body b @ seg_text s"
    using assms(1) s 2(4,5) by (simp add: compositional_template_def)
  have ne: "s \<noteq> []" using s by (auto simp: is_segment_def)
  obtain parts where "rmap (tokenize_segment lib tk tools) rest = Inr parts"
    "body (b @ s) @ decode (concat parts) = body ((b @ s) @ concat rest)"
    using IH [of "b @ s"] ne tool by auto
  then show ?case
    using tokenize_segment_text [OF assms(1) s(1)] split(1)
    by (simp add: segs dec bs)
qed


lemma role_tito_message [simp]: "pget (tito_message lib m) ''role'' = pget m ''role''"
  by (auto simp: tito_message_def Let_def pget_def split: pyval.splits)

text \<open>
  A small instance: every message is rendered as its role, a semicolon and a newline, and a
  token is the code of a character.
\<close>

definition sample_lib :: py_lib where
  "sample_lib = \<lparr>json_loads = (\<lambda>_. None), json_dumps = (\<lambda>_. ''{}''), py_repr = (\<lambda>_. ''?''),
     sha256_hex = (\<lambda>s. s), text_float = (\<lambda>_. None)\<rparr>"

definition sample_message_text :: "message \<Rightarrow> string" where
  "sample_message_text m = (case pget m ''role'' of PStr r \<Rightarrow> r @ '';'' @ [CHR 0x0A] | _ \<Rightarrow> [])"

definition sample_tokenizer :: tito_tokenizer where
  "sample_tokenizer = \<lparr>tt_model = Qwen35,
     tt_template = (\<lambda>ms tools gp. Inr (concat (map sample_message_text ms) @ (if gp then ''G'' else []))),
     tt_encode = map of_char, tt_im_end_id = Some 59\<rparr>"

lemma sample_template_compositional:
  "compositional_template lib sample_tokenizer tools (\<lambda>ms. concat (map sample_message_text ms)) ''G''
    (\<lambda>ms. concat (map sample_message_text ms))"
proof -
  have "sample_message_text (tito_message lib m) = sample_message_text m" for m
    by (simp add: sample_message_text_def)
  then show ?thesis
    by (simp add: compositional_template_def tito_render_def sample_tokenizer_def Let_def
        tito_normalize_messages_def comp_def)
qed

lemma sample_tokenizer_lossless: "lossless_tokens sample_tokenizer (map char_of)"
  by (simp add: lossless_tokens_def sample_tokenizer_def comp_def)


end
