(* ===== verification/Session_Manager.thy ===== *)
theory Session_Manager
  imports Messages Transport
begin

text \<open>
  Session tracking (\<open>dressage/proxy/session_manager.py\<close>): step records, lineages, the prefix
  index, sessions and the manager with its active, finalised and result tables.

  Object identity.  \<open>Session.steps\<close> and \<open>Session.steps_by_id\<close> share their \<open>StepRecord\<close> objects;
  the model stores each step once, in the list, and \<open>steps_by_id\<close> maps an id to its position.
  \<open>ensure_session_active\<close> compares sessions by identity; every \<open>Session\<close> gets an object number
  when it is allocated.  \<open>request_lock.locked()\<close> is the flag \<open>se_locked\<close>.  Clock readings and
  fresh UUIDs are arguments.

  An operation returns its result (or the exception it raises) together with the manager it
  leaves behind, since several operations update the session before they raise.
\<close>

section \<open>Records\<close>

definition IMPLICIT_TURN_ID_PREFIX :: string where
  "IMPLICIT_TURN_ID_PREFIX = ''__implicit_turn__:''"

datatype route_type = RouteAppend | RouteBranch | RouteCreate

record Lineage =
  lin_id :: string
  lin_index :: nat
  lin_latest_step_id :: "string option"
  lin_branch_from_step_id :: "string option"

record Route =
  rt_lineage_id :: string
  rt_type :: route_type
  rt_base_step_id :: "string option"

record StepRecord =
  st_turn_id :: string
  st_request_messages :: "message list"
  st_normalized_request_messages :: "message list"
  st_prompt_token_ids :: "int list"
  st_prompt_token_logprobs :: "pyval list field_value"
  st_snapshot_token_ids :: "int list"
  st_response_token_ids :: "int list"
  st_response_logprobs :: "pyval list field_value"
  st_all_token_ids :: "int list"
  st_all_logprobs :: "pyval list field_value"
  st_input_token_texts :: "string list"
  st_output_token_texts :: "string list"
  st_messages_snapshot :: "message list"
  st_raw_response_text :: string
  st_step_id :: string
  st_lineage_id :: string
  st_lineage_index :: nat
  st_route_type :: route_type
  st_route_base_step_id :: "string option"
  st_normalized_messages_snapshot :: "message list"
  st_snapshot_rendered :: string
  st_snapshot_rendered_len :: nat
  st_snapshot_tools_hash :: "string option"
  st_lineage_segment_boundary_before :: bool
  st_lineage_segment_reasons_before :: "string list"
  st_prompt_versions :: "string list"
  st_response_versions :: "string list"
  st_all_versions :: "string list"
  st_all_logprobs_invalid :: bool
  st_concat_token_ids :: "int list"
  st_concat_response_logprobs :: "pyfloat list field_value"
  st_concat_response_mask :: "int list"
  st_concat_versions :: "string list"
  st_concat_context_token_count :: nat
  st_concat_output_token_count :: nat
  st_concat_logprobs_invalid :: bool
  st_concat_incremental_tokenization_failed :: bool
  st_response_routed_experts_chunks :: "routed_chunk list field_value"
  st_tools :: tool_list
  st_segment_boundary_before :: bool
  st_rewrite_reason :: "string option"
  st_segment_reason_before :: "string option"
  st_segment_reasons_before :: "string list"
  st_finish_reason :: string
  st_request_version :: "string option"
  st_response_version :: "string option"
  st_tool_call_hook_metadata :: "(string, pyval) dict"
  st_request_e2e_latency_seconds :: "real option"
  st_request_queue_seconds :: "real option"
  st_rebalancing_moved :: bool
  st_timestamp :: real

record SessionPrefixTree =
  pt_by_fingerprint :: "(string, string list) dict"
  pt_fingerprint_by_step_id :: "(string, string) dict"
  pt_all_step_ids :: "string list"

datatype turn_mode = Implicit | Explicit

record Session =
  se_object :: nat
  se_session_id :: string
  se_instance_id :: string
  se_incarnation_id :: "string option"
  se_steps :: "StepRecord list"
  se_history_rewritten :: bool
  se_rewrite_reason :: "string option"
  se_rewrite_detected_at :: "real option"
  se_created_at :: real
  se_last_active :: real
  se_turn_mode :: "turn_mode option"
  se_implicit_turn_id :: "string option"
  se_turn_ids :: "string list"
  se_active_turn_id :: "string option"
  se_rollout_epoch :: "nat option"
  se_lineages :: "(string, Lineage) dict"
  se_steps_by_id :: "(string, nat) dict"
  se_prefix_tree :: SessionPrefixTree
  se_locked :: bool
  se_turn_counter :: nat
  se_step_counter :: nat
  se_lineage_counter :: nat

record 'r session_manager =
  sm_sessions :: "(string, Session) dict"
  sm_finalized :: "(string, real) dict"
  sm_results :: "(string, 'r) dict"
  sm_timeout :: real
  sm_allocated :: nat

section \<open>The prefix index\<close>

definition canonical_json :: "py_lib \<Rightarrow> pyval \<Rightarrow> string" where
  "canonical_json lib v = json_dumps lib v"

definition empty_prefix_tree :: SessionPrefixTree where
  "empty_prefix_tree = \<lparr>pt_by_fingerprint = [], pt_fingerprint_by_step_id = [], pt_all_step_ids = []\<rparr>"

definition fingerprint :: "py_lib \<Rightarrow> message list \<Rightarrow> string" where
  "fingerprint lib messages = sha256_hex lib (canonical_json lib (PList (map PDict messages)))"

text \<open>
  A set of step ids is a list without repetition; CPython leaves the order of a set open, and
  the model takes the order of insertion.
\<close>

definition prefix_tree_insert :: "py_lib \<Rightarrow> string \<Rightarrow> message list \<Rightarrow> SessionPrefixTree \<Rightarrow> SessionPrefixTree" where
  "prefix_tree_insert lib step_id messages t =
     (let fp = fingerprint lib messages; ids = dget_or (pt_by_fingerprint t) fp [] in
      t\<lparr>pt_fingerprint_by_step_id := dset step_id fp (pt_fingerprint_by_step_id t),
        pt_by_fingerprint := dset fp (if step_id \<in> set ids then ids else ids @ [step_id]) (pt_by_fingerprint t),
        pt_all_step_ids := pt_all_step_ids t @ [step_id]\<rparr>)"

definition candidates :: "py_lib \<Rightarrow> SessionPrefixTree \<Rightarrow> message list \<Rightarrow> string list" where
  "candidates lib t current_messages =
     ordered_unique_onto []
       (concat (map (\<lambda>n. dget_or (pt_by_fingerprint t) (fingerprint lib (take n current_messages)) [])
          [0..<Suc (length current_messages)]) @ pt_all_step_ids t)"

section \<open>Sessions\<close>

definition new_session :: "nat \<Rightarrow> string \<Rightarrow> string \<Rightarrow> real \<Rightarrow> Session" where
  "new_session object sid iid now =
     \<lparr>se_object = object, se_session_id = sid, se_instance_id = iid, se_incarnation_id = None,
      se_steps = [], se_history_rewritten = False, se_rewrite_reason = None,
      se_rewrite_detected_at = None, se_created_at = now, se_last_active = now, se_turn_mode = None,
      se_implicit_turn_id = None, se_turn_ids = [], se_active_turn_id = None,
      se_rollout_epoch = None, se_lineages = [], se_steps_by_id = [],
      se_prefix_tree = empty_prefix_tree, se_locked = False, se_turn_counter = 0,
      se_step_counter = 0, se_lineage_counter = 0\<rparr>"

definition next_turn_id :: "Session \<Rightarrow> string \<times> Session" where
  "next_turn_id s = (let n = Suc (se_turn_counter s) in (show_nat n, s\<lparr>se_turn_counter := n\<rparr>))"

definition step_name :: "nat \<Rightarrow> string" where
  "step_name n = ''step-'' @ show_nat_padded 6 n"

definition lineage_name :: "nat \<Rightarrow> string" where
  "lineage_name n = ''lineage-'' @ show_nat_padded 6 n"

definition next_step_id :: "Session \<Rightarrow> string \<times> Session" where
  "next_step_id s = (let n = Suc (se_step_counter s) in (step_name n, s\<lparr>se_step_counter := n\<rparr>))"

definition create_lineage :: "string option \<Rightarrow> Session \<Rightarrow> Lineage \<times> Session" where
  "create_lineage branch_from s =
     (let n = Suc (se_lineage_counter s);
          l = \<lparr>lin_id = lineage_name n, lin_index = n - 1, lin_latest_step_id = None,
               lin_branch_from_step_id = branch_from\<rparr>
      in (l, s\<lparr>se_lineage_counter := n, se_lineages := dset (lin_id l) l (se_lineages s)\<rparr>))"

definition step_of :: "Session \<Rightarrow> string \<Rightarrow> StepRecord option" where
  "step_of s step_id = map_option ((!) (se_steps s)) (dget (se_steps_by_id s) step_id)"

definition full_messages :: "Session \<Rightarrow> message list" where
  "full_messages s = (if se_steps s = [] then [] else st_messages_snapshot (last (se_steps s)))"

definition latest_tools :: "Session \<Rightarrow> tool_list" where
  "latest_tools s = (case filter (\<lambda>st. st_tools st \<noteq> None) (rev (se_steps s)) of
      [] \<Rightarrow> None | st # _ \<Rightarrow> st_tools st)"

definition latest_step :: "Session \<Rightarrow> StepRecord option" where
  "latest_step s = (if se_steps s = [] then None else Some (last (se_steps s)))"

section \<open>The manager\<close>

definition new_manager :: "real \<Rightarrow> 'r session_manager" where
  "new_manager timeout = \<lparr>sm_sessions = [], sm_finalized = [], sm_results = [], sm_timeout = timeout,
     sm_allocated = 0\<rparr>"

definition update_session :: "string \<Rightarrow> (Session \<Rightarrow> Session) \<Rightarrow> 'r session_manager \<Rightarrow> 'r session_manager" where
  "update_session sid f m =
     (case dget (sm_sessions m) sid of None \<Rightarrow> m
      | Some s \<Rightarrow> m\<lparr>sm_sessions := dset sid (f s) (sm_sessions m)\<rparr>)"

definition session_expired :: "real \<Rightarrow> real \<Rightarrow> Session \<Rightarrow> bool" where
  "session_expired timeout now s \<longleftrightarrow> \<not> now - se_last_active s \<le> timeout \<and> \<not> se_locked s"

definition touch_locked :: "real \<Rightarrow> real \<Rightarrow> Session \<Rightarrow> Session" where
  "touch_locked timeout now s =
     (if \<not> now - se_last_active s \<le> timeout \<and> se_locked s then s\<lparr>se_last_active := now\<rparr> else s)"

definition cleanup_expired :: "real \<Rightarrow> 'r session_manager \<Rightarrow> 'r session_manager" where
  "cleanup_expired now m =
     (let touched = map (\<lambda>(sid, s). (sid, touch_locked (sm_timeout m) now s)) (sm_sessions m);
          expired = map fst (filter (\<lambda>(sid, s). session_expired (sm_timeout m) now s) (sm_sessions m));
          expired_finalized =
            map fst (filter (\<lambda>(sid, stamp). now - stamp > sm_timeout m) (sm_finalized m))
      in m\<lparr>sm_sessions := fold dpop expired touched,
           sm_finalized := fold dpop expired_finalized (sm_finalized m),
           sm_results := fold dpop expired_finalized (sm_results m)\<rparr>)"

definition is_set :: "string option \<Rightarrow> bool" where
  "is_set x \<longleftrightarrow> x \<noteq> None \<and> x \<noteq> Some []"

definition get_or_create_session ::
  "string option \<Rightarrow> string option \<Rightarrow> string \<Rightarrow> string \<Rightarrow> real \<Rightarrow> 'r session_manager
    \<Rightarrow> (Session \<times> bool) result \<times> 'r session_manager" where
  "get_or_create_session session_id instance_id uuid1 uuid2 now m0 =
     (let m = cleanup_expired now m0; given = is_set session_id; key = the session_id in
      if given \<and> dmem key (sm_finalized m)
      then (Inl (SessionFinalizedError key), m)
      else case (if given then dget (sm_sessions m) key else None) of
        Some s \<Rightarrow>
          (let s' = s\<lparr>se_last_active := now,
                     se_instance_id := (if is_set instance_id then the instance_id else se_instance_id s)\<rparr>
           in (Inr (s', False), m\<lparr>sm_sessions := dset key s' (sm_sessions m)\<rparr>))
      | None \<Rightarrow>
          (let sid = (if given then key else uuid1);
               s = new_session (sm_allocated m) sid (if is_set instance_id then the instance_id else uuid2) now
           in (Inr (s, True), m\<lparr>sm_sessions := dset sid s (sm_sessions m),
                               sm_allocated := Suc (sm_allocated m)\<rparr>)))"

definition ensure_session_active ::
  "string \<Rightarrow> Session \<Rightarrow> real \<Rightarrow> 'r session_manager \<Rightarrow> unit result \<times> 'r session_manager" where
  "ensure_session_active sid s now m0 =
     (let m = cleanup_expired now m0 in
      if dmem sid (sm_finalized m) then (Inl (SessionFinalizedError sid), m)
      else case dget (sm_sessions m) sid of
        Some c \<Rightarrow> (if se_object c = se_object s then Inr () else Inl (SessionFinalizedError sid), m)
      | None \<Rightarrow> (Inl (SessionFinalizedError sid), m))"

definition is_reserved_turn_id :: "string \<Rightarrow> bool" where
  "is_reserved_turn_id t = startswith t IMPLICIT_TURN_ID_PREFIX"

definition resolve_turn ::
  "string option \<Rightarrow> string \<Rightarrow> real \<Rightarrow> Session \<Rightarrow> string result \<times> Session" where
  "resolve_turn requested uuid now s0 =
     (let s = s0\<lparr>se_last_active := now\<rparr> in
      case requested of
        None \<Rightarrow>
          (case se_turn_mode s of
             Some Explicit \<Rightarrow> (Inl (ValueError ''turn_id is required once the session starts using explicit turns.''), s)
           | None \<Rightarrow>
               (let t = IMPLICIT_TURN_ID_PREFIX @ uuid in
                (Inr t, s\<lparr>se_turn_mode := Some Implicit, se_implicit_turn_id := Some t,
                          se_turn_ids := se_turn_ids s @ [t], se_active_turn_id := Some t\<rparr>))
           | Some Implicit \<Rightarrow> (Inr (case se_implicit_turn_id s of Some t \<Rightarrow> t | None \<Rightarrow> []), s))
      | Some t \<Rightarrow>
          (if is_reserved_turn_id t
           then (Inl (ValueError ''turn_id uses a reserved implicit-turn prefix.''), s)
           else if se_turn_mode s = Some Implicit
           then (Inl (ValueError ''Cannot provide explicit turn_id after the session started in implicit single-turn mode.''), s)
           else
             (let s1 = s\<lparr>se_turn_mode := Some Explicit\<rparr>;
                  s2 = s1\<lparr>se_turn_ids := se_turn_ids s1 @ [t], se_active_turn_id := Some t\<rparr>
              in case se_active_turn_id s1 of
                   None \<Rightarrow> (Inr t, s2)
                 | Some a \<Rightarrow>
                     (if t = a then (Inr t, s1)
                      else if t \<in> set (se_turn_ids s1)
                      then (Inl (ValueError ''Cannot return to a previous turn_id after the session has advanced to a newer turn.''), s1)
                      else (Inr t, s2)))))"

definition resolve_turn_id ::
  "string \<Rightarrow> string option \<Rightarrow> string \<Rightarrow> real \<Rightarrow> 'r session_manager \<Rightarrow> string result \<times> 'r session_manager" where
  "resolve_turn_id sid requested uuid now m =
     (case dget (sm_sessions m) sid of
        None \<Rightarrow> (Inl (KeyError sid), m)
      | Some s \<Rightarrow> (let (r, s') = resolve_turn requested uuid now s in
                  (r, m\<lparr>sm_sessions := dset sid s' (sm_sessions m)\<rparr>)))"

text \<open>
  \<open>record_step\<close> on the session.  \<open>args\<close> carries the keyword arguments that go into the record
  unchanged; the step id, lineage and lineage index are resolved here.
\<close>

definition record_in_session ::
  "py_lib \<Rightarrow> string option \<Rightarrow> string option \<Rightarrow> nat option \<Rightarrow> StepRecord \<Rightarrow> real \<Rightarrow> Session
    \<Rightarrow> StepRecord \<times> Session" where
  "record_in_session lib step_id0 lineage_id0 lineage_index0 args now s0 =
     (let (step_id, s1) = (case step_id0 of Some i \<Rightarrow> (i, s0) | None \<Rightarrow> next_step_id s0);
          (lineage_id, lineage_index, s2) =
            (case lineage_id0 of
               None \<Rightarrow> (let (l, s') = create_lineage (st_route_base_step_id args) s1 in (lin_id l, lin_index l, s'))
             | Some lid \<Rightarrow>
                 (lid, (case lineage_index0 of Some i \<Rightarrow> i
                        | None \<Rightarrow> (case dget (se_lineages s1) lid of Some l \<Rightarrow> lin_index l | None \<Rightarrow> 0)), s1));
          step = args\<lparr>st_step_id := step_id, st_lineage_id := lineage_id,
                   st_lineage_index := lineage_index,
                   st_normalized_messages_snapshot :=
                     (if st_normalized_messages_snapshot args = [] then st_messages_snapshot args
                      else st_normalized_messages_snapshot args),
                   st_timestamp := now\<rparr>
      in (step, s2\<lparr>
            se_steps := se_steps s2 @ [step],
            se_steps_by_id := dset step_id (length (se_steps s2)) (se_steps_by_id s2),
            se_prefix_tree :=
              (if st_normalized_messages_snapshot step = [] then se_prefix_tree s2
               else prefix_tree_insert lib step_id (st_normalized_messages_snapshot step) (se_prefix_tree s2)),
            se_lineages :=
              (case dget (se_lineages s2) lineage_id of None \<Rightarrow> se_lineages s2
               | Some l \<Rightarrow> dset lineage_id (l\<lparr>lin_latest_step_id := Some step_id\<rparr>) (se_lineages s2)),
            se_last_active := now\<rparr>))"

definition record_step ::
  "py_lib \<Rightarrow> string \<Rightarrow> string option \<Rightarrow> string option \<Rightarrow> nat option \<Rightarrow> StepRecord \<Rightarrow> real
    \<Rightarrow> 'r session_manager \<Rightarrow> StepRecord option \<times> 'r session_manager" where
  "record_step lib sid step_id lineage_id lineage_index args now m =
     (case dget (sm_sessions m) sid of
        None \<Rightarrow> (None, m)
      | Some s \<Rightarrow> (let (step, s') = record_in_session lib step_id lineage_id lineage_index args now s
                  in (Some step, m\<lparr>sm_sessions := dset sid s' (sm_sessions m)\<rparr>)))"

definition mark_history_rewritten :: "string \<Rightarrow> string \<Rightarrow> real \<Rightarrow> 'r session_manager \<Rightarrow> 'r session_manager" where
  "mark_history_rewritten sid reason now m =
     update_session sid (\<lambda>s. if se_history_rewritten s then s
       else s\<lparr>se_history_rewritten := True, se_rewrite_reason := Some reason,
              se_rewrite_detected_at := Some now\<rparr>) m"

definition get_session :: "string \<Rightarrow> 'r session_manager \<Rightarrow> Session option" where
  "get_session sid m = dget (sm_sessions m) sid"

definition get_finalization_result :: "string \<Rightarrow> real \<Rightarrow> 'r session_manager \<Rightarrow> 'r option \<times> 'r session_manager" where
  "get_finalization_result sid now m0 = (let m = cleanup_expired now m0 in (dget (sm_results m) sid, m))"

definition finalize_session ::
  "string \<Rightarrow> 'r option \<Rightarrow> real \<Rightarrow> 'r session_manager \<Rightarrow> Session option \<times> 'r session_manager" where
  "finalize_session sid outcome now m =
     (case dget (sm_sessions m) sid of
        None \<Rightarrow> (None, m)
      | Some s \<Rightarrow> (Some s, m\<lparr>sm_sessions := dpop sid (sm_sessions m),
                            sm_finalized := dset sid now (sm_finalized m),
                            sm_results := (case outcome of None \<Rightarrow> sm_results m
                                           | Some r \<Rightarrow> dset sid r (sm_results m))\<rparr>))"

definition discard_session :: "string \<Rightarrow> 'r session_manager \<Rightarrow> bool \<times> 'r session_manager" where
  "discard_session sid m =
     (dmem sid (sm_sessions m) \<or> dmem sid (sm_finalized m) \<or> dmem sid (sm_results m),
      m\<lparr>sm_sessions := dpop sid (sm_sessions m), sm_finalized := dpop sid (sm_finalized m),
        sm_results := dpop sid (sm_results m)\<rparr>)"

definition active_count :: "real \<Rightarrow> 'r session_manager \<Rightarrow> nat \<times> 'r session_manager" where
  "active_count now m0 = (let m = cleanup_expired now m0 in (length (sm_sessions m), m))"

section \<open>Turn identifiers\<close>

definition turns_ok :: "Session \<Rightarrow> bool" where
  "turns_ok s \<longleftrightarrow> distinct (se_turn_ids s) \<and>
     (case se_turn_mode s of
        None \<Rightarrow> se_turn_ids s = [] \<and> se_active_turn_id s = None \<and> se_implicit_turn_id s = None
      | Some Implicit \<Rightarrow> (\<exists>t. se_implicit_turn_id s = Some t \<and> se_turn_ids s = [t] \<and>
            se_active_turn_id s = Some t \<and> is_reserved_turn_id t)
      | Some Explicit \<Rightarrow> se_implicit_turn_id s = None \<and> se_turn_ids s \<noteq> [] \<and>
            se_active_turn_id s = Some (last (se_turn_ids s)) \<and>
            (\<forall>t\<in>set (se_turn_ids s). \<not> is_reserved_turn_id t))"

lemma reserved_implicit [simp]: "is_reserved_turn_id (IMPLICIT_TURN_ID_PREFIX @ u)"
  by (simp add: is_reserved_turn_id_def startswith_def)

lemma new_session_simps [simp]:
  "se_object (new_session n sid iid now) = n" "se_session_id (new_session n sid iid now) = sid"
  "se_steps (new_session n sid iid now) = []" "se_lineages (new_session n sid iid now) = []"
  "se_turn_ids (new_session n sid iid now) = []" "se_locked (new_session n sid iid now) = False"
  by (simp_all add: new_session_def)

lemma turns_ok_cong:
  "\<lbrakk>se_turn_ids s' = se_turn_ids s; se_turn_mode s' = se_turn_mode s;
    se_active_turn_id s' = se_active_turn_id s; se_implicit_turn_id s' = se_implicit_turn_id s\<rbrakk>
    \<Longrightarrow> turns_ok s' = turns_ok s"
  by (auto simp: turns_ok_def split: option.splits turn_mode.splits)

lemma turns_ok_active:
  "turns_ok s \<Longrightarrow> se_turn_ids s \<noteq> [] \<Longrightarrow> se_active_turn_id s = Some (last (se_turn_ids s))"
  by (auto simp: turns_ok_def split: option.splits turn_mode.splits)

lemma turns_ok_new [simp]: "turns_ok (new_session n sid iid now)"
  by (simp add: turns_ok_def new_session_def)

text \<open>
  One request: the invariant is kept, and the list of turn ids grows exactly by an accepted id
  that is not the active one.
\<close>

lemma resolve_turn_spec:
  assumes "turns_ok s" "resolve_turn requested uuid now s = (r, s')"
  shows "turns_ok s' \<and>
    (case r of
       Inl e \<Rightarrow> se_turn_ids s' = se_turn_ids s
     | Inr t \<Rightarrow> se_turn_ids s' = (if se_turn_ids s \<noteq> [] \<and> t = last (se_turn_ids s) then se_turn_ids s
                                else se_turn_ids s @ [t]))"
proof (cases requested)
  case None
  with assms show ?thesis
    by (auto simp: resolve_turn_def turns_ok_def Let_def split: option.splits turn_mode.splits)
next
  case (Some t)
  show ?thesis
  proof (cases "se_turn_mode s")
    case None
    with assms Some show ?thesis
      by (auto simp: resolve_turn_def turns_ok_def Let_def split: if_splits)
  next
    case (Some m)
    with assms \<open>requested = Some t\<close> show ?thesis
      by (cases m) (auto simp: resolve_turn_def turns_ok_def Let_def split: if_splits)
  qed
qed

text \<open>A run of requests against one session, collecting the accepted turn ids.\<close>

fun resolve_many :: "(string option \<times> string \<times> real) list \<Rightarrow> Session \<Rightarrow> string list \<times> Session" where
  "resolve_many [] s = ([], s)"
| "resolve_many ((requested, uuid, now) # rest) s =
     (let (r, s') = resolve_turn requested uuid now s; (ts, s'') = resolve_many rest s' in
      ((case r of Inl e \<Rightarrow> ts | Inr t \<Rightarrow> t # ts), s''))"

lemma remdups_adj_snoc_onto:
  "remdups_adj (xs @ t # ts) = remdups_adj ((if xs \<noteq> [] \<and> t = last xs then xs else xs @ [t]) @ ts)"
  if "distinct xs"
proof (cases "xs \<noteq> [] \<and> t = last xs")
  case True
  then obtain ys where ys: "xs = ys @ [t]" by (metis append_butlast_last_id)
  have "remdups_adj (ys @ t # t # ts) = remdups_adj (ys @ t # ts)"
    by (simp add: remdups_adj_append [of ys t "t # ts"] remdups_adj_append [of ys t ts])
  with ys show ?thesis by simp
next
  case False
  then show ?thesis by (simp only: if_False append_assoc append_Cons append_Nil)
qed

lemma resolve_many_turn_ids:
  assumes "turns_ok s" "resolve_many reqs s = (ts, s')"
  shows "turns_ok s' \<and> se_turn_ids s' = remdups_adj (se_turn_ids s @ ts)"
  using assms
proof (induction reqs s arbitrary: ts s' rule: resolve_many.induct)
  case (1 s)
  then show ?case by (auto simp: turns_ok_def remdups_adj_distinct)
next
  case (2 requested uuid now rest s)
  obtain r s1 where r: "resolve_turn requested uuid now s = (r, s1)" by fastforce
  obtain ts1 s2 where ts1: "resolve_many rest s1 = (ts1, s2)" by fastforce
  note spec = resolve_turn_spec [OF 2(2) r]
  have d: "distinct (se_turn_ids s)" using 2(2) by (simp add: turns_ok_def)
  from 2(1) [OF _ _ _ ts1] r spec
  have "turns_ok s2" "se_turn_ids s2 = remdups_adj (se_turn_ids s1 @ ts1)" by auto
  with 2(3) r ts1 spec show ?case
    using remdups_adj_snoc_onto [OF d] by (cases r) (auto simp: Let_def)
qed

text \<open>
  C23: turn discipline.  Whatever turn ids the requests of one session carry, the ids that are
  accepted never return to an earlier turn: with consecutive repetitions collapsed they are
  pairwise different, and they are exactly the session's list of turn ids.
\<close>

theorem turn_ids_never_return:
  "case resolve_many reqs (new_session n sid iid now) of (accepted, s) \<Rightarrow>
     se_turn_ids s = remdups_adj accepted \<and> distinct (remdups_adj accepted) \<and>
     (accepted \<noteq> [] \<longrightarrow> se_active_turn_id s = Some (last accepted))"
proof -
  obtain accepted s where run: "resolve_many reqs (new_session n sid iid now) = (accepted, s)" by fastforce
  have "turns_ok s \<and> se_turn_ids s = remdups_adj accepted"
    using resolve_many_turn_ids [OF turns_ok_new run] by (simp add: new_session_def)
  then show ?thesis
    using turns_ok_active [of s] by (auto simp: run turns_ok_def)
qed

theorem turn_ids_never_return_witness:
  "case resolve_many [(Some ''a'', [], 0), (Some ''a'', [], 1), (Some ''b'', [], 2), (Some ''a'', [], 3)]
      (new_session 0 ''s'' ''i'' 0) of (accepted, s) \<Rightarrow>
     se_turn_ids s = remdups_adj accepted \<and> distinct (remdups_adj accepted) \<and>
     (accepted \<noteq> [] \<longrightarrow> se_active_turn_id s = Some (last accepted))"
  by (rule turn_ids_never_return)

section \<open>The tables of the manager\<close>

text \<open>
  The tables agree: every entry is stored under its own id, object numbers are unique, no id is
  active and finalised at once, a cached result belongs to a finalised id.
\<close>

definition manager_ok :: "'r session_manager \<Rightarrow> bool" where
  "manager_ok m \<longleftrightarrow>
     dict_ok (sm_sessions m) \<and> dict_ok (sm_finalized m) \<and> dict_ok (sm_results m) \<and>
     (\<forall>sid s. dget (sm_sessions m) sid = Some s \<longrightarrow>
        se_session_id s = sid \<and> se_object s < sm_allocated m \<and> turns_ok s) \<and>
     (\<forall>sid s sid' s'. dget (sm_sessions m) sid = Some s \<longrightarrow> dget (sm_sessions m) sid' = Some s' \<longrightarrow>
        se_object s = se_object s' \<longrightarrow> sid = sid') \<and>
     (\<forall>sid s. dget (sm_sessions m) sid = Some s \<longrightarrow> dget (sm_finalized m) sid = None) \<and>
     (\<forall>sid r. dget (sm_results m) sid = Some r \<longrightarrow> dget (sm_finalized m) sid \<noteq> None)"

lemma manager_okI:
  assumes "dict_ok (sm_sessions m)" "dict_ok (sm_finalized m)" "dict_ok (sm_results m)"
    and "\<And>sid s. dget (sm_sessions m) sid = Some s \<Longrightarrow>
      se_session_id s = sid \<and> se_object s < sm_allocated m \<and> turns_ok s"
    and "\<And>sid s sid' s'. \<lbrakk>dget (sm_sessions m) sid = Some s; dget (sm_sessions m) sid' = Some s';
      se_object s = se_object s'\<rbrakk> \<Longrightarrow> sid = sid'"
    and "\<And>sid s. dget (sm_sessions m) sid = Some s \<Longrightarrow> dget (sm_finalized m) sid = None"
    and "\<And>sid r. dget (sm_results m) sid = Some r \<Longrightarrow> dget (sm_finalized m) sid \<noteq> None"
  shows "manager_ok m"
  unfolding manager_ok_def using assms by blast

lemma manager_okD:
  assumes "manager_ok m"
  shows "dict_ok (sm_sessions m)" "dict_ok (sm_finalized m)" "dict_ok (sm_results m)"
    and "dget (sm_sessions m) sid = Some s \<Longrightarrow>
      se_session_id s = sid \<and> se_object s < sm_allocated m \<and> turns_ok s"
    and "\<lbrakk>dget (sm_sessions m) sid = Some s; dget (sm_sessions m) sid' = Some s';
      se_object s = se_object s'\<rbrakk> \<Longrightarrow> sid = sid'"
    and "dget (sm_sessions m) sid = Some s \<Longrightarrow> dget (sm_finalized m) sid = None"
    and "dget (sm_results m) sid = Some r \<Longrightarrow> dget (sm_finalized m) sid \<noteq> None"
  using assms unfolding manager_ok_def by blast+

lemma dget_cleanup_sessions:
  assumes "dict_ok (sm_sessions m)"
  shows "dget (sm_sessions (cleanup_expired now m)) sid =
    (case dget (sm_sessions m) sid of
       None \<Rightarrow> None
     | Some s \<Rightarrow> if session_expired (sm_timeout m) now s then None
                else Some (touch_locked (sm_timeout m) now s))"
proof -
  have "sid \<in> fst ` {(sid, s) \<in> set (sm_sessions m). session_expired (sm_timeout m) now s} \<longleftrightarrow>
    (\<exists>s. dget (sm_sessions m) sid = Some s \<and> session_expired (sm_timeout m) now s)"
    using assms by (force simp: dget_in_set)
  then show ?thesis
    by (auto simp: cleanup_expired_def Let_def pd.get_pop_many dget_map_values
        split: option.splits)
qed

lemma dget_cleanup_finalized:
  assumes "dict_ok (sm_finalized m)"
  shows "dget (sm_finalized (cleanup_expired now m)) sid =
    (case dget (sm_finalized m) sid of
       None \<Rightarrow> None | Some t \<Rightarrow> if now - t > sm_timeout m then None else Some t)"
proof -
  have "sid \<in> fst ` {(sid, t) \<in> set (sm_finalized m). now - t > sm_timeout m} \<longleftrightarrow>
    (\<exists>t. dget (sm_finalized m) sid = Some t \<and> now - t > sm_timeout m)"
    using assms by (force simp: dget_in_set)
  then show ?thesis
    by (auto simp: cleanup_expired_def Let_def pd.get_pop_many split: option.splits)
qed

lemma dget_cleanup_results:
  assumes "dict_ok (sm_finalized m)"
  shows "dget (sm_results (cleanup_expired now m)) sid =
    (case dget (sm_finalized m) sid of
       Some t \<Rightarrow> if now - t > sm_timeout m then None else dget (sm_results m) sid
     | None \<Rightarrow> dget (sm_results m) sid)"
proof -
  have "sid \<in> fst ` {(sid, t) \<in> set (sm_finalized m). now - t > sm_timeout m} \<longleftrightarrow>
    (\<exists>t. dget (sm_finalized m) sid = Some t \<and> now - t > sm_timeout m)"
    using assms by (force simp: dget_in_set)
  then show ?thesis
    by (auto simp: cleanup_expired_def Let_def pd.get_pop_many split: option.splits)
qed

lemma cleanup_frame [simp]:
  "sm_timeout (cleanup_expired now m) = sm_timeout m"
  "sm_allocated (cleanup_expired now m) = sm_allocated m"
  by (simp_all add: cleanup_expired_def Let_def)

lemma touch_locked_frame [simp]:
  "se_object (touch_locked t now s) = se_object s"
  "se_session_id (touch_locked t now s) = se_session_id s"
  "se_steps (touch_locked t now s) = se_steps s"
  "se_locked (touch_locked t now s) = se_locked s"
  by (simp_all add: touch_locked_def)

lemma turns_ok_touch [simp]: "turns_ok (touch_locked t now s) = turns_ok s"
  by (rule turns_ok_cong) (simp_all add: touch_locked_def)

lemma dict_ok_cleanup:
  assumes "manager_ok m"
  shows "dict_ok (sm_sessions (cleanup_expired now m))" "dict_ok (sm_finalized (cleanup_expired now m))"
    "dict_ok (sm_results (cleanup_expired now m))"
  using manager_okD(1-3) [OF assms]
  by (auto simp: cleanup_expired_def Let_def dict_ok_map_values intro!: pd.ok_pop_many)

lemma cleanup_session_from:
  assumes "dict_ok (sm_sessions m)" "dget (sm_sessions (cleanup_expired now m)) sid = Some s'"
  obtains s where "dget (sm_sessions m) sid = Some s" "s' = touch_locked (sm_timeout m) now s"
    "\<not> session_expired (sm_timeout m) now s"
  using assms by (auto simp: dget_cleanup_sessions split: option.splits if_splits)

lemma cleanup_manager_ok:
  assumes "manager_ok m"
  shows "manager_ok (cleanup_expired now m)"
proof (rule manager_okI)
  note ok = manager_okD [OF assms]
  note orig = cleanup_session_from [OF ok(1)]
  fix sid s
  assume s: "dget (sm_sessions (cleanup_expired now m)) sid = Some s"
  show "se_session_id s = sid \<and> se_object s < sm_allocated (cleanup_expired now m) \<and> turns_ok s"
    by (rule orig [OF s]) (use ok(4) in auto)
  show "dget (sm_finalized (cleanup_expired now m)) sid = None"
    by (rule orig [OF s]) (use ok(6) in \<open>auto simp: dget_cleanup_finalized ok\<close>)
  fix sid' s'
  assume s': "dget (sm_sessions (cleanup_expired now m)) sid' = Some s'" "se_object s = se_object s'"
  show "sid = sid'"
    by (rule orig [OF s], rule orig [OF s'(1)]) (use ok(5) s'(2) in auto)
next
  note ok = manager_okD [OF assms]
  fix sid r
  assume "dget (sm_results (cleanup_expired now m)) sid = Some r"
  then show "dget (sm_finalized (cleanup_expired now m)) sid \<noteq> None"
    using ok(7) [of sid r] by (auto simp: dget_cleanup_results dget_cleanup_finalized ok(2)
        split: option.splits if_splits)
qed (use dict_ok_cleanup [OF assms] in auto)

lemma manager_ok_set_session:
  assumes "manager_ok m" "dget (sm_sessions m) sid = Some s"
    and "se_session_id s' = sid" "se_object s' = se_object s" "turns_ok s'"
  shows "manager_ok (m\<lparr>sm_sessions := dset sid s' (sm_sessions m)\<rparr>)"
proof (rule manager_okI, goal_cases)
  case (5 sid1 s1 sid2 s2)
  have orig: "\<exists>t. dget (sm_sessions m) k = Some t \<and> se_object t = se_object u"
    if "dget (dset sid s' (sm_sessions m)) k = Some u" for k u
    using that assms(2,4) by (auto split: if_splits)
  obtain t1 t2 where "dget (sm_sessions m) sid1 = Some t1" "se_object t1 = se_object s1"
    "dget (sm_sessions m) sid2 = Some t2" "se_object t2 = se_object s2"
    using orig [of sid1 s1] orig [of sid2 s2] 5(1,2) by auto
  with 5(3) show ?case by (intro manager_okD(5) [OF assms(1), of sid1 t1 sid2 t2]) simp_all
qed (use manager_okD [OF assms(1)] assms in \<open>auto split: if_splits\<close>)

lemma manager_ok_new_session:
  assumes "manager_ok m" "dget (sm_finalized m) sid = None"
  shows "manager_ok (m\<lparr>sm_sessions := dset sid (new_session (sm_allocated m) sid iid now) (sm_sessions m),
    sm_allocated := Suc (sm_allocated m)\<rparr>)"
proof (rule manager_okI, goal_cases)
  case (4 k s)
  then show ?case
    using manager_okD(4) [OF assms(1), of k s] by (auto split: if_splits)
next
  case (5 sid1 s1 sid2 s2)
  have old: "k = sid \<and> se_object u = sm_allocated m \<or>
      dget (sm_sessions m) k = Some u \<and> se_object u < sm_allocated m"
    if "dget (dset sid (new_session (sm_allocated m) sid iid now) (sm_sessions m)) k = Some u" for k u
    using that manager_okD(4) [OF assms(1), of k u] by (auto split: if_splits)
  from 5 old [of sid1 s1] old [of sid2 s2] manager_okD(5) [OF assms(1), of sid1 s1 sid2 s2]
  show ?case by auto
qed (use manager_okD [OF assms(1)] assms in \<open>auto split: if_splits\<close>)

section \<open>Sequences of operations\<close>

text \<open>
  The calls that request handlers issue, in any interleaving: each runs under the manager's
  lock, so a history is a list of calls.  Taking and releasing a session's request lock are
  calls too, since cleanup looks at it.
\<close>

datatype 'r manager_op =
    OpGetOrCreate "string option" "string option" string string real
  | OpEnsure string Session real
  | OpResolve string "string option" string real
  | OpRecord string "string option" "string option" "nat option" StepRecord real
  | OpMark string string real
  | OpResult string real
  | OpFinalize string "'r option" real
  | OpDiscard string
  | OpCount real
  | OpLock string
  | OpUnlock string

definition apply_op :: "py_lib \<Rightarrow> 'r manager_op \<Rightarrow> 'r session_manager \<Rightarrow> 'r session_manager" where
  "apply_op lib op m =
     (case op of
        OpGetOrCreate sid iid u1 u2 now \<Rightarrow> snd (get_or_create_session sid iid u1 u2 now m)
      | OpEnsure sid s now \<Rightarrow> snd (ensure_session_active sid s now m)
      | OpResolve sid req u now \<Rightarrow> snd (resolve_turn_id sid req u now m)
      | OpRecord sid st lin idx args now \<Rightarrow> snd (record_step lib sid st lin idx args now m)
      | OpMark sid reason now \<Rightarrow> mark_history_rewritten sid reason now m
      | OpResult sid now \<Rightarrow> snd (get_finalization_result sid now m)
      | OpFinalize sid r now \<Rightarrow> snd (finalize_session sid r now m)
      | OpDiscard sid \<Rightarrow> snd (discard_session sid m)
      | OpCount now \<Rightarrow> snd (active_count now m)
      | OpLock sid \<Rightarrow> update_session sid (\<lambda>s. s\<lparr>se_locked := True\<rparr>) m
      | OpUnlock sid \<Rightarrow> update_session sid (\<lambda>s. s\<lparr>se_locked := False\<rparr>) m)"

text \<open>A UUID drawn for a new session is not an id the manager knows.\<close>

fun fresh_op :: "'r manager_op \<Rightarrow> 'r session_manager \<Rightarrow> bool" where
  "fresh_op (OpGetOrCreate sid iid u1 u2 now) m \<longleftrightarrow>
     is_set sid \<or> (\<not> dmem u1 (sm_sessions m) \<and> \<not> dmem u1 (sm_finalized m))"
| "fresh_op _ m \<longleftrightarrow> True"

fun op_time :: "'r manager_op \<Rightarrow> real option" where
  "op_time (OpGetOrCreate sid iid u1 u2 now) = Some now"
| "op_time (OpEnsure sid s now) = Some now"
| "op_time (OpResolve sid req u now) = Some now"
| "op_time (OpRecord sid st lin idx args now) = Some now"
| "op_time (OpMark sid reason now) = Some now"
| "op_time (OpResult sid now) = Some now"
| "op_time (OpFinalize sid r now) = Some now"
| "op_time (OpCount now) = Some now"
| "op_time _ = None"

fun run_ops :: "py_lib \<Rightarrow> 'r manager_op list \<Rightarrow> 'r session_manager \<Rightarrow> 'r session_manager" where
  "run_ops lib [] m = m"
| "run_ops lib (op # ops) m = run_ops lib ops (apply_op lib op m)"

fun fresh_ops :: "py_lib \<Rightarrow> 'r manager_op list \<Rightarrow> 'r session_manager \<Rightarrow> bool" where
  "fresh_ops lib [] m = True"
| "fresh_ops lib (op # ops) m = (fresh_op op m \<and> fresh_ops lib ops (apply_op lib op m))"

lemma record_in_session_frame:
  assumes "record_in_session lib sid lid idx args now s = (step, s')"
  shows "se_session_id s' = se_session_id s" "se_object s' = se_object s"
    "turns_ok s' = turns_ok s" "se_locked s' = se_locked s" "se_steps s' = se_steps s @ [step]"
proof -
  note unf = record_in_session_def next_step_id_def create_lineage_def Let_def
  from assms show "se_session_id s' = se_session_id s" "se_object s' = se_object s"
    "se_locked s' = se_locked s" "se_steps s' = se_steps s @ [step]"
    by (auto simp: unf split: option.splits)
  show "turns_ok s' = turns_ok s"
    by (rule turns_ok_cong) (use assms in \<open>auto simp: unf split: option.splits\<close>)
qed

lemma resolve_turn_frame:
  assumes "resolve_turn req u now s = (r, s')"
  shows "se_session_id s' = se_session_id s" "se_object s' = se_object s"
    "se_locked s' = se_locked s" "se_steps s' = se_steps s"
  using assms by (auto simp: resolve_turn_def Let_def split: option.splits turn_mode.splits if_splits)

lemma update_session_ok:
  assumes "manager_ok m"
    and "\<And>s. se_session_id (f s) = se_session_id s" "\<And>s. se_object (f s) = se_object s"
      "\<And>s. turns_ok (f s) = turns_ok s"
  shows "manager_ok (update_session sid f m)"
  using assms manager_okD(4) [OF assms(1)]
  by (auto simp: update_session_def intro!: manager_ok_set_session split: option.splits)

lemma get_or_create_ok:
  assumes "manager_ok m" "is_set sid \<or> \<not> dmem u1 (sm_finalized m)"
  shows "manager_ok (snd (get_or_create_session sid iid u1 u2 now m))"
proof -
  let ?c = "cleanup_expired now m"
  have ok: "manager_ok ?c" using assms(1) by (rule cleanup_manager_ok)
  show ?thesis
  proof (cases "is_set sid \<and> dmem (the sid) (sm_finalized ?c)")
    case True
    then show ?thesis using ok by (simp add: get_or_create_session_def Let_def)
  next
    case False
    show ?thesis
    proof (cases "if is_set sid then dget (sm_sessions ?c) (the sid) else None")
      case (Some s)
      let ?s = "s\<lparr>se_last_active := now,
          se_instance_id := if is_set iid then the iid else se_instance_id s\<rparr>"
      have "turns_ok ?s = turns_ok s" by (rule turns_ok_cong) simp_all
      with Some False manager_okD(4) [OF ok, of "the sid" s]
      have "manager_ok (?c\<lparr>sm_sessions := dset (the sid) ?s (sm_sessions ?c)\<rparr>)"
        by (intro manager_ok_set_session [OF ok]) (auto split: if_splits)
      with Some False show ?thesis by (auto simp: get_or_create_session_def Let_def)
    next
      case None
      have "dget (sm_finalized ?c) (if is_set sid then the sid else u1) = None"
        using False assms manager_okD(2) [OF assms(1)]
        by (auto simp: dmem_def dget_cleanup_finalized split: if_splits)
      from manager_ok_new_session [OF ok this] None False show ?thesis
        by (auto simp: get_or_create_session_def Let_def)
    qed
  qed
qed

lemma finalize_ok: "manager_ok m \<Longrightarrow> manager_ok (snd (finalize_session sid r now m))"
proof (cases "dget (sm_sessions m) sid")
  case (Some s)
  assume ok: "manager_ok m"
  have "manager_ok (m\<lparr>sm_sessions := dpop sid (sm_sessions m), sm_finalized := dset sid now (sm_finalized m),
      sm_results := (case r of None \<Rightarrow> sm_results m | Some r \<Rightarrow> dset sid r (sm_results m))\<rparr>)"
  proof (rule manager_okI, goal_cases)
    case (5 sid1 s1 sid2 s2)
    then show ?case using manager_okD(5) [OF ok, of sid1 s1 sid2 s2] by (auto split: if_splits)
  qed (use manager_okD [OF ok] in \<open>auto split: if_splits option.splits\<close>)
  with Some show ?thesis by (simp add: finalize_session_def)
qed (simp add: finalize_session_def)

lemma discard_ok: "manager_ok m \<Longrightarrow> manager_ok (snd (discard_session sid m))"
proof -
  assume ok: "manager_ok m"
  show ?thesis unfolding discard_session_def snd_conv
  proof (rule manager_okI, goal_cases)
    case (5 sid1 s1 sid2 s2)
    then show ?case using manager_okD(5) [OF ok, of sid1 s1 sid2 s2] by (auto split: if_splits)
  qed (use manager_okD [OF ok] in \<open>auto split: if_splits\<close>)
qed

lemma resolve_turn_id_ok:
  assumes "manager_ok m"
  shows "manager_ok (snd (resolve_turn_id sid req u now m))"
proof (cases "dget (sm_sessions m) sid")
  case (Some s)
  obtain r s' where r: "resolve_turn req u now s = (r, s')" by fastforce
  have "manager_ok (m\<lparr>sm_sessions := dset sid s' (sm_sessions m)\<rparr>)"
    by (rule manager_ok_set_session [OF assms Some])
      (use manager_okD(4) [OF assms Some] resolve_turn_spec [OF _ r] resolve_turn_frame [OF r] in simp_all)
  with Some r show ?thesis by (simp add: resolve_turn_id_def)
qed (simp add: resolve_turn_id_def assms)

lemma record_step_ok:
  assumes "manager_ok m"
  shows "manager_ok (snd (record_step lib sid st lin idx args now m))"
proof (cases "dget (sm_sessions m) sid")
  case (Some s)
  obtain step s' where r: "record_in_session lib st lin idx args now s = (step, s')" by fastforce
  have "manager_ok (m\<lparr>sm_sessions := dset sid s' (sm_sessions m)\<rparr>)"
    by (rule manager_ok_set_session [OF assms Some])
      (use manager_okD(4) [OF assms Some] record_in_session_frame [OF r] in simp_all)
  with Some r show ?thesis by (simp add: record_step_def)
qed (simp add: record_step_def assms)

lemma apply_op_ok:
  assumes "manager_ok m" "fresh_op op m"
  shows "manager_ok (apply_op lib op m)"
proof (cases op)
  case (OpMark sid reason now)
  have "turns_ok (if se_history_rewritten s then s else s\<lparr>se_history_rewritten := True,
      se_rewrite_reason := Some reason, se_rewrite_detected_at := Some now\<rparr>) = turns_ok s" for s
    by (rule turns_ok_cong) simp_all
  with OpMark show ?thesis
    by (auto simp: apply_op_def mark_history_rewritten_def intro!: update_session_ok [OF assms(1)])
next
  case (OpLock sid)
  have "turns_ok (s\<lparr>se_locked := b\<rparr>) = turns_ok s" for s b by (rule turns_ok_cong) simp_all
  with OpLock show ?thesis by (auto simp: apply_op_def intro!: update_session_ok [OF assms(1)])
next
  case (OpUnlock sid)
  have "turns_ok (s\<lparr>se_locked := b\<rparr>) = turns_ok s" for s b by (rule turns_ok_cong) simp_all
  with OpUnlock show ?thesis by (auto simp: apply_op_def intro!: update_session_ok [OF assms(1)])
qed (use assms cleanup_manager_ok [OF assms(1)] in
    \<open>auto simp: apply_op_def get_or_create_ok resolve_turn_id_ok record_step_ok finalize_ok discard_ok
      ensure_session_active_def get_finalization_result_def active_count_def Let_def
      split: option.splits\<close>)

inductive manager_step :: "py_lib \<Rightarrow> 'r session_manager \<Rightarrow> 'r session_manager \<Rightarrow> bool" for lib where
  manager_stepI: "fresh_op op m \<Longrightarrow> manager_step lib m (apply_op lib op m)"

inductive_cases manager_stepE: "manager_step lib m m'"

interpretation mgr: transition_system "\<lambda>m. \<exists>t. m = new_manager t" "manager_step lib" manager_ok for lib
proof (unfold_locales, goal_cases)
  case (1 s)
  then show ?case by (auto simp: manager_ok_def new_manager_def)
next
  case (2 s t)
  then show ?case by (auto elim!: manager_stepE intro: apply_op_ok)
qed

lemma run_ops_ok: "manager_ok m \<Longrightarrow> fresh_ops lib ops m \<Longrightarrow> manager_ok (run_ops lib ops m)"
  by (induction ops arbitrary: m) (auto intro: apply_op_ok)

text \<open>
  C24: in every state the manager can reach, under any interleaving of calls, no session id is
  active and finalised at the same time, every cached finalisation result belongs to a finalised
  id, every session is stored under its own id as a distinct object, and its turn ids are
  consistent with its turn mode.
\<close>

theorem manager_tables_consistent:
  assumes "(manager_step lib)\<^sup>*\<^sup>* (new_manager timeout) m"
  shows "manager_ok m"
  using mgr.reach_inv [OF _ assms] by blast

theorem manager_tables_consistent_witness:
  "manager_ok (snd (finalize_session ''s'' (Some ()) 1
     (snd (get_or_create_session (Some ''s'') None ''u'' ''v'' 0 (new_manager 10)))))"
proof (rule manager_tables_consistent)
  let ?m = "snd (get_or_create_session (Some ''s'') None ''u'' ''v'' 0 (new_manager 10)) :: unit session_manager"
  have "manager_step sample_lib (new_manager 10) ?m"
    using manager_stepI [of "OpGetOrCreate (Some ''s'') None ''u'' ''v'' 0" "new_manager 10" sample_lib]
    by (simp add: apply_op_def is_set_def)
  moreover have "manager_step sample_lib ?m (snd (finalize_session ''s'' (Some ()) 1 ?m))"
    using manager_stepI [of "OpFinalize ''s'' (Some ()) 1" ?m sample_lib] by (simp add: apply_op_def)
  ultimately show "(manager_step sample_lib)\<^sup>*\<^sup>* (new_manager 10) (snd (finalize_session ''s'' (Some ()) 1 ?m))"
    by (meson rtranclp.rtrancl_into_rtrancl r_into_rtranclp)
qed

section \<open>Finalised sessions stay finalised\<close>

definition keeps_final :: "string \<Rightarrow> real \<Rightarrow> 'r option \<Rightarrow> 'r session_manager \<Rightarrow> bool" where
  "keeps_final sid t0 r m \<longleftrightarrow> manager_ok m \<and> dget (sm_finalized m) sid = Some t0 \<and> dget (sm_results m) sid = r"

lemma cleanup_keeps_final:
  "keeps_final sid t0 r m \<Longrightarrow> now \<le> t0 + sm_timeout m \<Longrightarrow> keeps_final sid t0 r (cleanup_expired now m)"
  by (auto simp: keeps_final_def cleanup_manager_ok dget_cleanup_finalized dget_cleanup_results manager_okD)

lemma get_or_create_tables:
  "sm_finalized (snd (get_or_create_session sid iid u1 u2 now m)) = sm_finalized (cleanup_expired now m)"
  "sm_results (snd (get_or_create_session sid iid u1 u2 now m)) = sm_results (cleanup_expired now m)"
  "sm_timeout (snd (get_or_create_session sid iid u1 u2 now m)) = sm_timeout m"
  by (auto simp: get_or_create_session_def Let_def split: option.splits)

lemma apply_op_timeout: "sm_timeout (apply_op lib op m) = sm_timeout m"
  by (cases op) (auto simp: apply_op_def get_or_create_tables ensure_session_active_def Let_def
      resolve_turn_id_def record_step_def mark_history_rewritten_def update_session_def
      get_finalization_result_def finalize_session_def discard_session_def active_count_def
      split: option.splits prod.splits)

lemma apply_op_keeps_final:
  assumes "keeps_final sid t0 r m" "fresh_op op m" "op \<noteq> OpDiscard sid"
    and "\<And>now. op_time op = Some now \<Longrightarrow> now \<le> t0 + sm_timeout m"
  shows "keeps_final sid t0 r (apply_op lib op m)"
proof -
  have ok: "manager_ok (apply_op lib op m)"
    using assms(1,2) by (auto simp: keeps_final_def intro: apply_op_ok)
  have inactive: "dget (sm_sessions m) sid = None"
    using assms(1) manager_okD(6) by (fastforce simp: keeps_final_def)
  have c: "keeps_final sid t0 r (cleanup_expired now m)" if "op_time op = Some now" for now
    using cleanup_keeps_final [OF assms(1) assms(4) [OF that]] .
  have "dget (sm_finalized (apply_op lib op m)) sid = Some t0 \<and> dget (sm_results (apply_op lib op m)) sid = r"
    using assms(1,3) c inactive
    by (cases op) (auto simp: apply_op_def get_or_create_tables ensure_session_active_def Let_def
      resolve_turn_id_def record_step_def mark_history_rewritten_def update_session_def
      get_finalization_result_def finalize_session_def discard_session_def active_count_def keeps_final_def
      split: option.splits prod.splits)
  with ok show ?thesis by (simp add: keeps_final_def)
qed

lemma run_ops_keeps_final:
  assumes "keeps_final sid t0 r m" "fresh_ops lib ops m" "OpDiscard sid \<notin> set ops"
    and "\<And>op now. \<lbrakk>op \<in> set ops; op_time op = Some now\<rbrakk> \<Longrightarrow> now \<le> t0 + sm_timeout m"
  shows "keeps_final sid t0 r (run_ops lib ops m) \<and> sm_timeout (run_ops lib ops m) = sm_timeout m"
  using assms
proof (induction ops arbitrary: m)
  case (Cons op ops)
  have k: "keeps_final sid t0 r (apply_op lib op m)"
    using Cons.prems by (intro apply_op_keeps_final) auto
  have "keeps_final sid t0 r (run_ops lib ops (apply_op lib op m)) \<and>
      sm_timeout (run_ops lib ops (apply_op lib op m)) = sm_timeout (apply_op lib op m)"
    using Cons.prems by (intro Cons.IH [OF k]) (auto simp: apply_op_timeout)
  then show ?case by (simp add: apply_op_timeout)
qed simp

text \<open>
  once a session is finalised, and until its retention time runs out or it is discarded, no
  sequence of other calls brings its id back: a request for it is rejected and a repeated
  finalisation finds the cached result.
\<close>

theorem finalized_session_stays_final:
  assumes "manager_ok m" "dget (sm_sessions m) sid = Some s" "sid \<noteq> []"
    and "fresh_ops lib ops (snd (finalize_session sid (Some r) t0 m))" "OpDiscard sid \<notin> set ops"
    and "\<forall>op\<in>set ops. \<forall>now. op_time op = Some now \<longrightarrow> now \<le> t0 + sm_timeout m"
    and "now \<le> t0 + sm_timeout m"
  shows "let m' = run_ops lib ops (snd (finalize_session sid (Some r) t0 m)) in
    fst (get_or_create_session (Some sid) iid u1 u2 now m') = Inl (SessionFinalizedError sid) \<and>
    fst (get_finalization_result sid now m') = Some r"
proof -
  let ?m = "snd (finalize_session sid (Some r) t0 m)"
  let ?m' = "run_ops lib ops ?m"
  have "keeps_final sid t0 (Some r) ?m" "sm_timeout ?m = sm_timeout m"
    using finalize_ok [OF assms(1), of sid "Some r" t0] assms(2)
    by (auto simp: keeps_final_def finalize_session_def)
  then have "keeps_final sid t0 (Some r) ?m' \<and> sm_timeout ?m' = sm_timeout m"
    using run_ops_keeps_final [of sid t0 "Some r" ?m lib ops] assms(4-6) by auto
  then have "keeps_final sid t0 (Some r) (cleanup_expired now ?m')"
    using cleanup_keeps_final assms(7) by metis
  then show ?thesis
    using assms(3) by (auto simp: keeps_final_def get_or_create_session_def get_finalization_result_def
        is_set_def dmem_def Let_def)
qed

theorem finalized_session_stays_final_witness:
  "let m' = run_ops sample_lib [OpCount 2, OpResolve ''s'' None ''u'' 3]
      (snd (finalize_session ''s'' (Some (5 :: nat)) 1
        (snd (get_or_create_session (Some ''s'') None ''u'' ''v'' 0 (new_manager 10))))) in
    fst (get_or_create_session (Some ''s'') None ''u'' ''v'' 4 m') = Inl (SessionFinalizedError ''s'') \<and>
    fst (get_finalization_result ''s'' 4 m') = Some (5 :: nat)"
proof (rule finalized_session_stays_final [where s = "new_session 0 ''s'' ''v'' 0"])
  show "manager_ok (snd (get_or_create_session (Some ''s'') None ''u'' ''v'' 0 (new_manager 10)))"
    by (rule get_or_create_ok) (auto simp: manager_ok_def new_manager_def is_set_def)
qed (simp_all add: get_or_create_session_def cleanup_expired_def new_manager_def is_set_def dmem_def Let_def)

section \<open>Cleanup spares sessions in use\<close>

definition holds_session :: "string \<Rightarrow> Session \<Rightarrow> 'r session_manager \<Rightarrow> bool" where
  "holds_session sid s m \<longleftrightarrow> manager_ok m \<and>
     (\<exists>s'. dget (sm_sessions m) sid = Some s' \<and> se_object s' = se_object s \<and> se_locked s' \<and>
        prefix (se_steps s) (se_steps s'))"

lemma cleanup_holds: "holds_session sid s m \<Longrightarrow> holds_session sid s (cleanup_expired now m)"
  by (auto simp: holds_session_def cleanup_manager_ok dget_cleanup_sessions manager_okD session_expired_def)

lemma holds_set_session:
  assumes "holds_session sid s m" "manager_ok m'"
    and "sm_sessions m' = dset sid2 t (sm_sessions m)"
    and "sid2 = sid \<Longrightarrow> \<forall>s'. dget (sm_sessions m) sid = Some s' \<longrightarrow>
      se_object t = se_object s' \<and> (se_locked s' \<longrightarrow> se_locked t) \<and> prefix (se_steps s') (se_steps t)"
  shows "holds_session sid s m'"
  using assms by (auto simp: holds_session_def split: if_splits)

lemma get_or_create_holds:
  assumes "holds_session sid s m" "is_set sid2 \<or> \<not> dmem u1 (sm_sessions m) \<and> \<not> dmem u1 (sm_finalized m)"
  shows "holds_session sid s (snd (get_or_create_session sid2 iid u1 u2 now m))"
proof -
  let ?c = "cleanup_expired now m"
  let ?r = "get_or_create_session sid2 iid u1 u2 now m"
  have c: "holds_session sid s ?c" by (rule cleanup_holds [OF assms(1)])
  have "manager_ok m" using assms(1) by (simp add: holds_session_def)
  then have ok: "manager_ok (snd ?r)" using assms(2) by (intro get_or_create_ok) auto
  have nd: "\<not> dmem u1 (sm_sessions ?c)" if "\<not> is_set sid2"
    using assms(2) that manager_okD(1) [OF \<open>manager_ok m\<close>] by (auto simp: dmem_def dget_cleanup_sessions)
  show ?thesis
  proof (cases "snd ?r = ?c")
    case False
    then consider (old) t where "is_set sid2" "dget (sm_sessions ?c) (the sid2) = Some t"
        "sm_sessions (snd ?r) = dset (the sid2) (t\<lparr>se_last_active := now,
           se_instance_id := if is_set iid then the iid else se_instance_id t\<rparr>) (sm_sessions ?c)"
      | (new) k t where "\<not> dmem k (sm_sessions ?c)" "sm_sessions (snd ?r) = dset k t (sm_sessions ?c)"
      using nd by (auto simp: get_or_create_session_def Let_def dmem_def split: option.splits if_splits)
    then show ?thesis
    proof cases
      case old
      from c ok old(3) show ?thesis
        by (rule holds_set_session) (use old(2) in auto)
    next
      case new
      from c ok new(2) show ?thesis
        by (rule holds_set_session) (use new(1) in \<open>auto simp: dmem_def\<close>)
    qed
  qed (simp add: c)
qed

lemma update_session_holds:
  assumes "holds_session sid s m" "manager_ok (update_session sid2 f m)"
    and "\<And>t. sid2 = sid \<Longrightarrow> se_object (f t) = se_object t \<and> (se_locked t \<longrightarrow> se_locked (f t)) \<and> se_steps (f t) = se_steps t"
  shows "holds_session sid s (update_session sid2 f m)"
proof (cases "dget (sm_sessions m) sid2")
  case (Some t)
  then have "sm_sessions (update_session sid2 f m) = dset sid2 (f t) (sm_sessions m)"
    by (simp add: update_session_def)
  from assms(1,2) this show ?thesis
    by (rule holds_set_session) (use Some assms(3) in auto)
next
  case None
  then show ?thesis using assms(1) by (simp add: update_session_def)
qed

lemma apply_op_holds:
  assumes "holds_session sid s m" "fresh_op op m"
    and "op \<noteq> OpDiscard sid" "op \<noteq> OpUnlock sid" "\<And>r now. op \<noteq> OpFinalize sid r now"
  shows "holds_session sid s (apply_op lib op m)"
proof -
  have mok: "manager_ok m" using assms(1) by (simp add: holds_session_def)
  have ok: "manager_ok (apply_op lib op m)" using mok assms(2) by (rule apply_op_ok)
  show ?thesis
  proof (cases op)
    case (OpResolve k req u now)
    show ?thesis
    proof (cases "dget (sm_sessions m) k")
      case (Some t)
      obtain r t' where r: "resolve_turn req u now t = (r, t')" by fastforce
      with Some OpResolve have e: "sm_sessions (apply_op lib op m) = dset k t' (sm_sessions m)"
        by (simp add: apply_op_def resolve_turn_id_def)
      from assms(1) ok e show ?thesis
        by (rule holds_set_session) (use Some resolve_turn_frame [OF r] in auto)
    qed (use OpResolve assms(1) in \<open>simp add: apply_op_def resolve_turn_id_def\<close>)
  next
    case (OpRecord k st lin idx args now)
    show ?thesis
    proof (cases "dget (sm_sessions m) k")
      case (Some t)
      obtain step t' where r: "record_in_session lib st lin idx args now t = (step, t')" by fastforce
      with Some OpRecord have e: "sm_sessions (apply_op lib op m) = dset k t' (sm_sessions m)"
        by (simp add: apply_op_def record_step_def)
      from assms(1) ok e show ?thesis
        by (rule holds_set_session) (use Some record_in_session_frame [OF r] in auto)
    qed (use OpRecord assms(1) in \<open>simp add: apply_op_def record_step_def\<close>)
  next
    case (OpFinalize k r now)
    with assms(5) have "k \<noteq> sid" by auto
    with OpFinalize assms(1) ok show ?thesis
      by (auto simp: apply_op_def finalize_session_def holds_session_def split: option.splits)
  next
    case (OpDiscard k)
    with assms(1,3) ok show ?thesis
      by (auto simp: apply_op_def discard_session_def holds_session_def)
  next
    case (OpGetOrCreate k iid u1 u2 now)
    with assms(1,2) show ?thesis by (auto simp: apply_op_def intro!: get_or_create_holds)
  next
    case (OpMark k reason now)
    with assms(1) ok show ?thesis
      by (auto simp: apply_op_def mark_history_rewritten_def intro!: update_session_holds)
  next
    case (OpLock k)
    with assms(1) ok show ?thesis by (auto simp: apply_op_def intro!: update_session_holds)
  next
    case (OpUnlock k)
    with assms(1,4) ok show ?thesis by (auto simp: apply_op_def intro!: update_session_holds)
  qed (use cleanup_holds [OF assms(1)] in \<open>auto simp: apply_op_def ensure_session_active_def
      get_finalization_result_def active_count_def Let_def split: option.splits\<close>)
qed

lemma run_ops_holds:
  assumes "holds_session sid s m" "fresh_ops lib ops m" "OpDiscard sid \<notin> set ops"
    "OpUnlock sid \<notin> set ops" "\<And>r now. OpFinalize sid r now \<notin> set ops"
  shows "holds_session sid s (run_ops lib ops m)"
  using assms
proof (induction ops arbitrary: m)
  case (Cons op ops)
  have "holds_session sid s (apply_op lib op m)"
    using Cons.prems by (intro apply_op_holds) auto
  then show ?case using Cons.prems by (auto intro!: Cons.IH)
qed simp

text \<open>
  A session whose request lock is held is never evicted.  However long the request takes and
  whatever other calls clean up meanwhile, as long as nobody finalises, discards or unlocks the
  session it stays in the table as the same object, and the steps recorded so far are kept.
\<close>

theorem locked_session_survives:
  assumes "manager_ok m" "dget (sm_sessions m) sid = Some s" "se_locked s"
    and "fresh_ops lib ops m" "OpDiscard sid \<notin> set ops" "OpUnlock sid \<notin> set ops"
    and "\<forall>r now. OpFinalize sid r now \<notin> set ops"
  shows "\<exists>s'. dget (sm_sessions (run_ops lib ops m)) sid = Some s' \<and>
    se_object s' = se_object s \<and> prefix (se_steps s) (se_steps s')"
  using run_ops_holds [of sid s m lib ops] assms by (auto simp: holds_session_def)

theorem locked_session_survives_witness:
  "\<exists>s'. dget (sm_sessions (run_ops sample_lib [OpCount 5000, OpCount 9000] (\<lparr>sm_sessions =
        [(''s'', (new_session 0 ''s'' ''i'' 0)\<lparr>se_locked := True\<rparr>)], sm_finalized = [],
        sm_results = ([] :: (string, unit) dict), sm_timeout = 10, sm_allocated = 1\<rparr>))) ''s'' = Some s' \<and>
    se_object s' = se_object ((new_session 0 ''s'' ''i'' 0)\<lparr>se_locked := True\<rparr>) \<and>
    prefix (se_steps ((new_session 0 ''s'' ''i'' 0)\<lparr>se_locked := True\<rparr>)) (se_steps s')"
proof (rule locked_session_survives)
  have "turns_ok ((new_session 0 ''s'' ''i'' 0)\<lparr>se_locked := True\<rparr>) = turns_ok (new_session 0 ''s'' ''i'' 0)"
    by (rule turns_ok_cong) simp_all
  then show "manager_ok \<lparr>sm_sessions = [(''s'', (new_session 0 ''s'' ''i'' 0)\<lparr>se_locked := True\<rparr>)],
      sm_finalized = [], sm_results = ([] :: (string, unit) dict), sm_timeout = 10, sm_allocated = 1\<rparr>"
    by (auto simp: manager_ok_def dict_ok_def split: if_splits)
qed simp_all

section \<open>The prefix index as a candidate list\<close>

definition tree_ok :: "SessionPrefixTree \<Rightarrow> bool" where
  "tree_ok t \<longleftrightarrow> (\<forall>fp. set (dget_or (pt_by_fingerprint t) fp []) \<subseteq> set (pt_all_step_ids t))"

lemma tree_ok_empty [simp]: "tree_ok empty_prefix_tree" "pt_all_step_ids empty_prefix_tree = []"
  by (simp_all add: tree_ok_def empty_prefix_tree_def)

lemma tree_ok_insert: "tree_ok t \<Longrightarrow> tree_ok (prefix_tree_insert lib i ms t)"
  by (auto simp: tree_ok_def prefix_tree_insert_def Let_def split: if_splits)

lemma all_step_ids_insert [simp]:
  "pt_all_step_ids (prefix_tree_insert lib i ms t) = pt_all_step_ids t @ [i]"
  by (simp add: prefix_tree_insert_def Let_def)

lemma set_candidates:
  assumes "tree_ok t"
  shows "set (candidates lib t ms) = set (pt_all_step_ids t)" "distinct (candidates lib t ms)"
  using assms
  by (auto simp: candidates_def set_ordered_unique_onto distinct_ordered_unique_onto tree_ok_def)

text \<open>
  The prefix index never loses a step and never narrows the candidates: for any request, the
  candidate list holds every step ever inserted, each once.  The index only decides the order in
  which candidates are tried.
\<close>

theorem candidates_complete:
  "let t = fold (\<lambda>(i, ms). prefix_tree_insert lib i ms) inserts empty_prefix_tree in
    set (candidates lib t request) = fst ` set inserts \<and> distinct (candidates lib t request)"
proof -
  have "tree_ok (fold (\<lambda>(i, ms). prefix_tree_insert lib i ms) xs t) \<and>
      set (pt_all_step_ids (fold (\<lambda>(i, ms). prefix_tree_insert lib i ms) xs t)) =
        set (pt_all_step_ids t) \<union> fst ` set xs" if "tree_ok t" for xs t
    using that
  proof (induction xs arbitrary: t)
    case (Cons x xs)
    then show ?case
      using Cons.IH [OF tree_ok_insert [OF Cons.prems], of lib "fst x" "snd x"] by (auto simp: split_def)
  qed simp
  from this [of empty_prefix_tree inserts] show ?thesis
    using set_candidates by (fastforce simp: Let_def)
qed

section \<open>Well-formed sessions\<close>

lemma step_name_inject [simp]: "step_name m = step_name n \<longleftrightarrow> m = n"
  by (simp add: step_name_def show_nat_padded_inject)

lemma lineage_name_inject [simp]: "lineage_name m = lineage_name n \<longleftrightarrow> m = n"
  by (simp add: lineage_name_def show_nat_padded_inject)

definition lineage_steps :: "Session \<Rightarrow> string \<Rightarrow> StepRecord list" where
  "lineage_steps s lid = filter (\<lambda>st. st_lineage_id st = lid) (se_steps s)"

definition last_id :: "StepRecord list \<Rightarrow> string option" where
  "last_id sts = (if sts = [] then None else Some (st_step_id (last sts)))"

text \<open>
  Step ids are distinct and drawn from the counter, \<open>steps_by_id\<close> finds every step, every step's
  lineage exists, a lineage is stored under its own id with the index of its creation, and its
  latest step is the last one recorded in it.
\<close>

definition session_ok :: "Session \<Rightarrow> bool" where
  "session_ok s \<longleftrightarrow>
     distinct (map st_step_id (se_steps s)) \<and>
     (\<forall>st\<in>set (se_steps s). \<exists>n\<le>se_step_counter s. st_step_id st = step_name n) \<and>
     (\<forall>i k. dget (se_steps_by_id s) k = Some i \<longleftrightarrow> i < length (se_steps s) \<and> st_step_id (se_steps s ! i) = k) \<and>
     (\<forall>st\<in>set (se_steps s). dmem (st_lineage_id st) (se_lineages s)) \<and>
     (\<forall>lid l. dget (se_lineages s) lid = Some l \<longrightarrow> lin_id l = lid \<and>
        (\<exists>n<se_lineage_counter s. lid = lineage_name (Suc n) \<and> lin_index l = n) \<and>
        lin_latest_step_id l = last_id (lineage_steps s lid)) \<and>
     tree_ok (se_prefix_tree s) \<and>
     set (pt_all_step_ids (se_prefix_tree s)) \<subseteq> st_step_id ` set (se_steps s) \<and>
     dict_ok (se_lineages s)"

lemma session_okD:
  assumes "session_ok s"
  shows "distinct (map st_step_id (se_steps s))"
    and "st \<in> set (se_steps s) \<Longrightarrow> \<exists>n\<le>se_step_counter s. st_step_id st = step_name n"
    and "dget (se_steps_by_id s) k = Some i \<longleftrightarrow> i < length (se_steps s) \<and> st_step_id (se_steps s ! i) = k"
    and "st \<in> set (se_steps s) \<Longrightarrow> dmem (st_lineage_id st) (se_lineages s)"
    and "dget (se_lineages s) lid = Some l \<Longrightarrow> lin_id l = lid"
    and "dget (se_lineages s) lid = Some l \<Longrightarrow>
      \<exists>n<se_lineage_counter s. lid = lineage_name (Suc n) \<and> lin_index l = n"
    and "dget (se_lineages s) lid = Some l \<Longrightarrow> lin_latest_step_id l = last_id (lineage_steps s lid)"
    and "tree_ok (se_prefix_tree s)"
    and "set (pt_all_step_ids (se_prefix_tree s)) \<subseteq> st_step_id ` set (se_steps s)"
    and "dict_ok (se_lineages s)"
  using assms unfolding session_ok_def by blast+

lemma session_okI:
  assumes "distinct (map st_step_id (se_steps s))"
    and "\<And>st. st \<in> set (se_steps s) \<Longrightarrow> \<exists>n\<le>se_step_counter s. st_step_id st = step_name n"
    and "\<And>k i. dget (se_steps_by_id s) k = Some i \<longleftrightarrow> i < length (se_steps s) \<and> st_step_id (se_steps s ! i) = k"
    and "\<And>st. st \<in> set (se_steps s) \<Longrightarrow> dmem (st_lineage_id st) (se_lineages s)"
    and "\<And>lid l. dget (se_lineages s) lid = Some l \<Longrightarrow> lin_id l = lid"
    and "\<And>lid l. dget (se_lineages s) lid = Some l \<Longrightarrow>
      \<exists>n<se_lineage_counter s. lid = lineage_name (Suc n) \<and> lin_index l = n"
    and "\<And>lid l. dget (se_lineages s) lid = Some l \<Longrightarrow> lin_latest_step_id l = last_id (lineage_steps s lid)"
    and "tree_ok (se_prefix_tree s)"
    and "set (pt_all_step_ids (se_prefix_tree s)) \<subseteq> st_step_id ` set (se_steps s)"
    and "dict_ok (se_lineages s)"
  shows "session_ok s"
  unfolding session_ok_def using assms by blast

lemma session_ok_new [simp]: "session_ok (new_session n sid iid now)"
  by (simp add: session_ok_def new_session_def)

lemma step_of_iff:
  assumes "session_ok s"
  shows "step_of s k = Some st \<longleftrightarrow> st \<in> set (se_steps s) \<and> st_step_id st = k"
proof -
  have "dget (se_steps_by_id s) k = Some i \<longleftrightarrow> i < length (se_steps s) \<and> st_step_id (se_steps s ! i) = k" for i
    using assms by (simp add: session_ok_def)
  moreover have "distinct (map st_step_id (se_steps s))" using assms by (simp add: session_ok_def)
  ultimately show ?thesis
    by (auto simp: step_of_def in_set_conv_nth)
qed

lemma create_lineage_ok:
  assumes "session_ok s" "create_lineage b s = (l, s')"
  shows "session_ok s'" "dget (se_lineages s') (lin_id l) = Some l" "lineage_steps s' (lin_id l) = []"
    "lin_id l \<notin> st_lineage_id ` set (se_steps s')" "se_steps s' = se_steps s"
    "se_step_counter s' = se_step_counter s" "se_steps_by_id s' = se_steps_by_id s"
    "se_prefix_tree s' = se_prefix_tree s" "\<not> dmem (lin_id l) (se_lineages s)"
proof -
  let ?n = "se_lineage_counter s"
  have l: "lin_id l = lineage_name (Suc ?n)" "lin_index l = ?n" "lin_latest_step_id l = None"
    and s': "s' = s\<lparr>se_lineage_counter := Suc ?n, se_lineages := dset (lin_id l) l (se_lineages s)\<rparr>"
    using assms(2) by (auto simp: create_lineage_def Let_def)
  show nf: "\<not> dmem (lin_id l) (se_lineages s)"
    using session_okD(6) [OF assms(1), of "lin_id l"] l by (fastforce simp: dmem_def)
  then have ns: "lin_id l \<notin> st_lineage_id ` set (se_steps s)"
    using session_okD(4) [OF assms(1)] by auto
  then show "lineage_steps s' (lin_id l) = []" "lin_id l \<notin> st_lineage_id ` set (se_steps s')"
    by (force simp: lineage_steps_def s' filter_empty_conv)+
  have ls: "lineage_steps s' k = lineage_steps s k" for k by (simp add: lineage_steps_def s')
  have none: "last_id (lineage_steps s (lin_id l)) = None"
    using ns by (force simp: lineage_steps_def last_id_def filter_empty_conv)
  show "session_ok s'"
  proof (rule session_okI, goal_cases)
    case (6 lid l')
    then show ?case
      using session_okD(6) [OF assms(1), of lid l'] l
      by (auto simp: s' intro: exI [of _ ?n] less_SucI split: if_splits)
  next
    case (7 lid l')
    then show ?case
      using session_okD(7) [OF assms(1), of lid l'] l none ls by (auto simp: s' split: if_splits)
  qed (use session_okD [OF assms(1)] in \<open>auto simp: s' split: if_splits\<close>)
qed (use assms(2) in \<open>auto simp: create_lineage_def Let_def\<close>)

text \<open>
  Recording a step under a fresh id in an existing lineage: the step is appended, found under
  its id, and becomes the latest of its lineage.
\<close>

lemma record_in_session_ok:
  assumes "session_ok s" "dget (se_lineages s) lid = Some l"
    and "i = step_name n" "n \<le> se_step_counter s" "i \<notin> st_step_id ` set (se_steps s)"
    and "record_in_session lib (Some i) (Some lid) (Some idx) args now s = (step, s')"
  shows "session_ok s'" "step_of s' i = Some step" "lineage_steps s' lid = lineage_steps s lid @ [step]"
    "\<And>k. k \<noteq> lid \<Longrightarrow> lineage_steps s' k = lineage_steps s k"
    "dget (se_lineages s') lid = Some (l\<lparr>lin_latest_step_id := Some i\<rparr>)"
proof -
  have step: "st_step_id step = i" "st_lineage_id step = lid"
    and s': "se_steps s' = se_steps s @ [step]" "se_step_counter s' = se_step_counter s"
      "se_steps_by_id s' = dset i (length (se_steps s)) (se_steps_by_id s)"
      "se_lineages s' = dset lid (l\<lparr>lin_latest_step_id := Some i\<rparr>) (se_lineages s)"
      "se_lineage_counter s' = se_lineage_counter s"
      "se_prefix_tree s' = (if st_normalized_messages_snapshot step = [] then se_prefix_tree s
        else prefix_tree_insert lib i (st_normalized_messages_snapshot step) (se_prefix_tree s))"
    using assms(2,6) by (auto simp: record_in_session_def Let_def)
  show ls: "lineage_steps s' lid = lineage_steps s lid @ [step]"
    "\<And>k. k \<noteq> lid \<Longrightarrow> lineage_steps s' k = lineage_steps s k"
    by (auto simp: lineage_steps_def s' step)
  show "dget (se_lineages s') lid = Some (l\<lparr>lin_latest_step_id := Some i\<rparr>)" by (simp add: s')
  show ok: "session_ok s'"
  proof (rule session_okI, goal_cases)
    case 1
    then show ?case using session_okD(1) [OF assms(1)] assms(5) by (simp add: s' step)
  next
    case (3 k j)
    have "dget (se_steps_by_id s) i = None"
      using session_okD(3) [OF assms(1), of i] assms(5) by (metis imageI nth_mem not_None_eq)
    then show ?case
      using session_okD(3) [OF assms(1), of k j] assms(5)
      by (auto simp: s' step nth_append less_Suc_eq)
  next
    case (7 k l')
    then show ?case
      using session_okD(7) [OF assms(1), of k l'] ls(2) [of k]
      by (auto simp: s' ls(1) last_id_def step split: if_splits)
  next
    case (6 k l')
    then show ?case
      using session_okD(6) [OF assms(1), of k] assms(2) by (fastforce simp: s' split: if_splits)
  next
    case (2 st)
    then show ?case using session_okD(2) [OF assms(1), of st] assms(3,4) step by (auto simp: s')
  qed (use session_okD(4,5,8,9,10) [OF assms(1)] assms(2) step in
      \<open>auto simp: s' tree_ok_insert split: if_splits\<close>)
  show "step_of s' i = Some step"
    using step_of_iff [OF ok] step by (simp add: s')
qed

end
