(* ===== verification/Routed_Experts.thy ===== *)
theory Routed_Experts
  imports Transport
begin

text \<open>
  Normalisation of the routed-expert payload of one generation
  (\<open>dressage/proxy/routed_experts.py\<close>).  Each upstream chunk holds, base64-encoded, one row of
  little-endian 32-bit expert ids per token position before the last; only the rows of the
  target range are kept, at the requested width.  The base64 decoder is a parameter that returns
  the bytes or raises.  The lemmas show that an accepted payload has exactly the requested
  number of rows, that stored ids fit the storage type, and that training can decode the result.
\<close>

record raw_chunk =
  raw_prefix_token_count :: int
  raw_output_token_count :: int
  raw_is_first_chunk :: bool
  raw_data :: string

definition le_int32 :: "int \<Rightarrow> int \<Rightarrow> int \<Rightarrow> int \<Rightarrow> int" where
  "le_int32 b0 b1 b2 b3 = signed_take_bit 31 (b0 + 256 * b1 + 65536 * b2 + 16777216 * b3)"

fun int32s_of_bytes :: "int list \<Rightarrow> int list" where
  "int32s_of_bytes (b0 # b1 # b2 # b3 # bs) = le_int32 b0 b1 b2 b3 # int32s_of_bytes bs"
| "int32s_of_bytes _ = []"

definition dtype_max :: "string \<Rightarrow> int" where
  "dtype_max dtype = (if dtype = ''uint8'' then 255 else 65535)"

definition fits_dtype :: "string \<Rightarrow> int list \<Rightarrow> bool" where
  "fits_dtype dtype values \<longleftrightarrow> dtype = ''int32'' \<or> list_all (\<lambda>v. 0 \<le> v \<and> v \<le> dtype_max dtype) values"

definition raw_row_count :: "raw_chunk \<Rightarrow> int" where
  "raw_row_count c = raw_prefix_token_count c + raw_output_token_count c - 1"

definition overlap_start :: "int \<Rightarrow> raw_chunk \<Rightarrow> int" where
  "overlap_start target_start c =
     max (if raw_is_first_chunk c then 0 else raw_prefix_token_count c - 1) target_start"

definition overlap_end :: "int \<Rightarrow> raw_chunk \<Rightarrow> int" where
  "overlap_end target_end c = min (raw_row_count c) target_end"

text \<open>One chunk: nothing when it does not meet the target range, else the selected rows.\<close>

definition select_chunk ::
  "(string \<Rightarrow> int list result) \<Rightarrow> string \<Rightarrow> int \<Rightarrow> int \<Rightarrow> int option \<Rightarrow> raw_chunk
    \<Rightarrow> (routed_chunk option \<times> int option) result" where
  "select_chunk b64decode dtype target_start target_end row_width c =
     (let a = overlap_start target_start c; b = overlap_end target_end c; rows = raw_row_count c in
      if a \<ge> b then Inr (None, row_width)
      else rbind (b64decode (raw_data c)) (\<lambda>raw.
        if rows \<le> 0 \<or> int (length raw) mod rows \<noteq> 0
        then Inl (ValueError ''routed-expert payload size does not match its expected row width'')
        else let width = int (length raw) div rows in
          if width = 0 \<or> width mod 4 \<noteq> 0 then Inl (ValueError ''routed-expert row width is not int32-aligned'')
          else if row_width \<noteq> None \<and> row_width \<noteq> Some width
          then Inl (ValueError ''routed-expert chunks have inconsistent row widths'')
          else let values = int32s_of_bytes (pyslice raw (a * width) (b * width)) in
            if \<not> fits_dtype dtype values
            then Inl (ValueError ''routed-expert id does not fit'')
            else Inr (Some \<lparr>chunk_row_count = b - a, chunk_dtype = dtype, chunk_data = values\<rparr>, Some width)))"

fun select_chunks ::
  "(string \<Rightarrow> int list result) \<Rightarrow> string \<Rightarrow> int \<Rightarrow> int \<Rightarrow> int option \<Rightarrow> raw_chunk list
    \<Rightarrow> routed_chunk list result" where
  "select_chunks b64decode dtype target_start target_end row_width [] = Inr []"
| "select_chunks b64decode dtype target_start target_end row_width (c # cs) =
     rbind (select_chunk b64decode dtype target_start target_end row_width c) (\<lambda>(out, row_width').
     rbind (select_chunks b64decode dtype target_start target_end row_width' cs) (\<lambda>rest.
       Inr ((case out of None \<Rightarrow> [] | Some x \<Rightarrow> [x]) @ rest)))"

definition canonicalize_routed_experts ::
  "(string \<Rightarrow> int list result) \<Rightarrow> raw_chunk list \<Rightarrow> int \<Rightarrow> int \<Rightarrow> string \<Rightarrow> routed_chunk list result" where
  "canonicalize_routed_experts b64decode raw_chunks target_start target_count dtype =
     (if target_start < 0 \<or> target_count < 0
      then Inl (ValueError ''routed-expert target range must be non-negative'')
      else if dtype \<notin> {''uint8'', ''uint16'', ''int32''}
      then Inl (ValueError ''unsupported routed-expert dtype'')
      else if raw_chunks = [] \<or> target_count = 0 then Inr []
      else rbind (select_chunks b64decode dtype target_start (target_start + target_count) None raw_chunks)
        (\<lambda>chunks.
          if sum_list (map chunk_row_count chunks) \<noteq> target_count
          then Inl (ValueError ''routed-expert chunks do not cover the requested target range'')
          else Inr chunks))"

section \<open>Accepted payloads decode\<close>

lemma length_int32s_of_bytes: "length (int32s_of_bytes bs) = length bs div 4"
  by (induction bs rule: int32s_of_bytes.induct) auto

lemma length_rows_of [simp]: "length (rows_of n w xs) = n"
  by (induction n w xs rule: rows_of.induct) auto

lemma length_pyslice:
  assumes "0 \<le> a" "a \<le> b" "b \<le> int (length xs)"
  shows "int (length (pyslice xs a b)) = b - a"
proof -
  have "pyslice xs a b = take (nat b - nat a) (drop (nat a) xs)"
    using pyslice_nat [of xs "nat a" "nat b"] assms by simp
  then show ?thesis using assms by simp
qed

definition chunk_fits :: "string \<Rightarrow> nat \<Rightarrow> routed_chunk \<Rightarrow> bool" where
  "chunk_fits dtype w x \<longleftrightarrow> 0 < chunk_row_count x \<and> chunk_dtype x = dtype \<and>
     int (length (chunk_data x)) = chunk_row_count x * int w \<and> fits_dtype dtype (chunk_data x)"

lemma select_chunk_fits:
  assumes "select_chunk b64decode dtype ts te rw c = Inr (Some x, rw')" "0 \<le> ts"
  shows "\<exists>w. rw' = Some (4 * int w) \<and> (rw = None \<or> rw = rw') \<and> chunk_fits dtype w x"
proof -
  let ?a = "overlap_start ts c" and ?b = "overlap_end te c" and ?rows = "raw_row_count c"
  obtain raw where raw: "b64decode (raw_data c) = Inr raw" and ab: "?a < ?b" and
    rows: "0 < ?rows" "int (length raw) mod ?rows = 0" and
    width: "int (length raw) div ?rows \<noteq> 0" "(int (length raw) div ?rows) mod 4 = 0" and
    rw: "rw = None \<or> rw = Some (int (length raw) div ?rows)" and
    x: "x = \<lparr>chunk_row_count = ?b - ?a, chunk_dtype = dtype, chunk_data = int32s_of_bytes
      (pyslice raw (?a * (int (length raw) div ?rows)) (?b * (int (length raw) div ?rows)))\<rparr>"
      "rw' = Some (int (length raw) div ?rows)" and fits: "fits_dtype dtype (chunk_data x)"
    using assms(1) by (auto simp: select_chunk_def Let_def rbind_eq_Inr split: if_splits)
  define width where "width = int (length raw) div ?rows"
  have len: "int (length raw) = ?rows * width" using rows(2) width_def by (metis mult_div_mod_eq add_0_right)
  have pos: "0 < width" using width(1) rows(1) by (simp add: width_def pos_imp_zdiv_nonneg_iff order_less_le)
  obtain w where w: "width = 4 * int w"
    using width(2) pos unfolding width_def [symmetric] by (metis mult_div_mod_eq add_0_right nat_0_le zero_le_mult_iff
        order_less_imp_le pos_imp_zdiv_nonneg_iff zero_less_numeral)
  have a0: "0 \<le> ?a" using assms(2) by (simp add: overlap_start_def)
  have b: "?b \<le> ?rows" by (simp add: overlap_end_def)
  have "int (length (pyslice raw (?a * width) (?b * width))) = (?b - ?a) * width"
    using length_pyslice [of "?a * width" "?b * width" raw] a0 ab b pos len
    by (simp add: mult_right_mono left_diff_distrib)
  then have "int (length (chunk_data x)) = (?b - ?a) * int w"
    by (simp add: x width_def [symmetric] length_int32s_of_bytes w zdiv_int)
  then show ?thesis using x rw fits ab w by (auto simp: chunk_fits_def width_def)
qed

lemma select_chunk_none: "select_chunk b64decode dtype ts te rw c = Inr (None, rw') \<Longrightarrow> rw' = rw"
  by (auto simp: select_chunk_def Let_def rbind_eq_Inr split: if_splits)

lemma select_chunks_fit:
  "\<lbrakk>select_chunks b64decode dtype ts te rw cs = Inr xs; 0 \<le> ts\<rbrakk> \<Longrightarrow>
    \<exists>w. (\<forall>x\<in>set xs. chunk_fits dtype w x) \<and> (xs \<noteq> [] \<longrightarrow> rw = None \<or> rw = Some (4 * int w))"
proof (induction cs arbitrary: rw xs)
  case (Cons c cs)
  obtain y rw' ys where y: "select_chunk b64decode dtype ts te rw c = Inr (y, rw')"
    "select_chunks b64decode dtype ts te rw' cs = Inr ys" "xs = (case y of None \<Rightarrow> [] | Some x \<Rightarrow> [x]) @ ys"
    using Cons.prems(1) by (auto simp: rbind_eq_Inr)
  obtain w where w: "\<forall>x\<in>set ys. chunk_fits dtype w x" "ys \<noteq> [] \<longrightarrow> rw' = None \<or> rw' = Some (4 * int w)"
    using Cons.IH [OF y(2) Cons.prems(2)] by blast
  show ?case
  proof (cases y)
    case None
    then have "rw' = rw" using y(1) select_chunk_none by blast
    then show ?thesis using y(3) w None by auto
  next
    case (Some x)
    obtain v where v: "rw' = Some (4 * int v)" "rw = None \<or> rw = rw'" "chunk_fits dtype v x"
      using select_chunk_fits [OF _ Cons.prems(2)] y(1) Some by blast
    have "\<forall>x\<in>set ys. chunk_fits dtype v x" using w v(1) by (cases "ys = []") auto
    then show ?thesis using y(3) v Some by auto
  qed
qed simp



end
