(* ===== verification/Proxy_Pipeline.thy ===== *)
theory Proxy_Pipeline
  imports Session_Manager Routed_Experts
begin

text \<open>
  The chat-completion pipeline of the proxy (\<open>dressage/proxy/server.py\<close>): routing a request to a
  lineage, building its prompt tokens, checking limits and versions, and recording the
  generated step.  The chat template, the SGLang-backed parsers and the generation result are
  parameters.  The main result: in TITO mode the pieces recorded for the steps of a lineage
  concatenate to exactly the tokens the model saw and produced.
\<close>

section \<open>Configuration\<close>

text \<open>
  \<open>pc_template_text\<close> and \<open>pc_template_ids\<close> are \<open>tokenizer.apply_chat_template\<close> with
  \<open>tokenize=False\<close> and \<open>tokenize=True\<close>; \<open>pc_parse\<close> is the reasoning parser followed by the
  tool-call parser (reasoning, content, tool calls).
\<close>

record proxy_config =
  pc_lib :: py_lib
  pc_tito_mode :: bool
  pc_none_equals_empty_tools :: bool
  pc_record_token_versions :: bool
  pc_mask_nonlast_version_tokens :: bool
  pc_partial_rollout :: bool
  pc_max_partial_rollout_preempts :: "nat option"
  pc_context_window :: "nat option"
  pc_dynamic_max_tokens :: bool
  pc_max_output_tokens :: "int option"
  pc_rollout_temperature :: pyval
  pc_max_steps :: nat
  pc_tito_tokenizer :: "tito_tokenizer option"
  pc_template_text :: "message list \<Rightarrow> tool_list \<Rightarrow> bool \<Rightarrow> string result"
  pc_template_ids :: "message list \<Rightarrow> tool_list \<Rightarrow> bool \<Rightarrow> pyval result"
  pc_parse :: "string \<Rightarrow> tool_list \<Rightarrow> (string option \<times> string option \<times> pyval list) result"
  pc_b64decode :: "string \<Rightarrow> int list result"
  pc_experts_dtype :: string
  pc_transfer :: "transfer_runtime option"
  pc_fresh_incarnation :: "Session \<Rightarrow> string"

section \<open>Rendering and tokenising messages\<close>

definition render_messages :: "proxy_config \<Rightarrow> message list \<Rightarrow> tool_list \<Rightarrow> bool \<Rightarrow> string result" where
  "render_messages cfg messages tools gp =
     (case pc_template_text cfg messages tools gp of
        Inl (TypeError e) \<Rightarrow> pc_template_text cfg messages None gp
      | r \<Rightarrow> r)"

fun coerce_ints :: "pyval list \<Rightarrow> int list result" where
  "coerce_ints [] = Inr []"
| "coerce_ints (v # vs) =
     (case py_int v of
        Inr i \<Rightarrow> rbind (coerce_ints vs) (\<lambda>is. Inr (i # is))
      | Inl (TypeError e) \<Rightarrow> coerce_ints vs
      | Inl (ValueError e) \<Rightarrow> coerce_ints vs
      | Inl e \<Rightarrow> Inl e)"

definition coerce_flat_int_list :: "pyval \<Rightarrow> int list result" where
  "coerce_flat_int_list v =
     (case v of
        PList (PList xs # _) \<Rightarrow> coerce_ints xs
      | PList xs \<Rightarrow> coerce_ints xs
      | _ \<Rightarrow> Inr [])"

definition tokenize_messages :: "proxy_config \<Rightarrow> message list \<Rightarrow> tool_list \<Rightarrow> bool \<Rightarrow> int list result" where
  "tokenize_messages cfg messages tools gp =
     rbind (case pc_template_ids cfg messages tools gp of
              Inl (TypeError e) \<Rightarrow> pc_template_ids cfg messages None gp
            | r \<Rightarrow> r) coerce_flat_int_list"

section \<open>Token versions\<close>

definition INPUT_TOKEN_VERSION :: string where
  "INPUT_TOKEN_VERSION = ''-1''"

definition NON_REAL_TOKEN_VERSIONS :: "string list" where
  "NON_REAL_TOKEN_VERSIONS = ['''', ''-1'', ''unknown'', ''none'']"

definition real_token_version :: "string option \<Rightarrow> string option" where
  "real_token_version v =
     (case v of None \<Rightarrow> None
      | Some version \<Rightarrow> if lower (strip version) \<in> set NON_REAL_TOKEN_VERSIONS then None else Some version)"

definition real_versions :: "string option list \<Rightarrow> string list" where
  "real_versions vs = concat (map (\<lambda>v. case real_token_version v of None \<Rightarrow> [] | Some x \<Rightarrow> [x]) vs)"

definition session_real_versions :: "Session \<Rightarrow> string list" where
  "session_real_versions s =
     concat (map (\<lambda>st. real_versions (map Some (st_response_versions st) @
       [st_response_version st, st_request_version st])) (se_steps s))"

definition ordered_real_versions :: "string option list \<Rightarrow> string list" where
  "ordered_real_versions vs = ordered_unique_onto [] (real_versions vs)"

definition session_response_versions :: "Session \<Rightarrow> string option list" where
  "session_response_versions s = concat (map (\<lambda>st. map Some (st_response_versions st)) (se_steps s))"

definition raise_if_partial_version_span_exceeded ::
  "proxy_config \<Rightarrow> Session \<Rightarrow> string option list \<Rightarrow> unit result" where
  "raise_if_partial_version_span_exceeded cfg s candidate_versions =
     (case pc_max_partial_rollout_preempts cfg of
        None \<Rightarrow> Inr ()
      | Some limit \<Rightarrow>
          (let versions = ordered_real_versions (session_response_versions s @ candidate_versions) in
           if \<not> pc_partial_rollout cfg \<or> length versions - 1 \<le> limit then Inr ()
           else Inl (HTTPException 502 ''partial_rollout_staleness_exceeded'')))"

definition raise_if_cross_version_trajectory ::
  "proxy_config \<Rightarrow> Session \<Rightarrow> string option list \<Rightarrow> unit result" where
  "raise_if_cross_version_trajectory cfg s candidate_versions =
     (let previous = set (session_real_versions s); new = set (real_versions candidate_versions) in
      if pc_partial_rollout cfg \<or> previous = {} \<or> new = {} \<or> new \<subseteq> previous then Inr ()
      else Inl (HTTPException 502 ''trajectory_version_changed''))"

definition raise_if_stale_rollout_epoch :: "proxy_config \<Rightarrow> Session \<Rightarrow> nat \<Rightarrow> unit result" where
  "raise_if_stale_rollout_epoch cfg s current_epoch =
     (if pc_partial_rollout cfg \<or> se_steps s = [] \<or> se_rollout_epoch s = None \<or>
         se_rollout_epoch s = Some current_epoch
      then Inr () else Inl (HTTPException 502 ''trajectory_version_changed''))"

section \<open>Tools and boundary reasons\<close>

definition canonicalize_tools :: "proxy_config \<Rightarrow> tool_list \<Rightarrow> string option" where
  "canonicalize_tools cfg tools =
     (case tools of
        None \<Rightarrow> (if pc_none_equals_empty_tools cfg then Some (canonical_json (pc_lib cfg) (PList [])) else None)
      | Some ts \<Rightarrow> Some (canonical_json (pc_lib cfg) (PList ts)))"

definition tools_changed :: "proxy_config \<Rightarrow> tool_list \<Rightarrow> tool_list \<Rightarrow> bool" where
  "tools_changed cfg previous_tools current_tools =
     (canonicalize_tools cfg previous_tools \<noteq> canonicalize_tools cfg current_tools)"

definition tools_hash :: "proxy_config \<Rightarrow> tool_list \<Rightarrow> string" where
  "tools_hash cfg tools =
     sha256_hex (pc_lib cfg) (case canonicalize_tools cfg tools of None \<Rightarrow> ''null'' | Some t \<Rightarrow> t)"

definition boundary_reasons :: "bool \<Rightarrow> bool \<Rightarrow> bool \<Rightarrow> string list" where
  "boundary_reasons rewrite_detected tools_differ message_prefix_mismatch =
     (if rewrite_detected then [''history_rewrite''] else []) @
     (if message_prefix_mismatch then [''message_prefix_mismatch''] else []) @
     (if tools_differ then [''tools_changed''] else [])"

section \<open>Routing\<close>

text \<open>
  Rendering a candidate's snapshot fills the render cache of its step; the other components of
  the step do not change.
\<close>

definition candidate_snapshot_rendered ::
  "proxy_config \<Rightarrow> tool_list \<Rightarrow> string \<Rightarrow> nat \<Rightarrow> Session \<Rightarrow> string result \<times> Session" where
  "candidate_snapshot_rendered cfg tools hash i s =
     (let step = se_steps s ! i in
      if st_snapshot_tools_hash step = Some hash \<and> st_snapshot_rendered step \<noteq> []
      then (Inr (st_snapshot_rendered step), s)
      else case render_messages cfg (st_normalized_messages_snapshot step) tools False of
        Inl e \<Rightarrow> (Inl e, s)
      | Inr rendered \<Rightarrow>
          (Inr rendered, s\<lparr>se_steps := (se_steps s)[i := step\<lparr>st_snapshot_rendered := rendered,
             st_snapshot_rendered_len := length rendered, st_snapshot_tools_hash := Some hash\<rparr>]\<rparr>))"

fun collect_valid ::
  "proxy_config \<Rightarrow> tool_list \<Rightarrow> string \<Rightarrow> string \<Rightarrow> string list \<Rightarrow> Session \<Rightarrow> nat list result \<times> Session" where
  "collect_valid cfg tools hash current [] s = (Inr [], s)"
| "collect_valid cfg tools hash current (step_id # ids) s =
     (case dget (se_steps_by_id s) step_id of
        None \<Rightarrow> collect_valid cfg tools hash current ids s
      | Some i \<Rightarrow>
          (case candidate_snapshot_rendered cfg tools hash i s of
             (Inl e, s') \<Rightarrow> (Inl e, s')
           | (Inr rendered, s') \<Rightarrow>
               (let (r, s'') = collect_valid cfg tools hash current ids s' in
                (rbind r (\<lambda>is. Inr (if startswith current rendered then i # is else is)), s''))))"

definition step_order :: "Session \<Rightarrow> string \<Rightarrow> int" where
  "step_order s k =
     (case filter (\<lambda>(i, st). st_step_id st = k) (enumerate 0 (se_steps s)) of
        [] \<Rightarrow> - 1 | x # xs \<Rightarrow> int (fst (last (x # xs))))"

definition is_latest_of_lineage :: "Session \<Rightarrow> StepRecord \<Rightarrow> bool" where
  "is_latest_of_lineage s st =
     (case dget (se_lineages s) (st_lineage_id st) of
        None \<Rightarrow> False | Some l \<Rightarrow> lin_latest_step_id l = Some (st_step_id st))"

definition route_sort_key :: "Session \<Rightarrow> StepRecord \<Rightarrow> int \<times> int \<times> int \<times> int" where
  "route_sort_key s st =
     (- int (if st_snapshot_rendered_len st = 0 then length (st_snapshot_rendered st)
             else st_snapshot_rendered_len st),
      (if is_latest_of_lineage s st then 0 else 1),
      - step_order s (st_step_id st),
      int (case dget (se_lineages s) (st_lineage_id st) of Some l \<Rightarrow> lin_index l | None \<Rightarrow> st_lineage_index st))"

definition create_route :: "string option \<Rightarrow> route_type \<Rightarrow> Session \<Rightarrow> Route \<times> Session" where
  "create_route base kind s =
     (let (l, s') = create_lineage base s in
      (\<lparr>rt_lineage_id = lin_id l, rt_type = kind, rt_base_step_id = base\<rparr>, s'))"

definition append_route :: "StepRecord \<Rightarrow> Route" where
  "append_route st = \<lparr>rt_lineage_id = st_lineage_id st, rt_type = RouteAppend,
     rt_base_step_id = Some (st_step_id st)\<rparr>"

definition normalized_candidates :: "Session \<Rightarrow> message list \<Rightarrow> StepRecord list" where
  "normalized_candidates s request =
     sort_key (route_sort_key s)
       (filter (\<lambda>st. length (st_normalized_messages_snapshot st) \<le> length request \<and>
          messages_eq (take (length (st_normalized_messages_snapshot st)) request)
            (st_normalized_messages_snapshot st)) (se_steps s))"

definition select_route ::
  "proxy_config \<Rightarrow> message list \<Rightarrow> tool_list \<Rightarrow> string \<Rightarrow> Session \<Rightarrow> Route result \<times> Session" where
  "select_route cfg request tools hash s0 =
     (case render_messages cfg request tools True of
        Inl e \<Rightarrow> (Inl e, s0)
      | Inr current \<Rightarrow>
          (case collect_valid cfg tools hash current
                  (candidates (pc_lib cfg) (se_prefix_tree s0) request) s0 of
             (Inl e, s) \<Rightarrow> (Inl e, s)
           | (Inr is, s) \<Rightarrow>
               (case sort_key (route_sort_key s) (map ((!) (se_steps s)) is) of
                  [] \<Rightarrow>
                    (case filter (\<lambda>c. is_latest_of_lineage s c \<and> tools_changed cfg (st_tools c) tools)
                            (normalized_candidates s request) of
                       c # _ \<Rightarrow> (Inr (append_route c), s)
                     | [] \<Rightarrow> (let (r, s') = create_route None RouteCreate s in (Inr r, s')))
                | selected # _ \<Rightarrow>
                    (if is_latest_of_lineage s selected then (Inr (append_route selected), s)
                     else let (r, s') = create_route (Some (st_step_id selected)) RouteBranch s in (Inr r, s')))))"

section \<open>Prompt tokens\<close>

record prompt_payload =
  pp_input_ids :: "int list"
  pp_context_delta_ids :: "int list"
  pp_used_tito_for_prompt :: bool
  pp_tito_incremental_tokenization_failed :: bool

text \<open>The steps of a lineage from its last segment boundary on.\<close>

fun after_last_boundary :: "StepRecord list \<Rightarrow> StepRecord list \<Rightarrow> StepRecord list" where
  "after_last_boundary acc [] = acc"
| "after_last_boundary acc (st # sts) =
     (if st_lineage_segment_boundary_before st then after_last_boundary [st] sts
      else after_last_boundary (acc @ [st]) sts)"

definition lineage_tito_prefix_token_ids :: "Session \<Rightarrow> string \<Rightarrow> int list" where
  "lineage_tito_prefix_token_ids s lineage_id =
     concat (map st_concat_token_ids (after_last_boundary [] (lineage_steps s lineage_id)))"

definition full_prompt_payload ::
  "proxy_config \<Rightarrow> message list \<Rightarrow> tool_list \<Rightarrow> bool \<Rightarrow> prompt_payload result" where
  "full_prompt_payload cfg request tools failed =
     rbind (tokenize_messages cfg request tools True) (\<lambda>ids.
       Inr \<lparr>pp_input_ids = ids, pp_context_delta_ids = ids, pp_used_tito_for_prompt = False,
            pp_tito_incremental_tokenization_failed = failed\<rparr>)"

definition build_prompt_tokens ::
  "proxy_config \<Rightarrow> Session \<Rightarrow> Route \<Rightarrow> bool \<Rightarrow> message list \<Rightarrow> tool_list \<Rightarrow> prompt_payload result" where
  "build_prompt_tokens cfg s route lineage_boundary request tools =
     (case (if pc_tito_mode cfg \<and> \<not> lineage_boundary
            then (case rt_base_step_id route of None \<Rightarrow> None | Some b \<Rightarrow> step_of s b) else None) of
        None \<Rightarrow> full_prompt_payload cfg request tools False
      | Some base_step \<Rightarrow>
          (case pc_tito_tokenizer cfg of
             None \<Rightarrow> Inl (RuntimeError ''TITO tokenizer is not initialized for tito mode.'')
           | Some tk \<Rightarrow>
               (let prefix_tokens = (if rt_type route = RouteBranch then st_snapshot_token_ids base_step
                                     else lineage_tito_prefix_token_ids s (rt_lineage_id route))
                in case merge_tokens (pc_lib cfg) tk (st_normalized_messages_snapshot base_step)
                          request prefix_tokens tools of
                     Inl e \<Rightarrow> full_prompt_payload cfg request tools True
                   | Inr merged \<Rightarrow> Inr
                       \<lparr>pp_input_ids = merged,
                        pp_context_delta_ids = (if rt_type route = RouteBranch then merged
                                                else drop (length prefix_tokens) merged),
                        pp_used_tito_for_prompt = True,
                        pp_tito_incremental_tokenization_failed = False\<rparr>)))"

section \<open>Preparing a request\<close>

record prepared =
  pr_route :: Route
  pr_rewrite_reason :: "string option"
  pr_segment_boundary_before :: bool
  pr_segment_reasons_before :: "string list"
  pr_lineage_segment_boundary_before :: bool
  pr_lineage_segment_reasons_before :: "string list"
  pr_payload :: prompt_payload
  pr_normalized_request_messages :: "message list"
  pr_tools_hash :: string

definition routed_request ::
  "proxy_config \<Rightarrow> message list \<Rightarrow> message list \<Rightarrow> tool_list \<Rightarrow> Session \<Rightarrow> Route \<times> bool \<times> Session" where
  "routed_request cfg messages request tools s =
     (let append_only = (case latest_step s of None \<Rightarrow> True
            | Some p \<Rightarrow> is_append_only_continuation (pc_lib cfg) (st_messages_snapshot p) messages)
      in case select_route cfg request tools (tools_hash cfg tools) s of
           (Inr route, s') \<Rightarrow> (route, False, s')
         | (Inl e, s') \<Rightarrow>
             (case latest_step s of
                Some p \<Rightarrow>
                  (if append_only then (append_route p, True, s')
                   else let (r, s'') = create_route None RouteCreate s' in (r, True, s''))
              | None \<Rightarrow> (let (r, s'') = create_route None RouteCreate s' in (r, True, s''))))"

definition mark_rewritten :: "string \<Rightarrow> real \<Rightarrow> Session \<Rightarrow> Session" where
  "mark_rewritten reason now s =
     (if se_history_rewritten s then s
      else s\<lparr>se_history_rewritten := True, se_rewrite_reason := Some reason,
             se_rewrite_detected_at := Some now\<rparr>)"

definition REWRITE_REASON :: string where
  "REWRITE_REASON = ''Turn history rewritten between steps.''"

definition chat_prepare ::
  "proxy_config \<Rightarrow> message list \<Rightarrow> tool_list \<Rightarrow> string \<Rightarrow> real \<Rightarrow> Session \<Rightarrow> prepared result \<times> Session" where
  "chat_prepare cfg messages tools turn_id now s =
     (case normalize_template_messages (pc_lib cfg) messages of
        Inl e \<Rightarrow> (Inl e, s)
      | Inr request \<Rightarrow>
          (let previous = latest_step s;
               append_only = (case previous of None \<Rightarrow> True
                 | Some p \<Rightarrow> is_append_only_continuation (pc_lib cfg) (st_messages_snapshot p) messages);
               (route, render_failed, s1) = routed_request cfg messages request tools s;
               base = (case rt_base_step_id route of None \<Rightarrow> None | Some b \<Rightarrow> step_of s1 b);
               rewrite = (case previous of None \<Rightarrow> False | Some p \<Rightarrow> st_turn_id p = turn_id \<and> \<not> append_only);
               mismatch = (pc_tito_mode cfg \<and> previous \<noteq> None \<and> rt_type route = RouteCreate \<and> \<not> rewrite);
               changed = (case base of None \<Rightarrow> False | Some b \<Rightarrow> tools_changed cfg (st_tools b) tools);
               reasons0 = boundary_reasons rewrite changed mismatch;
               reasons1 = reasons0 @ (if render_failed \<and> previous \<noteq> None then [''tito_routing_render_failed''] else []);
               boundary1 = (previous \<noteq> None \<and> reasons1 \<noteq> []);
               s2 = (if rewrite then mark_rewritten REWRITE_REASON now s1 else s1);
               lineage_reasons0 = (if changed then [''tools_changed''] else []) @
                 (if render_failed then [''tito_routing_render_failed''] else [])
           in case build_prompt_tokens cfg s2 route (lineage_reasons0 \<noteq> []) request tools of
                Inl e \<Rightarrow> (Inl e, s2)
              | Inr payload \<Rightarrow>
                  (let failed = pp_tito_incremental_tokenization_failed payload \<and> base \<noteq> None;
                       extra = (if failed then [''tito_incremental_tokenization_failed''] else [])
                   in (Inr \<lparr>pr_route = route,
                        pr_rewrite_reason = (if rewrite then Some REWRITE_REASON else None),
                        pr_segment_boundary_before = (boundary1 \<or> failed),
                        pr_segment_reasons_before = reasons1 @ extra,
                        pr_lineage_segment_boundary_before = (lineage_reasons0 \<noteq> [] \<or> failed),
                        pr_lineage_segment_reasons_before = lineage_reasons0 @ extra,
                        pr_payload = payload, pr_normalized_request_messages = request,
                        pr_tools_hash = tools_hash cfg tools\<rparr>, s2))))"

section \<open>Limits\<close>

definition py_min :: "pyval \<Rightarrow> pyval \<Rightarrow> pyval result" where
  "py_min a b =
     (case (num_of a, num_of b) of
        (Some x, Some y) \<Rightarrow> Inr (if pyf_less y x then b else a)
      | _ \<Rightarrow> Inl (TypeError ''not supported between instances''))"

definition build_sampling_params ::
  "(string \<times> pyval) list \<Rightarrow> int option \<Rightarrow> pyval \<Rightarrow> (string \<times> pyval) list result" where
  "build_sampling_params body max_output_tokens rollout_temperature =
     (let temperature = (if pget body ''temperature'' = PNone then rollout_temperature else pget body ''temperature'');
          requested = pget body ''max_tokens'';
          params = [(''temperature'', temperature), (''top_p'', dget_or body ''top_p'' (PFloat (Fin 1))),
                    (''top_k'', dget_or body ''top_k'' (PInt (- 1))), (''skip_special_tokens'', PBool False),
                    (''no_stop_trim'', PBool True), (''spaces_between_special_tokens'', PBool False)]
      in rbind (case dget body ''seed'' of
                  None \<Rightarrow> Inr []
                | Some (PInt seed) \<Rightarrow>
                    (if - (2 ^ 63) \<le> seed \<and> seed \<le> 2 ^ 63 - 1 then Inr [(''sampling_seed'', PInt seed)]
                     else Inl (ValueError ''seed must be a signed 64-bit integer''))
                | Some _ \<Rightarrow> Inl (ValueError ''seed must be a signed 64-bit integer''))
           (\<lambda>seed.
              (case (requested, max_output_tokens) of
                 (PNone, None) \<Rightarrow> Inr (params @ seed)
               | (PNone, Some m) \<Rightarrow> Inr (params @ seed @ [(''max_new_tokens'', PInt m)])
               | (r, None) \<Rightarrow> Inr (params @ seed @ [(''max_new_tokens'', r)])
               | (r, Some m) \<Rightarrow> rbind (py_min r (PInt m)) (\<lambda>v.
                   Inr (params @ seed @ [(''max_new_tokens'', v)])))))"

datatype limit_outcome =
    Overflow string nat int
  | Proceed "(string \<times> pyval) list" int

text \<open>
  A \<open>ValueError\<close> of the sampling parameters becomes a client error.  With a context window, a
  prompt that fills it is refused; with dynamic limits the completion is cut to what is left.
\<close>

definition chat_limits ::
  "proxy_config \<Rightarrow> (string \<times> pyval) list \<Rightarrow> nat \<Rightarrow> limit_outcome result" where
  "chat_limits cfg body prompt_tokens =
     (case build_sampling_params body (pc_max_output_tokens cfg) (pc_rollout_temperature cfg) of
        Inl (ValueError e) \<Rightarrow> Inl (HTTPException 400 e)
      | Inl e \<Rightarrow> Inl e
      | Inr params \<Rightarrow>
          (let configured = pget params ''max_new_tokens'' in
           rbind (py_int (if truthy configured then configured else PInt 0)) (\<lambda>max_tokens.
             case pc_context_window cfg of
               None \<Rightarrow> Inr (Proceed params max_tokens)
             | Some window \<Rightarrow>
                 (if prompt_tokens \<ge> window then Inr (Overflow ''input'' prompt_tokens max_tokens)
                  else if \<not> pc_dynamic_max_tokens cfg then Inr (Proceed params max_tokens)
                  else let remaining = int window - int prompt_tokens - 1 in
                    if remaining < 1 then Inr (Overflow ''input_output'' prompt_tokens max_tokens)
                    else if configured = PNone
                    then Inr (Proceed (dset ''max_new_tokens'' (PInt remaining) params) remaining)
                    else rbind (py_int configured) (\<lambda>c.
                      Inr (Proceed (dset ''max_new_tokens'' (PInt (min c remaining)) params) (min c remaining)))))))"

section \<open>Messages of the reply\<close>

definition assistant_message :: "py_lib \<Rightarrow> string option \<Rightarrow> pyval list \<Rightarrow> string option \<Rightarrow> message" where
  "assistant_message lib content tool_calls reasoning =
     (let blank = (case content of None \<Rightarrow> True | Some c \<Rightarrow> strip c = []);
          normalized = (if tool_calls \<noteq> [] \<and> blank then None else content);
          content' = (case normalized of Some c \<Rightarrow> PStr c
                      | None \<Rightarrow> if tool_calls = [] then PStr [] else PNone)
      in [(''role'', PStr ''assistant''), (''content'', content')] @
         (case canonicalize_reasoning_content lib (case reasoning of None \<Rightarrow> PNone | Some r \<Rightarrow> PStr r) of
            None \<Rightarrow> [] | Some r \<Rightarrow> [(''reasoning_content'', PStr r)]) @
         (if tool_calls = [] then [] else [(''tool_calls'', PList tool_calls)]))"

function strip_marker :: "string \<Rightarrow> string \<Rightarrow> string" where
  "strip_marker marker s =
     (let t = rstrip_by is_space s in
      if marker \<noteq> [] \<and> endswith t marker
      then strip_marker marker (take (length t - length marker) t) else s)"
  by pat_completeness auto
termination
proof (relation "measure (\<lambda>(marker, s). length s)", simp, goal_cases)
  case (1 marker s)
  have "length (rstrip_by is_space s) \<le> length s"
    unfolding rstrip_by_def by (metis length_dropWhile_le length_rev)
  with 1 show ?case by (cases marker) (auto simp: endswith_def)
qed

declare strip_marker.simps [simp del]

definition strip_public_stop_markers :: "string option \<Rightarrow> string option" where
  "strip_public_stop_markers content =
     (case content of None \<Rightarrow> None
      | Some c \<Rightarrow> (let cleaned = strip_marker ''<|endoftext|>'' (strip_marker ''<|im_end|>'' c) in
                  if strip cleaned = [] then None else Some cleaned))"

section \<open>Recording a generated step\<close>

record generation_response =
  gr_text :: string
  gr_output_ids :: "int list"
  gr_output_token_logprobs :: "pyval list"
  gr_output_versions :: "string list"
  gr_weight_version :: "string option"
  gr_all_token_ids :: "int list"
  gr_all_logprobs :: "pyval list"
  gr_input_token_logprobs_raw :: "pyval list"
  gr_all_logprobs_invalid :: bool
  gr_input_token_texts :: "string list"
  gr_output_token_texts :: "string list"
  gr_finish_reason :: string
  gr_context_overflow :: bool
  gr_routed_experts_chunks :: "raw_chunk list"
  gr_rollout_epoch :: nat
  gr_e2e_latency :: "real option"
  gr_queue_time :: "real option"

record concat_payload =
  cp_token_ids :: "int list"
  cp_response_logprobs :: "pyfloat list"
  cp_response_mask :: "int list"
  cp_versions :: "string list"
  cp_context_token_count :: nat
  cp_output_token_count :: nat
  cp_logprobs_invalid :: bool
  cp_incremental_tokenization_failed :: bool

definition build_concat_step_payload ::
  "py_lib \<Rightarrow> int list \<Rightarrow> int list \<Rightarrow> pyval list \<Rightarrow> string list \<Rightarrow> bool \<Rightarrow> concat_payload" where
  "build_concat_step_payload lib context_ids response_ids logprobs versions failed =
     (let (output_logprobs, invalid) = normalize_logprobs_to_length (py_float lib) logprobs (length response_ids);
          versions' = (if length versions \<noteq> length response_ids
                       then replicate (length response_ids) (if versions = [] then ''unknown'' else last versions)
                       else versions)
      in \<lparr>cp_token_ids = context_ids @ response_ids,
          cp_response_logprobs = replicate (length context_ids) (Fin 0) @ output_logprobs,
          cp_response_mask = replicate (length context_ids) 0 @ replicate (length response_ids) 1,
          cp_versions = replicate (length context_ids) INPUT_TOKEN_VERSION @ versions',
          cp_context_token_count = length context_ids,
          cp_output_token_count = length response_ids,
          cp_logprobs_invalid = invalid,
          cp_incremental_tokenization_failed = failed\<rparr>)"

text \<open>The rows of routed-expert ids a step must store: the positions its tokens add.\<close>

definition routed_experts_target :: "proxy_config \<Rightarrow> Session \<Rightarrow> prepared \<Rightarrow> nat \<Rightarrow> nat \<Rightarrow> int \<times> int" where
  "routed_experts_target cfg s p concat_token_count all_token_count =
     (if pc_tito_mode cfg then
        (let previous = (if rt_type (pr_route p) \<in> {RouteCreate, RouteBranch} \<or> pr_lineage_segment_boundary_before p
                         then 0 else length (lineage_tito_prefix_token_ids s (rt_lineage_id (pr_route p))))
         in if previous = 0 then (0, int (concat_token_count - 1))
            else (int previous - 1, int concat_token_count))
      else (0, int (all_token_count - 1)))"

text \<open>
  From the generation result to the keyword arguments of \<open>record_step\<close>: version checks first, then
  the reply, then the token payloads.  \<open>moved\<close> is the routing lease's decision.  The session
  changes only in its rollout epoch.
\<close>

definition response_version_of :: "generation_response \<Rightarrow> string" where
  "response_version_of r =
     (if gr_output_versions r \<noteq> [] then last (gr_output_versions r)
      else case gr_weight_version r of Some v \<Rightarrow> (if v = [] then ''unknown'' else v) | None \<Rightarrow> ''unknown'')"

definition response_versions_of :: "generation_response \<Rightarrow> string list" where
  "response_versions_of r =
     (if length (gr_output_versions r) \<noteq> length (gr_output_ids r)
      then replicate (length (gr_output_ids r)) (response_version_of r) else gr_output_versions r)"

definition output_overflow :: "proxy_config \<Rightarrow> generation_response \<Rightarrow> bool" where
  "output_overflow cfg r \<longleftrightarrow> gr_context_overflow r \<and> pc_context_window cfg \<noteq> None"

definition check_versions :: "proxy_config \<Rightarrow> Session \<Rightarrow> generation_response \<Rightarrow> unit result" where
  "check_versions cfg s r =
     rbind (raise_if_cross_version_trajectory cfg s
              (map Some (response_versions_of r) @ [Some (response_version_of r), Some (response_version_of r)]))
       (\<lambda>_. if output_overflow cfg r then Inr ()
            else raise_if_partial_version_span_exceeded cfg s (map Some (response_versions_of r)))"

definition parse_reply ::
  "proxy_config \<Rightarrow> generation_response \<Rightarrow> tool_list \<Rightarrow> (string option \<times> string option \<times> pyval list) result" where
  "parse_reply cfg r tools =
     (if output_overflow cfg r then Inr (None, Some [], [])
      else rbind (pc_parse cfg (gr_text r) tools) (\<lambda>(reasoning, content, tool_calls).
        Inr (reasoning, strip_public_stop_markers content, tool_calls)))"

definition finish_reason_of :: "proxy_config \<Rightarrow> generation_response \<Rightarrow> pyval list \<Rightarrow> string" where
  "finish_reason_of cfg r tool_calls =
     (if \<not> output_overflow cfg r \<and> tool_calls \<noteq> [] then ''tool_calls''
      else if output_overflow cfg r \<or> gr_finish_reason r = ''length'' then ''length'' else ''stop'')"

definition chat_step_args ::
  "proxy_config \<Rightarrow> prepared \<Rightarrow> generation_response \<Rightarrow> message list \<Rightarrow> tool_list \<Rightarrow> string \<Rightarrow> bool
    \<Rightarrow> (string, pyval) dict \<Rightarrow> Session \<Rightarrow> StepRecord result" where
  "chat_step_args cfg p r messages tools turn_id moved hook_metadata s =
     rbind (parse_reply cfg r tools) (\<lambda>(reasoning, content, tool_calls).
       let overflow = output_overflow cfg r;
           input_ids = pp_input_ids (pr_payload p);
           full = messages @ [assistant_message (pc_lib cfg) content tool_calls reasoning];
           ids = (if overflow then [] else gr_output_ids r);
           logprobs = (if overflow then [] else gr_output_token_logprobs r);
           versions = (if overflow then [] else response_versions_of r);
           prompt_versions = replicate (length input_ids) INPUT_TOKEN_VERSION;
           all_ids = (if overflow then input_ids else gr_all_token_ids r);
           cp = build_concat_step_payload (pc_lib cfg) (pp_context_delta_ids (pr_payload p)) ids logprobs versions
                  (pp_tito_incremental_tokenization_failed (pr_payload p));
           tito = pc_tito_mode cfg
       in rbind (normalize_template_messages (pc_lib cfg) full) (\<lambda>normalized_full.
          let rendered = (case render_messages cfg normalized_full tools False of Inr t \<Rightarrow> t | Inl e \<Rightarrow> []) in
          rbind (if tito then Inr (input_ids @ ids) else tokenize_messages cfg normalized_full tools False)
            (\<lambda>snapshot_ids.
          let (start, count) = routed_experts_target cfg s p (length (cp_token_ids cp)) (length all_ids) in
          rbind (canonicalize_routed_experts (pc_b64decode cfg) (gr_routed_experts_chunks r) start count
                   (pc_experts_dtype cfg)) (\<lambda>chunks.
          Inr \<lparr>st_turn_id = turn_id, st_request_messages = messages,
               st_normalized_request_messages = pr_normalized_request_messages p,
               st_prompt_token_ids = input_ids,
               st_prompt_token_logprobs = Local (gr_input_token_logprobs_raw r),
               st_snapshot_token_ids = snapshot_ids,
               st_response_token_ids = ids, st_response_logprobs = Local logprobs,
               st_all_token_ids = all_ids,
               st_all_logprobs = Local (if overflow then gr_input_token_logprobs_raw r else gr_all_logprobs r),
               st_input_token_texts = gr_input_token_texts r,
               st_output_token_texts = (if overflow then [] else gr_output_token_texts r),
               st_messages_snapshot = full, st_raw_response_text = (if overflow then [] else gr_text r),
               st_step_id = [], st_lineage_id = rt_lineage_id (pr_route p), st_lineage_index = 0,
               st_route_type = rt_type (pr_route p), st_route_base_step_id = rt_base_step_id (pr_route p),
               st_normalized_messages_snapshot = normalized_full,
               st_snapshot_rendered = rendered, st_snapshot_rendered_len = length rendered,
               st_snapshot_tools_hash = Some (pr_tools_hash p),
               st_lineage_segment_boundary_before = pr_lineage_segment_boundary_before p,
               st_lineage_segment_reasons_before = pr_lineage_segment_reasons_before p,
               st_prompt_versions = prompt_versions, st_response_versions = versions,
               st_all_versions = (if overflow then prompt_versions else prompt_versions @ response_versions_of r),
               st_all_logprobs_invalid = gr_all_logprobs_invalid r,
               st_concat_token_ids = (if tito then cp_token_ids cp else []),
               st_concat_response_logprobs = Local (if tito then cp_response_logprobs cp else []),
               st_concat_response_mask = (if tito then cp_response_mask cp else []),
               st_concat_versions = (if tito then cp_versions cp else []),
               st_concat_context_token_count = (if tito then cp_context_token_count cp else 0),
               st_concat_output_token_count = (if tito then cp_output_token_count cp else 0),
               st_concat_logprobs_invalid = (tito \<and> cp_logprobs_invalid cp),
               st_concat_incremental_tokenization_failed = (tito \<and> cp_incremental_tokenization_failed cp),
               st_response_routed_experts_chunks = Local chunks, st_tools = tools,
               st_segment_boundary_before = pr_segment_boundary_before p,
               st_rewrite_reason = pr_rewrite_reason p,
               st_segment_reason_before = (case pr_segment_reasons_before p of [] \<Rightarrow> None | x # _ \<Rightarrow> Some x),
               st_segment_reasons_before = pr_segment_reasons_before p,
               st_finish_reason = finish_reason_of cfg r tool_calls,
               st_request_version = Some (response_version_of r),
               st_response_version = Some (response_version_of r),
               st_tool_call_hook_metadata = hook_metadata,
               st_request_e2e_latency_seconds = gr_e2e_latency r,
               st_request_queue_seconds = gr_queue_time r,
               st_rebalancing_moved = moved, st_timestamp = 0\<rparr>))))"

text \<open>
  With a TransferQueue runtime the selected columns of the step are written to the queue first
  and replaced by their references.
\<close>

datatype step_column = RawColumn "pyval list" | FloatColumn "pyfloat list" | ChunkColumn "routed_chunk list"

definition step_columns :: "bool \<Rightarrow> StepRecord \<Rightarrow> (string, step_column) dict" where
  "step_columns tito st =
     concat (map (\<lambda>(name, v). case v of Local x \<Rightarrow> [(name, x)] | Remote r \<Rightarrow> [])
       ([(''prompt_token_logprobs'', map_field_value RawColumn (st_prompt_token_logprobs st)),
         (''response_logprobs'', map_field_value RawColumn (st_response_logprobs st)),
         (''all_logprobs'', map_field_value RawColumn (st_all_logprobs st))] @
        (if tito then [(''concat_response_logprobs'', map_field_value FloatColumn (st_concat_response_logprobs st))]
         else []) @
        [(''response_routed_experts_chunks'', map_field_value ChunkColumn (st_response_routed_experts_chunks st))]))"

definition ref_or :: "(string, TQFieldRef) dict \<Rightarrow> string \<Rightarrow> 'a field_value \<Rightarrow> 'a field_value" where
  "ref_or refs name v = (case dget refs name of Some r \<Rightarrow> Remote r | None \<Rightarrow> v)"

definition apply_refs :: "(string, TQFieldRef) dict \<Rightarrow> StepRecord \<Rightarrow> StepRecord" where
  "apply_refs refs st = st\<lparr>
     st_prompt_token_logprobs := ref_or refs ''prompt_token_logprobs'' (st_prompt_token_logprobs st),
     st_response_logprobs := ref_or refs ''response_logprobs'' (st_response_logprobs st),
     st_all_logprobs := ref_or refs ''all_logprobs'' (st_all_logprobs st),
     st_concat_response_logprobs := ref_or refs ''concat_response_logprobs'' (st_concat_response_logprobs st),
     st_response_routed_experts_chunks :=
       ref_or refs ''response_routed_experts_chunks'' (st_response_routed_experts_chunks st)\<rparr>"

definition offload_args :: "proxy_config \<Rightarrow> StepRecord \<Rightarrow> real \<Rightarrow> Session \<Rightarrow> StepRecord result \<times> Session" where
  "offload_args cfg args now s =
     (case pc_transfer cfg of
        None \<Rightarrow> (Inr args, s)
      | Some rt \<Rightarrow>
          (let inc = (case se_incarnation_id s of Some i \<Rightarrow> i | None \<Rightarrow> pc_fresh_incarnation cfg s);
               s' = s\<lparr>se_incarnation_id := Some inc\<rparr>
           in (rbind (offload_step rt (se_session_id s) inc (length (se_steps s))
                        (step_columns (pc_tito_mode cfg) args) now)
                 (\<lambda>(put, refs). Inr (apply_refs refs args)), s')))"

text \<open>
  The step goes into the session under the next step id and the index of its lineage.  A route
  whose lineage is missing makes the lookup of the index raise, after the step id was drawn.
\<close>

definition chat_commit ::
  "proxy_config \<Rightarrow> prepared \<Rightarrow> StepRecord \<Rightarrow> real \<Rightarrow> Session \<Rightarrow> StepRecord result \<times> Session" where
  "chat_commit cfg p args now s =
     (let (step_id, s1) = next_step_id s in
      case dget (se_lineages s1) (rt_lineage_id (pr_route p)) of
        None \<Rightarrow> (Inl (KeyError (rt_lineage_id (pr_route p))), s1)
      | Some l \<Rightarrow>
          (case offload_args cfg args now s1 of
             (Inl e, s2) \<Rightarrow> (Inl e, s2)
           | (Inr args', s2) \<Rightarrow>
               (let (step, s3) = record_in_session (pc_lib cfg) (Some step_id) (Some (rt_lineage_id (pr_route p)))
                                   (Some (lin_index l)) args' now s2
                in (Inr step, s3))))"

definition chat_finish ::
  "proxy_config \<Rightarrow> prepared \<Rightarrow> generation_response \<Rightarrow> message list \<Rightarrow> tool_list \<Rightarrow> string \<Rightarrow> bool
    \<Rightarrow> (string, pyval) dict \<Rightarrow> real \<Rightarrow> Session \<Rightarrow> StepRecord result \<times> Session" where
  "chat_finish cfg p r messages tools turn_id moved hook_metadata now s =
     (case check_versions cfg s r of
        Inl e \<Rightarrow> (Inl e, s)
      | Inr _ \<Rightarrow>
          (let s1 = (if se_rollout_epoch s = None then s\<lparr>se_rollout_epoch := Some (gr_rollout_epoch r)\<rparr> else s) in
           case chat_step_args cfg p r messages tools turn_id moved hook_metadata s1 of
             Inl e \<Rightarrow> (Inl e, s1)
           | Inr args \<Rightarrow> chat_commit cfg p args now s1))"

section \<open>One request from end to end\<close>

text \<open>
  The request as the handler reads it.  \<open>generate\<close> is the generation controller behind the
  routing lease: from the input tokens and sampling parameters to a response and whether the
  request moved, or an exception.
\<close>

record chat_request =
  rq_messages :: "message list"
  rq_tools :: tool_list
  rq_body :: "(string \<times> pyval) list"
  rq_expected_version :: "string option"

datatype chat_reply =
    ContextOverflow string nat int bool
  | Completed StepRecord

definition chat_in_session ::
  "proxy_config \<Rightarrow> chat_request \<Rightarrow> (int list \<Rightarrow> (string \<times> pyval) list \<Rightarrow> (generation_response \<times> bool) result)
    \<Rightarrow> nat \<Rightarrow> string option \<Rightarrow> string \<Rightarrow> (string, pyval) dict \<Rightarrow> real \<Rightarrow> Session \<Rightarrow> chat_reply result \<times> Session" where
  "chat_in_session cfg rq generate current_epoch current_version turn_id hook_metadata now s =
     (case raise_if_stale_rollout_epoch cfg s current_epoch of
        Inl e \<Rightarrow> (Inl e, s)
      | Inr _ \<Rightarrow>
      (case chat_prepare cfg (rq_messages rq) (rq_tools rq) turn_id now s of
         (Inl e, s1) \<Rightarrow> (Inl e, s1)
       | (Inr p, s1) \<Rightarrow>
       (let input_ids = pp_input_ids (pr_payload p) in
        case chat_limits cfg (rq_body rq) (length input_ids) of
          Inl e \<Rightarrow> (Inl e, s1)
        | Inr (Overflow phase n max_tokens) \<Rightarrow> (Inr (ContextOverflow phase n max_tokens False), s1)
        | Inr (Proceed params max_tokens) \<Rightarrow>
            (if pc_max_steps cfg > 0 \<and> pc_max_steps cfg \<le> length (se_steps s1)
             then (Inl (HTTPException 400 ''reached proxy step limit''), s1)
             else case raise_if_cross_version_trajectory cfg s1 [rq_expected_version rq, current_version] of
               Inl e \<Rightarrow> (Inl e, s1)
             | Inr _ \<Rightarrow>
               (case generate input_ids params of
                  Inl e \<Rightarrow> (Inl e, s1)
                | Inr (r, moved) \<Rightarrow>
                    (case chat_finish cfg p r (rq_messages rq) (rq_tools rq) turn_id moved hook_metadata now s1 of
                       (Inl e, s2) \<Rightarrow> (Inl e, s2)
                     | (Inr step, s2) \<Rightarrow>
                         (Inr (if output_overflow cfg r
                               then ContextOverflow ''input_output'' (length input_ids) max_tokens True
                               else Completed step), s2)))))))"

section \<open>Render caches do not matter\<close>

definition erase_cache :: "StepRecord \<Rightarrow> StepRecord" where
  "erase_cache st = st\<lparr>st_snapshot_rendered := [], st_snapshot_rendered_len := 0, st_snapshot_tools_hash := None\<rparr>"

definition same_steps :: "StepRecord list \<Rightarrow> StepRecord list \<Rightarrow> bool" where
  "same_steps xs ys \<longleftrightarrow> map erase_cache xs = map erase_cache ys"

lemma erase_cache_simps [simp]:
  "st_step_id (erase_cache st) = st_step_id st"
  "st_lineage_id (erase_cache st) = st_lineage_id st"
  "st_turn_id (erase_cache st) = st_turn_id st"
  "st_lineage_segment_boundary_before (erase_cache st) = st_lineage_segment_boundary_before st"
  "st_concat_token_ids (erase_cache st) = st_concat_token_ids st"
  "st_concat_response_mask (erase_cache st) = st_concat_response_mask st"
  "st_concat_versions (erase_cache st) = st_concat_versions st"
  "st_concat_response_logprobs (erase_cache st) = st_concat_response_logprobs st"
  "st_concat_context_token_count (erase_cache st) = st_concat_context_token_count st"
  "st_concat_output_token_count (erase_cache st) = st_concat_output_token_count st"
  "st_prompt_token_ids (erase_cache st) = st_prompt_token_ids st"
  "st_response_token_ids (erase_cache st) = st_response_token_ids st"
  "st_snapshot_token_ids (erase_cache st) = st_snapshot_token_ids st"
  "st_all_token_ids (erase_cache st) = st_all_token_ids st"
  "st_route_type (erase_cache st) = st_route_type st"
  "st_normalized_messages_snapshot (erase_cache st) = st_normalized_messages_snapshot st"
  by (simp_all add: erase_cache_def)

lemma same_steps_map:
  assumes "same_steps xs ys" "\<And>st. f (erase_cache st) = f st"
  shows "map f xs = map f ys"
proof -
  have "map f zs = map f (map erase_cache zs)" for zs using assms(2) by simp
  then show ?thesis using assms(1) by (metis same_steps_def)
qed

lemma same_steps_length: "same_steps xs ys \<Longrightarrow> length xs = length ys"
  by (metis same_steps_def length_map)

lemma same_steps_filter:
  assumes "same_steps xs ys" "\<And>st. P (erase_cache st) = P st"
  shows "same_steps (filter P xs) (filter P ys)"
proof -
  have "map erase_cache (filter P zs) = filter P (map erase_cache zs)" for zs
    using assms(2) by (simp add: filter_map comp_def)
  then show ?thesis using assms(1) by (simp add: same_steps_def)
qed

lemma same_steps_refl [simp]: "same_steps xs xs"
  by (simp add: same_steps_def)

lemma same_steps_trans: "same_steps xs ys \<Longrightarrow> same_steps ys zs \<Longrightarrow> same_steps xs zs"
  by (simp add: same_steps_def)

lemma same_steps_last: "same_steps xs ys \<Longrightarrow> last_id xs = last_id ys"
proof -
  assume "same_steps xs ys"
  then have "map st_step_id xs = map st_step_id ys" by (rule same_steps_map) simp
  then show ?thesis by (auto simp: last_id_def) (metis last_map)
qed

text \<open>Two sessions that differ in render caches only.\<close>

definition same_session :: "Session \<Rightarrow> Session \<Rightarrow> bool" where
  "same_session s s' \<longleftrightarrow> same_steps (se_steps s) (se_steps s') \<and> s' = s\<lparr>se_steps := se_steps s'\<rparr>"

lemma same_session_refl [simp]: "same_session s s"
  by (simp add: same_session_def)

lemma same_session_trans: "same_session s t \<Longrightarrow> same_session t u \<Longrightarrow> same_session s u"
  unfolding same_session_def
proof (elim conjE, intro conjI)
  assume "t = s\<lparr>se_steps := se_steps t\<rparr>" "u = t\<lparr>se_steps := se_steps u\<rparr>"
  then show "u = s\<lparr>se_steps := se_steps u\<rparr>" by (metis Session.update_convs(5) Session.surjective)
qed (auto intro: same_steps_trans)

lemma same_session_frame:
  assumes "same_session s s'"
  shows "se_lineages s' = se_lineages s" "se_steps_by_id s' = se_steps_by_id s"
    "se_prefix_tree s' = se_prefix_tree s" "se_step_counter s' = se_step_counter s"
    "se_lineage_counter s' = se_lineage_counter s" "same_steps (lineage_steps s lid) (lineage_steps s' lid)"
proof -
  have e: "s' = s\<lparr>se_steps := se_steps s'\<rparr>" and ss: "same_steps (se_steps s) (se_steps s')"
    using assms by (simp_all add: same_session_def)
  show "se_lineages s' = se_lineages s" "se_steps_by_id s' = se_steps_by_id s"
    "se_prefix_tree s' = se_prefix_tree s" "se_step_counter s' = se_step_counter s"
    "se_lineage_counter s' = se_lineage_counter s"
    by (subst e, simp)+
  show "same_steps (lineage_steps s lid) (lineage_steps s' lid)"
    unfolding lineage_steps_def using ss by (rule same_steps_filter) simp
qed

lemma same_session_ok:
  assumes "same_session s s'" "session_ok s"
  shows "session_ok s'"
proof -
  note fr = same_session_frame [OF assms(1)]
  have ss: "same_steps (se_steps s) (se_steps s')" using assms(1) by (simp add: same_session_def)
  have ids: "map st_step_id (se_steps s') = map st_step_id (se_steps s)"
    using same_steps_map [OF ss, of st_step_id] by simp
  have lids: "map st_lineage_id (se_steps s') = map st_lineage_id (se_steps s)"
    using same_steps_map [OF ss, of st_lineage_id] by simp
  have len: "length (se_steps s') = length (se_steps s)" using same_steps_length [OF ss] by simp
  have nth: "st_step_id (se_steps s' ! i) = st_step_id (se_steps s ! i)" if "i < length (se_steps s)" for i
    using ids len that by (metis nth_map)
  have img: "st_step_id ` set (se_steps s') = st_step_id ` set (se_steps s)"
    "st_lineage_id ` set (se_steps s') = st_lineage_id ` set (se_steps s)"
    using ids lids by (metis list.set_map)+
  show ?thesis
  proof (rule session_okI, goal_cases)
    case (2 st)
    then have "st_step_id st \<in> st_step_id ` set (se_steps s)" using img(1) by blast
    then show ?case using session_okD(2) [OF assms(2)] fr(4) by auto
  next
    case (3 k i)
    show ?case using session_okD(3) [OF assms(2), of k i] fr(2) len nth by auto
  next
    case (4 st)
    then have "st_lineage_id st \<in> st_lineage_id ` set (se_steps s)" using img(2) by blast
    then show ?case using session_okD(4) [OF assms(2)] fr(1) by auto
  next
    case (7 lid l)
    then show ?case
      using session_okD(7) [OF assms(2), of lid l] fr(1) same_steps_last [OF fr(6), of lid] by simp
  qed (use session_okD [OF assms(2)] fr ids img in auto)
qed

lemma candidate_rendered_same:
  assumes "i < length (se_steps s)"
  shows "same_session s (snd (candidate_snapshot_rendered cfg tools hash i s))"
proof -
  have "map erase_cache ((se_steps s)[i := (se_steps s ! i)\<lparr>st_snapshot_rendered := x,
      st_snapshot_rendered_len := y, st_snapshot_tools_hash := z\<rparr>]) = map erase_cache (se_steps s)" for x y z
    using assms by (simp add: map_update erase_cache_def list_update_same_conv)
  then show ?thesis
    by (auto simp: candidate_snapshot_rendered_def Let_def same_session_def same_steps_def split: sum.splits)
qed

lemma collect_valid_spec:
  assumes "session_ok s" "collect_valid cfg tools hash current ids s = (r, s')"
  shows "same_session s s' \<and> (\<forall>is. r = Inr is \<longrightarrow> (\<forall>i\<in>set is. i < length (se_steps s')))"
  using assms
proof (induction ids arbitrary: s r s')
  case (Cons k ids)
  show ?case
  proof (cases "dget (se_steps_by_id s) k")
    case None
    then show ?thesis using Cons by auto
  next
    case (Some i)
    then have i: "i < length (se_steps s)" using session_okD(3) [OF Cons.prems(1), of k i] by simp
    obtain q s1 where q: "candidate_snapshot_rendered cfg tools hash i s = (q, s1)" by fastforce
    have s1: "same_session s s1" using candidate_rendered_same [OF i, of cfg tools hash] q by simp
    show ?thesis
    proof (cases q)
      case (Inl e)
      then show ?thesis using Cons.prems(2) Some q s1 by auto
    next
      case (Inr rendered)
      obtain r2 s2 where r2: "collect_valid cfg tools hash current ids s1 = (r2, s2)" by fastforce
      have IH: "same_session s1 s2 \<and> (\<forall>is. r2 = Inr is \<longrightarrow> (\<forall>i\<in>set is. i < length (se_steps s2)))"
        using Cons.IH [OF same_session_ok [OF s1 Cons.prems(1)] r2] .
      have "length (se_steps s2) = length (se_steps s)"
        using same_session_trans [OF s1] IH same_steps_length by (metis same_session_def)
      moreover have "s' = s2" "r = rbind r2 (\<lambda>is. Inr (if startswith current rendered then i # is else is))"
        using Cons.prems(2) Some q Inr r2 by auto
      ultimately show ?thesis
        using IH same_session_trans [OF s1] i by (auto simp: rbind_eq_Inr)
    qed
  qed
qed auto

section \<open>Routes\<close>

text \<open>
  An append continues the lineage of its base step after that lineage's latest step; a branch
  or a new conversation starts an empty lineage.
\<close>

definition route_ok :: "Session \<Rightarrow> Route \<Rightarrow> bool" where
  "route_ok s route \<longleftrightarrow> dmem (rt_lineage_id route) (se_lineages s) \<and>
     (case rt_type route of
        RouteAppend \<Rightarrow> \<exists>b st. rt_base_step_id route = Some b \<and> step_of s b = Some st \<and>
          lineage_steps s (rt_lineage_id route) \<noteq> [] \<and> last (lineage_steps s (rt_lineage_id route)) = st
      | RouteBranch \<Rightarrow> \<exists>b st. rt_base_step_id route = Some b \<and> step_of s b = Some st \<and>
          lineage_steps s (rt_lineage_id route) = []
      | RouteCreate \<Rightarrow> rt_base_step_id route = None \<and> lineage_steps s (rt_lineage_id route) = [])"

lemma latest_is_last:
  assumes "session_ok s" "is_latest_of_lineage s st" "st \<in> set (se_steps s)"
  shows "lineage_steps s (st_lineage_id st) \<noteq> [] \<and> last (lineage_steps s (st_lineage_id st)) = st"
proof -
  have inl: "st \<in> set (lineage_steps s (st_lineage_id st))" using assms(3) by (simp add: lineage_steps_def)
  then have ne: "lineage_steps s (st_lineage_id st) \<noteq> []" by auto
  obtain l where l: "dget (se_lineages s) (st_lineage_id st) = Some l"
    "lin_latest_step_id l = Some (st_step_id st)"
    using assms(2) by (auto simp: is_latest_of_lineage_def split: option.splits)
  let ?t = "last (lineage_steps s (st_lineage_id st))"
  have "st_step_id ?t = st_step_id st"
    using session_okD(7) [OF assms(1) l(1)] l(2) ne by (simp add: last_id_def)
  moreover have "?t \<in> set (se_steps s)" using last_in_set [OF ne] by (simp add: lineage_steps_def)
  ultimately have "?t = st"
    using session_okD(1) [OF assms(1)] assms(3) by (auto simp: distinct_map dest: inj_onD)
  with ne show ?thesis by simp
qed

lemma append_route_ok:
  assumes "session_ok s" "is_latest_of_lineage s st" "st \<in> set (se_steps s)"
  shows "route_ok s (append_route st)"
  using latest_is_last [OF assms] step_of_iff [OF assms(1), of "st_step_id st" st] assms(3)
    session_okD(4) [OF assms(1,3)]
  by (simp add: route_ok_def append_route_def)

lemma create_route_ok:
  assumes "session_ok s" "create_route base kind s = (route, s')"
    and "kind = RouteCreate \<and> base = None \<or> kind = RouteBranch \<and> (\<exists>b st. base = Some b \<and> step_of s b = Some st)"
  shows "session_ok s'" "route_ok s' route" "se_steps s' = se_steps s"
proof -
  obtain l where l: "create_lineage base s = (l, s')" and route: "route = \<lparr>rt_lineage_id = lin_id l,
      rt_type = kind, rt_base_step_id = base\<rparr>"
    using assms(2) by (auto simp: create_route_def split: prod.splits)
  note cl = create_lineage_ok [OF assms(1) l]
  show "session_ok s'" "se_steps s' = se_steps s" by (rule cl(1), rule cl(5))
  have "step_of s' b = step_of s b" for b using cl(5,7) by (simp add: step_of_def)
  then show "route_ok s' route"
    using assms(3) cl(2,3) by (auto simp: route_ok_def route dmem_def)
qed

lemma same_session_steps: "same_session s s' \<Longrightarrow> same_steps (se_steps s) (se_steps s')"
  by (simp add: same_session_def)

lemma select_route_ok:
  assumes "session_ok s" "select_route cfg request tools hash s = (r, s')"
  shows "session_ok s' \<and> same_steps (se_steps s) (se_steps s') \<and> (\<forall>route. r = Inr route \<longrightarrow> route_ok s' route)"
proof (cases "render_messages cfg request tools True")
  case (Inl e)
  then show ?thesis using assms by (auto simp: select_route_def)
next
  case (Inr current)
  obtain q s1 where q: "collect_valid cfg tools hash current
      (candidates (pc_lib cfg) (se_prefix_tree s) request) s = (q, s1)" by fastforce
  note cv = collect_valid_spec [OF assms(1) q]
  then have ok: "session_ok s1" and ss: "same_steps (se_steps s) (se_steps s1)"
    using same_session_ok [OF _ assms(1)] by (auto simp: same_session_def)
  show ?thesis
  proof (cases q)
    case (Inl e)
    then show ?thesis using assms(2) Inr q ok ss by (auto simp: select_route_def)
  next
    case q_Inr: (Inr "is")
    let ?sorted = "sort_key (route_sort_key s1) (map ((!) (se_steps s1)) is)"
    let ?fallback = "filter (\<lambda>c. is_latest_of_lineage s1 c \<and> tools_changed cfg (st_tools c) tools)
      (normalized_candidates s1 request)"
    have idx: "\<forall>i\<in>set is. i < length (se_steps s1)" using cv q_Inr by blast
    note unf = select_route_def Inr q q_Inr
    show ?thesis
    proof (cases ?sorted)
      case (Cons selected rest)
      then have "selected \<in> set ?sorted" by simp
      then have sel: "selected \<in> set (se_steps s1)" using idx by auto
      then have so: "step_of s1 (st_step_id selected) = Some selected"
        using step_of_iff [OF ok] by simp
      show ?thesis
      proof (cases "is_latest_of_lineage s1 selected")
        case True
        then show ?thesis
          using assms(2) Cons ok ss append_route_ok [OF ok True sel] by (auto simp: unf)
      next
        case False
        obtain route s2 where cr: "create_route (Some (st_step_id selected)) RouteBranch s1 = (route, s2)"
          by fastforce
        show ?thesis
          using assms(2) Cons False cr ss create_route_ok [OF ok cr] so by (auto simp: unf)
      qed
    next
      case Nil
      show ?thesis
      proof (cases ?fallback)
        case (Cons c rest)
        then have "c \<in> set ?fallback" by simp
        then have c: "is_latest_of_lineage s1 c" "c \<in> set (se_steps s1)"
          by (auto simp: normalized_candidates_def)
        show ?thesis
          using assms(2) Nil Cons ok ss append_route_ok [OF ok c] by (auto simp: unf)
      next
        case empty: Nil
        obtain route s2 where cr: "create_route None RouteCreate s1 = (route, s2)" by fastforce
        show ?thesis
          using assms(2) Nil empty cr ss create_route_ok [OF ok cr] by (auto simp: unf)
      qed
    qed
  qed
qed

lemma latest_step_is_latest:
  assumes "session_ok s" "latest_step s = Some p"
  shows "is_latest_of_lineage s p" "p \<in> set (se_steps s)"
proof -
  have ne: "se_steps s \<noteq> []" and p: "p = last (se_steps s)"
    using assms(2) by (auto simp: latest_step_def split: if_splits)
  show pin: "p \<in> set (se_steps s)" using ne p by simp
  obtain xs where xs: "se_steps s = xs @ [p]" using ne p by (metis append_butlast_last_id)
  have "last_id (lineage_steps s (st_lineage_id p)) = Some (st_step_id p)"
    by (simp add: lineage_steps_def last_id_def xs)
  moreover obtain l where "dget (se_lineages s) (st_lineage_id p) = Some l"
    using session_okD(4) [OF assms(1) pin] by (auto simp: dmem_def)
  ultimately show "is_latest_of_lineage s p"
    using session_okD(7) [OF assms(1)] by (simp add: is_latest_of_lineage_def)
qed

lemma routed_request_ok:
  assumes "session_ok s" "routed_request cfg messages request tools s = (route, failed, s')"
  shows "session_ok s'" "same_steps (se_steps s) (se_steps s')" "route_ok s' route"
proof -
  obtain r s1 where r: "select_route cfg request tools (tools_hash cfg tools) s = (r, s1)" by fastforce
  note sr = select_route_ok [OF assms(1) r]
  have fresh: "session_ok s2 \<and> same_steps (se_steps s) (se_steps s2) \<and> route_ok s2 rt"
    if "create_route None RouteCreate s1 = (rt, s2)" for rt s2
    using create_route_ok [OF _ that] sr by auto
  have "session_ok s' \<and> same_steps (se_steps s) (se_steps s') \<and> route_ok s' route"
  proof (cases r)
    case (Inr x)
    then show ?thesis using assms(2) r sr by (auto simp: routed_request_def Let_def)
  next
    case (Inl e)
    show ?thesis
    proof (cases "latest_step s")
      case None
      then show ?thesis using assms(2) r Inl fresh
        by (auto simp: routed_request_def Let_def split: prod.splits)
    next
      case (Some p)
      have ne: "se_steps s1 \<noteq> []" "se_steps s \<noteq> []" and pl: "p = last (se_steps s)"
        using Some sr by (auto simp: latest_step_def same_steps_def split: if_splits)
      have "erase_cache (last (se_steps s1)) = erase_cache p"
        using sr ne pl by (metis same_steps_def last_map)
      then have "st_step_id (last (se_steps s1)) = st_step_id p" "st_lineage_id (last (se_steps s1)) = st_lineage_id p"
        by (metis erase_cache_simps(1), metis erase_cache_simps(2))
      then have "append_route p = append_route (last (se_steps s1))" by (simp add: append_route_def)
      moreover have "route_ok s1 (append_route (last (se_steps s1)))"
        using latest_step_is_latest [of s1 "last (se_steps s1)"] sr ne
        by (auto simp: latest_step_def intro: append_route_ok)
      ultimately show ?thesis
        using assms(2) r Inl Some fresh sr
        by (auto simp: routed_request_def Let_def split: prod.splits if_splits)
    qed
  qed
  then show "session_ok s'" "same_steps (se_steps s) (se_steps s')" "route_ok s' route" by auto
qed

section \<open>Prompt tokens extend the lineage\<close>

lemma after_last_boundary_snoc:
  "after_last_boundary acc (sts @ [st]) =
    (if st_lineage_segment_boundary_before st then [st] else after_last_boundary acc sts @ [st])"
  by (induction sts arbitrary: acc) auto

text \<open>
  The tokens of a request, split into the part the lineage already holds (unless the step opens
  a new segment) and the part the step records as context.
\<close>

lemma build_prompt_tokens_split:
  assumes "pc_tito_mode cfg" "route_ok s route"
    and "build_prompt_tokens cfg s route boundary request tools = Inr payload"
  shows "(if boundary \<or> pp_tito_incremental_tokenization_failed payload then []
          else lineage_tito_prefix_token_ids s (rt_lineage_id route)) @ pp_context_delta_ids payload
    = pp_input_ids payload"
    and "pp_tito_incremental_tokenization_failed payload \<Longrightarrow>
      \<exists>b. rt_base_step_id route = Some b \<and> step_of s b \<noteq> None"
proof -
  have empty: "lineage_tito_prefix_token_ids s (rt_lineage_id route) = []" if "rt_type route \<noteq> RouteAppend"
    using assms(2) that by (auto simp: route_ok_def lineage_tito_prefix_token_ids_def split: route_type.splits)
  have base: "\<exists>b st. rt_base_step_id route = Some b \<and> step_of s b = Some st" if "rt_type route \<noteq> RouteCreate"
    using assms(2) that by (auto simp: route_ok_def split: route_type.splits)
  have no_base: "rt_base_step_id route = None" if "rt_type route = RouteCreate"
    using assms(2) that by (auto simp: route_ok_def)
  show "(if boundary \<or> pp_tito_incremental_tokenization_failed payload then []
          else lineage_tito_prefix_token_ids s (rt_lineage_id route)) @ pp_context_delta_ids payload
    = pp_input_ids payload"
    using assms(1,3) empty base no_base
    by (cases "rt_type route")
      (auto simp: build_prompt_tokens_def full_prompt_payload_def Let_def rbind_eq_Inr qwen.merge_split
        split: if_splits option.splits sum.splits)
  show "\<exists>b. rt_base_step_id route = Some b \<and> step_of s b \<noteq> None"
    if "pp_tito_incremental_tokenization_failed payload"
    using assms(1,3) that
    by (auto simp: build_prompt_tokens_def full_prompt_payload_def Let_def rbind_eq_Inr
        split: if_splits option.splits sum.splits)
qed

lemma mark_rewritten_frame [simp]:
  "se_steps (mark_rewritten r now s) = se_steps s" "se_lineages (mark_rewritten r now s) = se_lineages s"
  "se_steps_by_id (mark_rewritten r now s) = se_steps_by_id s"
  "se_prefix_tree (mark_rewritten r now s) = se_prefix_tree s"
  "se_step_counter (mark_rewritten r now s) = se_step_counter s"
  "se_lineage_counter (mark_rewritten r now s) = se_lineage_counter s"
  by (simp_all add: mark_rewritten_def)

lemma session_ok_cong:
  assumes "se_steps s' = se_steps s" "se_lineages s' = se_lineages s" "se_steps_by_id s' = se_steps_by_id s"
    "se_prefix_tree s' = se_prefix_tree s" "se_step_counter s' = se_step_counter s"
    "se_lineage_counter s' = se_lineage_counter s"
  shows "session_ok s' = session_ok s" "lineage_steps s' lid = lineage_steps s lid"
    "step_of s' k = step_of s k" "route_ok s' route = route_ok s route"
    "lineage_tito_prefix_token_ids s' lid = lineage_tito_prefix_token_ids s lid"
proof -
  have ls: "lineage_steps s' lid = lineage_steps s lid" for lid by (simp add: lineage_steps_def assms)
  then show "lineage_steps s' lid = lineage_steps s lid"
    "lineage_tito_prefix_token_ids s' lid = lineage_tito_prefix_token_ids s lid"
    by (simp_all add: lineage_tito_prefix_token_ids_def)
  show so: "step_of s' k = step_of s k" for k by (simp add: step_of_def assms)
  show "session_ok s' = session_ok s" by (simp add: session_ok_def assms ls)
  show "route_ok s' route = route_ok s route"
    by (cases "rt_type route") (simp_all add: route_ok_def assms ls so)
qed

lemma chat_prepare_ok:
  assumes "session_ok s" "chat_prepare cfg messages tools turn_id now s = (r, s')"
  shows "session_ok s'" "same_steps (se_steps s) (se_steps s')"
    and "r = Inr p \<Longrightarrow> route_ok s' (pr_route p)"
    and "\<lbrakk>r = Inr p; pc_tito_mode cfg\<rbrakk> \<Longrightarrow>
      (if pr_lineage_segment_boundary_before p then []
       else lineage_tito_prefix_token_ids s' (rt_lineage_id (pr_route p))) @
      pp_context_delta_ids (pr_payload p) = pp_input_ids (pr_payload p)"
proof -
  have "session_ok s' \<and> same_steps (se_steps s) (se_steps s') \<and>
    (r = Inr p \<longrightarrow> route_ok s' (pr_route p) \<and> (pc_tito_mode cfg \<longrightarrow>
      (if pr_lineage_segment_boundary_before p then []
       else lineage_tito_prefix_token_ids s' (rt_lineage_id (pr_route p))) @
      pp_context_delta_ids (pr_payload p) = pp_input_ids (pr_payload p)))"
  proof (cases "normalize_template_messages (pc_lib cfg) messages")
    case (Inl e)
    then show ?thesis using assms by (auto simp: chat_prepare_def)
  next
    case (Inr request)
    obtain route failed s1 where rr: "routed_request cfg messages request tools s = (route, failed, s1)"
      by (metis prod_cases3)
    note ok1 = routed_request_ok [OF assms(1) rr]
    define base where "base = (case rt_base_step_id route of None \<Rightarrow> None | Some b \<Rightarrow> step_of s1 b)"
    define changed where "changed = (case base of None \<Rightarrow> False | Some b \<Rightarrow> tools_changed cfg (st_tools b) tools)"
    define rewrite where "rewrite = (case latest_step s of None \<Rightarrow> False | Some q \<Rightarrow> st_turn_id q = turn_id \<and>
      \<not> (case latest_step s of None \<Rightarrow> True | Some q \<Rightarrow>
          is_append_only_continuation (pc_lib cfg) (st_messages_snapshot q) messages))"
    define s2 where "s2 = (if rewrite then mark_rewritten REWRITE_REASON now s1 else s1)"
    define boundary where "boundary = ((if changed then [''tools_changed''] else []) @
      (if failed then [''tito_routing_render_failed''] else []) \<noteq> [])"
    note unf = chat_prepare_def Let_def Inr rr prod.case sum.case base_def [symmetric] changed_def [symmetric]
      rewrite_def [symmetric] s2_def [symmetric] boundary_def [symmetric]
    have cong: "session_ok s2 = session_ok s1" "route_ok s2 route = route_ok s1 route"
      "step_of s2 k = step_of s1 k" "se_steps s2 = se_steps s1" for k
      using session_ok_cong [of "mark_rewritten REWRITE_REASON now s1" s1] by (auto simp: s2_def)
    show ?thesis
    proof (cases "build_prompt_tokens cfg s2 route boundary request tools")
      case (Inl e)
      have "r = Inl e" "s' = s2" using assms(2) unfolding unf Inl by simp_all
      then show ?thesis using cong ok1 by auto
    next
      case bp: (Inr payload)
      have ro: "route_ok s2 route" using cong ok1 by simp
      obtain p' where p': "r = Inr p'" "s' = s2" "pr_route p' = route" "pr_payload p' = payload"
        "pr_lineage_segment_boundary_before p' =
          (boundary \<or> (pp_tito_incremental_tokenization_failed payload \<and> base \<noteq> None))"
        using assms(2) unfolding unf bp by auto
      have "pr_lineage_segment_boundary_before p' = (boundary \<or> pp_tito_incremental_tokenization_failed payload)"
        if "pc_tito_mode cfg"
        using build_prompt_tokens_split(2) [OF that ro bp] p'(5) cong(3) by (auto simp: base_def)
      then show ?thesis
        using build_prompt_tokens_split(1) [OF _ ro bp] p' cong ok1 by auto
    qed
  qed
  then show "session_ok s'" "same_steps (se_steps s) (se_steps s')"
    "r = Inr p \<Longrightarrow> route_ok s' (pr_route p)"
    "\<lbrakk>r = Inr p; pc_tito_mode cfg\<rbrakk> \<Longrightarrow>
      (if pr_lineage_segment_boundary_before p then []
       else lineage_tito_prefix_token_ids s' (rt_lineage_id (pr_route p))) @
      pp_context_delta_ids (pr_payload p) = pp_input_ids (pr_payload p)"
    by auto
qed

section \<open>The token invariant of TITO sessions\<close>

text \<open>
  For a lineage: at every step, the pieces recorded since the last segment boundary concatenate
  to the prompt the model was given followed by its response.
\<close>

definition tito_lineage_ok :: "StepRecord list \<Rightarrow> bool" where
  "tito_lineage_ok sts \<longleftrightarrow>
     (\<forall>i<length sts. concat (map st_concat_token_ids (after_last_boundary [] (take (Suc i) sts))) =
        st_prompt_token_ids (sts ! i) @ st_response_token_ids (sts ! i))"

definition step_aligned :: "StepRecord \<Rightarrow> bool" where
  "step_aligned st \<longleftrightarrow>
     st_snapshot_token_ids st = st_prompt_token_ids st @ st_response_token_ids st \<and>
     st_all_token_ids st = st_prompt_token_ids st @ st_response_token_ids st \<and>
     st_concat_response_mask st = replicate (st_concat_context_token_count st) 0 @
       replicate (st_concat_output_token_count st) 1 \<and>
     length (st_concat_response_mask st) = length (st_concat_token_ids st) \<and>
     length (st_concat_versions st) = length (st_concat_token_ids st) \<and>
     (case st_concat_response_logprobs st of
        Local ls \<Rightarrow> length ls = length (st_concat_token_ids st) | Remote r \<Rightarrow> True)"

definition tito_session_ok :: "Session \<Rightarrow> bool" where
  "tito_session_ok s \<longleftrightarrow> session_ok s \<and> (\<forall>lid. tito_lineage_ok (lineage_steps s lid)) \<and>
     (\<forall>st\<in>set (se_steps s). step_aligned st)"

lemma tito_lineage_ok_snoc:
  "tito_lineage_ok (sts @ [st]) \<longleftrightarrow> tito_lineage_ok sts \<and>
    concat (map st_concat_token_ids (after_last_boundary [] (sts @ [st]))) =
      st_prompt_token_ids st @ st_response_token_ids st"
  by (auto simp: tito_lineage_ok_def less_Suc_eq nth_append)

lemma step_aligned_erase [simp]: "step_aligned (erase_cache st) = step_aligned st"
  by (simp add: step_aligned_def split: field_value.splits)

lemma after_last_boundary_map:
  "map erase_cache (after_last_boundary acc sts) = after_last_boundary (map erase_cache acc) (map erase_cache sts)"
  by (induction sts arbitrary: acc) auto

lemma tito_lineage_ok_erase: "tito_lineage_ok (map erase_cache sts) = tito_lineage_ok sts"
proof -
  have "concat (map st_concat_token_ids (map erase_cache xs)) = concat (map st_concat_token_ids xs)" for xs
    by (simp add: comp_def)
  then show ?thesis
    by (simp add: tito_lineage_ok_def take_map after_last_boundary_map [of "[]", simplified, symmetric]
        comp_def cong: conj_cong)
qed

lemma same_steps_tito:
  assumes "tito_session_ok s" "session_ok s'" "same_steps (se_steps s) (se_steps s')"
  shows "tito_session_ok s'"
proof -
  have "same_steps (lineage_steps s lid) (lineage_steps s' lid)" for lid
    unfolding lineage_steps_def using assms(3) by (rule same_steps_filter) simp
  then have "tito_lineage_ok (lineage_steps s' lid)" for lid
    using assms(1) unfolding tito_session_ok_def same_steps_def by (metis tito_lineage_ok_erase)
  moreover have "map step_aligned (se_steps s') = map step_aligned (se_steps s)"
    using same_steps_map [OF assms(3), of step_aligned] by simp
  then have "\<forall>st\<in>set (se_steps s'). step_aligned st"
    using assms(1) unfolding tito_session_ok_def by (metis (no_types) imageE imageI list.set_map)
  ultimately show ?thesis using assms(2) by (simp add: tito_session_ok_def)
qed

lemma concat_payload_simps:
  "cp_token_ids (build_concat_step_payload lib ctx ids lps vs f) = ctx @ ids"
  "cp_response_mask (build_concat_step_payload lib ctx ids lps vs f) = replicate (length ctx) 0 @ replicate (length ids) 1"
  "cp_context_token_count (build_concat_step_payload lib ctx ids lps vs f) = length ctx"
  "cp_output_token_count (build_concat_step_payload lib ctx ids lps vs f) = length ids"
  "length (cp_response_logprobs (build_concat_step_payload lib ctx ids lps vs f)) = length ctx + length ids"
  "length (cp_versions (build_concat_step_payload lib ctx ids lps vs f)) = length ctx + length ids"
  by (simp_all add: build_concat_step_payload_def normalize_logprobs_eq Let_def)

lemma chat_step_args_spec:
  assumes "chat_step_args cfg p r messages tools turn_id moved hook s = Inr args" "pc_tito_mode cfg"
    and "gr_all_token_ids r = pp_input_ids (pr_payload p) @ gr_output_ids r"
  shows "step_aligned args"
    "st_concat_token_ids args = pp_context_delta_ids (pr_payload p) @ st_response_token_ids args"
    "st_prompt_token_ids args = pp_input_ids (pr_payload p)"
    "st_lineage_segment_boundary_before args = pr_lineage_segment_boundary_before p"
  using assms
  by (cases "output_overflow cfg r";
      auto simp: chat_step_args_def rbind_eq_Inr Let_def split_def step_aligned_def concat_payload_simps)+

lemma session_ok_counter:
  assumes "session_ok s"
  shows "session_ok (s\<lparr>se_step_counter := Suc (se_step_counter s)\<rparr>)"
    and "step_name (Suc (se_step_counter s)) \<notin> st_step_id ` set (se_steps s)"
proof -
  let ?s = "s\<lparr>se_step_counter := Suc (se_step_counter s)\<rparr>"
  have ls: "lineage_steps ?s lid = lineage_steps s lid" for lid by (simp add: lineage_steps_def)
  show "session_ok ?s"
  proof (rule session_okI, goal_cases)
    case (2 st)
    then show ?case using session_okD(2) [OF assms, of st] le_SucI by auto
  qed (use session_okD [OF assms] ls in auto)
  show "step_name (Suc (se_step_counter s)) \<notin> st_step_id ` set (se_steps s)"
    using session_okD(2) [OF assms] by fastforce
qed

lemma offload_args_frame:
  assumes "offload_args cfg args now s = (x, s')"
  shows "se_steps s' = se_steps s" "se_lineages s' = se_lineages s" "se_steps_by_id s' = se_steps_by_id s"
    "se_prefix_tree s' = se_prefix_tree s" "se_step_counter s' = se_step_counter s"
    "se_lineage_counter s' = se_lineage_counter s"
  using assms by (auto simp: offload_args_def Let_def split: option.splits)

lemma apply_refs_simps [simp]:
  "st_concat_token_ids (apply_refs refs st) = st_concat_token_ids st"
  "st_prompt_token_ids (apply_refs refs st) = st_prompt_token_ids st"
  "st_response_token_ids (apply_refs refs st) = st_response_token_ids st"
  "st_snapshot_token_ids (apply_refs refs st) = st_snapshot_token_ids st"
  "st_all_token_ids (apply_refs refs st) = st_all_token_ids st"
  "st_concat_response_mask (apply_refs refs st) = st_concat_response_mask st"
  "st_concat_versions (apply_refs refs st) = st_concat_versions st"
  "st_concat_context_token_count (apply_refs refs st) = st_concat_context_token_count st"
  "st_concat_output_token_count (apply_refs refs st) = st_concat_output_token_count st"
  "st_lineage_segment_boundary_before (apply_refs refs st) = st_lineage_segment_boundary_before st"
  "st_concat_response_logprobs (apply_refs refs st) =
    ref_or refs ''concat_response_logprobs'' (st_concat_response_logprobs st)"
  by (simp_all add: apply_refs_def)

lemma apply_refs_aligned: "step_aligned st \<Longrightarrow> step_aligned (apply_refs refs st)"
  by (cases "dget refs ''concat_response_logprobs''")
    (auto simp: step_aligned_def ref_or_def split: field_value.splits)

lemma offload_args_step:
  assumes "offload_args cfg args now s = (Inr args', s')"
  shows "step_aligned args \<Longrightarrow> step_aligned args'"
    "st_concat_token_ids args' = st_concat_token_ids args" "st_prompt_token_ids args' = st_prompt_token_ids args"
    "st_response_token_ids args' = st_response_token_ids args"
    "st_lineage_segment_boundary_before args' = st_lineage_segment_boundary_before args"
proof -
  consider "args' = args" | refs where "args' = apply_refs refs args"
    using assms by (auto simp: offload_args_def rbind_eq_Inr Let_def split: option.splits)
  then show "step_aligned args \<Longrightarrow> step_aligned args'"
    "st_concat_token_ids args' = st_concat_token_ids args" "st_prompt_token_ids args' = st_prompt_token_ids args"
    "st_response_token_ids args' = st_response_token_ids args"
    "st_lineage_segment_boundary_before args' = st_lineage_segment_boundary_before args"
    by (cases; simp add: apply_refs_aligned)+
qed

lemma chat_commit_tito:
  assumes "tito_session_ok s" "route_ok s (pr_route p)" "chat_commit cfg p args now s = (q, s')"
    and "step_aligned args"
    and "st_concat_token_ids args = pp_context_delta_ids (pr_payload p) @ st_response_token_ids args"
    and "st_prompt_token_ids args = pp_input_ids (pr_payload p)"
    and "st_lineage_segment_boundary_before args = pr_lineage_segment_boundary_before p"
    and "(if pr_lineage_segment_boundary_before p then []
       else lineage_tito_prefix_token_ids s (rt_lineage_id (pr_route p))) @
      pp_context_delta_ids (pr_payload p) = pp_input_ids (pr_payload p)"
  shows "tito_session_ok s'"
proof -
  let ?lid = "rt_lineage_id (pr_route p)" and ?i = "step_name (Suc (se_step_counter s))"
  let ?s1 = "s\<lparr>se_step_counter := Suc (se_step_counter s)\<rparr>"
  have ok: "session_ok s" using assms(1) by (simp add: tito_session_ok_def)
  obtain l where l: "dget (se_lineages s) ?lid = Some l"
    using assms(2) by (auto simp: route_ok_def dmem_def)
  obtain x s1 where off: "offload_args cfg args now ?s1 = (x, s1)" by fastforce
  note oa = offload_args_frame [OF off]
  have ok1: "session_ok s1" "\<And>lid. lineage_steps s1 lid = lineage_steps s lid" "se_steps s1 = se_steps s"
    using session_ok_cong [of s1 ?s1] oa session_ok_counter(1) [OF ok] by (auto simp: lineage_steps_def)
  show ?thesis
  proof (cases x)
    case (Inl e)
    then have "s' = s1" using assms(3) l off by (auto simp: chat_commit_def next_step_id_def Let_def)
    then show ?thesis using ok1 assms(1) by (simp add: tito_session_ok_def)
  next
    case (Inr args')
    note args' = offload_args_step [OF off [unfolded Inr]]
    obtain step where rec: "record_in_session (pc_lib cfg) (Some ?i) (Some ?lid) (Some (lin_index l)) args' now s1 = (step, s')"
      using assms(3) l off Inr by (auto simp: chat_commit_def next_step_id_def Let_def split: prod.splits)
    have s1: "dget (se_lineages s1) ?lid = Some l" "Suc (se_step_counter s) \<le> se_step_counter s1"
      "?i \<notin> st_step_id ` set (se_steps s1)"
      using l session_ok_counter(2) [OF ok] oa by simp_all
    note rok = record_in_session_ok [OF ok1(1) s1(1) refl s1(2,3) rec, unfolded ok1(2)]
    have st: "step = args'\<lparr>st_step_id := ?i, st_lineage_id := ?lid, st_lineage_index := lin_index l,
        st_normalized_messages_snapshot := (if st_normalized_messages_snapshot args' = [] then st_messages_snapshot args'
          else st_normalized_messages_snapshot args'), st_timestamp := now\<rparr>"
      and steps: "se_steps s' = se_steps s @ [step]"
      using rec ok1(3) by (auto simp: record_in_session_def Let_def)
    have al: "step_aligned step"
      using args'(1) assms(4) by (auto simp: st step_aligned_def split: field_value.splits)
    have "tito_lineage_ok (lineage_steps s ?lid @ [step])"
      using assms(1,5-8) args'(2-)
      by (simp add: tito_lineage_ok_snoc tito_session_ok_def after_last_boundary_snoc st
          lineage_tito_prefix_token_ids_def split: if_splits)
    then have "tito_lineage_ok (lineage_steps s' lid)" for lid
      using rok(3,4) assms(1) by (cases "lid = ?lid") (auto simp: tito_session_ok_def)
    then show ?thesis
      using rok(1) al assms(1) by (auto simp: tito_session_ok_def steps)
  qed
qed

text \<open>What the generation controller promises: its full token list is the input and the output.\<close>

definition faithful_generation ::
  "(int list \<Rightarrow> (string \<times> pyval) list \<Rightarrow> (generation_response \<times> bool) result) \<Rightarrow> bool" where
  "faithful_generation generate \<longleftrightarrow>
     (\<forall>ids params r moved. generate ids params = Inr (r, moved) \<longrightarrow> gr_all_token_ids r = ids @ gr_output_ids r)"

lemma chat_finish_tito:
  assumes "tito_session_ok s" "route_ok s (pr_route p)" "pc_tito_mode cfg"
    and "chat_finish cfg p r messages tools turn_id moved hook now s = (q, s')"
    and "gr_all_token_ids r = pp_input_ids (pr_payload p) @ gr_output_ids r"
    and "(if pr_lineage_segment_boundary_before p then []
       else lineage_tito_prefix_token_ids s (rt_lineage_id (pr_route p))) @
      pp_context_delta_ids (pr_payload p) = pp_input_ids (pr_payload p)"
  shows "tito_session_ok s'"
proof (cases "check_versions cfg s r")
  case (Inl e)
  then show ?thesis using assms by (simp add: chat_finish_def)
next
  case (Inr u)
  define s1 where "s1 = (if se_rollout_epoch s = None then s\<lparr>se_rollout_epoch := Some (gr_rollout_epoch r)\<rparr> else s)"
  have cong: "session_ok s1 = session_ok s" "lineage_steps s1 lid = lineage_steps s lid"
    "route_ok s1 route = route_ok s route" "se_steps s1 = se_steps s"
    "lineage_tito_prefix_token_ids s1 lid = lineage_tito_prefix_token_ids s lid" for lid route
    using session_ok_cong [of s1 s] by (auto simp: s1_def)
  have ok: "tito_session_ok s1" using assms(1) cong by (simp add: tito_session_ok_def)
  show ?thesis
  proof (cases "chat_step_args cfg p r messages tools turn_id moved hook s1")
    case (Inl e)
    then show ?thesis using assms(4) Inr ok by (simp add: chat_finish_def Let_def s1_def [symmetric])
  next
    case args: (Inr args)
    have commit: "chat_commit cfg p args now s1 = (q, s')"
      using assms(4) Inr args by (simp add: chat_finish_def Let_def s1_def [symmetric])
    note spec = chat_step_args_spec [OF args assms(3,5)]
    show ?thesis
      by (rule chat_commit_tito [OF ok _ commit spec]) (use assms(2,6) cong in \<open>auto split: if_splits\<close>)
  qed
qed

lemma chat_in_session_cases:
  assumes "chat_prepare cfg (rq_messages rq) (rq_tools rq) turn_id now s = (q, s1)" "P s" "P s1"
    and "\<And>p params r moved x s2. q = Inr p \<Longrightarrow> generate (pp_input_ids (pr_payload p)) params = Inr (r, moved) \<Longrightarrow>
      chat_finish cfg p r (rq_messages rq) (rq_tools rq) turn_id moved hook now s1 = (x, s2) \<Longrightarrow> P s2"
  shows "P (snd (chat_in_session cfg rq generate epoch version turn_id hook now s))"
  using assms by (auto simp: chat_in_session_def Let_def split: sum.splits limit_outcome.splits prod.splits)

lemma chat_in_session_tito:
  assumes "tito_session_ok s" "pc_tito_mode cfg" "faithful_generation generate"
  shows "tito_session_ok (snd (chat_in_session cfg rq generate epoch version turn_id hook now s))"
proof -
  obtain q s1 where prep: "chat_prepare cfg (rq_messages rq) (rq_tools rq) turn_id now s = (q, s1)" by fastforce
  have sok: "session_ok s" using assms(1) by (simp add: tito_session_ok_def)
  note p1 = chat_prepare_ok [OF sok prep]
  have ok1: "tito_session_ok s1" using same_steps_tito [OF assms(1) p1(1,2)] .
  show ?thesis
  proof (rule chat_in_session_cases [OF prep assms(1) ok1])
    fix p params r moved x s2
    assume a: "q = Inr p" "generate (pp_input_ids (pr_payload p)) params = Inr (r, moved)"
      "chat_finish cfg p r (rq_messages rq) (rq_tools rq) turn_id moved hook now s1 = (x, s2)"
    show "tito_session_ok s2"
      using chat_finish_tito [OF ok1 p1(3) [OF a(1)] assms(2) a(3)] p1(4) [OF a(1) assms(2)]
        assms(3) a(2) unfolding faithful_generation_def by blast
  qed
qed

type_synonym chat_call =
  "chat_request \<times> (int list \<Rightarrow> (string \<times> pyval) list \<Rightarrow> (generation_response \<times> bool) result) \<times>
   nat \<times> string option \<times> string \<times> (string, pyval) dict \<times> real"

text \<open>The requests of one session in the order in which they hold its request lock.\<close>

fun run_chats :: "proxy_config \<Rightarrow> chat_call list \<Rightarrow> Session \<Rightarrow> Session" where
  "run_chats cfg [] s = s"
| "run_chats cfg ((rq, generate, epoch, version, turn_id, hook, now) # calls) s =
     run_chats cfg calls (snd (chat_in_session cfg rq generate epoch version turn_id hook now s))"

lemma run_chats_tito:
  "\<lbrakk>tito_session_ok s; pc_tito_mode cfg; \<forall>c\<in>set calls. faithful_generation (fst (snd c))\<rbrakk>
    \<Longrightarrow> tito_session_ok (run_chats cfg calls s)"
  by (induction cfg calls s rule: run_chats.induct) (auto intro: chat_in_session_tito)

lemma tito_session_ok_new: "tito_session_ok (new_session n sid iid now)"
  by (simp add: tito_session_ok_def lineage_steps_def tito_lineage_ok_def)

text \<open>
  C1: token-in token-out.  Take any sequence of chat requests to one session in TITO mode: any
  messages, rewrites, branches, tool changes, template failures, tokenizer fallbacks, rejected
  and overflowing requests.  Then at every recorded step of every lineage, the context and
  response pieces recorded since the last segment boundary of that lineage concatenate to
  exactly the tokens the model was given and produced, with mask, versions and logprobs of the
  same length.
\<close>

theorem tito_tokens_faithful:
  assumes "pc_tito_mode cfg" "\<forall>c\<in>set calls. faithful_generation (fst (snd c))"
    and "s = run_chats cfg calls (new_session n sid iid now)"
    and "k < length (lineage_steps s lid)"
  shows "concat (map st_concat_token_ids (after_last_boundary [] (take (Suc k) (lineage_steps s lid)))) =
      st_all_token_ids (lineage_steps s lid ! k) \<and>
    st_all_token_ids (lineage_steps s lid ! k) =
      st_prompt_token_ids (lineage_steps s lid ! k) @ st_response_token_ids (lineage_steps s lid ! k) \<and>
    step_aligned (lineage_steps s lid ! k)"
proof -
  have ok: "tito_session_ok s"
    using run_chats_tito [OF tito_session_ok_new assms(1,2)] assms(3) by simp
  moreover have "lineage_steps s lid ! k \<in> set (se_steps s)"
    using nth_mem [OF assms(4)] by (simp add: lineage_steps_def)
  ultimately show ?thesis
    using assms(4) by (auto simp: tito_session_ok_def tito_lineage_ok_def step_aligned_def)
qed

text \<open>
  A small configuration for concrete runs: messages render to their role, tokens are character
  codes, the parsers return the text as content, and the model answers \<open>ok;\<close>.
\<close>

definition sample_config :: proxy_config where
  "sample_config = \<lparr>pc_lib = sample_lib, pc_tito_mode = True, pc_none_equals_empty_tools = True,
     pc_record_token_versions = True, pc_mask_nonlast_version_tokens = False, pc_partial_rollout = True,
     pc_max_partial_rollout_preempts = None, pc_context_window = Some 1000, pc_dynamic_max_tokens = True,
     pc_max_output_tokens = None, pc_rollout_temperature = PInt 1, pc_max_steps = 0,
     pc_tito_tokenizer = Some sample_tokenizer,
     pc_template_text = (\<lambda>ms tools gp. Inr (concat (map sample_message_text ms) @ (if gp then ''G'' else []))),
     pc_template_ids = (\<lambda>ms tools gp. Inr (PList (map (\<lambda>c. PInt (of_char c))
       (concat (map sample_message_text ms) @ (if gp then ''G'' else []))))),
     pc_parse = (\<lambda>t tools. Inr (None, Some t, [])), pc_b64decode = (\<lambda>t. Inr []), pc_experts_dtype = ''int32'',
     pc_transfer = None, pc_fresh_incarnation = (\<lambda>s. ''inc'')\<rparr>"

definition sample_generate :: "int list \<Rightarrow> (string \<times> pyval) list \<Rightarrow> (generation_response \<times> bool) result" where
  "sample_generate ids params = Inr (\<lparr>gr_text = ''ok'', gr_output_ids = [111, 107, 59],
     gr_output_token_logprobs = [PFloat (Fin 0), PFloat (Fin 0), PFloat (Fin 0)],
     gr_output_versions = [''1'', ''1'', ''1''], gr_weight_version = Some ''1'',
     gr_all_token_ids = ids @ [111, 107, 59], gr_all_logprobs = [], gr_input_token_logprobs_raw = [],
     gr_all_logprobs_invalid = False, gr_input_token_texts = [], gr_output_token_texts = [],
     gr_finish_reason = ''stop'', gr_context_overflow = False, gr_routed_experts_chunks = [],
     gr_rollout_epoch = 0, gr_e2e_latency = None, gr_queue_time = None\<rparr>, False)"

definition sample_call :: "message list \<Rightarrow> chat_call" where
  "sample_call ms = (\<lparr>rq_messages = ms, rq_tools = None, rq_body = [], rq_expected_version = None\<rparr>,
     sample_generate, 0, None, ''t'', [], 0)"

definition sample_calls :: "chat_call list" where
  "sample_calls = [sample_call [[(''role'', PStr ''user'')]],
     sample_call [[(''role'', PStr ''user'')], [(''role'', PStr ''assistant''), (''content'', PStr ''ok'')],
       [(''role'', PStr ''user'')]]]"

lemma sample_generate_faithful: "faithful_generation sample_generate"
  by (simp add: faithful_generation_def sample_generate_def)

lemma sample_run_length:
  "length (lineage_steps (run_chats sample_config sample_calls (new_session 0 ''s'' ''i'' 0)) ''lineage-000001'') = 2"
  by code_simp

theorem tito_tokens_faithful_witness:
  "let s = run_chats sample_config sample_calls (new_session 0 ''s'' ''i'' 0);
       sts = lineage_steps s ''lineage-000001'' in
    concat (map st_concat_token_ids (after_last_boundary [] (take (Suc 1) sts))) = st_all_token_ids (sts ! 1) \<and>
    st_all_token_ids (sts ! 1) = st_prompt_token_ids (sts ! 1) @ st_response_token_ids (sts ! 1) \<and>
    step_aligned (sts ! 1)"
  unfolding Let_def
proof (rule tito_tokens_faithful)
  show "\<forall>c\<in>set sample_calls. faithful_generation (fst (snd c))"
    by (simp add: sample_calls_def sample_call_def sample_generate_faithful)
qed (simp_all add: sample_run_length, simp add: sample_config_def)

section \<open>What a request adds\<close>

definition step_local :: "StepRecord \<Rightarrow> bool" where
  "step_local st \<longleftrightarrow> \<not> is_remote (st_concat_response_logprobs st) \<and> \<not> is_remote (st_response_routed_experts_chunks st)
     \<and> \<not> is_remote (st_response_logprobs st)"

lemma step_local_erase [simp]: "step_local (erase_cache st) = step_local st"
  by (simp add: step_local_def erase_cache_def)

text \<open>
  One request changes render caches and appends at most one step; without a TransferQueue that
  step holds its columns itself.
\<close>

lemma chat_in_session_steps:
  assumes "session_ok s" "pc_transfer cfg = None"
    and "chat_in_session cfg rq generate epoch version turn_id hook now s = (reply, s')"
  shows "\<exists>xs. same_steps (se_steps s) xs \<and> (se_steps s' = xs \<or> (\<exists>step. se_steps s' = xs @ [step] \<and> step_local step))"
proof -
  obtain q s1 where prep: "chat_prepare cfg (rq_messages rq) (rq_tools rq) turn_id now s = (q, s1)" by fastforce
  have ss: "same_steps (se_steps s) (se_steps s1)" using chat_prepare_ok(2) [OF assms(1) prep] .
  have commit: "se_steps s2 = se_steps s1 \<or> (\<exists>step. se_steps s2 = se_steps s1 @ [step] \<and> step_local step)"
    if "chat_commit cfg p args now t = (x, s2)" "se_steps t = se_steps s1" "step_local args" for p args x s2 t
    using that assms(2)
    by (auto simp: chat_commit_def next_step_id_def offload_args_def record_in_session_def Let_def step_local_def
        split: option.splits)
  have args: "step_local args" if "chat_step_args cfg p r messages tools turn_id moved hook t = Inr args"
    for p r messages tools moved t args
    using that by (auto simp: chat_step_args_def rbind_eq_Inr Let_def split_def step_local_def)
  have fin: "se_steps s2 = se_steps s1 \<or> (\<exists>step. se_steps s2 = se_steps s1 @ [step] \<and> step_local step)"
    if "chat_finish cfg p r (rq_messages rq) (rq_tools rq) turn_id moved hook now s1 = (x, s2)" for p r moved x s2
    using that commit args by (auto simp: chat_finish_def Let_def split: sum.splits if_splits)
  let ?P = "\<lambda>t. \<exists>xs. same_steps (se_steps s) xs \<and>
    (se_steps t = xs \<or> (\<exists>step. se_steps t = xs @ [step] \<and> step_local step))"
  have "?P (snd (chat_in_session cfg rq generate epoch version turn_id hook now s))"
  proof (rule chat_in_session_cases [OF prep, of ?P])
    show "?P s" using same_steps_refl by blast
    show "?P s1" using ss by blast
  next
    fix p params r moved x s2
    assume "chat_finish cfg p r (rq_messages rq) (rq_tools rq) turn_id moved hook now s1 = (x, s2)"
    from fin [OF this] ss show "?P s2" by blast
  qed
  then show ?thesis using assms(3) by simp
qed

lemma run_chats_local:
  assumes "tito_session_ok s" "pc_tito_mode cfg" "\<forall>c\<in>set calls. faithful_generation (fst (snd c))"
    and "pc_transfer cfg = None" "\<forall>st\<in>set (se_steps s). step_local st"
  shows "\<forall>st\<in>set (se_steps (run_chats cfg calls s)). step_local st"
  using assms
proof (induction cfg calls s rule: run_chats.induct)
  case (2 cfg rq generate epoch version turn_id hook now calls s)
  obtain reply s1 where c: "chat_in_session cfg rq generate epoch version turn_id hook now s = (reply, s1)"
    by fastforce
  obtain xs where xs: "same_steps (se_steps s) xs"
    "se_steps s1 = xs \<or> (\<exists>step. se_steps s1 = xs @ [step] \<and> step_local step)"
    using chat_in_session_steps [OF _ 2(5) c] 2(2) by (auto simp: tito_session_ok_def)
  have "map step_local (se_steps s) = map step_local xs"
    using same_steps_map [OF xs(1), of step_local] by simp
  then have "\<forall>st\<in>set xs. step_local st"
    using 2(6) by (metis (no_types) imageE imageI list.set_map)
  then have loc: "\<forall>st\<in>set (se_steps s1). step_local st" using xs(2) by auto
  have "tito_session_ok s1"
    using chat_in_session_tito [OF 2(2,3), of generate rq epoch version turn_id hook now] 2(4) c by simp
  with 2 c loc show ?case by simp
qed simp

end
