(* ===== verification/Trajectory_Store.thy ===== *)
theory Trajectory_Store
  imports Messages Transport
begin

text \<open>
  The in-memory trajectory store (\<open>dressage/proxy/trajectory_store.py\<close>): finalised segments
  indexed by instance and by trajectory, with atomic batch writes, exact reads and pops, and
  batch draining by instance.  Every method runs under the store's lock, so a method is a
  function on the store.  Segment indices and counts are integers (the code also rejects
  booleans, which the type excludes); a layout given as a dictionary has been decoded.  The
  lemmas show that the two indexes agree after every write and pop, what a pop removes, and
  what the finalisation check accepts; \<open>read_batch\<close> is shown to leave the trajectory index out of
  step.
\<close>

section \<open>Segments\<close>

record TrajectorySegment =
  ti_uid :: string
  ti_trajectory_id :: string
  ti_turn_id :: string
  ti_instance_id :: string
  ti_segment_index :: int
  ti_segment_count :: int
  ti_messages :: "message list"
  ti_tools :: tool_list
  ti_tokens :: "int list"
  ti_full_logprobs :: "pyfloat list built_field"
  ti_full_loss_mask :: "int list"
  ti_aligned_response_length :: int
  ti_full_versions :: "string list option"
  ti_routed_experts_chunks :: "routed_chunk list built_field option"
  ti_label :: pyval
  ti_finish_reason :: string
  ti_timestamp :: real
  ti_extra_info :: "(string \<times> pyval) list"

text \<open>The dictionary a writer passes: keys may be missing.\<close>

record segment_data =
  sd_uid :: "string option"
  sd_trajectory_id :: "string option"
  sd_session_id :: "string option"
  sd_turn_id :: "string option"
  sd_instance_id :: "string option"
  sd_segment_index :: "int option"
  sd_segment_count :: "int option"
  sd_messages :: "message list option"
  sd_tools :: tool_list
  sd_tokens :: "int list option"
  sd_full_logprobs :: "pyfloat list built_field option"
  sd_full_loss_mask :: "int list option"
  sd_aligned_response_length :: "int option"
  sd_full_versions :: "string list option"
  sd_routed_experts_chunks :: "routed_chunk list built_field option"
  sd_label :: pyval
  sd_finish_reason :: "string option"
  sd_extra_info :: "(string \<times> pyval) list option"

record trajectory_store =
  ts_by_instance :: "(string, TrajectorySegment list) dict"
  ts_by_trajectory :: "(string, TrajectorySegment list) dict"
  ts_instance_timestamps :: "(string, real) dict"
  ts_min_group_size :: nat
  ts_group_timeout :: real

definition new_store :: "nat \<Rightarrow> real \<Rightarrow> trajectory_store" where
  "new_store min_group_size group_timeout =
     \<lparr>ts_by_instance = [], ts_by_trajectory = [], ts_instance_timestamps = [],
      ts_min_group_size = min_group_size, ts_group_timeout = group_timeout\<rparr>"

definition opt_or :: "'a option \<Rightarrow> 'a \<Rightarrow> 'a" where
  "opt_or x d = (case x of Some v \<Rightarrow> v | None \<Rightarrow> d)"

definition item_view :: "py_lib \<Rightarrow> string \<Rightarrow> TrajectorySegment \<Rightarrow> string option" where
  "item_view lib key item =
     (case pget (ti_extra_info item) key of PNone \<Rightarrow> None | v \<Rightarrow> Some (py_str (py_repr lib) v))"

definition item_segment_view :: "py_lib \<Rightarrow> TrajectorySegment \<Rightarrow> string option" where
  "item_segment_view lib item = item_view lib ''segment_view'' item"

definition item_token_build_mode :: "py_lib \<Rightarrow> TrajectorySegment \<Rightarrow> string option" where
  "item_token_build_mode lib item = item_view lib ''token_build_mode'' item"

definition default_segment_view :: "py_lib \<Rightarrow> TrajectorySegment list \<Rightarrow> string option" where
  "default_segment_view lib items =
     (let modes = map (item_token_build_mode lib) items in
      if Some ''tito'' \<in> set modes then Some ''lineage''
      else if Some ''snapshot'' \<in> set modes then Some ''timeline'' else None)"

definition filter_segment_view ::
  "py_lib \<Rightarrow> TrajectorySegment list \<Rightarrow> string option \<Rightarrow> TrajectorySegment list" where
  "filter_segment_view lib items segment_view =
     (case (if segment_view \<noteq> None \<and> segment_view \<noteq> Some [] then segment_view
            else default_segment_view lib items) of
        None \<Rightarrow> items
      | Some v \<Rightarrow> filter (\<lambda>item. item_segment_view lib item = Some v) items)"

section \<open>Conversion and validation\<close>

definition built_length_ok :: "nat \<Rightarrow> 'a list built_field \<Rightarrow> bool" where
  "built_length_ok n f = (case f of Actual xs \<Rightarrow> length xs = n | Layout l \<Rightarrow> lay_token_count l = int n)"

definition need :: "'a option \<Rightarrow> string \<Rightarrow> 'a result" where
  "need x key = (case x of Some v \<Rightarrow> Inr v | None \<Rightarrow> Inl (KeyError key))"

definition mismatch :: exn where
  "mismatch = ValueError ''trajectory segment field length mismatch''"

definition missing_field :: exn where
  "missing_field = ValueError ''trajectory segment missing required field''"

definition item_from_dict :: "string \<Rightarrow> string \<Rightarrow> string \<Rightarrow> real \<Rightarrow> segment_data \<Rightarrow> TrajectorySegment result" where
  "item_from_dict uuid1 uuid2 uuid3 now d =
     (let trajectory_id =
            (case sd_trajectory_id d of
               Some (c # cs) \<Rightarrow> c # cs
             | _ \<Rightarrow> opt_or (sd_session_id d) uuid1)
      in case (sd_tokens d, sd_full_logprobs d, sd_full_loss_mask d) of
           (Some tokens, Some logprobs, Some loss_mask) \<Rightarrow>
             (let n = length tokens in
              if \<not> built_length_ok n logprobs then Inl mismatch
              else if length loss_mask \<noteq> n then Inl mismatch
              else if (case sd_full_versions d of None \<Rightarrow> False | Some vs \<Rightarrow> length vs \<noteq> n) then Inl mismatch
              else if (case sd_routed_experts_chunks d of Some (Layout l) \<Rightarrow> lay_token_count l \<noteq> int n | _ \<Rightarrow> False)
              then Inl mismatch
              else rbind (need (sd_turn_id d) ''turn_id'') (\<lambda>turn_id.
                   rbind (need (sd_messages d) ''messages'') (\<lambda>messages.
                   Inr \<lparr>ti_uid = opt_or (sd_uid d) uuid2, ti_trajectory_id = trajectory_id,
                        ti_turn_id = turn_id, ti_instance_id = opt_or (sd_instance_id d) uuid3,
                        ti_segment_index = opt_or (sd_segment_index d) 0,
                        ti_segment_count = opt_or (sd_segment_count d) 1,
                        ti_messages = messages, ti_tools = sd_tools d, ti_tokens = tokens,
                        ti_full_logprobs = logprobs, ti_full_loss_mask = loss_mask,
                        ti_aligned_response_length = opt_or (sd_aligned_response_length d) 0,
                        ti_full_versions = sd_full_versions d,
                        ti_routed_experts_chunks = sd_routed_experts_chunks d, ti_label = sd_label d,
                        ti_finish_reason = opt_or (sd_finish_reason d) ''stop'', ti_timestamp = now,
                        ti_extra_info = opt_or (sd_extra_info d) []\<rparr>)))
         | _ \<Rightarrow> Inl missing_field)"

definition marked :: "TrajectorySegment \<Rightarrow> bool" where
  "marked item \<longleftrightarrow> dmem ''finalization_id'' (ti_extra_info item) \<or> dmem ''finalization_complete'' (ti_extra_info item)"

definition view_complete :: "TrajectorySegment list \<Rightarrow> bool" where
  "view_complete view_items =
     (let counts = map ti_segment_count view_items; indices = map ti_segment_index view_items in
      length (remdups counts) = 1 \<and> hd counts = int (length view_items) \<and> distinct indices \<and>
      set indices = set (map int [0..<length view_items]))"

definition validate_finalized_batch :: "py_lib \<Rightarrow> TrajectorySegment list \<Rightarrow> unit result" where
  "validate_finalized_batch lib items =
     (if items = [] \<or> \<not> list_ex marked items then Inr ()
      else let ids = map (\<lambda>item. pget (ti_extra_info item) ''finalization_id'') items in
        if (case hd ids of PStr (c # cs) \<Rightarrow> False | _ \<Rightarrow> True) \<or> list_ex (\<lambda>i. \<not> py_eq i (hd ids)) ids \<or>
           list_ex (\<lambda>item. pget (ti_extra_info item) ''finalization_complete'' \<noteq> PBool True) items
        then Inl (ValueError ''finalized trajectory batch has inconsistent markers'')
        else if length (remdups (map ti_trajectory_id items)) \<noteq> 1 \<or> length (remdups (map ti_instance_id items)) \<noteq> 1
        then Inl (ValueError ''finalized trajectory batch mixes trajectory identities'')
        else if list_ex (\<lambda>item. item_segment_view lib item \<notin> {Some ''lineage'', Some ''timeline''}) items
        then Inl (ValueError ''finalized trajectory batch has invalid segment_view'')
        else if list_all view_complete (dvalues (group_by (item_segment_view lib) items)) then Inr ()
        else Inl (ValueError ''finalized trajectory segments are not the complete 0..N-1 set''))"

section \<open>Writes\<close>

definition append_item :: "TrajectorySegment \<Rightarrow> trajectory_store \<Rightarrow> trajectory_store" where
  "append_item item s = s\<lparr>ts_by_instance := group_append (ti_instance_id item) item (ts_by_instance s),
                         ts_by_trajectory := group_append (ti_trajectory_id item) item (ts_by_trajectory s)\<rparr>"

text \<open>
  The code takes snapshots to undo a partial update if the mutation raises; appending to lists
  and setting dictionary keys does not raise.
\<close>

definition write_items :: "TrajectorySegment list \<Rightarrow> real \<Rightarrow> trajectory_store \<Rightarrow> trajectory_store" where
  "write_items items now s =
     (let s' = fold append_item items s in
      s'\<lparr>ts_instance_timestamps := fold (\<lambda>i. dset i now) (remdups (map ti_instance_id items)) (ts_instance_timestamps s)\<rparr>)"

text \<open>\<open>uuids\<close> supplies the fresh ids the conversion of each record may draw.\<close>

definition write_many ::
  "py_lib \<Rightarrow> (string \<times> string \<times> string) list \<Rightarrow> segment_data list \<Rightarrow> real \<Rightarrow> trajectory_store
    \<Rightarrow> TrajectorySegment list result \<times> trajectory_store" where
  "write_many lib uuids records now s =
     (case rbind (rmap (\<lambda>(d, u1, u2, u3). item_from_dict u1 u2 u3 now d) (zip records uuids)) (\<lambda>items.
             rbind (validate_finalized_batch lib items) (\<lambda>_. Inr items)) of
        Inl e \<Rightarrow> (Inl e, s)
      | Inr items \<Rightarrow> (Inr items, write_items items now s))"

section \<open>Reads\<close>

definition read_key :: "TrajectorySegment \<Rightarrow> int \<times> real" where
  "read_key item = (ti_segment_index item, ti_timestamp item)"

definition read_trajectory ::
  "py_lib \<Rightarrow> string \<Rightarrow> string option \<Rightarrow> string option \<Rightarrow> trajectory_store \<Rightarrow> TrajectorySegment list" where
  "read_trajectory lib trajectory_id instance_id segment_view s =
     (let items = dget_or (ts_by_trajectory s) trajectory_id [];
          items' = (case instance_id of None \<Rightarrow> items | Some i \<Rightarrow> filter (\<lambda>x. ti_instance_id x = i) items)
      in sort_key read_key (filter_segment_view lib items' segment_view))"

definition drop_from_instance :: "string list \<Rightarrow> real \<Rightarrow> string \<Rightarrow> trajectory_store \<Rightarrow> trajectory_store" where
  "drop_from_instance uids now i s =
     (let remaining = filter (\<lambda>x. ti_uid x \<notin> set uids) (dget_or (ts_by_instance s) i []) in
      if remaining \<noteq> []
      then s\<lparr>ts_by_instance := dset i remaining (ts_by_instance s),
             ts_instance_timestamps := dset i now (ts_instance_timestamps s)\<rparr>
      else s\<lparr>ts_by_instance := dpop i (ts_by_instance s),
             ts_instance_timestamps := dpop i (ts_instance_timestamps s)\<rparr>)"

definition pop_trajectory ::
  "py_lib \<Rightarrow> string \<Rightarrow> string option \<Rightarrow> string option \<Rightarrow> real \<Rightarrow> trajectory_store
    \<Rightarrow> TrajectorySegment list \<times> trajectory_store" where
  "pop_trajectory lib trajectory_id instance_id segment_view now s =
     (let existing = dget_or (ts_by_trajectory s) trajectory_id [];
          keep = (\<lambda>x. case instance_id of None \<Rightarrow> False | Some i \<Rightarrow> ti_instance_id x \<noteq> i);
          matched = filter (\<lambda>x. \<not> keep x) existing;
          remaining = filter keep existing
      in if matched = [] then ([], s)
         else
           (let s1 = (if remaining \<noteq> [] then s\<lparr>ts_by_trajectory := dset trajectory_id remaining (ts_by_trajectory s)\<rparr>
                      else s\<lparr>ts_by_trajectory := dpop trajectory_id (ts_by_trajectory s)\<rparr>);
                s2 = fold (drop_from_instance (map ti_uid matched) now) (remdups (map ti_instance_id matched)) s1
            in (sort_key read_key (filter_segment_view lib matched segment_view), s2)))"

definition ready_instances :: "real \<Rightarrow> trajectory_store \<Rightarrow> string list" where
  "ready_instances now s =
     map fst (filter (\<lambda>(i, items).
       length (remdups (map ti_trajectory_id items)) \<ge> ts_min_group_size s \<or>
       now - dget_or (ts_instance_timestamps s) i now > ts_group_timeout s) (ts_by_instance s))"

definition batch_key :: "TrajectorySegment \<Rightarrow> string \<times> int \<times> real" where
  "batch_key item = (ti_trajectory_id item, ti_segment_index item, ti_timestamp item)"

text \<open>
  One item of a drained instance: its trajectory entry is rewritten only when other items are
  left.  The \<open>else\<close> of the source belongs to the loop over the items, so the entry of the last
  item's trajectory is removed, whatever it still holds.
\<close>

definition drain_item :: "TrajectorySegment \<Rightarrow> trajectory_store \<Rightarrow> trajectory_store" where
  "drain_item item s =
     (let left = filter (\<lambda>x. ti_uid x \<noteq> ti_uid item) (dget_or (ts_by_trajectory s) (ti_trajectory_id item) []) in
      if left \<noteq> [] then s\<lparr>ts_by_trajectory := dset (ti_trajectory_id item) left (ts_by_trajectory s)\<rparr> else s)"

definition drain_instance :: "py_lib \<Rightarrow> string \<Rightarrow> trajectory_store \<Rightarrow> TrajectorySegment list \<times> trajectory_store" where
  "drain_instance lib i s =
     (let items = sort_key batch_key (dget_or (ts_by_instance s) i []);
          s1 = s\<lparr>ts_by_instance := dpop i (ts_by_instance s)\<rparr>;
          s2 = fold drain_item items s1;
          s3 = (if items = [] then s2
                else s2\<lparr>ts_by_trajectory := dpop (ti_trajectory_id (last items)) (ts_by_trajectory s2)\<rparr>);
          s4 = s3\<lparr>ts_instance_timestamps := dpop i (ts_instance_timestamps s3)\<rparr>;
          groups = dvalues (group_by ti_trajectory_id items)
      in (sort_key batch_key (concat (map (\<lambda>g. filter_segment_view lib g None) groups)), s4))"

fun drain_instances :: "py_lib \<Rightarrow> string list \<Rightarrow> trajectory_store \<Rightarrow> TrajectorySegment list list \<times> trajectory_store" where
  "drain_instances lib [] s = ([], s)"
| "drain_instances lib (i # is) s =
     (let (g, s1) = drain_instance lib i s; (gs, s2) = drain_instances lib is s1 in (g # gs, s2))"

definition read_batch ::
  "py_lib \<Rightarrow> int option \<Rightarrow> real \<Rightarrow> trajectory_store \<Rightarrow> TrajectorySegment list list \<times> trajectory_store" where
  "read_batch lib max_groups now s =
     (let ready = ready_instances now s;
          chosen = (case max_groups of None \<Rightarrow> ready | Some n \<Rightarrow> pyslice ready 0 n)
      in drain_instances lib chosen s)"

definition store_stats :: "real \<Rightarrow> trajectory_store \<Rightarrow> nat \<times> nat \<times> nat" where
  "store_stats now s =
     (sum_list (map length (dvalues (ts_by_instance s))), length (ts_by_instance s), length (ready_instances now s))"

section \<open>The store as a log\<close>

text \<open>
  Abstractly the store is the list of the segments it holds, in the order of arrival; the two
  indexes are its restrictions to an instance and to a trajectory.
\<close>

definition implements :: "TrajectorySegment list \<Rightarrow> trajectory_store \<Rightarrow> bool" where
  "implements entries s \<longleftrightarrow>
     distinct (map ti_uid entries) \<and> dict_ok (ts_by_instance s) \<and> dict_ok (ts_by_trajectory s) \<and>
     (\<forall>i. dget (ts_by_instance s) i \<noteq> Some [] \<and>
        dget_or (ts_by_instance s) i [] = filter (\<lambda>x. ti_instance_id x = i) entries) \<and>
     (\<forall>t. dget (ts_by_trajectory s) t \<noteq> Some [] \<and>
        dget_or (ts_by_trajectory s) t [] = filter (\<lambda>x. ti_trajectory_id x = t) entries)"

lemma implementsD:
  assumes "implements entries s"
  shows "distinct (map ti_uid entries)" "dict_ok (ts_by_instance s)" "dict_ok (ts_by_trajectory s)"
    "dget (ts_by_instance s) i \<noteq> Some []"
    "dget_or (ts_by_instance s) i [] = filter (\<lambda>x. ti_instance_id x = i) entries"
    "dget (ts_by_trajectory s) t \<noteq> Some []"
    "dget_or (ts_by_trajectory s) t [] = filter (\<lambda>x. ti_trajectory_id x = t) entries"
  using assms unfolding implements_def by blast+

lemma implementsI:
  assumes "distinct (map ti_uid entries)" "dict_ok (ts_by_instance s)" "dict_ok (ts_by_trajectory s)"
    and "\<And>i. dget (ts_by_instance s) i \<noteq> Some []"
    and "\<And>i. dget_or (ts_by_instance s) i [] = filter (\<lambda>x. ti_instance_id x = i) entries"
    and "\<And>t. dget (ts_by_trajectory s) t \<noteq> Some []"
    and "\<And>t. dget_or (ts_by_trajectory s) t [] = filter (\<lambda>x. ti_trajectory_id x = t) entries"
  shows "implements entries s"
  unfolding implements_def using assms by blast

lemma implements_new: "implements [] (new_store n t)"
  by (simp add: implements_def new_store_def)

lemma append_item_implements:
  assumes "implements entries s" "ti_uid item \<notin> ti_uid ` set entries"
  shows "implements (entries @ [item]) (append_item item s)"
  using implementsD [OF assms(1)] assms(2)
  by (intro implementsI) (auto simp: append_item_def dget_or_group_append)

lemma append_items_implements:
  assumes "implements entries s" "distinct (map ti_uid (entries @ items))"
  shows "implements (entries @ items) (fold append_item items s)"
  using assms
proof (induction items arbitrary: entries s)
  case (Cons item items)
  have "implements (entries @ [item]) (append_item item s)"
    using Cons.prems by (intro append_item_implements) auto
  from Cons.IH [OF this] Cons.prems(2) show ?case by simp
qed simp

lemma implements_timestamps:
  "implements entries (s\<lparr>ts_instance_timestamps := x\<rparr>) = implements entries s"
  by (simp add: implements_def)

lemma write_items_implements:
  "\<lbrakk>implements entries s; distinct (map ti_uid (entries @ items))\<rbrakk> \<Longrightarrow> implements (entries @ items) (write_items items now s)"
  by (simp add: write_items_def Let_def implements_timestamps append_items_implements)

lemma drop_from_instance_get:
  "dget_or (ts_by_instance (drop_from_instance uids now i s)) k [] =
    (if k = i then filter (\<lambda>x. ti_uid x \<notin> set uids) (dget_or (ts_by_instance s) i [])
     else dget_or (ts_by_instance s) k [])"
  "ts_by_trajectory (drop_from_instance uids now i s) = ts_by_trajectory s"
  "dict_ok (ts_by_instance s) \<Longrightarrow> dict_ok (ts_by_instance (drop_from_instance uids now i s))"
  "dget (ts_by_instance s) k \<noteq> Some [] \<Longrightarrow> dget (ts_by_instance (drop_from_instance uids now i s)) k \<noteq> Some []"
  by (auto simp: drop_from_instance_def Let_def dget_or_def)

lemma drop_from_instances_get:
  "dget_or (ts_by_instance (fold (drop_from_instance uids now) is s)) k [] =
    (if k \<in> set is then filter (\<lambda>x. ti_uid x \<notin> set uids) (dget_or (ts_by_instance s) k [])
     else dget_or (ts_by_instance s) k [])"
  "ts_by_trajectory (fold (drop_from_instance uids now) is s) = ts_by_trajectory s"
  "dict_ok (ts_by_instance s) \<Longrightarrow> dict_ok (ts_by_instance (fold (drop_from_instance uids now) is s))"
  "dget (ts_by_instance s) k \<noteq> Some [] \<Longrightarrow>
    dget (ts_by_instance (fold (drop_from_instance uids now) is s)) k \<noteq> Some []"
  by (induction "is" arbitrary: s) (simp_all add: drop_from_instance_get filter_filter)

definition pops :: "string \<Rightarrow> string option \<Rightarrow> TrajectorySegment \<Rightarrow> bool" where
  "pops t i x \<longleftrightarrow> ti_trajectory_id x = t \<and> (case i of None \<Rightarrow> True | Some k \<Rightarrow> ti_instance_id x = k)"

lemma filter_segment_view_Nil: "filter_segment_view lib [] v = []"
  by (simp add: filter_segment_view_def split: option.splits)

lemma pop_trajectory_implements:
  assumes "implements entries s" "pop_trajectory lib t i v now s = (out, s')"
  shows "out = sort_key read_key (filter_segment_view lib (filter (pops t i) entries) v)"
    and "implements (filter (\<lambda>x. \<not> pops t i x) entries) s'"
proof -
  note ok = implementsD [OF assms(1)]
  let ?keep = "\<lambda>x. case i of None \<Rightarrow> False | Some k \<Rightarrow> ti_instance_id x \<noteq> k"
  let ?existing = "filter (\<lambda>x. ti_trajectory_id x = t) entries"
  have matched: "filter (\<lambda>x. \<not> ?keep x) ?existing = filter (pops t i) entries"
    unfolding filter_filter by (rule filter_cong) (auto simp: pops_def split: option.splits)
  have left: "filter ?keep ?existing = filter (\<lambda>x. ti_trajectory_id x = t \<and> \<not> pops t i x) entries"
    unfolding filter_filter by (rule filter_cong) (auto simp: pops_def split: option.splits)
  let ?M = "filter (pops t i) entries"
  let ?L = "filter (\<lambda>x. ti_trajectory_id x = t \<and> \<not> pops t i x) entries"
  let ?s1 = "if ?L \<noteq> [] then s\<lparr>ts_by_trajectory := dset t ?L (ts_by_trajectory s)\<rparr>
             else s\<lparr>ts_by_trajectory := dpop t (ts_by_trajectory s)\<rparr>"
  let ?s2 = "fold (drop_from_instance (map ti_uid ?M) now) (remdups (map ti_instance_id ?M)) ?s1"
  have pop: "(out, s') = (if ?M = [] then ([], s) else (sort_key read_key (filter_segment_view lib ?M v), ?s2))"
    using assms(2) unfolding pop_trajectory_def Let_def ok(7) matched left by auto
  show "out = sort_key read_key (filter_segment_view lib ?M v)"
    using pop by (cases "?M = []") (simp_all add: filter_segment_view_Nil)
  show "implements (filter (\<lambda>x. \<not> pops t i x) entries) s'"
  proof (cases "?M = []")
    case True
    then have "filter (\<lambda>x. \<not> pops t i x) entries = entries" by (auto simp: filter_empty_conv intro: filter_True)
    with True pop assms(1) show ?thesis by simp
  next
    case False
    then have s': "s' = ?s2" using pop by simp
    have uid: "ti_uid x \<in> set (map ti_uid ?M) \<longleftrightarrow> pops t i x" if "x \<in> set entries" for x
      using ok(1) that by (auto simp: distinct_map dest: inj_onD)
    have inst1: "ts_by_instance ?s1 = ts_by_instance s" by simp
    have inst: "dget_or (ts_by_instance ?s2) k [] = filter (\<lambda>x. ti_instance_id x = k) (filter (\<lambda>x. \<not> pops t i x) entries)" for k
    proof (cases "k \<in> ti_instance_id ` set ?M")
      case True
      then show ?thesis
        unfolding drop_from_instances_get(1) inst1 ok(5) filter_filter
        using uid by (auto intro!: filter_cong)
    next
      case False
      then have "\<not> pops t i x" if "x \<in> set entries" "ti_instance_id x = k" for x using that by auto
      then show ?thesis
        using False unfolding drop_from_instances_get(1) inst1 ok(5) filter_filter
        by (auto intro!: filter_cong)
    qed
    have traj: "dget_or (ts_by_trajectory ?s2) k [] = filter (\<lambda>x. ti_trajectory_id x = k) (filter (\<lambda>x. \<not> pops t i x) entries)" for k
    proof (cases "k = t")
      case True
      then show ?thesis
        by (auto simp: drop_from_instances_get(2) dget_or_def filter_filter conj_commute)
    next
      case False
      have "dget_or (ts_by_trajectory ?s2) k [] = dget_or (ts_by_trajectory s) k []"
        using False by (simp add: drop_from_instances_get(2) dget_or_def)
      also have "\<dots> = filter (\<lambda>x. ti_trajectory_id x = k) (filter (\<lambda>x. \<not> pops t i x) entries)"
        using False by (auto simp: ok(7) filter_filter pops_def intro!: filter_cong)
      finally show ?thesis .
    qed
    have ne: "dget (ts_by_trajectory ?s2) k \<noteq> Some []" for k
      using ok(6) [of k] by (auto simp: drop_from_instances_get(2))
    show ?thesis
      unfolding s'
    proof (rule implementsI)
      show "dget (ts_by_instance ?s2) k \<noteq> Some []" for k
        by (rule drop_from_instances_get(4)) (simp add: ok(4))
      show "dict_ok (ts_by_instance ?s2)" by (rule drop_from_instances_get(3)) (simp add: ok(2))
    qed (use ok inst traj ne in \<open>auto simp: drop_from_instances_get(2) distinct_map_filter\<close>)
  qed
qed

text \<open>
  A history of writes, pops and reads, run on the store and on the log.
\<close>

datatype store_op =
    StoreWrite "TrajectorySegment list" real
  | StorePop string "string option" "string option" real
  | StoreRead string "string option" "string option"

fun run_store :: "py_lib \<Rightarrow> store_op list \<Rightarrow> trajectory_store \<Rightarrow> TrajectorySegment list list \<times> trajectory_store" where
  "run_store lib [] s = ([], s)"
| "run_store lib (StoreWrite items now # ops) s =
     (let (outs, s') = run_store lib ops (write_items items now s) in (items # outs, s'))"
| "run_store lib (StorePop t i v now # ops) s =
     (let (out, s1) = pop_trajectory lib t i v now s; (outs, s') = run_store lib ops s1 in (out # outs, s'))"
| "run_store lib (StoreRead t i v # ops) s =
     (let (outs, s') = run_store lib ops s in (read_trajectory lib t i v s # outs, s'))"

fun run_log :: "py_lib \<Rightarrow> store_op list \<Rightarrow> TrajectorySegment list \<Rightarrow> TrajectorySegment list list \<times> TrajectorySegment list" where
  "run_log lib [] es = ([], es)"
| "run_log lib (StoreWrite items now # ops) es =
     (let (outs, es') = run_log lib ops (es @ items) in (items # outs, es'))"
| "run_log lib (StorePop t i v now # ops) es =
     (let (outs, es') = run_log lib ops (filter (\<lambda>x. \<not> pops t i x) es)
      in (sort_key read_key (filter_segment_view lib (filter (pops t i) es) v) # outs, es'))"
| "run_log lib (StoreRead t i v # ops) es =
     (let (outs, es') = run_log lib ops es
      in (sort_key read_key (filter_segment_view lib (filter (pops t i) es) v) # outs, es'))"

text \<open>Segment uids are fresh UUIDs.\<close>

fun fresh_writes :: "store_op list \<Rightarrow> TrajectorySegment list \<Rightarrow> bool" where
  "fresh_writes [] es = True"
| "fresh_writes (StoreWrite items now # ops) es =
     (distinct (map ti_uid (es @ items)) \<and> fresh_writes ops (es @ items))"
| "fresh_writes (StorePop t i v now # ops) es = fresh_writes ops (filter (\<lambda>x. \<not> pops t i x) es)"
| "fresh_writes (StoreRead t i v # ops) es = fresh_writes ops es"

lemma read_trajectory_log:
  assumes "implements es s"
  shows "read_trajectory lib t i v s = sort_key read_key (filter_segment_view lib (filter (pops t i) es) v)"
proof -
  have "(case i of None \<Rightarrow> filter (\<lambda>x. ti_trajectory_id x = t) es
         | Some k \<Rightarrow> filter (\<lambda>x. ti_instance_id x = k) (filter (\<lambda>x. ti_trajectory_id x = t) es)) =
      filter (pops t i) es"
    by (auto simp: pops_def filter_filter conj_commute intro!: filter_cong split: option.splits)
  then show ?thesis
    by (simp add: read_trajectory_def Let_def implementsD(7) [OF assms])
qed

text \<open>
  C25: the store refines a log.  For any history of writes, pops and reads, every read and pop of
  the store returns what the log of the segments written and not yet popped would return, in
  order of segment index, and both indexes keep holding exactly that log.
\<close>

theorem trajectory_store_refines_log:
  assumes "fresh_writes ops es" "implements es s"
  shows "fst (run_store lib ops s) = fst (run_log lib ops es) \<and>
    implements (snd (run_log lib ops es)) (snd (run_store lib ops s))"
  using assms
proof (induction lib ops s arbitrary: es rule: run_store.induct)
  case (2 lib items now ops s)
  then show ?case
    using write_items_implements [OF 2(3), of items now] by (auto simp: split_def Let_def)
next
  case (3 lib t i v now ops s)
  obtain out s1 where p: "pop_trajectory lib t i v now s = (out, s1)" by fastforce
  show ?case
    using pop_trajectory_implements [OF 3(3) p] 3(1) [OF p [symmetric] refl] 3(2) p
    by (auto simp: split_def Let_def)
next
  case (4 lib t i v ops s)
  then show ?case by (auto simp: split_def Let_def read_trajectory_log)
qed simp

definition sample_item :: "string \<Rightarrow> string \<Rightarrow> string \<Rightarrow> int \<Rightarrow> TrajectorySegment" where
  "sample_item uid t i n =
     \<lparr>ti_uid = uid, ti_trajectory_id = t, ti_turn_id = [], ti_instance_id = i, ti_segment_index = n,
      ti_segment_count = 1, ti_messages = [], ti_tools = None, ti_tokens = [], ti_full_logprobs = Actual [],
      ti_full_loss_mask = [], ti_aligned_response_length = 0, ti_full_versions = None,
      ti_routed_experts_chunks = None, ti_label = PNone, ti_finish_reason = [], ti_timestamp = 0,
      ti_extra_info = []\<rparr>"

theorem trajectory_store_refines_log_witness:
  "fst (run_store sample_lib [StoreWrite [sample_item ''u1'' ''t'' ''i'' 1, sample_item ''u0'' ''t'' ''i'' 0] 0,
      StorePop ''t'' None None 1] (new_store 1 300)) =
    fst (run_log sample_lib [StoreWrite [sample_item ''u1'' ''t'' ''i'' 1, sample_item ''u0'' ''t'' ''i'' 0] 0,
      StorePop ''t'' None None 1] []) \<and>
    implements (snd (run_log sample_lib [StoreWrite [sample_item ''u1'' ''t'' ''i'' 1, sample_item ''u0'' ''t'' ''i'' 0] 0,
      StorePop ''t'' None None 1] []))
     (snd (run_store sample_lib [StoreWrite [sample_item ''u1'' ''t'' ''i'' 1, sample_item ''u0'' ''t'' ''i'' 0] 0,
      StorePop ''t'' None None 1] (new_store 1 300)))"
  by (rule trajectory_store_refines_log) (simp_all add: sample_item_def implements_new)

lemma sample_read_batch:
  "read_batch sample_lib None 0
     (write_items [sample_item ''u1'' ''t1'' ''i'' 0, sample_item ''u2'' ''t2'' ''i'' 0] 0 (new_store 1 300)) =
   ([[sample_item ''u1'' ''t1'' ''i'' 0, sample_item ''u2'' ''t2'' ''i'' 0]],
    \<lparr>ts_by_instance = [], ts_by_trajectory = [(''t1'', [sample_item ''u1'' ''t1'' ''i'' 0])],
     ts_instance_timestamps = [], ts_min_group_size = 1, ts_group_timeout = 300\<rparr>)"
  by code_simp

text \<open>
  Draining by instance breaks the refinement.  After \<open>read_batch\<close> has delivered an instance
  with two trajectories, the first trajectory's segment is still found under its id, although
  the store no longer counts it: a later exact read delivers the same segment twice.
\<close>

theorem read_batch_leaves_stale_segment:
  "let item = sample_item ''u1'' ''t1'' ''i'' 0; other = sample_item ''u2'' ''t2'' ''i'' 0;
       s = write_items [item, other] 0 (new_store 1 300);
       (groups, s') = read_batch sample_lib None 0 s
   in implements [item, other] s \<and> groups = [[item, other]] \<and> ts_by_instance s' = [] \<and>
      read_trajectory sample_lib ''t1'' None None s' = [item] \<and> (\<forall>es. \<not> implements es s')"
proof -
  let ?item = "sample_item ''u1'' ''t1'' ''i'' 0" and ?other = "sample_item ''u2'' ''t2'' ''i'' 0"
  let ?s' = "\<lparr>ts_by_instance = [], ts_by_trajectory = [(''t1'', [?item])], ts_instance_timestamps = [],
      ts_min_group_size = 1, ts_group_timeout = 300\<rparr>"
  have s: "implements [?item, ?other] (write_items [?item, ?other] 0 (new_store 1 300))"
    using write_items_implements [OF implements_new, of "[?item, ?other]" 0 1 300] by (simp add: sample_item_def)
  have stale: "\<not> implements es ?s'" for es
  proof
    assume i: "implements es ?s'"
    have "filter (\<lambda>x. ti_instance_id x = ''i'') es = []"
      using implementsD(5) [OF i, of "''i''"] by simp
    moreover have "filter (\<lambda>x. ti_trajectory_id x = ''t1'') es = [?item]"
      using implementsD(7) [OF i, of "''t1''"] by (simp add: dget_or_def)
    then have "?item \<in> set (filter (\<lambda>x. ti_trajectory_id x = ''t1'') es)" by simp
    then have "?item \<in> set es" by simp
    ultimately show False by (auto simp: filter_empty_conv sample_item_def)
  qed
  have "read_trajectory sample_lib ''t1'' None None ?s' = [?item]"
    by (simp add: read_trajectory_def dget_or_def filter_segment_view_def default_segment_view_def
        item_token_build_mode_def item_view_def sample_item_def pget_def Let_def)
  with s stale show ?thesis
    unfolding Let_def sample_read_batch by simp
qed

section \<open>Accepted batches are complete\<close>

lemma item_from_dict_aligned:
  assumes "item_from_dict u1 u2 u3 now d = Inr item"
  shows "built_length_ok (length (ti_tokens item)) (ti_full_logprobs item)"
    "length (ti_full_loss_mask item) = length (ti_tokens item)"
    "\<And>vs. ti_full_versions item = Some vs \<Longrightarrow> length vs = length (ti_tokens item)"
    "\<And>l. ti_routed_experts_chunks item = Some (Layout l) \<Longrightarrow> lay_token_count l = int (length (ti_tokens item))"
  using assms
  by (auto simp: item_from_dict_def Let_def rbind_eq_Inr
      split: option.splits if_splits built_field.splits)

lemma view_complete_indices:
  assumes "view_complete xs"
  shows "mset (map ti_segment_index xs) = mset (map int [0..<length xs])"
    "\<And>x. x \<in> set xs \<Longrightarrow> ti_segment_count x = int (length xs)"
proof -
  have "distinct (map int [0..<length xs])" by (simp add: distinct_map)
  then show "mset (map ti_segment_index xs) = mset (map int [0..<length xs])"
    using assms by (intro set_eq_iff_mset_eq_distinct [THEN iffD1]) (auto simp: view_complete_def Let_def)
  let ?c = "map ti_segment_count xs"
  have "card (set ?c) = 1" "hd ?c = int (length xs)"
    using assms by (auto simp: view_complete_def Let_def length_remdups_card_conv)
  then obtain a where "set ?c = {a}" "a = int (length xs)"
    by (metis card_1_singletonE card.empty hd_in_set list.set(1) singletonD zero_neq_one)
  then show "ti_segment_count x = int (length xs)" if "x \<in> set xs" for x
    using that by auto
qed

lemma sort_key_indices:
  assumes "mset (map ti_segment_index xs) = mset (map int [0..<length xs])"
  shows "map ti_segment_index (sort_key read_key xs) = map int [0..<length xs]"
proof -
  have "sorted (map read_key (sort_key read_key xs))" by simp
  then have "sorted (map fst (map read_key (sort_key read_key xs)))"
    by (rule sorted_map_mono) (auto simp: mono_on_def less_eq_prod_def)
  then have s: "sorted (map ti_segment_index (sort_key read_key xs))"
    by (simp add: comp_def read_key_def)
  have "mset (map ti_segment_index (sort_key read_key xs)) = mset (map int [0..<length xs])"
    using assms by (metis mset_map mset_sort)
  moreover have "sorted (map int [0..<length xs])" by (simp add: sorted_iff_nth_mono)
  ultimately show ?thesis using s by (metis properties_for_sort)
qed

lemma validated_view:
  assumes "validate_finalized_batch lib items = Inr ()" "list_ex marked items"
    and "x \<in> set items" "item_segment_view lib x = Some v"
  shows "view_complete (filter (\<lambda>y. item_segment_view lib y = Some v) items)"
proof -
  have all: "list_all view_complete (dvalues (group_by (item_segment_view lib) items))"
    using assms(1-3) by (auto simp: validate_finalized_batch_def Let_def split: if_splits)
  have "dget (group_by (item_segment_view lib) items) (Some v) =
      Some (filter (\<lambda>y. item_segment_view lib y = Some v) items)"
    using assms(3,4) by (auto simp: dget_group_by intro: rev_image_eqI)
  then have "filter (\<lambda>y. item_segment_view lib y = Some v) items \<in> set (dvalues (group_by (item_segment_view lib) items))"
    by (force dest: map_of_SomeD)
  with all show ?thesis by (auto simp: list_all_iff)
qed

text \<open>
  Atomic publication of a finalised trajectory.  A batch that carries finalisation markers is
  either rejected, leaving the store as it was, or published whole; then reading any view it
  contains returns the segments of that view with indices 0, 1, ..., N-1 in order, each
  announcing N as the segment count, with logprobs and loss mask as long as the tokens.
\<close>

theorem finalized_batch_published_whole:
  assumes "implements es s" "write_many lib uuids records now s = (r, s')"
    and "\<And>items. r = Inr items \<Longrightarrow> list_ex marked items \<and> distinct (map ti_uid (es @ items)) \<and>
      (\<forall>x\<in>set items. ti_trajectory_id x = t) \<and> (\<forall>x\<in>set es. ti_trajectory_id x \<noteq> t)"
  shows "case r of
      Inl e \<Rightarrow> s' = s
    | Inr items \<Rightarrow> implements (es @ items) s' \<and>
        (\<forall>v\<in>{''lineage'', ''timeline''}. \<forall>x\<in>set items. item_segment_view lib x = Some v \<longrightarrow>
          (let out = read_trajectory lib t None (Some v) s' in
           map ti_segment_index out = map int [0..<length out] \<and>
           set out = {y \<in> set items. item_segment_view lib y = Some v} \<and>
           (\<forall>y\<in>set out. ti_segment_count y = int (length out) \<and>
              length (ti_full_loss_mask y) = length (ti_tokens y) \<and>
              built_length_ok (length (ti_tokens y)) (ti_full_logprobs y))))"
proof (cases r)
  case (Inl e)
  then show ?thesis using assms(2) by (auto simp: write_many_def split: sum.splits)
next
  case (Inr items)
  note pre = assms(3) [OF Inr]
  have wm: "rmap (\<lambda>(d, u1, u2, u3). item_from_dict u1 u2 u3 now d) (zip records uuids) = Inr items"
    "validate_finalized_batch lib items = Inr ()" "s' = write_items items now s"
    using assms(2) Inr by (auto simp: write_many_def rbind_eq_Inr split: sum.splits)
  have imp: "implements (es @ items) s'"
    using write_items_implements [OF assms(1)] pre wm(3) by simp
  have al: "length (ti_full_loss_mask y) = length (ti_tokens y) \<and>
      built_length_ok (length (ti_tokens y)) (ti_full_logprobs y)" if y: "y \<in> set items" for y
  proof -
    obtain d u1 u2 u3 where "item_from_dict u1 u2 u3 now d = Inr y"
      using rmap_origin [OF wm(1) y] by auto
    then show ?thesis using item_from_dict_aligned by blast
  qed
  have pops: "filter (pops t None) (es @ items) = items"
    using pre by (auto simp: pops_def filter_empty_conv intro!: filter_True)
  have "map ti_segment_index out = map int [0..<length out] \<and>
      set out = {y \<in> set items. item_segment_view lib y = Some v} \<and>
      (\<forall>y\<in>set out. ti_segment_count y = int (length out))"
    if "v \<in> {''lineage'', ''timeline''}" "x \<in> set items" "item_segment_view lib x = Some v"
      "out = read_trajectory lib t None (Some v) s'" for v x out
  proof -
    let ?V = "filter (\<lambda>y. item_segment_view lib y = Some v) items"
    have out: "out = sort_key read_key ?V"
      using that(1) unfolding that(4) read_trajectory_log [OF imp] pops
      by (auto simp: filter_segment_view_def)
    have "view_complete ?V" using validated_view [OF wm(2) _ that(2,3)] pre by blast
    from view_complete_indices [OF this] show ?thesis
      using sort_key_indices [of ?V] by (simp add: out)
  qed
  then show ?thesis using Inr imp al by (fastforce simp: Let_def)
qed

definition sample_data :: segment_data where
  "sample_data =
     \<lparr>sd_uid = Some ''u'', sd_trajectory_id = Some ''t'', sd_session_id = None, sd_turn_id = Some ''1'',
      sd_instance_id = Some ''i'', sd_segment_index = Some 0, sd_segment_count = Some 1, sd_messages = Some [],
      sd_tools = None, sd_tokens = Some [7], sd_full_logprobs = Some (Actual [Fin 0]),
      sd_full_loss_mask = Some [1], sd_aligned_response_length = Some 1, sd_full_versions = None,
      sd_routed_experts_chunks = None, sd_label = PNone, sd_finish_reason = None,
      sd_extra_info = Some [(''segment_view'', PStr ''timeline''), (''finalization_complete'', PBool True),
        (''finalization_id'', PStr ''f'')]\<rparr>"

definition sample_written :: TrajectorySegment where
  "sample_written = (case item_from_dict [] [] [] 0 sample_data of Inr x \<Rightarrow> x | Inl e \<Rightarrow> undefined)"

lemma sample_write_many:
  "fst (write_many sample_lib [([], [], [])] [sample_data] 0 (new_store 1 300)) = Inr [sample_written]"
  by (simp add: write_many_def sample_written_def sample_data_def item_from_dict_def opt_or_def need_def
      built_length_ok_def Let_def validate_finalized_batch_def marked_def dmem_def pget_def
      item_segment_view_def item_view_def group_by_def group_append_def view_complete_def)

theorem finalized_batch_published_whole_witness:
  "case fst (write_many sample_lib [([], [], [])] [sample_data] 0 (new_store 1 300)) of
      Inl e \<Rightarrow> snd (write_many sample_lib [([], [], [])] [sample_data] 0 (new_store 1 300)) = new_store 1 300
    | Inr items \<Rightarrow> implements ([] @ items) (snd (write_many sample_lib [([], [], [])] [sample_data] 0 (new_store 1 300))) \<and>
        (\<forall>v\<in>{''lineage'', ''timeline''}. \<forall>x\<in>set items. item_segment_view sample_lib x = Some v \<longrightarrow>
          (let out = read_trajectory sample_lib ''t'' None (Some v)
                       (snd (write_many sample_lib [([], [], [])] [sample_data] 0 (new_store 1 300))) in
           map ti_segment_index out = map int [0..<length out] \<and>
           set out = {y \<in> set items. item_segment_view sample_lib y = Some v} \<and>
           (\<forall>y\<in>set out. ti_segment_count y = int (length out) \<and>
              length (ti_full_loss_mask y) = length (ti_tokens y) \<and>
              built_length_ok (length (ti_tokens y)) (ti_full_logprobs y))))"
proof (rule finalized_batch_published_whole [OF implements_new prod.collapse [symmetric]])
  fix items
  assume "fst (write_many sample_lib [([], [], [])] [sample_data] 0 (new_store 1 300)) = Inr items"
  then have "items = [sample_written]" unfolding sample_write_many by simp
  then show "list_ex marked items \<and> distinct (map ti_uid ([] @ items)) \<and>
      (\<forall>x\<in>set items. ti_trajectory_id x = ''t'') \<and> (\<forall>x\<in>set []. ti_trajectory_id x \<noteq> ''t'')"
    by (simp add: sample_written_def sample_data_def item_from_dict_def opt_or_def need_def
        built_length_ok_def marked_def dmem_def)
qed

end
