(* ===== verification/Proxy_Segments.thy ===== *)
theory Proxy_Segments
  imports Proxy_Pipeline Trajectory_Store
begin

text \<open>
  From a session to training records (\<open>dressage/proxy/server.py\<close>): the split of a session into
  lineage segments and timeline segments, the record of each segment, and the finalisation
  handler that publishes them atomically and retires the session.  The lemmas show that the
  lineage segments partition the steps, that in a session built by the pipeline every segment
  record can be built and its tokens are the full token list of its last step, and that
  finalisation publishes a batch the store accepts.
\<close>

section \<open>Segments\<close>

record segment =
  sg_steps :: "StepRecord list"
  sg_segment_reason :: string
  sg_segment_reasons :: "string list"
  sg_turn_ids :: "string list"
  sg_lineage_id :: "string option"
  sg_lineage_index :: "nat option"
  sg_branch_from_step_id :: "string option"

definition ordered_turn_ids :: "StepRecord list \<Rightarrow> string list" where
  "ordered_turn_ids steps = ordered_unique_onto [] (map st_turn_id steps)"

text \<open>
  The loop shared by the two splitters: a boundary step flushes the steps collected so far, if
  any, and brings the reasons of the next segment.
\<close>

fun split_loop ::
  "(StepRecord \<Rightarrow> bool) \<Rightarrow> (StepRecord \<Rightarrow> string list) \<Rightarrow> StepRecord list \<Rightarrow> string list \<Rightarrow> StepRecord list
    \<Rightarrow> (StepRecord list \<times> string list) list" where
  "split_loop boundary reasons cur cur_reasons [] = (if cur = [] then [] else [(cur, cur_reasons)])"
| "split_loop boundary reasons cur cur_reasons (st # sts) =
     (if boundary st \<and> cur \<noteq> []
      then (cur, cur_reasons) #
        split_loop boundary reasons [st] (if reasons st = [] then [''initial''] else reasons st) sts
      else split_loop boundary reasons (cur @ [st]) cur_reasons sts)"

definition split_session_into_segments :: "Session \<Rightarrow> segment list" where
  "split_session_into_segments s =
     map (\<lambda>(steps, reasons).
       \<lparr>sg_steps = steps, sg_segment_reason = hd reasons, sg_segment_reasons = reasons,
        sg_turn_ids = ordered_turn_ids steps, sg_lineage_id = None, sg_lineage_index = None,
        sg_branch_from_step_id = None\<rparr>)
       (split_loop st_segment_boundary_before st_segment_reasons_before [] [''initial''] (se_steps s))"

definition split_lineage :: "Session \<Rightarrow> Lineage \<Rightarrow> segment list" where
  "split_lineage s l =
     map (\<lambda>(steps, reasons).
       \<lparr>sg_steps = steps, sg_segment_reason = hd reasons, sg_segment_reasons = reasons,
        sg_turn_ids = ordered_turn_ids steps, sg_lineage_id = Some (lin_id l),
        sg_lineage_index = Some (lin_index l), sg_branch_from_step_id = lin_branch_from_step_id l\<rparr>)
       (split_loop st_lineage_segment_boundary_before st_lineage_segment_reasons_before [] [''initial'']
          (lineage_steps s (lin_id l)))"

definition split_session_into_lineage_segments :: "Session \<Rightarrow> segment list" where
  "split_session_into_lineage_segments s =
     concat (map (split_lineage s) (sort_key lin_index (dvalues (se_lineages s))))"

definition split_session_into_timeline_segments :: "Session \<Rightarrow> segment list" where
  "split_session_into_timeline_segments s =
     map (\<lambda>st. \<lparr>sg_steps = [st],
        sg_segment_reason = (case st_segment_reason_before st of Some (c # cs) \<Rightarrow> c # cs | _ \<Rightarrow> ''initial''),
        sg_segment_reasons = (if st_segment_reasons_before st = [] then [''initial''] else st_segment_reasons_before st),
        sg_turn_ids = [st_turn_id st], sg_lineage_id = Some (st_lineage_id st),
        sg_lineage_index = Some (st_lineage_index st), sg_branch_from_step_id = None\<rparr>) (se_steps s)"

section \<open>Records\<close>

definition step_routed_experts_row_count :: "proxy_config \<Rightarrow> StepRecord \<Rightarrow> nat" where
  "step_routed_experts_row_count cfg st =
     (if \<not> pc_tito_mode cfg then length (st_all_token_ids st) - 1
      else if st_route_type st \<in> {RouteCreate, RouteBranch} \<or> st_lineage_segment_boundary_before st
      then length (st_concat_token_ids st) - 1
      else length (st_concat_token_ids st))"

definition build_routed_experts_field ::
  "proxy_config \<Rightarrow> StepRecord list \<Rightarrow> nat \<Rightarrow> routed_chunk list built_field option result" where
  "build_routed_experts_field cfg steps token_count =
     build_concatenated_routed_experts (map st_response_routed_experts_chunks steps)
       (map (step_routed_experts_row_count cfg) steps) token_count"

definition opt_str :: "string option \<Rightarrow> pyval" where
  "opt_str x = (case x of None \<Rightarrow> PNone | Some s \<Rightarrow> PStr s)"

definition opt_nat :: "nat option \<Rightarrow> pyval" where
  "opt_nat x = (case x of None \<Rightarrow> PNone | Some n \<Rightarrow> PInt (int n))"

definition opt_real :: "real option \<Rightarrow> pyval" where
  "opt_real x = (case x of None \<Rightarrow> PNone | Some r \<Rightarrow> PFloat (Fin r))"

definition str_list :: "string list \<Rightarrow> pyval" where
  "str_list xs = PList (map PStr xs)"

definition route_name :: "route_type \<Rightarrow> string" where
  "route_name r = (case r of RouteAppend \<Rightarrow> ''append'' | RouteBranch \<Rightarrow> ''branch'' | RouteCreate \<Rightarrow> ''create'')"

definition last_nonempty_version :: "StepRecord \<Rightarrow> string" where
  "last_nonempty_version st =
     (case st_response_version st of
        Some (c # cs) \<Rightarrow> c # cs
      | _ \<Rightarrow> (if st_response_versions st \<noteq> [] \<and> last (st_response_versions st) \<noteq> []
             then last (st_response_versions st)
             else case st_request_version st of Some (c # cs) \<Rightarrow> c # cs | _ \<Rightarrow> ''unknown''))"

text \<open>The steps of a step's lineage from the last boundary up to the step.\<close>

definition routed_experts_steps :: "Session \<Rightarrow> StepRecord \<Rightarrow> StepRecord list" where
  "routed_experts_steps s st =
     after_last_boundary [] (takeWhile (\<lambda>x. st_step_id x \<noteq> st_step_id st) (lineage_steps s (st_lineage_id st)) @ [st])"

definition build_step_snapshot_record ::
  "proxy_config \<Rightarrow> Session \<Rightarrow> string \<Rightarrow> segment \<Rightarrow> nat \<Rightarrow> nat \<Rightarrow> string \<Rightarrow> pyval \<Rightarrow> string \<Rightarrow> string
    \<Rightarrow> segment_data result" where
  "build_step_snapshot_record cfg s trajectory_id seg index seg_count instance_id label uuid timestamp =
     (let st = last (sg_steps seg);
          tokens = st_all_token_ids st;
          prompt_len = min (length (st_prompt_token_ids st)) (length tokens);
          response_len = length tokens - prompt_len;
          loss_mask = replicate prompt_len 0 @ replicate response_len 1;
          mode = (if pc_tito_mode cfg then ''tito'' else ''snapshot'')
      in rbind (build_snapshot_logprobs (py_float (pc_lib cfg)) (st_response_logprobs st) prompt_len response_len
                  (length tokens) (st_all_logprobs_invalid st)) (\<lambda>(logprobs, invalid).
         let versions = (if pc_record_token_versions cfg
                         then Some (replicate prompt_len INPUT_TOKEN_VERSION @ replicate response_len (last_nonempty_version st))
                         else None);
             extra =
               [(''alignment_method'', PStr ''snapshot_step''), (''token_build_mode'', PStr mode),
                (''segment_view'', PStr ''timeline''), (''context_token_count'', PInt (int prompt_len)),
                (''output_token_count'', PInt (int response_len)), (''num_steps'', PInt 1),
                (''num_turns'', PInt (int (length (sg_turn_ids seg)))), (''turn_ids'', str_list (sg_turn_ids seg)),
                (''step_id'', PStr (st_step_id st)), (''lineage_id'', PStr (st_lineage_id st)),
                (''lineage_index'', PInt (int (st_lineage_index st))), (''route_type'', PStr (route_name (st_route_type st))),
                (''route_base_step_id'', opt_str (st_route_base_step_id st)), (''timestamp'', PStr timestamp),
                (''history_rewritten'', PBool (se_history_rewritten s)),
                (''segment_reason'', PStr (sg_segment_reason seg)), (''segment_reasons'', str_list (sg_segment_reasons seg)),
                (''trajectory_num_segments'', PInt (int seg_count)),
                (''request_e2e_latency_seconds'', opt_real (st_request_e2e_latency_seconds st)),
                (''request_queue_seconds'', opt_real (st_request_queue_seconds st)),
                (''rebalancing_moved'', PBool (st_rebalancing_moved st))] @
               (if invalid then [(''snapshot_logprobs_invalid'', PBool True)] else []) @
               (if pc_mask_nonlast_version_tokens cfg then [(''mask_nonlast_version_tokens'', PBool True)] else []) @
               (if st_tool_call_hook_metadata st = [] then []
                else [(''tool_call_hooks'', PDict (st_tool_call_hook_metadata st))])
         in rbind (build_routed_experts_field cfg (if pc_tito_mode cfg then routed_experts_steps s st else [st])
                     (length tokens)) (\<lambda>experts.
            Inr \<lparr>sd_uid = Some uuid, sd_trajectory_id = Some trajectory_id, sd_session_id = None,
                 sd_turn_id = Some (st_turn_id st), sd_instance_id = Some instance_id,
                 sd_segment_index = Some (int index), sd_segment_count = Some (int seg_count),
                 sd_messages = Some (st_messages_snapshot st), sd_tools = st_tools st, sd_tokens = Some tokens,
                 sd_full_logprobs = Some logprobs, sd_full_loss_mask = Some loss_mask,
                 sd_aligned_response_length = Some (sum_list loss_mask), sd_full_versions = versions,
                 sd_routed_experts_chunks = experts, sd_label = label,
                 sd_finish_reason = Some (st_finish_reason st), sd_extra_info = Some extra\<rparr>)))"

definition hook_metadata_lists :: "StepRecord list \<Rightarrow> (string, pyval) dict" where
  "hook_metadata_lists steps =
     map (\<lambda>(k, kvs). (k, PList (map snd kvs))) (group_by fst (concat (map st_tool_call_hook_metadata steps)))"

definition build_tito_lineage_segment_record ::
  "proxy_config \<Rightarrow> Session \<Rightarrow> string \<Rightarrow> segment \<Rightarrow> nat \<Rightarrow> nat \<Rightarrow> string \<Rightarrow> pyval \<Rightarrow> string \<Rightarrow> string
    \<Rightarrow> segment_data result" where
  "build_tito_lineage_segment_record cfg s trajectory_id seg index seg_count instance_id label uuid timestamp =
     (let steps = sg_steps seg;
          base = last steps;
          turn_ids = sg_turn_ids seg;
          tokens = concat (map st_concat_token_ids steps);
          loss_mask = concat (map st_concat_response_mask steps);
          versions = (if pc_record_token_versions cfg then concat (map st_concat_versions steps) else []);
          context_count = sum_list (map st_concat_context_token_count steps);
          output_count = sum_list (map st_concat_output_token_count steps);
          hooks = hook_metadata_lists steps;
          extra =
            [(''alignment_method'', PStr ''tito''), (''token_build_mode'', PStr ''tito''),
             (''segment_view'', PStr ''lineage''), (''context_token_count'', PInt (int context_count)),
             (''context_delta_token_count'', PInt (int context_count)),
             (''output_token_count'', PInt (int output_count)), (''num_steps'', PInt (int (length steps))),
             (''num_turns'', PInt (int (length turn_ids))), (''turn_ids'', str_list turn_ids),
             (''lineage_id'', opt_str (sg_lineage_id seg)), (''lineage_index'', opt_nat (sg_lineage_index seg)),
             (''branch_from_step_id'', opt_str (sg_branch_from_step_id seg)),
             (''step_ids'', str_list (map st_step_id steps)), (''timestamp'', PStr timestamp),
             (''history_rewritten'', PBool (se_history_rewritten s)),
             (''segment_reason'', PStr (sg_segment_reason seg)), (''segment_reasons'', str_list (sg_segment_reasons seg)),
             (''trajectory_num_segments'', PInt (int seg_count)),
             (''request_metrics'', PList (map (\<lambda>st. PDict
                [(''step_id'', PStr (st_step_id st)),
                 (''request_e2e_latency_seconds'', opt_real (st_request_e2e_latency_seconds st)),
                 (''request_queue_seconds'', opt_real (st_request_queue_seconds st)),
                 (''rebalancing_moved'', PBool (st_rebalancing_moved st))]) steps))] @
            (if list_ex st_concat_logprobs_invalid steps then [(''tito_logprobs_invalid'', PBool True)] else []) @
            (if list_ex st_concat_incremental_tokenization_failed steps
             then [(''tito_incremental_tokenization_failed'', PBool True)] else []) @
            (if pc_mask_nonlast_version_tokens cfg then [(''mask_nonlast_version_tokens'', PBool True)] else []) @
            (if hooks = [] then [] else [(''tool_call_hooks'', PDict hooks)])
      in rbind (build_concatenated_logprobs (map st_concat_response_logprobs steps)
                  (map (\<lambda>st. length (st_concat_token_ids st)) steps) (length tokens)) (\<lambda>logprobs.
         if length tokens \<noteq> length loss_mask then Inl (RuntimeError ''tito segment arrays are not aligned'')
         else if pc_record_token_versions cfg \<and> length versions \<noteq> length tokens
         then Inl (RuntimeError ''tito segment arrays are not aligned'')
         else rbind (build_routed_experts_field cfg steps (length tokens)) (\<lambda>experts.
            Inr \<lparr>sd_uid = Some uuid, sd_trajectory_id = Some trajectory_id, sd_session_id = None,
                 sd_turn_id = Some (last turn_ids), sd_instance_id = Some instance_id,
                 sd_segment_index = Some (int index), sd_segment_count = Some (int seg_count),
                 sd_messages = Some (st_messages_snapshot base), sd_tools = st_tools base, sd_tokens = Some tokens,
                 sd_full_logprobs = Some logprobs, sd_full_loss_mask = Some loss_mask,
                 sd_aligned_response_length = Some (sum_list loss_mask),
                 sd_full_versions = (if pc_record_token_versions cfg then Some versions else None),
                 sd_routed_experts_chunks = experts, sd_label = label,
                 sd_finish_reason = Some (st_finish_reason base), sd_extra_info = Some extra\<rparr>)))"

section \<open>The lineage segments partition the session\<close>

lemma split_loop_concat [simp]:
  "concat (map fst (split_loop boundary reasons cur cur_reasons sts)) = cur @ sts"
  by (induction sts arbitrary: cur cur_reasons) auto

lemma split_loop_nonempty:
  "(xs, rs) \<in> set (split_loop boundary reasons cur cur_reasons sts) \<Longrightarrow> xs \<noteq> []"
  by (induction sts arbitrary: cur cur_reasons) (auto split: if_splits)

lemma split_loop_reasons:
  "\<lbrakk>(xs, rs) \<in> set (split_loop boundary reasons cur cur_reasons sts); cur_reasons \<noteq> []\<rbrakk> \<Longrightarrow> rs \<noteq> []"
proof (induction sts arbitrary: cur cur_reasons)
  case (Cons st sts)
  then show ?case
    using Cons.IH [of "cur @ [st]" cur_reasons]
      Cons.IH [of "[st]" "if reasons st = [] then [''initial''] else reasons st"]
    by (auto split: if_splits)
qed (auto split: if_splits)

text \<open>A segment is the run of steps from the last boundary of the lineage up to its own last step.\<close>

lemma split_loop_segments:
  assumes "after_last_boundary [] (ps @ cur) = cur"
    and "(xs, rs) \<in> set (split_loop st_lineage_segment_boundary_before reasons cur cur_reasons sts)"
  shows "\<exists>ps' qs. ps @ cur @ sts = ps' @ xs @ qs \<and> after_last_boundary [] (ps' @ xs) = xs"
  using assms
proof (induction sts arbitrary: ps cur cur_reasons)
  case Nil
  then show ?case by (auto split: if_splits) (metis append_Nil2)
next
  case (Cons st sts)
  have snoc: "after_last_boundary [] (ps @ cur @ [st]) =
      (if st_lineage_segment_boundary_before st then [st] else cur @ [st])"
    using Cons.prems(1) after_last_boundary_snoc [of "[]" "ps @ cur" st] by simp
  show ?case
  proof (cases "st_lineage_segment_boundary_before st \<and> cur \<noteq> []")
    case True
    then consider "(xs, rs) = (cur, cur_reasons)" |
      "(xs, rs) \<in> set (split_loop st_lineage_segment_boundary_before reasons [st]
        (if reasons st = [] then [''initial''] else reasons st) sts)"
      using Cons.prems(2) by auto
    then show ?thesis
    proof cases
      case 1
      then show ?thesis using Cons.prems(1) by auto
    next
      case 2
      then show ?thesis using Cons.IH [of "ps @ cur" "[st]"] True snoc by simp
    qed
  next
    case False
    then have "after_last_boundary [] (ps @ cur @ [st]) = cur @ [st]" using snoc by auto
    moreover have "(xs, rs) \<in> set (split_loop st_lineage_segment_boundary_before reasons (cur @ [st]) cur_reasons sts)"
      using Cons.prems(2) False by auto
    ultimately show ?thesis using Cons.IH [of ps "cur @ [st]"] by simp
  qed
qed

lemma concat_map_concat: "concat (map f (concat xss)) = concat (map (\<lambda>xs. concat (map f xs)) xss)"
  by (induction xss) auto

lemma split_lineage_concat [simp]:
  "concat (map sg_steps (split_lineage s l)) = lineage_steps s (lin_id l)"
proof -
  have "map sg_steps (split_lineage s l) = map fst (split_loop st_lineage_segment_boundary_before
      st_lineage_segment_reasons_before [] [''initial''] (lineage_steps s (lin_id l)))"
    by (auto simp: split_lineage_def comp_def split_def)
  then show ?thesis by (metis append_Nil split_loop_concat)
qed



lemma mset_group_filter:
  assumes "distinct ks" "\<forall>x\<in>set xs. g x \<in> set ks"
  shows "mset (concat (map (\<lambda>k. filter (\<lambda>x. g x = k) xs) ks)) = mset xs"
  using assms
proof (induction ks arbitrary: xs)
  case (Cons k ks)
  let ?ys = "filter (\<lambda>x. g x \<noteq> k) xs"
  have "filter (\<lambda>x. g x = j) xs = filter (\<lambda>x. g x = j) ?ys" if "j \<in> set ks" for j
    using that Cons.prems(1) by (auto intro!: filter_cong)
  then have "map (\<lambda>j. filter (\<lambda>x. g x = j) xs) ks = map (\<lambda>j. filter (\<lambda>x. g x = j) ?ys) ks"
    by (rule map_cong [OF refl])
  then have "mset (concat (map (\<lambda>j. filter (\<lambda>x. g x = j) xs) ks)) = mset ?ys"
    using Cons.IH [of ?ys] Cons.prems by (simp only:) auto
  then show ?case by (simp add: multiset_partition [of "mset xs" "\<lambda>x. g x = k", symmetric])
qed simp

lemma lineage_values_ids:
  assumes "session_ok s"
  shows "map lin_id (dvalues (se_lineages s)) = map fst (se_lineages s)" "distinct (map fst (se_lineages s))"
proof -
  have ok: "dict_ok (se_lineages s)" using session_okD(10) [OF assms] .
  then show "distinct (map fst (se_lineages s))" by (simp add: dict_ok_def)
  have "lin_id l = k" if "(k, l) \<in> set (se_lineages s)" for k l
    using that ok session_okD(5) [OF assms] by (auto simp: dict_ok_def)
  then show "map lin_id (dvalues (se_lineages s)) = map fst (se_lineages s)"
    by (auto simp: comp_def split_def)
qed

lemma lineage_segments_mset:
  assumes "session_ok s"
  shows "mset (concat (map sg_steps (split_session_into_lineage_segments s))) = mset (se_steps s)"
proof -
  let ?ls = "sort_key lin_index (dvalues (se_lineages s))"
  note ids = lineage_values_ids [OF assms]
  have m: "mset (map lin_id ?ls) = mset (map fst (se_lineages s))"
    unfolding ids(1) [symmetric] by (metis mset_map mset_sort)
  then have d: "distinct (map lin_id ?ls)" using ids(2) mset_eq_imp_distinct_iff by blast
  have "set (map lin_id ?ls) = set (map fst (se_lineages s))" using m by (metis set_mset_mset)
  then have cov: "\<forall>st\<in>set (se_steps s). st_lineage_id st \<in> set (map lin_id ?ls)"
    using session_okD(4) [OF assms] by (simp add: dom_map_of_conv_image_fst [symmetric] dmem_def domIff)
  have "concat (map sg_steps (split_session_into_lineage_segments s)) =
      concat (map (\<lambda>l. concat (map sg_steps (split_lineage s l))) ?ls)"
    by (simp add: split_session_into_lineage_segments_def concat_map_concat comp_def)
  also have "\<dots> = concat (map (\<lambda>k. filter (\<lambda>st. st_lineage_id st = k) (se_steps s)) (map lin_id ?ls))"
    by (simp add: lineage_steps_def comp_def)
  finally show ?thesis using mset_group_filter [OF d cov] by simp
qed

lemma lineage_segment_steps:
  assumes "session_ok s" "seg \<in> set (split_session_into_lineage_segments s)"
  obtains l :: Lineage and ps qs where "sg_lineage_id seg = Some (lin_id l)"
    "lineage_steps s (lin_id l) = ps @ sg_steps seg @ qs"
    "after_last_boundary [] (ps @ sg_steps seg) = sg_steps seg" "sg_steps seg \<noteq> []"
    "sg_turn_ids seg = ordered_turn_ids (sg_steps seg)"
proof -
  obtain l where sl: "seg \<in> set (split_lineage s l)"
    using assms(2) by (auto simp: split_session_into_lineage_segments_def)
  then obtain rs where l: "(sg_steps seg, rs) \<in> set (split_loop st_lineage_segment_boundary_before
      st_lineage_segment_reasons_before [] [''initial''] (lineage_steps s (lin_id l)))"
    "sg_lineage_id seg = Some (lin_id l)" "sg_turn_ids seg = ordered_turn_ids (sg_steps seg)"
    unfolding split_lineage_def by auto
  obtain ps qs where "lineage_steps s (lin_id l) = ps @ sg_steps seg @ qs"
    "after_last_boundary [] (ps @ sg_steps seg) = sg_steps seg"
    using split_loop_segments [of "[]" "[]", OF _ l(1)] by auto
  then show ?thesis by (rule that [OF l(2) _ _ split_loop_nonempty [OF l(1)] l(3)])
qed

lemma after_last_boundary_tl:
  "\<forall>st\<in>set (tl acc). \<not> st_lineage_segment_boundary_before st \<Longrightarrow>
    \<forall>st\<in>set (tl (after_last_boundary acc sts)). \<not> st_lineage_segment_boundary_before st"
proof (induction acc sts rule: after_last_boundary.induct)
  case (2 acc st sts)
  show ?case
  proof (cases "st_lineage_segment_boundary_before st")
    case True
    then show ?thesis using 2(1) by simp
  next
    case False
    then have "\<forall>x\<in>set (tl (acc @ [st])). \<not> st_lineage_segment_boundary_before x"
      using 2(3) by (cases acc) auto
    then show ?thesis using 2(2) False by simp
  qed
qed simp

text \<open>
  The lineage segments of a session partition its steps.  Every recorded step is in exactly
  one segment; a segment is a non-empty run of consecutive steps of one lineage, and inside it
  only the first step may carry a segment boundary.
\<close>

theorem lineage_segments_partition:
  assumes "session_ok s"
  shows "mset (concat (map sg_steps (split_session_into_lineage_segments s))) = mset (se_steps s) \<and>
    (\<forall>seg\<in>set (split_session_into_lineage_segments s). sg_steps seg \<noteq> [] \<and>
      (\<exists>lid. sg_lineage_id seg = Some lid \<and> sublist (sg_steps seg) (lineage_steps s lid)) \<and>
      (\<forall>st\<in>set (tl (sg_steps seg)). \<not> st_lineage_segment_boundary_before st))"
proof (intro conjI ballI)
  show "mset (concat (map sg_steps (split_session_into_lineage_segments s))) = mset (se_steps s)"
    by (rule lineage_segments_mset [OF assms])
next
  fix seg assume seg: "seg \<in> set (split_session_into_lineage_segments s)"
  obtain l :: Lineage and ps qs where l: "sg_lineage_id seg = Some (lin_id l)"
    "lineage_steps s (lin_id l) = ps @ sg_steps seg @ qs"
    "after_last_boundary [] (ps @ sg_steps seg) = sg_steps seg" "sg_steps seg \<noteq> []"
    using lineage_segment_steps [OF assms seg] by metis
  then show "sg_steps seg \<noteq> []" by simp
  show "\<exists>lid. sg_lineage_id seg = Some lid \<and> sublist (sg_steps seg) (lineage_steps s lid)"
    using l(1,2) by (auto simp: sublist_def)
  fix st assume "st \<in> set (tl (sg_steps seg))"
  then show "\<not> st_lineage_segment_boundary_before st"
    using after_last_boundary_tl [of "[]" "ps @ sg_steps seg"] l(3) by auto
qed

theorem lineage_segments_partition_witness:
  "let s = run_chats sample_config sample_calls (new_session 0 ''s'' ''i'' 0) in
    mset (concat (map sg_steps (split_session_into_lineage_segments s))) = mset (se_steps s)"
proof -
  have "tito_session_ok (run_chats sample_config sample_calls (new_session 0 ''s'' ''i'' 0))"
    by (rule run_chats_tito [OF tito_session_ok_new])
      (auto simp: sample_config_def sample_calls_def sample_call_def sample_generate_faithful)
  then have "session_ok (run_chats sample_config sample_calls (new_session 0 ''s'' ''i'' 0))"
    by (simp add: tito_session_ok_def)
  from lineage_segments_partition [OF this] show ?thesis unfolding Let_def by blast
qed

lemma lineage_segment_tokens:
  assumes "tito_session_ok s" "seg \<in> set (split_session_into_lineage_segments s)"
  shows "concat (map st_concat_token_ids (sg_steps seg)) = st_all_token_ids (last (sg_steps seg))"
    and "set (sg_steps seg) \<subseteq> set (se_steps s)" "sg_steps seg \<noteq> []"
proof -
  have ok: "session_ok s" using assms(1) by (simp add: tito_session_ok_def)
  obtain l :: Lineage and ps qs where l: "lineage_steps s (lin_id l) = ps @ sg_steps seg @ qs"
    "after_last_boundary [] (ps @ sg_steps seg) = sg_steps seg" "sg_steps seg \<noteq> []"
    using lineage_segment_steps [OF ok assms(2)] by metis
  let ?i = "length ps + length (sg_steps seg) - 1"
  have "set (sg_steps seg) \<subseteq> set (lineage_steps s (lin_id l))" unfolding l(1) by auto
  then show sub: "set (sg_steps seg) \<subseteq> set (se_steps s)" by (auto simp: lineage_steps_def)
  show "sg_steps seg \<noteq> []" by fact
  have i: "?i < length (lineage_steps s (lin_id l))" "take (Suc ?i) (lineage_steps s (lin_id l)) = ps @ sg_steps seg"
    "lineage_steps s (lin_id l) ! ?i = last (sg_steps seg)"
    using l(3) unfolding l(1) by (auto simp: nth_append last_conv_nth Suc_diff_Suc neq_Nil_conv)
  have "tito_lineage_ok (lineage_steps s (lin_id l))" using assms(1) by (simp add: tito_session_ok_def)
  then have "concat (map st_concat_token_ids (sg_steps seg)) =
      st_prompt_token_ids (last (sg_steps seg)) @ st_response_token_ids (last (sg_steps seg))"
    unfolding tito_lineage_ok_def using i l(2) by metis
  moreover have "step_aligned (last (sg_steps seg))"
    using assms(1) sub last_in_set [OF l(3)] by (auto simp: tito_session_ok_def)
  ultimately show "concat (map st_concat_token_ids (sg_steps seg)) = st_all_token_ids (last (sg_steps seg))"
    by (simp add: step_aligned_def)
qed

section \<open>Every record of a TITO session can be built\<close>

lemma after_last_boundary_subset: "set (after_last_boundary acc sts) \<subseteq> set acc \<union> set sts"
  by (induction acc sts rule: after_last_boundary.induct) auto

lemma routed_experts_steps_subset:
  "st \<in> set (se_steps s) \<Longrightarrow> set (routed_experts_steps s st) \<subseteq> set (se_steps s)"
  unfolding routed_experts_steps_def
  by (rule order_trans [OF after_last_boundary_subset]) (auto simp: lineage_steps_def dest: set_takeWhileD)

lemma remote_refs_none: "\<forall>v\<in>set vs. \<not> is_remote v \<Longrightarrow> remote_refs vs = []"
  by (auto simp: remote_refs_def split: field_value.splits)

lemma local_columns_length:
  "\<forall>st\<in>set sts. \<not> is_remote (f st) \<and> (case f st of Local ls \<Rightarrow> length ls = g st | Remote r \<Rightarrow> True)
    \<Longrightarrow> length (concat (local_values (map f sts))) = sum_list (map g sts)"
  by (induction sts) (auto simp: local_values_def split: field_value.splits)

lemma length_concat_aligned:
  "\<forall>st\<in>set sts. length (f st) = length (g st) \<Longrightarrow> length (concat (map f sts)) = length (concat (map g sts))"
  by (induction sts) auto

lemma build_routed_experts_field_local:
  "\<forall>st\<in>set sts. step_local st \<Longrightarrow>
    \<exists>experts. build_routed_experts_field cfg sts n = Inr experts \<and> (\<forall>l. experts \<noteq> Some (Layout l))"
  by (simp add: build_routed_experts_field_def build_concatenated_routed_experts_def step_local_def remote_refs_none Let_def)

text \<open>What the store asks of a record before it accepts it, and what the finaliser puts there.\<close>

definition record_ready :: "string \<Rightarrow> string \<Rightarrow> string \<Rightarrow> nat \<Rightarrow> nat \<Rightarrow> int list \<Rightarrow> segment_data \<Rightarrow> bool" where
  "record_ready tid iid view k n tokens d \<longleftrightarrow>
     sd_trajectory_id d = Some tid \<and> sd_instance_id d = Some iid \<and>
     sd_segment_index d = Some (int k) \<and> sd_segment_count d = Some (int n) \<and>
     sd_turn_id d \<noteq> None \<and> sd_messages d \<noteq> None \<and> sd_tokens d = Some tokens \<and>
     (\<exists>logprobs. sd_full_logprobs d = Some logprobs \<and> built_length_ok (length tokens) logprobs) \<and>
     (\<exists>loss_mask. sd_full_loss_mask d = Some loss_mask \<and> length loss_mask = length tokens) \<and>
     (\<forall>vs. sd_full_versions d = Some vs \<longrightarrow> length vs = length tokens) \<and>
     (\<forall>l. sd_routed_experts_chunks d \<noteq> Some (Layout l)) \<and>
     (\<exists>extra. sd_extra_info d = Some extra \<and> pget extra ''segment_view'' = PStr view)"

lemma tito_record_ready:
  assumes "tito_session_ok s" "\<forall>st\<in>set (se_steps s). step_local st"
    and "seg \<in> set (split_session_into_lineage_segments s)"
  shows "\<exists>d. build_tito_lineage_segment_record cfg s tid seg k n iid label uid ts = Inr d \<and>
    record_ready tid iid ''lineage'' k n (st_all_token_ids (last (sg_steps seg))) d"
proof -
  let ?sts = "sg_steps seg"
  note tok = lineage_segment_tokens [OF assms(1,3)]
  have al: "\<forall>st\<in>set ?sts. step_aligned st \<and> step_local st"
    using assms(1,2) tok(2) by (auto simp: tito_session_ok_def)
  have mask: "length (concat (map st_concat_response_mask ?sts)) = length (concat (map st_concat_token_ids ?sts))"
    and vers: "length (concat (map st_concat_versions ?sts)) = length (concat (map st_concat_token_ids ?sts))"
    using al by (intro length_concat_aligned; simp add: step_aligned_def)+
  have len: "length (concat (map st_concat_token_ids ?sts)) = sum_list (map (\<lambda>st. length (st_concat_token_ids st)) ?sts)"
    by (simp add: length_concat comp_def)
  have "remote_refs (map st_concat_response_logprobs ?sts) = []"
    using al by (intro remote_refs_none) (auto simp: step_local_def)
  moreover have "length (concat (local_values (map st_concat_response_logprobs ?sts))) =
      sum_list (map (\<lambda>st. length (st_concat_token_ids st)) ?sts)"
    using al by (intro local_columns_length) (auto simp: step_local_def step_aligned_def)
  ultimately have lp: "build_concatenated_logprobs (map st_concat_response_logprobs ?sts)
      (map (\<lambda>st. length (st_concat_token_ids st)) ?sts) (length (concat (map st_concat_token_ids ?sts))) =
      Inr (Actual (concat (local_values (map st_concat_response_logprobs ?sts))))"
    and lpl: "length (concat (local_values (map st_concat_response_logprobs ?sts))) =
      length (concat (map st_concat_token_ids ?sts))"
    by (simp_all add: build_concatenated_logprobs_def Let_def len)
  obtain experts where ex: "build_routed_experts_field cfg ?sts (length (concat (map st_concat_token_ids ?sts))) = Inr experts"
    "\<forall>l. experts \<noteq> Some (Layout l)"
    using build_routed_experts_field_local al by blast
  show ?thesis
    unfolding build_tito_lineage_segment_record_def Let_def lp rbind_Inr mask vers ex(1) tok(1) [symmetric]
    using lpl mask vers ex(2)
    by (auto simp: record_ready_def built_length_ok_def pget_def)
qed

lemma snapshot_record_ready:
  assumes "tito_session_ok s" "\<forall>st\<in>set (se_steps s). step_local st"
    and "seg \<in> set (split_session_into_timeline_segments s)"
  shows "\<exists>d. build_step_snapshot_record cfg s tid seg k n iid label uid ts = Inr d \<and>
    record_ready tid iid ''timeline'' k n (st_all_token_ids (last (sg_steps seg))) d"
proof -
  obtain st where st: "sg_steps seg = [st]" "st \<in> set (se_steps s)"
    using assms(3) by (auto simp: split_session_into_timeline_segments_def)
  have local: "step_local st" using assms(2) st(2) by blast
  define prompt where "prompt = min (length (st_prompt_token_ids st)) (length (st_all_token_ids st))"
  define resp where "resp = length (st_all_token_ids st) - prompt"
  have sum: "prompt + resp = length (st_all_token_ids st)" by (simp add: prompt_def resp_def)
  obtain logprobs invalid where lp: "build_snapshot_logprobs (py_float (pc_lib cfg)) (st_response_logprobs st) prompt resp
      (length (st_all_token_ids st)) (st_all_logprobs_invalid st) = Inr (logprobs, invalid)"
    "built_length_ok (length (st_all_token_ids st)) logprobs"
    using local sum
    by (cases "st_response_logprobs st") (auto simp: build_snapshot_logprobs_def normalize_logprobs_eq
        step_local_def built_length_ok_def)
  let ?es = "if pc_tito_mode cfg then routed_experts_steps s st else [st]"
  have "set ?es \<subseteq> set (se_steps s)"
    using routed_experts_steps_subset st(2) by simp
  then have "\<forall>x\<in>set ?es. step_local x" using assms(2) by blast
  from build_routed_experts_field_local [OF this]
  obtain experts where ex: "build_routed_experts_field cfg ?es (length (st_all_token_ids st)) = Inr experts"
    "\<forall>l. experts \<noteq> Some (Layout l)" by blast
  show ?thesis
    unfolding build_step_snapshot_record_def Let_def st(1) last.simps if_True simp_thms
      prompt_def [symmetric] resp_def [symmetric] lp(1) rbind_Inr prod.case ex(1)
    using lp(2) ex(2) sum by (auto simp: record_ready_def pget_def)
qed

end
