(* ===== verification/Tool_Call_Hooks.thy ===== *)
theory Tool_Call_Hooks
  imports Prelude
begin

text \<open>
  Side-effect hooks around tool calls (\<open>dressage/proxy/tool_call_hooks.py\<close> and the dispatchers
  of \<open>dressage/proxy/server.py\<close>).  A hook is user code: its class attributes are a record and
  its three methods are functions from the context to an outcome, parameters of the model.  The
  chain keeps, per session, the idempotency keys it has dispatched with the time of the claim
  and evicts expired ones in bounded rounds.  The lemmas show that a key is dispatched at most
  once within its time to live, which hooks run in which order and when a failure aborts the
  request, that keys of different steps differ, and two things the comments of the source deny:
  a failed dispatch stays claimed, and a pruning round always starts at the first session.
\<close>

section \<open>Contexts and hooks\<close>

record ToolCallContext =
  tc_instance_id :: "string option"
  tc_session_id :: string
  tc_turn_id :: "string option"
  tc_step_index :: nat
  tc_sandbox_id :: string
  tc_tool_calls :: "pyval list option"
  tc_idempotency_key :: "string option"

datatype hook_outcome =
    HookDone
  | HookTimeout string string
  | HookFailed string string

text \<open>
  The outcome of a method call carries the exception's qualified type name and its text.  The
  second argument of a method is the limit \<open>asyncio.wait_for\<close> puts on it, \<open>None\<close> for none.
\<close>

record ToolCallHook =
  hk_name :: string
  hk_class :: string
  hk_required :: bool
  hk_order :: int
  hk_applies_to :: "ToolCallContext \<Rightarrow> bool result"
  hk_before :: "ToolCallContext \<Rightarrow> real option \<Rightarrow> hook_outcome"
  hk_after :: "ToolCallContext \<Rightarrow> real option \<Rightarrow> hook_outcome"

datatype hook_stage = StageBefore | StageAfter

definition stage_name :: "hook_stage \<Rightarrow> string" where
  "stage_name g = (case g of StageBefore \<Rightarrow> ''before'' | StageAfter \<Rightarrow> ''after'')"

record hook_failure =
  hf_hook :: string
  hf_stage :: hook_stage
  hf_required :: bool
  hf_error_type :: string
  hf_error_message :: string
  hf_timed_out :: bool
  hf_timeout_seconds :: "real option"

definition DEFAULT_KEY_TTL_SECONDS :: real where
  "DEFAULT_KEY_TTL_SECONDS = 3600"

definition PRUNE_INTERVAL_SECONDS :: real where
  "PRUNE_INTERVAL_SECONDS = 300"

definition PRUNE_MAX_KEYS_PER_ROUND :: nat where
  "PRUNE_MAX_KEYS_PER_ROUND = 10000"

record hook_chain =
  hc_hooks :: "ToolCallHook list"
  hc_before_timeout :: "real option"
  hc_key_ttl_seconds :: "real option"
  hc_seen_keys :: "(string, (string, real) dict) dict"
  hc_last_prune :: real

definition build_tool_call_hook_chain ::
  "ToolCallHook list \<Rightarrow> real option \<Rightarrow> real option \<Rightarrow> real \<Rightarrow> hook_chain option" where
  "build_tool_call_hook_chain hooks before_timeout ttl now =
     (if hooks = [] then None
      else Some \<lparr>hc_hooks = sort_key hk_order hooks, hc_before_timeout = before_timeout,
                 hc_key_ttl_seconds = ttl, hc_seen_keys = [], hc_last_prune = now\<rparr>)"

definition build_tool_call_idempotency_key :: "string \<Rightarrow> string option \<Rightarrow> nat \<Rightarrow> hook_stage \<Rightarrow> string" where
  "build_tool_call_idempotency_key session_id turn_id step_index g =
     session_id @ '':'' @ (case turn_id of Some (c # cs) \<Rightarrow> c # cs | _ \<Rightarrow> ''-'') @ '':'' @
     show_nat step_index @ '':'' @ stage_name g"

section \<open>Idempotency keys\<close>

definition purge_session :: "string \<Rightarrow> hook_chain \<Rightarrow> nat \<times> hook_chain" where
  "purge_session session_id ch =
     (length (dget_or (hc_seen_keys ch) session_id []), ch\<lparr>hc_seen_keys := dpop session_id (hc_seen_keys ch)\<rparr>)"

definition key_expired :: "real option \<Rightarrow> real \<Rightarrow> real \<Rightarrow> bool" where
  "key_expired ttl claimed_at now = (case ttl of None \<Rightarrow> False | Some d \<Rightarrow> now - claimed_at \<ge> d)"

text \<open>One pruning round; the first argument is the number of keys the round may still scan.\<close>

fun prune_keys :: "nat \<Rightarrow> (real \<Rightarrow> bool) \<Rightarrow> (string, real) dict \<Rightarrow> nat \<times> (string, real) dict" where
  "prune_keys n expired [] = (n, [])"
| "prune_keys 0 expired keys = (0, keys)"
| "prune_keys (Suc n) expired ((k, t) # keys) =
     (let (n', keys') = prune_keys n expired keys in (n', if expired t then keys' else (k, t) # keys'))"

fun prune_sessions ::
  "nat \<Rightarrow> (real \<Rightarrow> bool) \<Rightarrow> (string, (string, real) dict) dict \<Rightarrow> (string, (string, real) dict) dict" where
  "prune_sessions n expired [] = []"
| "prune_sessions n expired ((sid, keys) # rest) =
     (if n = 0 then (sid, keys) # rest
      else let (n', keys') = prune_keys n expired keys
           in (if keys' = [] then [] else [(sid, keys')]) @ prune_sessions n' expired rest)"

definition maybe_prune :: "real \<Rightarrow> hook_chain \<Rightarrow> hook_chain" where
  "maybe_prune now ch =
     (if hc_key_ttl_seconds ch = None \<or> now - hc_last_prune ch < PRUNE_INTERVAL_SECONDS then ch
      else ch\<lparr>hc_last_prune := now,
             hc_seen_keys := prune_sessions PRUNE_MAX_KEYS_PER_ROUND
               (\<lambda>t. key_expired (hc_key_ttl_seconds ch) t now) (hc_seen_keys ch)\<rparr>)"

definition claim_idempotency :: "ToolCallContext \<Rightarrow> real \<Rightarrow> hook_chain \<Rightarrow> bool \<times> hook_chain" where
  "claim_idempotency ctx now ch0 =
     (case tc_idempotency_key ctx of
        None \<Rightarrow> (True, ch0)
      | Some [] \<Rightarrow> (True, ch0)
      | Some key \<Rightarrow>
          (let ch = maybe_prune now ch0;
               session_keys = dget_or (hc_seen_keys ch) (tc_session_id ctx) []
           in case dget session_keys key of
                Some claimed_at \<Rightarrow>
                  (if \<not> key_expired (hc_key_ttl_seconds ch) claimed_at now then (False, ch)
                   else (True, ch\<lparr>hc_seen_keys := dset (tc_session_id ctx) (dset key now session_keys) (hc_seen_keys ch)\<rparr>))
              | None \<Rightarrow>
                  (True, ch\<lparr>hc_seen_keys := dset (tc_session_id ctx) (dset key now session_keys) (hc_seen_keys ch)\<rparr>)))"

section \<open>Dispatch\<close>

definition applicable :: "ToolCallContext \<Rightarrow> ToolCallHook list \<Rightarrow> ToolCallHook list" where
  "applicable ctx hooks = filter (\<lambda>h. hk_applies_to h ctx = Inr True) hooks"

definition hook_label :: "ToolCallHook \<Rightarrow> string" where
  "hook_label h = (if hk_name h = [] then hk_class h else hk_name h)"

definition call_hook :: "hook_chain \<Rightarrow> hook_stage \<Rightarrow> ToolCallContext \<Rightarrow> ToolCallHook \<Rightarrow> hook_outcome" where
  "call_hook ch g ctx h =
     (case g of StageBefore \<Rightarrow> hk_before h ctx (hc_before_timeout ch) | StageAfter \<Rightarrow> hk_after h ctx None)"

text \<open>
  \<open>_run_one\<close>: the failure record to append to the stage metadata, if any, and whether the
  request goes on.
\<close>

definition run_one :: "hook_chain \<Rightarrow> hook_stage \<Rightarrow> ToolCallContext \<Rightarrow> ToolCallHook \<Rightarrow> hook_failure list \<times> unit result" where
  "run_one ch g ctx h =
     (let stop = (if hk_required h then Inl (OtherError ''ToolCallHookError'') else Inr ()) in
      case call_hook ch g ctx h of
        HookDone \<Rightarrow> ([], Inr ())
      | HookTimeout ty msg \<Rightarrow>
          ([\<lparr>hf_hook = hook_label h, hf_stage = g, hf_required = hk_required h, hf_error_type = ty,
             hf_error_message = (if msg = [] then ''timeout'' else msg), hf_timed_out = True,
             hf_timeout_seconds = hc_before_timeout ch\<rparr>], stop)
      | HookFailed ty msg \<Rightarrow>
          ([\<lparr>hf_hook = hook_label h, hf_stage = g, hf_required = hk_required h, hf_error_type = ty,
             hf_error_message = (if msg = [] then ''timeout'' else msg), hf_timed_out = False,
             hf_timeout_seconds = None\<rparr>], stop))"

text \<open>The hooks called, the failures recorded and the outcome of one stage.\<close>

fun run_hooks ::
  "hook_chain \<Rightarrow> hook_stage \<Rightarrow> ToolCallContext \<Rightarrow> ToolCallHook list
    \<Rightarrow> ToolCallHook list \<times> hook_failure list \<times> unit result" where
  "run_hooks ch g ctx [] = ([], [], Inr ())"
| "run_hooks ch g ctx (h # hs) =
     (case run_one ch g ctx h of
        (fs, Inl e) \<Rightarrow> ([h], fs, Inl e)
      | (fs, Inr _) \<Rightarrow> (let (called, fs', r) = run_hooks ch g ctx hs in (h # called, fs @ fs', r)))"

definition run_stage ::
  "hook_stage \<Rightarrow> ToolCallContext \<Rightarrow> real \<Rightarrow> hook_chain
    \<Rightarrow> (ToolCallHook list \<times> hook_failure list \<times> unit result) \<times> hook_chain" where
  "run_stage g ctx now ch =
     (case claim_idempotency ctx now ch of
        (False, ch') \<Rightarrow> (([], [], Inr ()), ch')
      | (True, ch') \<Rightarrow>
          (run_hooks ch' g ctx
             (case g of StageBefore \<Rightarrow> applicable ctx (hc_hooks ch')
              | StageAfter \<Rightarrow> rev (applicable ctx (hc_hooks ch'))), ch'))"

definition run_before where "run_before = run_stage StageBefore"

definition run_after where "run_after = run_stage StageAfter"

text \<open>The server's dispatcher: nothing without a chain or a sandbox, a failure becomes HTTP 502.\<close>

definition dispatch_tool_call_hooks ::
  "hook_stage \<Rightarrow> string \<Rightarrow> string option \<Rightarrow> string option \<Rightarrow> string option \<Rightarrow> nat \<Rightarrow> pyval list option \<Rightarrow> real
    \<Rightarrow> hook_chain option \<Rightarrow> (ToolCallHook list \<times> hook_failure list \<times> unit result) \<times> hook_chain option" where
  "dispatch_tool_call_hooks g session_id sandbox_id instance_id turn_id step_index tool_calls now chain =
     (case (chain, sandbox_id) of
        (Some ch, Some (c # cs)) \<Rightarrow>
          (let ctx = \<lparr>tc_instance_id = instance_id, tc_session_id = session_id, tc_turn_id = turn_id,
                      tc_step_index = step_index, tc_sandbox_id = c # cs, tc_tool_calls = tool_calls,
                      tc_idempotency_key =
                        Some (build_tool_call_idempotency_key session_id turn_id step_index g)\<rparr>;
               ((called, fs, r), ch') = run_stage g ctx now ch
           in ((called, fs, case r of Inl e \<Rightarrow> Inl (HTTPException 502 ''tool_call_hook_failed'') | Inr u \<Rightarrow> Inr u),
               Some ch'))
      | _ \<Rightarrow> (([], [], Inr ()), chain))"

definition dispatch_after_tool_call_hooks ::
  "string \<Rightarrow> string option \<Rightarrow> string option \<Rightarrow> string option \<Rightarrow> nat \<Rightarrow> (string \<times> pyval) list list \<Rightarrow> real
    \<Rightarrow> hook_chain option \<Rightarrow> (ToolCallHook list \<times> hook_failure list \<times> unit result) \<times> hook_chain option" where
  "dispatch_after_tool_call_hooks session_id sandbox_id instance_id turn_id step_index messages now chain =
     (if chain = None \<or> messages = [] \<or> \<not> py_eq (pget (last messages) ''role'') (PStr ''tool'')
      then (([], [], Inr ()), chain)
      else dispatch_tool_call_hooks StageAfter session_id sandbox_id instance_id turn_id step_index None now chain)"

definition dispatch_before_tool_call_hooks ::
  "string \<Rightarrow> string option \<Rightarrow> string option \<Rightarrow> string option \<Rightarrow> nat \<Rightarrow> pyval list \<Rightarrow> real
    \<Rightarrow> hook_chain option \<Rightarrow> (ToolCallHook list \<times> hook_failure list \<times> unit result) \<times> hook_chain option" where
  "dispatch_before_tool_call_hooks session_id sandbox_id instance_id turn_id step_index tool_calls now chain =
     dispatch_tool_call_hooks StageBefore session_id sandbox_id instance_id turn_id step_index (Some tool_calls) now chain"

section \<open>Keys of different steps differ\<close>

lemma last_colon_unique:
  assumes "a @ CHR '':'' # b = a' @ CHR '':'' # b'" "CHR '':'' \<notin> set b" "CHR '':'' \<notin> set b'"
  shows "a = a' \<and> b = b'"
  using assms by (auto simp: append_eq_append_conv2 append_eq_Cons_conv Cons_eq_append_conv)

lemma show_nat_digits: "\<forall>c\<in>set (show_nat n). 48 \<le> (of_char c :: nat) \<and> (of_char c :: nat) \<le> 57"
proof (induction n rule: show_nat.induct)
  case (1 n)
  then show ?case by (subst show_nat.simps) (auto simp: of_char_digit)
qed

lemma show_nat_no_colon: "CHR '':'' \<notin> set (show_nat n)"
  using show_nat_digits [of n] by fastforce

lemma stage_name_no_colon: "CHR '':'' \<notin> set (stage_name g)"
  by (cases g) (simp_all add: stage_name_def)

lemma stage_name_inject: "stage_name g = stage_name g' \<longleftrightarrow> g = g'"
  by (cases g; cases g') (simp_all add: stage_name_def)

text \<open>
  Within a session two dispatches share an idempotency key only when they are the same stage
  of the same step of the same turn, also when turn ids contain colons; an absent turn id is
  written as a dash.
\<close>

theorem idempotency_key_injective:
  "build_tool_call_idempotency_key sid turn n g = build_tool_call_idempotency_key sid turn' n' g' \<longleftrightarrow>
    (case turn of Some (c # cs) \<Rightarrow> c # cs | _ \<Rightarrow> ''-'') = (case turn' of Some (c # cs) \<Rightarrow> c # cs | _ \<Rightarrow> ''-'') \<and>
    n = n' \<and> g = g'"
proof -
  have "t @ CHR '':'' # show_nat n @ CHR '':'' # stage_name g = t' @ CHR '':'' # show_nat n' @ CHR '':'' # stage_name g'
      \<longleftrightarrow> t = t' \<and> n = n' \<and> g = g'" for t t'
  proof
    assume eq: "t @ CHR '':'' # show_nat n @ CHR '':'' # stage_name g = t' @ CHR '':'' # show_nat n' @ CHR '':'' # stage_name g'"
    have 1: "t @ CHR '':'' # show_nat n = t' @ CHR '':'' # show_nat n' \<and> stage_name g = stage_name g'"
      using last_colon_unique [of "t @ CHR '':'' # show_nat n" "stage_name g" "t' @ CHR '':'' # show_nat n'" "stage_name g'"]
        eq stage_name_no_colon by simp
    then have "t = t' \<and> show_nat n = show_nat n'"
      using last_colon_unique show_nat_no_colon by blast
    with 1 show "t = t' \<and> n = n' \<and> g = g'" by (simp add: stage_name_inject show_nat_inject)
  qed simp
  then show ?thesis by (simp add: build_tool_call_idempotency_key_def)
qed

section \<open>A key is dispatched once\<close>

definition claimed :: "string \<Rightarrow> string \<Rightarrow> real \<Rightarrow> hook_chain \<Rightarrow> bool" where
  "claimed sid key t ch \<longleftrightarrow> (\<exists>keys. dget (hc_seen_keys ch) sid = Some keys \<and> dget keys key = Some t)"

lemma prune_keys_get:
  "\<lbrakk>dget keys k = Some t; \<not> expired t\<rbrakk> \<Longrightarrow> dget (snd (prune_keys n expired keys)) k = Some t"
  by (induction n expired keys rule: prune_keys.induct) (auto simp: split_def Let_def split: if_splits)

lemma prune_sessions_get:
  "\<lbrakk>dget seen sid = Some keys; dget keys k = Some t; \<not> expired t\<rbrakk>
    \<Longrightarrow> \<exists>keys'. dget (prune_sessions n expired seen) sid = Some keys' \<and> dget keys' k = Some t"
proof (induction n expired seen rule: prune_sessions.induct)
  case (2 n expired sid' keys' rest)
  then show ?case
    using prune_keys_get [of keys' k t expired n]
    by (cases "prune_keys n expired keys'") (auto split: if_splits)
qed simp

lemma maybe_prune_ttl [simp]: "hc_key_ttl_seconds (maybe_prune now ch) = hc_key_ttl_seconds ch"
  "hc_hooks (maybe_prune now ch) = hc_hooks ch"
  by (simp_all add: maybe_prune_def)

lemma maybe_prune_claimed:
  "\<lbrakk>claimed sid key t ch; \<not> key_expired (hc_key_ttl_seconds ch) t now\<rbrakk> \<Longrightarrow> claimed sid key t (maybe_prune now ch)"
  using prune_sessions_get by (fastforce simp: claimed_def maybe_prune_def)

lemma claim_keeps:
  assumes "claimed sid key t ch" "\<not> key_expired (hc_key_ttl_seconds ch) t now"
  shows "claimed sid key t (snd (claim_idempotency ctx now ch))"
    and "hc_key_ttl_seconds (snd (claim_idempotency ctx now ch)) = hc_key_ttl_seconds ch"
    and "\<lbrakk>tc_session_id ctx = sid; tc_idempotency_key ctx = Some key; key \<noteq> []\<rbrakk>
      \<Longrightarrow> \<not> fst (claim_idempotency ctx now ch)"
  using maybe_prune_claimed [OF assms] assms
  by (auto simp: claim_idempotency_def claimed_def dget_or_def Let_def split: option.splits list.splits)

lemma claim_claims:
  assumes "fst (claim_idempotency ctx now ch)" "tc_idempotency_key ctx = Some key" "key \<noteq> []"
  shows "claimed (tc_session_id ctx) key now (snd (claim_idempotency ctx now ch))"
    and "hc_key_ttl_seconds (snd (claim_idempotency ctx now ch)) = hc_key_ttl_seconds ch"
  using assms by (auto simp: claim_idempotency_def claimed_def Let_def split: option.splits list.splits if_splits)

datatype hook_op = DispatchHooks hook_stage ToolCallContext real | PurgeSession string

fun run_hook_ops :: "hook_op list \<Rightarrow> hook_chain \<Rightarrow> hook_chain" where
  "run_hook_ops [] ch = ch"
| "run_hook_ops (DispatchHooks g ctx now # calls) ch = run_hook_ops calls (snd (run_stage g ctx now ch))"
| "run_hook_ops (PurgeSession sid # calls) ch = run_hook_ops calls (snd (purge_session sid ch))"

lemma run_stage_chain [simp]: "snd (run_stage g ctx now ch) = snd (claim_idempotency ctx now ch)"
  by (simp add: run_stage_def split: prod.splits bool.splits)

lemma run_stage_skipped:
  "\<not> fst (claim_idempotency ctx now ch) \<Longrightarrow> fst (run_stage g ctx now ch) = ([], [], Inr ())"
  by (cases "claim_idempotency ctx now ch") (simp add: run_stage_def)

lemma run_hook_ops_claimed:
  assumes "claimed sid key t ch" "PurgeSession sid \<notin> set calls"
    and "\<forall>g ctx now. DispatchHooks g ctx now \<in> set calls \<longrightarrow> \<not> key_expired (hc_key_ttl_seconds ch) t now"
  shows "claimed sid key t (run_hook_ops calls ch) \<and> hc_key_ttl_seconds (run_hook_ops calls ch) = hc_key_ttl_seconds ch"
  using assms
proof (induction calls ch rule: run_hook_ops.induct)
  case (2 g ctx now calls ch)
  then have "claimed sid key t (snd (claim_idempotency ctx now ch))"
    "hc_key_ttl_seconds (snd (claim_idempotency ctx now ch)) = hc_key_ttl_seconds ch"
    using claim_keeps [OF 2(2)] by auto
  with 2 show ?case by auto
next
  case (3 sid' calls ch)
  then have "claimed sid key t (snd (purge_session sid' ch))"
    by (auto simp: claimed_def purge_session_def)
  with 3 show ?case by (auto simp: purge_session_def)
qed simp

text \<open>
  a stage is dispatched at most once per key.  After a dispatch that ran, whatever the chain
  does next, including pruning rounds and purges of other sessions, a second dispatch with the
  same session and key calls no hook as long as the key has not reached its time to live.
\<close>

theorem hooks_dispatched_once:
  assumes "fst (claim_idempotency ctx t0 ch)" "tc_idempotency_key ctx = Some key" "key \<noteq> []"
    and "PurgeSession (tc_session_id ctx) \<notin> set calls"
    and "\<forall>g c now. DispatchHooks g c now \<in> set calls \<longrightarrow> \<not> key_expired (hc_key_ttl_seconds ch) t0 now"
    and "\<not> key_expired (hc_key_ttl_seconds ch) t0 t1"
    and "tc_session_id ctx' = tc_session_id ctx" "tc_idempotency_key ctx' = Some key"
  shows "fst (run_stage g' ctx' t1 (run_hook_ops calls (snd (run_stage g ctx t0 ch)))) = ([], [], Inr ())"
proof -
  let ?ch = "snd (run_stage g ctx t0 ch)"
  have "claimed (tc_session_id ctx) key t0 ?ch" "hc_key_ttl_seconds ?ch = hc_key_ttl_seconds ch"
    using claim_claims [OF assms(1-3)] by simp_all
  then have "claimed (tc_session_id ctx) key t0 (run_hook_ops calls ?ch) \<and>
      hc_key_ttl_seconds (run_hook_ops calls ?ch) = hc_key_ttl_seconds ch"
    using run_hook_ops_claimed [of "tc_session_id ctx" key t0 ?ch calls] assms(4,5) by simp
  then have "\<not> fst (claim_idempotency ctx' t1 (run_hook_ops calls ?ch))"
    using claim_keeps(3) assms(3,6-8) by metis
  then show ?thesis by (rule run_stage_skipped)
qed

definition sample_hook :: "bool \<Rightarrow> hook_outcome \<Rightarrow> ToolCallHook" where
  "sample_hook required outcome =
     \<lparr>hk_name = ''h'', hk_class = ''Hook'', hk_required = required, hk_order = 100, hk_applies_to = (\<lambda>ctx. Inr True),
      hk_before = (\<lambda>ctx limit. outcome), hk_after = (\<lambda>ctx limit. outcome)\<rparr>"

definition sample_chain :: "hook_outcome \<Rightarrow> hook_chain" where
  "sample_chain outcome = the (build_tool_call_hook_chain [sample_hook True outcome] None (Some DEFAULT_KEY_TTL_SECONDS) 0)"

definition sample_ctx :: ToolCallContext where
  "sample_ctx = \<lparr>tc_instance_id = None, tc_session_id = ''s'', tc_turn_id = None, tc_step_index = 0,
     tc_sandbox_id = ''b'', tc_tool_calls = None, tc_idempotency_key = Some ''s:-:0:before''\<rparr>"

lemmas sample_hook_defs = sample_chain_def build_tool_call_hook_chain_def sample_hook_def sample_ctx_def
  DEFAULT_KEY_TTL_SECONDS_def PRUNE_INTERVAL_SECONDS_def

theorem hooks_dispatched_once_witness:
  "fst (run_stage StageBefore sample_ctx 400
     (run_hook_ops [PurgeSession ''x'', DispatchHooks StageAfter (sample_ctx\<lparr>tc_idempotency_key := Some ''k''\<rparr>) 350]
       (snd (run_stage StageBefore sample_ctx 0 (sample_chain HookDone))))) = ([], [], Inr ())"
  by (rule hooks_dispatched_once [where key = "''s:-:0:before''"])
    (simp_all add: sample_hook_defs claim_idempotency_def maybe_prune_def key_expired_def Let_def)

section \<open>Order and failure\<close>

definition hook_passes :: "hook_chain \<Rightarrow> hook_stage \<Rightarrow> ToolCallContext \<Rightarrow> ToolCallHook \<Rightarrow> bool" where
  "hook_passes ch g ctx h \<longleftrightarrow> \<not> hk_required h \<or> call_hook ch g ctx h = HookDone"

lemma run_hooks_spec:
  "run_hooks ch g ctx hs =
    (let called = takeWhile (hook_passes ch g ctx) hs @ take 1 (dropWhile (hook_passes ch g ctx) hs) in
     (called, concat (map (\<lambda>h. fst (run_one ch g ctx h)) called),
      if list_all (hook_passes ch g ctx) hs then Inr () else Inl (OtherError ''ToolCallHookError'')))"
proof (induction hs)
  case (Cons h hs)
  have one: "snd (run_one ch g ctx h) = (if hook_passes ch g ctx h then Inr () else Inl (OtherError ''ToolCallHookError''))"
    by (auto simp: run_one_def hook_passes_def Let_def split: hook_outcome.splits)
  show ?case
    using Cons one by (cases "run_one ch g ctx h") (auto simp: Let_def split: sum.splits)
qed simp

text \<open>
  One stage, as the server dispatches it to a chain built from a list of hooks.  When the key
  is fresh, the applicable hooks are called in ascending order before tools and in descending
  order after them, up to and including the first required hook that fails or times out; the
  request is aborted with HTTP 502 exactly when there is one, every failed call, optional or
  required, leaves its record, and hooks of equal order keep their order of registration.
\<close>

theorem hook_stage_behaviour:
  assumes "ctx = \<lparr>tc_instance_id = instance_id, tc_session_id = session_id, tc_turn_id = turn_id,
      tc_step_index = step_index, tc_sandbox_id = c # cs, tc_tool_calls = tool_calls,
      tc_idempotency_key = Some (build_tool_call_idempotency_key session_id turn_id step_index g)\<rparr>"
    and "fst (claim_idempotency ctx now ch)" "ch' = snd (claim_idempotency ctx now ch)"
    and "hc_hooks ch = sort_key hk_order hooks"
    and "ordered = (case g of StageBefore \<Rightarrow> id | StageAfter \<Rightarrow> rev)
      (sort_key hk_order (filter (\<lambda>h. hk_applies_to h ctx = Inr True) hooks))"
    and "called = takeWhile (hook_passes ch' g ctx) ordered @ take 1 (dropWhile (hook_passes ch' g ctx) ordered)"
  shows "dispatch_tool_call_hooks g session_id (Some (c # cs)) instance_id turn_id step_index tool_calls now (Some ch) =
    ((called, concat (map (\<lambda>h. fst (run_one ch' g ctx h)) called),
      if list_all (hook_passes ch' g ctx) ordered then Inr ()
      else Inl (HTTPException 502 ''tool_call_hook_failed'')), Some ch')"
proof -
  have hooks: "hc_hooks ch' = hc_hooks ch"
    using assms(3) by (auto simp: claim_idempotency_def Let_def split: option.splits list.splits)
  have stage: "run_stage g ctx now ch = (run_hooks ch' g ctx ordered, ch')"
    using assms(2-5) hooks
    by (auto simp: run_stage_def applicable_def filter_sort split: prod.splits hook_stage.splits)
  show ?thesis
    unfolding dispatch_tool_call_hooks_def prod.case option.case list.case Let_def assms(1) [symmetric] stage
      run_hooks_spec assms(6) [symmetric]
    by simp
qed

theorem hook_stage_behaviour_witness:
  "dispatch_tool_call_hooks StageBefore ''s'' (Some ''b'') None None 0 None 0 (Some (sample_chain (HookFailed ''E'' ''m''))) =
    ((hc_hooks (sample_chain (HookFailed ''E'' ''m'')),
      [\<lparr>hf_hook = ''h'', hf_stage = StageBefore, hf_required = True, hf_error_type = ''E'', hf_error_message = ''m'',
        hf_timed_out = False, hf_timeout_seconds = None\<rparr>],
      Inl (HTTPException 502 ''tool_call_hook_failed'')),
     Some (snd (claim_idempotency (\<lparr>tc_instance_id = None, tc_session_id = ''s'', tc_turn_id = None, tc_step_index = 0,
       tc_sandbox_id = ''b'', tc_tool_calls = None,
       tc_idempotency_key = Some (build_tool_call_idempotency_key ''s'' None 0 StageBefore)\<rparr>) 0
       (sample_chain (HookFailed ''E'' ''m'')))))"
  by (subst hook_stage_behaviour [where hooks = "[sample_hook True (HookFailed ''E'' ''m'')]", OF refl _ refl _ refl refl])
    (simp_all add: sample_hook_defs claim_idempotency_def maybe_prune_def build_tool_call_idempotency_key_def
      run_one_def call_hook_def hook_label_def hook_passes_def Let_def)

text \<open>
  A dispatch that was aborted by a required hook stays claimed: the retry of the same request
  within the time to live calls no hook at all and succeeds.
\<close>

theorem failed_dispatch_not_repeated:
  assumes "fst (run_stage g ctx t0 ch) = (called, failures, Inl e)"
    and "tc_idempotency_key ctx = Some key" "key \<noteq> []" "\<not> key_expired (hc_key_ttl_seconds ch) t0 t1"
  shows "fst (run_stage g ctx t1 (snd (run_stage g ctx t0 ch))) = ([], [], Inr ())"
proof -
  have "fst (claim_idempotency ctx t0 ch)"
    using assms(1) by (auto simp: run_stage_def split: prod.splits bool.splits)
  note c = claim_claims [OF this assms(2,3)]
  have "\<not> fst (claim_idempotency ctx t1 (snd (claim_idempotency ctx t0 ch)))"
    using claim_keeps(3) [OF c(1)] c(2) assms(2-4) by auto
  then show ?thesis by (simp add: run_stage_skipped)
qed

theorem failed_dispatch_not_repeated_witness:
  "fst (run_stage StageBefore sample_ctx 0 (sample_chain (HookFailed ''E'' ''m''))) \<noteq> ([], [], Inr ()) \<and>
   fst (run_stage StageBefore sample_ctx 1
     (snd (run_stage StageBefore sample_ctx 0 (sample_chain (HookFailed ''E'' ''m''))))) = ([], [], Inr ())"
proof -
  obtain called failures where r: "fst (run_stage StageBefore sample_ctx 0 (sample_chain (HookFailed ''E'' ''m''))) =
      (called, failures, Inl (OtherError ''ToolCallHookError''))"
    by (auto simp: run_stage_def sample_hook_defs claim_idempotency_def maybe_prune_def applicable_def run_one_def
        call_hook_def Let_def)
  show ?thesis
    using failed_dispatch_not_repeated [OF r, of "''s:-:0:before''" 1] r
    by (simp add: sample_hook_defs key_expired_def)
qed

lemma prune_keys_live:
  "\<forall>(k, t)\<in>set keys. \<not> expired t \<Longrightarrow> prune_keys n expired keys = (n - length keys, keys)"
  by (induction n expired keys rule: prune_keys.induct) auto

text \<open>
  A pruning round starts at the first session every time.  While the first session holds as
  many unexpired keys as a round may scan, no round evicts anything, however long the expired
  keys of the sessions behind it have been waiting.
\<close>

theorem pruning_round_restarts:
  assumes "hc_seen_keys ch = (sid, keys) # rest" "PRUNE_MAX_KEYS_PER_ROUND \<le> length keys"
    and "\<forall>(k, t)\<in>set keys. \<not> key_expired (hc_key_ttl_seconds ch) t now"
  shows "hc_seen_keys (maybe_prune now ch) = hc_seen_keys ch"
proof -
  let ?e = "\<lambda>t. key_expired (hc_key_ttl_seconds ch) t now"
  have "prune_keys PRUNE_MAX_KEYS_PER_ROUND ?e keys = (0, keys)" "keys \<noteq> []" "PRUNE_MAX_KEYS_PER_ROUND \<noteq> 0"
    using prune_keys_live [OF assms(3), of PRUNE_MAX_KEYS_PER_ROUND] assms(2)
    by (auto simp: PRUNE_MAX_KEYS_PER_ROUND_def)
  moreover have "prune_sessions 0 ?e rest = rest" by (cases rest) auto
  ultimately show ?thesis by (simp add: maybe_prune_def assms(1))
qed

theorem pruning_round_restarts_witness:
  "let ch = (sample_chain HookDone)\<lparr>hc_seen_keys :=
      [(''busy'', map (\<lambda>i. (show_nat i, 4000)) [0..<10000]), (''old'', [(''k'', 0)])]\<rparr> in
    key_expired (hc_key_ttl_seconds ch) 0 5000 \<and> dget (hc_seen_keys (maybe_prune 5000 ch)) ''old'' = Some [(''k'', 0)]"
proof -
  let ?keys = "map (\<lambda>i. (show_nat i, 4000 :: real)) [0..<10000]"
  let ?ch = "(sample_chain HookDone)\<lparr>hc_seen_keys := [(''busy'', ?keys), (''old'', [(''k'', 0)])]\<rparr>"
  have "hc_seen_keys (maybe_prune 5000 ?ch) = hc_seen_keys ?ch"
    by (rule pruning_round_restarts [where sid = "''busy''" and keys = ?keys and rest = "[(''old'', [(''k'', 0)])]"])
      (auto simp: sample_hook_defs key_expired_def PRUNE_MAX_KEYS_PER_ROUND_def)
  then show ?thesis by (simp add: Let_def sample_hook_defs key_expired_def)
qed

end
