(* ===== verification/Proxy_Handlers.thy ===== *)
theory Proxy_Handlers
  imports Proxy_Segments Tool_Call_Hooks
begin

text \<open>
  The session endpoints of \<open>dressage/proxy/server.py\<close> that end a session or hand its records out:
  \<open>/session/finalize\<close>, \<open>/session/discard\<close> and \<open>/trajectory/read\<close>.  The state is what these
  handlers share: the session manager, the trajectory store, the rebalancer's session table, the
  tool-call hook chain, and the clear calls issued to the TransferQueue.  A handler that waits for
  the session's request lock is split at the wait: the entry part runs when the request arrives,
  the locked part when it holds the lock, on whatever the state is by then.  The lemmas show that
  finalising a TITO session always succeeds and publishes all its segments with the exact tokens
  of the session, that finalisation is idempotent, and that a discarded session leaves nothing
  behind.
\<close>

section \<open>State\<close>

text \<open>
  The response of a finalisation.  The source keeps the TransferQueue reference as the dictionary
  \<open>to_dict\<close> prints and reads it back with \<open>from_dict\<close>, which is the identity on references.
\<close>

record finalization_result =
  fr_session_id :: string
  fr_trajectory_id :: string
  fr_instance_id :: string
  fr_finalization_id :: string
  fr_num_steps :: nat
  fr_num_turns :: nat
  fr_num_segments :: nat
  fr_num_timeline_segments :: nat
  fr_history_rewritten :: bool
  fr_token_build_mode :: string
  fr_record_token_versions :: bool
  fr_mask_nonlast_version_tokens :: bool
  fr_trajectory_ref :: "TQTrajectoryRef option"
  fr_tool_call_hook_keys_purged :: "nat option"

record 'b proxy_state =
  px_manager :: "finalization_result session_manager"
  px_store :: trajectory_store
  px_rebalancer_sessions :: "(string, 'b) dict"
  px_hooks :: "hook_chain option"
  px_cleared :: "(string \<times> string list) list"

record finalize_request =
  fq_session_id :: string
  fq_instance_id :: "string option"
  fq_label :: pyval
  fq_has_build_mode :: bool

text \<open>The identifiers and clock texts one finalisation draws: its own id and those of its records.\<close>

record fresh_ids =
  fz_finalization_id :: string
  fz_uid :: "nat \<Rightarrow> string"
  fz_timestamp :: "nat \<Rightarrow> string"

section \<open>Finalisation\<close>

definition lineage_records ::
  "proxy_config \<Rightarrow> Session \<Rightarrow> string \<Rightarrow> pyval \<Rightarrow> fresh_ids \<Rightarrow> segment_data list result" where
  "lineage_records cfg s iid label fz =
     (let segs = split_session_into_lineage_segments s in
      rmap (\<lambda>(k, seg). build_tito_lineage_segment_record cfg s (se_session_id s) seg k (length segs) iid label
              (fz_uid fz k) (fz_timestamp fz k)) (List.enumerate 0 segs))"

definition timeline_records ::
  "proxy_config \<Rightarrow> Session \<Rightarrow> string \<Rightarrow> pyval \<Rightarrow> fresh_ids \<Rightarrow> nat \<Rightarrow> segment_data list result" where
  "timeline_records cfg s iid label fz drawn =
     (let segs = split_session_into_timeline_segments s in
      rmap (\<lambda>(k, seg). build_step_snapshot_record cfg s (se_session_id s) seg k (length segs) iid label
              (fz_uid fz (drawn + k)) (fz_timestamp fz (drawn + k))) (List.enumerate 0 segs))"

definition finalize_records ::
  "proxy_config \<Rightarrow> Session \<Rightarrow> string \<Rightarrow> pyval \<Rightarrow> fresh_ids \<Rightarrow> (segment_data list \<times> nat \<times> nat) result" where
  "finalize_records cfg s iid label fz =
     (let steps = length (split_session_into_timeline_segments s) in
      if pc_tito_mode cfg
      then rbind (lineage_records cfg s iid label fz) (\<lambda>ls.
           rbind (timeline_records cfg s iid label fz (length ls)) (\<lambda>ts.
             Inr (ls @ ts, length (split_session_into_lineage_segments s), steps)))
      else rbind (timeline_records cfg s iid label fz 0) (\<lambda>ts. Inr (ts, steps, steps)))"

definition mark_finalized :: "string \<Rightarrow> segment_data \<Rightarrow> segment_data" where
  "mark_finalized fid d = d\<lparr>sd_extra_info :=
     Some (dset ''finalization_id'' (PStr fid) (dset ''finalization_complete'' (PBool True) (opt_or (sd_extra_info d) [])))\<rparr>"

definition step_field_ref :: "StepRecord \<Rightarrow> string \<Rightarrow> TQFieldRef option" where
  "step_field_ref st name =
     (if name = ''prompt_token_logprobs'' then (case st_prompt_token_logprobs st of Remote r \<Rightarrow> Some r | _ \<Rightarrow> None)
      else if name = ''response_logprobs'' then (case st_response_logprobs st of Remote r \<Rightarrow> Some r | _ \<Rightarrow> None)
      else if name = ''all_logprobs'' then (case st_all_logprobs st of Remote r \<Rightarrow> Some r | _ \<Rightarrow> None)
      else if name = ''concat_response_logprobs''
      then (case st_concat_response_logprobs st of Remote r \<Rightarrow> Some r | _ \<Rightarrow> None)
      else if name = ''response_routed_experts_chunks''
      then (case st_response_routed_experts_chunks st of Remote r \<Rightarrow> Some r | _ \<Rightarrow> None)
      else None)"

text \<open>A session with steps has its incarnation id: the first offloaded step sets it.\<close>

definition session_trajectory_ref :: "transfer_runtime \<Rightarrow> Session \<Rightarrow> TQTrajectoryRef" where
  "session_trajectory_ref rt s =
     trajectory_ref rt step_field_ref (se_session_id s) (opt_or (se_incarnation_id s) []) (se_steps s)"

datatype finalize_entry_outcome = Reply "finalization_result result" | WaitForLock nat

definition finalize_entry ::
  "finalize_request \<Rightarrow> real \<Rightarrow> 'b proxy_state \<Rightarrow> finalize_entry_outcome \<times> 'b proxy_state" where
  "finalize_entry rq now st =
     (if fq_has_build_mode rq
      then (Reply (Inl (HTTPException 400 ''token_build_mode is configured at proxy startup'')), st)
      else let (cached, m) = get_finalization_result (fq_session_id rq) now (px_manager st);
               st1 = st\<lparr>px_manager := m\<rparr>
        in case cached of
             Some r \<Rightarrow> (Reply (Inr r), st1)
           | None \<Rightarrow>
               (case get_session (fq_session_id rq) m of
                  None \<Rightarrow> (Reply (Inl (HTTPException 404 ''Session not found'')), st1)
                | Some s \<Rightarrow> (WaitForLock (se_object s), st1)))"

text \<open>
  After the commit, outside the lock, the hook keys of the session are purged; a non-zero count
  is written into the response, which is the object the manager has cached.
\<close>

definition purge_after_finalize ::
  "string \<Rightarrow> finalization_result \<Rightarrow> 'b proxy_state \<Rightarrow> finalization_result \<times> 'b proxy_state" where
  "purge_after_finalize sid r st =
     (case px_hooks st of
        None \<Rightarrow> (r, st)
      | Some ch \<Rightarrow>
          (let (purged, ch') = purge_session sid ch;
               st1 = st\<lparr>px_hooks := Some ch'\<rparr>;
               r1 = r\<lparr>fr_tool_call_hook_keys_purged := Some purged\<rparr>
           in if purged = 0 then (r, st1)
              else (r1, st1\<lparr>px_manager := (px_manager st1)\<lparr>sm_results := dset sid r1 (sm_results (px_manager st1))\<rparr>\<rparr>)))"

definition finalization_outcome ::
  "proxy_config \<Rightarrow> string \<Rightarrow> Session \<Rightarrow> string \<Rightarrow> string \<Rightarrow> nat \<Rightarrow> nat \<Rightarrow> finalization_result" where
  "finalization_outcome cfg sid s iid fid segment_count timeline_count =
     \<lparr>fr_session_id = sid, fr_trajectory_id = se_session_id s, fr_instance_id = iid,
      fr_finalization_id = fid, fr_num_steps = length (se_steps s),
      fr_num_turns = length (se_turn_ids s), fr_num_segments = segment_count,
      fr_num_timeline_segments = timeline_count,
      fr_history_rewritten = se_history_rewritten s,
      fr_token_build_mode = (if pc_tito_mode cfg then ''tito'' else ''snapshot''),
      fr_record_token_versions = pc_record_token_versions cfg,
      fr_mask_nonlast_version_tokens = pc_mask_nonlast_version_tokens cfg,
      fr_trajectory_ref = map_option (\<lambda>rt. session_trajectory_ref rt s) (pc_transfer cfg),
      fr_tool_call_hook_keys_purged = None\<rparr>"

definition finalize_locked ::
  "proxy_config \<Rightarrow> finalize_request \<Rightarrow> nat \<Rightarrow> fresh_ids \<Rightarrow> real \<Rightarrow> 'b proxy_state
    \<Rightarrow> finalization_result result \<times> 'b proxy_state" where
  "finalize_locked cfg rq object fz now st =
     (let sid = fq_session_id rq;
          (cached, m) = get_finalization_result sid now (px_manager st);
          st1 = st\<lparr>px_manager := m\<rparr>
      in case (cached, get_session sid m) of
        (Some r, _) \<Rightarrow> (Inr r, st1)
      | (None, None) \<Rightarrow> (Inl (HTTPException 404 ''Session not found''), st1)
      | (None, Some s) \<Rightarrow>
          (if se_object s \<noteq> object then (Inl (HTTPException 404 ''Session not found''), st1)
           else if se_steps s = [] then (Inl (HTTPException 400 ''Session has no turns''), st1)
           else
             (let iid = (if is_set (fq_instance_id rq) then the (fq_instance_id rq) else se_instance_id s) in
              case finalize_records cfg s iid (fq_label rq) fz of
                Inl e \<Rightarrow> (Inl e, st1)
              | Inr (records, segment_count, timeline_count) \<Rightarrow>
                  (let outcome = finalization_outcome cfg sid s iid (fz_finalization_id fz) segment_count timeline_count;
                       drawn = map (\<lambda>k. (fz_uid fz k, fz_uid fz k, fz_uid fz k)) [0..<length records]
                   in case write_many (pc_lib cfg) drawn (map (mark_finalized (fz_finalization_id fz)) records) now (px_store st1) of
                        (Inl e, store) \<Rightarrow> (Inl e, st1\<lparr>px_store := store\<rparr>)
                      | (Inr items, store) \<Rightarrow>
                          (let (final, m') = finalize_session sid (Some outcome) now m;
                               st2 = st1\<lparr>px_store := store, px_manager := m',
                                        px_rebalancer_sessions := dpop sid (px_rebalancer_sessions st1)\<rparr>;
                               (r, st3) = purge_after_finalize sid outcome st2
                           in (Inr r, st3))))))"

text \<open>The request as a whole when nobody else holds the session's lock.\<close>

definition handle_finalize ::
  "proxy_config \<Rightarrow> finalize_request \<Rightarrow> fresh_ids \<Rightarrow> real \<Rightarrow> 'b proxy_state
    \<Rightarrow> finalization_result result \<times> 'b proxy_state" where
  "handle_finalize cfg rq fz now st =
     (case finalize_entry rq now st of
        (Reply r, st1) \<Rightarrow> (r, st1)
      | (WaitForLock object, st1) \<Rightarrow> finalize_locked cfg rq object fz now st1)"

section \<open>Discarding and reading\<close>

record discard_reply =
  dr_session_removed :: bool
  dr_segments_removed :: nat
  dr_tool_call_hook_keys_purged :: nat

text \<open>
  \<open>active\<close> is the session object found when the request arrived, as it is once its lock is held.
  A failing clear is logged and left to the retention sweep.
\<close>

definition discard_state ::
  "proxy_config \<Rightarrow> string \<Rightarrow> Session option \<Rightarrow> nat \<Rightarrow> real \<Rightarrow> 'b proxy_state \<Rightarrow> discard_reply \<times> 'b proxy_state" where
  "discard_state cfg sid active purged now st =
     (let (refs, m) =
            (case pc_transfer cfg of
               None \<Rightarrow> ([], px_manager st)
             | Some rt \<Rightarrow>
                 (let live = (case active of
                               Some s \<Rightarrow> (if se_incarnation_id s \<noteq> None then [session_trajectory_ref rt s] else [])
                             | None \<Rightarrow> []);
                      (cached, m1) = get_finalization_result sid now (px_manager st);
                      final = (case cached of
                                Some r \<Rightarrow> (case fr_trajectory_ref r of Some t \<Rightarrow> [t] | None \<Rightarrow> [])
                              | None \<Rightarrow> [])
                  in (live @ final, m1)));
          (removed, m2) = discard_session sid m;
          (items, store) = pop_trajectory (pc_lib cfg) sid None None now (px_store st)
      in (\<lparr>dr_session_removed = removed, dr_segments_removed = length items, dr_tool_call_hook_keys_purged = purged\<rparr>,
          st\<lparr>px_manager := m2, px_store := store,
             px_cleared := px_cleared st @ clear_refs (concat (map traj_refs refs)),
             px_rebalancer_sessions := dpop sid (px_rebalancer_sessions st)\<rparr>))"

definition purge_hooks :: "string \<Rightarrow> 'b proxy_state \<Rightarrow> nat \<times> 'b proxy_state" where
  "purge_hooks sid st =
     (case px_hooks st of
        None \<Rightarrow> (0, st)
      | Some ch \<Rightarrow> (let (purged, ch') = purge_session sid ch in (purged, st\<lparr>px_hooks := Some ch'\<rparr>)))"

definition handle_discard :: "proxy_config \<Rightarrow> string \<Rightarrow> real \<Rightarrow> 'b proxy_state \<Rightarrow> discard_reply \<times> 'b proxy_state" where
  "handle_discard cfg sid now st =
     (let (purged, st1) = purge_hooks sid st in
      discard_state cfg sid (if pc_transfer cfg = None then None else get_session sid (px_manager st1)) purged now st1)"

text \<open>The body of the reply: segments, the counts of \<open>stats\<close>, and whether the read drained.\<close>

datatype read_reply =
    TrajectoryData "TrajectorySegment list" "nat \<times> nat \<times> nat" bool
  | BatchData "TrajectorySegment list list" "nat \<times> nat \<times> nat"

record read_request =
  rr_trajectory_id :: string
  rr_instance_id :: "string option"
  rr_max_groups :: "int option"
  rr_drain :: bool
  rr_segment_view :: "string option"

definition trajectory_read ::
  "py_lib \<Rightarrow> read_request \<Rightarrow> real \<Rightarrow> 'b proxy_state \<Rightarrow> read_reply result \<times> 'b proxy_state" where
  "trajectory_read lib rq now st =
     (if rr_segment_view rq \<notin> {None, Some ''lineage'', Some ''timeline''}
      then (Inl (HTTPException 400 ''segment_view must be lineage or timeline''), st)
      else if rr_trajectory_id rq \<noteq> []
      then (if rr_drain rq
            then (let (items, store) = pop_trajectory lib (rr_trajectory_id rq) (rr_instance_id rq) (rr_segment_view rq) now (px_store st)
                  in (Inr (TrajectoryData items (store_stats now store) True), st\<lparr>px_store := store\<rparr>))
            else (Inr (TrajectoryData
                    (read_trajectory lib (rr_trajectory_id rq) (rr_instance_id rq) (rr_segment_view rq) (px_store st))
                    (store_stats now (px_store st)) False), st))
      else (let (groups, store) = read_batch lib (rr_max_groups rq) now (px_store st)
            in (Inr (BatchData groups (store_stats now store)), st\<lparr>px_store := store\<rparr>)))"

section \<open>Finalising a TITO session succeeds\<close>

lemma rmap_enumerate:
  assumes "\<And>k. k < length xs \<Longrightarrow> \<exists>d. f (k, xs ! k) = Inr d \<and> P k d"
  shows "\<exists>ds. rmap f (List.enumerate 0 xs) = Inr ds \<and> length ds = length xs \<and> (\<forall>k<length xs. P k (ds ! k))"
proof -
  obtain g where g: "\<And>k. k < length xs \<Longrightarrow> f (k, xs ! k) = Inr (g k) \<and> P k (g k)"
    using assms by metis
  have "rmap f (List.enumerate 0 xs) = Inr (map (\<lambda>(k, x). g k) (List.enumerate 0 xs))"
    using g by (intro rmap_total) (auto simp: in_set_enumerate_eq)
  then show ?thesis using g by (auto simp: nth_enumerate_eq)
qed

lemma remdups_const:
  assumes "xs \<noteq> []" "\<forall>x\<in>set xs. x = c"
  shows "remdups xs = [c]"
proof -
  have s: "set xs = {c}" using assms by (cases xs) auto
  then have "length (remdups xs) = 1" by (simp add: length_remdups_card_conv)
  then obtain y where "remdups xs = [y]" by (cases "remdups xs") auto
  then show ?thesis using s by (metis list.set(1,2) set_remdups singleton_inject)
qed

definition item_ready ::
  "py_lib \<Rightarrow> string \<Rightarrow> string \<Rightarrow> string \<Rightarrow> string \<Rightarrow> nat \<Rightarrow> nat \<Rightarrow> int list \<Rightarrow> TrajectorySegment \<Rightarrow> bool" where
  "item_ready lib fid tid iid view k n tokens x \<longleftrightarrow>
     ti_trajectory_id x = tid \<and> ti_instance_id x = iid \<and> ti_segment_index x = int k \<and> ti_segment_count x = int n \<and>
     ti_tokens x = tokens \<and> item_segment_view lib x = Some view \<and>
     pget (ti_extra_info x) ''finalization_id'' = PStr fid \<and>
     pget (ti_extra_info x) ''finalization_complete'' = PBool True"

lemma item_from_ready_record:
  assumes "record_ready tid iid view k n tokens d" "tid \<noteq> []"
  shows "\<exists>x. item_from_dict u1 u2 u3 now (mark_finalized fid d) = Inr x \<and> item_ready lib fid tid iid view k n tokens x"
proof -
  obtain logprobs loss_mask extra turn messages where f: "sd_full_logprobs d = Some logprobs"
    "built_length_ok (length tokens) logprobs" "sd_full_loss_mask d = Some loss_mask"
    "length loss_mask = length tokens" "sd_extra_info d = Some extra" "pget extra ''segment_view'' = PStr view"
    "sd_turn_id d = Some turn" "sd_messages d = Some messages"
    using assms(1) by (auto simp: record_ready_def)
  obtain c cs where tid: "tid = c # cs" using assms(2) by (cases tid) auto
  have g: "sd_trajectory_id d = Some (c # cs)" "sd_instance_id d = Some iid" "sd_segment_index d = Some (int k)"
    "sd_segment_count d = Some (int n)" "sd_tokens d = Some tokens"
    "\<And>vs. sd_full_versions d = Some vs \<Longrightarrow> length vs = length tokens"
    "\<And>l. sd_routed_experts_chunks d \<noteq> Some (Layout l)"
    using assms(1) tid by (auto simp: record_ready_def)
  have "\<not> (case sd_full_versions d of None \<Rightarrow> False | Some vs \<Rightarrow> length vs \<noteq> length tokens)"
    "\<not> (case sd_routed_experts_chunks d of Some (Layout l) \<Rightarrow> lay_token_count l \<noteq> int (length tokens) | _ \<Rightarrow> False)"
    using g(6,7) by (auto split: option.splits built_field.splits)
  then show ?thesis
    using f g by (simp add: item_from_dict_def mark_finalized_def need_def opt_or_def item_ready_def tid
        item_segment_view_def item_view_def pget_def)
qed

lemma ready_view_complete:
  assumes "xs \<noteq> []" "\<And>k. k < length xs \<Longrightarrow> item_ready lib fid tid iid view k (length xs) (tokens k) (xs ! k)"
  shows "view_complete xs"
proof -
  have i: "map ti_segment_index xs = map int [0..<length xs]"
    using assms(2) by (intro nth_equalityI) (auto simp: item_ready_def)
  have c: "\<forall>c\<in>set (map ti_segment_count xs). c = int (length xs)"
    using assms(2) by (auto simp: in_set_conv_nth item_ready_def)
  have "remdups (map ti_segment_count xs) = [int (length xs)]"
    using remdups_const [OF _ c] assms(1) by simp
  moreover have "hd (map ti_segment_count xs) = int (length xs)"
    using c assms(1) by (cases xs) auto
  ultimately show ?thesis by (simp add: view_complete_def Let_def i distinct_map inj_on_def)
qed

lemma ready_batch_valid:
  assumes "xs \<noteq> []" "ys \<noteq> []" "fid \<noteq> []"
    and x: "\<And>k. k < length xs \<Longrightarrow> item_ready lib fid tid iid ''lineage'' k (length xs) (tx k) (xs ! k)"
    and y: "\<And>k. k < length ys \<Longrightarrow> item_ready lib fid tid iid ''timeline'' k (length ys) (ty k) (ys ! k)"
  shows "validate_finalized_batch lib (xs @ ys) = Inr ()"
proof -
  have vx: "\<forall>i\<in>set xs. item_segment_view lib i = Some ''lineage''"
    and vy: "\<forall>i\<in>set ys. item_segment_view lib i = Some ''timeline''"
    and all: "\<forall>i\<in>set (xs @ ys). ti_trajectory_id i = tid \<and> ti_instance_id i = iid \<and>
      pget (ti_extra_info i) ''finalization_id'' = PStr fid \<and> pget (ti_extra_info i) ''finalization_complete'' = PBool True"
    using x y by (auto simp: in_set_conv_nth item_ready_def)
  have groups: "view_complete g" if g: "g \<in> set (dvalues (group_by (item_segment_view lib) (xs @ ys)))" for g
  proof -
    obtain p where "p \<in> set (group_by (item_segment_view lib) (xs @ ys))" "g = snd p"
      using g by (auto simp only: set_map image_iff)
    then obtain v where "(v, g) \<in> set (group_by (item_segment_view lib) (xs @ ys))" by (metis prod.collapse)
    then have "dget (group_by (item_segment_view lib) (xs @ ys)) v = Some g"
      using dict_ok_group_by dget_in_set by metis
    then have v: "g = filter (\<lambda>i. item_segment_view lib i = v) (xs @ ys)" "v \<in> item_segment_view lib ` set (xs @ ys)"
      by (auto simp: dget_group_by split: if_splits)
    then have "v = Some ''lineage'' \<or> v = Some ''timeline''" using vx vy by auto
    then have "g = xs \<or> g = ys" using v(1) vx vy by (auto simp: filter_empty_conv intro!: filter_True)
    then show ?thesis using ready_view_complete [OF assms(1) x] ready_view_complete [OF assms(2) y] by blast
  qed
  have one: "length (remdups (map f (xs @ ys))) = 1" if "\<forall>i\<in>set (xs @ ys). f i = c" for f :: "TrajectorySegment \<Rightarrow> string" and c
  proof -
    have "\<forall>x\<in>set (map f (xs @ ys)). x = c" using that by auto
    from remdups_const [OF _ this] show ?thesis using assms(1) by simp
  qed
  have hd: "hd (map (\<lambda>i. pget (ti_extra_info i) ''finalization_id'') (xs @ ys)) = PStr fid"
    using all assms(1) by (cases xs) auto
  obtain c cs where fid: "fid = c # cs" using assms(3) by (cases fid) auto
  have views: "\<not> list_ex (\<lambda>i. item_segment_view lib i \<notin> {Some ''lineage'', Some ''timeline''}) (xs @ ys)"
    using vx vy by (auto simp: list_ex_iff)
  have ids: "\<not> list_ex (\<lambda>i. \<not> py_eq i (PStr fid)) (map (\<lambda>i. pget (ti_extra_info i) ''finalization_id'') (xs @ ys))"
    "\<not> list_ex (\<lambda>item. pget (ti_extra_info item) ''finalization_complete'' \<noteq> PBool True) (xs @ ys)"
    using all by (auto simp: list_ex_iff)
  have t: "length (remdups (map ti_trajectory_id (xs @ ys))) = 1" "length (remdups (map ti_instance_id (xs @ ys))) = 1"
    using one [of ti_trajectory_id tid] one [of ti_instance_id iid] all by blast+
  have "list_all view_complete (dvalues (group_by (item_segment_view lib) (xs @ ys)))"
    using groups by (auto simp: list_all_iff)
  then show ?thesis
    unfolding validate_finalized_batch_def Let_def hd using t views ids fid by simp
qed

lemma lineage_records_ready:
  assumes "tito_session_ok s" "\<forall>st\<in>set (se_steps s). step_local st"
  shows "\<exists>ds. lineage_records cfg s iid label fz = Inr ds \<and> length ds = length (split_session_into_lineage_segments s) \<and>
    (\<forall>k<length ds. record_ready (se_session_id s) iid ''lineage'' k (length ds)
      (st_all_token_ids (last (sg_steps (split_session_into_lineage_segments s ! k)))) (ds ! k))"
proof -
  let ?segs = "split_session_into_lineage_segments s"
  have "\<exists>ds. lineage_records cfg s iid label fz = Inr ds \<and> length ds = length ?segs \<and>
    (\<forall>k<length ?segs. record_ready (se_session_id s) iid ''lineage'' k (length ?segs)
      (st_all_token_ids (last (sg_steps (?segs ! k)))) (ds ! k))"
    unfolding lineage_records_def Let_def using tito_record_ready [OF assms nth_mem] by (intro rmap_enumerate) simp
  then show ?thesis by auto
qed

lemma timeline_records_ready:
  assumes "tito_session_ok s" "\<forall>st\<in>set (se_steps s). step_local st"
  shows "\<exists>ds. timeline_records cfg s iid label fz drawn = Inr ds \<and> length ds = length (se_steps s) \<and>
    (\<forall>k<length ds. record_ready (se_session_id s) iid ''timeline'' k (length ds) (st_all_token_ids (se_steps s ! k)) (ds ! k))"
proof -
  let ?segs = "split_session_into_timeline_segments s"
  have "\<exists>ds. timeline_records cfg s iid label fz drawn = Inr ds \<and> length ds = length ?segs \<and>
    (\<forall>k<length ?segs. record_ready (se_session_id s) iid ''timeline'' k (length ?segs)
      (st_all_token_ids (last (sg_steps (?segs ! k)))) (ds ! k))"
    unfolding timeline_records_def Let_def using snapshot_record_ready [OF assms nth_mem] by (intro rmap_enumerate) simp
  then show ?thesis by (auto simp: split_session_into_timeline_segments_def)
qed

lemma zip_append_map:
  "rmap f (zip (xs @ ys) (map g [0..<length (xs @ ys)])) =
    rbind (rmap f (zip xs (map g [0..<length xs]))) (\<lambda>us.
      rbind (rmap f (zip ys (map (\<lambda>k. g (length xs + k)) [0..<length ys]))) (\<lambda>vs. Inr (us @ vs)))"
proof -
  have "map g [0..<length (xs @ ys)] = map g [0..<length xs] @ map (\<lambda>k. g (length xs + k)) [0..<length ys]"
    by (auto intro!: nth_equalityI simp: nth_append)
  moreover have "rmap f (us @ vs) = rbind (rmap f us) (\<lambda>a. rbind (rmap f vs) (\<lambda>b. Inr (a @ b)))" for us vs
    by (induction us) (auto simp: rbind_def split: sum.splits)
  ultimately show ?thesis by simp
qed

lemma items_from_ready_records:
  assumes "\<And>k. k < length ds \<Longrightarrow> record_ready tid iid view k (length ds) (tokens k) (ds ! k)" "tid \<noteq> []"
  shows "\<exists>xs. rmap (\<lambda>(d, u1, u2, u3). item_from_dict u1 u2 u3 now d)
      (zip (map (mark_finalized fid) ds) (map g [0..<length ds])) = Inr xs \<and> length xs = length ds \<and>
    (\<forall>k<length xs. item_ready lib fid tid iid view k (length xs) (tokens k) (xs ! k))"
proof -
  have "\<exists>x. item_from_dict (fst (g k)) (fst (snd (g k))) (snd (snd (g k))) now (mark_finalized fid (ds ! k)) = Inr x \<and>
      item_ready lib fid tid iid view k (length ds) (tokens k) x" if "k < length ds" for k
    using item_from_ready_record [OF assms(1) [OF that] assms(2)] by blast
  then obtain h where h: "\<And>k. k < length ds \<Longrightarrow>
      item_from_dict (fst (g k)) (fst (snd (g k))) (snd (snd (g k))) now (mark_finalized fid (ds ! k)) = Inr (h k) \<and>
      item_ready lib fid tid iid view k (length ds) (tokens k) (h k)" by metis
  have "rmap (\<lambda>(d, u1, u2, u3). item_from_dict u1 u2 u3 now d)
      (zip (map (mark_finalized fid) ds) (map g [0..<length ds])) = Inr (map h [0..<length ds])"
    unfolding rmap_eq_Inr_iff using h by (auto simp: list_all2_conv_all_nth split_def)
  then show ?thesis using h by auto
qed

lemma finalize_batch_ready:
  assumes "tito_session_ok s" "\<forall>st\<in>set (se_steps s). step_local st" "se_steps s \<noteq> []" "pc_tito_mode cfg"
    and "se_session_id s \<noteq> []" "fid \<noteq> []"
  shows "\<exists>records items. finalize_records cfg s iid label fz =
      Inr (records, length (split_session_into_lineage_segments s), length (se_steps s)) \<and>
    write_many lib (map g [0..<length records]) (map (mark_finalized fid) records) now store =
      (Inr items, write_items items now store) \<and>
    map ti_tokens items =
      map (\<lambda>seg. st_all_token_ids (last (sg_steps seg))) (split_session_into_lineage_segments s) @
      map st_all_token_ids (se_steps s)"
proof -
  let ?segs = "split_session_into_lineage_segments s"
  obtain ls where ls: "lineage_records cfg s iid label fz = Inr ls" "length ls = length ?segs"
    "\<And>k. k < length ls \<Longrightarrow> record_ready (se_session_id s) iid ''lineage'' k (length ls)
      (st_all_token_ids (last (sg_steps (?segs ! k)))) (ls ! k)"
    using lineage_records_ready [OF assms(1,2)] by metis
  obtain ts where ts: "timeline_records cfg s iid label fz (length ls) = Inr ts" "length ts = length (se_steps s)"
    "\<And>k. k < length ts \<Longrightarrow> record_ready (se_session_id s) iid ''timeline'' k (length ts)
      (st_all_token_ids (se_steps s ! k)) (ts ! k)"
    using timeline_records_ready [OF assms(1,2)] by metis
  obtain xs where xs: "rmap (\<lambda>(d, u1, u2, u3). item_from_dict u1 u2 u3 now d)
      (zip (map (mark_finalized fid) ls) (map g [0..<length ls])) = Inr xs" "length xs = length ls"
    "\<And>k. k < length xs \<Longrightarrow> item_ready lib fid (se_session_id s) iid ''lineage'' k (length xs)
      (st_all_token_ids (last (sg_steps (?segs ! k)))) (xs ! k)"
    using items_from_ready_records [OF ls(3) assms(5)] by metis
  obtain ys where ys: "rmap (\<lambda>(d, u1, u2, u3). item_from_dict u1 u2 u3 now d)
      (zip (map (mark_finalized fid) ts) (map (\<lambda>k. g (length ls + k)) [0..<length ts])) = Inr ys" "length ys = length ts"
    "\<And>k. k < length ys \<Longrightarrow> item_ready lib fid (se_session_id s) iid ''timeline'' k (length ys)
      (st_all_token_ids (se_steps s ! k)) (ys ! k)"
    using items_from_ready_records [OF ts(3) assms(5)] by metis
  have "mset (concat (map sg_steps ?segs)) = mset (se_steps s)"
    using lineage_segments_mset assms(1) by (simp add: tito_session_ok_def)
  then have "?segs \<noteq> []" using assms(3) by auto
  then have "xs \<noteq> []" "ys \<noteq> []" using xs(2) ls(2) ys(2) ts(2) assms(3) by auto
  then have valid: "validate_finalized_batch lib (xs @ ys) = Inr ()"
    using ready_batch_valid [OF _ _ assms(6) xs(3) ys(3)] by blast
  have "map ti_tokens xs = map (\<lambda>seg. st_all_token_ids (last (sg_steps seg))) ?segs"
    "map ti_tokens ys = map st_all_token_ids (se_steps s)"
    using xs(2,3) ls(2) ys(2,3) ts(2) by (auto intro!: nth_equalityI simp: item_ready_def)
  moreover have "finalize_records cfg s iid label fz = Inr (ls @ ts, length ?segs, length (se_steps s))"
    using assms(4) ls(1) ts(1) by (simp add: finalize_records_def Let_def split_session_into_timeline_segments_def)
  moreover have "write_many lib (map g [0..<length (ls @ ts)]) (map (mark_finalized fid) (ls @ ts)) now store =
      (Inr (xs @ ys), write_items (xs @ ys) now store)"
  proof -
    have "rmap (\<lambda>(d, u1, u2, u3). item_from_dict u1 u2 u3 now d)
        (zip (map (mark_finalized fid) (ls @ ts)) (map g [0..<length (ls @ ts)])) = Inr (xs @ ys)"
      using zip_append_map [of "\<lambda>(d, u1, u2, u3). item_from_dict u1 u2 u3 now d" "map (mark_finalized fid) ls"
          "map (mark_finalized fid) ts" g] xs(1) ys(1) by simp
    then show ?thesis unfolding write_many_def by (simp only: rbind_Inr valid sum.case)
  qed
  ultimately show ?thesis by (metis map_append)
qed

lemma finalize_locked_commits:
  assumes "tito_session_ok s" "\<forall>st\<in>set (se_steps s). step_local st" "se_steps s \<noteq> []" "se_session_id s = sid" "sid \<noteq> []"
    and "pc_tito_mode cfg" "fz_finalization_id fz \<noteq> []" "fq_session_id rq = sid"
    and "get_finalization_result sid now (px_manager st) = (None, m)" "get_session sid m = Some s"
  shows "\<exists>items outcome st2. finalize_locked cfg rq (se_object s) fz now st =
      (Inr (fst (purge_after_finalize sid outcome st2)), snd (purge_after_finalize sid outcome st2)) \<and>
    st2 = st\<lparr>px_store := write_items items now (px_store st), px_manager := snd (finalize_session sid (Some outcome) now m),
      px_rebalancer_sessions := dpop sid (px_rebalancer_sessions st)\<rparr> \<and>
    map ti_tokens items =
      map (\<lambda>seg. st_all_token_ids (last (sg_steps seg))) (split_session_into_lineage_segments s) @
      map st_all_token_ids (se_steps s) \<and>
    fr_num_segments outcome = length (split_session_into_lineage_segments s) \<and> fr_num_steps outcome = length (se_steps s)"
proof -
  define iid where "iid = (if is_set (fq_instance_id rq) then the (fq_instance_id rq) else se_instance_id s)"
  let ?n = "length (split_session_into_lineage_segments s)"
  obtain records items where b: "finalize_records cfg s iid (fq_label rq) fz = Inr (records, ?n, length (se_steps s))"
    "write_many (pc_lib cfg) (map (\<lambda>k. (fz_uid fz k, fz_uid fz k, fz_uid fz k)) [0..<length records])
      (map (mark_finalized (fz_finalization_id fz)) records) now (px_store st) = (Inr items, write_items items now (px_store st))"
    "map ti_tokens items =
      map (\<lambda>seg. st_all_token_ids (last (sg_steps seg))) (split_session_into_lineage_segments s) @
      map st_all_token_ids (se_steps s)"
    using finalize_batch_ready [OF assms(1-3,6) assms(5) [folded assms(4)] assms(7), of iid "fq_label rq" fz "pc_lib cfg"
        "\<lambda>k. (fz_uid fz k, fz_uid fz k, fz_uid fz k)" now "px_store st"] by blast
  define outcome where "outcome = finalization_outcome cfg sid s iid (fz_finalization_id fz) ?n (length (se_steps s))"
  define st2 where "st2 = st\<lparr>px_store := write_items items now (px_store st),
    px_manager := snd (finalize_session sid (Some outcome) now m), px_rebalancer_sessions := dpop sid (px_rebalancer_sessions st)\<rparr>"
  have f: "finalize_locked cfg rq (se_object s) fz now st =
      (Inr (fst (purge_after_finalize sid outcome st2)), snd (purge_after_finalize sid outcome st2))"
    unfolding finalize_locked_def assms(8,9) Let_def prod.case option.case assms(10) iid_def [symmetric] b(1) sum.case
      proxy_state.simps b(2) outcome_def [symmetric]
    using assms(3) by (simp add: b(2) st2_def split: prod.split)
  have "fr_num_segments outcome = ?n" "fr_num_steps outcome = length (se_steps s)"
    by (simp_all add: outcome_def finalization_outcome_def)
  with f b(3) st2_def show ?thesis by blast
qed

lemma purge_after_finalize_frame:
  assumes "get_session sid (px_manager st2) = None" "dget (sm_results (px_manager st2)) sid = Some outcome"
    and "purge_after_finalize sid outcome st2 = (r, st')"
  shows "get_session sid (px_manager st') = None" "dget (sm_results (px_manager st')) sid = Some r"
    "px_store st' = px_store st2" "fr_num_segments r = fr_num_segments outcome" "fr_num_steps r = fr_num_steps outcome"
  using assms
  by (auto simp: purge_after_finalize_def purge_session_def get_session_def Let_def split: option.splits if_splits)


definition sample_session :: Session where
  "sample_session = (run_chats sample_config sample_calls (new_session 0 ''s'' ''i'' 0))
     \<lparr>se_session_id := ''s'', se_object := 0, se_last_active := 0, se_turn_mode := None, se_turn_ids := [],
      se_active_turn_id := None, se_implicit_turn_id := None, se_locked := False\<rparr>"

lemma sample_session_ok: "tito_session_ok sample_session" "\<forall>st\<in>set (se_steps sample_session). step_local st"
proof -
  have f: "\<forall>c\<in>set sample_calls. faithful_generation (fst (snd c))"
    by (simp add: sample_calls_def sample_call_def sample_generate_faithful)
  have "tito_session_ok (run_chats sample_config sample_calls (new_session 0 ''s'' ''i'' 0))"
    by (rule run_chats_tito [OF tito_session_ok_new _ f]) (simp add: sample_config_def)
  then show "tito_session_ok sample_session"
    unfolding sample_session_def tito_session_ok_def session_ok_def lineage_steps_def by simp
  have "\<forall>st\<in>set (se_steps (run_chats sample_config sample_calls (new_session 0 ''s'' ''i'' 0))). step_local st"
    by (rule run_chats_local [OF tito_session_ok_new _ f]) (simp_all add: sample_config_def)
  then show "\<forall>st\<in>set (se_steps sample_session). step_local st" by (simp add: sample_session_def)
qed

lemma sample_session_fields:
  "se_session_id sample_session = ''s''" "se_object sample_session = 0" "se_last_active sample_session = 0"
  "se_turn_mode sample_session = None" "se_turn_ids sample_session = []"
  "se_active_turn_id sample_session = None" "se_implicit_turn_id sample_session = None" "\<not> se_locked sample_session"
  by (simp_all add: sample_session_def)

lemma sample_session_steps: "se_steps sample_session \<noteq> []"
  using sample_run_length by (auto simp: lineage_steps_def sample_session_def)

definition sample_state :: "unit proxy_state" where
  "sample_state = \<lparr>px_manager = (new_manager 10)\<lparr>sm_sessions := [(''s'', sample_session)], sm_allocated := 1\<rparr>,
     px_store = new_store 1 60, px_rebalancer_sessions = [(''s'', ())], px_hooks = None, px_cleared = []\<rparr>"

definition sample_finalize :: finalize_request where
  "sample_finalize = \<lparr>fq_session_id = ''s'', fq_instance_id = None, fq_label = PNone, fq_has_build_mode = False\<rparr>"

definition sample_fresh :: fresh_ids where
  "sample_fresh = \<lparr>fz_finalization_id = ''f'', fz_uid = show_nat, fz_timestamp = (\<lambda>k. [])\<rparr>"

lemma sample_manager_ok: "manager_ok (px_manager sample_state)"
  by (rule manager_okI)
    (simp_all add: sample_state_def new_manager_def sample_session_fields turns_ok_def dict_ok_def split: if_splits)

lemma sample_not_cached: "get_finalization_result ''s'' 0 (px_manager sample_state) = (None, px_manager sample_state)"
  by (simp add: sample_state_def new_manager_def get_finalization_result_def cleanup_expired_def Let_def
      session_expired_def touch_locked_def sample_session_fields)

lemma sample_finalize_succeeds:
  "\<exists>r st'. finalize_locked sample_config sample_finalize 0 sample_fresh 0 sample_state = (Inr r, st')"
proof -
  have g: "get_session ''s'' (px_manager sample_state) = Some sample_session"
    by (simp add: get_session_def sample_state_def)
  show ?thesis
    using finalize_locked_commits [OF sample_session_ok sample_session_steps sample_session_fields(1) _ _ _ _ sample_not_cached g,
        of sample_config sample_fresh sample_finalize]
    by (auto simp: sample_session_fields(2) sample_config_def sample_fresh_def sample_finalize_def)
qed


section \<open>Finalisation is idempotent\<close>

lemma finalize_locked_success:
  assumes "get_finalization_result (fq_session_id rq) now (px_manager st) = (None, m)"
    and "finalize_locked cfg rq object fz now st = (Inr r, st')"
  shows "\<exists>s outcome store final m'. get_session (fq_session_id rq) m = Some s \<and>
    finalize_session (fq_session_id rq) (Some outcome) now m = (final, m') \<and>
    purge_after_finalize (fq_session_id rq) outcome (st\<lparr>px_store := store, px_manager := m',
       px_rebalancer_sessions := dpop (fq_session_id rq) (px_rebalancer_sessions st)\<rparr>) = (r, st')"
  using assms(2) unfolding finalize_locked_def Let_def assms(1)
  by (auto split: option.splits if_splits sum.splits prod.splits)

lemma finalize_locked_keeps_final:
  assumes "manager_ok (px_manager st)" "get_finalization_result (fq_session_id rq) t0 (px_manager st) = (None, m)"
    and "finalize_locked cfg rq object fz t0 st = (Inr r, st')"
  shows "keeps_final (fq_session_id rq) t0 (Some r) (px_manager st') \<and> sm_timeout (px_manager st') = sm_timeout (px_manager st)"
proof -
  let ?sid = "fq_session_id rq"
  have m: "m = cleanup_expired t0 (px_manager st)"
    using assms(2) by (simp add: get_finalization_result_def Let_def)
  then have ok: "manager_ok m" "sm_timeout m = sm_timeout (px_manager st)"
    using cleanup_manager_ok [OF assms(1)] by (simp_all add: cleanup_expired_def Let_def)
  obtain s outcome store final m' where f: "get_session ?sid m = Some s"
    "purge_after_finalize ?sid outcome (st\<lparr>px_store := store, px_manager := m',
       px_rebalancer_sessions := dpop ?sid (px_rebalancer_sessions st)\<rparr>) = (r, st')"
    and m': "finalize_session ?sid (Some outcome) t0 m = (final, m')"
    using finalize_locked_success [OF assms(2,3)] by blast
  let ?m = m'
  have k: "keeps_final ?sid t0 (Some outcome) ?m" "sm_timeout ?m = sm_timeout m"
    using finalize_ok [OF ok(1), of ?sid "Some outcome" t0] m' f(1) [unfolded get_session_def]
    by (auto simp: keeps_final_def finalize_session_def)
  have "keeps_final ?sid t0 (Some r1) (?m\<lparr>sm_results := dset ?sid r1 (sm_results ?m)\<rparr>)" for r1
    using k(1) by (auto simp: keeps_final_def manager_ok_def)
  then show ?thesis
    using f(2) k ok(2) by (auto simp: purge_after_finalize_def purge_session_def Let_def split: option.splits if_splits)
qed



section \<open>Discarding leaves nothing behind\<close>

lemma discard_session_absent:
  "discard_session sid m = (removed, m') \<Longrightarrow>
    \<not> dmem sid (sm_sessions m') \<and> \<not> dmem sid (sm_finalized m') \<and> \<not> dmem sid (sm_results m')"
  by (auto simp: discard_session_def)

lemma unique_refs_cover:
  "r \<in> set rs \<Longrightarrow> (ref_partition r, ref_key r) \<in> set seen \<or>
    (\<exists>r'\<in>set (unique_refs seen rs). ref_partition r' = ref_partition r \<and> ref_key r' = ref_key r)"
  by (induction seen rs rule: unique_refs.induct) auto

lemma clear_refs_cover:
  assumes "r \<in> set refs"
  shows "\<exists>keys. (ref_partition r, keys) \<in> set (clear_refs refs) \<and> ref_key r \<in> set keys"
proof -
  have "dget (group_by ref_partition refs) (ref_partition r) = Some (filter (\<lambda>x. ref_partition x = ref_partition r) refs)"
    using assms by (auto simp: dget_group_by)
  then have "(ref_partition r, filter (\<lambda>x. ref_partition x = ref_partition r) refs) \<in> set (group_by ref_partition refs)"
    by (rule map_of_SomeD)
  then have "(ref_partition r, sort (remdups (map ref_key (filter (\<lambda>x. ref_partition x = ref_partition r) refs)))) \<in>
      set (clear_refs refs)"
    unfolding clear_refs_def by force
  then show ?thesis using assms by force
qed

lemma session_refs_cover:
  assumes "step \<in> set (se_steps s)" "field \<in> set (rt_transfer_fields rt)" "step_field_ref step field = Some r"
  shows "\<exists>r'\<in>set (traj_refs (session_trajectory_ref rt s)). ref_partition r' = ref_partition r \<and> ref_key r' = ref_key r"
proof -
  have "r \<in> set (collect_step_refs step_field_ref (rt_transfer_fields rt) (se_steps s))"
    using assms by (force simp: collect_step_refs_def)
  from unique_refs_cover [OF this, of "[]"] show ?thesis
    by (simp add: session_trajectory_ref_def trajectory_ref_def)
qed

text \<open>
  a discarded session leaves nothing behind.  After the discard the session is in none of the
  manager's tables, its trajectory is gone from the store while every other trajectory is
  untouched, the rebalancer has forgotten it, no hook key of it is claimed, and every column of
  the live session that was moved to the TransferQueue has been asked to be cleared there.
\<close>

theorem discard_leaves_nothing:
  assumes "implements es (px_store st)" "handle_discard cfg sid now st = (reply, st')"
  shows "\<not> dmem sid (sm_sessions (px_manager st')) \<and> \<not> dmem sid (sm_finalized (px_manager st')) \<and>
    \<not> dmem sid (sm_results (px_manager st')) \<and>
    implements (filter (\<lambda>x. ti_trajectory_id x \<noteq> sid) es) (px_store st') \<and>
    \<not> dmem sid (px_rebalancer_sessions st') \<and>
    (\<forall>ch. px_hooks st' = Some ch \<longrightarrow> \<not> dmem sid (hc_seen_keys ch)) \<and>
    (\<forall>rt s step field r. pc_transfer cfg = Some rt \<and> get_session sid (px_manager st) = Some s \<and>
      se_incarnation_id s \<noteq> None \<and> step \<in> set (se_steps s) \<and> field \<in> set (rt_transfer_fields rt) \<and>
      step_field_ref step field = Some r \<longrightarrow>
      (\<exists>keys. (ref_partition r, keys) \<in> set (px_cleared st') \<and> ref_key r \<in> set keys))"
proof -
  obtain purged st1 where p: "purge_hooks sid st = (purged, st1)" by fastforce
  have st1: "px_store st1 = px_store st" "px_manager st1 = px_manager st"
    "px_rebalancer_sessions st1 = px_rebalancer_sessions st" "px_cleared st1 = px_cleared st"
    "\<forall>ch. px_hooks st1 = Some ch \<longrightarrow> \<not> dmem sid (hc_seen_keys ch)"
    using p by (auto simp: purge_hooks_def purge_session_def split: option.splits)
  let ?active = "if pc_transfer cfg = None then None else get_session sid (px_manager st)"
  have d: "discard_state cfg sid ?active purged now st1 = (reply, st')"
    using assms(2) p st1(2) by (auto simp: handle_discard_def split: if_splits)
  obtain items store where pop: "pop_trajectory (pc_lib cfg) sid None None now (px_store st) = (items, store)" by fastforce
  have pops: "(\<lambda>x. \<not> pops sid None x) = (\<lambda>x. ti_trajectory_id x \<noteq> sid)" by (auto simp: pops_def fun_eq_iff)
  have imp: "implements (filter (\<lambda>x. ti_trajectory_id x \<noteq> sid) es) store"
    using pop_trajectory_implements(2) [OF assms(1) pop] unfolding pops .
  have fields: "px_store st' = store" "px_rebalancer_sessions st' = dpop sid (px_rebalancer_sessions st)"
    "px_hooks st' = px_hooks st1"
    "\<not> dmem sid (sm_sessions (px_manager st'))" "\<not> dmem sid (sm_finalized (px_manager st'))"
    "\<not> dmem sid (sm_results (px_manager st'))"
    using d pop st1 by (auto simp: discard_state_def Let_def split: prod.splits option.splits dest: discard_session_absent)
  have cleared: "\<exists>keys. (ref_partition r, keys) \<in> set (px_cleared st') \<and> ref_key r \<in> set keys"
    if a: "pc_transfer cfg = Some rt" "get_session sid (px_manager st) = Some s" "se_incarnation_id s \<noteq> None"
      "step \<in> set (se_steps s)" "field \<in> set (rt_transfer_fields rt)" "step_field_ref step field = Some r" for rt s step field r
  proof -
    obtain r' where r': "r' \<in> set (traj_refs (session_trajectory_ref rt s))" "ref_partition r' = ref_partition r"
      "ref_key r' = ref_key r"
      using session_refs_cover [OF a(4-6)] by blast
    have "\<exists>refs. px_cleared st' = px_cleared st @ clear_refs (traj_refs (session_trajectory_ref rt s) @ refs)"
      using d a(1-3) st1(4)
      by (auto simp: discard_state_def Let_def split: prod.splits option.splits) (metis append_Nil2)+
    then obtain refs where c: "px_cleared st' = px_cleared st @ clear_refs (traj_refs (session_trajectory_ref rt s) @ refs)"
      by blast
    have "r' \<in> set (traj_refs (session_trajectory_ref rt s) @ refs)" using r'(1) by simp
    from clear_refs_cover [OF this] show ?thesis using r'(2,3) unfolding c by auto
  qed
  show ?thesis
    using fields imp st1(5) cleared by auto
qed

theorem discard_leaves_nothing_witness:
  "\<not> dmem ''s'' (sm_sessions (px_manager (snd (handle_discard sample_config ''s'' 0 sample_state)))) \<and>
   implements [] (px_store (snd (handle_discard sample_config ''s'' 0 sample_state)))"
proof -
  have "implements [] (px_store sample_state)"
    by (simp add: sample_state_def new_store_def implements_def)
  from discard_leaves_nothing [OF this surjective_pairing, where cfg = sample_config and sid = "''s''" and now = 0]
  show ?thesis by simp
qed

end
