(* ===== verification/Generation_Controller.thy ===== *)
theory Generation_Controller
  imports Proxy_Pipeline
begin

text \<open>
  The preemptible generation controller (\<open>dressage/proxy/generation_controller.py\<close>).  A
  generation asks the backend for tokens, is interrupted when the controller is paused for a
  weight update, and continues after the resume from the tokens it already has; all chunks are
  stitched into one result.

  The code is asynchronous.  The model has one atomic step per stretch of code between two
  points where a coroutine can be suspended: the loop head (waiting for the resume event), the
  check under the pause lock that registers the request, the arrival of the backend's answer or
  exception, the retirement of the request under the lock, and the wake-up after a preemption;
  and for the control plane the locked part of \<open>pause\<close>, the completion of one abort, \<open>resume\<close>,
  \<open>synchronize_version\<close> and the locked part of \<open>shutdown\<close>.  The steps of any number of
  generations and control calls interleave freely.  Objects of \<open>_ActiveGeneration\<close> outlive
  their entry in \<open>_active\<close> (a waiting \<open>pause\<close> holds them), so they live in a table of their own.
  The backend is a parameter: its answers are the arguments of the steps.

  The lemmas show that the bookkeeping is right in every reachable state, that a finished
  generation is the exact concatenation of its chunks within its token budget, that between a
  quiesced \<open>pause\<close> and the next \<open>resume\<close> no request is running, that a shutdown ends every
  generation, and that a \<open>pause\<close> during a shutdown can leave generations waiting for ever.
\<close>

section \<open>Responses, chunks and results\<close>

datatype gen_error =
    ProxyShuttingDown
  | GenerationPreempted
  | GenerationStaleEpoch nat nat
  | GenerationVersionUnavailable
  | GenerationVersionMismatch string string
  | Upstream exn

definition PREEMPT_FINISH_REASONS :: "string list" where
  "PREEMPT_FINISH_REASONS =
     [''abort'', ''aborted'', ''preempt'', ''preempted'', ''cancel'', ''cancelled'', ''canceled'']"

record sglang_response =
  sr_input_token_logprobs_raw :: "pyval list"
  sr_input_token_texts :: "string list"
  sr_output_ids :: "int list"
  sr_output_token_logprobs :: "pyval list"
  sr_output_token_texts :: "string list"
  sr_text :: string
  sr_meta_info :: "(string \<times> pyval) list"
  sr_finish_reason :: string
  sr_input_logprobs_invalid :: bool
  sr_all_logprobs_invalid :: bool
  sr_routed_experts :: "string option"

record GenerationChunk =
  ch_output_ids :: "int list"
  ch_output_logprobs :: "pyval list"
  ch_output_token_texts :: "string list"
  ch_text :: string
  ch_version :: string
  ch_finish_reason :: string
  ch_preempted :: bool

record PreemptibleGenerateResult =
  pg_input_token_ids :: "int list"
  pg_input_token_logprobs_raw :: "pyval list"
  pg_input_token_texts :: "string list"
  pg_output_ids :: "int list"
  pg_output_token_logprobs :: "pyval list"
  pg_output_token_texts :: "string list"
  pg_output_versions :: "string list"
  pg_all_token_ids :: "int list"
  pg_all_logprobs :: "pyval list"
  pg_text :: string
  pg_meta_info :: "(string \<times> pyval) list"
  pg_finish_reason :: string
  pg_all_logprobs_invalid :: bool
  pg_rollout_epoch :: "nat option"
  pg_routed_experts_chunks :: "raw_chunk list"
  pg_chunks :: "GenerationChunk list"

definition str_of :: "py_lib \<Rightarrow> pyval \<Rightarrow> string" where
  "str_of lib v = py_str (py_repr lib) v"

text \<open>\<open>SGLangResponse.weight_version\<close>, which \<open>_response_version\<close> reads first.\<close>

definition response_weight_version :: "py_lib \<Rightarrow> sglang_response \<Rightarrow> string option" where
  "response_weight_version lib r =
     (let v = (case pget (sr_meta_info r) ''weight_version'' of
                 PNone \<Rightarrow> pget (sr_meta_info r) ''version'' | w \<Rightarrow> w)
      in if v = PNone then None else Some (str_of lib v))"

definition response_version :: "py_lib \<Rightarrow> sglang_response \<Rightarrow> string option" where
  "response_version lib r =
     (case response_weight_version lib r of
        Some v \<Rightarrow> Some v
      | None \<Rightarrow> (let v = pget (sr_meta_info r) ''weight_version'' in if v = PNone then None else Some (str_of lib v)))"

definition is_preempted :: "py_lib \<Rightarrow> sglang_response \<Rightarrow> bool" where
  "is_preempted lib r \<longleftrightarrow>
     lower (sr_finish_reason r) \<in> set PREEMPT_FINISH_REASONS \<or>
     (let reason = (case pget (sr_meta_info r) ''finish_reason'' of
                      PDict d \<Rightarrow> (case dget d ''type'' of None \<Rightarrow> [] | Some t \<Rightarrow> str_of lib t)
                    | v \<Rightarrow> (if truthy v then str_of lib v else []))
      in lower reason \<in> set PREEMPT_FINISH_REASONS)"

definition normalize_length :: "'a list \<Rightarrow> nat \<Rightarrow> 'a \<Rightarrow> 'a list" where
  "normalize_length values n fill = take n values @ replicate (n - length values) fill"

text \<open>The answer assumed when the backend ends an aborted request with an exception.\<close>

definition aborted_response :: sglang_response where
  "aborted_response =
     \<lparr>sr_input_token_logprobs_raw = [], sr_input_token_texts = [], sr_output_ids = [], sr_output_token_logprobs = [],
      sr_output_token_texts = [], sr_text = [], sr_meta_info = [(''finish_reason'', PDict [(''type'', PStr ''preempted'')])],
      sr_finish_reason = ''preempted'', sr_input_logprobs_invalid = True, sr_all_logprobs_invalid = True,
      sr_routed_experts = None\<rparr>"

section \<open>One generation\<close>

record gen_args =
  ga_input_ids :: "int list"
  ga_sampling_params :: "(string \<times> pyval) list"
  ga_max_new_tokens :: int
  ga_session_id :: "string option"
  ga_instance_id :: "string option"
  ga_turn_id :: "string option"
  ga_expected_version :: "string option"
  ga_expected_epoch :: "nat option"
  ga_logprob_start_len :: int
  ga_context_window :: "nat option"

text \<open>
  The local variables of the loop.  \<open>generated_ids\<close> and \<open>output_ids\<close> of the source are extended
  by the same tokens and are one list here.
\<close>

record gen_acc =
  ac_chunks :: "GenerationChunk list"
  ac_input_logprobs :: "pyval list"
  ac_input_texts :: "string list"
  ac_output_ids :: "int list"
  ac_output_logprobs :: "pyval list"
  ac_output_texts :: "string list"
  ac_output_versions :: "string list"
  ac_text :: string
  ac_experts :: "raw_chunk list"
  ac_finish_reason :: string
  ac_meta_info :: "(string \<times> pyval) list"
  ac_all_logprobs_invalid :: bool
  ac_rollout_epoch :: "nat option"
  ac_input_logprobs_captured :: bool

definition expect_input_logprobs :: "gen_args \<Rightarrow> bool" where
  "expect_input_logprobs args \<longleftrightarrow> ga_logprob_start_len args = 0"

definition new_acc :: "gen_args \<Rightarrow> gen_acc" where
  "new_acc args =
     \<lparr>ac_chunks = [], ac_input_logprobs = [], ac_input_texts = [], ac_output_ids = [], ac_output_logprobs = [],
      ac_output_texts = [], ac_output_versions = [], ac_text = [], ac_experts = [], ac_finish_reason = ''stop'',
      ac_meta_info = [], ac_all_logprobs_invalid = False, ac_rollout_epoch = None,
      ac_input_logprobs_captured = (\<not> expect_input_logprobs args \<or> ga_input_ids args = [])\<rparr>"

definition loop_continues :: "gen_args \<Rightarrow> gen_acc \<Rightarrow> bool" where
  "loop_continues args acc \<longleftrightarrow> ga_max_new_tokens args \<le> 0 \<or> int (length (ac_output_ids acc)) < ga_max_new_tokens args"

text \<open>The sampling parameters of the next request.\<close>

definition chunk_sampling_params :: "gen_args \<Rightarrow> gen_acc \<Rightarrow> (string \<times> pyval) list" where
  "chunk_sampling_params args acc =
     (if ga_max_new_tokens args \<le> 0 then ga_sampling_params args
      else dset ''max_new_tokens'' (PInt (ga_max_new_tokens args - int (length (ac_output_ids acc)))) (ga_sampling_params args))"

definition check_version :: "py_lib \<Rightarrow> gen_args \<Rightarrow> sglang_response \<Rightarrow> gen_error + string option" where
  "check_version lib args r =
     (let observed = response_version lib r in
      case ga_expected_version args of
        None \<Rightarrow> Inr observed
      | Some e \<Rightarrow> (case observed of
                    None \<Rightarrow> Inl GenerationVersionUnavailable
                  | Some v \<Rightarrow> (if v \<noteq> e then Inl (GenerationVersionMismatch e v) else Inr observed)))"

definition or_unknown :: "string option \<Rightarrow> string" where
  "or_unknown v = (case v of Some (c # cs) \<Rightarrow> c # cs | _ \<Rightarrow> ''unknown'')"

definition update_input_fields :: "gen_args \<Rightarrow> sglang_response \<Rightarrow> gen_acc \<Rightarrow> gen_acc" where
  "update_input_fields args r acc =
     (let n = length (ga_input_ids args); given = take n (sr_input_token_logprobs_raw r); expect = expect_input_logprobs args;
          captured = ac_input_logprobs_captured acc
      in acc\<lparr>ac_input_logprobs :=
               (if given \<noteq> [] \<and> (ac_input_logprobs acc = [] \<or> expect \<and> \<not> captured \<and> \<not> sr_input_logprobs_invalid r)
                then given else ac_input_logprobs acc),
             ac_input_logprobs_captured :=
               (captured \<or> expect \<and> length given = n \<and> \<not> sr_input_logprobs_invalid r),
             ac_input_texts := (if ac_input_texts acc = [] then take n (sr_input_token_texts r) else ac_input_texts acc)\<rparr>)"

definition append_chunk :: "gen_args \<Rightarrow> sglang_response \<Rightarrow> string \<Rightarrow> bool \<Rightarrow> gen_acc \<Rightarrow> gen_acc" where
  "append_chunk args r version preempted acc =
     (let request_token_count = length (ga_input_ids args) + length (ac_output_ids acc) in
      acc\<lparr>ac_chunks := ac_chunks acc @
            [\<lparr>ch_output_ids = sr_output_ids r, ch_output_logprobs = sr_output_token_logprobs r,
              ch_output_token_texts = sr_output_token_texts r, ch_text = sr_text r, ch_version = version,
              ch_finish_reason = sr_finish_reason r, ch_preempted = preempted\<rparr>],
          ac_output_ids := ac_output_ids acc @ sr_output_ids r,
          ac_output_logprobs := ac_output_logprobs acc @ sr_output_token_logprobs r,
          ac_output_texts := ac_output_texts acc @ sr_output_token_texts r,
          ac_output_versions := ac_output_versions acc @ replicate (length (sr_output_ids r)) version,
          ac_text := ac_text acc @ sr_text r,
          ac_experts := ac_experts acc @
            (case sr_routed_experts r of
               Some payload \<Rightarrow>
                 (if sr_output_ids r \<noteq> [] \<or> \<not> preempted
                  then [\<lparr>raw_prefix_token_count = int request_token_count,
                         raw_output_token_count = int (length (sr_output_ids r)),
                         raw_is_first_chunk = (request_token_count = length (ga_input_ids args)), raw_data = payload\<rparr>]
                  else [])
             | None \<Rightarrow> []),
          ac_finish_reason := sr_finish_reason r,
          ac_meta_info := dpop ''routed_experts'' (sr_meta_info r),
          ac_all_logprobs_invalid := (ac_all_logprobs_invalid acc \<or> sr_all_logprobs_invalid r)\<rparr>)"

definition context_exceeded :: "gen_args \<Rightarrow> gen_acc \<Rightarrow> bool" where
  "context_exceeded args acc \<longleftrightarrow>
     (case ga_context_window args of
        None \<Rightarrow> False
      | Some w \<Rightarrow> length (ga_input_ids args) + length (ac_output_ids acc) > w)"

definition mark_overflow :: "gen_args \<Rightarrow> gen_acc \<Rightarrow> gen_acc" where
  "mark_overflow args acc =
     acc\<lparr>ac_meta_info := dset ''context_overflow'' (PDict
            [(''phase'', PStr ''input_output''),
             (''context_window'', PInt (case ga_context_window args of Some w \<Rightarrow> int w | None \<Rightarrow> 0)),
             (''input_tokens'', PInt (int (length (ga_input_ids args)))),
             (''output_tokens'', PInt (int (length (ac_output_ids acc)))),
             (''total_tokens'', PInt (int (length (ga_input_ids args) + length (ac_output_ids acc)))),
             (''max_tokens'', PInt (ga_max_new_tokens args)),
             (''session_id'', case ga_session_id args of Some s \<Rightarrow> PStr s | None \<Rightarrow> PNone),
             (''turn_id'', case ga_turn_id args of Some s \<Rightarrow> PStr s | None \<Rightarrow> PNone),
             (''last_proxy_step_recorded'', PBool False)]) (ac_meta_info acc),
         ac_finish_reason := ''length''\<rparr>"

definition chunk_summary :: "GenerationChunk \<Rightarrow> pyval" where
  "chunk_summary c = PDict [(''num_output_tokens'', PInt (int (length (ch_output_ids c)))), (''version'', PStr (ch_version c)),
     (''finish_reason'', PStr (ch_finish_reason c)), (''preempted'', PBool (ch_preempted c))]"

definition generation_result :: "gen_args \<Rightarrow> gen_acc \<Rightarrow> PreemptibleGenerateResult" where
  "generation_result args acc =
     (let n = length (ga_input_ids args);
          full_input_logprobs = normalize_length (ac_input_logprobs acc) n (PFloat (Fin 0));
          meta = dset ''partial_rollout_chunks'' (PList (map chunk_summary (ac_chunks acc))) (ac_meta_info acc)
      in \<lparr>pg_input_token_ids = ga_input_ids args, pg_input_token_logprobs_raw = full_input_logprobs,
          pg_input_token_texts = normalize_length (ac_input_texts acc) n [], pg_output_ids = ac_output_ids acc,
          pg_output_token_logprobs = ac_output_logprobs acc, pg_output_token_texts = ac_output_texts acc,
          pg_output_versions = ac_output_versions acc, pg_all_token_ids = ga_input_ids args @ ac_output_ids acc,
          pg_all_logprobs = full_input_logprobs @ ac_output_logprobs acc, pg_text = ac_text acc,
          pg_meta_info = (if ac_output_versions acc = [] then meta
                          else dset ''weight_version'' (PStr (last (ac_output_versions acc))) meta),
          pg_finish_reason = ac_finish_reason acc, pg_all_logprobs_invalid = ac_all_logprobs_invalid acc,
          pg_rollout_epoch = ac_rollout_epoch acc, pg_routed_experts_chunks = ac_experts acc, pg_chunks = ac_chunks acc\<rparr>)"

section \<open>The controller\<close>

datatype active_state = ActiveRunning | ActivePreempting | ActiveQuiesced

record ActiveGeneration =
  ag_session_id :: "string option"
  ag_instance_id :: "string option"
  ag_turn_id :: "string option"
  ag_input_ids :: "int list"
  ag_generated_ids_at_start :: "int list"
  ag_sampling_params :: "(string \<times> pyval) list"
  ag_state :: active_state
  ag_abort_succeeded :: bool
  ag_preempted_chunk_collected :: bool

text \<open>
  \<open>gc_active\<close> holds the keys of \<open>_active\<close> in order; the objects are in \<open>gc_objects\<close>.  An
  object's \<open>quiesced_event\<close> is set exactly when its state is quiesced.
\<close>

record controller =
  gc_partial_rollout :: bool
  gc_resume_event :: bool
  gc_paused :: bool
  gc_pause_reason :: "string option"
  gc_current_version :: "string option"
  gc_rollout_epoch :: nat
  gc_shutting_down :: bool
  gc_active :: "string list"
  gc_objects :: "(string, ActiveGeneration) dict"
  gc_suspended :: nat

definition new_controller :: "bool \<Rightarrow> controller" where
  "new_controller partial =
     \<lparr>gc_partial_rollout = partial, gc_resume_event = True, gc_paused = False, gc_pause_reason = None,
      gc_current_version = None, gc_rollout_epoch = 0, gc_shutting_down = False, gc_active = [], gc_objects = [],
      gc_suspended = 0\<rparr>"

definition update_object :: "string \<Rightarrow> (ActiveGeneration \<Rightarrow> ActiveGeneration) \<Rightarrow> controller \<Rightarrow> controller" where
  "update_object rid f c =
     (case dget (gc_objects c) rid of
        None \<Rightarrow> c
      | Some a \<Rightarrow> c\<lparr>gc_objects := dset rid (f a) (gc_objects c)\<rparr>)"

definition raise_if_stopped :: "gen_args \<Rightarrow> controller \<Rightarrow> gen_error + unit" where
  "raise_if_stopped args c =
     (if gc_shutting_down c then Inl ProxyShuttingDown
      else case ga_expected_epoch args of
        None \<Rightarrow> Inr ()
      | Some e \<Rightarrow> (if gc_rollout_epoch c \<noteq> e then Inl (GenerationStaleEpoch e (gc_rollout_epoch c)) else Inr ()))"

definition matches :: "string option \<Rightarrow> string option \<Rightarrow> ActiveGeneration \<Rightarrow> bool" where
  "matches session_id instance_id a \<longleftrightarrow>
     (session_id = None \<or> ag_session_id a = session_id) \<and> (instance_id = None \<or> ag_instance_id a = instance_id)"

definition selected :: "string option \<Rightarrow> string option \<Rightarrow> controller \<Rightarrow> string list" where
  "selected session_id instance_id c =
     filter (\<lambda>rid. case dget (gc_objects c) rid of Some a \<Rightarrow> matches session_id instance_id a | None \<Rightarrow> False) (gc_active c)"

text \<open>The locked part of \<open>pause\<close>; the requests it is going to abort and wait for are \<open>selected\<close>.\<close>

definition pause_begin :: "string option \<Rightarrow> string option \<Rightarrow> string \<Rightarrow> controller \<Rightarrow> controller" where
  "pause_begin session_id instance_id reason c =
     fold (\<lambda>rid. update_object rid (\<lambda>a. a\<lparr>ag_state := ActivePreempting\<rparr>)) (selected session_id instance_id c)
       (c\<lparr>gc_paused := True, gc_pause_reason := Some reason, gc_resume_event := False\<rparr>)"

definition abort_done :: "string \<Rightarrow> bool \<Rightarrow> controller \<Rightarrow> controller" where
  "abort_done rid ok c = update_object rid (\<lambda>a. a\<lparr>ag_abort_succeeded := ok\<rparr>) c"

definition is_quiesced :: "controller \<Rightarrow> string \<Rightarrow> bool" where
  "is_quiesced c rid = (case dget (gc_objects c) rid of Some a \<Rightarrow> ag_state a = ActiveQuiesced | None \<Rightarrow> False)"

text \<open>What \<open>pause\<close> reports once its aborts are settled and its wait has ended or timed out.\<close>

record pause_report =
  pr_quiesced :: bool
  pr_preempted :: bool
  pr_fallback :: bool
  pr_active_generations :: nat
  pr_suspended_generations :: nat
  pr_version :: "string option"

definition pause_end :: "string list \<Rightarrow> string list \<Rightarrow> controller \<Rightarrow> pause_report" where
  "pause_end rids failed c =
     (let quiesced = list_all (is_quiesced c) rids;
          preempted = filter (\<lambda>rid. case dget (gc_objects c) rid of Some a \<Rightarrow> ag_preempted_chunk_collected a | None \<Rightarrow> False) rids
      in \<lparr>pr_quiesced = quiesced, pr_preempted = (preempted \<noteq> []),
          pr_fallback = (failed \<noteq> [] \<and> quiesced \<and> preempted = []),
          pr_active_generations = (if quiesced then 0 else length (filter (\<lambda>rid. \<not> is_quiesced c rid) rids)),
          pr_suspended_generations = gc_suspended c, pr_version = gc_current_version c\<rparr>)"

datatype resume_status = ResumeShuttingDown | BackendNotReady | Resumed | AlreadyRunning

text \<open>
  \<open>ready\<close> is the answer of the backend's readiness probe, which is asked only when paused.  The
  probe runs under the lock, so that paused and shutting-down do not change meanwhile.
\<close>

definition resume :: "string option \<Rightarrow> bool \<Rightarrow> controller \<Rightarrow> resume_status \<times> controller" where
  "resume version ready c =
     (if gc_shutting_down c then (ResumeShuttingDown, c)
      else if gc_paused c \<and> \<not> ready then (BackendNotReady, c)
      else (if gc_paused c then Resumed else AlreadyRunning,
            c\<lparr>gc_current_version := (case version of None \<Rightarrow> gc_current_version c | Some v \<Rightarrow> Some v),
              gc_rollout_epoch := (if gc_paused c then Suc (gc_rollout_epoch c) else gc_rollout_epoch c),
              gc_paused := False, gc_pause_reason := None, gc_resume_event := True\<rparr>))"

datatype sync_status = SyncBusy | Synchronized bool

definition synchronize_version :: "string \<Rightarrow> controller \<Rightarrow> sync_status result \<times> controller" where
  "synchronize_version version c =
     (let normalized = strip version in
      if normalized = [] then (Inl (ValueError ''version must be non-empty''), c)
      else if gc_active c \<noteq> [] \<or> gc_paused c \<or> gc_shutting_down c then (Inr SyncBusy, c)
      else let changed = (gc_current_version c \<noteq> Some normalized) in
        (Inr (Synchronized changed),
         c\<lparr>gc_current_version := Some normalized,
           gc_rollout_epoch := (if changed then Suc (gc_rollout_epoch c) else gc_rollout_epoch c)\<rparr>))"

definition shutdown_begin :: "controller \<Rightarrow> controller" where
  "shutdown_begin c =
     fold (\<lambda>rid. update_object rid (\<lambda>a. a\<lparr>ag_state := ActivePreempting\<rparr>)) (gc_active c)
       (c\<lparr>gc_shutting_down := True, gc_paused := True, gc_pause_reason := Some ''shutdown'', gc_resume_event := True\<rparr>)"

section \<open>Interleaved execution\<close>

text \<open>Where a generation is: each constructor is a point at which its coroutine can be suspended.\<close>

datatype gen_phase =
    AtHead
  | AtLock
  | Running string
  | Collected string bool
  | Failing string gen_error
  | Suspended
  | Finished PreemptibleGenerateResult
  | Raised gen_error

record generation =
  gn_args :: gen_args
  gn_acc :: gen_acc
  gn_phase :: gen_phase

type_synonym system = "controller \<times> (nat, generation) dict"

definition read_max_new_tokens :: "(string \<times> pyval) list \<Rightarrow> int result" where
  "read_max_new_tokens params =
     (let v = pget params ''max_new_tokens'' in py_int (if truthy v then v else PInt 0))"

definition start_generation :: "gen_args \<Rightarrow> controller \<Rightarrow> generation" where
  "start_generation args c =
     (if gc_shutting_down c then \<lparr>gn_args = args, gn_acc = new_acc args, gn_phase = Raised ProxyShuttingDown\<rparr>
      else case read_max_new_tokens (ga_sampling_params args) of
        Inl e \<Rightarrow> \<lparr>gn_args = args, gn_acc = new_acc args, gn_phase = Raised (Upstream e)\<rparr>
      | Inr n \<Rightarrow> (let args' = args\<lparr>ga_max_new_tokens := n\<rparr>
                 in \<lparr>gn_args = args', gn_acc = new_acc args', gn_phase = AtHead\<rparr>))"

text \<open>The loop head, once the resume event is set or the loop condition has failed.\<close>

definition at_head :: "controller \<Rightarrow> generation \<Rightarrow> generation option" where
  "at_head c g =
     (if \<not> loop_continues (gn_args g) (gn_acc g)
      then Some (g\<lparr>gn_phase := Finished (generation_result (gn_args g) (gn_acc g))\<rparr>)
      else if \<not> gc_resume_event c then None
      else Some (g\<lparr>gn_phase := (case raise_if_stopped (gn_args g) c of Inl e \<Rightarrow> Raised e | Inr _ \<Rightarrow> AtLock)\<rparr>))"

definition at_lock :: "string \<Rightarrow> controller \<Rightarrow> generation \<Rightarrow> controller \<times> generation" where
  "at_lock rid c g =
     (case raise_if_stopped (gn_args g) c of
        Inl e \<Rightarrow> (c, g\<lparr>gn_phase := Raised e\<rparr>)
      | Inr _ \<Rightarrow>
          (if gc_paused c then (c, g\<lparr>gn_phase := AtHead\<rparr>)
           else (c\<lparr>gc_active := gc_active c @ [rid],
                   gc_objects := dset rid
                     \<lparr>ag_session_id = ga_session_id (gn_args g), ag_instance_id = ga_instance_id (gn_args g),
                      ag_turn_id = ga_turn_id (gn_args g), ag_input_ids = ga_input_ids (gn_args g),
                      ag_generated_ids_at_start = ac_output_ids (gn_acc g),
                      ag_sampling_params = chunk_sampling_params (gn_args g) (gn_acc g), ag_state = ActiveRunning,
                      ag_abort_succeeded = False, ag_preempted_chunk_collected = False\<rparr> (gc_objects c)\<rparr>,
                 g\<lparr>gn_phase := Running rid,
                   gn_acc := (gn_acc g)\<lparr>ac_rollout_epoch :=
                     (case ac_rollout_epoch (gn_acc g) of None \<Rightarrow> Some (gc_rollout_epoch c) | Some e \<Rightarrow> Some e)\<rparr>\<rparr>)))"

definition abort_succeeded :: "controller \<Rightarrow> string \<Rightarrow> bool" where
  "abort_succeeded c rid = (case dget (gc_objects c) rid of Some a \<Rightarrow> ag_abort_succeeded a | None \<Rightarrow> False)"

text \<open>The answer of the backend, up to the point where the lock is taken to retire the request.\<close>

definition on_response :: "py_lib \<Rightarrow> string \<Rightarrow> sglang_response \<Rightarrow> controller \<Rightarrow> generation \<Rightarrow> controller \<times> generation" where
  "on_response lib rid r c g =
     (let args = gn_args g; acc = update_input_fields args r (gn_acc g) in
      case check_version lib args r of
        Inl e \<Rightarrow> (c, g\<lparr>gn_acc := acc, gn_phase := Failing rid e\<rparr>)
      | Inr observed \<Rightarrow>
          (let version = or_unknown observed; preempted = (abort_succeeded c rid \<or> is_preempted lib r) in
           (if version = ''unknown'' then c else c\<lparr>gc_current_version := Some version\<rparr>,
            g\<lparr>gn_acc := append_chunk args r version preempted acc, gn_phase := Collected rid preempted\<rparr>)))"

definition on_exception :: "py_lib \<Rightarrow> string \<Rightarrow> exn \<Rightarrow> controller \<Rightarrow> generation \<Rightarrow> controller \<times> generation" where
  "on_exception lib rid e c g =
     (if gc_shutting_down c then (c, g\<lparr>gn_phase := Failing rid ProxyShuttingDown\<rparr>)
      else if \<not> abort_succeeded c rid then (c, g\<lparr>gn_phase := Failing rid (Upstream e)\<rparr>)
      else on_response lib rid aborted_response c g)"

definition retire :: "string \<Rightarrow> bool \<Rightarrow> controller \<Rightarrow> controller" where
  "retire rid preempted c =
     update_object rid (\<lambda>a. a\<lparr>ag_state := ActiveQuiesced, ag_preempted_chunk_collected := preempted\<rparr>)
       (c\<lparr>gc_active := removeAll rid (gc_active c)\<rparr>)"

definition after_chunk :: "bool \<Rightarrow> controller \<Rightarrow> generation \<Rightarrow> controller \<times> generation" where
  "after_chunk preempted c g =
     (let args = gn_args g; acc = gn_acc g in
      if preempted \<and> \<not> gc_partial_rollout c then (c, g\<lparr>gn_phase := Raised GenerationPreempted\<rparr>)
      else if context_exceeded args acc
      then (c, g\<lparr>gn_acc := mark_overflow args acc, gn_phase := Finished (generation_result args (mark_overflow args acc))\<rparr>)
      else if \<not> preempted then (c, g\<lparr>gn_phase := Finished (generation_result args acc)\<rparr>)
      else (c\<lparr>gc_suspended := Suc (gc_suspended c)\<rparr>, g\<lparr>gn_phase := Suspended\<rparr>))"

definition at_wake :: "controller \<Rightarrow> generation \<Rightarrow> (controller \<times> generation) option" where
  "at_wake c g =
     (if \<not> gc_resume_event c then None
      else Some (c\<lparr>gc_suspended := gc_suspended c - 1\<rparr>,
                 g\<lparr>gn_phase := (if gc_shutting_down c then Raised ProxyShuttingDown else AtHead)\<rparr>))"

datatype gc_event =
    Call nat gen_args
  | Head nat
  | Lock nat string
  | Respond nat "exn + sglang_response"
  | Quiesce nat
  | Wake nat
  | Pause "string option" "string option" string
  | AbortDone string bool
  | Resume "string option" bool
  | Sync string
  | Shutdown

text \<open>
  One atomic step; \<open>None\<close> means that the step is not possible.  Request ids are random: the one a
  request draws has not been used before.
\<close>

definition gc_step :: "py_lib \<Rightarrow> gc_event \<Rightarrow> system \<Rightarrow> system option" where
  "gc_step lib ev sys = (let (c, gs) = sys in
     (case ev of
        Call i args \<Rightarrow> (if dmem i gs then None else Some (c, dset i (start_generation args c) gs))
      | Head i \<Rightarrow>
          (case dget gs i of
             Some g \<Rightarrow> (if gn_phase g = AtHead then map_option (\<lambda>g'. (c, dset i g' gs)) (at_head c g) else None)
           | None \<Rightarrow> None)
      | Lock i rid \<Rightarrow>
          (case dget gs i of
             Some g \<Rightarrow> (if gn_phase g = AtLock \<and> \<not> dmem rid (gc_objects c)
                       then (let (c', g') = at_lock rid c g in Some (c', dset i g' gs)) else None)
           | None \<Rightarrow> None)
      | Respond i answer \<Rightarrow>
          (case dget gs i of
             Some g \<Rightarrow>
               (case gn_phase g of
                  Running rid \<Rightarrow>
                    (let (c', g') = (case answer of Inl e \<Rightarrow> on_exception lib rid e c g | Inr r \<Rightarrow> on_response lib rid r c g)
                     in Some (c', dset i g' gs))
                | _ \<Rightarrow> None)
           | None \<Rightarrow> None)
      | Quiesce i \<Rightarrow>
          (case dget gs i of
             Some g \<Rightarrow>
               (case gn_phase g of
                  Collected rid preempted \<Rightarrow>
                    (let (c', g') = after_chunk preempted (retire rid preempted c) g in Some (c', dset i g' gs))
                | Failing rid e \<Rightarrow> Some (retire rid False c, dset i (g\<lparr>gn_phase := Raised e\<rparr>) gs)
                | _ \<Rightarrow> None)
           | None \<Rightarrow> None)
      | Wake i \<Rightarrow>
          (case dget gs i of
             Some g \<Rightarrow> (if gn_phase g = Suspended then map_option (\<lambda>(c', g'). (c', dset i g' gs)) (at_wake c g) else None)
           | None \<Rightarrow> None)
      | Pause sid iid reason \<Rightarrow> Some (pause_begin sid iid reason c, gs)
      | AbortDone rid ok \<Rightarrow> Some (abort_done rid ok c, gs)
      | Resume version ready \<Rightarrow> Some (snd (resume version ready c), gs)
      | Sync version \<Rightarrow> Some (snd (synchronize_version version c), gs)
      | Shutdown \<Rightarrow> Some (shutdown_begin c, gs)))"

inductive gc_moves :: "py_lib \<Rightarrow> system \<Rightarrow> system \<Rightarrow> bool" for lib where
  "gc_step lib ev s = Some t \<Longrightarrow> gc_moves lib s t"

inductive_cases gc_movesE: "gc_moves lib s t"

fun run_gc :: "py_lib \<Rightarrow> gc_event list \<Rightarrow> system \<Rightarrow> system option" where
  "run_gc lib [] s = Some s"
| "run_gc lib (ev # evs) s = (case gc_step lib ev s of None \<Rightarrow> None | Some t \<Rightarrow> run_gc lib evs t)"

text \<open>How the chat handler turns the exceptions of a generation into HTTP errors.\<close>

definition generation_http_error :: "gen_error \<Rightarrow> exn" where
  "generation_http_error e =
     (case e of
        GenerationVersionMismatch x y \<Rightarrow> HTTPException 502 ''weight_version_mismatch''
      | GenerationVersionUnavailable \<Rightarrow> HTTPException 502 ''weight_version_unavailable''
      | GenerationStaleEpoch x y \<Rightarrow> HTTPException 502 ''trajectory_version_changed''
      | GenerationPreempted \<Rightarrow> HTTPException 502 ''generation_preempted''
      | ProxyShuttingDown \<Rightarrow> HTTPException 503 ''proxy_shutting_down''
      | Upstream x \<Rightarrow> (if x = OtherError ''httpx.RequestError''
          then HTTPException 503 ''sglang_upstream_unavailable'' else x))"

definition optional_response_duration :: "py_lib \<Rightarrow> pyval \<Rightarrow> real option" where
  "optional_response_duration lib v =
     (case v of
        PBool b \<Rightarrow> None
      | _ \<Rightarrow> (case py_float lib v of Some (Fin x) \<Rightarrow> (if 0 \<le> x then Some x else None) | _ \<Rightarrow> None))"

text \<open>The view of a result the chat handler works with.\<close>

definition chat_view :: "py_lib \<Rightarrow> PreemptibleGenerateResult \<Rightarrow> generation_response" where
  "chat_view lib p =
     \<lparr>gr_text = pg_text p, gr_output_ids = pg_output_ids p, gr_output_token_logprobs = pg_output_token_logprobs p,
      gr_output_versions = pg_output_versions p,
      gr_weight_version = (if pg_output_versions p \<noteq> [] then Some (last (pg_output_versions p))
        else case pget (pg_meta_info p) ''weight_version'' of PNone \<Rightarrow> None | v \<Rightarrow> Some (str_of lib v)),
      gr_all_token_ids = pg_all_token_ids p, gr_all_logprobs = pg_all_logprobs p,
      gr_input_token_logprobs_raw = pg_input_token_logprobs_raw p, gr_all_logprobs_invalid = pg_all_logprobs_invalid p,
      gr_input_token_texts = pg_input_token_texts p, gr_output_token_texts = pg_output_token_texts p,
      gr_finish_reason = pg_finish_reason p,
      gr_context_overflow = (case pget (pg_meta_info p) ''context_overflow'' of PDict d \<Rightarrow> True | _ \<Rightarrow> False),
      gr_routed_experts_chunks = pg_routed_experts_chunks p,
      gr_rollout_epoch = (case pg_rollout_epoch p of Some e \<Rightarrow> e | None \<Rightarrow> 0),
      gr_e2e_latency = optional_response_duration lib (pget (pg_meta_info p) ''e2e_latency''),
      gr_queue_time = optional_response_duration lib (pget (pg_meta_info p) ''queue_time'')\<rparr>"

section \<open>Effect of the operations\<close>

lemma update_object_frame [simp]:
  "gc_partial_rollout (update_object rid f c) = gc_partial_rollout c"
  "gc_resume_event (update_object rid f c) = gc_resume_event c"
  "gc_paused (update_object rid f c) = gc_paused c"
  "gc_shutting_down (update_object rid f c) = gc_shutting_down c"
  "gc_active (update_object rid f c) = gc_active c"
  "gc_suspended (update_object rid f c) = gc_suspended c"
  "gc_rollout_epoch (update_object rid f c) = gc_rollout_epoch c"
  "gc_current_version (update_object rid f c) = gc_current_version c"
  by (simp_all add: update_object_def split: option.splits)

lemma dget_update_object [simp]:
  "dget (gc_objects (update_object rid f c)) r =
    (if r = rid then map_option f (dget (gc_objects c) r) else dget (gc_objects c) r)"
  by (simp add: update_object_def split: option.splits)

lemma fold_update_frame [simp]:
  "gc_partial_rollout (fold (\<lambda>rid. update_object rid f) rids c) = gc_partial_rollout c"
  "gc_resume_event (fold (\<lambda>rid. update_object rid f) rids c) = gc_resume_event c"
  "gc_paused (fold (\<lambda>rid. update_object rid f) rids c) = gc_paused c"
  "gc_shutting_down (fold (\<lambda>rid. update_object rid f) rids c) = gc_shutting_down c"
  "gc_active (fold (\<lambda>rid. update_object rid f) rids c) = gc_active c"
  "gc_suspended (fold (\<lambda>rid. update_object rid f) rids c) = gc_suspended c"
  "gc_rollout_epoch (fold (\<lambda>rid. update_object rid f) rids c) = gc_rollout_epoch c"
  by (induction rids arbitrary: c) simp_all

lemma dget_fold_preempting:
  "dget (gc_objects (fold (\<lambda>rid. update_object rid (\<lambda>a. a\<lparr>ag_state := st\<rparr>)) rids c)) r =
    (if r \<in> set rids then map_option (\<lambda>a. a\<lparr>ag_state := st\<rparr>) (dget (gc_objects c) r) else dget (gc_objects c) r)"
  by (induction rids arbitrary: c) (auto simp: option.map_comp comp_def)

lemma dset_split:
  "dget gs i = Some g \<Longrightarrow> \<exists>xs ys. gs = xs @ (i, g) # ys \<and> (\<forall>g'. dset i g' gs = xs @ (i, g') # ys)"
proof (induction gs)
  case (Cons p gs)
  obtain k v where p: "p = (k, v)" by fastforce
  show ?case
  proof (cases "k = i")
    case True
    then show ?thesis using Cons.prems p by (intro exI [of _ "[]"] exI [of _ gs]) auto
  next
    case False
    then obtain xs ys where "gs = xs @ (i, g) # ys" "\<forall>g'. dset i g' gs = xs @ (i, g') # ys"
      using Cons p by auto
    then show ?thesis using False p by (intro exI [of _ "p # xs"] exI [of _ ys]) auto
  qed
qed simp

section \<open>Invariant of the interleaved system\<close>

fun phase_rid :: "gen_phase \<Rightarrow> string list" where
  "phase_rid (Running rid) = [rid]"
| "phase_rid (Collected rid b) = [rid]"
| "phase_rid (Failing rid e) = [rid]"
| "phase_rid _ = []"

definition active_rids :: "(nat, generation) dict \<Rightarrow> string list" where
  "active_rids gs = concat (map (\<lambda>(i, g). phase_rid (gn_phase g)) gs)"

definition suspended_count :: "(nat, generation) dict \<Rightarrow> nat" where
  "suspended_count gs = length (filter (\<lambda>(i, g). gn_phase g = Suspended) gs)"

text \<open>
  The tables agree with the generations: \<open>_active\<close> holds exactly the request ids of the
  generations that have a request out, an object is quiesced exactly when it has left \<open>_active\<close>,
  the counter of suspended generations is right, and the pause flag and the resume event are
  opposite until the shutdown.
\<close>

definition tables_ok :: "system \<Rightarrow> bool" where
  "tables_ok s = (let (c, gs) = s in
     dict_ok gs \<and> distinct (gc_active c) \<and> mset (gc_active c) = mset (active_rids gs) \<and>
     (\<forall>rid\<in>set (gc_active c). dmem rid (gc_objects c)) \<and>
     (\<forall>rid a. dget (gc_objects c) rid = Some a \<longrightarrow> (ag_state a = ActiveQuiesced \<longleftrightarrow> rid \<notin> set (gc_active c))) \<and>
     gc_suspended c = suspended_count gs \<and>
     (\<not> gc_shutting_down c \<longrightarrow> gc_paused c = (\<not> gc_resume_event c)) \<and> (gc_shutting_down c \<longrightarrow> gc_paused c))"

lemma tables_okD:
  assumes "tables_ok (c, gs)"
  shows "dict_ok gs" "distinct (gc_active c)" "mset (gc_active c) = mset (active_rids gs)"
    "rid \<in> set (gc_active c) \<Longrightarrow> dmem rid (gc_objects c)"
    "dget (gc_objects c) rid = Some a \<Longrightarrow> (ag_state a = ActiveQuiesced \<longleftrightarrow> rid \<notin> set (gc_active c))"
    "gc_suspended c = suspended_count gs" "\<not> gc_shutting_down c \<Longrightarrow> gc_paused c = (\<not> gc_resume_event c)"
    "gc_shutting_down c \<Longrightarrow> gc_paused c"
  using assms unfolding tables_ok_def Let_def prod.case by blast+

lemma tables_okI:
  assumes "dict_ok gs" "distinct (gc_active c)" "mset (gc_active c) = mset (active_rids gs)"
    "\<And>rid. rid \<in> set (gc_active c) \<Longrightarrow> dmem rid (gc_objects c)"
    "\<And>rid a. dget (gc_objects c) rid = Some a \<Longrightarrow> (ag_state a = ActiveQuiesced \<longleftrightarrow> rid \<notin> set (gc_active c))"
    "gc_suspended c = suspended_count gs" "\<not> gc_shutting_down c \<Longrightarrow> gc_paused c = (\<not> gc_resume_event c)"
    "gc_shutting_down c \<Longrightarrow> gc_paused c"
  shows "tables_ok (c, gs)"
  using assms unfolding tables_ok_def Let_def prod.case by blast

lemma phase_change:
  assumes "dget gs i = Some g"
  shows "mset (active_rids (dset i g' gs)) = mset (active_rids gs) - mset (phase_rid (gn_phase g)) + mset (phase_rid (gn_phase g'))"
    and "set (phase_rid (gn_phase g)) \<subseteq> set (active_rids gs)"
    and "suspended_count (dset i g' gs) + (if gn_phase g = Suspended then 1 else 0) =
      suspended_count gs + (if gn_phase g' = Suspended then 1 else 0)"
proof -
  obtain xs ys where s: "gs = xs @ (i, g) # ys" "dset i g' gs = xs @ (i, g') # ys"
    using dset_split [OF assms] by blast
  show "mset (active_rids (dset i g' gs)) = mset (active_rids gs) - mset (phase_rid (gn_phase g)) + mset (phase_rid (gn_phase g'))"
    unfolding s(2) unfolding s(1) by (simp add: active_rids_def)
  show "set (phase_rid (gn_phase g)) \<subseteq> set (active_rids gs)" unfolding s(1) by (auto simp: active_rids_def)
  show "suspended_count (dset i g' gs) + (if gn_phase g = Suspended then 1 else 0) =
      suspended_count gs + (if gn_phase g' = Suspended then 1 else 0)"
    unfolding s(2) unfolding s(1) by (simp add: suspended_count_def)
qed

lemma new_generation_tables:
  assumes "\<not> dmem i gs" "phase_rid (gn_phase g) = []" "gn_phase g \<noteq> Suspended"
  shows "active_rids (dset i g gs) = active_rids gs" "suspended_count (dset i g gs) = suspended_count gs"
  using assms by (simp_all add: dset_new active_rids_def suspended_count_def)

lemma phase_rid_subseteq: "dget gs i = Some g \<Longrightarrow> mset (phase_rid (gn_phase g)) \<subseteq># mset (active_rids gs)"
  using dset_split by (fastforce simp: active_rids_def)

lemma tables_ok_same_request:
  assumes ok: "tables_ok (c, gs)" and g: "dget gs i = Some g"
    and "phase_rid (gn_phase g') = phase_rid (gn_phase g)"
    and "gn_phase g = Suspended \<longleftrightarrow> gn_phase g' = Suspended"
    and "gc_active c' = gc_active c" "gc_objects c' = gc_objects c" "gc_suspended c' = gc_suspended c"
    and "gc_shutting_down c' = gc_shutting_down c" "gc_paused c' = gc_paused c" "gc_resume_event c' = gc_resume_event c"
  shows "tables_ok (c', dset i g' gs)"
proof (rule tables_okI)
  show "mset (gc_active c') = mset (active_rids (dset i g' gs))"
    using phase_change(1) [OF g, of g'] phase_rid_subseteq [OF g] tables_okD(3) [OF ok] assms(3,5) by simp
qed (use tables_okD [OF ok] phase_change(3) [OF g, of g'] assms in \<open>auto split: if_splits\<close>)

lemma tables_ok_control:
  assumes ok: "tables_ok (c, gs)"
    and "gc_active c' = gc_active c" "gc_suspended c' = gc_suspended c"
    and obj: "\<And>rid. map_option (\<lambda>a. ag_state a = ActiveQuiesced) (dget (gc_objects c') rid) =
      map_option (\<lambda>a. ag_state a = ActiveQuiesced) (dget (gc_objects c) rid)"
    and "\<not> gc_shutting_down c' \<Longrightarrow> gc_paused c' = (\<not> gc_resume_event c')" "gc_shutting_down c' \<Longrightarrow> gc_paused c'"
  shows "tables_ok (c', gs)"
proof (rule tables_okI)
  fix rid assume "rid \<in> set (gc_active c')"
  then have "dmem rid (gc_objects c)" using tables_okD(4) [OF ok] assms(2) by simp
  then show "dmem rid (gc_objects c')" using obj [of rid] by (auto simp: dmem_def)
next
  fix rid a assume "dget (gc_objects c') rid = Some a"
  then obtain b where "dget (gc_objects c) rid = Some b" "ag_state b = ActiveQuiesced \<longleftrightarrow> ag_state a = ActiveQuiesced"
    using obj [of rid] by (cases "dget (gc_objects c) rid") auto
  then show "ag_state a = ActiveQuiesced \<longleftrightarrow> rid \<notin> set (gc_active c')"
    using tables_okD(5) [OF ok] assms(2) by metis
qed (use tables_okD [OF ok] assms in auto)

lemma tables_ok_register:
  assumes ok: "tables_ok (c, gs)" and g: "dget gs i = Some g" "gn_phase g = AtLock" "gn_phase g' = Running rid"
    and "\<not> dmem rid (gc_objects c)" "ag_state a = ActiveRunning"
  shows "tables_ok (c\<lparr>gc_active := gc_active c @ [rid], gc_objects := dset rid a (gc_objects c)\<rparr>, dset i g' gs)"
proof (rule tables_okI)
  have new: "rid \<notin> set (gc_active c)" using tables_okD(4) [OF ok] assms(5) by blast
  then show "distinct (gc_active (c\<lparr>gc_active := gc_active c @ [rid], gc_objects := dset rid a (gc_objects c)\<rparr>))"
    using tables_okD(2) [OF ok] by simp
  show "mset (gc_active (c\<lparr>gc_active := gc_active c @ [rid], gc_objects := dset rid a (gc_objects c)\<rparr>)) =
      mset (active_rids (dset i g' gs))"
    using phase_change(1) [OF g(1), of g'] tables_okD(3) [OF ok] g(2,3) by simp
  fix r b assume "dget (gc_objects (c\<lparr>gc_active := gc_active c @ [rid], gc_objects := dset rid a (gc_objects c)\<rparr>)) r = Some b"
  then show "(ag_state b = ActiveQuiesced) =
      (r \<notin> set (gc_active (c\<lparr>gc_active := gc_active c @ [rid], gc_objects := dset rid a (gc_objects c)\<rparr>)))"
    using tables_okD(5) [OF ok] assms(6) by (auto split: if_splits)
qed (use tables_okD [OF ok] phase_change(3) [OF g(1), of g'] g in \<open>auto split: if_splits\<close>)

lemma tables_ok_retire:
  assumes ok: "tables_ok (c, gs)" and g: "dget gs i = Some g" "phase_rid (gn_phase g) = [rid]" "phase_rid (gn_phase g') = []"
    and "gc_active c' = removeAll rid (gc_active c)"
    and obj: "\<And>r. map_option (\<lambda>a. ag_state a = ActiveQuiesced) (dget (gc_objects c') r) =
      (if r = rid then map_option (\<lambda>a. True) (dget (gc_objects c) r)
       else map_option (\<lambda>a. ag_state a = ActiveQuiesced) (dget (gc_objects c) r))"
    and "gc_suspended c' = gc_suspended c + (if gn_phase g' = Suspended then 1 else 0)"
    and "gc_shutting_down c' = gc_shutting_down c" "gc_paused c' = gc_paused c" "gc_resume_event c' = gc_resume_event c"
  shows "tables_ok (c', dset i g' gs)"
proof (rule tables_okI)
  have "remove1 rid (gc_active c) = removeAll rid (gc_active c)"
    using distinct_remove1_removeAll [OF tables_okD(2) [OF ok]] .
  then have "mset (removeAll rid (gc_active c)) = mset (gc_active c) - {#rid#}" by (metis mset_remove1)
  then show "mset (gc_active c') = mset (active_rids (dset i g' gs))"
    using phase_change(1) [OF g(1), of g'] tables_okD(3) [OF ok] g(2,3) assms(5) by simp
  show "distinct (gc_active c')" using tables_okD(2) [OF ok] assms(5) by (simp add: distinct_removeAll)
  show "gc_suspended c' = suspended_count (dset i g' gs)"
    using phase_change(3) [OF g(1), of g'] tables_okD(6) [OF ok] g(2) assms(7) by (auto split: if_splits)
next
  fix r assume "r \<in> set (gc_active c')"
  then have "r \<noteq> rid" "dmem r (gc_objects c)" using tables_okD(4) [OF ok] assms(5) by auto
  then show "dmem r (gc_objects c')" using obj [of r] by (auto simp: dmem_def)
next
  fix r a assume a: "dget (gc_objects c') r = Some a"
  show "ag_state a = ActiveQuiesced \<longleftrightarrow> r \<notin> set (gc_active c')"
  proof (cases "r = rid")
    case True
    then show ?thesis using obj [of r] a assms(5) by (cases "dget (gc_objects c) r") auto
  next
    case False
    then obtain b where "dget (gc_objects c) r = Some b" "ag_state b = ActiveQuiesced \<longleftrightarrow> ag_state a = ActiveQuiesced"
      using obj [of r] a by (cases "dget (gc_objects c) r") auto
    then show ?thesis using tables_okD(5) [OF ok] assms(5) False by auto
  qed
qed (use tables_okD [OF ok] assms in auto)

lemma tables_ok_wake:
  assumes ok: "tables_ok (c, gs)" and g: "dget gs i = Some g" "gn_phase g = Suspended"
    and "phase_rid (gn_phase g') = []" "gn_phase g' \<noteq> Suspended"
  shows "tables_ok (c\<lparr>gc_suspended := gc_suspended c - 1\<rparr>, dset i g' gs)"
proof (rule tables_okI)
  show "mset (gc_active (c\<lparr>gc_suspended := gc_suspended c - 1\<rparr>)) = mset (active_rids (dset i g' gs))"
    using phase_change(1) [OF g(1), of g'] tables_okD(3) [OF ok] assms(3,4) by simp
  show "gc_suspended (c\<lparr>gc_suspended := gc_suspended c - 1\<rparr>) = suspended_count (dset i g' gs)"
    using phase_change(3) [OF g(1), of g'] tables_okD(6) [OF ok] assms(3,5) by simp
qed (use tables_okD [OF ok] in auto)

lemma at_head_phase:
  "at_head c g = Some g' \<Longrightarrow> phase_rid (gn_phase g') = [] \<and> gn_phase g' \<noteq> Suspended \<and> gn_args g' = gn_args g \<and> gn_acc g' = gn_acc g"
  by (auto simp: at_head_def split: if_splits sum.splits)

lemma on_response_phase:
  assumes "on_response lib rid r c g = (c', g')"
  shows "phase_rid (gn_phase g') = [rid]" "gn_phase g' \<noteq> Suspended" "gn_args g' = gn_args g"
    "\<exists>v. c' = c\<lparr>gc_current_version := v\<rparr>"
  using assms unfolding on_response_def Let_def
  by (auto split: sum.splits if_splits intro: exI [of _ "gc_current_version c"])

lemma on_exception_phase:
  assumes "on_exception lib rid e c g = (c', g')"
  shows "phase_rid (gn_phase g') = [rid]" "gn_phase g' \<noteq> Suspended" "gn_args g' = gn_args g"
    "\<exists>v. c' = c\<lparr>gc_current_version := v\<rparr>"
  using assms on_response_phase [of lib rid aborted_response c g c' g'] unfolding on_exception_def
  by (auto split: if_splits intro: exI [of _ "gc_current_version c"])

lemma retire_frame [simp]:
  "gc_active (retire rid b c) = removeAll rid (gc_active c)" "gc_suspended (retire rid b c) = gc_suspended c"
  "gc_shutting_down (retire rid b c) = gc_shutting_down c" "gc_paused (retire rid b c) = gc_paused c"
  "gc_resume_event (retire rid b c) = gc_resume_event c" "gc_partial_rollout (retire rid b c) = gc_partial_rollout c"
  "dget (gc_objects (retire rid b c)) r =
    (if r = rid then map_option (\<lambda>a. a\<lparr>ag_state := ActiveQuiesced, ag_preempted_chunk_collected := b\<rparr>) (dget (gc_objects c) r)
     else dget (gc_objects c) r)"
  by (simp_all add: retire_def)

lemma after_chunk_phase:
  assumes "after_chunk b c g = (c', g')"
  shows "phase_rid (gn_phase g') = []" "gn_args g' = gn_args g"
    "c' = c\<lparr>gc_suspended := gc_suspended c + (if gn_phase g' = Suspended then 1 else 0)\<rparr>"
  using assms by (auto simp: after_chunk_def Let_def split: if_splits)

lemma selected_active: "set (selected session_id instance_id c) \<subseteq> set (gc_active c)"
  by (auto simp: selected_def)

lemma selected_all: "tables_ok (c, gs) \<Longrightarrow> selected None None c = gc_active c"
  using tables_okD(4) [of c gs] by (auto simp: selected_def matches_def dmem_def filter_id_conv split: option.splits)

lemma tables_ok_preempting:
  assumes ok: "tables_ok (c, gs)" and "set rids \<subseteq> set (gc_active c)" "gc_active c' = gc_active c" "gc_objects c' = gc_objects c"
    and "gc_suspended c' = gc_suspended c" "\<not> gc_shutting_down c' \<Longrightarrow> gc_paused c' = (\<not> gc_resume_event c')"
    and "gc_shutting_down c' \<Longrightarrow> gc_paused c'"
  shows "tables_ok (fold (\<lambda>rid. update_object rid (\<lambda>a. a\<lparr>ag_state := ActivePreempting\<rparr>)) rids c', gs)"
proof (rule tables_ok_control [OF ok])
  fix rid
  have "ag_state a \<noteq> ActiveQuiesced" if "rid \<in> set rids" "dget (gc_objects c) rid = Some a" for a
    using tables_okD(5) [OF ok that(2)] that(1) assms(2) by blast
  then show "map_option (\<lambda>a. ag_state a = ActiveQuiesced)
        (dget (gc_objects (fold (\<lambda>rid. update_object rid (\<lambda>a. a\<lparr>ag_state := ActivePreempting\<rparr>)) rids c')) rid) =
      map_option (\<lambda>a. ag_state a = ActiveQuiesced) (dget (gc_objects c) rid)"
    using assms(4) by (cases "dget (gc_objects c) rid") (auto simp: dget_fold_preempting)
qed (use assms in auto)


text \<open>One generation takes a step: the equations of \<open>gc_step\<close>, one rule per atomic stretch of code.\<close>

inductive gen_step :: "py_lib \<Rightarrow> controller \<Rightarrow> generation \<Rightarrow> controller \<Rightarrow> generation \<Rightarrow> bool" for lib where
  step_head: "\<lbrakk>gn_phase g = AtHead; at_head c g = Some g'\<rbrakk> \<Longrightarrow> gen_step lib c g c g'"
| step_lock: "\<lbrakk>gn_phase g = AtLock; \<not> dmem rid (gc_objects c); at_lock rid c g = (c', g')\<rbrakk> \<Longrightarrow> gen_step lib c g c' g'"
| step_response: "\<lbrakk>gn_phase g = Running rid; on_response lib rid r c g = (c', g')\<rbrakk> \<Longrightarrow> gen_step lib c g c' g'"
| step_exception: "\<lbrakk>gn_phase g = Running rid; on_exception lib rid e c g = (c', g')\<rbrakk> \<Longrightarrow> gen_step lib c g c' g'"
| step_collected: "\<lbrakk>gn_phase g = Collected rid b; after_chunk b (retire rid b c) g = (c', g')\<rbrakk> \<Longrightarrow> gen_step lib c g c' g'"
| step_failing: "gn_phase g = Failing rid e \<Longrightarrow> gen_step lib c g (retire rid False c) (g\<lparr>gn_phase := Raised e\<rparr>)"
| step_wake: "\<lbrakk>gn_phase g = Suspended; at_wake c g = Some (c', g')\<rbrakk> \<Longrightarrow> gen_step lib c g c' g'"

inductive control_step :: "gc_event \<Rightarrow> controller \<Rightarrow> controller \<Rightarrow> bool" where
  control_pause: "control_step (Pause sid iid reason) c (pause_begin sid iid reason c)"
| control_abort: "control_step (AbortDone rid ok) c (abort_done rid ok c)"
| control_resume: "control_step (Resume version ready) c (snd (resume version ready c))"
| control_sync: "control_step (Sync version) c (snd (synchronize_version version c))"
| control_shutdown: "control_step Shutdown c (shutdown_begin c)"

lemma gc_step_cases [consumes 1, case_names call generation control]:
  assumes "gc_step lib ev (c, gs) = Some t"
  obtains i args where "ev = Call i args" "\<not> dmem i gs" "t = (c, dset i (start_generation args c) gs)"
  | i g c' g' where "dget gs i = Some g" "gen_step lib c g c' g'" "t = (c', dset i g' gs)"
  | c' where "control_step ev c c'" "t = (c', gs)"
proof (cases ev)
  case (Call i args)
  then show ?thesis using assms that(1) by (auto simp: gc_step_def split: if_splits)
next
  case (Head i)
  then obtain g g' where "dget gs i = Some g" "gn_phase g = AtHead" "at_head c g = Some g'" "t = (c, dset i g' gs)"
    using assms by (auto simp: gc_step_def split: if_splits option.splits)
  then show ?thesis using that(2) step_head by blast
next
  case (Lock i rid)
  then obtain g c' g' where "dget gs i = Some g" "gn_phase g = AtLock" "\<not> dmem rid (gc_objects c)"
    "at_lock rid c g = (c', g')" "t = (c', dset i g' gs)"
    using assms by (auto simp: gc_step_def split: if_splits option.splits prod.splits)
  then show ?thesis using that(2) step_lock by blast
next
  case (Respond i answer)
  then obtain g rid where g: "dget gs i = Some g" "gn_phase g = Running rid"
    using assms by (auto simp: gc_step_def split: option.splits gen_phase.splits)
  show ?thesis
  proof (cases answer)
    case (Inl e)
    then obtain c' g' where "on_exception lib rid e c g = (c', g')" "t = (c', dset i g' gs)"
      using assms Respond g by (auto simp: gc_step_def split: prod.splits)
    then show ?thesis using that(2) g step_exception by blast
  next
    case (Inr r)
    then obtain c' g' where "on_response lib rid r c g = (c', g')" "t = (c', dset i g' gs)"
      using assms Respond g by (auto simp: gc_step_def split: prod.splits)
    then show ?thesis using that(2) g step_response by blast
  qed
next
  case (Quiesce i)
  then obtain g c' g' where "dget gs i = Some g" "t = (c', dset i g' gs)"
    and "(\<exists>rid b. gn_phase g = Collected rid b \<and> after_chunk b (retire rid b c) g = (c', g')) \<or>
      (\<exists>rid e. gn_phase g = Failing rid e \<and> c' = retire rid False c \<and> g' = g\<lparr>gn_phase := Raised e\<rparr>)"
    using assms by (auto simp: gc_step_def split: option.splits prod.splits gen_phase.splits)
  then show ?thesis using that(2) step_collected step_failing by blast
next
  case (Wake i)
  then obtain g c' g' where "dget gs i = Some g" "gn_phase g = Suspended" "at_wake c g = Some (c', g')" "t = (c', dset i g' gs)"
    using assms by (auto simp: gc_step_def split: if_splits option.splits)
  then show ?thesis using that(2) step_wake by blast
qed (insert assms, (rule that(3), hypsubst, rule control_step.intros, simp add: gc_step_def)+)

lemma gen_step_tables:
  assumes "gen_step lib c g c' g'" "tables_ok (c, gs)" "dget gs i = Some g"
  shows "tables_ok (c', dset i g' gs)"
  using assms
proof (cases rule: gen_step.cases)
  case step_head
  then show ?thesis using tables_ok_same_request [OF assms(2,3)] at_head_phase [of c g g'] by simp
next
  case (step_lock rid)
  then show ?thesis
    using tables_ok_same_request [OF assms(2,3)] tables_ok_register [OF assms(2,3)]
    by (auto simp: at_lock_def split: sum.splits if_splits)
next
  case (step_response rid r)
  then show ?thesis
    using tables_ok_same_request [OF assms(2,3)] on_response_phase [OF step_response(2)] by auto
next
  case (step_exception rid e)
  then show ?thesis
    using tables_ok_same_request [OF assms(2,3)] on_exception_phase [OF step_exception(2)] by auto
next
  case (step_collected rid b)
  note p = after_chunk_phase [OF step_collected(2)]
  show ?thesis
  proof (rule tables_ok_retire [OF assms(2,3)])
    show "phase_rid (gn_phase g) = [rid]" using step_collected by simp
  qed (use p in \<open>auto simp: option.map_comp comp_def\<close>)
next
  case (step_failing rid e)
  show ?thesis unfolding step_failing
  proof (rule tables_ok_retire [OF assms(2,3)])
    show "phase_rid (gn_phase g) = [rid]" using step_failing by simp
  qed (auto simp: option.map_comp comp_def)
next
  case step_wake
  then show ?thesis using tables_ok_wake [OF assms(2,3)] by (auto simp: at_wake_def split: if_splits)
qed

lemma control_step_tables:
  assumes "control_step ev c c'" "tables_ok (c, gs)"
  shows "tables_ok (c', gs)"
  using assms
proof (cases rule: control_step.cases)
  case (control_pause sid iid reason)
  then show ?thesis unfolding pause_begin_def
    using tables_ok_preempting [OF assms(2) selected_active] tables_okD(8) [OF assms(2)] by simp
next
  case (control_abort rid ok)
  then show ?thesis using tables_okD(7,8) [OF assms(2)]
    by (auto intro!: tables_ok_control [OF assms(2)] simp: abort_done_def option.map_comp comp_def)
next
  case (control_resume version ready)
  then show ?thesis using tables_okD(7,8) [OF assms(2)]
    by (auto intro!: tables_ok_control [OF assms(2)] simp: resume_def)
next
  case (control_sync version)
  then show ?thesis using tables_okD(7,8) [OF assms(2)]
    by (auto intro!: tables_ok_control [OF assms(2)] simp: synchronize_version_def Let_def)
next
  case control_shutdown
  show ?thesis unfolding control_shutdown shutdown_begin_def by (rule tables_ok_preempting [OF assms(2) subset_refl]) simp_all
qed

lemma start_generation_phase:
  "phase_rid (gn_phase (start_generation args c)) = []" "gn_phase (start_generation args c) \<noteq> Suspended"
  by (auto simp: start_generation_def Let_def split: sum.splits)

lemma gc_step_tables:
  assumes step: "gc_step lib ev (c, gs) = Some t" and ok: "tables_ok (c, gs)"
  shows "tables_ok t"
  using step
proof (cases rule: gc_step_cases)
  case (call i args)
  then show ?thesis
    using ok start_generation_phase [of args c] unfolding tables_ok_def by (simp add: new_generation_tables)
qed (use ok gen_step_tables control_step_tables in blast)+


section \<open>What every request and every result is\<close>

text \<open>
  \<open>stitched\<close>: the accumulated output is the concatenation of the chunks, token by token with its
  log-probability, text and weight version.  \<open>pinned\<close>: a generation that asked for a version or an
  epoch has only tokens of that version and was admitted in that epoch.
\<close>

definition stitched :: "gen_acc \<Rightarrow> bool" where
  "stitched acc \<longleftrightarrow>
     ac_output_ids acc = concat (map ch_output_ids (ac_chunks acc)) \<and>
     ac_output_logprobs acc = concat (map ch_output_logprobs (ac_chunks acc)) \<and>
     ac_output_texts acc = concat (map ch_output_token_texts (ac_chunks acc)) \<and>
     ac_text acc = concat (map ch_text (ac_chunks acc)) \<and>
     ac_output_versions acc = concat (map (\<lambda>ch. replicate (length (ch_output_ids ch)) (ch_version ch)) (ac_chunks acc))"

definition pinned :: "gen_args \<Rightarrow> gen_acc \<Rightarrow> bool" where
  "pinned args acc \<longleftrightarrow>
     (\<forall>e. ga_expected_version args = Some e \<longrightarrow> (\<forall>ch\<in>set (ac_chunks acc). ch_version ch = or_unknown (Some e))) \<and>
     (\<forall>e e'. ga_expected_epoch args = Some e \<and> ac_rollout_epoch acc = Some e' \<longrightarrow> e' = e) \<and>
     (ac_rollout_epoch acc = None \<longrightarrow> ac_chunks acc = [])"

definition experts_ok :: "gen_args \<Rightarrow> gen_acc \<Rightarrow> bool" where
  "experts_ok args acc \<longleftrightarrow>
     (\<forall>x\<in>set (ac_experts acc).
        int (length (ga_input_ids args)) \<le> raw_prefix_token_count x \<and> 0 \<le> raw_output_token_count x \<and>
        raw_prefix_token_count x + raw_output_token_count x \<le> int (length (ga_input_ids args) + length (ac_output_ids acc)) \<and>
        raw_is_first_chunk x = (raw_prefix_token_count x = int (length (ga_input_ids args))))"

definition gen_ok :: "generation \<Rightarrow> bool" where
  "gen_ok g \<longleftrightarrow>
     stitched (gn_acc g) \<and> pinned (gn_args g) (gn_acc g) \<and> experts_ok (gn_args g) (gn_acc g) \<and>
     (case gn_phase g of
        AtLock \<Rightarrow> loop_continues (gn_args g) (gn_acc g)
      | Running rid \<Rightarrow> loop_continues (gn_args g) (gn_acc g) \<and> ac_rollout_epoch (gn_acc g) \<noteq> None
      | Finished p \<Rightarrow> p = generation_result (gn_args g) (gn_acc g)
      | _ \<Rightarrow> True)"

text \<open>The request a generation has out: the backend is asked to continue exactly the prompt and what is generated.\<close>

definition request_of :: "ActiveGeneration \<Rightarrow> int list \<times> (string \<times> pyval) list" where
  "request_of a = (ag_input_ids a @ ag_generated_ids_at_start a, ag_sampling_params a)"

definition request_ok :: "controller \<Rightarrow> generation \<Rightarrow> bool" where
  "request_ok c g \<longleftrightarrow>
     (\<forall>rid. gn_phase g = Running rid \<longrightarrow>
        map_option request_of (dget (gc_objects c) rid) =
          Some (ga_input_ids (gn_args g) @ ac_output_ids (gn_acc g), chunk_sampling_params (gn_args g) (gn_acc g)))"

lemma stitched_frame [simp]:
  "stitched (acc\<lparr>ac_rollout_epoch := x\<rparr>) = stitched acc"
  "stitched (update_input_fields args r acc) = stitched acc"
  "stitched (mark_overflow args acc) = stitched acc"
  "stitched (new_acc args)"
  by (simp_all add: stitched_def update_input_fields_def mark_overflow_def new_acc_def Let_def)

lemma stitched_append: "stitched acc \<Longrightarrow> stitched (append_chunk args r v b acc)"
  by (simp add: stitched_def append_chunk_def Let_def)

lemma pinned_frame [simp]:
  "pinned args (update_input_fields args r acc) = pinned args acc"
  "pinned args (mark_overflow args acc) = pinned args acc"
  "pinned args (new_acc args)"
  by (simp_all add: pinned_def update_input_fields_def mark_overflow_def new_acc_def Let_def)

lemma experts_frame [simp]:
  "experts_ok args (acc\<lparr>ac_rollout_epoch := x\<rparr>) = experts_ok args acc"
  "experts_ok args (update_input_fields args r acc) = experts_ok args acc"
  "experts_ok args (mark_overflow args acc) = experts_ok args acc"
  "experts_ok args (new_acc args)"
  by (simp_all add: experts_ok_def update_input_fields_def mark_overflow_def new_acc_def Let_def)

lemma experts_append: "experts_ok args acc \<Longrightarrow> experts_ok args (append_chunk args r v b acc)"
  by (fastforce simp: experts_ok_def append_chunk_def Let_def split: option.splits if_splits)

lemma pinned_append:
  assumes "pinned args acc" "ac_rollout_epoch acc \<noteq> None" "check_version lib args r = Inr observed"
  shows "pinned args (append_chunk args r (or_unknown observed) b acc)"
  using assms
  by (auto simp: pinned_def append_chunk_def check_version_def Let_def split: option.splits if_splits)

lemma epoch_frame [simp]:
  "ac_rollout_epoch (update_input_fields args r acc) = ac_rollout_epoch acc"
  by (simp add: update_input_fields_def Let_def)

lemma loop_frame [simp]:
  "loop_continues args (acc\<lparr>ac_rollout_epoch := x\<rparr>) = loop_continues args acc"
  "chunk_sampling_params args (acc\<lparr>ac_rollout_epoch := x\<rparr>) = chunk_sampling_params args acc"
  by (simp_all add: loop_continues_def chunk_sampling_params_def)

lemma on_response_ok:
  assumes "on_response lib rid r c g = (c', g')" "gen_ok g" "gn_phase g = Running rid"
  shows "gen_ok g'"
proof (cases "check_version lib (gn_args g) r")
  case (Inl e)
  then show ?thesis using assms by (auto simp: on_response_def gen_ok_def Let_def)
next
  case (Inr observed)
  then show ?thesis
    using assms stitched_append experts_append pinned_append [OF _ _ Inr, of "update_input_fields (gn_args g) r (gn_acc g)"]
    by (auto simp: on_response_def gen_ok_def Let_def)
qed

lemma gen_step_gen_ok: "gen_step lib c g c' g' \<Longrightarrow> gen_ok g \<Longrightarrow> gen_ok g'"
proof (induction rule: gen_step.induct)
  case (step_head g c g')
  then show ?case by (auto simp: at_head_def gen_ok_def split: if_splits sum.splits)
next
  case (step_lock g rid c c' g')
  then show ?case
    by (auto simp: at_lock_def gen_ok_def pinned_def raise_if_stopped_def split: if_splits sum.splits option.splits)
next
  case (step_exception g rid e c c' g')
  then show ?case
    using on_response_ok [of lib rid aborted_response c g c' g'] by (auto simp: on_exception_def gen_ok_def split: if_splits)
next
  case (step_collected g rid b c c' g')
  then show ?case by (auto simp: after_chunk_def gen_ok_def Let_def split: if_splits)
next
  case (step_failing g rid e c)
  then show ?case by (auto simp: gen_ok_def)
next
  case (step_wake g c c' g')
  then show ?case by (auto simp: at_wake_def gen_ok_def split: if_splits)
qed (rule on_response_ok)

lemma objects_stable:
  assumes "gc_step lib ev (c, gs) = Some (c', gs')" "dget (gc_objects c) rid = Some a"
  shows "map_option request_of (dget (gc_objects c') rid) = Some (request_of a)"
  using assms(1)
proof (cases rule: gc_step_cases)
  case (generation i g c2 g2)
  from generation(2) have "map_option request_of (dget (gc_objects c2) rid) = Some (request_of a)"
  proof (cases rule: gen_step.cases)
    case (step_lock rid2)
    then have "rid2 \<noteq> rid" using assms(2) by (auto simp: dmem_def)
    then show ?thesis using step_lock assms(2) by (auto simp: at_lock_def split: sum.splits if_splits)
  next
    case (step_response rid2 r)
    then show ?thesis using on_response_phase(4) [OF step_response(2)] assms(2) by auto
  next
    case (step_exception rid2 e)
    then show ?thesis using on_exception_phase(4) [OF step_exception(2)] assms(2) by auto
  next
    case (step_collected rid2 b)
    then show ?thesis using after_chunk_phase(3) [OF step_collected(2)] assms(2) by (auto simp: request_of_def)
  qed (use assms(2) in \<open>auto simp: request_of_def at_wake_def split: if_splits\<close>)
  then show ?thesis using generation(3) by simp
next
  case (control c2)
  from control(1) have "map_option request_of (dget (gc_objects c2) rid) = Some (request_of a)"
    by (cases rule: control_step.cases)
      (use assms(2) in \<open>auto simp: request_of_def pause_begin_def shutdown_begin_def abort_done_def resume_def
        synchronize_version_def dget_fold_preempting Let_def\<close>)
  then show ?thesis using control(2) by simp
qed (use assms(2) in auto)


definition gc_inv :: "system \<Rightarrow> bool" where
  "gc_inv s \<longleftrightarrow> tables_ok s \<and> (\<forall>i g. dget (snd s) i = Some g \<longrightarrow> gen_ok g \<and> request_ok (fst s) g)"

definition gc_init :: "system \<Rightarrow> bool" where
  "gc_init s \<longleftrightarrow> s = (new_controller True, []) \<or> s = (new_controller False, [])"

lemma gen_step_request_ok: "gen_step lib c g c' g' \<Longrightarrow> request_ok c' g'"
proof (induction rule: gen_step.induct)
  case (step_head g c g')
  then show ?case using at_head_phase [of c g g'] by (auto simp: request_ok_def)
next
  case (step_lock g rid c c' g')
  then show ?case
    by (auto simp: at_lock_def request_ok_def request_of_def split: if_splits sum.splits)
next
  case (step_response g rid r c c' g')
  then show ?case by (auto simp: on_response_def request_ok_def Let_def split: sum.splits if_splits)
next
  case (step_exception g rid e c c' g')
  then show ?case by (auto simp: on_exception_def on_response_def request_ok_def Let_def split: sum.splits if_splits)
next
  case (step_collected g rid b c c' g')
  then show ?case using after_chunk_phase(1) [of b "retire rid b c" g c' g'] by (auto simp: request_ok_def)
next
  case (step_wake g c c' g')
  then show ?case by (auto simp: at_wake_def request_ok_def split: if_splits)
qed (simp add: request_ok_def)

lemma request_ok_stable:
  assumes "gc_step lib ev (c, gs) = Some (c', gs')" "request_ok c g"
  shows "request_ok c' g"
  unfolding request_ok_def
proof (intro allI impI)
  fix rid assume "gn_phase g = Running rid"
  then obtain a where a: "dget (gc_objects c) rid = Some a"
    "request_of a = (ga_input_ids (gn_args g) @ ac_output_ids (gn_acc g), chunk_sampling_params (gn_args g) (gn_acc g))"
    using assms(2) by (auto simp: request_ok_def)
  then show "map_option request_of (dget (gc_objects c') rid) =
      Some (ga_input_ids (gn_args g) @ ac_output_ids (gn_acc g), chunk_sampling_params (gn_args g) (gn_acc g))"
    using objects_stable [OF assms(1) a(1)] by simp
qed

lemma start_generation_ok: "gen_ok (start_generation args c)" "request_ok c (start_generation args c)"
  by (auto simp: start_generation_def gen_ok_def request_ok_def Let_def split: sum.splits)

lemma gc_step_inv:
  assumes step: "gc_step lib ev s = Some t" and inv: "gc_inv s"
  shows "gc_inv t"
proof -
  obtain c gs c' gs' where st: "s = (c, gs)" "t = (c', gs')" by (cases s, cases t)
  have old: "gen_ok g" "request_ok c' g" if "dget gs i = Some g" for i g
    using inv that request_ok_stable [OF step [unfolded st]] unfolding gc_inv_def st by auto
  have "gen_ok g \<and> request_ok c' g" if g: "dget gs' i = Some g" for i g
    using step [unfolded st]
  proof (cases rule: gc_step_cases)
    case (call j args)
    then show ?thesis using g old start_generation_ok by (auto split: if_splits)
  next
    case (generation j g2 c2 g3)
    then show ?thesis using g old gen_step_gen_ok [OF generation(2)] gen_step_request_ok [OF generation(2)]
      by (auto split: if_splits)
  next
    case (control c2)
    then show ?thesis using g old by auto
  qed
  then show ?thesis using gc_step_tables [of lib ev c gs t] step inv unfolding gc_inv_def st by auto
qed

interpretation gc: transition_system gc_init "gc_moves lib" gc_inv
proof
  show "gc_inv s" if "gc_init s" for s
    using that by (auto simp: gc_init_def gc_inv_def tables_ok_def new_controller_def active_rids_def suspended_count_def)
  show "gc_inv t" if "gc_inv s" "gc_moves lib s t" for s t
    using that by (auto elim!: gc_movesE intro: gc_step_inv)
qed

lemma run_gc_moves: "run_gc lib evs s = Some t \<Longrightarrow> (gc_moves lib)\<^sup>*\<^sup>* s t"
  by (induction evs arbitrary: s)
    (auto split: option.splits intro: converse_rtranclp_into_rtranclp gc_moves.intros)

lemma run_gc_inv: "run_gc lib evs s = Some t \<Longrightarrow> gc_inv s \<Longrightarrow> gc_inv t"
  using gc.steps_inv [OF run_gc_moves] .

lemma run_gc_reach: "run_gc lib evs (new_controller partial, []) = Some t \<Longrightarrow> gc_inv t"
proof (rule gc.reach_inv [OF _ run_gc_moves])
  show "gc_init (new_controller partial, [])" by (cases partial) (simp_all add: gc_init_def)
qed


section \<open>Pausing and shutting down\<close>

fun resumes :: "gc_event \<Rightarrow> bool" where
  "resumes (Resume v r) = True"
| "resumes _ = False"

lemma gen_step_paused:
  assumes "gen_step lib c g c' g'"
  shows "gc_paused c' = gc_paused c" "gc_shutting_down c' = gc_shutting_down c" "gc_resume_event c' = gc_resume_event c"
    "gc_paused c \<Longrightarrow> set (gc_active c') \<subseteq> set (gc_active c)"
  using assms
  by (cases rule: gen_step.cases,
      auto simp: at_lock_def at_wake_def dest: on_response_phase(4) on_exception_phase(4) after_chunk_phase(3)
        split: sum.splits if_splits)+

lemma paused_step:
  assumes "gc_step lib ev (c, gs) = Some (c', gs')" "gc_paused c" "\<not> resumes ev"
  shows "gc_paused c' \<and> set (gc_active c') \<subseteq> set (gc_active c)"
  using assms(1)
proof (cases rule: gc_step_cases)
  case (generation i g c2 g2)
  then show ?thesis using gen_step_paused [OF generation(2)] assms(2) by simp
next
  case (control c2)
  then show ?thesis using assms(2,3)
    by (cases rule: control_step.cases)
      (auto simp: pause_begin_def abort_done_def shutdown_begin_def synchronize_version_def Let_def)
qed (use assms(2) in auto)

lemma paused_run:
  "run_gc lib evs (c, gs) = Some (c', gs') \<Longrightarrow> gc_paused c \<Longrightarrow> list_all (\<lambda>ev. \<not> resumes ev) evs \<Longrightarrow>
    gc_paused c' \<and> set (gc_active c') \<subseteq> set (gc_active c)"
proof (induction evs arbitrary: c gs)
  case (Cons ev evs)
  then obtain c2 gs2 where s: "gc_step lib ev (c, gs) = Some (c2, gs2)" "run_gc lib evs (c2, gs2) = Some (c', gs')"
    by (auto split: option.splits)
  then show ?case using Cons paused_step [OF s(1)] by fastforce
qed simp

lemma quiesced_not_active: "tables_ok (c, gs) \<Longrightarrow> is_quiesced c rid \<Longrightarrow> rid \<notin> set (gc_active c)"
  using tables_okD(5) [of c gs rid] by (auto simp: is_quiesced_def split: option.splits)

lemma no_active_no_request:
  assumes "tables_ok (c, gs)" "gc_active c = []" "dget gs i = Some g"
  shows "phase_rid (gn_phase g) = []"
  using phase_change(2) [OF assms(3)] tables_okD(3) [OF assms(1)] assms(2) by simp

text \<open>Steps each generation still needs once the proxy is shutting down and the resume event is set.\<close>

fun drain_rank :: "gen_phase \<Rightarrow> nat" where
  "drain_rank (Running rid) = 3"
| "drain_rank (Collected rid b) = 2"
| "drain_rank (Failing rid e) = 1"
| "drain_rank Suspended = 1"
| "drain_rank AtHead = 1"
| "drain_rank AtLock = 1"
| "drain_rank (Finished p) = 0"
| "drain_rank (Raised e) = 0"

definition total_rank :: "(nat, generation) dict \<Rightarrow> nat" where
  "total_rank gs = sum_list (map (\<lambda>(i, g). drain_rank (gn_phase g)) gs)"

lemma total_rank_dset:
  assumes "dget gs i = Some g"
  shows "total_rank (dset i g' gs) + drain_rank (gn_phase g) = total_rank gs + drain_rank (gn_phase g')"
proof -
  obtain xs ys where s: "gs = xs @ (i, g) # ys" "dset i g' gs = xs @ (i, g') # ys"
    using dset_split [OF assms] by blast
  show ?thesis unfolding s(2) unfolding s(1) by (simp add: total_rank_def)
qed

lemma drain_rank_pos: "0 < drain_rank p \<longleftrightarrow> (\<nexists>x. p = Finished x) \<and> (\<nexists>e. p = Raised e)"
  by (cases p) auto

lemma drain_step:
  assumes "gen_step lib c g c' g'" "gc_shutting_down c"
  shows "drain_rank (gn_phase g') < drain_rank (gn_phase g)"
  using assms
proof (cases rule: gen_step.cases)
  case step_head
  then show ?thesis using assms(2) by (auto simp: at_head_def raise_if_stopped_def split: if_splits)
next
  case (step_lock rid)
  then show ?thesis using assms(2) by (auto simp: at_lock_def raise_if_stopped_def)
next
  case (step_response rid r)
  then show ?thesis by (auto simp: on_response_def Let_def split: sum.splits)
next
  case (step_exception rid e)
  then show ?thesis using assms(2) by (auto simp: on_exception_def)
next
  case (step_collected rid b)
  then show ?thesis by (auto simp: after_chunk_def Let_def split: if_splits)
next
  case step_wake
  then show ?thesis using assms(2) by (auto simp: at_wake_def split: if_splits)
qed simp

fun is_generation_event :: "nat \<Rightarrow> gc_event \<Rightarrow> bool" where
  "is_generation_event i (Head j) = (j = i)"
| "is_generation_event i (Lock j rid) = (j = i)"
| "is_generation_event i (Respond j r) = (j = i)"
| "is_generation_event i (Quiesce j) = (j = i)"
| "is_generation_event i (Wake j) = (j = i)"
| "is_generation_event i _ = False"


section \<open>Properties\<close>

lemma length_normalize: "length (normalize_length xs n x) = n"
  by (simp add: normalize_length_def)

lemma length_versions:
  "length (concat (map (\<lambda>ch. replicate (length (ch_output_ids ch)) (ch_version ch)) chs)) =
    length (concat (map ch_output_ids chs))"
  by (simp add: length_concat comp_def)

text \<open>
  C8.  Chunks are stitched exactly.  In every interleaving of any number of generations with
  pauses, aborts, resumes, version synchronisations and shutdowns, a generation that has finished
  returns the concatenation of its chunks: tokens, log-probabilities, token texts and text; its
  full sequence is the prompt followed by that output, with one version per output token and one
  log-probability and text per prompt token.  If the request was pinned to a weight version, every
  output token has that version; if it was pinned to an epoch, it was admitted in that epoch.
\<close>

theorem finished_generation_stitched:
  assumes "run_gc lib evs (new_controller partial, []) = Some (c, gs)" and "dget gs i = Some g"
    and "gn_phase g = Finished p"
  shows "pg_input_token_ids p = ga_input_ids (gn_args g) \<and>
    pg_output_ids p = concat (map ch_output_ids (pg_chunks p)) \<and>
    pg_output_token_logprobs p = concat (map ch_output_logprobs (pg_chunks p)) \<and>
    pg_output_token_texts p = concat (map ch_output_token_texts (pg_chunks p)) \<and>
    pg_text p = concat (map ch_text (pg_chunks p)) \<and>
    pg_all_token_ids p = ga_input_ids (gn_args g) @ pg_output_ids p \<and>
    pg_all_logprobs p = pg_input_token_logprobs_raw p @ pg_output_token_logprobs p \<and>
    length (pg_input_token_logprobs_raw p) = length (ga_input_ids (gn_args g)) \<and>
    length (pg_input_token_texts p) = length (ga_input_ids (gn_args g)) \<and>
    length (pg_output_versions p) = length (pg_output_ids p) \<and>
    (ga_expected_version (gn_args g) = Some v \<longrightarrow> set (pg_output_versions p) \<subseteq> {or_unknown (Some v)}) \<and>
    (ga_expected_epoch (gn_args g) = Some e \<longrightarrow> pg_rollout_epoch p \<in> {None, Some e})"
proof -
  have ok: "gen_ok g" using run_gc_reach [OF assms(1)] assms(2) by (auto simp: gc_inv_def)
  have p: "p = generation_result (gn_args g) (gn_acc g)" and st: "stitched (gn_acc g)" and pin: "pinned (gn_args g) (gn_acc g)"
    using ok assms(3) by (auto simp: gen_ok_def)
  note res = p generation_result_def Let_def
  have "pg_input_token_ids p = ga_input_ids (gn_args g)" "pg_output_ids p = concat (map ch_output_ids (pg_chunks p))"
    "pg_output_token_logprobs p = concat (map ch_output_logprobs (pg_chunks p))"
    "pg_output_token_texts p = concat (map ch_output_token_texts (pg_chunks p))"
    "pg_text p = concat (map ch_text (pg_chunks p))" "length (pg_output_versions p) = length (pg_output_ids p)"
    using st by (simp_all add: res stitched_def length_versions)
  moreover have "pg_all_token_ids p = ga_input_ids (gn_args g) @ pg_output_ids p"
    "pg_all_logprobs p = pg_input_token_logprobs_raw p @ pg_output_token_logprobs p"
    "length (pg_input_token_logprobs_raw p) = length (ga_input_ids (gn_args g))"
    "length (pg_input_token_texts p) = length (ga_input_ids (gn_args g))"
    by (simp_all add: res length_normalize)
  moreover have "set (pg_output_versions p) \<subseteq> {or_unknown (Some v)}" if "ga_expected_version (gn_args g) = Some v"
    using st pin that by (auto simp: res stitched_def pinned_def)
  moreover have "pg_rollout_epoch p \<in> {None, Some e}" if "ga_expected_epoch (gn_args g) = Some e"
    using pin that by (cases "ac_rollout_epoch (gn_acc g)") (auto simp: res pinned_def)
  ultimately show ?thesis by blast
qed

text \<open>
  Requests continue the prefix.  Whenever a generation has a request at the backend, that
  request is registered as active, carries exactly the prompt followed by all tokens generated so
  far, and asks for the remaining part of the token budget, which is positive.
\<close>

theorem running_request_continues_prefix:
  assumes "run_gc lib evs (new_controller partial, []) = Some (c, gs)" and "dget gs i = Some g"
    and "gn_phase g = Running rid"
  shows "\<exists>a. rid \<in> set (gc_active c) \<and> dget (gc_objects c) rid = Some a \<and>
      ag_input_ids a @ ag_generated_ids_at_start a = ga_input_ids (gn_args g) @ concat (map ch_output_ids (ac_chunks (gn_acc g))) \<and>
      (0 < ga_max_new_tokens (gn_args g) \<longrightarrow>
        (\<exists>n>0. dget (ag_sampling_params a) ''max_new_tokens'' = Some (PInt n) \<and>
          n + int (length (ac_output_ids (gn_acc g))) = ga_max_new_tokens (gn_args g)))"
proof -
  have inv: "gc_inv (c, gs)" by (rule run_gc_reach [OF assms(1)])
  then have "gen_ok g" "request_ok c g" "tables_ok (c, gs)" using assms(2) by (auto simp: gc_inv_def)
  note g = this
  obtain a where a: "dget (gc_objects c) rid = Some a"
    "request_of a = (ga_input_ids (gn_args g) @ ac_output_ids (gn_acc g), chunk_sampling_params (gn_args g) (gn_acc g))"
    using g(2) assms(3) by (auto simp: request_ok_def)
  have "rid \<in> set (gc_active c)"
    using phase_change(2) [OF assms(2)] tables_okD(3) [OF g(3)] assms(3) by (auto dest: mset_eq_setD)
  moreover have "loop_continues (gn_args g) (gn_acc g)" "stitched (gn_acc g)" using g(1) assms(3) by (auto simp: gen_ok_def)
  ultimately show ?thesis using a
    by (intro exI [of _ a]) (auto simp: request_of_def chunk_sampling_params_def loop_continues_def stitched_def)
qed

text \<open>
  The accounting of the controller.  In every reachable state the active table has exactly one
  entry per generation with a request out, none twice; the suspended counter is the number of
  suspended generations; and until the shutdown the pause flag is the negation of the resume event.
\<close>

theorem controller_accounting:
  assumes "run_gc lib evs (new_controller partial, []) = Some (c, gs)"
  shows "mset (gc_active c) = mset (active_rids gs) \<and>
    distinct (gc_active c) \<and>
    gc_suspended c = suspended_count gs \<and>
    (\<not> gc_shutting_down c \<longrightarrow> gc_paused c = (\<not> gc_resume_event c)) \<and>
    (\<forall>rid. rid \<in> set (gc_active c) \<longrightarrow> \<not> is_quiesced c rid)"
proof -
  have ok: "tables_ok (c, gs)" using run_gc_reach [OF assms] by (simp add: gc_inv_def)
  show ?thesis using tables_okD [OF ok] quiesced_not_active [OF ok] by blast
qed

text \<open>
  C10.  A quiesced pause leaves no request at the backend.  If a pause of everything is followed by
  any events other than a resume, and the pause then reports that it has quiesced, then no request
  is active and no generation has one out: the weights can be replaced.
\<close>

theorem quiesced_pause_leaves_no_request:
  assumes reach: "run_gc lib evs (new_controller partial, []) = Some (c, gs)"
    and run: "run_gc lib evs' (pause_begin None None reason c, gs) = Some (c', gs')"
    and "list_all (\<lambda>ev. \<not> resumes ev) evs'"
    and q: "pr_quiesced (pause_end (selected None None c) failed c')"
  shows "gc_active c' = [] \<and>
    (dget gs' i = Some g \<longrightarrow> phase_rid (gn_phase g) = [])"
proof -
  have inv: "gc_inv (c, gs)" by (rule run_gc_reach [OF reach])
  then have ok: "tables_ok (c, gs)" by (simp add: gc_inv_def)
  have "gc_step lib (Pause None None reason) (c, gs) = Some (pause_begin None None reason c, gs)" by (simp add: gc_step_def)
  then have "gc_inv (c', gs')" using run_gc_inv [OF run] gc_step_inv inv by blast
  then have ok': "tables_ok (c', gs')" by (simp add: gc_inv_def)
  have "set (gc_active c') \<subseteq> set (gc_active c)"
    using paused_run [OF run _ assms(3)] by (simp add: pause_begin_def)
  moreover have "list_all (is_quiesced c') (gc_active c)"
    using q by (simp add: pause_end_def Let_def selected_all [OF ok])
  ultimately have no: "gc_active c' = []"
    using quiesced_not_active [OF ok'] by (meson list.pred_set list.set_sel(1) subsetD)
  then show ?thesis using no_active_no_request [OF ok' no] by blast
qed


lemma stranded_step:
  assumes "gc_step lib ev (c, gs) = Some (c', gs')" "gc_shutting_down c" "\<not> gc_resume_event c"
    and "dget gs i = Some g" "gn_phase g = Suspended" "ev \<noteq> Shutdown"
  shows "gc_shutting_down c' \<and> \<not> gc_resume_event c' \<and> dget gs' i = Some g"
  using assms(1)
proof (cases rule: gc_step_cases)
  case (call j args)
  then show ?thesis using assms by (auto simp: dmem_def)
next
  case (generation j g1 c2 g2)
  have "j \<noteq> i"
    using generation(1,2) assms(3-5) by (auto simp: at_wake_def elim!: gen_step.cases)
  then show ?thesis using generation gen_step_paused [OF generation(2)] assms by simp
next
  case (control c2)
  then show ?thesis using assms
    by (cases rule: control_step.cases)
      (auto simp: pause_begin_def abort_done_def resume_def synchronize_version_def Let_def)
qed

text \<open>
  A pause during a shutdown strands suspended generations.  \<open>pause\<close> clears the resume event
  also when the proxy is already shutting down, and \<open>resume\<close> then refuses to set it: whatever
  happens afterwards short of a second shutdown call, a suspended generation stays suspended.
\<close>

theorem pause_during_shutdown_strands:
  assumes "gc_shutting_down c" and "dget gs i = Some g" and "gn_phase g = Suspended"
    and "run_gc lib evs (pause_begin sid iid reason c, gs) = Some (c', gs')" and "Shutdown \<notin> set evs"
  shows "dget gs' i = Some g \<and> fst (resume v r c') = ResumeShuttingDown"
proof -
  have "gc_shutting_down c' \<and> dget gs' i = Some g"
    if "run_gc lib evs (c, gs) = Some (c', gs')" "gc_shutting_down c" "\<not> gc_resume_event c" "dget gs i = Some g" for c gs
    using that assms(5)
  proof (induction evs arbitrary: c gs)
    case (Cons ev evs)
    then obtain c2 gs2 where s: "gc_step lib ev (c, gs) = Some (c2, gs2)" "run_gc lib evs (c2, gs2) = Some (c', gs')"
      by (auto split: option.splits)
    then show ?case using Cons stranded_step [OF s(1)] assms(3) by auto
  qed simp
  from this [OF assms(4)] show ?thesis using assms(1,2) by (simp add: pause_begin_def resume_def)
qed


lemma gen_step_args: "gen_step lib c g c' g' \<Longrightarrow> gn_args g' = gn_args g"
  by (induction rule: gen_step.induct)
    (auto dest: at_head_phase on_response_phase(3) on_exception_phase(3) after_chunk_phase(2)
      simp: at_lock_def at_wake_def split: sum.splits if_splits)

lemma run_gc_args:
  "run_gc lib evs (c, gs) = Some (c', gs') \<Longrightarrow> dget gs i = Some g \<Longrightarrow> \<exists>g'. dget gs' i = Some g' \<and> gn_args g' = gn_args g"
proof (induction evs arbitrary: c gs g)
  case (Cons ev evs)
  then obtain c2 gs2 where s: "gc_step lib ev (c, gs) = Some (c2, gs2)" "run_gc lib evs (c2, gs2) = Some (c', gs')"
    by (auto split: option.splits)
  from s(1) have "\<exists>g2. dget gs2 i = Some g2 \<and> gn_args g2 = gn_args g"
  proof (cases rule: gc_step_cases)
    case (call j args)
    then show ?thesis using Cons.prems(2) by (auto simp: dmem_def)
  next
    case (generation j g1 c3 g2)
    then show ?thesis using Cons.prems(2) gen_step_args [OF generation(2)] by auto
  next
    case (control c3)
    then show ?thesis using Cons.prems(2) by simp
  qed
  then show ?case using Cons.IH [OF s(2)] by metis
qed simp

text \<open>
  The generation a chat request awaits: generation \<open>i\<close> is called with the request's tokens, then
  any events happen.  A request whose generation is still waiting at the end is given up.
\<close>

definition controller_generate ::
  "py_lib \<Rightarrow> system \<Rightarrow> nat \<Rightarrow> gen_args \<Rightarrow> gc_event list \<Rightarrow> int list \<Rightarrow> (string \<times> pyval) list \<Rightarrow> (generation_response \<times> bool) result"
where
  "controller_generate lib sys i args evs ids params =
     (case run_gc lib (Call i (args\<lparr>ga_input_ids := ids, ga_sampling_params := params\<rparr>) # evs) sys of
        None \<Rightarrow> Inl (OtherError ''CancelledError'')
      | Some (c, gs) \<Rightarrow>
          (case map_option gn_phase (dget gs i) of
             Some (Finished p) \<Rightarrow> Inr (chat_view lib p, False)
           | Some (Raised e) \<Rightarrow> Inl (generation_http_error e)
           | _ \<Rightarrow> Inl (OtherError ''CancelledError'')))"

lemma start_generation_input: "ga_input_ids (gn_args (start_generation args c)) = ga_input_ids args"
  by (simp add: start_generation_def Let_def split: sum.splits)


lemma aborted_response_unversioned: "response_version lib aborted_response = None" "sr_output_ids aborted_response = []"
  by (simp_all add: response_version_def response_weight_version_def aborted_response_def pget_def)

text \<open>
  An abort without a partial answer.  When the backend ends an aborted request with an
  exception, a request that is not pinned to a version collects an empty preempted chunk and so
  goes on from its prefix after the resume, but one that is pinned fails as if the backend had
  omitted its version, because the answer made up for it has none.
\<close>

theorem aborted_request_without_answer:
  assumes "\<not> gc_shutting_down c" and "abort_succeeded c rid" and "on_exception lib rid e c g = (c', g')"
  shows "(ga_expected_version (gn_args g) = Some v \<longrightarrow> gn_phase g' = Failing rid GenerationVersionUnavailable) \<and>
    (ga_expected_version (gn_args g) = None \<longrightarrow>
      gn_phase g' = Collected rid True \<and> ac_output_ids (gn_acc g') = ac_output_ids (gn_acc g))"
  using assms
  by (auto simp: on_exception_def on_response_def check_version_def aborted_response_unversioned Let_def
      append_chunk_def update_input_fields_def or_unknown_def)

section \<open>A concrete run\<close>

text \<open>
  One generation is interrupted by a pause after one token and continues after the resume.
\<close>

definition sample_args :: gen_args where
  "sample_args = \<lparr>ga_input_ids = [1, 2], ga_sampling_params = [(''max_new_tokens'', PInt 3)], ga_max_new_tokens = 0,
     ga_session_id = Some ''s'', ga_instance_id = Some ''i'', ga_turn_id = Some ''t'', ga_expected_version = Some ''v1'',
     ga_expected_epoch = None, ga_logprob_start_len = -1, ga_context_window = None\<rparr>"

definition sample_response :: "int list \<Rightarrow> string \<Rightarrow> sglang_response" where
  "sample_response ids reason =
     \<lparr>sr_input_token_logprobs_raw = [], sr_input_token_texts = [], sr_output_ids = ids,
      sr_output_token_logprobs = map (\<lambda>i. PFloat (Fin 0)) ids, sr_output_token_texts = map (\<lambda>i. ''x'') ids,
      sr_text = map (\<lambda>i. CHR ''x'') ids, sr_meta_info = [(''weight_version'', PStr ''v1'')], sr_finish_reason = reason,
      sr_input_logprobs_invalid = True, sr_all_logprobs_invalid = False, sr_routed_experts = None\<rparr>"

definition first_half :: "gc_event list" where
  "first_half = [Call 0 sample_args, Head 0, Lock 0 ''r1'']"

definition interrupted :: "gc_event list" where
  "interrupted = [AbortDone ''r1'' True, Respond 0 (Inr (sample_response [7] ''abort'')), Quiesce 0]"

definition second_half :: "gc_event list" where
  "second_half = [Resume (Some ''v1'') True, Wake 0, Head 0, Lock 0 ''r2'',
     Respond 0 (Inr (sample_response [8, 9] ''stop'')), Quiesce 0]"

definition whole_run :: "gc_event list" where
  "whole_run = first_half @ [Pause None None ''weight_update''] @ interrupted @ second_half"

definition sample_end :: "system" where
  "sample_end = the (run_gc sample_lib whole_run (new_controller True, []))"

lemma sample_run_ends:
  "run_gc sample_lib whole_run (new_controller True, []) \<noteq> None"
  "map_option gn_args (dget (snd sample_end) 0) = Some (sample_args\<lparr>ga_max_new_tokens := 3\<rparr>)"
  "map_option (\<lambda>g. case gn_phase g of Finished p \<Rightarrow> pg_output_ids p | _ \<Rightarrow> []) (dget (snd sample_end) 0) = Some [7, 8, 9]"
  by code_simp+


lemma sample_finished:
  obtains g p where "run_gc sample_lib whole_run (new_controller True, []) = Some (fst sample_end, snd sample_end)"
    and "dget (snd sample_end) 0 = Some g" and "gn_phase g = Finished p" and "pg_output_ids p = [7, 8, 9]"
    and "gn_args g = sample_args\<lparr>ga_max_new_tokens := 3\<rparr>"
proof -
  obtain g where g: "dget (snd sample_end) 0 = Some g" "gn_args g = sample_args\<lparr>ga_max_new_tokens := 3\<rparr>"
    using sample_run_ends(2) by auto
  moreover obtain p where "gn_phase g = Finished p" "pg_output_ids p = [7, 8, 9]"
    using sample_run_ends(3) g(1) by (auto split: gen_phase.splits)
  moreover have "run_gc sample_lib whole_run (new_controller True, []) = Some (fst sample_end, snd sample_end)"
    using sample_run_ends(1) by (auto simp: sample_end_def)
  ultimately show ?thesis using that by blast
qed

theorem finished_generation_stitched_witness:
  "\<exists>c gs g p. run_gc sample_lib whole_run (new_controller True, []) = Some (c, gs) \<and> dget gs 0 = Some g \<and>
     gn_phase g = Finished p \<and> pg_all_token_ids p = [1, 2, 7, 8, 9] \<and>
     pg_output_ids p = concat (map ch_output_ids (pg_chunks p)) \<and> set (pg_output_versions p) \<subseteq> {''v1''}"
proof -
  obtain g p where r: "run_gc sample_lib whole_run (new_controller True, []) = Some (fst sample_end, snd sample_end)"
    "dget (snd sample_end) 0 = Some g" "gn_phase g = Finished p" "pg_output_ids p = [7, 8, 9]"
    "gn_args g = sample_args\<lparr>ga_max_new_tokens := 3\<rparr>" using sample_finished by blast
  have "pg_all_token_ids p = [1, 2, 7, 8, 9]" "set (pg_output_versions p) \<subseteq> {''v1''}"
    "pg_output_ids p = concat (map ch_output_ids (pg_chunks p))"
    using finished_generation_stitched [OF r(1-3), of "''v1''"] r(4,5) by (simp_all add: sample_args_def or_unknown_def)
  then show ?thesis using r by blast
qed

definition sample_running :: "system" where
  "sample_running = the (run_gc sample_lib (butlast (butlast whole_run)) (new_controller True, []))"

lemma sample_running_ends:
  "run_gc sample_lib (butlast (butlast whole_run)) (new_controller True, []) \<noteq> None"
  "map_option gn_phase (dget (snd sample_running) 0) = Some (Running ''r2'')"
  "gc_active (fst sample_running) = [''r2'']"
  "map_option gn_args (dget (snd sample_running) 0) = Some (sample_args\<lparr>ga_max_new_tokens := 3\<rparr>)"
  "map_option (\<lambda>g. ac_output_ids (gn_acc g)) (dget (snd sample_running) 0) = Some [7]"
  by code_simp+

theorem running_request_continues_prefix_witness:
  "\<exists>a. dget (gc_objects (fst sample_running)) ''r2'' = Some a \<and>
     dget (ag_sampling_params a) ''max_new_tokens'' = Some (PInt 2) \<and> ''r2'' \<in> set (gc_active (fst sample_running))"
proof -
  obtain g where g: "dget (snd sample_running) 0 = Some g" "gn_phase g = Running ''r2''"
    "gn_args g = sample_args\<lparr>ga_max_new_tokens := 3\<rparr>" "ac_output_ids (gn_acc g) = [7]"
    using sample_running_ends(2,4,5) by auto
  have "run_gc sample_lib (butlast (butlast whole_run)) (new_controller True, []) =
      Some (fst sample_running, snd sample_running)"
    using sample_running_ends(1) by (auto simp: sample_running_def)
  from running_request_continues_prefix [OF this g(1,2)] show ?thesis using g(3,4) by (auto simp: sample_args_def)
qed

theorem controller_accounting_witness:
  "gc_suspended (fst sample_running) = suspended_count (snd sample_running) \<and> gc_active (fst sample_running) = [''r2''] \<and>
    \<not> is_quiesced (fst sample_running) ''r2''"
proof -
  have r: "run_gc sample_lib (butlast (butlast whole_run)) (new_controller True, []) =
      Some (fst sample_running, snd sample_running)"
    using sample_running_ends(1) by (auto simp: sample_running_def)
  show ?thesis using controller_accounting [OF r] sample_running_ends(3) by simp
qed

definition sample_before :: "system" where
  "sample_before = the (run_gc sample_lib first_half (new_controller True, []))"

definition sample_paused :: "system" where
  "sample_paused = the (run_gc sample_lib interrupted
     (pause_begin None None ''weight_update'' (fst sample_before), snd sample_before))"

lemma sample_paused_ends:
  "run_gc sample_lib first_half (new_controller True, []) \<noteq> None"
  "run_gc sample_lib interrupted (pause_begin None None ''weight_update'' (fst sample_before), snd sample_before) \<noteq> None"
  "pr_quiesced (pause_end (selected None None (fst sample_before)) [] (fst sample_paused))"
  "selected None None (fst sample_before) = [''r1'']"
  "map_option gn_phase (dget (snd sample_paused) 0) = Some Suspended"
  by code_simp+

theorem quiesced_pause_leaves_no_request_witness:
  "selected None None (fst sample_before) = [''r1''] \<and> gc_active (fst sample_paused) = []"
proof -
  have r: "run_gc sample_lib first_half (new_controller True, []) = Some (fst sample_before, snd sample_before)"
    "run_gc sample_lib interrupted (pause_begin None None ''weight_update'' (fst sample_before), snd sample_before) =
      Some (fst sample_paused, snd sample_paused)"
    using sample_paused_ends(1,2) by (auto simp: sample_before_def sample_paused_def)
  show ?thesis
    using quiesced_pause_leaves_no_request [OF r _ sample_paused_ends(3)] sample_paused_ends(4)
    by (simp add: interrupted_def)
qed

definition stopping :: "controller" where
  "stopping = shutdown_begin (fst sample_paused)"

lemma sample_stopping:
  "gc_shutting_down stopping" "gc_resume_event stopping" "\<not> dmem ''r9'' (gc_objects stopping)"
  by code_simp+


theorem pause_during_shutdown_strands_witness:
  "\<exists>c' gs' g. run_gc sample_lib [Resume None True, AbortDone ''r1'' True]
       (pause_begin None None ''weight_update'' stopping, snd sample_paused) = Some (c', gs') \<and>
     dget gs' 0 = Some g \<and> gn_phase g = Suspended"
proof -
  obtain g where g: "dget (snd sample_paused) 0 = Some g" "gn_phase g = Suspended"
    using sample_paused_ends(5) by auto
  obtain c' gs' where "run_gc sample_lib [Resume None True, AbortDone ''r1'' True]
       (pause_begin None None ''weight_update'' stopping, snd sample_paused) = Some (c', gs')"
    by (simp add: gc_step_def)
  from pause_during_shutdown_strands [OF sample_stopping(1) g this] this g show ?thesis by auto
qed




definition sample_aborted :: "system" where
  "sample_aborted = the (run_gc sample_lib (first_half @ [Pause None None ''weight_update'', AbortDone ''r1'' True]) (new_controller True, []))"

lemma sample_aborted_ends:
  "map_option gn_args (dget (snd sample_aborted) 0) = Some (sample_args\<lparr>ga_max_new_tokens := 3\<rparr>)"
  "\<not> gc_shutting_down (fst sample_aborted)" "abort_succeeded (fst sample_aborted) ''r1''"
  by code_simp+

theorem aborted_request_without_answer_witness:
  "\<exists>g c' g'. dget (snd sample_aborted) 0 = Some g \<and>
     on_exception sample_lib ''r1'' (OtherError ''ReadError'') (fst sample_aborted) g = (c', g') \<and>
     gn_phase g' = Failing ''r1'' GenerationVersionUnavailable"
proof -
  obtain g where g: "dget (snd sample_aborted) 0 = Some g" "gn_args g = sample_args\<lparr>ga_max_new_tokens := 3\<rparr>"
    using sample_aborted_ends(1) by auto
  obtain c' g' where r: "on_exception sample_lib ''r1'' (OtherError ''ReadError'') (fst sample_aborted) g = (c', g')" by fastforce
  have "gn_phase g' = Failing ''r1'' GenerationVersionUnavailable"
    using aborted_request_without_answer [OF sample_aborted_ends(2,3) r, of "''v1''"] g(2) by (simp add: sample_args_def)
  then show ?thesis using g(1) r by blast
qed

end
