(* ===== verification/Greedy_Placement.thy ===== *)
theory Greedy_Placement
  imports Prelude
begin

text \<open>
  Placement of one request on an inference engine (\<open>dressage/proxy/rebalancing/greedy.py\<close>) and the
  life cycle of a pool of compatible engines (\<open>dressage/proxy/rebalancing/scheduler_state.py\<close>).

  Loads are integers the engines report and the scores are computed from them with the real
  operations; the rounding of the float operations is not modelled.  A reported token usage can be
  any float, and the validation of a baseline refuses those that are not finite.  The hash behind
  the stable order of the engines is a parameter.

  The lemmas show that the chosen engine is one of the feasible ones, that a new session or a
  failover goes to an engine of minimal projected pressure up to the tolerance, that a session
  leaves its owner only for the demanded relative improvement and is never placed worse than on
  its owner, and that the state of a pool is a function of its readiness history.
\<close>

section \<open>Baselines, edges and pressure\<close>

record EngineBaseline =
  bl_url :: string
  bl_base_requests :: real
  bl_base_tokens :: real
  bl_base_queue :: real
  bl_request_capacity :: real
  bl_token_capacity :: real
  bl_token_usage :: real

definition make_baseline :: "string \<Rightarrow> int \<Rightarrow> int \<Rightarrow> int \<Rightarrow> int \<Rightarrow> int \<Rightarrow> pyfloat \<Rightarrow> EngineBaseline result" where
  "make_baseline url requests tokens queue request_capacity token_capacity usage =
     (if request_capacity \<le> 0 \<or> token_capacity \<le> 0 then Inl (ValueError ''capacities must be positive'')
      else case usage of
        Fin u \<Rightarrow>
          (if requests < 0 \<or> tokens < 0 \<or> queue < 0 \<or> u < 0
           then Inl (ValueError ''pressure inputs must be non-negative'')
           else Inr \<lparr>bl_url = url, bl_base_requests = of_int requests, bl_base_tokens = of_int tokens,
                     bl_base_queue = of_int queue, bl_request_capacity = of_int request_capacity,
                     bl_token_capacity = of_int token_capacity, bl_token_usage = u\<rparr>)
      | _ \<Rightarrow> Inl (ValueError ''pressure inputs must be finite''))"

record FeasibleEdge =
  fe_session_id :: string
  fe_engine_url :: string
  fe_queue_increment :: int
  fe_token_increment :: int

definition make_edge :: "string \<Rightarrow> string \<Rightarrow> int \<Rightarrow> int \<Rightarrow> FeasibleEdge result" where
  "make_edge sid url queue tokens =
     (if queue < 0 \<or> tokens < 0 then Inl (ValueError ''edge pressure increments must be finite and non-negative'')
      else Inr \<lparr>fe_session_id = sid, fe_engine_url = url, fe_queue_increment = queue, fe_token_increment = tokens\<rparr>)"

datatype GreedyStepKind = FixedOwner | MandatoryFailover | NewSession | ExistingSession

record EnginePressure =
  ep_request :: real
  ep_token :: real
  ep_queue :: real
  ep_total :: real

definition projected_pressure :: "EngineBaseline \<Rightarrow> int \<Rightarrow> int \<Rightarrow> EnginePressure" where
  "projected_pressure e queue_increment token_increment =
     (let request = bl_base_requests e / bl_request_capacity e;
          token = max ((bl_base_tokens e + of_int token_increment) / bl_token_capacity e) (bl_token_usage e);
          queue = (bl_base_queue e + of_int queue_increment) / bl_request_capacity e
      in \<lparr>ep_request = request, ep_token = token, ep_queue = queue, ep_total = request + token + queue\<rparr>)"

definition stable_engine_rank :: "(string \<Rightarrow> nat) \<Rightarrow> string \<Rightarrow> string \<Rightarrow> nat" where
  "stable_engine_rank sha sid url = sha (sid @ [CHR 0x00] @ url)"

definition choose_stable_engine :: "(string \<Rightarrow> nat) \<Rightarrow> string \<Rightarrow> string list \<Rightarrow> string result" where
  "choose_stable_engine sha sid urls =
     (if urls = [] then Inl (ValueError ''at least one Engine is required'')
      else Inr (arg_min_list (\<lambda>url. (stable_engine_rank sha sid url, url)) urls))"

section \<open>The greedy choice\<close>

definition SCORE_TOLERANCE :: real where
  "SCORE_TOLERANCE = 1 / 10000000"

definition RATIO_EPSILON :: real where
  "RATIO_EPSILON = 1 / 1000000000"

record GreedyStepDecision =
  gd_reason :: string
  gd_owner_score :: "real option"
  gd_scores :: "(string, real) dict"
  gd_best :: string
  gd_best_score :: real
  gd_selected :: string
  gd_selected_score :: real
  gd_improvement :: "real option"
  gd_required :: "real option"
  gd_threshold_met :: "bool option"

definition baselines_of :: "EngineBaseline list \<Rightarrow> (string, EngineBaseline) dict" where
  "baselines_of engines = fold (\<lambda>e. dset (bl_url e) e) engines []"

definition edge_score :: "(string, EngineBaseline) dict \<Rightarrow> FeasibleEdge \<Rightarrow> real" where
  "edge_score baselines e =
     (case dget baselines (fe_engine_url e) of
        Some b \<Rightarrow> ep_total (projected_pressure b (fe_queue_increment e) (fe_token_increment e))
      | None \<Rightarrow> 0)"

definition is_owner_edge :: "string option \<Rightarrow> FeasibleEdge \<Rightarrow> bool" where
  "is_owner_edge owner e \<longleftrightarrow> owner = Some (fe_engine_url e)"

definition validate_step ::
  "string \<Rightarrow> GreedyStepKind \<Rightarrow> string option \<Rightarrow> (string, EngineBaseline) dict \<Rightarrow> FeasibleEdge list \<Rightarrow> real \<Rightarrow> unit result" where
  "validate_step sid kind owner baselines edges ratio =
     (if \<not> (0 \<le> ratio \<and> ratio \<le> 1) then Inl (ValueError ''min load improvement ratio must be within [0, 1]'')
      else if edges = [] then Inl (ValueError ''step must contain at least one feasible edge'')
      else if \<not> distinct (map fe_engine_url edges) then Inl (ValueError ''step contains duplicate Engine edges'')
      else if list_ex (\<lambda>e. fe_session_id e \<noteq> sid) edges then Inl (ValueError ''edge session does not match step session'')
      else if list_ex (\<lambda>e. \<not> dmem (fe_engine_url e) baselines) edges then Inl (ValueError ''edge references an unknown Engine'')
      else if kind = NewSession \<and> owner \<noteq> None then Inl (ValueError ''new session must not have an owner'')
      else if (kind = FixedOwner \<or> kind = ExistingSession) \<and> (owner = None \<or> find (is_owner_edge owner) edges = None)
      then Inl (ValueError ''sticky step must contain its owner edge'')
      else if kind = MandatoryFailover \<and> find (is_owner_edge owner) edges \<noteq> None
      then Inl (ValueError ''mandatory failover cannot retain its owner'')
      else Inr ())"

definition best_edge :: "(string \<Rightarrow> nat) \<Rightarrow> string \<Rightarrow> string option \<Rightarrow> (FeasibleEdge \<Rightarrow> real) \<Rightarrow> FeasibleEdge list \<Rightarrow> FeasibleEdge" where
  "best_edge sha sid owner score edges =
     (let minimum = Min (set (map score edges));
          tied = filter (\<lambda>e. score e \<le> minimum + SCORE_TOLERANCE) edges
      in case find (is_owner_edge owner) tied of
           Some e \<Rightarrow> e
         | None \<Rightarrow> arg_min_list (\<lambda>e. (stable_engine_rank sha sid (fe_engine_url e), fe_engine_url e)) tied)"

definition choose_greedy_step ::
  "(string \<Rightarrow> nat) \<Rightarrow> string \<Rightarrow> GreedyStepKind \<Rightarrow> string option \<Rightarrow> EngineBaseline list \<Rightarrow> FeasibleEdge list \<Rightarrow> real
    \<Rightarrow> GreedyStepDecision result" where
  "choose_greedy_step sha sid kind owner engines edges ratio =
     (let baselines = baselines_of engines in
      rbind (validate_step sid kind owner baselines edges ratio) (\<lambda>_.
      let score = edge_score baselines;
          best = best_edge sha sid owner score edges;
          best_score = score best;
          decide = (\<lambda>reason owner_score selected improvement required met.
            \<lparr>gd_reason = reason, gd_owner_score = owner_score,
             gd_scores = map (\<lambda>e. (fe_engine_url e, score e)) edges, gd_best = fe_engine_url best, gd_best_score = best_score,
             gd_selected = fe_engine_url selected, gd_selected_score = score selected, gd_improvement = improvement,
             gd_required = required, gd_threshold_met = met\<rparr>)
      in case (kind, find (is_owner_edge owner) edges) of
           (NewSession, _) \<Rightarrow> Inr (decide ''lowest_projected_pressure'' None best None None None)
         | (MandatoryFailover, _) \<Rightarrow> Inr (decide ''mandatory_failover'' None best None None None)
         | (FixedOwner, Some owner_edge) \<Rightarrow> Inr (decide ''fixed_owner'' (Some (score owner_edge)) owner_edge None None None)
         | (ExistingSession, Some owner_edge) \<Rightarrow>
             (let owner_score = score owner_edge;
                  improvement = max 0 ((owner_score - best_score) / max owner_score RATIO_EPSILON);
                  met = (owner \<noteq> Some (fe_engine_url best) \<and> best_score < owner_score - SCORE_TOLERANCE \<and> improvement \<ge> ratio)
              in Inr (decide (if met then ''load_improvement_threshold_met'' else ''load_improvement_below_threshold'')
                   (Some owner_score) (if met then best else owner_edge) (Some improvement) (Some ratio) (Some met)))
         | _ \<Rightarrow> Inl (RuntimeError ''existing session is missing its owner'')))"

section \<open>Pool states\<close>

datatype SchedulerState = OFF | BOOTSTRAP | ACTIVE | DEGRADED

record EngineRebalancingConfig =
  rc_enabled :: bool
  rc_load_poll_interval_ms :: int
  rc_load_snapshot_poll_interval_ms :: int
  rc_metrics_stale_ms :: int
  rc_history_size :: int
  rc_min_load_improvement_ratio :: real

definition check_config :: "EngineRebalancingConfig \<Rightarrow> unit result" where
  "check_config c =
     (if rc_load_poll_interval_ms c \<le> 0 then Inl (ValueError ''load_poll_interval_ms must be positive'')
      else if rc_load_snapshot_poll_interval_ms c \<le> 0 then Inl (ValueError ''load_snapshot_poll_interval_ms must be positive'')
      else if rc_metrics_stale_ms c \<le> 0 then Inl (ValueError ''metrics_stale_ms must be positive'')
      else if rc_history_size c \<le> 0 then Inl (ValueError ''history_size must be positive'')
      else if \<not> (0 \<le> rc_min_load_improvement_ratio c \<and> rc_min_load_improvement_ratio c \<le> 1)
      then Inl (ValueError ''min_load_improvement_ratio must be between 0 and 1'')
      else Inr ())"

record PoolReadiness =
  pl_healthy_engines :: nat
  pl_metrics_fresh :: bool
  pl_eligible_paths :: nat

definition pool_ready :: "PoolReadiness \<Rightarrow> bool" where
  "pool_ready r \<longleftrightarrow> pl_healthy_engines r \<ge> 2 \<and> pl_metrics_fresh r \<and> pl_eligible_paths r > 0"

record pool_machine =
  pm_fingerprint :: string
  pm_enabled :: bool
  pm_state :: SchedulerState
  pm_state_since :: real
  pm_transition_reason :: string
  pm_last_readiness :: "PoolReadiness option"
  pm_was_active :: bool

definition new_pool :: "string \<Rightarrow> EngineRebalancingConfig \<Rightarrow> real \<Rightarrow> pool_machine" where
  "new_pool fingerprint config now =
     \<lparr>pm_fingerprint = fingerprint, pm_enabled = rc_enabled config,
      pm_state = (if rc_enabled config then BOOTSTRAP else OFF), pm_state_since = now,
      pm_transition_reason = (if rc_enabled config then ''engine_rebalancing_enabled'' else ''engine_rebalancing_disabled''),
      pm_last_readiness = None, pm_was_active = False\<rparr>"

definition transition :: "SchedulerState \<Rightarrow> string \<Rightarrow> real \<Rightarrow> pool_machine \<Rightarrow> pool_machine" where
  "transition st reason now m =
     (if st = pm_state m then m\<lparr>pm_transition_reason := reason\<rparr>
      else m\<lparr>pm_state := st, pm_state_since := now, pm_transition_reason := reason\<rparr>)"

definition update_pool :: "PoolReadiness \<Rightarrow> string option \<Rightarrow> real \<Rightarrow> pool_machine \<Rightarrow> pool_machine" where
  "update_pool r reason now m0 =
     (let m = m0\<lparr>pm_last_readiness := Some r\<rparr>;
          or_reason = (\<lambda>d. case reason of Some (c # cs) \<Rightarrow> c # cs | _ \<Rightarrow> d)
      in if \<not> pm_enabled m then transition OFF (or_reason ''engine_rebalancing_disabled'') now m
         else if pool_ready r then transition ACTIVE (or_reason ''pool_readiness_satisfied'') now (m\<lparr>pm_was_active := True\<rparr>)
         else if pm_was_active m then transition DEGRADED (or_reason ''pool_readiness_lost'') now m
         else transition BOOTSTRAP (or_reason ''pool_readiness_pending'') now m)"


section \<open>Properties of the greedy choice\<close>

lemma find_SomeD: "find P xs = Some x \<Longrightarrow> x \<in> set xs \<and> P x"
  by (auto simp: find_Some_iff)

lemma best_edge_cases:
  assumes "edges \<noteq> []"
  shows "best_edge sha sid owner score edges \<in> set edges"
    and "f \<in> set edges \<Longrightarrow> score (best_edge sha sid owner score edges) \<le> score f + SCORE_TOLERANCE"
proof -
  let ?m = "Min (set (map score edges))" and ?best = "best_edge sha sid owner score edges"
  let ?tied = "filter (\<lambda>e. score e \<le> ?m + SCORE_TOLERANCE) edges"
  have "?m \<in> set (map score edges)" using assms by (intro Min_in) auto
  then obtain e where e: "e \<in> set edges" "score e = ?m" by auto
  then have "e \<in> set ?tied" by (simp add: SCORE_TOLERANCE_def)
  then have ne: "?tied \<noteq> []" using empty_iff empty_set by metis
  have "?best \<in> set ?tied"
    unfolding best_edge_def Let_def using arg_min_list_in [OF ne] by (auto split: option.splits dest: find_SomeD)
  then show "?best \<in> set edges" by simp
  show "score ?best \<le> score f + SCORE_TOLERANCE" if "f \<in> set edges"
  proof -
    have "?m \<le> score f" using that by (intro Min_le) auto
    then show ?thesis using \<open>?best \<in> set ?tied\<close> by simp
  qed
qed

lemma choose_greedy_stepE:
  assumes "choose_greedy_step sha sid kind owner engines edges ratio = Inr d"
  obtains "validate_step sid kind owner (baselines_of engines) edges ratio = Inr ()" "edges \<noteq> []" "0 \<le> ratio" "ratio \<le> 1"
  using assms that by (auto simp: choose_greedy_step_def validate_step_def Let_def split: if_splits)

lemma improvement_bound:
  fixes owner_score best_score ratio :: real
  assumes "best_score < owner_score" "ratio \<le> max 0 ((owner_score - best_score) / max owner_score RATIO_EPSILON)" "0 \<le> ratio"
  shows "best_score \<le> (1 - ratio) * owner_score"
proof -
  have pos: "max owner_score RATIO_EPSILON > 0" by (simp add: RATIO_EPSILON_def less_max_iff_disj)
  have "0 \<le> (owner_score - best_score) / max owner_score RATIO_EPSILON" using assms(1) pos by simp
  then have "ratio \<le> (owner_score - best_score) / max owner_score RATIO_EPSILON" using assms(2) by simp
  then have "ratio * max owner_score RATIO_EPSILON \<le> owner_score - best_score" using pos by (simp add: pos_le_divide_eq)
  moreover have "ratio * owner_score \<le> ratio * max owner_score RATIO_EPSILON"
    using assms(3) by (intro mult_left_mono) auto
  ultimately show ?thesis by (simp add: algebra_simps)
qed

text \<open>What the scheduler needs of a decision; one conjunct per kind of step.\<close>

definition sound_decision ::
  "GreedyStepKind \<Rightarrow> string option \<Rightarrow> (FeasibleEdge \<Rightarrow> real) \<Rightarrow> FeasibleEdge list \<Rightarrow> real \<Rightarrow> GreedyStepDecision \<Rightarrow> bool" where
  "sound_decision kind owner score edges ratio d \<longleftrightarrow>
     (\<exists>e\<in>set edges. gd_selected d = fe_engine_url e \<and> gd_selected_score d = score e) \<and>
     (kind = FixedOwner \<longrightarrow> owner = Some (gd_selected d)) \<and>
     (kind = MandatoryFailover \<longrightarrow> owner \<noteq> Some (gd_selected d)) \<and>
     (kind = NewSession \<or> kind = MandatoryFailover \<longrightarrow> (\<forall>f\<in>set edges. gd_selected_score d \<le> score f + SCORE_TOLERANCE)) \<and>
     (kind = ExistingSession \<longrightarrow>
        (\<exists>o'\<in>set edges. owner = Some (fe_engine_url o') \<and> gd_selected_score d \<le> score o' \<and>
          (owner \<noteq> Some (gd_selected d) \<longrightarrow>
             gd_selected_score d < score o' - SCORE_TOLERANCE \<and> gd_selected_score d \<le> (1 - ratio) * score o' \<and>
             (\<forall>f\<in>set edges. gd_selected_score d \<le> score f + SCORE_TOLERANCE))))"

lemma choose_greedy_step_sound:
  assumes "choose_greedy_step sha sid kind owner engines edges ratio = Inr d"
  shows "sound_decision kind owner (edge_score (baselines_of engines)) edges ratio d"
proof -
  let ?score = "edge_score (baselines_of engines)"
  let ?best = "best_edge sha sid owner ?score edges"
  obtain v: "validate_step sid kind owner (baselines_of engines) edges ratio = Inr ()" and ne: "edges \<noteq> []"
    and r: "0 \<le> ratio" using choose_greedy_stepE [OF assms] by blast
  have best: "?best \<in> set edges" "\<And>f. f \<in> set edges \<Longrightarrow> ?score ?best \<le> ?score f + SCORE_TOLERANCE"
    using best_edge_cases [OF ne] by blast+
  have fail: "kind = MandatoryFailover \<Longrightarrow> owner \<noteq> Some (fe_engine_url e)" if "e \<in> set edges" for e
    using v that by (auto simp: validate_step_def is_owner_edge_def find_None_iff split: if_splits)
  show ?thesis
  proof (cases kind)
    case NewSession
    then show ?thesis using assms v best by (auto simp: choose_greedy_step_def sound_decision_def Let_def)
  next
    case MandatoryFailover
    then show ?thesis using assms v best fail by (auto simp: choose_greedy_step_def sound_decision_def Let_def)
  next
    case FixedOwner
    then obtain oe where oe: "find (is_owner_edge owner) edges = Some oe"
      using v by (auto simp: validate_step_def split: if_splits)
    then show ?thesis using assms v FixedOwner find_SomeD [OF oe]
      by (auto simp: choose_greedy_step_def sound_decision_def Let_def is_owner_edge_def)
  next
    case ExistingSession
    then obtain oe where oe: "find (is_owner_edge owner) edges = Some oe"
      using v by (auto simp: validate_step_def split: if_splits)
    have imp: "?score ?best \<le> (1 - ratio) * ?score oe"
      if "?score ?best < ?score oe - SCORE_TOLERANCE" "ratio \<le> max 0 ((?score oe - ?score ?best) / max (?score oe) RATIO_EPSILON)"
      using improvement_bound [OF _ that(2) r] that(1) by (simp add: SCORE_TOLERANCE_def)
    have sel: "gd_selected d = fe_engine_url oe \<and> gd_selected_score d = ?score oe \<or>
      gd_selected d = fe_engine_url ?best \<and> gd_selected_score d = ?score ?best \<and>
      ?score ?best < ?score oe - SCORE_TOLERANCE \<and> ?score ?best \<le> (1 - ratio) * ?score oe"
      using assms v ExistingSession oe imp by (auto simp: choose_greedy_step_def Let_def split: if_splits)
    have oe': "oe \<in> set edges" "owner = Some (fe_engine_url oe)" using find_SomeD [OF oe] by (auto simp: is_owner_edge_def)
    from sel show ?thesis
    proof (elim disjE conjE)
      assume "gd_selected d = fe_engine_url oe" "gd_selected_score d = ?score oe"
      then show ?thesis using oe' ExistingSession by (auto simp: sound_decision_def)
    next
      assume "gd_selected d = fe_engine_url ?best" "gd_selected_score d = ?score ?best"
        "?score ?best < ?score oe - SCORE_TOLERANCE" "?score ?best \<le> (1 - ratio) * ?score oe"
      moreover from this have "?score ?best \<le> ?score oe" by (simp add: SCORE_TOLERANCE_def)
      ultimately show ?thesis using oe' ExistingSession best unfolding sound_decision_def by auto
    qed
  qed
qed

lemma choose_greedy_step_total:
  assumes "validate_step sid kind owner (baselines_of engines) edges ratio = Inr ()"
  shows "\<exists>d. choose_greedy_step sha sid kind owner engines edges ratio = Inr d"
  using assms
  by (cases kind) (auto simp: choose_greedy_step_def validate_step_def Let_def split: option.splits if_splits)

text \<open>
  C31.  The placement decision.  The choice succeeds exactly on valid steps, and the selected engine
  is one of the feasible ones: the owner for a fixed owner, another one for a failover, one of
  minimal projected pressure up to the tolerance for a new session or a failover.  An existing
  session stays on its owner or moves to an engine of minimal pressure whose projected pressure is
  lower than the owner's by more than the tolerance and by the demanded ratio of it.
\<close>

theorem greedy_choice_sound:
  "(\<exists>d. choose_greedy_step sha sid kind owner engines edges ratio = Inr d) =
      (validate_step sid kind owner (baselines_of engines) edges ratio = Inr ()) \<and>
   (\<forall>d. choose_greedy_step sha sid kind owner engines edges ratio = Inr d \<longrightarrow>
      sound_decision kind owner (edge_score (baselines_of engines)) edges ratio d)"
  using choose_greedy_step_total choose_greedy_step_sound choose_greedy_stepE by metis

definition sample_engines :: "EngineBaseline list" where
  "sample_engines =
     [\<lparr>bl_url = ''a'', bl_base_requests = 8, bl_base_tokens = 100, bl_base_queue = 2, bl_request_capacity = 10,
       bl_token_capacity = 1000, bl_token_usage = 0\<rparr>,
      \<lparr>bl_url = ''b'', bl_base_requests = 1, bl_base_tokens = 50, bl_base_queue = 0, bl_request_capacity = 10,
       bl_token_capacity = 1000, bl_token_usage = 0\<rparr>]"

definition sample_edges :: "FeasibleEdge list" where
  "sample_edges =
     [\<lparr>fe_session_id = ''s'', fe_engine_url = ''a'', fe_queue_increment = 1, fe_token_increment = 10\<rparr>,
      \<lparr>fe_session_id = ''s'', fe_engine_url = ''b'', fe_queue_increment = 1, fe_token_increment = 200\<rparr>]"

theorem greedy_choice_sound_witness:
  "\<exists>d. choose_greedy_step (\<lambda>_. 0) ''s'' ExistingSession (Some ''a'') sample_engines sample_edges (1 / 10) = Inr d \<and>
     sound_decision ExistingSession (Some ''a'') (edge_score (baselines_of sample_engines)) sample_edges (1 / 10) d"
proof -
  have "validate_step ''s'' ExistingSession (Some ''a'') (baselines_of sample_engines) sample_edges (1 / 10) = Inr ()"
    by (simp add: validate_step_def baselines_of_def sample_engines_def sample_edges_def is_owner_edge_def dmem_def)
  then show ?thesis using greedy_choice_sound by metis
qed

section \<open>Properties of the pool machine\<close>

fun run_pool :: "(PoolReadiness \<times> string option \<times> real) list \<Rightarrow> pool_machine \<Rightarrow> pool_machine" where
  "run_pool [] m = m"
| "run_pool ((r, reason, now) # us) m = run_pool us (update_pool r reason now m)"

lemma run_pool_snoc: "run_pool (us @ [(r, reason, now)]) m = update_pool r reason now (run_pool us m)"
  by (induction us m rule: run_pool.induct) simp_all

lemma transition_simps [simp]:
  "pm_state (transition st reason now m) = st" "pm_was_active (transition st reason now m) = pm_was_active m"
  "pm_enabled (transition st reason now m) = pm_enabled m"
  "pm_state_since (transition st reason now m) = (if st = pm_state m then pm_state_since m else now)"
  by (simp_all add: transition_def)

text \<open>
  The state of a pool is determined by its readiness history.  After any sequence of updates
  a disabled pool is OFF; an enabled one is ACTIVE exactly when the last update was ready,
  DEGRADED exactly when it was not but an earlier one was, and BOOTSTRAP exactly when none ever
  was.  The time of the last state change is that of an update or of the creation.
\<close>

theorem pool_state_characterised:
  "pm_state (run_pool us (new_pool fp config now0)) =
    (if \<not> rc_enabled config then OFF
     else if us \<noteq> [] \<and> pool_ready (fst (last us)) then ACTIVE
     else if \<exists>u\<in>set us. pool_ready (fst u) then DEGRADED
     else BOOTSTRAP) \<and>
   pm_state_since (run_pool us (new_pool fp config now0)) \<in> insert now0 (set (map (snd \<circ> snd) us))"
proof -
  let ?run = "\<lambda>us. run_pool us (new_pool fp config now0)"
  have was: "pm_was_active (?run us) = (rc_enabled config \<and> (\<exists>u\<in>set us. pool_ready (fst u))) \<and> pm_enabled (?run us) = rc_enabled config" for us
  proof (induction us rule: rev_induct)
    case (snoc u us)
    then show ?case by (cases u) (auto simp: run_pool_snoc update_pool_def Let_def)
  qed (simp add: new_pool_def)
  show ?thesis
  proof (induction us rule: rev_induct)
    case Nil
    then show ?case by (simp add: new_pool_def)
  next
    case (snoc u us)
    obtain r reason now where u: "u = (r, reason, now)" using prod_cases3 by blast
    have "pm_state_since (run_pool (us @ [u]) (new_pool fp config now0)) \<in> {pm_state_since (?run us), now}"
      unfolding u run_pool_snoc by (simp add: update_pool_def Let_def)
    then consider "pm_state_since (?run (us @ [u])) = pm_state_since (?run us)" | "pm_state_since (?run (us @ [u])) = now"
      by blast
    then have "pm_state_since (?run (us @ [u])) \<in> insert now0 (set (map (snd \<circ> snd) (us @ [u])))"
      by cases (use conjunct2 [OF snoc] in \<open>simp_all add: u, blast?\<close>)
    then show ?case using was [of us] unfolding u run_pool_snoc by (auto simp: update_pool_def Let_def)
  qed
qed

end
