(* ===== verification/Engine_Rebalancer.thy ===== *)
theory Engine_Rebalancer
  imports Greedy_Placement
begin

text \<open>
  The engine rebalancer (\<open>dressage/proxy/rebalancing/scheduler.py\<close>), which places every chat request
  on an inference engine, with the parts of \<open>transfer_calibrator.py\<close> and \<open>model_cache_profile.py\<close>
  it decides by.  Each operation is the stretch of code that holds the rebalancer's lock; what the
  engines and the router answer, the clock, the host resolver and the hash are parameters.

  The lemmas show that a request is placed whenever it can be: a registered session is never
  refused; that a lease respects the demanded weight version and the health of the engine, and that
  a session with a healthy owner moves only along a calibrated restore path; that in every
  interleaving of operations the reservations are exactly those of the leases not yet settled; and
  that the two places that name a calibrated link disagree on protocols with adjacent separators.
\<close>

section \<open>State\<close>

record EngineDeploymentInfo =
  ed_node_id :: string
  ed_worker_url :: string
  ed_weight_version :: string
  ed_sglang_version :: string
  ed_kv_dtype :: string
  ed_state_dtype :: string
  ed_page_size :: int
  ed_swa_window_size :: "int option"
  ed_mamba_track_interval :: "int option"
  ed_hicache_args :: "(string, string) dict"
  ed_mooncake_args :: "(string, string) dict"
  ed_cache_fingerprint :: string
  ed_mooncake_protocol :: string
  ed_shared_l3 :: bool
  ed_host_staging :: bool
  ed_gpudirect :: bool

record EngineLoad =
  el_healthy :: bool
  el_metrics_timestamp :: real
  el_running :: int
  el_queued :: int
  el_active_tokens :: int
  el_token_capacity :: int
  el_request_capacity :: int
  el_token_usage :: pyfloat
  el_snapshot_generation :: nat
  el_snapshot_fetch_status :: string
  el_snapshot_fetch_duration_seconds :: real

definition new_load :: EngineLoad where
  "new_load = \<lparr>el_healthy = True, el_metrics_timestamp = 0, el_running = 0, el_queued = 0, el_active_tokens = 0,
     el_token_capacity = 0, el_request_capacity = 0, el_token_usage = Fin 0, el_snapshot_generation = 0,
     el_snapshot_fetch_status = ''never'', el_snapshot_fetch_duration_seconds = 0\<rparr>"

definition load_fresh :: "real \<Rightarrow> real \<Rightarrow> EngineLoad \<Rightarrow> bool" where
  "load_fresh now stale_seconds l \<longleftrightarrow>
     el_healthy l \<and> el_metrics_timestamp l > 0 \<and> now - el_metrics_timestamp l \<le> stale_seconds"

record SessionRoutingState =
  rs_owner_worker_url :: "string option"
  rs_fingerprint :: "string option"
  rs_previous_committed_tokens :: "int list"

definition new_routing_state :: SessionRoutingState where
  "new_routing_state = \<lparr>rs_owner_worker_url = None, rs_fingerprint = None, rs_previous_committed_tokens = []\<rparr>"

record RoutingLease =
  rl_session_id :: string
  rl_source_worker_url :: "string option"
  rl_target_worker_url :: "string option"
  rl_moved :: bool
  rl_reservation_id :: "nat option"
  rl_load_decision_id :: "nat option"

record ReservationEntry =
  re_engine_url :: string
  re_scoring_queue_increment :: int
  re_scoring_token_increment :: int
  re_scoring_revision :: nat
  re_scoring_active :: bool

datatype CalibrationState = CalDisabled | CalWaitingForRay | CalRunning | CalReady | CalDegraded

record MachineCalibrationConfig =
  mc_shared_l3 :: bool
  mc_gpudirect :: bool
  mc_protocol :: string
  mc_device_name :: string
  mc_metadata_server :: string
  mc_write_policy :: string
  mc_model_deployment :: "(string, string) dict"

record rebalancer =
  rb_config :: EngineRebalancingConfig
  rb_benchmark_injected :: bool
  rb_machine_config :: "MachineCalibrationConfig option"
  rb_calibration_state :: CalibrationState
  rb_results :: "(string \<times> string \<times> string \<times> int) list"
  rb_node_ids :: "string list"
  rb_node_addresses :: "string list"
  rb_node_aliases :: "(string, string) dict"
  rb_profiles :: "(string, bool) dict"
  rb_deployments :: "(string, EngineDeploymentInfo) dict"
  rb_loads :: "(string, EngineLoad) dict"
  rb_load_generations :: "(string, nat) dict"
  rb_reservations :: "(nat, ReservationEntry) dict"
  rb_next_reservation_id :: nat
  rb_scoring_revision :: nat
  rb_next_load_decision_id :: nat
  rb_pools :: "(string, pool_machine) dict"
  rb_sessions :: "(string, SessionRoutingState) dict"
  rb_excluded_engines :: "(string, string) dict"
  rb_deployment_checked_at :: "(string, real) dict"
  rb_online_request_count :: nat
  rb_stopping :: bool

section \<open>Restore paths\<close>

text \<open>The name of the link between two nodes, once as the calibration plan writes it and once as the scheduler reads it.\<close>

definition is_lower_alnum :: "char \<Rightarrow> bool" where
  "is_lower_alnum c \<longleftrightarrow> is_alnum c \<and> lower_char c = c"

definition strip_underscores :: "string \<Rightarrow> string" where
  "strip_underscores s = strip_by (\<lambda>c. c = CHR ''_'') s"

definition named_link :: "string \<Rightarrow> string" where
  "named_link protocol = ''mooncake_'' @ (if protocol = [] then ''remote'' else protocol)"

definition plan_link_name :: "string \<Rightarrow> string" where
  "plan_link_name protocol =
     named_link (strip_underscores (map (\<lambda>c. if is_alnum c then c else CHR ''_'')
       (lower (if protocol = [] then ''remote'' else protocol))))"

fun collapse_separators :: "bool \<Rightarrow> string \<Rightarrow> string" where
  "collapse_separators in_run [] = []"
| "collapse_separators in_run (c # cs) =
     (if is_lower_alnum c then c # collapse_separators False cs
      else if in_run then collapse_separators True cs else CHR ''_'' # collapse_separators True cs)"

definition scheduler_link_name :: "string \<Rightarrow> string" where
  "scheduler_link_name protocol =
     named_link (strip_underscores (collapse_separators False (if protocol = [] then ''remote'' else protocol)))"

definition completed_links :: "string \<Rightarrow> string \<Rightarrow> rebalancer \<Rightarrow> string list" where
  "completed_links source target rb =
     map (\<lambda>(s, t, link, payload). link) (filter (\<lambda>(s, t, link, payload). s = source \<and> t = target) (rb_results rb))"

definition calibration_node_for :: "(string \<Rightarrow> string option) \<Rightarrow> EngineDeploymentInfo \<Rightarrow> rebalancer \<Rightarrow> string option" where
  "calibration_node_for resolve d rb =
     (if rb_benchmark_injected rb then Some (ed_node_id d)
      else case dget (rb_node_aliases rb) (ed_node_id d) of
        Some t \<Rightarrow> Some t
      | None \<Rightarrow>
          (let resolved = (case resolve (ed_node_id d) of Some a \<Rightarrow> a | None \<Rightarrow> ed_node_id d) in
           case dget (rb_node_aliases rb) resolved of
             Some t \<Rightarrow> Some t
           | None \<Rightarrow> (if length (rb_node_addresses rb) = 1 \<and> startswith resolved ''127.''
                     then Some (hd (rb_node_addresses rb)) else None)))"

definition str_or :: "string option \<Rightarrow> string option \<Rightarrow> string option" where
  "str_or x y = (case x of Some (c # cs) \<Rightarrow> Some (c # cs) | _ \<Rightarrow> y)"

definition show_opt :: "int option \<Rightarrow> string" where
  "show_opt n = (case n of None \<Rightarrow> ''None'' | Some i \<Rightarrow> show_int i)"

definition deployment_matches_preflight :: "(string \<Rightarrow> string option) \<Rightarrow> EngineDeploymentInfo \<Rightarrow> rebalancer \<Rightarrow> bool" where
  "deployment_matches_preflight resolve d rb \<longleftrightarrow>
     rb_benchmark_injected rb \<or>
     (case rb_machine_config rb of
        None \<Rightarrow> False
      | Some cfg \<Rightarrow>
          (rb_calibration_state rb = CalReady \<or> rb_calibration_state rb = CalDegraded) \<and>
          ed_shared_l3 d = mc_shared_l3 cfg \<and>
          (ed_shared_l3 d \<longrightarrow>
             ed_gpudirect d = mc_gpudirect cfg \<and> ed_mooncake_protocol d = mc_protocol cfg \<and>
             (mc_device_name cfg \<noteq> [] \<longrightarrow> dget_or (ed_mooncake_args d) ''device_name'' [] = mc_device_name cfg) \<and>
             (mc_metadata_server cfg \<noteq> [] \<longrightarrow>
                str_or (dget (ed_mooncake_args d) ''metadata_server'')
                  (str_or (dget (ed_mooncake_args d) ''metadata_conn_string'') (Some [])) = Some (mc_metadata_server cfg)) \<and>
             (rb_node_ids rb \<noteq> [] \<longrightarrow> calibration_node_for resolve d rb \<noteq> None) \<and>
             lower (dget_or (ed_hicache_args d) ''hicache_write_policy'' []) = mc_write_policy cfg \<and>
             list_all (\<lambda>(key, actual). case dget (mc_model_deployment cfg) key of Some e \<Rightarrow> e = actual | None \<Rightarrow> True)
               [(''kv_dtype'', ed_kv_dtype d), (''state_dtype'', ed_state_dtype d), (''page_size'', show_int (ed_page_size d)),
                (''swa_window_size'', show_opt (ed_swa_window_size d)),
                (''mamba_track_interval'', show_opt (ed_mamba_track_interval d))]))"

text \<open>\<open>_path_readiness\<close>, as far as decisions depend on it: whether the restore path is ready.\<close>

definition required_links ::
  "(string \<Rightarrow> string option) \<Rightarrow> EngineDeploymentInfo \<Rightarrow> EngineDeploymentInfo \<Rightarrow> rebalancer \<Rightarrow> string list" where
  "required_links resolve s t rb =
     (let sn = calibration_node_for resolve s rb; tn = calibration_node_for resolve t rb;
          link = (if ed_gpudirect t then ''mooncake_gpudirect''
                  else if sn \<noteq> None \<and> sn = tn \<or> ed_node_id s = ed_node_id t then ''mooncake_local''
                  else scheduler_link_name (ed_mooncake_protocol t))
      in link # (if ed_host_staging t then [''h2d''] else []))"

definition path_ready :: "(string \<Rightarrow> string option) \<Rightarrow> string \<Rightarrow> string \<Rightarrow> rebalancer \<Rightarrow> bool" where
  "path_ready resolve source target rb =
     (case (dget (rb_deployments rb) source, dget (rb_deployments rb) target) of
        (Some s, Some t) \<Rightarrow>
          (if \<not> ed_shared_l3 t then False
           else
             (let completed = (if deployment_matches_preflight resolve s rb \<and> deployment_matches_preflight resolve t rb
                               then (case (calibration_node_for resolve s rb, calibration_node_for resolve t rb) of
                                       (Some sn, Some tn) \<Rightarrow> completed_links sn tn rb
                                     | _ \<Rightarrow> [])
                               else [])
              in list_all (\<lambda>l. l \<in> set completed) (required_links resolve s t rb) \<and>
                 dget (rb_profiles rb) (ed_cache_fingerprint t) = Some True))
      | _ \<Rightarrow> False)"

section \<open>Loads and readiness\<close>

text \<open>The row values of one \<open>/v1/loads\<close> answer, summed over the ranks of an engine.\<close>

definition row_int :: "(string \<times> pyval) list \<Rightarrow> string list \<Rightarrow> int result" where
  "row_int row keys = py_int (case find truthy (map (pget row) keys) of Some v \<Rightarrow> v | None \<Rightarrow> PInt 0)"

fun load_rows :: "pyval list \<Rightarrow> (string \<times> pyval) list list option" where
  "load_rows [] = Some []"
| "load_rows (PDict d # vs) = map_option ((#) d) (load_rows vs)"
| "load_rows _ = None"

definition sum_rows :: "(string \<times> pyval) list list \<Rightarrow> string list \<Rightarrow> int result" where
  "sum_rows rows keys = rbind (rmap (\<lambda>row. row_int row keys) rows) (\<lambda>ns. Inr (sum_list ns))"

definition row_usage :: "py_lib \<Rightarrow> (string \<times> pyval) list \<Rightarrow> pyfloat result" where
  "row_usage lib row =
     (let v = pget row ''token_usage'' in
      case py_float lib (if truthy v then v else PFloat (Fin 0)) of Some x \<Rightarrow> Inr x | None \<Rightarrow> Inl (ValueError ''float''))"

definition normalize_load :: "py_lib \<Rightarrow> pyval \<Rightarrow> real \<Rightarrow> EngineLoad option result" where
  "normalize_load lib payload now =
     (case (case payload of PDict d \<Rightarrow> pget d ''loads'' | _ \<Rightarrow> PNone) of
        PList (v # vs) \<Rightarrow>
          (case load_rows (v # vs) of
             None \<Rightarrow> Inr None
           | Some rows \<Rightarrow>
               rbind (sum_rows rows [''num_running_reqs'']) (\<lambda>running.
               rbind (sum_rows rows [''num_waiting_reqs'', ''num_queue_reqs'']) (\<lambda>queued.
               rbind (sum_rows rows [''num_total_tokens'', ''num_used_tokens'']) (\<lambda>tokens.
               rbind (sum_rows rows [''max_total_num_tokens'']) (\<lambda>token_capacity.
               rbind (sum_rows rows [''max_running_requests'']) (\<lambda>request_capacity.
               rbind (rmap (row_usage lib) rows) (\<lambda>usages.
               Inr (Some (new_load\<lparr>el_metrics_timestamp := now, el_running := running, el_queued := queued,
                 el_active_tokens := tokens, el_token_capacity := token_capacity, el_request_capacity := request_capacity,
                 el_token_usage := pyf_max (hd usages) (tl usages)\<rparr>))))))))
           )
      | _ \<Rightarrow> Inr None)"

text \<open>The part of \<open>_fetch_load\<close> after the answer has arrived: only planning values a baseline accepts pass.\<close>

definition planning_values_valid :: "EngineLoad \<Rightarrow> bool" where
  "planning_values_valid l \<longleftrightarrow>
     0 \<le> el_running l \<and> 0 \<le> el_queued l \<and> 0 \<le> el_active_tokens l \<and> 0 < el_request_capacity l \<and> 0 < el_token_capacity l \<and>
     (case el_token_usage l of Fin u \<Rightarrow> 0 \<le> u | _ \<Rightarrow> False)"

definition fetch_load :: "py_lib \<Rightarrow> pyval \<Rightarrow> real \<Rightarrow> EngineLoad option" where
  "fetch_load lib payload now =
     (case normalize_load lib payload now of
        Inr (Some l) \<Rightarrow> (if planning_values_valid l then Some l else None)
      | _ \<Rightarrow> None)"

definition live_scoring_totals :: "string \<Rightarrow> rebalancer \<Rightarrow> int \<times> int" where
  "live_scoring_totals url rb =
     (let entries = filter (\<lambda>e. re_engine_url e = url \<and> re_scoring_active e) (dvalues (rb_reservations rb))
      in (sum_list (map re_scoring_queue_increment entries), sum_list (map re_scoring_token_increment entries)))"

definition acknowledge_scoring_deltas :: "string \<Rightarrow> nat \<Rightarrow> rebalancer \<Rightarrow> rebalancer" where
  "acknowledge_scoring_deltas url revision rb =
     rb\<lparr>rb_reservations := map (\<lambda>(i, e).
          (i, if re_engine_url e = url \<and> re_scoring_active e \<and> re_scoring_revision e \<le> revision
              then e\<lparr>re_scoring_active := False\<rparr> else e)) (rb_reservations rb)\<rparr>"

definition effective_baseline :: "string \<Rightarrow> rebalancer \<Rightarrow> EngineBaseline option result" where
  "effective_baseline url rb =
     (case dget (rb_loads rb) url of
        None \<Rightarrow> Inr None
      | Some l \<Rightarrow>
          (if el_request_capacity l \<le> 0 \<or> el_token_capacity l \<le> 0 then Inr None
           else let (queue_delta, token_delta) = live_scoring_totals url rb in
             rbind (make_baseline url (el_running l) (el_active_tokens l + token_delta) (el_queued l + queue_delta)
               (el_request_capacity l) (el_token_capacity l) (el_token_usage l)) (\<lambda>b. Inr (Some b))))"

definition stale_seconds :: "rebalancer \<Rightarrow> real" where
  "stale_seconds rb = of_int (rc_metrics_stale_ms (rb_config rb)) / 1000"

definition healthy_engine :: "rebalancer \<Rightarrow> string \<Rightarrow> bool" where
  "healthy_engine rb url = (case dget (rb_loads rb) url of Some l \<Rightarrow> el_healthy l | None \<Rightarrow> False)"

definition fresh_engine :: "real \<Rightarrow> rebalancer \<Rightarrow> string \<Rightarrow> bool" where
  "fresh_engine now rb url = (case dget (rb_loads rb) url of Some l \<Rightarrow> load_fresh now (stale_seconds rb) l | None \<Rightarrow> False)"

definition pool_readiness :: "(string \<Rightarrow> string option) \<Rightarrow> string \<Rightarrow> real \<Rightarrow> rebalancer \<Rightarrow> PoolReadiness" where
  "pool_readiness resolve fingerprint now rb =
     (let urls = map fst (filter (\<lambda>(url, d). ed_cache_fingerprint d = fingerprint \<and> healthy_engine rb url) (rb_deployments rb));
          healthy_urls = filter (fresh_engine now rb) urls
      in \<lparr>pl_healthy_engines = length healthy_urls,
          pl_metrics_fresh = (length healthy_urls = length urls \<and> urls \<noteq> []),
          pl_eligible_paths = length (filter (\<lambda>(s, t). s \<noteq> t \<and> path_ready resolve s t rb)
            (concat (map (\<lambda>s. map (\<lambda>t. (s, t)) healthy_urls) healthy_urls)))\<rparr>)"

definition update_pools :: "(string \<Rightarrow> string option) \<Rightarrow> real \<Rightarrow> (string \<Rightarrow> bool) \<Rightarrow> rebalancer \<Rightarrow> rebalancer" where
  "update_pools resolve now which rb =
     rb\<lparr>rb_pools := map (\<lambda>(fp, m). (fp, if which fp then update_pool (pool_readiness resolve fp now rb) None now m else m))
          (rb_pools rb)\<rparr>"

section \<open>Scheduling one request\<close>

fun common_prefix_length :: "int list \<Rightarrow> int list \<Rightarrow> nat" where
  "common_prefix_length (x # xs) (y # ys) = (if x = y then Suc (common_prefix_length xs ys) else 0)"
| "common_prefix_length _ _ = 0"

definition reserve ::
  "string \<Rightarrow> string option \<Rightarrow> string option \<Rightarrow> bool \<Rightarrow> int \<Rightarrow> int \<Rightarrow> rebalancer \<Rightarrow> RoutingLease \<times> rebalancer" where
  "reserve sid source target moved queue_increment token_increment rb =
     (case target of
        None \<Rightarrow>
          (\<lparr>rl_session_id = sid, rl_source_worker_url = source, rl_target_worker_url = None, rl_moved = moved,
            rl_reservation_id = None, rl_load_decision_id = None\<rparr>, rb)
      | Some url \<Rightarrow>
          (\<lparr>rl_session_id = sid, rl_source_worker_url = source, rl_target_worker_url = Some url, rl_moved = moved,
            rl_reservation_id = Some (rb_next_reservation_id rb), rl_load_decision_id = None\<rparr>,
           rb\<lparr>rb_next_reservation_id := Suc (rb_next_reservation_id rb),
             rb_scoring_revision := Suc (rb_scoring_revision rb),
             rb_reservations := dset (rb_next_reservation_id rb)
               \<lparr>re_engine_url = url, re_scoring_queue_increment = max 0 queue_increment,
                re_scoring_token_increment = max 0 token_increment, re_scoring_revision = Suc (rb_scoring_revision rb),
                re_scoring_active = True\<rparr> (rb_reservations rb)\<rparr>))"

text \<open>The end both paths share: the session is stored, the reservation made and the decision numbered.\<close>

definition commit_step ::
  "string \<Rightarrow> SessionRoutingState \<Rightarrow> string option \<Rightarrow> string option \<Rightarrow> int \<Rightarrow> int \<Rightarrow> rebalancer \<Rightarrow> RoutingLease \<times> rebalancer" where
  "commit_step sid session source target queue_increment token_increment rb =
     (let rb1 = rb\<lparr>rb_sessions := dset sid session (rb_sessions rb)\<rparr>;
          (lease, rb2) = reserve sid source target (source \<noteq> None \<and> target \<noteq> source) queue_increment token_increment rb1
      in (lease\<lparr>rl_load_decision_id := Some (rb_next_load_decision_id rb2)\<rparr>,
          rb2\<lparr>rb_next_load_decision_id := Suc (rb_next_load_decision_id rb2)\<rparr>))"

definition prefix_reuse :: "SessionRoutingState \<Rightarrow> int list \<Rightarrow> int" where
  "prefix_reuse session input_ids =
     (case rs_owner_worker_url session of
        None \<Rightarrow> 0
      | Some _ \<Rightarrow> int (common_prefix_length (rs_previous_committed_tokens session) input_ids))"

definition schedule_fallback ::
  "string \<Rightarrow> SessionRoutingState \<Rightarrow> string option \<Rightarrow> int list \<Rightarrow> rebalancer \<Rightarrow> RoutingLease \<times> rebalancer" where
  "schedule_fallback sid session target input_ids rb =
     (let source = rs_owner_worker_url session;
          deployment = (case target of None \<Rightarrow> None | Some t \<Rightarrow> dget (rb_deployments rb) t);
          target_fingerprint = (case deployment of None \<Rightarrow> rs_fingerprint session | Some d \<Rightarrow> Some (ed_cache_fingerprint d));
          stays = (target \<noteq> None \<and> target = source \<and> healthy_engine rb (the target));
          tokens = (if stays then max 0 (int (length input_ids) - prefix_reuse session input_ids) else int (length input_ids));
          session' = (if source = None \<and> target_fingerprint \<noteq> None then session\<lparr>rs_fingerprint := target_fingerprint\<rparr> else session)
      in commit_step sid session' source target (if target = None then 0 else 1) (if target = None then 0 else tokens) rb)"

fun rfilter :: "('a \<Rightarrow> bool result) \<Rightarrow> 'a list \<Rightarrow> 'a list result" where
  "rfilter p [] = Inr []"
| "rfilter p (x # xs) = rbind (p x) (\<lambda>b. rbind (rfilter p xs) (\<lambda>ys. Inr (if b then x # ys else ys)))"

definition snapshot_usable :: "real \<Rightarrow> rebalancer \<Rightarrow> string \<Rightarrow> bool result" where
  "snapshot_usable now rb url =
     (if fresh_engine now rb url then rbind (effective_baseline url rb) (\<lambda>b. Inr (b \<noteq> None)) else Inr False)"

definition version_ok :: "string option \<Rightarrow> EngineDeploymentInfo \<Rightarrow> bool" where
  "version_ok expected d \<longleftrightarrow> expected = None \<or> expected = Some (ed_weight_version d)"

definition owner_healthy :: "string option \<Rightarrow> SessionRoutingState \<Rightarrow> rebalancer \<Rightarrow> bool" where
  "owner_healthy expected session rb =
     (case rs_owner_worker_url session of
        None \<Rightarrow> False
      | Some url \<Rightarrow> (case dget (rb_deployments rb) url of
                      None \<Rightarrow> False
                    | Some d \<Rightarrow> version_ok expected d \<and> healthy_engine rb url))"

definition session_fingerprint :: "SessionRoutingState \<Rightarrow> rebalancer \<Rightarrow> string option" where
  "session_fingerprint session rb =
     str_or (rs_fingerprint session)
       (case rs_owner_worker_url session of
          None \<Rightarrow> None
        | Some url \<Rightarrow> map_option ed_cache_fingerprint (dget (rb_deployments rb) url))"

definition healthy_candidates :: "string option \<Rightarrow> SessionRoutingState \<Rightarrow> rebalancer \<Rightarrow> string list" where
  "healthy_candidates expected session rb =
     map fst (filter (\<lambda>(url, d). ed_worker_url d = url \<and> healthy_engine rb url \<and> version_ok expected d \<and>
       (rs_owner_worker_url session = None \<or> session_fingerprint session rb = Some (ed_cache_fingerprint d))) (rb_deployments rb))"

definition feasible_edge ::
  "string \<Rightarrow> SessionRoutingState \<Rightarrow> bool \<Rightarrow> int list \<Rightarrow> rebalancer \<Rightarrow> string \<Rightarrow> (FeasibleEdge \<times> EngineBaseline) option result" where
  "feasible_edge sid session owner_is_healthy input_ids rb target =
     (let prompt_tokens = int (length input_ids);
          tokens = (if owner_is_healthy \<and> rs_owner_worker_url session = Some target
                    then max 0 (prompt_tokens - prefix_reuse session input_ids) else prompt_tokens)
      in rbind (make_edge sid target 1 tokens) (\<lambda>edge.
         rbind (effective_baseline target rb) (\<lambda>b. Inr (map_option (\<lambda>b. (edge, b)) b))))"

definition routing_session :: "string \<Rightarrow> rebalancer \<Rightarrow> SessionRoutingState" where
  "routing_session sid rb = (case dget (rb_sessions rb) sid of Some s \<Rightarrow> s | None \<Rightarrow> new_routing_state)"

definition step_kind :: "string option \<Rightarrow> SessionRoutingState \<Rightarrow> rebalancer \<Rightarrow> GreedyStepKind" where
  "step_kind expected session rb =
     (if rs_owner_worker_url session = None then NewSession
      else if owner_healthy expected session rb then ExistingSession else MandatoryFailover)"

text \<open>Whether the owner's snapshot can be used, and which candidates have one.\<close>

definition usable_snapshots :: "string option \<Rightarrow> SessionRoutingState \<Rightarrow> real \<Rightarrow> rebalancer \<Rightarrow> (bool \<times> string list) result" where
  "usable_snapshots expected session now rb =
     rbind (if owner_healthy expected session rb then snapshot_usable now rb (the (rs_owner_worker_url session)) else Inr False)
       (\<lambda>owner_usable. rbind (rfilter (snapshot_usable now rb) (healthy_candidates expected session rb))
         (\<lambda>fresh. Inr (owner_usable, fresh)))"

definition migration_targets ::
  "(string \<Rightarrow> string option) \<Rightarrow> string option \<Rightarrow> SessionRoutingState \<Rightarrow> string list \<Rightarrow> rebalancer \<Rightarrow> string list" where
  "migration_targets resolve expected session fresh rb =
     filter (\<lambda>t. \<not> (step_kind expected session rb = ExistingSession \<and> rs_owner_worker_url session \<noteq> Some t) \<or>
       path_ready resolve (the (rs_owner_worker_url session)) t rb) fresh"

definition step_edges ::
  "string \<Rightarrow> SessionRoutingState \<Rightarrow> bool \<Rightarrow> int list \<Rightarrow> string list \<Rightarrow> rebalancer \<Rightarrow> (FeasibleEdge \<times> EngineBaseline) list result" where
  "step_edges sid session owner_is_healthy input_ids targets rb =
     rbind (rmap (feasible_edge sid session owner_is_healthy input_ids rb) targets) (\<lambda>found. Inr (List.map_filter id found))"

definition fallback_step :: "string \<Rightarrow> SessionRoutingState \<Rightarrow> string option \<Rightarrow> int list \<Rightarrow> rebalancer \<Rightarrow> RoutingLease result \<times> rebalancer" where
  "fallback_step sid session target input_ids rb =
     (let (lease, rb') = schedule_fallback sid session target input_ids rb in (Inr lease, rb'))"

text \<open>No candidate has a usable snapshot: stay on the owner, or the stable choice, or leave it to the router.\<close>

definition schedule_without_edges ::
  "(string \<Rightarrow> nat) \<Rightarrow> string \<Rightarrow> SessionRoutingState \<Rightarrow> string option \<Rightarrow> int list \<Rightarrow> rebalancer \<Rightarrow> RoutingLease result \<times> rebalancer" where
  "schedule_without_edges sha sid session expected input_ids rb =
     (if owner_healthy expected session rb then fallback_step sid session (rs_owner_worker_url session) input_ids rb
      else if healthy_candidates expected session rb \<noteq> []
      then (case choose_stable_engine sha sid (sort (healthy_candidates expected session rb)) of
              Inl e \<Rightarrow> (Inl e, rb)
            | Inr target \<Rightarrow> fallback_step sid session (Some target) input_ids rb)
      else fallback_step sid session None input_ids rb)"

definition schedule_by_pressure ::
  "(string \<Rightarrow> nat) \<Rightarrow> string \<Rightarrow> SessionRoutingState \<Rightarrow> string option \<Rightarrow> (FeasibleEdge \<times> EngineBaseline) list \<Rightarrow> rebalancer
    \<Rightarrow> RoutingLease result \<times> rebalancer" where
  "schedule_by_pressure sha sid session expected pairs rb =
     (case choose_greedy_step sha sid (step_kind expected session rb) (rs_owner_worker_url session) (map snd pairs) (map fst pairs)
             (rc_min_load_improvement_ratio (rb_config rb)) of
        Inl e \<Rightarrow> (Inl e, rb)
      | Inr d \<Rightarrow>
          (case (find (\<lambda>e. fe_engine_url e = gd_selected d) (map fst pairs), dget (rb_deployments rb) (gd_selected d)) of
             (Some edge, Some deployment) \<Rightarrow>
               (let session' = (if rs_owner_worker_url session = None
                      then session\<lparr>rs_fingerprint := Some (ed_cache_fingerprint deployment)\<rparr> else session);
                    (lease, rb') = commit_step sid session' (rs_owner_worker_url session) (Some (gd_selected d))
                      (fe_queue_increment edge) (fe_token_increment edge) rb
                in (Inr lease, rb'))
           | _ \<Rightarrow> (Inl (KeyError (gd_selected d)), rb)))"

definition schedule_step ::
  "(string \<Rightarrow> nat) \<Rightarrow> (string \<Rightarrow> string option) \<Rightarrow> string \<Rightarrow> int list \<Rightarrow> string option \<Rightarrow> bool \<Rightarrow> real \<Rightarrow> rebalancer
    \<Rightarrow> RoutingLease result \<times> rebalancer" where
  "schedule_step sha resolve sid input_ids expected require_registered now rb =
     (if dget (rb_sessions rb) sid = None \<and> require_registered
      then (Inl (RuntimeError ''session context is not registered or was discarded''), rb)
      else
        (let session = routing_session sid rb; is_healthy = owner_healthy expected session rb in
         case usable_snapshots expected session now rb of
           Inl e \<Rightarrow> (Inl e, rb)
         | Inr (owner_usable, fresh) \<Rightarrow>
             (if is_healthy \<and> \<not> owner_usable then fallback_step sid session (rs_owner_worker_url session) input_ids rb
              else case step_edges sid session is_healthy input_ids (migration_targets resolve expected session fresh rb) rb of
                Inl e \<Rightarrow> (Inl e, rb)
              | Inr pairs \<Rightarrow>
                  (if pairs = [] then schedule_without_edges sha sid session expected input_ids rb
                   else schedule_by_pressure sha sid session expected pairs rb))))"

definition no_lease :: "string \<Rightarrow> RoutingLease" where
  "no_lease sid = \<lparr>rl_session_id = sid, rl_source_worker_url = None, rl_target_worker_url = None, rl_moved = False,
     rl_reservation_id = None, rl_load_decision_id = None\<rparr>"

definition rollback :: "string \<Rightarrow> rebalancer \<Rightarrow> rebalancer \<Rightarrow> rebalancer" where
  "rollback sid before rb =
     rb\<lparr>rb_reservations := filter (\<lambda>(i, e). i < rb_next_reservation_id before) (rb_reservations rb),
       rb_next_reservation_id := rb_next_reservation_id before, rb_scoring_revision := rb_scoring_revision before,
       rb_next_load_decision_id := rb_next_load_decision_id before,
       rb_sessions := (case dget (rb_sessions before) sid of
                         None \<Rightarrow> dpop sid (rb_sessions rb) | Some s \<Rightarrow> dset sid s (rb_sessions rb))\<rparr>"

definition acquire ::
  "(string \<Rightarrow> nat) \<Rightarrow> (string \<Rightarrow> string option) \<Rightarrow> string \<Rightarrow> int list \<Rightarrow> string option \<Rightarrow> bool \<Rightarrow> real \<Rightarrow> rebalancer
    \<Rightarrow> RoutingLease result \<times> rebalancer" where
  "acquire sha resolve sid input_ids expected require_registered now rb =
     (if \<not> rc_enabled (rb_config rb) then (Inr (no_lease sid), rb)
      else if rb_stopping rb then (Inl (RuntimeError ''engine rebalancer is closed''), rb)
      else case schedule_step sha resolve sid input_ids expected require_registered now rb of
        (Inl e, rb') \<Rightarrow> (Inl e, rollback sid rb rb')
      | (Inr lease, rb') \<Rightarrow> (Inr lease, rb'))"

section \<open>Settling a lease and the session table\<close>

definition release_reservation :: "nat option \<Rightarrow> rebalancer \<Rightarrow> rebalancer" where
  "release_reservation i rb =
     (case i of None \<Rightarrow> rb | Some k \<Rightarrow> rb\<lparr>rb_reservations := dpop k (rb_reservations rb)\<rparr>)"

definition complete :: "RoutingLease \<Rightarrow> int list \<Rightarrow> bool \<Rightarrow> rebalancer \<Rightarrow> unit result \<times> rebalancer" where
  "complete lease committed_tokens success rb0 =
     (if \<not> rc_enabled (rb_config rb0) then (Inr (), rb0)
      else
        (let rb = release_reservation (rl_reservation_id lease) rb0 in
         case (rl_target_worker_url lease, dget (rb_sessions rb) (rl_session_id lease)) of
           (Some url, Some session) \<Rightarrow>
             (if \<not> success then (Inr (), rb)
              else
                (let session1 = session\<lparr>rs_owner_worker_url := Some url\<rparr> in
                 case dget (rb_deployments rb) url of
                   None \<Rightarrow> (Inl (KeyError url), rb\<lparr>rb_sessions := dset (rl_session_id lease) session1 (rb_sessions rb)\<rparr>)
                 | Some d \<Rightarrow>
                     (Inr (), rb\<lparr>rb_sessions := dset (rl_session_id lease)
                          (session1\<lparr>rs_fingerprint := Some (ed_cache_fingerprint d),
                            rs_previous_committed_tokens := committed_tokens\<rparr>) (rb_sessions rb),
                        rb_online_request_count := Suc (rb_online_request_count rb)\<rparr>)))
         | _ \<Rightarrow> (Inr (), rb)))"

definition register_session_context :: "string \<Rightarrow> rebalancer \<Rightarrow> rebalancer" where
  "register_session_context sid rb =
     (if rc_enabled (rb_config rb) then rb\<lparr>rb_sessions := dsetdefault sid new_routing_state (rb_sessions rb)\<rparr> else rb)"

definition discard_session_context :: "string \<Rightarrow> rebalancer \<Rightarrow> rebalancer" where
  "discard_session_context sid rb = rb\<lparr>rb_sessions := dpop sid (rb_sessions rb)\<rparr>"

section \<open>Observing the engines\<close>

text \<open>The two locked parts of \<open>_poll_engine_snapshot\<close>; between them the load of the engine is fetched.\<close>

definition poll_begin :: "string \<Rightarrow> rebalancer \<Rightarrow> (nat \<times> string \<times> string) option" where
  "poll_begin url rb =
     (case (dget (rb_deployments rb) url, dget (rb_loads rb) url) of
        (Some d, Some l) \<Rightarrow> (if el_healthy l then Some (rb_scoring_revision rb, ed_weight_version d, ed_cache_fingerprint d) else None)
      | _ \<Rightarrow> None)"

definition poll_end ::
  "(string \<Rightarrow> string option) \<Rightarrow> string \<Rightarrow> nat \<times> string \<times> string \<Rightarrow> string \<Rightarrow> real \<Rightarrow> EngineLoad option \<Rightarrow> real \<Rightarrow> rebalancer \<Rightarrow> rebalancer"
where
  "poll_end resolve url token status duration fetched now rb0 =
     (let (revision, version, fingerprint) = token;
          rb = rb0\<lparr>rb_loads := (case dget (rb_loads rb0) url of
                 None \<Rightarrow> rb_loads rb0
               | Some l \<Rightarrow> dset url (l\<lparr>el_snapshot_fetch_status := status, el_snapshot_fetch_duration_seconds := duration\<rparr>)
                            (rb_loads rb0))\<rparr>
      in case (fetched, dget (rb_deployments rb) url) of
           (Some l, Some d) \<Rightarrow>
             (if status = ''ok'' \<and> healthy_engine rb url \<and> (ed_weight_version d, ed_cache_fingerprint d) = (version, fingerprint)
              then
                (let generation = Suc (dget_or (rb_load_generations rb) url 0);
                     published = l\<lparr>el_healthy := True, el_snapshot_fetch_status := ''ok'',
                       el_snapshot_fetch_duration_seconds := duration, el_snapshot_generation := generation\<rparr>;
                     rb1 = acknowledge_scoring_deltas url revision (rb\<lparr>rb_loads := dset url published (rb_loads rb)\<rparr>)
                 in update_pools resolve now (\<lambda>_. True)
                      (rb1\<lparr>rb_load_generations := dset url generation (rb_load_generations rb1)\<rparr>))
              else rb)
         | _ \<Rightarrow> rb)"

text \<open>
  The locked part of \<open>_refresh_unlocked\<close>.  \<open>inspected\<close> lists the healthy workers with the deployment
  read for them, if it was due and could be read; \<open>supported\<close> is the version test; \<open>profile\<close> tells
  of a fingerprint new to the table whether the cache profile of its first deployment is available
  (no model configuration: no profile is made).
\<close>

definition refresh_one ::
  "(string \<Rightarrow> bool) \<Rightarrow> real \<Rightarrow> string \<times> EngineDeploymentInfo option \<times> bool \<Rightarrow> rebalancer \<Rightarrow> rebalancer" where
  "refresh_one supported now item rb0 =
     (let (url, deployment, checked) = item;
          rb1 = (case deployment of
                   None \<Rightarrow> rb0
                 | Some d \<Rightarrow>
                     (if supported (ed_sglang_version d)
                      then rb0\<lparr>rb_deployments := dset url d (rb_deployments rb0),
                               rb_excluded_engines := dpop url (rb_excluded_engines rb0)\<rparr>
                      else rb0\<lparr>rb_deployments := dpop url (rb_deployments rb0),
                               rb_excluded_engines := dset url (''SGLang '' @ ed_sglang_version d @ '' is older than v0.5.15.post1'')
                                 (rb_excluded_engines rb0)\<rparr>));
          rb2 = (if checked then rb1\<lparr>rb_deployment_checked_at := dset url now (rb_deployment_checked_at rb1)\<rparr> else rb1)
      in rb2\<lparr>rb_loads := dsetdefault url new_load (rb_loads rb2)\<rparr>)"

definition refresh_locked ::
  "(string \<Rightarrow> string option) \<Rightarrow> (string \<Rightarrow> bool) \<Rightarrow> (EngineDeploymentInfo \<Rightarrow> bool) option \<Rightarrow>
    (string \<times> EngineDeploymentInfo option \<times> bool) list \<Rightarrow> real \<Rightarrow> rebalancer \<Rightarrow> rebalancer" where
  "refresh_locked resolve supported profile inspected now rb0 =
     (let healthy = map fst inspected;
          rb1 = fold (refresh_one supported now) inspected rb0;
          rb2 = rb1\<lparr>rb_loads := map (\<lambda>(url, l). (url, l\<lparr>el_healthy := (url \<in> set healthy)\<rparr>)) (rb_loads rb1)\<rparr>;
          alive = filter (\<lambda>d. ed_worker_url d \<in> set healthy) (dvalues (rb_deployments rb2));
          add = (\<lambda>d rb. rb\<lparr>
            rb_pools := dsetdefault (ed_cache_fingerprint d) (new_pool (ed_cache_fingerprint d) (rb_config rb) now) (rb_pools rb),
            rb_profiles := (case profile of None \<Rightarrow> rb_profiles rb
                            | Some available \<Rightarrow> dsetdefault (ed_cache_fingerprint d) (available d) (rb_profiles rb))\<rparr>)
      in update_pools resolve now (\<lambda>_. True) (fold add alive rb2))"


section \<open>Well-formed states\<close>

definition load_ok :: "EngineLoad \<Rightarrow> bool" where
  "load_ok l \<longleftrightarrow> el_request_capacity l \<le> 0 \<or> el_token_capacity l \<le> 0 \<or> planning_values_valid l"

definition entry_ok :: "rebalancer \<Rightarrow> nat \<times> ReservationEntry \<Rightarrow> bool" where
  "entry_ok rb ie \<longleftrightarrow> fst ie < rb_next_reservation_id rb \<and> 0 \<le> re_scoring_queue_increment (snd ie) \<and>
     0 \<le> re_scoring_token_increment (snd ie) \<and> re_scoring_revision (snd ie) \<le> rb_scoring_revision rb"

definition rebalancer_ok :: "rebalancer \<Rightarrow> bool" where
  "rebalancer_ok rb \<longleftrightarrow>
     0 \<le> rc_min_load_improvement_ratio (rb_config rb) \<and> rc_min_load_improvement_ratio (rb_config rb) \<le> 1 \<and>
     dict_ok (rb_reservations rb) \<and> dict_ok (rb_loads rb) \<and> dict_ok (rb_deployments rb) \<and>
     (\<forall>ie\<in>set (rb_reservations rb). entry_ok rb ie) \<and>
     (\<forall>url l. dget (rb_loads rb) url = Some l \<longrightarrow> load_ok l) \<and>
     (\<forall>url d. dget (rb_deployments rb) url = Some d \<longrightarrow> ed_worker_url d = url)"

lemma rebalancer_okD:
  assumes "rebalancer_ok rb"
  shows "dict_ok (rb_reservations rb)" "dict_ok (rb_loads rb)" "dict_ok (rb_deployments rb)"
    "ie \<in> set (rb_reservations rb) \<Longrightarrow> entry_ok rb ie" "dget (rb_loads rb) url = Some l \<Longrightarrow> load_ok l"
    "dget (rb_deployments rb) url = Some d \<Longrightarrow> ed_worker_url d = url"
    "0 \<le> rc_min_load_improvement_ratio (rb_config rb) \<and> rc_min_load_improvement_ratio (rb_config rb) \<le> 1"
  using assms unfolding rebalancer_ok_def by blast+

lemma live_totals_nonneg:
  assumes "rebalancer_ok rb" "live_scoring_totals url rb = (q, t)"
  shows "0 \<le> q" "0 \<le> t"
  using assms rebalancer_okD(4) [OF assms(1)]
  by (auto simp: live_scoring_totals_def Let_def entry_ok_def intro!: sum_list_nonneg)

lemma effective_baseline_total:
  assumes ok: "rebalancer_ok rb"
  shows "\<exists>b. effective_baseline url rb = Inr b \<and> (\<forall>x. b = Some x \<longrightarrow> bl_url x = url)"
proof (cases "dget (rb_loads rb) url")
  case None
  then show ?thesis by (simp add: effective_baseline_def)
next
  case (Some l)
  obtain q t where qt: "live_scoring_totals url rb = (q, t)" by fastforce
  show ?thesis
  proof (cases "el_request_capacity l \<le> 0 \<or> el_token_capacity l \<le> 0")
    case True
    then show ?thesis using Some by (simp add: effective_baseline_def)
  next
    case False
    then have "planning_values_valid l" using rebalancer_okD(5) [OF ok Some] by (simp add: load_ok_def)
    then show ?thesis using Some False qt live_totals_nonneg [OF ok qt]
      by (auto simp: effective_baseline_def make_baseline_def planning_values_valid_def split: pyfloat.splits)
  qed
qed

definition usable :: "real \<Rightarrow> rebalancer \<Rightarrow> string \<Rightarrow> bool" where
  "usable now rb url \<longleftrightarrow> snapshot_usable now rb url = Inr True"

lemma snapshot_usable_total: "rebalancer_ok rb \<Longrightarrow> snapshot_usable now rb url = Inr (usable now rb url)"
  using effective_baseline_total [of rb url] by (auto simp: snapshot_usable_def usable_def)

lemma usable_baseline:
  "rebalancer_ok rb \<Longrightarrow> usable now rb url \<Longrightarrow> \<exists>b. effective_baseline url rb = Inr (Some b) \<and> bl_url b = url"
  using effective_baseline_total [of rb url] by (auto simp: usable_def snapshot_usable_def split: if_splits)

lemma rfilter_total: "(\<And>x. p x = Inr (q x)) \<Longrightarrow> rfilter p xs = Inr (filter q xs)"
  by (induction xs) simp_all

lemma feasible_edge_usable:
  assumes "rebalancer_ok rb" "usable now rb target"
  shows "\<exists>edge b. feasible_edge sid session h ids rb target = Inr (Some (edge, b)) \<and>
    fe_engine_url edge = target \<and> fe_session_id edge = sid \<and> bl_url b = target"
  using usable_baseline [OF assms] by (auto simp: feasible_edge_def make_edge_def Let_def)

lemma feasible_edges:
  assumes "rebalancer_ok rb" "\<forall>t\<in>set targets. usable now rb t"
  shows "\<exists>pairs. rmap (feasible_edge sid session h ids rb) targets = Inr (map Some pairs) \<and>
    map (fe_engine_url \<circ> fst) pairs = targets \<and> map (bl_url \<circ> snd) pairs = targets \<and>
    (\<forall>e\<in>set (map fst pairs). fe_session_id e = sid)"
  using assms(2)
proof (induction targets)
  case (Cons t ts)
  then obtain pairs where p: "rmap (feasible_edge sid session h ids rb) ts = Inr (map Some pairs)"
    "map (fe_engine_url \<circ> fst) pairs = ts" "map (bl_url \<circ> snd) pairs = ts" "\<forall>e\<in>set (map fst pairs). fe_session_id e = sid"
    by auto
  obtain edge b where e: "feasible_edge sid session h ids rb t = Inr (Some (edge, b))" "fe_engine_url edge = t"
    "fe_session_id edge = sid" "bl_url b = t" using feasible_edge_usable [OF assms(1)] Cons.prems by (meson list.set_intros(1))
  have "rmap (feasible_edge sid session h ids rb) (t # ts) = Inr (map Some ((edge, b) # pairs))"
    by (simp only: rmap.simps e(1) p(1) rbind_Inr list.map)
  moreover have "map (fe_engine_url \<circ> fst) ((edge, b) # pairs) = t # ts" "map (bl_url \<circ> snd) ((edge, b) # pairs) = t # ts"
    by (simp_all only: list.map comp_apply fst_conv snd_conv e(2,4) p(2,3))
  moreover have "\<forall>x\<in>set (map fst ((edge, b) # pairs)). fe_session_id x = sid"
    using p(4) e(3) by simp
  ultimately show ?case by (intro exI [of _ "(edge, b) # pairs"] conjI)
qed simp

lemma map_filter_some: "List.map_filter id (map Some xs) = xs"
  by (simp add: List.map_filter_def comp_def)

lemma dmem_baselines: "dmem url (baselines_of engines) \<longleftrightarrow> url \<in> set (map bl_url engines)"
proof -
  have "dmem url (fold (\<lambda>e. dset (bl_url e) e) engines d) \<longleftrightarrow> dmem url d \<or> url \<in> set (map bl_url engines)" for d
    by (induction engines arbitrary: d) auto
  then show ?thesis by (simp add: baselines_of_def dmem_def)
qed

lemma candidates_keys: "rebalancer_ok rb \<Longrightarrow> distinct (healthy_candidates expected session rb)"
  using rebalancer_okD(3) [of rb] unfolding healthy_candidates_def dict_ok_def by (simp add: distinct_map_filter)

lemma in_candidates:
  assumes "rebalancer_ok rb"
  shows "url \<in> set (healthy_candidates expected session rb) \<longleftrightarrow>
    (\<exists>d. dget (rb_deployments rb) url = Some d \<and> healthy_engine rb url \<and> version_ok expected d \<and>
      (rs_owner_worker_url session = None \<or> session_fingerprint session rb = Some (ed_cache_fingerprint d)))"
  using rebalancer_okD(3,6) [OF assms] dget_in_set [OF rebalancer_okD(3) [OF assms]]
  unfolding healthy_candidates_def by (auto simp: image_iff)


section \<open>Every registered session is placed\<close>

text \<open>
  A session is settled when the fingerprint it remembers is that of its owner's deployment.  The
  stored fingerprint is set when a lease is completed and can get out of date when the deployment
  of the owner is read again.
\<close>

definition owner_settled :: "string option \<Rightarrow> SessionRoutingState \<Rightarrow> rebalancer \<Rightarrow> bool" where
  "owner_settled expected session rb \<longleftrightarrow>
     (owner_healthy expected session rb \<longrightarrow>
        (\<exists>url d. rs_owner_worker_url session = Some url \<and> dget (rb_deployments rb) url = Some d \<and>
          session_fingerprint session rb = Some (ed_cache_fingerprint d)))"

lemma owner_in_candidates:
  assumes "rebalancer_ok rb" "owner_healthy expected session rb" "owner_settled expected session rb"
    and "rs_owner_worker_url session = Some url"
  shows "url \<in> set (healthy_candidates expected session rb)"
  using assms in_candidates [OF assms(1)] by (auto simp: owner_healthy_def owner_settled_def split: option.splits)

text \<open>The engines the pressure decides between.\<close>

definition greedy_targets ::
  "(string \<Rightarrow> string option) \<Rightarrow> string option \<Rightarrow> SessionRoutingState \<Rightarrow> real \<Rightarrow> rebalancer \<Rightarrow> string list" where
  "greedy_targets resolve expected session now rb =
     migration_targets resolve expected session (filter (usable now rb) (healthy_candidates expected session rb)) rb"

lemma owner_healthy_source: "owner_healthy expected session rb \<Longrightarrow> \<exists>url. rs_owner_worker_url session = Some url"
  by (auto simp: owner_healthy_def split: option.splits)

lemma edges_valid:
  assumes ok: "rebalancer_ok rb" and settled: "owner_settled expected session rb"
    and own: "owner_healthy expected session rb \<Longrightarrow> usable now rb (the (rs_owner_worker_url session))"
    and ts: "targets = greedy_targets resolve expected session now rb" "targets \<noteq> []"
    and edges: "map fe_engine_url edges = targets" "map bl_url engines = targets" "\<forall>e\<in>set edges. fe_session_id e = sid"
  shows "validate_step sid (step_kind expected session rb) (rs_owner_worker_url session) (baselines_of engines) edges
    (rc_min_load_improvement_ratio (rb_config rb)) = Inr ()"
proof -
  have dist: "distinct (map fe_engine_url edges)"
    unfolding edges(1) ts(1) greedy_targets_def migration_targets_def using candidates_keys [OF ok] by (simp add: distinct_filter)
  have ne: "edges \<noteq> []" using edges(1) ts(2) by auto
  have known: "dmem (fe_engine_url e) (baselines_of engines)" if "e \<in> set edges" for e
  proof -
    have "fe_engine_url e \<in> set targets" using that edges(1) by (metis image_eqI list.set_map)
    then show ?thesis using edges(2) by (simp add: dmem_baselines)
  qed
  have find_iff: "find (is_owner_edge owner) edges = None \<longleftrightarrow> (\<forall>t\<in>set targets. owner \<noteq> Some t)" for owner
    unfolding edges(1) [symmetric] by (auto simp: find_None_iff is_owner_edge_def)
  have existing: "find (is_owner_edge (rs_owner_worker_url session)) edges \<noteq> None \<and> rs_owner_worker_url session \<noteq> None"
    if "step_kind expected session rb = ExistingSession"
  proof -
    have h: "owner_healthy expected session rb" using that by (auto simp: step_kind_def split: if_splits)
    obtain url where u: "rs_owner_worker_url session = Some url" using owner_healthy_source [OF h] by blast
    have "url \<in> set targets"
      using owner_in_candidates [OF ok h settled u] own [OF h] u unfolding ts(1) greedy_targets_def migration_targets_def by simp
    then show ?thesis using find_iff u by auto
  qed
  have failover: "find (is_owner_edge (rs_owner_worker_url session)) edges = None"
    if k: "step_kind expected session rb = MandatoryFailover"
  proof -
    have "url \<notin> set (healthy_candidates expected session rb)" if "rs_owner_worker_url session = Some url" for url
      using k that in_candidates [OF ok] by (auto simp: step_kind_def owner_healthy_def split: if_splits option.splits)
    then show ?thesis using find_iff unfolding ts(1) greedy_targets_def migration_targets_def by auto
  qed
  have new: "rs_owner_worker_url session = None" if "step_kind expected session rb = NewSession"
    using that by (auto simp: step_kind_def split: if_splits)
  have "step_kind expected session rb \<noteq> FixedOwner" by (simp add: step_kind_def)
  then show ?thesis unfolding validate_step_def
    using rebalancer_okD(7) [OF ok] ne dist known edges(3) existing failover new
    by (simp only: list_ex_iff) (cases "step_kind expected session rb"; simp)
qed


definition target_ok ::
  "(string \<Rightarrow> string option) \<Rightarrow> string option \<Rightarrow> SessionRoutingState \<Rightarrow> rebalancer \<Rightarrow> string option \<Rightarrow> bool" where
  "target_ok resolve expected session rb target =
     (case target of
        None \<Rightarrow> \<not> owner_healthy expected session rb \<and> healthy_candidates expected session rb = []
      | Some url \<Rightarrow>
          (rs_owner_worker_url session = Some url \<and> owner_healthy expected session rb) \<or>
          (url \<in> set (healthy_candidates expected session rb) \<and>
           (owner_healthy expected session rb \<longrightarrow> path_ready resolve (the (rs_owner_worker_url session)) url rb)))"

definition placed ::
  "(string \<Rightarrow> string option) \<Rightarrow> string \<Rightarrow> string option \<Rightarrow> SessionRoutingState \<Rightarrow> rebalancer \<Rightarrow> RoutingLease result \<times> rebalancer \<Rightarrow> bool"
where
  "placed resolve sid expected session rb r \<longleftrightarrow>
     (\<exists>session' q t target lease rb'. commit_step sid session' (rs_owner_worker_url session) target q t rb = (lease, rb') \<and>
        r = (Inr lease, rb') \<and> target_ok resolve expected session rb target)"

lemma commit_placed:
  assumes "target_ok resolve expected session rb target"
  shows "placed resolve sid expected session rb
    (case commit_step sid session' (rs_owner_worker_url session) target q t rb of (lease, rb') \<Rightarrow> (Inr lease, rb'))"
proof -
  obtain lease rb' where "commit_step sid session' (rs_owner_worker_url session) target q t rb = (lease, rb')" by fastforce
  then show ?thesis unfolding placed_def using assms by (metis prod.case)
qed

lemma fallback_placed:
  "target_ok resolve expected session rb target \<Longrightarrow> placed resolve sid expected session rb (fallback_step sid session target ids rb)"
  unfolding fallback_step_def schedule_fallback_def Let_def by (rule commit_placed)

lemma greedy_target_ok:
  assumes "url \<in> set (greedy_targets resolve expected session now rb)"
  shows "target_ok resolve expected session rb (Some url)"
proof -
  have "url \<in> set (healthy_candidates expected session rb)"
    using assms by (simp add: greedy_targets_def migration_targets_def)
  moreover have "rs_owner_worker_url session = Some url \<or> path_ready resolve (the (rs_owner_worker_url session)) url rb"
    if h: "owner_healthy expected session rb"
  proof -
    have "step_kind expected session rb = ExistingSession" using h owner_healthy_source [OF h] by (auto simp: step_kind_def)
    then show ?thesis using assms by (auto simp: greedy_targets_def migration_targets_def)
  qed
  ultimately show ?thesis by (auto simp: target_ok_def)
qed

lemma schedule_by_pressure_placed:
  assumes ok: "rebalancer_ok rb" and pairs: "map (fe_engine_url \<circ> fst) pairs = greedy_targets resolve expected session now rb"
    and d: "choose_greedy_step sha sid (step_kind expected session rb) (rs_owner_worker_url session) (map snd pairs) (map fst pairs)
      (rc_min_load_improvement_ratio (rb_config rb)) = Inr d"
  shows "placed resolve sid expected session rb (schedule_by_pressure sha sid session expected pairs rb)"
proof -
  obtain e where e: "e \<in> set (map fst pairs)" "gd_selected d = fe_engine_url e"
    using choose_greedy_step_sound [OF d] by (auto simp: sound_decision_def)
  then have sel: "gd_selected d \<in> set (greedy_targets resolve expected session now rb)"
    unfolding pairs [symmetric] by force
  then have "gd_selected d \<in> set (healthy_candidates expected session rb)"
    by (auto simp: greedy_targets_def migration_targets_def)
  then obtain deployment where "dget (rb_deployments rb) (gd_selected d) = Some deployment" using in_candidates [OF ok] by blast
  moreover obtain edge where "find (\<lambda>e. fe_engine_url e = gd_selected d) (map fst pairs) = Some edge"
    using e find_None_iff [of "\<lambda>e. fe_engine_url e = gd_selected d" "map fst pairs"]
    by (cases "find (\<lambda>e. fe_engine_url e = gd_selected d) (map fst pairs)") auto
  ultimately show ?thesis
    unfolding schedule_by_pressure_def d Let_def using commit_placed [OF greedy_target_ok [OF sel]] by simp
qed

lemma schedule_without_edges_placed:
  "placed resolve sid expected session rb (schedule_without_edges sha sid session expected ids rb)"
proof (cases "owner_healthy expected session rb")
  case True
  then obtain url where "rs_owner_worker_url session = Some url" using owner_healthy_source by blast
  then show ?thesis using True by (auto simp: schedule_without_edges_def target_ok_def intro: fallback_placed)
next
  case False
  show ?thesis
  proof (cases "healthy_candidates expected session rb = []")
    case True
    then show ?thesis using False by (auto simp: schedule_without_edges_def target_ok_def intro: fallback_placed)
  next
    case ne: False
    let ?c = "healthy_candidates expected session rb"
    obtain t where t: "choose_stable_engine sha sid (sort ?c) = Inr t" "t \<in> set ?c"
    proof -
      have "sort ?c \<noteq> []" using ne by (metis set_empty set_sort)
      then show ?thesis using that arg_min_list_in [of "sort ?c"] by (auto simp: choose_stable_engine_def)
    qed
    then show ?thesis using False ne by (auto simp: schedule_without_edges_def target_ok_def intro: fallback_placed)
  qed
qed

lemma usable_snapshots_total:
  assumes "rebalancer_ok rb"
  shows "usable_snapshots expected session now rb =
    Inr (owner_healthy expected session rb \<and> usable now rb (the (rs_owner_worker_url session)),
         filter (usable now rb) (healthy_candidates expected session rb))"
  unfolding usable_snapshots_def snapshot_usable_total [OF assms]
    rfilter_total [of "snapshot_usable now rb" "usable now rb", OF snapshot_usable_total [OF assms]]
  by simp

lemma schedule_step_eq:
  assumes ok: "rebalancer_ok rb" and reg: "\<not> (dget (rb_sessions rb) sid = None \<and> require)" and session: "session = routing_session sid rb"
  obtains pairs where "map (fe_engine_url \<circ> fst) pairs = greedy_targets resolve expected session now rb"
    and "map (bl_url \<circ> snd) pairs = greedy_targets resolve expected session now rb"
    and "\<forall>e\<in>set (map fst pairs). fe_session_id e = sid"
    and "schedule_step sha resolve sid ids expected require now rb =
      (if owner_healthy expected session rb \<and> \<not> usable now rb (the (rs_owner_worker_url session))
       then fallback_step sid session (rs_owner_worker_url session) ids rb
       else if pairs = [] then schedule_without_edges sha sid session expected ids rb
       else schedule_by_pressure sha sid session expected pairs rb)"
proof -
  define targets where "targets = greedy_targets resolve expected session now rb"
  have tu: "\<forall>t\<in>set targets. usable now rb t" by (simp add: targets_def greedy_targets_def migration_targets_def)
  obtain pairs where p: "rmap (feasible_edge sid session (owner_healthy expected session rb) ids rb) targets = Inr (map Some pairs)"
    "map (fe_engine_url \<circ> fst) pairs = targets" "map (bl_url \<circ> snd) pairs = targets"
    "\<forall>e\<in>set (map fst pairs). fe_session_id e = sid"
    using feasible_edges [OF ok tu] by blast
  have edges: "step_edges sid session (owner_healthy expected session rb) ids targets rb = Inr pairs"
    by (simp add: step_edges_def p(1) map_filter_some)
  have "schedule_step sha resolve sid ids expected require now rb =
      (if owner_healthy expected session rb \<and> \<not> usable now rb (the (rs_owner_worker_url session))
       then fallback_step sid session (rs_owner_worker_url session) ids rb
       else if pairs = [] then schedule_without_edges sha sid session expected ids rb
       else schedule_by_pressure sha sid session expected pairs rb)"
    unfolding schedule_step_def if_not_P [OF reg] Let_def session [symmetric] usable_snapshots_total [OF ok] sum.case prod.case
      greedy_targets_def [symmetric] targets_def [symmetric] edges by simp
  from that [OF p(2,3,4) [unfolded targets_def] this] show ?thesis .
qed

lemma schedule_step_outcome:
  assumes ok: "rebalancer_ok rb" and reg: "\<not> (dget (rb_sessions rb) sid = None \<and> require)"
  shows "placed resolve sid expected (routing_session sid rb) rb (schedule_step sha resolve sid ids expected require now rb) \<or>
    \<not> owner_settled expected (routing_session sid rb) rb \<and>
    (\<exists>e. schedule_step sha resolve sid ids expected require now rb = (Inl e, rb))"
proof -
  define session where "session = routing_session sid rb"
  define targets where "targets = greedy_targets resolve expected session now rb"
  let ?stale = "owner_healthy expected session rb \<and> \<not> usable now rb (the (rs_owner_worker_url session))"
  obtain pairs where p: "map (fe_engine_url \<circ> fst) pairs = targets" "map (bl_url \<circ> snd) pairs = targets"
      "\<forall>e\<in>set (map fst pairs). fe_session_id e = sid"
    and step: "schedule_step sha resolve sid ids expected require now rb =
      (if ?stale then fallback_step sid session (rs_owner_worker_url session) ids rb
       else if pairs = [] then schedule_without_edges sha sid session expected ids rb
       else schedule_by_pressure sha sid session expected pairs rb)"
    unfolding targets_def by (rule schedule_step_eq [OF ok reg session_def])
  show ?thesis
  proof (cases "?stale \<or> pairs = []")
    case True
    moreover have "target_ok resolve expected session rb (rs_owner_worker_url session)" if ?stale
      using that owner_healthy_source by (fastforce simp: target_ok_def)
    ultimately show ?thesis unfolding step session_def [symmetric]
      using fallback_placed schedule_without_edges_placed by auto
  next
    case False
    then have *: "schedule_step sha resolve sid ids expected require now rb = schedule_by_pressure sha sid session expected pairs rb"
      unfolding step by auto
    show ?thesis
    proof (cases "choose_greedy_step sha sid (step_kind expected session rb) (rs_owner_worker_url session) (map snd pairs) (map fst pairs)
      (rc_min_load_improvement_ratio (rb_config rb))")
      case (Inr d)
      then show ?thesis unfolding * session_def [symmetric]
        using schedule_by_pressure_placed [OF ok] p(1) targets_def by blast
    next
      case (Inl e)
      have "\<not> owner_settled expected session rb"
      proof
        assume "owner_settled expected session rb"
        moreover have "targets \<noteq> []" using False p(1) by auto
        moreover have "map fe_engine_url (map fst pairs) = targets" "map bl_url (map snd pairs) = targets" using p(1,2) by simp_all
        ultimately have "validate_step sid (step_kind expected session rb) (rs_owner_worker_url session) (baselines_of (map snd pairs))
          (map fst pairs) (rc_min_load_improvement_ratio (rb_config rb)) = Inr ()"
          using edges_valid [OF ok, of expected session now targets resolve] False p(3) targets_def by blast
        then show False using choose_greedy_step_total Inl by (metis Inl_Inr_False)
      qed
      then show ?thesis unfolding * session_def [symmetric] using Inl by (simp add: schedule_by_pressure_def)
    qed
  qed
qed


section \<open>Runs\<close>

definition new_rebalancer :: "EngineRebalancingConfig \<Rightarrow> bool \<Rightarrow> MachineCalibrationConfig option \<Rightarrow> rebalancer" where
  "new_rebalancer config injected machine =
     \<lparr>rb_config = config, rb_benchmark_injected = injected, rb_machine_config = machine,
      rb_calibration_state = CalDisabled, rb_results = [], rb_node_ids = [], rb_node_addresses = [], rb_node_aliases = [],
      rb_profiles = [], rb_deployments = [], rb_loads = [], rb_load_generations = [], rb_reservations = [],
      rb_next_reservation_id = 1, rb_scoring_revision = 0, rb_next_load_decision_id = 1, rb_pools = [], rb_sessions = [],
      rb_excluded_engines = [], rb_deployment_checked_at = [], rb_online_request_count = 0, rb_stopping = False\<rparr>"

text \<open>
  The operations of a running rebalancer in the order in which they hold its lock.  The second
  component of the state are the leases handed out and not yet settled; \<open>RSettle k\<close> settles the
  \<open>k\<close>-th of them.  \<open>RCalibrated\<close> is the outcome of the machine calibration.
\<close>

datatype rb_op =
    RAcquire string "int list" "string option" bool real
  | RSettle nat "int list" bool
  | RRegister string
  | RDiscard string
  | RPoll string "nat \<times> string \<times> string" real "pyval option" real
  | RRefresh "(EngineDeploymentInfo \<Rightarrow> bool) option" "(string \<times> EngineDeploymentInfo option \<times> bool) list" real
  | RCalibrated CalibrationState "(string \<times> string \<times> string \<times> int) list" "string list" "string list" "(string, string) dict"
  | RClose

record rb_env =
  ev_lib :: py_lib
  ev_sha :: "string \<Rightarrow> nat"
  ev_resolve :: "string \<Rightarrow> string option"
  ev_supported :: "string \<Rightarrow> bool"

fun rb_apply :: "rb_env \<Rightarrow> rb_op \<Rightarrow> rebalancer \<times> RoutingLease list \<Rightarrow> rebalancer \<times> RoutingLease list" where
  "rb_apply env (RAcquire sid ids expected require now) (rb, ls) =
     (case acquire (ev_sha env) (ev_resolve env) sid ids expected require now rb of
        (Inr lease, rb') \<Rightarrow> (rb', ls @ [lease])
      | (Inl e, rb') \<Rightarrow> (rb', ls))"
| "rb_apply env (RSettle k tokens success) (rb, ls) =
     (if k < length ls then (snd (complete (ls ! k) tokens success rb), take k ls @ drop (Suc k) ls) else (rb, ls))"
| "rb_apply env (RRegister sid) (rb, ls) = (register_session_context sid rb, ls)"
| "rb_apply env (RDiscard sid) (rb, ls) = (discard_session_context sid rb, ls)"
| "rb_apply env (RPoll url token duration answer now) (rb, ls) =
     (let fetched = (case answer of None \<Rightarrow> None | Some payload \<Rightarrow> fetch_load (ev_lib env) payload now)
      in (poll_end (ev_resolve env) url token (if fetched = None then ''error'' else ''ok'') duration fetched now rb, ls))"
| "rb_apply env (RRefresh profile inspected now) (rb, ls) =
     (refresh_locked (ev_resolve env) (ev_supported env) profile inspected now rb, ls)"
| "rb_apply env (RCalibrated st results ids addresses aliases) (rb, ls) =
     (rb\<lparr>rb_calibration_state := st, rb_results := results, rb_node_ids := ids, rb_node_addresses := addresses,
        rb_node_aliases := aliases\<rparr>, ls)"
| "rb_apply env RClose (rb, ls) = (rb\<lparr>rb_stopping := True\<rparr>, ls)"

text \<open>A deployment is read for the url under which it is stored.\<close>

fun rb_op_ok :: "rb_op \<Rightarrow> bool" where
  "rb_op_ok (RRefresh profile inspected now) =
     list_all (\<lambda>(url, d, checked). case d of None \<Rightarrow> True | Some d' \<Rightarrow> ed_worker_url d' = url) inspected"
| "rb_op_ok _ = True"

fun run_rb :: "rb_env \<Rightarrow> rb_op list \<Rightarrow> rebalancer \<times> RoutingLease list \<Rightarrow> rebalancer \<times> RoutingLease list" where
  "run_rb env [] s = s"
| "run_rb env (op # ops) s = run_rb env ops (rb_apply env op s)"

definition lease_ids :: "RoutingLease list \<Rightarrow> nat list" where
  "lease_ids ls = List.map_filter rl_reservation_id ls"

definition lease_ok :: "rebalancer \<Rightarrow> RoutingLease \<Rightarrow> bool" where
  "lease_ok rb l \<longleftrightarrow>
     (case rl_reservation_id l of
        None \<Rightarrow> rl_target_worker_url l = None
      | Some i \<Rightarrow> (\<exists>e. dget (rb_reservations rb) i = Some e \<and> rl_target_worker_url l = Some (re_engine_url e)))"

definition rb_inv :: "rebalancer \<times> RoutingLease list \<Rightarrow> bool" where
  "rb_inv s \<longleftrightarrow>
     rebalancer_ok (fst s) \<and> map fst (rb_reservations (fst s)) = lease_ids (snd s) \<and> (\<forall>l\<in>set (snd s). lease_ok (fst s) l) \<and>
     (\<not> rc_enabled (rb_config (fst s)) \<longrightarrow> rb_reservations (fst s) = [])"

lemma lease_ids_simps [simp]:
  "lease_ids [] = []" "lease_ids (l # ls) = (case rl_reservation_id l of None \<Rightarrow> lease_ids ls | Some i \<Rightarrow> i # lease_ids ls)"
  "lease_ids (ls @ ls') = lease_ids ls @ lease_ids ls'"
  by (simp_all add: lease_ids_def List.map_filter_def split: option.splits)

lemma dset_same: "dget d k = Some v \<Longrightarrow> dset k v d = d"
  by (induction d) (auto split: if_splits)

lemma dpop_absent: "dget d k = None \<Longrightarrow> dpop k d = d"
  by (simp add: delete_conv' AList.delete_eq map_of_eq_None_iff) (metis (mono_tags, lifting) case_prod_beta filter_True image_eqI)

lemma rollback_same: "rebalancer_ok rb \<Longrightarrow> rollback sid rb rb = rb"
proof -
  assume ok: "rebalancer_ok rb"
  have "filter (\<lambda>(i, e). i < rb_next_reservation_id rb) (rb_reservations rb) = rb_reservations rb"
    using rebalancer_okD(4) [OF ok] by (auto simp: entry_ok_def intro!: filter_True)
  then show ?thesis by (cases "dget (rb_sessions rb) sid") (simp_all add: rollback_def dset_same dpop_absent)
qed

lemma acquire_outcome:
  assumes ok: "rebalancer_ok rb"
  shows "(\<exists>lease. acquire sha resolve sid ids expected require now rb = (Inr lease, rb) \<and> lease = no_lease sid \<and> \<not> rc_enabled (rb_config rb)) \<or>
    placed resolve sid expected (routing_session sid rb) rb (acquire sha resolve sid ids expected require now rb) \<or>
    (\<exists>e. acquire sha resolve sid ids expected require now rb = (Inl e, rb)) \<and>
      (rb_stopping rb \<or> dget (rb_sessions rb) sid = None \<and> require \<or> \<not> owner_settled expected (routing_session sid rb) rb)"
proof (cases "rc_enabled (rb_config rb) \<and> \<not> rb_stopping rb")
  case False
  then show ?thesis by (auto simp: acquire_def)
next
  case True
  show ?thesis
  proof (cases "dget (rb_sessions rb) sid = None \<and> require")
    case refused: True
    then show ?thesis using True rollback_same [OF ok] by (auto simp: acquire_def schedule_step_def)
  next
    case False
    then show ?thesis
      using True schedule_step_outcome [OF ok False, of resolve expected sha ids now] rollback_same [OF ok]
      by (auto simp: acquire_def placed_def)
  qed
qed


lemma rebalancer_ok_frame:
  assumes "rebalancer_ok rb" "rb_config rb' = rb_config rb" "rb_loads rb' = rb_loads rb" "rb_deployments rb' = rb_deployments rb"
    and "dict_ok (rb_reservations rb')" "\<And>ie. ie \<in> set (rb_reservations rb') \<Longrightarrow> entry_ok rb' ie"
  shows "rebalancer_ok rb'"
  using assms unfolding rebalancer_ok_def by auto

lemma entry_ok_mono:
  "entry_ok rb ie \<Longrightarrow> rb_next_reservation_id rb \<le> rb_next_reservation_id rb' \<Longrightarrow> rb_scoring_revision rb \<le> rb_scoring_revision rb' \<Longrightarrow>
    entry_ok rb' ie"
  by (auto simp: entry_ok_def)

lemma lease_ok_same: "rb_reservations rb' = rb_reservations rb \<Longrightarrow> lease_ok rb' l = lease_ok rb l"
  by (cases "rl_reservation_id l") (simp_all add: lease_ok_def)

lemma dpop_subset: "set (dpop k d) \<subseteq> set d"
  by (auto simp: AList.delete_eq)

lemma fresh_reservation: "rebalancer_ok rb \<Longrightarrow> \<not> dmem (rb_next_reservation_id rb) (rb_reservations rb)"
  using rebalancer_okD(4) [of rb] by (force simp: dmem_iff entry_ok_def)

lemma commit_step_inv:
  assumes inv: "rb_inv (rb, ls)" and en: "rc_enabled (rb_config rb)"
    and step: "commit_step sid session source target q t rb = (lease, rb')"
  shows "rb_inv (rb', ls @ [lease])"
proof -
  have ok: "rebalancer_ok rb" using inv by (simp add: rb_inv_def)
  have old: "entry_ok rb ie" if "ie \<in> set (rb_reservations rb)" for ie using rebalancer_okD(4) [OF ok that] .
  show ?thesis
  proof (cases target)
    case None
    then have l: "rl_reservation_id lease = None" "rl_target_worker_url lease = None"
      and r: "rb_reservations rb' = rb_reservations rb" "rb_config rb' = rb_config rb" "rb_loads rb' = rb_loads rb"
        "rb_deployments rb' = rb_deployments rb" "rb_next_reservation_id rb' = rb_next_reservation_id rb"
        "rb_scoring_revision rb' = rb_scoring_revision rb"
      using step by (auto simp: commit_step_def reserve_def Let_def)
    have "rebalancer_ok rb'"
      using rebalancer_ok_frame [OF ok r(2-4)] rebalancer_okD(1) [OF ok] old entry_ok_mono r by (metis order_refl)
    moreover have "lease_ok rb' lease" using l by (simp add: lease_ok_def)
    ultimately show ?thesis using inv l r en lease_ok_same [OF r(1)] by (auto simp: rb_inv_def)
  next
    case (Some url)
    define e where "e = \<lparr>re_engine_url = url, re_scoring_queue_increment = max 0 q, re_scoring_token_increment = max 0 t,
      re_scoring_revision = Suc (rb_scoring_revision rb), re_scoring_active = True\<rparr>"
    have l: "rl_reservation_id lease = Some (rb_next_reservation_id rb)" "rl_target_worker_url lease = Some url"
      and r: "rb_config rb' = rb_config rb" "rb_loads rb' = rb_loads rb" "rb_deployments rb' = rb_deployments rb"
        "rb_next_reservation_id rb' = Suc (rb_next_reservation_id rb)" "rb_scoring_revision rb' = Suc (rb_scoring_revision rb)"
        "rb_reservations rb' = dset (rb_next_reservation_id rb) e (rb_reservations rb)"
      using step Some by (auto simp: commit_step_def reserve_def Let_def e_def)
    have app: "rb_reservations rb' = rb_reservations rb @ [(rb_next_reservation_id rb, e)]"
      using dset_new [OF fresh_reservation [OF ok]] r(6) by simp
    have "rebalancer_ok rb'"
    proof (rule rebalancer_ok_frame [OF ok r(1-3)])
      show "dict_ok (rb_reservations rb')" using rebalancer_okD(1) [OF ok] r(6) by simp
      show "entry_ok rb' ie" if "ie \<in> set (rb_reservations rb')" for ie
      proof (cases "ie \<in> set (rb_reservations rb)")
        case True
        then show ?thesis using old entry_ok_mono [of rb ie rb'] r(4,5) by simp
      next
        case False
        then have "ie = (rb_next_reservation_id rb, e)" using that unfolding app by simp
        then show ?thesis using r(4,5) by (simp add: entry_ok_def e_def)
      qed
    qed
    moreover have "lease_ok rb' x" if "x \<in> set ls" for x
      using inv that fresh_reservation [OF ok] r(6)
      by (fastforce simp: rb_inv_def lease_ok_def dmem_def split: option.splits)
    moreover have "lease_ok rb' lease" unfolding lease_ok_def l r(6) by (simp add: e_def)
    ultimately show ?thesis using inv l app en r(1) by (auto simp: rb_inv_def)
  qed
qed

lemma rb_inv_same_reservations:
  assumes "rb_inv (rb, ls)" "rb_config rb' = rb_config rb" "rebalancer_ok rb'" "rb_reservations rb' = rb_reservations rb"
  shows "rb_inv (rb', ls)"
  using assms lease_ok_same [OF assms(4)] by (auto simp: rb_inv_def)

lemma acquire_inv:
  assumes inv: "rb_inv (rb, ls)"
  shows "rb_inv (rb_apply env (RAcquire sid ids expected require now) (rb, ls))"
proof -
  have ok: "rebalancer_ok rb" using inv by (simp add: rb_inv_def)
  let ?a = "acquire (ev_sha env) (ev_resolve env) sid ids expected require now rb"
  consider "?a = (Inr (no_lease sid), rb)"
    | lease rb' where "?a = (Inr lease, rb')" "rc_enabled (rb_config rb)"
        "\<exists>s src target q t. commit_step sid s src target q t rb = (lease, rb')"
    | e where "?a = (Inl e, rb)"
  proof (cases "rc_enabled (rb_config rb)")
    case True
    from acquire_outcome [OF ok, of "ev_sha env" "ev_resolve env" sid ids expected require now] True
    have "(\<exists>s src target q t lease rb'. commit_step sid s src target q t rb = (lease, rb') \<and> ?a = (Inr lease, rb')) \<or> (\<exists>e. ?a = (Inl e, rb))"
      unfolding placed_def by blast
    then show ?thesis using that(2,3) True by blast
  qed (use that(1) in \<open>simp add: acquire_def\<close>)
  then show ?thesis
  proof cases
    case 1
    then show ?thesis using inv by (auto simp: rb_inv_def lease_ok_def no_lease_def)
  next
    case (2 lease rb')
    then show ?thesis using commit_step_inv [OF inv] by auto
  next
    case (3 e)
    then show ?thesis using inv by simp
  qed
qed



lemma complete_frame:
  shows "rb_config (snd (complete l tokens b rb)) = rb_config rb" "rb_loads (snd (complete l tokens b rb)) = rb_loads rb"
    "rb_deployments (snd (complete l tokens b rb)) = rb_deployments rb"
    "rb_next_reservation_id (snd (complete l tokens b rb)) = rb_next_reservation_id rb"
    "rb_scoring_revision (snd (complete l tokens b rb)) = rb_scoring_revision rb"
    "rb_reservations (snd (complete l tokens b rb)) =
      (if rc_enabled (rb_config rb) then rb_reservations (release_reservation (rl_reservation_id l) rb) else rb_reservations rb)"
  by (auto simp: complete_def release_reservation_def Let_def split: option.splits)

lemma settle_ids:
  assumes "distinct (lease_ids ls)" "k < length ls"
  shows "lease_ids (take k ls @ drop (Suc k) ls) =
    (case rl_reservation_id (ls ! k) of None \<Rightarrow> lease_ids ls | Some i \<Rightarrow> removeAll i (lease_ids ls))"
proof -
  have ls: "ls = take k ls @ ls ! k # drop (Suc k) ls" using id_take_nth_drop [OF assms(2)] .
  define xs ys where "xs = take k ls" "ys = drop (Suc k) ls"
  have *: "lease_ids ls = lease_ids xs @ lease_ids (ls ! k # ys)" using ls unfolding xs_ys_def by (metis lease_ids_simps(3))
  then show ?thesis using assms(1) unfolding xs_ys_def [symmetric] by (auto split: option.splits)
qed

lemma keys_dpop: "map fst (dpop i d) = removeAll i (map fst d)"
  by (induction d) auto

lemma settle_inv:
  assumes inv: "rb_inv (rb, ls)"
  shows "rb_inv (rb_apply env (RSettle k tokens b) (rb, ls))"
proof (cases "k < length ls")
  case True
  let ?rb' = "snd (complete (ls ! k) tokens b rb)" and ?ls' = "take k ls @ drop (Suc k) ls"
  have ok: "rebalancer_ok rb" and keys: "map fst (rb_reservations rb) = lease_ids ls" using inv by (auto simp: rb_inv_def)
  have dist: "distinct (lease_ids ls)" using rebalancer_okD(1) [OF ok] keys by (simp add: dict_ok_def)
  have disabled: "rl_reservation_id (ls ! k) = None" if "\<not> rc_enabled (rb_config rb)"
  proof (rule ccontr)
    assume "rl_reservation_id (ls ! k) \<noteq> None"
    then have "lease_ids ls \<noteq> []" using True by (auto simp: lease_ids_def List.map_filter_def filter_empty_conv)
    then show False using keys inv that by (auto simp: rb_inv_def)
  qed
  have res: "rb_reservations ?rb' = (case rl_reservation_id (ls ! k) of None \<Rightarrow> rb_reservations rb | Some i \<Rightarrow> dpop i (rb_reservations rb))"
    using complete_frame(6) [of "ls ! k" tokens b rb] disabled
    by (cases "rl_reservation_id (ls ! k)") (auto simp: release_reservation_def)
  have "rebalancer_ok ?rb'"
  proof (rule rebalancer_ok_frame [OF ok complete_frame(1-3)])
    show "dict_ok (rb_reservations ?rb')" using res rebalancer_okD(1) [OF ok] by (auto split: option.splits)
    show "entry_ok ?rb' ie" if "ie \<in> set (rb_reservations ?rb')" for ie
    proof -
      have "ie \<in> set (rb_reservations rb)" using that res by (auto split: option.splits dest: set_mp [OF dpop_subset])
      then show ?thesis using rebalancer_okD(4) [OF ok] entry_ok_mono complete_frame(4,5) by (metis order_refl)
    qed
  qed
  moreover have "map fst (rb_reservations ?rb') = lease_ids ?ls'"
    using settle_ids [OF dist True] res by (cases "rl_reservation_id (ls ! k)") (simp_all add: keys keys_dpop)
  moreover have "lease_ok ?rb' l" if l: "l \<in> set ?ls'" for l
  proof -
    have "l \<in> set ls" using l set_take_subset [of k ls] set_drop_subset [of "Suc k" ls] by auto
    then have "lease_ok rb l" using inv by (simp add: rb_inv_def)
    moreover have "rl_reservation_id l \<noteq> rl_reservation_id (ls ! k) \<or> rl_reservation_id l = None"
    proof (rule ccontr)
      assume "\<not> ?thesis"
      then obtain i where i: "rl_reservation_id l = Some i" "rl_reservation_id (ls ! k) = Some i" by auto
      have "i \<in> set (lease_ids ?ls')" using l i(1) unfolding lease_ids_def List.map_filter_def by force
      then have "i \<in> set (removeAll i (lease_ids ls))" unfolding settle_ids [OF dist True] i(2) option.case .
      then show False by simp
    qed
    ultimately show ?thesis using res by (auto simp: lease_ok_def split: option.splits)
  qed
  moreover have "\<not> rc_enabled (rb_config ?rb') \<Longrightarrow> rb_reservations ?rb' = []"
    using inv res disabled complete_frame(1) by (auto simp: rb_inv_def)
  ultimately show ?thesis using True by (simp add: rb_inv_def)
qed (use inv in simp)


lemma rb_inv_frame:
  assumes "rb_inv (rb, ls)" "rb_config rb' = rb_config rb" "rb_loads rb' = rb_loads rb" "rb_deployments rb' = rb_deployments rb"
    "rb_reservations rb' = rb_reservations rb" "rb_next_reservation_id rb' = rb_next_reservation_id rb"
    "rb_scoring_revision rb' = rb_scoring_revision rb"
  shows "rb_inv (rb', ls)"
proof (rule rb_inv_same_reservations [OF assms(1,2)])
  have ok: "rebalancer_ok rb" using assms(1) by (simp add: rb_inv_def)
  show "rebalancer_ok rb'"
    using rebalancer_ok_frame [OF ok assms(2-4)] rebalancer_okD(1) [OF ok] rebalancer_okD(4) [OF ok] entry_ok_mono assms(5-7)
    by (metis order_refl)
qed (rule assms(5))

lemma update_pools_frame [simp]:
  "rb_config (update_pools resolve now which rb) = rb_config rb" "rb_loads (update_pools resolve now which rb) = rb_loads rb"
  "rb_deployments (update_pools resolve now which rb) = rb_deployments rb"
  "rb_reservations (update_pools resolve now which rb) = rb_reservations rb"
  "rb_next_reservation_id (update_pools resolve now which rb) = rb_next_reservation_id rb"
  "rb_scoring_revision (update_pools resolve now which rb) = rb_scoring_revision rb"
  by (simp_all add: update_pools_def)

lemma rebalancer_ok_loads:
  assumes "rebalancer_ok rb" "dict_ok loads" "\<And>url l. dget loads url = Some l \<Longrightarrow> load_ok l"
  shows "rebalancer_ok (rb\<lparr>rb_loads := loads\<rparr>)"
  using assms by (auto simp: rebalancer_ok_def entry_ok_def)

lemma rb_inv_loads:
  assumes "rb_inv (rb, ls)" "dict_ok loads" "\<And>url l. dget loads url = Some l \<Longrightarrow> load_ok l"
  shows "rb_inv (rb\<lparr>rb_loads := loads\<rparr>, ls)"
  by (rule rb_inv_same_reservations [OF assms(1)]) (use assms rebalancer_ok_loads in \<open>auto simp: rb_inv_def\<close>)

lemma acknowledge_inv:
  assumes inv: "rb_inv (rb, ls)"
  shows "rb_inv (acknowledge_scoring_deltas url revision rb, ls)"
proof -
  let ?f = "\<lambda>i e. if re_engine_url e = url \<and> re_scoring_active e \<and> re_scoring_revision e \<le> revision then e\<lparr>re_scoring_active := False\<rparr> else e"
  let ?rb = "acknowledge_scoring_deltas url revision rb"
  have ok: "rebalancer_ok rb" using inv by (simp add: rb_inv_def)
  have res: "rb_reservations ?rb = map (\<lambda>(i, e). (i, ?f i e)) (rb_reservations rb)" by (simp add: acknowledge_scoring_deltas_def)
  have "rebalancer_ok ?rb"
  proof (rule rebalancer_ok_frame [OF ok])
    show "dict_ok (rb_reservations ?rb)" unfolding res dict_ok_map_values by (rule rebalancer_okD(1) [OF ok])
    show "entry_ok ?rb ie" if "ie \<in> set (rb_reservations ?rb)" for ie
      using that rebalancer_okD(4) [OF ok] unfolding res by (fastforce simp: entry_ok_def acknowledge_scoring_deltas_def)
  qed (simp_all add: acknowledge_scoring_deltas_def)
  moreover have "lease_ok ?rb l" if old: "lease_ok rb l" for l
  proof (cases "rl_reservation_id l")
    case (Some i)
    then obtain e where e: "dget (rb_reservations rb) i = Some e" "rl_target_worker_url l = Some (re_engine_url e)"
      using old by (auto simp: lease_ok_def)
    have "dget (rb_reservations ?rb) i = Some (?f i e)" unfolding res dget_map_values e(1) option.map(2) ..
    moreover have "re_engine_url (?f i e) = re_engine_url e" by simp
    ultimately show ?thesis unfolding lease_ok_def Some option.case e(2) by metis
  qed (use old in \<open>simp add: lease_ok_def\<close>)
  moreover have "map fst (rb_reservations ?rb) = map fst (rb_reservations rb)" unfolding res by (simp add: comp_def case_prod_beta)
  moreover have "rb_config ?rb = rb_config rb" "rb_reservations rb = [] \<Longrightarrow> rb_reservations ?rb = []"
    by (simp_all add: acknowledge_scoring_deltas_def)
  ultimately show ?thesis using inv unfolding rb_inv_def fst_conv snd_conv by metis
qed

lemma fetch_load_ok: "fetch_load lib payload now = Some l \<Longrightarrow> planning_values_valid l"
  by (auto simp: fetch_load_def split: sum.splits option.splits if_splits)

lemma load_ok_frame [simp]:
  "load_ok (l\<lparr>el_healthy := b\<rparr>) = load_ok l" "load_ok (l\<lparr>el_snapshot_fetch_status := s\<rparr>) = load_ok l"
  "load_ok (l\<lparr>el_snapshot_fetch_duration_seconds := x\<rparr>) = load_ok l" "load_ok (l\<lparr>el_snapshot_generation := n\<rparr>) = load_ok l"
  "planning_values_valid l \<Longrightarrow> load_ok l" "load_ok new_load"
  by (simp_all add: load_ok_def planning_values_valid_def new_load_def)

lemma poll_inv:
  assumes inv: "rb_inv (rb, ls)" and f: "\<And>l. fetched = Some l \<Longrightarrow> planning_values_valid l"
  shows "rb_inv (poll_end resolve url token status duration fetched now rb, ls)"
proof -
  obtain revision version fp where t: "token = (revision, version, fp)" by (cases token)
  have ok: "rebalancer_ok rb" using inv by (simp add: rb_inv_def)
  define rb1 where "rb1 = rb\<lparr>rb_loads := (case dget (rb_loads rb) url of None \<Rightarrow> rb_loads rb
    | Some l \<Rightarrow> dset url (l\<lparr>el_snapshot_fetch_status := status, el_snapshot_fetch_duration_seconds := duration\<rparr>) (rb_loads rb))\<rparr>"
  have inv1: "rb_inv (rb1, ls)" unfolding rb1_def
    by (rule rb_inv_loads [OF inv])
      (use rebalancer_okD(2,5) [OF ok] in \<open>auto split: option.splits if_splits\<close>)
  have ok1: "rebalancer_ok rb1" using inv1 by (simp add: rb_inv_def)
  have published: "rb_inv (update_pools resolve now (\<lambda>_. True)
      ((acknowledge_scoring_deltas url revision (rb1\<lparr>rb_loads := dset url p (rb_loads rb1)\<rparr>))\<lparr>rb_load_generations := gs\<rparr>), ls)"
    if "load_ok p" for p gs
  proof -
    have "rb_inv (rb1\<lparr>rb_loads := dset url p (rb_loads rb1)\<rparr>, ls)"
      by (rule rb_inv_loads [OF inv1]) (use rebalancer_okD(2,5) [OF ok1] that in \<open>auto split: if_splits\<close>)
    from acknowledge_inv [OF this, of url revision] show ?thesis by (rule rb_inv_frame) simp_all
  qed
  show ?thesis unfolding poll_end_def t prod.case Let_def rb1_def [symmetric]
    using inv1 published f by (auto split: option.splits)
qed

lemma dget_or_ok: "(\<And>k v. dget d k = Some v \<Longrightarrow> P v) \<Longrightarrow> P x \<Longrightarrow> P (dget_or d k x)"
  by (auto simp: dget_or_def split: option.splits)

lemma refresh_one_inv:
  assumes inv: "rb_inv (rb, ls)" and "case d of None \<Rightarrow> True | Some d' \<Rightarrow> ed_worker_url d' = url"
  shows "rb_inv (refresh_one supported now (url, d, checked) rb, ls)"
proof (rule rb_inv_same_reservations [OF inv])
  have ok: "rebalancer_ok rb" using inv by (simp add: rb_inv_def)
  show "rb_config (refresh_one supported now (url, d, checked) rb) = rb_config rb"
    "rb_reservations (refresh_one supported now (url, d, checked) rb) = rb_reservations rb"
    by (simp_all add: refresh_one_def Let_def split: option.splits)
  show "rebalancer_ok (refresh_one supported now (url, d, checked) rb)"
    using ok assms(2) unfolding rebalancer_ok_def refresh_one_def Let_def
    by (auto simp: entry_ok_def split: option.splits if_splits intro: dget_or_ok [where P = load_ok])
qed


lemma fold_refresh_inv:
  "rb_inv (rb, ls) \<Longrightarrow> list_all (\<lambda>(url, d, checked). case d of None \<Rightarrow> True | Some d' \<Rightarrow> ed_worker_url d' = url) inspected \<Longrightarrow>
    rb_inv (fold (refresh_one supported now) inspected rb, ls)"
  by (induction inspected arbitrary: rb) (auto intro: refresh_one_inv)

lemma refresh_inv:
  assumes inv: "rb_inv (rb, ls)"
    and "list_all (\<lambda>(url, d, checked). case d of None \<Rightarrow> True | Some d' \<Rightarrow> ed_worker_url d' = url) inspected"
  shows "rb_inv (refresh_locked resolve supported profile inspected now rb, ls)"
proof -
  define rb1 where "rb1 = fold (refresh_one supported now) inspected rb"
  have inv1: "rb_inv (rb1, ls)" unfolding rb1_def by (rule fold_refresh_inv [OF assms])
  then have ok1: "rebalancer_ok rb1" by (simp add: rb_inv_def)
  let ?loads = "map (\<lambda>(url, l). (url, l\<lparr>el_healthy := (url \<in> set (map fst inspected))\<rparr>)) (rb_loads rb1)"
  have inv2: "rb_inv (rb1\<lparr>rb_loads := ?loads\<rparr>, ls)"
  proof (rule rb_inv_loads [OF inv1])
    show "dict_ok ?loads" using rebalancer_okD(2) [OF ok1] by (simp only: dict_ok_map_values)
    show "load_ok l" if "dget ?loads url = Some l" for url l
      using that rebalancer_okD(5) [OF ok1] by (auto simp: dget_map_values)
  qed
  have frame: "rb_config (fold (\<lambda>d rb. rb\<lparr>rb_pools := P d rb, rb_profiles := Q d rb\<rparr>) ds r) = rb_config r"
    "rb_loads (fold (\<lambda>d rb. rb\<lparr>rb_pools := P d rb, rb_profiles := Q d rb\<rparr>) ds r) = rb_loads r"
    "rb_deployments (fold (\<lambda>d rb. rb\<lparr>rb_pools := P d rb, rb_profiles := Q d rb\<rparr>) ds r) = rb_deployments r"
    "rb_reservations (fold (\<lambda>d rb. rb\<lparr>rb_pools := P d rb, rb_profiles := Q d rb\<rparr>) ds r) = rb_reservations r"
    "rb_next_reservation_id (fold (\<lambda>d rb. rb\<lparr>rb_pools := P d rb, rb_profiles := Q d rb\<rparr>) ds r) = rb_next_reservation_id r"
    "rb_scoring_revision (fold (\<lambda>d rb. rb\<lparr>rb_pools := P d rb, rb_profiles := Q d rb\<rparr>) ds r) = rb_scoring_revision r"
    for P Q and ds :: "EngineDeploymentInfo list" and r :: rebalancer
    by (induction ds arbitrary: r) simp_all
  show ?thesis unfolding refresh_locked_def Let_def rb1_def [symmetric]
    by (rule rb_inv_frame [OF inv2]) (simp_all add: frame)
qed

lemma rb_apply_inv:
  assumes "rb_inv (rb, ls)" "rb_op_ok op"
  shows "rb_inv (rb_apply env op (rb, ls))"
proof (cases op)
  case (RAcquire sid ids expected require now)
  then show ?thesis using acquire_inv [OF assms(1)] by (simp del: rb_apply.simps)
next
  case (RSettle k tokens b)
  then show ?thesis using settle_inv [OF assms(1)] by (simp del: rb_apply.simps)
next
  case (RPoll url token duration answer now)
  have "planning_values_valid l" if "(case answer of None \<Rightarrow> None | Some payload \<Rightarrow> fetch_load (ev_lib env) payload now) = Some l" for l
    using that fetch_load_ok by (auto split: option.splits)
  then show ?thesis using poll_inv [OF assms(1)] RPoll by (simp add: Let_def)
next
  case (RRefresh profile inspected now)
  then show ?thesis using refresh_inv [OF assms(1)] assms(2) by simp
qed (use assms(1) in \<open>auto simp: register_session_context_def discard_session_context_def intro!: rb_inv_frame [OF assms(1)]\<close>)

text \<open>Reachable states: those a run of admissible operations leads to from a fresh rebalancer.\<close>

definition rb_init :: "rebalancer \<times> RoutingLease list \<Rightarrow> bool" where
  "rb_init s \<longleftrightarrow> (\<exists>config injected machine. check_config config = Inr () \<and> s = (new_rebalancer config injected machine, []))"

inductive rb_moves :: "rb_env \<Rightarrow> rebalancer \<times> RoutingLease list \<Rightarrow> rebalancer \<times> RoutingLease list \<Rightarrow> bool" for env where
  "rb_op_ok op \<Longrightarrow> rb_moves env s (rb_apply env op s)"

interpretation rebal: transition_system rb_init "rb_moves env" rb_inv
proof
  show "rb_inv s" if "rb_init s" for s
    using that by (auto simp: rb_init_def rb_inv_def rebalancer_ok_def new_rebalancer_def check_config_def split: if_splits)
  show "rb_inv t" if "rb_inv s" "rb_moves env s t" for s t
    using that(2) by (cases) (use that(1) rb_apply_inv in \<open>cases s; simp\<close>)
qed

lemma run_rb_moves: "list_all rb_op_ok ops \<Longrightarrow> (rb_moves env)\<^sup>*\<^sup>* s (run_rb env ops s)"
proof (induction ops arbitrary: s)
  case (Cons op ops)
  then have "rb_moves env s (rb_apply env op s)" "(rb_moves env)\<^sup>*\<^sup>* (rb_apply env op s) (run_rb env ops (rb_apply env op s))"
    by (auto intro: rb_moves.intros)
  then show ?case by (simp add: converse_rtranclp_into_rtranclp)
qed simp

lemma run_rb_inv:
  assumes "check_config config = Inr ()" "list_all rb_op_ok ops" "run_rb env ops (new_rebalancer config injected machine, []) = s"
  shows "rb_inv s"
  using rebal.reach_inv [OF _ run_rb_moves [OF assms(2)], of "(new_rebalancer config injected machine, [])" env] assms
  by (auto simp: rb_init_def)


lemma fold_frame_config: "(\<And>x r. rb_config (f x r) = rb_config r) \<Longrightarrow> rb_config (fold f xs r) = rb_config r"
  by (induction xs arbitrary: r) simp_all

lemma acquire_config: "rb_config (snd (acquire sha resolve sid ids expected require now rb)) = rb_config rb"
proof -
  have commit: "rb_config (snd (commit_step sid s src target q t rb)) = rb_config rb" for s src target q t
    by (auto simp: commit_step_def reserve_def Let_def split: option.splits)
  have lease: "rb_config (snd (case commit_step sid s src target q t rb of (lease, rb') \<Rightarrow> (Inr lease :: RoutingLease result, rb'))) =
      rb_config rb" for s src target q t
    using commit [of s src target q t] by (simp add: case_prod_beta)
  have fb: "rb_config (snd (fallback_step sid s target ids rb)) = rb_config rb" for s target
    unfolding fallback_step_def schedule_fallback_def Let_def by (rule lease)
  have pressure: "rb_config (snd (schedule_by_pressure sha sid s expected pairs rb)) = rb_config rb" for s pairs
    unfolding schedule_by_pressure_def Let_def by (simp add: lease split: sum.split option.split)
  have "rb_config (snd (schedule_step sha resolve sid ids expected require now rb)) = rb_config rb"
    using fb pressure by (auto simp: schedule_step_def schedule_without_edges_def Let_def split: sum.splits prod.splits)
  then show ?thesis by (auto simp: acquire_def rollback_def split: prod.splits sum.splits)
qed

lemma rb_apply_config: "rb_config (fst (rb_apply env op s)) = rb_config (fst s)"
proof -
  obtain rb ls where s: "s = (rb, ls)" by fastforce
  show ?thesis
  proof (cases op)
    case (RAcquire sid ids expected require now)
    then show ?thesis using acquire_config [of "ev_sha env" "ev_resolve env" sid ids expected require now rb] s
      by (auto split: prod.splits sum.splits)
  next
    case (RRefresh profile inspected now)
    have "rb_config (refresh_one sup now item r) = rb_config r" for sup item r
      by (auto simp: refresh_one_def Let_def split: prod.splits option.splits)
    then show ?thesis using RRefresh s by (simp add: refresh_locked_def Let_def fold_frame_config)
  qed (auto simp: s complete_frame register_session_context_def discard_session_context_def poll_end_def
      acknowledge_scoring_deltas_def Let_def split: prod.splits option.splits)
qed

lemma run_rb_config: "rb_config (fst (run_rb env ops s)) = rb_config (fst s)"
  by (induction ops arbitrary: s) (simp_all add: rb_apply_config)

section \<open>Properties\<close>

text \<open>
  C29.  Reservations belong to unsettled leases.  After any sequence of acquisitions, settlements,
  session changes, polls and refreshes, the reservations are exactly those of the leases that have
  not been settled, in the order of acquisition, each on the engine of its lease; once every lease
  is settled, the load the rebalancer adds to what the engines report is zero.
\<close>

theorem reservations_match_leases:
  assumes "check_config config = Inr ()" and "list_all rb_op_ok ops"
    and "run_rb env ops (new_rebalancer config injected machine, []) = (rb, ls)"
  shows "map fst (rb_reservations rb) = lease_ids ls \<and> distinct (lease_ids ls) \<and> (\<forall>l\<in>set ls. lease_ok rb l) \<and>
    (ls = [] \<longrightarrow> live_scoring_totals url rb = (0, 0))"
proof -
  have inv: "rb_inv (rb, ls)" using run_rb_inv [OF assms] .
  then have "distinct (lease_ids ls)" using rebalancer_okD(1) [of rb] by (simp add: rb_inv_def dict_ok_def)
  then show ?thesis using inv by (auto simp: rb_inv_def live_scoring_totals_def Let_def)
qed



text \<open>
  A re-read owner can make placement fail.  When the deployment of a healthy owner has been
  read again and has a new fingerprint, while another engine that a ready path leads to is still
  known under the fingerprint the session remembers, the owner is no candidate but the step is
  still treated as one that may keep it: the choice raises a \<open>ValueError\<close>, which the chat handler
  does not turn into its "unavailable" answer, and the session stays as it was, so that the next
  request fails again.
\<close>

theorem stale_fingerprint_refuses_placement:
  assumes ok: "rebalancer_ok rb" and "rc_enabled (rb_config rb)" and "\<not> rb_stopping rb"
    and session: "dget (rb_sessions rb) sid = Some session" and url: "rs_owner_worker_url session = Some url"
    and d: "dget (rb_deployments rb) url = Some d" and healthy: "owner_healthy expected session rb" and usable: "usable now rb url"
    and stale: "session_fingerprint session rb \<noteq> Some (ed_cache_fingerprint d)"
    and ne: "greedy_targets resolve expected session now rb \<noteq> []"
  shows "acquire sha resolve sid ids expected require now rb = (Inl (ValueError ''sticky step must contain its owner edge''), rb)"
proof -
  have s: "session = routing_session sid rb" using session by (simp add: routing_session_def)
  have reg: "\<not> (dget (rb_sessions rb) sid = None \<and> require)" using session by simp
  obtain pairs where p: "map (fe_engine_url \<circ> fst) pairs = greedy_targets resolve expected session now rb"
      "map (bl_url \<circ> snd) pairs = greedy_targets resolve expected session now rb" "\<forall>e\<in>set (map fst pairs). fe_session_id e = sid"
    and step: "schedule_step sha resolve sid ids expected require now rb =
      (if owner_healthy expected session rb \<and> \<not> usable now rb (the (rs_owner_worker_url session))
       then fallback_step sid session (rs_owner_worker_url session) ids rb
       else if pairs = [] then schedule_without_edges sha sid session expected ids rb
       else schedule_by_pressure sha sid session expected pairs rb)"
    by (rule schedule_step_eq [OF ok reg s])
  have dist: "distinct (map fe_engine_url (map fst pairs))"
    using candidates_keys [OF ok] p(1) by (simp add: greedy_targets_def migration_targets_def)
  have kind: "step_kind expected session rb = ExistingSession" using healthy url by (simp add: step_kind_def)
  have "url \<notin> set (healthy_candidates expected session rb)" using in_candidates [OF ok] d url stale by auto
  then have "url \<notin> set (greedy_targets resolve expected session now rb)" by (auto simp: greedy_targets_def migration_targets_def)
  then have "find (is_owner_edge (Some url)) (map fst pairs) = None"
    unfolding p(1) [symmetric] by (auto simp: find_None_iff is_owner_edge_def)
  moreover have "dmem (fe_engine_url e) (baselines_of (map snd pairs))" if "e \<in> set (map fst pairs)" for e
  proof -
    have "fe_engine_url e \<in> set (greedy_targets resolve expected session now rb)"
      using that unfolding p(1) [symmetric] by auto
    then show ?thesis unfolding dmem_baselines p(2) [symmetric] by simp
  qed
  ultimately have "validate_step sid ExistingSession (Some url) (baselines_of (map snd pairs)) (map fst pairs)
      (rc_min_load_improvement_ratio (rb_config rb)) = Inl (ValueError ''sticky step must contain its owner edge'')"
    using rebalancer_okD(7) [OF ok] ne p(1,3) dist by (auto simp: validate_step_def list_ex_iff)
  then have "schedule_step sha resolve sid ids expected require now rb = (Inl (ValueError ''sticky step must contain its owner edge''), rb)"
    using step usable url ne p(1) by (auto simp: schedule_by_pressure_def choose_greedy_step_def kind Let_def)
  then show ?thesis using assms(2,3) rollback_same [OF ok] by (simp add: acquire_def)
qed

section \<open>A concrete run\<close>

definition sample_rb_config :: EngineRebalancingConfig where
  "sample_rb_config = \<lparr>rc_enabled = True, rc_load_poll_interval_ms = 250, rc_load_snapshot_poll_interval_ms = 60,
     rc_metrics_stale_ms = 2000, rc_history_size = 512, rc_min_load_improvement_ratio = 1 / 10\<rparr>"

definition sample_rb_env :: rb_env where
  "sample_rb_env = \<lparr>ev_lib = \<lparr>json_loads = (\<lambda>_. None), json_dumps = (\<lambda>_. []), py_repr = (\<lambda>_. []), sha256_hex = (\<lambda>s. s),
       text_float = (\<lambda>_. None)\<rparr>, ev_sha = (\<lambda>_. 0), ev_resolve = (\<lambda>_. None), ev_supported = (\<lambda>_. True)\<rparr>"

definition sample_deployment :: "string \<Rightarrow> string \<Rightarrow> string \<Rightarrow> string \<Rightarrow> EngineDeploymentInfo" where
  "sample_deployment node url version fp =
     \<lparr>ed_node_id = node, ed_worker_url = url, ed_weight_version = version, ed_sglang_version = ''0.5.15'', ed_kv_dtype = ''auto'',
      ed_state_dtype = ''auto'', ed_page_size = 1, ed_swa_window_size = None, ed_mamba_track_interval = None, ed_hicache_args = [],
      ed_mooncake_args = [], ed_cache_fingerprint = fp, ed_mooncake_protocol = ''rdma'', ed_shared_l3 = True,
      ed_host_staging = True, ed_gpudirect = False\<rparr>"

definition sample_loads :: "int \<Rightarrow> pyval" where
  "sample_loads running = PDict [(''loads'', PList [PDict [(''num_running_reqs'', PInt running), (''max_total_num_tokens'', PInt 1000),
     (''max_running_requests'', PInt 10)]])]"

definition sample_rb_ops :: "rb_op list" where
  "sample_rb_ops =
     [RRefresh (Some (\<lambda>_. True)) [(''A'', Some (sample_deployment ''n1'' ''A'' ''v1'' ''f1''), True),
        (''B'', Some (sample_deployment ''n2'' ''B'' ''v1'' ''f1''), True)] 1,
      RCalibrated CalReady [(''n1'', ''n2'', ''mooncake_rdma'', 1), (''n1'', ''n2'', ''h2d'', 1)] [] [] [],
      RPoll ''A'' (0, ''v1'', ''f1'') 0 (Some (sample_loads 1)) 1, RPoll ''B'' (0, ''v1'', ''f1'') 0 (Some (sample_loads 5)) 1,
      RAcquire ''s'' [1, 2, 3] None False 1, RSettle 0 [1, 2, 3, 4] True]"

definition sample_weight_update :: rb_op where
  "sample_weight_update = RRefresh None [(''A'', Some (sample_deployment ''n1'' ''A'' ''v2'' ''f2''), True), (''B'', None, False)] 2"

definition sample_rb :: rebalancer where
  "sample_rb = fst (run_rb sample_rb_env sample_rb_ops (new_rebalancer sample_rb_config True None, []))"

definition sample_rb_updated :: rebalancer where
  "sample_rb_updated =
     fst (run_rb sample_rb_env (sample_rb_ops @ [sample_weight_update]) (new_rebalancer sample_rb_config True None, []))"

lemma sample_rb_eval:
  "rb_sessions sample_rb = [(''s'', \<lparr>rs_owner_worker_url = Some ''A'', rs_fingerprint = Some ''f1'', rs_previous_committed_tokens = [1, 2, 3, 4]\<rparr>)]"
  by code_simp


lemma sample_ops_ok: "list_all rb_op_ok (sample_rb_ops @ [sample_weight_update])" "check_config sample_rb_config = Inr ()"
  by (simp_all add: sample_rb_ops_def sample_weight_update_def sample_deployment_def sample_rb_config_def check_config_def)

lemma sample_rb_updated_eq:
  "sample_rb_updated =
     \<lparr>rb_config = \<lparr>rc_enabled = True, rc_load_poll_interval_ms = 250, rc_load_snapshot_poll_interval_ms = 60,
     rc_metrics_stale_ms = 2000, rc_history_size = 512, rc_min_load_improvement_ratio = 1 / 10\<rparr>,
     rb_benchmark_injected = True, rb_machine_config = None, rb_calibration_state = CalReady, rb_results = [(''n1'',
     ''n2'', ''mooncake_rdma'', 1), (''n1'', ''n2'', ''h2d'', 1)], rb_node_ids = [], rb_node_addresses = [],
     rb_node_aliases = [], rb_profiles = [(''f1'', True)], rb_deployments = [(''A'', \<lparr>ed_node_id = ''n1'',
     ed_worker_url = ''A'', ed_weight_version = ''v2'', ed_sglang_version = ''0.5.15'', ed_kv_dtype = ''auto'',
     ed_state_dtype = ''auto'', ed_page_size = 1, ed_swa_window_size = None, ed_mamba_track_interval = None,
     ed_hicache_args = [], ed_mooncake_args = [], ed_cache_fingerprint = ''f2'', ed_mooncake_protocol = ''rdma'',
     ed_shared_l3 = True, ed_host_staging = True, ed_gpudirect = False\<rparr>), (''B'', \<lparr>ed_node_id = ''n2'',
     ed_worker_url = ''B'', ed_weight_version = ''v1'', ed_sglang_version = ''0.5.15'', ed_kv_dtype = ''auto'',
     ed_state_dtype = ''auto'', ed_page_size = 1, ed_swa_window_size = None, ed_mamba_track_interval = None,
     ed_hicache_args = [], ed_mooncake_args = [], ed_cache_fingerprint = ''f1'', ed_mooncake_protocol = ''rdma'',
     ed_shared_l3 = True, ed_host_staging = True, ed_gpudirect = False\<rparr>)], rb_loads = [(''A'', \<lparr>el_healthy =
     True, el_metrics_timestamp = 1, el_running = 1, el_queued = 0, el_active_tokens = 0, el_token_capacity = 1000,
     el_request_capacity = 10, el_token_usage = Fin 0, el_snapshot_generation = 1, el_snapshot_fetch_status = ''ok'',
     el_snapshot_fetch_duration_seconds = 0\<rparr>), (''B'', \<lparr>el_healthy = True, el_metrics_timestamp = 1,
     el_running = 5, el_queued = 0, el_active_tokens = 0, el_token_capacity = 1000, el_request_capacity = 10,
     el_token_usage = Fin 0, el_snapshot_generation = 1, el_snapshot_fetch_status = ''ok'',
     el_snapshot_fetch_duration_seconds = 0\<rparr>)], rb_load_generations = [(''A'', 1), (''B'', 1)], rb_reservations =
     [], rb_next_reservation_id = 2, rb_scoring_revision = 1, rb_next_load_decision_id = 2, rb_pools = [(''f1'',
     \<lparr>pm_fingerprint = ''f1'', pm_enabled = True, pm_state = DEGRADED, pm_state_since = 2, pm_transition_reason =
     ''pool_readiness_lost'', pm_last_readiness = Some \<lparr>pl_healthy_engines = 1, pl_metrics_fresh = True,
     pl_eligible_paths = 0\<rparr>, pm_was_active = True\<rparr>), (''f2'', \<lparr>pm_fingerprint = ''f2'', pm_enabled =
     True, pm_state = BOOTSTRAP, pm_state_since = 2, pm_transition_reason = ''pool_readiness_pending'', pm_last_readiness =
     Some \<lparr>pl_healthy_engines = 1, pl_metrics_fresh = True, pl_eligible_paths = 0\<rparr>, pm_was_active =
     False\<rparr>)], rb_sessions = [(''s'', \<lparr>rs_owner_worker_url = Some ''A'', rs_fingerprint = Some ''f1'',
     rs_previous_committed_tokens = [1, 2, 3, 4]\<rparr>)], rb_excluded_engines = [], rb_deployment_checked_at = [(''A'',
     2), (''B'', 1)], rb_online_request_count = 1, rb_stopping = False\<rparr>"
  by code_simp

lemma sample_updated_eval:
  "rb_stopping sample_rb_updated = False" "rc_enabled (rb_config sample_rb_updated)"
  "map_option ed_cache_fingerprint (dget (rb_deployments sample_rb_updated) ''A'') = Some ''f2''"
  "map_option ed_cache_fingerprint (dget (rb_deployments sample_rb_updated) ''B'') = Some ''f1''"
  "dget (rb_sessions sample_rb_updated) ''s'' =
     Some \<lparr>rs_owner_worker_url = Some ''A'', rs_fingerprint = Some ''f1'', rs_previous_committed_tokens = [1, 2, 3, 4]\<rparr>"
  "owner_healthy None (routing_session ''s'' sample_rb_updated) sample_rb_updated"
  "session_fingerprint (routing_session ''s'' sample_rb_updated) sample_rb_updated = Some ''f1''"
  "usable 2 sample_rb_updated ''A''"
  "greedy_targets (\<lambda>_. None) None (routing_session ''s'' sample_rb_updated) 2 sample_rb_updated = [''B'']"
  unfolding sample_rb_updated_eq by code_simp+

theorem stale_fingerprint_refuses_placement_witness:
  "acquire (\<lambda>_. 0) (\<lambda>_. None) ''s'' [1, 2, 3, 4, 5] None True 2 sample_rb_updated =
     (Inl (ValueError ''sticky step must contain its owner edge''), sample_rb_updated)"
proof -
  let ?s = "\<lparr>rs_owner_worker_url = Some ''A'', rs_fingerprint = Some ''f1'', rs_previous_committed_tokens = [1, 2, 3, 4]\<rparr>"
  have rs: "routing_session ''s'' sample_rb_updated = ?s" by (simp add: routing_session_def sample_updated_eval)
  have "rb_inv (run_rb sample_rb_env (sample_rb_ops @ [sample_weight_update]) (new_rebalancer sample_rb_config True None, []))"
    using run_rb_inv [OF sample_ops_ok(2,1)] by blast
  then have ok: "rebalancer_ok sample_rb_updated" by (simp add: rb_inv_def sample_rb_updated_def)
  obtain d where d: "dget (rb_deployments sample_rb_updated) ''A'' = Some d" "ed_cache_fingerprint d = ''f2''"
    using sample_updated_eval(3) by auto
  show ?thesis
  proof (rule stale_fingerprint_refuses_placement [OF ok sample_updated_eval(2) _ sample_updated_eval(5) _ d(1)])
    show "owner_healthy None ?s sample_rb_updated" "session_fingerprint ?s sample_rb_updated \<noteq> Some (ed_cache_fingerprint d)"
      "greedy_targets (\<lambda>_. None) None ?s 2 sample_rb_updated \<noteq> []"
      using sample_updated_eval(6,7,9) d(2) unfolding rs by simp_all
  qed (simp_all add: sample_updated_eval)
qed

theorem reservations_match_leases_witness:
  "map fst (rb_reservations sample_rb) = [] \<and> live_scoring_totals ''A'' sample_rb = (0, 0)"
proof -
  have ops: "list_all rb_op_ok sample_rb_ops" using sample_ops_ok(1) by simp
  have "snd (run_rb sample_rb_env sample_rb_ops (new_rebalancer sample_rb_config True None, [])) = []" by code_simp
  then have "run_rb sample_rb_env sample_rb_ops (new_rebalancer sample_rb_config True None, []) = (sample_rb, [])"
    unfolding sample_rb_def by (metis prod.collapse)
  from reservations_match_leases [OF sample_ops_ok(2) ops this] show ?thesis by simp
qed


section \<open>The two names of a link\<close>

text \<open>No two separators in a row and none at the ends: the protocol names the deployments use.\<close>

fun simple_protocol :: "bool \<Rightarrow> string \<Rightarrow> bool" where
  "simple_protocol after_sep [] = True"
| "simple_protocol after_sep (c # cs) =
     (if is_lower_alnum c then simple_protocol False cs else \<not> is_alnum c \<and> lower_char c = c \<and> \<not> after_sep \<and> simple_protocol True cs)"

lemma collapse_simple:
  "simple_protocol b s \<Longrightarrow> collapse_separators b s = map (\<lambda>c. if is_alnum c then c else CHR ''_'') (lower s)"
  by (induction b s rule: collapse_separators.induct) (auto simp: is_lower_alnum_def lower_def split: if_splits)

text \<open>
  The names of a calibrated link.  The calibration plan and the scheduler compute the name of
  a link separately.  They agree on every lower-case protocol without adjacent separators, and
  disagree on one with them: such a link is calibrated but never counted as completed, so that no
  session can move over it.
\<close>

theorem link_names_agree:
  "(simple_protocol False protocol \<longrightarrow> plan_link_name protocol = scheduler_link_name protocol) \<and>
   plan_link_name ''rdma--v2'' \<noteq> scheduler_link_name ''rdma--v2''"
proof -
  have "plan_link_name protocol = scheduler_link_name protocol" if "simple_protocol False protocol"
    using collapse_simple [OF that] collapse_simple [of False "''remote''"]
    by (cases "protocol = []") (simp_all add: plan_link_name_def scheduler_link_name_def, code_simp)
  moreover have "plan_link_name ''rdma--v2'' \<noteq> scheduler_link_name ''rdma--v2''" by code_simp
  ultimately show ?thesis by blast
qed

theorem link_names_agree_witness: "simple_protocol False ''tcp-x'' \<and> plan_link_name ''tcp-x'' = scheduler_link_name ''tcp-x''"
proof -
  have "simple_protocol False ''tcp-x''" by code_simp
  then show ?thesis using link_names_agree [of "''tcp-x''"] by blast
qed

end
