(* ===== verification/Training_Samples.thy ===== *)
theory Training_Samples
  imports Prelude
begin

text \<open>
  From rollout samples to training data: the reward hook
  (\<open>dressage/training/reward_post_process.py\<close>) and the conversion of samples to train data
  (\<open>dressage/rollout/convert_samples.py\<close>).

  A sample is a record of the attributes and metadata entries the two files read.  Rewards are
  reals: the arithmetic on rewards that are not finite is not modelled.  The metadata of a sample
  is a dictionary.  The converter takes the teachers of the loaded MOPD configuration, whose
  parsing is in \<open>Data_Source\<close>.

  The lemmas show that every segment of a trajectory has the advantage of its anchor, that the
  advantages of a group sum to zero, that removed samples take no part; that the prompt-equal
  denominators give every live prompt the same weight in the loss; and that samples without a
  rollout id get distinct fresh ones.
\<close>

section \<open>Samples\<close>

record train_sample =
  ts_index :: int
  ts_group_index :: "int option"
  ts_rollout_id :: "int option"
  ts_parent_traj_id :: "string option"
  ts_instance_id :: "string option"
  ts_segment_index :: int
  ts_remove_sample :: bool
  ts_reward :: pyval
  ts_tokens :: "int list"
  ts_response_length :: nat
  ts_loss_mask :: "int list option"
  ts_truncated :: bool
  ts_tq_layouts :: "(string, pyval) dict option"
  ts_raw_reward :: "pyval option"
  ts_round_number :: "pyval option"
  ts_rollout_log_probs :: pyval
  ts_rollout_routed_experts :: pyval
  ts_train_metadata :: pyval
  ts_multimodal_train_inputs :: pyval
  ts_teacher_log_probs :: pyval
  ts_teacher_id :: pyval
  ts_session_id :: "string option"

record train_args =
  ta_reward_key :: "string option"
  ta_advantage_estimator :: string
  ta_rewards_normalization :: bool
  ta_grpo_std_normalization :: bool
  ta_global_batch_size :: int
  ta_use_rollout_routing_replay :: bool
  ta_num_layers :: nat
  ta_moe_router_topk :: nat

section \<open>Rewards\<close>

definition raw_reward :: "py_lib \<Rightarrow> train_args \<Rightarrow> train_sample \<Rightarrow> pyfloat result" where
  "raw_reward lib args s =
     rbind (case ts_reward s of
              PDict d \<Rightarrow> (case ta_reward_key args of
                           Some (c # cs) \<Rightarrow> pkey d (c # cs)
                         | _ \<Rightarrow> Inr (PFloat (Fin 0)))
            | r \<Rightarrow> Inr r)
       (\<lambda>r. if r = PNone then Inr (Fin 0)
             else case py_float lib r of
                    Some x \<Rightarrow> Inr x
                  | None \<Rightarrow> (case r of PStr s \<Rightarrow> Inl (ValueError ''could not convert string to float'')
                                  | _ \<Rightarrow> Inl (TypeError ''float() argument must be a string or a real number'')))"

definition raw_rewards :: "py_lib \<Rightarrow> train_args \<Rightarrow> train_sample list \<Rightarrow> pyfloat list result" where
  "raw_rewards lib args samples = rmap (raw_reward lib args) samples"

definition parent_of :: "train_sample \<Rightarrow> string option" where
  "parent_of s = (case ts_parent_traj_id s of Some (c # cs) \<Rightarrow> Some (c # cs) | _ \<Rightarrow> None)"

definition in_trajectory :: "train_sample list \<Rightarrow> nat \<Rightarrow> bool" where
  "in_trajectory samples i \<longleftrightarrow> \<not> ts_remove_sample (samples ! i) \<and> parent_of (samples ! i) \<noteq> None"

definition parent_groups :: "train_sample list \<Rightarrow> (string, nat list) dict" where
  "parent_groups samples =
     group_by (\<lambda>i. the (parent_of (samples ! i))) (filter (in_trajectory samples) [0..<length samples])"

text \<open>\<open>max(seg_indices, key=...)\<close>: the first index of maximal segment index.\<close>

definition anchor_of :: "train_sample list \<Rightarrow> nat list \<Rightarrow> nat" where
  "anchor_of samples idxs = arg_min_list (\<lambda>i. - ts_segment_index (samples ! i)) idxs"

definition parent_anchor :: "train_sample list \<Rightarrow> (string, nat) dict" where
  "parent_anchor samples = map (\<lambda>(p, idxs). (p, anchor_of samples idxs)) (parent_groups samples)"

definition broadcast_group :: "nat \<Rightarrow> nat list \<Rightarrow> 'a list \<Rightarrow> 'a list" where
  "broadcast_group anchor idxs values =
     (if anchor \<ge> length values then values
      else let representative = values ! anchor in fold (\<lambda>i vs. vs[i := representative]) idxs values)"

definition broadcast_to_segments :: "train_sample list \<Rightarrow> 'a list \<Rightarrow> 'a list" where
  "broadcast_to_segments samples values =
     fold (\<lambda>(p, idxs) vs. broadcast_group (anchor_of samples idxs) idxs vs) (parent_groups samples) values"

definition group_of :: "train_sample \<Rightarrow> int" where
  "group_of s = (case ts_group_index s of Some g \<Rightarrow> g | None \<Rightarrow> -1)"

text \<open>The samples whose rewards are compared within a group: anchors and samples of no trajectory.\<close>

definition scored :: "train_sample list \<Rightarrow> nat \<Rightarrow> bool" where
  "scored samples i \<longleftrightarrow>
     \<not> ts_remove_sample (samples ! i) \<and> (i \<in> set (dvalues (parent_anchor samples)) \<or> parent_of (samples ! i) = None)"

definition score_groups :: "train_sample list \<Rightarrow> (int, nat list) dict" where
  "score_groups samples = group_by (\<lambda>i. group_of (samples ! i)) (filter (scored samples) [0..<length samples])"

definition normalize_values :: "train_args \<Rightarrow> real list \<Rightarrow> real list" where
  "normalize_values args values =
     (let mean_val = (if values = [] then 0 else sum_list values / real (length values));
          normalized = map (\<lambda>v. v - mean_val) values
      in if (ta_advantage_estimator args = ''grpo'' \<or> ta_advantage_estimator args = ''gspo'') \<and> ta_grpo_std_normalization args
         then
           (let var = (if normalized = [] then 0 else sum_list (map (\<lambda>v. v ^ 2) normalized) / real (length normalized));
                std = sqrt var
            in if std > 1 / 1000000 then map (\<lambda>v. v / std) normalized else normalized)
         else normalized)"

definition normalize_group :: "train_args \<Rightarrow> real list \<Rightarrow> nat list \<Rightarrow> real list \<Rightarrow> real list" where
  "normalize_group args raws idxs rewards =
     fold (\<lambda>(i, v) rs. rs[i := v]) (zip idxs (normalize_values args (map (\<lambda>i. raws ! i) idxs))) rewards"

definition normalizes :: "train_args \<Rightarrow> bool" where
  "normalizes args \<longleftrightarrow>
     ta_advantage_estimator args \<in> {''grpo'', ''gspo'', ''reinforce_plus_plus_baseline''} \<and> ta_rewards_normalization args"

definition normalized_rewards :: "train_args \<Rightarrow> train_sample list \<Rightarrow> real list \<Rightarrow> real list" where
  "normalized_rewards args samples raws =
     fold (\<lambda>(g, idxs) rs. normalize_group args raws idxs rs) (score_groups samples) raws"

text \<open>\<open>reward_post_process\<close> from the raw rewards on.\<close>

definition reward_post_process :: "train_args \<Rightarrow> train_sample list \<Rightarrow> real list \<Rightarrow> real list \<times> real list" where
  "reward_post_process args samples raws =
     (if \<not> normalizes args then (raws, broadcast_to_segments samples raws)
      else (raws, broadcast_to_segments samples (normalized_rewards args samples raws)))"

section \<open>Rollout ids, loss masks and denominators\<close>

function next_free :: "int list \<Rightarrow> int \<Rightarrow> int" where
  "next_free existed tmp_id = (if tmp_id \<in> set existed then next_free existed (tmp_id + 1) else tmp_id)"
  by pat_completeness auto

termination
proof (relation "measure (\<lambda>(existed, tmp_id). card {x \<in> set existed. tmp_id \<le> x})")
  fix existed :: "int list" and tmp_id :: int
  assume "tmp_id \<in> set existed"
  then have "tmp_id \<in> {x \<in> set existed. tmp_id \<le> x}" "tmp_id \<notin> {x \<in> set existed. tmp_id + 1 \<le> x}" by simp_all
  moreover have "{x \<in> set existed. tmp_id + 1 \<le> x} \<subseteq> {x \<in> set existed. tmp_id \<le> x}" by auto
  ultimately have "{x \<in> set existed. tmp_id + 1 \<le> x} \<subset> {x \<in> set existed. tmp_id \<le> x}" by blast
  then show "((existed, tmp_id + 1), existed, tmp_id) \<in> measure (\<lambda>(existed, tmp_id). card {x \<in> set existed. tmp_id \<le> x})"
    by (simp add: psubset_card_mono)
qed simp

declare next_free.simps [simp del]

fun assign_rollout_ids :: "int list \<Rightarrow> int \<Rightarrow> int option list \<Rightarrow> int list" where
  "assign_rollout_ids existed tmp_id [] = []"
| "assign_rollout_ids existed tmp_id (Some r # rs) = r # assign_rollout_ids existed tmp_id rs"
| "assign_rollout_ids existed tmp_id (None # rs) =
     (let t = next_free existed tmp_id in t # assign_rollout_ids (t # existed) t rs)"

definition rollout_ids :: "train_sample list \<Rightarrow> int list" where
  "rollout_ids samples =
     (let given = map ts_rollout_id samples in assign_rollout_ids (List.map_filter id given) 0 given)"

definition sample_loss_mask :: "train_sample \<Rightarrow> int list result" where
  "sample_loss_mask s =
     (let mask = (case ts_loss_mask s of None \<Rightarrow> replicate (ts_response_length s) 1 | Some m \<Rightarrow> m)
      in if length mask \<noteq> ts_response_length s then Inl (AssertionError [])
         else Inr (if ts_remove_sample s then replicate (ts_response_length s) 0 else mask))"

definition loss_masks :: "train_sample list \<Rightarrow> int list list result" where
  "loss_masks samples = rmap sample_loss_mask samples"

definition check_identified :: "train_sample \<Rightarrow> unit result" where
  "check_identified s =
     (if ts_parent_traj_id s = None \<or> ts_instance_id s = None \<or> (\<not> ts_remove_sample s \<and> ts_group_index s = None)
      then Inl (AssertionError []) else Inr ())"

text \<open>Mask sums and the set of live prompts, accumulated over the samples.\<close>

definition live_prompts :: "train_sample list \<Rightarrow> string list" where
  "live_prompts samples = remdups (map (the \<circ> ts_instance_id) (filter (\<lambda>s. \<not> ts_remove_sample s) samples))"

definition prompt_tokens :: "(train_sample \<times> int list) list \<Rightarrow> string \<Rightarrow> int" where
  "prompt_tokens pairs pid =
     sum_list (map (\<lambda>(s, m). sum_list m) (filter (\<lambda>(s, m). \<not> ts_remove_sample s \<and> ts_instance_id s = Some pid) pairs))"

definition prompt_equal_rollout_mask_sums :: "train_args \<Rightarrow> train_sample list \<Rightarrow> int list list \<Rightarrow> real list result" where
  "prompt_equal_rollout_mask_sums args samples masks =
     rbind (rmap check_identified samples) (\<lambda>_.
     let prompt_count = real (length (live_prompts samples)); gbs = ta_global_batch_size args;
         scale = (if gbs > 0 \<and> prompt_count > 0 then prompt_count / of_int gbs else 0)
     in Inr (map (\<lambda>s. of_int (prompt_tokens (zip samples masks) (the (ts_instance_id s))) * scale) samples))"

definition rollout_total_mask :: "(int \<times> int list) list \<Rightarrow> int \<Rightarrow> int" where
  "rollout_total_mask pairs rid = sum_list (map (\<lambda>(r, m). sum_list m) (filter (\<lambda>(r, m). r = rid) pairs))"

definition rollout_mask_sums :: "train_args \<Rightarrow> train_sample list \<Rightarrow> int list list \<Rightarrow> real list result" where
  "rollout_mask_sums args samples masks =
     (if ta_advantage_estimator args \<in> {''grpo'', ''reinforce_plus_plus_baseline''}
      then prompt_equal_rollout_mask_sums args samples masks
      else Inr (map (\<lambda>rid. of_int (rollout_total_mask (zip (rollout_ids samples) masks) rid)) (rollout_ids samples)))"

text \<open>A field is offloaded for every live sample of a batch or for none.\<close>

definition tq_fields :: "train_sample \<Rightarrow> string list" where
  "tq_fields s = (case ts_tq_layouts s of None \<Rightarrow> [] | Some layouts \<Rightarrow> dkeys layouts)"

definition tq_remote_fields :: "train_sample list \<Rightarrow> string list" where
  "tq_remote_fields samples = remdups (concat (map tq_fields samples))"

definition check_tq_fields :: "string list \<Rightarrow> train_sample \<Rightarrow> unit result" where
  "check_tq_fields remote s =
     (if list_ex (\<lambda>f. f \<notin> set (tq_fields s)) remote \<and> \<not> ts_remove_sample s
      then Inl (ValueError ''TransferQueue fields cannot mix actual values and layouts in one batch'') else Inr ())"

section \<open>Teacher routing\<close>

record mopd_teacher =
  mt_teacher_id :: string
  mt_load :: string
  mt_ckpt_step :: "int option"

definition optional_string :: "py_lib \<Rightarrow> pyval \<Rightarrow> string option" where
  "optional_string lib v =
     (if v = PNone \<or> v = PStr [] then None
      else let t = strip (py_str (py_repr lib) v) in if t = [] then None else Some t)"

definition route_mopd_teacher :: "py_lib \<Rightarrow> (string, mopd_teacher) dict \<Rightarrow> train_sample \<Rightarrow> mopd_teacher result" where
  "route_mopd_teacher lib teachers s =
     (case optional_string lib (ts_teacher_id s) of
        None \<Rightarrow> Inl (ValueError ''MOPD sample metadata requires teacher_id'')
      | Some tid \<Rightarrow> (case dget teachers tid of
                      None \<Rightarrow> Inl (ValueError ''unknown MOPD teacher_id'')
                    | Some t \<Rightarrow> Inr t))"

definition mopd_parent_id :: "train_sample \<Rightarrow> string" where
  "mopd_parent_id s =
     (case parent_of s of
        Some p \<Rightarrow> p
      | None \<Rightarrow> (case ts_session_id s of Some (c # cs) \<Rightarrow> c # cs | _ \<Rightarrow> ''sample:'' @ show_int (ts_index s)))"

fun collect_teacher_ids ::
  "py_lib \<Rightarrow> (string, mopd_teacher) dict \<Rightarrow> (string, string) dict \<Rightarrow> train_sample list \<Rightarrow> string list result" where
  "collect_teacher_ids lib teachers routes [] = Inr []"
| "collect_teacher_ids lib teachers routes (s # ss) =
     rbind (route_mopd_teacher lib teachers s) (\<lambda>t.
       let parent = mopd_parent_id s; previous = dget_or routes parent (mt_teacher_id t)
       in if previous \<noteq> mt_teacher_id t then Inl (ValueError ''MOPD sibling routing conflict'')
          else rbind (collect_teacher_ids lib teachers (dsetdefault parent (mt_teacher_id t) routes) ss)
                 (\<lambda>ids. Inr (mt_teacher_id t # ids)))"

definition collect_mopd_teacher_ids ::
  "py_lib \<Rightarrow> (string, mopd_teacher) dict \<Rightarrow> train_sample list \<Rightarrow> string list result" where
  "collect_mopd_teacher_ids lib teachers samples = collect_teacher_ids lib teachers [] samples"

section \<open>The train data\<close>

datatype prompt_column = TQLayouts "(string, pyval) dict option list" | TeacherIds "string list"

record train_data =
  td_tokens :: "int list list"
  td_response_lengths :: "nat list"
  td_rewards :: "real list"
  td_raw_reward :: "pyval list"
  td_truncated :: "nat list"
  td_sample_indices :: "int list"
  td_rollout_ids :: "int list"
  td_loss_masks :: "int list list"
  td_rollout_mask_sums :: "real list"
  td_round_number :: "pyval list option"
  td_rollout_log_probs :: "pyval list option"
  td_rollout_routed_experts :: "pyval list option"
  td_metadata :: "pyval list option"
  td_multimodal_train_inputs :: "pyval list option"
  td_prompt :: "prompt_column option"
  td_teacher_log_probs :: "pyval list option"

definition raw_reward_column :: "train_sample list \<Rightarrow> real list \<Rightarrow> pyval list" where
  "raw_reward_column samples raws =
     (if list_ex (\<lambda>s. ts_raw_reward s \<noteq> None) samples
      then map (\<lambda>s. case ts_raw_reward s of Some v \<Rightarrow> v | None \<Rightarrow> ts_reward s) samples
      else map (\<lambda>r. PFloat (Fin r)) raws)"

definition round_number_column :: "train_sample list \<Rightarrow> pyval list option result" where
  "round_number_column samples =
     (if ts_round_number (hd samples) = None then Inr None
      else rbind (rmap (\<lambda>s. case ts_round_number s of Some v \<Rightarrow> Inr v | None \<Rightarrow> Inl (KeyError ''round_number'')) samples)
             (\<lambda>vs. Inr (Some vs)))"

text \<open>\<open>np.zeros((len(tokens) - 1, num_layers, moe_router_topk))\<close>.\<close>

definition zero_experts :: "train_args \<Rightarrow> train_sample \<Rightarrow> pyval result" where
  "zero_experts args s =
     (if ts_tokens s = [] then Inl (ValueError ''negative dimensions are not allowed'')
      else Inr (PList (replicate (length (ts_tokens s) - 1)
             (PList (replicate (ta_num_layers args) (PList (replicate (ta_moe_router_topk args) (PInt 0))))))))"

definition routed_experts_column :: "train_args \<Rightarrow> string list \<Rightarrow> train_sample list \<Rightarrow> pyval list option result" where
  "routed_experts_column args remote samples =
     (if ''routed_experts'' \<in> set remote then Inr None
      else if ta_use_rollout_routing_replay args
      then rbind (rmap (\<lambda>s. if ts_rollout_routed_experts s = PNone \<and> ts_remove_sample s then zero_experts args s
                            else Inr (ts_rollout_routed_experts s)) samples) (\<lambda>vs. Inr (Some vs))
      else if ts_rollout_routed_experts (hd samples) \<noteq> PNone then Inr (Some (map ts_rollout_routed_experts samples))
      else Inr None)"

text \<open>The \<open>prompt\<close> slot holds the layouts or the teacher ids, never both.\<close>

definition prompt_slot ::
  "py_lib \<Rightarrow> (string, mopd_teacher) dict result option \<Rightarrow> string list \<Rightarrow> train_sample list \<Rightarrow> prompt_column option result" where
  "prompt_slot lib mopd remote samples =
     (case mopd of
        Some config \<Rightarrow>
          (if remote \<noteq> [] then Inl (ValueError ''TransferQueue and MOPD cannot share the prompt column'')
           else rbind config (\<lambda>teachers. rbind (collect_mopd_teacher_ids lib teachers samples) (\<lambda>ids. Inr (Some (TeacherIds ids)))))
      | None \<Rightarrow> Inr (if remote \<noteq> [] then Some (TQLayouts (map ts_tq_layouts samples)) else None))"

text \<open>
  \<open>convert_samples_to_train_data\<close> from the raw rewards on; \<open>mopd\<close> is the result of loading the
  teacher configuration when one is set.
\<close>

definition convert_samples_to_train_data ::
  "py_lib \<Rightarrow> train_args \<Rightarrow> (string, mopd_teacher) dict result option \<Rightarrow> train_sample list \<Rightarrow> real list \<Rightarrow> train_data result" where
  "convert_samples_to_train_data lib args mopd samples raws =
     (let (raw, rewards) = reward_post_process args samples raws; remote = tq_remote_fields samples in
      rbind (rmap (check_tq_fields remote) samples) (\<lambda>_.
      rbind (loss_masks samples) (\<lambda>masks.
      rbind (rollout_mask_sums args samples masks) (\<lambda>denominators.
      if samples = [] then Inl (IndexError ''list index out of range'') else
      rbind (round_number_column samples) (\<lambda>round_numbers.
      rbind (routed_experts_column args remote samples) (\<lambda>experts.
      rbind (prompt_slot lib mopd remote samples) (\<lambda>prompt.
      Inr \<lparr>td_tokens = map ts_tokens samples, td_response_lengths = map ts_response_length samples, td_rewards = rewards,
           td_raw_reward = raw_reward_column samples raw, td_truncated = map (\<lambda>s. if ts_truncated s then 1 else 0) samples,
           td_sample_indices = map ts_index samples, td_rollout_ids = rollout_ids samples, td_loss_masks = masks,
           td_rollout_mask_sums = denominators, td_round_number = round_numbers,
           td_rollout_log_probs = (if ''full_logprobs'' \<notin> set remote \<and> ts_rollout_log_probs (hd samples) \<noteq> PNone
                                   then Some (map ts_rollout_log_probs samples) else None),
           td_rollout_routed_experts = experts,
           td_metadata = (if ts_train_metadata (hd samples) \<noteq> PNone then Some (map ts_train_metadata samples) else None),
           td_multimodal_train_inputs = (if list_ex (\<lambda>s. ts_multimodal_train_inputs s \<noteq> PNone) samples
                                         then Some (map ts_multimodal_train_inputs samples) else None),
           td_prompt = prompt,
           td_teacher_log_probs = (if prompt = None \<and> ts_teacher_log_probs (hd samples) \<noteq> PNone
                                   then Some (map ts_teacher_log_probs samples) else None)\<rparr>)))))))"


section \<open>Updates by index\<close>

lemma nth_fold_update:
  "i < length vs \<Longrightarrow> fold (\<lambda>i vs. vs[i := r]) idxs vs ! i = (if i \<in> set idxs then r else vs ! i)"
  by (induction idxs arbitrary: vs) (auto simp: nth_list_update)

lemma length_fold_update [simp]: "length (fold (\<lambda>i vs. vs[i := r]) idxs vs) = length vs"
  by (induction idxs arbitrary: vs) auto

lemma length_fold_zip_update [simp]: "length (fold (\<lambda>(i, v) rs. rs[i := v]) ps rs) = length rs"
  by (induction ps arbitrary: rs) auto

lemma nth_fold_zip_update:
  "distinct (map fst ps) \<Longrightarrow> i < length rs \<Longrightarrow>
    fold (\<lambda>(i, v) rs. rs[i := v]) ps rs ! i = (case map_of ps i of Some v \<Rightarrow> v | None \<Rightarrow> rs ! i)"
proof (induction ps arbitrary: rs)
  case (Cons p ps)
  obtain j v where p: "p = (j, v)" by fastforce
  show ?case
  proof (cases "i = j")
    case True
    then have "map_of ps i = None" using Cons.prems(1) p by (simp add: map_of_eq_None_iff)
    then show ?thesis using Cons p True by simp
  next
    case False
    then show ?thesis using Cons p by (cases "map_of ps i") simp_all
  qed
qed simp

text \<open>
  A fold over the groups of a grouping, where the step for a group writes only to its members:
  every member has what the step for its own group writes.
\<close>

lemma fold_groups:
  assumes step: "\<And>k idxs vs i. length (f (k, idxs) vs) = length vs \<and>
      (i < length vs \<longrightarrow> i \<notin> set idxs \<longrightarrow> f (k, idxs) vs ! i = vs ! i)"
    and d: "distinct (map fst gs)" "\<And>k idxs. (k, idxs) \<in> set gs \<Longrightarrow> set idxs = {i \<in> base. key i = k}"
    and i: "i < length vs"
  shows "length (fold f gs vs) = length vs \<and>
    (i \<in> base \<and> key i \<in> fst ` set gs \<longrightarrow>
      (\<exists>idxs ws. (key i, idxs) \<in> set gs \<and> length ws = length vs \<and> (\<forall>j<length vs. j \<in> base \<and> key j = key i \<longrightarrow> ws ! j = vs ! j) \<and>
        fold f gs vs ! i = f (key i, idxs) ws ! i)) \<and>
    (\<not> (i \<in> base \<and> key i \<in> fst ` set gs) \<longrightarrow> fold f gs vs ! i = vs ! i)"
  using d i
proof (induction gs arbitrary: vs)
  case (Cons g gs)
  obtain k idxs where g: "g = (k, idxs)" by fastforce
  let ?v = "f g vs"
  have idxs: "set idxs = {i \<in> base. key i = k}" using Cons.prems(2) g by simp
  have len: "length ?v = length vs" using step g by blast
  have other: "?v ! j = vs ! j" if "j < length vs" "\<not> (j \<in> base \<and> key j = k)" for j
    using step [of k idxs vs j] that g idxs by simp
  have IH: "length (fold f gs ?v) = length ?v \<and>
    (i \<in> base \<and> key i \<in> fst ` set gs \<longrightarrow>
      (\<exists>idxs ws. (key i, idxs) \<in> set gs \<and> length ws = length ?v \<and> (\<forall>j<length ?v. j \<in> base \<and> key j = key i \<longrightarrow> ws ! j = ?v ! j) \<and>
        fold f gs ?v ! i = f (key i, idxs) ws ! i)) \<and>
    (\<not> (i \<in> base \<and> key i \<in> fst ` set gs) \<longrightarrow> fold f gs ?v ! i = ?v ! i)"
    using Cons.IH [of ?v] Cons.prems len by simp
  have notk: "k \<notin> fst ` set gs" using Cons.prems(1) g by simp
  show ?case
  proof (cases "i \<in> base \<and> key i = k")
    case True
    then have "fold f gs ?v ! i = f (k, idxs) vs ! i" using IH notk g by auto
    then show ?thesis using True IH len g by (auto intro!: exI [of _ idxs] exI [of _ vs])
  next
    case False
    show ?thesis
    proof (cases "i \<in> base \<and> key i \<in> fst ` set gs")
      case in_rest: True
      then obtain idxs' ws where w: "(key i, idxs') \<in> set gs" "length ws = length ?v"
        "\<forall>j<length ?v. j \<in> base \<and> key j = key i \<longrightarrow> ws ! j = ?v ! j" "fold f gs ?v ! i = f (key i, idxs') ws ! i" using IH by blast
      have "\<forall>j<length vs. j \<in> base \<and> key j = key i \<longrightarrow> ws ! j = vs ! j"
        using w(3) len other False in_rest by auto
      then show ?thesis using w IH len in_rest g by auto
    next
      case False
      then show ?thesis using IH len other [of i] Cons.prems(3) \<open>\<not> (i \<in> base \<and> key i = k)\<close> g by auto
    qed
  qed
qed simp

lemma group_by_members:
  assumes "(k, idxs) \<in> set (group_by f xs)"
  shows "idxs = filter (\<lambda>x. f x = k) xs" "k \<in> f ` set xs"
  using assms dget_in_set [OF dict_ok_group_by, of f xs k idxs] by (auto simp: dget_group_by split: if_splits)

lemma group_by_keys: "fst ` set (group_by f xs) = f ` set xs"
  using dmem_group_fold [of _ f xs "[]"] by (auto simp: dmem_iff group_by_def dmem_def)


section \<open>Advantages\<close>

text \<open>The reference definition: what a sample's advantage is, from the raw rewards alone.\<close>

definition trajectory_members :: "train_sample list \<Rightarrow> nat \<Rightarrow> nat list" where
  "trajectory_members samples i =
     filter (\<lambda>j. in_trajectory samples j \<and> parent_of (samples ! j) = parent_of (samples ! i)) [0..<length samples]"

definition representative :: "train_sample list \<Rightarrow> nat \<Rightarrow> nat" where
  "representative samples i = (if in_trajectory samples i then anchor_of samples (trajectory_members samples i) else i)"

definition group_indices :: "train_sample list \<Rightarrow> int \<Rightarrow> nat list" where
  "group_indices samples g = filter (\<lambda>i. scored samples i \<and> group_of (samples ! i) = g) [0..<length samples]"

definition values_mean :: "real list \<Rightarrow> real" where
  "values_mean vs = sum_list vs / real (length vs)"

definition values_scale :: "train_args \<Rightarrow> real list \<Rightarrow> real" where
  "values_scale args vs =
     (let std = sqrt (values_mean (map (\<lambda>v. (v - values_mean vs) ^ 2) vs))
      in if ta_advantage_estimator args \<in> {''grpo'', ''gspo''} \<and> ta_grpo_std_normalization args \<and> std > 1 / 1000000 then std else 1)"

definition advantage :: "train_args \<Rightarrow> train_sample list \<Rightarrow> real list \<Rightarrow> nat \<Rightarrow> real" where
  "advantage args samples raws i =
     (let a = representative samples i; vs = map (\<lambda>j. raws ! j) (group_indices samples (group_of (samples ! a)))
      in if ts_remove_sample (samples ! i) \<or> \<not> normalizes args then raws ! a
         else (raws ! a - values_mean vs) / values_scale args vs)"

lemma values_scale_pos: "0 < values_scale args vs"
proof -
  have "0 < s" if "1 / 1000000 < s" for s :: real using that by linarith
  then show ?thesis unfolding values_scale_def Let_def by (simp only: zero_less_one split: if_split) blast
qed

lemma normalize_values_eq: "normalize_values args vs = map (\<lambda>v. (v - values_mean vs) / values_scale args vs) vs"
proof (cases "vs = []")
  case False
  then show ?thesis
    by (simp add: normalize_values_def values_scale_def values_mean_def Let_def comp_def)
qed (simp add: normalize_values_def Let_def)

lemma values_mean_centred: "sum_list (map (\<lambda>v. (v - values_mean vs) / s) vs) = 0"
proof -
  have "sum_list (map (\<lambda>v. v - values_mean vs) vs) = 0"
    by (cases "vs = []") (simp_all add: sum_list_subtractf values_mean_def sum_list_triv)
  then show ?thesis by (simp add: divide_inverse sum_list_mult_const)
qed

lemma mem_trajectory_members: "j \<in> set (trajectory_members samples i) \<longleftrightarrow>
    j < length samples \<and> in_trajectory samples j \<and> parent_of (samples ! j) = parent_of (samples ! i)"
  by (auto simp: trajectory_members_def)

lemma anchor_of_in: "idxs \<noteq> [] \<Longrightarrow> anchor_of samples idxs \<in> set idxs"
  by (simp add: anchor_of_def arg_min_list_in)

lemma anchor_of_max: "i \<in> set idxs \<Longrightarrow> ts_segment_index (samples ! i) \<le> ts_segment_index (samples ! anchor_of samples idxs)"
proof -
  assume "i \<in> set idxs"
  moreover from this have "idxs \<noteq> []" by auto
  ultimately have "- ts_segment_index (samples ! anchor_of samples idxs) \<le> - ts_segment_index (samples ! i)"
    unfolding anchor_of_def by (subst f_arg_min_list_f) auto
  then show ?thesis by simp
qed

text \<open>The grouping by parent, read at a member.\<close>

lemma parent_group_members:
  assumes "(p, idxs) \<in> set (parent_groups samples)"
  shows "set idxs = {i. i < length samples \<and> in_trajectory samples i \<and> the (parent_of (samples ! i)) = p}"
  using group_by_members(1) [OF assms [unfolded parent_groups_def]] by auto

lemma parent_group_is:
  assumes "(the (parent_of (samples ! i)), idxs) \<in> set (parent_groups samples)" "in_trajectory samples i"
  shows "idxs = trajectory_members samples i"
proof -
  have "idxs = filter (\<lambda>j. the (parent_of (samples ! j)) = the (parent_of (samples ! i))) (filter (in_trajectory samples) [0..<length samples])"
    using group_by_members(1) [OF assms(1) [unfolded parent_groups_def]] .
  then show ?thesis using assms(2)
    by (auto simp: trajectory_members_def in_trajectory_def intro!: filter_cong)
qed

lemma representative_in:
  assumes "i < length samples" "in_trajectory samples i"
  shows "representative samples i \<in> set (trajectory_members samples i)"
proof -
  have "i \<in> set (trajectory_members samples i)" using assms by (simp add: mem_trajectory_members)
  then have "trajectory_members samples i \<noteq> []" by auto
  then show ?thesis using assms by (simp add: representative_def anchor_of_in)
qed

lemma broadcast_group_step:
  "length (broadcast_group a idxs vs) = length vs \<and>
    (i < length vs \<longrightarrow> i \<notin> set idxs \<longrightarrow> broadcast_group a idxs vs ! i = vs ! i)"
  by (auto simp: broadcast_group_def Let_def nth_fold_update)

lemma broadcast_group_nth:
  "a < length vs \<Longrightarrow> i < length vs \<Longrightarrow> i \<in> set idxs \<Longrightarrow> broadcast_group a idxs vs ! i = vs ! a"
  by (simp add: broadcast_group_def nth_fold_update)

lemma broadcast_to_segments_nth:
  assumes "length vs = length samples" "i < length samples"
  shows "length (broadcast_to_segments samples vs) = length samples"
    and "broadcast_to_segments samples vs ! i = vs ! representative samples i"
proof -
  let ?base = "{i. i < length samples \<and> in_trajectory samples i}"
  let ?key = "\<lambda>i. the (parent_of (samples ! i))"
  let ?f = "\<lambda>(p, idxs) vs. broadcast_group (anchor_of samples idxs) idxs vs"
  have F: "length (fold ?f (parent_groups samples) vs) = length vs \<and>
    (i \<in> ?base \<and> ?key i \<in> fst ` set (parent_groups samples) \<longrightarrow>
      (\<exists>idxs ws. (?key i, idxs) \<in> set (parent_groups samples) \<and> length ws = length vs \<and>
        (\<forall>j<length vs. j \<in> ?base \<and> ?key j = ?key i \<longrightarrow> ws ! j = vs ! j) \<and>
        fold ?f (parent_groups samples) vs ! i = ?f (?key i, idxs) ws ! i)) \<and>
    (\<not> (i \<in> ?base \<and> ?key i \<in> fst ` set (parent_groups samples)) \<longrightarrow> fold ?f (parent_groups samples) vs ! i = vs ! i)"
  proof (rule fold_groups)
    show "distinct (map fst (parent_groups samples))"
      using dict_ok_group_by unfolding dict_ok_def parent_groups_def by blast
  qed (use broadcast_group_step parent_group_members assms in auto)
  then show "length (broadcast_to_segments samples vs) = length samples"
    using assms by (simp add: broadcast_to_segments_def)
  show "broadcast_to_segments samples vs ! i = vs ! representative samples i"
  proof (cases "in_trajectory samples i")
    case True
    have "?key i \<in> fst ` set (parent_groups samples)" using True assms by (auto simp: parent_groups_def group_by_keys)
    then obtain idxs ws where w: "(?key i, idxs) \<in> set (parent_groups samples)" "length ws = length vs"
      "\<forall>j<length vs. j \<in> ?base \<and> ?key j = ?key i \<longrightarrow> ws ! j = vs ! j"
      "fold ?f (parent_groups samples) vs ! i = ?f (?key i, idxs) ws ! i" using F True assms by auto
    have idxs: "idxs = trajectory_members samples i" using parent_group_is [OF w(1) True] .
    let ?a = "representative samples i"
    have a: "?a \<in> set idxs" "?a = anchor_of samples idxs"
      using representative_in [OF assms(2) True] idxs True by (simp_all add: representative_def)
    have "?a < length vs" "i \<in> set idxs" using a idxs assms True by (auto simp: mem_trajectory_members)
    moreover have "ws ! ?a = vs ! ?a"
      using w(3) a(1) idxs assms by (auto simp: mem_trajectory_members)
    ultimately show ?thesis
      using w(2,4) a(2) assms by (simp add: broadcast_to_segments_def broadcast_group_nth)
  next
    case False
    then show ?thesis using F by (simp add: broadcast_to_segments_def representative_def)
  qed
qed


lemma map_of_graph: "map_of (map (\<lambda>j. (j, h j)) idxs) i = (if i \<in> set idxs then Some (h i) else None)"
  by (induction idxs) auto

lemma normalize_group_step:
  "length (normalize_group args raws idxs rs) = length rs \<and>
    (distinct idxs \<longrightarrow> i < length rs \<longrightarrow> i \<notin> set idxs \<longrightarrow> normalize_group args raws idxs rs ! i = rs ! i)"
  by (auto simp: normalize_group_def normalize_values_eq nth_fold_zip_update map_of_eq_None_iff split: option.split
      dest!: map_of_SomeD set_zip_leftD)

lemma normalize_group_nth:
  assumes "distinct idxs" "i < length rs" "i \<in> set idxs"
  shows "normalize_group args raws idxs rs ! i =
    (raws ! i - values_mean (map (\<lambda>j. raws ! j) idxs)) / values_scale args (map (\<lambda>j. raws ! j) idxs)"
proof -
  let ?h = "\<lambda>j. (raws ! j - values_mean (map (\<lambda>j. raws ! j) idxs)) / values_scale args (map (\<lambda>j. raws ! j) idxs)"
  have "zip idxs (map ?h idxs) = map (\<lambda>j. (j, ?h j)) idxs" by (rule zip_map2 [THEN trans]) (simp add: zip_same_conv_map)
  moreover have "map_of (map (\<lambda>j. (j, ?h j)) idxs) i = Some (?h i)"
    using map_of_graph [of ?h idxs i] assms(3) by simp
  ultimately show ?thesis
    using assms by (simp add: normalize_group_def normalize_values_eq comp_def nth_fold_zip_update)
qed


lemma score_group_members:
  assumes "(g, idxs) \<in> set (score_groups samples)"
  shows "idxs = group_indices samples g"
proof -
  have "idxs = filter (\<lambda>i. group_of (samples ! i) = g) (filter (scored samples) [0..<length samples])"
    using group_by_members(1) [OF assms [unfolded score_groups_def]] .
  then show ?thesis by (simp add: group_indices_def)
qed

lemma group_indices_ok: "distinct (group_indices samples g)"
  "i \<in> set (group_indices samples g) \<longleftrightarrow> i < length samples \<and> scored samples i \<and> group_of (samples ! i) = g"
  by (auto simp: group_indices_def)

lemma normalized_rewards_nth:
  assumes "length raws = length samples" "i < length samples"
  shows "length (normalized_rewards args samples raws) = length samples"
    and "normalized_rewards args samples raws ! i =
      (if scored samples i then
         (let vs = map (\<lambda>j. raws ! j) (group_indices samples (group_of (samples ! i)))
          in (raws ! i - values_mean vs) / values_scale args vs)
       else raws ! i)"
proof -
  let ?base = "{i. i < length samples \<and> scored samples i}"
  let ?key = "\<lambda>i. group_of (samples ! i)"
  let ?f = "\<lambda>(g, idxs) rs. if distinct idxs then normalize_group args raws idxs rs else rs"
  let ?gs = "score_groups samples"
  have same: "normalized_rewards args samples raws = fold ?f ?gs raws"
    unfolding normalized_rewards_def by (rule fold_cong) (auto dest: score_group_members simp: group_indices_ok)
  have F: "length (fold ?f ?gs raws) = length raws \<and>
    (i \<in> ?base \<and> ?key i \<in> fst ` set ?gs \<longrightarrow>
      (\<exists>idxs ws. (?key i, idxs) \<in> set ?gs \<and> length ws = length raws \<and>
        (\<forall>j<length raws. j \<in> ?base \<and> ?key j = ?key i \<longrightarrow> ws ! j = raws ! j) \<and> fold ?f ?gs raws ! i = ?f (?key i, idxs) ws ! i)) \<and>
    (\<not> (i \<in> ?base \<and> ?key i \<in> fst ` set ?gs) \<longrightarrow> fold ?f ?gs raws ! i = raws ! i)"
  proof (rule fold_groups)
    show "distinct (map fst ?gs)"
      using dict_ok_group_by unfolding dict_ok_def score_groups_def by blast
  qed (use normalize_group_step assms in \<open>auto dest: score_group_members simp: group_indices_ok\<close>)
  then show "length (normalized_rewards args samples raws) = length samples" using assms same by simp
  show "normalized_rewards args samples raws ! i =
      (if scored samples i then
         (let vs = map (\<lambda>j. raws ! j) (group_indices samples (group_of (samples ! i)))
          in (raws ! i - values_mean vs) / values_scale args vs)
       else raws ! i)"
  proof (cases "scored samples i")
    case True
    have "?key i \<in> fst ` set ?gs" using True assms by (auto simp: score_groups_def group_by_keys)
    then obtain idxs ws where w: "(?key i, idxs) \<in> set ?gs" "length ws = length raws"
      "fold ?f ?gs raws ! i = ?f (?key i, idxs) ws ! i" using F True assms by auto
    have idxs: "idxs = group_indices samples (?key i)" using score_group_members [OF w(1)] .
    have "i \<in> set idxs" using idxs True assms by (simp add: group_indices_ok)
    then show ?thesis
      using w idxs assms True same by (simp add: group_indices_ok normalize_group_nth Let_def)
  next
    case False
    then show ?thesis using F same by simp
  qed
qed

text \<open>A representative is live and scored, whether it is an anchor or a sample of no trajectory.\<close>

lemma parent_anchor_values:
  assumes "i < length samples" "in_trajectory samples i"
  shows "representative samples i \<in> set (dvalues (parent_anchor samples))"
proof -
  have "the (parent_of (samples ! i)) \<in> fst ` set (parent_groups samples)"
    using assms by (auto simp: parent_groups_def group_by_keys)
  then obtain idxs where g: "(the (parent_of (samples ! i)), idxs) \<in> set (parent_groups samples)" by auto
  then have "idxs = trajectory_members samples i" using parent_group_is assms(2) by blast
  then show ?thesis
    using g assms(2) by (force simp: parent_anchor_def representative_def)
qed

lemma representative_scored:
  assumes "i < length samples" "\<not> ts_remove_sample (samples ! i)"
  shows "scored samples (representative samples i)" "representative samples i < length samples"
proof -
  have "scored samples (representative samples i) \<and> representative samples i < length samples"
  proof (cases "in_trajectory samples i")
    case True
    then show ?thesis
      using parent_anchor_values [OF assms(1) True] representative_in [OF assms(1) True]
      by (simp add: scored_def mem_trajectory_members in_trajectory_def)
  next
    case False
    then show ?thesis using assms by (simp add: scored_def representative_def in_trajectory_def)
  qed
  then show "scored samples (representative samples i)" "representative samples i < length samples" by simp_all
qed

lemma reward_post_process_nth:
  assumes "length raws = length samples" "i < length samples"
  shows "length (snd (reward_post_process args samples raws)) = length samples"
    and "snd (reward_post_process args samples raws) ! i = advantage args samples raws i"
proof -
  let ?rs = "if normalizes args then normalized_rewards args samples raws else raws"
  have eq: "snd (reward_post_process args samples raws) = broadcast_to_segments samples ?rs"
    by (simp add: reward_post_process_def)
  have len: "length ?rs = length samples" using normalized_rewards_nth(1) assms by simp
  show "length (snd (reward_post_process args samples raws)) = length samples"
    using broadcast_to_segments_nth(1) [OF len assms(2)] eq by simp
  have val: "snd (reward_post_process args samples raws) ! i = ?rs ! representative samples i"
    using broadcast_to_segments_nth(2) [OF len assms(2)] eq by simp
  show "snd (reward_post_process args samples raws) ! i = advantage args samples raws i"
  proof (cases "ts_remove_sample (samples ! i)")
    case True
    then have "representative samples i = i" "\<not> scored samples i" by (simp_all add: representative_def in_trajectory_def scored_def)
    then show ?thesis using True val assms by (simp add: advantage_def Let_def normalized_rewards_nth)
  next
    case False
    then show ?thesis using val representative_scored [OF assms(2)] assms
      by (simp add: advantage_def Let_def normalized_rewards_nth)
  qed
qed


lemma scored_representative:
  assumes "i < length samples" "scored samples i"
  shows "representative samples i = i"
proof (cases "in_trajectory samples i")
  case True
  then have "i \<in> set (dvalues (parent_anchor samples))" using assms(2) by (auto simp: scored_def in_trajectory_def)
  then obtain p idxs where g: "(p, idxs) \<in> set (parent_groups samples)" "i = anchor_of samples idxs"
    by (auto simp: parent_anchor_def)
  have "idxs \<noteq> []" using group_by_members [OF g(1) [unfolded parent_groups_def]] by (auto simp: filter_empty_conv)
  then have "i \<in> set idxs" using g(2) anchor_of_in by blast
  then have "p = the (parent_of (samples ! i))" using parent_group_members [OF g(1)] by auto
  then show ?thesis using parent_group_is [of samples i idxs] g True by (simp add: representative_def)
qed (simp add: representative_def)

lemma advantages_centred:
  assumes "normalizes args"
  shows "sum_list (map (advantage args samples raws) (group_indices samples g)) = 0"
proof -
  let ?vs = "map (\<lambda>j. raws ! j) (group_indices samples g)"
  have "advantage args samples raws i = (raws ! i - values_mean ?vs) / values_scale args ?vs" if "i \<in> set (group_indices samples g)" for i
    using that assms scored_representative by (auto simp: group_indices_ok advantage_def Let_def scored_def)
  then have "map (advantage args samples raws) (group_indices samples g) =
      map (\<lambda>v. (v - values_mean ?vs) / values_scale args ?vs) ?vs" by (simp add: comp_def)
  then show ?thesis by (simp only: values_mean_centred)
qed

lemma representative_cong:
  assumes "in_trajectory samples i" "in_trajectory samples j" "parent_of (samples ! i) = parent_of (samples ! j)"
  shows "representative samples i = representative samples j"
  using assms by (simp add: representative_def trajectory_members_def)

lemma reward_post_process_eq:
  assumes "length raws = length samples"
  shows "reward_post_process args samples raws = (raws, map (advantage args samples raws) [0..<length samples])"
proof -
  have "snd (reward_post_process args samples raws) = map (advantage args samples raws) [0..<length samples]"
  proof (cases "samples = []")
    case True
    then show ?thesis using assms
      by (simp add: reward_post_process_def broadcast_to_segments_def normalized_rewards_def parent_groups_def score_groups_def group_by_def)
  next
    case False
    then have "length (snd (reward_post_process args samples raws)) = length samples"
      using reward_post_process_nth(1) [OF assms, of 0] by simp
    then show ?thesis using reward_post_process_nth(2) [OF assms] by (intro nth_equalityI) simp_all
  qed
  moreover have "fst (reward_post_process args samples raws) = raws" by (simp add: reward_post_process_def)
  ultimately show ?thesis by (simp add: prod_eq_iff)
qed

lemma advantage_cong:
  assumes "in_trajectory samples i" "in_trajectory samples j" "parent_of (samples ! i) = parent_of (samples ! j)"
  shows "advantage args samples raws i = advantage args samples raws j"
  using assms representative_cong [OF assms] by (simp add: advantage_def in_trajectory_def)

lemma representative_max:
  assumes "i < length samples" "in_trajectory samples i" "j < length samples" "in_trajectory samples j"
    "parent_of (samples ! i) = parent_of (samples ! j)"
  shows "in_trajectory samples (representative samples i)" "parent_of (samples ! representative samples i) = parent_of (samples ! i)"
    "ts_segment_index (samples ! j) \<le> ts_segment_index (samples ! representative samples i)"
proof -
  show "in_trajectory samples (representative samples i)" "parent_of (samples ! representative samples i) = parent_of (samples ! i)"
    using representative_in [OF assms(1,2)] by (simp_all add: mem_trajectory_members)
  have "j \<in> set (trajectory_members samples i)" using assms by (simp add: mem_trajectory_members)
  then show "ts_segment_index (samples ! j) \<le> ts_segment_index (samples ! representative samples i)"
    using anchor_of_max assms(2) by (simp add: representative_def)
qed

lemma advantage_order:
  assumes "normalizes args" "\<not> ts_remove_sample (samples ! i)" "\<not> ts_remove_sample (samples ! j)"
    "group_of (samples ! representative samples i) = group_of (samples ! representative samples j)"
  shows "(advantage args samples raws i \<le> advantage args samples raws j) =
    (raws ! representative samples i \<le> raws ! representative samples j)"
proof -
  have "\<not> values_scale args vs < 0" for vs using values_scale_pos [of args vs] by linarith
  then show ?thesis using assms values_scale_pos by (simp add: advantage_def Let_def divide_le_cancel)
qed

text \<open>
  C32.  \<open>reward_post_process\<close> leaves the raw rewards as they are and computes the reference
  advantage of every sample.  All live segments of a trajectory have the same advantage, read from
  a live segment of that trajectory with the highest segment index.  With normalisation on, the
  advantages that enter a group (one per trajectory) sum to zero, and within a group a live sample
  has at least the advantage of another one exactly when its trajectory's raw reward is at least as
  high.  Removed samples keep their raw reward.
\<close>

theorem training_advantages:
  assumes "length raws = length samples"
  shows "reward_post_process args samples raws = (raws, map (advantage args samples raws) [0..<length samples]) \<and>
    (\<forall>i<length samples. \<forall>j<length samples.
       in_trajectory samples i \<and> in_trajectory samples j \<and> parent_of (samples ! i) = parent_of (samples ! j) \<longrightarrow>
       advantage args samples raws i = advantage args samples raws j \<and>
       in_trajectory samples (representative samples i) \<and>
       parent_of (samples ! representative samples i) = parent_of (samples ! i) \<and>
       ts_segment_index (samples ! j) \<le> ts_segment_index (samples ! representative samples i)) \<and>
    (normalizes args \<longrightarrow> (\<forall>g. sum_list (map (advantage args samples raws) (group_indices samples g)) = 0)) \<and>
    (normalizes args \<longrightarrow> (\<forall>i j. \<not> ts_remove_sample (samples ! i) \<and> \<not> ts_remove_sample (samples ! j) \<and>
       group_of (samples ! representative samples i) = group_of (samples ! representative samples j) \<longrightarrow>
       (advantage args samples raws i \<le> advantage args samples raws j) =
       (raws ! representative samples i \<le> raws ! representative samples j))) \<and>
    (\<forall>i<length samples. ts_remove_sample (samples ! i) \<longrightarrow> advantage args samples raws i = raws ! i)"
proof (intro conjI)
  show "\<forall>i<length samples. \<forall>j<length samples.
       in_trajectory samples i \<and> in_trajectory samples j \<and> parent_of (samples ! i) = parent_of (samples ! j) \<longrightarrow>
       advantage args samples raws i = advantage args samples raws j \<and>
       in_trajectory samples (representative samples i) \<and>
       parent_of (samples ! representative samples i) = parent_of (samples ! i) \<and>
       ts_segment_index (samples ! j) \<le> ts_segment_index (samples ! representative samples i)"
    by (intro allI impI conjI) (auto intro: advantage_cong representative_max simp: representative_max(2))
qed (use reward_post_process_eq [OF assms] in \<open>simp_all add: advantages_centred advantage_order\<close>,
     simp add: advantage_def representative_def in_trajectory_def)


text \<open>A batch for the concrete runs: a trajectory of two segments, one of one segment, a removed sample.\<close>

definition plain_sample :: train_sample where
  "plain_sample = \<lparr>ts_index = 0, ts_group_index = Some 0, ts_rollout_id = None, ts_parent_traj_id = Some ''a'', ts_instance_id = Some ''p'',
     ts_segment_index = 0, ts_remove_sample = False, ts_reward = PFloat (Fin 0), ts_tokens = [1, 2, 3], ts_response_length = 2,
     ts_loss_mask = None, ts_truncated = False, ts_tq_layouts = None, ts_raw_reward = None, ts_round_number = None,
     ts_rollout_log_probs = PNone, ts_rollout_routed_experts = PNone, ts_train_metadata = PNone, ts_multimodal_train_inputs = PNone,
     ts_teacher_log_probs = PNone, ts_teacher_id = PNone, ts_session_id = None\<rparr>"

definition plain_batch :: "train_sample list" where
  "plain_batch =
     [plain_sample\<lparr>ts_rollout_id := Some 1\<rparr>, plain_sample\<lparr>ts_rollout_id := Some 1, ts_segment_index := 1, ts_loss_mask := Some [0, 1]\<rparr>,
      plain_sample\<lparr>ts_parent_traj_id := Some ''b'', ts_instance_id := Some ''q''\<rparr>,
      plain_sample\<lparr>ts_parent_traj_id := Some ''c'', ts_remove_sample := True, ts_group_index := None\<rparr>]"

definition plain_args :: train_args where
  "plain_args = \<lparr>ta_reward_key = None, ta_advantage_estimator = ''grpo'', ta_rewards_normalization = True,
     ta_grpo_std_normalization = False, ta_global_batch_size = 4, ta_use_rollout_routing_replay = False, ta_num_layers = 0,
     ta_moe_router_topk = 0\<rparr>"

lemma plain_batch_rewards: "snd (reward_post_process plain_args plain_batch [0, 1, 0, 5]) = [1 / 2, 1 / 2, - 1 / 2, 5]"
  by (simp add: plain_args_def plain_batch_def plain_sample_def reward_post_process_def normalizes_def normalized_rewards_def
      score_groups_def parent_groups_def parent_anchor_def anchor_of_def broadcast_to_segments_def broadcast_group_def scored_def
      in_trajectory_def parent_of_def group_of_def group_by_def group_append_def dget_or_def normalize_group_def
      normalize_values_def Let_def upt_rec)

theorem training_advantages_witness:
  "reward_post_process plain_args plain_batch [0, 1, 0, 5] =
     ([0, 1, 0, 5], map (advantage plain_args plain_batch [0, 1, 0, 5]) [0..<length plain_batch]) \<and>
   map (advantage plain_args plain_batch [0, 1, 0, 5]) [0..<length plain_batch] = [1 / 2, 1 / 2, - 1 / 2, 5]"
proof -
  have "length [0, 1, 0, 5 :: real] = length plain_batch" by (simp add: plain_batch_def)
  from training_advantages [OF this, of plain_args] plain_batch_rewards show ?thesis by simp
qed


section \<open>Weights of prompts and rollouts\<close>

text \<open>What the successful conversion is built from.\<close>

lemma convert_parts:
  assumes "convert_samples_to_train_data lib args mopd samples raws = Inr td"
  shows "loss_masks samples = Inr (td_loss_masks td)"
    "rollout_mask_sums args samples (td_loss_masks td) = Inr (td_rollout_mask_sums td)"
    "td_rollout_ids td = rollout_ids samples"
    "td_rewards td = snd (reward_post_process args samples raws)"
    "samples \<noteq> []"
  using assms by (auto simp: convert_samples_to_train_data_def Let_def rbind_eq_Inr case_prod_beta split: if_splits)

lemma loss_masks_nth:
  assumes "loss_masks samples = Inr masks"
  shows "length masks = length samples"
    and "i < length samples \<Longrightarrow> length (masks ! i) = ts_response_length (samples ! i)"
    and "i < length samples \<Longrightarrow> ts_remove_sample (samples ! i) \<Longrightarrow> masks ! i = replicate (ts_response_length (samples ! i)) 0"
proof -
  have all: "list_all2 (\<lambda>s m. sample_loss_mask s = Inr m) samples masks"
    using assms by (simp add: loss_masks_def rmap_eq_Inr_iff)
  then show "length masks = length samples" by (simp add: list_all2_lengthD)
  show "length (masks ! i) = ts_response_length (samples ! i)" if "i < length samples"
    using list_all2_nthD [OF all that] by (auto simp: sample_loss_mask_def Let_def split: if_splits dest!: arg_cong [of _ "masks ! i" length])
  show "masks ! i = replicate (ts_response_length (samples ! i)) 0" if "i < length samples" "ts_remove_sample (samples ! i)"
    using list_all2_nthD [OF all that(1)] that(2) by (auto simp: sample_loss_mask_def Let_def split: if_splits)
qed

text \<open>The share of the loss that the samples at the given indices carry: mask tokens over denominators.\<close>

definition loss_weight :: "train_data \<Rightarrow> nat list \<Rightarrow> real" where
  "loss_weight td idxs = sum_list (map (\<lambda>i. of_int (sum_list (td_loss_masks td ! i)) / td_rollout_mask_sums td ! i) idxs)"

definition prompt_indices :: "train_sample list \<Rightarrow> string \<Rightarrow> nat list" where
  "prompt_indices samples pid =
     filter (\<lambda>i. \<not> ts_remove_sample (samples ! i) \<and> ts_instance_id (samples ! i) = Some pid) [0..<length samples]"

definition masked_tokens :: "train_data \<Rightarrow> nat list \<Rightarrow> int" where
  "masked_tokens td idxs = sum_list (map (\<lambda>i. sum_list (td_loss_masks td ! i)) idxs)"

lemma loss_weight_const:
  assumes "\<And>i. i \<in> set idxs \<Longrightarrow> td_rollout_mask_sums td ! i = d"
  shows "loss_weight td idxs = of_int (masked_tokens td idxs) / d"
proof -
  have "loss_weight td idxs = sum_list (map (\<lambda>i. of_int (sum_list (td_loss_masks td ! i)) / d) idxs)"
    using assms by (simp add: loss_weight_def cong: map_cong)
  also have "\<dots> = sum_list (map (\<lambda>i. of_int (sum_list (td_loss_masks td ! i))) idxs) / d"
    by (induction idxs) (simp_all add: add_divide_distrib)
  also have "sum_list (map (\<lambda>i. of_int (sum_list (td_loss_masks td ! i))) idxs) = (of_int (masked_tokens td idxs) :: real)"
    by (induction idxs) (simp_all add: masked_tokens_def)
  finally show ?thesis .
qed

lemma filter_zip_nth:
  "length xs = length ys \<Longrightarrow> filter P (zip xs ys) = map (\<lambda>i. (xs ! i, ys ! i)) (filter (\<lambda>i. P (xs ! i, ys ! i)) [0..<length xs])"
proof -
  assume "length xs = length ys"
  then have "zip xs ys = map (\<lambda>i. (xs ! i, ys ! i)) [0..<length xs]" by (intro nth_equalityI) simp_all
  then show ?thesis by (simp add: filter_map comp_def)
qed

lemma prompt_tokens_eq:
  "length (td_loss_masks td) = length samples \<Longrightarrow>
    prompt_tokens (zip samples (td_loss_masks td)) pid = masked_tokens td (prompt_indices samples pid)"
  by (simp add: prompt_tokens_def filter_zip_nth masked_tokens_def prompt_indices_def comp_def)

lemma prompt_denominator:
  assumes sums: "prompt_equal_rollout_mask_sums args samples (td_loss_masks td) = Inr (td_rollout_mask_sums td)"
    and len: "length (td_loss_masks td) = length samples"
    and gbs: "0 < ta_global_batch_size args" and i: "i \<in> set (prompt_indices samples pid)"
  shows "td_rollout_mask_sums td ! i =
    of_int (masked_tokens td (prompt_indices samples pid)) * (real (length (live_prompts samples)) / of_int (ta_global_batch_size args))"
proof -
  have i': "i < length samples" "\<not> ts_remove_sample (samples ! i)" "ts_instance_id (samples ! i) = Some pid"
    using i by (auto simp: prompt_indices_def)
  then have "pid \<in> set (live_prompts samples)" by (force simp: live_prompts_def image_iff in_set_conv_nth)
  then have "live_prompts samples \<noteq> []" by auto
  then have "td_rollout_mask_sums td = map (\<lambda>s. of_int (masked_tokens td (prompt_indices samples (the (ts_instance_id s)))) *
      (real (length (live_prompts samples)) / of_int (ta_global_batch_size args))) samples"
    using sums gbs prompt_tokens_eq [OF len]
    by (auto simp: prompt_equal_rollout_mask_sums_def rbind_eq_Inr Let_def)
  then show ?thesis using i' by simp
qed

lemma prompt_weight:
  assumes "prompt_equal_rollout_mask_sums args samples (td_loss_masks td) = Inr (td_rollout_mask_sums td)"
    and "length (td_loss_masks td) = length samples"
    and "0 < ta_global_batch_size args" and pos: "masked_tokens td (prompt_indices samples pid) \<noteq> 0"
  shows "loss_weight td (prompt_indices samples pid) = of_int (ta_global_batch_size args) / real (length (live_prompts samples))"
proof -
  have "loss_weight td (prompt_indices samples pid) = of_int (masked_tokens td (prompt_indices samples pid)) /
      (of_int (masked_tokens td (prompt_indices samples pid)) * (real (length (live_prompts samples)) / of_int (ta_global_batch_size args)))"
    by (rule loss_weight_const) (rule prompt_denominator [OF assms(1-3)])
  then show ?thesis using pos assms(3) by (simp add: field_simps)
qed

text \<open>The prompts that have a live sample.\<close>

definition prompts_alive :: "train_sample list \<Rightarrow> string set" where
  "prompts_alive samples = {pid. \<exists>s\<in>set samples. \<not> ts_remove_sample s \<and> ts_instance_id s = Some pid}"

lemma live_prompts_set:
  assumes "prompt_equal_rollout_mask_sums args samples masks = Inr denominators"
  shows "set (live_prompts samples) = prompts_alive samples" "length (live_prompts samples) = card (prompts_alive samples)"
proof -
  have "\<forall>s\<in>set samples. ts_instance_id s \<noteq> None"
  proof
    fix s
    assume "s \<in> set samples"
    moreover obtain us where "rmap check_identified samples = Inr us"
      using assms by (auto simp: prompt_equal_rollout_mask_sums_def rbind_eq_Inr)
    ultimately obtain u where "check_identified s = Inr u" by (auto simp: rmap_eq_Inr_iff list_all2_conv_all_nth in_set_conv_nth)
    then show "ts_instance_id s \<noteq> None" by (auto simp: check_identified_def split: if_splits)
  qed
  then show set: "set (live_prompts samples) = prompts_alive samples"
    by (force simp: live_prompts_def prompts_alive_def image_iff)
  have "distinct (live_prompts samples)" by (simp add: live_prompts_def)
  then show "length (live_prompts samples) = card (prompts_alive samples)" using set by (metis distinct_card)
qed


section \<open>Rollout ids\<close>

lemma next_free_notin: "next_free existed tmp_id \<notin> set existed"
  by (induction existed tmp_id rule: next_free.induct) (subst next_free.simps, simp)

lemma assign_rollout_ids_spec:
  assumes "\<And>r. Some r \<in> set given \<Longrightarrow> r \<in> set existed"
  shows "length (assign_rollout_ids existed tmp_id given) = length given \<and>
    (\<forall>i<length given. case given ! i of
        Some r \<Rightarrow> assign_rollout_ids existed tmp_id given ! i = r
      | None \<Rightarrow> assign_rollout_ids existed tmp_id given ! i \<notin> set existed \<and>
          (\<forall>j<length given. j \<noteq> i \<longrightarrow> given ! j = None \<longrightarrow>
             assign_rollout_ids existed tmp_id given ! j \<noteq> assign_rollout_ids existed tmp_id given ! i))"
  using assms
proof (induction existed tmp_id given rule: assign_rollout_ids.induct)
  case (2 existed tmp_id r rs)
  then show ?case by (fastforce simp: nth_Cons split: nat.splits option.splits)
next
  case (3 existed tmp_id rs)
  let ?t = "next_free existed tmp_id"
  have "length (assign_rollout_ids (?t # existed) ?t rs) = length rs \<and>
    (\<forall>i<length rs. case rs ! i of
        Some r \<Rightarrow> assign_rollout_ids (?t # existed) ?t rs ! i = r
      | None \<Rightarrow> assign_rollout_ids (?t # existed) ?t rs ! i \<notin> set (?t # existed) \<and>
          (\<forall>j<length rs. j \<noteq> i \<longrightarrow> rs ! j = None \<longrightarrow>
             assign_rollout_ids (?t # existed) ?t rs ! j \<noteq> assign_rollout_ids (?t # existed) ?t rs ! i))"
    using 3 by simp
  then show ?case using next_free_notin [of existed tmp_id]
    by (fastforce simp: nth_Cons Let_def split: nat.splits option.splits)
qed simp


lemma set_map_filter_id: "r \<in> set (List.map_filter id xs) \<longleftrightarrow> Some r \<in> set xs"
  by (induction xs) (auto simp: List.map_filter_simps split: option.splits)

lemma rollout_ids_spec:
  "length (rollout_ids samples) = length samples"
  "i < length samples \<Longrightarrow> ts_rollout_id (samples ! i) = Some r \<Longrightarrow> rollout_ids samples ! i = r"
  "i < length samples \<Longrightarrow> j < length samples \<Longrightarrow> i \<noteq> j \<Longrightarrow>
    rollout_ids samples ! i = rollout_ids samples ! j \<longleftrightarrow> ts_rollout_id (samples ! i) = ts_rollout_id (samples ! j) \<and> ts_rollout_id (samples ! i) \<noteq> None"
proof -
  let ?given = "map ts_rollout_id samples"
  let ?existed = "List.map_filter id ?given"
  have existed: "r \<in> set ?existed \<longleftrightarrow> Some r \<in> set ?given" for r
    by (rule set_map_filter_id)
  have ids: "length (rollout_ids samples) = length ?given \<and>
    (\<forall>i<length ?given. case ?given ! i of
        Some r \<Rightarrow> rollout_ids samples ! i = r
      | None \<Rightarrow> rollout_ids samples ! i \<notin> set ?existed \<and>
          (\<forall>j<length ?given. j \<noteq> i \<longrightarrow> ?given ! j = None \<longrightarrow> rollout_ids samples ! j \<noteq> rollout_ids samples ! i))"
    unfolding rollout_ids_def Let_def by (rule assign_rollout_ids_spec) (simp only: existed)
  then show "length (rollout_ids samples) = length samples" by simp
  have kept: "rollout_ids samples ! k = r" if "k < length samples" "ts_rollout_id (samples ! k) = Some r" for k r
    using ids that by (auto dest!: spec [of _ k])
  then show "i < length samples \<Longrightarrow> ts_rollout_id (samples ! i) = Some r \<Longrightarrow> rollout_ids samples ! i = r" by blast
  have fresh: "Some (rollout_ids samples ! k) \<notin> set ?given"
      "\<forall>j<length samples. j \<noteq> k \<longrightarrow> ts_rollout_id (samples ! j) = None \<longrightarrow> rollout_ids samples ! j \<noteq> rollout_ids samples ! k"
    if "k < length samples" "ts_rollout_id (samples ! k) = None" for k
    using ids that existed by auto
  show "rollout_ids samples ! i = rollout_ids samples ! j \<longleftrightarrow> ts_rollout_id (samples ! i) = ts_rollout_id (samples ! j) \<and> ts_rollout_id (samples ! i) \<noteq> None"
    if ij: "i < length samples" "j < length samples" "i \<noteq> j"
  proof (cases "ts_rollout_id (samples ! i)")
    case None
    show ?thesis
    proof (cases "ts_rollout_id (samples ! j)")
      case (Some r)
      then have "Some r \<in> set ?given" using ij(2) by (metis image_set imageI nth_mem)
      then show ?thesis using fresh(1) [OF ij(1) None] kept [OF ij(2) Some] None Some by auto
    qed (use None fresh(2) [OF ij(1) None] ij in auto)
  next
    case i: (Some r)
    show ?thesis
    proof (cases "ts_rollout_id (samples ! j)")
      case None
      have "Some r \<in> set ?given" using i ij(1) by (metis image_set imageI nth_mem)
      then show ?thesis using fresh(1) [OF ij(2) None] kept [OF ij(1) i] None i by auto
    qed (use i kept ij in auto)
  qed
qed

definition rollout_indices :: "train_data \<Rightarrow> int \<Rightarrow> nat list" where
  "rollout_indices td rid = filter (\<lambda>i. td_rollout_ids td ! i = rid) [0..<length (td_rollout_ids td)]"

lemma rollout_weight:
  assumes ids: "td_rollout_ids td = rollout_ids samples" and len: "length (td_loss_masks td) = length samples"
    and sums: "rollout_mask_sums args samples (td_loss_masks td) = Inr (td_rollout_mask_sums td)"
    and est: "ta_advantage_estimator args \<notin> {''grpo'', ''reinforce_plus_plus_baseline''}"
    and pos: "masked_tokens td (rollout_indices td rid) \<noteq> 0"
  shows "loss_weight td (rollout_indices td rid) = 1"
proof -
  have total: "rollout_total_mask (zip (rollout_ids samples) (td_loss_masks td)) r = masked_tokens td (rollout_indices td r)" for r
    using ids len rollout_ids_spec(1) [of samples]
    by (simp add: rollout_total_mask_def filter_zip_nth masked_tokens_def rollout_indices_def comp_def)
  have "td_rollout_mask_sums td = map (\<lambda>r. of_int (masked_tokens td (rollout_indices td r))) (rollout_ids samples)"
    using sums est total by (auto simp: rollout_mask_sums_def)
  then have "td_rollout_mask_sums td ! i = of_int (masked_tokens td (rollout_indices td rid))" if "i \<in> set (rollout_indices td rid)" for i
    using that ids by (auto simp: rollout_indices_def)
  then have "loss_weight td (rollout_indices td rid) =
      of_int (masked_tokens td (rollout_indices td rid)) / of_int (masked_tokens td (rollout_indices td rid))"
    by (rule loss_weight_const)
  then show ?thesis using pos by simp
qed

text \<open>
  C38.  The search for free rollout ids ends, and in the converted batch every sample that came with
  a rollout id keeps it while two different samples share an id only if both came with it: a sample
  without an id gets one of its own.  Under the estimators that are not prompt-equal every rollout
  with a trained token has weight one in the loss.
\<close>

theorem rollout_ids_separate:
  assumes "convert_samples_to_train_data lib args mopd samples raws = Inr td"
  shows "length (td_rollout_ids td) = length samples \<and>
    (\<forall>i<length samples. \<forall>r. ts_rollout_id (samples ! i) = Some r \<longrightarrow> td_rollout_ids td ! i = r) \<and>
    (\<forall>i<length samples. \<forall>j<length samples. i \<noteq> j \<longrightarrow>
       (td_rollout_ids td ! i = td_rollout_ids td ! j) =
       (ts_rollout_id (samples ! i) = ts_rollout_id (samples ! j) \<and> ts_rollout_id (samples ! i) \<noteq> None)) \<and>
    (ta_advantage_estimator args \<notin> {''grpo'', ''reinforce_plus_plus_baseline''} \<longrightarrow>
       (\<forall>rid. masked_tokens td (rollout_indices td rid) \<noteq> 0 \<longrightarrow> loss_weight td (rollout_indices td rid) = 1))"
proof -
  note parts = convert_parts [OF assms]
  note masks = loss_masks_nth [OF parts(1)]
  show ?thesis
    using rollout_weight [OF parts(3) masks(1) parts(2)] rollout_ids_spec [where samples = samples]
    by (simp add: parts(3))
qed


section \<open>A converted batch\<close>

definition plain_train_data :: train_data where
  "plain_train_data =
     \<lparr>td_tokens = [[1, 2, 3], [1, 2, 3], [1, 2, 3], [1, 2, 3]], td_response_lengths = [2, 2, 2, 2], td_rewards = [1 / 2, 1 / 2, - 1 / 2, 5],
      td_raw_reward = [PFloat (Fin 0), PFloat (Fin 1), PFloat (Fin 0), PFloat (Fin 5)], td_truncated = [0, 0, 0, 0],
      td_sample_indices = [0, 0, 0, 0], td_rollout_ids = [1, 1, 0, 2], td_loss_masks = [[1, 1], [0, 1], [1, 1], [0, 0]],
      td_rollout_mask_sums = [3 / 2, 3 / 2, 1, 3 / 2], td_round_number = None, td_rollout_log_probs = None,
      td_rollout_routed_experts = None, td_metadata = None, td_multimodal_train_inputs = None, td_prompt = None, td_teacher_log_probs = None\<rparr>"

lemma plain_batch_masks: "loss_masks plain_batch = Inr [[1, 1], [0, 1], [1, 1], [0, 0]]"
  by (simp add: loss_masks_def plain_batch_def plain_sample_def sample_loss_mask_def numeral_2_eq_2)

lemma plain_batch_ids: "rollout_ids plain_batch = [1, 1, 0, 2]"
  by (simp add: rollout_ids_def plain_batch_def plain_sample_def List.map_filter_simps next_free.simps)

lemma plain_batch_sums: "rollout_mask_sums plain_args plain_batch [[1, 1], [0, 1], [1, 1], [0, 0]] = Inr [3 / 2, 3 / 2, 1, 3 / 2]"
  by (simp add: rollout_mask_sums_def plain_args_def plain_batch_def plain_sample_def prompt_equal_rollout_mask_sums_def
      check_identified_def live_prompts_def prompt_tokens_def)

lemma plain_batch_converted: "convert_samples_to_train_data lib plain_args None plain_batch [0, 1, 0, 5] = Inr plain_train_data"
proof -
  have "reward_post_process plain_args plain_batch [0, 1, 0, 5] = ([0, 1, 0, 5], [1 / 2, 1 / 2, - 1 / 2, 5])"
    using plain_batch_rewards by (simp add: prod_eq_iff) (simp add: reward_post_process_def)
  moreover have "tq_remote_fields plain_batch = []" "rmap (check_tq_fields []) plain_batch = Inr [(), (), (), ()]"
    "round_number_column plain_batch = Inr None" "routed_experts_column plain_args [] plain_batch = Inr None" "plain_batch \<noteq> []"
    by (simp_all add: plain_batch_def plain_sample_def plain_args_def tq_remote_fields_def tq_fields_def check_tq_fields_def
        round_number_column_def routed_experts_column_def)
  ultimately have "convert_samples_to_train_data lib plain_args None plain_batch [0, 1, 0, 5] = Inr
      \<lparr>td_tokens = map ts_tokens plain_batch, td_response_lengths = map ts_response_length plain_batch, td_rewards = [1 / 2, 1 / 2, - 1 / 2, 5],
       td_raw_reward = raw_reward_column plain_batch [0, 1, 0, 5], td_truncated = map (\<lambda>s. if ts_truncated s then 1 else 0) plain_batch,
       td_sample_indices = map ts_index plain_batch, td_rollout_ids = [1, 1, 0, 2], td_loss_masks = [[1, 1], [0, 1], [1, 1], [0, 0]],
       td_rollout_mask_sums = [3 / 2, 3 / 2, 1, 3 / 2], td_round_number = None,
       td_rollout_log_probs = (if ts_rollout_log_probs (hd plain_batch) \<noteq> PNone then Some (map ts_rollout_log_probs plain_batch) else None),
       td_rollout_routed_experts = None,
       td_metadata = (if ts_train_metadata (hd plain_batch) \<noteq> PNone then Some (map ts_train_metadata plain_batch) else None),
       td_multimodal_train_inputs = (if list_ex (\<lambda>s. ts_multimodal_train_inputs s \<noteq> PNone) plain_batch
                                     then Some (map ts_multimodal_train_inputs plain_batch) else None),
       td_prompt = None,
       td_teacher_log_probs = (if ts_teacher_log_probs (hd plain_batch) \<noteq> PNone then Some (map ts_teacher_log_probs plain_batch) else None)\<rparr>"
    by (simp add: convert_samples_to_train_data_def plain_batch_masks plain_batch_ids plain_batch_sums prompt_slot_def)
  then show ?thesis
    by (simp add: plain_batch_def plain_sample_def plain_train_data_def raw_reward_column_def)
qed


theorem rollout_ids_separate_witness:
  "\<forall>lib. convert_samples_to_train_data lib plain_args None plain_batch [0, 1, 0, 5] = Inr plain_train_data \<and>
     length (td_rollout_ids plain_train_data) = 4 \<and> td_rollout_ids plain_train_data ! 0 = td_rollout_ids plain_train_data ! 1 \<and>
     td_rollout_ids plain_train_data ! 2 \<noteq> td_rollout_ids plain_train_data ! 3"
proof
  fix lib
  have "length plain_batch = 4" "ts_rollout_id (plain_batch ! 0) = Some 1" "ts_rollout_id (plain_batch ! 1) = Some 1"
    "ts_rollout_id (plain_batch ! 2) = None" "ts_rollout_id (plain_batch ! 3) = None" by (simp_all add: plain_batch_def plain_sample_def)
  then show "convert_samples_to_train_data lib plain_args None plain_batch [0, 1, 0, 5] = Inr plain_train_data \<and>
     length (td_rollout_ids plain_train_data) = 4 \<and> td_rollout_ids plain_train_data ! 0 = td_rollout_ids plain_train_data ! 1 \<and>
     td_rollout_ids plain_train_data ! 2 \<noteq> td_rollout_ids plain_train_data ! 3"
    using rollout_ids_separate [OF plain_batch_converted [of lib]] plain_batch_converted [of lib] by simp
qed

end
