(* ===== verification/Async_Rollout.thy ===== *)
theory Async_Rollout
  imports Prelude "HOL-Library.Multiset"
begin

text \<open>
  The collection of a training batch by the fully asynchronous rollout
  (\<open>dressage/rollout/fully_async_rollout.py\<close>) and the version window that drops stale groups
  (\<open>dressage/rollout/staleness.py\<close>).

  A sample is a record of the attributes the two files read; its metadata is a dictionary or
  absent.  The background worker and its queue are in \<open>Rollout_Worker\<close>: a poll is the list of
  completed groups that \<open>get_completed_groups\<close> returns, and the collecting loop runs over the list
  of polls.  Log messages and the no-progress clock are not modelled.

  The lemmas show that the collected groups are successful results whose versions lie in the
  window of the last versions seen, that every drained group is accounted for exactly once, that
  the loop waits only when everything drained has been used, and that it fails only by its own
  guard against endless failures.
\<close>

section \<open>Samples and completed groups\<close>

record rollout_sample =
  rs_index :: int
  rs_status :: string
  rs_metadata :: "(string, pyval) dict option"
  rs_session_id :: pyval
  rs_remove_sample :: bool
  rs_response_length :: int
  rs_loss_mask :: "int list option"

record completed_group =
  cg_group_id :: int
  cg_original_group :: "rollout_sample list"
  cg_result :: "rollout_sample list option"
  cg_error :: "exn option"

record pending_group =
  pg_group_id :: int
  pg_samples :: "rollout_sample list"

definition sample_metadata :: "rollout_sample \<Rightarrow> (string, pyval) dict" where
  "sample_metadata s = (case rs_metadata s of Some d \<Rightarrow> d | None \<Rightarrow> [])"

definition is_aborted_group :: "rollout_sample list \<Rightarrow> bool" where
  "is_aborted_group grp = list_ex (\<lambda>s. rs_status s = ''ABORTED'') grp"

definition is_failed :: "completed_group \<Rightarrow> bool" where
  "is_failed c =
     (if cg_error c \<noteq> None then True
      else case cg_result c of None \<Rightarrow> True | Some r \<Rightarrow> is_aborted_group r)"

definition sample_has_trainable_tokens :: "rollout_sample \<Rightarrow> bool" where
  "sample_has_trainable_tokens s =
     (if rs_remove_sample s then False
      else if rs_response_length s \<le> 0 then False
      else case rs_loss_mask s of None \<Rightarrow> True | Some m \<Rightarrow> list_ex (\<lambda>v. v \<noteq> 0) m)"

definition group_has_trainable_tokens :: "rollout_sample list \<Rightarrow> bool" where
  "group_has_trainable_tokens grp = list_ex sample_has_trainable_tokens grp"

definition metadata_int :: "(string, pyval) dict \<Rightarrow> string \<Rightarrow> int result" where
  "metadata_int d k = (case dget d k of None \<Rightarrow> Inr 0 | Some v \<Rightarrow> py_int v)"

definition retry_count :: "rollout_sample list \<Rightarrow> int result" where
  "retry_count grp = (case grp of [] \<Rightarrow> Inr 0 | s # _ \<Rightarrow> metadata_int (sample_metadata s) ''dressage_retry_count'')"

definition increment_retry_sample :: "rollout_sample \<Rightarrow> rollout_sample result" where
  "increment_retry_sample s =
     (let metadata = sample_metadata s;
          previous = (if truthy (pget metadata ''session_id'') then pget metadata ''session_id'' else rs_session_id s);
          metadata = (if previous \<noteq> PNone then dset ''last_retry_session_id'' previous metadata else metadata);
          metadata = dpop ''segment_index'' (dpop ''parent_traj_id'' (dpop ''session_id'' metadata))
      in rbind (metadata_int metadata ''dressage_retry_count'') (\<lambda>n.
           Inr (s\<lparr>rs_metadata := Some (dset ''dressage_retry_count'' (PInt (n + 1)) metadata), rs_session_id := PNone,
                  rs_remove_sample := False\<rparr>)))"

definition increment_retry :: "rollout_sample list \<Rightarrow> rollout_sample list result" where
  "increment_retry grp = rmap increment_retry_sample grp"

section \<open>Versions of trajectories\<close>

definition real_version :: "py_lib \<Rightarrow> pyval \<Rightarrow> string option" where
  "real_version lib v =
     (if v = PNone then None
      else let version = strip (py_str (py_repr lib) v)
           in if lower version \<in> {[], ''-1'', ''unknown'', ''none''} then None else Some version)"

definition trajectory_key :: "py_lib \<Rightarrow> rollout_sample \<Rightarrow> string" where
  "trajectory_key lib s =
     (let v = pget (sample_metadata s) ''parent_traj_id'' in if v = PNone then [] else py_str (py_repr lib) v)"

definition segment_position :: "rollout_sample \<Rightarrow> nat \<Rightarrow> (int \<times> nat) result" where
  "segment_position s order = rbind (metadata_int (sample_metadata s) ''segment_index'') (\<lambda>i. Inr (i, order))"

definition position_le :: "int \<times> nat \<Rightarrow> int \<times> nat \<Rightarrow> bool" where
  "position_le p q \<longleftrightarrow> fst p < fst q \<or> fst p = fst q \<and> snd p \<le> snd q"

definition note_version :: "py_lib \<Rightarrow> nat \<Rightarrow> rollout_sample \<Rightarrow>
    (string, (int \<times> nat) \<times> string) dict \<Rightarrow> (string, (int \<times> nat) \<times> string) dict result" where
  "note_version lib order s latest =
     (case real_version lib (pget (sample_metadata s) ''dressage_end_token_version'') of
        None \<Rightarrow> Inr latest
      | Some version \<Rightarrow>
          (let key = trajectory_key lib s in
           if key = [] then Inr latest
           else rbind (segment_position s order) (\<lambda>position.
             case dget latest key of
               None \<Rightarrow> Inr (dset key (position, version) latest)
             | Some (p, v) \<Rightarrow> Inr (if position_le p position then dset key (position, version) latest else latest))))"

fun note_versions :: "py_lib \<Rightarrow> nat \<Rightarrow> rollout_sample list \<Rightarrow>
    (string, (int \<times> nat) \<times> string) dict \<Rightarrow> (string, (int \<times> nat) \<times> string) dict result" where
  "note_versions lib order [] latest = Inr latest"
| "note_versions lib order (s # ss) latest = rbind (note_version lib order s latest) (note_versions lib (Suc order) ss)"

record version_info =
  vi_key :: string
  vi_version :: string

definition trajectory_version_infos :: "py_lib \<Rightarrow> rollout_sample list \<Rightarrow> version_info list result" where
  "trajectory_version_infos lib grp =
     rbind (note_versions lib 0 grp []) (\<lambda>latest. Inr (map (\<lambda>(key, (_, version)). \<lparr>vi_key = key, vi_version = version\<rparr>) latest))"

section \<open>The version window\<close>

record staleness_tracker =
  tk_keep_versions :: "int option"
  tk_versions :: "string list"

definition config_from_args :: "pyval \<Rightarrow> int option result" where
  "config_from_args raw =
     (if raw = PNone then Inr None
      else rbind (py_int raw) (\<lambda>value.
        if value < 0 then Inl (ValueError ''dressage_staleness_keep_versions must be an integer >= 0'')
        else if value = 0 then Inr None else Inr (Some value)))"

definition current_version_index :: "staleness_tracker \<Rightarrow> int option" where
  "current_version_index t = (if tk_versions t \<noteq> [] then Some (int (length (tk_versions t)) - 1) else None)"

definition cutoff_version_index :: "staleness_tracker \<Rightarrow> int option" where
  "cutoff_version_index t =
     (case tk_keep_versions t of
        None \<Rightarrow> None
      | Some keep \<Rightarrow> if tk_versions t = [] then None else Some (max 0 (int (length (tk_versions t)) - keep)))"

fun version_index :: "string list \<Rightarrow> string \<Rightarrow> int result" where
  "version_index [] v = Inl (ValueError ''is not in list'')"
| "version_index (x # xs) v = (if x = v then Inr 0 else rbind (version_index xs v) (\<lambda>i. Inr (i + 1)))"

definition observe_group :: "py_lib \<Rightarrow> rollout_sample list \<Rightarrow> staleness_tracker \<Rightarrow> (bool \<times> staleness_tracker) result" where
  "observe_group lib grp t =
     (if tk_keep_versions t = None then Inr (False, t)
      else rbind (trajectory_version_infos lib grp) (\<lambda>infos.
        let versions = ordered_unique_onto (tk_versions t) (map vi_version infos)
        in Inr (length versions \<noteq> length (tk_versions t), t\<lparr>tk_versions := versions\<rparr>)))"

fun any_before :: "string list \<Rightarrow> int \<Rightarrow> version_info list \<Rightarrow> bool result" where
  "any_before versions cutoff [] = Inr False"
| "any_before versions cutoff (i # infos) =
     rbind (version_index versions (vi_version i)) (\<lambda>n. if n < cutoff then Inr True else any_before versions cutoff infos)"

definition should_drop_group :: "py_lib \<Rightarrow> rollout_sample list \<Rightarrow> staleness_tracker \<Rightarrow> bool result" where
  "should_drop_group lib grp t =
     (case cutoff_version_index t of
        None \<Rightarrow> Inr False
      | Some cutoff \<Rightarrow> rbind (trajectory_version_infos lib grp) (any_before (tk_versions t) cutoff))"

record group_filter =
  gf_tracker :: staleness_tracker
  gf_dropped_groups :: nat

fun observe_completed :: "py_lib \<Rightarrow> completed_group list \<Rightarrow> bool \<Rightarrow> group_filter \<Rightarrow> (bool \<times> group_filter) result" where
  "observe_completed lib [] advanced gf = Inr (advanced, gf)"
| "observe_completed lib (c # cs) advanced gf =
     (case cg_result c of
        None \<Rightarrow> observe_completed lib cs advanced gf
      | Some r \<Rightarrow> rbind (observe_group lib r (gf_tracker gf)) (\<lambda>(new, t).
          observe_completed lib cs (advanced \<or> new) (gf\<lparr>gf_tracker := t\<rparr>)))"

definition keep_group :: "py_lib \<Rightarrow> rollout_sample list \<Rightarrow> group_filter \<Rightarrow> (bool \<times> group_filter) result" where
  "keep_group lib grp gf =
     (if tk_keep_versions (gf_tracker gf) = None then Inr (True, gf)
      else rbind (should_drop_group lib grp (gf_tracker gf)) (\<lambda>stale.
        Inr (if \<not> stale then (True, gf) else (False, gf\<lparr>gf_dropped_groups := gf_dropped_groups gf + 1\<rparr>))))"

fun keep_pending :: "py_lib \<Rightarrow> pending_group list \<Rightarrow> group_filter \<Rightarrow> (pending_group list \<times> group_filter) result" where
  "keep_pending lib [] gf = Inr ([], gf)"
| "keep_pending lib (g # gs) gf =
     rbind (keep_group lib (pg_samples g) gf) (\<lambda>(keep, gf).
     rbind (keep_pending lib gs gf) (\<lambda>(kept, gf). Inr (if keep then g # kept else kept, gf)))"

definition filter_pending :: "py_lib \<Rightarrow> pending_group list \<Rightarrow> group_filter \<Rightarrow> (pending_group list \<times> group_filter) result" where
  "filter_pending lib groups gf =
     (if tk_keep_versions (gf_tracker gf) = None then Inr (groups, gf) else keep_pending lib groups gf)"

definition version_gaps :: "py_lib \<Rightarrow> staleness_tracker \<Rightarrow> int \<Rightarrow> rollout_sample list list \<Rightarrow> int list result" where
  "version_gaps lib t current groups =
     rbind (rmap (\<lambda>grp. rbind (trajectory_version_infos lib grp)
                    (rmap (\<lambda>info. rbind (version_index (tk_versions t) (vi_version info)) (\<lambda>n. Inr (current - n))))) groups)
       (\<lambda>gaps. Inr (concat gaps))"

definition metrics_for_groups :: "py_lib \<Rightarrow> group_filter \<Rightarrow> rollout_sample list list \<Rightarrow> (string, real) dict result" where
  "metrics_for_groups lib gf groups =
     (let t = gf_tracker gf in
      if tk_keep_versions t = None then Inr []
      else let metrics = [(''staleness/dropped_groups'', real (gf_dropped_groups gf))] in
      case current_version_index t of
        None \<Rightarrow> Inr metrics
      | Some current \<Rightarrow>
          (let metrics = metrics @ [(''staleness/current_version_index'', of_int current)];
               metrics = metrics @ (case cutoff_version_index t of None \<Rightarrow> [] | Some c \<Rightarrow> [(''staleness/cutoff_version_index'', of_int c)])
           in rbind (version_gaps lib t current groups) (\<lambda>gaps.
             Inr (if gaps = [] then metrics
                  else metrics @ [(''staleness/version_gap_min'', of_int (Min (set gaps))), (''staleness/version_gap_max'', of_int (Max (set gaps))),
                                  (''staleness/version_gap_mean'', of_int (sum_list gaps) / real (length gaps))]))))"

section \<open>Collecting a batch\<close>

record rollout_config =
  rc_target_data_size :: int
  rc_max_retries :: int
  rc_max_dropped_failed_groups :: int
  rc_allow_empty_train_batch :: bool

text \<open>The locals of \<open>generate_rollout_async\<close> and what it hands to the data buffer.\<close>

record rollout_state =
  ro_filter :: group_filter
  ro_completed_by_id :: "(int, completed_group) dict"
  ro_data :: "pending_group list"
  ro_dropped_failed_groups :: nat
  ro_buffer :: "rollout_sample list list"

definition enough :: "rollout_config \<Rightarrow> rollout_state \<Rightarrow> bool" where
  "enough cfg st \<longleftrightarrow> int (length (ro_data st)) \<ge> rc_target_data_size cfg"

definition handle_failed :: "rollout_config \<Rightarrow> completed_group \<Rightarrow> rollout_state \<Rightarrow> rollout_state result" where
  "handle_failed cfg c st =
     rbind (retry_count (cg_original_group c)) (\<lambda>n.
       if n < rc_max_retries cfg
       then rbind (increment_retry (cg_original_group c)) (\<lambda>grp. Inr (st\<lparr>ro_buffer := ro_buffer st @ [grp]\<rparr>))
       else let st = st\<lparr>ro_dropped_failed_groups := ro_dropped_failed_groups st + 1\<rparr>
            in if int (ro_dropped_failed_groups st) \<ge> rc_max_dropped_failed_groups cfg
               then Inl (RuntimeError ''dropped too many failed groups'') else Inr st)"

definition handle_completed :: "py_lib \<Rightarrow> rollout_config \<Rightarrow> int \<Rightarrow> completed_group \<Rightarrow> rollout_state \<Rightarrow> rollout_state result" where
  "handle_completed lib cfg group_id c st =
     (if is_failed c then handle_failed cfg c st
      else let grp = the (cg_result c) in
           rbind (keep_group lib grp (ro_filter st)) (\<lambda>(keep, gf).
             let st = st\<lparr>ro_filter := gf\<rparr>
             in Inr (if \<not> keep then st else st\<lparr>ro_data := ro_data st @ [\<lparr>pg_group_id = group_id, pg_samples = grp\<rparr>]\<rparr>)))"

fun consume :: "py_lib \<Rightarrow> rollout_config \<Rightarrow> int list \<Rightarrow> rollout_state \<Rightarrow> rollout_state result" where
  "consume lib cfg [] st = Inr st"
| "consume lib cfg (group_id # ids) st =
     (if enough cfg st then Inr st
      else case dget (ro_completed_by_id st) group_id of
             None \<Rightarrow> Inl (KeyError (show_int group_id))
           | Some c \<Rightarrow> rbind (handle_completed lib cfg group_id c
                                (st\<lparr>ro_completed_by_id := dpop group_id (ro_completed_by_id st)\<rparr>)) (consume lib cfg ids))"

definition refilter :: "py_lib \<Rightarrow> bool \<Rightarrow> rollout_state \<Rightarrow> rollout_state result" where
  "refilter lib advanced st =
     (if advanced \<and> ro_data st \<noteq> []
      then rbind (filter_pending lib (ro_data st) (ro_filter st)) (\<lambda>(data, gf). Inr (st\<lparr>ro_data := data, ro_filter := gf\<rparr>))
      else Inr st)"

definition store_completed :: "completed_group list \<Rightarrow> rollout_state \<Rightarrow> rollout_state" where
  "store_completed groups st =
     st\<lparr>ro_completed_by_id := fold (\<lambda>c. dset (cg_group_id c) c) groups (ro_completed_by_id st)\<rparr>"

text \<open>One round of the loop: the drained groups are observed, stored and consumed.\<close>

definition poll_round :: "py_lib \<Rightarrow> rollout_config \<Rightarrow> completed_group list \<Rightarrow> rollout_state \<Rightarrow> rollout_state result" where
  "poll_round lib cfg groups st =
     rbind (observe_completed lib groups False (ro_filter st)) (\<lambda>(advanced, gf).
     rbind (refilter lib advanced (st\<lparr>ro_filter := gf\<rparr>)) (\<lambda>st.
     let st = store_completed groups st
     in consume lib cfg (dkeys (ro_completed_by_id st)) st))"

fun collect :: "py_lib \<Rightarrow> rollout_config \<Rightarrow> completed_group list list \<Rightarrow> rollout_state \<Rightarrow> rollout_state result" where
  "collect lib cfg [] st = Inr st"
| "collect lib cfg (groups # polls) st = (if enough cfg st then Inr st else rbind (poll_round lib cfg groups st) (collect lib cfg polls))"

definition initial_state :: "staleness_tracker \<Rightarrow> rollout_state" where
  "initial_state t =
     \<lparr>ro_filter = \<lparr>gf_tracker = t, gf_dropped_groups = 0\<rparr>, ro_completed_by_id = [], ro_data = [], ro_dropped_failed_groups = 0, ro_buffer = []\<rparr>"

definition finish_batch :: "py_lib \<Rightarrow> rollout_config \<Rightarrow> rollout_state \<Rightarrow> (rollout_sample list list \<times> (string, real) dict) result" where
  "finish_batch lib cfg st =
     (let data_groups = map pg_samples (ro_data st)
      in if list_ex (\<lambda>g. g = []) data_groups then Inl (IndexError ''list index out of range'')
         else let data_groups = sort_key (\<lambda>g. rs_index (hd g)) data_groups
              in if \<not> rc_allow_empty_train_batch cfg \<and> \<not> list_ex group_has_trainable_tokens data_groups
                 then Inl (RuntimeError ''produced no trainable samples'')
                 else rbind (metrics_for_groups lib (ro_filter st) data_groups) (\<lambda>metrics. Inr (data_groups, metrics)))"

text \<open>\<open>None\<close> is a loop that waits for more completed groups.\<close>

definition generate_rollout_async :: "py_lib \<Rightarrow> rollout_config \<Rightarrow> staleness_tracker \<Rightarrow> completed_group list list \<Rightarrow>
    (rollout_sample list list \<times> (string, real) dict) option result" where
  "generate_rollout_async lib cfg t polls =
     rbind (collect lib cfg polls (initial_state t)) (\<lambda>st.
       if enough cfg st then rbind (finish_batch lib cfg st) (\<lambda>out. Inr (Some out)) else Inr None)"


section \<open>The version window\<close>

definition group_versions :: "py_lib \<Rightarrow> rollout_sample list \<Rightarrow> string list" where
  "group_versions lib grp = (case trajectory_version_infos lib grp of Inr infos \<Rightarrow> map vi_version infos | Inl _ \<Rightarrow> [])"

definition recent_versions :: "staleness_tracker \<Rightarrow> string list" where
  "recent_versions t =
     (case tk_keep_versions t of
        None \<Rightarrow> tk_versions t
      | Some k \<Rightarrow> drop (length (tk_versions t) - nat k) (tk_versions t))"

text \<open>A group whose trajectories all end in one of the last versions that were seen.\<close>

definition in_window :: "py_lib \<Rightarrow> staleness_tracker \<Rightarrow> rollout_sample list \<Rightarrow> bool" where
  "in_window lib t grp \<longleftrightarrow> tk_keep_versions t = None \<or> set (group_versions lib grp) \<subseteq> set (recent_versions t)"

definition tracker_ok :: "staleness_tracker \<Rightarrow> bool" where
  "tracker_ok t \<longleftrightarrow> distinct (tk_versions t) \<and> (\<forall>k. tk_keep_versions t = Some k \<longrightarrow> 0 < k)"

text \<open>The group's versions can be read, and the tracker has seen them.\<close>

definition readable :: "py_lib \<Rightarrow> rollout_sample list \<Rightarrow> bool" where
  "readable lib grp \<longleftrightarrow> (case trajectory_version_infos lib grp of Inr _ \<Rightarrow> True | Inl _ \<Rightarrow> False)"

definition seen :: "py_lib \<Rightarrow> staleness_tracker \<Rightarrow> rollout_sample list \<Rightarrow> bool" where
  "seen lib t grp \<longleftrightarrow> readable lib grp \<and> (tk_keep_versions t \<noteq> None \<longrightarrow> set (group_versions lib grp) \<subseteq> set (tk_versions t))"

lemma version_index_nth:
  "v \<in> set vs \<Longrightarrow> \<exists>n. version_index vs v = Inr (int n) \<and> n < length vs \<and> vs ! n = v"
proof (induction vs)
  case (Cons x vs)
  show ?case
  proof (cases "x = v")
    case False
    then obtain n where "version_index vs v = Inr (int n)" "n < length vs" "vs ! n = v" using Cons by auto
    then show ?thesis using False by (intro exI [of _ "Suc n"]) simp
  qed (intro exI [of _ 0], simp)
qed simp

lemma nth_in_drop: "distinct vs \<Longrightarrow> n < length vs \<Longrightarrow> vs ! n \<in> set (drop c vs) \<longleftrightarrow> c \<le> n"
proof
  assume "distinct vs" "n < length vs" "vs ! n \<in> set (drop c vs)"
  then obtain m where "m < length vs - c" "vs ! (c + m) = vs ! n" by (auto simp: in_set_conv_nth)
  then have "c + m = n" using \<open>distinct vs\<close> \<open>n < length vs\<close> by (simp add: nth_eq_iff_index_eq)
  then show "c \<le> n" by simp
next
  assume "distinct vs" "n < length vs" "c \<le> n"
  then show "vs ! n \<in> set (drop c vs)" by (auto simp: in_set_conv_nth intro!: exI [of _ "n - c"])
qed

lemma any_before_eq:
  assumes "distinct vs"
  shows "set (map vi_version infos) \<subseteq> set vs \<Longrightarrow>
    any_before vs (int c) infos = Inr (\<not> set (map vi_version infos) \<subseteq> set (drop c vs))"
proof (induction infos)
  case (Cons i infos)
  then obtain n where n: "version_index vs (vi_version i) = Inr (int n)" "n < length vs" "vs ! n = vi_version i"
    using version_index_nth by (metis list.set_intros(1) list.simps(9) subsetD)
  have "vi_version i \<in> set (drop c vs) \<longleftrightarrow> c \<le> n" using nth_in_drop [OF assms n(2), of c] n(3) by simp
  then show ?case using Cons n(1) by auto
qed simp

lemma keep_group_eq:
  assumes "tracker_ok (gf_tracker gf)" "seen lib (gf_tracker gf) grp"
  shows "keep_group lib grp gf = Inr (in_window lib (gf_tracker gf) grp,
    if in_window lib (gf_tracker gf) grp then gf else gf\<lparr>gf_dropped_groups := gf_dropped_groups gf + 1\<rparr>)"
proof (cases "tk_keep_versions (gf_tracker gf)")
  case (Some k)
  let ?vs = "tk_versions (gf_tracker gf)"
  obtain infos where infos: "trajectory_version_infos lib grp = Inr infos" "set (map vi_version infos) \<subseteq> set ?vs"
    "group_versions lib grp = map vi_version infos"
    using assms(2) Some by (auto simp: seen_def readable_def group_versions_def split: sum.splits)
  have k: "0 < k" "distinct ?vs" using assms(1) Some by (auto simp: tracker_ok_def)
  have "should_drop_group lib grp (gf_tracker gf) = Inr (\<not> in_window lib (gf_tracker gf) grp)"
  proof (cases "?vs = []")
    case True
    then show ?thesis using infos Some by (simp add: should_drop_group_def cutoff_version_index_def in_window_def)
  next
    case False
    have "max 0 (int (length ?vs) - k) = int (length ?vs - nat k)" using k by simp
    then show ?thesis
      using False Some infos any_before_eq [OF k(2) infos(2), of "length ?vs - nat k"]
      by (simp add: should_drop_group_def cutoff_version_index_def in_window_def recent_versions_def)
  qed
  then show ?thesis using Some by (simp add: keep_group_def)
qed (simp add: keep_group_def in_window_def)

lemma keep_pending_eq:
  assumes "tracker_ok (gf_tracker gf)" "\<forall>g\<in>set gs. seen lib (gf_tracker gf) (pg_samples g)"
  shows "keep_pending lib gs gf = Inr (filter (\<lambda>g. in_window lib (gf_tracker gf) (pg_samples g)) gs,
    gf\<lparr>gf_dropped_groups := gf_dropped_groups gf + length (filter (\<lambda>g. \<not> in_window lib (gf_tracker gf) (pg_samples g)) gs)\<rparr>)"
  using assms by (induction gs arbitrary: gf) (simp_all add: keep_group_eq)

section \<open>Observing completed groups\<close>

lemma observe_group_eq:
  assumes "readable lib grp"
  shows "\<exists>new t'. observe_group lib grp t = Inr (new, t') \<and> tk_keep_versions t' = tk_keep_versions t \<and> (\<not> new \<longrightarrow> t' = t) \<and>
    (tracker_ok t \<longrightarrow> tracker_ok t') \<and> set (tk_versions t) \<subseteq> set (tk_versions t') \<and> seen lib t' grp"
proof (cases "tk_keep_versions t")
  case None
  then show ?thesis using assms by (intro exI [of _ False] exI [of _ t]) (simp add: observe_group_def seen_def)
next
  case (Some k)
  obtain infos where infos: "trajectory_version_infos lib grp = Inr infos" using assms by (auto simp: readable_def split: sum.splits)
  let ?vs = "ordered_unique_onto (tk_versions t) (map vi_version infos)"
  have "prefix (tk_versions t) ?vs" by (rule ordered_unique_onto_prefix)
  then have "length ?vs = length (tk_versions t) \<Longrightarrow> ?vs = tk_versions t" by (auto simp: prefix_def)
  then show ?thesis
    using Some infos assms
    by (intro exI [of _ "length ?vs \<noteq> length (tk_versions t)"] exI [of _ "t\<lparr>tk_versions := ?vs\<rparr>"])
      (auto simp: observe_group_def Let_def seen_def group_versions_def set_ordered_unique_onto tracker_ok_def distinct_ordered_unique_onto)
qed

lemma seen_mono:
  "seen lib t grp \<Longrightarrow> tk_keep_versions t' = tk_keep_versions t \<Longrightarrow> set (tk_versions t) \<subseteq> set (tk_versions t') \<Longrightarrow> seen lib t' grp"
  by (auto simp: seen_def)

lemma observe_completed_eq:
  assumes "\<forall>c\<in>set cs. \<forall>r. cg_result c = Some r \<longrightarrow> readable lib r"
  shows "\<exists>new t'. observe_completed lib cs advanced gf = Inr (advanced \<or> new, gf\<lparr>gf_tracker := t'\<rparr>) \<and>
    tk_keep_versions t' = tk_keep_versions (gf_tracker gf) \<and> (\<not> new \<longrightarrow> t' = gf_tracker gf) \<and>
    (tracker_ok (gf_tracker gf) \<longrightarrow> tracker_ok t') \<and> set (tk_versions (gf_tracker gf)) \<subseteq> set (tk_versions t') \<and>
    (\<forall>c\<in>set cs. \<forall>r. cg_result c = Some r \<longrightarrow> seen lib t' r)"
  using assms
proof (induction cs arbitrary: advanced gf)
  case Nil
  then show ?case by (intro exI [of _ False] exI [of _ "gf_tracker gf"]) simp
next
  case (Cons c cs)
  show ?case
  proof (cases "cg_result c")
    case None
    then show ?thesis using Cons.IH [of advanced gf] Cons.prems by auto
  next
    case (Some r)
    then obtain n1 t1 where 1: "observe_group lib r (gf_tracker gf) = Inr (n1, t1)" "tk_keep_versions t1 = tk_keep_versions (gf_tracker gf)"
      "\<not> n1 \<longrightarrow> t1 = gf_tracker gf" "tracker_ok (gf_tracker gf) \<longrightarrow> tracker_ok t1" "set (tk_versions (gf_tracker gf)) \<subseteq> set (tk_versions t1)"
      "seen lib t1 r" using observe_group_eq [of lib r "gf_tracker gf"] Cons.prems by auto
    obtain n2 t2 where 2: "observe_completed lib cs (advanced \<or> n1) (gf\<lparr>gf_tracker := t1\<rparr>) = Inr ((advanced \<or> n1) \<or> n2, gf\<lparr>gf_tracker := t2\<rparr>)"
      "tk_keep_versions t2 = tk_keep_versions t1" "\<not> n2 \<longrightarrow> t2 = t1" "tracker_ok t1 \<longrightarrow> tracker_ok t2"
      "set (tk_versions t1) \<subseteq> set (tk_versions t2)" "\<forall>c\<in>set cs. \<forall>r. cg_result c = Some r \<longrightarrow> seen lib t2 r"
      using Cons.IH [of "advanced \<or> n1" "gf\<lparr>gf_tracker := t1\<rparr>"] Cons.prems by auto
    have "seen lib t2 r" using seen_mono [OF 1(6) 2(2,5)] .
    then show ?thesis using 1 2 Some by (intro exI [of _ "n1 \<or> n2"] exI [of _ t2]) auto
  qed
qed


section \<open>Accounting\<close>

definition accounted :: "rollout_state \<Rightarrow> nat" where
  "accounted st = length (ro_data st) + length (ro_buffer st) + ro_dropped_failed_groups st +
     gf_dropped_groups (ro_filter st) + length (ro_completed_by_id st)"

definition collected_from :: "py_lib \<Rightarrow> completed_group list \<Rightarrow> rollout_state \<Rightarrow> pending_group \<Rightarrow> bool" where
  "collected_from lib drained st g \<longleftrightarrow> in_window lib (gf_tracker (ro_filter st)) (pg_samples g) \<and>
     (\<exists>c\<in>set drained. \<not> is_failed c \<and> cg_group_id c = pg_group_id g \<and> cg_result c = Some (pg_samples g))"

definition retried_from :: "rollout_config \<Rightarrow> completed_group list \<Rightarrow> rollout_sample list \<Rightarrow> bool" where
  "retried_from cfg drained grp \<longleftrightarrow>
     (\<exists>c\<in>set drained. is_failed c \<and> (\<exists>n. retry_count (cg_original_group c) = Inr n \<and> n < rc_max_retries cfg) \<and>
       increment_retry (cg_original_group c) = Inr grp)"

definition batch_inv :: "py_lib \<Rightarrow> rollout_config \<Rightarrow> completed_group list \<Rightarrow> rollout_state \<Rightarrow> bool" where
  "batch_inv lib cfg drained st \<longleftrightarrow>
     tracker_ok (gf_tracker (ro_filter st)) \<and>
     (\<forall>c\<in>set drained. \<forall>r. cg_result c = Some r \<longrightarrow> seen lib (gf_tracker (ro_filter st)) r) \<and>
     (\<forall>g\<in>set (ro_data st). collected_from lib drained st g) \<and>
     (\<forall>grp\<in>set (ro_buffer st). retried_from cfg drained grp) \<and>
     dict_ok (ro_completed_by_id st) \<and>
     (\<forall>(k, c)\<in>set (ro_completed_by_id st). c \<in> set drained \<and> cg_group_id c = k) \<and>
     length (ro_data st) \<le> nat (rc_target_data_size cfg) \<and>
     (ro_dropped_failed_groups st \<noteq> 0 \<longrightarrow> int (ro_dropped_failed_groups st) < rc_max_dropped_failed_groups cfg)"

text \<open>Completed groups whose metadata the loop can read.\<close>

definition group_wf :: "py_lib \<Rightarrow> completed_group \<Rightarrow> bool" where
  "group_wf lib c \<longleftrightarrow> (case cg_result c of Some r \<Rightarrow> readable lib r | None \<Rightarrow> True) \<and>
     (case retry_count (cg_original_group c) of Inr _ \<Rightarrow> True | Inl _ \<Rightarrow> False) \<and>
     (case increment_retry (cg_original_group c) of Inr _ \<Rightarrow> True | Inl _ \<Rightarrow> False)"

abbreviation too_many_failures :: "rollout_state result" where
  "too_many_failures \<equiv> Inl (RuntimeError ''dropped too many failed groups'')"

lemma handle_failed_inv:
  assumes inv: "batch_inv lib cfg drained st" and c: "c \<in> set drained" "group_wf lib c" "is_failed c"
  shows "handle_failed cfg c st = too_many_failures \<or>
    (\<exists>st'. handle_failed cfg c st = Inr st' \<and> batch_inv lib cfg drained st' \<and> accounted st' = accounted st + 1 \<and>
      ro_completed_by_id st' = ro_completed_by_id st)"
proof -
  obtain n g where ng: "retry_count (cg_original_group c) = Inr n" "increment_retry (cg_original_group c) = Inr g"
    using c(2) by (auto simp: group_wf_def split: sum.splits)
  show ?thesis
  proof (cases "n < rc_max_retries cfg")
    case True
    have "retried_from cfg drained g" using c ng True by (auto simp: retried_from_def)
    then show ?thesis using inv ng True
      by (auto simp: handle_failed_def batch_inv_def accounted_def collected_from_def)
  next
    case False
    then show ?thesis using inv ng by (auto simp: handle_failed_def batch_inv_def accounted_def collected_from_def)
  qed
qed

lemma handle_completed_inv:
  assumes inv: "batch_inv lib cfg drained st" and c: "c \<in> set drained" "group_wf lib c" and room: "\<not> enough cfg st"
  shows "handle_completed lib cfg (cg_group_id c) c st = too_many_failures \<or>
    (\<exists>st'. handle_completed lib cfg (cg_group_id c) c st = Inr st' \<and> batch_inv lib cfg drained st' \<and> accounted st' = accounted st + 1 \<and>
      ro_completed_by_id st' = ro_completed_by_id st)"
proof (cases "is_failed c")
  case True
  then show ?thesis using handle_failed_inv [OF inv c True] by (simp add: handle_completed_def)
next
  case False
  then obtain r where r: "cg_result c = Some r" by (auto simp: is_failed_def split: if_splits option.splits)
  have "tracker_ok (gf_tracker (ro_filter st))" "seen lib (gf_tracker (ro_filter st)) r" using inv c r by (auto simp: batch_inv_def)
  note keep = keep_group_eq [OF this]
  show ?thesis
  proof (cases "in_window lib (gf_tracker (ro_filter st)) r")
    case True
    have "length (ro_data st) < nat (rc_target_data_size cfg)" using room by (simp add: enough_def)
    then show ?thesis using inv c r False True keep
      by (auto simp: handle_completed_def batch_inv_def accounted_def collected_from_def)
  next
    case out: False
    then show ?thesis using inv r False keep
      by (auto simp: handle_completed_def batch_inv_def accounted_def collected_from_def)
  qed
qed

lemma consume_inv:
  assumes "batch_inv lib cfg drained st" "ids = dkeys (ro_completed_by_id st)" "\<forall>c\<in>set drained. group_wf lib c"
  shows "consume lib cfg ids st = too_many_failures \<or>
    (\<exists>st'. consume lib cfg ids st = Inr st' \<and> batch_inv lib cfg drained st' \<and> accounted st' = accounted st \<and>
      (enough cfg st' \<or> ro_completed_by_id st' = []))"
  using assms
proof (induction ids arbitrary: st)
  case (Cons i ids)
  show ?case
  proof (cases "enough cfg st")
    case False
    obtain c rest where d: "ro_completed_by_id st = (i, c) # rest" "ids = dkeys rest" using Cons.prems(2) by (cases "ro_completed_by_id st") auto
    have ok: "i \<notin> fst ` set rest" using Cons.prems(1) d by (auto simp: batch_inv_def dict_ok_def)
    have pop: "dpop i (ro_completed_by_id st) = rest" using d ok by (simp add: delete_notin_dom)
    let ?st = "st\<lparr>ro_completed_by_id := rest\<rparr>"
    have c: "c \<in> set drained" "cg_group_id c = i" "group_wf lib c" using Cons.prems(1,3) d by (auto simp: batch_inv_def)
    have inv: "batch_inv lib cfg drained ?st" using Cons.prems(1) d by (auto simp: batch_inv_def collected_from_def dict_ok_def)
    have "\<not> enough cfg ?st" using False by (simp add: enough_def)
    from handle_completed_inv [OF inv c(1,3) this] c(2)
    consider "handle_completed lib cfg i c ?st = too_many_failures"
      | st' where "handle_completed lib cfg i c ?st = Inr st'" "batch_inv lib cfg drained st'" "accounted st' = accounted ?st + 1"
        "ro_completed_by_id st' = rest" by auto
    then show ?thesis
    proof cases
      case 2
      have "accounted st' = accounted st" using 2(3) d by (simp add: accounted_def)
      then show ?thesis using Cons.IH [of st'] 2 d False pop Cons.prems(3) by auto
    qed (use False d pop in simp)
  qed (use Cons.prems in auto)
qed auto


lemma retried_mono: "retried_from cfg drained grp \<Longrightarrow> retried_from cfg (drained @ groups) grp"
  unfolding retried_from_def by (metis UnI1 set_append)

lemma fold_store:
  "distinct (map cg_group_id groups) \<Longrightarrow> set (map cg_group_id groups) \<inter> fst ` set d = {} \<Longrightarrow>
    fold (\<lambda>c. dset (cg_group_id c) c) groups d = d @ map (\<lambda>c. (cg_group_id c, c)) groups"
proof (induction groups arbitrary: d)
  case (Cons c groups)
  have "dset (cg_group_id c) c d = d @ [(cg_group_id c, c)]"
    using Cons.prems(2) by (induction d) auto
  then show ?case using Cons by auto
qed simp

lemma store_inv:
  assumes inv: "batch_inv lib cfg drained st" and groups: "set groups \<subseteq> set drained" "distinct (map cg_group_id groups)"
    and fresh: "set (map cg_group_id groups) \<inter> fst ` set (ro_completed_by_id st) = {}"
  shows "batch_inv lib cfg drained (store_completed groups st)" "accounted (store_completed groups st) = accounted st + length groups"
proof -
  note eq = fold_store [OF groups(2) fresh]
  have "dict_ok (ro_completed_by_id st @ map (\<lambda>c. (cg_group_id c, c)) groups)"
    using inv groups(2) fresh by (auto simp: batch_inv_def dict_ok_def comp_def)
  then show "batch_inv lib cfg drained (store_completed groups st)"
    using inv groups(1) by (auto simp: store_completed_def eq batch_inv_def collected_from_def)
  show "accounted (store_completed groups st) = accounted st + length groups"
    by (simp add: store_completed_def eq accounted_def)
qed

text \<open>Observing a poll and filtering the pending groups again brings the window up to date.\<close>

lemma observe_refilter_inv:
  assumes inv: "batch_inv lib cfg drained st" and wf: "\<forall>c\<in>set groups. group_wf lib c"
  shows "\<exists>advanced gf st'. observe_completed lib groups False (ro_filter st) = Inr (advanced, gf) \<and>
    refilter lib advanced (st\<lparr>ro_filter := gf\<rparr>) = Inr st' \<and> batch_inv lib cfg (drained @ groups) st' \<and> accounted st' = accounted st \<and>
    ro_completed_by_id st' = ro_completed_by_id st"
proof -
  let ?gf = "ro_filter st"
  have "\<forall>c\<in>set groups. \<forall>r. cg_result c = Some r \<longrightarrow> readable lib r" using wf by (auto simp: group_wf_def)
  note observed = observe_completed_eq [OF this, of False ?gf]
  have "tracker_ok (gf_tracker ?gf)" using inv by (simp add: batch_inv_def)
  with observed obtain new t where t: "observe_completed lib groups False ?gf = Inr (new, ?gf\<lparr>gf_tracker := t\<rparr>)"
    "tk_keep_versions t = tk_keep_versions (gf_tracker ?gf)" "\<not> new \<longrightarrow> t = gf_tracker ?gf" "tracker_ok t"
    "set (tk_versions (gf_tracker ?gf)) \<subseteq> set (tk_versions t)" "\<forall>c\<in>set groups. \<forall>r. cg_result c = Some r \<longrightarrow> seen lib t r"
    by auto
  let ?st = "st\<lparr>ro_filter := ?gf\<lparr>gf_tracker := t\<rparr>\<rparr>"
  have seen: "\<forall>c\<in>set (drained @ groups). \<forall>r. cg_result c = Some r \<longrightarrow> seen lib t r"
    using inv t(2,5,6) seen_mono [of lib "gf_tracker ?gf" _ t] by (auto simp: batch_inv_def)
  have from_drained: "\<forall>g\<in>set (ro_data st). \<exists>c\<in>set drained. \<not> is_failed c \<and> cg_group_id c = pg_group_id g \<and> cg_result c = Some (pg_samples g)"
    using inv by (auto simp: batch_inv_def collected_from_def)
  then have data_seen: "\<forall>g\<in>set (ro_data st). seen lib t (pg_samples g)" using seen by fastforce
  have base: "batch_inv lib cfg (drained @ groups) (?st\<lparr>ro_data := data, ro_filter := ?gf\<lparr>gf_tracker := t, gf_dropped_groups := n\<rparr>\<rparr>)"
    if "\<forall>g\<in>set data. g \<in> set (ro_data st) \<and> in_window lib t (pg_samples g)" "length data \<le> length (ro_data st)" for data n
  proof -
    have "\<forall>grp\<in>set (ro_buffer st). retried_from cfg (drained @ groups) grp" using inv by (auto simp: batch_inv_def intro: retried_mono)
    moreover have "\<forall>(k, c)\<in>set (ro_completed_by_id st). c \<in> set (drained @ groups) \<and> cg_group_id c = k"
      using inv by (auto simp: batch_inv_def)
    moreover have "\<forall>g\<in>set data. in_window lib t (pg_samples g) \<and>
        (\<exists>c\<in>set (drained @ groups). \<not> is_failed c \<and> cg_group_id c = pg_group_id g \<and> cg_result c = Some (pg_samples g))"
      using that(1) from_drained by (metis set_append UnI1)
    moreover have "length data \<le> nat (rc_target_data_size cfg)" using inv that(2) by (simp add: batch_inv_def)
    ultimately show ?thesis using inv seen t(4) unfolding batch_inv_def collected_from_def by simp
  qed
  show ?thesis
  proof (cases "new \<and> ro_data st \<noteq> [] \<and> tk_keep_versions t \<noteq> None")
    case True
    have "refilter lib new ?st = Inr (?st\<lparr>ro_data := filter (\<lambda>g. in_window lib t (pg_samples g)) (ro_data st),
        ro_filter := ?gf\<lparr>gf_tracker := t, gf_dropped_groups := gf_dropped_groups ?gf +
          length (filter (\<lambda>g. \<not> in_window lib t (pg_samples g)) (ro_data st))\<rparr>\<rparr>)"
      using True keep_pending_eq [of "?gf\<lparr>gf_tracker := t\<rparr>" "ro_data st" lib] t(4) data_seen
      by (auto simp: refilter_def filter_pending_def)
    moreover have "length (filter (\<lambda>g. in_window lib t (pg_samples g)) (ro_data st)) +
        length (filter (\<lambda>g. \<not> in_window lib t (pg_samples g)) (ro_data st)) = length (ro_data st)"
      by (rule sum_length_filter_compl)
    ultimately show ?thesis
      using t(1) base [of "filter (\<lambda>g. in_window lib t (pg_samples g)) (ro_data st)"]
      by (simp add: accounted_def)
  next
    case False
    have same: "refilter lib new ?st = Inr ?st"
      using False by (auto simp: refilter_def filter_pending_def)
    have "\<forall>g\<in>set (ro_data st). in_window lib t (pg_samples g)"
      using False t(2,3) inv by (auto simp: batch_inv_def collected_from_def in_window_def)
    then have "batch_inv lib cfg (drained @ groups) ?st"
      using base [of "ro_data st" "gf_dropped_groups ?gf"] by simp
    then show ?thesis using t(1) same by (simp add: accounted_def)
  qed
qed

lemma poll_round_inv:
  assumes inv: "batch_inv lib cfg drained st" and wf: "\<forall>c\<in>set (drained @ groups). group_wf lib c"
    and ids: "distinct (map cg_group_id (drained @ groups))"
  shows "poll_round lib cfg groups st = too_many_failures \<or>
    (\<exists>st'. poll_round lib cfg groups st = Inr st' \<and> batch_inv lib cfg (drained @ groups) st' \<and>
      accounted st' = accounted st + length groups \<and> (enough cfg st' \<or> ro_completed_by_id st' = []))"
proof -
  obtain advanced gf st1 where 1: "observe_completed lib groups False (ro_filter st) = Inr (advanced, gf)"
    "refilter lib advanced (st\<lparr>ro_filter := gf\<rparr>) = Inr st1" "batch_inv lib cfg (drained @ groups) st1" "accounted st1 = accounted st"
    "ro_completed_by_id st1 = ro_completed_by_id st"
    using observe_refilter_inv [OF inv, of groups] wf by auto
  have "fst ` set (ro_completed_by_id st1) \<subseteq> set (map cg_group_id drained)" using inv 1(5) by (auto simp: batch_inv_def)
  then have fresh: "set (map cg_group_id groups) \<inter> fst ` set (ro_completed_by_id st1) = {}" using ids by auto
  have 2: "batch_inv lib cfg (drained @ groups) (store_completed groups st1)" "accounted (store_completed groups st1) = accounted st + length groups"
    using store_inv [OF 1(3) _ _ fresh] ids 1(4) by simp_all
  show ?thesis using consume_inv [OF 2(1) refl wf] 1(1,2) 2(2) by (simp add: poll_round_def Let_def)
qed

lemma collect_inv:
  assumes "batch_inv lib cfg drained st" "\<forall>c\<in>set (drained @ concat polls). group_wf lib c"
    and "distinct (map cg_group_id (drained @ concat polls))" "enough cfg st \<or> ro_completed_by_id st = []"
    and "accounted st = length drained"
  shows "collect lib cfg polls st = too_many_failures \<or>
    (\<exists>st' n. collect lib cfg polls st = Inr st' \<and> n \<le> length polls \<and> batch_inv lib cfg (drained @ concat (take n polls)) st' \<and>
      accounted st' = length (drained @ concat (take n polls)) \<and> (enough cfg st' \<or> n = length polls \<and> ro_completed_by_id st' = []))"
  using assms
proof (induction polls arbitrary: drained st)
  case Nil
  then show ?case by auto
next
  case (Cons groups polls)
  show ?case
  proof (cases "enough cfg st")
    case True
    then show ?thesis using Cons.prems by (auto intro!: exI [of _ 0])
  next
    case False
    have pre: "\<forall>c\<in>set (drained @ groups). group_wf lib c" "distinct (map cg_group_id (drained @ groups))" using Cons.prems(2,3) by auto
    from poll_round_inv [OF Cons.prems(1) pre]
    consider "poll_round lib cfg groups st = too_many_failures"
      | st' where "poll_round lib cfg groups st = Inr st'" "batch_inv lib cfg (drained @ groups) st'"
        "accounted st' = accounted st + length groups" "enough cfg st' \<or> ro_completed_by_id st' = []" by blast
    then show ?thesis
    proof cases
      case 2
      have "collect lib cfg polls st' = too_many_failures \<or>
        (\<exists>st'' n. collect lib cfg polls st' = Inr st'' \<and> n \<le> length polls \<and> batch_inv lib cfg ((drained @ groups) @ concat (take n polls)) st'' \<and>
          accounted st'' = length ((drained @ groups) @ concat (take n polls)) \<and> (enough cfg st'' \<or> n = length polls \<and> ro_completed_by_id st'' = []))"
        using 2 Cons.prems by (intro Cons.IH) simp_all
      then show ?thesis
      proof (elim disjE exE)
        fix st'' n
        assume a: "collect lib cfg polls st' = Inr st'' \<and> n \<le> length polls \<and> batch_inv lib cfg ((drained @ groups) @ concat (take n polls)) st'' \<and>
          accounted st'' = length ((drained @ groups) @ concat (take n polls)) \<and> (enough cfg st'' \<or> n = length polls \<and> ro_completed_by_id st'' = [])"
        show ?thesis using a 2(1) False by (intro disjI2 exI [of _ st''] exI [of _ "Suc n"]) auto
      qed (use 2 False in simp)
    qed (use False in simp)
  qed
qed

lemma initial_inv: "tracker_ok t \<Longrightarrow> batch_inv lib cfg [] (initial_state t)"
  by (simp add: batch_inv_def initial_state_def dict_ok_def)


lemma generate_rollout_async_Some:
  assumes "collect lib cfg polls (initial_state t) = Inr st" "generate_rollout_async lib cfg t polls = Inr (Some (groups, metrics))"
  shows "enough cfg st" "mset groups = mset (map pg_samples (ro_data st))" "sorted (map (\<lambda>g. rs_index (hd g)) groups)"
    "rc_allow_empty_train_batch cfg \<or> (\<exists>g\<in>set groups. group_has_trainable_tokens g)"
  using assms
  by (auto simp: generate_rollout_async_def finish_batch_def Let_def rbind_eq_Inr list_ex_iff split: if_splits)

text \<open>
  C33.  For completed groups with distinct ids and readable metadata, the fully asynchronous
  collection either stops because too many failed groups were dropped, or reaches a state in which,
  of the groups drained so far: every collected group is a successful result whose trajectories
  all end in one of the last \<open>keep_versions\<close> versions seen; every group handed back to the buffer
  is a failed one with retries left; collected, retried, dropped as failed, dropped as stale and
  left-over groups add up to the drained ones; and the batch never exceeds its target.  It waits
  only when everything that came in has been used up; in particular it never raises for an unknown
  version.  A returned batch has exactly the target size, holds the collected groups in the order
  of their sample index, and has a trainable token unless empty batches are allowed.
\<close>

theorem fully_async_batch:
  assumes "tracker_ok t" "\<forall>c\<in>set (concat polls). group_wf lib c" "distinct (map cg_group_id (concat polls))"
  shows "collect lib cfg polls (initial_state t) = too_many_failures \<or>
    (\<exists>st n. collect lib cfg polls (initial_state t) = Inr st \<and> n \<le> length polls \<and>
       (\<forall>g\<in>set (ro_data st). collected_from lib (concat (take n polls)) st g) \<and>
       (\<forall>grp\<in>set (ro_buffer st). retried_from cfg (concat (take n polls)) grp) \<and>
       length (concat (take n polls)) = length (ro_data st) + length (ro_buffer st) + ro_dropped_failed_groups st +
         gf_dropped_groups (ro_filter st) + length (ro_completed_by_id st) \<and>
       length (ro_data st) \<le> nat (rc_target_data_size cfg) \<and>
       (\<not> enough cfg st \<longrightarrow> n = length polls \<and> ro_completed_by_id st = [] \<and> generate_rollout_async lib cfg t polls = Inr None) \<and>
       (\<forall>groups metrics. generate_rollout_async lib cfg t polls = Inr (Some (groups, metrics)) \<longrightarrow>
          length groups = nat (rc_target_data_size cfg) \<and> mset groups = mset (map pg_samples (ro_data st)) \<and>
          sorted (map (\<lambda>g. rs_index (hd g)) groups) \<and>
          (rc_allow_empty_train_batch cfg \<or> (\<exists>g\<in>set groups. group_has_trainable_tokens g))))"
proof -
  have start: "accounted (initial_state t) = length []" "enough cfg (initial_state t) \<or> ro_completed_by_id (initial_state t) = []"
    by (simp_all add: accounted_def initial_state_def)
  from collect_inv [OF initial_inv [OF assms(1)], of polls] assms start
  consider "collect lib cfg polls (initial_state t) = too_many_failures"
    | st n where "collect lib cfg polls (initial_state t) = Inr st" "n \<le> length polls" "batch_inv lib cfg (concat (take n polls)) st"
      "accounted st = length (concat (take n polls))" "enough cfg st \<or> n = length polls \<and> ro_completed_by_id st = []"
    by fastforce
  then show ?thesis
  proof cases
    case 2
    have full: "length groups = nat (rc_target_data_size cfg)" if "generate_rollout_async lib cfg t polls = Inr (Some (groups, metrics))" for groups metrics
    proof -
      have "length groups = length (ro_data st)"
        using generate_rollout_async_Some(2) [OF 2(1) that] by (metis length_map size_mset)
      moreover have "length (ro_data st) \<le> nat (rc_target_data_size cfg)" using 2(3) by (simp add: batch_inv_def)
      ultimately show ?thesis using generate_rollout_async_Some(1) [OF 2(1) that] unfolding enough_def by linarith
    qed
    have waits: "generate_rollout_async lib cfg t polls = Inr None" if "\<not> enough cfg st"
      using 2(1) that by (simp add: generate_rollout_async_def)
    show ?thesis
      using 2 full waits generate_rollout_async_Some [OF 2(1)]
      by (intro disjI2 exI [of _ st] exI [of _ n]) (auto simp: batch_inv_def accounted_def)
  qed simp
qed


section \<open>A run\<close>

definition versioned_sample :: "int \<Rightarrow> string \<Rightarrow> string \<Rightarrow> rollout_sample" where
  "versioned_sample i traj version =
     \<lparr>rs_index = i, rs_status = ''COMPLETED'',
      rs_metadata = Some [(''parent_traj_id'', PStr traj), (''dressage_end_token_version'', PStr version)],
      rs_session_id = PNone, rs_remove_sample = False, rs_response_length = 2, rs_loss_mask = None\<rparr>"

definition done_group :: "int \<Rightarrow> string \<Rightarrow> completed_group" where
  "done_group i version =
     \<lparr>cg_group_id = i, cg_original_group = [versioned_sample i ''t'' version], cg_result = Some [versioned_sample i ''t'' version], cg_error = None\<rparr>"

definition one_version :: staleness_tracker where
  "one_version = \<lparr>tk_keep_versions = Some 1, tk_versions = []\<rparr>"

definition run_config :: "int \<Rightarrow> rollout_config" where
  "run_config target =
     \<lparr>rc_target_data_size = target, rc_max_retries = 2, rc_max_dropped_failed_groups = 100, rc_allow_empty_train_batch = False\<rparr>"

definition plain_lib :: py_lib where
  "plain_lib = \<lparr>json_loads = (\<lambda>_. None), json_dumps = (\<lambda>_. []), py_repr = (\<lambda>_. []), sha256_hex = (\<lambda>s. s), text_float = (\<lambda>_. None)\<rparr>"

lemma versioned_infos:
  "trajectory_version_infos plain_lib [versioned_sample i ''t'' ''1''] = Inr [\<lparr>vi_key = ''t'', vi_version = ''1''\<rparr>]"
  "trajectory_version_infos plain_lib [versioned_sample i ''t'' ''2''] = Inr [\<lparr>vi_key = ''t'', vi_version = ''2''\<rparr>]"
  by (code_simp)+


definition three_polls :: "completed_group list list" where
  "three_polls = [[done_group 1 ''1''], [done_group 2 ''2''], [done_group 3 ''2'']]"

lemma three_polls_run:
  "(case collect plain_lib (run_config 2) three_polls (initial_state one_version) of
      Inl e \<Rightarrow> None
    | Inr st \<Rightarrow> Some (map pg_group_id (ro_data st), gf_dropped_groups (ro_filter st), tk_versions (gf_tracker (ro_filter st)), length (ro_buffer st)))
   = Some ([2, 3], 1, [''1'', ''2''], 0)"
  by code_simp

lemma three_polls_wf: "list_all (group_wf plain_lib) (concat three_polls)" "distinct (map cg_group_id (concat three_polls))" "tracker_ok one_version"
  by (code_simp, code_simp) (simp add: tracker_ok_def one_version_def)

theorem fully_async_batch_witness:
  "\<exists>st. collect plain_lib (run_config 2) three_polls (initial_state one_version) = Inr st \<and>
     map pg_group_id (ro_data st) = [2, 3] \<and> gf_dropped_groups (ro_filter st) = 1 \<and> recent_versions (gf_tracker (ro_filter st)) = [''2''] \<and>
     (\<forall>g\<in>set (ro_data st). in_window plain_lib (gf_tracker (ro_filter st)) (pg_samples g))"
proof -
  obtain st where st: "collect plain_lib (run_config 2) three_polls (initial_state one_version) = Inr st" "map pg_group_id (ro_data st) = [2, 3]"
    "gf_dropped_groups (ro_filter st) = 1" "tk_versions (gf_tracker (ro_filter st)) = [''1'', ''2'']"
    using three_polls_run by (auto split: sum.splits)
  have "\<forall>c\<in>set (concat three_polls). group_wf plain_lib c" using three_polls_wf(1) by (simp only: list_all_iff)
  from fully_async_batch [OF three_polls_wf(3) this three_polls_wf(2), of "run_config 2"] st(1)
  have "\<forall>g\<in>set (ro_data st). in_window plain_lib (gf_tracker (ro_filter st)) (pg_samples g)" by (auto simp: collected_from_def)
  moreover have "tk_keep_versions (gf_tracker (ro_filter st)) = Some 1"
  proof -
    have "(case collect plain_lib (run_config 2) three_polls (initial_state one_version) of
        Inl e \<Rightarrow> None | Inr st \<Rightarrow> tk_keep_versions (gf_tracker (ro_filter st))) = Some 1" by code_simp
    then show ?thesis using st(1) by simp
  qed
  ultimately show ?thesis using st by (auto simp: recent_versions_def)
qed

text \<open>
  The groups a call has drained beyond its batch stay in the call's local dictionary: they are not
  in the batch, not handed back to the buffer, and the next call does not see them.
\<close>

lemma leftover_groups_lost:
  "\<exists>st. collect plain_lib (run_config 1) [[done_group 1 ''1'', done_group 2 ''1'']] (initial_state one_version) = Inr st \<and>
     map pg_group_id (ro_data st) = [1] \<and> dkeys (ro_completed_by_id st) = [2] \<and> ro_buffer st = [] \<and>
     generate_rollout_async plain_lib (run_config 1) (gf_tracker (ro_filter st)) [] = Inr None"
proof -
  have "(case collect plain_lib (run_config 1) [[done_group 1 ''1'', done_group 2 ''1'']] (initial_state one_version) of
      Inl e \<Rightarrow> None
    | Inr st \<Rightarrow> Some (map pg_group_id (ro_data st), dkeys (ro_completed_by_id st), length (ro_buffer st))) = Some ([1], [2], 0)" by code_simp
  then show ?thesis by (auto simp: generate_rollout_async_def initial_state_def enough_def run_config_def split: sum.splits)
qed

end
