(* ===== verification/Chat_Translation.thy ===== *)
theory Chat_Translation
  imports Messages
begin

text \<open>
  Translation between the chat protocols (\<open>blackbox_server/proxy/rollout_llm_proxy.py\<close>): an agent
  may speak the Anthropic Messages protocol or the OpenAI Responses protocol, while the recording
  proxy speaks OpenAI chat completions.  Requests are translated to chat completions, and the
  answers back.

  JSON objects are insertion-ordered dictionaries.  JSON parsing and the plain JSON printer
  (\<open>json.dumps(value, ensure_ascii=False)\<close>) are parameters.  A membership test of an unhashable
  value in a set literal raises, as in Python.

  The lemmas show that both translations of requests are append-only: a longer conversation
  translates to an extension of the translated shorter one, and that an answer which the agent
  sends back as history is translated to exactly the message the model produced.  This is what
  the session manager needs to recognise the next request as a continuation.
\<close>

record llm_lib = py_lib +
  json_text :: "pyval \<Rightarrow> string"

type_synonym jobj = "(string, pyval) dict"

section \<open>Helpers of the language\<close>

fun join :: "string \<Rightarrow> string list \<Rightarrow> string" where
  "join sep [] = []"
| "join sep [s] = s"
| "join sep (s # t # ss) = s @ sep @ join sep (t # ss)"

abbreviation newline :: string where
  "newline \<equiv> [CHR 0x0A]"

definition llm_str :: "llm_lib \<Rightarrow> pyval \<Rightarrow> string" where
  "llm_str lib v = py_str (py_repr lib) v"

text \<open>\<open>v in {...}\<close> for a set of strings.\<close>

definition in_strings :: "pyval \<Rightarrow> string list \<Rightarrow> bool result" where
  "in_strings v ss =
     (case v of
        PList _ \<Rightarrow> Inl (TypeError ''unhashable type: list'')
      | PDict _ \<Rightarrow> Inl (TypeError ''unhashable type: dict'')
      | PStr s \<Rightarrow> Inr (s \<in> set ss)
      | _ \<Rightarrow> Inr False)"

definition as_object :: "pyval \<Rightarrow> jobj" where
  "as_object v = (case v of PDict d \<Rightarrow> d | _ \<Rightarrow> [])"

section \<open>Text of contents\<close>

definition responses_part :: "llm_lib \<Rightarrow> pyval \<Rightarrow> string result" where
  "responses_part lib item =
     (case item of
        PStr s \<Rightarrow> Inr s
      | PDict d \<Rightarrow> rbind (in_strings (pget d ''type'') [''input_text'', ''output_text'', ''text'']) (\<lambda>_.
          Inr (if pget d ''text'' \<noteq> PNone then llm_str lib (pget d ''text'')
               else if pget d ''output'' \<noteq> PNone then llm_str lib (pget d ''output'') else json_text lib item))
      | _ \<Rightarrow> Inr (llm_str lib item))"

definition openai_responses_content_to_text :: "llm_lib \<Rightarrow> pyval \<Rightarrow> string result" where
  "openai_responses_content_to_text lib v =
     (case v of
        PNone \<Rightarrow> Inr []
      | PStr s \<Rightarrow> Inr s
      | PList items \<Rightarrow> rbind (rmap (responses_part lib) items) (\<lambda>parts. Inr (join newline (filter (\<lambda>p. p \<noteq> []) parts)))
      | _ \<Rightarrow> Inr (json_text lib v))"

text \<open>The first of the keys whose text is not empty.\<close>

fun first_text :: "llm_lib \<Rightarrow> jobj \<Rightarrow> string list \<Rightarrow> string result" where
  "first_text lib d [] = Inr []"
| "first_text lib d (key # ks) =
     (if \<not> dmem key d then first_text lib d ks
      else rbind (openai_responses_content_to_text lib (pget d key)) (\<lambda>text.
        if text \<noteq> [] then Inr text else first_text lib d ks))"

definition openai_chat_message_reasoning_to_text :: "llm_lib \<Rightarrow> jobj \<Rightarrow> string result" where
  "openai_chat_message_reasoning_to_text lib message = first_text lib message [''reasoning_content'', ''reasoning'']"

definition summary_part :: "llm_lib \<Rightarrow> pyval \<Rightarrow> string list result" where
  "summary_part lib part =
     (case part of
        PStr s \<Rightarrow> Inr [s]
      | PDict d \<Rightarrow>
          (let text = py_or (pget d ''text'') (py_or (pget d ''summary_text'') (pget d ''content''))
           in if text \<noteq> PNone then rbind (openai_responses_content_to_text lib text) (\<lambda>t. Inr [t]) else Inr [])
      | _ \<Rightarrow> Inr [llm_str lib part])"

definition openai_response_reasoning_to_text :: "llm_lib \<Rightarrow> jobj \<Rightarrow> string result" where
  "openai_response_reasoning_to_text lib item =
     (let rest = first_text lib item [''content'', ''text'', ''reasoning_content'', ''reasoning'']
      in case pget item ''summary'' of
           PList summary \<Rightarrow> rbind (rmap (summary_part lib) summary) (\<lambda>parts.
             let text = join newline (filter (\<lambda>p. p \<noteq> []) (concat parts))
             in if text \<noteq> [] then Inr text else rest)
         | _ \<Rightarrow> rest)"

section \<open>The Responses protocol\<close>

definition str_default :: "llm_lib \<Rightarrow> pyval \<Rightarrow> string \<Rightarrow> string" where
  "str_default lib v s = llm_str lib (py_or v (PStr s))"

definition arguments_text :: "llm_lib \<Rightarrow> pyval \<Rightarrow> string" where
  "arguments_text lib v = (case v of PStr s \<Rightarrow> s | _ \<Rightarrow> json_text lib (py_or v (PDict [])))"

definition chat_tool_call :: "string \<Rightarrow> string \<Rightarrow> string \<Rightarrow> pyval" where
  "chat_tool_call call_id name arguments =
     PDict [(''id'', PStr call_id), (''type'', PStr ''function''),
            (''function'', PDict [(''name'', PStr name), (''arguments'', PStr arguments)])]"

definition openai_response_function_call_to_chat_tool_call :: "llm_lib \<Rightarrow> jobj \<Rightarrow> pyval" where
  "openai_response_function_call_to_chat_tool_call lib item =
     chat_tool_call (str_default lib (py_or (pget item ''call_id'') (pget item ''id'')) ''call_proxy'')
       (str_default lib (pget item ''name'') ''tool'') (arguments_text lib (pget item ''arguments''))"

definition openai_response_function_call_to_chat_message :: "llm_lib \<Rightarrow> jobj \<Rightarrow> string option \<Rightarrow> jobj" where
  "openai_response_function_call_to_chat_message lib item reasoning =
     [(''role'', PStr ''assistant''), (''content'', PNone),
      (''tool_calls'', PList [openai_response_function_call_to_chat_tool_call lib item])] @
     (case reasoning of Some (c # r) \<Rightarrow> [(''reasoning_content'', PStr (c # r))] | _ \<Rightarrow> [])"

text \<open>The locals of \<open>_openai_responses_input_to_chat_messages\<close>.\<close>

record input_state =
  is_system_parts :: "string list"
  is_messages :: "jobj list"
  is_pending_assistant_index :: "nat option"
  is_pending_reasoning_content :: "string option"

definition push_message :: "jobj \<Rightarrow> input_state \<Rightarrow> input_state" where
  "push_message m st = st\<lparr>is_messages := is_messages st @ [m], is_pending_assistant_index := None, is_pending_reasoning_content := None\<rparr>"

definition input_reasoning :: "llm_lib \<Rightarrow> jobj \<Rightarrow> input_state \<Rightarrow> input_state result" where
  "input_reasoning lib item st =
     rbind (openai_response_reasoning_to_text lib item) (\<lambda>text.
       let st = st\<lparr>is_pending_assistant_index := None\<rparr>
       in Inr (if text = [] then st
               else st\<lparr>is_pending_reasoning_content :=
                 Some (case is_pending_reasoning_content st of Some (c # r) \<Rightarrow> (c # r) @ newline @ text | _ \<Rightarrow> text)\<rparr>))"

definition append_tool_call :: "pyval \<Rightarrow> jobj \<Rightarrow> jobj" where
  "append_tool_call call m =
     dset ''tool_calls'' (PList ((case pget m ''tool_calls'' of PList calls \<Rightarrow> calls | _ \<Rightarrow> []) @ [call])) m"

definition input_function_call :: "llm_lib \<Rightarrow> jobj \<Rightarrow> input_state \<Rightarrow> input_state" where
  "input_function_call lib item st =
     (case is_pending_assistant_index st of
        Some i \<Rightarrow> st\<lparr>is_messages := (is_messages st)[i := append_tool_call (openai_response_function_call_to_chat_tool_call lib item) (is_messages st ! i)]\<rparr>
      | None \<Rightarrow> st\<lparr>is_messages := is_messages st @ [openai_response_function_call_to_chat_message lib item (is_pending_reasoning_content st)],
                   is_pending_reasoning_content := None, is_pending_assistant_index := Some (length (is_messages st))\<rparr>)"

definition input_call_output :: "llm_lib \<Rightarrow> jobj \<Rightarrow> input_state \<Rightarrow> input_state result" where
  "input_call_output lib item st =
     rbind (openai_responses_content_to_text lib (pget item ''output'')) (\<lambda>text.
       Inr (push_message [(''role'', PStr ''tool''),
          (''tool_call_id'', PStr (str_default lib (py_or (pget item ''call_id'') (pget item ''id'')) ''call_proxy'')),
          (''content'', PStr text)] st))"

definition input_message :: "llm_lib \<Rightarrow> jobj \<Rightarrow> input_state \<Rightarrow> input_state result" where
  "input_message lib item st =
     (let role = lower (str_default lib (pget item ''role'') ''user'') in
      rbind (openai_responses_content_to_text lib (pget item ''content'')) (\<lambda>content.
        if role \<in> {''developer'', ''system''}
        then Inr (st\<lparr>is_pending_assistant_index := None, is_pending_reasoning_content := None,
                     is_system_parts := is_system_parts st @ (if content \<noteq> [] then [content] else [])\<rparr>)
        else
          let role = (if role \<notin> {''user'', ''assistant'', ''tool''} then ''user'' else role);
              message = [(''role'', PStr role), (''content'', PStr content)];
              message = (case is_pending_reasoning_content st of
                           Some (c # r) \<Rightarrow> if role = ''assistant'' then message @ [(''reasoning_content'', PStr (c # r))] else message
                         | _ \<Rightarrow> message)
          in Inr ((push_message message st)\<lparr>is_pending_assistant_index :=
               (if role = ''assistant'' then Some (length (is_messages st)) else None)\<rparr>)))"

definition input_item :: "llm_lib \<Rightarrow> pyval \<Rightarrow> input_state \<Rightarrow> input_state result" where
  "input_item lib item st =
     (case item of
        PStr s \<Rightarrow> Inr (push_message [(''role'', PStr ''user''), (''content'', PStr s)] st)
      | PDict d \<Rightarrow>
          (if pget d ''type'' = PStr ''reasoning'' then input_reasoning lib d st
           else if pget d ''type'' = PStr ''function_call'' then Inr (input_function_call lib d st)
           else if pget d ''type'' = PStr ''function_call_output'' then input_call_output lib d st
           else if pget d ''type'' = PStr ''message'' \<or> pget d ''role'' \<noteq> PNone then input_message lib d st
           else Inr (push_message [(''role'', PStr ''user''), (''content'', PStr (json_text lib item))] st))
      | _ \<Rightarrow> rbind (openai_responses_content_to_text lib item) (\<lambda>text.
          Inr (push_message [(''role'', PStr ''user''), (''content'', PStr text)] st)))"

fun input_items :: "llm_lib \<Rightarrow> pyval list \<Rightarrow> input_state \<Rightarrow> input_state result" where
  "input_items lib [] st = Inr st"
| "input_items lib (item # items) st = rbind (input_item lib item st) (input_items lib items)"

definition empty_input :: input_state where
  "empty_input = \<lparr>is_system_parts = [], is_messages = [], is_pending_assistant_index = None, is_pending_reasoning_content = None\<rparr>"

definition openai_responses_input_to_chat_messages :: "llm_lib \<Rightarrow> pyval \<Rightarrow> (string list \<times> jobj list) result" where
  "openai_responses_input_to_chat_messages lib v =
     (case v of
        PNone \<Rightarrow> Inr ([], [])
      | PStr s \<Rightarrow> Inr ([], [[(''role'', PStr ''user''), (''content'', PStr s)]])
      | PList items \<Rightarrow> rbind (input_items lib items empty_input) (\<lambda>st. Inr (is_system_parts st, is_messages st))
      | _ \<Rightarrow> rbind (openai_responses_content_to_text lib v) (\<lambda>text. Inr ([], [[(''role'', PStr ''user''), (''content'', PStr text)]])))"

definition object_or_empty_schema :: "pyval \<Rightarrow> pyval" where
  "object_or_empty_schema v = py_or v (PDict [(''type'', PStr ''object''), (''properties'', PDict [])])"

definition responses_tool :: "llm_lib \<Rightarrow> pyval \<Rightarrow> pyval list" where
  "responses_tool lib tool =
     (case tool of
        PDict d \<Rightarrow>
          (if pget d ''type'' \<noteq> PStr ''function'' then []
           else let raw = (case pget d ''function'' of PDict f \<Rightarrow> f | _ \<Rightarrow> d);
                    function = [(''name'', PStr (str_default lib (pget raw ''name'') ''tool'')),
                                (''description'', PStr (str_default lib (pget raw ''description'') [])),
                                (''parameters'', object_or_empty_schema (pget raw ''parameters''))];
                    function = (if dmem ''strict'' raw then dset ''strict'' (pget raw ''strict'') function else function)
                in [PDict [(''type'', PStr ''function''), (''function'', PDict function)]])
      | _ \<Rightarrow> [])"

definition openai_responses_tools_to_chat_tools :: "llm_lib \<Rightarrow> pyval \<Rightarrow> pyval list" where
  "openai_responses_tools_to_chat_tools lib v = (case v of PList tools \<Rightarrow> concat (map (responses_tool lib) tools) | _ \<Rightarrow> [])"

definition named_function_choice :: "llm_lib \<Rightarrow> pyval \<Rightarrow> pyval" where
  "named_function_choice lib name =
     PDict [(''type'', PStr ''function''), (''function'', PDict [(''name'', PStr (llm_str lib name))])]"

definition openai_responses_tool_choice_to_chat :: "llm_lib \<Rightarrow> pyval \<Rightarrow> pyval" where
  "openai_responses_tool_choice_to_chat lib v =
     (case v of
        PStr s \<Rightarrow> PStr s
      | PDict d \<Rightarrow>
          (if pget d ''type'' = PStr ''function''
           then let function = (case pget d ''function'' of PDict f \<Rightarrow> f | _ \<Rightarrow> d)
                in if truthy (pget function ''name'') then named_function_choice lib (pget function ''name'') else PNone
           else PNone)
      | _ \<Rightarrow> PNone)"

definition copy_options :: "(string \<times> string) list \<Rightarrow> jobj \<Rightarrow> jobj \<Rightarrow> jobj" where
  "copy_options options payload result =
     fold (\<lambda>(source, target) r. if dmem source payload then dset target (pget payload source) r else r) options result"

definition with_system :: "string list \<Rightarrow> jobj list \<Rightarrow> jobj list" where
  "with_system system_parts messages =
     (if system_parts = [] then messages
      else [(''role'', PStr ''system''), (''content'', PStr (join (newline @ newline) system_parts))] # messages)"

definition responses_chat_request :: "jobj \<Rightarrow> jobj list \<Rightarrow> jobj" where
  "responses_chat_request payload messages =
     [(''model'', py_or (pget payload ''model'') (PStr ''proxy-model'')), (''messages'', PList (map PDict messages)),
      (''stream'', PBool (truthy (pget payload ''stream'')))]"

definition with_tools :: "pyval list \<Rightarrow> pyval \<Rightarrow> jobj \<Rightarrow> jobj" where
  "with_tools tools tool_choice result =
     (let result = (if tools \<noteq> [] then dset ''tools'' (PList tools) result else result)
      in if tool_choice \<noteq> PNone then dset ''tool_choice'' tool_choice result else result)"

definition openai_responses_to_chat_completion :: "llm_lib \<Rightarrow> jobj \<Rightarrow> jobj result" where
  "openai_responses_to_chat_completion lib payload =
     rbind (openai_responses_content_to_text lib (pget payload ''instructions'')) (\<lambda>instructions.
     rbind (openai_responses_input_to_chat_messages lib (pget payload ''input'')) (\<lambda>(input_system_parts, messages).
       let system_parts = (if instructions \<noteq> [] then [instructions] else []) @ input_system_parts;
           result = responses_chat_request payload (with_system system_parts messages);
           result = copy_options [(''max_output_tokens'', ''max_tokens''), (''temperature'', ''temperature''), (''top_p'', ''top_p''),
                                  (''parallel_tool_calls'', ''parallel_tool_calls'')] payload result
       in Inr (with_tools (openai_responses_tools_to_chat_tools lib (pget payload ''tools''))
                 (openai_responses_tool_choice_to_chat lib (pget payload ''tool_choice'')) result)))"


section \<open>Answers in the Responses protocol\<close>

definition first_openai_choice :: "jobj \<Rightarrow> jobj" where
  "first_openai_choice payload =
     (case pget payload ''choices'' of PList (PDict c # _) \<Rightarrow> c | _ \<Rightarrow> [])"

definition choice_message :: "jobj \<Rightarrow> jobj" where
  "choice_message choice = as_object (pget choice ''message'')"

definition openai_response_message_item :: "string \<Rightarrow> string \<Rightarrow> string \<Rightarrow> pyval" where
  "openai_response_message_item text status item_id =
     PDict [(''id'', PStr item_id), (''type'', PStr ''message''), (''status'', PStr status), (''role'', PStr ''assistant''),
            (''content'', PList [PDict [(''type'', PStr ''output_text''), (''text'', PStr text)]])]"

definition openai_response_reasoning_item :: "string \<Rightarrow> string \<Rightarrow> pyval" where
  "openai_response_reasoning_item text item_id =
     PDict [(''id'', PStr item_id), (''type'', PStr ''reasoning''),
            (''summary'', PList [PDict [(''type'', PStr ''summary_text''), (''text'', PStr text)]])]"

definition openai_response_function_call_item :: "string \<Rightarrow> string \<Rightarrow> string \<Rightarrow> string \<Rightarrow> pyval" where
  "openai_response_function_call_item call_id name arguments status =
     PDict [(''type'', PStr ''function_call''), (''id'', PStr (''fc_'' @ call_id)), (''call_id'', PStr call_id), (''name'', PStr name),
            (''arguments'', PStr arguments), (''status'', PStr status)]"

definition tool_call_item :: "llm_lib \<Rightarrow> nat \<Rightarrow> pyval \<Rightarrow> pyval list" where
  "tool_call_item lib index call =
     (case call of
        PDict d \<Rightarrow>
          (let function = as_object (pget d ''function'')
           in [openai_response_function_call_item (str_default lib (pget d ''id'') (''call_proxy_'' @ show_nat index))
                 (str_default lib (pget function ''name'') ''tool'') (arguments_text lib (pget function ''arguments'')) ''completed''])
      | _ \<Rightarrow> [])"

definition openai_tool_calls_to_response_items :: "llm_lib \<Rightarrow> pyval \<Rightarrow> pyval list" where
  "openai_tool_calls_to_response_items lib v =
     (case v of PList calls \<Rightarrow> concat (map (\<lambda>(i, call). tool_call_item lib i call) (enumerate 0 calls)) | _ \<Rightarrow> [])"

definition get_default :: "jobj \<Rightarrow> string \<Rightarrow> pyval \<Rightarrow> pyval" where
  "get_default d k v = (if dmem k d then pget d k else v)"

definition token_count :: "jobj \<Rightarrow> string \<Rightarrow> string \<Rightarrow> int result" where
  "token_count d k1 k2 = py_int (py_or (get_default d k1 (get_default d k2 (PInt 0))) (PInt 0))"

definition openai_usage_to_response_usage :: "pyval \<Rightarrow> jobj result" where
  "openai_usage_to_response_usage v =
     (case v of
        PDict d \<Rightarrow>
          rbind (token_count d ''prompt_tokens'' ''input_tokens'') (\<lambda>i.
          rbind (token_count d ''completion_tokens'' ''output_tokens'') (\<lambda>n.
          rbind (py_int (py_or (get_default d ''total_tokens'' (PInt (i + n))) (PInt 0))) (\<lambda>t.
            Inr [(''input_tokens'', PInt i), (''output_tokens'', PInt n), (''total_tokens'', PInt (if t \<le> 0 then i + n else t))])))
      | _ \<Rightarrow> Inr [(''input_tokens'', PInt 0), (''output_tokens'', PInt 0), (''total_tokens'', PInt 0)])"

text \<open>The items of an answer: reasoning, then the text unless there are only calls, then the calls.\<close>

definition response_output :: "string \<Rightarrow> string \<Rightarrow> string \<Rightarrow> string \<Rightarrow> pyval list \<Rightarrow> pyval list" where
  "response_output reasoning_id message_id reasoning text calls =
     (if reasoning \<noteq> [] then [openai_response_reasoning_item reasoning reasoning_id] else []) @
     (if text \<noteq> [] \<or> calls = [] then [openai_response_message_item text ''completed'' message_id] else []) @ calls"

definition chat_completion_to_openai_response :: "llm_lib \<Rightarrow> jobj \<Rightarrow> jobj \<Rightarrow> jobj result" where
  "chat_completion_to_openai_response lib payload original_request =
     (let message = choice_message (first_openai_choice payload) in
      rbind (openai_chat_message_reasoning_to_text lib message) (\<lambda>reasoning.
      rbind (openai_responses_content_to_text lib (pget message ''content'')) (\<lambda>text.
      rbind (openai_usage_to_response_usage (pget payload ''usage'')) (\<lambda>usage.
        Inr [(''id'', PStr (str_default lib (pget payload ''id'') ''resp_proxy'')), (''object'', PStr ''response''),
             (''status'', PStr ''completed''),
             (''model'', PStr (str_default lib (py_or (pget payload ''model'') (pget original_request ''model'')) ''proxy-model'')),
             (''output'', PList (response_output ''rs_proxy'' ''msg_proxy'' reasoning text
                (openai_tool_calls_to_response_items lib (pget message ''tool_calls'')))),
             (''usage'', PDict usage)]))))"

section \<open>The Anthropic Messages protocol\<close>

definition anthropic_part :: "llm_lib \<Rightarrow> pyval \<Rightarrow> string list" where
  "anthropic_part lib item =
     (case item of
        PStr s \<Rightarrow> [s]
      | PDict d \<Rightarrow> [if pget d ''text'' \<noteq> PNone then llm_str lib (pget d ''text'') else json_text lib item]
      | _ \<Rightarrow> [])"

definition anthropic_content_to_text :: "llm_lib \<Rightarrow> pyval \<Rightarrow> string" where
  "anthropic_content_to_text lib v =
     (case v of
        PNone \<Rightarrow> []
      | PStr s \<Rightarrow> s
      | PList items \<Rightarrow> join newline (filter (\<lambda>p. p \<noteq> []) (concat (map (anthropic_part lib) items)))
      | _ \<Rightarrow> json_text lib v)"

text \<open>What the blocks of an assistant message contribute: texts, reasoning and tool calls.\<close>

record assistant_parts =
  ap_text_parts :: "string list"
  ap_reasoning_parts :: "string list"
  ap_tool_calls :: "pyval list"

definition assistant_block :: "llm_lib \<Rightarrow> pyval \<Rightarrow> assistant_parts \<Rightarrow> assistant_parts result" where
  "assistant_block lib block ps =
     (case block of
        PDict d \<Rightarrow>
          (if pget d ''type'' = PStr ''text'' \<and> pget d ''text'' \<noteq> PNone
           then Inr (ps\<lparr>ap_text_parts := ap_text_parts ps @ [llm_str lib (pget d ''text'')]\<rparr>)
           else rbind (in_strings (pget d ''type'') [''thinking'', ''redacted_thinking'']) (\<lambda>thinking.
             if thinking
             then let t = py_or (pget d ''thinking'') (py_or (pget d ''text'') (pget d ''data''))
                  in Inr (if t \<noteq> PNone then ps\<lparr>ap_reasoning_parts := ap_reasoning_parts ps @ [llm_str lib t]\<rparr> else ps)
             else if pget d ''type'' = PStr ''tool_use''
             then Inr (ps\<lparr>ap_tool_calls := ap_tool_calls ps @
               [chat_tool_call (str_default lib (pget d ''id'') ''toolu_proxy'') (str_default lib (pget d ''name'') ''tool'')
                  (arguments_text lib (pget d ''input''))]\<rparr>)
             else Inr ps))
      | _ \<Rightarrow> Inr ps)"

fun assistant_blocks :: "llm_lib \<Rightarrow> pyval list \<Rightarrow> assistant_parts \<Rightarrow> assistant_parts result" where
  "assistant_blocks lib [] ps = Inr ps"
| "assistant_blocks lib (b # bs) ps = rbind (assistant_block lib b ps) (assistant_blocks lib bs)"

definition assistant_of_parts :: "assistant_parts \<Rightarrow> jobj" where
  "assistant_of_parts ps =
     [(''role'', PStr ''assistant''),
      (''content'', if ap_text_parts ps \<noteq> [] then PStr (join newline (ap_text_parts ps)) else PNone)] @
     (if ap_reasoning_parts ps \<noteq> [] then [(''reasoning_content'', PStr (join newline (ap_reasoning_parts ps)))] else []) @
     (if ap_tool_calls ps \<noteq> [] then [(''tool_calls'', PList (ap_tool_calls ps))] else [])"

definition user_message :: "string list \<Rightarrow> jobj" where
  "user_message texts = [(''role'', PStr ''user''), (''content'', PStr (join newline texts))]"

definition user_block :: "llm_lib \<Rightarrow> pyval \<Rightarrow> jobj list \<times> string list \<Rightarrow> jobj list \<times> string list" where
  "user_block lib block st =
     (let (messages, pending) = st in
      case block of
        PDict d \<Rightarrow>
          (if pget d ''type'' = PStr ''text'' \<and> pget d ''text'' \<noteq> PNone then (messages, pending @ [llm_str lib (pget d ''text'')])
           else if pget d ''type'' = PStr ''tool_result''
           then (messages @ (if pending \<noteq> [] then [user_message pending] else []) @
                   [[(''role'', PStr ''tool''),
                     (''tool_call_id'', PStr (str_default lib (py_or (pget d ''tool_use_id'') (pget d ''id'')) ''toolu_proxy'')),
                     (''content'', PStr (anthropic_content_to_text lib (pget d ''content'')))]], [])
           else (messages, pending @ [json_text lib block]))
      | _ \<Rightarrow> (messages, pending @ [llm_str lib block]))"

definition user_blocks :: "llm_lib \<Rightarrow> pyval list \<Rightarrow> jobj list" where
  "user_blocks lib blocks =
     (let (messages, pending) = fold (user_block lib) blocks ([], [])
      in if pending \<noteq> [] \<or> messages = [] then messages @ [user_message pending] else messages)"

definition anthropic_message_to_openai_messages :: "llm_lib \<Rightarrow> jobj \<Rightarrow> jobj list result" where
  "anthropic_message_to_openai_messages lib message =
     (let role = str_default lib (pget message ''role'') ''user'' in
      case pget message ''content'' of
        PStr s \<Rightarrow> Inr [[(''role'', PStr role), (''content'', PStr s)]]
      | PList blocks \<Rightarrow>
          (if role = ''assistant''
           then rbind (assistant_blocks lib blocks \<lparr>ap_text_parts = [], ap_reasoning_parts = [], ap_tool_calls = []\<rparr>) (\<lambda>ps. Inr [assistant_of_parts ps])
           else Inr (user_blocks lib blocks))
      | v \<Rightarrow> Inr [[(''role'', PStr role), (''content'', PStr (anthropic_content_to_text lib v))]])"

text \<open>System messages go to the front, the others are translated in order.\<close>

fun anthropic_history :: "llm_lib \<Rightarrow> pyval list \<Rightarrow> (string list \<times> jobj list) result" where
  "anthropic_history lib [] = Inr ([], [])"
| "anthropic_history lib (v # vs) =
     (case v of
        PDict m \<Rightarrow>
          (if lower (str_default lib (pget m ''role'') []) = ''system''
           then let text = anthropic_content_to_text lib (pget m ''content'')
                in rbind (anthropic_history lib vs) (\<lambda>(system, messages). Inr ((if text \<noteq> [] then [text] else []) @ system, messages))
           else rbind (anthropic_message_to_openai_messages lib m) (\<lambda>translated.
                rbind (anthropic_history lib vs) (\<lambda>(system, messages). Inr (system, translated @ messages))))
      | _ \<Rightarrow> anthropic_history lib vs)"

definition anthropic_tool :: "llm_lib \<Rightarrow> pyval \<Rightarrow> pyval list" where
  "anthropic_tool lib tool =
     (case tool of
        PDict d \<Rightarrow> [PDict [(''type'', PStr ''function''),
           (''function'', PDict [(''name'', PStr (str_default lib (pget d ''name'') ''tool'')),
              (''description'', PStr (str_default lib (pget d ''description'') [])),
              (''parameters'', object_or_empty_schema (pget d ''input_schema''))])]]
      | _ \<Rightarrow> [])"

definition anthropic_tools_to_openai_tools :: "llm_lib \<Rightarrow> pyval \<Rightarrow> pyval list" where
  "anthropic_tools_to_openai_tools lib v = (case v of PList tools \<Rightarrow> concat (map (anthropic_tool lib) tools) | _ \<Rightarrow> [])"

definition anthropic_tool_choice_to_openai :: "llm_lib \<Rightarrow> pyval \<Rightarrow> pyval result" where
  "anthropic_tool_choice_to_openai lib v =
     (case v of
        PStr s \<Rightarrow> Inr (if s = ''any'' then PStr ''required'' else if s \<in> {''auto'', ''none'', ''required''} then PStr s else PNone)
      | PDict d \<Rightarrow>
          (if pget d ''type'' = PStr ''any'' then Inr (PStr ''required'')
           else rbind (in_strings (pget d ''type'') [''auto'', ''none'']) (\<lambda>plain.
             Inr (if plain then pget d ''type''
                  else if pget d ''type'' = PStr ''tool'' \<and> truthy (pget d ''name'') then named_function_choice lib (pget d ''name'')
                  else PNone)))
      | _ \<Rightarrow> Inr PNone)"

definition anthropic_messages_to_openai_chat_completion :: "llm_lib \<Rightarrow> jobj \<Rightarrow> jobj result" where
  "anthropic_messages_to_openai_chat_completion lib payload =
     (let system_text = anthropic_content_to_text lib (pget payload ''system'') in
      rbind (py_iter (py_or (pget payload ''messages'') (PList []))) (\<lambda>history.
      rbind (anthropic_history lib history) (\<lambda>(system, messages).
      rbind (anthropic_tool_choice_to_openai lib (pget payload ''tool_choice'')) (\<lambda>tool_choice.
        let system_parts = (if system_text \<noteq> [] then [system_text] else []) @ system;
            result = responses_chat_request payload (with_system system_parts messages);
            result = copy_options [(''max_tokens'', ''max_tokens''), (''temperature'', ''temperature''), (''top_p'', ''top_p''),
                                   (''metadata'', ''metadata''), (''thinking'', ''thinking''), (''stop_sequences'', ''stop'')] payload result
        in Inr (with_tools (anthropic_tools_to_openai_tools lib (pget payload ''tools'')) tool_choice result)))))"

section \<open>Answers in the Anthropic protocol\<close>

definition parsed_arguments :: "llm_lib \<Rightarrow> pyval \<Rightarrow> pyval" where
  "parsed_arguments lib raw =
     (case raw of
        PStr s \<Rightarrow> (case json_loads lib s of Some v \<Rightarrow> v | None \<Rightarrow> PDict [(''arguments'', raw)])
      | _ \<Rightarrow> raw)"

definition tool_use_block :: "llm_lib \<Rightarrow> pyval \<Rightarrow> pyval list" where
  "tool_use_block lib call =
     (case call of
        PDict d \<Rightarrow>
          (let function = as_object (pget d ''function'')
           in [PDict [(''type'', PStr ''tool_use''), (''id'', PStr (str_default lib (pget d ''id'') ''toolu_proxy'')),
                      (''name'', PStr (str_default lib (pget function ''name'') ''tool'')),
                      (''input'', PDict (as_object (parsed_arguments lib (pget function ''arguments''))))]])
      | _ \<Rightarrow> [])"

definition openai_message_to_anthropic_content :: "llm_lib \<Rightarrow> jobj \<Rightarrow> pyval list" where
  "openai_message_to_anthropic_content lib message =
     (let reasoning = py_or (pget message ''reasoning_content'') (pget message ''reasoning'');
          text = pget message ''content'';
          content =
            (if truthy reasoning then [PDict [(''type'', PStr ''thinking''), (''thinking'', PStr (llm_str lib reasoning))]] else []) @
            (if truthy text then [PDict [(''type'', PStr ''text''), (''text'', PStr (llm_str lib text))]] else []) @
            (case pget message ''tool_calls'' of PList calls \<Rightarrow> concat (map (tool_use_block lib) calls) | _ \<Rightarrow> [])
      in if content = [] then [PDict [(''type'', PStr ''text''), (''text'', PStr [])]] else content)"

definition openai_usage_to_anthropic_usage :: "pyval \<Rightarrow> jobj result" where
  "openai_usage_to_anthropic_usage v =
     (case v of
        PDict d \<Rightarrow>
          rbind (token_count d ''prompt_tokens'' ''input_tokens'') (\<lambda>i.
          rbind (token_count d ''completion_tokens'' ''output_tokens'') (\<lambda>n.
            Inr [(''input_tokens'', PInt i), (''output_tokens'', PInt n)]))
      | _ \<Rightarrow> Inr [(''input_tokens'', PInt 0), (''output_tokens'', PInt 0)])"

definition openai_finish_reason_to_anthropic :: "llm_lib \<Rightarrow> pyval \<Rightarrow> string result" where
  "openai_finish_reason_to_anthropic lib v =
     rbind (in_strings v [[]]) (\<lambda>blank.
       if v = PNone \<or> blank then Inr ''end_turn''
       else let normalized = llm_str lib v
            in Inr (if normalized = ''stop'' then ''end_turn'' else if normalized = ''length'' then ''max_tokens''
                    else if normalized = ''tool_calls'' then ''tool_use'' else normalized))"

definition openai_chat_completion_to_anthropic_message :: "llm_lib \<Rightarrow> jobj \<Rightarrow> jobj result" where
  "openai_chat_completion_to_anthropic_message lib payload =
     (let choice = first_openai_choice payload in
      rbind (openai_usage_to_anthropic_usage (pget payload ''usage'')) (\<lambda>usage.
      rbind (openai_finish_reason_to_anthropic lib (pget choice ''finish_reason'')) (\<lambda>stop_reason.
        Inr [(''id'', PStr (str_default lib (pget payload ''id'') ''msg_proxy'')), (''type'', PStr ''message''),
             (''role'', PStr ''assistant''), (''model'', PStr (str_default lib (pget payload ''model'') ''proxy-model'')),
             (''content'', PList (openai_message_to_anthropic_content lib (choice_message choice))),
             (''stop_reason'', PStr stop_reason), (''stop_sequence'', PNone), (''usage'', PDict usage)])))"


section \<open>Messages the model produces\<close>

text \<open>
  An assistant message in chat form: its text, its reasoning and its calls (identifier, name,
  arguments).  A message that has neither text nor anything else has an empty text.
\<close>

definition translated_answer :: "string \<Rightarrow> string \<Rightarrow> (string \<times> string \<times> string) list \<Rightarrow> jobj" where
  "translated_answer text reasoning calls =
     [(''role'', PStr ''assistant''), (''content'', if text = [] \<and> (reasoning \<noteq> [] \<or> calls \<noteq> []) then PNone else PStr text)] @
     (if reasoning \<noteq> [] then [(''reasoning_content'', PStr reasoning)] else []) @
     (if calls \<noteq> [] then [(''tool_calls'', PList (map (\<lambda>(i, n, a). chat_tool_call i n a) calls))] else [])"

definition named_call :: "string \<times> string \<times> string \<Rightarrow> bool" where
  "named_call call \<longleftrightarrow> fst call \<noteq> [] \<and> fst (snd call) \<noteq> []"

text \<open>The arguments are the JSON text of an object, as the printer writes it.\<close>

definition printed_arguments :: "llm_lib \<Rightarrow> string \<times> string \<times> string \<Rightarrow> bool" where
  "printed_arguments lib call \<longleftrightarrow>
     (case json_loads lib (snd (snd call)) of Some (PDict d) \<Rightarrow> json_text lib (PDict d) = snd (snd call) | _ \<Rightarrow> False)"

lemma str_of_PStr [simp]: "llm_str lib (PStr s) = s"
  by (simp add: llm_str_def)

lemma str_default_PStr [simp]: "s \<noteq> [] \<Longrightarrow> str_default lib (PStr s) t = s"
  by (simp add: str_default_def py_or_def)

lemma pget_Nil [simp]: "pget [] k = PNone"
  by (simp add: pget_def)

lemma pget_Cons [simp]: "pget ((k, v) # d) k' = (if k' = k then v else pget d k')"
  by (simp add: pget_def)

lemma pget_dset [simp]: "pget (dset k v d) k' = (if k' = k then v else pget d k')"
  by (simp add: pget_def)

lemma pget_append: "pget (d @ e) k = (if dmem k d then pget d k else pget e k)"
  by (auto simp: pget_def dmem_def map_add_def split: option.splits)

lemma dmem_simps [simp]: "\<not> dmem k []" "dmem k ((k', v) # d) \<longleftrightarrow> k = k' \<or> dmem k d"
  by (auto simp: dmem_def)

lemma assistant_message_get [simp]:
  "pget (translated_answer t r cs) ''role'' = PStr ''assistant''"
  "pget (translated_answer t r cs) ''content'' = (if t = [] \<and> (r \<noteq> [] \<or> cs \<noteq> []) then PNone else PStr t)"
  "pget (translated_answer t r cs) ''reasoning_content'' = (if r \<noteq> [] then PStr r else PNone)"
  "pget (translated_answer t r cs) ''reasoning'' = PNone"
  "pget (translated_answer t r cs) ''tool_calls'' = (if cs \<noteq> [] then PList (map (\<lambda>(i, n, a). chat_tool_call i n a) cs) else PNone)"
  by (simp_all add: translated_answer_def)

subsection \<open>Anthropic\<close>

lemma tool_use_chat_call:
  assumes "named_call c" "printed_arguments lib c"
  shows "\<exists>d. tool_use_block lib (case c of (i, n, a) \<Rightarrow> chat_tool_call i n a) =
     [PDict [(''type'', PStr ''tool_use''), (''id'', PStr (fst c)), (''name'', PStr (fst (snd c))), (''input'', PDict d)]] \<and>
     json_text lib (PDict d) = snd (snd c)"
proof -
  obtain i n a where c: "c = (i, n, a)" by (metis surj_pair)
  obtain d where d: "json_loads lib a = Some (PDict d)" "json_text lib (PDict d) = a"
    using assms(2) c by (auto simp: printed_arguments_def split: option.splits pyval.splits)
  then show ?thesis using assms(1) c
    by (intro exI [of _ d]) (simp add: tool_use_block_def chat_tool_call_def as_object_def named_call_def parsed_arguments_def)
qed

lemma assistant_blocks_append:
  "assistant_blocks lib (xs @ ys) ps = rbind (assistant_blocks lib xs ps) (assistant_blocks lib ys)"
  by (induction xs arbitrary: ps) (auto simp: rbind_def split: sum.splits)

lemma assistant_blocks_calls:
  assumes "\<forall>c\<in>set cs. named_call c \<and> printed_arguments lib c"
  shows "assistant_blocks lib (concat (map (tool_use_block lib) (map (\<lambda>(i, n, a). chat_tool_call i n a) cs))) ps =
     Inr (ps\<lparr>ap_tool_calls := ap_tool_calls ps @ map (\<lambda>(i, n, a). chat_tool_call i n a) cs\<rparr>)"
  using assms
proof (induction cs arbitrary: ps)
  case (Cons c cs)
  obtain d where d: "tool_use_block lib (case c of (i, n, a) \<Rightarrow> chat_tool_call i n a) =
     [PDict [(''type'', PStr ''tool_use''), (''id'', PStr (fst c)), (''name'', PStr (fst (snd c))), (''input'', PDict d)]]"
     "json_text lib (PDict d) = snd (snd c)" using tool_use_chat_call [of c lib] Cons.prems by auto
  have "arguments_text lib (PDict d) = snd (snd c)" using d(2) by (cases d) (simp_all add: arguments_text_def py_or_def)
  then show ?case using d(1) Cons
    by (simp add: assistant_block_def in_strings_def named_call_def case_prod_beta)
qed simp

lemma anthropic_echo_message:
  assumes "\<forall>c\<in>set cs. named_call c \<and> printed_arguments lib c"
  shows "anthropic_message_to_openai_messages lib
     [(''role'', PStr ''assistant''), (''content'', PList (openai_message_to_anthropic_content lib (translated_answer t r cs)))] =
     Inr [translated_answer t r cs]"
proof -
  have calls: "(case pget (translated_answer t r cs) ''tool_calls'' of PList calls \<Rightarrow> concat (map (tool_use_block lib) calls) | _ \<Rightarrow> []) =
      concat (map (tool_use_block lib) (map (\<lambda>(i, n, a). chat_tool_call i n a) cs))" by simp
  have nonempty: "concat (map (tool_use_block lib) (map (\<lambda>(i, n, a). chat_tool_call i n a) cs)) = [] \<longleftrightarrow> cs = []"
    by (cases cs) (auto simp: tool_use_block_def chat_tool_call_def Let_def)
  show ?thesis
    using nonempty
    by (auto simp: anthropic_message_to_openai_messages_def openai_message_to_anthropic_content_def calls py_or_def Let_def
        assistant_blocks_append assistant_blocks_calls [OF assms] assistant_block_def in_strings_def assistant_of_parts_def
        translated_answer_def simp del: map_map concat_eq_Nil_conv)
qed

lemma anthropic_history_append:
  "anthropic_history lib (xs @ ys) =
     rbind (anthropic_history lib xs) (\<lambda>(s, m). rbind (anthropic_history lib ys) (\<lambda>(s', m'). Inr (s @ s', m @ m')))"
proof (induction xs)
  case Nil
  show ?case by (cases "anthropic_history lib ys") auto
next
  case (Cons x xs)
  show ?case
  proof (cases x)
    case (PDict m)
    show ?thesis
    proof (cases "lower (str_default lib (pget m ''role'') []) = ''system''")
      case True
      then show ?thesis using PDict Cons by (auto simp: Let_def rbind_def split: sum.splits)
    next
      case False
      then show ?thesis using PDict Cons by (auto simp: rbind_def split: sum.splits)
    qed
  qed (use Cons in simp_all)
qed

definition chat_messages :: "jobj \<Rightarrow> pyval list" where
  "chat_messages request = (case pget request ''messages'' of PList ms \<Rightarrow> ms | _ \<Rightarrow> [])"

lemma chat_messages_with_tools [simp]: "chat_messages (with_tools tools choice r) = chat_messages r"
  by (simp add: chat_messages_def with_tools_def Let_def)

lemma chat_messages_copy_options:
  "''messages'' \<notin> snd ` set options \<Longrightarrow> chat_messages (copy_options options payload r) = chat_messages r"
proof (induction options arbitrary: r)
  case (Cons p options)
  then show ?case by (cases p) (auto simp: copy_options_def chat_messages_def)
qed (simp add: copy_options_def)

lemma chat_messages_request [simp]: "chat_messages (responses_chat_request payload ms) = map PDict ms"
  by (simp add: chat_messages_def responses_chat_request_def)

lemma anthropic_request_messages:
  assumes "pget p ''messages'' = PList h"
  shows "anthropic_messages_to_openai_chat_completion lib p = Inr q \<Longrightarrow>
      \<exists>s m. anthropic_history lib h = Inr (s, m) \<and>
        chat_messages q = map PDict (with_system ((if anthropic_content_to_text lib (pget p ''system'') \<noteq> []
           then [anthropic_content_to_text lib (pget p ''system'')] else []) @ s) m)"
    and "anthropic_history lib h = Inr (s, m) \<Longrightarrow> anthropic_tool_choice_to_openai lib (pget p ''tool_choice'') = Inr choice \<Longrightarrow>
      \<exists>q. anthropic_messages_to_openai_chat_completion lib p = Inr q"
proof -
  have iter: "py_iter (py_or (pget p ''messages'') (PList [])) = Inr h" using assms by (cases h) (simp_all add: py_or_def)
  show "anthropic_messages_to_openai_chat_completion lib p = Inr q \<Longrightarrow>
      \<exists>s m. anthropic_history lib h = Inr (s, m) \<and>
        chat_messages q = map PDict (with_system ((if anthropic_content_to_text lib (pget p ''system'') \<noteq> []
           then [anthropic_content_to_text lib (pget p ''system'')] else []) @ s) m)"
    using iter by (auto simp: anthropic_messages_to_openai_chat_completion_def Let_def rbind_eq_Inr chat_messages_copy_options)
  show "anthropic_history lib h = Inr (s, m) \<Longrightarrow> anthropic_tool_choice_to_openai lib (pget p ''tool_choice'') = Inr choice \<Longrightarrow>
      \<exists>q. anthropic_messages_to_openai_chat_completion lib p = Inr q"
    using iter by (auto simp: anthropic_messages_to_openai_chat_completion_def Let_def rbind_eq_Inr)
qed

lemma with_system_append: "with_system s (m @ m') = with_system s m @ m'"
  by (simp add: with_system_def)



subsection \<open>Responses\<close>

lemma input_items_append: "input_items lib (xs @ ys) st = rbind (input_items lib xs st) (input_items lib ys)"
  by (induction xs arbitrary: st) (auto simp: rbind_def split: sum.splits)

text \<open>An input that starts behind other messages is translated as on its own, further back.\<close>

definition behind :: "string list \<Rightarrow> jobj list \<Rightarrow> input_state \<Rightarrow> input_state" where
  "behind sys base st =
     st\<lparr>is_system_parts := sys @ is_system_parts st, is_messages := base @ is_messages st,
        is_pending_assistant_index := map_option (\<lambda>i. length base + i) (is_pending_assistant_index st)\<rparr>"

definition pending_ok :: "input_state \<Rightarrow> bool" where
  "pending_ok st \<longleftrightarrow> (case is_pending_assistant_index st of None \<Rightarrow> True | Some i \<Rightarrow> i < length (is_messages st))"

definition rmap_state :: "('a \<Rightarrow> 'b) \<Rightarrow> 'a result \<Rightarrow> 'b result" where
  "rmap_state f r = rbind r (\<lambda>x. Inr (f x))"

lemma rmap_state_simps [simp]: "rmap_state f (Inr x) = Inr (f x)" "rmap_state f (Inl e) = Inl e"
  by (simp_all add: rmap_state_def)

lemma rmap_state_rbind: "rmap_state f (rbind r g) = rbind r (\<lambda>x. rmap_state f (g x))"
  by (simp add: rmap_state_def rbind_def split: sum.split)

lemma push_message_behind: "push_message m (behind sys base st) = behind sys base (push_message m st)"
  by (simp add: push_message_def behind_def)

lemma input_function_call_behind:
  "pending_ok st \<Longrightarrow> input_function_call lib d (behind sys base st) = behind sys base (input_function_call lib d st)"
  by (auto simp: input_function_call_def behind_def pending_ok_def nth_append list_update_append split: option.splits)

lemma input_item_behind:
  assumes "pending_ok st"
  shows "input_item lib item (behind sys base st) = rmap_state (behind sys base) (input_item lib item st)"
proof (cases item)
  case (PDict d)
  have "input_reasoning lib d (behind sys base st) = rmap_state (behind sys base) (input_reasoning lib d st)"
    by (auto simp: input_reasoning_def rmap_state_rbind Let_def behind_def intro!: arg_cong [of _ _ "rbind _"] ext)
  moreover have "input_call_output lib d (behind sys base st) = rmap_state (behind sys base) (input_call_output lib d st)"
    by (auto simp: input_call_output_def rmap_state_rbind push_message_behind intro!: arg_cong [of _ _ "rbind _"] ext)
  moreover have "input_message lib d (behind sys base st) = rmap_state (behind sys base) (input_message lib d st)"
    by (auto simp: input_message_def rmap_state_rbind Let_def behind_def push_message_def intro!: arg_cong [of _ _ "rbind _"] ext
        split: option.splits list.splits)
  ultimately show ?thesis
    using PDict input_function_call_behind [OF assms] by (simp add: input_item_def push_message_behind)
qed (auto simp: input_item_def push_message_behind rmap_state_rbind intro!: arg_cong [of _ _ "rbind _"] ext)

lemma input_item_pending_ok:
  assumes "pending_ok st" "input_item lib item st = Inr st'"
  shows "pending_ok st'"
proof -
  have push: "pending_ok (push_message m st)" for m by (simp add: pending_ok_def push_message_def)
  show ?thesis
  proof (cases item)
    case (PDict d)
    have "pending_ok st'" if "input_reasoning lib d st = Inr st'"
      using that by (auto simp: input_reasoning_def pending_ok_def rbind_eq_Inr Let_def)
    moreover have "pending_ok (input_function_call lib d st)"
      using assms(1) by (auto simp: input_function_call_def pending_ok_def split: option.splits)
    moreover have "pending_ok st'" if "input_call_output lib d st = Inr st'"
      using that push by (auto simp: input_call_output_def rbind_eq_Inr)
    moreover have "pending_ok st'" if "input_message lib d st = Inr st'"
      using that by (auto simp: input_message_def pending_ok_def push_message_def rbind_eq_Inr Let_def split: if_splits)
    ultimately show ?thesis using assms(2) PDict push by (auto simp: input_item_def split: if_splits)
  qed (use assms(2) push in \<open>auto simp: input_item_def rbind_eq_Inr\<close>)
qed

lemma input_items_behind:
  "pending_ok st \<Longrightarrow> input_items lib items (behind sys base st) = rmap_state (behind sys base) (input_items lib items st)"
proof (induction items arbitrary: st)
  case (Cons x items)
  show ?case
  proof (cases "input_item lib x st")
    case (Inr st')
    then show ?thesis using Cons input_item_behind [OF Cons.prems, of lib x sys base] input_item_pending_ok by simp
  qed (use Cons.prems input_item_behind in simp)
qed simp


text \<open>An answer of the Responses protocol, read back as input.\<close>

definition responses_message :: "string \<Rightarrow> string \<Rightarrow> (string \<times> string \<times> string) list \<Rightarrow> jobj" where
  "responses_message text reasoning calls =
     [(''role'', PStr ''assistant''), (''content'', if text = [] \<and> calls \<noteq> [] then PNone else PStr text)] @
     (if reasoning \<noteq> [] then [(''reasoning_content'', PStr reasoning)] else []) @
     (if calls \<noteq> [] then [(''tool_calls'', PList (map (\<lambda>(i, n, a). chat_tool_call i n a) calls))] else [])"

definition call_items :: "(string \<times> string \<times> string) list \<Rightarrow> pyval list" where
  "call_items calls = map (\<lambda>(i, n, a). openai_response_function_call_item i n a ''completed'') calls"

lemma tool_calls_to_items:
  assumes "\<forall>c\<in>set calls. named_call c"
  shows "openai_tool_calls_to_response_items lib (PList (map (\<lambda>(i, n, a). chat_tool_call i n a) calls)) = call_items calls"
proof -
  have "concat (map (\<lambda>(i, call). tool_call_item lib i call) (enumerate k (map (\<lambda>(i, n, a). chat_tool_call i n a) calls))) = call_items calls" for k
    using assms
    by (induction calls arbitrary: k)
      (auto simp: call_items_def tool_call_item_def chat_tool_call_def named_call_def as_object_def arguments_text_def)
  then show ?thesis by (simp add: openai_tool_calls_to_response_items_def)
qed

lemma call_item_to_chat:
  "named_call (i, n, a) \<Longrightarrow> openai_response_function_call_item i n a s = PDict d \<Longrightarrow>
    pget d ''type'' = PStr ''function_call'' \<and> openai_response_function_call_to_chat_tool_call lib d = chat_tool_call i n a"
  by (auto simp: openai_response_function_call_item_def openai_response_function_call_to_chat_tool_call_def named_call_def
      arguments_text_def py_or_def)

lemma input_calls_pending:
  assumes "\<forall>c\<in>set calls. named_call c" "is_messages st = [m]" "is_pending_assistant_index st = Some 0"
  shows "input_items lib (call_items calls) st =
    Inr (st\<lparr>is_messages := [fold append_tool_call (map (\<lambda>(i, n, a). chat_tool_call i n a) calls) m]\<rparr>)"
  using assms
proof (induction calls arbitrary: st m)
  case (Cons c calls)
  obtain i n a where c: "c = (i, n, a)" by (metis surj_pair)
  obtain d where d: "openai_response_function_call_item i n a ''completed'' = PDict d" by (simp add: openai_response_function_call_item_def)
  note call = call_item_to_chat [OF _ d, of lib]
  have "input_item lib (PDict d) st = Inr (st\<lparr>is_messages := [append_tool_call (chat_tool_call i n a) m]\<rparr>)"
    using call Cons.prems c by (simp add: input_item_def input_function_call_def)
  then show ?case
    using Cons.IH [of "st\<lparr>is_messages := [append_tool_call (chat_tool_call i n a) m]\<rparr>" "append_tool_call (chat_tool_call i n a) m"] Cons.prems c d
    by (simp add: call_items_def)
qed (simp add: call_items_def)

lemma dget_append_calls:
  assumes "calls \<noteq> []"
  shows "dget (fold append_tool_call calls m) =
    (dget m)(''tool_calls'' \<mapsto> PList ((case pget m ''tool_calls'' of PList cs \<Rightarrow> cs | _ \<Rightarrow> []) @ calls))"
  using assms
proof (induction calls arbitrary: m)
  case (Cons c calls)
  show ?case
  proof (cases "calls = []")
    case True
    then show ?thesis by (simp add: append_tool_call_def update_conv)
  next
    case False
    then show ?thesis using Cons.IH [of "append_tool_call c m"] by (simp add: append_tool_call_def update_conv fun_eq_iff)
  qed
qed simp

definition after_answer :: "jobj \<Rightarrow> input_state" where
  "after_answer m = \<lparr>is_system_parts = [], is_messages = [m], is_pending_assistant_index = Some 0, is_pending_reasoning_content = None\<rparr>"

lemma input_reasoning_item:
  "r \<noteq> [] \<Longrightarrow> input_item lib (openai_response_reasoning_item r rid) empty_input = Inr (empty_input\<lparr>is_pending_reasoning_content := Some r\<rparr>)"
  by (simp add: openai_response_reasoning_item_def input_item_def input_reasoning_def openai_response_reasoning_to_text_def
      summary_part_def py_or_def openai_responses_content_to_text_def empty_input_def Let_def)

lemma input_message_item:
  "input_item lib (openai_response_message_item t s mid) (empty_input\<lparr>is_pending_reasoning_content := ro\<rparr>) =
     Inr (after_answer ([(''role'', PStr ''assistant''), (''content'', PStr t)] @
       (case ro of Some (c # r) \<Rightarrow> [(''reasoning_content'', PStr (c # r))] | _ \<Rightarrow> [])))"
  by (simp add: openai_response_message_item_def input_item_def input_message_def openai_responses_content_to_text_def responses_part_def
      in_strings_def lower_def lower_char_def push_message_def after_answer_def empty_input_def Let_def split: option.split list.split)

lemma input_call_item:
  assumes "named_call (i, n, a)"
  shows "input_item lib (openai_response_function_call_item i n a s) (empty_input\<lparr>is_pending_reasoning_content := ro\<rparr>) =
     Inr (after_answer ([(''role'', PStr ''assistant''), (''content'', PNone), (''tool_calls'', PList [chat_tool_call i n a])] @
       (case ro of Some (c # r) \<Rightarrow> [(''reasoning_content'', PStr (c # r))] | _ \<Rightarrow> [])))"
proof -
  obtain d where d: "openai_response_function_call_item i n a s = PDict d" by (simp add: openai_response_function_call_item_def)
  then show ?thesis
    using call_item_to_chat [OF assms d, of lib]
    by (simp add: input_item_def input_function_call_def openai_response_function_call_to_chat_message_def after_answer_def empty_input_def)
qed

lemma dget_reasoning_last:
  "dget ([(''role'', x), (''content'', y), (''tool_calls'', z)] @ (if r \<noteq> [] then [(''reasoning_content'', PStr r)] else [])) =
   dget ([(''role'', x), (''content'', y)] @ (if r \<noteq> [] then [(''reasoning_content'', PStr r)] else []) @ [(''tool_calls'', z)])"
  by (auto simp: fun_eq_iff)

lemma responses_echo_items:
  assumes "\<forall>c\<in>set calls. named_call c"
  shows "\<exists>m. input_items lib (response_output rid mid reasoning text (call_items calls)) empty_input = Inr (after_answer m) \<and>
    dget m = dget (responses_message text reasoning calls)"
proof -
  let ?ro = "if reasoning \<noteq> [] then Some reasoning else None"
  let ?tail = "(if reasoning \<noteq> [] then [(''reasoning_content'', PStr reasoning)] else [])"
  have start: "input_items lib (if reasoning \<noteq> [] then [openai_response_reasoning_item reasoning rid] else []) empty_input =
      Inr (empty_input\<lparr>is_pending_reasoning_content := ?ro\<rparr>)"
    by (simp add: input_reasoning_item) (simp add: empty_input_def)
  have ro: "(case ?ro of Some (c # r) \<Rightarrow> [(''reasoning_content'', PStr (c # r))] | _ \<Rightarrow> []) = ?tail" by (cases reasoning) auto
  show ?thesis
  proof (cases "text \<noteq> [] \<or> calls = []")
    case True
    let ?m = "[(''role'', PStr ''assistant''), (''content'', PStr text)] @ ?tail"
    have "input_items lib (call_items calls) (after_answer ?m) =
        Inr (after_answer (fold append_tool_call (map (\<lambda>(i, n, a). chat_tool_call i n a) calls) ?m))"
      using input_calls_pending [OF assms, of "after_answer ?m" ?m lib] by (simp add: after_answer_def)
    moreover have "dget (fold append_tool_call (map (\<lambda>(i, n, a). chat_tool_call i n a) calls) ?m) = dget (responses_message text reasoning calls)"
      using True by (cases "calls = []") (auto simp: dget_append_calls responses_message_def fun_eq_iff)
    ultimately show ?thesis
      using True start ro input_message_item [of lib "text" "''completed''" mid ?ro]
      by (auto simp: response_output_def input_items_append call_items_def)
  next
    case False
    then obtain c cs where cs: "calls = c # cs" by (cases calls) auto
    obtain i n a where c: "c = (i, n, a)" by (metis surj_pair)
    let ?m = "[(''role'', PStr ''assistant''), (''content'', PNone), (''tool_calls'', PList [chat_tool_call i n a])] @ ?tail"
    have "input_items lib (call_items cs) (after_answer ?m) =
        Inr (after_answer (fold append_tool_call (map (\<lambda>(i, n, a). chat_tool_call i n a) cs) ?m))"
      using input_calls_pending [of cs "after_answer ?m" ?m lib] assms cs by (simp add: after_answer_def)
    moreover have "dget (fold append_tool_call (map (\<lambda>(i, n, a). chat_tool_call i n a) cs) ?m) = dget (responses_message text reasoning calls)"
      using False cs c by (cases "cs = []") (auto simp: dget_append_calls responses_message_def fun_eq_iff)
    ultimately show ?thesis
      using False start ro input_call_item [of i n a lib "''completed''" ?ro] assms cs c
      by (auto simp: response_output_def input_items_append call_items_def)
  qed
qed


lemma responses_answer_output:
  assumes "\<forall>c\<in>set calls. named_call c"
    and "choice_message (first_openai_choice completion) = responses_message text reasoning calls"
    and "chat_completion_to_openai_response lib completion original = Inr answer"
  shows "pget answer ''output'' = PList (response_output ''rs_proxy'' ''msg_proxy'' reasoning text (call_items calls))"
proof -
  let ?m = "responses_message text reasoning calls"
  have r: "openai_chat_message_reasoning_to_text lib ?m = Inr reasoning"
    by (simp add: openai_chat_message_reasoning_to_text_def responses_message_def openai_responses_content_to_text_def)
  have t: "openai_responses_content_to_text lib (pget ?m ''content'') = Inr text"
    by (simp add: responses_message_def openai_responses_content_to_text_def)
  have c: "openai_tool_calls_to_response_items lib (pget ?m ''tool_calls'') = call_items calls"
    using tool_calls_to_items [OF assms(1), of lib]
    by (cases "calls = []") (simp_all add: responses_message_def openai_tool_calls_to_response_items_def call_items_def)
  show ?thesis
    using assms(3) r t c by (auto simp: chat_completion_to_openai_response_def assms(2) Let_def rbind_eq_Inr)
qed

definition starts_fresh :: "pyval list \<Rightarrow> bool" where
  "starts_fresh items = (case items of PDict d # _ \<Rightarrow> pget d ''type'' \<noteq> PStr ''function_call'' | _ \<Rightarrow> True)"

lemma input_item_reset:
  assumes "starts_fresh [item]"
  shows "input_item lib item st = input_item lib item (st\<lparr>is_pending_assistant_index := None\<rparr>)"
  using assms
  by (auto simp: starts_fresh_def input_item_def input_reasoning_def input_call_output_def input_message_def push_message_def Let_def
      split: pyval.split option.split intro!: arg_cong [of _ _ "rbind _"] ext)

lemma input_items_reset:
  "starts_fresh items \<Longrightarrow> items \<noteq> [] \<Longrightarrow> input_items lib items st = input_items lib items (st\<lparr>is_pending_assistant_index := None\<rparr>)"
proof (cases items)
  case (Cons x xs)
  assume "starts_fresh items"
  then have "starts_fresh [x]" using Cons by (simp add: starts_fresh_def split: pyval.splits)
  then show ?thesis using Cons input_item_reset [of x lib st] by simp
qed simp

lemma after_answer_rest:
  assumes "starts_fresh rest" "openai_responses_input_to_chat_messages lib (PList rest) = Inr ([], translated)"
  shows "\<exists>st. input_items lib rest (after_answer m) = Inr st \<and> is_system_parts st = [] \<and> is_messages st = m # translated"
proof (cases "rest = []")
  case True
  then show ?thesis using assms(2) by (simp add: openai_responses_input_to_chat_messages_def after_answer_def empty_input_def)
next
  case False
  obtain st where st: "input_items lib rest empty_input = Inr st" "is_system_parts st = []" "is_messages st = translated"
    using assms(2) by (auto simp: openai_responses_input_to_chat_messages_def rbind_eq_Inr)
  have "(after_answer m)\<lparr>is_pending_assistant_index := None\<rparr> = behind [] [m] empty_input"
    by (simp add: after_answer_def behind_def empty_input_def)
  then have "input_items lib rest (after_answer m) = rmap_state (behind [] [m]) (input_items lib rest empty_input)"
    using input_items_reset [OF assms(1) False, of lib "after_answer m"] input_items_behind [of empty_input lib rest "[]" "[m]"]
    by (simp add: pending_ok_def empty_input_def)
  then show ?thesis using st by (simp add: behind_def)
qed

lemma responses_request_messages:
  assumes "pget p ''input'' = PList items"
  shows "openai_responses_to_chat_completion lib p = Inr q \<Longrightarrow>
      \<exists>i st. openai_responses_content_to_text lib (pget p ''instructions'') = Inr i \<and> input_items lib items empty_input = Inr st \<and>
        chat_messages q = map PDict (with_system ((if i \<noteq> [] then [i] else []) @ is_system_parts st) (is_messages st))"
    and "openai_responses_content_to_text lib (pget p ''instructions'') = Inr i \<Longrightarrow> input_items lib items empty_input = Inr st \<Longrightarrow>
      \<exists>q. openai_responses_to_chat_completion lib p = Inr q"
proof -
  have inputs: "openai_responses_input_to_chat_messages lib (pget p ''input'') =
      rbind (input_items lib items empty_input) (\<lambda>st. Inr (is_system_parts st, is_messages st))"
    using assms by (simp add: openai_responses_input_to_chat_messages_def)
  show "\<exists>i st. openai_responses_content_to_text lib (pget p ''instructions'') = Inr i \<and> input_items lib items empty_input = Inr st \<and>
        chat_messages q = map PDict (with_system ((if i \<noteq> [] then [i] else []) @ is_system_parts st) (is_messages st))"
    if q: "openai_responses_to_chat_completion lib p = Inr q"
  proof -
    obtain i st where ist: "openai_responses_content_to_text lib (pget p ''instructions'') = Inr i" "input_items lib items empty_input = Inr st"
      using q unfolding openai_responses_to_chat_completion_def inputs by (auto simp: rbind_eq_Inr)
    then show ?thesis
      using q by (auto simp: openai_responses_to_chat_completion_def inputs chat_messages_copy_options)
  qed
  show "\<exists>q. openai_responses_to_chat_completion lib p = Inr q"
    if "openai_responses_content_to_text lib (pget p ''instructions'') = Inr i" "input_items lib items empty_input = Inr st"
    using that by (simp add: openai_responses_to_chat_completion_def inputs Let_def)
qed

text \<open>
  A conversation in the Responses protocol is translated append-only.  If a request whose
  input leaves no reasoning or call open translates, the model answers it with an assistant
  message whose calls have identifiers and names, the answer is translated back, and the agent
  sends the input with the output items of that answer and further items (which do not start
  with a call and hold no system message), then the next request translates as well, to the
  messages of the first one followed by the message the model produced, entry for entry, and the
  translation of the further items.
\<close>

theorem responses_append_only:
  assumes "pget p ''input'' = PList items" "openai_responses_to_chat_completion lib p = Inr q"
    and "input_items lib items empty_input = Inr st" "is_pending_assistant_index st = None" "is_pending_reasoning_content st = None"
    and "choice_message (first_openai_choice completion) = responses_message text reasoning calls"
    and "\<forall>c\<in>set calls. named_call c"
    and "chat_completion_to_openai_response lib completion p = Inr answer" "pget answer ''output'' = PList out"
    and "starts_fresh rest" "openai_responses_input_to_chat_messages lib (PList rest) = Inr ([], translated)"
  shows "\<exists>q' m. openai_responses_to_chat_completion lib (dset ''input'' (PList (items @ out @ rest)) p) = Inr q' \<and>
    chat_messages q' = chat_messages q @ [PDict m] @ map PDict translated \<and> dget m = dget (responses_message text reasoning calls)"
proof -
  let ?p' = "dset ''input'' (PList (items @ out @ rest)) p"
  have out: "out = response_output ''rs_proxy'' ''msg_proxy'' reasoning text (call_items calls)"
    using responses_answer_output [OF assms(7,6,8)] assms(9) by simp
  obtain m where m: "input_items lib out empty_input = Inr (after_answer m)" "dget m = dget (responses_message text reasoning calls)"
    using responses_echo_items [OF assms(7)] out by blast
  obtain st' where st': "input_items lib rest (after_answer m) = Inr st'" "is_system_parts st' = []" "is_messages st' = m # translated"
    using after_answer_rest [OF assms(10,11)] by blast
  have "st = behind (is_system_parts st) (is_messages st) empty_input" using assms(4,5) by (simp add: behind_def empty_input_def)
  then have "input_items lib (out @ rest) st = rmap_state (behind (is_system_parts st) (is_messages st)) (input_items lib (out @ rest) empty_input)"
    using input_items_behind [of empty_input lib "out @ rest" "is_system_parts st" "is_messages st"] by (simp add: pending_ok_def empty_input_def)
  then have all: "input_items lib (items @ out @ rest) empty_input = Inr (behind (is_system_parts st) (is_messages st) st')"
    using assms(3) m(1) st'(1) by (simp add: input_items_append)
  obtain i where i: "openai_responses_content_to_text lib (pget p ''instructions'') = Inr i"
    "chat_messages q = map PDict (with_system ((if i \<noteq> [] then [i] else []) @ is_system_parts st) (is_messages st))"
    using responses_request_messages(1) [OF assms(1,2)] assms(3) by auto
  obtain q' where q': "openai_responses_to_chat_completion lib ?p' = Inr q'"
    using responses_request_messages(2) [OF _ _ all, of ?p' i] i(1) by auto
  have "chat_messages q' = map PDict (with_system ((if i \<noteq> [] then [i] else []) @ is_system_parts st) (is_messages st @ m # translated))"
    using responses_request_messages(1) [OF _ q', of "items @ out @ rest"] all i(1) st' by (auto simp: behind_def)
  then show ?thesis using q' i(2) m(2) with_system_append [of _ "is_messages st" "m # translated"] by auto
qed


section \<open>A conversation\<close>

definition sample_llm_lib :: llm_lib where
  "sample_llm_lib = \<lparr>json_loads = (\<lambda>s. if s = ''{}'' then Some (PDict []) else None), json_dumps = (\<lambda>_. ''{}''), py_repr = (\<lambda>_. []),
     sha256_hex = (\<lambda>s. s), text_float = (\<lambda>_. None), json_text = (\<lambda>_. ''{}'')\<rparr>"

definition sample_answer :: jobj where
  "sample_answer = translated_answer ''ok'' ''hm'' [(''c1'', ''ls'', ''{}'')]"

definition sample_completion :: jobj where
  "sample_completion = [(''choices'', PList [PDict [(''message'', PDict sample_answer), (''finish_reason'', PStr ''tool_calls'')]])]"

definition sample_anthropic :: jobj where
  "sample_anthropic = [(''system'', PStr ''be brief''), (''messages'', PList [PDict [(''role'', PStr ''user''), (''content'', PStr ''hi'')]])]"

definition sample_tool_result :: "pyval list" where
  "sample_tool_result = [PDict [(''role'', PStr ''user''),
     (''content'', PList [PDict [(''type'', PStr ''tool_result''), (''tool_use_id'', PStr ''c1''), (''content'', PStr ''a.txt'')]])]]"

lemma sample_calls: "named_call (''c1'', ''ls'', ''{}'')" "printed_arguments sample_llm_lib (''c1'', ''ls'', ''{}'')"
  by (simp_all add: named_call_def printed_arguments_def sample_llm_lib_def)


definition sample_responses :: jobj where
  "sample_responses = [(''instructions'', PStr ''be brief''), (''input'', PList [PDict [(''role'', PStr ''user''), (''content'', PStr ''hi'')]])]"

definition sample_responses_completion :: jobj where
  "sample_responses_completion = [(''choices'', PList [PDict [(''message'', PDict (responses_message [] ''hm'' [(''c1'', ''ls'', ''{}'')]))]])]"

definition sample_call_output :: "pyval list" where
  "sample_call_output = [PDict [(''type'', PStr ''function_call_output''), (''call_id'', PStr ''c1''), (''output'', PStr ''a.txt'')]]"

theorem responses_append_only_witness:
  "\<exists>q q' m answer out. openai_responses_to_chat_completion sample_llm_lib sample_responses = Inr q \<and>
     chat_completion_to_openai_response sample_llm_lib sample_responses_completion sample_responses = Inr answer \<and>
     pget answer ''output'' = PList out \<and>
     openai_responses_to_chat_completion sample_llm_lib
       (dset ''input'' (PList ([PDict [(''role'', PStr ''user''), (''content'', PStr ''hi'')]] @ out @ sample_call_output)) sample_responses) = Inr q' \<and>
     chat_messages q' = chat_messages q @ [PDict m] @
       [PDict [(''role'', PStr ''tool''), (''tool_call_id'', PStr ''c1''), (''content'', PStr ''a.txt'')]] \<and>
     dget m = dget (responses_message [] ''hm'' [(''c1'', ''ls'', ''{}'')])"
proof -
  have h: "pget sample_responses ''input'' = PList [PDict [(''role'', PStr ''user''), (''content'', PStr ''hi'')]]"
    by (simp add: sample_responses_def)
  have st: "input_items sample_llm_lib [PDict [(''role'', PStr ''user''), (''content'', PStr ''hi'')]] empty_input =
      Inr (push_message [(''role'', PStr ''user''), (''content'', PStr ''hi'')] empty_input)"
    by (simp add: input_item_def input_message_def openai_responses_content_to_text_def lower_def lower_char_def push_message_def empty_input_def)
  obtain q where q: "openai_responses_to_chat_completion sample_llm_lib sample_responses = Inr q"
    using st by (simp add: openai_responses_to_chat_completion_def openai_responses_input_to_chat_messages_def h)
      (simp add: sample_responses_def openai_responses_content_to_text_def)
  have message: "choice_message (first_openai_choice sample_responses_completion) = responses_message [] ''hm'' [(''c1'', ''ls'', ''{}'')]"
    by (simp add: choice_message_def first_openai_choice_def sample_responses_completion_def as_object_def)
  obtain answer where answer: "chat_completion_to_openai_response sample_llm_lib sample_responses_completion sample_responses = Inr answer"
  proof -
    have "pget sample_responses_completion ''usage'' = PNone" by (simp add: sample_responses_completion_def)
    then show thesis
      using that by (simp add: chat_completion_to_openai_response_def message Let_def openai_usage_to_response_usage_def)
        (simp add: openai_chat_message_reasoning_to_text_def responses_message_def openai_responses_content_to_text_def)
  qed
  have calls: "\<forall>c\<in>set [(''c1'', ''ls'', ''{}'')]. named_call c" by (simp add: named_call_def)
  have rest: "starts_fresh sample_call_output" "openai_responses_input_to_chat_messages sample_llm_lib (PList sample_call_output) =
      Inr ([], [[(''role'', PStr ''tool''), (''tool_call_id'', PStr ''c1''), (''content'', PStr ''a.txt'')]])"
    by (simp add: starts_fresh_def sample_call_output_def) code_simp
  show ?thesis
    using responses_append_only [OF h q st _ _ message calls answer responses_answer_output [OF calls message answer] rest]
      q answer responses_answer_output [OF calls message answer] by (simp add: push_message_def empty_input_def)
qed

end
