(* ===== verification/Stream_Translation.thy ===== *)
theory Stream_Translation
  imports Chat_Translation
begin

text \<open>
  Streamed answers (\<open>blackbox_server/proxy/rollout_llm_proxy.py\<close>): the framing of server-sent
  events, the Anthropic event stream built from the chunks of a chat completion, and the event
  stream of the Responses protocol.

  Bytes are characters; the decoding of an event is a parameter.  A generator is the list of the
  events it yields together with the exception that ends it, if any.

  The lemmas show that the payloads do not depend on how the bytes are cut into chunks; that the
  Anthropic stream of an answer whose tool calls are streamed one after the other is a well-formed
  sequence of content blocks which hold exactly the streamed text, reasoning and arguments, and that
  interleaved tool calls break the stream; and that the Responses stream ends in the items of
  the plain translation.
\<close>

section \<open>Framing\<close>

definition ascii_space :: "char \<Rightarrow> bool" where
  "ascii_space c \<longleftrightarrow> c \<in> {CHR '' '', CHR 0x09, CHR 0x0A, CHR 0x0B, CHR 0x0C, CHR 0x0D}"

definition is_line_break :: "char \<Rightarrow> bool" where
  "is_line_break c \<longleftrightarrow> c \<in> {CHR 0x0A, CHR 0x0B, CHR 0x0C, CHR 0x0D, CHR 0x1C, CHR 0x1D, CHR 0x1E, CHR 0x85}"

text \<open>\<open>str.splitlines()\<close>.\<close>

fun split_lines :: "string \<Rightarrow> string \<Rightarrow> string list" where
  "split_lines cur [] = (if cur = [] then [] else [rev cur])"
| "split_lines cur (c # s) =
     (if c = CHR 0x0D \<and> s \<noteq> [] \<and> hd s = CHR 0x0A then rev cur # split_lines [] (tl s)
      else if is_line_break c then rev cur # split_lines [] s
      else split_lines (c # cur) s)"

definition data_line :: "string \<Rightarrow> string list" where
  "data_line line = (if startswith line ''data:'' then [strip (drop 5 line)] else [])"

definition payloads_from_sse_event :: "string \<Rightarrow> string list" where
  "payloads_from_sse_event raw_event =
     (let data_lines = concat (map data_line (split_lines [] raw_event))
      in if data_lines \<noteq> [] then [join newline data_lines] else [])"

text \<open>\<open>buffer.find(b"\n\n")\<close>: the first event and what follows its separator.\<close>

fun split_event :: "string \<Rightarrow> (string \<times> string) option" where
  "split_event [] = None"
| "split_event (c # s) =
     (if c = CHR 0x0A \<and> s \<noteq> [] \<and> hd s = CHR 0x0A then Some ([], tl s)
      else map_option (\<lambda>(e, rest). (c # e, rest)) (split_event s))"

lemma split_event_shorter: "split_event b = Some (e, rest) \<Longrightarrow> length rest < length b"
  by (induction b arbitrary: e) (auto split: if_splits)

function drain_events :: "string \<Rightarrow> string list \<times> string" where
  "drain_events buffer =
     (case split_event buffer of
        None \<Rightarrow> ([], buffer)
      | Some (e, rest) \<Rightarrow> (let (es, last_part) = drain_events rest in (e # es, last_part)))"
  by pat_completeness auto

termination
  by (relation "measure length") (auto dest: split_event_shorter)

declare drain_events.simps [simp del]

fun chunk_events :: "string list \<Rightarrow> string \<Rightarrow> string list \<times> string" where
  "chunk_events [] buffer = ([], buffer)"
| "chunk_events (chunk # chunks) buffer =
     (let (es, rest) = drain_events (buffer @ chunk); (es', last_part) = chunk_events chunks rest in (es @ es', last_part))"

definition iter_openai_sse_payloads :: "(string \<Rightarrow> string) \<Rightarrow> string \<Rightarrow> string list \<Rightarrow> string list" where
  "iter_openai_sse_payloads decode first_bytes chunks =
     (let (es, rest) = drain_events first_bytes; (es', last_part) = chunk_events chunks rest
      in concat (map (\<lambda>e. payloads_from_sse_event (decode e)) (es @ es')) @
         (if strip_by ascii_space last_part \<noteq> [] then payloads_from_sse_event (decode last_part) else []))"

lemma split_event_append: "split_event a = Some (e, rest) \<Longrightarrow> split_event (a @ b) = Some (e, rest @ b)"
proof (induction a arbitrary: e)
  case (Cons c a)
  then have "a \<noteq> []" by (cases a) (auto split: if_splits)
  then show ?case using Cons by (auto split: if_splits)
qed simp

lemma drain_events_append:
  "drain_events (a @ b) = (let (es, rest) = drain_events a; (es', last_part) = drain_events (rest @ b) in (es @ es', last_part))"
proof (induction a rule: drain_events.induct)
  case (1 a)
  show ?case
  proof (cases "split_event a")
    case None
    then have "drain_events a = ([], a)" by (simp add: drain_events.simps [of a])
    then show ?thesis by simp
  next
    case (Some p)
    obtain e rest where p: "p = (e, rest)" by fastforce
    have "drain_events (a @ b) = (let (es, last_part) = drain_events (rest @ b) in (e # es, last_part))"
      using split_event_append [of a e rest b] Some p by (simp add: drain_events.simps [of "a @ b"])
    moreover have "drain_events a = (let (es, last_part) = drain_events rest in (e # es, last_part))"
      using Some p by (simp add: drain_events.simps [of a])
    ultimately show ?thesis using 1 [OF Some p [symmetric]] p Some by (simp add: case_prod_beta Let_def)
  qed
qed

lemma drain_events_rest: "drain_events (snd (drain_events a)) = ([], snd (drain_events a))"
proof (induction a rule: drain_events.induct)
  case (1 a)
  show ?case
  proof (cases "split_event a")
    case None
    then show ?thesis by (simp add: drain_events.simps)
  next
    case (Some p)
    obtain e rest where p: "p = (e, rest)" by fastforce
    have "snd (drain_events a) = snd (drain_events rest)" using Some p by (simp add: drain_events.simps [of a] case_prod_beta Let_def)
    then show ?thesis using 1 [OF Some p [symmetric]] p Some by simp
  qed
qed

lemma chunk_events_concat:
  "drain_events buffer = ([], buffer) \<Longrightarrow> chunk_events chunks buffer = drain_events (buffer @ concat chunks)"
proof (induction chunks arbitrary: buffer)
  case (Cons chunk chunks)
  have "drain_events (buffer @ concat (chunk # chunks)) =
      (let (es, rest) = drain_events (buffer @ chunk); (es', last_part) = drain_events (rest @ concat chunks) in (es @ es', last_part))"
    using drain_events_append [of "buffer @ chunk" "concat chunks"] by simp
  then show ?case using Cons.IH [OF drain_events_rest, of "buffer @ chunk"] by (simp add: case_prod_beta Let_def)
qed simp

lemma sse_payloads_concat:
  "iter_openai_sse_payloads decode first_bytes chunks =
     (let (es, last_part) = drain_events (first_bytes @ concat chunks)
      in concat (map (\<lambda>e. payloads_from_sse_event (decode e)) es) @
         (if strip_by ascii_space last_part \<noteq> [] then payloads_from_sse_event (decode last_part) else []))"
proof -
  have "chunk_events chunks (snd (drain_events first_bytes)) = drain_events (snd (drain_events first_bytes) @ concat chunks)"
    by (rule chunk_events_concat [OF drain_events_rest])
  then show ?thesis
    using drain_events_append [of first_bytes "concat chunks"] by (simp add: iter_openai_sse_payloads_def case_prod_beta Let_def)
qed

text \<open>
  C19.  The payloads of an event stream are those of all its bytes together: they do not depend on
  where the network cuts the stream into chunks, not even inside a separator.
\<close>

theorem sse_chunking_irrelevant:
  "iter_openai_sse_payloads decode first_bytes chunks = iter_openai_sse_payloads decode (first_bytes @ concat chunks) []"
  by (simp add: sse_payloads_concat)


section \<open>The Anthropic event stream\<close>

datatype block = TextBlock | ThinkingBlock | ToolUseBlock string string

datatype block_delta = TextDelta string | ThinkingDelta string | InputJsonDelta string

datatype anthropic_event =
    MessageStart string
  | BlockStart nat block
  | BlockDelta nat block_delta
  | BlockStop nat
  | MessageDelta string int
  | MessageStop

fun block_payload :: "block \<Rightarrow> jobj" where
  "block_payload TextBlock = [(''type'', PStr ''text''), (''text'', PStr [])]"
| "block_payload ThinkingBlock = [(''type'', PStr ''thinking''), (''thinking'', PStr [])]"
| "block_payload (ToolUseBlock i n) = [(''type'', PStr ''tool_use''), (''id'', PStr i), (''name'', PStr n), (''input'', PDict [])]"

fun delta_payload :: "block_delta \<Rightarrow> jobj" where
  "delta_payload (TextDelta s) = [(''type'', PStr ''text_delta''), (''text'', PStr s)]"
| "delta_payload (ThinkingDelta s) = [(''type'', PStr ''thinking_delta''), (''thinking'', PStr s)]"
| "delta_payload (InputJsonDelta s) = [(''type'', PStr ''input_json_delta''), (''partial_json'', PStr s)]"

text \<open>The name and the payload of an event, and its bytes.\<close>

fun event_payload :: "anthropic_event \<Rightarrow> string \<times> jobj" where
  "event_payload (MessageStart model) = (''message_start'', [(''type'', PStr ''message_start''), (''message'',
      PDict [(''id'', PStr ''msg_proxy_stream''), (''type'', PStr ''message''), (''role'', PStr ''assistant''), (''model'', PStr model),
             (''content'', PList []), (''stop_reason'', PNone), (''stop_sequence'', PNone),
             (''usage'', PDict [(''input_tokens'', PInt 0), (''output_tokens'', PInt 0)])])])"
| "event_payload (BlockStart i b) = (''content_block_start'',
     [(''type'', PStr ''content_block_start''), (''index'', PInt (int i)), (''content_block'', PDict (block_payload b))])"
| "event_payload (BlockDelta i d) = (''content_block_delta'',
     [(''type'', PStr ''content_block_delta''), (''index'', PInt (int i)), (''delta'', PDict (delta_payload d))])"
| "event_payload (BlockStop i) = (''content_block_stop'', [(''type'', PStr ''content_block_stop''), (''index'', PInt (int i))])"
| "event_payload (MessageDelta reason n) = (''message_delta'', [(''type'', PStr ''message_delta''),
     (''delta'', PDict [(''stop_reason'', PStr reason), (''stop_sequence'', PNone)]), (''usage'', PDict [(''output_tokens'', PInt n)])])"
| "event_payload MessageStop = (''message_stop'', [(''type'', PStr ''message_stop'')])"

definition sse_frame :: "llm_lib \<Rightarrow> string \<Rightarrow> jobj \<Rightarrow> string" where
  "sse_frame lib event payload = ''event: '' @ event @ newline @ ''data: '' @ json_text lib (PDict payload) @ newline @ newline"

definition anthropic_sse :: "llm_lib \<Rightarrow> anthropic_event \<Rightarrow> string" where
  "anthropic_sse lib e = (let (event, payload) = event_payload e in sse_frame lib event payload)"

text \<open>The active block is of type text, of type thinking, or the call with an index.\<close>

datatype block_type = TextType | ThinkingType | CallType int

record anthropic_stream_state =
  as_model :: string
  as_active_block_type :: "block_type option"
  as_active_block_index :: "nat option"
  as_next_index :: nat
  as_finished :: bool
  as_tool_call_blocks :: "(int, nat) dict"

definition new_stream :: anthropic_stream_state where
  "new_stream = \<lparr>as_model = ''proxy-model'', as_active_block_type = None, as_active_block_index = None, as_next_index = 0,
     as_finished = False, as_tool_call_blocks = []\<rparr>"

definition stop_active_block :: "anthropic_stream_state \<Rightarrow> anthropic_event list \<times> anthropic_stream_state" where
  "stop_active_block st =
     (case as_active_block_index st of
        None \<Rightarrow> ([], st)
      | Some i \<Rightarrow> ([BlockStop i], st\<lparr>as_active_block_type := None, as_active_block_index := None\<rparr>))"

definition start_block :: "block_type \<Rightarrow> block \<Rightarrow> anthropic_stream_state \<Rightarrow> anthropic_event list \<times> anthropic_stream_state" where
  "start_block bt b st =
     (let (es, st) = stop_active_block st; index = as_next_index st
      in (es @ [BlockStart index b],
          st\<lparr>as_next_index := index + 1, as_active_block_type := Some bt, as_active_block_index := Some index\<rparr>))"

definition emit_text_like_block :: "block_type \<Rightarrow> block \<Rightarrow> block_delta \<Rightarrow> anthropic_stream_state \<Rightarrow>
    anthropic_event list \<times> anthropic_stream_state" where
  "emit_text_like_block bt b d st =
     (let (es, st) = (if as_active_block_type st \<noteq> Some bt then start_block bt b st else ([], st))
      in (es @ [BlockDelta (the (as_active_block_index st)) d], st))"

text \<open>The pieces of a chunk that produce events.\<close>

datatype stream_piece = Reasoning string | Content string | CallPiece int string string string

definition emit_tool_call_delta :: "int \<Rightarrow> string \<Rightarrow> string \<Rightarrow> string \<Rightarrow> anthropic_stream_state \<Rightarrow>
    anthropic_event list \<times> anthropic_stream_state" where
  "emit_tool_call_delta tool_index call_id name partial_json st =
     (let (es, st) =
        (if \<not> dmem tool_index (as_tool_call_blocks st)
         then let (es, st') = start_block (CallType tool_index) (ToolUseBlock call_id name) st
              in (es, st'\<lparr>as_tool_call_blocks := dset tool_index (as_next_index st) (as_tool_call_blocks st')\<rparr>)
         else ([], st))
      in (es @ (if partial_json \<noteq> [] then [BlockDelta (the (dget (as_tool_call_blocks st) tool_index)) (InputJsonDelta partial_json)] else []), st))"

fun emit_piece :: "stream_piece \<Rightarrow> anthropic_stream_state \<Rightarrow> anthropic_event list \<times> anthropic_stream_state" where
  "emit_piece (Reasoning s) st = emit_text_like_block ThinkingType ThinkingBlock (ThinkingDelta s) st"
| "emit_piece (Content s) st = emit_text_like_block TextType TextBlock (TextDelta s) st"
| "emit_piece (CallPiece k i n a) st = emit_tool_call_delta k i n a st"

fun emit_pieces :: "stream_piece list \<Rightarrow> anthropic_stream_state \<Rightarrow> anthropic_event list \<times> anthropic_stream_state" where
  "emit_pieces [] st = ([], st)"
| "emit_pieces (p # ps) st = (let (es, st) = emit_piece p st; (es', st) = emit_pieces ps st in (es @ es', st))"

definition finish_stream :: "string \<Rightarrow> int \<Rightarrow> anthropic_stream_state \<Rightarrow> anthropic_event list \<times> anthropic_stream_state" where
  "finish_stream stop_reason output_tokens st =
     (if as_finished st then ([], st)
      else let (es, st) = stop_active_block st
           in (es @ [MessageDelta stop_reason output_tokens, MessageStop], st\<lparr>as_finished := True\<rparr>))"

definition call_piece :: "llm_lib \<Rightarrow> jobj \<Rightarrow> stream_piece result" where
  "call_piece lib call =
     rbind (py_int (py_or (get_default call ''index'' (PInt 0)) (PInt 0))) (\<lambda>k.
       let function = as_object (pget call ''function'')
       in Inr (CallPiece k (str_default lib (pget call ''id'') (''toolu_'' @ show_int k)) (str_default lib (pget function ''name'') ''tool'')
            (if truthy (pget function ''arguments'') then llm_str lib (pget function ''arguments'') else [])))"

text \<open>The pieces up to the first tool call whose index is not an integer, and the exception it raises.\<close>

fun call_pieces :: "llm_lib \<Rightarrow> pyval list \<Rightarrow> stream_piece list \<times> exn option" where
  "call_pieces lib [] = ([], None)"
| "call_pieces lib (v # vs) =
     (case v of
        PDict call \<Rightarrow> (case call_piece lib call of
                        Inl e \<Rightarrow> ([], Some e)
                      | Inr p \<Rightarrow> (let (ps, e) = call_pieces lib vs in (p # ps, e)))
      | _ \<Rightarrow> call_pieces lib vs)"

definition delta_pieces :: "llm_lib \<Rightarrow> jobj \<Rightarrow> stream_piece list \<times> exn option" where
  "delta_pieces lib delta =
     (let reasoning = py_or (pget delta ''reasoning_content'') (pget delta ''reasoning'');
          content = pget delta ''content'';
          (calls, e) = (case pget delta ''tool_calls'' of PList vs \<Rightarrow> call_pieces lib vs | _ \<Rightarrow> ([], None))
      in ((if truthy reasoning then [Reasoning (llm_str lib reasoning)] else []) @
          (if truthy content then [Content (llm_str lib content)] else []) @ calls, e))"

fun anthropic_loop :: "llm_lib \<Rightarrow> string list \<Rightarrow> anthropic_stream_state \<Rightarrow> anthropic_event list \<times> exn option" where
  "anthropic_loop lib [] st = (fst (finish_stream ''end_turn'' 0 st), None)"
| "anthropic_loop lib (payload # payloads) st =
     (if payload = ''[DONE]'' then (fst (finish_stream ''end_turn'' 0 st), None)
      else case json_loads lib payload of
        Some (PDict chunk) \<Rightarrow>
          (let st = (if truthy (pget chunk ''model'') then st\<lparr>as_model := llm_str lib (pget chunk ''model'')\<rparr> else st);
               choice = first_openai_choice chunk;
               (pieces, err) = delta_pieces lib (as_object (pget choice ''delta''))
           in case openai_usage_to_anthropic_usage (pget chunk ''usage'') of
                Inl e \<Rightarrow> ([], Some e)
              | Inr usage \<Rightarrow>
                  (let (es, st) = emit_pieces pieces st in
                   case err of
                     Some e \<Rightarrow> (es, Some e)
                   | None \<Rightarrow>
                       (if pget choice ''finish_reason'' = PNone
                        then let (es', e) = anthropic_loop lib payloads st in (es @ es', e)
                        else case openai_finish_reason_to_anthropic lib (pget choice ''finish_reason'') of
                               Inl e \<Rightarrow> (es, Some e)
                             | Inr reason \<Rightarrow>
                                 (es @ fst (finish_stream reason (case pget usage ''output_tokens'' of PInt n \<Rightarrow> n | _ \<Rightarrow> 0) st), None))))
      | _ \<Rightarrow> anthropic_loop lib payloads st)"

definition iter_anthropic_events_from_openai_stream :: "llm_lib \<Rightarrow> string list \<Rightarrow> anthropic_event list \<times> exn option" where
  "iter_anthropic_events_from_openai_stream lib payloads =
     (let (es, e) = anthropic_loop lib payloads (new_stream\<lparr>as_model := ''proxy-model''\<rparr>) in (MessageStart ''proxy-model'' # es, e))"


section \<open>Reading an Anthropic stream\<close>

text \<open>
  The protocol from the side of the agent: blocks are numbered from zero, come one after the other,
  and a delta belongs to the block that is open.  Reading gives the finished blocks and the open one.
\<close>

fun delta_text :: "block \<Rightarrow> block_delta \<Rightarrow> string option" where
  "delta_text TextBlock (TextDelta s) = Some s"
| "delta_text ThinkingBlock (ThinkingDelta s) = Some s"
| "delta_text (ToolUseBlock i n) (InputJsonDelta s) = Some s"
| "delta_text _ _ = None"

type_synonym reader = "(block \<times> string) list \<times> (block \<times> string) option"

fun read_event :: "anthropic_event \<Rightarrow> reader \<Rightarrow> reader option" where
  "read_event (BlockStart i b) (finished, None) = (if i = length finished then Some (finished, Some (b, [])) else None)"
| "read_event (BlockDelta i d) (finished, Some (b, t)) =
     (case delta_text b d of Some s \<Rightarrow> if i = length finished then Some (finished, Some (b, t @ s)) else None | None \<Rightarrow> None)"
| "read_event (BlockStop i) (finished, Some x) = (if i = length finished then Some (finished @ [x], None) else None)"
| "read_event _ _ = None"

fun read_events :: "anthropic_event list \<Rightarrow> reader \<Rightarrow> reader option" where
  "read_events [] r = Some r"
| "read_events (e # es) r = Option.bind (read_event e r) (read_events es)"

lemma read_events_append: "read_events (es @ es') r = Option.bind (read_events es r) (read_events es')"
  by (induction es arbitrary: r) (auto split: Option.bind_splits)

fun piece_type :: "stream_piece \<Rightarrow> block_type" where
  "piece_type (Reasoning s) = ThinkingType"
| "piece_type (Content s) = TextType"
| "piece_type (CallPiece k i n a) = CallType k"

fun piece_text :: "stream_piece \<Rightarrow> string" where
  "piece_text (Reasoning s) = s"
| "piece_text (Content s) = s"
| "piece_text (CallPiece k i n a) = a"

fun piece_block :: "stream_piece \<Rightarrow> block" where
  "piece_block (Reasoning s) = ThinkingBlock"
| "piece_block (Content s) = TextBlock"
| "piece_block (CallPiece k i n a) = ToolUseBlock i n"

fun is_tool :: "block \<Rightarrow> bool" where
  "is_tool (ToolUseBlock i n) = True"
| "is_tool _ = False"

definition typed_text :: "block_type \<Rightarrow> stream_piece list \<Rightarrow> string" where
  "typed_text bt ps = concat (map piece_text (filter (\<lambda>p. piece_type p = bt) ps))"

definition call_indices :: "stream_piece list \<Rightarrow> int list" where
  "call_indices ps = concat (map (\<lambda>p. case piece_type p of CallType k \<Rightarrow> [k] | _ \<Rightarrow> []) ps)"

definition call_order :: "stream_piece list \<Rightarrow> int list" where
  "call_order ps = ordered_unique_onto [] (call_indices ps)"

definition call_block :: "int \<Rightarrow> stream_piece list \<Rightarrow> block" where
  "call_block k ps = (case find (\<lambda>p. piece_type p = CallType k) ps of Some p \<Rightarrow> piece_block p | None \<Rightarrow> TextBlock)"

text \<open>Between two pieces of a tool call there are only pieces of that call.\<close>

definition calls_contiguous :: "stream_piece list \<Rightarrow> bool" where
  "calls_contiguous ps \<longleftrightarrow>
     (\<forall>i j l k. i < j \<and> j < l \<and> l < length ps \<and> piece_type (ps ! i) = CallType k \<and> piece_type (ps ! l) = CallType k \<longrightarrow>
        piece_type (ps ! j) = CallType k)"

lemma calls_contiguous_prefix: "calls_contiguous (ps @ qs) \<Longrightarrow> calls_contiguous ps"
  unfolding calls_contiguous_def
proof (intro allI impI)
  fix i j l k
  assume contiguous: "\<forall>i j l k. i < j \<and> j < l \<and> l < length (ps @ qs) \<and> piece_type ((ps @ qs) ! i) = CallType k \<and>
      piece_type ((ps @ qs) ! l) = CallType k \<longrightarrow> piece_type ((ps @ qs) ! j) = CallType k"
    and "i < j \<and> j < l \<and> l < length ps \<and> piece_type (ps ! i) = CallType k \<and> piece_type (ps ! l) = CallType k"
  then show "piece_type (ps ! j) = CallType k"
    using contiguous [rule_format, of i j l k] by (simp add: nth_append)
qed

lemma calls_contiguous_last:
  assumes "calls_contiguous (ps @ [p])" "piece_type p = CallType k" "CallType k \<in> piece_type ` set ps"
  shows "ps \<noteq> [] \<and> piece_type (last ps) = CallType k"
proof -
  obtain i where i: "i < length ps" "piece_type (ps ! i) = CallType k" using assms(3) by (auto simp: in_set_conv_nth)
  then have ne: "ps \<noteq> []" by auto
  have "piece_type (last ps) = CallType k"
  proof (cases "i = length ps - 1")
    case True
    then show ?thesis using i ne by (simp add: last_conv_nth)
  next
    case False
    then have "i < length ps - 1" "length ps - 1 < length ps" using i by auto
    then have "piece_type ((ps @ [p]) ! (length ps - 1)) = CallType k"
      using assms(1,2) i unfolding calls_contiguous_def by (metis length_append_singleton lessI nth_append nth_append_length)
    then show ?thesis using ne by (simp add: nth_append last_conv_nth)
  qed
  then show ?thesis using ne by blast
qed

lemma emit_pieces_append:
  "emit_pieces (ps @ qs) st = (let (es, st) = emit_pieces ps st; (es', st) = emit_pieces qs st in (es @ es', st))"
  by (induction ps arbitrary: st) (auto simp: case_prod_beta Let_def)

lemma ordered_unique_onto_append: "ordered_unique_onto acc (xs @ ys) = ordered_unique_onto (ordered_unique_onto acc xs) ys"
  by (induction xs arbitrary: acc) auto

lemma set_call_indices: "k \<in> set (call_indices ps) \<longleftrightarrow> CallType k \<in> piece_type ` set ps"
  by (force simp: call_indices_def split: block_type.splits)

lemma call_order_snoc:
  "call_order (ps @ [p]) = (case piece_type p of CallType k \<Rightarrow> if CallType k \<in> piece_type ` set ps then call_order ps else call_order ps @ [k] | _ \<Rightarrow> call_order ps)"
proof -
  have "set (call_order ps) = set (call_indices ps)" by (simp add: call_order_def set_ordered_unique_onto)
  then show ?thesis
    by (auto simp: call_order_def call_indices_def ordered_unique_onto_append set_call_indices [unfolded call_indices_def] split: block_type.splits)
qed

lemma set_call_order: "k \<in> set (call_order ps) \<longleftrightarrow> CallType k \<in> piece_type ` set ps"
  by (simp add: call_order_def set_ordered_unique_onto set_call_indices)

lemma find_None_piece: "find (\<lambda>p. piece_type p = bt) ps = None \<longleftrightarrow> bt \<notin> piece_type ` set ps"
  by (auto simp: find_None_iff image_iff)

lemma find_append: "find P (xs @ ys) = (case find P xs of Some x \<Rightarrow> Some x | None \<Rightarrow> find P ys)"
  by (induction xs) auto

lemma call_block_snoc:
  "call_block k (ps @ [p]) = (if CallType k \<in> piece_type ` set ps then call_block k ps else if piece_type p = CallType k then piece_block p else TextBlock)"
  using find_None_piece [of "CallType k" ps] by (auto simp: call_block_def find_append split: option.splits)

lemma typed_text_snoc: "typed_text bt (ps @ [p]) = typed_text bt ps @ (if piece_type p = bt then piece_text p else [])"
  by (simp add: typed_text_def)

lemma typed_text_absent: "bt \<notin> piece_type ` set ps \<Longrightarrow> typed_text bt ps = []"
  by (auto simp: typed_text_def filter_empty_conv)


fun piece_deltas :: "stream_piece \<Rightarrow> nat \<Rightarrow> anthropic_event list" where
  "piece_deltas (Reasoning s) i = [BlockDelta i (ThinkingDelta s)]"
| "piece_deltas (Content s) i = [BlockDelta i (TextDelta s)]"
| "piece_deltas (CallPiece k c n a) i = (if a \<noteq> [] then [BlockDelta i (InputJsonDelta a)] else [])"

fun note_call :: "stream_piece \<Rightarrow> nat \<Rightarrow> (int, nat) dict \<Rightarrow> (int, nat) dict" where
  "note_call (CallPiece k c n a) i d = dset k i d"
| "note_call _ i d = d"

lemma stop_active_block_simps [simp]:
  "as_next_index (snd (stop_active_block st)) = as_next_index st"
  "as_tool_call_blocks (snd (stop_active_block st)) = as_tool_call_blocks st"
  by (simp_all add: stop_active_block_def split: option.split)

lemma emit_piece_new:
  assumes "as_active_block_type st \<noteq> Some (piece_type p)" "\<And>k. piece_type p = CallType k \<Longrightarrow> \<not> dmem k (as_tool_call_blocks st)"
  shows "emit_piece p st =
    (fst (stop_active_block st) @ BlockStart (as_next_index st) (piece_block p) # piece_deltas p (as_next_index st),
     (snd (stop_active_block st))\<lparr>as_next_index := as_next_index st + 1, as_active_block_type := Some (piece_type p),
       as_active_block_index := Some (as_next_index st), as_tool_call_blocks := note_call p (as_next_index st) (as_tool_call_blocks st)\<rparr>)"
  using assms
  by (cases p) (simp_all add: emit_text_like_block_def emit_tool_call_delta_def start_block_def case_prod_beta Let_def)

lemma emit_piece_same:
  assumes "as_active_block_type st = Some (piece_type p)" "as_active_block_index st = Some i"
    and "\<And>k. piece_type p = CallType k \<Longrightarrow> dget (as_tool_call_blocks st) k = Some i"
  shows "emit_piece p st = (piece_deltas p i, st)"
  using assms
  by (cases p) (simp_all add: emit_text_like_block_def emit_tool_call_delta_def dmem_def)

definition all_blocks :: "reader \<Rightarrow> (block \<times> string) list" where
  "all_blocks r = fst r @ (case snd r of None \<Rightarrow> [] | Some x \<Rightarrow> [x])"

definition block_text :: "block \<Rightarrow> (block \<times> string) list \<Rightarrow> string" where
  "block_text b blocks = concat (map snd (filter (\<lambda>x. fst x = b) blocks))"

definition tool_blocks :: "(block \<times> string) list \<Rightarrow> (block \<times> string) list" where
  "tool_blocks blocks = filter (\<lambda>x. is_tool (fst x)) blocks"

text \<open>What the blocks hold of the pieces.\<close>

definition blocks_hold :: "stream_piece list \<Rightarrow> (block \<times> string) list \<Rightarrow> bool" where
  "blocks_hold ps blocks \<longleftrightarrow>
     block_text TextBlock blocks = typed_text TextType ps \<and> block_text ThinkingBlock blocks = typed_text ThinkingType ps \<and>
     tool_blocks blocks = map (\<lambda>k. (call_block k ps, typed_text (CallType k) ps)) (call_order ps)"

definition open_block :: "stream_piece list \<Rightarrow> block" where
  "open_block ps = (case piece_type (last ps) of TextType \<Rightarrow> TextBlock | ThinkingType \<Rightarrow> ThinkingBlock | CallType k \<Rightarrow> call_block k ps)"

definition stream_inv :: "stream_piece list \<Rightarrow> anthropic_stream_state \<Rightarrow> reader \<Rightarrow> bool" where
  "stream_inv ps st r \<longleftrightarrow>
     as_active_block_type st = (if ps = [] then None else Some (piece_type (last ps))) \<and>
     as_active_block_index st = (if ps = [] then None else Some (length (fst r))) \<and>
     as_next_index st = length (all_blocks r) \<and> \<not> as_finished st \<and> (snd r = None \<longleftrightarrow> ps = []) \<and>
     (\<forall>k. dmem k (as_tool_call_blocks st) \<longleftrightarrow> CallType k \<in> piece_type ` set ps) \<and>
     (\<forall>k. ps \<noteq> [] \<and> piece_type (last ps) = CallType k \<longrightarrow>
        dget (as_tool_call_blocks st) k = Some (length (fst r)) \<and> call_order ps \<noteq> [] \<and> last (call_order ps) = k) \<and>
     (ps \<noteq> [] \<longrightarrow> fst (the (snd r)) = open_block ps) \<and> blocks_hold ps (all_blocks r)"

lemma is_tool_call_block: "CallType k \<in> piece_type ` set ps \<Longrightarrow> is_tool (call_block k ps)"
proof -
  assume "CallType k \<in> piece_type ` set ps"
  then obtain p where p: "find (\<lambda>p. piece_type p = CallType k) ps = Some p" using find_None_piece [of "CallType k" ps] by auto
  then have "piece_type p = CallType k" by (auto simp: find_Some_iff)
  then show ?thesis using p by (cases p) (simp_all add: call_block_def)
qed

lemma read_piece_deltas:
  assumes "piece_type p = TextType \<longrightarrow> b = TextBlock" "piece_type p = ThinkingType \<longrightarrow> b = ThinkingBlock"
    "\<forall>k. piece_type p = CallType k \<longrightarrow> is_tool b"
  shows "read_events (piece_deltas p (length finished)) (finished, Some (b, t)) = Some (finished, Some (b, t @ piece_text p))"
proof (cases p)
  case (CallPiece k c n a)
  then have "is_tool b" using assms by simp
  then obtain i m where "b = ToolUseBlock i m" by (cases b) auto
  then show ?thesis using CallPiece by simp
qed (use assms in simp_all)


lemma blocks_hold_new:
  assumes hold: "blocks_hold ps blocks" and new: "\<And>k. piece_type p = CallType k \<Longrightarrow> CallType k \<notin> piece_type ` set ps"
  shows "blocks_hold (ps @ [p]) (blocks @ [(piece_block p, piece_text p)])"
proof -
  have keep: "map (\<lambda>k. (call_block k (ps @ [p]), typed_text (CallType k) (ps @ [p]))) (call_order ps) =
      map (\<lambda>k. (call_block k ps, typed_text (CallType k) ps)) (call_order ps)"
    using new by (auto simp: call_block_snoc typed_text_snoc set_call_order)
  show ?thesis
  proof (cases p)
    case (CallPiece k c n a)
    then show ?thesis
      using hold new keep typed_text_absent [of "CallType k" ps]
      by (auto simp: blocks_hold_def block_text_def tool_blocks_def typed_text_snoc call_order_snoc call_block_snoc)
  qed (use hold keep in \<open>auto simp: blocks_hold_def block_text_def tool_blocks_def typed_text_snoc call_order_snoc\<close>)
qed

lemma blocks_hold_same:
  assumes hold: "blocks_hold ps (finished @ [(open_block ps, t)])" and ps: "ps \<noteq> []" "piece_type p = piece_type (last ps)"
    and call: "\<And>k. piece_type (last ps) = CallType k \<Longrightarrow> call_order ps \<noteq> [] \<and> last (call_order ps) = k"
  shows "blocks_hold (ps @ [p]) (finished @ [(open_block ps, t @ piece_text p)])"
proof (cases "piece_type p")
  case (CallType k)
  have in_ps: "CallType k \<in> piece_type ` set ps" using ps CallType by (metis image_eqI last_in_set)
  have "distinct (call_order ps)" by (simp add: call_order_def distinct_ordered_unique_onto)
  moreover obtain ks where ks: "call_order ps = ks @ [k]" using call [of k] CallType ps by (metis append_butlast_last_id)
  ultimately have "k \<notin> set ks" by simp
  then have keep: "map (\<lambda>k'. (call_block k' (ps @ [p]), typed_text (CallType k') (ps @ [p]))) ks =
      map (\<lambda>k'. (call_block k' ps, typed_text (CallType k') ps)) ks"
    using CallType ks set_call_order [of _ ps] by (auto simp: call_block_snoc typed_text_snoc)
  have ob: "open_block ps = call_block k ps" "is_tool (call_block k ps)"
    using CallType ps is_tool_call_block [OF in_ps] by (simp_all add: open_block_def)
  then have "call_block k ps \<noteq> TextBlock" "call_block k ps \<noteq> ThinkingBlock" by auto
  then show ?thesis
    using hold keep ob CallType ks in_ps
    by (auto simp: blocks_hold_def block_text_def tool_blocks_def typed_text_snoc call_order_snoc call_block_snoc)
qed (use hold ps in \<open>auto simp: blocks_hold_def block_text_def tool_blocks_def typed_text_snoc call_order_snoc call_block_snoc open_block_def
       set_call_order cong: map_cong\<close>)


lemma emit_pieces_snoc: "emit_pieces (ps @ [p]) st = (fst (emit_pieces ps st) @ fst (emit_piece p (snd (emit_pieces ps st))),
    snd (emit_piece p (snd (emit_pieces ps st))))"
  by (simp add: emit_pieces_append case_prod_beta Let_def)

lemma stop_block_read:
  assumes "stream_inv ps st r"
  shows "read_events (fst (stop_active_block st)) r = Some (all_blocks r, None) \<and> as_next_index st = length (all_blocks r)
    \<and> as_finished (snd (stop_active_block st)) = as_finished st"
proof (cases "ps = []")
  case True
  then have "as_active_block_index st = None" "snd r = None" using assms by (auto simp: stream_inv_def)
  then show ?thesis using assms by (cases r) (auto simp: stream_inv_def stop_active_block_def all_blocks_def)
next
  case False
  then obtain x where "as_active_block_index st = Some (length (fst r))" "snd r = Some x" "as_next_index st = length (all_blocks r)"
    using assms by (auto simp: stream_inv_def)
  then show ?thesis by (cases r) (simp add: stop_active_block_def all_blocks_def)
qed

lemma open_block_snoc_new: "(\<And>k. piece_type p = CallType k \<Longrightarrow> CallType k \<notin> piece_type ` set ps) \<Longrightarrow> open_block (ps @ [p]) = piece_block p"
  by (cases p) (auto simp: open_block_def call_block_snoc)

lemma open_block_snoc_same:
  assumes "ps \<noteq> []" "piece_type p = piece_type (last ps)"
  shows "open_block (ps @ [p]) = open_block ps"
proof -
  have "piece_type p \<in> piece_type ` set ps" using assms by (metis image_eqI last_in_set)
  then show ?thesis using assms(2) unfolding open_block_def by (auto simp: call_block_snoc split: block_type.split)
qed

lemma open_block_kind:
  assumes "ps \<noteq> []"
  shows "(piece_type (last ps) = TextType \<longrightarrow> open_block ps = TextBlock) \<and> (piece_type (last ps) = ThinkingType \<longrightarrow> open_block ps = ThinkingBlock) \<and>
    (\<forall>k. piece_type (last ps) = CallType k \<longrightarrow> is_tool (open_block ps))"
proof -
  have "piece_type (last ps) \<in> piece_type ` set ps" using assms by auto
  then show ?thesis using is_tool_call_block [of _ ps] by (auto simp: open_block_def)
qed

lemma stream_inv_new:
  assumes inv: "stream_inv ps st r" and new: "ps \<noteq> [] \<longrightarrow> piece_type p \<noteq> piece_type (last ps)"
    and call: "\<And>k. piece_type p = CallType k \<Longrightarrow> CallType k \<notin> piece_type ` set ps"
  shows "\<exists>r'. read_events (fst (emit_piece p st)) r = Some r' \<and> stream_inv (ps @ [p]) (snd (emit_piece p st)) r'"
proof -
  let ?r = "(all_blocks r, Some (piece_block p, piece_text p))"
  have e: "emit_piece p st =
    (fst (stop_active_block st) @ BlockStart (as_next_index st) (piece_block p) # piece_deltas p (as_next_index st),
     (snd (stop_active_block st))\<lparr>as_next_index := as_next_index st + 1, as_active_block_type := Some (piece_type p),
       as_active_block_index := Some (as_next_index st), as_tool_call_blocks := note_call p (as_next_index st) (as_tool_call_blocks st)\<rparr>)"
    by (rule emit_piece_new) (use inv new call in \<open>auto simp: stream_inv_def\<close>)
  have stop: "read_events (fst (stop_active_block st)) r = Some (all_blocks r, None)" "as_next_index st = length (all_blocks r)"
    "as_finished (snd (stop_active_block st)) = as_finished st"
    using stop_block_read [OF inv] by auto
  have "read_events (piece_deltas p (length (all_blocks r))) (all_blocks r, Some (piece_block p, [])) = Some ?r"
    using read_piece_deltas [of p "piece_block p" "all_blocks r" "[]"] by (cases p) auto
  then have "read_events (fst (emit_piece p st)) r = Some ?r"
    using stop e by (simp add: read_events_append)
  moreover have "blocks_hold (ps @ [p]) (all_blocks ?r)"
    using blocks_hold_new [of ps "all_blocks r" p] inv call by (simp add: stream_inv_def all_blocks_def)
  moreover have "dmem k (note_call p i (as_tool_call_blocks st)) \<longleftrightarrow> CallType k \<in> piece_type ` set (ps @ [p])" for k i
    using inv by (cases p) (auto simp: stream_inv_def dmem_def)
  moreover have "piece_type p = CallType k \<Longrightarrow> dget (note_call p i (as_tool_call_blocks st)) k = Some i \<and> last (call_order (ps @ [p])) = k \<and> call_order (ps @ [p]) \<noteq> []" for k i
    using call by (cases p) (auto simp: call_order_snoc)
  ultimately have "stream_inv (ps @ [p]) (snd (emit_piece p st)) ?r"
    using e stop inv open_block_snoc_new [of p ps] call by (simp add: stream_inv_def all_blocks_def)
  then show ?thesis using \<open>read_events (fst (emit_piece p st)) r = Some ?r\<close> by blast
qed

lemma stream_inv_same:
  assumes inv: "stream_inv ps st r" and same: "ps \<noteq> []" "piece_type p = piece_type (last ps)"
  shows "\<exists>r'. read_events (fst (emit_piece p st)) r = Some r' \<and> stream_inv (ps @ [p]) (snd (emit_piece p st)) r'"
proof -
  obtain finished t where r: "r = (finished, Some (open_block ps, t))"
    using inv same by (cases r; cases "snd r") (auto simp: stream_inv_def)
  have call: "piece_type (last ps) = CallType k \<Longrightarrow> dget (as_tool_call_blocks st) k = Some (length finished) \<and> call_order ps \<noteq> [] \<and> last (call_order ps) = k" for k
    using inv same r by (simp add: stream_inv_def)
  have in_ps: "piece_type p \<in> piece_type ` set ps" using same by (metis image_eqI last_in_set)
  have e: "emit_piece p st = (piece_deltas p (length finished), st)"
    by (rule emit_piece_same) (use inv same call r in \<open>auto simp: stream_inv_def\<close>)
  have "read_events (piece_deltas p (length finished)) r = Some (finished, Some (open_block ps, t @ piece_text p))"
    using r same open_block_kind [of ps] read_piece_deltas [of p "open_block ps" finished t] by simp
  moreover have "blocks_hold (ps @ [p]) (finished @ [(open_block ps, t @ piece_text p)])"
    using blocks_hold_same [of ps finished t p] inv same call r by (simp add: stream_inv_def all_blocks_def)
  moreover have "call_order (ps @ [p]) = call_order ps" using in_ps by (auto simp: call_order_snoc split: block_type.split)
  moreover have "piece_type ` set (ps @ [p]) = piece_type ` set ps" using in_ps by auto
  ultimately have "stream_inv (ps @ [p]) st (finished, Some (open_block ps, t @ piece_text p))"
    unfolding stream_inv_def using inv [unfolded stream_inv_def] same call r open_block_snoc_same [OF same] in_ps
    by (simp add: all_blocks_def insert_absorb)
  then show ?thesis using e \<open>read_events (piece_deltas p (length finished)) r = _\<close> by auto
qed

lemma emit_pieces_inv:
  assumes "stream_inv ps st r" "calls_contiguous (ps @ qs)"
  shows "\<exists>r'. read_events (fst (emit_pieces qs st)) r = Some r' \<and> stream_inv (ps @ qs) (snd (emit_pieces qs st)) r'"
  using assms(2)
proof (induction qs rule: rev_induct)
  case Nil
  then show ?case using assms(1) by simp
next
  case (snoc p qs)
  let ?st = "snd (emit_pieces qs st)"
  have contiguous: "calls_contiguous ((ps @ qs) @ [p])" using snoc.prems by simp
  obtain r' where r': "read_events (fst (emit_pieces qs st)) r = Some r'" "stream_inv (ps @ qs) ?st r'"
    using snoc.IH calls_contiguous_prefix [OF contiguous] by blast
  have "\<exists>r''. read_events (fst (emit_piece p ?st)) r' = Some r'' \<and> stream_inv ((ps @ qs) @ [p]) (snd (emit_piece p ?st)) r''"
  proof (cases "ps @ qs \<noteq> [] \<and> piece_type p = piece_type (last (ps @ qs))")
    case True
    then show ?thesis using stream_inv_same [OF r'(2)] by blast
  next
    case False
    then show ?thesis using stream_inv_new [OF r'(2)] calls_contiguous_last [OF contiguous] by metis
  qed
  then show ?case using r' by (auto simp: emit_pieces_snoc read_events_append)
qed

lemma finish_stream_read:
  assumes "stream_inv ps st r"
  shows "\<exists>body. fst (finish_stream reason n st) = body @ [MessageDelta reason n, MessageStop] \<and> read_events body r = Some (all_blocks r, None)
    \<and> blocks_hold ps (all_blocks r)"
  using stop_block_read [OF assms] assms by (auto simp: finish_stream_def stream_inv_def case_prod_beta Let_def)

text \<open>The pieces of a stream, up to its first finish reason or its end marker.\<close>

fun stream_pieces :: "llm_lib \<Rightarrow> string list \<Rightarrow> stream_piece list" where
  "stream_pieces lib [] = []"
| "stream_pieces lib (payload # payloads) =
     (if payload = ''[DONE]'' then []
      else case json_loads lib payload of
        Some (PDict chunk) \<Rightarrow>
          fst (delta_pieces lib (as_object (pget (first_openai_choice chunk) ''delta''))) @
          (if pget (first_openai_choice chunk) ''finish_reason'' = PNone then stream_pieces lib payloads else [])
      | _ \<Rightarrow> stream_pieces lib payloads)"

definition reads_as :: "stream_piece list \<Rightarrow> reader \<Rightarrow> anthropic_event list \<Rightarrow> bool" where
  "reads_as ps r evs \<longleftrightarrow> (\<exists>body reason n blocks. evs = body @ [MessageDelta reason n, MessageStop] \<and> read_events body r = Some (blocks, None)
     \<and> blocks_hold ps blocks)"

lemma reads_as_finish: "stream_inv ps st r \<Longrightarrow> reads_as ps r (fst (finish_stream reason n st))"
  using finish_stream_read [of ps st r reason n] by (auto simp: reads_as_def)

lemma reads_as_append: "read_events es r = Some r' \<Longrightarrow> reads_as ps r' evs \<Longrightarrow> reads_as ps r (es @ evs)"
  by (fastforce simp: reads_as_def read_events_append)

lemma stream_inv_model [simp]: "stream_inv ps (st\<lparr>as_model := m\<rparr>) r = stream_inv ps st r"
  by (simp add: stream_inv_def)

lemma anthropic_loop_reads:
  assumes "stream_inv ps st r" "calls_contiguous (ps @ stream_pieces lib payloads)" "anthropic_loop lib payloads st = (evs, None)"
  shows "reads_as (ps @ stream_pieces lib payloads) r evs"
  using assms
proof (induction payloads arbitrary: ps st r evs)
  case Nil
  then show ?case using reads_as_finish [of ps st r "''end_turn''" 0] by simp
next
  case (Cons payload payloads)
  show ?case
  proof (cases "payload \<noteq> ''[DONE]'' \<and> (\<exists>chunk. json_loads lib payload = Some (PDict chunk))")
    case False
    then show ?thesis
      using Cons reads_as_finish [of ps st r "''end_turn''" 0] by (cases "payload = ''[DONE]''") (auto split: option.splits pyval.splits)
  next
    case True
    then obtain chunk where chunk: "payload \<noteq> ''[DONE]''" "json_loads lib payload = Some (PDict chunk)" by blast
    let ?st = "if truthy (pget chunk ''model'') then st\<lparr>as_model := llm_str lib (pget chunk ''model'')\<rparr> else st"
    let ?choice = "first_openai_choice chunk"
    obtain pieces err where pieces: "delta_pieces lib (as_object (pget ?choice ''delta'')) = (pieces, err)" by fastforce
    obtain usage where usage: "openai_usage_to_anthropic_usage (pget chunk ''usage'') = Inr usage"
      using Cons.prems(3) chunk by (cases "openai_usage_to_anthropic_usage (pget chunk ''usage'')") (auto simp: case_prod_beta Let_def)
    have err: "err = None" using Cons.prems(3) chunk pieces usage by (cases err) (auto simp: case_prod_beta Let_def)
    have rest: "stream_pieces lib (payload # payloads) = pieces @ (if pget ?choice ''finish_reason'' = PNone then stream_pieces lib payloads else [])"
      using chunk pieces by simp
    have "stream_inv ps ?st r" using Cons.prems(1) by simp
    moreover have contiguous: "calls_contiguous (ps @ pieces)"
      using Cons.prems(2) rest calls_contiguous_prefix [of "ps @ pieces"] by simp
    ultimately obtain r' where r': "read_events (fst (emit_pieces pieces ?st)) r = Some r'" "stream_inv (ps @ pieces) (snd (emit_pieces pieces ?st)) r'"
      using emit_pieces_inv by blast
    show ?thesis
    proof (cases "pget ?choice ''finish_reason'' = PNone")
      case more: True
      obtain evs' where evs: "anthropic_loop lib payloads (snd (emit_pieces pieces ?st)) = (evs', None)" "evs = fst (emit_pieces pieces ?st) @ evs'"
        using Cons.prems(3) chunk pieces usage err more
        by (cases "anthropic_loop lib payloads (snd (emit_pieces pieces ?st))") (auto simp: case_prod_beta Let_def)
      then show ?thesis
        using Cons.IH [OF r'(2)] Cons.prems(2) rest more reads_as_append [OF r'(1)] by simp
    next
      case False
      then obtain reason n where "evs = fst (emit_pieces pieces ?st) @ fst (finish_stream reason n (snd (emit_pieces pieces ?st)))"
        using Cons.prems(3) chunk pieces usage err
        by (cases "openai_finish_reason_to_anthropic lib (pget ?choice ''finish_reason'')") (auto simp: case_prod_beta Let_def)
      then show ?thesis using reads_as_append [OF r'(1) reads_as_finish [OF r'(2)]] rest False by simp
    qed
  qed
qed



definition sample_stream_lib :: llm_lib where
  "sample_stream_lib = sample_llm_lib\<lparr>json_loads := (\<lambda>s.
     if s = ''a'' then Some (PDict [(''choices'', PList [PDict [(''delta'', PDict [(''reasoning'', PStr ''hm''), (''content'', PStr ''ok'')])]])])
     else if s = ''b'' then Some (PDict [(''choices'', PList [PDict [(''delta'', PDict [(''tool_calls'', PList
       [PDict [(''index'', PInt 0), (''id'', PStr ''c1''), (''function'', PDict [(''name'', PStr ''ls''), (''arguments'', PStr ''{'')])],
        PDict [(''index'', PInt 0), (''function'', PDict [(''arguments'', PStr ''}'')])]])])]])])
     else if s = ''c'' then Some (PDict [(''choices'', PList [PDict [(''delta'', PDict [(''tool_calls'', PList
       [PDict [(''index'', PInt 1), (''id'', PStr ''c2''), (''function'', PDict [(''name'', PStr ''cat''), (''arguments'', PStr ''[]'')])]])])]])])
     else if s = ''d'' then Some (PDict [(''choices'', PList [PDict [(''delta'', PDict []), (''finish_reason'', PStr ''tool_calls'')]])])
     else None)\<rparr>"

lemma calls_contiguous_code:
  "calls_contiguous ps \<longleftrightarrow> (\<forall>l \<in> set [0..<length ps]. \<forall>j \<in> set [0..<l]. \<forall>i \<in> set [0..<j].
     (case piece_type (ps ! i) of CallType k \<Rightarrow> piece_type (ps ! l) = CallType k \<longrightarrow> piece_type (ps ! j) = CallType k | _ \<Rightarrow> True))"
  (is "_ \<longleftrightarrow> ?code")
proof
  show "?code" if c: "calls_contiguous ps"
  proof (intro ballI)
    fix l j i
    assume "l \<in> set [0..<length ps]" "j \<in> set [0..<l]" "i \<in> set [0..<j]"
    then show "case piece_type (ps ! i) of CallType k \<Rightarrow> piece_type (ps ! l) = CallType k \<longrightarrow> piece_type (ps ! j) = CallType k | _ \<Rightarrow> True"
      using c [unfolded calls_contiguous_def, rule_format, of i j l] by (simp split: block_type.split)
  qed
  show "calls_contiguous ps" if c: "?code"
    unfolding calls_contiguous_def
  proof (intro allI impI)
    fix i j l k
    assume h: "i < j \<and> j < l \<and> l < length ps \<and> piece_type (ps ! i) = CallType k \<and> piece_type (ps ! l) = CallType k"
    then have "case piece_type (ps ! i) of CallType k \<Rightarrow> piece_type (ps ! l) = CallType k \<longrightarrow> piece_type (ps ! j) = CallType k | _ \<Rightarrow> True"
      using bspec [OF bspec [OF bspec [OF c, of l], of j], of i] by simp
    then show "piece_type (ps ! j) = CallType k" using h by simp
  qed
qed


text \<open>
  The condition on tool calls cannot be dropped: when a second piece of the first call arrives after
  the second call has begun, its delta names a block that is already closed.
\<close>

lemma interleaved_calls_break_stream:
  "read_events (fst (emit_pieces [CallPiece 0 ''c1'' ''ls'' ''{'', CallPiece 1 ''c2'' ''cat'' ''{'', CallPiece 0 ''c1'' ''ls'' ''}''] new_stream)) ([], None) = None"
  by code_simp


section \<open>The Responses event stream\<close>

definition openai_response_payload :: "string \<Rightarrow> string \<Rightarrow> pyval \<Rightarrow> string \<Rightarrow> pyval list \<Rightarrow> jobj" where
  "openai_response_payload response_id model usage status out =
     [(''id'', PStr response_id), (''object'', PStr ''response''), (''status'', PStr status), (''model'', PStr model),
      (''output'', PList out), (''usage'', usage)]"

record call_acc =
  ca_id :: "string option"
  ca_type :: "string option"
  ca_name :: "string option"
  ca_arguments_parts :: "string list"

definition new_call_acc :: call_acc where
  "new_call_acc = \<lparr>ca_id = None, ca_type = None, ca_name = None, ca_arguments_parts = []\<rparr>"

definition stream_index :: "pyval \<Rightarrow> int result" where
  "stream_index v = (case py_int v of Inr i \<Rightarrow> Inr i | Inl (TypeError _) \<Rightarrow> Inr 0 | Inl (ValueError _) \<Rightarrow> Inr 0 | Inl e \<Rightarrow> Inl e)"

definition note_text :: "llm_lib \<Rightarrow> pyval \<Rightarrow> string option \<Rightarrow> string option" where
  "note_text lib v old = (if truthy v then Some (llm_str lib v) else old)"

definition accumulate_call :: "llm_lib \<Rightarrow> jobj \<Rightarrow> call_acc \<Rightarrow> call_acc" where
  "accumulate_call lib call state =
     (let function = as_object (pget call ''function''); arguments = pget function ''arguments''
      in \<lparr>ca_id = note_text lib (pget call ''id'') (ca_id state), ca_type = note_text lib (pget call ''type'') (ca_type state),
          ca_name = note_text lib (pget function ''name'') (ca_name state),
          ca_arguments_parts = ca_arguments_parts state @ (if arguments \<noteq> PNone then [arguments_text lib arguments] else [])\<rparr>)"

definition accumulate_openai_stream_tool_call_delta :: "llm_lib \<Rightarrow> (int, call_acc) dict \<Rightarrow> pyval \<Rightarrow> (int, call_acc) dict result" where
  "accumulate_openai_stream_tool_call_delta lib deltas tool_call =
     (case tool_call of
        PDict call \<Rightarrow>
          rbind (stream_index (pget call ''index'')) (\<lambda>index.
            let state = (case dget deltas index of Some s \<Rightarrow> s | None \<Rightarrow> new_call_acc)
            in Inr (dset index (accumulate_call lib call state) deltas))
      | _ \<Rightarrow> Inr deltas)"

definition text_or :: "string option \<Rightarrow> string \<Rightarrow> string" where
  "text_or v d = (case v of Some s \<Rightarrow> if s = [] then d else s | None \<Rightarrow> d)"

definition call_record :: "int \<Rightarrow> call_acc \<Rightarrow> (pyval \<times> string list) list" where
  "call_record index state =
     (if text_or (ca_id state) [] = [] \<and> text_or (ca_name state) [] = [] \<and> ca_arguments_parts state = [] then []
      else [(openai_response_function_call_item (text_or (ca_id state) (''call_proxy_'' @ show_int index)) (text_or (ca_name state) ''tool'')
               (concat (ca_arguments_parts state)) ''completed'', ca_arguments_parts state)])"

definition openai_stream_tool_call_records :: "(int, call_acc) dict \<Rightarrow> (pyval \<times> string list) list" where
  "openai_stream_tool_call_records deltas = concat (map (\<lambda>index. call_record index (the (dget deltas index))) (sort (map fst deltas)))"

type_synonym response_event = "string \<times> jobj"

definition response_event_of :: "string \<Rightarrow> jobj \<Rightarrow> response_event" where
  "response_event_of event payload = (event, (''type'', PStr event) # payload)"

definition openai_response_sse :: "llm_lib \<Rightarrow> response_event \<Rightarrow> string" where
  "openai_response_sse lib e = sse_frame lib (fst e) (snd e)"

definition openai_response_stream_reasoning_item_events :: "int \<Rightarrow> string \<Rightarrow> response_event list" where
  "openai_response_stream_reasoning_item_events output_index reasoning =
     (let payload = [(''item_id'', PStr ''rs_proxy_stream''), (''output_index'', PInt output_index),
                    (''item'', openai_response_reasoning_item reasoning ''rs_proxy_stream'')]
      in [response_event_of ''response.output_item.added'' payload, response_event_of ''response.output_item.done'' payload])"

definition openai_response_stream_text_item_events :: "string \<Rightarrow> int \<Rightarrow> string \<Rightarrow> response_event list" where
  "openai_response_stream_text_item_events item_id output_index text =
     (let place = [(''item_id'', PStr item_id), (''output_index'', PInt output_index)]; content = place @ [(''content_index'', PInt 0)];
          part = (\<lambda>t. PDict [(''type'', PStr ''output_text''), (''text'', PStr t)])
      in [response_event_of ''response.output_item.added''
            [(''output_index'', PInt output_index), (''item'', openai_response_message_item [] ''in_progress'' item_id)],
          response_event_of ''response.content_part.added'' (content @ [(''part'', part [])])] @
         (if text \<noteq> [] then [response_event_of ''response.output_text.delta'' (content @ [(''delta'', PStr text)])] else []) @
         [response_event_of ''response.output_text.done'' (content @ [(''text'', PStr text)]),
          response_event_of ''response.content_part.done'' (content @ [(''part'', part text)]),
          response_event_of ''response.output_item.done'' (place @ [(''item'', openai_response_message_item text ''completed'' item_id)])])"

definition openai_response_stream_function_call_item_events :: "string \<Rightarrow> int \<Rightarrow> jobj \<Rightarrow> string list \<Rightarrow> response_event list" where
  "openai_response_stream_function_call_item_events response_id output_index item argument_deltas =
     (let place = [(''response_id'', PStr response_id), (''item_id'', pget item ''id''), (''output_index'', PInt output_index)];
          in_progress = dset ''arguments'' (PStr []) (dset ''status'' (PStr ''in_progress'') item);
          arguments = (case pget item ''arguments'' of PStr s \<Rightarrow> s | _ \<Rightarrow> []);
          deltas = (if argument_deltas = [] \<and> arguments \<noteq> [] then [arguments] else argument_deltas)
      in [response_event_of ''response.output_item.added''
            [(''response_id'', PStr response_id), (''output_index'', PInt output_index), (''item'', PDict in_progress)]] @
         map (\<lambda>d. response_event_of ''response.function_call_arguments.delta'' (place @ [(''delta'', PStr d)])) deltas @
         [response_event_of ''response.function_call_arguments.done'' (place @ [(''arguments'', PStr arguments), (''item'', PDict item)]),
          response_event_of ''response.output_item.done'' (place @ [(''item'', PDict item)])])"

record response_stream_state =
  rs_model :: string
  rs_reasoning_parts :: "string list"
  rs_text_parts :: "string list"
  rs_tool_call_deltas :: "(int, call_acc) dict"
  rs_usage :: "jobj option"

fun accumulate_calls :: "llm_lib \<Rightarrow> pyval list \<Rightarrow> (int, call_acc) dict \<Rightarrow> (int, call_acc) dict result" where
  "accumulate_calls lib [] deltas = Inr deltas"
| "accumulate_calls lib (v # vs) deltas = rbind (accumulate_openai_stream_tool_call_delta lib deltas v) (accumulate_calls lib vs)"

definition response_chunk :: "llm_lib \<Rightarrow> jobj \<Rightarrow> response_stream_state \<Rightarrow> response_stream_state result" where
  "response_chunk lib chunk st =
     (let model = (if truthy (pget chunk ''model'') then llm_str lib (pget chunk ''model'') else rs_model st);
          delta = as_object (pget (first_openai_choice chunk) ''delta'');
          reasoning = py_or (pget delta ''reasoning_content'') (pget delta ''reasoning'');
          content = pget delta ''content''
      in rbind (case pget chunk ''usage'' of
                  PDict d \<Rightarrow> rbind (openai_usage_to_response_usage (PDict d)) (\<lambda>u. Inr (Some u))
                | _ \<Rightarrow> Inr (rs_usage st)) (\<lambda>usage.
         rbind (case pget delta ''tool_calls'' of PList vs \<Rightarrow> accumulate_calls lib vs (rs_tool_call_deltas st) | _ \<Rightarrow> Inr (rs_tool_call_deltas st)) (\<lambda>deltas.
           Inr \<lparr>rs_model = model,
                rs_reasoning_parts = rs_reasoning_parts st @ (if truthy reasoning then [llm_str lib reasoning] else []),
                rs_text_parts = rs_text_parts st @ (if truthy content then [llm_str lib content] else []),
                rs_tool_call_deltas = deltas, rs_usage = usage\<rparr>)))"

fun response_loop :: "llm_lib \<Rightarrow> string list \<Rightarrow> response_stream_state \<Rightarrow> response_stream_state result" where
  "response_loop lib [] st = Inr st"
| "response_loop lib (payload # payloads) st =
     (if payload = ''[DONE]'' then Inr st
      else case json_loads lib payload of
        Some (PDict chunk) \<Rightarrow> rbind (response_chunk lib chunk st) (response_loop lib payloads)
      | _ \<Rightarrow> response_loop lib payloads st)"

text \<open>The entries of the output, each with the pieces it is streamed in.\<close>

datatype output_entry = ReasoningEntry string | MessageEntry string | CallEntry pyval "string list"

fun entry_item :: "output_entry \<Rightarrow> pyval" where
  "entry_item (ReasoningEntry s) = openai_response_reasoning_item s ''rs_proxy_stream''"
| "entry_item (MessageEntry s) = openai_response_message_item s ''completed'' ''msg_proxy_stream''"
| "entry_item (CallEntry item deltas) = item"

fun entry_events :: "nat \<Rightarrow> output_entry \<Rightarrow> response_event list" where
  "entry_events i (ReasoningEntry s) = openai_response_stream_reasoning_item_events (int i) s"
| "entry_events i (MessageEntry s) = openai_response_stream_text_item_events ''msg_proxy_stream'' (int i) s"
| "entry_events i (CallEntry item deltas) = openai_response_stream_function_call_item_events ''resp_proxy_stream'' (int i) (as_object item) deltas"

fun entries_events :: "nat \<Rightarrow> output_entry list \<Rightarrow> response_event list" where
  "entries_events i [] = []"
| "entries_events i (x # xs) = entry_events i x @ entries_events (i + 1) xs"

definition output_entries :: "response_stream_state \<Rightarrow> output_entry list" where
  "output_entries st =
     (let reasoning = concat (rs_reasoning_parts st); final_text = concat (rs_text_parts st);
          records = openai_stream_tool_call_records (rs_tool_call_deltas st)
      in (if reasoning \<noteq> [] then [ReasoningEntry reasoning] else []) @
         (if final_text \<noteq> [] \<or> records = [] then [MessageEntry final_text] else []) @
         map (\<lambda>(item, deltas). CallEntry item deltas) records)"

definition iter_openai_response_events_from_chat_stream :: "llm_lib \<Rightarrow> string list \<Rightarrow> jobj \<Rightarrow> response_event list \<times> exn option" where
  "iter_openai_response_events_from_chat_stream lib payloads original_request =
     (let model = str_default lib (pget original_request ''model'') ''proxy-model'';
          created = response_event_of ''response.created''
            [(''response'', PDict (openai_response_payload ''resp_proxy_stream'' model PNone ''in_progress'' []))]
      in case response_loop lib payloads
           \<lparr>rs_model = model, rs_reasoning_parts = [], rs_text_parts = [], rs_tool_call_deltas = [], rs_usage = None\<rparr> of
           Inl e \<Rightarrow> ([created], Some e)
         | Inr st \<Rightarrow>
             (let usage = (case rs_usage st of Some u \<Rightarrow> u | None \<Rightarrow> [(''input_tokens'', PInt 0), (''output_tokens'', PInt 0), (''total_tokens'', PInt 0)]);
                  entries = output_entries st
              in (created # entries_events 0 entries @
                  [response_event_of ''response.completed''
                     [(''response'', PDict (openai_response_payload ''resp_proxy_stream'' (rs_model st) (PDict usage) ''completed''
                        (map entry_item entries)))]], None)))"



text \<open>What a client reads off the events: the finished items with their places, and the streamed text of a place.\<close>

definition done_items :: "response_event list \<Rightarrow> (pyval \<times> pyval) list" where
  "done_items evs = concat (map (\<lambda>(n, p). if n = ''response.output_item.done'' then [(pget p ''output_index'', pget p ''item'')] else []) evs)"

definition delta_at :: "int \<Rightarrow> response_event list \<Rightarrow> string" where
  "delta_at i evs = concat (map (\<lambda>(n, p). if pget p ''output_index'' = PInt i then (case pget p ''delta'' of PStr s \<Rightarrow> s | _ \<Rightarrow> []) else []) evs)"

definition item_text :: "pyval \<Rightarrow> string" where
  "item_text item =
     (case pget (as_object item) ''content'' of
        PList [PDict part] \<Rightarrow> (case pget part ''text'' of PStr s \<Rightarrow> s | _ \<Rightarrow> [])
      | _ \<Rightarrow> (case pget (as_object item) ''arguments'' of PStr s \<Rightarrow> s | _ \<Rightarrow> []))"

definition output_events :: "nat \<Rightarrow> pyval list \<Rightarrow> (pyval \<times> pyval) list" where
  "output_events i items = zip (map (\<lambda>j. PInt (int j)) [i..<i + length items]) items"

fun output_entry_ok :: "output_entry \<Rightarrow> bool" where
  "output_entry_ok (CallEntry item deltas) = (\<exists>c n s. item = openai_response_function_call_item c n (concat deltas) s)"
| "output_entry_ok _ = True"

lemma done_items_append [simp]: "done_items (a @ b) = done_items a @ done_items b"
  by (simp add: done_items_def)

lemma delta_at_append [simp]: "delta_at i (a @ b) = delta_at i a @ delta_at i b"
  by (simp add: delta_at_def)

lemma output_events_Cons: "output_events i (x # xs) = (PInt (int i), x) # output_events (i + 1) xs"
  by (simp add: output_events_def upt_rec)

lemma done_items_deltas: "done_items (map (\<lambda>d. response_event_of ''response.function_call_arguments.delta'' (p d)) ds) = []"
  by (induction ds) (auto simp: done_items_def response_event_of_def)

lemma delta_at_deltas:
  "delta_at j (map (\<lambda>d. response_event_of ''response.function_call_arguments.delta''
     [(''response_id'', r), (''item_id'', k), (''output_index'', PInt i), (''delta'', PStr d)]) ds) = (if i = j then concat ds else [])"
  by (induction ds) (auto simp: delta_at_def response_event_of_def pget_def)

lemma entry_events_done: "output_entry_ok x \<Longrightarrow> done_items (entry_events i x) = [(PInt (int i), entry_item x)]"
proof (cases x)
  case (CallEntry item deltas)
  assume "output_entry_ok x"
  then obtain c n s where "item = openai_response_function_call_item c n (concat deltas) s" using CallEntry by auto
  then show ?thesis
    using CallEntry done_items_deltas
    by (simp add: openai_response_stream_function_call_item_events_def openai_response_function_call_item_def as_object_def Let_def)
      (simp add: done_items_def response_event_of_def pget_def)
qed (simp_all add: openai_response_stream_reasoning_item_events_def openai_response_stream_text_item_events_def done_items_def
      response_event_of_def pget_def Let_def)

lemma entry_events_delta: "output_entry_ok x \<Longrightarrow> delta_at (int j) (entry_events i x) = (if i = j then item_text (entry_item x) else [])"
proof (cases x)
  case (CallEntry item deltas)
  assume "output_entry_ok x"
  then obtain c n s where item: "item = openai_response_function_call_item c n (concat deltas) s" using CallEntry by auto
  have fields: "item_text item = concat deltas" "pget (as_object item) ''arguments'' = PStr (concat deltas)"
    using item by (simp_all add: item_text_def openai_response_function_call_item_def as_object_def pget_def)
  show ?thesis
    using CallEntry fields delta_at_deltas
    by (simp add: openai_response_stream_function_call_item_events_def Let_def) (simp add: delta_at_def response_event_of_def pget_def)
qed (simp_all add: openai_response_stream_reasoning_item_events_def openai_response_stream_text_item_events_def delta_at_def item_text_def
      openai_response_message_item_def openai_response_reasoning_item_def as_object_def response_event_of_def pget_def Let_def)

lemma entries_events_done: "list_all output_entry_ok xs \<Longrightarrow> done_items (entries_events i xs) = output_events i (map entry_item xs)"
proof (induction xs arbitrary: i)
  case Nil
  then show ?case by (simp add: done_items_def output_events_def)
qed (simp add: entry_events_done output_events_Cons)

lemma entries_events_delta:
  "list_all output_entry_ok xs \<Longrightarrow> delta_at (int j) (entries_events i xs) =
     (if i \<le> j \<and> j < i + length xs then item_text (entry_item (xs ! (j - i))) else [])"
proof (induction xs arbitrary: i)
  case Nil
  then show ?case by (auto simp: delta_at_def)
next
  case (Cons x xs)
  then show ?case by (cases "i = j") (auto simp: entry_events_delta nth_Cons')
qed

lemma output_entries_ok: "list_all output_entry_ok (output_entries st)"
  by (force simp: output_entries_def openai_stream_tool_call_records_def call_record_def list_all_iff Let_def split: if_splits)

lemma output_entries_items:
  "map entry_item (output_entries st) = response_output ''rs_proxy_stream'' ''msg_proxy_stream'' (concat (rs_reasoning_parts st))
     (concat (rs_text_parts st)) (map fst (openai_stream_tool_call_records (rs_tool_call_deltas st)))"
  by (simp add: output_entries_def response_output_def Let_def case_prod_beta)


text \<open>
  A Responses stream that ends without an error is complete and agrees with itself: it closes
  with one completed response, whose output is the reasoning, the text and the calls of the accumulated answer; each of its
  items was announced as finished, at its own place and in order; and the text deltas of a place
  put together are the text or the arguments of the item that ends up there.
\<close>

theorem responses_stream_complete:
  assumes "iter_openai_response_events_from_chat_stream lib payloads req = (evs, None)"
  shows "\<exists>st usage items. response_loop lib payloads \<lparr>rs_model = str_default lib (pget req ''model'') ''proxy-model'',
        rs_reasoning_parts = [], rs_text_parts = [], rs_tool_call_deltas = [], rs_usage = None\<rparr> = Inr st \<and>
      last evs = response_event_of ''response.completed''
        [(''response'', PDict (openai_response_payload ''resp_proxy_stream'' (rs_model st) usage ''completed'' items))] \<and>
      items = response_output ''rs_proxy_stream'' ''msg_proxy_stream'' (concat (rs_reasoning_parts st)) (concat (rs_text_parts st))
        (map fst (openai_stream_tool_call_records (rs_tool_call_deltas st))) \<and>
      done_items evs = output_events 0 items \<and> (\<forall>j < length items. delta_at (int j) evs = item_text (items ! j))"
proof -
  let ?st0 = "\<lparr>rs_model = str_default lib (pget req ''model'') ''proxy-model'',
        rs_reasoning_parts = [], rs_text_parts = [], rs_tool_call_deltas = [], rs_usage = None\<rparr>"
  obtain st where st: "response_loop lib payloads ?st0 = Inr st"
    using assms by (cases "response_loop lib payloads ?st0") (auto simp: iter_openai_response_events_from_chat_stream_def Let_def)
  let ?items = "map entry_item (output_entries st)"
  obtain created usage where evs: "evs = response_event_of ''response.created'' [(''response'', created)] # entries_events 0 (output_entries st) @
      [response_event_of ''response.completed'' [(''response'', PDict (openai_response_payload ''resp_proxy_stream'' (rs_model st) usage ''completed'' ?items))]]"
    using assms st by (auto simp: iter_openai_response_events_from_chat_stream_def Let_def)
  have "done_items evs = output_events 0 ?items"
    using entries_events_done [OF output_entries_ok, of 0 st] unfolding evs by (simp add: done_items_def response_event_of_def)
  moreover have "\<forall>j < length ?items. delta_at (int j) evs = item_text (?items ! j)"
    using entries_events_delta [OF output_entries_ok, of _ 0 st] unfolding evs by (simp add: delta_at_def response_event_of_def pget_def)
  moreover have "last evs = response_event_of ''response.completed''
      [(''response'', PDict (openai_response_payload ''resp_proxy_stream'' (rs_model st) usage ''completed'' ?items))]"
    unfolding evs by simp
  ultimately show ?thesis using st output_entries_items [of st] by blast
qed

theorem responses_stream_complete_witness:
  "\<exists>st items. response_loop sample_stream_lib [''a'', ''b'', ''c''] \<lparr>rs_model = ''proxy-model'',
        rs_reasoning_parts = [], rs_text_parts = [], rs_tool_call_deltas = [], rs_usage = None\<rparr> = Inr st \<and>
      items = response_output ''rs_proxy_stream'' ''msg_proxy_stream'' (concat (rs_reasoning_parts st)) (concat (rs_text_parts st))
        (map fst (openai_stream_tool_call_records (rs_tool_call_deltas st))) \<and>
      done_items (fst (iter_openai_response_events_from_chat_stream sample_stream_lib [''a'', ''b'', ''c''] [])) = output_events 0 items"
proof -
  have "snd (iter_openai_response_events_from_chat_stream sample_stream_lib [''a'', ''b'', ''c''] []) = None" by code_simp
  then have "iter_openai_response_events_from_chat_stream sample_stream_lib [''a'', ''b'', ''c''] [] =
      (fst (iter_openai_response_events_from_chat_stream sample_stream_lib [''a'', ''b'', ''c''] []), None)"
    by (metis prod.collapse)
  moreover have "str_default sample_stream_lib (pget [] ''model'') ''proxy-model'' = ''proxy-model''" by code_simp
  ultimately show ?thesis using responses_stream_complete by (metis (no_types, lifting))
qed

end
