(* ===== verification/Turn_Proxy.thy ===== *)
theory Turn_Proxy
  imports Stream_Translation
begin

text \<open>
  The model proxy of the blackbox server (\<open>RolloutLLMProxy\<close> in
  \<open>blackbox_server/proxy/rollout_llm_proxy.py\<close>): the scope of a turn, pausing and
  resuming, the admission of model requests, the headers and bodies sent upstream, and
  what an answer of the upstream does to the scope and to the agent.

  A scope is an object shared by the proxy and by the snapshots of the requests, which outlive the
  turn; the scopes are therefore cells of a store and a snapshot names its cell.  Between two
  awaits the handlers run under the scope lock, so each of their effects on the scope is one step:
  a request that was admitted is the list of the effects it still has to run.  The upstream
  answer, the decoding of bytes and the writing of dump files are parameters.

  The lemmas show that the identity of the session cannot be forged by the agent's headers; that the policy of the
  training run holds in every model request; that no request is admitted while the proxy is paused or
  beyond the step limit; that a turn counts as drained exactly when every admitted request has
  ended, in every interleaving, provided no request loses its marker; which requests lose it;
  and that keepalive frames can be dropped from a stream without changing its payloads.
\<close>

section \<open>Configuration and state\<close>

record proxy_lib = llm_lib +
  utf8_decode :: "string \<Rightarrow> string option"
  decode_replace :: "string \<Rightarrow> string"
  utf8_encode :: "string \<Rightarrow> string"
  loads_bytes :: "string \<Rightarrow> pyval option result"
  dump_error :: "string option"

type_synonym headers = "(string, string) dict"

record llm_proxy_config =
  upstream_origin :: string
  router_api_path :: string
  bound_session_id :: string
  bound_instance_id :: string
  bound_sandbox_id :: "string option"
  sticky_header_name :: string
  cfg_max_steps :: "int option"
  default_temperature :: "pyfloat option"
  debug_log_dir :: "string option"
  upstream_headers :: headers
  model_override :: "string option"
  sampling_mode :: "string option"
  sampling_temperature :: "pyfloat option"
  sampling_top_p :: "pyfloat option"
  sampling_seed_base :: "int option"

record turn_scope =
  sc_turn_id :: string
  sc_backend_session_id :: "string option"
  sc_step_counter :: nat
  sc_inflight_requests :: nat
  sc_context_overflow_error :: "jobj option"
  sc_rollout_invalidated_error :: "jobj option"
  sc_max_steps_error :: "jobj option"
  sc_failed_upstream_error :: "jobj option"
  sc_drained :: bool
  sc_max_steps_exceeded :: bool

record turn_snapshot =
  sn_turn_id :: "string option"
  sn_backend_session_id :: "string option"
  sn_step :: nat
  sn_scope :: "nat option"
  sn_max_steps_exceeded :: bool

record proxy_state =
  px_scopes :: "turn_scope list"
  px_turn_scope :: "nat option"
  px_paused :: bool
  px_pause_reason :: "string option"
  px_current_version :: "string option"
  px_resume_event :: bool
  px_pause_started_at :: "real option"
  px_total_paused_seconds :: real
  px_sampling_request_sequence :: nat

definition new_scope :: "string \<Rightarrow> string option \<Rightarrow> turn_scope" where
  "new_scope turn_id backend_session_id =
     \<lparr>sc_turn_id = turn_id, sc_backend_session_id = backend_session_id, sc_step_counter = 0, sc_inflight_requests = 0,
      sc_context_overflow_error = None, sc_rollout_invalidated_error = None, sc_max_steps_error = None, sc_failed_upstream_error = None,
      sc_drained = True, sc_max_steps_exceeded = False\<rparr>"

text \<open>\<open>rstrip("/")\<close>, and the constructor.\<close>

definition rstrip_slash :: "string \<Rightarrow> string" where
  "rstrip_slash s = rstrip_by (\<lambda>c. c = CHR ''/'') s"

definition init_proxy :: "llm_proxy_config \<Rightarrow> string option \<Rightarrow> (llm_proxy_config \<times> proxy_state) result" where
  "init_proxy cfg expected_version =
     (if \<not> (case sampling_mode cfg of None \<Rightarrow> True | Some m \<Rightarrow> m = ''fill_missing'' \<or> m = ''force'')
      then Inl (ValueError ''sampling_mode must be 'fill_missing', 'force', or None'')
      else Inr (cfg\<lparr>upstream_origin := rstrip_slash (upstream_origin cfg),
                    router_api_path := (let p = rstrip_slash (router_api_path cfg) in if p = [] then ''/'' else p)\<rparr>,
                \<lparr>px_scopes = [], px_turn_scope = None, px_paused = False, px_pause_reason = None, px_current_version = expected_version,
                 px_resume_event = True, px_pause_started_at = None, px_total_paused_seconds = 0, px_sampling_request_sequence = 0\<rparr>))"

section \<open>The scope of a turn\<close>

definition upd_scope :: "nat \<Rightarrow> (turn_scope \<Rightarrow> turn_scope) \<Rightarrow> proxy_state \<Rightarrow> proxy_state" where
  "upd_scope a f st = st\<lparr>px_scopes := (px_scopes st)[a := f (px_scopes st ! a)]\<rparr>"

definition open_turn :: "string \<Rightarrow> string option \<Rightarrow> proxy_state \<Rightarrow> proxy_state result" where
  "open_turn turn_id backend_session_id st =
     (case px_turn_scope st of
        Some a \<Rightarrow> Inl (RuntimeError (''turn scope is already active for '' @ sc_turn_id (px_scopes st ! a)))
      | None \<Rightarrow> Inr (st\<lparr>px_scopes := px_scopes st @ [new_scope turn_id backend_session_id], px_turn_scope := Some (length (px_scopes st))\<rparr>))"

definition update_turn_backend_session :: "string \<Rightarrow> proxy_state \<Rightarrow> proxy_state" where
  "update_turn_backend_session backend_session_id st =
     (case px_turn_scope st of
        None \<Rightarrow> st
      | Some a \<Rightarrow> upd_scope a (\<lambda>s. s\<lparr>sc_backend_session_id := Some backend_session_id\<rparr>) st)"

definition clear_turn :: "proxy_state \<Rightarrow> proxy_state" where
  "clear_turn st = st\<lparr>px_turn_scope := None\<rparr>"

text \<open>Taking an error out of the scope: what it held, and the scope without it.\<close>

definition consume_error :: "(turn_scope \<Rightarrow> jobj option) \<Rightarrow> (turn_scope \<Rightarrow> turn_scope) \<Rightarrow> proxy_state \<Rightarrow> jobj option \<times> proxy_state" where
  "consume_error sel clear st =
     (case px_turn_scope st of
        None \<Rightarrow> (None, st)
      | Some a \<Rightarrow> (case sel (px_scopes st ! a) of None \<Rightarrow> (None, st) | Some p \<Rightarrow> (Some p, upd_scope a clear st)))"

definition consume_context_overflow_error :: "proxy_state \<Rightarrow> jobj option \<times> proxy_state" where
  "consume_context_overflow_error = consume_error sc_context_overflow_error (\<lambda>s. s\<lparr>sc_context_overflow_error := None\<rparr>)"

definition consume_rollout_invalidated_error :: "proxy_state \<Rightarrow> jobj option \<times> proxy_state" where
  "consume_rollout_invalidated_error = consume_error sc_rollout_invalidated_error (\<lambda>s. s\<lparr>sc_rollout_invalidated_error := None\<rparr>)"

definition consume_failed_upstream_error :: "proxy_state \<Rightarrow> jobj option \<times> proxy_state" where
  "consume_failed_upstream_error = consume_error sc_failed_upstream_error (\<lambda>s. s\<lparr>sc_failed_upstream_error := None\<rparr>)"

definition consume_max_steps_error :: "proxy_state \<Rightarrow> jobj option \<times> proxy_state" where
  "consume_max_steps_error = consume_error sc_max_steps_error (\<lambda>s. s\<lparr>sc_max_steps_error := None, sc_max_steps_exceeded := False\<rparr>)"

text \<open>
  Waiting for the step limit: before the wait the call returns at once or names the scope it waits
  on; after the wait it looks again.
\<close>

definition wait_for_max_steps_start :: "proxy_state \<Rightarrow> jobj option + nat" where
  "wait_for_max_steps_start st =
     (case px_turn_scope st of
        None \<Rightarrow> Inl None
      | Some a \<Rightarrow> (case sc_max_steps_error (px_scopes st ! a) of Some p \<Rightarrow> Inl (Some p) | None \<Rightarrow> Inr a))"

definition wait_for_max_steps_end :: "nat \<Rightarrow> bool \<Rightarrow> proxy_state \<Rightarrow> jobj option" where
  "wait_for_max_steps_end a timed_out st =
     (if timed_out \<or> px_turn_scope st \<noteq> Some a then None else sc_max_steps_error (px_scopes st ! a))"

definition http_inflight_count :: "proxy_state \<Rightarrow> nat" where
  "http_inflight_count st = (case px_turn_scope st of None \<Rightarrow> 0 | Some a \<Rightarrow> sc_inflight_requests (px_scopes st ! a))"

definition mark_request_started :: "nat \<Rightarrow> proxy_state \<Rightarrow> proxy_state" where
  "mark_request_started a = upd_scope a (\<lambda>s. s\<lparr>sc_inflight_requests := sc_inflight_requests s + 1, sc_drained := False\<rparr>)"

definition mark_request_finished :: "nat \<Rightarrow> proxy_state \<Rightarrow> proxy_state" where
  "mark_request_finished a = upd_scope a (\<lambda>s.
     (let n = sc_inflight_requests s - 1 in s\<lparr>sc_inflight_requests := n, sc_drained := (n = 0 \<or> sc_drained s)\<rparr>))"


section \<open>Pausing and resuming\<close>

definition pause_locked :: "real \<Rightarrow> string \<Rightarrow> proxy_state \<Rightarrow> proxy_state" where
  "pause_locked now reason st =
     st\<lparr>px_paused := True, px_pause_reason := Some reason,
        px_pause_started_at := (case px_pause_started_at st of None \<Rightarrow> Some now | Some t \<Rightarrow> Some t), px_resume_event := False\<rparr>"

definition pause_request :: "llm_proxy_config \<Rightarrow> string \<Rightarrow> pyval \<Rightarrow> jobj" where
  "pause_request cfg reason timeout_seconds =
     [(''session_id'', PStr (bound_session_id cfg)), (''instance_id'', PStr (bound_instance_id cfg)), (''reason'', PStr reason),
      (''mode'', PStr ''preempt''), (''timeout_seconds'', timeout_seconds)]"

text \<open>The reply: \<open>already\<close> is whether the proxy was paused before, \<open>st\<close> the state after the call to the router.\<close>

definition pause_reply :: "bool \<Rightarrow> string \<Rightarrow> jobj \<Rightarrow> proxy_state \<Rightarrow> jobj" where
  "pause_reply already reason result st =
     dset ''http_inflight_requests'' (PInt (int (http_inflight_count st)))
       (dsetdefault ''reason'' (PStr reason)
         (dsetdefault ''status'' (PStr (if already then ''already_paused'' else ''paused'')) result))"

definition resume_request :: "llm_proxy_config \<Rightarrow> string option \<Rightarrow> string \<Rightarrow> jobj" where
  "resume_request cfg version reason =
     [(''session_id'', PStr (bound_session_id cfg)), (''instance_id'', PStr (bound_instance_id cfg)), (''reason'', PStr reason),
      (''version'', case version of None \<Rightarrow> PNone | Some v \<Rightarrow> PStr v)]"

definition resume_locked :: "real \<Rightarrow> string option \<Rightarrow> proxy_state \<Rightarrow> proxy_state" where
  "resume_locked now version st =
     st\<lparr>px_current_version := (case version of None \<Rightarrow> px_current_version st | Some v \<Rightarrow> Some v),
        px_total_paused_seconds := px_total_paused_seconds st + (case px_pause_started_at st of None \<Rightarrow> 0 | Some t \<Rightarrow> now - t),
        px_pause_started_at := None, px_paused := False, px_pause_reason := None, px_resume_event := True\<rparr>"

definition resume_reply :: "bool \<Rightarrow> string \<Rightarrow> jobj \<Rightarrow> proxy_state \<Rightarrow> jobj" where
  "resume_reply was_paused reason result st =
     dset ''http_inflight_requests'' (PInt (int (http_inflight_count st)))
       (dsetdefault ''version'' (case px_current_version st of None \<Rightarrow> PNone | Some v \<Rightarrow> PStr v)
         (dsetdefault ''reason'' (PStr reason)
           (dsetdefault ''status'' (PStr (if was_paused then ''resumed'' else ''already_running'')) result)))"

definition pause_state :: "proxy_state \<Rightarrow> jobj" where
  "pause_state st =
     [(''paused'', PBool (px_paused st)), (''pause_reason'', case px_pause_reason st of None \<Rightarrow> PNone | Some r \<Rightarrow> PStr r),
      (''version'', case px_current_version st of None \<Rightarrow> PNone | Some v \<Rightarrow> PStr v),
      (''http_inflight_requests'', PInt (int (http_inflight_count st))), (''total_paused_seconds'', PFloat (Fin (px_total_paused_seconds st)))]"

text \<open>
  Waiting with a deadline that paused time pushes back.  A round of the loop either sits out a
  pause, from one reading of the clock to another, or waits while the proxy runs: from a reading
  of the clock until the event, a change of the pause state, or the deadline.
\<close>

datatype wait_round = SatPause real real bool | Running real "bool option"

datatype wait_result = Drained | TimedOut | Waiting real

fun wait_event_excluding_pause :: "real \<Rightarrow> wait_round list \<Rightarrow> wait_result" where
  "wait_event_excluding_pause deadline [] = Waiting deadline"
| "wait_event_excluding_pause deadline (SatPause pause_started now event_done # rounds) =
     (if event_done then Drained else wait_event_excluding_pause (deadline + (now - pause_started)) rounds)"
| "wait_event_excluding_pause deadline (Running now outcome # rounds) =
     (if deadline - now \<le> 0 then TimedOut
      else case outcome of
             Some True \<Rightarrow> Drained
           | Some False \<Rightarrow> wait_event_excluding_pause deadline rounds
           | None \<Rightarrow> TimedOut)"


section \<open>Admission of model requests\<close>

definition unbound_snapshot :: turn_snapshot where
  "unbound_snapshot = \<lparr>sn_turn_id = None, sn_backend_session_id = None, sn_step = 0, sn_scope = None, sn_max_steps_exceeded = False\<rparr>"

definition scope_snapshot :: "nat \<Rightarrow> bool \<Rightarrow> turn_scope \<Rightarrow> turn_snapshot" where
  "scope_snapshot a exceeded s =
     \<lparr>sn_turn_id = Some (sc_turn_id s), sn_backend_session_id = sc_backend_session_id s, sn_step = sc_step_counter s, sn_scope = Some a,
      sn_max_steps_exceeded = exceeded\<rparr>"

definition capture_snapshot :: "proxy_state \<Rightarrow> turn_snapshot \<times> proxy_state" where
  "capture_snapshot st =
     (case px_turn_scope st of
        None \<Rightarrow> (unbound_snapshot, st)
      | Some a \<Rightarrow> (scope_snapshot a False (px_scopes st ! a), upd_scope a (\<lambda>s. s\<lparr>sc_step_counter := sc_step_counter s + 1\<rparr>) st))"

text \<open>One round of the admission loop; \<open>None\<close> is waiting for the next resume.\<close>

definition enter_chat_request :: "llm_proxy_config \<Rightarrow> proxy_state \<Rightarrow> (turn_snapshot \<times> proxy_state) option" where
  "enter_chat_request cfg st =
     (if px_paused st then None
      else case px_turn_scope st of
        None \<Rightarrow> Some (unbound_snapshot, st)
      | Some a \<Rightarrow>
          (let s = px_scopes st ! a
           in if (case cfg_max_steps cfg of None \<Rightarrow> False | Some m \<Rightarrow> m \<le> int (sc_step_counter s))
              then Some (scope_snapshot a True s, st)
              else Some (scope_snapshot a False s,
                upd_scope a (\<lambda>s. s\<lparr>sc_step_counter := sc_step_counter s + 1, sc_inflight_requests := sc_inflight_requests s + 1,
                                   sc_drained := False\<rparr>) st)))"

definition max_steps_value :: "llm_proxy_config \<Rightarrow> pyval" where
  "max_steps_value cfg = (case cfg_max_steps cfg of None \<Rightarrow> PNone | Some m \<Rightarrow> PInt m)"

definition opt_text :: "string option \<Rightarrow> pyval" where
  "opt_text v = (case v of None \<Rightarrow> PNone | Some s \<Rightarrow> PStr s)"

definition max_steps_error_payload :: "llm_proxy_config \<Rightarrow> turn_snapshot \<Rightarrow> jobj" where
  "max_steps_error_payload cfg sn =
     [(''error'', PStr ''max_steps_exceeded''), (''message'', PStr ''Turn exceeded max_steps.''),
      (''details'', PDict [(''session_id'', PStr (bound_session_id cfg)), (''turn_id'', opt_text (sn_turn_id sn)),
         (''max_steps'', max_steps_value cfg), (''attempted_step'', PInt (int (sn_step sn))),
         (''backend_message'', PStr ''429 Turn exceeded max_steps.''), (''raw_error_code'', PStr ''rate_limit_error'')])]"

definition record_max_steps_error :: "llm_proxy_config \<Rightarrow> turn_snapshot \<Rightarrow> proxy_state \<Rightarrow> proxy_state" where
  "record_max_steps_error cfg sn st =
     (case sn_scope sn of
        None \<Rightarrow> st
      | Some a \<Rightarrow> upd_scope a (\<lambda>s. s\<lparr>sc_max_steps_error := Some (max_steps_error_payload cfg sn), sc_max_steps_exceeded := True\<rparr>) st)"


definition max_steps_response_body :: "llm_proxy_config \<Rightarrow> turn_snapshot \<Rightarrow> bool \<Rightarrow> jobj" where
  "max_steps_response_body cfg sn anthropic =
     (if anthropic then [(''type'', PStr ''error'')] else []) @
     [(''error'', PDict [(''message'', PStr ''Turn exceeded max_steps.''), (''type'', PStr ''rate_limit_error''),
        (''code'', PStr ''max_steps_exceeded''),
        (''details'', PDict [(''max_steps'', max_steps_value cfg), (''attempted_step'', PInt (int (sn_step sn)))])])]"


section \<open>Paths, addresses and headers\<close>

definition upper_char :: "char \<Rightarrow> char" where
  "upper_char c = (if CHR ''a'' \<le> c \<and> c \<le> CHR ''z'' then char_of (of_char c - 32 :: nat) else c)"

definition is_post :: "string \<Rightarrow> bool" where
  "is_post method \<longleftrightarrow> map upper_char method = ''POST''"

definition is_chat_completion :: "string \<Rightarrow> string \<Rightarrow> bool" where
  "is_chat_completion method path \<longleftrightarrow> is_post method \<and> endswith (rstrip_slash (''/'' @ path)) ''/chat/completions''"

definition is_anthropic_messages :: "string \<Rightarrow> string \<Rightarrow> bool" where
  "is_anthropic_messages method path \<longleftrightarrow> is_post method \<and> endswith (rstrip_slash (''/'' @ path)) ''/messages''"

definition is_openai_responses :: "string \<Rightarrow> string \<Rightarrow> bool" where
  "is_openai_responses method path \<longleftrightarrow> is_post method \<and> endswith (rstrip_slash (''/'' @ path)) ''/responses''"

definition join_upstream :: "llm_proxy_config \<Rightarrow> string \<Rightarrow> string \<Rightarrow> string" where
  "join_upstream cfg path query =
     (let url = upstream_origin cfg @ ''/'' @ lstrip_by (\<lambda>c. c = CHR ''/'') path
      in if query \<noteq> [] then url @ ''?'' @ query else url)"

definition openai_chat_completions_upstream_url :: "llm_proxy_config \<Rightarrow> string" where
  "openai_chat_completions_upstream_url cfg =
     (if router_api_path cfg = ''/'' then upstream_origin cfg @ ''/chat/completions''
      else upstream_origin cfg @ router_api_path cfg @ ''/chat/completions'')"

definition control_url :: "llm_proxy_config \<Rightarrow> string \<Rightarrow> string" where
  "control_url cfg endpoint =
     (let endpoint = (if startswith endpoint ''/'' then endpoint else ''/'' @ endpoint);
          base = (if router_api_path cfg = ''/'' then upstream_origin cfg else rstrip_slash (upstream_origin cfg @ router_api_path cfg))
      in base @ endpoint)"

text \<open>Setting a header removes every spelling of its name first.\<close>

definition set_header :: "string \<Rightarrow> string \<Rightarrow> headers \<Rightarrow> headers" where
  "set_header name v hs = dset name v (filter (\<lambda>(k, _). lower k \<noteq> lower name) hs)"

definition set_header_if :: "string \<Rightarrow> string option \<Rightarrow> headers \<Rightarrow> headers" where
  "set_header_if name v hs = (case v of None \<Rightarrow> hs | Some x \<Rightarrow> set_header name x hs)"

definition reserved_headers :: "llm_proxy_config \<Rightarrow> bool \<Rightarrow> bool \<Rightarrow> string list" where
  "reserved_headers cfg is_chat is_anthropic =
     [''host'', ''content-length'', ''transfer-encoding''] @
     (if is_chat then [''accept-encoding'', lower (sticky_header_name cfg), ''x-session-id'', ''x-instance-id'', ''x-turn-id'',
        ''x-dressage-partial-rollout'', ''x-dressage-expected-version'', ''x-dressage-sandbox-id''] else []) @
     (if is_anthropic then [''anthropic-beta'', ''anthropic-dangerous-direct-browser-access'', ''anthropic-version'', ''x-app'',
        ''x-claude-code-session-id''] else [])"

definition kept_header :: "llm_proxy_config \<Rightarrow> bool \<Rightarrow> bool \<Rightarrow> string \<Rightarrow> bool" where
  "kept_header cfg is_chat is_anthropic key \<longleftrightarrow>
     lower key \<notin> set (reserved_headers cfg is_chat is_anthropic) \<and> \<not> (is_anthropic \<and> startswith (lower key) ''x-stainless-'')"

definition nonempty :: "string option \<Rightarrow> string option" where
  "nonempty v = (case v of None \<Rightarrow> None | Some s \<Rightarrow> if s = [] then None else Some s)"

definition identity_headers :: "llm_proxy_config \<Rightarrow> proxy_state \<Rightarrow> string option \<Rightarrow> headers \<Rightarrow> headers" where
  "identity_headers cfg st turn_id hs =
     (let hs = set_header (sticky_header_name cfg) (bound_session_id cfg) hs;
          hs = set_header ''X-Session-Id'' (bound_session_id cfg) hs;
          hs = set_header ''X-Instance-Id'' (bound_instance_id cfg) hs;
          hs = set_header_if ''X-Turn-Id'' (nonempty turn_id) hs;
          hs = set_header_if ''X-Dressage-Sandbox-Id'' (nonempty (bound_sandbox_id cfg)) hs;
          hs = set_header ''X-Dressage-Partial-Rollout'' ''1'' hs;
          hs = set_header_if ''X-Dressage-Expected-Version'' (px_current_version st) hs
      in set_header ''Accept-Encoding'' ''identity'' hs)"

definition build_upstream_headers :: "llm_proxy_config \<Rightarrow> proxy_state \<Rightarrow> (string \<times> string) list \<Rightarrow> bool \<Rightarrow> bool \<Rightarrow> string option \<Rightarrow> headers" where
  "build_upstream_headers cfg st original_headers is_chat is_anthropic turn_id =
     (let hs = fold (\<lambda>(k, v) hs. if kept_header cfg is_chat is_anthropic k then dset k v hs else hs) original_headers [];
          hs = fold (\<lambda>(k, v). set_header k v) (upstream_headers cfg) hs
      in if is_chat then identity_headers cfg st turn_id hs else hs)"

definition control_headers :: "llm_proxy_config \<Rightarrow> proxy_state \<Rightarrow> headers" where
  "control_headers cfg st =
     set_header_if ''X-Dressage-Expected-Version'' (px_current_version st)
       (set_header ''X-Instance-Id'' (bound_instance_id cfg) (set_header ''X-Session-Id'' (bound_session_id cfg) (upstream_headers cfg)))"

definition request_headers :: "headers \<Rightarrow> string \<Rightarrow> headers" where
  "request_headers hs body = dset ''content-length'' (show_nat (length body)) hs"

text \<open>The values a receiver finds under a header name, in any spelling.\<close>

definition header_values :: "string \<Rightarrow> headers \<Rightarrow> string list" where
  "header_values name hs = map snd (filter (\<lambda>(k, _). lower k = lower name) hs)"

lemma header_values_set [simp]: "header_values n (set_header m v hs) = (if lower n = lower m then [v] else header_values n hs)"
proof -
  have "\<not> dmem m (filter (\<lambda>(k, _). lower k \<noteq> lower m) hs)" by (auto simp: dmem_iff)
  then have "set_header m v hs = filter (\<lambda>(k, _). lower k \<noteq> lower m) hs @ [(m, v)]" by (simp add: set_header_def dset_new)
  then show ?thesis by (auto simp: header_values_def filter_empty_conv intro!: arg_cong [of _ _ "map snd"] filter_cong)
qed

lemma header_values_set_if [simp]:
  "header_values n (set_header_if m v hs) = (case v of Some x \<Rightarrow> if lower n = lower m then [x] else header_values n hs | None \<Rightarrow> header_values n hs)"
  by (simp add: set_header_if_def split: option.split)

lemma lower_eval: "lower ''X-Session-Id'' = ''x-session-id''" "lower ''X-Instance-Id'' = ''x-instance-id''" "lower ''X-Turn-Id'' = ''x-turn-id''"
  "lower ''X-Dressage-Sandbox-Id'' = ''x-dressage-sandbox-id''" "lower ''X-Dressage-Partial-Rollout'' = ''x-dressage-partial-rollout''"
  "lower ''X-Dressage-Expected-Version'' = ''x-dressage-expected-version''" "lower ''Accept-Encoding'' = ''accept-encoding''"
  "lower ''x-session-id'' = ''x-session-id''" "lower ''x-instance-id'' = ''x-instance-id''" "lower ''x-turn-id'' = ''x-turn-id''"
  "lower ''x-dressage-sandbox-id'' = ''x-dressage-sandbox-id''" "lower ''x-dressage-partial-rollout'' = ''x-dressage-partial-rollout''"
  "lower ''x-dressage-expected-version'' = ''x-dressage-expected-version''" "lower ''accept-encoding'' = ''accept-encoding''"
  by code_simp+

lemma header_values_kept_fold:
  assumes "\<And>k v. (k, v) \<in> set hs0 \<Longrightarrow> lower k \<noteq> lower n" "\<And>k. P k \<Longrightarrow> lower k \<noteq> lower n"
  shows "header_values n (fold (\<lambda>(k, v) hs. if P k then dset k v hs else hs) original hs0) = []"
  using assms(1)
proof (induction original arbitrary: hs0)
  case Nil
  then show ?case by (auto simp: header_values_def filter_empty_conv)
next
  case (Cons kv original)
  obtain k v where kv: "kv = (k, v)" by fastforce
  have "k' \<in> fst ` set (dset k v hs0) \<Longrightarrow> k' = k \<or> k' \<in> fst ` set hs0" for k'
    using dmem_dset [of k' k v hs0] by (simp add: dmem_iff)
  then have "P k \<Longrightarrow> (k', v') \<in> set (dset k v hs0) \<Longrightarrow> lower k' \<noteq> lower n" for k' v'
    using Cons.prems assms(2) [of k] by force
  then show ?case using Cons kv by auto
qed

lemma header_values_static_fold:
  assumes "\<And>k v. (k, v) \<in> set static \<Longrightarrow> lower k \<noteq> lower n"
  shows "header_values n (fold (\<lambda>(k, v). set_header k v) static hs) = header_values n hs"
  using assms
proof (induction static arbitrary: hs)
  case (Cons kv static)
  obtain k v where kv: "kv = (k, v)" by fastforce
  have "lower k \<noteq> lower n" using Cons.prems [of k v] kv by simp
  then show ?case using Cons.IH [of "set_header k v hs"] Cons.prems kv by force
qed simp

lemma identity_headers_values:
  "header_values ''x-session-id'' (identity_headers cfg st t hs) = [bound_session_id cfg]"
  "header_values ''x-instance-id'' (identity_headers cfg st t hs) = [bound_instance_id cfg]"
  "header_values ''x-dressage-partial-rollout'' (identity_headers cfg st t hs) = [''1'']"
  "header_values ''accept-encoding'' (identity_headers cfg st t hs) = [''identity'']"
  by (simp_all add: identity_headers_def Let_def lower_eval split: option.split)

lemma identity_headers_optional:
  assumes "header_values n hs = []" "lower (sticky_header_name cfg) \<noteq> lower n"
  shows "n = ''x-turn-id'' \<Longrightarrow> header_values n (identity_headers cfg st t hs) = (case nonempty t of Some v \<Rightarrow> [v] | None \<Rightarrow> [])"
    "n = ''x-dressage-sandbox-id'' \<Longrightarrow> header_values n (identity_headers cfg st t hs) = (case nonempty (bound_sandbox_id cfg) of Some v \<Rightarrow> [v] | None \<Rightarrow> [])"
    "n = ''x-dressage-expected-version'' \<Longrightarrow> header_values n (identity_headers cfg st t hs) = (case px_current_version st of Some v \<Rightarrow> [v] | None \<Rightarrow> [])"
  using assms by (simp_all add: identity_headers_def Let_def lower_eval split: option.split)




section \<open>Bodies of model requests\<close>

datatype protocol = ChatCompletions | AnthropicMessages | OpenaiResponses

definition request_protocol :: "string \<Rightarrow> string \<Rightarrow> protocol option" where
  "request_protocol method path =
     (if is_chat_completion method path then Some ChatCompletions
      else if is_anthropic_messages method path then Some AnthropicMessages
      else if is_openai_responses method path then Some OpenaiResponses else None)"

definition chat_body :: "proxy_lib \<Rightarrow> protocol \<Rightarrow> jobj \<Rightarrow> jobj result" where
  "chat_body lib p body =
     (case p of
        ChatCompletions \<Rightarrow> Inr body
      | AnthropicMessages \<Rightarrow> anthropic_messages_to_openai_chat_completion (llm_lib.truncate lib) body
      | OpenaiResponses \<Rightarrow> openai_responses_to_chat_completion (llm_lib.truncate lib) body)"

text \<open>\<open>len(body.get("messages", []))\<close> in the log line: it raises on a value without a length.\<close>

definition message_count :: "jobj \<Rightarrow> nat result" where
  "message_count body =
     (case get_default body ''messages'' (PList []) of
        PList xs \<Rightarrow> Inr (length xs) | PDict d \<Rightarrow> Inr (length d) | PStr s \<Rightarrow> Inr (length s)
      | _ \<Rightarrow> Inl (TypeError ''object has no len()''))"

definition override_model :: "llm_proxy_config \<Rightarrow> jobj \<Rightarrow> jobj" where
  "override_model cfg body =
     (case model_override cfg of Some m \<Rightarrow> if dmem ''model'' body then dset ''model'' (PStr m) body else body | None \<Rightarrow> body)"

definition fill_option :: "string \<Rightarrow> string \<Rightarrow> pyval option \<Rightarrow> jobj \<Rightarrow> jobj" where
  "fill_option mode key v body =
     (case v of Some x \<Rightarrow> if mode = ''force'' \<or> pget body key = PNone then dset key x body else body | None \<Rightarrow> body)"

definition sampling_policy :: "llm_proxy_config \<Rightarrow> nat \<Rightarrow> jobj \<Rightarrow> jobj" where
  "sampling_policy cfg n body =
     (case sampling_mode cfg of
        None \<Rightarrow> body
      | Some mode \<Rightarrow>
          fill_option mode ''seed'' (map_option (\<lambda>b. PInt (b + int n)) (sampling_seed_base cfg))
            (fill_option mode ''top_p'' (map_option PFloat (sampling_top_p cfg))
              (fill_option mode ''temperature'' (map_option PFloat (sampling_temperature cfg)) body)))"

definition default_temperature_policy :: "llm_proxy_config \<Rightarrow> jobj \<Rightarrow> jobj" where
  "default_temperature_policy cfg body =
     (case default_temperature cfg of
        Some t \<Rightarrow> if pget body ''temperature'' = PNone then dset ''temperature'' (PFloat t) body else body
      | None \<Rightarrow> body)"

definition stream_policy :: "jobj \<Rightarrow> jobj" where
  "stream_policy body =
     (if truthy (get_default body ''stream'' (PBool False))
      then dset ''stream_options'' (PDict (dset ''include_usage'' (PBool True) (as_object (pget body ''stream_options'')))) body
      else dpop ''stream_options'' body)"

definition apply_policy :: "llm_proxy_config \<Rightarrow> nat \<Rightarrow> jobj \<Rightarrow> jobj" where
  "apply_policy cfg n body = stream_policy (default_temperature_policy cfg (sampling_policy cfg n (override_model cfg body)))"

definition next_sequence :: "llm_proxy_config \<Rightarrow> nat \<Rightarrow> nat" where
  "next_sequence cfg n = (if sampling_mode cfg = None then n else n + 1)"

definition final_bytes :: "proxy_lib \<Rightarrow> jobj \<Rightarrow> jobj \<Rightarrow> string \<Rightarrow> string" where
  "final_bytes lib body original bytes =
     (if py_eq (PDict body) (PDict original) then bytes else utf8_encode lib (json_text lib (PDict body)))"

lemma dget_override_model:
  "dget (override_model cfg b) k = (case model_override cfg of Some m \<Rightarrow> if k = ''model'' \<and> dmem k b then Some (PStr m) else dget b k | None \<Rightarrow> dget b k)"
  by (auto simp: override_model_def split: option.split)

lemma dget_fill_option:
  "dget (fill_option mode key v b) k =
     (case v of Some x \<Rightarrow> if k = key \<and> (mode = ''force'' \<or> pget b key = PNone) then Some x else dget b k | None \<Rightarrow> dget b k)"
  by (simp add: fill_option_def split: option.split)

lemma dget_default_temperature:
  "dget (default_temperature_policy cfg b) k =
     (case default_temperature cfg of Some t \<Rightarrow> if k = ''temperature'' \<and> pget b k = PNone then Some (PFloat t) else dget b k | None \<Rightarrow> dget b k)"
  by (auto simp: default_temperature_policy_def split: option.split)

lemma dget_stream_policy: "k \<noteq> ''stream_options'' \<Longrightarrow> dget (stream_policy b) k = dget b k"
  by (simp add: stream_policy_def)

lemma dget_sampling_policy:
  "k \<notin> {''temperature'', ''top_p'', ''seed''} \<Longrightarrow> dget (sampling_policy cfg n b) k = dget b k"
  "dget (sampling_policy cfg n b) ''temperature'' = (case sampling_mode cfg of None \<Rightarrow> dget b ''temperature''
     | Some mode \<Rightarrow> dget (fill_option mode ''temperature'' (map_option PFloat (sampling_temperature cfg)) b) ''temperature'')"
  "dget (sampling_policy cfg n b) ''top_p'' = (case sampling_mode cfg of None \<Rightarrow> dget b ''top_p''
     | Some mode \<Rightarrow> dget (fill_option mode ''top_p'' (map_option PFloat (sampling_top_p cfg)) b) ''top_p'')"
  "dget (sampling_policy cfg n b) ''seed'' = (case sampling_mode cfg of None \<Rightarrow> dget b ''seed''
     | Some mode \<Rightarrow> dget (fill_option mode ''seed'' (map_option (\<lambda>x. PInt (x + int n)) (sampling_seed_base cfg)) b) ''seed'')"
  by (simp_all add: sampling_policy_def dget_fill_option pget_def split: option.split)

lemmas policy_reads = dget_stream_policy dget_default_temperature dget_sampling_policy dget_override_model dget_fill_option

lemma truthy_get_default: "truthy (get_default b k (PBool False)) = truthy (pget b k)"
  by (auto simp: get_default_def pget_def dmem_def)

lemma stream_policy_options:
  "if truthy (pget b ''stream'') then pget (as_object (pget (stream_policy b) ''stream_options'')) ''include_usage'' = PBool True
   else \<not> dmem ''stream_options'' (stream_policy b)"
  by (simp add: stream_policy_def truthy_get_default pget_def as_object_def)

lemma apply_policy_reads:
  "k \<notin> {''model'', ''temperature'', ''top_p'', ''seed'', ''stream_options''} \<Longrightarrow> dget (apply_policy cfg n body) k = dget body k"
  "model_override cfg = Some m \<Longrightarrow> dmem ''model'' body \<Longrightarrow> dget (apply_policy cfg n body) ''model'' = Some (PStr m)"
  "k \<in> {''temperature'', ''top_p'', ''seed''} \<Longrightarrow> sampling_mode cfg \<noteq> Some ''force'' \<Longrightarrow> pget body k \<noteq> PNone \<Longrightarrow> dget (apply_policy cfg n body) k = dget body k"
  "sampling_top_p cfg = Some p \<Longrightarrow> sampling_mode cfg = Some ''force'' \<Longrightarrow> dget (apply_policy cfg n body) ''top_p'' = Some (PFloat p)"
  "sampling_temperature cfg = Some t \<Longrightarrow> sampling_mode cfg = Some ''force'' \<Longrightarrow> dget (apply_policy cfg n body) ''temperature'' = Some (PFloat t)"
  "sampling_seed_base cfg = Some b \<Longrightarrow> sampling_mode cfg = Some ''force'' \<or> sampling_mode cfg = Some ''fill_missing'' \<and> pget body ''seed'' = PNone \<Longrightarrow>
     dget (apply_policy cfg n body) ''seed'' = Some (PInt (b + int n))"
proof goal_cases
  case 3
  then show ?case by (elim insertE emptyE) (simp_all add: apply_policy_def policy_reads pget_def split: option.splits)
qed (auto simp: apply_policy_def policy_reads pget_def split: option.split)

text \<open>
  The sampling policy of the training run holds in every model request: in forced mode
  the temperature, nucleus mass and seed that go upstream are the configured ones whatever the
  agent asked for, in filling mode the agent's own values stand; the seed of the \<open>n\<close>-th request is the base plus \<open>n\<close>;
  an overridden model replaces the agent's; usage is requested exactly when the answer is
  streamed; and nothing else in the body changes.
\<close>

theorem policy_holds:
  "let out = apply_policy cfg n body in
     (\<forall>k. k \<notin> {''model'', ''temperature'', ''top_p'', ''seed'', ''stream_options''} \<longrightarrow> dget out k = dget body k) \<and>
     (\<forall>m. model_override cfg = Some m \<and> dmem ''model'' body \<longrightarrow> dget out ''model'' = Some (PStr m)) \<and>
     (\<forall>b. sampling_seed_base cfg = Some b \<and> (sampling_mode cfg = Some ''force'' \<or> sampling_mode cfg = Some ''fill_missing'' \<and> pget body ''seed'' = PNone) \<longrightarrow>
        dget out ''seed'' = Some (PInt (b + int n))) \<and>
     (\<forall>t. sampling_temperature cfg = Some t \<and> sampling_mode cfg = Some ''force'' \<longrightarrow> dget out ''temperature'' = Some (PFloat t)) \<and>
     (\<forall>t. sampling_top_p cfg = Some t \<and> sampling_mode cfg = Some ''force'' \<longrightarrow> dget out ''top_p'' = Some (PFloat t)) \<and>
     (\<forall>k. k \<in> {''temperature'', ''top_p'', ''seed''} \<and> sampling_mode cfg \<noteq> Some ''force'' \<and> pget body k \<noteq> PNone \<longrightarrow> dget out k = dget body k) \<and>
     (if truthy (pget body ''stream'') then pget (as_object (pget out ''stream_options'')) ''include_usage'' = PBool True else \<not> dmem ''stream_options'' out)"
proof -
  let ?b = "default_temperature_policy cfg (sampling_policy cfg n (override_model cfg body))"
  have "pget ?b ''stream'' = pget body ''stream''" by (simp add: pget_def policy_reads split: option.split)
  then have options: "if truthy (pget body ''stream'') then pget (as_object (pget (apply_policy cfg n body) ''stream_options'')) ''include_usage'' = PBool True
      else \<not> dmem ''stream_options'' (apply_policy cfg n body)"
    using stream_policy_options [of ?b] by (simp add: apply_policy_def)
  show ?thesis
    unfolding Let_def
  proof (intro conjI allI impI)
    show "if truthy (pget body ''stream'') then pget (as_object (pget (apply_policy cfg n body) ''stream_options'')) ''include_usage'' = PBool True
      else \<not> dmem ''stream_options'' (apply_policy cfg n body)" by (rule options)
  qed ((elim conjE)?, rule apply_policy_reads, assumption+)+
qed



section \<open>Answers of the upstream\<close>

definition hex_digit :: "nat \<Rightarrow> char" where
  "hex_digit n = char_of (if n < 10 then 48 + n else 87 + n)"

definition hex_text :: "string \<Rightarrow> string" where
  "hex_text s = concat (map (\<lambda>c. [hex_digit (of_char c div 16), hex_digit (of_char c mod 16)]) s)"

definition binary_preview :: "string \<Rightarrow> nat \<Rightarrow> string" where
  "binary_preview body limit =
     (let hex_limit = min limit 96
      in ''<'' @ show_nat (length body) @ '' bytes binary; hex='' @ hex_text (take hex_limit body) @
         (if hex_limit < length body then ''...(truncated)'' else []) @ ''>'')"

definition is_control :: "char \<Rightarrow> bool" where
  "is_control c \<longleftrightarrow> (of_char c :: nat) < 32 \<and> c \<notin> {CHR 0x0A, CHR 0x0D, CHR 0x09}"

definition preview_bytes :: "proxy_lib \<Rightarrow> nat \<Rightarrow> string \<Rightarrow> string" where
  "preview_bytes lib limit body =
     (if body = [] then []
      else case utf8_decode lib body of
        None \<Rightarrow> binary_preview body limit
      | Some t \<Rightarrow>
          (let sample = take limit t
           in if max 8 (length sample div 10) < length (filter is_control sample) then binary_preview body limit
              else if length t \<le> limit then t else take limit t @ ''...(truncated)''))"

definition body_object :: "proxy_lib \<Rightarrow> string \<Rightarrow> jobj option" where
  "body_object lib body =
     (case utf8_decode lib body of
        None \<Rightarrow> None
      | Some t \<Rightarrow> (case json_loads lib t of Some (PDict d) \<Rightarrow> Some d | _ \<Rightarrow> None))"

definition error_code :: "jobj \<Rightarrow> pyval" where
  "error_code d = py_or (pget d ''code'') (pget d ''error'')"

definition context_overflow_payload_from_response :: "proxy_lib \<Rightarrow> int \<Rightarrow> string \<Rightarrow> jobj option" where
  "context_overflow_payload_from_response lib status_code body =
     (if status_code \<noteq> 413 \<or> body = [] then None
      else case body_object lib body of
        Some d \<Rightarrow> if error_code d = PStr ''context_overflow'' then Some d else None
      | None \<Rightarrow> None)"

text \<open>The code is looked up in a set, so a code that cannot be hashed raises.\<close>

definition rollout_invalidated_payload_from_response :: "proxy_lib \<Rightarrow> int \<Rightarrow> string \<Rightarrow> jobj option result" where
  "rollout_invalidated_payload_from_response lib status_code body =
     (if status_code \<noteq> 502 \<or> body = [] then Inr None
      else case body_object lib body of
        None \<Rightarrow> Inr None
      | Some d \<Rightarrow>
          (let candidate = (case pget d ''detail'' of PDict e \<Rightarrow> e | _ \<Rightarrow> d)
           in rbind (in_strings (error_code candidate) [''generation_preempted'', ''partial_rollout_staleness_exceeded'', ''trajectory_version_changed''])
                (\<lambda>b. Inr (if b then Some candidate else None))))"

definition is_filename_char :: "char \<Rightarrow> bool" where
  "is_filename_char c \<longleftrightarrow> is_alnum c \<or> c \<in> {CHR ''-'', CHR ''_'', CHR ''.''}"

definition safe_filename :: "string \<Rightarrow> string" where
  "safe_filename s = map (\<lambda>c. if is_filename_char c then c else CHR ''_'') s"

definition dump_path :: "string \<Rightarrow> string \<Rightarrow> turn_snapshot \<Rightarrow> string" where
  "dump_path dir kind sn =
     dir @ ''/'' @ kind @ ''.'' @ safe_filename (case nonempty (sn_turn_id sn) of Some t \<Rightarrow> t | None \<Rightarrow> ''untagged'') @ ''.'' @ show_nat (sn_step sn) @ ''.json''"

definition failed_upstream_error_payload :: "proxy_lib \<Rightarrow> llm_proxy_config \<Rightarrow> turn_snapshot \<Rightarrow> string \<Rightarrow> int \<Rightarrow> string \<Rightarrow> jobj" where
  "failed_upstream_error_payload lib cfg sn url status_code body =
     (let preview = preview_bytes lib 1000 body
      in [(''error'', PStr ''upstream_request_failed''),
          (''message'', PStr (''Upstream returned HTTP '' @ show_int status_code @ (if preview \<noteq> [] then '': '' @ preview else []))),
          (''status_code'', PInt status_code), (''upstream_url'', PStr url), (''turn_id'', opt_text (sn_turn_id sn)), (''step'', PInt (int (sn_step sn)))] @
         (case debug_log_dir cfg of
            None \<Rightarrow> []
          | Some dir \<Rightarrow> (case dump_error lib of
               Some e \<Rightarrow> [(''dump_error'', PStr e)]
             | None \<Rightarrow> [(''request_path'', PStr (dump_path dir ''upstream_request'' sn)),
                        (''response_path'', PStr (dump_path dir ''upstream_response'' sn))])))"

text \<open>What a request does to its scope, one effect at a time, and what the agent gets.\<close>

datatype scope_effect = RecordOverflow jobj | RecordInvalidated jobj | RecordFailed jobj | Finish

text \<open>
  A streamed answer is the generator that produces it: the bytes forwarded as they are, or the first
  bytes and the further chunks that are translated; the exception is the one that ends the chunks.
\<close>

datatype stream_source = Verbatim "string list" | ToAnthropic string "string list" | ToResponses string "string list" jobj

datatype answer = Answer int headers string | StreamAnswer int headers stream_source "exn option" | Raised exn

fun apply_effect :: "nat \<Rightarrow> scope_effect \<Rightarrow> proxy_state \<Rightarrow> proxy_state" where
  "apply_effect a (RecordOverflow p) st = upd_scope a (\<lambda>s. s\<lparr>sc_context_overflow_error := Some p\<rparr>) st"
| "apply_effect a (RecordInvalidated p) st = upd_scope a (\<lambda>s. s\<lparr>sc_rollout_invalidated_error := Some p\<rparr>) st"
| "apply_effect a (RecordFailed p) st = upd_scope a (\<lambda>s. s\<lparr>sc_failed_upstream_error := Some p\<rparr>) st"
| "apply_effect a Finish st = mark_request_finished a st"

type_synonym outcome = "scope_effect list \<times> answer"

definition json_answer :: "proxy_lib \<Rightarrow> int \<Rightarrow> headers \<Rightarrow> jobj \<Rightarrow> answer" where
  "json_answer lib status hs payload = Answer status hs (utf8_encode lib (json_text lib (PDict payload)))"

definition json_headers :: headers where
  "json_headers = [(''content-type'', ''application/json'')]"

definition event_headers :: headers where
  "event_headers = [(''content-type'', ''text/event-stream'')]"

definition zero_usage :: "string list \<Rightarrow> pyval" where
  "zero_usage ks = PDict (map (\<lambda>k. (k, PInt 0)) ks)"

definition synthetic_chat_completion :: jobj where
  "synthetic_chat_completion =
     [(''id'', PStr ''chatcmpl-rollout-invalidated''), (''object'', PStr ''chat.completion''), (''created'', PInt 0), (''model'', PStr ''proxy-model''),
      (''choices'', PList [PDict [(''index'', PInt 0), (''message'', PDict [(''role'', PStr ''assistant''), (''content'', PStr [])]),
         (''finish_reason'', PStr ''stop'')]]),
      (''usage'', zero_usage [''prompt_tokens'', ''completion_tokens'', ''total_tokens''])]"

definition synthetic_chat_completion_chunk :: jobj where
  "synthetic_chat_completion_chunk =
     [(''id'', PStr ''chatcmpl-rollout-invalidated''), (''object'', PStr ''chat.completion.chunk''), (''created'', PInt 0), (''model'', PStr ''proxy-model''),
      (''choices'', PList [PDict [(''index'', PInt 0), (''delta'', PDict [(''role'', PStr ''assistant''), (''content'', PStr [])]),
         (''finish_reason'', PStr ''stop'')]])]"

definition synthetic_chat_completion_stream :: "proxy_lib \<Rightarrow> string list" where
  "synthetic_chat_completion_stream lib =
     [utf8_encode lib (''data: '' @ json_text lib (PDict synthetic_chat_completion_chunk) @ newline @ newline), ''data: [DONE]'' @ newline @ newline]"

definition synthetic_openai_response :: jobj where
  "synthetic_openai_response =
     [(''id'', PStr ''resp-rollout-invalidated''), (''object'', PStr ''response''), (''status'', PStr ''completed''), (''model'', PStr ''proxy-model''),
      (''output'', PList [PDict [(''type'', PStr ''message''), (''role'', PStr ''assistant''),
         (''content'', PList [PDict [(''type'', PStr ''output_text''), (''text'', PStr [])]])]]),
      (''usage'', zero_usage [''input_tokens'', ''output_tokens'', ''total_tokens''])]"

definition openai_response_stream_events_for_text :: "string \<Rightarrow> string \<Rightarrow> string \<Rightarrow> pyval \<Rightarrow> response_event list" where
  "openai_response_stream_events_for_text response_id model t usage =
     [response_event_of ''response.created'' [(''response'', PDict (openai_response_payload response_id model PNone ''in_progress'' []))]] @
     openai_response_stream_text_item_events ''msg_proxy_stream'' 0 t @
     [response_event_of ''response.completed'' [(''response'', PDict (openai_response_payload response_id model usage ''completed''
        [openai_response_message_item t ''completed'' ''msg_proxy_stream'']))]]"

definition synthetic_openai_response_stream :: "proxy_lib \<Rightarrow> string list" where
  "synthetic_openai_response_stream lib =
     map (\<lambda>e. utf8_encode lib (openai_response_sse (llm_lib.truncate lib) e))
       (openai_response_stream_events_for_text ''resp-rollout-invalidated'' ''proxy-model'' [] (zero_usage [''input_tokens'', ''output_tokens'', ''total_tokens'']))"

definition synthetic_anthropic_message :: jobj where
  "synthetic_anthropic_message =
     [(''id'', PStr ''msg_rollout_invalidated''), (''type'', PStr ''message''), (''role'', PStr ''assistant''), (''model'', PStr ''proxy-model''),
      (''content'', PList [PDict [(''type'', PStr ''text''), (''text'', PStr [])]]), (''stop_reason'', PStr ''end_turn''), (''stop_sequence'', PNone),
      (''usage'', zero_usage [''input_tokens'', ''output_tokens''])]"

definition synthetic_anthropic_stream :: "proxy_lib \<Rightarrow> string list" where
  "synthetic_anthropic_stream lib =
     map (\<lambda>(event, payload). utf8_encode lib (sse_frame (llm_lib.truncate lib) event payload))
       [(''message_start'', [(''type'', PStr ''message_start''), (''message'', PDict
          [(''id'', PStr ''msg_rollout_invalidated''), (''type'', PStr ''message''), (''role'', PStr ''assistant''), (''model'', PStr ''proxy-model''),
           (''content'', PList []), (''stop_reason'', PNone), (''stop_sequence'', PNone), (''usage'', zero_usage [''input_tokens'', ''output_tokens''])])]),
        event_payload (MessageDelta ''end_turn'' 0), event_payload MessageStop]"

definition anthropic_non_retry_upstream_error_response :: "proxy_lib \<Rightarrow> int \<Rightarrow> string \<Rightarrow> answer" where
  "anthropic_non_retry_upstream_error_response lib status body =
     (let preview = preview_bytes lib 1000 body
      in json_answer lib 400 json_headers
           [(''type'', PStr ''error''), (''error'', PDict [(''type'', PStr ''upstream_error''),
              (''message'', PStr (''Upstream returned HTTP '' @ show_int status @ (if preview \<noteq> [] then '': '' @ preview else [])))])])"

definition anthropic_error_response_from_bytes :: "proxy_lib \<Rightarrow> int \<Rightarrow> string \<Rightarrow> answer" where
  "anthropic_error_response_from_bytes lib status body =
     (let message = (if body \<noteq> [] then preview_bytes lib 1000 body else ''Upstream error.'');
          llm = llm_lib.truncate lib;
          payload = (if body = [] then Some [] else body_object lib body);
          (error_type, message) =
            (case payload of
               None \<Rightarrow> (''api_error'', message)
             | Some d \<Rightarrow>
                 (case pget d ''error'' of
                    PDict e \<Rightarrow> (llm_str llm (py_or (pget e ''type'') (py_or (pget e ''code'') (PStr ''api_error''))),
                               str_default llm (pget e ''message'') message)
                  | _ \<Rightarrow> (''api_error'', if pget d ''message'' \<noteq> PNone then llm_str llm (pget d ''message'') else message)))
      in json_answer lib status json_headers
           [(''type'', PStr ''error''), (''error'', PDict [(''type'', PStr error_type), (''message'', PStr message)])])"

definition forwarded_headers :: "headers \<Rightarrow> headers" where
  "forwarded_headers hs = dpop ''content-length'' (dpop ''transfer-encoding'' (dpop ''content-encoding'' hs))"

definition finish_effect :: "turn_snapshot \<Rightarrow> scope_effect list" where
  "finish_effect sn = (case sn_scope sn of None \<Rightarrow> [] | Some _ \<Rightarrow> [Finish])"

text \<open>
  The classification of a failure: the effects on the scope up to the point where the answer is
  chosen, and whether the rollout was invalidated, in which case the agent gets an empty answer.
\<close>

definition failure_effects :: "proxy_lib \<Rightarrow> llm_proxy_config \<Rightarrow> turn_snapshot \<Rightarrow> string \<Rightarrow> int \<Rightarrow> string \<Rightarrow> scope_effect list \<times> bool result" where
  "failure_effects lib cfg sn url status body =
     (case sn_scope sn of
        None \<Rightarrow> ([], Inr False)
      | Some _ \<Rightarrow>
          (let overflow = (case context_overflow_payload_from_response lib status body of Some p \<Rightarrow> [RecordOverflow p] | None \<Rightarrow> [])
           in case rollout_invalidated_payload_from_response lib status body of
                Inl e \<Rightarrow> (overflow, Inl e)
              | Inr (Some p) \<Rightarrow> (overflow @ [RecordInvalidated p], Inr True)
              | Inr None \<Rightarrow> (overflow @ [RecordFailed (failed_upstream_error_payload lib cfg sn url status body)], Inr False)))"

definition response_object :: "proxy_lib \<Rightarrow> string \<Rightarrow> jobj result" where
  "response_object lib content = rbind (loads_bytes lib content) (\<lambda>v. Inr (case v of Some (PDict d) \<Rightarrow> d | _ \<Rightarrow> []))"

type_synonym plain_upstream = "(int \<times> headers \<times> string) result"

definition plain_failure :: "proxy_lib \<Rightarrow> llm_proxy_config \<Rightarrow> turn_snapshot \<Rightarrow> string \<Rightarrow> int \<Rightarrow> string \<Rightarrow> answer \<Rightarrow> answer \<Rightarrow> outcome" where
  "plain_failure lib cfg sn url status content synthetic ordinary =
     (let (effects, invalidated) = failure_effects lib cfg sn url status content
      in (effects @ finish_effect sn, case invalidated of Inl e \<Rightarrow> Raised e | Inr b \<Rightarrow> if b then synthetic else ordinary))"

definition plain_proxy :: "proxy_lib \<Rightarrow> llm_proxy_config \<Rightarrow> turn_snapshot \<Rightarrow> string \<Rightarrow> plain_upstream \<Rightarrow> outcome" where
  "plain_proxy lib cfg sn url response =
     (case response of
        Inl e \<Rightarrow> (finish_effect sn, Raised e)
      | Inr (status, hs, content) \<Rightarrow>
          (if 400 \<le> status
           then plain_failure lib cfg sn url status content (json_answer lib 200 json_headers synthetic_chat_completion)
                  (Answer status (forwarded_headers hs) content)
           else (finish_effect sn, Answer status (forwarded_headers hs) content)))"

definition plain_openai_responses_proxy :: "proxy_lib \<Rightarrow> llm_proxy_config \<Rightarrow> turn_snapshot \<Rightarrow> string \<Rightarrow> jobj \<Rightarrow> plain_upstream \<Rightarrow> outcome" where
  "plain_openai_responses_proxy lib cfg sn url original_request response =
     (case response of
        Inl e \<Rightarrow> (finish_effect sn, Raised e)
      | Inr (status, hs, content) \<Rightarrow>
          (if 400 \<le> status
           then plain_failure lib cfg sn url status content (json_answer lib 200 json_headers synthetic_openai_response)
                  (Answer status (forwarded_headers hs) content)
           else (finish_effect sn,
             case rbind (response_object lib content) (\<lambda>p. chat_completion_to_openai_response (llm_lib.truncate lib) p original_request) of
               Inl e \<Rightarrow> Raised e
             | Inr payload \<Rightarrow> json_answer lib status (dset ''content-type'' ''application/json'' (forwarded_headers hs)) payload)))"

definition plain_anthropic_messages_proxy :: "proxy_lib \<Rightarrow> llm_proxy_config \<Rightarrow> turn_snapshot \<Rightarrow> string \<Rightarrow> plain_upstream \<Rightarrow> outcome" where
  "plain_anthropic_messages_proxy lib cfg sn url response =
     (case response of
        Inl e \<Rightarrow> (finish_effect sn, Raised e)
      | Inr (status, hs, content) \<Rightarrow>
          (if 400 \<le> status
           then plain_failure lib cfg sn url status content (json_answer lib 200 json_headers synthetic_anthropic_message)
                  (if 500 \<le> status \<and> status < 600 then anthropic_non_retry_upstream_error_response lib status content
                   else anthropic_error_response_from_bytes lib status content)
           else (finish_effect sn,
             case rbind (response_object lib content) (openai_chat_completion_to_anthropic_message (llm_lib.truncate lib)) of
               Inl e \<Rightarrow> Raised e
             | Inr payload \<Rightarrow> json_answer lib status (dset ''content-type'' ''application/json'' (forwarded_headers hs)) payload)))"


text \<open>
  A stream of the upstream: its status and headers, the chunks of its body and the exception that ends
  them, if any.  Keepalive frames before the first real frame are dropped.
\<close>

type_synonym stream_upstream = "(int \<times> headers \<times> string list \<times> exn option) result"

definition is_keepalive :: "string \<Rightarrow> bool" where
  "is_keepalive frame \<longleftrightarrow>
     strip_by ascii_space frame = [] \<or> startswith (lstrip_by (\<lambda>c. c = CHR 0x0D \<or> c = CHR 0x0A) frame) '':''"

function next_frame :: "string \<Rightarrow> string + string \<times> string" where
  "next_frame buffer =
     (case split_event buffer of
        None \<Rightarrow> Inl buffer
      | Some (frame, rest) \<Rightarrow> if is_keepalive frame then next_frame rest else Inr (frame, rest))"
  by pat_completeness auto

termination
  by (relation "measure length") (auto dest: split_event_shorter)

declare next_frame.simps [simp del]

text \<open>The first status code in the range of errors that the frame's payloads carry, with the error as a body.\<close>

definition payload_error :: "proxy_lib \<Rightarrow> string \<Rightarrow> (int \<times> string) option" where
  "payload_error lib payload =
     (if payload = ''[DONE]'' then None
      else case json_loads lib payload of
        Some (PDict d) \<Rightarrow>
          (case pget d ''error'' of
             PDict e \<Rightarrow>
               (case pget e ''status_code'' of
                  PInt n \<Rightarrow> if 400 \<le> n \<and> n \<le> 599 then Some (n, utf8_encode lib (json_text lib (PDict e))) else None
                | _ \<Rightarrow> None)
           | _ \<Rightarrow> None)
      | _ \<Rightarrow> None)"

definition sniff_first_frame_error :: "proxy_lib \<Rightarrow> string \<Rightarrow> (int \<times> string) option" where
  "sniff_first_frame_error lib frame =
     (case utf8_decode lib frame of
        None \<Rightarrow> None
      | Some t \<Rightarrow> (case find (\<lambda>p. payload_error lib p \<noteq> None) (payloads_from_sse_event t) of
           None \<Rightarrow> None | Some p \<Rightarrow> payload_error lib p))"

fun drain_keepalive_prelude :: "proxy_lib \<Rightarrow> string \<Rightarrow> string list \<Rightarrow> exn option \<Rightarrow> (string \<times> (int \<times> string) option \<times> string list) result" where
  "drain_keepalive_prelude lib buffer [] fault = (case fault of Some e \<Rightarrow> Inl e | None \<Rightarrow> Inr (buffer, None, []))"
| "drain_keepalive_prelude lib buffer (chunk # chunks) fault =
     (case next_frame (buffer @ chunk) of
        Inl rest \<Rightarrow> drain_keepalive_prelude lib rest chunks fault
      | Inr (frame, rest) \<Rightarrow> Inr (frame @ newline @ newline @ rest, sniff_first_frame_error lib frame, chunks))"

text \<open>The failure of a stream: unlike the plain case, an exception of the classification ends the request without the finishing effect.\<close>

definition stream_failure :: "proxy_lib \<Rightarrow> llm_proxy_config \<Rightarrow> turn_snapshot \<Rightarrow> string \<Rightarrow> int \<Rightarrow> string \<Rightarrow> answer \<Rightarrow> answer \<Rightarrow> outcome" where
  "stream_failure lib cfg sn url status body synthetic ordinary =
     (let (effects, invalidated) = failure_effects lib cfg sn url status body
      in case invalidated of
           Inl e \<Rightarrow> (effects, Raised e)
         | Inr b \<Rightarrow> (effects @ finish_effect sn, if b then synthetic else ordinary))"

text \<open>
  The frame the three streaming proxies share: sending, reading an error body (an exception there
  is not caught), the prelude, and the three ways on.
\<close>

definition stream_request :: "turn_snapshot \<Rightarrow> proxy_lib \<Rightarrow> stream_upstream \<Rightarrow> (int \<Rightarrow> headers \<Rightarrow> bool \<Rightarrow> string \<Rightarrow> outcome) \<Rightarrow>
    (int \<Rightarrow> headers \<Rightarrow> string \<Rightarrow> string list \<Rightarrow> exn option \<Rightarrow> answer) \<Rightarrow> outcome" where
  "stream_request sn lib response failed forward =
     (case response of
        Inl e \<Rightarrow> (finish_effect sn, Raised e)
      | Inr (status, hs, chunks, fault) \<Rightarrow>
          (if 400 \<le> status
           then (case fault of Some e \<Rightarrow> ([], Raised e) | None \<Rightarrow> failed status hs False (concat chunks))
           else (case drain_keepalive_prelude lib [] chunks fault of
                   Inl e \<Rightarrow> (finish_effect sn, Raised e)
                 | Inr (first_bytes, sniffed, rest) \<Rightarrow>
                     (case sniffed of
                        Some (error_status, error_body) \<Rightarrow> failed error_status hs True error_body
                      | None \<Rightarrow> (finish_effect sn, forward status hs first_bytes rest fault)))))"

definition error_headers :: "headers \<Rightarrow> bool \<Rightarrow> headers" where
  "error_headers hs sniffed = (if sniffed then dset ''content-type'' ''application/json'' (forwarded_headers hs) else forwarded_headers hs)"

definition stream_proxy :: "proxy_lib \<Rightarrow> llm_proxy_config \<Rightarrow> turn_snapshot \<Rightarrow> string \<Rightarrow> stream_upstream \<Rightarrow> outcome" where
  "stream_proxy lib cfg sn url response =
     stream_request sn lib response
       (\<lambda>status hs sniffed body. stream_failure lib cfg sn url status body
          (StreamAnswer 200 event_headers (Verbatim (synthetic_chat_completion_stream lib)) None) (Answer status (error_headers hs sniffed) body))
       (\<lambda>status hs first_bytes chunks fault. StreamAnswer status (forwarded_headers hs) (Verbatim (first_bytes # chunks)) fault)"

definition stream_anthropic_messages_proxy :: "proxy_lib \<Rightarrow> llm_proxy_config \<Rightarrow> turn_snapshot \<Rightarrow> string \<Rightarrow> stream_upstream \<Rightarrow> outcome" where
  "stream_anthropic_messages_proxy lib cfg sn url response =
     stream_request sn lib response
       (\<lambda>status hs sniffed body. stream_failure lib cfg sn url status body
          (StreamAnswer 200 event_headers (Verbatim (synthetic_anthropic_stream lib)) None)
          (if 500 \<le> status \<and> status < 600 then anthropic_non_retry_upstream_error_response lib status body
           else anthropic_error_response_from_bytes lib status body))
       (\<lambda>status hs first_bytes chunks fault. StreamAnswer status event_headers (ToAnthropic first_bytes chunks) fault)"

definition stream_openai_responses_proxy :: "proxy_lib \<Rightarrow> llm_proxy_config \<Rightarrow> turn_snapshot \<Rightarrow> string \<Rightarrow> jobj \<Rightarrow> stream_upstream \<Rightarrow> outcome" where
  "stream_openai_responses_proxy lib cfg sn url original_request response =
     stream_request sn lib response
       (\<lambda>status hs sniffed body. stream_failure lib cfg sn url status body
          (StreamAnswer 200 event_headers (Verbatim (synthetic_openai_response_stream lib)) None) (Answer status (error_headers hs sniffed) body))
       (\<lambda>status hs first_bytes chunks fault. StreamAnswer status event_headers (ToResponses first_bytes chunks original_request) fault)"

text \<open>The bytes of a streamed answer whose chunks end without an exception.\<close>

definition stream_bytes :: "proxy_lib \<Rightarrow> stream_source \<Rightarrow> string list \<times> exn option" where
  "stream_bytes lib source =
     (case source of
        Verbatim bytes \<Rightarrow> (bytes, None)
      | ToAnthropic first_bytes chunks \<Rightarrow>
          (let (evs, e) = iter_anthropic_events_from_openai_stream (llm_lib.truncate lib) (iter_openai_sse_payloads (decode_replace lib) first_bytes chunks)
           in (map (\<lambda>ev. utf8_encode lib (anthropic_sse (llm_lib.truncate lib) ev)) evs, e))
      | ToResponses first_bytes chunks req \<Rightarrow>
          (let (evs, e) = iter_openai_response_events_from_chat_stream (llm_lib.truncate lib) (iter_openai_sse_payloads (decode_replace lib) first_bytes chunks) req
           in (map (\<lambda>ev. utf8_encode lib (openai_response_sse (llm_lib.truncate lib) ev)) evs, e)))"


section \<open>The handler\<close>

record agent_request =
  rq_method :: string
  rq_path :: string
  rq_query :: string
  rq_headers :: "(string \<times> string) list"
  rq_body :: string

text \<open>What happens before admission: the protocol and, for a body that is an object, the chat request it becomes.\<close>

definition parse_request :: "proxy_lib \<Rightarrow> agent_request \<Rightarrow> (protocol option \<times> (jobj \<times> jobj) option) result" where
  "parse_request lib rq =
     (let p = request_protocol (rq_method rq) (rq_path rq)
      in if rq_body rq = [] then Inr (p, None)
         else rbind (loads_bytes lib (rq_body rq)) (\<lambda>v.
           case (p, v) of
             (Some proto, Some (PDict original)) \<Rightarrow> rbind (chat_body lib proto original) (\<lambda>body. Inr (p, Some (original, body)))
           | _ \<Rightarrow> Inr (p, None)))"

text \<open>
  What happens after admission, up to the request that goes upstream: the bytes of its body, and
  the sequence number of the next sampled request.
\<close>

definition prepare_body :: "proxy_lib \<Rightarrow> llm_proxy_config \<Rightarrow> nat \<Rightarrow> (jobj \<times> jobj) option \<Rightarrow> string \<Rightarrow> (string \<times> nat) result" where
  "prepare_body lib cfg n parsed bytes =
     (case parsed of
        None \<Rightarrow> Inr (bytes, n)
      | Some (original, body) \<Rightarrow>
          rbind (message_count body) (\<lambda>_. Inr (final_bytes lib (apply_policy cfg n body) original bytes, next_sequence cfg n)))"

datatype upstream_request = UpstreamRequest string string headers string bool

text \<open>The upstream as a function of the request it gets.\<close>

record upstream =
  up_plain :: "upstream_request \<Rightarrow> plain_upstream"
  up_stream :: "upstream_request \<Rightarrow> stream_upstream"

definition dispatch :: "proxy_lib \<Rightarrow> llm_proxy_config \<Rightarrow> upstream \<Rightarrow> turn_snapshot \<Rightarrow> protocol option \<Rightarrow> jobj option \<Rightarrow> string \<Rightarrow> string \<Rightarrow> headers \<Rightarrow> string \<Rightarrow> outcome" where
  "dispatch lib cfg up sn p original method url hs body =
     (let streaming = (case original of Some d \<Rightarrow> truthy (get_default d ''stream'' (PBool False)) | None \<Rightarrow> False);
          plain = up_plain up (UpstreamRequest method url (request_headers hs body) body False);
          stream = up_stream up (UpstreamRequest ''POST'' url (request_headers hs body) body True);
          req = (case original of Some d \<Rightarrow> d | None \<Rightarrow> [])
      in case p of
           Some AnthropicMessages \<Rightarrow>
             if streaming then stream_anthropic_messages_proxy lib cfg sn url stream else plain_anthropic_messages_proxy lib cfg sn url plain
         | Some ChatCompletions \<Rightarrow> if streaming then stream_proxy lib cfg sn url stream else plain_proxy lib cfg sn url plain
         | Some OpenaiResponses \<Rightarrow>
             if streaming then stream_openai_responses_proxy lib cfg sn url req stream else plain_openai_responses_proxy lib cfg sn url req plain
         | None \<Rightarrow> plain_proxy lib cfg sn url plain)"

text \<open>An admitted model request from its snapshot on, with the state as it is then.\<close>

definition admitted_request :: "proxy_lib \<Rightarrow> llm_proxy_config \<Rightarrow> upstream \<Rightarrow> turn_snapshot \<Rightarrow> protocol \<Rightarrow> (jobj \<times> jobj) option \<Rightarrow> agent_request \<Rightarrow> proxy_state \<Rightarrow>
    outcome \<times> nat" where
  "admitted_request lib cfg up sn p parsed rq st =
     (let n = px_sampling_request_sequence st;
          url = (if p = ChatCompletions then join_upstream cfg (rq_path rq) (rq_query rq) else openai_chat_completions_upstream_url cfg)
      in case prepare_body lib cfg n parsed (rq_body rq) of
           Inl e \<Rightarrow> (([], Raised e), n)
         | Inr (body, n') \<Rightarrow>
             (dispatch lib cfg up sn (Some p) (map_option fst parsed) (rq_method rq) url
                (build_upstream_headers cfg st (rq_headers rq) True (p = AnthropicMessages) (sn_turn_id sn)) body, n'))"

text \<open>
  The handler of the proxy.  The value is what the request still has to do to its scope and what the agent gets, together with the
  state after admission; \<open>None\<close> is a model request that waits for the proxy to resume.
\<close>

definition handle_proxy :: "proxy_lib \<Rightarrow> llm_proxy_config \<Rightarrow> upstream \<Rightarrow> agent_request \<Rightarrow> proxy_state \<Rightarrow> ((turn_snapshot option \<times> outcome) \<times> proxy_state) option" where
  "handle_proxy lib cfg up rq st =
     (case parse_request lib rq of
        Inl e \<Rightarrow> Some ((None, [], Raised e), st)
      | Inr (None, _) \<Rightarrow>
          Some ((None, dispatch lib cfg up unbound_snapshot None None (rq_method rq) (join_upstream cfg (rq_path rq) (rq_query rq))
                   (build_upstream_headers cfg st (rq_headers rq) False False None) (rq_body rq)), st)
      | Inr (Some p, parsed) \<Rightarrow>
          (case enter_chat_request cfg st of
             None \<Rightarrow> None
           | Some (sn, st') \<Rightarrow>
               (if sn_max_steps_exceeded sn
                then Some ((Some sn, [], json_answer lib 429 json_headers (max_steps_response_body cfg sn (p = AnthropicMessages))),
                           record_max_steps_error cfg sn st')
                else let (out, n) = admitted_request lib cfg up sn p parsed rq st'
                     in Some ((Some sn, out), st'\<lparr>px_sampling_request_sequence := n\<rparr>))))"



section \<open>Every request ends once, and the ones that do not\<close>

definition ends_once :: "scope_effect list \<Rightarrow> bool" where
  "ends_once es \<longleftrightarrow> es \<noteq> [] \<and> last es = Finish \<and> Finish \<notin> set (butlast es)"

lemma ends_once_snoc: "Finish \<notin> set es \<Longrightarrow> ends_once (es @ [Finish])"
  by (simp add: ends_once_def)

lemma ends_once_finish: "sn_scope sn = Some a \<Longrightarrow> ends_once (finish_effect sn)"
  by (simp add: ends_once_def finish_effect_def)

lemma failure_effects_open: "Finish \<notin> set (fst (failure_effects lib cfg sn url status body))"
  by (auto simp: failure_effects_def Let_def split: option.splits sum.splits)

lemma plain_failure_ends: "sn_scope sn = Some a \<Longrightarrow> ends_once (fst (plain_failure lib cfg sn url status content x y))"
  using failure_effects_open [of lib cfg sn url status content] ends_once_snoc
  by (auto simp: plain_failure_def finish_effect_def case_prod_beta)

lemma plain_proxies_end:
  assumes "sn_scope sn = Some a"
  shows "ends_once (fst (plain_proxy lib cfg sn url r))" "ends_once (fst (plain_openai_responses_proxy lib cfg sn url req r))"
    "ends_once (fst (plain_anthropic_messages_proxy lib cfg sn url r))"
  using plain_failure_ends [OF assms] ends_once_finish [OF assms]
  by (auto simp: plain_proxy_def plain_openai_responses_proxy_def plain_anthropic_messages_proxy_def split: sum.splits)

text \<open>A failure whose error code cannot be looked up: the classification raises.\<close>

definition unclassifiable :: "proxy_lib \<Rightarrow> int \<Rightarrow> string \<Rightarrow> bool" where
  "unclassifiable lib status body \<longleftrightarrow> isl (rollout_invalidated_payload_from_response lib status body)"

definition stream_loses_marker :: "proxy_lib \<Rightarrow> stream_upstream \<Rightarrow> bool" where
  "stream_loses_marker lib response =
     (case response of
        Inl e \<Rightarrow> False
      | Inr (status, hs, chunks, fault) \<Rightarrow>
          (if 400 \<le> status then fault \<noteq> None \<or> unclassifiable lib status (concat chunks)
           else case drain_keepalive_prelude lib [] chunks fault of
                  Inr (_, Some (error_status, error_body), _) \<Rightarrow> unclassifiable lib error_status error_body
                | _ \<Rightarrow> False))"

lemma stream_failure_ends:
  assumes "sn_scope sn = Some a"
  shows "if unclassifiable lib status body then Finish \<notin> set (fst (stream_failure lib cfg sn url status body x y))
    else ends_once (fst (stream_failure lib cfg sn url status body x y))"
  using assms failure_effects_open [of lib cfg sn url status body] ends_once_snoc [of "fst (failure_effects lib cfg sn url status body)"]
  by (auto simp: stream_failure_def unclassifiable_def finish_effect_def failure_effects_def Let_def split: sum.splits option.splits)

lemma stream_request_ends:
  assumes "sn_scope sn = Some a"
    and "\<And>status hs sniffed body. if unclassifiable lib status body then Finish \<notin> set (fst (failed status hs sniffed body)) else ends_once (fst (failed status hs sniffed body))"
  shows "if stream_loses_marker lib r then Finish \<notin> set (fst (stream_request sn lib r failed forward)) else ends_once (fst (stream_request sn lib r failed forward))"
proof (cases r)
  case (Inr x)
  obtain status hs chunks fault where x: "x = (status, hs, chunks, fault)" using prod_cases4 by blast
  show ?thesis
  proof (cases "400 \<le> status")
    case True
    then show ?thesis using Inr x assms(2) [of status "concat chunks" hs False] by (cases fault) (auto simp: stream_request_def stream_loses_marker_def)
  next
    case False
    show ?thesis
    proof (cases "drain_keepalive_prelude lib [] chunks fault")
      case (Inr y)
      obtain f s rest where y: "y = (f, s, rest)" using prod_cases3 by blast
      show ?thesis
      proof (cases s)
        case None
        then show ?thesis using \<open>r = Inr x\<close> x False Inr y ends_once_finish [OF assms(1)] by (simp add: stream_request_def stream_loses_marker_def)
      next
        case (Some p)
        obtain n b where "p = (n, b)" by fastforce
        then show ?thesis
          using \<open>r = Inr x\<close> x False Inr y Some assms(2) [of n b hs True] by (simp add: stream_request_def stream_loses_marker_def)
      qed
    qed (use Inr x False ends_once_finish [OF assms(1)] in \<open>simp add: stream_request_def stream_loses_marker_def\<close>)
  qed
qed (use ends_once_finish [OF assms(1)] in \<open>simp add: stream_request_def stream_loses_marker_def\<close>)

lemma stream_proxies_end:
  assumes "sn_scope sn = Some a"
  shows "if stream_loses_marker lib r then Finish \<notin> set (fst (stream_proxy lib cfg sn url r)) else ends_once (fst (stream_proxy lib cfg sn url r))"
    "if stream_loses_marker lib r then Finish \<notin> set (fst (stream_openai_responses_proxy lib cfg sn url req r))
       else ends_once (fst (stream_openai_responses_proxy lib cfg sn url req r))"
    "if stream_loses_marker lib r then Finish \<notin> set (fst (stream_anthropic_messages_proxy lib cfg sn url r))
       else ends_once (fst (stream_anthropic_messages_proxy lib cfg sn url r))"
  unfolding stream_proxy_def stream_openai_responses_proxy_def stream_anthropic_messages_proxy_def
  by (rule stream_request_ends [OF assms]; rule stream_failure_ends [OF assms])+

definition is_streaming :: "jobj option \<Rightarrow> bool" where
  "is_streaming original = (case original of Some d \<Rightarrow> truthy (get_default d ''stream'' (PBool False)) | None \<Rightarrow> False)"

lemma dispatch_ends:
  assumes "sn_scope sn = Some a"
  shows "if is_streaming original \<and> stream_loses_marker lib (up_stream up (UpstreamRequest ''POST'' url (request_headers hs body) body True))
    then Finish \<notin> set (fst (dispatch lib cfg up sn (Some p) original method url hs body))
    else ends_once (fst (dispatch lib cfg up sn (Some p) original method url hs body))"
proof (cases "is_streaming original")
  case True
  then show ?thesis
    using stream_proxies_end [OF assms, of lib "up_stream up (UpstreamRequest ''POST'' url (request_headers hs body) body True)" cfg url]
    by (cases p) (simp_all add: dispatch_def is_streaming_def [symmetric])
next
  case False
  then show ?thesis using plain_proxies_end [OF assms] by (cases p) (simp_all add: dispatch_def is_streaming_def [symmetric])
qed

text \<open>The requests that end without giving their marker back.\<close>

definition loses_marker :: "proxy_lib \<Rightarrow> llm_proxy_config \<Rightarrow> upstream \<Rightarrow> turn_snapshot \<Rightarrow> protocol \<Rightarrow> (jobj \<times> jobj) option \<Rightarrow> agent_request \<Rightarrow> proxy_state \<Rightarrow> bool" where
  "loses_marker lib cfg up sn p parsed rq st =
     (case prepare_body lib cfg (px_sampling_request_sequence st) parsed (rq_body rq) of
        Inl e \<Rightarrow> True
      | Inr (body, n) \<Rightarrow>
          is_streaming (map_option fst parsed) \<and>
          stream_loses_marker lib (up_stream up (UpstreamRequest ''POST''
            (if p = ChatCompletions then join_upstream cfg (rq_path rq) (rq_query rq) else openai_chat_completions_upstream_url cfg)
            (request_headers (build_upstream_headers cfg st (rq_headers rq) True (p = AnthropicMessages) (sn_turn_id sn)) body) body True)))"

lemma admitted_request_marker:
  assumes "sn_scope sn = Some a"
  shows "if loses_marker lib cfg up sn p parsed rq st then Finish \<notin> set (fst (fst (admitted_request lib cfg up sn p parsed rq st)))
    else ends_once (fst (fst (admitted_request lib cfg up sn p parsed rq st)))"
proof (cases "prepare_body lib cfg (px_sampling_request_sequence st) parsed (rq_body rq)")
  case (Inl e)
  then show ?thesis by (simp add: admitted_request_def loses_marker_def)
next
  case (Inr x)
  obtain body n where x: "x = (body, n)" by fastforce
  show ?thesis
    using Inr x
      dispatch_ends [OF assms, of "map_option fst parsed" lib up
        "if p = ChatCompletions then join_upstream cfg (rq_path rq) (rq_query rq) else openai_chat_completions_upstream_url cfg"
        "build_upstream_headers cfg st (rq_headers rq) True (p = AnthropicMessages) (sn_turn_id sn)" body cfg p "rq_method rq"]
    by (simp only: admitted_request_def loses_marker_def Let_def sum.case prod.case fst_conv)
qed

lemma admitted_outcome_ends:
  "sn_scope sn = Some a \<Longrightarrow> Finish \<notin> set (fst (fst (admitted_request lib cfg up sn p parsed rq st))) \<or>
     ends_once (fst (fst (admitted_request lib cfg up sn p parsed rq st)))"
  using admitted_request_marker [of sn a lib cfg up p parsed rq st] by (auto split: if_splits)



section \<open>Interleaved requests\<close>

text \<open>
  An admitted request of a turn: the cell of its scope, whether it loses its marker, and the effects it still
  has to run.  Finished requests stay in the list with no effects left.
\<close>

type_synonym admitted = "nat \<times> bool \<times> scope_effect list"

record proxy_world =
  pw_proxy :: proxy_state
  pw_requests :: "admitted list"

inductive proxy_step :: "proxy_lib \<Rightarrow> llm_proxy_config \<Rightarrow> upstream \<Rightarrow> proxy_world \<Rightarrow> proxy_world \<Rightarrow> bool" for lib cfg up where
  opened: "open_turn t b (pw_proxy w) = Inr st \<Longrightarrow> proxy_step lib cfg up w (w\<lparr>pw_proxy := st\<rparr>)"
| session: "proxy_step lib cfg up w (w\<lparr>pw_proxy := update_turn_backend_session b (pw_proxy w)\<rparr>)"
| cleared: "proxy_step lib cfg up w (w\<lparr>pw_proxy := clear_turn (pw_proxy w)\<rparr>)"
| consumed: "consume \<in> {consume_context_overflow_error, consume_rollout_invalidated_error, consume_failed_upstream_error, consume_max_steps_error} \<Longrightarrow>
    proxy_step lib cfg up w (w\<lparr>pw_proxy := snd (consume (pw_proxy w))\<rparr>)"
| paused: "proxy_step lib cfg up w (w\<lparr>pw_proxy := pause_locked now reason (pw_proxy w)\<rparr>)"
| resumed: "proxy_step lib cfg up w (w\<lparr>pw_proxy := resume_locked now version (pw_proxy w)\<rparr>)"
| admitted: "\<lbrakk>handle_proxy lib cfg up rq (pw_proxy w) = Some ((Some sn, es, ans), st); sn_scope sn = Some a; \<not> sn_max_steps_exceeded sn\<rbrakk> \<Longrightarrow>
    proxy_step lib cfg up w (w\<lparr>pw_proxy := st, pw_requests := pw_requests w @ [(a, Finish \<notin> set es, es)]\<rparr>)"
| unbound: "\<lbrakk>handle_proxy lib cfg up rq (pw_proxy w) = Some ((sn, es, ans), st); \<And>s. sn = Some s \<Longrightarrow> sn_scope s = None \<or> sn_max_steps_exceeded s\<rbrakk> \<Longrightarrow>
    proxy_step lib cfg up w (w\<lparr>pw_proxy := st\<rparr>)"
| effect: "pw_requests w = xs @ (a, lost, e # es) # ys \<Longrightarrow>
    proxy_step lib cfg up w (w\<lparr>pw_proxy := apply_effect a e (pw_proxy w), pw_requests := xs @ (a, lost, es) # ys\<rparr>)"

definition open_requests :: "nat \<Rightarrow> admitted list \<Rightarrow> nat" where
  "open_requests a rs = length (filter (\<lambda>(b, lost, es). b = a \<and> (lost \<or> es \<noteq> [])) rs)"

definition admitted_requests :: "nat \<Rightarrow> admitted list \<Rightarrow> nat" where
  "admitted_requests a rs = length (filter (\<lambda>r. fst r = a) rs)"

definition scope_inv :: "llm_proxy_config \<Rightarrow> admitted list \<Rightarrow> nat \<Rightarrow> turn_scope \<Rightarrow> bool" where
  "scope_inv cfg rs a s \<longleftrightarrow>
     sc_inflight_requests s = open_requests a rs \<and> sc_drained s = (sc_inflight_requests s = 0) \<and> sc_step_counter s = admitted_requests a rs \<and>
     (case cfg_max_steps cfg of None \<Rightarrow> True | Some m \<Rightarrow> int (sc_step_counter s) \<le> max 0 m)"

fun request_inv :: "nat \<Rightarrow> admitted \<Rightarrow> bool" where
  "request_inv n (a, lost, es) \<longleftrightarrow> a < n \<and> (if lost then Finish \<notin> set es else es = [] \<or> ends_once es)"

definition world_inv :: "llm_proxy_config \<Rightarrow> proxy_world \<Rightarrow> bool" where
  "world_inv cfg w \<longleftrightarrow>
     (\<forall>a < length (px_scopes (pw_proxy w)). scope_inv cfg (pw_requests w) a (px_scopes (pw_proxy w) ! a)) \<and>
     (\<forall>r \<in> set (pw_requests w). request_inv (length (px_scopes (pw_proxy w))) r) \<and>
     (\<forall>a. px_turn_scope (pw_proxy w) = Some a \<longrightarrow> a < length (px_scopes (pw_proxy w))) \<and>
     px_resume_event (pw_proxy w) = (\<not> px_paused (pw_proxy w)) \<and> (px_pause_started_at (pw_proxy w) \<noteq> None) = px_paused (pw_proxy w)"

text \<open>Updates that leave the counters of every scope alone keep the invariant.\<close>

lemma world_inv_frame:
  assumes "world_inv cfg w" "length (px_scopes st) = length (px_scopes (pw_proxy w))"
    and "\<And>a. a < length (px_scopes st) \<Longrightarrow> scope_inv cfg (pw_requests w) a (px_scopes st ! a) = scope_inv cfg (pw_requests w) a (px_scopes (pw_proxy w) ! a)"
    and "px_turn_scope st \<in> {None, px_turn_scope (pw_proxy w)}"
    and "px_resume_event st = (\<not> px_paused st)" "(px_pause_started_at st \<noteq> None) = px_paused st"
  shows "world_inv cfg (w\<lparr>pw_proxy := st\<rparr>)"
  using assms by (auto simp: world_inv_def)

lemma upd_scope_frame [simp]:
  "px_turn_scope (upd_scope a f st) = px_turn_scope st" "px_paused (upd_scope a f st) = px_paused st"
  "px_resume_event (upd_scope a f st) = px_resume_event st" "px_pause_started_at (upd_scope a f st) = px_pause_started_at st"
  "length (px_scopes (upd_scope a f st)) = length (px_scopes st)"
  by (simp_all add: upd_scope_def)

lemma upd_scope_nth: "b < length (px_scopes st) \<Longrightarrow> px_scopes (upd_scope a f st) ! b = (if b = a then f (px_scopes st ! a) else px_scopes st ! b)"
  by (simp add: upd_scope_def nth_list_update)

definition keeps_counters :: "(turn_scope \<Rightarrow> turn_scope) \<Rightarrow> bool" where
  "keeps_counters f \<longleftrightarrow> (\<forall>s. sc_inflight_requests (f s) = sc_inflight_requests s \<and> sc_drained (f s) = sc_drained s \<and> sc_step_counter (f s) = sc_step_counter s)"

lemma scope_inv_keeps: "keeps_counters f \<Longrightarrow> scope_inv cfg rs a (f s) = scope_inv cfg rs a s"
  by (cases "cfg_max_steps cfg") (simp_all add: scope_inv_def keeps_counters_def)

lemma world_inv_upd_scope: "world_inv cfg w \<Longrightarrow> keeps_counters f \<Longrightarrow> world_inv cfg (w\<lparr>pw_proxy := upd_scope a f (pw_proxy w)\<rparr>)"
  by (rule world_inv_frame) (auto simp: upd_scope_nth scope_inv_keeps world_inv_def)

lemma world_inv_same: "world_inv cfg w \<Longrightarrow> world_inv cfg (w\<lparr>pw_proxy := pw_proxy w\<rparr>)"
  by simp

lemma world_inv_consume:
  assumes "world_inv cfg w" "keeps_counters clear"
  shows "world_inv cfg (w\<lparr>pw_proxy := snd (consume_error sel clear (pw_proxy w))\<rparr>)"
  using assms world_inv_upd_scope [OF assms] by (auto simp: consume_error_def split: option.splits)

lemma scope_inv_snoc_other: "a \<noteq> b \<Longrightarrow> scope_inv cfg (rs @ [(b, l, es)]) a s = scope_inv cfg rs a s"
  by (simp add: scope_inv_def open_requests_def admitted_requests_def)

lemma world_inv_open:
  assumes inv: "world_inv cfg w" and "open_turn t b (pw_proxy w) = Inr st"
  shows "world_inv cfg (w\<lparr>pw_proxy := st\<rparr>)"
proof -
  let ?n = "length (px_scopes (pw_proxy w))"
  have st: "st = (pw_proxy w)\<lparr>px_scopes := px_scopes (pw_proxy w) @ [new_scope t b], px_turn_scope := Some ?n\<rparr>"
    using assms(2) by (auto simp: open_turn_def split: option.splits)
  have "\<forall>r \<in> set (pw_requests w). fst r < ?n" using inv by (auto simp: world_inv_def)
  then have "open_requests ?n (pw_requests w) = 0" "admitted_requests ?n (pw_requests w) = 0"
    by (auto simp: open_requests_def admitted_requests_def filter_empty_conv)
  then have new: "scope_inv cfg (pw_requests w) ?n (new_scope t b)" by (simp add: scope_inv_def new_scope_def split: option.split)
  have "scope_inv cfg (pw_requests w) a (px_scopes st ! a)" if "a < length (px_scopes st)" for a
    using inv new that st by (cases "a = ?n") (auto simp: world_inv_def nth_append)
  moreover have "request_inv (length (px_scopes st)) r" if "r \<in> set (pw_requests w)" for r
    using inv that st by (cases r) (auto simp: world_inv_def)
  ultimately show ?thesis using inv st by (auto simp: world_inv_def)
qed

lemma enter_admits:
  assumes "enter_chat_request cfg st = Some (sn, st')" "sn_scope sn = Some a" "\<not> sn_max_steps_exceeded sn"
  shows "\<not> px_paused st \<and> px_turn_scope st = Some a \<and>
    (case cfg_max_steps cfg of None \<Rightarrow> True | Some m \<Rightarrow> int (sc_step_counter (px_scopes st ! a)) < m) \<and> sn_step sn = sc_step_counter (px_scopes st ! a) \<and>
    st' = upd_scope a (\<lambda>s. s\<lparr>sc_step_counter := sc_step_counter s + 1, sc_inflight_requests := sc_inflight_requests s + 1, sc_drained := False\<rparr>) st"
  using assms by (auto simp: enter_chat_request_def unbound_snapshot_def scope_snapshot_def Let_def split: option.splits if_splits)

lemma enter_refuses:
  assumes "enter_chat_request cfg st = Some (sn, st')" "sn_scope sn = None \<or> sn_max_steps_exceeded sn"
  shows "st' = st"
  using assms by (auto simp: enter_chat_request_def unbound_snapshot_def scope_snapshot_def Let_def split: option.splits if_splits)


lemma handle_proxy_admitted:
  assumes "handle_proxy lib cfg up rq st = Some ((Some sn, es, ans), st')" "sn_scope sn = Some a" "\<not> sn_max_steps_exceeded sn"
  shows "\<exists>p parsed st1 n. enter_chat_request cfg st = Some (sn, st1) \<and> st' = st1\<lparr>px_sampling_request_sequence := n\<rparr> \<and>
    fst (admitted_request lib cfg up sn p parsed rq st1) = (es, ans)"
proof -
  obtain p parsed where parsed: "parse_request lib rq = Inr (Some p, parsed)"
    using assms(1) by (auto simp: handle_proxy_def split: sum.splits option.splits)
  then obtain st1 where st1: "enter_chat_request cfg st = Some (sn, st1)"
    using assms(1) by (auto simp: handle_proxy_def case_prod_beta Let_def split: option.splits if_splits)
  then have "st' = st1\<lparr>px_sampling_request_sequence := snd (admitted_request lib cfg up sn p parsed rq st1)\<rparr> \<and>
      fst (admitted_request lib cfg up sn p parsed rq st1) = (es, ans)"
    using assms parsed by (auto simp: handle_proxy_def case_prod_beta Let_def)
  then show ?thesis using st1 by blast
qed

lemma record_max_steps_keeps: "keeps_counters (\<lambda>s. s\<lparr>sc_max_steps_error := Some p, sc_max_steps_exceeded := True\<rparr>)"
  by (simp add: keeps_counters_def)

lemma handle_proxy_unbound:
  assumes "handle_proxy lib cfg up rq st = Some ((sn, es, ans), st')" "\<And>s. sn = Some s \<Longrightarrow> sn_scope s = None \<or> sn_max_steps_exceeded s"
  shows "(\<exists>n. st' = st\<lparr>px_sampling_request_sequence := n\<rparr>) \<or> (\<exists>a p. st' = upd_scope a (\<lambda>s. s\<lparr>sc_max_steps_error := Some p, sc_max_steps_exceeded := True\<rparr>) st)"
proof (cases "\<exists>p parsed. parse_request lib rq = Inr (Some p, parsed)")
  case True
  then obtain p parsed where parsed: "parse_request lib rq = Inr (Some p, parsed)" by blast
  obtain s st1 where s: "enter_chat_request cfg st = Some (s, st1)" "sn = Some s"
    using assms(1) parsed by (auto simp: handle_proxy_def case_prod_beta Let_def split: option.splits if_splits)
  then have st1: "st1 = st" using enter_refuses [OF s(1)] assms(2) by blast
  have same: "\<exists>n. st = st\<lparr>px_sampling_request_sequence := n\<rparr>" by (metis proxy_state.surjective proxy_state.update_convs(9))
  show ?thesis
    using assms(1) parsed s st1 same
    by (auto simp: handle_proxy_def record_max_steps_error_def case_prod_beta Let_def split: option.splits if_splits)
next
  case False
  then have "st' = st" using assms(1) by (auto simp: handle_proxy_def split: sum.splits option.splits)
  then show ?thesis by (metis proxy_state.surjective proxy_state.update_convs(9))
qed

lemma scope_inv_admit:
  assumes "scope_inv cfg rs a s" "es \<noteq> [] \<or> lost" "case cfg_max_steps cfg of None \<Rightarrow> True | Some m \<Rightarrow> int (sc_step_counter s) < m"
  shows "scope_inv cfg (rs @ [(a, lost, es)]) a
    (s\<lparr>sc_step_counter := sc_step_counter s + 1, sc_inflight_requests := sc_inflight_requests s + 1, sc_drained := False\<rparr>)"
  using assms by (auto simp: scope_inv_def open_requests_def admitted_requests_def split: option.splits)

lemma world_inv_admit:
  assumes inv: "world_inv cfg w" and "handle_proxy lib cfg up rq (pw_proxy w) = Some ((Some sn, es, ans), st)"
    and sn: "sn_scope sn = Some a" "\<not> sn_max_steps_exceeded sn"
  shows "world_inv cfg (w\<lparr>pw_proxy := st, pw_requests := pw_requests w @ [(a, Finish \<notin> set es, es)]\<rparr>)"
proof -
  let ?f = "\<lambda>s. s\<lparr>sc_step_counter := sc_step_counter s + 1, sc_inflight_requests := sc_inflight_requests s + 1, sc_drained := False\<rparr>"
  obtain p parsed st1 n where st: "enter_chat_request cfg (pw_proxy w) = Some (sn, st1)" "st = st1\<lparr>px_sampling_request_sequence := n\<rparr>"
    "fst (admitted_request lib cfg up sn p parsed rq st1) = (es, ans)"
    using handle_proxy_admitted [OF assms(2) sn] by blast
  have enter: "px_turn_scope (pw_proxy w) = Some a" "st1 = upd_scope a ?f (pw_proxy w)"
    "case cfg_max_steps cfg of None \<Rightarrow> True | Some m \<Rightarrow> int (sc_step_counter (px_scopes (pw_proxy w) ! a)) < m"
    using enter_admits [OF st(1) sn] by auto
  have ends: "Finish \<notin> set es \<or> ends_once es"
    using admitted_outcome_ends [OF sn(1), of lib cfg up p parsed rq st1] st(3) by auto
  have a: "a < length (px_scopes (pw_proxy w))" using inv enter by (auto simp: world_inv_def)
  have "scope_inv cfg (pw_requests w @ [(a, Finish \<notin> set es, es)]) b (px_scopes st ! b)" if "b < length (px_scopes st)" for b
    using inv that st enter ends a scope_inv_admit [of cfg "pw_requests w" a "px_scopes (pw_proxy w) ! a" es "Finish \<notin> set es"]
    by (cases "b = a") (auto simp: world_inv_def upd_scope_nth scope_inv_snoc_other ends_once_def)
  then show ?thesis using inv st enter ends a by (auto simp: world_inv_def)
qed


lemma open_requests_append: "open_requests a (xs @ r # ys) = open_requests a xs + open_requests a ys + (if fst r = a \<and> (fst (snd r) \<or> snd (snd r) \<noteq> []) then 1 else 0)"
  by (cases r) (auto simp: open_requests_def)

lemma admitted_requests_append: "admitted_requests a (xs @ r # ys) = admitted_requests a xs + admitted_requests a ys + (if fst r = a then 1 else 0)"
  by (simp add: admitted_requests_def)

lemma apply_effect_counters: "e \<noteq> Finish \<Longrightarrow> \<exists>f. keeps_counters f \<and> apply_effect a e st = upd_scope a f st"
proof (cases e)
  case (RecordOverflow p)
  then show ?thesis by (intro exI [of _ "\<lambda>s. s\<lparr>sc_context_overflow_error := Some p\<rparr>"]) (simp add: keeps_counters_def)
next
  case (RecordInvalidated p)
  then show ?thesis by (intro exI [of _ "\<lambda>s. s\<lparr>sc_rollout_invalidated_error := Some p\<rparr>"]) (simp add: keeps_counters_def)
next
  case (RecordFailed p)
  then show ?thesis by (intro exI [of _ "\<lambda>s. s\<lparr>sc_failed_upstream_error := Some p\<rparr>"]) (simp add: keeps_counters_def)
next
  case Finish
  assume "e \<noteq> Finish"
  then show ?thesis using Finish by simp
qed

lemma scope_inv_requests:
  "open_requests a rs = open_requests a rs' \<Longrightarrow> admitted_requests a rs = admitted_requests a rs' \<Longrightarrow> scope_inv cfg rs a s = scope_inv cfg rs' a s"
  by (simp add: scope_inv_def)

lemma scope_inv_finish:
  assumes "scope_inv cfg (xs @ (a, False, [Finish]) # ys) a s"
  shows "scope_inv cfg (xs @ (a, False, []) # ys) a
    (let n = sc_inflight_requests s - 1 in s\<lparr>sc_inflight_requests := n, sc_drained := (n = 0 \<or> sc_drained s)\<rparr>)"
  using assms by (simp add: scope_inv_def open_requests_append admitted_requests_append Let_def split: option.splits)

lemma world_inv_effect:
  assumes inv: "world_inv cfg w" and rs: "pw_requests w = xs @ (a, lost, e # es) # ys"
  shows "world_inv cfg (w\<lparr>pw_proxy := apply_effect a e (pw_proxy w), pw_requests := xs @ (a, lost, es) # ys\<rparr>)"
proof -
  let ?st = "pw_proxy w"
  have r: "a < length (px_scopes ?st)" "if lost then Finish \<notin> set (e # es) else ends_once (e # es)"
    using inv rs by (auto simp: world_inv_def)
  have others: "scope_inv cfg (xs @ (a, lost, es) # ys) b s = scope_inv cfg (pw_requests w) b s" if "b \<noteq> a" for b s
    using that rs by (intro scope_inv_requests) (simp_all add: open_requests_append admitted_requests_append)
  obtain f where f: "apply_effect a e ?st = upd_scope a f ?st" "scope_inv cfg (xs @ (a, lost, es) # ys) a (f (px_scopes ?st ! a))"
  proof (cases "e = Finish")
    case True
    then have "\<not> lost" "es = []" using r(2) by (auto simp: ends_once_def split: if_splits)
    then show ?thesis
      using that True inv rs r(1) scope_inv_finish [of cfg xs a ys "px_scopes ?st ! a"]
      by (auto simp: world_inv_def mark_request_finished_def)
  next
    case False
    then obtain f where f: "keeps_counters f" "apply_effect a e ?st = upd_scope a f ?st" using apply_effect_counters by blast
    have "es \<noteq> [] \<or> lost" using r(2) False by (auto simp: ends_once_def split: if_splits)
    then have "scope_inv cfg (xs @ (a, lost, es) # ys) a s = scope_inv cfg (pw_requests w) a s" for s
      using rs by (intro scope_inv_requests) (auto simp: open_requests_append admitted_requests_append)
    then show ?thesis using that f inv r(1) by (auto simp: world_inv_def scope_inv_keeps)
  qed
  have "scope_inv cfg (xs @ (a, lost, es) # ys) b (px_scopes (apply_effect a e ?st) ! b)" if "b < length (px_scopes ?st)" for b
    using that f inv others by (cases "b = a") (auto simp: world_inv_def upd_scope_nth)
  moreover have "request_inv (length (px_scopes ?st)) (a, lost, es)"
    using r by (auto simp: ends_once_def split: if_splits)
  ultimately show ?thesis using inv rs f(1) by (auto simp: world_inv_def)
qed

lemma world_inv_step:
  assumes inv: "world_inv cfg w" and "proxy_step lib cfg up w w'"
  shows "world_inv cfg w'"
  using assms(2)
proof cases
  case (opened t b st)
  then show ?thesis using world_inv_open [OF inv] by blast
next
  case (session b)
  then show ?thesis
    using inv world_inv_upd_scope [OF inv, of "\<lambda>s. s\<lparr>sc_backend_session_id := Some b\<rparr>"]
    by (cases "px_turn_scope (pw_proxy w)") (auto simp: update_turn_backend_session_def keeps_counters_def)
next
  case cleared
  then show ?thesis using inv by (auto simp: clear_turn_def world_inv_def)
next
  case (consumed consume)
  show ?thesis
    using consumed(2) unfolding consumed(1)
    by (elim insertE emptyE)
      (simp_all add: consume_context_overflow_error_def consume_rollout_invalidated_error_def consume_failed_upstream_error_def
        consume_max_steps_error_def world_inv_consume [OF inv] keeps_counters_def)
next
  case (paused now reason)
  then show ?thesis using inv by (auto simp: pause_locked_def world_inv_def split: option.split)
next
  case (resumed now version)
  then show ?thesis using inv by (auto simp: resume_locked_def world_inv_def)
next
  case (admitted rq sn es ans st a)
  then show ?thesis using world_inv_admit [OF inv] by blast
next
  case (unbound rq sn es ans st)
  have "world_inv cfg (w\<lparr>pw_proxy := (pw_proxy w)\<lparr>px_sampling_request_sequence := n\<rparr>\<rparr>)" for n using inv by (simp add: world_inv_def)
  then show ?thesis
    using handle_proxy_unbound [OF unbound(2,3)] unbound(1) world_inv_upd_scope [OF inv record_max_steps_keeps] by metis
next
  case (effect xs a lost e es ys)
  then show ?thesis using world_inv_effect [OF inv] by blast
qed

definition proxy_init :: "llm_proxy_config \<Rightarrow> proxy_world \<Rightarrow> bool" where
  "proxy_init cfg w \<longleftrightarrow> (\<exists>cfg0 v st. init_proxy cfg0 v = Inr (cfg, st) \<and> w = \<lparr>pw_proxy = st, pw_requests = []\<rparr>)"

interpretation turn_world: transition_system "proxy_init cfg" "proxy_step lib cfg up" "world_inv cfg" for cfg lib up
proof
  show "world_inv cfg w" if "proxy_init cfg w" for w
    using that by (auto simp: proxy_init_def init_proxy_def world_inv_def split: if_splits)
qed (rule world_inv_step)

text \<open>
  C20.  In every interleaving of turns, pauses, requests and their effects, the proxy's books are
  right: a turn counts as drained exactly when every request admitted under it has ended and given back
  its marker, its in-flight count is the number of the others, its step counter is the number of
  requests admitted, and that number never exceeds the step limit.
\<close>

theorem turn_books_balance:
  assumes "proxy_init cfg w0" "(proxy_step lib cfg up)\<^sup>*\<^sup>* w0 w" "a < length (px_scopes (pw_proxy w))"
  shows "let s = px_scopes (pw_proxy w) ! a; mine = filter (\<lambda>r. fst r = a) (pw_requests w) in
    (sc_drained s \<longleftrightarrow> (\<forall>(_, lost, es) \<in> set mine. es = [] \<and> \<not> lost)) \<and>
    sc_inflight_requests s = length (filter (\<lambda>(_, lost, es). es \<noteq> [] \<or> lost) mine) \<and> sc_step_counter s = length mine \<and>
    (\<forall>m. cfg_max_steps cfg = Some m \<longrightarrow> int (length mine) \<le> max 0 m)"
proof -
  have inv: "scope_inv cfg (pw_requests w) a (px_scopes (pw_proxy w) ! a)"
    using turn_world.reach_inv [OF assms(1,2)] assms(3) by (simp add: world_inv_def)
  have count: "open_requests a (pw_requests w) = length (filter (\<lambda>(_, lost, es). es \<noteq> [] \<or> lost) (filter (\<lambda>r. fst r = a) (pw_requests w)))"
    unfolding open_requests_def by (auto intro!: arg_cong [of _ _ length] filter_cong)
  then have "open_requests a (pw_requests w) = 0 \<longleftrightarrow> (\<forall>(_, lost, es) \<in> set (filter (\<lambda>r. fst r = a) (pw_requests w)). es = [] \<and> \<not> lost)"
    by (fastforce simp: filter_empty_conv)
  then show ?thesis using inv count by (simp add: scope_inv_def admitted_requests_def Let_def split: option.splits)
qed


text \<open>
  While the proxy is paused no step admits a request: whatever happens, the admitted requests
  stay the same ones, and the in-flight count of no turn grows.
\<close>

theorem paused_admits_nothing:
  assumes "proxy_step lib cfg up w w'" "px_paused (pw_proxy w)" "a < length (px_scopes (pw_proxy w))"
  shows "map (\<lambda>(b, lost, _). (b, lost)) (pw_requests w') = map (\<lambda>(b, lost, _). (b, lost)) (pw_requests w) \<and>
    sc_inflight_requests (px_scopes (pw_proxy w') ! a) \<le> sc_inflight_requests (px_scopes (pw_proxy w) ! a)"
  using assms(1)
proof cases
  case (opened t b st)
  then show ?thesis using assms(3) by (auto simp: open_turn_def nth_append split: option.splits)
next
  case (session b)
  then show ?thesis using assms(3) by (auto simp: update_turn_backend_session_def upd_scope_nth split: option.splits)
next
  case (consumed consume)
  show ?thesis
    using consumed(2) assms(3) unfolding consumed(1)
    by (elim insertE emptyE)
      (auto simp: consume_context_overflow_error_def consume_rollout_invalidated_error_def consume_failed_upstream_error_def
        consume_max_steps_error_def consume_error_def upd_scope_nth split: option.splits)
next
  case (admitted rq sn es ans st b)
  then show ?thesis using handle_proxy_admitted [OF admitted(2,3,4)] enter_admits assms(2) by blast
next
  case (unbound rq sn es ans st)
  then show ?thesis using handle_proxy_unbound [OF unbound(2,3)] assms(3) by (auto simp: upd_scope_nth)
next
  case (effect xs b lost e es ys)
  have "sc_inflight_requests (px_scopes (apply_effect b e (pw_proxy w)) ! a) \<le> sc_inflight_requests (px_scopes (pw_proxy w) ! a)"
    using assms(3) by (cases e) (auto simp: upd_scope_nth mark_request_finished_def Let_def)
  then show ?thesis using effect by simp
qed (use assms(3) in \<open>auto simp: clear_turn_def pause_locked_def resume_locked_def\<close>)


section \<open>Keepalive frames\<close>

lemma split_event_join: "split_event b = Some (e, rest) \<Longrightarrow> b = e @ newline @ newline @ rest"
proof (induction b arbitrary: e)
  case (Cons c b)
  then show ?case by (cases b) (auto split: if_splits)
qed simp

lemma next_frame_drain:
  "case next_frame b of
     Inl rest \<Rightarrow> \<exists>ks. list_all is_keepalive ks \<and> drain_events b = (ks, rest)
   | Inr (f, rest) \<Rightarrow> \<exists>ks. list_all is_keepalive ks \<and> drain_events b =
       (ks @ fst (drain_events (f @ newline @ newline @ rest)), snd (drain_events (f @ newline @ newline @ rest)))"
proof (induction b rule: next_frame.induct)
  case (1 b)
  show ?case
  proof (cases "split_event b")
    case None
    then show ?thesis by (simp add: next_frame.simps [of b] drain_events.simps [of b] exI [of _ "[]"])
  next
    case (Some p)
    obtain f rest where p: "p = (f, rest)" by fastforce
    have drain: "drain_events b = (f # fst (drain_events rest), snd (drain_events rest))"
      using Some p by (simp add: drain_events.simps [of b] case_prod_beta Let_def)
    show ?thesis
    proof (cases "is_keepalive f")
      case True
      then have "next_frame b = next_frame rest" using Some p by (simp add: next_frame.simps [of b])
      moreover have "list_all is_keepalive (f # ks)" if "list_all is_keepalive ks" for ks using that True by simp
      ultimately show ?thesis
        using 1 [OF Some p [symmetric] True] drain by (auto split: sum.splits)
    next
      case False
      then have "next_frame b = Inr (f, rest)" using Some p by (simp add: next_frame.simps [of b])
      then show ?thesis using split_event_join [of b f rest] Some p by (simp add: exI [of _ "[]"])
    qed
  qed
qed

lemma prelude_drain:
  assumes "drain_keepalive_prelude lib b chunks None = Inr (first_bytes, sniffed, rest)" "drain_events b = ([], b)"
  shows "\<exists>ks. list_all is_keepalive ks \<and> drain_events (b @ concat chunks) =
    (ks @ fst (drain_events (first_bytes @ concat rest)), snd (drain_events (first_bytes @ concat rest)))"
  using assms
proof (induction chunks arbitrary: b)
  case Nil
  then show ?case by (simp add: exI [of _ "[]"])
next
  case (Cons chunk chunks)
  note next_frame = next_frame_drain [of "b @ chunk"]
  have append: "drain_events (b @ concat (chunk # chunks)) = (fst (drain_events (b @ chunk)) @ fst (drain_events (snd (drain_events (b @ chunk)) @ concat chunks)),
      snd (drain_events (snd (drain_events (b @ chunk)) @ concat chunks)))"
    using drain_events_append [of "b @ chunk" "concat chunks"] by (simp add: case_prod_beta Let_def)
  show ?case
  proof (cases "next_frame (b @ chunk)")
    case (Inl b')
    then obtain ks where ks: "list_all is_keepalive ks" "drain_events (b @ chunk) = (ks, b')" using next_frame by auto
    then have "drain_events b' = ([], b')" using drain_events_rest [of "b @ chunk"] by simp
    then obtain ks' where "list_all is_keepalive ks'" "drain_events (b' @ concat chunks) =
        (ks' @ fst (drain_events (first_bytes @ concat rest)), snd (drain_events (first_bytes @ concat rest)))"
      using Cons.IH Cons.prems(1) Inl by auto
    then show ?thesis using ks append by (intro exI [of _ "ks @ ks'"]) simp
  next
    case (Inr p)
    obtain f r where p: "p = (f, r)" by fastforce
    let ?first = "f @ newline @ newline @ r"
    obtain ks where ks: "list_all is_keepalive ks" "drain_events (b @ chunk) = (ks @ fst (drain_events ?first), snd (drain_events ?first))"
      using next_frame Inr p by auto
    have "first_bytes = ?first" "rest = chunks" using Cons.prems(1) Inr p by auto
    then show ?thesis
      using ks append drain_events_append [of ?first "concat chunks"] by (intro exI [of _ ks]) (simp add: case_prod_beta Let_def)
  qed
qed

text \<open>
  Dropping the keepalive frames that open a stream loses nothing: the payloads read from the
  first real frame and the rest of the chunks are those of the whole stream, provided its
  keepalive frames carry no data.
\<close>

theorem keepalive_prelude_lossless:
  assumes "drain_keepalive_prelude lib [] chunks None = Inr (first_bytes, sniffed, rest)"
    and "\<And>f. f \<in> set (fst (drain_events (concat chunks))) \<Longrightarrow> is_keepalive f \<Longrightarrow> payloads_from_sse_event (decode f) = []"
  shows "iter_openai_sse_payloads decode first_bytes rest = iter_openai_sse_payloads decode [] chunks"
proof -
  have "drain_events [] = ([], [])" by (simp add: drain_events.simps)
  then obtain ks where ks: "list_all is_keepalive ks" "drain_events (concat chunks) =
      (ks @ fst (drain_events (first_bytes @ concat rest)), snd (drain_events (first_bytes @ concat rest)))"
    using prelude_drain [OF assms(1)] by auto
  then have "concat (map (\<lambda>e. payloads_from_sse_event (decode e)) ks) = []"
    using assms(2) by (auto simp: list_all_iff)
  then show ?thesis using ks(2) by (simp add: sse_payloads_concat case_prod_beta Let_def)
qed


section \<open>Waiting for a turn to drain\<close>

text \<open>The time a wait sat out pauses.\<close>

fun paused_time :: "wait_round list \<Rightarrow> real" where
  "paused_time [] = 0"
| "paused_time (SatPause a b _ # rounds) = (b - a) + paused_time rounds"
| "paused_time (Running _ _ # rounds) = paused_time rounds"

text \<open>
  The rounds up to the one that decides, and the clock's reading there: a round that ends without
  any event lasted until the deadline.
\<close>

fun decided_at :: "real \<Rightarrow> wait_round list \<Rightarrow> (real \<times> wait_round list) option" where
  "decided_at deadline [] = None"
| "decided_at deadline (SatPause a b done # rounds) =
     (if done then Some (b, [SatPause a b done])
      else map_option (\<lambda>(t, rs). (t, SatPause a b done # rs)) (decided_at (deadline + (b - a)) rounds))"
| "decided_at deadline (Running now out # rounds) =
     (if deadline - now \<le> 0 then Some (now, [Running now out])
      else case out of
        None \<Rightarrow> Some (deadline, [Running now out])
      | Some True \<Rightarrow> Some (now, [Running now out])
      | Some False \<Rightarrow> map_option (\<lambda>(t, rs). (t, Running now out # rs)) (decided_at deadline rounds))"

lemma timed_out_deadline:
  "wait_event_excluding_pause deadline rounds = TimedOut \<Longrightarrow> \<exists>t rs. decided_at deadline rounds = Some (t, rs) \<and> deadline + paused_time rs \<le> t"
proof (induction deadline rounds rule: wait_event_excluding_pause.induct)
  case (2 deadline a b event_done rounds)
  then show ?case by (cases event_done) (force simp: algebra_simps)+
next
  case (3 deadline now outcome rounds)
  consider (late) "deadline - now \<le> 0" | (nothing) "\<not> deadline - now \<le> 0" "outcome = None" | (event) "\<not> deadline - now \<le> 0" "outcome = Some True"
    | (changed) "\<not> deadline - now \<le> 0" "outcome = Some False" by (cases outcome) auto
  then show ?case
  proof cases
    case changed
    then have "wait_event_excluding_pause deadline rounds = TimedOut" using 3 by simp
    then obtain t rs where "decided_at deadline rounds = Some (t, rs)" "deadline + paused_time rs \<le> t" using 3(1) [OF changed] by auto
    then show ?thesis using changed by (intro exI [of _ t] exI [of _ "Running now outcome # rs"]) simp
  qed (use 3 in auto)
qed simp

text \<open>
  Draining a turn times out only after its whole timeout has passed while the proxy was running: the time it sat
  out pauses is added to the deadline in full.
\<close>

theorem drain_timeout_excludes_pauses:
  "wait_event_excluding_pause (start + timeout) rounds = TimedOut \<Longrightarrow>
     \<exists>t rs. decided_at (start + timeout) rounds = Some (t, rs) \<and> timeout \<le> (t - start) - paused_time rs"
  using timed_out_deadline [of "start + timeout" rounds] by (fastforce simp: algebra_simps)



section \<open>A sample run\<close>

definition sample_proxy_lib :: proxy_lib where
  "sample_proxy_lib = \<lparr>json_loads = (\<lambda>s. if s = ''{}'' then Some (PDict []) else if s = ''e'' then Some (PDict [(''error'', PDict [(''message'', PStr ''m'')])]) else None),
     json_dumps = (\<lambda>_. ''{}''), py_repr = (\<lambda>_. []), sha256_hex = (\<lambda>s. s), text_float = (\<lambda>_. None), json_text = (\<lambda>_. ''{}''),
     utf8_decode = Some, decode_replace = (\<lambda>s. s), utf8_encode = (\<lambda>s. s),
     loads_bytes = (\<lambda>s. Inr (if s = ''{}'' then Some (PDict []) else if s = ''null'' then Some (PDict [(''messages'', PNone)])
       else if s = ''stream'' then Some (PDict [(''stream'', PBool True)]) else None)), dump_error = None\<rparr>"

definition sample_proxy_config :: llm_proxy_config where
  "sample_proxy_config = \<lparr>upstream_origin = ''http://u'', router_api_path = ''/v1'', bound_session_id = ''s1'', bound_instance_id = ''i1'',
     bound_sandbox_id = None, sticky_header_name = ''X-Sticky'', cfg_max_steps = Some 2, default_temperature = None, debug_log_dir = None,
     upstream_headers = [(''Authorization'', ''k'')], model_override = Some ''m'', sampling_mode = Some ''force'', sampling_temperature = Some (Fin 1),
     sampling_top_p = None, sampling_seed_base = Some 7\<rparr>"

definition sample_upstream :: upstream where
  "sample_upstream = \<lparr>up_plain = (\<lambda>_. Inr (200, [], ''ok'')), up_stream = (\<lambda>_. Inr (502, [], [''e''], None))\<rparr>"

definition sample_proxy_state :: proxy_state where
  "sample_proxy_state = \<lparr>px_scopes = [], px_turn_scope = None, px_paused = False, px_pause_reason = None, px_current_version = Some ''3'',
     px_resume_event = True, px_pause_started_at = None, px_total_paused_seconds = 0, px_sampling_request_sequence = 0\<rparr>"

definition sample_turn_state :: proxy_state where
  "sample_turn_state = (case open_turn ''t1'' None sample_proxy_state of Inr st \<Rightarrow> st | Inl _ \<Rightarrow> sample_proxy_state)"

definition sample_rq :: "string \<Rightarrow> agent_request" where
  "sample_rq body = \<lparr>rq_method = ''post'', rq_path = ''v1/chat/completions'', rq_query = [], rq_headers = [(''x-session-id'', ''forged''), (''X-Turn-ID'', ''forged''), (''accept'', ''a'')],
     rq_body = body\<rparr>"

lemma sample_init: "proxy_init sample_proxy_config \<lparr>pw_proxy = sample_proxy_state, pw_requests = []\<rparr>"
proof -
  have "init_proxy sample_proxy_config (Some ''3'') = Inr (sample_proxy_config, sample_proxy_state)"
    by (simp add: init_proxy_def sample_proxy_config_def sample_proxy_state_def rstrip_slash_def rstrip_by_def)
  then show ?thesis by (auto simp: proxy_init_def)
qed

lemma sample_opened: "proxy_step lib cfg up \<lparr>pw_proxy = sample_proxy_state, pw_requests = []\<rparr> \<lparr>pw_proxy = sample_turn_state, pw_requests = []\<rparr>"
proof -
  have "open_turn ''t1'' None sample_proxy_state = Inr sample_turn_state"
    by (simp add: sample_turn_state_def open_turn_def sample_proxy_state_def)
  then show ?thesis using proxy_step.opened [of "''t1''" None "\<lparr>pw_proxy = sample_proxy_state, pw_requests = []\<rparr>"] by simp
qed

lemma sample_handled:
  "\<exists>sn ans st. handle_proxy sample_proxy_lib sample_proxy_config sample_upstream (sample_rq ''{}'') sample_turn_state = Some ((Some sn, [Finish], ans), st) \<and>
     sn_scope sn = Some 0 \<and> \<not> sn_max_steps_exceeded sn \<and> length (px_scopes st) = 1"
proof -
  have "parse_request sample_proxy_lib (sample_rq ''{}'') = Inr (Some ChatCompletions, Some ([], []))" by code_simp
  moreover have "\<exists>st. enter_chat_request sample_proxy_config sample_turn_state = Some (scope_snapshot 0 False (new_scope ''t1'' None), st) \<and> length (px_scopes st) = 1"
    by (simp add: enter_chat_request_def sample_turn_state_def open_turn_def sample_proxy_state_def sample_proxy_config_def new_scope_def Let_def)
  ultimately show ?thesis
    by (auto simp: handle_proxy_def admitted_request_def prepare_body_def message_count_def get_default_def dmem_def dispatch_def plain_proxy_def
        sample_upstream_def finish_effect_def scope_snapshot_def Let_def)
qed

theorem turn_books_balance_witness:
  "\<exists>w. (proxy_step sample_proxy_lib sample_proxy_config sample_upstream)\<^sup>*\<^sup>* \<lparr>pw_proxy = sample_proxy_state, pw_requests = []\<rparr> w \<and>
     pw_requests w = [(0, False, [Finish])] \<and> \<not> sc_drained (px_scopes (pw_proxy w) ! 0) \<and> sc_inflight_requests (px_scopes (pw_proxy w) ! 0) = 1"
proof -
  obtain sn ans st where h: "handle_proxy sample_proxy_lib sample_proxy_config sample_upstream (sample_rq ''{}'') sample_turn_state = Some ((Some sn, [Finish], ans), st)"
    and facts: "sn_scope sn = Some 0" "\<not> sn_max_steps_exceeded sn" "length (px_scopes st) = 1"
    using sample_handled by blast
  let ?w = "\<lparr>pw_proxy = st, pw_requests = [(0, False, [Finish])]\<rparr>"
  have "proxy_step sample_proxy_lib sample_proxy_config sample_upstream \<lparr>pw_proxy = sample_turn_state, pw_requests = []\<rparr> ?w"
    using proxy_step.admitted [of sample_proxy_lib sample_proxy_config sample_upstream "sample_rq ''{}''" "\<lparr>pw_proxy = sample_turn_state, pw_requests = []\<rparr>" sn "[Finish]" ans st 0]
      h facts by simp
  then have run: "(proxy_step sample_proxy_lib sample_proxy_config sample_upstream)\<^sup>*\<^sup>* \<lparr>pw_proxy = sample_proxy_state, pw_requests = []\<rparr> ?w"
    using sample_opened by (meson converse_rtranclp_into_rtranclp r_into_rtranclp)
  then show ?thesis using turn_books_balance [OF sample_init run, of 0] facts(3) by (intro exI [of _ ?w]) (simp add: Let_def)
qed


theorem policy_holds_witness:
  "dget (apply_policy sample_proxy_config 2 [(''model'', PStr ''x''), (''seed'', PInt 0)]) ''seed'' = Some (PInt 9) \<and>
   dget (apply_policy sample_proxy_config 2 [(''model'', PStr ''x''), (''seed'', PInt 0)]) ''model'' = Some (PStr ''m'')"
proof -
  have "sampling_seed_base sample_proxy_config = Some 7" "sampling_mode sample_proxy_config = Some ''force''" "model_override sample_proxy_config = Some ''m''"
    "dmem ''model'' [(''model'', PStr ''x''), (''seed'', PInt 0)]"
    by (simp_all add: sample_proxy_config_def dmem_def)
  then show ?thesis using policy_holds [of sample_proxy_config 2 "[(''model'', PStr ''x''), (''seed'', PInt 0)]"] by (simp add: Let_def)
qed


theorem paused_admits_nothing_witness:
  "pw_requests \<lparr>pw_proxy = clear_turn (pause_locked 1 ''w'' sample_turn_state), pw_requests = []\<rparr> = [] \<and>
   sc_inflight_requests (px_scopes (clear_turn (pause_locked 1 ''w'' sample_turn_state)) ! 0) \<le> sc_inflight_requests (px_scopes (pause_locked 1 ''w'' sample_turn_state) ! 0)"
proof -
  let ?w = "\<lparr>pw_proxy = pause_locked 1 ''w'' sample_turn_state, pw_requests = []\<rparr>"
  have "proxy_step sample_proxy_lib sample_proxy_config sample_upstream ?w \<lparr>pw_proxy = clear_turn (pause_locked 1 ''w'' sample_turn_state), pw_requests = []\<rparr>"
    using proxy_step.cleared [of sample_proxy_lib sample_proxy_config sample_upstream ?w] by simp
  moreover have "px_paused (pw_proxy ?w)" "0 < length (px_scopes (pw_proxy ?w))"
    by (simp_all add: pause_locked_def sample_turn_state_def open_turn_def sample_proxy_state_def)
  ultimately show ?thesis using paused_admits_nothing [of sample_proxy_lib sample_proxy_config sample_upstream ?w _ 0] by fastforce
qed

theorem keepalive_prelude_lossless_witness:
  "drain_keepalive_prelude sample_proxy_lib [] ['': hi'' @ newline, newline @ ''data: x'' @ newline @ newline, ''data: y'' @ newline @ newline] None =
     Inr (''data: x'' @ newline @ newline, None, [''data: y'' @ newline @ newline]) \<and>
   iter_openai_sse_payloads (\<lambda>s. s) (''data: x'' @ newline @ newline) [''data: y'' @ newline @ newline] =
     iter_openai_sse_payloads (\<lambda>s. s) [] ['': hi'' @ newline, newline @ ''data: x'' @ newline @ newline, ''data: y'' @ newline @ newline]"
proof -
  let ?chunks = "['': hi'' @ newline, newline @ ''data: x'' @ newline @ newline, ''data: y'' @ newline @ newline]"
  have prelude: "drain_keepalive_prelude sample_proxy_lib [] ?chunks None = Inr (''data: x'' @ newline @ newline, None, [''data: y'' @ newline @ newline])" by code_simp
  have "list_all (\<lambda>f. is_keepalive f \<longrightarrow> payloads_from_sse_event f = []) (fst (drain_events (concat ?chunks)))" by code_simp
  then show ?thesis using prelude keepalive_prelude_lossless [OF prelude, of "\<lambda>s. s"] by (simp add: list_all_iff)
qed

theorem drain_timeout_excludes_pauses_witness:
  "wait_event_excluding_pause (0 + 5) [Running 1 (Some False), SatPause 2 12 False, Running 13 None] = TimedOut \<and>
   (\<exists>t rs. decided_at (0 + 5) [Running 1 (Some False), SatPause 2 12 False, Running 13 None] = Some (t, rs) \<and> 5 \<le> (t - 0) - paused_time rs)"
proof -
  have "wait_event_excluding_pause (0 + 5) [Running 1 (Some False), SatPause 2 12 False, Running 13 None] = TimedOut" by simp
  then show ?thesis using drain_timeout_excludes_pauses by blast
qed

end
