(* ===== verification/Blackbox_Server.thy ===== *)
theory Blackbox_Server
  imports Turn_Proxy
begin

text \<open>
  The blackbox server (\<open>blackbox_server/core/server.py\<close>, with its models, its session store, its
  request fingerprints and the error classes of the adapters): registration of a binding, the turns
  of a session from submission to their settlement in the background, cancelling, aborting,
  commands, pausing, health checks and shutdown.

  A handler runs under the lock of its session, so each critical section is one step; the
  background task of a turn is a value with the stage it has reached, and a cancellation of a
  task is a step of its own.  Time stamps are counters given by the caller.  The adapter is the
  parameter: the results of its health checks, of its initialisation and of a turn.

  The lemmas show that a session has at most one active turn; that a settled turn never changes
  again; that the history of a session is exactly what its committed turns exchanged; that
  the turn limit holds; that a turn is not left behind, and its waiters are woken, except at
  shutdown; that resubmission is idempotent; that the failures of a turn reach the caller with the
  code the sources promise; and that shutting down is not final.
\<close>

section \<open>Data\<close>

datatype server_state = Idle | Initializing | Ready | ServerError | ShuttingDown

datatype session_state = Active | Desynced | Aborted

datatype turn_status = Queued | Inflight | Committed | Failed | Cancelled | Unknown

fun status_value :: "turn_status \<Rightarrow> string" where
  "status_value Queued = ''queued''"
| "status_value Inflight = ''inflight''"
| "status_value Committed = ''committed''"
| "status_value Failed = ''failed''"
| "status_value Cancelled = ''cancelled''"
| "status_value Unknown = ''unknown''"

fun session_state_value :: "session_state \<Rightarrow> string" where
  "session_state_value Active = ''active''"
| "session_state_value Desynced = ''desynced''"
| "session_state_value Aborted = ''aborted''"

fun server_state_value :: "server_state \<Rightarrow> string" where
  "server_state_value Idle = ''idle''"
| "server_state_value Initializing = ''initializing''"
| "server_state_value Ready = ''ready''"
| "server_state_value ServerError = ''error''"
| "server_state_value ShuttingDown = ''shutting_down''"

definition is_active :: "turn_status \<Rightarrow> bool" where
  "is_active s \<longleftrightarrow> s \<in> {Queued, Inflight}"

definition is_terminal :: "turn_status \<Rightarrow> bool" where
  "is_terminal s \<longleftrightarrow> s \<in> {Committed, Failed, Cancelled, Unknown}"

record api_error =
  ae_status_code :: int
  ae_error :: string
  ae_message :: string
  ae_details :: jobj

definition ApiError :: "int \<Rightarrow> string \<Rightarrow> string \<Rightarrow> jobj \<Rightarrow> api_error" where
  "ApiError status code message details = \<lparr>ae_status_code = status, ae_error = code, ae_message = message, ae_details = details\<rparr>"

text \<open>An operation fails with an error of the interface or with another exception.\<close>

datatype failure = Api api_error | Crash exn

type_synonym 'a api = "failure + 'a"

definition api_fail :: "int \<Rightarrow> string \<Rightarrow> string \<Rightarrow> jobj \<Rightarrow> 'a api" where
  "api_fail status code message details = Inl (Api (ApiError status code message details))"

record bb_message =
  bm_role :: string
  bm_content :: "string option"
  bm_reasoning_content :: "string option"
  bm_tool_calls :: "(string \<times> string \<times> string) list option"
  bm_tool_call_id :: "string option"
  bm_name :: "string option"

record trace_event =
  te_turn_id :: string
  te_seq :: nat
  te_source :: string
  te_event_type :: string
  te_payload :: jobj
  te_created_at :: nat

record adapter_response =
  ar_outputs :: "bb_message list"
  ar_trace_events :: "trace_event list"
  ar_usage :: jobj
  ar_backend_session_id :: string

record backend_capabilities =
  bc_multi_message_input :: bool
  bc_system_message :: bool
  bc_history_injection :: bool

record turn_record =
  tr_turn_id :: string
  tr_request_fingerprint :: string
  tr_status :: turn_status
  tr_request_messages :: "bb_message list"
  tr_response :: "adapter_response option"
  tr_error :: "jobj option"
  tr_created_at :: nat
  tr_updated_at :: nat

text \<open>A session is an object; \<open>se_object\<close> is its identity, which the task of a turn holds on to.\<close>

record session_context =
  se_object :: nat
  se_session_id :: string
  se_state :: session_state
  se_blackbox_type :: string
  se_backend_session_id :: "string option"
  se_conversation_history :: "bb_message list"
  se_trace_events :: "trace_event list"
  se_turn_ledger :: "(string, turn_record) dict"
  se_turn_count :: nat
  se_created_at :: nat
  se_updated_at :: nat
  se_turn_mode :: "string option"
  se_default_turn_id :: "string option"

record server_config =
  sv_runtime_root :: string
  sv_max_sessions :: nat
  sv_max_turns :: int
  sv_backend_timeout :: real
  sv_execute_cmd_timeout :: real
  sv_router_timeout :: int
  sv_health_check_interval :: real
  sv_health_check_retries :: int
  sv_health_check_retry_delay :: real

record binding_info =
  bi_runtime_id :: string
  bi_blackbox_type :: string
  bi_router_raw :: string
  bi_router_base_url :: string
  bi_router_api_path :: string
  bi_bound_session_id :: string
  bi_bound_instance_id :: string
  bi_bound_sandbox_id :: "string option"
  bi_system_prompt :: "(string \<times> string \<times> string) option"
  bi_runtime_dir :: string

text \<open>
  The background task of a turn: the session object and the turn it works for, whether it has
  entered the backend call, and whether it has been asked to stop.
\<close>

datatype task_stage = NotStarted | InBackend

record turn_task =
  tk_id :: nat
  tk_object :: nat
  tk_session_id :: string
  tk_turn_id :: string
  tk_messages :: "bb_message list"
  tk_stage :: task_stage
  tk_cancel :: bool

record server =
  bs_state :: server_state
  bs_adapter :: "string option"
  bs_binding :: "binding_info option"
  bs_fingerprint :: "string option"
  bs_capabilities :: "backend_capabilities option"
  bs_base_config :: server_config
  bs_config :: server_config
  bs_sessions :: "(string, session_context) dict"
  bs_turn_events :: "(string \<times> string, bool) dict"
  bs_active_turn_tasks :: "(string, nat) dict"
  bs_tasks :: "turn_task list"
  bs_next_id :: nat
  bs_active_requests :: nat
  bs_no_inflight :: bool
  bs_shutdown_started :: bool
  bs_paused :: bool
  bs_pause_reason :: "string option"
  bs_current_version :: "string option"
  bs_resume_event :: bool

definition new_server :: "server_config \<Rightarrow> server" where
  "new_server config =
     \<lparr>bs_state = Idle, bs_adapter = None, bs_binding = None, bs_fingerprint = None, bs_capabilities = None, bs_base_config = config,
      bs_config = config, bs_sessions = [], bs_turn_events = [], bs_active_turn_tasks = [], bs_tasks = [], bs_next_id = 0,
      bs_active_requests = 0, bs_no_inflight = True, bs_shutdown_started = False, bs_paused = False, bs_pause_reason = None,
      bs_current_version = None, bs_resume_event = True\<rparr>"


section \<open>Fingerprints\<close>

fun canonicalize :: "pyval \<Rightarrow> pyval" where
  "canonicalize (PDict d) = PDict (map (\<lambda>(k, v). (k, canonicalize v)) (sort_key fst (filter (\<lambda>(k, v). v \<noteq> PNone) d)))"
| "canonicalize (PList xs) = PList (map canonicalize xs)"
| "canonicalize v = v"

definition stable_fingerprint :: "py_lib \<Rightarrow> pyval \<Rightarrow> string" where
  "stable_fingerprint lib v = sha256_hex lib (json_dumps lib (canonicalize v))"

definition opt_field :: "string \<Rightarrow> string option \<Rightarrow> jobj" where
  "opt_field k v = (case v of None \<Rightarrow> [] | Some s \<Rightarrow> [(k, PStr s)])"

definition tool_call_value :: "string \<times> string \<times> string \<Rightarrow> pyval" where
  "tool_call_value c =
     (case c of (i, n, a) \<Rightarrow> PDict [(''id'', PStr i), (''type'', PStr ''function''),
        (''function'', PDict [(''name'', PStr n), (''arguments'', PStr a)])])"

text \<open>\<open>model_dump(exclude_none=True)\<close> of a message.\<close>

definition message_value :: "bb_message \<Rightarrow> pyval" where
  "message_value m =
     PDict ([(''role'', PStr (bm_role m))] @ opt_field ''content'' (bm_content m) @ opt_field ''reasoning_content'' (bm_reasoning_content m) @
       (case bm_tool_calls m of None \<Rightarrow> [] | Some cs \<Rightarrow> [(''tool_calls'', PList (map tool_call_value cs))]) @
       opt_field ''tool_call_id'' (bm_tool_call_id m) @ opt_field ''name'' (bm_name m))"

definition message_request_fingerprint :: "py_lib \<Rightarrow> bb_message list \<Rightarrow> string" where
  "message_request_fingerprint lib messages = stable_fingerprint lib (PList (map message_value messages))"


section \<open>The session store\<close>

definition session_key :: "session_context \<Rightarrow> nat \<times> nat \<times> string" where
  "session_key s = (se_updated_at s, se_created_at s, se_session_id s)"

text \<open>\<open>min(xs, key=...)\<close> and \<open>max(xs, key=...)\<close>: the first element with the least or greatest key.\<close>

fun min_by :: "('a \<Rightarrow> 'k::linorder) \<Rightarrow> 'a \<Rightarrow> 'a list \<Rightarrow> 'a" where
  "min_by key x [] = x"
| "min_by key x (y # ys) = min_by key (if key y < key x then y else x) ys"

fun max_by :: "('a \<Rightarrow> 'k::linorder) \<Rightarrow> 'a \<Rightarrow> 'a list \<Rightarrow> 'a" where
  "max_by key x [] = x"
| "max_by key x (y # ys) = max_by key (if key x < key y then y else x) ys"

definition evict_oldest_aborted :: "(string, session_context) dict \<Rightarrow> (string, session_context) dict" where
  "evict_oldest_aborted d =
     (case filter (\<lambda>s. se_state s = Aborted) (dvalues d) of
        [] \<Rightarrow> d
      | s # ss \<Rightarrow> dpop (se_session_id (min_by session_key s ss)) d)"

text \<open>
  The sessions afterwards, and whether the one asked for is new; \<open>None\<close> is \<open>SessionCapacityError\<close>,
  which may come after an eviction.
\<close>

definition get_or_create :: "string \<Rightarrow> session_context \<Rightarrow> nat \<Rightarrow> (string, session_context) dict \<Rightarrow> bool option \<times> (string, session_context) dict" where
  "get_or_create session_id fresh max_sessions d =
     (if dmem session_id d then (Some False, d)
      else let d = (if max_sessions \<le> length d then evict_oldest_aborted d else d)
           in if max_sessions \<le> length d then (None, d) else (Some True, dset session_id fresh d))"

definition count_state :: "session_state \<Rightarrow> (string, session_context) dict \<Rightarrow> nat" where
  "count_state st d = length (filter (\<lambda>s. se_state s = st) (dvalues d))"

definition has_open_sessions :: "(string, session_context) dict \<Rightarrow> bool" where
  "has_open_sessions d \<longleftrightarrow> (\<exists>s \<in> set (dvalues d). se_state s \<in> {Active, Desynced})"

definition desync :: "nat \<Rightarrow> session_context \<Rightarrow> session_context" where
  "desync now s = (if se_state s \<noteq> Aborted then s\<lparr>se_state := Desynced, se_updated_at := now\<rparr> else s)"

definition mark_all_non_aborted_desynced :: "nat \<Rightarrow> (string, session_context) dict \<Rightarrow> (string, session_context) dict" where
  "mark_all_non_aborted_desynced now d = map (\<lambda>(k, s). (k, desync now s)) d"

definition mark_backend_error :: "nat \<Rightarrow> server \<Rightarrow> server" where
  "mark_backend_error now sv =
     (if bs_state sv = ServerError then sv
      else sv\<lparr>bs_state := ServerError, bs_sessions := mark_all_non_aborted_desynced now (bs_sessions sv)\<rparr>)"

text \<open>
  The health check with its retries: the results of the attempts, an exception counting as a
  failure.  The attempts are made one after the other until one succeeds or they are used up.
\<close>

fun health_attempts :: "nat \<Rightarrow> bool list \<Rightarrow> bool" where
  "health_attempts 0 results = False"
| "health_attempts (Suc n) [] = False"
| "health_attempts (Suc n) (r # rs) = (r \<or> health_attempts n rs)"

definition adapter_health_with_retry :: "server \<Rightarrow> bool list \<Rightarrow> bool" where
  "adapter_health_with_retry sv results =
     (if bs_adapter sv = None then False else health_attempts (nat (max 1 (sv_health_check_retries (bs_config sv)))) results)"



section \<open>Requests\<close>

definition identifier_char :: "char \<Rightarrow> bool" where
  "identifier_char c \<longleftrightarrow> is_alnum c \<or> c \<in> {CHR ''.'', CHR ''_'', CHR '':'', CHR ''-''}"

definition valid_identifier :: "string \<Rightarrow> bool" where
  "valid_identifier s = (case s of [] \<Rightarrow> False | c # cs \<Rightarrow> is_alnum c \<and> length cs \<le> 127 \<and> list_all identifier_char cs)"

definition validate_identifier :: "string \<Rightarrow> string \<Rightarrow> unit api" where
  "validate_identifier field s =
     (if valid_identifier s then Inr () else api_fail 400 ''request_error'' (field @ '' has invalid format.'') [(field, PStr s)])"

definition ensure_state_ready_for_messages :: "server \<Rightarrow> unit api" where
  "ensure_state_ready_for_messages sv =
     (if bs_state sv = Ready then Inr ()
      else api_fail 503 ''service_unavailable'' (''Server is not ready. current_state='' @ server_state_value (bs_state sv))
             [(''state'', PStr (server_state_value (bs_state sv)))])"

definition require_capabilities :: "server \<Rightarrow> backend_capabilities api" where
  "require_capabilities sv =
     (case bs_capabilities sv of
        None \<Rightarrow> api_fail 503 ''service_unavailable'' ''Backend capabilities are unavailable.'' []
      | Some c \<Rightarrow> Inr c)"

definition require_bound_session_match :: "string \<Rightarrow> server \<Rightarrow> string option api" where
  "require_bound_session_match session_id sv =
     (case bs_binding sv of
        None \<Rightarrow> Inr None
      | Some b \<Rightarrow>
          (if session_id \<noteq> bi_bound_session_id b
           then api_fail 409 ''bound_session_mismatch'' ''This rollout binding only serves the registered session_id.''
                  [(''expected_session_id'', PStr (bi_bound_session_id b)), (''actual_session_id'', PStr session_id)]
           else Inr (Some (bi_bound_session_id b))))"

definition response_instance_id :: "server \<Rightarrow> string option" where
  "response_instance_id sv = map_option bi_bound_instance_id (bs_binding sv)"

fun check_roles :: "backend_capabilities \<Rightarrow> bb_message list \<Rightarrow> unit api" where
  "check_roles caps [] = Inr ()"
| "check_roles caps (m # ms) =
     (if bm_role m = ''system'' then api_fail 400 ''request_error'' ''/messages does not support role=system in phase 1.'' []
      else if \<not> bc_history_injection caps \<and> bm_role m \<in> {''assistant'', ''tool''}
      then api_fail 400 ''request_error'' ''Current backend does not support assistant/tool history injection.'' []
      else check_roles caps ms)"

definition check_first_message :: "string \<Rightarrow> bb_message \<Rightarrow> unit api" where
  "check_first_message backend m =
     (if bm_role m \<noteq> ''user'' then api_fail 400 ''request_error'' (backend @ '' phase 1 only accepts a user message.'') []
      else if (case bm_content m of None \<Rightarrow> True | Some c \<Rightarrow> strip c = [])
      then api_fail 400 ''request_error'' (backend @ '' phase 1 requires non-empty user content.'') []
      else Inr ())"

definition validate_message_request :: "server \<Rightarrow> backend_capabilities \<Rightarrow> bb_message list \<Rightarrow> unit api" where
  "validate_message_request sv caps messages =
     (if messages = [] then api_fail 400 ''request_error'' ''messages must not be empty.'' []
      else if \<not> bc_multi_message_input caps \<and> length messages \<noteq> 1
      then api_fail 400 ''request_error'' ''Current backend accepts exactly one input message.'' []
      else rbind (case bs_binding sv of
                    Some b \<Rightarrow> if bi_blackbox_type b \<in> {''opencode'', ''openclaw'', ''claude_code'', ''codex''}
                              then check_first_message (bi_blackbox_type b) (hd messages) else Inr ()
                  | None \<Rightarrow> Inr ()) (\<lambda>_. check_roles caps messages))"


section \<open>Submitting a turn\<close>

definition active_turn_id :: "session_context \<Rightarrow> string option" where
  "active_turn_id s = map_option tr_turn_id (find (\<lambda>r. is_active (tr_status r)) (dvalues (se_turn_ledger s)))"

text \<open>The turn a request means, with the session's note of how its turns are named; \<open>generated\<close> is a fresh identifier.\<close>

definition resolve_request_turn_id :: "string \<Rightarrow> string option \<Rightarrow> session_context \<Rightarrow> string api \<times> session_context" where
  "resolve_request_turn_id generated request_turn_id s =
     (case request_turn_id of
        None \<Rightarrow>
          (if se_turn_mode s = Some ''explicit''
           then (api_fail 400 ''request_error'' ''turn_id is required after this session has used explicit turn ids.''
                   [(''session_id'', PStr (se_session_id s))], s)
           else case (se_turn_mode s, se_default_turn_id s) of
                  (Some m, Some t) \<Rightarrow> if m = ''single'' then (Inr t, s) else (Inr generated, s\<lparr>se_turn_mode := Some ''single'', se_default_turn_id := Some generated\<rparr>)
                | _ \<Rightarrow> (Inr generated, s\<lparr>se_turn_mode := Some ''single'', se_default_turn_id := Some generated\<rparr>))
      | Some t \<Rightarrow>
          (if se_turn_mode s = Some ''single''
           then (if Some t = se_default_turn_id s then (Inr t, s)
                 else (api_fail 409 ''conflict'' ''This session uses a generated single-turn id and cannot accept a new turn_id.''
                         [(''session_id'', PStr (se_session_id s)), (''expected_turn_id'', opt_text (se_default_turn_id s)), (''actual_turn_id'', PStr t)], s))
           else (Inr t, if se_turn_mode s = None then s\<lparr>se_turn_mode := Some ''explicit''\<rparr> else s)))"

record turn_submission =
  sb_turn_id :: string
  sb_status :: turn_status
  sb_idempotent_replay :: bool
  sb_instance_id :: "string option"

definition put_session :: "string \<Rightarrow> session_context \<Rightarrow> server \<Rightarrow> server" where
  "put_session sid s sv = sv\<lparr>bs_sessions := dset sid s (bs_sessions sv)\<rparr>"

definition new_turn_record :: "string \<Rightarrow> string \<Rightarrow> bb_message list \<Rightarrow> nat \<Rightarrow> turn_record" where
  "new_turn_record turn_id fp messages now =
     \<lparr>tr_turn_id = turn_id, tr_request_fingerprint = fp, tr_status = Queued, tr_request_messages = messages, tr_response = None,
      tr_error = None, tr_created_at = now, tr_updated_at = now\<rparr>"

text \<open>The record, the event and the task of an accepted turn.\<close>

definition accept_turn :: "string \<Rightarrow> string \<Rightarrow> string \<Rightarrow> bb_message list \<Rightarrow> nat \<Rightarrow> session_context \<Rightarrow> server \<Rightarrow> server" where
  "accept_turn sid turn_id fp messages now s sv =
     (let s = s\<lparr>se_turn_ledger := dset turn_id (new_turn_record turn_id fp messages now) (se_turn_ledger s)\<rparr>;
          tk = \<lparr>tk_id = bs_next_id sv, tk_object = se_object s, tk_session_id = sid, tk_turn_id = turn_id, tk_messages = messages,
                tk_stage = NotStarted, tk_cancel = False\<rparr>
      in (put_session sid s sv)\<lparr>bs_turn_events := dset (sid, turn_id) False (bs_turn_events sv),
            bs_active_turn_tasks := dset sid (bs_next_id sv) (bs_active_turn_tasks sv),
            bs_tasks := bs_tasks sv @ [tk], bs_next_id := bs_next_id sv + 1\<rparr>)"

text \<open>The critical section: the session is the bound one and its lock is held.\<close>

definition admit_turn :: "py_lib \<Rightarrow> bool list \<Rightarrow> string \<Rightarrow> nat \<Rightarrow> string \<Rightarrow> string option \<Rightarrow> bb_message list \<Rightarrow> string \<Rightarrow> session_context \<Rightarrow> server \<Rightarrow>
    turn_submission api \<times> server" where
  "admit_turn lib health generated now session_id turn_id messages sid s sv =
     (if se_state s = Aborted
      then (api_fail 409 ''conflict'' ''Session has been aborted and cannot accept new turns.''
              [(''session_id'', PStr session_id), (''state'', PStr ''aborted'')], sv)
      else if se_state s = Desynced
      then (api_fail 409 ''conflict'' ''Session is desynced and cannot accept new turns.''
              [(''session_id'', PStr session_id), (''state'', PStr ''desynced'')], sv)
      else if sv_max_turns (bs_config sv) \<le> int (se_turn_count s)
      then (api_fail 429 ''too_many_requests'' ''Session reached the max committed turn limit.''
              [(''session_id'', PStr session_id), (''max_turns'', PInt (sv_max_turns (bs_config sv)))], sv)
      else case resolve_request_turn_id generated turn_id s of
        (Inl e, s') \<Rightarrow> (Inl e, put_session sid s' sv)
      | (Inr t, s') \<Rightarrow>
          (let sv' = put_session sid s' sv; fp = message_request_fingerprint lib messages
           in case dget (se_turn_ledger s') t of
                Some r \<Rightarrow>
                  (if tr_request_fingerprint r \<noteq> fp
                   then (api_fail 409 ''conflict'' ''Same turn_id was already used with a different request body.''
                           [(''session_id'', PStr session_id), (''turn_id'', PStr t)], sv')
                   else (Inr \<lparr>sb_turn_id = t, sb_status = tr_status r, sb_idempotent_replay = True, sb_instance_id = response_instance_id sv\<rparr>, sv'))
              | None \<Rightarrow>
                  (case active_turn_id s' of
                     Some a \<Rightarrow> (api_fail 409 ''conflict'' ''Session already has an active turn in progress.''
                        [(''session_id'', PStr session_id), (''turn_id'', PStr t), (''active_turn_id'', PStr a)], sv')
                   | None \<Rightarrow>
                       (if \<not> adapter_health_with_retry sv health
                        then (api_fail 503 ''service_unavailable'' ''Backend is unavailable.'' [], mark_backend_error now sv')
                        else (Inr \<lparr>sb_turn_id = t, sb_status = Queued, sb_idempotent_replay = False, sb_instance_id = response_instance_id sv\<rparr>,
                              accept_turn sid t fp messages now s' sv')))))"

text \<open>The whole operation once the server is not paused.\<close>

definition submit_turn :: "py_lib \<Rightarrow> bool list \<Rightarrow> string \<Rightarrow> nat \<Rightarrow> string \<Rightarrow> string option \<Rightarrow> bb_message list \<Rightarrow> server \<Rightarrow> turn_submission api \<times> server" where
  "submit_turn lib health generated now session_id turn_id messages sv =
     (case rbind (validate_identifier ''session_id'' session_id) (\<lambda>_.
           rbind (case turn_id of None \<Rightarrow> Inr () | Some t \<Rightarrow> validate_identifier ''turn_id'' t) (\<lambda>_.
           rbind (require_capabilities sv) (\<lambda>caps.
           rbind (validate_message_request sv caps messages) (\<lambda>_.
           if bs_binding sv = None \<or> bs_adapter sv = None then Inl (Crash (AssertionError []))
           else require_bound_session_match session_id sv)))) of
        Inl e \<Rightarrow> (Inl e, sv)
      | Inr None \<Rightarrow> (api_fail 500 ''internal_error'' ''Rollout binding is missing bound_session_id.'' [], sv)
      | Inr (Some sid) \<Rightarrow>
          (case dget (bs_sessions sv) sid of
             None \<Rightarrow> (api_fail 500 ''internal_error'' ''Bound session was not initialized.'' [(''session_id'', PStr sid)], sv)
           | Some s \<Rightarrow> admit_turn lib health generated now session_id turn_id messages sid s sv))"


section \<open>Running a turn\<close>

text \<open>The session object a task works for, if the store still has it.\<close>

definition task_session :: "turn_task \<Rightarrow> server \<Rightarrow> session_context option" where
  "task_session tk sv =
     (case dget (bs_sessions sv) (tk_session_id tk) of
        Some s \<Rightarrow> if se_object s = tk_object tk then Some s else None
      | None \<Rightarrow> None)"

definition set_event :: "string \<times> string \<Rightarrow> server \<Rightarrow> server" where
  "set_event k sv = (if dmem k (bs_turn_events sv) then sv\<lparr>bs_turn_events := dset k True (bs_turn_events sv)\<rparr> else sv)"

definition remove_task :: "nat \<Rightarrow> server \<Rightarrow> server" where
  "remove_task i sv = sv\<lparr>bs_tasks := filter (\<lambda>tk. tk_id tk \<noteq> i) (bs_tasks sv)\<rparr>"

definition finish_task :: "turn_task \<Rightarrow> server \<Rightarrow> server" where
  "finish_task tk sv =
     (let sv = set_event (tk_session_id tk, tk_turn_id tk) sv;
          sv = (if dget (bs_active_turn_tasks sv) (tk_session_id tk) = Some (tk_id tk)
                then sv\<lparr>bs_active_turn_tasks := dpop (tk_session_id tk) (bs_active_turn_tasks sv)\<rparr> else sv)
      in remove_task (tk_id tk) sv)"

definition put_record :: "string \<Rightarrow> turn_record \<Rightarrow> session_context \<Rightarrow> session_context" where
  "put_record t r s = s\<lparr>se_turn_ledger := dset t r (se_turn_ledger s)\<rparr>"

definition set_stage :: "nat \<Rightarrow> server \<Rightarrow> server" where
  "set_stage i sv = sv\<lparr>bs_tasks := map (\<lambda>tk. if tk_id tk = i then tk\<lparr>tk_stage := InBackend\<rparr> else tk) (bs_tasks sv)\<rparr>"

definition run_turn_start :: "nat \<Rightarrow> turn_task \<Rightarrow> server \<Rightarrow> server" where
  "run_turn_start now tk sv =
     (case task_session tk sv of
        None \<Rightarrow> finish_task tk sv
      | Some s \<Rightarrow>
          (case dget (se_turn_ledger s) (tk_turn_id tk) of
             None \<Rightarrow> finish_task tk sv
           | Some r \<Rightarrow>
               (if tr_status r \<noteq> Queued then finish_task tk sv
                else set_stage (tk_id tk)
                       (put_session (tk_session_id tk) (put_record (tk_turn_id tk) (r\<lparr>tr_status := Inflight, tr_updated_at := now\<rparr>) s) sv))))"

datatype backend_outcome =
    Answered adapter_response
  | CallTimeout
  | ContextOverflow string jobj
  | MaxStepsExceeded string jobj
  | BackendFailure string bool
  | UnexpectedFailure string

text \<open>The code, message, status, extra details, and whether the backend process died.\<close>

fun outcome_error :: "backend_outcome \<Rightarrow> (string \<times> string \<times> int \<times> jobj \<times> bool) option" where
  "outcome_error (Answered r) = None"
| "outcome_error CallTimeout = Some (''backend_timeout'', ''Backend call exceeded backend_timeout.'', 504, [], False)"
| "outcome_error (ContextOverflow m d) = Some (''context_overflow'', m, 413, d, False)"
| "outcome_error (MaxStepsExceeded m d) = Some (''max_steps_exceeded'', m, 429, d, False)"
| "outcome_error (BackendFailure m p) = Some (''backend_error'', ''Backend request failed: '' @ m, 502, [], p)"
| "outcome_error (UnexpectedFailure m) = Some (''internal_error'', ''Unexpected backend failure: '' @ m, 500, [], False)"

definition turn_details :: "string \<Rightarrow> string \<Rightarrow> jobj" where
  "turn_details session_id turn_id = [(''session_id'', PStr session_id), (''turn_id'', PStr turn_id)]"

definition error_payload :: "string \<Rightarrow> string \<Rightarrow> int \<Rightarrow> jobj \<Rightarrow> jobj" where
  "error_payload code message http_status details =
     [(''error'', PStr code), (''message'', PStr message), (''details'', PDict details), (''http_status'', PInt http_status)]"

definition desync_session :: "nat \<Rightarrow> session_context \<Rightarrow> session_context" where
  "desync_session now s = (if se_state s \<noteq> Aborted then s\<lparr>se_state := Desynced, se_updated_at := now\<rparr> else s\<lparr>se_updated_at := now\<rparr>)"

definition handle_unknown_turn :: "nat \<Rightarrow> string \<Rightarrow> turn_record \<Rightarrow> string \<Rightarrow> string \<Rightarrow> int \<Rightarrow> jobj \<Rightarrow> session_context \<Rightarrow> session_context" where
  "handle_unknown_turn now turn_id r code message http_status extra s =
     desync_session now (put_record turn_id
       (r\<lparr>tr_status := Unknown, tr_updated_at := now,
          tr_error := Some (error_payload code message http_status (AList.updates (map fst extra) (map snd extra) (turn_details (se_session_id s) turn_id)))\<rparr>) s)"

definition commit_turn :: "nat \<Rightarrow> string \<Rightarrow> turn_record \<Rightarrow> bb_message list \<Rightarrow> adapter_response \<Rightarrow> session_context \<Rightarrow> session_context" where
  "commit_turn now turn_id r messages response s =
     put_record turn_id (r\<lparr>tr_status := Committed, tr_response := Some response, tr_updated_at := now\<rparr>)
       (s\<lparr>se_backend_session_id := Some (ar_backend_session_id response),
          se_conversation_history := se_conversation_history s @ messages @ ar_outputs response,
          se_trace_events := se_trace_events s @ ar_trace_events response, se_turn_count := se_turn_count s + 1, se_updated_at := now\<rparr>)"

definition run_turn_settle :: "nat \<Rightarrow> bool list \<Rightarrow> backend_outcome \<Rightarrow> turn_task \<Rightarrow> server \<Rightarrow> server" where
  "run_turn_settle now health out tk sv =
     finish_task tk
       (case task_session tk sv of
          None \<Rightarrow> sv
        | Some s \<Rightarrow>
            (case dget (se_turn_ledger s) (tk_turn_id tk) of
               None \<Rightarrow> sv
             | Some r \<Rightarrow>
                 (if tr_status r \<noteq> Inflight then sv
                  else case out of
                    Answered response \<Rightarrow> put_session (tk_session_id tk) (commit_turn now (tk_turn_id tk) r (tk_messages tk) response s) sv
                  | _ \<Rightarrow>
                      (case outcome_error out of
                         None \<Rightarrow> sv
                       | Some (code, message, http_status, extra, process_error) \<Rightarrow>
                           (let sv1 = put_session (tk_session_id tk) (handle_unknown_turn now (tk_turn_id tk) r code message http_status extra s) sv;
                                sv2 = (if bs_adapter sv1 \<noteq> None \<and> \<not> adapter_health_with_retry sv1 health then mark_backend_error now sv1 else sv1)
                            in if process_error then mark_backend_error now sv2 else sv2)))))"

definition finalize_interrupted_turn :: "nat \<Rightarrow> bool \<Rightarrow> string \<Rightarrow> session_context \<Rightarrow> session_context" where
  "finalize_interrupted_turn now shutting_down turn_id s =
     (case dget (se_turn_ledger s) turn_id of
        None \<Rightarrow> s
      | Some r \<Rightarrow>
          (if is_terminal (tr_status r) then s
           else if shutting_down
           then desync_session now (put_record turn_id (r\<lparr>tr_status := Unknown, tr_updated_at := now,
                  tr_error := Some (error_payload ''server_shutdown'' ''Server shut down while the turn was in flight.'' 504
                    (turn_details (se_session_id s) turn_id))\<rparr>) s)
           else (put_record turn_id (r\<lparr>tr_status := Cancelled, tr_updated_at := now,
                  tr_error := Some (error_payload ''cancelled'' ''Turn cancelled while in flight.'' 499
                    (turn_details (se_session_id s) turn_id))\<rparr>) s)\<lparr>se_updated_at := now\<rparr>))"

definition run_turn_interrupted :: "nat \<Rightarrow> turn_task \<Rightarrow> server \<Rightarrow> server" where
  "run_turn_interrupted now tk sv =
     finish_task tk
       (case task_session tk sv of
          None \<Rightarrow> sv
        | Some s \<Rightarrow> put_session (tk_session_id tk) (finalize_interrupted_turn now (bs_shutdown_started sv) (tk_turn_id tk) s) sv)"

text \<open>
  A task stopped before the turn is in flight settles nothing.  One that has not run at all
  does not reach its \<open>finally\<close> either.
\<close>

definition run_turn_stopped :: "bool \<Rightarrow> turn_task \<Rightarrow> server \<Rightarrow> server" where
  "run_turn_stopped begun tk sv = (if begun then finish_task tk sv else remove_task (tk_id tk) sv)"

definition cancel_task :: "nat \<Rightarrow> server \<Rightarrow> server" where
  "cancel_task i sv = sv\<lparr>bs_tasks := map (\<lambda>tk. if tk_id tk = i then tk\<lparr>tk_cancel := True\<rparr> else tk) (bs_tasks sv)\<rparr>"


section \<open>Reading, cancelling and aborting\<close>

definition not_found :: "string \<Rightarrow> jobj \<Rightarrow> 'a api" where
  "not_found what details = api_fail 404 ''not_found'' (what @ '' does not exist.'') details"

text \<open>The bound session a turn is looked up in.\<close>

definition bound_session :: "string \<Rightarrow> string \<Rightarrow> server \<Rightarrow> (string \<times> session_context) api" where
  "bound_session session_id turn_id sv =
     rbind (validate_identifier ''session_id'' session_id) (\<lambda>_.
     rbind (validate_identifier ''turn_id'' turn_id) (\<lambda>_.
     rbind (require_bound_session_match session_id sv) (\<lambda>bound.
       case bound of
         None \<Rightarrow> not_found ''Session'' [(''session_id'', PStr session_id)]
       | Some sid \<Rightarrow>
           (if sid = [] then not_found ''Session'' [(''session_id'', PStr session_id)]
            else case dget (bs_sessions sv) sid of
                   None \<Rightarrow> not_found ''Session'' [(''session_id'', PStr session_id)]
                 | Some s \<Rightarrow> Inr (sid, s)))))"

definition cancel_queued_record :: "nat \<Rightarrow> string \<Rightarrow> turn_record \<Rightarrow> turn_record" where
  "cancel_queued_record now session_id r =
     r\<lparr>tr_status := Cancelled, tr_updated_at := now,
       tr_error := Some (error_payload ''cancelled'' ''Turn cancelled before execution.'' 499 (turn_details session_id (tr_turn_id r)))\<rparr>"

definition cancel_turn :: "nat \<Rightarrow> string \<Rightarrow> string \<Rightarrow> server \<Rightarrow> (string \<times> session_state) api \<times> server" where
  "cancel_turn now session_id turn_id sv =
     (case bound_session session_id turn_id sv of
        Inl e \<Rightarrow> (Inl e, sv)
      | Inr (sid, s) \<Rightarrow>
          (case dget (se_turn_ledger s) turn_id of
             None \<Rightarrow> (not_found ''Turn'' (turn_details session_id turn_id), sv)
           | Some r \<Rightarrow>
               (if tr_status r = Queued
                then (Inr (''cancelled'', se_state s),
                      set_event (sid, turn_id) (put_session sid ((put_record turn_id (cancel_queued_record now session_id r) s)\<lparr>se_updated_at := now\<rparr>) sv))
                else if tr_status r = Inflight
                then (Inr (''cancel_requested'', se_state s),
                      case dget (bs_active_turn_tasks sv) sid of Some i \<Rightarrow> cancel_task i sv | None \<Rightarrow> sv)
                else (Inr (status_value (tr_status r), se_state s), sv))))"

definition abort_record :: "nat \<Rightarrow> string \<Rightarrow> turn_record \<Rightarrow> turn_record" where
  "abort_record now session_id r =
     (if is_active (tr_status r)
      then r\<lparr>tr_status := Unknown, tr_updated_at := now,
             tr_error := Some (error_payload ''aborted'' ''Session was aborted while turn was in flight.'' 409 (turn_details session_id (tr_turn_id r)))\<rparr>
      else r)"

definition abort_ledger :: "nat \<Rightarrow> string \<Rightarrow> session_context \<Rightarrow> session_context" where
  "abort_ledger now session_id s =
     s\<lparr>se_state := Aborted, se_updated_at := now, se_turn_ledger := map (\<lambda>(t, r). (t, abort_record now session_id r)) (se_turn_ledger s)\<rparr>"

definition active_records :: "session_context \<Rightarrow> turn_record list" where
  "active_records s = filter (\<lambda>r. is_active (tr_status r)) (dvalues (se_turn_ledger s))"

text \<open>The mode of the response: \<open>noop\<close> on a session that is aborted already.\<close>

definition abort_session :: "nat \<Rightarrow> string \<Rightarrow> server \<Rightarrow> string api \<times> server" where
  "abort_session now session_id sv =
     (case rbind (validate_identifier ''session_id'' session_id) (\<lambda>_. require_bound_session_match session_id sv) of
        Inl e \<Rightarrow> (Inl e, sv)
      | Inr _ \<Rightarrow>
          (case dget (bs_sessions sv) session_id of
             None \<Rightarrow> (not_found ''Session'' [(''session_id'', PStr session_id)], sv)
           | Some s \<Rightarrow>
               (if se_state s = Aborted then (Inr ''noop'', sv)
                else let sv1 = (case dget (bs_active_turn_tasks sv) session_id of Some i \<Rightarrow> cancel_task i sv | None \<Rightarrow> sv);
                         sv2 = put_session session_id (abort_ledger now session_id s) sv1
                     in (Inr ''best_effort'', fold (\<lambda>r. set_event (session_id, tr_turn_id r)) (active_records s) sv2))))"

text \<open>What a caller is told of a turn.\<close>

record turn_report =
  tp_status :: turn_status
  tp_state :: session_state
  tp_outputs :: "bb_message list option"
  tp_error :: "jobj option"

definition build_turn_status_response :: "session_context \<Rightarrow> turn_record \<Rightarrow> turn_report" where
  "build_turn_status_response s r =
     \<lparr>tp_status = tr_status r, tp_state = se_state s,
      tp_outputs = (if tr_status r = Committed then map_option ar_outputs (tr_response r) else None),
      tp_error = (if tr_status r = Committed \<and> tr_response r \<noteq> None then None else if is_terminal (tr_status r) then tr_error r else None)\<rparr>"

definition get_turn :: "string \<Rightarrow> string \<Rightarrow> server \<Rightarrow> turn_report api" where
  "get_turn session_id turn_id sv =
     rbind (bound_session session_id turn_id sv) (\<lambda>(sid, s).
       case dget (se_turn_ledger s) turn_id of
         None \<Rightarrow> not_found ''Turn'' (turn_details session_id turn_id)
       | Some r \<Rightarrow> Inr (build_turn_status_response s r))"

text \<open>The error of a turn as the caller of the synchronous interface gets it.\<close>

definition raise_from_turn_error :: "llm_lib \<Rightarrow> string \<Rightarrow> turn_record \<Rightarrow> failure" where
  "raise_from_turn_error lib session_id r =
     (let error = (case tr_error r of None \<Rightarrow> [] | Some e \<Rightarrow> e)
      in case py_int (py_or (pget error ''http_status'') (PInt 500)) of
           Inl e \<Rightarrow> Crash e
         | Inr status \<Rightarrow>
             Api (ApiError status (str_default lib (pget error ''error'') ''backend_error'') (str_default lib (pget error ''message'') ''Turn failed.'')
               (case pget error ''details'' of PDict d \<Rightarrow> d | _ \<Rightarrow> turn_details session_id (tr_turn_id r))))"

text \<open>What the synchronous interface returns once the event of the turn is set: its outputs or its error.\<close>

definition send_message_result :: "llm_lib \<Rightarrow> string \<Rightarrow> string \<Rightarrow> string \<Rightarrow> server \<Rightarrow> adapter_response api" where
  "send_message_result lib session_id sid turn_id sv =
     (case dget (bs_sessions sv) sid of
        None \<Rightarrow> api_fail 500 ''internal_error'' ''Bound session was not initialized.'' [(''session_id'', PStr sid)]
      | Some s \<Rightarrow>
          (case dget (se_turn_ledger s) turn_id of
             None \<Rightarrow> api_fail 500 ''internal_error'' ''Turn record disappeared before completion.'' (turn_details session_id turn_id)
           | Some r \<Rightarrow>
               (case (tr_status r, tr_response r) of
                  (Committed, Some response) \<Rightarrow> Inr response
                | _ \<Rightarrow> Inl (raise_from_turn_error lib session_id r))))"


section \<open>Commands\<close>

definition record_key :: "turn_record \<Rightarrow> nat \<times> nat \<times> string" where
  "record_key r = (tr_updated_at r, tr_created_at r, tr_turn_id r)"

definition session_allows_post_agent_commands :: "session_context \<Rightarrow> bool" where
  "session_allows_post_agent_commands s \<longleftrightarrow>
     se_state s = Desynced \<and>
     (case dvalues (se_turn_ledger s) of
        [] \<Rightarrow> False
      | r # rs \<Rightarrow>
          (let latest = max_by record_key r rs
           in tr_status latest = Unknown \<and>
              (case tr_error latest of
                 None \<Rightarrow> False
               | Some e \<Rightarrow> pget e ''error'' = PStr ''context_overflow'' \<or> pget e ''error'' = PStr ''max_steps_exceeded'')))"

definition validate_execute_cmd_request :: "server \<Rightarrow> string \<Rightarrow> real option \<Rightarrow> (string \<times> real) api" where
  "validate_execute_cmd_request sv cmd timeout =
     (if strip cmd = [] then api_fail 400 ''request_error'' ''cmd must not be empty.'' []
      else if \<exists>c \<in> set cmd. c \<in> {CHR 0x0A, CHR 0x0D, CHR 0x00} then api_fail 400 ''request_error'' ''cmd must be a single-line command.'' []
      else Inr (strip cmd, case timeout of None \<Rightarrow> sv_execute_cmd_timeout (bs_config sv) | Some t \<Rightarrow> t))"

text \<open>Everything but the process: the command and timeout that are run, or the refusal.\<close>

definition execute_cmd :: "string \<Rightarrow> string \<Rightarrow> real option \<Rightarrow> server \<Rightarrow> (string \<times> real) api" where
  "execute_cmd session_id cmd timeout sv =
     rbind (ensure_state_ready_for_messages sv) (\<lambda>_.
     rbind (validate_identifier ''session_id'' session_id) (\<lambda>_.
     rbind (validate_execute_cmd_request sv cmd timeout) (\<lambda>run.
     if bs_binding sv = None then Inl (Crash (AssertionError []))
     else rbind (require_bound_session_match session_id sv) (\<lambda>bound.
       case bound of
         None \<Rightarrow> api_fail 500 ''internal_error'' ''Rollout binding is missing bound_session_id.'' []
       | Some sid \<Rightarrow>
           (case dget (bs_sessions sv) sid of
              None \<Rightarrow> not_found ''Session'' [(''session_id'', PStr sid)]
            | Some s \<Rightarrow>
                (if se_state s = Aborted
                 then api_fail 409 ''conflict'' ''Session has been aborted and cannot execute commands.''
                        [(''session_id'', PStr session_id), (''state'', PStr ''aborted'')]
                 else if se_state s = Desynced \<and> \<not> session_allows_post_agent_commands s
                 then api_fail 409 ''conflict'' ''Session is desynced and cannot execute commands.''
                        [(''session_id'', PStr session_id), (''state'', PStr ''desynced'')]
                 else case active_turn_id s of
                        Some a \<Rightarrow> api_fail 409 ''conflict'' ''Session has an active turn in progress and cannot execute commands.''
                           [(''session_id'', PStr session_id), (''active_turn_id'', PStr a)]
                      | None \<Rightarrow> Inr run))))))"


section \<open>Pausing, shutting down, requests in progress\<close>

definition pause_generation :: "string \<Rightarrow> server \<Rightarrow> unit api \<times> server" where
  "pause_generation reason sv =
     (case ensure_state_ready_for_messages sv of
        Inl e \<Rightarrow> (Inl e, sv)
      | Inr _ \<Rightarrow> (if bs_adapter sv = None then (Inl (Crash (AssertionError [])), sv)
                  else (Inr (), sv\<lparr>bs_paused := True, bs_pause_reason := Some reason, bs_resume_event := False\<rparr>)))"

text \<open>The answer, from what the adapter reports: not reaching quiescence is an error, and the server stays paused.\<close>

definition pause_quiesced :: "jobj \<Rightarrow> unit api" where
  "pause_quiesced result =
     (if \<not> truthy (get_default result ''quiesced'' (PBool True))
      then api_fail 503 ''pause_timeout'' ''Rollout pause did not reach model-quiesced state before timeout.'' result
      else Inr ())"

definition resume_generation :: "string option \<Rightarrow> server \<Rightarrow> server" where
  "resume_generation version sv =
     sv\<lparr>bs_current_version := (case version of None \<Rightarrow> bs_current_version sv | Some v \<Rightarrow> Some v),
        bs_paused := False, bs_pause_reason := None, bs_resume_event := True\<rparr>"

definition request_enter :: "server \<Rightarrow> server" where
  "request_enter sv = sv\<lparr>bs_active_requests := bs_active_requests sv + 1, bs_no_inflight := False\<rparr>"

definition request_exit :: "server \<Rightarrow> server" where
  "request_exit sv =
     (let n = bs_active_requests sv - 1 in sv\<lparr>bs_active_requests := n, bs_no_inflight := (n = 0 \<or> bs_no_inflight sv)\<rparr>)"

text \<open>The start of a shutdown: the state, and the cancellation of every registered task.\<close>

definition graceful_shutdown :: "server \<Rightarrow> server" where
  "graceful_shutdown sv =
     (if bs_shutdown_started sv then sv
      else fold cancel_task (dvalues (bs_active_turn_tasks sv)) (sv\<lparr>bs_shutdown_started := True, bs_state := ShuttingDown\<rparr>))"



section \<open>Registration\<close>

text \<open>
  What registration uses of the system and of the libraries: URL parsing into scheme, authority
  and path, file system queries, the validation of the proxy options (the sampling mode, or the
  message of the error), and the file of the system prompt.
\<close>

record server_lib = py_lib +
  url_parse :: "string \<Rightarrow> string \<times> string \<times> string"
  abspath :: "string \<Rightarrow> string"
  is_file :: "string \<Rightarrow> bool"
  is_readable :: "string \<Rightarrow> bool"
  validate_proxy :: "jobj \<Rightarrow> string + string option"
  read_text :: "string \<Rightarrow> string option"

record config_override =
  co_runtime_root :: "string option"
  co_max_sessions :: "nat option"
  co_max_turns :: "int option"
  co_backend_timeout :: "real option"
  co_execute_cmd_timeout :: "real option"
  co_router_timeout :: "int option"
  co_health_check_interval :: "real option"
  co_health_check_retries :: "int option"
  co_health_check_retry_delay :: "real option"

definition override_or :: "'a option \<Rightarrow> 'a \<Rightarrow> 'a" where
  "override_or v d = (case v of None \<Rightarrow> d | Some x \<Rightarrow> x)"

definition apply_override :: "config_override \<Rightarrow> server_config \<Rightarrow> server_config" where
  "apply_override ov c =
     \<lparr>sv_runtime_root = override_or (co_runtime_root ov) (sv_runtime_root c), sv_max_sessions = override_or (co_max_sessions ov) (sv_max_sessions c),
      sv_max_turns = override_or (co_max_turns ov) (sv_max_turns c), sv_backend_timeout = override_or (co_backend_timeout ov) (sv_backend_timeout c),
      sv_execute_cmd_timeout = override_or (co_execute_cmd_timeout ov) (sv_execute_cmd_timeout c),
      sv_router_timeout = override_or (co_router_timeout ov) (sv_router_timeout c),
      sv_health_check_interval = override_or (co_health_check_interval ov) (sv_health_check_interval c),
      sv_health_check_retries = override_or (co_health_check_retries ov) (sv_health_check_retries c),
      sv_health_check_retry_delay = override_or (co_health_check_retry_delay ov) (sv_health_check_retry_delay c)\<rparr>"

definition opt_value :: "string \<Rightarrow> ('a \<Rightarrow> pyval) \<Rightarrow> 'a option \<Rightarrow> jobj" where
  "opt_value k f v = (case v of None \<Rightarrow> [] | Some x \<Rightarrow> [(k, f x)])"

definition explicit_values :: "config_override \<Rightarrow> jobj" where
  "explicit_values ov =
     opt_value ''runtime_root'' PStr (co_runtime_root ov) @ opt_value ''max_sessions'' (\<lambda>n. PInt (int n)) (co_max_sessions ov) @
     opt_value ''max_turns'' PInt (co_max_turns ov) @ opt_value ''backend_timeout'' (\<lambda>x. PFloat (Fin x)) (co_backend_timeout ov) @
     opt_value ''execute_cmd_timeout'' (\<lambda>x. PFloat (Fin x)) (co_execute_cmd_timeout ov) @ opt_value ''router_timeout'' PInt (co_router_timeout ov) @
     opt_value ''runtime_health_check_interval'' (\<lambda>x. PFloat (Fin x)) (co_health_check_interval ov) @
     opt_value ''runtime_health_check_retries'' PInt (co_health_check_retries ov) @
     opt_value ''runtime_health_check_retry_delay'' (\<lambda>x. PFloat (Fin x)) (co_health_check_retry_delay ov)"

record register_request =
  rr_blackbox_type :: string
  rr_router :: string
  rr_router_api_path :: string
  rr_bound_session_id :: "string option"
  rr_bound_instance_id :: "string option"
  rr_bound_sandbox_id :: "string option"
  rr_system_prompt_file :: "string option"
  rr_backend_options :: jobj
  rr_server_config :: "config_override option"

definition normalize_router :: "server_lib \<Rightarrow> string \<Rightarrow> string \<Rightarrow> (string \<times> string) result" where
  "normalize_router lib router api_path =
     (let raw = strip router;
          raw = (if contains_str raw ''://'' then raw else ''http://'' @ raw);
          (scheme, netloc, path) = url_parse lib raw
      in if netloc = [] then Inl (ValueError (''Invalid router value: '' @ router))
         else let p = (if path \<noteq> [] then path else if api_path \<noteq> [] then api_path else ''/v1'');
                  p = (if startswith p ''/'' then p else ''/'' @ p)
              in Inr (rstrip_slash ((if scheme = [] then ''http'' else scheme) @ ''://'' @ netloc @ p), p))"

definition validate_system_prompt_file :: "server_lib \<Rightarrow> string option \<Rightarrow> string option api" where
  "validate_system_prompt_file lib path =
     (case path of
        None \<Rightarrow> Inr None
      | Some p \<Rightarrow>
          (let n = abspath lib p
           in if \<not> startswith n ''/'' then api_fail 400 ''request_error'' ''system_prompt_file must be an absolute path.'' []
              else if \<not> is_file lib n then api_fail 400 ''request_error'' ''system_prompt_file does not exist.'' []
              else if \<not> is_readable lib n then api_fail 400 ''request_error'' ''system_prompt_file is not readable.'' []
              else Inr (Some n)))"

definition create_adapter :: "string \<Rightarrow> unit api" where
  "create_adapter blackbox_type =
     (if blackbox_type \<in> {''opencode'', ''openclaw'', ''claude_code'', ''codex''} then Inr ()
      else api_fail 400 ''request_error'' (''Unsupported blackbox_type: '' @ blackbox_type) [(''blackbox_type'', PStr blackbox_type)])"

definition parse_proxy_options :: "server_lib \<Rightarrow> jobj \<Rightarrow> string option api" where
  "parse_proxy_options lib backend_options =
     (case pget backend_options ''proxy'' of
        PNone \<Rightarrow> (case validate_proxy lib [] of Inr m \<Rightarrow> Inr m | Inl e \<Rightarrow> api_fail 400 ''request_error'' (''Invalid proxy config: '' @ e) [])
      | PDict d \<Rightarrow> (case validate_proxy lib d of Inr m \<Rightarrow> Inr m | Inl e \<Rightarrow> api_fail 400 ''request_error'' (''Invalid proxy config: '' @ e) [])
      | _ \<Rightarrow> api_fail 400 ''request_error'' ''backend_options.proxy must be an object.'' [])"

definition validate_register_binding :: "register_request \<Rightarrow> (string \<times> string) api" where
  "validate_register_binding rq =
     (case nonempty (rr_bound_session_id rq) of
        None \<Rightarrow> api_fail 400 ''request_error'' ''bound_session_id is required.'' []
      | Some sid \<Rightarrow>
          (case nonempty (rr_bound_instance_id rq) of
             None \<Rightarrow> api_fail 400 ''request_error'' ''bound_instance_id is required.'' []
           | Some iid \<Rightarrow>
               rbind (validate_identifier ''session_id'' sid) (\<lambda>_. rbind (validate_identifier ''instance_id'' iid) (\<lambda>_. Inr (sid, iid)))))"

definition binding_request_fingerprint :: "server_lib \<Rightarrow> register_request \<Rightarrow> string \<Rightarrow> string" where
  "binding_request_fingerprint lib rq router_base_url =
     stable_fingerprint (py_lib.truncate lib) (PDict
       [(''blackbox_type'', PStr (rr_blackbox_type rq)), (''router_base_url'', PStr router_base_url),
        (''bound_session_id'', opt_text (rr_bound_session_id rq)), (''bound_instance_id'', opt_text (rr_bound_instance_id rq)),
        (''bound_sandbox_id'', opt_text (rr_bound_sandbox_id rq)), (''system_prompt_file'', opt_text (map_option (abspath lib) (rr_system_prompt_file rq))),
        (''backend_options'', PDict (rr_backend_options rq)),
        (''server_config'', PDict (case rr_server_config rq of None \<Rightarrow> [] | Some ov \<Rightarrow> explicit_values ov))])"

text \<open>What is checked before the registration lock.\<close>

record registration =
  rg_binding :: binding_info
  rg_fingerprint :: string
  rg_config :: server_config
  rg_capabilities :: backend_capabilities

definition system_prompt_target :: "string \<Rightarrow> string \<Rightarrow> string \<times> string" where
  "system_prompt_target blackbox_type runtime_dir =
     (if blackbox_type = ''opencode'' then (runtime_dir @ ''/home/.config/opencode/prompts/build.txt'', ''build'')
      else if blackbox_type = ''openclaw'' then (runtime_dir @ ''/home/.openclaw/workspace/AGENTS.md'', ''openclaw'')
      else (runtime_dir @ ''/prompts/system.txt'', blackbox_type))"

definition build_binding :: "register_request \<Rightarrow> string \<Rightarrow> string \<Rightarrow> string option \<Rightarrow> server_config \<Rightarrow> string option \<Rightarrow> string \<Rightarrow> string \<Rightarrow> string \<Rightarrow> binding_info" where
  "build_binding rq base path prompt_file config mode generated sid iid =
     (let runtime_id = (if mode = Some ''force'' then sid else generated); runtime_dir = sv_runtime_root config @ ''/'' @ runtime_id
      in \<lparr>bi_runtime_id = runtime_id, bi_blackbox_type = rr_blackbox_type rq, bi_router_raw = rr_router rq, bi_router_base_url = base,
          bi_router_api_path = path, bi_bound_session_id = sid, bi_bound_instance_id = iid, bi_bound_sandbox_id = nonempty (rr_bound_sandbox_id rq),
          bi_system_prompt = map_option (\<lambda>f. (f, system_prompt_target (rr_blackbox_type rq) runtime_dir)) prompt_file, bi_runtime_dir = runtime_dir\<rparr>)"

definition check_registration :: "server_lib \<Rightarrow> (string \<Rightarrow> backend_capabilities) \<Rightarrow> string \<Rightarrow> register_request \<Rightarrow> server \<Rightarrow> registration api" where
  "check_registration lib caps_of generated rq sv =
     (if bs_state sv = ShuttingDown then api_fail 503 ''service_unavailable'' ''Server is shutting down.'' []
      else case normalize_router lib (rr_router rq) (rr_router_api_path rq) of
        Inl e \<Rightarrow> Inl (Crash e)
      | Inr (base, path) \<Rightarrow>
          rbind (validate_system_prompt_file lib (rr_system_prompt_file rq)) (\<lambda>prompt_file.
          rbind (create_adapter (rr_blackbox_type rq)) (\<lambda>_.
          let caps = caps_of (rr_blackbox_type rq);
              config = (case rr_server_config rq of None \<Rightarrow> bs_base_config sv | Some ov \<Rightarrow> apply_override ov (bs_base_config sv))
          in if prompt_file \<noteq> None \<and> \<not> bc_system_message caps
             then api_fail 400 ''request_error'' ''Current backend does not support register-time system prompt injection.''
                    [(''blackbox_type'', PStr (rr_blackbox_type rq))]
             else rbind (parse_proxy_options lib (rr_backend_options rq)) (\<lambda>mode.
                  rbind (validate_register_binding rq) (\<lambda>(sid, iid).
                    Inr \<lparr>rg_binding = build_binding rq base path prompt_file config mode generated sid iid,
                         rg_fingerprint = binding_request_fingerprint lib rq base, rg_config = config, rg_capabilities = caps\<rparr>)))))"

text \<open>
  Under the lock: the answer of an unchanged binding (\<open>True\<close>), a refusal, or the start of the
  initialisation (\<open>False\<close>), which takes the old binding down.
\<close>

definition register_begin :: "registration \<Rightarrow> server \<Rightarrow> bool api \<times> server" where
  "register_begin rg sv =
     (let same = (bs_fingerprint sv = Some (rg_fingerprint rg))
      in if bs_state sv = Initializing then (api_fail 409 ''conflict'' ''Server is initializing.'' [], sv)
         else if bs_state sv = ShuttingDown then (api_fail 503 ''service_unavailable'' ''Server is shutting down.'' [], sv)
         else if same \<and> bs_state sv = Ready \<and> bs_binding sv \<noteq> None then (Inr True, sv)
         else if \<not> same \<and> bs_binding sv \<noteq> None \<and> has_open_sessions (bs_sessions sv)
         then (api_fail 409 ''conflict'' ''Cannot rebind while active or desynced sessions still exist.'' [], sv)
         else (Inr False,
               sv\<lparr>bs_state := Initializing, bs_fingerprint := Some (rg_fingerprint rg), bs_adapter := None, bs_binding := None,
                  bs_capabilities := None, bs_config := bs_base_config sv,
                  bs_sessions := (if \<not> same \<and> bs_binding sv \<noteq> None then [] else bs_sessions sv)\<rparr>))"

datatype init_outcome = Initialized | InitApiError api_error | InitProtocolError string | InitFailed string

definition bound_session_context :: "nat \<Rightarrow> nat \<Rightarrow> binding_info \<Rightarrow> session_context" where
  "bound_session_context object now b =
     \<lparr>se_object = object, se_session_id = bi_bound_session_id b, se_state = Active, se_blackbox_type = bi_blackbox_type b, se_backend_session_id = None,
      se_conversation_history = [], se_trace_events = [], se_turn_ledger = [], se_turn_count = 0, se_created_at = now, se_updated_at = now,
      se_turn_mode = None, se_default_turn_id = None\<rparr>"

definition inject_system_prompt :: "server_lib \<Rightarrow> nat \<Rightarrow> binding_info \<Rightarrow> session_context \<Rightarrow> session_context" where
  "inject_system_prompt lib now b s =
     (case bi_system_prompt b of
        None \<Rightarrow> s
      | Some (source_file, _) \<Rightarrow>
          (case read_text lib source_file of
             None \<Rightarrow> s
           | Some content \<Rightarrow>
               (if strip content = [] then s
                else s\<lparr>se_conversation_history := \<lparr>bm_role = ''system'', bm_content = Some content, bm_reasoning_content = None, bm_tool_calls = None,
                          bm_tool_call_id = None, bm_name = None\<rparr> # se_conversation_history s,
                       se_trace_events := se_trace_events s @ [\<lparr>te_turn_id = ''__init__'', te_seq = 0, te_source = ''blackbox_server'',
                          te_event_type = ''system_prompt_injected'', te_payload = [(''source_file'', PStr source_file),
                            (''content_length'', PInt (int (length content)))], te_created_at = now\<rparr>]\<rparr>)))"

definition registration_failed :: "server_state \<Rightarrow> server \<Rightarrow> server" where
  "registration_failed st sv = sv\<lparr>bs_state := st, bs_adapter := None, bs_binding := None, bs_capabilities := None\<rparr>"

definition init_failure :: "string \<Rightarrow> string \<Rightarrow> failure" where
  "init_failure blackbox_type message =
     Api (ApiError 502 ''backend_error'' (''Failed to initialize backend: '' @ message) [(''blackbox_type'', PStr blackbox_type)])"

text \<open>The end of the initialisation, by what the adapter did.\<close>

definition register_finish :: "server_lib \<Rightarrow> nat \<Rightarrow> init_outcome \<Rightarrow> registration \<Rightarrow> server \<Rightarrow> unit api \<times> server" where
  "register_finish lib now out rg sv =
     (let b = rg_binding rg in
      case out of
        InitApiError e \<Rightarrow> (Inl (Api e), registration_failed ServerError sv)
      | InitProtocolError m \<Rightarrow>
          (Inl (Api (ApiError 400 ''request_error'' m [(''blackbox_type'', PStr (bi_blackbox_type b))])),
           (registration_failed Idle sv)\<lparr>bs_fingerprint := None, bs_config := bs_base_config sv\<rparr>)
      | InitFailed m \<Rightarrow> (Inl (init_failure (bi_blackbox_type b) m), registration_failed ServerError sv)
      | Initialized \<Rightarrow>
          (let sv1 = sv\<lparr>bs_adapter := Some (bi_blackbox_type b), bs_binding := Some b, bs_capabilities := Some (rg_capabilities rg), bs_config := rg_config rg\<rparr>;
               sid = bi_bound_session_id b
           in case get_or_create sid (inject_system_prompt lib now b (bound_session_context (bs_next_id sv) now b)) (sv_max_sessions (rg_config rg)) (bs_sessions sv) of
                (None, d) \<Rightarrow> (Inl (init_failure (bi_blackbox_type b) []), registration_failed ServerError (sv1\<lparr>bs_sessions := d\<rparr>))
              | (Some created, d) \<Rightarrow> (Inr (), sv1\<lparr>bs_sessions := d, bs_next_id := bs_next_id sv + 1, bs_state := Ready\<rparr>)))"



section \<open>Ledgers\<close>

definition exchange :: "turn_record \<Rightarrow> bb_message list" where
  "exchange r = tr_request_messages r @ (case tr_response r of None \<Rightarrow> [] | Some a \<Rightarrow> ar_outputs a)"

definition committed_records :: "session_context \<Rightarrow> turn_record list" where
  "committed_records s = filter (\<lambda>r. tr_status r = Committed) (dvalues (se_turn_ledger s))"

definition prompt_ok :: "bb_message list \<Rightarrow> bool" where
  "prompt_ok p \<longleftrightarrow> p = [] \<or> (\<exists>m. p = [m] \<and> bm_role m = ''system'')"

text \<open>
  A ledger is filed under the identifiers of its records, only its last record may be active, none is in an
  aborted session, and the history is the prompt followed by what the committed turns exchanged.
\<close>

definition ledger_ok :: "session_context \<Rightarrow> bool" where
  "ledger_ok s \<longleftrightarrow>
     dict_ok (se_turn_ledger s) \<and> (\<forall>(t, r) \<in> set (se_turn_ledger s). tr_turn_id r = t) \<and>
     list_all (\<lambda>r. \<not> is_active (tr_status r)) (butlast (dvalues (se_turn_ledger s))) \<and>
     (se_state s = Aborted \<longrightarrow> active_records s = []) \<and> se_turn_count s = length (committed_records s) \<and>
     (\<exists>p. prompt_ok p \<and> se_conversation_history s = p @ concat (map exchange (committed_records s)))"

lemma ledger_ok_turn_id: "ledger_ok s \<Longrightarrow> dget (se_turn_ledger s) t = Some r \<Longrightarrow> tr_turn_id r = t"
  by (auto simp: ledger_ok_def dest: map_of_SomeD)

lemma active_record_last:
  assumes "ledger_ok s" "dget (se_turn_ledger s) t = Some r" "is_active (tr_status r)"
  shows "\<exists>xs. se_turn_ledger s = xs @ [(t, r)] \<and> t \<notin> fst ` set xs \<and> list_all (\<lambda>x. \<not> is_active (tr_status (snd x))) xs"
proof -
  let ?L = "se_turn_ledger s"
  have "(t, r) \<in> set ?L" using assms(2) by (rule map_of_SomeD)
  then have ne: "?L \<noteq> []" by auto
  have inactive: "list_all (\<lambda>x. \<not> is_active (tr_status (snd x))) (butlast ?L)"
    using assms(1) by (simp add: ledger_ok_def map_butlast [symmetric] list_all_iff)
  moreover have "(t, r) \<in> set (butlast ?L) \<or> (t, r) = last ?L" using \<open>(t, r) \<in> set ?L\<close> ne by (metis append_butlast_last_id in_set_butlast_appendI insert_iff list.set(2) Un_iff set_append empty_iff list.set(1))
  ultimately have last: "last ?L = (t, r)" using assms(3) by (auto simp: list_all_iff)
  then have L: "?L = butlast ?L @ [(t, r)]" using ne by (metis append_butlast_last_id)
  then have "distinct (map fst (butlast ?L @ [(t, r)]))" using assms(1) by (metis ledger_ok_def dict_ok_def)
  then have "t \<notin> fst ` set (butlast ?L)" by simp
  then show ?thesis using L inactive by blast
qed

lemma dset_last: "t \<notin> fst ` set xs \<Longrightarrow> dset t r' (xs @ [(t, r)]) = xs @ [(t, r')]"
  by (induction xs) auto

lemma active_records_last: "list_all (\<lambda>x. \<not> is_active (tr_status (snd x))) xs \<Longrightarrow> se_turn_ledger s = xs @ [(t, r)] \<Longrightarrow>
    active_records s = (if is_active (tr_status r) then [r] else [])"
  by (auto simp: active_records_def list_all_iff filter_empty_conv)

text \<open>Settling the active record, and putting a new one behind records that are all settled.\<close>

lemma ledger_ok_settle:
  assumes ok: "ledger_ok s" and r: "dget (se_turn_ledger s) t = Some r" "is_active (tr_status r)"
    and r': "tr_turn_id r' = t" "tr_status r' \<noteq> Committed" and s': "se_turn_ledger s' = dset t r' (se_turn_ledger s)"
      "se_turn_count s' = se_turn_count s" "se_conversation_history s' = se_conversation_history s" "se_state s' = Aborted \<longrightarrow> se_state s = Aborted"
  shows "ledger_ok s'"
proof -
  obtain xs where xs: "se_turn_ledger s = xs @ [(t, r)]" "t \<notin> fst ` set xs" "list_all (\<lambda>x. \<not> is_active (tr_status (snd x))) xs"
    using active_record_last [OF ok r] by blast
  have L': "se_turn_ledger s' = xs @ [(t, r')]" using s'(1) xs dset_last by simp
  have "tr_status r \<noteq> Committed" using r(2) by (auto simp: is_active_def)
  then have "committed_records s' = committed_records s" using xs L' r'(2) by (simp add: committed_records_def)
  moreover have "se_state s \<noteq> Aborted" using ok r xs active_records_last [OF xs(3,1)] by (auto simp: ledger_ok_def)
  ultimately show ?thesis using ok xs L' r'(1) s' by (auto simp: ledger_ok_def dict_ok_def list_all_iff)
qed

lemma ledger_ok_commit:
  assumes ok: "ledger_ok s" and r: "dget (se_turn_ledger s) t = Some r" "is_active (tr_status r)" and m: "messages = tr_request_messages r"
  shows "ledger_ok (commit_turn now t r messages response s)"
proof -
  obtain xs where xs: "se_turn_ledger s = xs @ [(t, r)]" "t \<notin> fst ` set xs" "list_all (\<lambda>x. \<not> is_active (tr_status (snd x))) xs"
    using active_record_last [OF ok r] by blast
  let ?r = "r\<lparr>tr_status := Committed, tr_response := Some response, tr_updated_at := now\<rparr>" and ?s = "commit_turn now t r messages response s"
  have L': "se_turn_ledger ?s = xs @ [(t, ?r)]" using xs dset_last by (simp add: commit_turn_def put_record_def)
  have uncommitted: "tr_status r \<noteq> Committed" using r(2) by (auto simp: is_active_def)
  have "committed_records ?s = committed_records s @ [?r]" using xs L' uncommitted by (simp add: committed_records_def)
  moreover have "se_conversation_history ?s = se_conversation_history s @ exchange ?r" using m by (simp add: commit_turn_def put_record_def exchange_def)
  moreover have "active_records ?s = []" using active_records_last [OF xs(3) L'] by (simp add: is_active_def)
  moreover have "tr_turn_id r = t" using ledger_ok_turn_id [OF ok r(1)] .
  ultimately show ?thesis using ok xs L' by (auto simp: ledger_ok_def dict_ok_def list_all_iff commit_turn_def put_record_def)
qed

lemma no_active_records: "ledger_ok s \<Longrightarrow> active_turn_id s = None \<longleftrightarrow> active_records s = []"
  by (auto simp: active_turn_id_def active_records_def find_None_iff filter_empty_conv)

lemma ledger_ok_accept:
  assumes ok: "ledger_ok s" and new: "dget (se_turn_ledger s) t = None" "active_records s = []" "se_state s \<noteq> Aborted"
  shows "ledger_ok (s\<lparr>se_turn_ledger := dset t (new_turn_record t fp ms now) (se_turn_ledger s)\<rparr>)"
proof -
  have L: "dset t (new_turn_record t fp ms now) (se_turn_ledger s) = se_turn_ledger s @ [(t, new_turn_record t fp ms now)]"
    using new(1) by (simp add: dset_new dmem_def)
  have "t \<notin> fst ` set (se_turn_ledger s)" using new(1) by (simp add: map_of_eq_None_iff)
  moreover have "list_all (\<lambda>r. \<not> is_active (tr_status r)) (dvalues (se_turn_ledger s))" using new(2) by (auto simp: active_records_def filter_empty_conv list_all_iff)
  moreover have "committed_records (s\<lparr>se_turn_ledger := se_turn_ledger s @ [(t, new_turn_record t fp ms now)]\<rparr>) = committed_records s"
    by (simp add: committed_records_def new_turn_record_def)
  ultimately show ?thesis using ok new(3) L by (auto simp: ledger_ok_def dict_ok_def new_turn_record_def)
qed

lemma ledger_ok_abort: "ledger_ok s \<Longrightarrow> ledger_ok (abort_ledger now session_id s) \<and> active_records (abort_ledger now session_id s) = []"
proof -
  assume ok: "ledger_ok s"
  let ?s = "abort_ledger now session_id s" and ?f = "abort_record now session_id"
  have recs: "dvalues (se_turn_ledger ?s) = map ?f (dvalues (se_turn_ledger s))" by (simp add: abort_ledger_def case_prod_beta comp_def)
  have f: "\<not> is_active (tr_status (?f r))" "tr_turn_id (?f r) = tr_turn_id r" "tr_status (?f r) = Committed \<longleftrightarrow> tr_status r = Committed"
    "tr_status r = Committed \<Longrightarrow> ?f r = r" for r
    by (auto simp: abort_record_def is_active_def)
  have "committed_records ?s = committed_records s"
    using f(3,4) unfolding committed_records_def recs filter_map comp_def by (simp add: map_idI)
  moreover have none: "active_records ?s = []" using f(1) by (simp add: active_records_def recs filter_map comp_def)
  moreover have "list_all (\<lambda>r. \<not> is_active (tr_status r)) (butlast (dvalues (se_turn_ledger ?s)))"
    using f(1) by (simp add: recs map_butlast [symmetric] list_all_iff)
  moreover have "dict_ok (se_turn_ledger ?s)" using ok by (simp add: abort_ledger_def dict_ok_map_values ledger_ok_def)
  moreover have "\<forall>(t, r) \<in> set (se_turn_ledger ?s). tr_turn_id r = t" using ok f(2) by (auto simp: abort_ledger_def ledger_ok_def)
  ultimately show ?thesis using ok by (auto simp: ledger_ok_def abort_ledger_def)
qed

end
