(* ===== verification/Blackbox_Turns.thy ===== *)
theory Blackbox_Turns
  imports Blackbox_Server
begin

text \<open>
  The blackbox server as a transition system: every interleaving of submissions, background tasks,
  cancellations, aborts, registrations, health failures, pauses and shutdown.

  The lemmas show the invariant of the server, one preservation lemma per operation: the ledgers are in
  order, a task knows the messages of its turn, an event that is not yet set belongs to an active turn, and before
  shutdown every active turn has a task that will settle it.
\<close>

section \<open>The invariant\<close>

definition live_task :: "server \<Rightarrow> string \<Rightarrow> session_context \<Rightarrow> turn_record \<Rightarrow> turn_task \<Rightarrow> bool" where
  "live_task sv sid s r tk \<longleftrightarrow>
     tk \<in> set (bs_tasks sv) \<and> tk_object tk = se_object s \<and> tk_session_id tk = sid \<and> tk_turn_id tk = tr_turn_id r \<and>
     dget (bs_active_turn_tasks sv) sid = Some (tk_id tk) \<and> (tk_stage tk = NotStarted \<longleftrightarrow> tr_status r = Queued) \<and>
     (tk_stage tk = NotStarted \<longrightarrow> \<not> tk_cancel tk)"

definition sessions_ok :: "server \<Rightarrow> bool" where
  "sessions_ok sv \<longleftrightarrow>
     dict_ok (bs_sessions sv) \<and>
     (\<forall>sid s. dget (bs_sessions sv) sid = Some s \<longrightarrow> ledger_ok s \<and> se_object s < bs_next_id sv \<and> se_session_id s = sid)"

text \<open>What a task works for; no two tasks share it.\<close>

definition task_key :: "turn_task \<Rightarrow> nat \<times> string \<times> string" where
  "task_key tk = (tk_object tk, tk_session_id tk, tk_turn_id tk)"

definition tasks_ok :: "server \<Rightarrow> bool" where
  "tasks_ok sv \<longleftrightarrow>
     distinct (map tk_id (bs_tasks sv)) \<and> distinct (map task_key (bs_tasks sv)) \<and>
     (\<forall>tk \<in> set (bs_tasks sv). tk_id tk < bs_next_id sv \<and> tk_object tk < bs_next_id sv) \<and>
     (\<forall>sid i. dget (bs_active_turn_tasks sv) sid = Some i \<longrightarrow> i < bs_next_id sv) \<and>
     (\<forall>tk \<in> set (bs_tasks sv). \<forall>s. task_session tk sv = Some s \<longrightarrow>
        (\<exists>r. dget (se_turn_ledger s) (tk_turn_id tk) = Some r \<and> tk_messages tk = tr_request_messages r)) \<and>
     (\<forall>tk \<in> set (bs_tasks sv). \<forall>sid. dget (bs_active_turn_tasks sv) sid = Some (tk_id tk) \<longrightarrow> tk_session_id tk = sid)"

text \<open>The events that are not set are those of active turns, but for the keys in a set.\<close>

definition active_key :: "server \<Rightarrow> string \<times> string \<Rightarrow> bool" where
  "active_key sv k \<longleftrightarrow> (\<exists>s r. dget (bs_sessions sv) (fst k) = Some s \<and> dget (se_turn_ledger s) (snd k) = Some r \<and> is_active (tr_status r))"

definition events_ok :: "(string \<times> string) set \<Rightarrow> server \<Rightarrow> bool" where
  "events_ok K sv \<longleftrightarrow> (\<forall>k. dget (bs_turn_events sv) k = Some False \<longrightarrow> active_key sv k \<or> k \<in> K)"

definition live_ok :: "server \<Rightarrow> bool" where
  "live_ok sv \<longleftrightarrow>
     (\<not> bs_shutdown_started sv \<longrightarrow>
        (\<forall>sid s r. dget (bs_sessions sv) sid = Some s \<and> r \<in> set (active_records s) \<longrightarrow> (\<exists>tk. live_task sv sid s r tk)))"

definition server_inv_ex :: "(string \<times> string) set \<Rightarrow> server \<Rightarrow> bool" where
  "server_inv_ex K sv \<longleftrightarrow> sessions_ok sv \<and> tasks_ok sv \<and> events_ok K sv \<and> live_ok sv"

abbreviation server_inv :: "server \<Rightarrow> bool" where
  "server_inv sv \<equiv> server_inv_ex {} sv"

lemmas inv_defs = server_inv_ex_def sessions_ok_def tasks_ok_def events_ok_def live_ok_def

lemma set_active_records: "ledger_ok s \<Longrightarrow> r \<in> set (active_records s) \<longleftrightarrow> dget (se_turn_ledger s) (tr_turn_id r) = Some r \<and> is_active (tr_status r)"
proof -
  assume ok: "ledger_ok s"
  then have "r \<in> set (dvalues (se_turn_ledger s)) \<longleftrightarrow> dget (se_turn_ledger s) (tr_turn_id r) = Some r"
    by (force simp: ledger_ok_def dget_in_set)
  then show ?thesis by (auto simp: active_records_def)
qed

lemma distinct_ids: "distinct (map tk_id ts) \<Longrightarrow> tk \<in> set ts \<Longrightarrow> tk' \<in> set ts \<Longrightarrow> tk_id tk = tk_id tk' \<Longrightarrow> tk = tk'"
  by (metis distinct_map inj_onD)


text \<open>What an operation that leaves the store alone keeps.\<close>

lemma task_session_frame: "bs_sessions sv' = bs_sessions sv \<Longrightarrow> task_session tk sv' = task_session tk sv"
  by (simp add: task_session_def)

lemma active_key_frame: "bs_sessions sv' = bs_sessions sv \<Longrightarrow> active_key sv' k = active_key sv k"
  by (simp add: active_key_def)

lemma sessions_ok_frame: "bs_sessions sv' = bs_sessions sv \<Longrightarrow> bs_next_id sv' = bs_next_id sv \<Longrightarrow> sessions_ok sv' = sessions_ok sv"
  by (simp add: sessions_ok_def)

lemma tasks_ok_sub:
  assumes ok: "tasks_ok sv" and ses: "bs_sessions sv' = bs_sessions sv" and id: "bs_next_id sv' = bs_next_id sv"
    and sub: "bs_tasks sv' = filter P (bs_tasks sv)" "\<And>sid i. dget (bs_active_turn_tasks sv') sid = Some i \<Longrightarrow> dget (bs_active_turn_tasks sv) sid = Some i"
  shows "tasks_ok sv'"
  unfolding tasks_ok_def id sub(1) task_session_frame [OF ses]
proof (intro conjI ballI allI impI)
  fix tk s
  assume "tk \<in> set (filter P (bs_tasks sv))" "task_session tk sv = Some s"
  then show "\<exists>r. dget (se_turn_ledger s) (tk_turn_id tk) = Some r \<and> tk_messages tk = tr_request_messages r"
    using ok by (simp add: tasks_ok_def)
next
  fix tk sid
  assume "tk \<in> set (filter P (bs_tasks sv))" "dget (bs_active_turn_tasks sv') sid = Some (tk_id tk)"
  then show "tk_session_id tk = sid" using ok sub(2) [of sid "tk_id tk"] by (simp add: tasks_ok_def)
next
  fix sid i
  assume "dget (bs_active_turn_tasks sv') sid = Some i"
  then show "i < bs_next_id sv" using ok sub(2) [of sid i] by (simp add: tasks_ok_def)
qed (use ok in \<open>simp_all add: tasks_ok_def distinct_map_filter\<close>)

lemma events_ok_sub:
  assumes "events_ok K sv" "bs_sessions sv' = bs_sessions sv"
    "\<And>k. dget (bs_turn_events sv') k = Some False \<Longrightarrow> dget (bs_turn_events sv) k = Some False \<and> (k \<in> K \<longrightarrow> k \<in> K')"
  shows "events_ok K' sv'"
  using assms(1,3) unfolding events_ok_def active_key_frame [OF assms(2)] by meson


section \<open>Changing one session\<close>

text \<open>
  A session evolves: it stays the same object with a ledger in order, keeps its records and their
  messages, and no record becomes active or changes while it is active.
\<close>

abbreviation same_object :: "session_context \<Rightarrow> session_context \<Rightarrow> bool" where
  "same_object s s' \<equiv> se_object s' = se_object s \<and> se_session_id s' = se_session_id s"

definition evolves :: "session_context \<Rightarrow> session_context \<Rightarrow> bool" where
  "evolves s s' \<longleftrightarrow>
     same_object s s' \<and> ledger_ok s' \<and>
     (\<forall>t r. dget (se_turn_ledger s) t = Some r \<longrightarrow> (\<exists>r'. dget (se_turn_ledger s') t = Some r' \<and> tr_request_messages r' = tr_request_messages r)) \<and>
     set (active_records s') \<subseteq> set (active_records s)"

lemma put_session_simps [simp]:
  "bs_tasks (put_session sid s sv) = bs_tasks sv" "bs_active_turn_tasks (put_session sid s sv) = bs_active_turn_tasks sv"
  "bs_turn_events (put_session sid s sv) = bs_turn_events sv" "bs_next_id (put_session sid s sv) = bs_next_id sv"
  "bs_shutdown_started (put_session sid s sv) = bs_shutdown_started sv" "bs_sessions (put_session sid s sv) = dset sid s (bs_sessions sv)"
  by (simp_all add: put_session_def)

lemma inv_put_session:
  assumes inv: "server_inv_ex K sv" and s: "dget (bs_sessions sv) sid = Some s" and ev: "evolves s s'"
    and K: "\<And>r. r \<in> set (active_records s) \<Longrightarrow> r \<notin> set (active_records s') \<Longrightarrow> (sid, tr_turn_id r) \<in> K'" "K \<subseteq> K'"
  shows "server_inv_ex K' (put_session sid s' sv)"
proof -
  let ?sv = "put_session sid s' sv"
  have ok: "ledger_ok s" "ledger_ok s'" "se_object s' = se_object s" using inv s ev by (auto simp: inv_defs evolves_def)
  have sessions: "sessions_ok ?sv" using inv s ev by (auto simp: inv_defs evolves_def)
  have tsession: "task_session tk ?sv = (if tk_session_id tk = sid \<and> tk_object tk = se_object s then Some s' else task_session tk sv)" for tk
    using s ok(3) by (auto simp: task_session_def)
  have tasks: "tasks_ok ?sv"
    unfolding tasks_ok_def
  proof (intro conjI ballI allI impI)
    fix tk s1
    assume tk: "tk \<in> set (bs_tasks ?sv)" and s1: "task_session tk ?sv = Some s1"
    show "\<exists>r. dget (se_turn_ledger s1) (tk_turn_id tk) = Some r \<and> tk_messages tk = tr_request_messages r"
    proof (cases "tk_session_id tk = sid \<and> tk_object tk = se_object s")
      case True
      then have "s1 = s'" using s1 tsession [of tk] by simp
      moreover have "task_session tk sv = Some s" using s True by (simp add: task_session_def)
      moreover have "\<forall>s. task_session tk sv = Some s \<longrightarrow> (\<exists>r. dget (se_turn_ledger s) (tk_turn_id tk) = Some r \<and> tk_messages tk = tr_request_messages r)"
        using inv tk by (simp add: server_inv_ex_def tasks_ok_def)
      ultimately obtain r where "dget (se_turn_ledger s) (tk_turn_id tk) = Some r" "tk_messages tk = tr_request_messages r" "s1 = s'" by blast
      then show ?thesis using ev unfolding evolves_def by metis
    next
      case False
      then show ?thesis using inv tk s1 tsession by (auto simp: inv_defs)
    qed
  qed (use inv in \<open>auto simp: inv_defs\<close>)
  have key: "active_key ?sv k \<or> k \<in> K'" if "active_key sv k \<or> k \<in> K" for k
  proof (cases "fst k = sid \<and> active_key sv k")
    case True
    then obtain r where r: "dget (se_turn_ledger s) (snd k) = Some r" "is_active (tr_status r)" using s by (auto simp: active_key_def)
    then have id: "tr_turn_id r = snd k" using ledger_ok_turn_id ok by blast
    then have "r \<in> set (active_records s)" using r set_active_records [OF ok(1)] by simp
    then have "r \<in> set (active_records s') \<or> k \<in> K'" using K(1) True id by (metis prod.collapse)
    then show ?thesis using set_active_records [OF ok(2), of r] id True by (auto simp: active_key_def)
  next
    case False
    then show ?thesis using that K(2) by (auto simp: active_key_def)
  qed
  have "live_ok ?sv"
    using inv s ev ok by (auto simp: inv_defs evolves_def live_task_def split: if_splits)
  then show ?thesis using sessions tasks key inv by (auto simp: server_inv_ex_def events_ok_def)
qed

lemma inv_set_event:
  assumes "server_inv_ex K sv"
  shows "server_inv_ex (K - {k}) (set_event k sv)"
proof -
  let ?sv = "set_event k sv"
  have frame: "bs_sessions ?sv = bs_sessions sv" "bs_tasks ?sv = filter (\<lambda>_. True) (bs_tasks sv)" "bs_active_turn_tasks ?sv = bs_active_turn_tasks sv"
    "bs_next_id ?sv = bs_next_id sv" "bs_shutdown_started ?sv = bs_shutdown_started sv"
    by (simp_all add: set_event_def)
  have "tasks_ok sv" using assms by (simp add: server_inv_ex_def)
  from tasks_ok_sub [OF this frame(1,4,2)] have "tasks_ok ?sv" using frame(3) by simp
  moreover have "events_ok (K - {k}) ?sv"
  proof (rule events_ok_sub [of K sv])
    show "dget (bs_turn_events sv) k' = Some False \<and> (k' \<in> K \<longrightarrow> k' \<in> K - {k})" if "dget (bs_turn_events ?sv) k' = Some False" for k'
      using that by (auto simp: set_event_def dmem_def split: if_splits)
  qed (use assms frame in \<open>simp_all add: server_inv_ex_def\<close>)
  moreover have "live_task ?sv sid s r tk = live_task sv sid s r tk" for sid s r tk using frame by (simp add: live_task_def)
  ultimately show ?thesis using assms frame sessions_ok_frame [of ?sv sv] by (simp add: server_inv_ex_def live_ok_def)
qed

lemma inv_weaken: "server_inv_ex K sv \<Longrightarrow> K \<subseteq> K' \<Longrightarrow> server_inv_ex K' sv"
  unfolding server_inv_ex_def events_ok_def by (meson subsetD)


section \<open>Changing the tasks\<close>

text \<open>A task that no active turn depends on.\<close>

definition idle_task :: "server \<Rightarrow> turn_task \<Rightarrow> bool" where
  "idle_task sv tk \<longleftrightarrow>
     bs_shutdown_started sv \<or> (\<forall>sid s r. dget (bs_sessions sv) sid = Some s \<and> r \<in> set (active_records s) \<longrightarrow> \<not> live_task sv sid s r tk)"

lemma inv_remove_task:
  assumes inv: "server_inv_ex K sv" and tk: "tk \<in> set (bs_tasks sv)" "idle_task sv tk"
  shows "server_inv_ex K (remove_task (tk_id tk) sv)"
proof -
  let ?sv = "remove_task (tk_id tk) sv"
  have frame: "bs_sessions ?sv = bs_sessions sv" "bs_tasks ?sv = filter (\<lambda>x. tk_id x \<noteq> tk_id tk) (bs_tasks sv)" "bs_active_turn_tasks ?sv = bs_active_turn_tasks sv"
    "bs_turn_events ?sv = bs_turn_events sv" "bs_next_id ?sv = bs_next_id sv" "bs_shutdown_started ?sv = bs_shutdown_started sv"
    by (simp_all add: remove_task_def)
  have parts: "sessions_ok sv" "tasks_ok sv" "events_ok K sv" "live_ok sv" using inv by (simp_all add: server_inv_ex_def)
  have live: "live_task ?sv sid s r tk'" if "live_task sv sid s r tk'" "tk' \<noteq> tk" for sid s r tk'
  proof -
    have "tk_id tk' \<noteq> tk_id tk" using distinct_ids [of "bs_tasks sv" tk' tk] that tk(1) parts(2) by (auto simp: live_task_def tasks_ok_def)
    then show ?thesis using that frame by (simp add: live_task_def)
  qed
  have "live_ok ?sv"
    unfolding live_ok_def frame
  proof (intro impI allI)
    fix sid s r
    assume sd: "\<not> bs_shutdown_started sv" and r: "dget (bs_sessions sv) sid = Some s \<and> r \<in> set (active_records s)"
    then obtain tk' where "live_task sv sid s r tk'" using parts(4) unfolding live_ok_def by blast
    moreover from this have "tk' \<noteq> tk" using tk(2) sd r by (auto simp: idle_task_def)
    ultimately show "\<exists>tk. live_task ?sv sid s r tk" using live by blast
  qed
  moreover have "tasks_ok ?sv" using frame by (intro tasks_ok_sub [OF parts(2)]) simp_all
  moreover have "events_ok K ?sv" using frame by (intro events_ok_sub [OF parts(3)]) simp_all
  ultimately show ?thesis using parts(1) frame sessions_ok_frame [of ?sv sv] by (simp add: server_inv_ex_def)
qed

lemma inv_pop_task:
  assumes inv: "server_inv_ex K sv" and tk: "tk \<in> set (bs_tasks sv)" "idle_task sv tk" "dget (bs_active_turn_tasks sv) (tk_session_id tk) = Some (tk_id tk)"
  shows "server_inv_ex K (sv\<lparr>bs_active_turn_tasks := dpop (tk_session_id tk) (bs_active_turn_tasks sv)\<rparr>)"
proof -
  let ?sv = "sv\<lparr>bs_active_turn_tasks := dpop (tk_session_id tk) (bs_active_turn_tasks sv)\<rparr>"
  have same: "task_session tk' ?sv = task_session tk' sv" "active_key ?sv k = active_key sv k" for tk' k
    by (auto simp: task_session_def active_key_def)
  have "live_task ?sv sid s r tk'" if l: "live_task sv sid s r tk'" "dget (bs_sessions sv) sid = Some s" "r \<in> set (active_records s)" and sd: "\<not> bs_shutdown_started sv" for sid s r tk'
  proof -
    have "sid \<noteq> tk_session_id tk"
    proof
      assume "sid = tk_session_id tk"
      then have "tk_id tk' = tk_id tk" using l tk(3) by (simp add: live_task_def)
      then have "tk' = tk" using distinct_ids [of "bs_tasks sv" tk' tk] l tk(1) inv by (auto simp: live_task_def inv_defs)
      then show False using l tk(2) sd by (auto simp: idle_task_def)
    qed
    then show ?thesis using l by (simp add: live_task_def)
  qed
  then have "live_ok ?sv" using inv by (fastforce simp: inv_defs)
  then show ?thesis using inv same by (auto simp: inv_defs split: if_splits)
qed

lemma inv_finish_task:
  assumes inv: "server_inv_ex K sv" "K \<subseteq> {(tk_session_id tk, tk_turn_id tk)}" and tk: "tk \<in> set (bs_tasks sv)" "idle_task sv tk"
  shows "server_inv (finish_task tk sv)"
proof -
  let ?k = "(tk_session_id tk, tk_turn_id tk)"
  let ?sv1 = "set_event ?k sv"
  let ?sv2 = "if dget (bs_active_turn_tasks ?sv1) (tk_session_id tk) = Some (tk_id tk)
                then ?sv1\<lparr>bs_active_turn_tasks := dpop (tk_session_id tk) (bs_active_turn_tasks ?sv1)\<rparr> else ?sv1"
  have inv1: "server_inv ?sv1" using inv_set_event [OF inv(1), of ?k] inv(2) inv_weaken by (metis Diff_eq_empty_iff)
  have t1: "tk \<in> set (bs_tasks ?sv1)" "idle_task ?sv1 tk" using tk by (auto simp: set_event_def idle_task_def live_task_def)
  have inv2: "server_inv ?sv2" using inv_pop_task [OF inv1 t1] inv1 by simp
  have "tk \<in> set (bs_tasks ?sv2)" "idle_task ?sv2 tk" using t1 by (auto simp: idle_task_def live_task_def split: if_splits)
  then show ?thesis using inv_remove_task [OF inv2] by (simp add: finish_task_def Let_def)
qed


lemma idle_taskI:
  assumes "sessions_ok sv"
    and "\<And>s r. task_session tk sv = Some s \<Longrightarrow> dget (se_turn_ledger s) (tk_turn_id tk) = Some r \<Longrightarrow> is_active (tr_status r) \<Longrightarrow>
      \<not> ((tk_stage tk = NotStarted \<longleftrightarrow> tr_status r = Queued) \<and> (tk_stage tk = NotStarted \<longrightarrow> \<not> tk_cancel tk))"
  shows "idle_task sv tk"
  unfolding idle_task_def
proof (intro disjI2 allI impI notI)
  fix sid s r
  assume a: "dget (bs_sessions sv) sid = Some s \<and> r \<in> set (active_records s)" and l: "live_task sv sid s r tk"
  then have "ledger_ok s" "task_session tk sv = Some s" using assms(1) by (auto simp: sessions_ok_def live_task_def task_session_def)
  then show False using assms(2) [of s r] set_active_records [of s r] a l by (auto simp: live_task_def)
qed

lemma tasks_ok_map:
  assumes ok: "tasks_ok sv" and sv': "bs_tasks sv' = map f (bs_tasks sv)" "bs_active_turn_tasks sv' = bs_active_turn_tasks sv" "bs_next_id sv' = bs_next_id sv"
    and ts: "\<And>tk s. tk \<in> set (bs_tasks sv) \<Longrightarrow> task_session (f tk) sv' = Some s \<Longrightarrow> \<exists>r. dget (se_turn_ledger s) (tk_turn_id tk) = Some r \<and> tk_messages tk = tr_request_messages r"
    and f: "\<And>tk. tk_id (f tk) = tk_id tk \<and> tk_object (f tk) = tk_object tk \<and> tk_session_id (f tk) = tk_session_id tk \<and> tk_turn_id (f tk) = tk_turn_id tk \<and> tk_messages (f tk) = tk_messages tk"
  shows "tasks_ok sv'"
proof -
  have "task_key (f tk) = task_key tk" for tk using f by (simp add: task_key_def)
  then show ?thesis using ok ts f unfolding tasks_ok_def sv' by (simp add: comp_def)
qed

lemma inv_cancel_task:
  assumes inv: "server_inv_ex K sv" and idle: "\<And>tk. tk \<in> set (bs_tasks sv) \<Longrightarrow> tk_id tk = i \<Longrightarrow> tk_stage tk = NotStarted \<Longrightarrow> idle_task sv tk"
  shows "server_inv_ex K (cancel_task i sv)"
proof -
  let ?f = "\<lambda>tk. if tk_id tk = i then tk\<lparr>tk_cancel := True\<rparr> else tk" and ?sv = "cancel_task i sv"
  have tasks: "bs_tasks ?sv = map ?f (bs_tasks sv)" and frame: "bs_sessions ?sv = bs_sessions sv" "bs_active_turn_tasks ?sv = bs_active_turn_tasks sv"
    "bs_turn_events ?sv = bs_turn_events sv" "bs_next_id ?sv = bs_next_id sv" "bs_shutdown_started ?sv = bs_shutdown_started sv"
    by (simp_all add: cancel_task_def)
  have f: "tk_id (?f tk) = tk_id tk" "tk_object (?f tk) = tk_object tk" "tk_session_id (?f tk) = tk_session_id tk" "tk_turn_id (?f tk) = tk_turn_id tk"
    "tk_messages (?f tk) = tk_messages tk" "tk_stage (?f tk) = tk_stage tk" "task_session (?f tk) ?sv = task_session tk sv" for tk
    using frame(1) by (auto simp: task_session_def split: option.split)
  have "tasks_ok ?sv"
    by (rule tasks_ok_map [of sv _ ?f]) (use inv f tasks frame in \<open>auto simp: server_inv_ex_def tasks_ok_def\<close>)
  moreover have "live_task ?sv sid s r (?f tk)" if l: "live_task sv sid s r tk" "dget (bs_sessions sv) sid = Some s" "r \<in> set (active_records s)" "\<not> bs_shutdown_started sv" for sid s r tk
  proof -
    have "tk_stage tk = NotStarted \<Longrightarrow> tk_id tk \<noteq> i" using idle [of tk] l by (auto simp: live_task_def idle_task_def)
    then show ?thesis using l f tasks frame by (auto simp: live_task_def)
  qed
  then have "live_ok ?sv" using inv frame by (fastforce simp: inv_defs)
  moreover have "active_key ?sv k = active_key sv k" for k using frame by (simp add: active_key_def)
  ultimately show ?thesis using inv frame by (auto simp: inv_defs)
qed

lemma inv_mark_backend_error:
  assumes inv: "server_inv_ex K sv"
  shows "server_inv_ex K (mark_backend_error now sv)"
proof (cases "bs_state sv = ServerError")
  case False
  let ?sv = "mark_backend_error now sv"
  have ses: "dget (bs_sessions ?sv) sid = map_option (desync now) (dget (bs_sessions sv) sid)" for sid
    using False dget_map_values [of "\<lambda>_. desync now" "bs_sessions sv"] by (simp add: mark_backend_error_def mark_all_non_aborted_desynced_def)
  have frame: "bs_tasks ?sv = bs_tasks sv" "bs_active_turn_tasks ?sv = bs_active_turn_tasks sv" "bs_turn_events ?sv = bs_turn_events sv"
    "bs_next_id ?sv = bs_next_id sv" "bs_shutdown_started ?sv = bs_shutdown_started sv"
    by (simp_all add: mark_backend_error_def)
  have "dict_ok (bs_sessions ?sv) = dict_ok (bs_sessions sv)"
    by (simp add: mark_backend_error_def mark_all_non_aborted_desynced_def dict_ok_map_values [of "\<lambda>_. desync now"])
  moreover have d: "se_turn_ledger (desync now s) = se_turn_ledger s" "same_object s (desync now s)" "active_records (desync now s) = active_records s"
    "ledger_ok s \<Longrightarrow> ledger_ok (desync now s)" for s
    by (auto simp: desync_def active_records_def ledger_ok_def committed_records_def)
  have ts: "task_session tk ?sv = map_option (desync now) (task_session tk sv)" for tk using ses d by (simp add: task_session_def split: option.split)
  ultimately have "sessions_ok ?sv" using inv ses d frame by (auto simp: inv_defs)
  moreover have "tasks_ok ?sv" using inv ts d frame by (fastforce simp: inv_defs)
  moreover have "active_key ?sv k = active_key sv k" for k using ses d by (force simp: active_key_def)
  moreover have "live_task ?sv sid (desync now s) r tk = live_task sv sid s r tk" for sid s r tk using frame d by (simp add: live_task_def)
  then have "live_ok ?sv" using inv ses d frame by (fastforce simp: inv_defs)
  ultimately show ?thesis using inv frame by (simp add: inv_defs)
qed (use inv in \<open>simp add: mark_backend_error_def\<close>)


section \<open>Settling a turn\<close>

lemma active_after:
  assumes ok: "ledger_ok s" "ledger_ok s'" and r: "dget (se_turn_ledger s) t = Some r" "is_active (tr_status r)"
    and s': "se_turn_ledger s' = dset t r' (se_turn_ledger s)" "\<not> is_active (tr_status r')"
  shows "active_records s' = []"
proof -
  obtain xs where xs: "se_turn_ledger s = xs @ [(t, r)]" "t \<notin> fst ` set xs" "list_all (\<lambda>x. \<not> is_active (tr_status (snd x))) xs"
    using active_record_last [OF ok(1) r] by blast
  then show ?thesis using active_records_last [OF xs(3), of s' t r'] s' dset_last [OF xs(2)] by simp
qed

lemma evolves_settle:
  assumes ok: "ledger_ok s" "ledger_ok s'" and r: "dget (se_turn_ledger s) t = Some r" "is_active (tr_status r)"
    and s': "se_turn_ledger s' = dset t r' (se_turn_ledger s)" "\<not> is_active (tr_status r')" "tr_request_messages r' = tr_request_messages r" "same_object s s'"
  shows "evolves s s' \<and> active_records s' = []"
  using active_after [OF ok r s'(1,2)] assms by (auto simp: evolves_def)

text \<open>A settled turn: its session evolves, nothing in it is active, and only the event of the turn is due.\<close>

lemma inv_settle:
  assumes inv: "server_inv sv" and s: "dget (bs_sessions sv) sid = Some s" and r: "dget (se_turn_ledger s) t = Some r" "is_active (tr_status r)"
    and s': "ledger_ok s'" "se_turn_ledger s' = dset t r' (se_turn_ledger s)" "\<not> is_active (tr_status r')" "tr_request_messages r' = tr_request_messages r" "same_object s s'"
  shows "server_inv_ex {(sid, t)} (put_session sid s' sv) \<and> active_records s' = []"
proof -
  have ok: "ledger_ok s" using inv s by (auto simp: inv_defs)
  have ev: "evolves s s'" "active_records s' = []" using evolves_settle [OF ok s'(1) r s'(2,3,4,5)] by auto
  have "(sid, tr_turn_id x) = (sid, t)" if "x \<in> set (active_records s)" for x
  proof -
    obtain xs where xs: "se_turn_ledger s = xs @ [(t, r)]" "list_all (\<lambda>x. \<not> is_active (tr_status (snd x))) xs" using active_record_last [OF ok r] by blast
    then have "x = r" using active_records_last [OF xs(2,1)] that by (simp split: if_splits)
    then show ?thesis using ledger_ok_turn_id [OF ok r(1)] by simp
  qed
  then show ?thesis using inv_put_session [OF inv s ev(1), of "{(sid, t)}"] ev(2) by auto
qed

lemma not_active [simp]: "\<not> is_active Unknown" "\<not> is_active Cancelled" "\<not> is_active Committed" "\<not> is_active Failed" "is_active Queued" "is_active Inflight"
  by (auto simp: is_active_def)

lemma desync_session_simps [simp]:
  "se_turn_ledger (desync_session now s) = se_turn_ledger s" "se_turn_count (desync_session now s) = se_turn_count s"
  "se_conversation_history (desync_session now s) = se_conversation_history s" "se_object (desync_session now s) = se_object s"
  "se_session_id (desync_session now s) = se_session_id s"
  "se_state (desync_session now s) = Aborted \<longleftrightarrow> se_state s = Aborted"
  by (simp_all add: desync_session_def)

lemma task_session_put: "task_session tk sv = Some s \<Longrightarrow> se_object s' = se_object s \<Longrightarrow> task_session tk (put_session (tk_session_id tk) s' sv) = Some s'"
  by (auto simp: task_session_def split: option.splits if_splits)

lemma task_session_Some: "task_session tk sv = Some s \<Longrightarrow> dget (bs_sessions sv) (tk_session_id tk) = Some s \<and> se_object s = tk_object tk"
  by (auto simp: task_session_def split: option.splits if_splits)

text \<open>The end of a task whose turn has just been settled.\<close>

lemma idle_settled:
  assumes "sessions_ok sv" "task_session tk sv = Some s" "active_records s = []"
  shows "idle_task sv tk"
proof (rule idle_taskI [OF assms(1)])
  fix s1 r
  assume "task_session tk sv = Some s1" "dget (se_turn_ledger s1) (tk_turn_id tk) = Some r" "is_active (tr_status r)"
  moreover have "ledger_ok s" using assms(1,2) task_session_Some by (fastforce simp: sessions_ok_def)
  ultimately show "\<not> ((tk_stage tk = NotStarted \<longleftrightarrow> tr_status r = Queued) \<and> (tk_stage tk = NotStarted \<longrightarrow> \<not> tk_cancel tk))"
    using assms(2,3) set_active_records [of s r] ledger_ok_turn_id [of s "tk_turn_id tk" r] by simp
qed

lemma mark_backend_error_frame:
  "bs_tasks (mark_backend_error now sv) = bs_tasks sv"
  "idle_task sv tk \<Longrightarrow> idle_task (mark_backend_error now sv) tk"
proof -
  show "bs_tasks (mark_backend_error now sv) = bs_tasks sv" by (simp add: mark_backend_error_def)
  assume idle: "idle_task sv tk"
  show "idle_task (mark_backend_error now sv) tk"
  proof (cases "bs_state sv = ServerError")
    case False
    have ses: "dget (bs_sessions (mark_backend_error now sv)) sid = map_option (desync now) (dget (bs_sessions sv) sid)" for sid
      using False dget_map_values [of "\<lambda>_. desync now" "bs_sessions sv"] by (simp add: mark_backend_error_def mark_all_non_aborted_desynced_def)
    have "live_task (mark_backend_error now sv) sid (desync now s) r tk = live_task sv sid s r tk" "active_records (desync now s) = active_records s" for sid s r
      by (auto simp: live_task_def mark_backend_error_def desync_def active_records_def)
    moreover have "bs_shutdown_started (mark_backend_error now sv) = bs_shutdown_started sv" by (simp add: mark_backend_error_def)
    ultimately show ?thesis using idle ses by (fastforce simp: idle_task_def)
  qed (use idle in \<open>simp add: mark_backend_error_def\<close>)
qed


lemma inv_settled_task:
  assumes inv: "server_inv sv" and tk: "tk \<in> set (bs_tasks sv)" and s: "task_session tk sv = Some s"
    and r: "dget (se_turn_ledger s) (tk_turn_id tk) = Some r" "is_active (tr_status r)"
    and s': "ledger_ok s'" "se_turn_ledger s' = dset (tk_turn_id tk) r' (se_turn_ledger s)" "\<not> is_active (tr_status r')" "tr_request_messages r' = tr_request_messages r"
      "same_object s s'"
  defines "sv' \<equiv> put_session (tk_session_id tk) s' sv"
  shows "server_inv (finish_task tk sv') \<and> server_inv (finish_task tk (mark_backend_error now sv'))"
proof -
  have inv': "server_inv_ex {(tk_session_id tk, tk_turn_id tk)} sv'" "active_records s' = []"
    using inv_settle [OF inv _ r s'] task_session_Some [OF s] unfolding sv'_def by auto
  have tk': "tk \<in> set (bs_tasks sv')" using tk by (simp add: sv'_def)
  have "task_session tk sv' = Some s'" using task_session_put [OF s] s'(5) by (simp add: sv'_def)
  then have idle: "idle_task sv' tk" using idle_settled [of sv' tk s'] inv' by (simp add: server_inv_ex_def)
  have "server_inv_ex {(tk_session_id tk, tk_turn_id tk)} (mark_backend_error now sv')" by (rule inv_mark_backend_error [OF inv'(1)])
  then show ?thesis
    using inv_finish_task [OF inv'(1) _ tk' idle] inv_finish_task [of _ "mark_backend_error now sv'" tk] mark_backend_error_frame tk' idle by auto
qed

text \<open>A task that finds its turn settled, or its session gone, just ends.\<close>

lemma inv_idle_task_ends:
  assumes "server_inv sv" "tk \<in> set (bs_tasks sv)"
    and "\<And>s r. task_session tk sv = Some s \<Longrightarrow> dget (se_turn_ledger s) (tk_turn_id tk) = Some r \<Longrightarrow> is_active (tr_status r) \<Longrightarrow>
      \<not> ((tk_stage tk = NotStarted \<longleftrightarrow> tr_status r = Queued) \<and> (tk_stage tk = NotStarted \<longrightarrow> \<not> tk_cancel tk))"
  shows "server_inv (finish_task tk sv)"
  using inv_finish_task [OF assms(1) _ assms(2) idle_taskI] assms by (simp add: server_inv_ex_def)

lemma inv_task_messages:
  "server_inv sv \<Longrightarrow> tk \<in> set (bs_tasks sv) \<Longrightarrow> task_session tk sv = Some s \<Longrightarrow> dget (se_turn_ledger s) (tk_turn_id tk) = Some r \<Longrightarrow>
     tk_messages tk = tr_request_messages r"
  by (fastforce simp: inv_defs)

lemma inv_session_ok: "server_inv_ex K sv \<Longrightarrow> task_session tk sv = Some s \<Longrightarrow> ledger_ok s"
  using task_session_Some [of tk sv s] by (auto simp: inv_defs)

lemma mark_backend_error_twice: "mark_backend_error now (mark_backend_error now sv) = mark_backend_error now sv"
  by (simp add: mark_backend_error_def)

lemma dset_unchanged: "dget d k = Some v \<Longrightarrow> dset k v d = d"
  by (induction d) (auto split: if_splits)

lemma inv_run_turn_settle:
  assumes inv: "server_inv sv" and tk: "tk \<in> set (bs_tasks sv)" "tk_stage tk = InBackend"
  shows "server_inv (run_turn_settle now health out tk sv)"
proof (cases "\<exists>s r. task_session tk sv = Some s \<and> dget (se_turn_ledger s) (tk_turn_id tk) = Some r \<and> tr_status r = Inflight")
  case False
  then have "run_turn_settle now health out tk sv = finish_task tk sv"
    by (auto simp: run_turn_settle_def split: option.splits)
  moreover have "server_inv (finish_task tk sv)"
    by (rule inv_idle_task_ends [OF inv tk(1)]) (use False tk(2) in \<open>auto simp: is_active_def\<close>)
  ultimately show ?thesis by simp
next
  case True
  then obtain s r where s: "task_session tk sv = Some s" and r: "dget (se_turn_ledger s) (tk_turn_id tk) = Some r" "tr_status r = Inflight" by blast
  have act: "is_active (tr_status r)" and ok: "ledger_ok s" using r inv_session_ok [OF inv s] by auto
  note settled = inv_settled_task [OF inv tk(1) s r(1) act, where now = now]
  show ?thesis
  proof (cases "outcome_error out")
    case None
    then obtain response where out: "out = Answered response" by (cases out) auto
    have "ledger_ok (commit_turn now (tk_turn_id tk) r (tk_messages tk) response s)"
      by (rule ledger_ok_commit [OF ok r(1) act inv_task_messages [OF inv tk(1) s r(1)]])
    then show ?thesis
      using settled s r out by (simp add: run_turn_settle_def commit_turn_def put_record_def)
  next
    case (Some x)
    obtain code message status extra process_error where x: "x = (code, message, status, extra, process_error)" using prod_cases5 by blast
    let ?s = "handle_unknown_turn now (tk_turn_id tk) r code message status extra s"
    have "ledger_ok ?s"
      by (rule ledger_ok_settle [OF ok r(1) act]) (auto simp: handle_unknown_turn_def put_record_def ledger_ok_turn_id [OF ok r(1)])
    then have fin: "server_inv (finish_task tk (put_session (tk_session_id tk) ?s sv)) \<and>
        server_inv (finish_task tk (mark_backend_error now (put_session (tk_session_id tk) ?s sv)))"
      using settled [where s' = ?s and r' = "r\<lparr>tr_status := Unknown, tr_updated_at := now,
        tr_error := Some (error_payload code message status (AList.updates (map fst extra) (map snd extra) (turn_details (se_session_id s) (tk_turn_id tk))))\<rparr>"]
      by (simp add: handle_unknown_turn_def put_record_def)
    have "\<exists>sv'. run_turn_settle now health out tk sv = finish_task tk sv' \<and>
        (sv' = put_session (tk_session_id tk) ?s sv \<or> sv' = mark_backend_error now (put_session (tk_session_id tk) ?s sv))"
      using s r Some x by (cases out) (auto simp: run_turn_settle_def mark_backend_error_twice Let_def)
    then show ?thesis using fin by auto
  qed
qed

lemma inv_run_turn_interrupted:
  assumes inv: "server_inv sv" and tk: "tk \<in> set (bs_tasks sv)" "tk_stage tk = InBackend"
  shows "server_inv (run_turn_interrupted now tk sv)"
proof (cases "\<exists>s r. task_session tk sv = Some s \<and> dget (se_turn_ledger s) (tk_turn_id tk) = Some r \<and> is_active (tr_status r)")
  case False
  have "put_session (tk_session_id tk) s sv = sv" if "task_session tk sv = Some s" for s
  proof -
    have "dget (bs_sessions sv) (tk_session_id tk) = Some s" using task_session_Some [OF that] by simp
    then have "dset (tk_session_id tk) s (bs_sessions sv) = bs_sessions sv" by (rule dset_unchanged)
    then show ?thesis by (simp add: put_session_def)
  qed
  moreover have "finalize_interrupted_turn now b (tk_turn_id tk) s = s" if "task_session tk sv = Some s" for s b
    using False that by (auto simp: finalize_interrupted_turn_def is_terminal_def is_active_def split: option.split) (metis turn_status.exhaust)+
  ultimately have "run_turn_interrupted now tk sv = finish_task tk sv"
    by (auto simp: run_turn_interrupted_def split: option.split)
  moreover have "server_inv (finish_task tk sv)" by (rule inv_idle_task_ends [OF inv tk(1)]) (use False in blast)
  ultimately show ?thesis by simp
next
  case True
  then obtain s r where s: "task_session tk sv = Some s" and r: "dget (se_turn_ledger s) (tk_turn_id tk) = Some r" "is_active (tr_status r)" by blast
  have ok: "ledger_ok s" using inv_session_ok [OF inv s] .
  have nt: "\<not> is_terminal (tr_status r)" using r(2) by (auto simp: is_terminal_def is_active_def)
  let ?s = "finalize_interrupted_turn now (bs_shutdown_started sv) (tk_turn_id tk) s"
  obtain r' where r': "se_turn_ledger ?s = dset (tk_turn_id tk) r' (se_turn_ledger s)" "\<not> is_active (tr_status r')" "tr_status r' \<noteq> Committed"
    "tr_turn_id r' = tk_turn_id tk" "tr_request_messages r' = tr_request_messages r"
    using r nt ledger_ok_turn_id [OF ok r(1)] by (cases "bs_shutdown_started sv") (simp_all add: finalize_interrupted_turn_def put_record_def)
  have frame: "se_turn_count ?s = se_turn_count s" "se_conversation_history ?s = se_conversation_history s" "se_state ?s = Aborted \<longrightarrow> se_state s = Aborted"
    "same_object s ?s"
    using r nt by (auto simp: finalize_interrupted_turn_def put_record_def)
  have "ledger_ok ?s" by (rule ledger_ok_settle [OF ok r r'(4,3,1) frame(1,2,3)])
  then have "server_inv (finish_task tk (put_session (tk_session_id tk) ?s sv))"
    using inv_settled_task [OF inv tk(1) s r _ r'(1,2,5) frame(4)] by blast
  then show ?thesis using s by (simp add: run_turn_interrupted_def)
qed


lemma inv_run_turn_stopped:
  assumes inv: "server_inv sv" and tk: "tk \<in> set (bs_tasks sv)" "tk_stage tk = NotStarted" "tk_cancel tk"
  shows "server_inv (run_turn_stopped begun tk sv)"
proof -
  have "server_inv (finish_task tk sv)" by (rule inv_idle_task_ends [OF inv tk(1)]) (use tk in blast)
  moreover have "idle_task sv tk" by (rule idle_taskI) (use inv tk in \<open>auto simp: server_inv_ex_def\<close>)
  then have "server_inv (remove_task (tk_id tk) sv)" by (rule inv_remove_task [OF inv tk(1)])
  ultimately show ?thesis by (simp add: run_turn_stopped_def)
qed


section \<open>Starting a turn\<close>

lemma inv_run_turn_start:
  assumes inv: "server_inv sv" and tk: "tk \<in> set (bs_tasks sv)" "tk_stage tk = NotStarted"
  shows "server_inv (run_turn_start now tk sv)"
proof (cases "\<exists>s r. task_session tk sv = Some s \<and> dget (se_turn_ledger s) (tk_turn_id tk) = Some r \<and> tr_status r = Queued")
  case False
  then have "run_turn_start now tk sv = finish_task tk sv"
    by (auto simp: run_turn_start_def split: option.splits)
  moreover have "server_inv (finish_task tk sv)"
    by (rule inv_idle_task_ends [OF inv tk(1)]) (use False tk(2) in blast)
  ultimately show ?thesis by simp
next
  case True
  then obtain s r where ts: "task_session tk sv = Some s" and r: "dget (se_turn_ledger s) (tk_turn_id tk) = Some r" "tr_status r = Queued" by blast
  have s: "dget (bs_sessions sv) (tk_session_id tk) = Some s" "se_object s = tk_object tk" using task_session_Some [OF ts] by auto
  have ok: "ledger_ok s" and act: "is_active (tr_status r)" using inv_session_ok [OF inv ts] r by auto
  let ?r = "r\<lparr>tr_status := Inflight, tr_updated_at := now\<rparr>"
  let ?s = "put_record (tk_turn_id tk) ?r s"
  let ?f = "\<lambda>x. if tk_id x = tk_id tk then x\<lparr>tk_stage := InBackend\<rparr> else x"
  let ?sv = "set_stage (tk_id tk) (put_session (tk_session_id tk) ?s sv)"
  have result: "run_turn_start now tk sv = ?sv" using ts r by (simp add: run_turn_start_def)
  have frame: "bs_tasks ?sv = map ?f (bs_tasks sv)" "bs_sessions ?sv = dset (tk_session_id tk) ?s (bs_sessions sv)" "bs_active_turn_tasks ?sv = bs_active_turn_tasks sv"
    "bs_turn_events ?sv = bs_turn_events sv" "bs_next_id ?sv = bs_next_id sv" "bs_shutdown_started ?sv = bs_shutdown_started sv"
    by (simp_all add: set_stage_def)
  have ok': "ledger_ok ?s"
    by (rule ledger_ok_settle [OF ok r(1) act]) (auto simp: put_record_def ledger_ok_turn_id [OF ok r(1)])
  have obj: "se_object ?s = se_object s" "se_session_id ?s = se_session_id s" and led: "se_turn_ledger ?s = dset (tk_turn_id tk) ?r (se_turn_ledger s)" by (simp_all add: put_record_def)
  have "se_object s < bs_next_id sv" "se_session_id s = tk_session_id tk" using inv s(1) by (auto simp: server_inv_ex_def sessions_ok_def)
  then have sessions: "sessions_ok ?sv" using inv ok' obj by (simp add: server_inv_ex_def sessions_ok_def frame)
  have tasks: "tasks_ok ?sv"
  proof (rule tasks_ok_map [of sv _ ?f])
    fix x s1
    assume x: "x \<in> set (bs_tasks sv)" and s1: "task_session (?f x) ?sv = Some s1"
    have "\<exists>s0. task_session x sv = Some s0 \<and> (s1 = s0 \<or> s0 = s \<and> s1 = ?s)"
      using s1 s obj frame(2) by (auto simp: task_session_def split: if_splits option.splits)
    moreover have "\<exists>r0. dget (se_turn_ledger s0) (tk_turn_id x) = Some r0 \<and> tk_messages x = tr_request_messages r0" if "task_session x sv = Some s0" for s0
      using inv x that by (auto simp: inv_defs)
    ultimately show "\<exists>r. dget (se_turn_ledger s1) (tk_turn_id x) = Some r \<and> tk_messages x = tr_request_messages r"
      using r led by fastforce
  qed (use inv frame in \<open>auto simp: server_inv_ex_def\<close>)
  have key: "active_key sv k \<Longrightarrow> active_key ?sv k" for k
    using s r led frame(2) by (cases "fst k = tk_session_id tk") (auto simp: active_key_def)
  have "live_ok ?sv"
    unfolding live_ok_def
  proof (intro impI allI, elim conjE)
    fix sid s1 r1
    assume sd: "\<not> bs_shutdown_started ?sv" and s1: "dget (bs_sessions ?sv) sid = Some s1" and r1: "r1 \<in> set (active_records s1)"
    show "\<exists>x. live_task ?sv sid s1 r1 x"
    proof (cases "sid = tk_session_id tk")
      case True
      obtain xs where xs: "se_turn_ledger s = xs @ [(tk_turn_id tk, r)]" "tk_turn_id tk \<notin> fst ` set xs" "list_all (\<lambda>x. \<not> is_active (tr_status (snd x))) xs"
        using active_record_last [OF ok r(1) act] by blast
      have "active_records s = [r]" "active_records ?s = [?r]"
        using active_records_last [OF xs(3)] xs(1) dset_last [OF xs(2)] led act by auto
      then have "r1 = ?r" "s1 = ?s" using r1 s1 True frame(2) by auto
      moreover obtain x where x: "live_task sv sid s r x" using inv sd frame s True \<open>active_records s = [r]\<close> by (fastforce simp: inv_defs)
      moreover have "x = tk"
      proof -
        have "task_key x = task_key tk" "x \<in> set (bs_tasks sv)"
          using x True s(2) ledger_ok_turn_id [OF ok r(1)] by (auto simp: live_task_def task_key_def)
        then show ?thesis using inv tk(1) by (metis distinct_map inj_onD server_inv_ex_def tasks_ok_def)
      qed
      ultimately show ?thesis using True frame obj r by (auto simp: live_task_def intro!: exI [of _ "?f tk"])
    next
      case False
      then obtain x where x: "live_task sv sid s1 r1 x" using inv sd s1 r1 frame by (fastforce simp: inv_defs)
      then have "tk_id x \<noteq> tk_id tk" using distinct_ids [of "bs_tasks sv" x tk] tk(1) False inv by (auto simp: live_task_def inv_defs)
      then show ?thesis using x frame by (auto simp: live_task_def intro!: exI [of _ x])
    qed
  qed
  then show ?thesis using result sessions tasks key inv frame by (auto simp: server_inv_ex_def events_ok_def)
qed

end
