(* ===== verification/Blackbox_Runs.thy ===== *)
theory Blackbox_Runs
  imports Blackbox_Turns
begin

text \<open>
  The runs of the blackbox server: the remaining operations keep the invariant, so every
  step does, and every reachable state has it.
\<close>

section \<open>Submitting keeps the invariant\<close>

lemma inv_frame:
  assumes "server_inv_ex K sv" "bs_sessions sv' = bs_sessions sv" "bs_tasks sv' = bs_tasks sv" "bs_active_turn_tasks sv' = bs_active_turn_tasks sv"
    "bs_turn_events sv' = bs_turn_events sv" "bs_next_id sv' = bs_next_id sv" "bs_shutdown_started sv' = bs_shutdown_started sv"
  shows "server_inv_ex K sv'"
proof -
  have "task_session tk sv' = task_session tk sv" "active_key sv' k = active_key sv k" "live_task sv' sid s r tk = live_task sv sid s r tk" for tk k sid s r
    using assms(2-) by (simp_all add: task_session_def active_key_def live_task_def)
  then show ?thesis using assms by (simp add: inv_defs)
qed

lemma inv_live: "server_inv_ex K sv \<Longrightarrow> \<not> bs_shutdown_started sv \<Longrightarrow> dget (bs_sessions sv) sid = Some s \<Longrightarrow> r \<in> set (active_records s) \<Longrightarrow>
    \<exists>tk. live_task sv sid s r tk"
  by (simp add: server_inv_ex_def live_ok_def)

lemma evolves_same: "ledger_ok s \<Longrightarrow> same_object s s' \<Longrightarrow> se_turn_ledger s' = se_turn_ledger s \<Longrightarrow> se_turn_count s' = se_turn_count s \<Longrightarrow>
    se_conversation_history s' = se_conversation_history s \<Longrightarrow> se_state s' = se_state s \<Longrightarrow> evolves s s' \<and> active_records s' = active_records s"
  by (auto simp: evolves_def ledger_ok_def active_records_def committed_records_def)

lemma resolve_request_turn_id_same:
  "resolve_request_turn_id g t s = (x, s') \<Longrightarrow> same_object s s' \<and> se_turn_ledger s' = se_turn_ledger s \<and> se_turn_count s' = se_turn_count s \<and>
     se_conversation_history s' = se_conversation_history s \<and> se_state s' = se_state s"
  by (auto simp: resolve_request_turn_id_def split: option.splits if_splits)

lemma accept_turn_frame:
  fixes now sid t fp ms s sv
  defines "sv' \<equiv> accept_turn sid t fp ms now s sv" and "s' \<equiv> s\<lparr>se_turn_ledger := dset t (new_turn_record t fp ms now) (se_turn_ledger s)\<rparr>"
    and "tk \<equiv> \<lparr>tk_id = bs_next_id sv, tk_object = se_object s, tk_session_id = sid, tk_turn_id = t, tk_messages = ms, tk_stage = NotStarted, tk_cancel = False\<rparr>"
  shows "bs_sessions sv' = dset sid s' (bs_sessions sv)" "bs_tasks sv' = bs_tasks sv @ [tk]"
    "bs_active_turn_tasks sv' = dset sid (bs_next_id sv) (bs_active_turn_tasks sv)" "bs_turn_events sv' = dset (sid, t) False (bs_turn_events sv)"
    "bs_next_id sv' = bs_next_id sv + 1" "bs_shutdown_started sv' = bs_shutdown_started sv"
  by (simp_all add: sv'_def s'_def tk_def accept_turn_def put_session_def Let_def)

lemma inv_accept_turn:
  assumes inv: "server_inv sv" and s: "dget (bs_sessions sv) sid = Some s" and new: "dget (se_turn_ledger s) t = None" "active_records s = []" "se_state s \<noteq> Aborted"
  shows "server_inv (accept_turn sid t fp ms now s sv)"
proof -
  let ?sv = "accept_turn sid t fp ms now s sv" and ?r = "new_turn_record t fp ms now"
  let ?s = "s\<lparr>se_turn_ledger := dset t ?r (se_turn_ledger s)\<rparr>"
  let ?tk = "\<lparr>tk_id = bs_next_id sv, tk_object = se_object s, tk_session_id = sid, tk_turn_id = t, tk_messages = ms, tk_stage = NotStarted, tk_cancel = False\<rparr>"
  note frame = accept_turn_frame [of sid t fp ms now s sv]
  have ok: "ledger_ok s" "se_object s < bs_next_id sv" "se_session_id s = sid" "dict_ok (bs_sessions sv)" and t: "tasks_ok sv" using inv s by (auto simp: server_inv_ex_def sessions_ok_def)
  have ok': "ledger_ok ?s" by (rule ledger_ok_accept [OF ok(1) new])
  have active: "active_records ?s = [?r]"
    using new(1,2) by (simp add: active_records_def dset_new dmem_def new_turn_record_def)
  have sessions: "sessions_ok ?sv"
    unfolding sessions_ok_def frame using inv ok ok' by (auto simp: server_inv_ex_def sessions_ok_def less_SucI)
  have fresh: "tk_id x \<noteq> bs_next_id sv" "task_key x \<noteq> task_key ?tk" if x: "x \<in> set (bs_tasks sv)" for x
  proof -
    show "tk_id x \<noteq> bs_next_id sv" using t x by (auto simp: tasks_ok_def)
    show "task_key x \<noteq> task_key ?tk"
    proof
      assume "task_key x = task_key ?tk"
      then have "task_session x sv = Some s" "tk_turn_id x = t" using s by (auto simp: task_key_def task_session_def)
      then show False using t x new(1) by (force simp: tasks_ok_def)
    qed
  qed
  have ts: "\<exists>r. dget (se_turn_ledger s1) (tk_turn_id x) = Some r \<and> tk_messages x = tr_request_messages r"
    if x: "x \<in> set (bs_tasks sv @ [?tk])" and s1: "task_session x ?sv = Some s1" for x s1
  proof (cases "x = ?tk")
    case True
    then show ?thesis using s1 frame(1) by (auto simp: task_session_def new_turn_record_def split: if_splits)
  next
    case False
    then have x': "x \<in> set (bs_tasks sv)" using x by simp
    have "\<exists>s0. task_session x sv = Some s0 \<and> (s1 = s0 \<or> s0 = s \<and> s1 = ?s)"
      using s1 s frame(1) by (auto simp: task_session_def split: if_splits option.splits)
    moreover have "\<forall>s. task_session x sv = Some s \<longrightarrow> (\<exists>r. dget (se_turn_ledger s) (tk_turn_id x) = Some r \<and> tk_messages x = tr_request_messages r)"
      using t x' by (simp add: tasks_ok_def)
    ultimately show ?thesis using new(1) by fastforce
  qed
  have "task_key ?tk \<notin> task_key ` set (bs_tasks sv)" "bs_next_id sv \<notin> tk_id ` set (bs_tasks sv)" using fresh by (metis imageE)+
  then have distinct: "distinct (map tk_id (bs_tasks sv @ [?tk]))" "distinct (map task_key (bs_tasks sv @ [?tk]))"
    using t by (simp_all add: tasks_ok_def)
  have "tasks_ok ?sv"
    unfolding tasks_ok_def frame
  proof (intro conjI distinct)
    show "\<forall>tk\<in>set (bs_tasks sv @ [?tk]). tk_id tk < bs_next_id sv + 1 \<and> tk_object tk < bs_next_id sv + 1"
      using t ok by (auto simp: tasks_ok_def less_SucI)
    show "\<forall>sid' i. dget (dset sid (bs_next_id sv) (bs_active_turn_tasks sv)) sid' = Some i \<longrightarrow> i < bs_next_id sv + 1"
      using t by (auto simp: tasks_ok_def less_SucI)
    show "\<forall>tk\<in>set (bs_tasks sv @ [?tk]). \<forall>s1. task_session tk ?sv = Some s1 \<longrightarrow>
        (\<exists>r. dget (se_turn_ledger s1) (tk_turn_id tk) = Some r \<and> tk_messages tk = tr_request_messages r)" using ts by blast
    show "\<forall>tk\<in>set (bs_tasks sv @ [?tk]). \<forall>sid'. dget (dset sid (bs_next_id sv) (bs_active_turn_tasks sv)) sid' = Some (tk_id tk) \<longrightarrow> tk_session_id tk = sid'"
      using t fresh by (auto simp: tasks_ok_def split: if_splits)
  qed
  moreover have "live_ok ?sv"
    unfolding live_ok_def frame
  proof (intro impI allI, elim conjE)
    fix sid1 s1 r1
    assume sd: "\<not> bs_shutdown_started sv" and s1: "dget (dset sid ?s (bs_sessions sv)) sid1 = Some s1" and r1: "r1 \<in> set (active_records s1)"
    show "\<exists>tk. live_task ?sv sid1 s1 r1 tk"
    proof (cases "sid1 = sid")
      case True
      then have "live_task ?sv sid1 s1 r1 ?tk" using s1 r1 active by (auto simp: live_task_def frame new_turn_record_def)
      then show ?thesis by blast
    next
      case False
      then obtain x where "live_task sv sid1 s1 r1 x" using inv_live [OF inv sd _ r1] s1 by auto
      then have "live_task ?sv sid1 s1 r1 x" using False by (auto simp: live_task_def frame)
      then show ?thesis by blast
    qed
  qed
  moreover have "events_ok {} ?sv"
    unfolding events_ok_def frame
  proof (intro allI impI)
    fix k
    assume k: "dget (dset (sid, t) False (bs_turn_events sv)) k = Some False"
    show "active_key ?sv k \<or> k \<in> {}"
    proof (cases "k = (sid, t)")
      case True
      then show ?thesis by (simp add: active_key_def frame new_turn_record_def)
    next
      case False
      then have "active_key sv k" using k inv unfolding server_inv_ex_def events_ok_def by (metis dget_dset empty_iff)
      then show ?thesis using s new(1) by (cases "fst k = sid") (auto simp: active_key_def frame)
    qed
  qed
  ultimately show ?thesis using sessions by (simp add: server_inv_ex_def)
qed

lemma inv_admit_turn:
  assumes inv: "server_inv sv" and s: "dget (bs_sessions sv) sid = Some s"
  shows "server_inv (snd (admit_turn lib health g now session_id turn_id messages sid s sv))"
proof -
  obtain x s' where rs: "resolve_request_turn_id g turn_id s = (x, s')" by fastforce
  have ok: "ledger_ok s" using inv s by (auto simp: inv_defs)
  have same: "evolves s s'" "active_records s' = active_records s" "se_turn_ledger s' = se_turn_ledger s" "se_state s' = se_state s"
    using evolves_same [OF ok, of s'] resolve_request_turn_id_same [OF rs] by auto
  have inv': "server_inv (put_session sid s' sv)" by (rule inv_put_session [OF inv s same(1)]) (use same in auto)
  have s': "dget (bs_sessions (put_session sid s' sv)) sid = Some s'" by simp
  have ok': "ledger_ok s'" using same(1) by (simp add: evolves_def)
  show ?thesis
  proof (cases "se_state s = Aborted \<or> se_state s = Desynced \<or> sv_max_turns (bs_config sv) \<le> int (se_turn_count s) \<or> (\<exists>e. x = Inl e)")
    case True
    then show ?thesis using inv inv' rs by (auto simp: admit_turn_def)
  next
    case False
    then obtain t where x: "x = Inr t" by (cases x) auto
    show ?thesis
    proof (cases "dget (se_turn_ledger s') t = None \<and> active_turn_id s' = None \<and> adapter_health_with_retry sv health")
      case True
      have "server_inv (accept_turn sid t (message_request_fingerprint lib messages) messages now s' (put_session sid s' sv))"
        by (rule inv_accept_turn [OF inv' s']) (use True False same no_active_records [OF ok'] in auto)
      then show ?thesis using True False rs x by (simp add: admit_turn_def Let_def)
    next
      case not_accepted: False
      have "snd (admit_turn lib health g now session_id turn_id messages sid s sv) \<in> {put_session sid s' sv, mark_backend_error now (put_session sid s' sv)}"
        using not_accepted False rs x by (auto simp: admit_turn_def Let_def split: option.splits)
      then show ?thesis using inv' inv_mark_backend_error [OF inv'] by auto
    qed
  qed
qed

text \<open>A submission is refused without effect, or decided in the critical section of the bound session.\<close>

lemma submit_turn_cases:
  "(\<exists>e. submit_turn lib health g now session_id turn_id messages sv = (Inl e, sv)) \<or>
   (\<exists>s. dget (bs_sessions sv) session_id = Some s \<and>
      submit_turn lib health g now session_id turn_id messages sv = admit_turn lib health g now session_id turn_id messages session_id s sv)"
proof -
  have bound: "require_bound_session_match session_id sv = Inr (Some k) \<Longrightarrow> k = session_id" for k
    by (auto simp: require_bound_session_match_def api_fail_def split: option.splits if_splits)
  define x where "x = rbind (validate_identifier ''session_id'' session_id) (\<lambda>_.
           rbind (case turn_id of None \<Rightarrow> Inr () | Some t \<Rightarrow> validate_identifier ''turn_id'' t) (\<lambda>_.
           rbind (require_capabilities sv) (\<lambda>caps.
           rbind (validate_message_request sv caps messages) (\<lambda>_.
           if bs_binding sv = None \<or> bs_adapter sv = None then Inl (Crash (AssertionError []))
           else require_bound_session_match session_id sv))))"
  have sid: "x = Inr (Some k) \<Longrightarrow> k = session_id" for k
    using bound [of k] by (auto simp: x_def rbind_eq_Inr split: if_splits)
  note eq = submit_turn_def [of lib health g now session_id turn_id messages sv, folded x_def]
  show ?thesis
  proof (cases x)
    case (Inr k)
    then show ?thesis using sid by (cases k) (auto simp: eq api_fail_def split: option.split)
  qed (simp add: eq)
qed

lemma inv_submit_turn:
  assumes inv: "server_inv sv"
  shows "server_inv (snd (submit_turn lib health g now session_id turn_id messages sv))"
  using submit_turn_cases [of lib health g now session_id turn_id messages sv]
proof (elim disjE exE conjE)
  fix s
  assume "dget (bs_sessions sv) session_id = Some s"
    and eq: "submit_turn lib health g now session_id turn_id messages sv = admit_turn lib health g now session_id turn_id messages session_id s sv"
  then show ?thesis using inv_admit_turn [OF inv] by (simp add: eq)
qed (use inv in simp)



section \<open>Cancelling, aborting, registering and shutting down\<close>

lemma bound_session_Some: "bound_session session_id turn_id sv = Inr (sid, s) \<Longrightarrow> dget (bs_sessions sv) sid = Some s"
  by (auto simp: bound_session_def not_found_def api_fail_def rbind_eq_Inr split: option.splits if_splits)

lemma inv_cancel_turn:
  assumes inv: "server_inv sv"
  shows "server_inv (snd (cancel_turn now session_id turn_id sv))"
proof (cases "\<exists>sid s r. bound_session session_id turn_id sv = Inr (sid, s) \<and> dget (se_turn_ledger s) turn_id = Some r \<and> is_active (tr_status r)")
  case False
  then have "snd (cancel_turn now session_id turn_id sv) = sv"
    by (auto simp: cancel_turn_def is_active_def split: sum.split option.split)
  then show ?thesis using inv by simp
next
  case True
  then obtain sid s r where b: "bound_session session_id turn_id sv = Inr (sid, s)" and r: "dget (se_turn_ledger s) turn_id = Some r" "is_active (tr_status r)" by blast
  have s: "dget (bs_sessions sv) sid = Some s" by (rule bound_session_Some [OF b])
  have ok: "ledger_ok s" using inv s by (auto simp: inv_defs)
  show ?thesis
  proof (cases "tr_status r = Queued")
    case queued: True
    let ?r = "cancel_queued_record now session_id r"
    let ?s = "(put_record turn_id ?r s)\<lparr>se_updated_at := now\<rparr>"
    have r': "\<not> is_active (tr_status ?r)" "tr_status ?r \<noteq> Committed" "tr_turn_id ?r = turn_id" "tr_request_messages ?r = tr_request_messages r"
      using ledger_ok_turn_id [OF ok r(1)] by (simp_all add: cancel_queued_record_def)
    have s': "se_turn_ledger ?s = dset turn_id ?r (se_turn_ledger s)" "same_object s ?s" by (simp_all add: put_record_def)
    have "ledger_ok ?s" by (rule ledger_ok_settle [OF ok r r'(3,2) s'(1)]) (auto simp: put_record_def)
    then have "server_inv_ex {(sid, turn_id)} (put_session sid ?s sv)"
      using inv_settle [OF inv s r _ s'(1) r'(1,4) s'(2)] by blast
    then have "server_inv (set_event (sid, turn_id) (put_session sid ?s sv))" using inv_set_event [of "{(sid, turn_id)}" _ "(sid, turn_id)"] by simp
    then show ?thesis using b r queued by (simp add: cancel_turn_def)
  next
    case False
    then have inflight: "tr_status r = Inflight" using r(2) by (auto simp: is_active_def)
    have "server_inv (cancel_task i sv)" if i: "dget (bs_active_turn_tasks sv) sid = Some i" for i
    proof (rule inv_cancel_task [OF inv])
      fix tk
      assume tk: "tk \<in> set (bs_tasks sv)" "tk_id tk = i" "tk_stage tk = NotStarted"
      have sid: "tk_session_id tk = sid" using inv tk i by (auto simp: server_inv_ex_def tasks_ok_def)
      show "idle_task sv tk"
        unfolding idle_task_def
      proof (intro disjI2 allI impI notI)
        fix sid1 s1 r1
        assume a: "dget (bs_sessions sv) sid1 = Some s1 \<and> r1 \<in> set (active_records s1)" and l: "live_task sv sid1 s1 r1 tk"
        then have "s1 = s" using sid s by (auto simp: live_task_def)
        moreover obtain xs where xs: "se_turn_ledger s = xs @ [(turn_id, r)]" "list_all (\<lambda>x. \<not> is_active (tr_status (snd x))) xs"
          using active_record_last [OF ok r] by blast
        ultimately have "r1 = r" using a active_records_last [OF xs(2,1)] by (simp split: if_splits)
        then show False using l tk inflight by (auto simp: live_task_def)
      qed
    qed
    then show ?thesis using b r inflight inv by (auto simp: cancel_turn_def split: option.split)
  qed
qed

lemma commute_cancel_task: "put_session sid s (cancel_task i sv) = cancel_task i (put_session sid s sv)" "set_event k (cancel_task i sv) = cancel_task i (set_event k sv)"
  by (simp_all add: put_session_def cancel_task_def set_event_def)

lemma commute_set_events: "fold (\<lambda>r. set_event (sid, tr_turn_id r)) rs (cancel_task i sv) = cancel_task i (fold (\<lambda>r. set_event (sid, tr_turn_id r)) rs sv)"
  by (induction rs arbitrary: sv) (simp_all add: commute_cancel_task)

lemma inv_set_events: "server_inv_ex K sv \<Longrightarrow> server_inv_ex (K - (\<lambda>r. (sid, tr_turn_id r)) ` set rs) (fold (\<lambda>r. set_event (sid, tr_turn_id r)) rs sv)"
proof (induction rs arbitrary: K sv)
  case (Cons r rs)
  have "server_inv_ex (K - {(sid, tr_turn_id r)}) (set_event (sid, tr_turn_id r) sv)" by (rule inv_set_event [OF Cons.prems])
  moreover have "K - (\<lambda>r. (sid, tr_turn_id r)) ` set (r # rs) = K - {(sid, tr_turn_id r)} - (\<lambda>r. (sid, tr_turn_id r)) ` set rs" by auto
  ultimately show ?case using Cons.IH [of "K - {(sid, tr_turn_id r)}" "set_event (sid, tr_turn_id r) sv"] by simp
qed simp

lemma set_events_frame:
  "bs_sessions (fold (\<lambda>r. set_event (sid, tr_turn_id r)) rs sv) = bs_sessions sv \<and> bs_tasks (fold (\<lambda>r. set_event (sid, tr_turn_id r)) rs sv) = bs_tasks sv \<and>
   bs_active_turn_tasks (fold (\<lambda>r. set_event (sid, tr_turn_id r)) rs sv) = bs_active_turn_tasks sv"
  by (induction rs arbitrary: sv) (auto simp: set_event_def)

lemma inv_abort_session:
  assumes inv: "server_inv sv"
  shows "server_inv (snd (abort_session now session_id sv))"
proof (cases "\<exists>s. dget (bs_sessions sv) session_id = Some s \<and> se_state s \<noteq> Aborted \<and> snd (abort_session now session_id sv) \<noteq> sv")
  case False
  then have "snd (abort_session now session_id sv) = sv"
    by (auto simp: abort_session_def split: sum.splits option.splits if_splits)
  then show ?thesis using inv by simp
next
  case True
  then obtain s where s: "dget (bs_sessions sv) session_id = Some s" "se_state s \<noteq> Aborted" by blast
  have ok: "ledger_ok s" using inv s by (auto simp: inv_defs)
  let ?s = "abort_ledger now session_id s"
  let ?sv1 = "put_session session_id ?s sv"
  let ?sv2 = "fold (\<lambda>r. set_event (session_id, tr_turn_id r)) (active_records s) ?sv1"
  have ok': "ledger_ok ?s" "active_records ?s = []" using ledger_ok_abort [OF ok] by auto
  have "evolves s ?s"
    using ok' by (auto simp: evolves_def abort_ledger_def dget_map_values abort_record_def)
  then have "server_inv_ex ((\<lambda>r. (session_id, tr_turn_id r)) ` set (active_records s)) ?sv1"
    by (intro inv_put_session [OF inv s(1)]) auto
  from inv_set_events [OF this, of session_id "active_records s"] have inv2: "server_inv ?sv2" by simp
  have frame: "bs_sessions ?sv2 = dset session_id ?s (bs_sessions sv)" "bs_tasks ?sv2 = bs_tasks sv" "bs_active_turn_tasks ?sv2 = bs_active_turn_tasks sv"
    using set_events_frame [of session_id "active_records s" ?sv1] by auto
  have "server_inv (cancel_task i ?sv2)" if i: "dget (bs_active_turn_tasks sv) session_id = Some i" for i
  proof (rule inv_cancel_task [OF inv2])
    fix tk
    assume tk: "tk \<in> set (bs_tasks ?sv2)" "tk_id tk = i" "tk_stage tk = NotStarted"
    then have "tk_session_id tk = session_id" using inv i frame by (auto simp: server_inv_ex_def tasks_ok_def)
    then show "idle_task ?sv2 tk"
      using frame(1) ok'(2) by (auto simp: idle_task_def live_task_def)
  qed
  moreover have "snd (abort_session now session_id sv) = (case dget (bs_active_turn_tasks sv) session_id of Some i \<Rightarrow> cancel_task i ?sv2 | None \<Rightarrow> ?sv2)"
    using True s by (auto simp: abort_session_def commute_cancel_task commute_set_events Let_def split: sum.splits option.splits)
  ultimately show ?thesis using inv2 by (simp split: option.split)
qed

lemma inv_shutdown:
  assumes inv: "server_inv sv"
  shows "server_inv (graceful_shutdown sv)"
proof (cases "bs_shutdown_started sv")
  case False
  let ?sv = "sv\<lparr>bs_shutdown_started := True, bs_state := ShuttingDown\<rparr>"
  have "server_inv ?sv" using inv by (auto simp: inv_defs task_session_def active_key_def)
  moreover have "server_inv (fold cancel_task is sv')" if "server_inv sv'" "bs_shutdown_started sv'" for "is" sv'
    using that
  proof (induction "is" arbitrary: sv')
    case (Cons i "is")
    have "server_inv (cancel_task i sv')" by (rule inv_cancel_task [OF Cons.prems(1)]) (use Cons.prems in \<open>simp add: idle_task_def\<close>)
    then show ?case using Cons.IH [of "cancel_task i sv'"] Cons.prems by (simp add: cancel_task_def)
  qed simp
  ultimately show ?thesis using False by (simp add: graceful_shutdown_def)
qed (use inv in \<open>simp add: graceful_shutdown_def\<close>)


text \<open>Replacing the store by one whose sessions were there before or hold no active turn.\<close>

lemma inv_store:
  assumes inv: "server_inv sv" and sv': "bs_tasks sv' = bs_tasks sv" "bs_active_turn_tasks sv' = bs_active_turn_tasks sv" "bs_turn_events sv' = bs_turn_events sv"
      "bs_shutdown_started sv' = bs_shutdown_started sv" "bs_next_id sv \<le> bs_next_id sv'"
    and new: "\<And>sid s. dget (bs_sessions sv') sid = Some s \<Longrightarrow> dget (bs_sessions sv) sid = Some s \<or>
      ledger_ok s \<and> active_records s = [] \<and> bs_next_id sv \<le> se_object s \<and> se_object s < bs_next_id sv' \<and> se_session_id s = sid"
    and dict: "dict_ok (bs_sessions sv')"
    and gone: "\<And>sid s. dget (bs_sessions sv) sid = Some s \<Longrightarrow> dget (bs_sessions sv') sid \<noteq> Some s \<Longrightarrow> active_records s = []"
  shows "server_inv sv'"
proof -
  have parts: "sessions_ok sv" "tasks_ok sv" "events_ok {} sv" "live_ok sv" using inv by (simp_all add: server_inv_ex_def)
  have "sessions_ok sv'" using parts(1) new sv'(5) dict unfolding sessions_ok_def by (meson less_le_trans)
  moreover have "tasks_ok sv'"
    unfolding tasks_ok_def sv'
  proof (intro conjI ballI allI impI)
    fix tk s
    assume tk: "tk \<in> set (bs_tasks sv)" and s: "task_session tk sv' = Some s"
    have "tk_object tk < bs_next_id sv" using parts(2) tk by (simp add: tasks_ok_def)
    then have "task_session tk sv = Some s" using task_session_Some [OF s] new [of "tk_session_id tk" s] by (auto simp: task_session_def)
    then show "\<exists>r. dget (se_turn_ledger s) (tk_turn_id tk) = Some r \<and> tk_messages tk = tr_request_messages r" using parts(2) tk by (simp add: tasks_ok_def)
  next
    show "tk_id tk < bs_next_id sv'" "tk_object tk < bs_next_id sv'" if "tk \<in> set (bs_tasks sv)" for tk
      using parts(2) that sv'(5) unfolding tasks_ok_def by (meson less_le_trans)+
    show "i < bs_next_id sv'" if "dget (bs_active_turn_tasks sv) sid = Some i" for sid i
      using parts(2) that sv'(5) unfolding tasks_ok_def by (meson less_le_trans)
  qed (use parts(2) in \<open>simp_all add: tasks_ok_def\<close>)
  moreover have "active_key sv k \<Longrightarrow> active_key sv' k" for k
  proof -
    assume "active_key sv k"
    then obtain s r where s: "dget (bs_sessions sv) (fst k) = Some s" "dget (se_turn_ledger s) (snd k) = Some r" "is_active (tr_status r)" by (auto simp: active_key_def)
    have ok: "ledger_ok s" using parts(1) s(1) by (simp add: sessions_ok_def)
    then have "r \<in> set (active_records s)" using s ledger_ok_turn_id [OF ok s(2)] set_active_records [OF ok, of r] by simp
    then have "dget (bs_sessions sv') (fst k) = Some s" using gone [OF s(1)] by force
    then show ?thesis using s by (auto simp: active_key_def)
  qed
  then have "events_ok {} sv'" using parts(3) by (auto simp: events_ok_def sv')
  moreover have "live_task sv' sid s r tk = live_task sv sid s r tk" for sid s r tk by (simp add: live_task_def sv')
  then have "live_ok sv'" using parts(4) new by (fastforce simp: live_ok_def sv')
  ultimately show ?thesis by (simp add: server_inv_ex_def)
qed

lemma aborted_inactive: "server_inv sv \<Longrightarrow> dget (bs_sessions sv) sid = Some s \<Longrightarrow> se_state s = Aborted \<Longrightarrow> active_records s = []"
  by (auto simp: inv_defs ledger_ok_def)

lemma inv_register_begin:
  assumes inv: "server_inv sv"
  shows "server_inv (snd (register_begin rg sv))"
proof (cases "bs_fingerprint sv \<noteq> Some (rg_fingerprint rg) \<and> bs_binding sv \<noteq> None \<and> \<not> has_open_sessions (bs_sessions sv)")
  case True
  have "se_state s = Aborted" if "dget (bs_sessions sv) sid = Some s" for sid s
  proof -
    have "s \<in> set (dvalues (bs_sessions sv))" using map_of_SomeD [OF that] by force
    then show ?thesis using True by (cases "se_state s") (auto simp: has_open_sessions_def)
  qed
  then have "active_records s = []" if "dget (bs_sessions sv) sid = Some s" for sid s using aborted_inactive [OF inv] that by blast
  then have "server_inv (sv\<lparr>bs_state := Initializing, bs_fingerprint := Some (rg_fingerprint rg), bs_adapter := None, bs_binding := None,
      bs_capabilities := None, bs_config := bs_base_config sv, bs_sessions := []\<rparr>)"
    by (intro inv_store [OF inv]) auto
  then show ?thesis using True inv by (auto simp: register_begin_def Let_def)
next
  case False
  then show ?thesis using inv by (auto simp: register_begin_def Let_def intro!: inv_frame [OF inv])
qed

lemma min_by_in_set: "min_by key x xs \<in> insert x (set xs)"
  by (induction key x xs rule: min_by.induct) (auto split: if_splits)

lemma evict_gone:
  assumes "dget d sid = Some s" "dget (evict_oldest_aborted d) sid \<noteq> Some s" "\<And>k s. dget d k = Some s \<Longrightarrow> se_session_id s = k" "dict_ok d"
  shows "se_state s = Aborted"
proof -
  obtain a as where as: "filter (\<lambda>s. se_state s = Aborted) (dvalues d) = a # as"
    using assms(1,2) by (cases "filter (\<lambda>s. se_state s = Aborted) (dvalues d)") (auto simp: evict_oldest_aborted_def)
  let ?m = "min_by session_key a as"
  have "?m \<in> set (filter (\<lambda>s. se_state s = Aborted) (dvalues d))" using min_by_in_set [of session_key a as] as by simp
  then have m: "se_state ?m = Aborted" "?m \<in> set (dvalues d)" by auto
  then obtain k where "dget d k = Some ?m" using assms(4) by (force simp: dict_ok_def)
  then have "dget d (se_session_id ?m) = Some ?m" using assms(3) by metis
  moreover have "sid = se_session_id ?m" using assms(1,2) as by (auto simp: evict_oldest_aborted_def split: if_splits)
  ultimately show ?thesis using assms(1) m by simp
qed

lemma evict_sub: "dget (evict_oldest_aborted d) sid = Some s \<Longrightarrow> dget d sid = Some s"
  by (auto simp: evict_oldest_aborted_def split: list.splits if_splits)

lemma evict_dict_ok: "dict_ok d \<Longrightarrow> dict_ok (evict_oldest_aborted d)"
  by (auto simp: evict_oldest_aborted_def split: list.split)

lemma get_or_create_store:
  assumes "get_or_create sid fresh mx d = (x, d')" "dict_ok d" "\<forall>k s. dget d k = Some s \<longrightarrow> se_session_id s = k"
  shows "dict_ok d'" "dget d' k = Some s \<Longrightarrow> dget d k = Some s \<or> k = sid \<and> s = fresh \<and> x = Some True"
    "dget d k = Some s \<Longrightarrow> dget d' k \<noteq> Some s \<Longrightarrow> se_state s = Aborted"
proof -
  define d1 where "d1 = (if mx \<le> length d then evict_oldest_aborted d else d)"
  have d1: "dict_ok d1" "dget d1 k = Some s \<Longrightarrow> dget d k = Some s"
    using assms(2) evict_dict_ok [of d] evict_sub [of d k s] by (auto simp: d1_def split: if_splits)
  have d1': "se_state s = Aborted" if "dget d k = Some s" "dget d1 k \<noteq> Some s"
  proof (rule evict_gone [OF that(1)])
    show "dget (evict_oldest_aborted d) k \<noteq> Some s" using that by (auto simp: d1_def split: if_splits)
  qed (use assms(2,3) in auto)
  have d': "d' = d \<or> d' = d1 \<or> d' = dset sid fresh d1 \<and> x = Some True \<and> dget d sid = None"
    using assms(1) by (auto simp: get_or_create_def d1_def dmem_def Let_def split: if_splits)
  then show "dict_ok d'" using d1(1) assms(2) by auto
  show "dget d k = Some s \<or> k = sid \<and> s = fresh \<and> x = Some True" if "dget d' k = Some s" using that d' d1(2) by (auto split: if_splits)
  show "se_state s = Aborted" if "dget d k = Some s" "dget d' k \<noteq> Some s" using that d' d1' by (auto split: if_splits)
qed

lemma bound_session_context_ok:
  "ledger_ok (inject_system_prompt lib now b (bound_session_context i now b))" "active_records (inject_system_prompt lib now b (bound_session_context i now b)) = []"
  "se_object (inject_system_prompt lib now b (bound_session_context i now b)) = i" "se_session_id (inject_system_prompt lib now b (bound_session_context i now b)) = bi_bound_session_id b"
  by (auto simp: ledger_ok_def prompt_ok_def active_records_def committed_records_def inject_system_prompt_def bound_session_context_def split: option.split prod.split)

lemma inv_register_finish:
  assumes inv: "server_inv sv"
  shows "server_inv (snd (register_finish lib now out rg sv))"
proof -
  have failed: "server_inv (registration_failed st sv)" "server_inv ((registration_failed st sv)\<lparr>bs_fingerprint := f, bs_config := c\<rparr>)" for st f c
    by (rule inv_frame [OF inv]; simp add: registration_failed_def)+
  let ?b = "rg_binding rg"
  let ?sid = "bi_bound_session_id ?b" and ?fresh = "inject_system_prompt lib now ?b (bound_session_context (bs_next_id sv) now ?b)"
  obtain x d where g: "get_or_create ?sid ?fresh (sv_max_sessions (rg_config rg)) (bs_sessions sv) = (x, d)" by fastforce
  have ses: "dict_ok (bs_sessions sv)" "\<forall>k s. dget (bs_sessions sv) k = Some s \<longrightarrow> se_session_id s = k"
    using inv by (auto simp: server_inv_ex_def sessions_ok_def)
  note store = get_or_create_store [OF g ses]
  have stored: "server_inv sv'" if "bs_tasks sv' = bs_tasks sv" "bs_active_turn_tasks sv' = bs_active_turn_tasks sv" "bs_turn_events sv' = bs_turn_events sv"
      "bs_shutdown_started sv' = bs_shutdown_started sv" "bs_next_id sv' = (if x = None then bs_next_id sv else bs_next_id sv + 1)" "bs_sessions sv' = d" for sv'
  proof (rule inv_store [OF inv])
    show "dget (bs_sessions sv) k = Some s \<or>
      ledger_ok s \<and> active_records s = [] \<and> bs_next_id sv \<le> se_object s \<and> se_object s < bs_next_id sv' \<and> se_session_id s = k"
      if "dget (bs_sessions sv') k = Some s" for k s
      using that \<open>bs_sessions sv' = d\<close> store(2) [of k s] bound_session_context_ok [of lib now ?b "bs_next_id sv"] \<open>bs_next_id sv' = _\<close> by auto
    show "active_records s = []" if "dget (bs_sessions sv) k = Some s" "dget (bs_sessions sv') k \<noteq> Some s" for k s
      using aborted_inactive [OF inv that(1)] store(3) [OF that(1)] that(2) \<open>bs_sessions sv' = d\<close> by simp
  qed (use that store(1) in auto)
  show ?thesis
  proof (cases "out = Initialized")
    case True
    show ?thesis by (rule stored; use True g in \<open>cases x; simp add: register_finish_def Let_def registration_failed_def\<close>)
  next
    case False
    then show ?thesis using failed by (cases out) (simp_all add: register_finish_def Let_def)
  qed
qed


section \<open>The runs\<close>

text \<open>
  The steps of the event loop between two awaits.  A submission may have passed the readiness check long before
  it is admitted, since it waits while the server is paused; so its step asks only that the server is not paused.
  The end of a registration may meet any state, since failing turns and a shutdown change it meanwhile.
\<close>

inductive server_step :: "server_lib \<Rightarrow> server \<Rightarrow> server \<Rightarrow> bool" for lib :: server_lib where
  submitted: "\<not> bs_paused sv \<Longrightarrow> server_step lib sv (snd (submit_turn (py_lib.truncate lib) health generated now session_id turn_id messages sv))"
| started: "tk \<in> set (bs_tasks sv) \<Longrightarrow> tk_stage tk = NotStarted \<Longrightarrow> \<not> tk_cancel tk \<Longrightarrow> server_step lib sv (run_turn_start now tk sv)"
| settled: "tk \<in> set (bs_tasks sv) \<Longrightarrow> tk_stage tk = InBackend \<Longrightarrow> \<not> tk_cancel tk \<Longrightarrow> server_step lib sv (run_turn_settle now health outcome tk sv)"
| interrupted: "tk \<in> set (bs_tasks sv) \<Longrightarrow> tk_stage tk = InBackend \<Longrightarrow> tk_cancel tk \<Longrightarrow> server_step lib sv (run_turn_interrupted now tk sv)"
| stopped: "tk \<in> set (bs_tasks sv) \<Longrightarrow> tk_stage tk = NotStarted \<Longrightarrow> tk_cancel tk \<Longrightarrow> server_step lib sv (run_turn_stopped begun tk sv)"
| cancelled: "server_step lib sv (snd (cancel_turn now session_id turn_id sv))"
| aborted: "server_step lib sv (snd (abort_session now session_id sv))"
| backend_died: "server_step lib sv (mark_backend_error now sv)"
| registering: "server_step lib sv (snd (register_begin rg sv))"
| registered: "server_step lib sv (snd (register_finish lib now init rg sv))"
| paused: "server_step lib sv (snd (pause_generation reason sv))"
| resumed: "server_step lib sv (resume_generation version sv)"
| entered: "server_step lib sv (request_enter sv)"
| left: "server_step lib sv (request_exit sv)"
| shut_down: "server_step lib sv (graceful_shutdown sv)"

lemma server_step_inv: "server_step lib sv sv' \<Longrightarrow> server_inv sv \<Longrightarrow> server_inv sv'"
proof (induction rule: server_step.induct)
  case (paused sv reason)
  show ?case by (rule inv_frame [OF paused]) (simp_all add: pause_generation_def split: sum.split)
next
  case (resumed sv version)
  show ?case by (rule inv_frame [OF resumed]) (simp_all add: resume_generation_def)
next
  case (entered sv)
  show ?case by (rule inv_frame [OF entered]) (simp_all add: request_enter_def)
next
  case (left sv)
  show ?case by (rule inv_frame [OF left]) (simp_all add: request_exit_def Let_def)
qed (simp_all add: inv_submit_turn inv_run_turn_start inv_run_turn_settle inv_run_turn_interrupted inv_run_turn_stopped inv_cancel_turn inv_abort_session
    inv_mark_backend_error inv_register_begin inv_register_finish inv_shutdown)

lemma new_server_inv: "server_inv (new_server cfg)"
  by (simp add: inv_defs new_server_def)

interpretation blackbox: transition_system "\<lambda>sv. \<exists>cfg. sv = new_server cfg" "server_step lib" server_inv
  by unfold_locales (auto simp: new_server_inv intro: server_step_inv)

end
