(* ===== verification/Blackbox_Records.thy ===== *)
theory Blackbox_Records
  imports Blackbox_Runs
begin

text \<open>
  What the blackbox server promises over its runs.

  The lemmas show at most one active turn, the history and the count of a session, the settling of every
  active turn, the finality of a settled turn, that no turn runs twice, and the outcome callers learn.
\<close>

section \<open>Records are kept\<close>

text \<open>A session keeps its records with their fingerprints, and those of settled turns as they are.\<close>

definition keeps_records :: "session_context \<Rightarrow> session_context \<Rightarrow> bool" where
  "keeps_records s s' \<longleftrightarrow>
     (\<forall>t r. dget (se_turn_ledger s) t = Some r \<longrightarrow>
        (\<exists>r'. dget (se_turn_ledger s') t = Some r' \<and> tr_request_fingerprint r' = tr_request_fingerprint r \<and> (\<not> is_active (tr_status r) \<longrightarrow> r' = r)))"

definition keeps :: "server \<Rightarrow> server \<Rightarrow> bool" where
  "keeps sv sv' \<longleftrightarrow>
     bs_next_id sv \<le> bs_next_id sv' \<and>
     (\<forall>sid s'. dget (bs_sessions sv') sid = Some s' \<longrightarrow>
        bs_next_id sv \<le> se_object s' \<or> (\<exists>s. dget (bs_sessions sv) sid = Some s \<and> se_object s = se_object s' \<and> keeps_records s s'))"

lemma keeps_records_same: "se_turn_ledger s' = se_turn_ledger s \<Longrightarrow> keeps_records s s'"
  by (simp add: keeps_records_def)

lemma keeps_records_put:
  assumes "dget (se_turn_ledger s) t = Some r" "is_active (tr_status r)" "se_turn_ledger s' = dset t r' (se_turn_ledger s)" "tr_request_fingerprint r' = tr_request_fingerprint r"
  shows "keeps_records s s'"
  using assms by (auto simp: keeps_records_def)

lemma keeps_records_trans: "keeps_records s s' \<Longrightarrow> keeps_records s' s'' \<Longrightarrow> keeps_records s s''"
  unfolding keeps_records_def by metis

lemma keeps_trans:
  assumes "keeps sv sv'" "keeps sv' sv''"
  shows "keeps sv sv''"
  unfolding keeps_def
proof (intro conjI allI impI)
  show "bs_next_id sv \<le> bs_next_id sv''" using assms by (simp add: keeps_def)
next
  fix sid s''
  assume "dget (bs_sessions sv'') sid = Some s''"
  then consider "bs_next_id sv' \<le> se_object s''" | s' where "dget (bs_sessions sv') sid = Some s'" "se_object s' = se_object s''" "keeps_records s' s''"
    using assms(2) unfolding keeps_def by blast
  then show "bs_next_id sv \<le> se_object s'' \<or> (\<exists>s. dget (bs_sessions sv) sid = Some s \<and> se_object s = se_object s'' \<and> keeps_records s s'')"
  proof cases
    case 1
    then show ?thesis using assms(1) by (simp add: keeps_def)
  next
    case 2
    have "bs_next_id sv \<le> se_object s' \<or> (\<exists>s. dget (bs_sessions sv) sid = Some s \<and> se_object s = se_object s' \<and> keeps_records s s')"
      using assms(1) 2(1) unfolding keeps_def by blast
    then show ?thesis using 2(2,3) keeps_records_trans by metis
  qed
qed

lemma keeps_sub:
  "bs_next_id sv \<le> bs_next_id sv' \<Longrightarrow> (\<And>sid s. dget (bs_sessions sv') sid = Some s \<Longrightarrow> dget (bs_sessions sv) sid = Some s \<or> bs_next_id sv \<le> se_object s) \<Longrightarrow> keeps sv sv'"
  unfolding keeps_def by (metis keeps_records_same)

lemma keeps_frame: "bs_sessions sv' = bs_sessions sv \<Longrightarrow> bs_next_id sv' = bs_next_id sv \<Longrightarrow> keeps sv sv'"
  by (rule keeps_sub) simp_all

lemma keeps_put_session:
  "dget (bs_sessions sv) sid = Some s \<Longrightarrow> se_object s' = se_object s \<Longrightarrow> keeps_records s s' \<Longrightarrow> keeps sv (put_session sid s' sv)"
  by (auto simp: keeps_def intro: keeps_records_same)

lemma keeps_mark_backend_error: "keeps sv (mark_backend_error now sv)"
proof (cases "bs_state sv = ServerError")
  case False
  have "dget (bs_sessions (mark_backend_error now sv)) sid = map_option (desync now) (dget (bs_sessions sv) sid)" for sid
    using False dget_map_values [of "\<lambda>_. desync now" "bs_sessions sv"] by (simp add: mark_backend_error_def mark_all_non_aborted_desynced_def)
  then show ?thesis by (auto simp: keeps_def mark_backend_error_def desync_def keeps_records_def)
qed (simp add: mark_backend_error_def keeps_frame)

lemma finish_task_sessions [simp]: "bs_sessions (finish_task tk sv) = bs_sessions sv" "bs_next_id (finish_task tk sv) = bs_next_id sv"
  by (simp_all add: finish_task_def remove_task_def set_event_def Let_def)

lemma set_event_sessions [simp]: "bs_sessions (set_event k sv) = bs_sessions sv" "bs_next_id (set_event k sv) = bs_next_id sv"
  by (simp_all add: set_event_def)

lemma cancel_task_sessions [simp]: "bs_sessions (cancel_task i sv) = bs_sessions sv" "bs_next_id (cancel_task i sv) = bs_next_id sv"
  by (simp_all add: cancel_task_def)

lemma set_stage_sessions [simp]: "bs_sessions (set_stage i sv) = bs_sessions sv" "bs_next_id (set_stage i sv) = bs_next_id sv"
  by (simp_all add: set_stage_def)

lemma keeps_finish_task: "keeps sv sv' \<Longrightarrow> keeps sv (finish_task tk sv')"
  by (simp add: keeps_def)

lemma keeps_set_event: "keeps sv sv' \<Longrightarrow> keeps sv (set_event k sv')"
  by (simp add: keeps_def)

lemma keeps_refl: "keeps sv sv"
  by (rule keeps_frame) simp_all

lemma keeps_accept_turn:
  assumes "dget (bs_sessions sv) sid = Some s" "dget (se_turn_ledger s) t = None"
  shows "keeps sv (accept_turn sid t fp ms now s sv)"
  using assms by (auto simp: keeps_def keeps_records_def accept_turn_def Let_def)

lemma keeps_submit_turn: "keeps sv (snd (submit_turn lib health g now session_id turn_id messages sv))"
proof -
  have "keeps sv (snd (admit_turn lib health g now session_id turn_id messages sid s sv))" if s: "dget (bs_sessions sv) sid = Some s" for sid s
  proof -
    obtain x s' where rs: "resolve_request_turn_id g turn_id s = (x, s')" by fastforce
    let ?sv = "put_session sid s' sv"
    have put: "keeps sv ?sv" by (rule keeps_put_session [OF s]) (use resolve_request_turn_id_same [OF rs] in \<open>auto intro: keeps_records_same\<close>)
    have "keeps ?sv (mark_backend_error now ?sv)" by (rule keeps_mark_backend_error)
    moreover have "dget (se_turn_ledger s') t = None \<Longrightarrow> keeps ?sv (accept_turn sid t fp messages now s' ?sv)" for t fp by (rule keeps_accept_turn) simp_all
    ultimately show ?thesis
      using keeps_trans [OF put] put keeps_refl [of sv] rs by (auto simp: admit_turn_def Let_def split: sum.split option.split)
  qed
  then show ?thesis using submit_turn_cases [of lib health g now session_id turn_id messages sv] keeps_refl [of sv] by fastforce
qed


lemma keeps_task_put:
  assumes "task_session tk sv = Some s" "se_object s' = se_object s" "keeps_records s s'"
  shows "keeps sv (put_session (tk_session_id tk) s' sv)"
  by (rule keeps_put_session [OF _ assms(2,3)]) (use task_session_Some [OF assms(1)] in simp)

lemma keeps_run_turn_start: "keeps sv (run_turn_start now tk sv)"
proof (cases "\<exists>s r. task_session tk sv = Some s \<and> dget (se_turn_ledger s) (tk_turn_id tk) = Some r \<and> tr_status r = Queued")
  case True
  then obtain s r where s: "task_session tk sv = Some s" and r: "dget (se_turn_ledger s) (tk_turn_id tk) = Some r" "tr_status r = Queued" by blast
  let ?r = "r\<lparr>tr_status := Inflight, tr_updated_at := now\<rparr>"
  have "keeps_records s (put_record (tk_turn_id tk) ?r s)" by (rule keeps_records_put [OF r(1), where r' = ?r]) (use r(2) in \<open>simp_all add: put_record_def\<close>)
  then have "keeps sv (put_session (tk_session_id tk) (put_record (tk_turn_id tk) ?r s) sv)" by (intro keeps_task_put [OF s]) (simp_all add: put_record_def)
  then have "keeps sv (set_stage (tk_id tk) (put_session (tk_session_id tk) (put_record (tk_turn_id tk) ?r s) sv))" by (simp add: keeps_def)
  then show ?thesis using s r by (simp add: run_turn_start_def)
next
  case False
  then have "run_turn_start now tk sv = finish_task tk sv" by (auto simp: run_turn_start_def split: option.split)
  then show ?thesis by (simp add: keeps_frame)
qed

lemma keeps_run_turn_settle: "keeps sv (run_turn_settle now health out tk sv)"
proof (cases "\<exists>s r. task_session tk sv = Some s \<and> dget (se_turn_ledger s) (tk_turn_id tk) = Some r \<and> tr_status r = Inflight")
  case True
  then obtain s r where s: "task_session tk sv = Some s" and r: "dget (se_turn_ledger s) (tk_turn_id tk) = Some r" "tr_status r = Inflight" by blast
  have act: "is_active (tr_status r)" using r(2) by simp
  have commit: "keeps sv (put_session (tk_session_id tk) (commit_turn now (tk_turn_id tk) r (tk_messages tk) response s) sv)" for response
    by (intro keeps_task_put [OF s] keeps_records_put [OF r(1) act, where r' = "r\<lparr>tr_status := Committed, tr_response := Some response, tr_updated_at := now\<rparr>"])
      (simp_all add: commit_turn_def put_record_def)
  have unknown: "keeps sv (put_session (tk_session_id tk) (handle_unknown_turn now (tk_turn_id tk) r code m st ex s) sv)" for code m st ex
    by (rule keeps_task_put [OF s]; simp add: handle_unknown_turn_def put_record_def keeps_records_def r(1) act)
  note failed = keeps_trans [OF unknown keeps_mark_backend_error] keeps_trans [OF keeps_trans [OF unknown keeps_mark_backend_error] keeps_mark_backend_error]
  show ?thesis
    using s r commit unknown failed by (cases out) (auto simp: run_turn_settle_def Let_def intro!: keeps_finish_task)
next
  case False
  then have "run_turn_settle now health out tk sv = finish_task tk sv" by (auto simp: run_turn_settle_def split: option.split)
  then show ?thesis by (simp add: keeps_frame)
qed

lemma keeps_finalize: "keeps_records s (finalize_interrupted_turn now sd t s)" "se_object (finalize_interrupted_turn now sd t s) = se_object s"
proof -
  show "keeps_records s (finalize_interrupted_turn now sd t s)"
  proof (cases "\<exists>r. dget (se_turn_ledger s) t = Some r \<and> \<not> is_terminal (tr_status r)")
    case True
    then obtain r where r: "dget (se_turn_ledger s) t = Some r" "is_active (tr_status r)" "\<not> is_terminal (tr_status r)"
      by (auto simp: is_active_def is_terminal_def) (metis turn_status.exhaust)+
    then show ?thesis by (simp add: finalize_interrupted_turn_def put_record_def keeps_records_def)
  next
    case False
    then have "finalize_interrupted_turn now sd t s = s" by (auto simp: finalize_interrupted_turn_def split: option.split)
    then show ?thesis by (simp add: keeps_records_same)
  qed
  show "se_object (finalize_interrupted_turn now sd t s) = se_object s"
    by (simp add: finalize_interrupted_turn_def put_record_def split: option.split)
qed

lemma keeps_run_turn_interrupted: "keeps sv (run_turn_interrupted now tk sv)"
  unfolding run_turn_interrupted_def
  by (rule keeps_finish_task) (auto split: option.split intro: keeps_refl keeps_task_put keeps_finalize)

lemma keeps_cancel_turn: "keeps sv (snd (cancel_turn now session_id turn_id sv))"
proof (cases "\<exists>sid s r. bound_session session_id turn_id sv = Inr (sid, s) \<and> dget (se_turn_ledger s) turn_id = Some r \<and> tr_status r = Queued")
  case True
  then obtain sid s r where b: "bound_session session_id turn_id sv = Inr (sid, s)" and r: "dget (se_turn_ledger s) turn_id = Some r" "tr_status r = Queued" by blast
  have "keeps sv (put_session sid ((put_record turn_id (cancel_queued_record now session_id r) s)\<lparr>se_updated_at := now\<rparr>) sv)"
    by (intro keeps_put_session [OF bound_session_Some [OF b]] keeps_records_put [OF r(1), where r' = "cancel_queued_record now session_id r"]) (use r(2) in \<open>simp_all add: put_record_def cancel_queued_record_def\<close>)
  then show ?thesis using b r by (simp add: cancel_turn_def keeps_def)
next
  case False
  then have "snd (cancel_turn now session_id turn_id sv) = sv \<or> (\<exists>i. snd (cancel_turn now session_id turn_id sv) = cancel_task i sv)"
    by (auto simp: cancel_turn_def split: sum.split option.split)
  then show ?thesis using keeps_refl keeps_frame [of "cancel_task _ sv" sv] by auto
qed


lemma keeps_abort_session: "keeps sv (snd (abort_session now session_id sv))"
proof -
  have frame: "keeps sv (fold (\<lambda>r. set_event (session_id, tr_turn_id r)) rs sv')" if "keeps sv sv'" for rs sv'
    using that keeps_set_event by (induction rs arbitrary: sv') simp_all
  have "keeps sv (put_session session_id (abort_ledger now session_id s) (cancel_task i sv))" "keeps sv (put_session session_id (abort_ledger now session_id s) sv)"
    if "dget (bs_sessions sv) session_id = Some s" for i s
  proof -
    show "keeps sv (put_session session_id (abort_ledger now session_id s) sv)"
      by (rule keeps_put_session [OF that])
        (auto simp: abort_ledger_def keeps_records_def dget_map_values abort_record_def)
    then show "keeps sv (put_session session_id (abort_ledger now session_id s) (cancel_task i sv))" by (simp add: keeps_def)
  qed
  note aborted = this [THEN frame]
  show ?thesis
    using keeps_refl [of sv] unfolding abort_session_def by (auto simp: Let_def intro!: aborted split: sum.split option.split)
qed

lemma keeps_register_begin: "keeps sv (snd (register_begin rg sv))"
  by (rule keeps_sub) (auto simp: register_begin_def Let_def split: if_splits)

lemma keeps_register_finish:
  assumes "sessions_ok sv"
  shows "keeps sv (snd (register_finish lib now init rg sv))"
proof (cases "init = Initialized")
  case True
  let ?b = "rg_binding rg"
  let ?sid = "bi_bound_session_id ?b" and ?fresh = "inject_system_prompt lib now ?b (bound_session_context (bs_next_id sv) now ?b)"
  obtain x d where g: "get_or_create ?sid ?fresh (sv_max_sessions (rg_config rg)) (bs_sessions sv) = (x, d)" by fastforce
  have ses: "dict_ok (bs_sessions sv)" "\<forall>k s. dget (bs_sessions sv) k = Some s \<longrightarrow> se_session_id s = k" using assms by (auto simp: sessions_ok_def)
  have "bs_sessions (snd (register_finish lib now init rg sv)) = d" "bs_next_id sv \<le> bs_next_id (snd (register_finish lib now init rg sv))"
    using True g by (cases x; simp add: register_finish_def Let_def registration_failed_def)+
  moreover have "dget (bs_sessions sv) k = Some s \<or> bs_next_id sv \<le> se_object s" if "dget d k = Some s" for k s
    using get_or_create_store(2) [OF g ses that] bound_session_context_ok(3) [of lib now ?b "bs_next_id sv"] by auto
  ultimately show ?thesis by (intro keeps_sub) auto
next
  case False
  then have "bs_sessions (snd (register_finish lib now init rg sv)) = bs_sessions sv" "bs_next_id (snd (register_finish lib now init rg sv)) = bs_next_id sv"
    by (cases init; simp add: register_finish_def Let_def registration_failed_def)+
  then show ?thesis by (rule keeps_frame)
qed

lemma shutdown_sessions: "bs_sessions (graceful_shutdown sv) = bs_sessions sv \<and> bs_next_id (graceful_shutdown sv) = bs_next_id sv"
proof -
  have "bs_sessions (fold cancel_task is sv') = bs_sessions sv' \<and> bs_next_id (fold cancel_task is sv') = bs_next_id sv'" for "is" sv'
    by (induction "is" arbitrary: sv') simp_all
  then show ?thesis by (simp add: graceful_shutdown_def)
qed

lemma server_step_keeps: "server_step lib sv sv' \<Longrightarrow> server_inv sv \<Longrightarrow> keeps sv sv'"
proof (induction rule: server_step.induct)
  case (stopped tk sv begun)
  then show ?case by (intro keeps_frame) (auto simp: run_turn_stopped_def remove_task_def)
next
  case (registered sv now init rg)
  then show ?case by (intro keeps_register_finish) (simp add: server_inv_ex_def)
next
  case (paused sv reason)
  then show ?case by (intro keeps_frame) (auto simp: pause_generation_def split: sum.split)
qed (simp_all add: keeps_submit_turn keeps_run_turn_start keeps_run_turn_settle keeps_run_turn_interrupted keeps_cancel_turn keeps_abort_session
    keeps_mark_backend_error keeps_register_begin keeps_frame resume_generation_def request_enter_def request_exit_def Let_def shutdown_sessions)

lemma run_keeps: "(server_step lib)\<^sup>*\<^sup>* sv sv' \<Longrightarrow> server_inv sv \<Longrightarrow> keeps sv sv' \<and> server_inv sv'"
proof (induction rule: rtranclp_induct)
  case base
  then show ?case by (simp add: keeps_refl)
next
  case (step y z)
  then show ?case using keeps_trans server_step_keeps blackbox.step_inv by meson
qed

text \<open>A record over a run, as long as the store has the same session object.\<close>

lemma run_record:
  assumes "server_inv sv" "(server_step lib)\<^sup>*\<^sup>* sv sv'" "dget (bs_sessions sv) sid = Some s" "dget (bs_sessions sv') sid = Some s'" "se_object s' = se_object s"
    "dget (se_turn_ledger s) t = Some r"
  shows "\<exists>r'. dget (se_turn_ledger s') t = Some r' \<and> tr_request_fingerprint r' = tr_request_fingerprint r \<and> (\<not> is_active (tr_status r) \<longrightarrow> r' = r)"
proof -
  have "se_object s < bs_next_id sv" using assms(1,3) by (auto simp: server_inv_ex_def sessions_ok_def)
  then have "keeps_records s s'" using run_keeps [OF assms(2,1)] assms(3,4,5) unfolding keeps_def by fastforce
  then show ?thesis using assms(6) by (simp add: keeps_records_def)
qed



section \<open>Properties\<close>

text \<open>
  C4. In every state the server can reach, the ledger of a session has at most one active turn, which is
  its last record; its history is the system prompt, if there is one, followed by what the committed turns
  exchanged, in the order they were accepted; and its turn count is their number.
\<close>

theorem session_history_is_ledger:
  assumes "(server_step lib)\<^sup>*\<^sup>* (new_server cfg) sv" "dget (bs_sessions sv) sid = Some s"
  shows "length (active_records s) \<le> 1 \<and> list_all (\<lambda>r. \<not> is_active (tr_status r)) (butlast (dvalues (se_turn_ledger s))) \<and>
    se_turn_count s = length (committed_records s) \<and>
    (\<exists>prompt. prompt_ok prompt \<and> se_conversation_history s = prompt @ concat (map exchange (committed_records s)))"
proof -
  have "server_inv sv" using blackbox.reach_inv assms(1) by blast
  then have ok: "ledger_ok s" using assms(2) by (auto simp: inv_defs)
  let ?L = "dvalues (se_turn_ledger s)"
  have inactive: "list_all (\<lambda>r. \<not> is_active (tr_status r)) (butlast ?L)" using ok by (simp add: ledger_ok_def)
  then have "filter (\<lambda>r. is_active (tr_status r)) (butlast ?L) = []" by (simp add: filter_empty_conv list_all_iff)
  then have "length (active_records s) \<le> 1"
    unfolding active_records_def by (cases ?L rule: rev_cases) simp_all
  then show ?thesis using ok inactive by (simp add: ledger_ok_def)
qed

text \<open>
  C5. Once a turn is settled, its record stays as it is for as long as the session exists:
  neither a late answer of the backend, nor a cancellation, an abort, a failing backend, a shutdown or
  a new registration changes the outcome that was reported.
\<close>

theorem settled_turn_final:
  assumes "(server_step lib)\<^sup>*\<^sup>* (new_server cfg) sv" "(server_step lib)\<^sup>*\<^sup>* sv sv'"
    and "dget (bs_sessions sv) sid = Some s" "dget (bs_sessions sv') sid = Some s'" "se_object s' = se_object s"
    and "dget (se_turn_ledger s) t = Some r" "\<not> is_active (tr_status r)"
  shows "dget (se_turn_ledger s') t = Some r"
  using run_record [OF _ assms(2-6)] blackbox.reach_inv assms(1,7) by blast

lemma admit_turn_known:
  assumes "dget (se_turn_ledger s) t = Some r"
  shows "bs_tasks (snd (admit_turn lib health g now session_id (Some t) messages sid s sv)) = bs_tasks sv \<and>
    (\<forall>sb. fst (admit_turn lib health g now session_id (Some t) messages sid s sv) = Inr sb \<longrightarrow>
       sb_idempotent_replay sb \<and> sb_turn_id sb = t \<and> sb_status sb = tr_status r \<and> message_request_fingerprint lib messages = tr_request_fingerprint r)"
proof -
  obtain x s' where rs: "resolve_request_turn_id g (Some t) s = (x, s')" by fastforce
  have "se_turn_ledger s' = se_turn_ledger s" using resolve_request_turn_id_same [OF rs] by simp
  moreover have "x = Inr t \<or> (\<exists>e. x = Inl e)" using rs by (auto simp: resolve_request_turn_id_def api_fail_def split: if_splits)
  ultimately show ?thesis using assms rs by (auto simp: admit_turn_def api_fail_def Let_def split: if_splits)
qed

text \<open>
  C6. A turn is executed at most once: from the moment its record exists, a submission under the same
  identifier starts no task, at any later time and whatever happened in between.  It succeeds only as a
  replay, with the same messages up to their fingerprint.
\<close>

theorem turn_runs_once:
  assumes "(server_step lib)\<^sup>*\<^sup>* (new_server cfg) sv" "(server_step lib)\<^sup>*\<^sup>* sv sv'"
    and "dget (bs_sessions sv) sid = Some s" "dget (bs_sessions sv') sid = Some s'" "se_object s' = se_object s" "dget (se_turn_ledger s) t = Some r"
  shows "bs_tasks (snd (submit_turn plib health g now sid (Some t) messages sv')) = bs_tasks sv' \<and>
    (\<forall>sb. fst (submit_turn plib health g now sid (Some t) messages sv') = Inr sb \<longrightarrow>
       sb_idempotent_replay sb \<and> sb_turn_id sb = t \<and> message_request_fingerprint plib messages = tr_request_fingerprint r)"
proof -
  have "\<exists>r'. dget (se_turn_ledger s') t = Some r' \<and> tr_request_fingerprint r' = tr_request_fingerprint r"
    using run_record [OF _ assms(2-6)] blackbox.reach_inv assms(1) by blast
  then obtain r' where r': "dget (se_turn_ledger s') t = Some r'" "tr_request_fingerprint r' = tr_request_fingerprint r" by blast
  show ?thesis
    using submit_turn_cases [of plib health g now sid "Some t" messages sv'] admit_turn_known [OF r'(1), of plib health g now sid messages sid sv'] assms(4) r'(2)
    by fastforce
qed


lemma mark_backend_error_events [simp]: "bs_turn_events (mark_backend_error now sv) = bs_turn_events sv"
  by (simp add: mark_backend_error_def)

lemma finish_task_event: "dget (bs_turn_events sv) (tk_session_id tk, tk_turn_id tk) = Some b \<Longrightarrow> dget (bs_turn_events (finish_task tk sv)) (tk_session_id tk, tk_turn_id tk) = Some True"
  by (simp add: finish_task_def remove_task_def set_event_def dmem_def Let_def)

lemma settle_event:
  assumes "dget (bs_turn_events sv) (tk_session_id tk, tk_turn_id tk) = Some b"
  shows "dget (bs_turn_events (run_turn_settle now health out tk sv)) (tk_session_id tk, tk_turn_id tk) = Some True"
    "dget (bs_turn_events (run_turn_interrupted now tk sv)) (tk_session_id tk, tk_turn_id tk) = Some True"
proof -
  show "dget (bs_turn_events (run_turn_interrupted now tk sv)) (tk_session_id tk, tk_turn_id tk) = Some True"
    unfolding run_turn_interrupted_def
    by (rule finish_task_event [where b = b]) (use assms in \<open>cases "task_session tk sv"; simp\<close>)
  show "dget (bs_turn_events (run_turn_settle now health out tk sv)) (tk_session_id tk, tk_turn_id tk) = Some True"
  proof (cases "\<exists>s r. task_session tk sv = Some s \<and> dget (se_turn_ledger s) (tk_turn_id tk) = Some r \<and> tr_status r = Inflight")
    case True
    then show ?thesis using assms by (cases out) (auto simp: run_turn_settle_def Let_def intro!: finish_task_event)
  next
    case False
    then have "run_turn_settle now health out tk sv = finish_task tk sv" by (auto simp: run_turn_settle_def split: option.split)
    then show ?thesis using finish_task_event [OF assms] by simp
  qed
qed

text \<open>
  C7. Nobody waits for a turn in vain: before shutdown, an event that is not set has a task for its turn.  A task
  that has not started is not cancelled and goes on to the backend; one that waits for the backend sets the event
  whatever the backend does, and also when it is cancelled.
\<close>

theorem waiting_turn_settles:
  assumes "(server_step lib)\<^sup>*\<^sup>* (new_server cfg) sv" "\<not> bs_shutdown_started sv" "dget (bs_turn_events sv) (sid, t) = Some False"
  shows "\<exists>tk. tk \<in> set (bs_tasks sv) \<and> tk_session_id tk = sid \<and> tk_turn_id tk = t \<and>
    (case tk_stage tk of
       NotStarted \<Rightarrow> \<not> tk_cancel tk \<and> (\<forall>now. tk\<lparr>tk_stage := InBackend\<rparr> \<in> set (bs_tasks (run_turn_start now tk sv)))
     | InBackend \<Rightarrow> \<forall>now health out. dget (bs_turn_events (run_turn_settle now health out tk sv)) (sid, t) = Some True \<and>
         dget (bs_turn_events (run_turn_interrupted now tk sv)) (sid, t) = Some True)"
proof -
  have inv: "server_inv sv" using blackbox.reach_inv assms(1) by blast
  then have "active_key sv (sid, t)" using assms(3) by (auto simp: server_inv_ex_def events_ok_def)
  then obtain s r where s: "dget (bs_sessions sv) sid = Some s" and r: "dget (se_turn_ledger s) t = Some r" "is_active (tr_status r)" by (auto simp: active_key_def)
  have ok: "ledger_ok s" using inv s by (auto simp: inv_defs)
  then have id: "tr_turn_id r = t" and "r \<in> set (active_records s)" using ledger_ok_turn_id [OF ok r(1)] set_active_records [OF ok, of r] r by auto
  then obtain tk where tk: "live_task sv sid s r tk" using inv_live [OF inv assms(2) s] by blast
  then have l: "tk \<in> set (bs_tasks sv)" "tk_session_id tk = sid" "tk_turn_id tk = t" "task_session tk sv = Some s" "tk_stage tk = NotStarted \<longleftrightarrow> tr_status r = Queued"
    "tk_stage tk = NotStarted \<longrightarrow> \<not> tk_cancel tk" using s id by (auto simp: live_task_def task_session_def)
  show ?thesis
  proof (cases "tk_stage tk")
    case NotStarted
    then have "tk\<lparr>tk_stage := InBackend\<rparr> \<in> set (bs_tasks (run_turn_start now tk sv))" for now
      using l r(1) by (auto simp: run_turn_start_def set_stage_def image_iff intro!: bexI [of _ tk])
    then show ?thesis using l NotStarted by auto
  next
    case InBackend
    have "dget (bs_turn_events sv) (tk_session_id tk, tk_turn_id tk) = Some False" using l assms(3) by simp
    note settle_event [OF this]
    then show ?thesis using l InBackend by (intro exI [of _ tk]) simp
  qed
qed

text \<open>The record of a turn, wherever the health of the backend leaves the session.\<close>

definition record_at :: "server \<Rightarrow> string \<Rightarrow> string \<Rightarrow> turn_record option" where
  "record_at sv sid t = Option.bind (dget (bs_sessions sv) sid) (\<lambda>s. dget (se_turn_ledger s) t)"

lemma record_at_mark_backend_error [simp]: "record_at (mark_backend_error now sv) sid t = record_at sv sid t"
  using dget_map_values [of "\<lambda>_. desync now" "bs_sessions sv"]
  by (cases "dget (bs_sessions sv) sid") (auto simp: record_at_def mark_backend_error_def mark_all_non_aborted_desynced_def desync_def)

lemma record_at_finish_task [simp]: "record_at (finish_task tk sv) sid t = record_at sv sid t"
  by (simp add: record_at_def)

lemma record_at_put [simp]: "record_at (put_session sid s sv) sid t = dget (se_turn_ledger s) t"
  by (simp add: record_at_def)

lemma send_message_result_record:
  "record_at sv sid t = Some r \<Longrightarrow>
     send_message_result lib session_id sid t sv =
       (case (tr_status r, tr_response r) of (Committed, Some response) \<Rightarrow> Inr response | _ \<Rightarrow> Inl (raise_from_turn_error lib session_id r))"
  by (cases "dget (bs_sessions sv) sid") (auto simp: record_at_def send_message_result_def)

lemma raise_from_payload:
  "tr_error r = Some (error_payload code message http_status details) \<Longrightarrow> code \<noteq> [] \<Longrightarrow> http_status \<noteq> 0 \<Longrightarrow>
     raise_from_turn_error lib session_id r = Api (ApiError http_status code (if message = [] then ''Turn failed.'' else message) details)"
  by (simp add: raise_from_turn_error_def error_payload_def str_default_def llm_str_def py_or_def)

lemma record_after_failure:
  assumes "task_session tk sv = Some s" "dget (se_turn_ledger s) (tk_turn_id tk) = Some r" "tr_status r = Inflight"
    "outcome_error out = Some (code, message, http_status, extra, died)"
  shows "record_at (run_turn_settle now health out tk sv) (tk_session_id tk) (tk_turn_id tk) =
    Some (r\<lparr>tr_status := Unknown, tr_updated_at := now,
      tr_error := Some (error_payload code message http_status (AList.updates (map fst extra) (map snd extra) (turn_details (se_session_id s) (tk_turn_id tk))))\<rparr>)"
  using assms by (cases out) (simp_all add: run_turn_settle_def handle_unknown_turn_def put_record_def Let_def)

lemma outcome_error_codes: "outcome_error out = Some (code, message, http_status, extra, died) \<Longrightarrow> code \<noteq> [] \<and> http_status \<noteq> 0"
  by (cases out) auto

text \<open>
  The caller of the synchronous interface learns what the backend did: the answer, or an error with the code,
  message, status and details of the failure.  A backend whose process died takes the server out of service.
\<close>

theorem caller_learns_outcome:
  assumes "task_session tk sv = Some s" "dget (se_turn_ledger s) (tk_turn_id tk) = Some r" "tr_status r = Inflight"
  shows "send_message_result lib session_id (tk_session_id tk) (tk_turn_id tk) (run_turn_settle now health out tk sv) =
    (case out of
       Answered response \<Rightarrow> Inr response
     | _ \<Rightarrow> (case outcome_error out of
              Some (code, message, http_status, extra, died) \<Rightarrow>
                Inl (Api (ApiError http_status code (if message = [] then ''Turn failed.'' else message)
                  (AList.updates (map fst extra) (map snd extra) (turn_details (se_session_id s) (tk_turn_id tk))))))) \<and>
    (\<forall>m. out = BackendFailure m True \<longrightarrow> bs_state (run_turn_settle now health out tk sv) = ServerError)"
proof -
  have "send_message_result lib session_id (tk_session_id tk) (tk_turn_id tk) (run_turn_settle now health (Answered response) tk sv) = Inr response" for response
  proof -
    have "record_at (run_turn_settle now health (Answered response) tk sv) (tk_session_id tk) (tk_turn_id tk) =
        Some (r\<lparr>tr_status := Committed, tr_response := Some response, tr_updated_at := now\<rparr>)"
      using assms by (simp add: run_turn_settle_def commit_turn_def put_record_def)
    then show ?thesis by (simp add: send_message_result_record)
  qed
  moreover have failed: "send_message_result lib session_id (tk_session_id tk) (tk_turn_id tk) (run_turn_settle now health out tk sv) =
      Inl (Api (ApiError st code (if m = [] then ''Turn failed.'' else m)
        (AList.updates (map fst extra) (map snd extra) (turn_details (se_session_id s) (tk_turn_id tk)))))"
    if "outcome_error out = Some (code, m, st, extra, died)" for code m st extra died
    using outcome_error_codes [OF that] by (simp add: send_message_result_record [OF record_after_failure [OF assms that]] raise_from_payload)
  moreover have "bs_state (finish_task tk (mark_backend_error now sv1)) = ServerError" for sv1
    by (simp add: finish_task_def remove_task_def set_event_def mark_backend_error_def Let_def)
  then have died: "bs_state (run_turn_settle now health (BackendFailure m True) tk sv) = ServerError" for m
    using assms by (simp add: run_turn_settle_def Let_def)
  ultimately show ?thesis
  proof (cases "outcome_error out")
    case (Some e)
    obtain code m st extra died where "e = (code, m, st, extra, died)" by (cases e)
    then show ?thesis using Some failed [of code m st extra died] died by (cases out) auto
  qed (cases out; simp)
qed



section \<open>A run\<close>

definition sample_server_config :: server_config where
  "sample_server_config = \<lparr>sv_runtime_root = ''/r'', sv_max_sessions = 1, sv_max_turns = 8, sv_backend_timeout = 1, sv_execute_cmd_timeout = 1, sv_router_timeout = 1,
     sv_health_check_interval = 1, sv_health_check_retries = 1, sv_health_check_retry_delay = 1\<rparr>"

definition sample_binding :: binding_info where
  "sample_binding = \<lparr>bi_runtime_id = ''r'', bi_blackbox_type = ''codex'', bi_router_raw = ''u'', bi_router_base_url = ''u'', bi_router_api_path = ''v'',
     bi_bound_session_id = ''s1'', bi_bound_instance_id = ''i1'', bi_bound_sandbox_id = None, bi_system_prompt = None, bi_runtime_dir = ''/r/r''\<rparr>"

definition sample_registration :: registration where
  "sample_registration = \<lparr>rg_binding = sample_binding, rg_fingerprint = ''f'', rg_config = sample_server_config,
     rg_capabilities = \<lparr>bc_multi_message_input = False, bc_system_message = True, bc_history_injection = False\<rparr>\<rparr>"

definition sample_server_lib :: server_lib where
  "sample_server_lib = \<lparr>json_loads = (\<lambda>_. None), json_dumps = (\<lambda>_. ''{}''), py_repr = (\<lambda>_. []), sha256_hex = (\<lambda>s. s), text_float = (\<lambda>_. None),
     url_parse = (\<lambda>s. (s, s, s)), abspath = (\<lambda>s. s), is_file = (\<lambda>_. False), is_readable = (\<lambda>_. False), validate_proxy = (\<lambda>_. Inr None), read_text = (\<lambda>_. None)\<rparr>"

definition sample_message :: "string \<Rightarrow> bb_message" where
  "sample_message role = \<lparr>bm_role = role, bm_content = Some ''c'', bm_reasoning_content = None, bm_tool_calls = None, bm_tool_call_id = None, bm_name = None\<rparr>"

definition sample_reply :: adapter_response where
  "sample_reply = \<lparr>ar_outputs = [sample_message ''assistant''], ar_trace_events = [], ar_usage = [], ar_backend_session_id = ''b''\<rparr>"

definition sample_registered :: server where
  "sample_registered = snd (register_finish sample_server_lib 1 Initialized sample_registration (new_server sample_server_config))"

definition sample_submitted :: server where
  "sample_submitted = snd (submit_turn (py_lib.truncate sample_server_lib) [True] ''g'' 2 ''s1'' (Some ''t1'') [sample_message ''user''] sample_registered)"

definition sample_inflight :: server where
  "sample_inflight = run_turn_start 3 (hd (bs_tasks sample_submitted)) sample_submitted"

definition sample_done :: server where
  "sample_done = run_turn_settle 4 [True] (Answered sample_reply) (hd (bs_tasks sample_inflight)) sample_inflight"

definition sample_bound_session :: "server \<Rightarrow> session_context" where
  "sample_bound_session sv = the (dget (bs_sessions sv) ''s1'')"

lemma sample_states:
  "\<not> bs_paused sample_registered" "length (bs_tasks sample_submitted) = 1" "tk_stage (hd (bs_tasks sample_submitted)) = NotStarted" "\<not> tk_cancel (hd (bs_tasks sample_submitted))"
  "length (bs_tasks sample_inflight) = 1" "tk_stage (hd (bs_tasks sample_inflight)) = InBackend" "\<not> tk_cancel (hd (bs_tasks sample_inflight))"
  "dget (bs_sessions sample_done) ''s1'' \<noteq> None" "dget (bs_sessions sample_inflight) ''s1'' \<noteq> None" "dget (bs_sessions sample_submitted) ''s1'' \<noteq> None"
  by code_simp+

lemma sample_records:
  "dget (se_turn_ledger (sample_bound_session sample_done)) ''t1'' \<noteq> None" "\<not> is_active (tr_status (the (dget (se_turn_ledger (sample_bound_session sample_done)) ''t1'')))"
  "dget (se_turn_ledger (sample_bound_session sample_inflight)) ''t1'' \<noteq> None" "tr_status (the (dget (se_turn_ledger (sample_bound_session sample_inflight)) ''t1'')) = Inflight"
  "task_session (hd (bs_tasks sample_inflight)) sample_inflight \<noteq> None" 
  "dget (bs_turn_events sample_inflight) (''s1'', ''t1'') = Some False" "\<not> bs_shutdown_started sample_inflight"
  by code_simp+


lemma hd_in_set: "length xs = 1 \<Longrightarrow> hd xs \<in> set xs"
  by (cases xs) auto

lemma sample_run:
  "(server_step sample_server_lib)\<^sup>*\<^sup>* (new_server sample_server_config) sample_inflight" "server_step sample_server_lib sample_inflight sample_done"
proof -
  have "server_step sample_server_lib (new_server sample_server_config) sample_registered"
    unfolding sample_registered_def by (rule server_step.registered)
  moreover have "server_step sample_server_lib sample_registered sample_submitted"
    unfolding sample_submitted_def by (rule server_step.submitted) (rule sample_states)
  moreover have "server_step sample_server_lib sample_submitted sample_inflight"
    unfolding sample_inflight_def by (rule server_step.started) (simp_all add: sample_states hd_in_set)
  ultimately show "(server_step sample_server_lib)\<^sup>*\<^sup>* (new_server sample_server_config) sample_inflight"
    by (rule converse_rtranclp_into_rtranclp [OF _ converse_rtranclp_into_rtranclp [OF _ r_into_rtranclp]])
  show "server_step sample_server_lib sample_inflight sample_done"
    unfolding sample_done_def by (rule server_step.settled) (simp_all add: sample_states hd_in_set)
qed

lemma sample_settled_run: "(server_step sample_server_lib)\<^sup>*\<^sup>* (new_server sample_server_config) sample_done"
  using sample_run by (rule rtranclp.rtrancl_into_rtrancl)

lemma sample_session_at:
  "dget (bs_sessions sample_done) ''s1'' = Some (sample_bound_session sample_done)" "dget (bs_sessions sample_inflight) ''s1'' = Some (sample_bound_session sample_inflight)"
  using sample_states by (simp_all add: sample_bound_session_def)

theorem session_history_is_ledger_witness:
  "se_conversation_history (sample_bound_session sample_done) \<noteq> [] \<and> se_turn_count (sample_bound_session sample_done) = 1 \<and>
   length (committed_records (sample_bound_session sample_done)) = 1"
proof -
  have "se_turn_count (sample_bound_session sample_done) = 1" "se_conversation_history (sample_bound_session sample_done) \<noteq> []" by code_simp+
  then show ?thesis using session_history_is_ledger [OF sample_settled_run sample_session_at(1)] by auto
qed

theorem settled_turn_final_witness:
  "dget (se_turn_ledger (sample_bound_session sample_done)) ''t1'' = Some (the (dget (se_turn_ledger (sample_bound_session sample_done)) ''t1''))"
  using settled_turn_final [OF sample_settled_run rtranclp.rtrancl_refl sample_session_at(1) sample_session_at(1) refl, of "''t1''"] sample_records by auto

theorem turn_runs_once_witness:
  "bs_tasks (snd (submit_turn (py_lib.truncate sample_server_lib) [True] ''g'' 9 ''s1'' (Some ''t1'') [sample_message ''user''] sample_done)) = bs_tasks sample_done"
proof -
  have "se_object (sample_bound_session sample_done) = se_object (sample_bound_session sample_inflight)" by code_simp
  then show ?thesis
    using turn_runs_once [OF sample_run(1) r_into_rtranclp [of "server_step sample_server_lib"], OF sample_run(2) sample_session_at(2,1), of "''t1''"] sample_records by auto
qed

theorem waiting_turn_settles_witness:
  "\<exists>tk. tk \<in> set (bs_tasks sample_inflight) \<and> tk_session_id tk = ''s1'' \<and> tk_turn_id tk = ''t1''"
  using waiting_turn_settles [OF sample_run(1), of "''s1''" "''t1''"] sample_records by blast

theorem caller_learns_outcome_witness:
  "bs_state (run_turn_settle 4 [True] (BackendFailure ''m'' True) (hd (bs_tasks sample_inflight)) sample_inflight) = ServerError"
proof -
  let ?tk = "hd (bs_tasks sample_inflight)"
  have "tk_session_id ?tk = ''s1''" "tk_turn_id ?tk = ''t1''" "tk_object ?tk = se_object (sample_bound_session sample_inflight)" by code_simp+
  then have "task_session ?tk sample_inflight = Some (sample_bound_session sample_inflight)" "tk_turn_id ?tk = ''t1''"
    "dget (se_turn_ledger (sample_bound_session sample_inflight)) ''t1'' = Some (the (dget (se_turn_ledger (sample_bound_session sample_inflight)) ''t1''))"
    using sample_records sample_session_at by (simp_all add: task_session_def)
  then show ?thesis
    using caller_learns_outcome [of ?tk sample_inflight "sample_bound_session sample_inflight" _ undefined "''s1''" 4 "[True]" "BackendFailure ''m'' True"] sample_records by auto
qed

section \<open>Shutdown is not final\<close>

text \<open>A backend that dies after the shutdown began turns the state into an error, from which the server accepts registrations again.\<close>

lemma shutdown_not_final:
  "\<exists>sv. (server_step sample_server_lib)\<^sup>*\<^sup>* (new_server sample_server_config) sv \<and> bs_shutdown_started sv \<and> fst (register_begin sample_registration sv) = Inr False"
proof -
  let ?sv = "mark_backend_error 1 (graceful_shutdown (new_server sample_server_config))"
  have "(server_step sample_server_lib)\<^sup>*\<^sup>* (new_server sample_server_config) ?sv"
    by (rule converse_rtranclp_into_rtranclp, rule server_step.shut_down, rule r_into_rtranclp, rule server_step.backend_died)
  moreover have "bs_shutdown_started ?sv" "fst (register_begin sample_registration ?sv) = Inr False"
    by (simp_all add: mark_backend_error_def graceful_shutdown_def new_server_def register_begin_def has_open_sessions_def mark_all_non_aborted_desynced_def Let_def)
  ultimately show ?thesis by blast
qed

end
