(* ===== verification/Segment_Expansion.thy ===== *)
theory Segment_Expansion
  imports Training_Samples Messages Transport
begin

text \<open>
  From published segments to training samples: the construction of a sample from a segment
  (\<open>dressage/rollout/artifacts/samples.py\<close>), the expansion of a trajectory into one sample per
  segment with its metrics (\<open>dressage/rollout/multi_segment.py\<close>), and the names of the files the
  artifact writer uses (\<open>artifacts/writer.py\<close>).

  A segment is a dictionary as the proxy publishes it.  Decoding the expert rows of a chunk (base64 and numpy) is a
  parameter.  The lemmas show that the columns of a sample are aligned, which tokens are
  trained, that version spans are a lossless encoding, that an expanded trajectory is one rollout whose
  last segment carries the reward, and that log files stay below their directory.
\<close>

section \<open>Samples\<close>

record sample_object =
  so_index :: "int option"
  so_group_index :: "int option"
  so_session_id :: "string option"
  so_rollout_id :: "int option"
  so_tokens :: "pyval list"
  so_response_length :: nat
  so_loss_mask :: "int list"
  so_rollout_log_probs :: "pyfloat list option"
  so_rollout_routed_experts :: "pyval list option"
  so_response :: string
  so_reward :: pyval
  so_status :: string
  so_remove_sample :: bool
  so_metadata :: "(string, pyval) dict"

record expand_args =
  ea_num_layers :: "int option"
  ea_moe_router_topk :: "int option"
  ea_use_rollout_routing_replay :: bool
  ea_max_tokens_per_gpu :: "int option"
  ea_context_parallel_size :: "int option"
  ea_cp_size :: int

record expand_lib = py_lib +
  chunk_rows :: "string \<Rightarrow> string \<Rightarrow> int \<Rightarrow> int \<Rightarrow> pyval list result"

definition text_value :: "string option \<Rightarrow> pyval" where
  "text_value v = (case v of None \<Rightarrow> PNone | Some s \<Rightarrow> PStr s)"

text \<open>The instance of a sample; \<open>fresh\<close> is a new identifier.\<close>

definition sample_instance_id :: "expand_lib \<Rightarrow> string \<Rightarrow> sample_object \<Rightarrow> string" where
  "sample_instance_id lib fresh s =
     (let v = pget (so_metadata s) ''instance_id''
      in if v \<noteq> PNone then py_str (py_repr lib) v
         else case so_group_index s of Some g \<Rightarrow> show_int g | None \<Rightarrow> fresh)"


section \<open>The columns of a segment\<close>

definition required_segment_list :: "(string, pyval) dict \<Rightarrow> string \<Rightarrow> pyval list result" where
  "required_segment_list seg key =
     (case dget seg key of
        None \<Rightarrow> Inl (ValueError (''selected segment missing required field: '' @ key))
      | Some v \<Rightarrow>
          (if v = PNone then Inl (ValueError (''selected segment field is null: '' @ key))
           else case py_iter v of
                  Inl _ \<Rightarrow> Inl (ValueError (''selected segment field is not a list: '' @ key))
                | Inr xs \<Rightarrow> Inr xs))"

definition fractional :: "pyval \<Rightarrow> bool" where
  "fractional v = (case v of PFloat (Fin r) \<Rightarrow> r \<noteq> of_int \<lfloor>r\<rfloor> | PFloat _ \<Rightarrow> True | _ \<Rightarrow> False)"

definition mask_entry :: "pyval \<Rightarrow> int result" where
  "mask_entry v =
     (if fractional v then Inl (ValueError ''full_loss_mask entry is not 0 or 1'')
      else case py_int v of
             Inl _ \<Rightarrow> Inl (ValueError ''full_loss_mask entry cannot be converted to int'')
           | Inr i \<Rightarrow> if i = 0 \<or> i = 1 then Inr i else Inl (ValueError ''full_loss_mask entry is not 0 or 1''))"

definition normalize_segment_loss_mask :: "pyval list \<Rightarrow> int list result" where
  "normalize_segment_loss_mask values = rmap mask_entry values"

definition normalize_segment_logprobs :: "expand_lib \<Rightarrow> pyval list \<Rightarrow> pyfloat list result" where
  "normalize_segment_logprobs lib values =
     rmap (\<lambda>v. case py_float (py_lib.truncate lib) v of None \<Rightarrow> Inl (ValueError ''full_logprobs entry cannot be converted to float'') | Some x \<Rightarrow> Inr x) values"

definition normalize_segment_versions :: "expand_lib \<Rightarrow> pyval list \<Rightarrow> string list" where
  "normalize_segment_versions lib values = map (\<lambda>v. if v = PNone then ''unknown'' else py_str (py_repr lib) v) values"

text \<open>Maximal runs of equal versions, as positions \<open>start\<close> to \<open>end\<close>.\<close>

fun version_runs :: "nat \<Rightarrow> string \<Rightarrow> nat \<Rightarrow> string list \<Rightarrow> (nat \<times> nat \<times> string) list" where
  "version_runs start current i [] = [(start, i, current)]"
| "version_runs start current i (v # vs) =
     (if v = current then version_runs start current (Suc i) vs else (start, i, current) # version_runs i v (Suc i) vs)"

definition compress_version_spans :: "string list \<Rightarrow> (nat \<times> nat \<times> string) list" where
  "compress_version_spans versions = (case versions of [] \<Rightarrow> [] | v # vs \<Rightarrow> version_runs 0 v 1 vs)"

definition span_value :: "nat \<times> nat \<times> string \<Rightarrow> pyval" where
  "span_value p = (case p of (a, b, v) \<Rightarrow> PDict [(''start'', PInt (int a)), (''end'', PInt (int b)), (''version'', PStr v)])"

definition is_real_output_version :: "string \<Rightarrow> bool" where
  "is_real_output_version v \<longleftrightarrow> lower (strip v) \<notin> {[], ''-1'', ''unknown'', ''none''}"

definition trainable_output_versions :: "int list \<Rightarrow> string list \<Rightarrow> string list" where
  "trainable_output_versions lmask versions = map snd (filter (\<lambda>(m, v). m = 1 \<and> is_real_output_version v) (zip lmask versions))"

definition trainable_output_version_bounds :: "int list \<Rightarrow> string list \<Rightarrow> (string \<times> string) option" where
  "trainable_output_version_bounds lmask versions =
     (let vs = trainable_output_versions lmask versions in if vs = [] then None else Some (hd vs, last vs))"

definition has_token_level_partial_rollout :: "int list \<Rightarrow> string list \<Rightarrow> bool" where
  "has_token_level_partial_rollout lmask versions \<longleftrightarrow> 1 < length (remdups (trainable_output_versions lmask versions))"

definition mask_nonlast_version_tokens :: "int list \<Rightarrow> string list \<Rightarrow> int list" where
  "mask_nonlast_version_tokens lmask versions =
     (let vs = trainable_output_versions lmask versions
      in if length (remdups vs) \<le> 1 then lmask
         else map (\<lambda>(m, v). if m = 1 \<and> is_real_output_version v \<and> v = last vs then 1 else 0) (zip lmask versions))"

definition segment_masks_nonlast_version_tokens :: "(string, pyval) dict \<Rightarrow> bool result" where
  "segment_masks_nonlast_version_tokens seg =
     (case py_or (pget seg ''extra_info'') (PDict []) of
        PDict d \<Rightarrow> Inr (truthy (pget d ''mask_nonlast_version_tokens''))
      | _ \<Rightarrow> Inl (OtherError ''AttributeError''))"

datatype logprob_column = LocalLogprobs "pyfloat list" | RemoteLogprobs TQFieldLayout

definition logprob_count :: "logprob_column \<Rightarrow> int" where
  "logprob_count c = (case c of LocalLogprobs xs \<Rightarrow> int (length xs) | RemoteLogprobs l \<Rightarrow> lay_token_count l)"

record segment_columns =
  sc_tokens :: "pyval list"
  sc_full_loss_mask :: "int list"
  sc_full_logprobs :: logprob_column
  sc_full_versions :: "string list option"

definition segment_arrays :: "expand_lib \<Rightarrow> (string, pyval) dict \<Rightarrow> segment_columns result" where
  "segment_arrays lib seg =
     rbind (required_segment_list seg ''tokens'') (\<lambda>tokens.
     rbind (rbind (required_segment_list seg ''full_loss_mask'') normalize_segment_loss_mask) (\<lambda>lmask.
     rbind (if is_tq_field_layout_dict (pget seg ''full_logprobs'')
            then rbind (layout_from_dict (py_repr lib) (pget seg ''full_logprobs'')) (\<lambda>l. Inr (RemoteLogprobs l))
            else rbind (rbind (required_segment_list seg ''full_logprobs'') (normalize_segment_logprobs lib)) (\<lambda>xs. Inr (LocalLogprobs xs))) (\<lambda>logprobs.
     rbind (if pget seg ''full_versions'' = PNone then Inr None
            else rbind (required_segment_list seg ''full_versions'') (\<lambda>vs. Inr (Some (normalize_segment_versions lib vs)))) (\<lambda>versions.
       if tokens = [] then Inl (ValueError ''selected segment has empty tokens'')
       else if length tokens \<noteq> length lmask then Inl (ValueError ''tokens length != full_loss_mask length'')
       else if int (length tokens) \<noteq> logprob_count logprobs then Inl (ValueError ''tokens length != full_logprobs length'')
       else if (case versions of None \<Rightarrow> False | Some vs \<Rightarrow> length tokens \<noteq> length vs) then Inl (ValueError ''tokens length != full_versions length'')
       else Inr \<lparr>sc_tokens = tokens, sc_full_loss_mask = lmask, sc_full_logprobs = logprobs, sc_full_versions = versions\<rparr>))))"

definition segment_token_cap :: "expand_args \<Rightarrow> int option" where
  "segment_token_cap args =
     map_option (\<lambda>m. m * (case ea_context_parallel_size args of Some c \<Rightarrow> c | None \<Rightarrow> ea_cp_size args)) (ea_max_tokens_per_gpu args)"


section \<open>A sample from a segment\<close>

fun last_assistant :: "expand_lib \<Rightarrow> pyval list \<Rightarrow> string \<Rightarrow> string result" where
  "last_assistant lib [] fallback = Inr fallback"
| "last_assistant lib (m # ms) fallback =
     (case m of
        PDict d \<Rightarrow> if pget d ''role'' = PStr ''assistant'' \<and> pget d ''content'' \<noteq> PNone then Inr (py_str (py_repr lib) (pget d ''content''))
                  else last_assistant lib ms fallback
      | _ \<Rightarrow> Inl (OtherError ''AttributeError''))"

definition last_assistant_content :: "expand_lib \<Rightarrow> pyval \<Rightarrow> string \<Rightarrow> string result" where
  "last_assistant_content lib messages fallback = rbind (py_iter messages) (\<lambda>ms. last_assistant lib (rev ms) fallback)"

text \<open>The decoded rows of one chunk, checked against its row count.\<close>

definition decode_experts_chunk :: "expand_lib \<Rightarrow> int \<Rightarrow> int \<Rightarrow> pyval \<Rightarrow> pyval list result" where
  "decode_experts_chunk lib num_layers topk chunk =
     (case chunk of
        PDict d \<Rightarrow>
          (let dtype = py_str (py_repr lib) (dget_or d ''dtype'' (PStr ''int32''))
           in if dtype \<notin> {''uint8'', ''uint16'', ''int32''} then Inl (ValueError (''unsupported routed_experts dtype: '' @ dtype))
              else rbind (pkey d ''data'') (\<lambda>data.
                   rbind (chunk_rows lib dtype (py_str (py_repr lib) data) num_layers topk) (\<lambda>rows.
                   rbind (pkey d ''row_count'') (\<lambda>rc.
                   rbind (py_int rc) (\<lambda>n.
                     if int (length rows) \<noteq> n then Inl (ValueError ''routed_experts chunk row count does not match its payload'')
                     else Inr rows)))))
      | _ \<Rightarrow> Inl (OtherError ''AttributeError''))"

definition extract_routed_experts :: "expand_lib \<Rightarrow> expand_args \<Rightarrow> nat \<Rightarrow> (string, pyval) dict \<Rightarrow> pyval list option result" where
  "extract_routed_experts lib args expected_token_count seg =
     (case (ea_num_layers args, ea_moe_router_topk args) of
        (Some layers, Some topk) \<Rightarrow>
          (if \<not> truthy (pget seg ''routed_experts_chunks'') then Inr None
           else rbind (py_iter (pget seg ''routed_experts_chunks'')) (\<lambda>chunks.
                rbind (rmap (decode_experts_chunk lib layers topk) chunks) (\<lambda>arrays.
                  let result = concat arrays
                  in if expected_token_count = 0 then Inr (Some result)
                     else if length result < expected_token_count - 1
                     then Inl (ValueError ''routed_experts length does not match trajectory tokens'')
                     else Inr (Some (take (expected_token_count - 1) result)))))
      | _ \<Rightarrow> Inr None)"

definition truncate_columns :: "int \<Rightarrow> segment_columns \<Rightarrow> segment_columns" where
  "truncate_columns cap c =
     \<lparr>sc_tokens = pyslice (sc_tokens c) 0 cap, sc_full_loss_mask = pyslice (sc_full_loss_mask c) 0 cap,
      sc_full_logprobs = (case sc_full_logprobs c of LocalLogprobs xs \<Rightarrow> LocalLogprobs (pyslice xs 0 cap) | r \<Rightarrow> r),
      sc_full_versions = map_option (\<lambda>vs. pyslice vs 0 cap) (sc_full_versions c)\<rparr>"

definition exceeds_cap :: "expand_args \<Rightarrow> segment_columns \<Rightarrow> bool" where
  "exceeds_cap args c = (case segment_token_cap args of None \<Rightarrow> False | Some cap \<Rightarrow> cap < int (length (sc_tokens c)))"

definition capped_columns :: "expand_args \<Rightarrow> segment_columns \<Rightarrow> segment_columns" where
  "capped_columns args c = (if exceeds_cap args c then truncate_columns (the (segment_token_cap args)) c else c)"

definition train_loss_mask :: "bool \<Rightarrow> segment_columns \<Rightarrow> int list" where
  "train_loss_mask nonlast c =
     (case sc_full_versions c of
        Some vs \<Rightarrow> if nonlast then mask_nonlast_version_tokens (sc_full_loss_mask c) vs else sc_full_loss_mask c
      | None \<Rightarrow> sc_full_loss_mask c)"

definition response_start :: "int list \<Rightarrow> nat" where
  "response_start lmask = length (takeWhile (\<lambda>v. v \<noteq> 1) lmask)"

definition version_metadata :: "segment_columns \<Rightarrow> (string, pyval) dict \<Rightarrow> (string, pyval) dict" where
  "version_metadata c md =
     (case sc_full_versions c of
        None \<Rightarrow> md
      | Some vs \<Rightarrow>
          (let lmask = sc_full_loss_mask c;
               md = dset ''version_spans'' (PList (map span_value (compress_version_spans vs))) (dset ''full_versions'' (PList (map PStr vs)) md);
               md = (case trainable_output_version_bounds lmask vs of
                       None \<Rightarrow> md
                     | Some (a, b) \<Rightarrow> dset ''dressage_end_token_version'' (PStr b) (dset ''dressage_start_token_version'' (PStr a) md))
           in if has_token_level_partial_rollout lmask vs then dset ''dressage_partial_rollout'' (PBool True) md else md))"

definition stale_keys :: "string list" where
  "stale_keys = [''dressage_partial_rollout'', ''dressage_async_group_id'', ''response_versions'', ''response_version_spans'',
     ''dressage_start_token_version'', ''dressage_end_token_version'', ''full_versions'', ''version_spans'']"

definition segment_uids :: "(string, pyval) dict list \<Rightarrow> pyval" where
  "segment_uids segs = PList (filter (\<lambda>u. u \<noteq> PNone) (map (\<lambda>s. pget s ''uid'') segs))"

definition segment_metadata :: "segment_columns \<Rightarrow> bool \<Rightarrow> (string, pyval) dict \<Rightarrow> (string, pyval) dict list \<Rightarrow> string option \<Rightarrow> pyval \<Rightarrow> (string, pyval) dict \<Rightarrow> (string, pyval) dict" where
  "segment_metadata c truncated seg all_segments sid iid md =
     (let md = dset ''proxy_extra_info'' (py_or (pget seg ''extra_info'') (PDict []))
                 (dset ''messages'' (py_or (pget seg ''messages'') (PList []))
                   (dset ''instance_id'' iid (dset ''session_id'' (text_value sid) md)));
          md = version_metadata c (fold dpop stale_keys md);
          md = dset ''all_segment_uids'' (segment_uids all_segments)
                 (dset ''selected_segment_index'' (dget_or seg ''segment_index'' (PInt 0))
                   (dset ''segment_count'' (PInt (int (length all_segments))) md))
      in if truncated then dset ''truncated'' (PBool True) md else md)"

definition segment_layouts :: "expand_lib \<Rightarrow> segment_columns \<Rightarrow> (string, pyval) dict \<Rightarrow> (TQFieldLayout option \<times> (string, pyval) dict) result" where
  "segment_layouts lib c seg =
     (let local_part = (case sc_full_logprobs c of RemoteLogprobs l \<Rightarrow> [(lay_logical_field l, layout_to_dict l)] | LocalLogprobs _ \<Rightarrow> [])
      in if is_tq_field_layout_dict (pget seg ''routed_experts_chunks'')
         then rbind (layout_from_dict (py_repr lib) (pget seg ''routed_experts_chunks'')) (\<lambda>l.
                Inr (Some l, dset (lay_logical_field l) (layout_to_dict l) local_part))
         else Inr (None, local_part))"

text \<open>The response columns: everything from the first trained token on.\<close>

definition response_mask :: "bool \<Rightarrow> segment_columns \<Rightarrow> int list" where
  "response_mask nonlast c = drop (response_start (sc_full_loss_mask c)) (train_loss_mask nonlast c)"

definition response_logprobs :: "segment_columns \<Rightarrow> pyfloat list option" where
  "response_logprobs c =
     (case sc_full_logprobs c of LocalLogprobs xs \<Rightarrow> Some (drop (response_start (sc_full_loss_mask c)) xs) | RemoteLogprobs _ \<Rightarrow> None)"

definition response_length_of :: "segment_columns \<Rightarrow> nat" where
  "response_length_of c = length (sc_tokens c) - response_start (sc_full_loss_mask c)"

definition filled_sample ::
  "expand_lib \<Rightarrow> (string, pyval) dict \<Rightarrow> bool \<Rightarrow> segment_columns \<Rightarrow> string \<Rightarrow> (string, pyval) dict \<Rightarrow> pyval list option \<Rightarrow> (string, pyval) dict \<Rightarrow> sample_object \<Rightarrow> sample_object" where
  "filled_sample lib seg nonlast c response layouts experts md s =
     s\<lparr>so_tokens := sc_tokens c, so_response_length := response_length_of c, so_loss_mask := response_mask nonlast c,
       so_rollout_log_probs := response_logprobs c, so_response := response,
       so_metadata := (if layouts \<noteq> [] then dset ''dressage_tq_sample_ref'' (PDict layouts) md else md),
       so_rollout_routed_experts := (if experts \<noteq> None then experts else so_rollout_routed_experts s),
       so_status := (if py_str (py_repr lib) (py_or (pget seg ''finish_reason'') (PStr ''stop'')) = ''length'' then ''TRUNCATED'' else ''COMPLETED'')\<rparr>"

text \<open>The sample from its columns: the alignment checks, the metadata, the layouts and the expert rows.\<close>

definition fill_sample ::
  "expand_lib \<Rightarrow> expand_args \<Rightarrow> (string, pyval) dict \<Rightarrow> (string, pyval) dict list \<Rightarrow> string option \<Rightarrow> pyval \<Rightarrow> string \<Rightarrow> bool \<Rightarrow> bool \<Rightarrow> segment_columns \<Rightarrow> sample_object \<Rightarrow> sample_object result" where
  "fill_sample lib args seg all_segments sid iid agent_response truncated nonlast c s =
     (if length (response_mask nonlast c) \<noteq> response_length_of c then Inl (ValueError ''loss_mask length != response_length'')
      else if (case response_logprobs c of None \<Rightarrow> False | Some xs \<Rightarrow> length xs \<noteq> response_length_of c)
      then Inl (ValueError ''rollout_log_probs length != response_length'')
      else
        rbind (last_assistant_content lib (py_or (pget seg ''messages'') (PList [])) agent_response) (\<lambda>response.
        rbind (segment_layouts lib c seg) (\<lambda>(experts_layout, layouts).
        rbind (if experts_layout = None then extract_routed_experts lib args (length (sc_tokens c)) seg else Inr None) (\<lambda>experts.
          if experts = None \<and> experts_layout = None \<and> ea_use_rollout_routing_replay args
          then Inl (ValueError ''use_rollout_routing_replay is enabled but segment contains no routed_experts.'')
          else Inr (filled_sample lib seg nonlast c response layouts experts (segment_metadata c truncated seg all_segments sid iid (so_metadata s)) s)))))"

definition write_sample_from_segment ::
  "expand_lib \<Rightarrow> expand_args \<Rightarrow> (string, pyval) dict \<Rightarrow> (string, pyval) dict list \<Rightarrow> string option \<Rightarrow> pyval \<Rightarrow> string \<Rightarrow> sample_object \<Rightarrow> sample_object result" where
  "write_sample_from_segment lib args seg all_segments sid iid agent_response s =
     rbind (segment_arrays lib seg) (\<lambda>c.
     rbind (if sc_full_versions c = None then Inr False else segment_masks_nonlast_version_tokens seg) (\<lambda>nonlast.
       fill_sample lib args seg all_segments sid iid agent_response (exceeds_cap args c) nonlast (capped_columns args c) s))"

definition segment_order :: "(string, pyval) dict \<Rightarrow> int result" where
  "segment_order seg = py_int (dget_or seg ''segment_index'' (PInt 0))"

text \<open>The largest segment index, and among those the largest timestamp, the last one of equals.\<close>

definition select_last_segment :: "expand_lib \<Rightarrow> (string, pyval) dict list \<Rightarrow> (string, pyval) dict result" where
  "select_last_segment lib segs =
     (if segs = [] then Inl (ValueError ''proxy returned no trajectory segments'')
      else rbind (rmap (\<lambda>s. rbind (segment_order s) (\<lambda>i.
             case py_float (py_lib.truncate lib) (py_or (pget s ''timestamp'') (PFloat (Fin 0))) of
               Some (Fin t) \<Rightarrow> Inr ((i, t), s)
             | _ \<Rightarrow> Inl (ValueError ''could not convert timestamp''))) segs) (\<lambda>keyed.
             Inr (snd (last (sort_key fst keyed)))))"


section \<open>One sample per segment\<close>

fun expand_sorted ::
  "expand_lib \<Rightarrow> expand_args \<Rightarrow> (string, pyval) dict list \<Rightarrow> string option \<Rightarrow> pyval \<Rightarrow> string \<Rightarrow> sample_object \<Rightarrow> (int \<times> (string, pyval) dict) list \<Rightarrow> sample_object list result" where
  "expand_sorted lib args all_segments sid iid agent_response template [] = Inr []"
| "expand_sorted lib args all_segments sid iid agent_response template ((i, seg) # rest) =
     rbind (write_sample_from_segment lib args seg all_segments sid iid agent_response (template\<lparr>so_rollout_id := so_index template\<rparr>)) (\<lambda>s.
     let s = s\<lparr>so_metadata := dset ''segment_index'' (PInt i) (dset ''parent_traj_id'' (text_value sid) (so_metadata s))\<rparr>;
         s = (if rest \<noteq> [] then s\<lparr>so_reward := PFloat (Fin 0)\<rparr> else s)
     in rbind (expand_sorted lib args all_segments sid iid agent_response template rest) (\<lambda>ss. Inr (s # ss)))"

definition expand_segments_to_samples ::
  "expand_lib \<Rightarrow> expand_args \<Rightarrow> string \<Rightarrow> string option \<Rightarrow> string option \<Rightarrow> sample_object \<Rightarrow> (string, pyval) dict list \<Rightarrow> sample_object list result" where
  "expand_segments_to_samples lib args agent_response session_id instance_id template segments =
     (if segments = [] then Inl (ValueError ''expand_segments_to_samples: empty segments list'')
      else
        let sid = (if session_id \<noteq> None then session_id else so_session_id template);
            iid = (case instance_id of Some i \<Rightarrow> PStr i | None \<Rightarrow> pget (so_metadata template) ''instance_id'')
        in rbind (rmap segment_order segments) (\<lambda>ks.
             let keyed = sort_key fst (zip ks segments)
             in if \<not> distinct (map fst keyed) then Inl (ValueError ''duplicate segment_index in segments'')
                else expand_sorted lib args (map snd keyed) sid iid agent_response template keyed))"


section \<open>Failed samples and metrics\<close>

definition given_text :: "string option \<Rightarrow> pyval \<Rightarrow> pyval" where
  "given_text v rest = (case v of Some (c # cs) \<Rightarrow> PStr (c # cs) | _ \<Rightarrow> rest)"

text \<open>
  A failed sample as it is kept for training without a gradient; \<open>object\<close> is the printed
  identity of the sample.
\<close>

definition mark_aborted_no_grad :: "string \<Rightarrow> string option \<Rightarrow> string option \<Rightarrow> sample_object \<Rightarrow> sample_object" where
  "mark_aborted_no_grad object session_id instance_id s =
     (let md = so_metadata s;
          md = (if pget md ''parent_traj_id'' = PNone
                then dset ''parent_traj_id'' (given_text session_id (given_text instance_id (PStr (''aborted-'' @ object)))) md else md);
          md = (if pget md ''instance_id'' = PNone then dset ''instance_id'' (given_text instance_id (pget md ''parent_traj_id'')) md else md);
          dead = given_text session_id (py_or (pget md ''session_id'') (text_value (so_session_id s)));
          md = (if dead \<noteq> PNone then dset ''last_failed_session_id'' dead md else md)
      in s\<lparr>so_metadata := dpop ''session_id'' md, so_remove_sample := True, so_session_id := None\<rparr>)"

definition metric_token_version :: "expand_lib \<Rightarrow> pyval \<Rightarrow> string option" where
  "metric_token_version lib v =
     (if v = PNone then None
      else let t = strip (py_str (py_repr lib) v) in if lower t \<in> {[], ''-1'', ''none'', ''unknown''} then None else Some t)"

definition metric_trajectory_id :: "expand_lib \<Rightarrow> sample_object \<Rightarrow> string option" where
  "metric_trajectory_id lib s =
     (let v = py_or (pget (so_metadata s) ''parent_traj_id'') (pget (so_metadata s) ''session_id'')
      in if v \<noteq> PNone then Some (py_str (py_repr lib) v)
         else case so_rollout_id s of
                Some r \<Rightarrow> Some (''rollout:'' @ show_int r)
              | None \<Rightarrow> map_option (\<lambda>i. ''sample:'' @ show_int i) (so_index s))"

definition append_ordered_unique :: "expand_lib \<Rightarrow> string list \<Rightarrow> pyval list \<Rightarrow> string list" where
  "append_ordered_unique lib target values = ordered_unique_onto target (List.map_filter (metric_token_version lib) values)"

text \<open>Segment counts by trajectory and real versions by trajectory, over the samples that are not removed.\<close>

definition count_segment :: "sample_object \<Rightarrow> (pyval, nat) dict \<Rightarrow> (pyval, nat) dict" where
  "count_segment s counts =
     (let t = pget (so_metadata s) ''parent_traj_id''
      in if so_remove_sample s \<or> t = PNone then counts else dset t (dget_or counts t 0 + 1) counts)"

definition note_segment_versions :: "expand_lib \<Rightarrow> sample_object \<Rightarrow> (string, string list) dict \<Rightarrow> (string, string list) dict" where
  "note_segment_versions lib s versions =
     (case (so_remove_sample s, metric_trajectory_id lib s, pget (so_metadata s) ''full_versions'') of
        (False, Some t, PList vs) \<Rightarrow> dset t (append_ordered_unique lib (dget_or versions t []) vs) versions
      | _ \<Rightarrow> versions)"

definition distribution :: "string \<Rightarrow> string \<Rightarrow> string \<Rightarrow> nat list \<Rightarrow> (string, real) dict" where
  "distribution mean_key max_key min_key values =
     [(mean_key, real (sum_list values) / real (length values)), (max_key, real (Max (set values))), (min_key, real (Min (set values)))]"

definition compute_multi_segment_metrics :: "expand_lib \<Rightarrow> sample_object list \<Rightarrow> (string, real) dict" where
  "compute_multi_segment_metrics lib samples =
     (let counts = dvalues (fold count_segment samples []);
          spans = map length (filter (\<lambda>vs. vs \<noteq> []) (dvalues (fold (note_segment_versions lib) samples [])))
      in (if counts = [] then []
          else distribution ''rollout/segments_per_trajectory_mean'' ''rollout/segments_per_trajectory_max'' ''rollout/segments_per_trajectory_min'' counts @
               [(''rollout/num_trajectories'', real (length counts)), (''rollout/num_segments'', real (sum_list counts))]) @
         (if spans = [] then []
          else distribution ''staleness/version_span_mean'' ''staleness/version_span_max'' ''staleness/version_span_min'' spans))"

text \<open>Whether the trajectories that asked for a warm sandbox got one, and how long the lucky ones waited.\<close>

definition note_prewarm :: "expand_lib \<Rightarrow> sample_object \<Rightarrow> (pyval, bool) dict \<times> pyfloat list \<Rightarrow> ((pyval, bool) dict \<times> pyfloat list) result" where
  "note_prewarm lib s acc =
     (let md = so_metadata s; (hits, waits) = acc;
          traj = py_or (pget md ''parent_traj_id'') (text_value (metric_trajectory_id lib s))
      in if \<not> truthy (pget md ''prewarm_requested'') \<or> traj = PNone \<or> dmem traj hits then Inr acc
         else rbind (py_int (dget_or md ''prewarm_hit'' (PInt 0))) (\<lambda>h.
           if h = 1 \<and> pget md ''prewarm_wait_seconds'' \<noteq> PNone
           then (case py_float (py_lib.truncate lib) (pget md ''prewarm_wait_seconds'') of
                   None \<Rightarrow> Inl (ValueError ''could not convert to float'')
                 | Some w \<Rightarrow> Inr (dset traj True hits, waits @ [w]))
           else Inr (dset traj (h = 1) hits, waits)))"

fun note_prewarms :: "expand_lib \<Rightarrow> sample_object list \<Rightarrow> (pyval, bool) dict \<times> pyfloat list \<Rightarrow> ((pyval, bool) dict \<times> pyfloat list) result" where
  "note_prewarms lib [] acc = Inr acc"
| "note_prewarms lib (s # ss) acc = rbind (note_prewarm lib s acc) (note_prewarms lib ss)"

definition prewarm_counts :: "bool list \<Rightarrow> (string, real) dict" where
  "prewarm_counts hits =
     (let n = length hits; h = length (filter (\<lambda>b. b) hits)
      in if n = 0 then []
         else [(''prewarm/num_requested'', real n), (''prewarm/num_hits'', real h), (''prewarm/num_misses'', real (n - h)), (''prewarm/hit_rate'', real h / real n)])"

section \<open>File names of the artifact writer\<close>

definition file_name_char :: "char \<Rightarrow> bool" where
  "file_name_char c \<longleftrightarrow> is_alnum c \<or> c \<in> {CHR ''.'', CHR ''_'', CHR ''-''}"

definition safe_filename_part :: "string \<Rightarrow> string" where
  "safe_filename_part t =
     (let safe = strip_by (\<lambda>c. c = CHR ''.'' \<or> c = CHR ''_'') (map (\<lambda>c. if file_name_char c then c else CHR ''_'') t)
      in if safe = [] then ''unknown'' else safe)"

text \<open>The components of the path of an artifact below the log directory.\<close>

definition rollout_log_dir :: "string \<Rightarrow> string \<Rightarrow> string list" where
  "rollout_log_dir session_id instance_id = [safe_filename_part instance_id, safe_filename_part session_id]"

definition segment_sample_path :: "expand_lib \<Rightarrow> string \<Rightarrow> string \<Rightarrow> (string, pyval) dict \<Rightarrow> string list" where
  "segment_sample_path lib session_id instance_id seg =
     rollout_log_dir session_id instance_id @
     [''samples'', safe_filename_part (py_str (py_repr lib) (dget_or seg ''segment_index'' (PInt 0))) @ ''.json'']"

definition headers_for_log :: "(string \<times> string) list \<Rightarrow> (string \<times> string) list" where
  "headers_for_log hs =
     map (\<lambda>(k, v). (k, if lower k \<in> {''authorization'', ''api-key'', ''x-api-key'', ''cookie'', ''set-cookie''} then ''<redacted>'' else v)) hs"



section \<open>Version spans\<close>

definition expand_spans :: "(nat \<times> nat \<times> string) list \<Rightarrow> string list" where
  "expand_spans spans = concat (map (\<lambda>(a, b, v). replicate (b - a) v) spans)"

definition spans_chained :: "(nat \<times> nat \<times> string) list \<Rightarrow> bool" where
  "spans_chained spans \<longleftrightarrow> (\<forall>(a, b, v) \<in> set spans. a < b) \<and> successively (\<lambda>(a, b, v) (a', b', v'). b = a' \<and> v \<noteq> v') spans"

lemma version_runs_expand: "start \<le> i \<Longrightarrow> expand_spans (version_runs start current i vs) = replicate (i - start) current @ vs"
  by (induction start current i vs rule: version_runs.induct)
    (auto simp: expand_spans_def Suc_diff_le replicate_append_same [symmetric] simp del: replicate_append_same)

lemma version_runs_head: "\<exists>b rest. version_runs start current i vs = (start, b, current) # rest"
  by (induction start current i vs rule: version_runs.induct) auto

lemma version_runs_chained: "start < i \<Longrightarrow> spans_chained (version_runs start current i vs)"
proof (induction start current i vs rule: version_runs.induct)
  case (2 start current i v vs)
  then show ?case using version_runs_head [of i v "Suc i" vs] by (auto simp: spans_chained_def)
qed (simp add: spans_chained_def)

text \<open>
  The version spans of a sample encode its versions without loss: writing out each span
  gives the versions back, the spans follow one another without a gap, none is empty, and
  neighbouring spans have different versions, so no shorter encoding of this kind exists.
\<close>

theorem version_spans_lossless:
  "expand_spans (compress_version_spans versions) = versions \<and> spans_chained (compress_version_spans versions)"
proof (cases versions)
  case Nil
  then show ?thesis by (simp add: compress_version_spans_def expand_spans_def spans_chained_def)
next
  case (Cons v vs)
  then show ?thesis using version_runs_expand [of 0 1 v vs] version_runs_chained [of 0 1 v vs] by (simp add: compress_version_spans_def)
qed


section \<open>Which tokens are trained\<close>

definition columns_ok :: "segment_columns \<Rightarrow> bool" where
  "columns_ok c \<longleftrightarrow>
     length (sc_full_loss_mask c) = length (sc_tokens c) \<and> set (sc_full_loss_mask c) \<subseteq> {0, 1} \<and>
     (\<forall>xs. sc_full_logprobs c = LocalLogprobs xs \<longrightarrow> length xs = length (sc_tokens c)) \<and>
     (\<forall>vs. sc_full_versions c = Some vs \<longrightarrow> length vs = length (sc_tokens c))"

lemma mask_entries: "rmap mask_entry values = Inr ms \<Longrightarrow> set ms \<subseteq> {0, 1}"
  by (induction "values" arbitrary: ms) (auto simp: rbind_eq_Inr mask_entry_def split: if_splits sum.splits)

lemma segment_arrays_ok: "segment_arrays lib seg = Inr c \<Longrightarrow> columns_ok c \<and> sc_tokens c \<noteq> []"
  by (auto simp: segment_arrays_def columns_ok_def normalize_segment_loss_mask_def logprob_count_def rbind_eq_Inr
      dest!: mask_entries split: if_splits option.splits)

lemma length_pyslice_cong: "length xs = length ys \<Longrightarrow> length (pyslice xs a b) = length (pyslice ys a b)"
  by (simp add: pyslice_def Let_def)

lemma set_pyslice: "set (pyslice xs a b) \<subseteq> set xs"
  by (auto simp: pyslice_def Let_def dest!: in_set_takeD in_set_dropD)

lemma capped_columns_ok: "columns_ok c \<Longrightarrow> columns_ok (capped_columns args c)"
  using set_pyslice [of "sc_full_loss_mask c" 0 "the (segment_token_cap args)"]
  by (cases "sc_full_logprobs c") (auto simp: columns_ok_def capped_columns_def truncate_columns_def intro!: length_pyslice_cong)

text \<open>A token is trained when its mask is set and, in a segment that asks for it and spans several versions, its version is the last one.\<close>

definition trains_token :: "bool \<Rightarrow> segment_columns \<Rightarrow> nat \<Rightarrow> bool" where
  "trains_token nonlast c i \<longleftrightarrow>
     sc_full_loss_mask c ! i = 1 \<and>
     (case sc_full_versions c of
        None \<Rightarrow> True
      | Some vs \<Rightarrow> nonlast \<and> has_token_level_partial_rollout (sc_full_loss_mask c) vs \<longrightarrow>
          is_real_output_version (vs ! i) \<and> vs ! i = last (trainable_output_versions (sc_full_loss_mask c) vs))"

definition trained_positions :: "sample_object \<Rightarrow> nat set" where
  "trained_positions s =
     (let start = length (so_tokens s) - so_response_length s
      in {i. start \<le> i \<and> i < length (so_tokens s) \<and> so_loss_mask s ! (i - start) = 1})"

lemma train_loss_mask_length: "columns_ok c \<Longrightarrow> length (train_loss_mask nonlast c) = length (sc_tokens c)"
  by (auto simp: columns_ok_def train_loss_mask_def mask_nonlast_version_tokens_def Let_def split: option.split)

lemma train_loss_mask_nth:
  assumes "columns_ok c" "i < length (sc_tokens c)"
  shows "train_loss_mask nonlast c ! i = 1 \<longleftrightarrow> trains_token nonlast c i"
  using assms
  by (auto simp: columns_ok_def train_loss_mask_def mask_nonlast_version_tokens_def trains_token_def has_token_level_partial_rollout_def Let_def
      split: option.split)

lemma train_loss_mask_values: "columns_ok c \<Longrightarrow> set (train_loss_mask nonlast c) \<subseteq> {0, 1}"
  by (auto simp: columns_ok_def train_loss_mask_def mask_nonlast_version_tokens_def Let_def split: option.splits if_splits dest!: set_zip_leftD)

lemma before_response: "i < response_start lmask \<Longrightarrow> lmask ! i \<noteq> 1"
  unfolding response_start_def using nth_length_takeWhile nth_mem [of i "takeWhile (\<lambda>v. v \<noteq> 1) lmask"] takeWhile_nth [of i "\<lambda>v. v \<noteq> 1" lmask]
  by (auto dest: set_takeWhileD)

lemma response_start_le: "response_start lmask \<le> length lmask"
  by (simp add: response_start_def length_takeWhile_le)

lemma filled_sample_simps [simp]:
  "so_tokens (filled_sample lib seg nonlast c response layouts experts md s) = sc_tokens c"
  "so_response_length (filled_sample lib seg nonlast c response layouts experts md s) = response_length_of c"
  "so_loss_mask (filled_sample lib seg nonlast c response layouts experts md s) = response_mask nonlast c"
  "so_rollout_log_probs (filled_sample lib seg nonlast c response layouts experts md s) = response_logprobs c"
  "so_reward (filled_sample lib seg nonlast c response layouts experts md s) = so_reward s"
  "so_rollout_id (filled_sample lib seg nonlast c response layouts experts md s) = so_rollout_id s"
  "so_remove_sample (filled_sample lib seg nonlast c response layouts experts md s) = so_remove_sample s"
  "so_group_index (filled_sample lib seg nonlast c response layouts experts md s) = so_group_index s"
  by (simp_all add: filled_sample_def)

lemma fill_sample_is:
  assumes "fill_sample lib args seg all_segments sid iid agent_response truncated nonlast c s = Inr s'"
  shows "\<exists>response layouts experts md. s' = filled_sample lib seg nonlast c response layouts experts md s"
  using assms by (auto simp: fill_sample_def rbind_eq_Inr split: if_splits)

lemma capped_versions: "sc_full_versions (capped_columns args c) = None \<longleftrightarrow> sc_full_versions c = None"
  by (simp add: capped_columns_def truncate_columns_def)

text \<open>
  C39.  A sample trains exactly the tokens it should.  Its tokens are those of the segment, cut at the
  token cap; its loss mask and its log probabilities, when they are local, have one entry per
  token of the response; the mask holds zeros and ones; and the positions it trains are exactly those
  whose mask the segment sets, restricted to the last weight version where the segment asks for
  that and its trained tokens span several versions.
\<close>

theorem sample_trains_masked_tokens:
  assumes "write_sample_from_segment lib args seg all_segments sid iid agent_response s = Inr s'"
  shows "\<exists>c nonlast. columns_ok c \<and> so_tokens s' = sc_tokens c \<and> length (so_loss_mask s') = so_response_length s' \<and>
    so_response_length s' \<le> length (so_tokens s') \<and> set (so_loss_mask s') \<subseteq> {0, 1} \<and>
    (\<forall>xs. so_rollout_log_probs s' = Some xs \<longrightarrow> length xs = so_response_length s') \<and>
    trained_positions s' = {i. i < length (sc_tokens c) \<and> trains_token nonlast c i} \<and>
    (\<exists>c0. segment_arrays lib seg = Inr c0 \<and> c = capped_columns args c0) \<and>
    (sc_full_versions c \<noteq> None \<longrightarrow> segment_masks_nonlast_version_tokens seg = Inr nonlast)"
proof -
  obtain c0 nonlast where c0: "segment_arrays lib seg = Inr c0"
    and nl: "sc_full_versions c0 \<noteq> None \<longrightarrow> segment_masks_nonlast_version_tokens seg = Inr nonlast"
    and filled: "fill_sample lib args seg all_segments sid iid agent_response (exceeds_cap args c0) nonlast (capped_columns args c0) s = Inr s'"
    using assms by (auto simp: write_sample_from_segment_def rbind_eq_Inr split: if_splits)
  let ?c = "capped_columns args c0"
  obtain response layouts experts md where "s' = filled_sample lib seg nonlast ?c response layouts experts md s" using fill_sample_is [OF filled] by blast
  then have s': "so_tokens s' = sc_tokens ?c" "so_response_length s' = length (sc_tokens ?c) - response_start (sc_full_loss_mask ?c)"
    "so_loss_mask s' = drop (response_start (sc_full_loss_mask ?c)) (train_loss_mask nonlast ?c)" "so_rollout_log_probs s' = response_logprobs ?c"
    by (simp_all add: response_length_of_def response_mask_def)
  let ?start = "response_start (sc_full_loss_mask ?c)"
  have ok: "columns_ok ?c" using segment_arrays_ok [OF c0] capped_columns_ok by blast
  have start: "?start \<le> length (sc_tokens ?c)" using response_start_le [of "sc_full_loss_mask ?c"] ok by (simp add: columns_ok_def)
  have len: "length (train_loss_mask nonlast ?c) = length (sc_tokens ?c)" by (rule train_loss_mask_length [OF ok])
  have early: "\<not> trains_token nonlast ?c i" if "i < ?start" for i using before_response [OF that] by (simp add: trains_token_def)
  have "trained_positions s' = {i. i < length (sc_tokens ?c) \<and> trains_token nonlast ?c i}"
  proof (intro set_eqI iffI)
    fix i
    assume "i \<in> trained_positions s'"
    then have i: "?start \<le> i" "i < length (sc_tokens ?c)" "train_loss_mask nonlast ?c ! i = 1"
      using s' start len by (auto simp: trained_positions_def Let_def)
    then show "i \<in> {i. i < length (sc_tokens ?c) \<and> trains_token nonlast ?c i}" using train_loss_mask_nth [OF ok i(2)] by simp
  next
    fix i
    assume "i \<in> {i. i < length (sc_tokens ?c) \<and> trains_token nonlast ?c i}"
    then have "i < length (sc_tokens ?c)" "train_loss_mask nonlast ?c ! i = 1" "?start \<le> i"
      using train_loss_mask_nth [OF ok] early by (auto simp: not_less [symmetric])
    then show "i \<in> trained_positions s'" using s' start len by (auto simp: trained_positions_def Let_def)
  qed
  moreover have "set (so_loss_mask s') \<subseteq> {0, 1}"
    using s' train_loss_mask_values [OF ok, of nonlast] by (auto simp: Let_def dest!: in_set_dropD)
  moreover have "\<forall>xs. so_rollout_log_probs s' = Some xs \<longrightarrow> length xs = so_response_length s'"
    using s' ok by (auto simp: response_logprobs_def columns_ok_def split: logprob_column.splits)
  moreover have "length (so_loss_mask s') = so_response_length s'" "so_response_length s' \<le> length (so_tokens s')" "so_tokens s' = sc_tokens ?c"
    using s' len by (auto simp: Let_def)
  ultimately show ?thesis using ok c0 nl capped_versions [of args c0] by (intro exI [of _ ?c] exI [of _ nonlast]) auto
qed



section \<open>An expanded trajectory\<close>

text \<open>What one element of the expansion is, given whether another one follows.\<close>

definition expanded_from :: "sample_object \<Rightarrow> string option \<Rightarrow> int \<Rightarrow> bool \<Rightarrow> sample_object \<Rightarrow> bool" where
  "expanded_from template sid i final s \<longleftrightarrow>
     so_rollout_id s = so_index template \<and> so_group_index s = so_group_index template \<and> so_remove_sample s = so_remove_sample template \<and>
     pget (so_metadata s) ''parent_traj_id'' = text_value sid \<and> pget (so_metadata s) ''segment_index'' = PInt i \<and>
     so_reward s = (if final then so_reward template else PFloat (Fin 0))"

lemma written_fields:
  assumes "write_sample_from_segment lib args seg all_segments sid iid agent_response s = Inr s'"
  shows "so_reward s' = so_reward s \<and> so_rollout_id s' = so_rollout_id s \<and> so_remove_sample s' = so_remove_sample s \<and> so_group_index s' = so_group_index s"
proof -
  obtain c nonlast t where "fill_sample lib args seg all_segments sid iid agent_response t nonlast c s = Inr s'"
    using assms by (auto simp: write_sample_from_segment_def rbind_eq_Inr)
  from fill_sample_is [OF this] show ?thesis by auto
qed

lemma expand_sorted_elements:
  assumes "expand_sorted lib args all_segments sid iid agent_response template keyed = Inr out"
  shows "length out = length keyed \<and> (\<forall>k < length out. expanded_from template sid (fst (keyed ! k)) (Suc k = length out) (out ! k))"
  using assms
proof (induction keyed arbitrary: out)
  case (Cons x rest)
  obtain i seg where x: "x = (i, seg)" by (cases x)
  obtain s ss where s: "write_sample_from_segment lib args seg all_segments sid iid agent_response (template\<lparr>so_rollout_id := so_index template\<rparr>) = Inr s"
    and ss: "expand_sorted lib args all_segments sid iid agent_response template rest = Inr ss"
    and out: "out = (let s = s\<lparr>so_metadata := dset ''segment_index'' (PInt i) (dset ''parent_traj_id'' (text_value sid) (so_metadata s))\<rparr>
       in if rest \<noteq> [] then s\<lparr>so_reward := PFloat (Fin 0)\<rparr> else s) # ss"
    using Cons.prems by (auto simp: x rbind_eq_Inr Let_def)
  have IH: "length ss = length rest" "\<forall>k < length ss. expanded_from template sid (fst (rest ! k)) (Suc k = length ss) (ss ! k)"
    using Cons.IH [OF ss] by auto
  have hd: "expanded_from template sid i (ss = []) (hd out)"
    using written_fields [OF s] IH(1) by (auto simp: out expanded_from_def pget_def Let_def)
  show ?case
  proof (intro conjI allI impI)
    show "length out = length (x # rest)" using IH(1) by (simp add: out)
    show "expanded_from template sid (fst ((x # rest) ! k)) (Suc k = length out) (out ! k)" if "k < length out" for k
    proof (cases k)
      case 0
      then show ?thesis using hd by (cases ss) (simp_all add: out x)
    next
      case (Suc j)
      then show ?thesis using that IH(2) by (simp add: out)
    qed
  qed
qed simp

lemma expand_segments_elements:
  assumes "expand_segments_to_samples lib args agent_response session_id instance_id template segments = Inr out"
  defines "sid \<equiv> (if session_id \<noteq> None then session_id else so_session_id template)"
  shows "\<exists>ks. length out = length segments \<and> out \<noteq> [] \<and> length ks = length out \<and> sorted_wrt (<) ks \<and>
    rmap segment_order segments = Inr (map (\<lambda>s. projr (segment_order s)) segments) \<and>
    mset ks = mset (map (\<lambda>s. projr (segment_order s)) segments) \<and>
    (\<forall>k < length out. expanded_from template sid (ks ! k) (Suc k = length out) (out ! k))"
proof -
  obtain ks where ks: "rmap segment_order segments = Inr ks" "distinct (map fst (sort_key fst (zip ks segments)))" and ne: "segments \<noteq> []"
    and out: "\<exists>iid. expand_sorted lib args (map snd (sort_key fst (zip ks segments))) sid iid agent_response template (sort_key fst (zip ks segments)) = Inr out"
    using assms(1) by (auto simp: expand_segments_to_samples_def sid_def rbind_eq_Inr Let_def split: if_splits)
  let ?keyed = "sort_key fst (zip ks segments)"
  have all2: "list_all2 (\<lambda>s k. segment_order s = Inr k) segments ks" using ks(1) by (simp add: rmap_eq_Inr_iff)
  then have len: "length ks = length segments" by (simp add: list_all2_lengthD)
  have eq: "ks = map (\<lambda>s. projr (segment_order s)) segments" using all2 by (auto simp: list_all2_conv_all_nth intro: nth_equalityI)
  have "mset (map fst ?keyed) = image_mset fst (mset (zip ks segments))" by simp
  also have "\<dots> = mset ks" using len by (metis map_fst_zip mset_map)
  finally have mset: "mset (map fst ?keyed) = mset ks" .
  have "sorted (map fst ?keyed)" by simp
  then have "sorted_wrt (<) (map fst ?keyed)" using ks(2) unfolding strict_sorted_iff by blast
  moreover obtain iid where "expand_sorted lib args (map snd ?keyed) sid iid agent_response template ?keyed = Inr out" using out by blast
  note expand_sorted_elements [OF this]
  moreover have "length ?keyed = length segments" using len by simp
  ultimately show ?thesis using ks(1) eq mset ne by (intro exI [of _ "map fst ?keyed"]) auto
qed

text \<open>
  A trajectory expands into one sample per segment, in the strictly increasing order of the segment
  indices.  All of them belong to the rollout of the template and name the same parent
  trajectory; only the last one keeps the reward of the template, the others get zero.
\<close>

theorem expansion_of_trajectory:
  assumes "expand_segments_to_samples lib args agent_response session_id instance_id template segments = Inr out"
  shows "\<exists>ks. length out = length segments \<and> length ks = length out \<and> sorted_wrt (<) ks \<and>
    mset ks = mset (map (\<lambda>s. projr (segment_order s)) segments) \<and>
    (\<forall>k < length out. so_rollout_id (out ! k) = so_index template \<and> pget (so_metadata (out ! k)) ''segment_index'' = PInt (ks ! k) \<and>
       pget (so_metadata (out ! k)) ''parent_traj_id'' = text_value (if session_id \<noteq> None then session_id else so_session_id template) \<and>
       so_reward (out ! k) = (if Suc k = length out then so_reward template else PFloat (Fin 0)))"
  using expand_segments_elements [OF assms] unfolding expanded_from_def by blast

text \<open>The sample as the reward hook reads it.\<close>

definition trains_as :: "sample_object \<Rightarrow> train_sample \<Rightarrow> bool" where
  "trains_as s t \<longleftrightarrow>
     ts_remove_sample t = so_remove_sample s \<and> ts_group_index t = so_group_index s \<and> ts_reward t = so_reward s \<and>
     text_value (ts_parent_traj_id t) = pget (so_metadata s) ''parent_traj_id'' \<and> PInt (ts_segment_index t) = pget (so_metadata s) ''segment_index''"

lemma text_value_inject [simp]: "text_value a = text_value b \<longleftrightarrow> a = b"
  by (auto simp: text_value_def split: option.splits)

lemma expanded_representative:
  assumes out: "expand_segments_to_samples lib args agent_response (Some (c # cs)) instance_id template segments = Inr out" "\<not> so_remove_sample template"
    and views: "list_all2 trains_as out views" and others: "\<forall>t \<in> set (before @ after). ts_parent_traj_id t \<noteq> Some (c # cs)" and k: "k < length out"
  shows "in_trajectory (before @ views @ after) (length before + k)" "representative (before @ views @ after) (length before + k) = length before + (length out - 1)"
proof -
  let ?B = "before @ views @ after" and ?n = "length before"
  obtain ks where ks: "length ks = length out" "sorted_wrt (<) ks"
    and el: "\<forall>k < length out. expanded_from template (Some (c # cs)) (ks ! k) (Suc k = length out) (out ! k)"
    using expand_segments_elements [OF out(1)] by auto
  have len: "length views = length out" using views by (simp add: list_all2_lengthD)
  have view: "?B ! (?n + j) = views ! j" "\<not> ts_remove_sample (views ! j)" "ts_parent_traj_id (views ! j) = Some (c # cs)" "ts_segment_index (views ! j) = ks ! j"
    if "j < length out" for j
  proof -
    have "trains_as (out ! j) (views ! j)" using views that by (simp add: list_all2_conv_all_nth)
    moreover have "expanded_from template (Some (c # cs)) (ks ! j) (Suc j = length out) (out ! j)" using el that by blast
    ultimately show "\<not> ts_remove_sample (views ! j)" "ts_parent_traj_id (views ! j) = Some (c # cs)" "ts_segment_index (views ! j) = ks ! j"
      using out(2) text_value_inject [of _ "Some (c # cs)"] by (auto simp: trains_as_def expanded_from_def)
    show "?B ! (?n + j) = views ! j" using that len by (simp add: nth_append)
  qed
  have mine: "in_trajectory ?B (?n + j)" "parent_of (?B ! (?n + j)) = Some (c # cs)" if "j < length out" for j
    using view [OF that] by (simp_all add: in_trajectory_def parent_of_def)
  show "in_trajectory ?B (?n + k)" using mine(1) [OF k] .
  let ?r = "representative ?B (?n + k)" and ?m = "length out - 1"
  have m: "?m < length out" using k by simp
  have bound: "?n + k < length ?B" "?n + ?m < length ?B" using k len by simp_all
  note max = representative_max [OF bound(1) mine(1) [OF k] bound(2) mine(1) [OF m]]
  have par: "parent_of (?B ! (?n + k)) = parent_of (?B ! (?n + ?m))" by (simp only: mine(2) [OF k] mine(2) [OF m])
  have r: "?r < length ?B" "parent_of (?B ! ?r) = Some (c # cs)"
    using representative_in [OF bound(1) mine(1) [OF k]] mine(2) [OF k] by (simp_all add: mem_trajectory_members)
  have "ts_parent_traj_id (?B ! ?r) = Some (c # cs)" using r(2) by (auto simp: parent_of_def split: option.splits list.splits)
  then have "?B ! ?r \<notin> set before" "?B ! ?r \<notin> set after" using others by auto
  moreover have "x < ?n \<Longrightarrow> ?B ! x \<in> set before" "?n + length views \<le> x \<Longrightarrow> x < length ?B \<Longrightarrow> ?B ! x \<in> set after" for x
    by (auto simp: nth_append)
  ultimately have "?n \<le> ?r" "?r < ?n + length views" using r(1) by (meson not_le)+
  then obtain j where j: "?r = ?n + j" "j < length out" using len by (metis add_less_cancel_left le_iff_add)
  have "ks ! ?m \<le> ks ! j" using max(3) [OF par] view(4) [OF m] view(4) [OF j(2)] view(1) [OF m] view(1) [OF j(2)] j(1) by simp
  moreover have "j < ?m \<Longrightarrow> ks ! j < ks ! ?m" using ks m by (simp add: sorted_wrt_nth_less)
  ultimately have "j = ?m" using j(2) by linarith
  then show "?r = ?n + ?m" using j(1) by simp
qed




section \<open>Failed samples\<close>

lemma given_text_some: "v \<noteq> PNone \<Longrightarrow> given_text x v \<noteq> PNone"
  by (auto simp: given_text_def split: option.split list.split)

lemma pget_of_dset: "pget (dset k v d) j = (if j = k then v else pget d j)"
  by (simp add: pget_def)

lemma pget_dpop: "pget (dpop k d) j = (if j = k then PNone else pget d j)"
  by (simp add: pget_def)

text \<open>
  A sample whose rollout failed can be trained without a gradient and retried with a new session: after
  marking it is removed from the loss, it names a parent trajectory and an instance, as the conversion to train data
  demands, it holds no session any more, and the session that died, if there was one, is kept
  for the logs.  Names it already had stay.
\<close>

theorem aborted_sample_identified:
  fixes object :: string and session_id instance_id :: "string option" and s :: sample_object
  defines "s' \<equiv> mark_aborted_no_grad object session_id instance_id s"
  shows "so_remove_sample s' \<and> so_session_id s' = None \<and> pget (so_metadata s') ''session_id'' = PNone \<and>
    pget (so_metadata s') ''parent_traj_id'' \<noteq> PNone \<and> pget (so_metadata s') ''instance_id'' \<noteq> PNone \<and>
    (\<forall>k \<in> {''parent_traj_id'', ''instance_id''}. pget (so_metadata s) k \<noteq> PNone \<longrightarrow> pget (so_metadata s') k = pget (so_metadata s) k) \<and>
    (\<forall>c cs. session_id = Some (c # cs) \<longrightarrow> pget (so_metadata s') ''last_failed_session_id'' = PStr (c # cs))"
proof -
  let ?parent = "given_text session_id (given_text instance_id (PStr (''aborted-'' @ object)))"
  define md1 where "md1 = (if pget (so_metadata s) ''parent_traj_id'' = PNone then dset ''parent_traj_id'' ?parent (so_metadata s) else so_metadata s)"
  define md2 where "md2 = (if pget md1 ''instance_id'' = PNone then dset ''instance_id'' (given_text instance_id (pget md1 ''parent_traj_id'')) md1 else md1)"
  define dead where "dead = given_text session_id (py_or (pget md2 ''session_id'') (text_value (so_session_id s)))"
  define md3 where "md3 = (if dead \<noteq> PNone then dset ''last_failed_session_id'' dead md2 else md2)"
  have s': "so_metadata s' = dpop ''session_id'' md3" "so_remove_sample s'" "so_session_id s' = None"
    by (simp_all add: s'_def mark_aborted_no_grad_def md1_def md2_def md3_def dead_def Let_def)
  have parent: "pget md1 ''parent_traj_id'' \<noteq> PNone" by (simp add: md1_def pget_of_dset given_text_some)
  have keys: "pget (so_metadata s') ''parent_traj_id'' = pget md1 ''parent_traj_id''" "pget (so_metadata s') ''instance_id'' = pget md2 ''instance_id''"
    "pget (so_metadata s') ''session_id'' = PNone"
    by (simp_all add: s'(1) pget_dpop) (simp_all add: md3_def md2_def pget_of_dset)
  have "pget md2 ''instance_id'' \<noteq> PNone" using parent by (simp add: md2_def pget_of_dset given_text_some)
  moreover have "pget (so_metadata s) ''parent_traj_id'' \<noteq> PNone \<Longrightarrow> pget md1 ''parent_traj_id'' = pget (so_metadata s) ''parent_traj_id''" by (simp add: md1_def)
  moreover have "pget (so_metadata s) ''instance_id'' \<noteq> PNone \<Longrightarrow> pget md2 ''instance_id'' = pget (so_metadata s) ''instance_id''"
    by (simp add: md2_def md1_def pget_of_dset)
  moreover have "pget (so_metadata s') ''last_failed_session_id'' = PStr (c # cs)" if "session_id = Some (c # cs)" for c cs
    using that by (simp add: s'(1) pget_dpop md3_def dead_def given_text_def pget_of_dset)
  ultimately show ?thesis using s' keys parent by auto
qed


section \<open>Paths of artifacts\<close>

lemma strip_by_ends: "strip_by p s \<noteq> [] \<Longrightarrow> \<not> p (hd (strip_by p s)) \<and> \<not> p (last (strip_by p s)) \<and> set (strip_by p s) \<subseteq> set s"
proof -
  assume ne: "strip_by p s \<noteq> []"
  let ?l = "dropWhile p s"
  have l2: "dropWhile p (rev ?l) \<noteq> []" using ne by (simp add: strip_by_def lstrip_by_def rstrip_by_def del: dropWhile_eq_Nil_conv)
  moreover from this have "?l \<noteq> []" by (cases ?l) auto
  ultimately have l: "?l \<noteq> []" "dropWhile p (rev ?l) \<noteq> []" by (simp_all del: dropWhile_eq_Nil_conv)
  have "last (strip_by p s) = hd (dropWhile p (rev ?l))" by (simp add: strip_by_def lstrip_by_def rstrip_by_def last_rev)
  then have "\<not> p (last (strip_by p s))" using hd_dropWhile [OF l(2)] by simp
  moreover have "hd (strip_by p s) = hd ?l"
  proof -
    have "suffix (dropWhile p (rev ?l)) (rev ?l)" by (rule suffix_dropWhile)
    then obtain zs where "rev ?l = zs @ dropWhile p (rev ?l)" by (auto simp: suffix_def)
    then have "?l = rev (dropWhile p (rev ?l)) @ rev zs" by (metis rev_append rev_rev_ident)
    then show ?thesis using l(2) by (metis hd_append2 lstrip_by_def rev_is_Nil_conv rstrip_by_def strip_by_def)
  qed
  then have "\<not> p (hd (strip_by p s))" using hd_dropWhile [of p s] l(1) by simp
  moreover have "set (strip_by p s) \<subseteq> set s"
    by (auto simp: strip_by_def lstrip_by_def rstrip_by_def dest!: set_dropWhileD)
  ultimately show ?thesis by blast
qed

text \<open>
  Log files cannot leave their directory: whatever the session, instance or segment index of a
  trajectory looks like, every component of the path of an artifact is a non-empty name of letters,
  digits, dots, underscores and dashes that starts with neither a dot nor an underscore; in particular it is
  no separator, and neither the current nor the parent directory.
\<close>

theorem artifact_paths_confined:
  "list_all (\<lambda>part. part \<noteq> [] \<and> list_all file_name_char part \<and> hd part \<notin> {CHR ''.'', CHR ''_''} \<and> CHR ''/'' \<notin> set part \<and> part \<noteq> ''.'' \<and> part \<noteq> ''..'')
     (segment_sample_path lib session_id instance_id seg)"
proof -
  let ?dot = "\<lambda>c. c = CHR ''.'' \<or> c = CHR ''_''"
  have safe: "safe_filename_part t \<noteq> [] \<and> list_all file_name_char (safe_filename_part t) \<and> hd (safe_filename_part t) \<notin> {CHR ''.'', CHR ''_''}" for t
  proof -
    let ?m = "map (\<lambda>c. if file_name_char c then c else CHR ''_'') t"
    have m: "list_all file_name_char ?m" by (auto simp: list_all_iff file_name_char_def)
    have "list_all file_name_char ''unknown''" by (simp add: file_name_char_def is_alnum_def)
    moreover have "list_all file_name_char (strip_by ?dot ?m)" "hd (strip_by ?dot ?m) \<notin> {CHR ''.'', CHR ''_''}" if "strip_by ?dot ?m \<noteq> []"
      using strip_by_ends [OF that] m unfolding list_all_iff by blast+
    ultimately show ?thesis by (cases "strip_by ?dot ?m = []") (simp_all add: safe_filename_part_def Let_def)
  qed
  have noslash: "\<not> file_name_char (CHR ''/'')" by (simp add: file_name_char_def is_alnum_def)
  have fixed: "list_all file_name_char ''.json''" "list_all file_name_char ''samples''" by (simp_all add: file_name_char_def is_alnum_def)
  have "part \<noteq> [] \<and> list_all file_name_char part \<and> hd part \<notin> {CHR ''.'', CHR ''_''}" if "part \<in> set (segment_sample_path lib session_id instance_id seg)" for part
  proof -
    from that consider "\<exists>t. part = safe_filename_part t" | "part = ''samples''" | "\<exists>t. part = safe_filename_part t @ ''.json''"
      by (auto simp: segment_sample_path_def rollout_log_dir_def)
    then show ?thesis
    proof cases
      case 3
      then obtain t where "part = safe_filename_part t @ ''.json''" by blast
      then show ?thesis using safe [of t] fixed by (cases "safe_filename_part t") simp_all
    qed (use safe fixed in auto)
  qed
  moreover have "CHR ''/'' \<notin> set part \<and> part \<noteq> ''.'' \<and> part \<noteq> ''..''" if "list_all file_name_char part" "hd part \<notin> {CHR ''.'', CHR ''_''}" for part
    using that noslash by (auto simp: list_all_iff)
  ultimately show ?thesis unfolding list_all_iff by blast
qed



section \<open>A trajectory of two segments\<close>

definition sample_expand_lib :: expand_lib where
  "sample_expand_lib = \<lparr>json_loads = (\<lambda>_. None), json_dumps = (\<lambda>_. []), py_repr = (\<lambda>_. []), sha256_hex = (\<lambda>s. s), text_float = (\<lambda>_. None),
     chunk_rows = (\<lambda>_ _ _ _. Inr [])\<rparr>"

definition sample_expand_args :: expand_args where
  "sample_expand_args = \<lparr>ea_num_layers = None, ea_moe_router_topk = None, ea_use_rollout_routing_replay = False, ea_max_tokens_per_gpu = None,
     ea_context_parallel_size = None, ea_cp_size = 1\<rparr>"

definition sample_published :: "int \<Rightarrow> (string, pyval) dict" where
  "sample_published i = [(''segment_index'', PInt i), (''tokens'', PList [PInt 5, PInt 6, PInt 7]), (''full_loss_mask'', PList [PInt 0, PInt 1, PInt 1]),
     (''full_logprobs'', PList [PInt 0, PInt 0, PInt 0]), (''full_versions'', PList [PStr ''-1'', PStr ''1'', PStr ''2'']),
     (''extra_info'', PDict [(''mask_nonlast_version_tokens'', PBool True)])]"

definition sample_template :: sample_object where
  "sample_template = \<lparr>so_index = Some 4, so_group_index = Some 0, so_session_id = None, so_rollout_id = None, so_tokens = [], so_response_length = 0,
     so_loss_mask = [], so_rollout_log_probs = None, so_rollout_routed_experts = None, so_response = [], so_reward = PNone, so_status = [],
     so_remove_sample = False, so_metadata = []\<rparr>"

definition sample_written_segment :: "sample_object result" where
  "sample_written_segment = write_sample_from_segment sample_expand_lib sample_expand_args (sample_published 0) [sample_published 0] (Some ''s'') (PStr ''i'') [] sample_template"

definition sample_expanded :: "sample_object list result" where
  "sample_expanded = expand_segments_to_samples sample_expand_lib sample_expand_args [] (Some ''s'') (Some ''i'') sample_template [sample_published 1, sample_published 0]"

lemma sample_written_ok: "\<not> isl sample_written_segment" "so_tokens (projr sample_written_segment) = [PInt 5, PInt 6, PInt 7]"
  "so_loss_mask (projr sample_written_segment) = [0, 1]" "so_response_length (projr sample_written_segment) = 2"
  by code_simp+

lemma sample_expanded_ok: "\<not> isl sample_expanded" "length (projr sample_expanded) = 2"
  by code_simp+


lemma projr_ok: "\<not> isl x \<Longrightarrow> x = Inr (projr x)"
  by (cases x) auto

theorem sample_trains_masked_tokens_witness:
  "trained_positions (projr sample_written_segment) = {2} \<and>
   (\<exists>c nonlast. columns_ok c \<and> so_tokens (projr sample_written_segment) = sc_tokens c \<and>
     trained_positions (projr sample_written_segment) = {i. i < length (sc_tokens c) \<and> trains_token nonlast c i})"
proof -
  note ok = projr_ok [OF sample_written_ok(1)]
  have "{i. 1 \<le> i \<and> i < 3 \<and> [0, 1 :: int] ! (i - 1) = 1} = {2 :: nat}" by (auto simp: less_Suc_eq nth_Cons' numeral_eq_Suc)
  then have "trained_positions (projr sample_written_segment) = {2}" by (simp add: trained_positions_def sample_written_ok Let_def numeral_eq_Suc)
  then show ?thesis using sample_trains_masked_tokens [OF ok [unfolded sample_written_segment_def]] unfolding sample_written_segment_def by blast
qed

theorem expansion_of_trajectory_witness:
  "length (projr sample_expanded) = 2 \<and> so_reward (projr sample_expanded ! 0) = PFloat (Fin 0) \<and> so_reward (projr sample_expanded ! 1) = PNone"
  using expansion_of_trajectory [OF projr_ok [OF sample_expanded_ok(1), unfolded sample_expanded_def]] sample_expanded_ok(2)
  unfolding sample_expanded_def [symmetric] by (auto simp: sample_template_def)

definition sample_view :: "int \<Rightarrow> pyval \<Rightarrow> train_sample" where
  "sample_view i r = plain_sample\<lparr>ts_parent_traj_id := Some ''s'', ts_segment_index := i, ts_reward := r\<rparr>"


theorem aborted_sample_identified_witness:
  "pget (so_metadata (mark_aborted_no_grad [] (Some ''s'') None sample_template)) ''last_failed_session_id'' = PStr ''s'' \<and>
   pget (so_metadata (mark_aborted_no_grad [] (Some ''s'') None sample_template)) ''instance_id'' \<noteq> PNone"
  using aborted_sample_identified [of "[]" "Some ''s''" None sample_template] by simp

end
