(* ===== verification/Partial_Rollout.thy ===== *)
theory Partial_Rollout
  imports Async_Rollout
begin

text \<open>
  The partially asynchronous rollout (\<open>dressage/rollout/partial_async_rollout.py\<close>): how many groups a call
  returns, the annotations of submitted and returned groups, the collecting loop with its counters, and what happens
  to groups that were drained beyond the batch.

  The arguments of the program are a dictionary of attributes and the environment a dictionary of
  strings.  As in \<open>Async_Rollout\<close> the loop runs over the list of polls; log messages, the
  no-progress clock and the texts of failures are not modelled.  The worker is in \<open>Rollout_Worker\<close>.

  The lemmas show that the target covers what the trainer needs and no group more, and that the loop is the
  loop of the fully asynchronous rollout up to the annotations, so that its batches have the same
  properties while the groups left over are handed back instead of being lost.
\<close>

section \<open>Settings\<close>

definition int_attr :: "(string, pyval) dict \<Rightarrow> string \<Rightarrow> int \<Rightarrow> int result" where
  "int_attr args name dflt =
     (let v = (case dget args name of Some v \<Rightarrow> if truthy v then v else PInt dflt | None \<Rightarrow> PInt dflt)
      in case py_int v of
           Inr n \<Rightarrow> Inr n
         | Inl e \<Rightarrow> (case e of TypeError _ \<Rightarrow> Inr dflt | ValueError _ \<Rightarrow> Inr dflt | _ \<Rightarrow> Inl e))"

definition env_int :: "(string, string) dict \<Rightarrow> string \<Rightarrow> int option result" where
  "env_int env name =
     (case dget env name of
        None \<Rightarrow> Inr None
      | Some v \<Rightarrow>
          if v = [] then Inr None
          else case parse_int v of Some n \<Rightarrow> Inr (Some n) | None \<Rightarrow> Inl (ValueError (name @ '' must be an integer'')))"

definition env_flag :: "(string, string) dict \<Rightarrow> string \<Rightarrow> bool \<Rightarrow> bool" where
  "env_flag env name dflt =
     (case dget env name of
        None \<Rightarrow> dflt
      | Some v \<Rightarrow> if v = [] then dflt else lower v \<notin> {''0'', ''false'', ''no'', ''off''})"

definition is_final_rollout :: "(string, pyval) dict \<Rightarrow> int \<Rightarrow> bool result" where
  "is_final_rollout args rollout_id =
     (case dget args ''num_rollout'' of
        None \<Rightarrow> Inr False
      | Some v \<Rightarrow>
          (case py_int v of
             Inr n \<Rightarrow> Inr (n \<le> rollout_id + 1)
           | Inl e \<Rightarrow> (case e of TypeError _ \<Rightarrow> Inr False | ValueError _ \<Rightarrow> Inr False | _ \<Rightarrow> Inl e)))"

definition should_drain_worker :: "(string, pyval) dict \<Rightarrow> (string, string) dict \<Rightarrow> int \<Rightarrow> bool result" where
  "should_drain_worker args env rollout_id =
     rbind (is_final_rollout args rollout_id) (\<lambda>final.
       Inr (final \<and> env_flag env ''DRESSAGE_DRAIN_PARTIAL_WORKER_ON_FINAL_ROLLOUT'' True))"

definition groups_for_samples :: "int \<Rightarrow> int \<Rightarrow> int \<Rightarrow> int" where
  "groups_for_samples batch n samples = max 1 (min batch (\<lceil>real_of_int (max 1 samples) / real_of_int n\<rceil>))"

definition partial_target_groups :: "(string, pyval) dict \<Rightarrow> (string, string) dict \<Rightarrow> int result" where
  "partial_target_groups args env =
     rbind (int_attr args ''rollout_batch_size'' 1) (\<lambda>b.
     rbind (int_attr args ''n_samples_per_prompt'' 1) (\<lambda>n.
     let rollout_batch_size = max 1 b; n_samples_per_prompt = max 1 n; full = rollout_batch_size * n_samples_per_prompt
     in rbind (env_int env ''DRESSAGE_PARTIAL_ROLLOUT_TARGET_GROUPS'') (\<lambda>target_groups.
       case target_groups of
         Some g \<Rightarrow> Inr (max 1 (min rollout_batch_size g))
       | None \<Rightarrow>
           rbind (env_int env ''DRESSAGE_PARTIAL_ROLLOUT_TARGET_SAMPLES'') (\<lambda>target_samples.
             case target_samples of
               Some s \<Rightarrow> Inr (groups_for_samples rollout_batch_size n_samples_per_prompt s)
             | None \<Rightarrow>
                 rbind (int_attr args ''global_batch_size'' full) (\<lambda>g.
                   Inr (groups_for_samples rollout_batch_size n_samples_per_prompt (if g < full then g else full)))))))"

section \<open>Annotations\<close>

definition annotate_submitted_group :: "int \<Rightarrow> int \<Rightarrow> rollout_sample list \<Rightarrow> rollout_sample list" where
  "annotate_submitted_group group_id rollout_id grp =
     map (\<lambda>s. s\<lparr>rs_metadata := Some (dset ''dressage_partial_rollout'' (PBool True) (dset ''dressage_async_group_id'' (PInt group_id)
                 (dsetdefault ''dressage_start_rollout_id'' (PInt rollout_id) (sample_metadata s))))\<rparr>) grp"

definition annotate_returned_group :: "int \<Rightarrow> int \<Rightarrow> rollout_sample list \<Rightarrow> rollout_sample list" where
  "annotate_returned_group group_id rollout_id grp =
     map (\<lambda>s. s\<lparr>rs_metadata := Some (dset ''dressage_partial_rollout_returned'' (PBool True) (dset ''dressage_return_async_group_id'' (PInt group_id)
                 (dset ''dressage_return_rollout_id'' (PInt rollout_id) (sample_metadata s))))\<rparr>) grp"

section \<open>Failures by staleness\<close>

text \<open>\<open>error_text\<close> is \<open>str\<close> on exceptions.\<close>

definition has_marker :: "string \<Rightarrow> bool" where
  "has_marker s = contains_str s ''partial_rollout_staleness_exceeded''"

fun contains_staleness_marker :: "py_lib \<Rightarrow> pyval \<Rightarrow> bool" where
  "contains_staleness_marker lib PNone = False"
| "contains_staleness_marker lib (PDict d) = list_ex (\<lambda>(k, v). has_marker k \<or> contains_staleness_marker lib v) d"
| "contains_staleness_marker lib (PList xs) = list_ex (contains_staleness_marker lib) xs"
| "contains_staleness_marker lib v = has_marker (py_str (py_repr lib) v)"

definition group_has_staleness_failure :: "py_lib \<Rightarrow> (exn \<Rightarrow> string) \<Rightarrow> rollout_sample list \<Rightarrow> exn option \<Rightarrow> bool" where
  "group_has_staleness_failure lib error_text grp error =
     (case error of
        Some e \<Rightarrow> if has_marker (error_text e) then True else list_ex (\<lambda>s. contains_staleness_marker lib (PDict (sample_metadata s))) grp
      | None \<Rightarrow> list_ex (\<lambda>s. contains_staleness_marker lib (PDict (sample_metadata s))) grp)"

section \<open>Collecting a partial batch\<close>

text \<open>The locals of \<open>generate_rollout_partial_async_impl\<close>: those it shares with the fully asynchronous loop, and its counters.\<close>

record partial_state =
  pa_rollout :: rollout_state
  pa_retried_groups :: nat
  pa_rejected_groups :: nat
  pa_rejected_samples :: nat

definition count_staleness :: "py_lib \<Rightarrow> (exn \<Rightarrow> string) \<Rightarrow> completed_group \<Rightarrow> partial_state \<Rightarrow> partial_state" where
  "count_staleness lib error_text c ps =
     (let failed_group = (case cg_result c of Some (s # ss) \<Rightarrow> s # ss | _ \<Rightarrow> cg_original_group c)
      in if group_has_staleness_failure lib error_text failed_group (cg_error c)
         then ps\<lparr>pa_rejected_groups := pa_rejected_groups ps + 1, pa_rejected_samples := pa_rejected_samples ps + length (cg_original_group c)\<rparr>
         else ps)"

definition partial_failed :: "py_lib \<Rightarrow> (exn \<Rightarrow> string) \<Rightarrow> rollout_config \<Rightarrow> completed_group \<Rightarrow> partial_state \<Rightarrow> partial_state result" where
  "partial_failed lib error_text cfg c ps0 =
     (let ps = count_staleness lib error_text c ps0; st = pa_rollout ps in
      rbind (retry_count (cg_original_group c)) (\<lambda>n.
        if n < rc_max_retries cfg
        then rbind (increment_retry (cg_original_group c)) (\<lambda>grp.
               Inr (ps\<lparr>pa_rollout := st\<lparr>ro_buffer := ro_buffer st @ [grp]\<rparr>, pa_retried_groups := pa_retried_groups ps + 1\<rparr>))
        else let st = st\<lparr>ro_dropped_failed_groups := ro_dropped_failed_groups st + 1\<rparr>
             in if int (ro_dropped_failed_groups st) \<ge> rc_max_dropped_failed_groups cfg
                then Inl (RuntimeError ''dropped too many failed groups'') else Inr (ps\<lparr>pa_rollout := st\<rparr>)))"

definition partial_completed ::
  "py_lib \<Rightarrow> (exn \<Rightarrow> string) \<Rightarrow> rollout_config \<Rightarrow> int \<Rightarrow> int \<Rightarrow> completed_group \<Rightarrow> partial_state \<Rightarrow> partial_state result" where
  "partial_completed lib error_text cfg rollout_id group_id c ps =
     (if is_failed c then partial_failed lib error_text cfg c ps
      else let grp = the (cg_result c); st = pa_rollout ps in
           rbind (keep_group lib grp (ro_filter st)) (\<lambda>(keep, gf).
             let st = st\<lparr>ro_filter := gf\<rparr>
             in Inr (ps\<lparr>pa_rollout := (if \<not> keep then st
                        else st\<lparr>ro_data := ro_data st @ [\<lparr>pg_group_id = group_id, pg_samples = annotate_returned_group group_id rollout_id grp\<rparr>]\<rparr>)\<rparr>)))"

fun partial_consume ::
  "py_lib \<Rightarrow> (exn \<Rightarrow> string) \<Rightarrow> rollout_config \<Rightarrow> int \<Rightarrow> int list \<Rightarrow> partial_state \<Rightarrow> partial_state result" where
  "partial_consume lib error_text cfg rollout_id [] ps = Inr ps"
| "partial_consume lib error_text cfg rollout_id (group_id # ids) ps =
     (let st = pa_rollout ps in
      if enough cfg st then Inr ps
      else case dget (ro_completed_by_id st) group_id of
             None \<Rightarrow> Inl (KeyError (show_int group_id))
           | Some c \<Rightarrow> rbind (partial_completed lib error_text cfg rollout_id group_id c
                                (ps\<lparr>pa_rollout := st\<lparr>ro_completed_by_id := dpop group_id (ro_completed_by_id st)\<rparr>\<rparr>))
                         (partial_consume lib error_text cfg rollout_id ids))"

definition partial_round ::
  "py_lib \<Rightarrow> (exn \<Rightarrow> string) \<Rightarrow> rollout_config \<Rightarrow> int \<Rightarrow> completed_group list \<Rightarrow> partial_state \<Rightarrow> partial_state result" where
  "partial_round lib error_text cfg rollout_id groups ps =
     rbind (observe_completed lib groups False (ro_filter (pa_rollout ps))) (\<lambda>(advanced, gf).
     rbind (refilter lib advanced ((pa_rollout ps)\<lparr>ro_filter := gf\<rparr>)) (\<lambda>st.
     let st = store_completed groups st
     in partial_consume lib error_text cfg rollout_id (dkeys (ro_completed_by_id st)) (ps\<lparr>pa_rollout := st\<rparr>)))"

fun partial_collect ::
  "py_lib \<Rightarrow> (exn \<Rightarrow> string) \<Rightarrow> rollout_config \<Rightarrow> int \<Rightarrow> completed_group list list \<Rightarrow> partial_state \<Rightarrow> partial_state result" where
  "partial_collect lib error_text cfg rollout_id [] ps = Inr ps"
| "partial_collect lib error_text cfg rollout_id (groups # polls) ps =
     (if enough cfg (pa_rollout ps) then Inr ps
      else rbind (partial_round lib error_text cfg rollout_id groups ps) (partial_collect lib error_text cfg rollout_id polls))"

definition initial_partial :: "staleness_tracker \<Rightarrow> partial_state" where
  "initial_partial t = \<lparr>pa_rollout = initial_state t, pa_retried_groups = 0, pa_rejected_groups = 0, pa_rejected_samples = 0\<rparr>"

text \<open>The groups that the call has drained and not used.\<close>

definition leftovers :: "partial_state \<Rightarrow> completed_group list" where
  "leftovers ps = map snd (ro_completed_by_id (pa_rollout ps))"

definition partial_config :: "(string, pyval) dict \<Rightarrow> (string, string) dict \<Rightarrow> rollout_config result" where
  "partial_config args env =
     rbind (partial_target_groups args env) (\<lambda>target.
     rbind (case dget env ''DRESSAGE_ROLLOUT_MAX_RETRIES'' of None \<Rightarrow> Inr 2 | Some v \<Rightarrow> py_int (PStr v)) (\<lambda>retries.
     rbind (case dget env ''DRESSAGE_ASYNC_MAX_DROPPED_FAILED_GROUPS'' of None \<Rightarrow> Inr (max (target * 10) 100) | Some v \<Rightarrow> py_int (PStr v)) (\<lambda>dropped.
       Inr \<lparr>rc_target_data_size = target, rc_max_retries = retries, rc_max_dropped_failed_groups = dropped,
            rc_allow_empty_train_batch =
              (case dget env ''DRESSAGE_ALLOW_EMPTY_TRAIN_BATCH'' of Some v \<Rightarrow> lower v \<in> {''1'', ''true'', ''yes''} | None \<Rightarrow> False)\<rparr>)))"

text \<open>
  The end of the call: the batch, the metrics of the rollout and the groups to hand back to the worker.  On the final
  rollout nothing is handed back; \<open>drained\<close> are the groups found in the queue when the worker was stopped, and
  \<open>queued\<close> is the length of the queue afterwards.
\<close>

definition partial_metrics :: "rollout_config \<Rightarrow> int \<Rightarrow> int \<Rightarrow> bool \<Rightarrow> nat \<Rightarrow> completed_group list \<Rightarrow> rollout_sample list list \<Rightarrow> partial_state \<Rightarrow> (string, real) dict" where
  "partial_metrics cfg full_groups n drain queued drained data_groups ps =
     [(''dressage/partial_rollout_target_groups'', of_int (rc_target_data_size cfg)),
      (''dressage/partial_rollout_target_samples'', of_int (rc_target_data_size cfg * n)),
      (''dressage/partial_rollout_full_groups'', of_int full_groups),
      (''dressage/partial_rollout_full_samples'', of_int (full_groups * n)),
      (''dressage/partial_rollout_returned_groups'', real (length data_groups)),
      (''dressage/partial_rollout_returned_samples'', real (sum_list (map length data_groups))),
      (''dressage/partial_rollout_retried_groups'', real (pa_retried_groups ps)),
      (''dressage/partial_rollout_failed_groups'', real (ro_dropped_failed_groups (pa_rollout ps))),
      (''dressage/partial_rollout_dropped_failed_groups'', real (ro_dropped_failed_groups (pa_rollout ps))),
      (''staleness/partial_rollout_rejected_groups'', real (pa_rejected_groups ps)),
      (''staleness/partial_rollout_rejected_samples'', real (pa_rejected_samples ps)),
      (''dressage/partial_rollout_queued_completed_groups'', real queued),
      (''dressage/partial_rollout_final_worker_drain'', if drain then 1 else 0),
      (''dressage/partial_rollout_drained_completed_groups'',
         if drain then real (length (leftovers ps) + length drained) else 0)]"

definition returned_leftovers :: "bool \<Rightarrow> partial_state \<Rightarrow> completed_group list" where
  "returned_leftovers drain ps = (if drain then [] else leftovers ps)"

definition finish_partial :: "py_lib \<Rightarrow> rollout_config \<Rightarrow> int \<Rightarrow> int \<Rightarrow> bool \<Rightarrow> nat \<Rightarrow> completed_group list \<Rightarrow> partial_state \<Rightarrow>
    (rollout_sample list list \<times> (string, real) dict) result" where
  "finish_partial lib cfg full_groups n drain queued drained ps =
     rbind (finish_batch lib cfg (pa_rollout ps)) (\<lambda>(data_groups, metrics).
       Inr (data_groups, metrics @ partial_metrics cfg full_groups n drain queued drained data_groups ps))"

section \<open>The target\<close>

lemma groups_for_samples_bounds:
  assumes "1 \<le> n"
  shows "1 \<le> groups_for_samples b n s" "1 \<le> b \<Longrightarrow> groups_for_samples b n s \<le> b"
    "s \<le> b * n \<Longrightarrow> s \<le> groups_for_samples b n s * n" "1 \<le> s \<Longrightarrow> (groups_for_samples b n s - 1) * n < s"
proof -
  let ?c = "\<lceil>real_of_int (max 1 s) / real_of_int n\<rceil>"
  have n: "0 < real_of_int n" using assms by simp
  have "real_of_int (max 1 s) / real_of_int n \<le> real_of_int ?c" by (rule le_of_int_ceiling)
  then have "real_of_int (max 1 s) \<le> real_of_int ?c * real_of_int n" by (simp only: pos_divide_le_eq [OF n])
  then have up: "max 1 s \<le> ?c * n" by (simp flip: of_int_mult)
  have "real_of_int (?c - 1) < real_of_int (max 1 s) / real_of_int n" by linarith
  then have "real_of_int (?c - 1) * real_of_int n < real_of_int (max 1 s)" by (simp only: pos_less_divide_eq [OF n])
  then have low: "(?c - 1) * n < max 1 s" by (metis of_int_less_iff of_int_mult)
  have c: "1 \<le> ?c" using n by (simp add: le_ceiling_iff)
  show "1 \<le> groups_for_samples b n s" "1 \<le> b \<Longrightarrow> groups_for_samples b n s \<le> b" by (simp_all add: groups_for_samples_def)
  show "s \<le> groups_for_samples b n s * n" if "s \<le> b * n"
  proof (cases "?c \<le> b")
    case True
    then show ?thesis using up c by (simp add: groups_for_samples_def)
  next
    case False
    have "b * n \<le> max 1 b * n" by (rule mult_right_mono) (use assms in simp_all)
    then show ?thesis using False that by (simp add: groups_for_samples_def)
  qed
  show "(groups_for_samples b n s - 1) * n < s" if "1 \<le> s"
  proof -
    have "groups_for_samples b n s \<le> ?c" using c by (simp add: groups_for_samples_def)
    then have "(groups_for_samples b n s - 1) * n \<le> (?c - 1) * n" using assms by (intro mult_right_mono) simp_all
    then show ?thesis using low that by simp
  qed
qed

text \<open>
  A call asks for no more groups than the rollout has and for at least one.  Unless the environment overrides it,
  the groups hold the samples of one training step, and one group less would not.
\<close>

theorem partial_target_covers_step:
  assumes "int_attr args ''rollout_batch_size'' 1 = Inr b" "int_attr args ''n_samples_per_prompt'' 1 = Inr n" "1 \<le> b" "1 \<le> n"
    and "partial_target_groups args env = Inr target"
  shows "1 \<le> target \<and> target \<le> b \<and>
    (env_int env ''DRESSAGE_PARTIAL_ROLLOUT_TARGET_GROUPS'' = Inr None \<and> env_int env ''DRESSAGE_PARTIAL_ROLLOUT_TARGET_SAMPLES'' = Inr None \<longrightarrow>
      (\<forall>g. int_attr args ''global_batch_size'' (b * n) = Inr g \<and> 1 \<le> g \<longrightarrow>
        min g (b * n) \<le> target * n \<and> (target - 1) * n < min g (b * n)))"
proof -
  have bn: "1 \<le> b * n" using assms(3,4) by (simp add: order_trans [OF _ mult_mono [of 1 b 1 n]])
  have big: "max 1 b = b" "max 1 n = n" using assms(3,4) by simp_all
  have "1 \<le> target \<and> target \<le> b"
    using assms(5) groups_for_samples_bounds(1,2) [OF assms(4)] assms(3)
    by (auto simp: partial_target_groups_def assms(1,2) big Let_def rbind_eq_Inr split: option.splits)
  moreover have "min g (b * n) \<le> target * n \<and> (target - 1) * n < min g (b * n)"
    if env: "env_int env ''DRESSAGE_PARTIAL_ROLLOUT_TARGET_GROUPS'' = Inr None" "env_int env ''DRESSAGE_PARTIAL_ROLLOUT_TARGET_SAMPLES'' = Inr None"
      and g: "int_attr args ''global_batch_size'' (b * n) = Inr g" "1 \<le> g" for g
  proof -
    have "target = groups_for_samples b n (min g (b * n))"
      using assms(5) env g(1) by (auto simp: partial_target_groups_def assms(1,2) big Let_def min_def)
    then show ?thesis using groups_for_samples_bounds(3,4) [OF assms(4), of "min g (b * n)" b] g(2) bn by simp
  qed
  ultimately show ?thesis by blast
qed

section \<open>The loop and its annotations\<close>

definition returned_group :: "int \<Rightarrow> pending_group \<Rightarrow> pending_group" where
  "returned_group rollout_id g = g\<lparr>pg_samples := annotate_returned_group (pg_group_id g) rollout_id (pg_samples g)\<rparr>"

definition with_returned :: "int \<Rightarrow> rollout_state \<Rightarrow> rollout_state" where
  "with_returned rollout_id st = st\<lparr>ro_data := map (returned_group rollout_id) (ro_data st)\<rparr>"

lemma with_returned_simps [simp]:
  "ro_filter (with_returned i st) = ro_filter st" "ro_completed_by_id (with_returned i st) = ro_completed_by_id st"
  "ro_buffer (with_returned i st) = ro_buffer st" "ro_dropped_failed_groups (with_returned i st) = ro_dropped_failed_groups st"
  "ro_data (with_returned i st) = map (returned_group i) (ro_data st)" "enough cfg (with_returned i st) = enough cfg st"
  by (simp_all add: with_returned_def enough_def)

lemma returned_metadata:
  "k \<notin> {''dressage_return_rollout_id'', ''dressage_return_async_group_id'', ''dressage_partial_rollout_returned''} \<Longrightarrow>
   dget (sample_metadata (s\<lparr>rs_metadata := Some (dset ''dressage_partial_rollout_returned'' a (dset ''dressage_return_async_group_id'' b
     (dset ''dressage_return_rollout_id'' c (sample_metadata s))))\<rparr>)) k = dget (sample_metadata s) k"
  by (simp add: sample_metadata_def)

lemma note_versions_returned:
  "note_versions lib order (annotate_returned_group g i grp) latest = note_versions lib order grp latest"
proof (induction grp arbitrary: order latest)
  case (Cons s ss)
  let ?s = "s\<lparr>rs_metadata := Some (dset ''dressage_partial_rollout_returned'' (PBool True) (dset ''dressage_return_async_group_id'' (PInt g)
     (dset ''dressage_return_rollout_id'' (PInt i) (sample_metadata s))))\<rparr>"
  have "trajectory_key lib ?s = trajectory_key lib s" by (simp add: trajectory_key_def pget_def returned_metadata)
  moreover have "segment_position ?s order = segment_position s order" by (simp add: segment_position_def metadata_int_def returned_metadata)
  moreover have "pget (sample_metadata ?s) ''dressage_end_token_version'' = pget (sample_metadata s) ''dressage_end_token_version''"
    by (simp add: pget_def returned_metadata)
  ultimately have "note_version lib order ?s latest = note_version lib order s latest" by (simp only: note_version_def)
  moreover have "note_versions lib (Suc order) (annotate_returned_group g i ss) = note_versions lib (Suc order) ss" by (rule ext) (rule Cons.IH)
  ultimately show ?case by (simp add: annotate_returned_group_def)
qed (simp add: annotate_returned_group_def)

lemma keep_returned: "keep_group lib (annotate_returned_group g i grp) gf = keep_group lib grp gf"
  by (simp add: keep_group_def should_drop_group_def trajectory_version_infos_def note_versions_returned split: option.split)

lemma keep_pending_returned:
  "keep_pending lib (map (returned_group i) gs) gf = rbind (keep_pending lib gs gf) (\<lambda>(kept, gf). Inr (map (returned_group i) kept, gf))"
proof (induction gs arbitrary: gf)
  case (Cons g gs)
  have k: "keep_group lib (pg_samples (returned_group i g)) gf = keep_group lib (pg_samples g) gf" by (simp add: returned_group_def keep_returned)
  show ?case
  proof (cases "keep_group lib (pg_samples g) gf")
    case (Inr r)
    then show ?thesis using k by (cases "keep_pending lib gs (snd r)") (auto simp: Cons.IH split_beta)
  qed (simp add: k)
qed simp

lemma refilter_returned:
  "refilter lib advanced (with_returned i st) = rbind (refilter lib advanced st) (\<lambda>st. Inr (with_returned i st))"
  by (auto simp: refilter_def filter_pending_def keep_pending_returned rbind_def with_returned_def split: sum.splits)

lemma partial_failed_is_failed:
  assumes "pa_rollout ps = with_returned i st"
  shows "rbind (partial_failed lib error_text cfg c ps) (\<lambda>ps. Inr (pa_rollout ps)) = rbind (handle_failed cfg c st) (\<lambda>st. Inr (with_returned i st))"
proof -
  have "pa_rollout (count_staleness lib error_text c ps) = with_returned i st" using assms by (simp add: count_staleness_def Let_def)
  then show ?thesis by (auto simp: partial_failed_def handle_failed_def Let_def rbind_def with_returned_def split: sum.splits)
qed

lemma partial_completed_is_completed:
  assumes "pa_rollout ps = with_returned i st"
  shows "rbind (partial_completed lib error_text cfg i gid c ps) (\<lambda>ps. Inr (pa_rollout ps)) =
    rbind (handle_completed lib cfg gid c st) (\<lambda>st. Inr (with_returned i st))"
proof (cases "is_failed c")
  case True
  then show ?thesis using partial_failed_is_failed [OF assms] by (simp add: partial_completed_def handle_completed_def)
next
  case False
  then show ?thesis using assms
    by (auto simp: partial_completed_def handle_completed_def Let_def rbind_def with_returned_def returned_group_def split: sum.splits)
qed

lemma rbind_pa_cases:
  assumes "rbind r (\<lambda>ps. Inr (pa_rollout ps)) = rbind r' (\<lambda>st. Inr (with_returned i st))"
  obtains e where "r = Inl e" "r' = Inl e" | ps st where "r = Inr ps" "r' = Inr st" "pa_rollout ps = with_returned i st"
  using assms by (cases r; cases r') simp_all

lemma partial_consume_is_consume:
  assumes "pa_rollout ps = with_returned i st"
  shows "rbind (partial_consume lib error_text cfg i ids ps) (\<lambda>ps. Inr (pa_rollout ps)) = rbind (consume lib cfg ids st) (\<lambda>st. Inr (with_returned i st))"
  using assms
proof (induction ids arbitrary: ps st)
  case (Cons gid ids)
  let ?ps = "ps\<lparr>pa_rollout := (with_returned i st)\<lparr>ro_completed_by_id := dpop gid (ro_completed_by_id st)\<rparr>\<rparr>"
  let ?st = "st\<lparr>ro_completed_by_id := dpop gid (ro_completed_by_id st)\<rparr>"
  have sub: "pa_rollout ?ps = with_returned i ?st" by (simp add: with_returned_def)
  show ?case
  proof (cases "enough cfg st \<or> dget (ro_completed_by_id st) gid = None")
    case False
    then obtain c where c: "dget (ro_completed_by_id st) gid = Some c" "\<not> enough cfg st" by auto
    from partial_completed_is_completed [OF sub, of lib error_text cfg gid c]
    show ?thesis by (rule rbind_pa_cases) (use c Cons in \<open>simp_all add: Let_def\<close>)
  qed (use Cons.prems in \<open>auto simp: Let_def\<close>)
qed simp

lemma partial_round_is_round:
  assumes "pa_rollout ps = with_returned i st"
  shows "rbind (partial_round lib error_text cfg i groups ps) (\<lambda>ps. Inr (pa_rollout ps)) = rbind (poll_round lib cfg groups st) (\<lambda>st. Inr (with_returned i st))"
proof (cases "observe_completed lib groups False (ro_filter st)")
  case (Inr r)
  obtain advanced gf where r: "r = (advanced, gf)" by fastforce
  have f: "(with_returned i st)\<lparr>ro_filter := gf\<rparr> = with_returned i (st\<lparr>ro_filter := gf\<rparr>)" by (simp add: with_returned_def)
  show ?thesis
  proof (cases "refilter lib advanced (st\<lparr>ro_filter := gf\<rparr>)")
    case (Inr st1)
    have "store_completed groups (with_returned i st1) = with_returned i (store_completed groups st1)" by (simp add: store_completed_def with_returned_def)
    then show ?thesis
      using partial_consume_is_consume [of "ps\<lparr>pa_rollout := with_returned i (store_completed groups st1)\<rparr>" i "store_completed groups st1" lib error_text cfg]
      by (simp add: partial_round_def poll_round_def assms \<open>observe_completed lib groups False (ro_filter st) = Inr r\<close> r f refilter_returned Inr Let_def)
  qed (simp add: partial_round_def poll_round_def assms Inr r f refilter_returned)
qed (simp add: partial_round_def poll_round_def assms)

lemma partial_collect_is_collect:
  assumes "pa_rollout ps = with_returned i st"
  shows "rbind (partial_collect lib error_text cfg i polls ps) (\<lambda>ps. Inr (pa_rollout ps)) = rbind (collect lib cfg polls st) (\<lambda>st. Inr (with_returned i st))"
  using assms
proof (induction polls arbitrary: ps st)
  case (Cons groups polls)
  show ?case
  proof (cases "enough cfg st")
    case False
    from partial_round_is_round [OF Cons.prems, of lib error_text cfg groups]
    show ?thesis by (rule rbind_pa_cases) (use False Cons in simp_all)
  qed (use Cons.prems in simp)
qed simp


definition sample_step_args :: "(string, pyval) dict" where
  "sample_step_args = [(''rollout_batch_size'', PInt 16), (''n_samples_per_prompt'', PInt 8), (''global_batch_size'', PInt 60)]"

theorem partial_target_covers_step_witness:
  "partial_target_groups sample_step_args [] = Inr 8 \<and> 60 \<le> 8 * (8::int) \<and> (8 - 1) * 8 < (60::int)"
proof -
  have args: "int_attr sample_step_args ''rollout_batch_size'' 1 = Inr 16" "int_attr sample_step_args ''n_samples_per_prompt'' 1 = Inr 8"
    "int_attr sample_step_args ''global_batch_size'' (16 * 8) = Inr 60"
    by (simp_all add: int_attr_def sample_step_args_def)
  have env: "env_int [] n = Inr None" for n by (simp add: env_int_def)
  obtain target where target: "partial_target_groups sample_step_args [] = Inr target"
    using args by (simp add: partial_target_groups_def env Let_def)
  have "60 \<le> target * 8 \<and> (target - 1) * 8 < 60"
    using partial_target_covers_step [OF args(1,2) _ _ target] args(3) env by simp
  then have "target = 8" by presburger
  then show ?thesis using target by simp
qed

end
