(* ===== verification/Data_Source.thy ===== *)
theory Data_Source
  imports Training_Samples Messages "HOL-Library.Multiset"
begin

text \<open>
  Where prompts come from: the data source with its retry buffer, epochs and weighted mixture of
  datasets (\<open>dressage/rollout/data_source.py\<close>), and the MOPD configuration that declares the mixture and
  its teachers (\<open>dressage/rollout/mopd.py\<close>).

  The rows of a JSONL file are dictionaries; reading files and resolving paths is not modelled.  The
  parallel lists of a mixture are one list of records.  Shuffling by a seed is a parameter, and so is
  the data source of the training framework that is used for multimodal data.  Weights are reals.

  The lemmas show how rows become samples and find their teacher, that an epoch visits every row
  once, that a mixture keeps to its weights, and that fresh samples are numbered without gaps.
\<close>

section \<open>The MOPD configuration\<close>

record mopd_dataset =
  md_name :: string
  md_path :: string
  md_teacher_id :: string
  md_weight :: pyfloat
  md_metadata :: "(string, pyval) dict"
  md_agent_mode :: string
  md_generate_function_path :: "string option"

record mopd_config =
  mc_teachers :: "(string, mopd_teacher) dict"
  mc_datasets :: "mopd_dataset list"
  mc_reward_modules :: "string list"
  mc_runtime_env_keys :: "string list"
  mc_base_model :: "string option"

definition stripped :: "py_lib \<Rightarrow> pyval \<Rightarrow> string" where
  "stripped lib v = strip (py_str (py_repr lib) (py_or v (PStr [])))"

definition mopd_rollout_config :: "py_lib \<Rightarrow> (string, pyval) dict \<Rightarrow> (string \<times> string option) result" where
  "mopd_rollout_config lib raw =
     (case optional_string lib (pget raw ''agent_mode'') of
        None \<Rightarrow> Inl (ValueError ''requires agent_mode'')
      | Some m \<Rightarrow>
          (let mode = lower m; path = optional_string lib (pget raw ''generate_function_path'') in
           if mode \<notin> {''blackbox'', ''whitebox''} then Inl (ValueError ''agent_mode must be blackbox|whitebox'')
           else let path = (if path = None \<and> mode = ''blackbox'' then Some ''dressage.rollout.generate.blackbox_dispatch.generate'' else path)
                in if path = None \<and> mode = ''whitebox'' then Inl (ValueError ''uses whitebox rollout and requires generate_function_path'')
                   else Inr (mode, path)))"

definition mopd_string_tuple :: "py_lib \<Rightarrow> pyval \<Rightarrow> string list result" where
  "mopd_string_tuple lib v =
     (case v of
        PList items \<Rightarrow> Inr (filter (\<lambda>t. t \<noteq> []) (map (\<lambda>i. strip (py_str (py_repr lib) i)) items))
      | _ \<Rightarrow> Inl (ValueError ''must be a list''))"

definition parse_teacher :: "py_lib \<Rightarrow> string \<Rightarrow> pyval \<Rightarrow> mopd_teacher result" where
  "parse_teacher lib raw_id v =
     (case v of
        PDict d \<Rightarrow>
          (let teacher_id = strip raw_id; load = stripped lib (pget d ''load''); raw_step = pget d ''ckpt_step'' in
           if teacher_id = [] then Inl (ValueError ''invalid MOPD teacher entry'')
           else if load = [] then Inl (ValueError ''requires a Megatron checkpoint load'')
           else if raw_step = PNone \<or> raw_step = PStr [] then Inr \<lparr>mt_teacher_id = teacher_id, mt_load = load, mt_ckpt_step = None\<rparr>
           else rbind (py_int raw_step) (\<lambda>step.
             if step < 0 then Inl (ValueError ''ckpt_step must be non-negative'')
             else Inr \<lparr>mt_teacher_id = teacher_id, mt_load = load, mt_ckpt_step = Some step\<rparr>))
      | _ \<Rightarrow> Inl (ValueError ''invalid MOPD teacher entry''))"

fun parse_teachers :: "py_lib \<Rightarrow> (string \<times> pyval) list \<Rightarrow> (string, mopd_teacher) dict \<Rightarrow> (string, mopd_teacher) dict result" where
  "parse_teachers lib [] teachers = Inr teachers"
| "parse_teachers lib ((raw_id, v) # rest) teachers =
     rbind (parse_teacher lib raw_id v) (\<lambda>t. parse_teachers lib rest (dset (mt_teacher_id t) t teachers))"

fun path_parts :: "string \<Rightarrow> string \<Rightarrow> string list" where
  "path_parts part [] = [part]"
| "path_parts part (c # cs) = (if c = CHR ''/'' then part # path_parts [] cs else path_parts (part @ [c]) cs)"

text \<open>\<open>Path(path).stem\<close>: the last component without its last suffix.\<close>

definition path_stem :: "string \<Rightarrow> string" where
  "path_stem path =
     (let parts = filter (\<lambda>p. p \<notin> {[], ''.''}) (path_parts [] path);
          name = (if parts = [] then [] else last parts);
          suffix = takeWhile (\<lambda>c. c \<noteq> CHR ''.'') (rev name);
          i = length name - length suffix
      in if suffix \<noteq> [] \<and> 1 < i then take (i - 1) name else name)"

definition parse_dataset :: "py_lib \<Rightarrow> (string, mopd_teacher) dict \<Rightarrow> string list \<Rightarrow> pyval \<Rightarrow> mopd_dataset result" where
  "parse_dataset lib teachers names v =
     (case v of
        PDict d \<Rightarrow>
          (let path = stripped lib (pget d ''path''); name = stripped lib (py_or (pget d ''name'') (PStr (path_stem path))) in
           if path = [] then Inl (ValueError ''requires path'')
           else if name = [] \<or> name \<in> set names then Inl (ValueError ''MOPD dataset name must be unique and non-empty'')
           else case optional_string lib (pget d ''teacher_id'') of
             None \<Rightarrow> Inl (ValueError ''requires teacher_id'')
           | Some teacher_id \<Rightarrow>
               if \<not> dmem teacher_id teachers then Inl (ValueError ''routes to unknown teacher'')
               else case py_float lib (dget_or d ''weight'' (PFloat (Fin 1))) of
                 None \<Rightarrow> Inl (case pget d ''weight'' of PStr _ \<Rightarrow> ValueError ''could not convert string to float'' | _ \<Rightarrow> TypeError ''float() argument must be a string or a real number'')
               | Some weight \<Rightarrow>
                   if pyf_less weight (Fin 0) \<or> pyf_eq weight (Fin 0) then Inl (ValueError ''weight must be positive'')
                   else case py_or (pget d ''metadata'') (PDict []) of
                     PDict metadata \<Rightarrow>
                       rbind (mopd_rollout_config lib d) (\<lambda>(mode, gen).
                         Inr \<lparr>md_name = name, md_path = path, md_teacher_id = teacher_id, md_weight = weight,
                              md_metadata = dset ''teacher_id'' (PStr teacher_id) metadata, md_agent_mode = mode, md_generate_function_path = gen\<rparr>)
                   | _ \<Rightarrow> Inl (ValueError ''metadata must be an object''))
      | _ \<Rightarrow> Inl (ValueError ''must be an object''))"

fun parse_datasets :: "py_lib \<Rightarrow> (string, mopd_teacher) dict \<Rightarrow> string list \<Rightarrow> pyval list \<Rightarrow> mopd_dataset list result" where
  "parse_datasets lib teachers names [] = Inr []"
| "parse_datasets lib teachers names (v # vs) =
     rbind (parse_dataset lib teachers names v) (\<lambda>d.
     rbind (parse_datasets lib teachers (md_name d # names) vs) (\<lambda>ds. Inr (d # ds)))"

definition mopd_config_from_dict :: "py_lib \<Rightarrow> pyval \<Rightarrow> mopd_config result" where
  "mopd_config_from_dict lib raw =
     (case raw of
        PDict d \<Rightarrow>
          (case pget d ''teachers'' of
             PDict (e # es) \<Rightarrow>
               rbind (parse_teachers lib (e # es) []) (\<lambda>teachers.
               rbind (case py_or (pget d ''datasets'') (PList []) of
                        PList vs \<Rightarrow> parse_datasets lib teachers [] vs | _ \<Rightarrow> Inl (ValueError ''MOPD datasets must be a list'')) (\<lambda>datasets.
               rbind (mopd_string_tuple lib (py_or (pget d ''reward_modules'') (PList []))) (\<lambda>modules.
               rbind (mopd_string_tuple lib (py_or (pget d ''runtime_env_keys'') (PList []))) (\<lambda>env_keys.
                 Inr \<lparr>mc_teachers = teachers, mc_datasets = datasets, mc_reward_modules = modules, mc_runtime_env_keys = env_keys,
                      mc_base_model = optional_string lib (pget d ''base_model'')\<rparr>))))
           | _ \<Rightarrow> Inl (ValueError ''MOPD config requires a non-empty teachers object''))
      | _ \<Rightarrow> Inl (ValueError ''MOPD config must be a JSON object''))"

section \<open>Rows become samples\<close>

record data_sample =
  da_prompt :: pyval
  da_label :: "string option"
  da_metadata :: "(string, pyval) dict"
  da_generate_function_path :: "string option"
  da_group_index :: "int option"
  da_index :: "int option"
  da_session_id :: "string option"

definition passthrough_keys :: "string list" where
  "passthrough_keys = [''agent_mode'', ''env_type'', ''env_args'', ''tool_set'', ''agent_id'', ''reward_fn'']"

definition pass_key :: "(string, pyval) dict \<Rightarrow> string \<Rightarrow> (string, pyval) dict \<Rightarrow> (string, pyval) dict" where
  "pass_key data k meta = (case dget data k of Some v \<Rightarrow> if dmem k meta then meta else dset k v meta | None \<Rightarrow> meta)"

definition dupdate :: "(string, pyval) dict \<Rightarrow> (string, pyval) dict \<Rightarrow> (string, pyval) dict" where
  "dupdate new d = fold (\<lambda>(k, v). dset k v) new d"

text \<open>
  The metadata of a row: its own metadata object, then the fields the dispatch knows, then all other
  fields, and at last the overrides of its dataset.
\<close>

definition row_metadata :: "string \<Rightarrow> string option \<Rightarrow> string \<Rightarrow> (string, pyval) dict \<Rightarrow> (string, pyval) dict \<Rightarrow> (string, pyval) dict \<Rightarrow> (string, pyval) dict" where
  "row_metadata prompt_key label_key metadata_key overrides data meta =
     (let meta = fold (pass_key data) passthrough_keys meta;
          meta = fold (pass_key data) (filter (\<lambda>k. k \<notin> {prompt_key, ''label'', metadata_key} \<and> label_key \<noteq> Some k) (dkeys data)) meta
      in dupdate overrides meta)"

definition load_row ::
  "py_lib \<Rightarrow> string \<Rightarrow> string option \<Rightarrow> string \<Rightarrow> (string, pyval) dict \<Rightarrow> string option \<Rightarrow> (string, pyval) dict \<Rightarrow> data_sample result" where
  "load_row lib prompt_key label_key metadata_key overrides generate_path data =
     (let label = (case label_key of Some (c # cs) \<Rightarrow> pget data (c # cs) | _ \<Rightarrow> pget data ''label'')
      in case py_or (pget data metadata_key) (PDict []) of
           PDict own \<Rightarrow>
             (let meta = row_metadata prompt_key label_key metadata_key overrides data own;
                  path = py_or (case generate_path of Some p \<Rightarrow> PStr p | None \<Rightarrow> PNone)
                           (py_or (pget data ''generate_function_path'') (pget meta ''generate_function_path''))
              in Inr \<lparr>da_prompt = dget_or data prompt_key (PStr []), da_label = (if label = PNone then None else Some (py_str (py_repr lib) label)),
                      da_metadata = meta,
                      da_generate_function_path = (if truthy path then Some (strip (py_str (py_repr lib) path)) else None),
                      da_group_index = None, da_index = None, da_session_id = None\<rparr>)
         | _ \<Rightarrow> Inl (TypeError ''metadata is not an object''))"

definition load_text_first ::
  "py_lib \<Rightarrow> string \<Rightarrow> string option \<Rightarrow> string \<Rightarrow> (string, pyval) dict \<Rightarrow> string option \<Rightarrow> (string, pyval) dict list \<Rightarrow> data_sample list result" where
  "load_text_first lib prompt_key label_key metadata_key overrides generate_path rows =
     rmap (load_row lib prompt_key label_key metadata_key overrides generate_path) rows"


section \<open>The data source\<close>

record source_args =
  sa_rollout_shuffle :: bool
  sa_rollout_seed :: int
  sa_n_samples_per_prompt :: int
  sa_sglang_enable_deterministic_inference :: bool

record mixture_part =
  mp_samples :: "data_sample list"
  mp_weight :: real
  mp_current :: real
  mp_offset :: nat
  mp_epoch :: int

record data_source =
  ds_buffer :: "data_sample list list"
  ds_epoch_id :: int
  ds_sample_group_index :: int
  ds_sample_index :: int
  ds_sample_offset :: nat
  ds_samples :: "data_sample list option"
  ds_mixture :: "mixture_part list option"

definition new_source :: "data_sample list option \<Rightarrow> mixture_part list option \<Rightarrow> data_source" where
  "new_source samples mixture =
     \<lparr>ds_buffer = [], ds_epoch_id = 0, ds_sample_group_index = 0, ds_sample_index = 0, ds_sample_offset = 0,
      ds_samples = samples, ds_mixture = mixture\<rparr>"

definition mixture_part_of :: "data_sample list \<times> real \<Rightarrow> mixture_part" where
  "mixture_part_of d = \<lparr>mp_samples = fst d, mp_weight = snd d, mp_current = 0, mp_offset = 0, mp_epoch = 0\<rparr>"

text \<open>The constructor for a mixture, from the loaded rows and the weight of each dataset.\<close>

definition mixture_source :: "(data_sample list \<times> real) list \<Rightarrow> data_source result" where
  "mixture_source datasets =
     (if list_ex (\<lambda>d. fst d = []) datasets then Inl (ValueError ''MOPD dataset has no valid samples'')
      else Inr (new_source None (Some (map mixture_part_of datasets))))"

text \<open>The constructor for one file; with shuffling the first epoch is shuffled by the seed alone.\<close>

definition text_source :: "(int \<Rightarrow> data_sample list \<Rightarrow> data_sample list) \<Rightarrow> source_args \<Rightarrow> data_sample list \<Rightarrow> data_source" where
  "text_source shuffle args samples =
     new_source (Some (if sa_rollout_shuffle args then shuffle (sa_rollout_seed args + 0) samples else samples)) None"

definition next_epoch :: "(int \<Rightarrow> data_sample list \<Rightarrow> data_sample list) \<Rightarrow> source_args \<Rightarrow> data_sample list \<Rightarrow> data_source \<Rightarrow> data_source" where
  "next_epoch shuffle args samples ds =
     (if ds_sample_offset ds < length samples then ds
      else ds\<lparr>ds_epoch_id := ds_epoch_id ds + 1,
              ds_samples := Some (if sa_rollout_shuffle args then shuffle (sa_rollout_seed args + (ds_epoch_id ds + 1)) samples else samples),
              ds_sample_offset := 0\<rparr>)"

fun draw_rows :: "(int \<Rightarrow> data_sample list \<Rightarrow> data_sample list) \<Rightarrow> source_args \<Rightarrow> nat \<Rightarrow> data_source \<Rightarrow> data_sample list \<times> data_source" where
  "draw_rows shuffle args 0 ds = ([], ds)"
| "draw_rows shuffle args (Suc n) ds =
     (let ds = next_epoch shuffle args (the (ds_samples ds)) ds;
          samples = the (ds_samples ds)
      in if ds_sample_offset ds \<ge> length samples then ([], ds)
         else let s = samples ! ds_sample_offset ds;
                  (rest, ds) = draw_rows shuffle args n (ds\<lparr>ds_sample_offset := ds_sample_offset ds + 1\<rparr>)
              in (s # rest, ds))"

text \<open>The first position of the largest value.\<close>

definition first_max :: "real list \<Rightarrow> nat" where
  "first_max xs = fold (\<lambda>i best. if xs ! best < xs ! i then i else best) [1..<length xs] 0"

definition next_part_row :: "(int \<Rightarrow> data_sample list \<Rightarrow> data_sample list) \<Rightarrow> source_args \<Rightarrow> nat \<Rightarrow> mixture_part \<Rightarrow> (data_sample \<times> mixture_part) result" where
  "next_part_row shuffle args i p =
     (let p = (if mp_offset p < length (mp_samples p) then p
               else let epoch = mp_epoch p + 1
                    in p\<lparr>mp_epoch := epoch, mp_offset := 0,
                         mp_samples := (if sa_rollout_shuffle args then shuffle (sa_rollout_seed args + epoch * 1009 + int i) (mp_samples p)
                                        else mp_samples p)\<rparr>)
      in if mp_samples p = [] then Inl (IndexError ''list index out of range'')
         else Inr (mp_samples p ! mp_offset p, p\<lparr>mp_offset := mp_offset p + 1\<rparr>))"

definition next_mixture_sample :: "(int \<Rightarrow> data_sample list \<Rightarrow> data_sample list) \<Rightarrow> source_args \<Rightarrow> mixture_part list \<Rightarrow> (data_sample \<times> mixture_part list) result" where
  "next_mixture_sample shuffle args parts =
     (if parts = [] then Inl (ValueError ''max() iterable argument is empty'')
      else let total = sum_list (map mp_weight parts);
               parts = map (\<lambda>p. p\<lparr>mp_current := mp_current p + mp_weight p\<rparr>) parts;
               i = first_max (map mp_current parts);
               p = parts ! i
           in rbind (next_part_row shuffle args i (p\<lparr>mp_current := mp_current p - total\<rparr>)) (\<lambda>(s, p). Inr (s, parts[i := p])))"

fun draw_mixture :: "(int \<Rightarrow> data_sample list \<Rightarrow> data_sample list) \<Rightarrow> source_args \<Rightarrow> nat \<Rightarrow> mixture_part list \<Rightarrow> (data_sample list \<times> mixture_part list) result" where
  "draw_mixture shuffle args 0 parts = Inr ([], parts)"
| "draw_mixture shuffle args (Suc n) parts =
     rbind (next_mixture_sample shuffle args parts) (\<lambda>(s, parts).
     rbind (draw_mixture shuffle args n parts) (\<lambda>(ss, parts). Inr (s # ss, parts)))"

text \<open>One fresh sample, and the group of one row.\<close>

definition stamp_sample :: "source_args \<Rightarrow> int \<Rightarrow> int \<Rightarrow> data_sample \<Rightarrow> data_sample" where
  "stamp_sample args group_index index s =
     (let s = s\<lparr>da_group_index := Some group_index, da_index := Some index\<rparr>;
          session_id = ''bbs-det-'' @ show_int (sa_rollout_seed args) @ ''-'' @ show_int index
      in if sa_sglang_enable_deterministic_inference args \<and> pget (da_metadata s) ''agent_mode'' = PStr ''blackbox''
         then s\<lparr>da_session_id := Some session_id, da_metadata := dset ''dressage_deterministic_session_id'' (PStr session_id) (da_metadata s)\<rparr>
         else s)"

definition fresh_group :: "source_args \<Rightarrow> data_sample \<Rightarrow> data_source \<Rightarrow> data_sample list \<times> data_source" where
  "fresh_group args base ds =
     (let n = nat (sa_n_samples_per_prompt args)
      in (map (\<lambda>k. stamp_sample args (ds_sample_group_index ds) (ds_sample_index ds + int k) base) [0..<n],
          ds\<lparr>ds_sample_index := ds_sample_index ds + int n, ds_sample_group_index := ds_sample_group_index ds + 1\<rparr>))"

fun fresh_groups :: "source_args \<Rightarrow> data_sample list \<Rightarrow> data_source \<Rightarrow> data_sample list list \<times> data_source" where
  "fresh_groups args [] ds = ([], ds)"
| "fresh_groups args (b # bs) ds =
     (let (g, ds) = fresh_group args b ds; (gs, ds) = fresh_groups args bs ds in (g # gs, ds))"

definition get_samples_from_buffer :: "nat \<Rightarrow> data_source \<Rightarrow> data_sample list list \<times> data_source" where
  "get_samples_from_buffer n ds =
     (if ds_buffer ds = [] \<or> n = 0 then ([], ds)
      else let k = min (length (ds_buffer ds)) n in (take k (ds_buffer ds), ds\<lparr>ds_buffer := drop k (ds_buffer ds)\<rparr>))"

text \<open>\<open>parent\<close> is the answer of the framework's own data source, used when neither rows nor a mixture were loaded.\<close>

definition get_samples ::
  "(int \<Rightarrow> data_sample list \<Rightarrow> data_sample list) \<Rightarrow> (nat \<Rightarrow> data_sample list list) \<Rightarrow> source_args \<Rightarrow> nat \<Rightarrow> data_source \<Rightarrow> (data_sample list list \<times> data_source) result" where
  "get_samples shuffle parent args num_samples ds =
     (let (buffered, ds) = get_samples_from_buffer num_samples ds;
          n = num_samples - length buffered
      in if n = 0 then Inr (buffered, ds)
         else rbind (case ds_mixture ds of
                       Some parts \<Rightarrow> rbind (draw_mixture shuffle args n parts) (\<lambda>(bases, parts). Inr (Some bases, ds\<lparr>ds_mixture := Some parts\<rparr>))
                     | None \<Rightarrow> (case ds_samples ds of
                         None \<Rightarrow> Inr (None, ds)
                       | Some _ \<Rightarrow> (let (bases, ds) = draw_rows shuffle args n ds in Inr (Some bases, ds)))) (\<lambda>(bases, ds).
              case bases of
                None \<Rightarrow> Inr (buffered @ parent n, ds)
              | Some bases \<Rightarrow> (let (groups, ds) = fresh_groups args bases ds in Inr (buffered @ groups, ds))))"

definition add_samples :: "data_sample list list \<Rightarrow> data_source \<Rightarrow> data_source" where
  "add_samples groups ds = ds\<lparr>ds_buffer := ds_buffer ds @ groups\<rparr>"

definition source_length :: "data_source \<Rightarrow> nat" where
  "source_length ds =
     (case ds_mixture ds of
        Some parts \<Rightarrow> sum_list (map (\<lambda>p. length (mp_samples p)) parts)
      | None \<Rightarrow> (case ds_samples ds of Some ss \<Rightarrow> length ss | None \<Rightarrow> 0))"


section \<open>Metadata of a row\<close>

lemma dget_pass_key:
  "dget (pass_key data k meta) j = (case dget meta j of Some v \<Rightarrow> Some v | None \<Rightarrow> if j = k then dget data k else None)"
  by (simp add: pass_key_def dmem_def split: option.split)

lemma dget_fold_pass_key:
  "dget (fold (pass_key data) ks meta) j = (case dget meta j of Some v \<Rightarrow> Some v | None \<Rightarrow> if j \<in> set ks then dget data j else None)"
  by (induction ks arbitrary: meta) (auto simp: dget_pass_key split: option.split)

lemma dget_dupdate: "dget (dupdate new d) j = (case dget (rev new) j of Some v \<Rightarrow> Some v | None \<Rightarrow> dget d j)"
  unfolding dupdate_def by (induction new arbitrary: d) (auto simp: map_add_def split: option.split)

lemma dget_row_metadata:
  "dget (row_metadata pk lk mk overrides data own) j =
     (case dget (rev overrides) j of Some v \<Rightarrow> Some v
      | None \<Rightarrow> (case dget own j of Some v \<Rightarrow> Some v
         | None \<Rightarrow> if j \<in> set passthrough_keys \<or> j \<notin> {pk, ''label'', mk} \<and> lk \<noteq> Some j then dget data j else None))"
proof (cases "dget own j")
  case None
  have "j \<in> set (dkeys data) \<or> dget data j = None" by (auto simp: map_of_eq_None_iff)
  then show ?thesis unfolding row_metadata_def Let_def dget_dupdate dget_fold_pass_key None
    by (cases "j \<in> set passthrough_keys"; cases "dget data j") (simp_all del: set_map split: option.split)
qed (simp add: row_metadata_def Let_def dget_dupdate dget_fold_pass_key split: option.split)

section \<open>Routing of rows to teachers\<close>

lemma dropWhile_same: "s \<noteq> [] \<Longrightarrow> \<not> p (hd s) \<Longrightarrow> dropWhile p s = s"
  by (cases s) simp_all

lemma strip_by_idem: "strip_by p (strip_by p s) = strip_by p s"
proof (cases "strip_by p s = []")
  case False
  define l where "l = dropWhile p s"
  define r where "r = dropWhile p (rev l)"
  have strip: "strip_by p s = rev r" by (simp add: strip_by_def rstrip_by_def lstrip_by_def l_def r_def)
  have ne: "r \<noteq> []" using False strip by simp
  then have "l \<noteq> []" by (auto simp: r_def)
  then have l: "\<not> p (hd l)" unfolding l_def by (rule hd_dropWhile)
  have r: "\<not> p (hd r)" using ne unfolding r_def by (rule hd_dropWhile)
  have "rev l = takeWhile p (rev l) @ r" by (simp add: r_def)
  then have "last r = hd l" using ne by (metis hd_rev last_appendR rev_rev_ident)
  then have "dropWhile p (rev r) = rev r" using ne l by (intro dropWhile_same) (simp_all add: hd_rev)
  moreover have "dropWhile p r = r" using ne r by (rule dropWhile_same)
  ultimately show ?thesis by (simp add: strip) (simp add: strip_by_def rstrip_by_def lstrip_by_def)
next
  case True
  then show ?thesis by (simp only:) (simp add: strip_by_def lstrip_by_def rstrip_by_def)
qed

lemma optional_string_stripped: "optional_string lib v = Some t \<Longrightarrow> t \<noteq> [] \<and> strip t = t"
  by (auto simp: optional_string_def Let_def strip_def strip_by_idem split: if_splits)

lemma optional_string_PStr: "t \<noteq> [] \<Longrightarrow> strip t = t \<Longrightarrow> optional_string lib (PStr t) = Some t"
  by (simp add: optional_string_def)

lemma parse_teachers_ids:
  assumes "parse_teachers lib raw teachers = Inr out" "\<And>k t. dget teachers k = Some t \<Longrightarrow> mt_teacher_id t = k" "dget out k = Some t"
  shows "mt_teacher_id t = k"
  using assms(1,2)
proof (induction raw arbitrary: teachers)
  case (Cons entry rest)
  obtain raw_id v where e: "entry = (raw_id, v)" by fastforce
  with Cons.prems(1) obtain u where u: "parse_teacher lib raw_id v = Inr u" "parse_teachers lib rest (dset (mt_teacher_id u) u teachers) = Inr out"
    by (auto simp: rbind_eq_Inr)
  show ?case by (rule Cons.IH [OF u(2)]) (use Cons.prems(2) in \<open>simp split: if_splits\<close>)
qed (use assms(3) in simp)

definition dataset_ok :: "(string, mopd_teacher) dict \<Rightarrow> mopd_dataset \<Rightarrow> bool" where
  "dataset_ok teachers d \<longleftrightarrow> dmem (md_teacher_id d) teachers \<and> md_teacher_id d \<noteq> [] \<and> strip (md_teacher_id d) = md_teacher_id d \<and>
     \<not> pyf_less (md_weight d) (Fin 0) \<and> \<not> pyf_eq (md_weight d) (Fin 0) \<and> md_name d \<noteq> [] \<and>
     (\<exists>meta. md_metadata d = dset ''teacher_id'' (PStr (md_teacher_id d)) meta) \<and>
     (\<exists>p. md_generate_function_path d = Some p \<and> p \<noteq> [] \<and> strip p = p)"

lemma mopd_rollout_config_path:
  assumes "mopd_rollout_config lib raw = Inr (mode, gen)"
  shows "\<exists>p. gen = Some p \<and> p \<noteq> [] \<and> strip p = p"
proof -
  let ?d = "''dressage.rollout.generate.blackbox_dispatch.generate''" and ?g = "optional_string lib (pget raw ''generate_function_path'')"
  have "strip ?d = ?d" by code_simp
  moreover have "gen = (if ?g = None then Some ?d else ?g)" using assms
    by (auto simp: mopd_rollout_config_def Let_def split: option.splits if_splits)
  ultimately show ?thesis using optional_string_stripped by (cases ?g) simp_all
qed

lemma parse_dataset_ok:
  assumes "parse_dataset lib teachers names v = Inr d"
  shows "dataset_ok teachers d \<and> md_name d \<notin> set names"
proof -
  obtain e where "v = PDict e" using assms by (cases v) (simp_all add: parse_dataset_def)
  then show ?thesis using assms
    by (auto simp: parse_dataset_def Let_def dataset_ok_def rbind_eq_Inr dest: optional_string_stripped mopd_rollout_config_path
      split: if_splits option.splits pyval.splits)
qed

lemma parse_datasets_ok:
  "parse_datasets lib teachers names vs = Inr ds \<Longrightarrow> (\<forall>d \<in> set ds. dataset_ok teachers d) \<and> distinct (map md_name ds) \<and> set (map md_name ds) \<inter> set names = {}"
proof (induction lib teachers names vs arbitrary: ds rule: parse_datasets.induct)
  case (2 lib teachers names v vs)
  from "2.prems" obtain d ds' where "parse_dataset lib teachers names v = Inr d" "parse_datasets lib teachers (md_name d # names) vs = Inr ds'" "ds = d # ds'"
    by (auto simp: rbind_eq_Inr)
  then show ?case using "2.IH" [of d ds'] parse_dataset_ok [of lib teachers names v d] by auto
qed simp

lemma mopd_config_ok:
  assumes "mopd_config_from_dict lib raw = Inr cfg"
  shows "\<forall>d \<in> set (mc_datasets cfg). dataset_ok (mc_teachers cfg) d" "distinct (map md_name (mc_datasets cfg))"
    "\<And>k t. dget (mc_teachers cfg) k = Some t \<Longrightarrow> mt_teacher_id t = k"
proof -
  obtain d where d: "raw = PDict d" using assms by (cases raw) (simp_all add: mopd_config_from_dict_def)
  obtain e es where e: "pget d ''teachers'' = PDict (e # es)"
    using assms d by (auto simp: mopd_config_from_dict_def split: pyval.splits list.splits)
  obtain teachers where t: "parse_teachers lib (e # es) [] = Inr teachers" "mc_teachers cfg = teachers"
    "(case py_or (pget d ''datasets'') (PList []) of PList vs \<Rightarrow> parse_datasets lib teachers [] vs | _ \<Rightarrow> Inl (ValueError ''MOPD datasets must be a list'')) = Inr (mc_datasets cfg)"
    using assms unfolding mopd_config_from_dict_def d pyval.case e list.case rbind_eq_Inr by (elim exE conjE) auto
  then obtain vs where vs: "parse_datasets lib teachers [] vs = Inr (mc_datasets cfg)" by (auto split: pyval.splits)
  show "\<forall>d \<in> set (mc_datasets cfg). dataset_ok (mc_teachers cfg) d" "distinct (map md_name (mc_datasets cfg))"
    using parse_datasets_ok [OF vs] t(2) by auto
  show "dget (mc_teachers cfg) k = Some u \<Longrightarrow> mt_teacher_id u = k" for k u using parse_teachers_ids [OF t(1)] t(2) by simp
qed

lemma dget_rev: "dict_ok d \<Longrightarrow> dget (rev d) k = dget d k"
proof -
  assume "dict_ok d"
  then have "dget (rev d) k = Some v \<longleftrightarrow> dget d k = Some v" for v by (simp add: dict_ok_def map_of_eq_Some_iff rev_map [symmetric])
  then show ?thesis by (cases "dget d k"; cases "dget (rev d) k") auto
qed

text \<open>
  Every row of an accepted mixture finds its teacher.  Whatever the metadata and the other fields of the row
  say, the sample made from it is routed to the teacher its dataset names, which exists, and it is
  generated by the function of its dataset.  The names of the datasets are distinct and no
  weight is zero or negative.
\<close>

theorem mopd_rows_routed:
  assumes "mopd_config_from_dict lib raw = Inr cfg" "d \<in> set (mc_datasets cfg)" "dict_ok (md_metadata d)"
    and "load_text_first lib pk lk mk (md_metadata d) (md_generate_function_path d) rows = Inr samples" "s \<in> set samples"
    and "ts_teacher_id t = pget (da_metadata s) ''teacher_id''"
  shows "\<exists>teacher. route_mopd_teacher lib (mc_teachers cfg) t = Inr teacher \<and> mt_teacher_id teacher = md_teacher_id d \<and>
    da_generate_function_path s = md_generate_function_path d \<and> distinct (map md_name (mc_datasets cfg)) \<and>
    \<not> pyf_less (md_weight d) (Fin 0) \<and> \<not> pyf_eq (md_weight d) (Fin 0)"
proof -
  have ok: "dataset_ok (mc_teachers cfg) d" using mopd_config_ok(1) [OF assms(1)] assms(2) by blast
  then obtain meta p where d: "md_metadata d = dset ''teacher_id'' (PStr (md_teacher_id d)) meta" "md_generate_function_path d = Some p" "p \<noteq> []" "strip p = p"
    by (auto simp: dataset_ok_def)
  obtain row where s: "load_row lib pk lk mk (md_metadata d) (Some p) row = Inr s"
    using rmap_origin [OF assms(4) [unfolded load_text_first_def] assms(5)] d(2) by auto
  then obtain own where "py_or (pget row mk) (PDict []) = PDict own"
    by (cases "py_or (pget row mk) (PDict [])") (simp_all add: load_row_def Let_def)
  then have meta: "da_metadata s = row_metadata pk lk mk (md_metadata d) row own" "da_generate_function_path s = Some p"
    using s d(3,4) by (auto simp: load_row_def Let_def py_or_def)
  have "dget (rev (md_metadata d)) ''teacher_id'' = Some (PStr (md_teacher_id d))"
    using dget_rev [OF assms(3)] d(1) by simp
  then have "ts_teacher_id t = PStr (md_teacher_id d)" by (simp add: assms(6) meta(1) pget_def dget_row_metadata)
  moreover obtain teacher where "dget (mc_teachers cfg) (md_teacher_id d) = Some teacher" using ok by (auto simp: dataset_ok_def dmem_def)
  moreover have "mt_teacher_id teacher = md_teacher_id d" using mopd_config_ok(3) [OF assms(1)] calculation(2) by blast
  ultimately show ?thesis
    using ok meta(2) d(2) mopd_config_ok(2) [OF assms(1)] by (simp add: route_mopd_teacher_def dataset_ok_def optional_string_PStr)
qed


section \<open>Epochs\<close>

lemma draw_rows_step:
  assumes "ds_samples ds = Some samples" "ds_sample_offset ds < length samples"
  shows "draw_rows shuffle args (Suc n) ds =
    (let (rest, ds') = draw_rows shuffle args n (ds\<lparr>ds_sample_offset := Suc (ds_sample_offset ds)\<rparr>) in (samples ! ds_sample_offset ds # rest, ds'))"
  using assms by (simp add: next_epoch_def)

lemma draw_rows_within:
  assumes "ds_samples ds = Some samples" "ds_sample_offset ds + n \<le> length samples"
  shows "draw_rows shuffle args n ds = (take n (drop (ds_sample_offset ds) samples), ds\<lparr>ds_sample_offset := ds_sample_offset ds + n\<rparr>)"
  using assms
proof (induction n arbitrary: ds)
  case (Suc n)
  have less: "ds_sample_offset ds < length samples" using Suc.prems(2) by simp
  have "draw_rows shuffle args n (ds\<lparr>ds_sample_offset := Suc (ds_sample_offset ds)\<rparr>) =
      (take n (drop (Suc (ds_sample_offset ds)) samples), ds\<lparr>ds_sample_offset := ds_sample_offset ds + Suc n\<rparr>)"
    using Suc.IH [of "ds\<lparr>ds_sample_offset := Suc (ds_sample_offset ds)\<rparr>"] Suc.prems by simp
  then show ?case unfolding draw_rows_step [OF Suc.prems(1) less] by (simp add: Cons_nth_drop_Suc [OF less, symmetric] del: draw_rows.simps)
qed simp

lemma draw_rows_append:
  "draw_rows shuffle args m ds = (xs, ds') \<Longrightarrow> length xs = m \<Longrightarrow>
    draw_rows shuffle args (m + n) ds = (let (ys, ds'') = draw_rows shuffle args n ds' in (xs @ ys, ds''))"
proof (induction m arbitrary: ds xs)
  case (Suc m)
  let ?e = "next_epoch shuffle args (the (ds_samples ds)) ds"
  from Suc.prems have less: "ds_sample_offset ?e < length (the (ds_samples ?e))" by (auto simp: Let_def split: if_splits)
  obtain ys ds1 where y: "draw_rows shuffle args m (?e\<lparr>ds_sample_offset := ds_sample_offset ?e + 1\<rparr>) = (ys, ds1)" by fastforce
  have x: "xs = the (ds_samples ?e) ! ds_sample_offset ?e # ys" "ds1 = ds'" using Suc.prems(1) y less by (auto simp: Let_def)
  then show ?case using Suc.IH [OF y [unfolded x(2)]] Suc.prems(2) less by (simp add: Let_def split: prod.split)
qed simp

lemma draw_epoch:
  assumes "\<And>seed xs. mset (shuffle seed xs) = mset xs" "ds_samples ds = Some rows" "rows \<noteq> []" "ds_sample_offset ds \<in> {0, length rows}"
  shows "\<exists>rows' ds'. draw_rows shuffle args (length rows) ds = (rows', ds') \<and> mset rows' = mset rows \<and> (\<not> sa_rollout_shuffle args \<longrightarrow> rows' = rows) \<and>
    ds_samples ds' = Some rows' \<and> ds_sample_offset ds' = length rows' \<and>
    ds_epoch_id ds' = (if ds_sample_offset ds = 0 then ds_epoch_id ds else ds_epoch_id ds + 1)"
proof -
  define e where "e = next_epoch shuffle args rows ds"
  obtain rows' where e: "ds_samples e = Some rows'" "ds_sample_offset e = 0" "mset rows' = mset rows" "\<not> sa_rollout_shuffle args \<longrightarrow> rows' = rows"
    "ds_epoch_id e = (if ds_sample_offset ds = 0 then ds_epoch_id ds else ds_epoch_id ds + 1)"
    using assms by (auto simp: e_def next_epoch_def)
  have len: "length rows' = length rows" using mset_eq_length [OF e(3)] .
  obtain n where n: "length rows = Suc n" using assms(3) by (cases rows) simp_all
  have "next_epoch shuffle args rows' e = e" using e(1,2) len n by (simp add: next_epoch_def)
  then have "draw_rows shuffle args (length rows) ds = draw_rows shuffle args (length rows) e"
    unfolding n draw_rows.simps assms(2) e(1) option.sel e_def [symmetric] by (simp add: e(1))
  also have "\<dots> = (rows', e\<lparr>ds_sample_offset := length rows'\<rparr>)"
    using draw_rows_within [OF e(1), of "length rows"] e(2) len by simp
  finally show ?thesis using e by simp
qed

text \<open>
  An epoch visits every row once: drawing as many rows as there are, from the start of an epoch or from its
  end, and so on for any number of epochs, yields blocks that are permutations of the rows, and
  the rows in file order without shuffling.
\<close>

theorem epochs_visit_every_row:
  assumes "\<And>seed xs. mset (shuffle seed xs) = mset xs" "ds_samples ds = Some rows" "rows \<noteq> []" "ds_sample_offset ds \<in> {0, length rows}"
  shows "\<exists>blocks ds'. draw_rows shuffle args (k * length rows) ds = (concat blocks, ds') \<and> length blocks = k \<and>
    (\<forall>b \<in> set blocks. mset b = mset rows \<and> (\<not> sa_rollout_shuffle args \<longrightarrow> b = rows))"
  using assms(2-)
proof (induction k arbitrary: ds rows)
  case (Suc k)
  obtain rows' ds' where 1: "draw_rows shuffle args (length rows) ds = (rows', ds')" "mset rows' = mset rows" "\<not> sa_rollout_shuffle args \<longrightarrow> rows' = rows"
    "ds_samples ds' = Some rows'" "ds_sample_offset ds' = length rows'"
    using draw_epoch [of shuffle ds rows args] assms(1) Suc.prems by blast
  have len: "length rows' = length rows" using mset_eq_length [OF 1(2)] .
  have "rows' \<noteq> []" using len Suc.prems(2) by auto
  then obtain blocks ds'' where 2: "draw_rows shuffle args (k * length rows') ds' = (concat blocks, ds'')" "length blocks = k"
    "\<forall>b \<in> set blocks. mset b = mset rows' \<and> (\<not> sa_rollout_shuffle args \<longrightarrow> b = rows')"
    using Suc.IH [OF 1(4)] 1(5) by blast
  have "draw_rows shuffle args (Suc k * length rows) ds = (rows' @ concat blocks, ds'')"
    using draw_rows_append [OF 1(1) len, of "k * length rows"] 2(1) len by simp
  then show ?case using 1(2,3) 2(2,3) by (intro exI [of _ "rows' # blocks"] exI [of _ ds'']) simp
qed simp

section \<open>Shares of a mixture\<close>

text \<open>How many rows a part has given.\<close>

definition drawn :: "mixture_part \<Rightarrow> int" where
  "drawn p = mp_epoch p * int (length (mp_samples p)) + int (mp_offset p)"

definition total_weight :: "mixture_part list \<Rightarrow> real" where
  "total_weight parts = (\<Sum>j < length parts. mp_weight (parts ! j))"

definition mixture_inv :: "nat \<Rightarrow> mixture_part list \<Rightarrow> bool" where
  "mixture_inv n parts \<longleftrightarrow> parts \<noteq> [] \<and> (\<Sum>j < length parts. drawn (parts ! j)) = int n \<and>
     (\<forall>j < length parts. 0 < mp_weight (parts ! j) \<and> mp_samples (parts ! j) \<noteq> [] \<and> mp_offset (parts ! j) \<le> length (mp_samples (parts ! j)) \<and>
        mp_current (parts ! j) = real n * mp_weight (parts ! j) - total_weight parts * real_of_int (drawn (parts ! j)) \<and>
        - total_weight parts < mp_current (parts ! j))"

lemma first_max_fold:
  "\<lbrakk>best < length xs; set is \<subseteq> {..<length xs}\<rbrakk> \<Longrightarrow>
    fold (\<lambda>i best. if xs ! best < xs ! i then i else best) is best < length xs \<and>
    (\<forall>j \<in> insert best (set is). (xs ! j :: real) \<le> xs ! (fold (\<lambda>i best. if xs ! best < xs ! i then i else best) is best))"
proof (induction "is" arbitrary: best)
  case (Cons i "is")
  let ?b = "if xs ! best < xs ! i then i else best"
  have "xs ! best \<le> xs ! ?b" "xs ! i \<le> xs ! ?b" by simp_all
  then show ?case using Cons.IH [of ?b] Cons.prems by (auto simp del: not_less)
qed simp

lemma first_max:
  assumes "xs \<noteq> []"
  shows "first_max xs < length xs" "\<And>j. j < length xs \<Longrightarrow> xs ! j \<le> xs ! first_max xs"
proof -
  have range: "insert 0 (set [1..<length xs]) = {..<length xs}" using assms by (auto simp: Suc_le_eq)
  note f = first_max_fold [of 0 xs "[1..<length xs]", folded first_max_def, unfolded range]
  have "set [1..<length xs] \<subseteq> {..<length xs}" by auto
  with f assms show "first_max xs < length xs" "\<And>j. j < length xs \<Longrightarrow> xs ! j \<le> xs ! first_max xs" by simp_all
qed

lemma next_part_row_drawn:
  assumes "\<And>seed xs. mset (shuffle seed xs) = mset xs" "mp_samples p \<noteq> []" "mp_offset p \<le> length (mp_samples p)"
  shows "\<exists>s p'. next_part_row shuffle args i p = Inr (s, p') \<and> drawn p' = drawn p + 1 \<and> mp_weight p' = mp_weight p \<and> mp_current p' = mp_current p \<and>
    mset (mp_samples p') = mset (mp_samples p) \<and> mp_offset p' \<le> length (mp_samples p') \<and> s \<in> set (mp_samples p)"
proof -
  have len: "length (shuffle seed xs) = length xs" "shuffle seed xs \<noteq> [] \<longleftrightarrow> xs \<noteq> []" "set (shuffle seed xs) = set xs" for seed xs
    using assms(1) [of seed xs] by (metis size_mset, metis mset_zero_iff, metis set_mset_mset)
  have "shuffle seed xs ! 0 \<in> set xs" if "xs \<noteq> []" for seed xs using len [where seed = seed and xs = xs] that by (metis length_greater_0_conv nth_mem)
  moreover have "mp_samples p ! 0 \<in> set (mp_samples p)" using assms(2) by simp
  ultimately show ?thesis using assms(2,3) len assms(1)
    by (cases "mp_offset p < length (mp_samples p)") (auto simp: next_part_row_def Let_def drawn_def algebra_simps Suc_le_eq)
qed

lemma next_mixture_sample_inv:
  assumes law: "\<And>seed xs. mset (shuffle seed xs) = mset xs" and inv: "mixture_inv n parts"
  shows "\<exists>s parts'. next_mixture_sample shuffle args parts = Inr (s, parts') \<and> mixture_inv (Suc n) parts' \<and>
    map mp_weight parts' = map mp_weight parts \<and> map (mset \<circ> mp_samples) parts' = map (mset \<circ> mp_samples) parts \<and> s \<in> (\<Union>p \<in> set parts. set (mp_samples p))"
proof -
  let ?k = "length parts" and ?W = "total_weight parts"
  define raised where "raised = map (\<lambda>p. p\<lparr>mp_current := mp_current p + mp_weight p\<rparr>) parts"
  define i where "i = first_max (map mp_current raised)"
  have k: "parts \<noteq> []" "0 < ?k" and part: "\<And>j. j < ?k \<Longrightarrow> 0 < mp_weight (parts ! j) \<and> mp_samples (parts ! j) \<noteq> [] \<and>
      mp_offset (parts ! j) \<le> length (mp_samples (parts ! j)) \<and>
      mp_current (parts ! j) = real n * mp_weight (parts ! j) - ?W * real_of_int (drawn (parts ! j)) \<and> - ?W < mp_current (parts ! j)"
    and total: "(\<Sum>j < ?k. drawn (parts ! j)) = int n" using inv by (auto simp: mixture_inv_def)
  have i: "i < ?k" using first_max(1) [of "map mp_current raised"] k by (simp add: i_def raised_def)
  have W: "sum_list (map mp_weight parts) = ?W" by (simp add: total_weight_def sum_list_sum_nth atLeast0LessThan)
  have "(\<Sum>j < ?k. mp_current (parts ! j)) = real n * ?W - ?W * real_of_int (\<Sum>j < ?k. drawn (parts ! j))"
    by (simp add: part sum_subtractf total_weight_def sum_distrib_left)
  then have "(\<Sum>j < ?k. mp_current (parts ! j) + mp_weight (parts ! j)) = ?W" by (simp add: total sum.distrib total_weight_def)
  moreover have pos: "0 < ?W" unfolding total_weight_def using part k by (intro sum_pos) auto
  ultimately have "\<not> (\<Sum>j < ?k. mp_current (parts ! j) + mp_weight (parts ! j)) \<le> 0" by linarith
  then have "\<not> (\<forall>j \<in> {..<?k}. mp_current (parts ! j) + mp_weight (parts ! j) \<le> 0)"
    using sum_nonpos [of "{..<?k}" "\<lambda>j. mp_current (parts ! j) + mp_weight (parts ! j)"] by blast
  then obtain j where j: "j < ?k" "0 < mp_current (parts ! j) + mp_weight (parts ! j)" by (auto simp: not_le)
  have "map mp_current raised ! j \<le> map mp_current raised ! i" unfolding i_def using j(1) k by (intro first_max(2)) (simp_all add: raised_def)
  then have top: "0 < mp_current (parts ! i) + mp_weight (parts ! i)" using j i by (simp add: raised_def)
  let ?p = "(parts ! i)\<lparr>mp_current := mp_current (parts ! i) + mp_weight (parts ! i) - ?W\<rparr>"
  obtain s p' where p': "next_part_row shuffle args i ?p = Inr (s, p')" "drawn p' = drawn ?p + 1" "mp_weight p' = mp_weight ?p" "mp_current p' = mp_current ?p"
    "mset (mp_samples p') = mset (mp_samples ?p)" "mp_offset p' \<le> length (mp_samples p')" "s \<in> set (mp_samples ?p)"
    using next_part_row_drawn [where shuffle = shuffle and args = args and i = i and p = ?p, OF law] part [OF i] by auto
  define parts' where "parts' = raised[i := p']"
  have step: "next_mixture_sample shuffle args parts = Inr (s, parts')"
    using k(1) p'(1) i unfolding next_mixture_sample_def Let_def W raised_def [symmetric] i_def [symmetric] by (simp add: raised_def parts'_def)
  have nth: "parts' ! j = (if j = i then p' else (parts ! j)\<lparr>mp_current := mp_current (parts ! j) + mp_weight (parts ! j)\<rparr>)" if "j < ?k" for j
    using that i by (simp add: parts'_def raised_def)
  have len: "length parts' = ?k" by (simp add: parts'_def raised_def)
  have d: "drawn (parts' ! j) = drawn (parts ! j) + (if j = i then 1 else 0)" and w: "mp_weight (parts' ! j) = mp_weight (parts ! j)"
    and m: "mset (mp_samples (parts' ! j)) = mset (mp_samples (parts ! j))" if "j < ?k" for j
    using nth [OF that] p' by (simp_all add: drawn_def)
  have W': "total_weight parts' = ?W" using w len by (simp add: total_weight_def)
  have "(\<Sum>j < ?k. drawn (parts' ! j)) = int (Suc n)" using d i total by (simp add: sum.distrib sum.delta)
  moreover have "0 < mp_weight (parts' ! j) \<and> mp_samples (parts' ! j) \<noteq> [] \<and> mp_offset (parts' ! j) \<le> length (mp_samples (parts' ! j)) \<and>
      mp_current (parts' ! j) = real (Suc n) * mp_weight (parts' ! j) - ?W * real_of_int (drawn (parts' ! j)) \<and> - ?W < mp_current (parts' ! j)" if "j < ?k" for j
    using part [OF that] nth [OF that] p' top m [OF that] d [OF that] w [OF that] by (auto simp: algebra_simps)
  moreover have "parts' \<noteq> []" using len k(2) by auto
  ultimately have "mixture_inv (Suc n) parts'" unfolding mixture_inv_def len W' by blast
  moreover have "map mp_weight parts' = map mp_weight parts" "map (mset \<circ> mp_samples) parts' = map (mset \<circ> mp_samples) parts"
    using len w m by (auto intro!: nth_equalityI)
  moreover have "s \<in> (\<Union>p \<in> set parts. set (mp_samples p))" using p'(7) i by (auto intro!: bexI [of _ "parts ! i"])
  ultimately show ?thesis using step by blast
qed

lemma draw_mixture_inv:
  assumes law: "\<And>seed xs. mset (shuffle seed xs) = mset xs"
  shows "mixture_inv n parts \<Longrightarrow> \<exists>ss parts'. draw_mixture shuffle args m parts = Inr (ss, parts') \<and> mixture_inv (n + m) parts' \<and> length ss = m \<and>
    map mp_weight parts' = map mp_weight parts \<and> set ss \<subseteq> (\<Union>p \<in> set parts. set (mp_samples p))"
proof (induction m arbitrary: n parts)
  case (Suc m)
  obtain s parts1 where 1: "next_mixture_sample shuffle args parts = Inr (s, parts1)" "mixture_inv (Suc n) parts1" "map mp_weight parts1 = map mp_weight parts"
    "map (mset \<circ> mp_samples) parts1 = map (mset \<circ> mp_samples) parts" "s \<in> (\<Union>p \<in> set parts. set (mp_samples p))"
    using next_mixture_sample_inv [where shuffle = shuffle and args = args, OF law Suc.prems] by blast
  obtain ss parts' where 2: "draw_mixture shuffle args m parts1 = Inr (ss, parts')" "mixture_inv (Suc n + m) parts'" "length ss = m"
    "map mp_weight parts' = map mp_weight parts1" "set ss \<subseteq> (\<Union>p \<in> set parts1. set (mp_samples p))"
    using Suc.IH [OF 1(2)] by blast
  have "map (set_mset \<circ> (mset \<circ> mp_samples)) parts1 = map (set_mset \<circ> (mset \<circ> mp_samples)) parts" using 1(4) by (metis map_map)
  then have "set (map (set \<circ> mp_samples) parts1) = set (map (set \<circ> mp_samples) parts)" by (simp only: comp_def set_mset_mset)
  then have "(\<Union>p \<in> set parts1. set (mp_samples p)) = (\<Union>p \<in> set parts. set (mp_samples p))" by (simp add: image_comp [symmetric] comp_def)
  then show ?case using 1 2 by auto
qed simp

lemma mixture_inv_start:
  assumes "datasets \<noteq> []" "\<forall>d \<in> set datasets. fst d \<noteq> [] \<and> 0 < snd d"
  shows "mixture_inv 0 (map mixture_part_of datasets)"
proof -
  have "0 < total_weight (map mixture_part_of datasets)" unfolding total_weight_def using assms by (intro sum_pos) (auto simp: mixture_part_of_def)
  then show ?thesis using assms by (auto simp: mixture_inv_def mixture_part_of_def drawn_def)
qed

text \<open>
  C15.  A mixture keeps to its weights.  After any number of draws, \<open>n\<close> of them from \<open>k\<close> datasets, a dataset is less than
  one row ahead of its share of \<open>n\<close> by weight and at most \<open>k - 1\<close> rows behind; and whenever all shares are
  whole numbers, every dataset has given exactly its share.  No draw fails, and every
  drawn row is one of the datasets.
\<close>

theorem mixture_shares:
  assumes "\<And>seed xs. mset (shuffle seed xs) = mset xs" "datasets \<noteq> []" "\<forall>d \<in> set datasets. 0 < snd d" "mixture_source datasets = Inr ds"
  defines "W \<equiv> (\<Sum>j < length datasets. snd (datasets ! j))"
  shows "\<exists>rows parts. draw_mixture shuffle args n (the (ds_mixture ds)) = Inr (rows, parts) \<and> length rows = n \<and> set rows \<subseteq> (\<Union>d \<in> set datasets. set (fst d)) \<and>
    length parts = length datasets \<and>
    (\<forall>j < length datasets. real_of_int (drawn (parts ! j)) < real n * snd (datasets ! j) / W + 1 \<and>
       real n * snd (datasets ! j) / W - real (length datasets - 1) \<le> real_of_int (drawn (parts ! j))) \<and>
    ((\<forall>j < length datasets. real n * snd (datasets ! j) / W \<in> \<int>) \<longrightarrow>
       (\<forall>j < length datasets. real_of_int (drawn (parts ! j)) = real n * snd (datasets ! j) / W))"
proof -
  let ?k = "length datasets" and ?start = "map mixture_part_of datasets"
  have ne: "\<forall>d \<in> set datasets. fst d \<noteq> []" and mix: "ds_mixture ds = Some ?start"
    using assms(4) by (auto simp: mixture_source_def new_source_def list_ex_iff split: if_splits)
  obtain rows parts where r: "draw_mixture shuffle args n ?start = Inr (rows, parts)" "mixture_inv n parts" "length rows = n"
    "map mp_weight parts = map mp_weight ?start" "set rows \<subseteq> (\<Union>p \<in> set ?start. set (mp_samples p))"
    using draw_mixture_inv [where shuffle = shuffle and args = args and m = n, OF assms(1) mixture_inv_start [OF assms(2)]] ne assms(3) by auto
  have len: "length parts = ?k" using r(4) by (metis length_map)
  have w: "mp_weight (parts ! j) = snd (datasets ! j)" if "j < ?k" for j
    using that len arg_cong [OF r(4), of "\<lambda>xs. xs ! j"] by (simp add: mixture_part_of_def)
  have W: "total_weight parts = W" using w len by (simp add: total_weight_def W_def)
  have pos: "0 < W" unfolding W_def using assms(2,3) by (intro sum_pos) auto
  define c where "c j = mp_current (parts ! j)" for j
  have c: "c j = real n * snd (datasets ! j) - W * real_of_int (drawn (parts ! j))" "- W < c j" if "j < ?k" for j
    using r(2) that len w W by (auto simp: mixture_inv_def c_def)
  have total: "(\<Sum>j < ?k. drawn (parts ! j)) = int n" using r(2) len by (simp add: mixture_inv_def)
  have "(\<Sum>j < ?k. c j) = real n * W - W * real_of_int (\<Sum>j < ?k. drawn (parts ! j))" by (simp add: c(1) sum_subtractf W_def sum_distrib_left)
  then have zero: "(\<Sum>j < ?k. c j) = 0" using total by simp
  have ahead: "real_of_int (drawn (parts ! j)) < real n * snd (datasets ! j) / W + 1" if "j < ?k" for j
    using c [OF that] pos by (simp add: field_simps)
  have behind: "real n * snd (datasets ! j) / W - real (?k - 1) \<le> real_of_int (drawn (parts ! j))" if "j < ?k" for j
  proof -
    have "(\<Sum>i < ?k. c i) = c j + (\<Sum>i \<in> {..<?k} - {j}. c i)" using that by (intro sum.remove) auto
    moreover have "(\<Sum>i \<in> {..<?k} - {j}. - W) \<le> (\<Sum>i \<in> {..<?k} - {j}. c i)" using c(2) by (intro sum_mono) (auto intro: less_imp_le)
    moreover have "(\<Sum>i \<in> {..<?k} - {j}. - W) = - (real (?k - 1) * W)" using that by simp
    ultimately have "c j \<le> real (?k - 1) * W" using zero by linarith
    then show ?thesis using c(1) [OF that] pos by (simp add: field_simps)
  qed
  have exact: "real_of_int (drawn (parts ! j)) = real n * snd (datasets ! j) / W" if whole: "\<forall>j < ?k. real n * snd (datasets ! j) / W \<in> \<int>" and j: "j < ?k" for j
  proof -
    have le: "real_of_int (drawn (parts ! i)) \<le> real n * snd (datasets ! i) / W" if "i < ?k" for i
    proof -
      have "real n * snd (datasets ! i) / W \<in> \<int>" using whole that by blast
      then obtain z where z: "real n * snd (datasets ! i) / W = real_of_int z" by (rule Ints_cases)
      have "real_of_int (drawn (parts ! i)) < real_of_int (z + 1)" using ahead [OF that] unfolding z by simp
      then show ?thesis unfolding z of_int_less_iff of_int_le_iff by linarith
    qed
    have "(\<Sum>i < ?k. real n * snd (datasets ! i) / W) = real n" using pos by (simp add: sum_divide_distrib [symmetric] sum_distrib_left [symmetric] W_def)
    then have "(\<Sum>i < ?k. real n * snd (datasets ! i) / W - real_of_int (drawn (parts ! i))) = 0" using total by (simp add: sum_subtractf flip: of_int_sum)
    then have "real n * snd (datasets ! j) / W - real_of_int (drawn (parts ! j)) = 0" using le j by (subst (asm) sum_nonneg_eq_0_iff) auto
    then show ?thesis by simp
  qed
  have "set rows \<subseteq> (\<Union>d \<in> set datasets. set (fst d))" using r(5) by (auto simp: mixture_part_of_def)
  then show ?thesis using r(1,3) mix len ahead behind exact by (intro exI [of _ rows] exI [of _ parts]) auto
qed

section \<open>Numbering\<close>

lemma stamp_sample_index [simp]: "da_index (stamp_sample args g i s) = Some i" "da_group_index (stamp_sample args g i s) = Some g"
  "da_prompt (stamp_sample args g i s) = da_prompt s"
  by (simp_all add: stamp_sample_def Let_def)

lemma fresh_groups_spec:
  assumes "fresh_groups args bases ds = (groups, ds')"
  shows "length groups = length bases \<and> ds_sample_group_index ds' = ds_sample_group_index ds + int (length bases) \<and>
    ds_sample_index ds' = ds_sample_index ds + int (length (concat groups)) \<and> ds_buffer ds' = ds_buffer ds \<and>
    map da_index (concat groups) = map (\<lambda>k. Some (ds_sample_index ds + int k)) [0..<length (concat groups)] \<and>
    (\<forall>k < length groups. length (groups ! k) = nat (sa_n_samples_per_prompt args) \<and>
       (\<forall>s \<in> set (groups ! k). da_group_index s = Some (ds_sample_group_index ds + int k) \<and> da_prompt s = da_prompt (bases ! k)))"
  using assms
proof (induction bases arbitrary: ds groups)
  case (Cons b bases)
  let ?n = "nat (sa_n_samples_per_prompt args)"
  let ?g = "map (\<lambda>k. stamp_sample args (ds_sample_group_index ds) (ds_sample_index ds + int k) b) [0..<?n]"
  let ?ds = "ds\<lparr>ds_sample_index := ds_sample_index ds + int ?n, ds_sample_group_index := ds_sample_group_index ds + 1\<rparr>"
  obtain gs where gs: "fresh_groups args bases ?ds = (gs, ds')" "groups = ?g # gs"
    using Cons.prems by (auto simp: fresh_group_def Let_def split: prod.splits)
  note ih = Cons.IH [OF gs(1)]
  let ?m = "length (concat gs)"
  have "map (\<lambda>k. Some (ds_sample_index ?ds + int k)) [0..<?m] = map (\<lambda>k. Some (ds_sample_index ds + int k)) [?n..<?n + ?m]"
    by (rule nth_equalityI) (simp_all add: algebra_simps)
  then have "map da_index (concat groups) = map (\<lambda>k. Some (ds_sample_index ds + int k)) ([0..<?n] @ [?n..<?n + ?m])"
    using ih gs(2) by (simp add: comp_def)
  moreover have "[0..<?n] @ [?n..<?n + ?m] = [0..<length (concat groups)]" using gs(2) upt_add_eq_append [of 0 ?n ?m] by simp
  ultimately have idx: "map da_index (concat groups) = map (\<lambda>k. Some (ds_sample_index ds + int k)) [0..<length (concat groups)]" by (simp only:)
  have "length (groups ! k) = ?n \<and> (\<forall>s \<in> set (groups ! k). da_group_index s = Some (ds_sample_group_index ds + int k) \<and> da_prompt s = da_prompt ((b # bases) ! k))"
    if "k < length groups" for k
    using that ih gs(2) by (cases k) auto
  then show ?case using idx ih gs(2) by auto
qed simp

definition has_rows :: "data_source \<Rightarrow> bool" where
  "has_rows ds \<longleftrightarrow> ds_mixture ds \<noteq> None \<or> ds_samples ds \<noteq> None"

lemma draw_rows_keeps:
  "ds_samples ds \<noteq> None \<Longrightarrow> draw_rows shuffle args n ds = (rows, ds') \<Longrightarrow> ds_buffer ds' = ds_buffer ds \<and> ds_sample_index ds' = ds_sample_index ds \<and>
    ds_sample_group_index ds' = ds_sample_group_index ds \<and> ds_samples ds' \<noteq> None"
proof (induction n arbitrary: ds rows)
  case (Suc n)
  let ?e = "next_epoch shuffle args (the (ds_samples ds)) ds"
  have e: "ds_buffer ?e = ds_buffer ds" "ds_sample_index ?e = ds_sample_index ds" "ds_sample_group_index ?e = ds_sample_group_index ds" "ds_samples ?e \<noteq> None"
    using Suc.prems(1) by (simp_all add: next_epoch_def)
  show ?case
  proof (cases "ds_sample_offset ?e \<ge> length (the (ds_samples ?e))")
    case True
    then show ?thesis using Suc.prems(2) e by (simp add: Let_def)
  next
    case False
    then obtain rest where "draw_rows shuffle args n (?e\<lparr>ds_sample_offset := ds_sample_offset ?e + 1\<rparr>) = (rest, ds')"
      using Suc.prems(2) by (auto simp: Let_def split: prod.splits)
    then show ?thesis using Suc.IH [of "?e\<lparr>ds_sample_offset := ds_sample_offset ?e + 1\<rparr>" rest] e by simp
  qed
qed simp

lemma get_samples_from_buffer_eq: "get_samples_from_buffer n ds = (take n (ds_buffer ds), ds\<lparr>ds_buffer := drop n (ds_buffer ds)\<rparr>)"
  by (auto simp: get_samples_from_buffer_def Let_def min_def)

text \<open>Buffered groups come first and in order; the rest is fresh.\<close>

lemma get_samples_spec:
  assumes "get_samples shuffle parent args n ds = Inr (groups, ds')" "has_rows ds"
  shows "\<exists>bases ds1 fresh. groups = take n (ds_buffer ds) @ fresh \<and> fresh_groups args bases ds1 = (fresh, ds') \<and>
    ds_sample_index ds1 = ds_sample_index ds \<and> ds_sample_group_index ds1 = ds_sample_group_index ds \<and> ds_buffer ds1 = drop n (ds_buffer ds) \<and> has_rows ds1"
proof -
  let ?ds = "ds\<lparr>ds_buffer := drop n (ds_buffer ds)\<rparr>"
  show ?thesis
  proof (cases "n \<le> length (ds_buffer ds)")
    case True
    then have "groups = take n (ds_buffer ds)" "ds' = ?ds" using assms(1) by (auto simp: get_samples_def get_samples_from_buffer_eq)
    then show ?thesis using assms(2) by (intro exI [of _ "[]"] exI [of _ ?ds]) (simp add: has_rows_def)
  next
    case False
    let ?m = "n - length (ds_buffer ds)"
    obtain bases ds1 where b: "case ds_mixture ds of
          Some parts \<Rightarrow> \<exists>parts'. draw_mixture shuffle args ?m parts = Inr (bases, parts') \<and> ds1 = ?ds\<lparr>ds_mixture := Some parts'\<rparr>
        | None \<Rightarrow> draw_rows shuffle args ?m ?ds = (bases, ds1)"
      "(let (fresh, ds2) = fresh_groups args bases ds1 in (take n (ds_buffer ds) @ fresh, ds2)) = (groups, ds')"
      using assms False by (cases "ds_mixture ds"; cases "ds_samples ds")
        (auto simp: get_samples_def get_samples_from_buffer_eq has_rows_def rbind_eq_Inr Let_def split: prod.splits)
    have "ds_sample_index ds1 = ds_sample_index ds \<and> ds_sample_group_index ds1 = ds_sample_group_index ds \<and> ds_buffer ds1 = drop n (ds_buffer ds) \<and> has_rows ds1"
      using b(1) assms(2) draw_rows_keeps [of ?ds shuffle args ?m bases ds1] by (auto simp: has_rows_def split: option.splits)
    then show ?thesis using b(2) by (auto split: prod.splits)
  qed
qed

lemma fresh_groups_rows: "fresh_groups args bases ds = (groups, ds') \<Longrightarrow> has_rows ds \<Longrightarrow> has_rows ds'"
  by (induction bases arbitrary: ds groups) (auto simp: fresh_group_def has_rows_def Let_def split: prod.splits)

text \<open>A run of a source: calls in any order, and the fresh groups they hand out.\<close>

inductive source_run :: "(int \<Rightarrow> data_sample list \<Rightarrow> data_sample list) \<Rightarrow> (nat \<Rightarrow> data_sample list list) \<Rightarrow> source_args \<Rightarrow> data_source \<Rightarrow> data_sample list list \<Rightarrow> data_source \<Rightarrow> bool"
  for shuffle parent args ds where
  run_start: "source_run shuffle parent args ds [] ds"
| run_get: "\<lbrakk>source_run shuffle parent args ds fresh ds1; get_samples shuffle parent args n ds1 = Inr (groups, ds2)\<rbrakk> \<Longrightarrow>
    source_run shuffle parent args ds (fresh @ drop (min n (length (ds_buffer ds1))) groups) ds2"
| run_add: "source_run shuffle parent args ds fresh ds1 \<Longrightarrow> source_run shuffle parent args ds fresh (add_samples groups ds1)"

text \<open>
  Fresh samples are numbered without gaps or repetitions: whatever calls are made, in any order and with any
  groups handed back for a retry in between, the fresh samples carry the consecutive indices from
  the first one on in the order in which they were handed out, every fresh group has one sample per
  repetition of its prompt, and its members carry the next group index.
\<close>

theorem fresh_samples_numbered:
  assumes "source_run shuffle parent args ds fresh ds'" "has_rows ds"
  shows "map da_index (concat fresh) = map (\<lambda>k. Some (ds_sample_index ds + int k)) [0..<length (concat fresh)] \<and>
    (\<forall>k < length fresh. length (fresh ! k) = nat (sa_n_samples_per_prompt args) \<and>
       (\<forall>s \<in> set (fresh ! k). da_group_index s = Some (ds_sample_group_index ds + int k)))"
proof -
  have "has_rows ds' \<and> ds_sample_index ds' = ds_sample_index ds + int (length (concat fresh)) \<and> ds_sample_group_index ds' = ds_sample_group_index ds + int (length fresh) \<and>
    map da_index (concat fresh) = map (\<lambda>k. Some (ds_sample_index ds + int k)) [0..<length (concat fresh)] \<and>
    (\<forall>k < length fresh. length (fresh ! k) = nat (sa_n_samples_per_prompt args) \<and>
       (\<forall>s \<in> set (fresh ! k). da_group_index s = Some (ds_sample_group_index ds + int k)))"
    using assms(1)
  proof induction
    case (run_get fresh ds1 n groups ds2)
    obtain bases ds0 new where g: "groups = take n (ds_buffer ds1) @ new" "fresh_groups args bases ds0 = (new, ds2)"
      "ds_sample_index ds0 = ds_sample_index ds1" "ds_sample_group_index ds0 = ds_sample_group_index ds1" "has_rows ds0"
      using get_samples_spec [OF run_get.hyps(2)] run_get.IH by blast
    have new: "drop (min n (length (ds_buffer ds1))) groups = new" using g(1) by simp
    note f = fresh_groups_spec [OF g(2)]
    let ?n = "length (concat fresh)" and ?m = "length (concat new)"
    have "map (\<lambda>k. Some (ds_sample_index ds1 + int k)) [0..<?m] = map (\<lambda>k. Some (ds_sample_index ds + int k)) [?n..<?n + ?m]"
      using run_get.IH by (intro nth_equalityI) (simp_all add: algebra_simps)
    then have "map da_index (concat (fresh @ new)) = map (\<lambda>k. Some (ds_sample_index ds + int k)) [0..<?n + ?m]"
      using run_get.IH f g(3) upt_add_eq_append [of 0 ?n ?m] by simp
    moreover have "length ((fresh @ new) ! k) = nat (sa_n_samples_per_prompt args) \<and>
        (\<forall>s \<in> set ((fresh @ new) ! k). da_group_index s = Some (ds_sample_group_index ds + int k))" if "k < length (fresh @ new)" for k
    proof (cases "k < length fresh")
      case False
      let ?k = "k - length fresh"
      have k: "(fresh @ new) ! k = new ! ?k" "?k < length new" "int k = int (length fresh) + int ?k" using False that by (auto simp: nth_append)
      show ?thesis using f k(2) g(4) run_get.IH unfolding k(1,3) by simp
    qed (use run_get.IH in \<open>simp add: nth_append\<close>)
    ultimately show ?case unfolding new using f g(3,4) run_get.IH fresh_groups_rows [OF g(2,5)] by simp
  qed (use assms(2) in \<open>simp_all add: add_samples_def has_rows_def\<close>)
  then show ?thesis by blast
qed

section \<open>A mixture of two datasets\<close>

definition sample_mopd :: pyval where
  "sample_mopd = PDict
     [(''teachers'', PDict [(''math'', PDict [(''load'', PStr ''/m'')]), (''code'', PDict [(''load'', PStr ''/c''), (''ckpt_step'', PInt 7)])]),
      (''datasets'', PList
         [PDict [(''path'', PStr ''a/m.jsonl''), (''teacher_id'', PStr '' math ''), (''weight'', PInt 2), (''agent_mode'', PStr ''Blackbox'')],
          PDict [(''path'', PStr ''c.jsonl''), (''name'', PStr ''code''), (''teacher_id'', PStr ''code''), (''agent_mode'', PStr ''whitebox''),
                 (''generate_function_path'', PStr ''gen.f'')]])]"

definition sample_py_lib :: py_lib where
  "sample_py_lib = \<lparr>json_loads = (\<lambda>_. None), json_dumps = (\<lambda>_. []), py_repr = (\<lambda>_. []), sha256_hex = (\<lambda>s. s), text_float = (\<lambda>_. None)\<rparr>"

definition sample_row :: "string \<Rightarrow> (string, pyval) dict" where
  "sample_row p = [(''prompt'', PStr p), (''teacher_id'', PStr ''none''), (''metadata'', PDict [(''teacher_id'', PStr ''code'')])]"

definition sample_mopd_config :: mopd_config where
  "sample_mopd_config = projr (mopd_config_from_dict sample_py_lib sample_mopd)"

definition sample_rows :: "data_sample list" where
  "sample_rows = projr (load_text_first sample_py_lib ''prompt'' None ''metadata'' (md_metadata (mc_datasets sample_mopd_config ! 0))
     (md_generate_function_path (mc_datasets sample_mopd_config ! 0)) [sample_row ''p'', sample_row ''q''])"

lemma sample_mopd_loads:
  "mopd_config_from_dict sample_py_lib sample_mopd = Inr sample_mopd_config"
  "map md_name (mc_datasets sample_mopd_config) = [''m'', ''code'']" "dict_ok (md_metadata (mc_datasets sample_mopd_config ! 0))"
  "md_teacher_id (mc_datasets sample_mopd_config ! 0) = ''math''"
  "load_text_first sample_py_lib ''prompt'' None ''metadata'' (md_metadata (mc_datasets sample_mopd_config ! 0))
     (md_generate_function_path (mc_datasets sample_mopd_config ! 0)) [sample_row ''p'', sample_row ''q''] = Inr sample_rows"
  "length sample_rows = 2"
  by code_simp+

theorem mopd_rows_routed_witness:
  "\<exists>teacher. route_mopd_teacher sample_py_lib (mc_teachers sample_mopd_config)
       (plain_sample\<lparr>ts_teacher_id := pget (da_metadata (sample_rows ! 0)) ''teacher_id''\<rparr>) = Inr teacher \<and> mt_teacher_id teacher = ''math''"
proof -
  have d: "mc_datasets sample_mopd_config ! 0 \<in> set (mc_datasets sample_mopd_config)"
    using arg_cong [OF sample_mopd_loads(2), of length] by (intro nth_mem) simp
  have s: "sample_rows ! 0 \<in> set sample_rows" using sample_mopd_loads(6) by (intro nth_mem) simp
  show ?thesis
    using mopd_rows_routed [OF sample_mopd_loads(1) d sample_mopd_loads(3,5) s,
        of "plain_sample\<lparr>ts_teacher_id := pget (da_metadata (sample_rows ! 0)) ''teacher_id''\<rparr>"] sample_mopd_loads(4) by auto
qed

definition sample_source_args :: source_args where
  "sample_source_args = \<lparr>sa_rollout_shuffle = True, sa_rollout_seed = 1, sa_n_samples_per_prompt = 2, sa_sglang_enable_deterministic_inference = True\<rparr>"

definition turn_round :: "int \<Rightarrow> 'a list \<Rightarrow> 'a list" where
  "turn_round seed xs = (if even seed then rev xs else xs)"

lemma turn_round_mset: "mset (turn_round seed xs) = mset xs"
  by (simp add: turn_round_def)

theorem epochs_visit_every_row_witness:
  "\<exists>blocks ds'. draw_rows turn_round sample_source_args (3 * 2) (text_source turn_round sample_source_args sample_rows) = (concat blocks, ds') \<and>
     length blocks = 3 \<and> (\<forall>b \<in> set blocks. mset b = mset sample_rows)"
proof -
  let ?rows = "turn_round 1 sample_rows"
  have ds: "ds_samples (text_source turn_round sample_source_args sample_rows) = Some ?rows"
    "ds_sample_offset (text_source turn_round sample_source_args sample_rows) \<in> {0, length ?rows}"
    by (simp_all add: text_source_def new_source_def sample_source_args_def)
  have "length ?rows = 2" using sample_mopd_loads(6) mset_eq_length [OF turn_round_mset] by metis
  moreover from this have "?rows \<noteq> []" by auto
  ultimately show ?thesis
    using epochs_visit_every_row [where shuffle = turn_round and args = sample_source_args and k = 3, OF turn_round_mset ds(1) _ ds(2)]
    by (auto simp: turn_round_mset)
qed

theorem mixture_shares_witness:
  "\<exists>rows parts. draw_mixture turn_round sample_source_args 6 (map mixture_part_of [(sample_rows, 2), (sample_rows, 1)]) = Inr (rows, parts) \<and>
     length rows = 6 \<and> map drawn parts = [4, 2]"
proof -
  let ?d = "[(sample_rows, 2 :: real), (sample_rows, 1)]"
  have ne: "sample_rows \<noteq> []" using sample_mopd_loads(6) by auto
  have m: "mixture_source ?d = Inr (new_source None (Some (map mixture_part_of ?d)))" using ne by (simp add: mixture_source_def)
  have shares: "\<forall>j < length ?d. real 6 * snd (?d ! j) / (\<Sum>j < length ?d. snd (?d ! j)) \<in> \<int>" by (auto simp: less_Suc_eq)
  obtain rows parts where "draw_mixture turn_round sample_source_args 6 (map mixture_part_of ?d) = Inr (rows, parts)" "length rows = 6" "length parts = 2"
    "\<forall>j < length ?d. real_of_int (drawn (parts ! j)) = real 6 * snd (?d ! j) / (\<Sum>j < length ?d. snd (?d ! j))"
    using mixture_shares [where shuffle = turn_round and args = sample_source_args and n = 6 and datasets = ?d, OF turn_round_mset _ _ m] shares
    by (auto simp: new_source_def)
  moreover from this(3,4) have "map drawn parts = [4, 2]"
    by (cases parts; cases "tl parts") (auto simp: less_Suc_eq)
  ultimately show ?thesis by (intro exI conjI)
qed

theorem fresh_samples_numbered_witness:
  "\<exists>fresh ds'. source_run turn_round (\<lambda>_. []) sample_source_args (text_source turn_round sample_source_args sample_rows) fresh ds' \<and>
     map da_index (concat fresh) = [Some 0, Some 1, Some 2, Some 3] \<and> map (map da_group_index) fresh = [[Some 0, Some 0], [Some 1, Some 1]]"
proof -
  let ?ds = "text_source turn_round sample_source_args sample_rows" and ?get = "get_samples turn_round (\<lambda>_. []) sample_source_args"
  have "(case ?get 1 ?ds of Inl _ \<Rightarrow> None | Inr (gs, ds1) \<Rightarrow> (case ?get 2 (add_samples gs ds1) of Inl _ \<Rightarrow> None | Inr (hs, ds2) \<Rightarrow>
      Some (map length gs, map length hs, length (ds_buffer ds1)))) = Some ([2], [2, 2], 0)" by code_simp
  then obtain gs ds1 hs ds2 where g: "?get 1 ?ds = Inr (gs, ds1)" "?get 2 (add_samples gs ds1) = Inr (hs, ds2)" "map length gs = [2]" "map length hs = [2, 2]" "ds_buffer ds1 = []"
    by (auto split: sum.splits prod.splits)
  have b: "ds_buffer ?ds = []" by (simp add: text_source_def new_source_def)
  have len: "length gs = 1" "length hs = 2" using g(3,4) by (metis length_map list.size(3,4) One_nat_def Suc_1 add.left_neutral plus_1_eq_Suc)+
  have r1: "source_run turn_round (\<lambda>_. []) sample_source_args ?ds gs ds1"
    using run_get [OF run_start g(1)] b by simp
  have r2: "source_run turn_round (\<lambda>_. []) sample_source_args ?ds (gs @ drop 1 hs) ds2"
    using run_get [OF run_add [OF r1, of gs] g(2)] len by (simp add: add_samples_def g(5))
  have rows: "has_rows ?ds" "ds_sample_index ?ds = 0" "ds_sample_group_index ?ds = 0" by (simp_all add: has_rows_def text_source_def new_source_def)
  obtain a b c where ab: "gs = [a]" "hs = [b, c]" using len by (auto simp: length_Suc_conv numeral_2_eq_2)
  then have l: "length a = 2" "length c = 2" using g(3,4) by simp_all
  note f = fresh_samples_numbered [OF r2 rows(1)]
  have "map da_index (concat (gs @ drop 1 hs)) = [Some 0, Some 1, Some 2, Some 3]"
    using f ab l rows by (simp add: upt_rec)
  moreover have "map (map da_group_index) (gs @ drop 1 hs) = [[Some 0, Some 0], [Some 1, Some 1]]"
  proof -
    have "\<forall>s \<in> set a. da_group_index s = Some 0" "\<forall>s \<in> set c. da_group_index s = Some 1" using f ab rows by (auto simp: less_Suc_eq)
    then show ?thesis using ab l by (auto simp: length_Suc_conv numeral_2_eq_2)
  qed
  ultimately show ?thesis using r2 by (intro exI conjI)
qed

end
