(* ===== verification/Sandbox_Lifecycle.thy ===== *)
theory Sandbox_Lifecycle
  imports Data_Source
begin

text \<open>
  Who owns a sandbox: initialisation and termination by the blackbox paddock
  (\<open>dressage/paddock/blackbox/paddock.py\<close>), tracked background work (\<open>dressage/paddock/lifecycle.py\<close>), sandboxes
  that are prepared ahead of time (\<open>dressage/rollout/prewarm\<close>), and the part of the dispatch of a sample that
  obtains and gives back its sandbox (\<open>dressage/rollout/generate/blackbox_dispatch.py\<close>).

  The coroutines are split at their suspension points.  A session has one call of \<open>init\<close>; its phase
  says where that call is.  What a sandbox provider answers, and when, is an argument; a
  lease is named by the provider.  The agent run between obtaining and giving back a sandbox is
  not part of this theory.  Session names are fresh, as the random names of the code are.

  The lemmas show that every lease is at exactly one place from its creation to its termination, that a
  running sample has a live sandbox, that nothing is leaked when the work comes to rest, and that it always can.
\<close>

section \<open>Session names\<close>

definition ensure_blackbox_session_id :: "string \<Rightarrow> data_sample \<Rightarrow> (string \<times> data_sample) result" where
  "ensure_blackbox_session_id fresh s =
     rbind (case pget (da_metadata s) ''dressage_deterministic_session_id'' of
              PStr det \<Rightarrow> rbind (py_int (dget_or (da_metadata s) ''dressage_retry_count'' (PInt 0))) (\<lambda>n.
                            Inr (if n \<noteq> 0 then det @ ''-retry-'' @ show_int n else det))
            | _ \<Rightarrow> Inr (case da_session_id s of Some i \<Rightarrow> i | None \<Rightarrow> fresh)) (\<lambda>sid.
       let sid = (if startswith ''bbs-'' sid then sid else ''bbs-'' @ sid)
       in Inr (sid, s\<lparr>da_session_id := Some sid\<rparr>))"

definition env_arg_keys :: "string list" where
  "env_arg_keys = [''sandbox_timeout_sec'', ''sandbox_image'', ''sandbox_cmd'', ''sandbox_extra_params'']"

definition paddock_env_args_from_metadata :: "(string, pyval) dict \<Rightarrow> (string, pyval) dict \<Rightarrow> (string, pyval) dict" where
  "paddock_env_args_from_metadata metadata extra =
     dupdate extra (List.map_filter (\<lambda>k. map_option (\<lambda>v. (k, v)) (dget metadata k)) env_arg_keys)"


section \<open>The prewarm store\<close>

record prewarm_record =
  pr_session_id :: string
  pr_group_id :: int
  pr_env_args :: "(string, pyval) dict"

record prewarm_store =
  ps_records :: "(string, prewarm_record) dict"
  ps_group_sessions :: "(int, string list) dict"

definition unclaimed_count :: "prewarm_store \<Rightarrow> nat" where
  "unclaimed_count st = length (ps_records st)"

definition store_record :: "prewarm_record \<Rightarrow> prewarm_store \<Rightarrow> prewarm_store" where
  "store_record r st =
     st\<lparr>ps_records := dset (pr_session_id r) r (ps_records st),
        ps_group_sessions := (let members = dget_or (ps_group_sessions st) (pr_group_id r) []
                              in dset (pr_group_id r) (if pr_session_id r \<in> set members then members else members @ [pr_session_id r]) (ps_group_sessions st))\<rparr>"

definition take_record :: "string \<Rightarrow> prewarm_store \<Rightarrow> prewarm_record option \<times> prewarm_store" where
  "take_record sid st =
     (case dget (ps_records st) sid of
        None \<Rightarrow> (None, st)
      | Some r \<Rightarrow>
          (let st = st\<lparr>ps_records := dpop sid (ps_records st)\<rparr>
           in (Some r,
               case dget (ps_group_sessions st) (pr_group_id r) of
                 None \<Rightarrow> st
               | Some members \<Rightarrow>
                   (let members = filter (\<lambda>s. s \<noteq> sid) members
                    in st\<lparr>ps_group_sessions := (if members = [] then dpop (pr_group_id r) (ps_group_sessions st)
                                               else dset (pr_group_id r) members (ps_group_sessions st))\<rparr>))))"

definition pop_group :: "int \<Rightarrow> prewarm_store \<Rightarrow> prewarm_record list \<times> prewarm_store" where
  "pop_group gid st =
     (let sids = dget_or (ps_group_sessions st) gid [];
          found = List.map_filter (dget (ps_records st)) sids
      in (found, \<lparr>ps_records = fold dpop sids (ps_records st), ps_group_sessions = dpop gid (ps_group_sessions st)\<rparr>))"

definition pop_all :: "prewarm_store \<Rightarrow> prewarm_record list \<times> prewarm_store" where
  "pop_all st = (dvalues (ps_records st), \<lparr>ps_records = [], ps_group_sessions = []\<rparr>)"

text \<open>Every record is indexed under its group and every index entry has its record.\<close>

definition store_ok :: "prewarm_store \<Rightarrow> bool" where
  "store_ok st \<longleftrightarrow> dict_ok (ps_records st) \<and> dict_ok (ps_group_sessions st) \<and>
     (\<forall>sid r. dget (ps_records st) sid = Some r \<longrightarrow> pr_session_id r = sid) \<and>
     (\<forall>gid sids. dget (ps_group_sessions st) gid = Some sids \<longrightarrow> sids \<noteq> [] \<and> distinct sids) \<and>
     (\<forall>gid sid. sid \<in> set (dget_or (ps_group_sessions st) gid []) \<longleftrightarrow> (\<exists>r. dget (ps_records st) sid = Some r \<and> pr_group_id r = gid))"

lemma store_record_ok:
  assumes "store_ok st" "\<not> dmem (pr_session_id r) (ps_records st)"
  shows "store_ok (store_record r st)" "mset (dkeys (ps_records (store_record r st))) = add_mset (pr_session_id r) (mset (dkeys (ps_records st)))"
proof -
  have "pr_session_id r \<notin> set (dget_or (ps_group_sessions st) gid [])" for gid using assms by (auto simp: store_ok_def dmem_def)
  then show "store_ok (store_record r st)" using assms
    by (auto simp: store_ok_def store_record_def dmem_def Let_def dget_or_def split: option.splits)
  show "mset (dkeys (ps_records (store_record r st))) = add_mset (pr_session_id r) (mset (dkeys (ps_records st)))"
    using assms(2) by (simp add: store_record_def dset_new)
qed
lemma mset_dkeys_dpop: "dict_ok d \<Longrightarrow> dmem k d \<Longrightarrow> mset (dkeys d) = add_mset k (mset (dkeys (dpop k d)))"
proof (induction d)
  case (Cons e d)
  have "k \<notin> fst ` set d \<Longrightarrow> dpop k d = d" by (simp add: delete_notin_dom)
  then show ?case using Cons by (cases e) (auto simp: dict_ok_def dmem_iff)
qed (simp add: dmem_def)

lemma mset_dkeys_pops:
  "dict_ok d \<Longrightarrow> distinct ks \<Longrightarrow> \<forall>k \<in> set ks. dmem k d \<Longrightarrow> mset (dkeys d) = mset ks + mset (dkeys (fold dpop ks d))"
proof (induction ks arbitrary: d)
  case (Cons k ks)
  have "mset (dkeys (dpop k d)) = mset ks + mset (dkeys (fold dpop ks (dpop k d)))" using Cons.prems by (intro Cons.IH) auto
  then show ?case using mset_dkeys_dpop [of d k] Cons.prems by simp
qed simp

lemma take_record_ok:
  assumes "store_ok st" "take_record sid st = (Some r, st')"
  shows "store_ok st'" "pr_session_id r = sid" "mset (dkeys (ps_records st)) = add_mset sid (mset (dkeys (ps_records st')))"
proof -
  have r: "dget (ps_records st) sid = Some r" using assms(2) by (auto simp: take_record_def Let_def split: option.splits)
  then show sid: "pr_session_id r = sid" using assms(1) by (simp add: store_ok_def)
  have "sid \<in> set (dget_or (ps_group_sessions st) (pr_group_id r) [])" using assms(1) r unfolding store_ok_def by blast
  then obtain members where m: "dget (ps_group_sessions st) (pr_group_id r) = Some members"
    by (cases "dget (ps_group_sessions st) (pr_group_id r)") (simp_all add: dget_or_def)
  let ?rest = "filter (\<lambda>s. s \<noteq> sid) members"
  have st': "ps_records st' = dpop sid (ps_records st)"
    "ps_group_sessions st' = (if ?rest = [] then dpop (pr_group_id r) (ps_group_sessions st) else dset (pr_group_id r) ?rest (ps_group_sessions st))"
    using assms(2) r m by (auto simp: take_record_def Let_def)
  have get: "dget_or (ps_group_sessions st') gid [] = filter (\<lambda>s. s \<noteq> sid) (dget_or (ps_group_sessions st) gid [])" for gid
  proof (cases "gid = pr_group_id r")
    case False
    then have "sid \<notin> set (dget_or (ps_group_sessions st) gid [])" using assms(1) r unfolding store_ok_def by (metis option.inject)
    then have "filter (\<lambda>s. s \<noteq> sid) (dget_or (ps_group_sessions st) gid []) = dget_or (ps_group_sessions st) gid []" by (intro filter_True) auto
    moreover have "dget (ps_group_sessions st') gid = dget (ps_group_sessions st) gid" using False by (simp add: st'(2))
    ultimately show ?thesis by (simp add: dget_or_def)
  qed (simp add: st'(2) dget_or_def m)
  show "mset (dkeys (ps_records st)) = add_mset sid (mset (dkeys (ps_records st')))"
    using r assms(1) unfolding st'(1) store_ok_def by (intro mset_dkeys_dpop) (auto simp: dmem_def)
  show "store_ok st'"
    unfolding store_ok_def get
  proof (intro conjI allI impI)
    show "dict_ok (ps_records st')" "dict_ok (ps_group_sessions st')" using assms(1) st' by (auto simp: store_ok_def)
  qed (use assms(1) m in \<open>auto simp: st' store_ok_def split: if_splits\<close>)
qed

lemma pop_group_ok:
  assumes "store_ok st" "pop_group gid st = (found, st')"
  shows "store_ok st'" "mset (dkeys (ps_records st)) = mset (map pr_session_id found) + mset (dkeys (ps_records st'))"
    "\<forall>r \<in> set found. pr_group_id r = gid" "\<forall>sid r. dget (ps_records st') sid = Some r \<longrightarrow> pr_group_id r \<noteq> gid"
proof -
  let ?sids = "dget_or (ps_group_sessions st) gid []"
  have out: "found = List.map_filter (dget (ps_records st)) ?sids" "st' = \<lparr>ps_records = fold dpop ?sids (ps_records st), ps_group_sessions = dpop gid (ps_group_sessions st)\<rparr>"
    using assms(2) by (auto simp: pop_group_def Let_def)
  have idx: "sid \<in> set ?sids \<longleftrightarrow> (\<exists>r. dget (ps_records st) sid = Some r \<and> pr_group_id r = gid)" for sid using assms(1) unfolding store_ok_def by blast
  have dist: "distinct ?sids" using assms(1) by (auto simp: store_ok_def dget_or_def split: option.splits)
  have name: "dget (ps_records st) sid = Some r \<Longrightarrow> pr_session_id r = sid" for sid r using assms(1) unfolding store_ok_def by blast
  have "map pr_session_id (List.map_filter (dget (ps_records st)) sids) = sids" if "set sids \<subseteq> set ?sids" for sids
    using that by (induction sids) (auto simp: List.map_filter_simps idx name)
  then have found: "map pr_session_id found = ?sids" by (simp add: out(1))
  have "mset (dkeys (ps_records st)) = mset ?sids + mset (dkeys (fold dpop ?sids (ps_records st)))"
    using assms(1) dist idx by (intro mset_dkeys_pops) (auto simp: store_ok_def dmem_def)
  then show "mset (dkeys (ps_records st)) = mset (map pr_session_id found) + mset (dkeys (ps_records st'))" using found by (simp add: out(2))
  show "\<forall>r \<in> set found. pr_group_id r = gid" using idx by (auto simp: out(1) List.map_filter_def)
  show "\<forall>sid r. dget (ps_records st') sid = Some r \<longrightarrow> pr_group_id r \<noteq> gid" using idx by (auto simp: out(2) pd.get_pop_many)
  show "store_ok st'" using assms(1) unfolding store_ok_def out(2) by (auto simp: pd.get_pop_many pd.ok_pop_many dget_or_def idx [unfolded dget_or_def])
qed

lemma pop_all_ok:
  assumes "store_ok st" "pop_all st = (found, st')"
  shows "store_ok st'" "mset (dkeys (ps_records st)) = mset (map pr_session_id found)" "ps_records st' = []"
proof -
  have "map pr_session_id (dvalues (ps_records st)) = dkeys (ps_records st)"
    using assms(1) by (auto simp: store_ok_def dget_in_set)
  then show "mset (dkeys (ps_records st)) = mset (map pr_session_id found)" using assms(2) by (simp only: pop_all_def prod.inject)
  show "store_ok st'" "ps_records st' = []" using assms(2) by (auto simp: pop_all_def store_ok_def)
qed

section \<open>Sandboxes and background work\<close>

type_synonym lease = string

datatype create_status = CreatePending | Created lease | CreateFailed

text \<open>
  Where the \<open>init\<close> call of a session is: its task has not run yet, it waits for the provider, it checks the
  new sandbox, it waits for the cleanup of a sandbox it gives up, it has returned or it has raised.
\<close>

datatype init_phase = Unstarted | Creating | Checking lease | Failing | Ready | Raised

text \<open>Tracked lifecycle tasks.  \<open>Releasing\<close> has called the provider and waits for its answer.\<close>

datatype lifecycle_task =
    Dispose string
  | DisposeWait string
  | TerminatePaddock string
  | OrphanCreate string
  | InitCleanup string lease
  | Releasing lease

record sandbox_world =
  sw_store :: prewarm_store
  sw_inits :: "(string, init_phase) dict"
  sw_creates :: "(string, create_status) dict"
  sw_leases :: "(string, lease) dict"
  sw_states :: "(string, lease) dict"
  sw_tasks :: "lifecycle_task list"
  sw_claims :: "string list"
  sw_inline :: "string list"
  sw_running :: "string list"
  sw_terminated :: "lease list"
  sw_issued :: "lease list"

definition new_world :: sandbox_world where
  "new_world = \<lparr>sw_store = \<lparr>ps_records = [], ps_group_sessions = []\<rparr>, sw_inits = [], sw_creates = [], sw_leases = [], sw_states = [],
     sw_tasks = [], sw_claims = [], sw_inline = [], sw_running = [], sw_terminated = [], sw_issued = []\<rparr>"

definition schedule_lifecycle_task :: "lifecycle_task \<Rightarrow> sandbox_world \<Rightarrow> sandbox_world" where
  "schedule_lifecycle_task t w = w\<lparr>sw_tasks := sw_tasks w @ [t]\<rparr>"

definition pending_lifecycle_task_count :: "sandbox_world \<Rightarrow> nat" where
  "pending_lifecycle_task_count w = length (sw_tasks w)"

definition init_of :: "string \<Rightarrow> sandbox_world \<Rightarrow> init_phase option" where
  "init_of sid w = dget (sw_inits w) sid"

definition set_phase :: "string \<Rightarrow> init_phase \<Rightarrow> sandbox_world \<Rightarrow> sandbox_world" where
  "set_phase sid p w = w\<lparr>sw_inits := dset sid p (sw_inits w)\<rparr>"

definition init_finished :: "string \<Rightarrow> sandbox_world \<Rightarrow> bool" where
  "init_finished sid w \<longleftrightarrow> init_of sid w \<in> {Some Ready, Some Raised}"

section \<open>\<open>BlackboxAgentPaddock.init\<close>\<close>

text \<open>The call starts: the provider is asked for a sandbox in a task of its own.\<close>

definition init_begin :: "string \<Rightarrow> sandbox_world \<Rightarrow> sandbox_world" where
  "init_begin sid w = (set_phase sid Creating w)\<lparr>sw_creates := dset sid CreatePending (sw_creates w)\<rparr>"

definition provider_created :: "string \<Rightarrow> lease option \<Rightarrow> sandbox_world \<Rightarrow> sandbox_world" where
  "provider_created sid answer w =
     (case answer of
        Some l \<Rightarrow> w\<lparr>sw_creates := dset sid (Created l) (sw_creates w), sw_issued := sw_issued w @ [l]\<rparr>
      | None \<Rightarrow> w\<lparr>sw_creates := dset sid CreateFailed (sw_creates w)\<rparr>)"

text \<open>A sample that initialises its sandbox itself learns the outcome at once.\<close>

definition settle_inline :: "string \<Rightarrow> bool \<Rightarrow> sandbox_world \<Rightarrow> sandbox_world" where
  "settle_inline sid initialized w =
     (if sid \<in> set (sw_inline w)
      then w\<lparr>sw_inline := remove1 sid (sw_inline w), sw_running := (if initialized then sw_running w @ [sid] else sw_running w)\<rparr>
      else w)"

definition init_resume :: "string \<Rightarrow> sandbox_world \<Rightarrow> sandbox_world" where
  "init_resume sid w =
     (case dget (sw_creates w) sid of
        Some (Created l) \<Rightarrow> set_phase sid (Checking l) (w\<lparr>sw_creates := dpop sid (sw_creates w)\<rparr>)
      | Some CreateFailed \<Rightarrow> settle_inline sid False (set_phase sid Raised (w\<lparr>sw_creates := dpop sid (sw_creates w)\<rparr>))
      | _ \<Rightarrow> w)"

definition init_done :: "string \<Rightarrow> lease \<Rightarrow> sandbox_world \<Rightarrow> sandbox_world" where
  "init_done sid l w =
     settle_inline sid True (set_phase sid Ready (w\<lparr>sw_leases := dset sid l (sw_leases w), sw_states := dset sid l (sw_states w)\<rparr>))"

text \<open>A step after the creation raises: the lease is handed to a cleanup task.\<close>

definition init_cleanup :: "string \<Rightarrow> lease \<Rightarrow> sandbox_world \<Rightarrow> sandbox_world" where
  "init_cleanup sid l w =
     (schedule_lifecycle_task (InitCleanup sid l) w)\<lparr>sw_leases := dpop sid (sw_leases w), sw_states := dpop sid (sw_states w)\<rparr>"

definition init_fails :: "string \<Rightarrow> lease \<Rightarrow> sandbox_world \<Rightarrow> sandbox_world" where
  "init_fails sid l w = set_phase sid Failing (init_cleanup sid l w)"

definition init_raises :: "string \<Rightarrow> sandbox_world \<Rightarrow> sandbox_world" where
  "init_raises sid w = settle_inline sid False (set_phase sid Raised w)"

text \<open>
  Cancellation of the task that runs the call.  While the provider creates the sandbox, a cleanup task takes over the
  creation; after that the lease goes to a cleanup task.
\<close>

definition cancel_init :: "string \<Rightarrow> sandbox_world \<Rightarrow> sandbox_world" where
  "cancel_init sid w =
     (case init_of sid w of
        Some Unstarted \<Rightarrow> set_phase sid Raised w
      | Some Creating \<Rightarrow> set_phase sid Raised (schedule_lifecycle_task (OrphanCreate sid) w)
      | Some (Checking l) \<Rightarrow> set_phase sid Raised (init_cleanup sid l w)
      | Some Failing \<Rightarrow> set_phase sid Raised w
      | _ \<Rightarrow> w)"

section \<open>Termination\<close>

definition provider_terminate :: "lease \<Rightarrow> sandbox_world \<Rightarrow> sandbox_world" where
  "provider_terminate l w = w\<lparr>sw_terminated := sw_terminated w @ [l], sw_tasks := sw_tasks w @ [Releasing l]\<rparr>"

text \<open>\<open>BlackboxAgentPaddock.terminate\<close>; a session without a lease but with a state is terminated by its name.\<close>

definition paddock_terminate :: "string \<Rightarrow> sandbox_world \<Rightarrow> sandbox_world" where
  "paddock_terminate sid w =
     (let w' = w\<lparr>sw_states := dpop sid (sw_states w), sw_leases := dpop sid (sw_leases w)\<rparr>
      in case dget (sw_leases w) sid of
           Some l \<Rightarrow> provider_terminate l w'
         | None \<Rightarrow> (case dget (sw_states w) sid of None \<Rightarrow> w' | Some _ \<Rightarrow> provider_terminate sid w'))"

definition finish_lifecycle_task :: "lifecycle_task \<Rightarrow> sandbox_world \<Rightarrow> sandbox_world" where
  "finish_lifecycle_task t w = w\<lparr>sw_tasks := remove1 t (sw_tasks w)\<rparr>"

definition dispose_begin :: "string \<Rightarrow> sandbox_world \<Rightarrow> sandbox_world" where
  "dispose_begin sid w =
     (let w = schedule_lifecycle_task (DisposeWait sid) (finish_lifecycle_task (Dispose sid) w)
      in if init_finished sid w then w else cancel_init sid w)"

definition dispose_end :: "string \<Rightarrow> sandbox_world \<Rightarrow> sandbox_world" where
  "dispose_end sid w = paddock_terminate sid (finish_lifecycle_task (DisposeWait sid) w)"

definition run_terminate :: "string \<Rightarrow> sandbox_world \<Rightarrow> sandbox_world" where
  "run_terminate sid w = paddock_terminate sid (finish_lifecycle_task (TerminatePaddock sid) w)"

text \<open>\<open>terminate_when_provider_create_finishes\<close> and \<open>terminate_provider_lease_best_effort\<close>.\<close>

definition orphan_resume :: "string \<Rightarrow> sandbox_world \<Rightarrow> sandbox_world" where
  "orphan_resume sid w =
     (let w' = finish_lifecycle_task (OrphanCreate sid) (w\<lparr>sw_creates := dpop sid (sw_creates w)\<rparr>)
      in case dget (sw_creates w) sid of
           Some (Created l) \<Rightarrow> provider_terminate l w'
         | Some CreateFailed \<Rightarrow> w'
         | _ \<Rightarrow> w)"

definition run_init_cleanup :: "string \<Rightarrow> lease \<Rightarrow> sandbox_world \<Rightarrow> sandbox_world" where
  "run_init_cleanup sid l w = provider_terminate l (finish_lifecycle_task (InitCleanup sid l) w)"

section \<open>Prewarming and dispatch\<close>

definition start_prewarm :: "string \<Rightarrow> int \<Rightarrow> (string, pyval) dict \<Rightarrow> sandbox_world \<Rightarrow> string option \<times> sandbox_world" where
  "start_prewarm sid gid env_args w =
     (if dmem sid (ps_records (sw_store w)) then (None, w)
      else (Some sid,
            (set_phase sid Unstarted w)\<lparr>sw_store := store_record \<lparr>pr_session_id = sid, pr_group_id = gid, pr_env_args = env_args\<rparr> (sw_store w)\<rparr>))"

definition claim_begin :: "string \<Rightarrow> sandbox_world \<Rightarrow> sandbox_world" where
  "claim_begin sid w =
     (case take_record sid (sw_store w) of
        (None, _) \<Rightarrow> w
      | (Some r, st) \<Rightarrow> w\<lparr>sw_store := st, sw_claims := sw_claims w @ [sid]\<rparr>)"

text \<open>The awaited call has ended: a handle whose sandbox the sample now owns, or nothing.\<close>

definition claim_end :: "string \<Rightarrow> sandbox_world \<Rightarrow> sandbox_world" where
  "claim_end sid w =
     (let w = w\<lparr>sw_claims := remove1 sid (sw_claims w)\<rparr>
      in if init_of sid w = Some Ready then w\<lparr>sw_running := sw_running w @ [sid]\<rparr> else w)"

text \<open>Cancelling the claim cancels the call it waits for and disposes of the record.\<close>

definition claim_cancel :: "string \<Rightarrow> sandbox_world \<Rightarrow> sandbox_world" where
  "claim_cancel sid w = schedule_lifecycle_task (Dispose sid) (cancel_init sid (w\<lparr>sw_claims := remove1 sid (sw_claims w)\<rparr>))"

definition inline_init :: "string \<Rightarrow> sandbox_world \<Rightarrow> sandbox_world" where
  "inline_init sid w = init_begin sid (w\<lparr>sw_inline := sw_inline w @ [sid]\<rparr>)"

definition inline_cancel :: "string \<Rightarrow> sandbox_world \<Rightarrow> sandbox_world" where
  "inline_cancel sid w = cancel_init sid (w\<lparr>sw_inline := remove1 sid (sw_inline w)\<rparr>)"

text \<open>The sample is done, failed or cancelled.\<close>

definition run_end :: "string \<Rightarrow> sandbox_world \<Rightarrow> sandbox_world" where
  "run_end sid w = schedule_lifecycle_task (TerminatePaddock sid) (w\<lparr>sw_running := remove1 sid (sw_running w)\<rparr>)"

definition dispose_records :: "prewarm_record list \<Rightarrow> sandbox_world \<Rightarrow> sandbox_world" where
  "dispose_records rs w = fold (\<lambda>r. schedule_lifecycle_task (Dispose (pr_session_id r))) rs w"

definition cleanup_group :: "int \<Rightarrow> sandbox_world \<Rightarrow> sandbox_world" where
  "cleanup_group gid w = (let (rs, st) = pop_group gid (sw_store w) in dispose_records rs (w\<lparr>sw_store := st\<rparr>))"

definition cleanup_all :: "sandbox_world \<Rightarrow> sandbox_world" where
  "cleanup_all w = (let (rs, st) = pop_all (sw_store w) in dispose_records rs (w\<lparr>sw_store := st\<rparr>))"

section \<open>Where leases and sessions are\<close>

definition held :: "('v \<Rightarrow> 'a list) \<Rightarrow> ('k, 'v) dict \<Rightarrow> 'a multiset" where
  "held f d = mset (concat (map (f \<circ> snd) d))"

fun lease_of_create :: "create_status \<Rightarrow> lease list" where
  "lease_of_create (Created l) = [l]"
| "lease_of_create _ = []"

fun lease_of_phase :: "init_phase \<Rightarrow> lease list" where
  "lease_of_phase (Checking l) = [l]"
| "lease_of_phase _ = []"

fun lease_of_task :: "lifecycle_task \<Rightarrow> lease list" where
  "lease_of_task (InitCleanup sid l) = [l]"
| "lease_of_task _ = []"

fun task_owner :: "lifecycle_task \<Rightarrow> string list" where
  "task_owner (Dispose sid) = [sid]"
| "task_owner (DisposeWait sid) = [sid]"
| "task_owner (TerminatePaddock sid) = [sid]"
| "task_owner _ = []"

definition in_tasks :: "(lifecycle_task \<Rightarrow> 'a list) \<Rightarrow> lifecycle_task list \<Rightarrow> 'a multiset" where
  "in_tasks f ts = mset (concat (map f ts))"

text \<open>All leases by place: not yet picked up, being checked, at the paddock, awaiting cleanup, terminated.\<close>

definition placed_leases :: "sandbox_world \<Rightarrow> lease multiset" where
  "placed_leases w = held lease_of_create (sw_creates w) + held lease_of_phase (sw_inits w) + held (\<lambda>l. [l]) (sw_leases w) +
     in_tasks lease_of_task (sw_tasks w) + mset (sw_terminated w)"

text \<open>Who answers for a session: the store, a claim, a sample that initialises or runs, or a task that will terminate it.\<close>

definition owners :: "sandbox_world \<Rightarrow> string multiset" where
  "owners w = mset (dkeys (ps_records (sw_store w))) + mset (sw_claims w) + mset (sw_inline w) + mset (sw_running w) + in_tasks task_owner (sw_tasks w)"

lemma held_simps [simp]: "held f [] = {#}" "held f (e # d) = mset (f (snd e)) + held f d"
  by (simp_all add: held_def)

lemma held_dset: "dict_ok d \<Longrightarrow> held f (dset k v d) + (case dget d k of None \<Rightarrow> {#} | Some u \<Rightarrow> mset (f u)) = held f d + mset (f v)"
  by (induction d) (auto simp: dict_ok_def ac_simps)

lemma held_dpop: "dict_ok d \<Longrightarrow> held f (dpop k d) + (case dget d k of None \<Rightarrow> {#} | Some u \<Rightarrow> mset (f u)) = held f d"
proof (induction d)
  case (Cons e d)
  have "k \<notin> fst ` set d \<Longrightarrow> dpop k d = d" by (simp add: delete_notin_dom)
  then show ?case using Cons by (cases e) (auto simp: dict_ok_def ac_simps)
qed simp

lemma held_dset_eq: "dict_ok d \<Longrightarrow> dget d k = Some u \<Longrightarrow> mset (f u) = mset (f v) \<Longrightarrow> held f (dset k v d) = held f d"
  using held_dset [of d f k v] by simp

lemma held_dset_new: "\<not> dmem k d \<Longrightarrow> held f (dset k v d) = held f d + mset (f v)"
  by (simp add: dset_new held_def)

lemma in_tasks_simps [simp]: "in_tasks f [] = {#}" "in_tasks f (t # ts) = mset (f t) + in_tasks f ts" "in_tasks f (ts @ us) = in_tasks f ts + in_tasks f us"
  by (simp_all add: in_tasks_def)

lemma in_tasks_remove1: "t \<in> set ts \<Longrightarrow> in_tasks f ts = in_tasks f (remove1 t ts) + mset (f t)"
  by (induction ts) (auto simp: ac_simps)

definition world_tables_ok :: "sandbox_world \<Rightarrow> bool" where
  "world_tables_ok w \<longleftrightarrow> store_ok (sw_store w) \<and> dict_ok (sw_inits w) \<and> dict_ok (sw_creates w) \<and> dict_ok (sw_leases w) \<and> sw_states w = sw_leases w"

definition owners_ok :: "sandbox_world \<Rightarrow> bool" where
  "owners_ok w \<longleftrightarrow> (\<forall>sid. count (owners w) sid \<le> 1) \<and> (\<forall>sid. sid \<in># owners w \<longrightarrow> dmem sid (sw_inits w))"

definition leases_conserved :: "sandbox_world \<Rightarrow> bool" where
  "leases_conserved w \<longleftrightarrow> distinct (sw_issued w) \<and> placed_leases w = mset (sw_issued w)"

definition creates_ok :: "sandbox_world \<Rightarrow> bool" where
  "creates_ok w \<longleftrightarrow> (\<forall>sid. dmem sid (sw_creates w) \<longleftrightarrow> init_of sid w = Some Creating \<or> OrphanCreate sid \<in> set (sw_tasks w)) \<and>
     (\<forall>sid. count (mset (sw_tasks w)) (OrphanCreate sid) \<le> 1) \<and> (\<forall>sid. OrphanCreate sid \<in> set (sw_tasks w) \<longrightarrow> init_of sid w = Some Raised)"

definition leases_live :: "sandbox_world \<Rightarrow> bool" where
  "leases_live w \<longleftrightarrow> (\<forall>sid p. init_of sid w = Some p \<longrightarrow> p \<in> {Ready, Raised} \<or> sid \<in># owners w) \<and> (\<forall>sid. dmem sid (sw_leases w) \<longleftrightarrow> sid \<in># owners w \<and> init_of sid w = Some Ready) \<and>
     (\<forall>sid. sid \<in> set (sw_running w) \<or> TerminatePaddock sid \<in> set (sw_tasks w) \<longrightarrow> init_of sid w = Some Ready) \<and>
     (\<forall>sid \<in> set (sw_inline w). init_of sid w = Some Creating \<or> (\<exists>l. init_of sid w = Some (Checking l)) \<or> init_of sid w = Some Failing)"

definition sandbox_inv :: "sandbox_world \<Rightarrow> bool" where
  "sandbox_inv w \<longleftrightarrow> world_tables_ok w \<and> owners_ok w \<and> leases_conserved w \<and> creates_ok w \<and> leases_live w"

lemma new_world_inv: "sandbox_inv new_world"
  by (simp add: sandbox_inv_def world_tables_ok_def owners_ok_def leases_conserved_def creates_ok_def leases_live_def new_world_def
    store_ok_def owners_def placed_leases_def init_of_def dmem_def)

inductive sandbox_step :: "sandbox_world \<Rightarrow> sandbox_world \<Rightarrow> bool" where
  step_start: "\<not> dmem sid (sw_inits w) \<Longrightarrow> sandbox_step w (snd (start_prewarm sid gid env_args w))"
| step_begin: "init_of sid w = Some Unstarted \<Longrightarrow> sandbox_step w (init_begin sid w)"
| step_created: "\<lbrakk>dget (sw_creates w) sid = Some CreatePending; \<forall>l. answer = Some l \<longrightarrow> l \<notin> set (sw_issued w)\<rbrakk> \<Longrightarrow>
    sandbox_step w (provider_created sid answer w)"
| step_resume: "\<lbrakk>init_of sid w = Some Creating; dget (sw_creates w) sid \<noteq> Some CreatePending\<rbrakk> \<Longrightarrow> sandbox_step w (init_resume sid w)"
| step_done: "init_of sid w = Some (Checking l) \<Longrightarrow> sandbox_step w (init_done sid l w)"
| step_fails: "init_of sid w = Some (Checking l) \<Longrightarrow> sandbox_step w (init_fails sid l w)"
| step_raises: "\<lbrakk>init_of sid w = Some Failing; \<forall>l. InitCleanup sid l \<notin> set (sw_tasks w)\<rbrakk> \<Longrightarrow> sandbox_step w (init_raises sid w)"
| step_claim: "sandbox_step w (claim_begin sid w)"
| step_claim_end: "\<lbrakk>sid \<in> set (sw_claims w); init_finished sid w\<rbrakk> \<Longrightarrow> sandbox_step w (claim_end sid w)"
| step_claim_cancel: "sid \<in> set (sw_claims w) \<Longrightarrow> sandbox_step w (claim_cancel sid w)"
| step_inline: "\<not> dmem sid (sw_inits w) \<Longrightarrow> sandbox_step w (inline_init sid w)"
| step_inline_cancel: "sid \<in> set (sw_inline w) \<Longrightarrow> sandbox_step w (inline_cancel sid w)"
| step_run_end: "sid \<in> set (sw_running w) \<Longrightarrow> sandbox_step w (run_end sid w)"
| step_cleanup_group: "sandbox_step w (cleanup_group gid w)"
| step_cleanup_all: "sandbox_step w (cleanup_all w)"
| step_dispose: "Dispose sid \<in> set (sw_tasks w) \<Longrightarrow> sandbox_step w (dispose_begin sid w)"
| step_dispose_end: "\<lbrakk>DisposeWait sid \<in> set (sw_tasks w); init_finished sid w\<rbrakk> \<Longrightarrow> sandbox_step w (dispose_end sid w)"
| step_terminate: "TerminatePaddock sid \<in> set (sw_tasks w) \<Longrightarrow> sandbox_step w (run_terminate sid w)"
| step_orphan: "\<lbrakk>OrphanCreate sid \<in> set (sw_tasks w); dget (sw_creates w) sid \<noteq> Some CreatePending\<rbrakk> \<Longrightarrow> sandbox_step w (orphan_resume sid w)"
| step_init_cleanup: "InitCleanup sid l \<in> set (sw_tasks w) \<Longrightarrow> sandbox_step w (run_init_cleanup sid l w)"
| step_released: "Releasing l \<in> set (sw_tasks w) \<Longrightarrow> sandbox_step w (finish_lifecycle_task (Releasing l) w)"

section \<open>Every step keeps the books\<close>

lemmas sandbox_inv_defs = sandbox_inv_def world_tables_ok_def owners_ok_def leases_conserved_def creates_ok_def leases_live_def

lemmas sandbox_op_defs = schedule_lifecycle_task_def finish_lifecycle_task_def set_phase_def init_of_def

lemma owned_once: "owners_ok w \<Longrightarrow> owners w = add_mset sid rest \<Longrightarrow> sid \<notin># rest"
  unfolding owners_ok_def by (metis count_add_mset count_greater_zero_iff le_zero_eq not_gr_zero not_less_eq_eq One_nat_def)

lemma init_begin_inv:
  assumes "sandbox_inv w" "init_of sid w = Some Unstarted"
  shows "sandbox_inv (init_begin sid w)"
proof -
  have fresh: "\<not> dmem sid (sw_creates w)" using assms by (auto simp: sandbox_inv_defs)
  have "held lease_of_phase (dset sid Creating (sw_inits w)) = held lease_of_phase (sw_inits w)"
    using assms by (intro held_dset_eq) (auto simp: sandbox_inv_defs init_of_def)
  moreover have "held lease_of_create (dset sid CreatePending (sw_creates w)) = held lease_of_create (sw_creates w)"
    using held_dset_new [OF fresh, of lease_of_create CreatePending] by simp
  ultimately show ?thesis using assms
    by (auto simp: sandbox_inv_defs init_begin_def sandbox_op_defs owners_def placed_leases_def)
qed

lemma provider_created_inv:
  assumes "sandbox_inv w" "dget (sw_creates w) sid = Some CreatePending" "\<forall>l. answer = Some l \<longrightarrow> l \<notin> set (sw_issued w)"
  shows "sandbox_inv (provider_created sid answer w)"
proof -
  have ok: "dict_ok (sw_creates w)" using assms(1) by (simp add: sandbox_inv_defs)
  have "dmem sid' (sw_creates w) \<longleftrightarrow> sid' = sid \<or> dmem sid' (sw_creates w)" for sid' using assms(2) by (auto simp: dmem_def)
  then show ?thesis using assms held_dset [OF ok, of lease_of_create sid]
    by (cases answer) (auto simp: sandbox_inv_defs provider_created_def init_of_def owners_def placed_leases_def)
qed

lemma inline_moves:
  assumes "sid \<in> set xs"
  shows "mset xs = add_mset sid (mset (remove1 sid xs))" using assms by (simp add: insert_DiffM)

text \<open>A session whose call has not returned has no lease at the paddock; giving it up keeps the books.\<close>

lemma inline_given_up:
  assumes "sandbox_inv w" "init_of sid w \<noteq> Some Ready" "sid \<in> set (sw_inline w)"
  shows "owners (w\<lparr>sw_inline := remove1 sid (sw_inline w)\<rparr>) + {#sid#} = owners w"
  using inline_moves [OF assms(3)] by (simp add: owners_def)

lemma owners_less:
  assumes "owners_ok w" "owners w' + {#sid#} = owners w" "\<And>s. dmem s (sw_inits w) \<Longrightarrow> dmem s (sw_inits w')"
  shows "owners_ok w'" "s \<in># owners w' \<longleftrightarrow> s \<in># owners w \<and> s \<noteq> sid"
proof -
  have w: "owners w = add_mset sid (owners w')" using assms(2) by simp
  have "count (owners w') s \<le> count (owners w) s" for s by (simp add: w)
  then have le: "count (owners w') s \<le> 1" for s using assms(1) unfolding owners_ok_def by (meson order_trans)
  show "owners_ok w'" using assms(1,3) le unfolding owners_ok_def by (simp add: w)
  show "s \<in># owners w' \<longleftrightarrow> s \<in># owners w \<and> s \<noteq> sid" using owned_once [OF assms(1) w] by (auto simp: w)
qed

lemma distinct_by_count: "\<forall>x. count (mset xs) x \<le> 1 \<Longrightarrow> distinct xs"
proof (induction xs)
  case (Cons a xs)
  have "count (mset xs) x \<le> count (mset (a # xs)) x" for x by simp
  then have "count (mset xs) x \<le> 1" for x using Cons.prems by (meson order_trans)
  moreover have "count (mset xs) a = 0" using Cons.prems [THEN spec, of a] by simp
  ultimately show ?case using Cons.IH by (simp add: count_eq_zero_iff)
qed simp

lemma owners_distinct:
  assumes "owners_ok w"
  shows "distinct (sw_claims w)" "distinct (sw_inline w)" "distinct (sw_running w)"
proof -
  have "count (mset (sw_claims w)) s \<le> count (owners w) s" "count (mset (sw_inline w)) s \<le> count (owners w) s"
    "count (mset (sw_running w)) s \<le> count (owners w) s" for s by (simp_all add: owners_def)
  moreover have "count (owners w) s \<le> 1" for s using assms by (simp add: owners_ok_def)
  ultimately have "count (mset (sw_claims w)) s \<le> 1" "count (mset (sw_inline w)) s \<le> 1" "count (mset (sw_running w)) s \<le> 1" for s
    by (meson order_trans)+
  then show "distinct (sw_claims w)" "distinct (sw_inline w)" "distinct (sw_running w)" by (simp_all add: distinct_by_count)
qed

lemma settle_raised:
  assumes inv: "world_tables_ok w" "leases_conserved w" "creates_ok w" "owners_ok w"
    and live: "\<And>s. dmem s (sw_leases w) \<longleftrightarrow> s \<in># owners w \<and> init_of s w = Some Ready" "\<forall>s. s \<in> set (sw_running w) \<or> TerminatePaddock s \<in> set (sw_tasks w) \<longrightarrow> init_of s w = Some Ready"
      "\<forall>s \<in> set (sw_inline w) - {sid}. init_of s w = Some Creating \<or> (\<exists>l. init_of s w = Some (Checking l)) \<or> init_of s w = Some Failing"
      "\<And>s p. init_of s w = Some p \<Longrightarrow> p \<in> {Ready, Raised} \<or> s \<in># owners w"
    and raised: "init_of sid w = Some Raised"
  shows "sandbox_inv (settle_inline sid False w)"
proof (cases "sid \<in> set (sw_inline w)")
  case True
  let ?w = "w\<lparr>sw_inline := remove1 sid (sw_inline w)\<rparr>"
  have less: "owners ?w + {#sid#} = owners w" using inline_moves [OF True] by (simp add: owners_def)
  note own = owners_less [OF inv(4) less]
  have "dmem s (sw_leases ?w) \<longleftrightarrow> s \<in># owners ?w \<and> init_of s ?w = Some Ready" for s
    using live(1) [of s] own(2) [of s] raised by (auto simp: init_of_def)
  moreover have "set (remove1 sid (sw_inline w)) = set (sw_inline w) - {sid}" using owners_distinct(2) [OF inv(4)] by (rule set_remove1_eq)
  moreover have "p \<in> {Ready, Raised} \<or> s \<in># owners ?w" if "init_of s w = Some p" for s p using live(4) [OF that] own(2) [of s] raised that by auto
  ultimately have "leases_live ?w" unfolding leases_live_def using live(2,3) by (simp add: init_of_def)
  moreover have "owners_ok ?w" by (rule own(1)) simp
  ultimately show ?thesis using True inv unfolding sandbox_inv_def settle_inline_def
    by (simp add: world_tables_ok_def leases_conserved_def creates_ok_def placed_leases_def init_of_def)
next
  case False
  then show ?thesis using assms by (auto simp: settle_inline_def sandbox_inv_def leases_live_def)
qed

lemma phase_changes:
  assumes "dict_ok (sw_inits w)" "init_of sid w = Some p"
  shows "held lease_of_phase (dset sid q (sw_inits w)) + mset (lease_of_phase p) = held lease_of_phase (sw_inits w) + mset (lease_of_phase q)"
  using held_dset [OF assms(1), of lease_of_phase sid q] assms(2) by (simp add: init_of_def)

lemma init_resume_inv:
  assumes inv: "sandbox_inv w" and creating: "init_of sid w = Some Creating" "dget (sw_creates w) sid \<noteq> Some CreatePending"
  shows "sandbox_inv (init_resume sid w)"
proof -
  have ok: "dict_ok (sw_creates w)" "dict_ok (sw_inits w)" "dmem sid (sw_creates w)" "OrphanCreate sid \<notin> set (sw_tasks w)"
    using inv creating by (auto simp: sandbox_inv_defs)
  note pop = held_dpop [OF ok(1), of lease_of_create sid] and phase = phase_changes [OF ok(2) creating(1)]
  have not_ready: "\<not> dmem sid (sw_leases w)" "sid \<notin> set (sw_running w)" "TerminatePaddock sid \<notin> set (sw_tasks w)"
    using inv creating by (auto simp: sandbox_inv_defs)
  from ok(3) creating(2) consider l where "dget (sw_creates w) sid = Some (Created l)" | "dget (sw_creates w) sid = Some CreateFailed"
    unfolding dmem_def by (metis create_status.exhaust not_None_eq)
  then show ?thesis
  proof cases
    case 1
    let ?w = "w\<lparr>sw_creates := dpop sid (sw_creates w), sw_inits := dset sid (Checking l) (sw_inits w)\<rparr>"
    have "placed_leases ?w = placed_leases w" using pop phase [of "Checking l"] 1 by (simp add: placed_leases_def)
    moreover have "owners ?w = owners w" by (simp add: owners_def)
    ultimately have "sandbox_inv ?w" using inv ok creating not_ready unfolding sandbox_inv_defs init_of_def by auto
    then show ?thesis using 1 by (simp add: init_resume_def set_phase_def)
  next
    case 2
    let ?w = "set_phase sid Raised (w\<lparr>sw_creates := dpop sid (sw_creates w)\<rparr>)"
    have own: "owners ?w = owners w" by (simp add: owners_def set_phase_def)
    have "sandbox_inv (settle_inline sid False ?w)"
    proof (rule settle_raised)
      show "leases_conserved ?w" using inv pop phase [of Raised] 2 by (simp add: sandbox_inv_defs set_phase_def placed_leases_def)
      show "dmem s (sw_leases ?w) \<longleftrightarrow> s \<in># owners ?w \<and> init_of s ?w = Some Ready" for s
        using inv not_ready unfolding own by (auto simp: sandbox_inv_defs sandbox_op_defs)
    qed (use inv ok not_ready own in \<open>auto simp: sandbox_inv_defs sandbox_op_defs split: if_splits\<close>)
    then show ?thesis using 2 by (simp add: init_resume_def)
  qed
qed

lemma init_done_inv:
  assumes inv: "sandbox_inv w" and phase: "init_of sid w = Some (Checking l)"
  shows "sandbox_inv (init_done sid l w)"
proof -
  have own: "sid \<in># owners w" "\<not> dmem sid (sw_leases w)" "dict_ok (sw_inits w)" "dict_ok (sw_leases w)" "sid \<notin> set (sw_running w)"
    using inv phase by (auto simp: sandbox_inv_defs)
  have "owners (init_done sid l w) = owners w"
    using inline_moves [of sid "sw_inline w"] by (simp add: init_done_def settle_inline_def set_phase_def owners_def)
  moreover have "placed_leases (init_done sid l w) = placed_leases w"
    using phase_changes [OF own(3) phase, of Ready] held_dset_new [OF own(2), of "\<lambda>l. [l]" l]
    by (simp add: init_done_def settle_inline_def set_phase_def placed_leases_def)
  moreover have "set (remove1 sid (sw_inline w)) = set (sw_inline w) - {sid}"
    using owners_distinct(2) [of w] inv by (simp add: sandbox_inv_def set_remove1_eq)
  moreover have "sw_inits (init_done sid l w) = dset sid Ready (sw_inits w)" "sw_leases (init_done sid l w) = dset sid l (sw_leases w)"
    "sw_states (init_done sid l w) = dset sid l (sw_states w)" "sw_creates (init_done sid l w) = sw_creates w" "sw_tasks (init_done sid l w) = sw_tasks w"
    "sw_store (init_done sid l w) = sw_store w" "sw_issued (init_done sid l w) = sw_issued w"
    "sw_inline (init_done sid l w) = (if sid \<in> set (sw_inline w) then remove1 sid (sw_inline w) else sw_inline w)"
    "set (sw_running (init_done sid l w)) \<subseteq> insert sid (set (sw_running w))"
    by (auto simp: init_done_def settle_inline_def set_phase_def)
  ultimately show ?thesis using inv phase own(1)
    unfolding sandbox_inv_defs init_of_def by (auto dest: subsetD)
qed

text \<open>Moving a session from one owner to another, and letting go of one whose call has raised.\<close>

lemma owner_moves:
  assumes inv: "sandbox_inv w" and same: "sw_inits w' = sw_inits w" "sw_creates w' = sw_creates w" "sw_leases w' = sw_leases w" "sw_states w' = sw_states w"
      "sw_issued w' = sw_issued w" "sw_terminated w' = sw_terminated w" "sw_inline w' = sw_inline w" "store_ok (sw_store w')"
    and own: "owners w' = owners w \<or> (\<exists>sid. owners w' + {#sid#} = owners w \<and> init_of sid w = Some Raised)"
    and tasks: "in_tasks lease_of_task (sw_tasks w') = in_tasks lease_of_task (sw_tasks w)"
      "\<And>s. count (mset (sw_tasks w')) (OrphanCreate s) = count (mset (sw_tasks w)) (OrphanCreate s)"
    and ready: "\<And>s. s \<in> set (sw_running w') \<or> TerminatePaddock s \<in> set (sw_tasks w') \<Longrightarrow> init_of s w = Some Ready"
  shows "sandbox_inv w'"
proof -
  have init: "init_of s w' = init_of s w" for s by (simp add: init_of_def same)
  have orphan: "OrphanCreate s \<in> set (sw_tasks w') \<longleftrightarrow> OrphanCreate s \<in> set (sw_tasks w)" for s
    using tasks(2) [of s] by (metis count_eq_zero_iff set_mset_mset)
  have "owners_ok w" using inv by (simp add: sandbox_inv_def)
  then have ok: "owners_ok w'" and mem: "\<And>s. init_of s w \<noteq> Some Raised \<Longrightarrow> s \<in># owners w' \<longleftrightarrow> s \<in># owners w"
    using own owners_less [of w w'] by (auto simp: owners_ok_def same)
  have "placed_leases w' = placed_leases w" by (simp add: placed_leases_def same tasks(1))
  moreover have "p \<in> {Ready, Raised} \<or> s \<in># owners w'" if "init_of s w = Some p" for s p
  proof (cases "init_of s w = Some Raised")
    case False
    then show ?thesis using mem [of s] inv that unfolding sandbox_inv_def leases_live_def by blast
  qed (use that in simp)
  moreover have "dmem s (sw_leases w) \<longleftrightarrow> s \<in># owners w' \<and> init_of s w = Some Ready" for s
    using mem [of s] inv unfolding sandbox_inv_def leases_live_def by auto
  ultimately show ?thesis using inv ok ready same(8)
    unfolding sandbox_inv_def world_tables_ok_def leases_conserved_def creates_ok_def leases_live_def init orphan tasks(2) same(1-7) by simp
qed

lemma task_owned: "t \<in> set (sw_tasks w) \<Longrightarrow> task_owner t = [sid] \<Longrightarrow> sid \<in># owners w"
  by (auto simp: owners_def in_tasks_def intro!: bexI [of _ t])

lemma claim_begin_inv:
  assumes "sandbox_inv w"
  shows "sandbox_inv (claim_begin sid w)"
proof (cases "take_record sid (sw_store w)")
  case (Pair r st)
  show ?thesis
  proof (cases r)
    case (Some r')
    have ok: "store_ok (sw_store w)" using assms by (simp add: sandbox_inv_defs)
    note take = take_record_ok [OF ok Pair [unfolded Some]]
    show ?thesis using Pair Some take assms by (intro owner_moves [OF assms]) (auto simp: claim_begin_def owners_def sandbox_inv_defs)
  qed (use Pair assms in \<open>simp add: claim_begin_def\<close>)
qed

lemma claim_end_inv:
  assumes inv: "sandbox_inv w" and "sid \<in> set (sw_claims w)" "init_finished sid w"
  shows "sandbox_inv (claim_end sid w)"
proof -
  note m = inline_moves [OF assms(2)]
  have "owners (claim_end sid w) = owners w \<or> owners (claim_end sid w) + {#sid#} = owners w \<and> init_of sid w = Some Raised"
    using assms(3) m by (auto simp: claim_end_def Let_def init_finished_def init_of_def owners_def)
  then show ?thesis using inv by (intro owner_moves [OF inv]) (auto simp: claim_end_def Let_def sandbox_inv_defs init_of_def split: if_splits)
qed

lemma run_end_inv:
  assumes inv: "sandbox_inv w" and "sid \<in> set (sw_running w)"
  shows "sandbox_inv (run_end sid w)"
proof -
  have "owners (run_end sid w) = owners w" using inline_moves [OF assms(2)] by (simp add: run_end_def schedule_lifecycle_task_def owners_def)
  then show ?thesis using inv assms(2)
    by (intro owner_moves [OF inv]) (auto simp: run_end_def schedule_lifecycle_task_def sandbox_inv_defs dest: notin_set_remove1)
qed

lemma released_inv:
  assumes inv: "sandbox_inv w" and "Releasing l \<in> set (sw_tasks w)"
  shows "sandbox_inv (finish_lifecycle_task (Releasing l) w)"
proof -
  note t = in_tasks_remove1 [OF assms(2)]
  show ?thesis using inv t [of task_owner] t [of lease_of_task] assms(2)
    by (intro owner_moves [OF inv]) (auto simp: finish_lifecycle_task_def owners_def sandbox_inv_defs dest: notin_set_remove1)
qed

lemma dispose_records_fields:
  "dispose_records rs w = w\<lparr>sw_tasks := sw_tasks w @ map (Dispose \<circ> pr_session_id) rs\<rparr>"
  unfolding dispose_records_def by (induction rs arbitrary: w) (simp_all add: schedule_lifecycle_task_def)

lemma in_tasks_dispose: "in_tasks task_owner (map (Dispose \<circ> pr_session_id) rs) = mset (map pr_session_id rs)"
    "in_tasks lease_of_task (map (Dispose \<circ> pr_session_id) rs) = {#}"
  by (induction rs) simp_all

lemma count_dispose: "count (mset (map (Dispose \<circ> pr_session_id) rs)) (OrphanCreate s) = 0"
  by (induction rs) simp_all

lemma dispose_records_inv:
  assumes inv: "sandbox_inv w" and st: "store_ok st" "mset (dkeys (ps_records (sw_store w))) = mset (map pr_session_id rs) + mset (dkeys (ps_records st))"
  shows "sandbox_inv (dispose_records rs (w\<lparr>sw_store := st\<rparr>))"
proof -
  have "owners (dispose_records rs (w\<lparr>sw_store := st\<rparr>)) = owners w"
    using st(2) by (simp add: dispose_records_fields owners_def in_tasks_dispose)
  then show ?thesis using inv st(1) count_dispose [of rs]
    by (intro owner_moves [OF inv]) (auto simp: dispose_records_fields in_tasks_dispose sandbox_inv_defs)
qed

lemma cleanup_inv:
  assumes "sandbox_inv w"
  shows "sandbox_inv (cleanup_group gid w)" "sandbox_inv (cleanup_all w)"
proof -
  have ok: "store_ok (sw_store w)" using assms by (simp add: sandbox_inv_defs)
  obtain rs st where g: "pop_group gid (sw_store w) = (rs, st)" by fastforce
  show "sandbox_inv (cleanup_group gid w)"
    using dispose_records_inv [OF assms pop_group_ok(1,2) [OF ok g]] g by (simp add: cleanup_group_def)
  obtain rs' st' where a: "pop_all (sw_store w) = (rs', st')" by fastforce
  show "sandbox_inv (cleanup_all w)"
    using dispose_records_inv [OF assms pop_all_ok(1) [OF ok a]] pop_all_ok(2,3) [OF ok a] a by (simp add: cleanup_all_def)
qed

lemma fresh_not_owned:
  assumes "sandbox_inv w" "\<not> dmem sid (sw_inits w)"
  shows "sid \<notin># owners w" "\<not> dmem sid (sw_creates w)" "\<not> dmem sid (sw_leases w)" "init_of sid w = None" "OrphanCreate sid \<notin> set (sw_tasks w)"
  using assms by (auto simp: sandbox_inv_defs init_of_def dmem_def)

lemma new_owner:
  assumes "owners_ok w" "sid \<notin># owners w" "owners w' = add_mset sid (owners w)" "\<And>s. dmem s (sw_inits w') \<longleftrightarrow> s = sid \<or> dmem s (sw_inits w)"
  shows "owners_ok w'"
proof -
  have "count (owners w') s \<le> 1" for s using assms(1,2) by (auto simp: owners_ok_def assms(3) count_eq_zero_iff [THEN iffD2])
  then show ?thesis using assms by (auto simp: owners_ok_def)
qed

lemma start_prewarm_inv:
  assumes inv: "sandbox_inv w" and fresh: "\<not> dmem sid (sw_inits w)"
  shows "sandbox_inv (snd (start_prewarm sid gid env_args w))"
proof (cases "dmem sid (ps_records (sw_store w))")
  case False
  let ?r = "\<lparr>pr_session_id = sid, pr_group_id = gid, pr_env_args = env_args\<rparr>" and ?w = "snd (start_prewarm sid gid env_args w)"
  have ok: "store_ok (sw_store w)" "owners_ok w" using inv by (simp_all add: sandbox_inv_defs)
  note st = store_record_ok [OF ok(1), of ?r]
  have w: "?w = w\<lparr>sw_inits := dset sid Unstarted (sw_inits w), sw_store := store_record ?r (sw_store w)\<rparr>"
    using False by (simp add: start_prewarm_def set_phase_def)
  have own: "owners ?w = add_mset sid (owners w)" using st(2) False by (simp add: w owners_def)
  have "owners_ok ?w" by (rule new_owner [OF ok(2) fresh_not_owned(1) [OF assms] own]) (auto simp: w)
  moreover have "placed_leases ?w = placed_leases w" using held_dset_new [OF fresh, of lease_of_phase Unstarted] by (simp add: w placed_leases_def)
  ultimately show ?thesis using inv own st(1) False fresh_not_owned [OF assms]
    unfolding sandbox_inv_def world_tables_ok_def leases_conserved_def creates_ok_def leases_live_def by (auto simp: w init_of_def)
qed (use inv in \<open>simp add: start_prewarm_def\<close>)

lemma inline_init_inv:
  assumes inv: "sandbox_inv w" and fresh: "\<not> dmem sid (sw_inits w)"
  shows "sandbox_inv (inline_init sid w)"
proof -
  let ?w = "inline_init sid w"
  have w: "?w = w\<lparr>sw_inits := dset sid Creating (sw_inits w), sw_creates := dset sid CreatePending (sw_creates w), sw_inline := sw_inline w @ [sid]\<rparr>"
    by (simp add: inline_init_def init_begin_def set_phase_def)
  have ok: "owners_ok w" using inv by (simp add: sandbox_inv_def)
  have own: "owners ?w = add_mset sid (owners w)" by (simp add: w owners_def)
  have "owners_ok ?w" by (rule new_owner [OF ok fresh_not_owned(1) [OF assms] own]) (auto simp: w)
  moreover have "placed_leases ?w = placed_leases w"
    using held_dset_new [OF fresh, of lease_of_phase Creating] held_dset_new [OF fresh_not_owned(2) [OF assms], of lease_of_create CreatePending]
    by (simp add: w placed_leases_def)
  ultimately show ?thesis using inv own fresh_not_owned [OF assms]
    unfolding sandbox_inv_def world_tables_ok_def leases_conserved_def creates_ok_def leases_live_def by (auto simp: w init_of_def)
qed

lemma init_fails_inv:
  assumes inv: "sandbox_inv w" and phase: "init_of sid w = Some (Checking l)"
  shows "sandbox_inv (init_fails sid l w)"
proof -
  have ok: "\<not> dmem sid (sw_leases w)" "dict_ok (sw_inits w)" "sw_states w = sw_leases w" "sid \<in># owners w" using inv phase by (auto simp: sandbox_inv_defs)
  have "dpop sid (sw_leases w) = sw_leases w" using ok(1) by (simp add: delete_notin_dom dmem_iff)
  then have w: "init_fails sid l w = w\<lparr>sw_tasks := sw_tasks w @ [InitCleanup sid l], sw_inits := dset sid Failing (sw_inits w)\<rparr>"
    using ok(3) by (simp add: init_fails_def init_cleanup_def schedule_lifecycle_task_def set_phase_def)
  have "owners (init_fails sid l w) = owners w" by (simp add: w owners_def)
  moreover have "placed_leases (init_fails sid l w) = placed_leases w" using phase_changes [OF ok(2) phase, of Failing] by (simp add: w placed_leases_def)
  ultimately show ?thesis using inv phase ok(1,4)
    unfolding sandbox_inv_defs by (auto simp: w init_of_def)
qed

lemma init_raises_inv:
  assumes inv: "sandbox_inv w" and phase: "init_of sid w = Some Failing"
  shows "sandbox_inv (init_raises sid w)"
proof -
  let ?w = "set_phase sid Raised w"
  have ok: "dict_ok (sw_inits w)" "\<not> dmem sid (sw_leases w)" using inv phase by (auto simp: sandbox_inv_defs)
  have own: "owners ?w = owners w" by (simp add: owners_def set_phase_def)
  have "placed_leases ?w = placed_leases w" using phase_changes [OF ok(1) phase, of Raised] by (simp add: set_phase_def placed_leases_def)
  then have "sandbox_inv (settle_inline sid False ?w)"
    using inv phase own ok(2) by (intro settle_raised) (auto simp: sandbox_inv_defs sandbox_op_defs split: if_splits)
  then show ?thesis by (simp add: init_raises_def)
qed

section \<open>Cancellation and termination\<close>

fun cancel_tasks :: "string \<Rightarrow> init_phase option \<Rightarrow> lifecycle_task list" where
  "cancel_tasks sid (Some Creating) = [OrphanCreate sid]"
| "cancel_tasks sid (Some (Checking l)) = [InitCleanup sid l]"
| "cancel_tasks sid _ = []"

lemma cancel_init_fields:
  assumes "sandbox_inv w" "init_of sid w = Some p" "p \<notin> {Ready, Raised}"
  shows "cancel_init sid w = w\<lparr>sw_tasks := sw_tasks w @ cancel_tasks sid (Some p), sw_inits := dset sid Raised (sw_inits w)\<rparr>"
proof -
  have "\<not> dmem sid (sw_leases w)" "sw_states w = sw_leases w" using assms by (auto simp: sandbox_inv_defs)
  then have "dpop sid (sw_leases w) = sw_leases w" "sw_states w = sw_leases w" by (simp_all add: delete_notin_dom dmem_iff)
  then show ?thesis using assms(2,3)
    by (cases p) (simp_all add: cancel_init_def init_cleanup_def schedule_lifecycle_task_def set_phase_def)
qed

text \<open>After a cancellation the books are right but for the sample that waited in line.\<close>

lemma cancel_init_parts:
  assumes inv: "sandbox_inv w" and phase: "init_of sid w = Some p" "p \<notin> {Ready, Raised}"
  defines "v \<equiv> cancel_init sid w"
  shows "world_tables_ok v" "leases_conserved v" "creates_ok v" "owners_ok v" "\<And>s. dmem s (sw_leases v) \<longleftrightarrow> s \<in># owners v \<and> init_of s v = Some Ready"
    "\<forall>s. s \<in> set (sw_running v) \<or> TerminatePaddock s \<in> set (sw_tasks v) \<longrightarrow> init_of s v = Some Ready"
    "\<forall>s \<in> set (sw_inline v) - {sid}. init_of s v = Some Creating \<or> (\<exists>l. init_of s v = Some (Checking l)) \<or> init_of s v = Some Failing"
    "\<And>s q. init_of s v = Some q \<Longrightarrow> q \<in> {Ready, Raised} \<or> s \<in># owners v" "init_of sid v = Some Raised"
proof -
  note v = cancel_init_fields [OF inv phase, folded v_def]
  have ok: "dict_ok (sw_inits w)" "OrphanCreate sid \<notin> set (sw_tasks w)" using inv phase by (auto simp: sandbox_inv_defs)
  have own: "owners v = owners w" using phase(2) by (cases p) (simp_all add: v owners_def)
  have placed: "placed_leases v = placed_leases w"
    using phase_changes [OF ok(1) phase(1), of Raised] phase(2) by (cases p) (simp_all add: v placed_leases_def)
  have quiet: "TerminatePaddock s \<notin> set (cancel_tasks sid (Some p))" for s by (cases p) simp_all
  show "world_tables_ok v" using inv by (simp add: v sandbox_inv_defs)
  show "leases_conserved v" using inv placed by (simp add: v sandbox_inv_defs)
  show "creates_ok v" using inv phase ok(2) by (cases p) (auto simp: v sandbox_inv_defs init_of_def count_eq_zero_iff [THEN iffD2] split: if_splits)
  show "owners_ok v" using inv own by (simp add: v sandbox_inv_defs)
  show "dmem s (sw_leases v) \<longleftrightarrow> s \<in># owners v \<and> init_of s v = Some Ready" for s
    using inv phase unfolding own by (auto simp: v sandbox_inv_defs init_of_def)
  show "\<forall>s. s \<in> set (sw_running v) \<or> TerminatePaddock s \<in> set (sw_tasks v) \<longrightarrow> init_of s v = Some Ready"
    using inv phase quiet by (auto simp: v sandbox_inv_defs init_of_def)
  show "\<forall>s \<in> set (sw_inline v) - {sid}. init_of s v = Some Creating \<or> (\<exists>l. init_of s v = Some (Checking l)) \<or> init_of s v = Some Failing"
    using inv by (auto simp: v sandbox_inv_defs init_of_def)
  show "q \<in> {Ready, Raised} \<or> s \<in># owners v" if "init_of s v = Some q" for s q
    using inv that unfolding own by (auto simp: v sandbox_inv_defs init_of_def split: if_splits)
  show "init_of sid v = Some Raised" by (simp add: v init_of_def)
qed

lemma cancel_init_inv:
  assumes inv: "sandbox_inv w" and "sid \<notin> set (sw_inline w)"
  shows "sandbox_inv (cancel_init sid w)"
proof (cases "\<exists>p. init_of sid w = Some p \<and> p \<notin> {Ready, Raised}")
  case True
  then obtain p where p: "init_of sid w = Some p" "p \<notin> {Ready, Raised}" by blast
  have "settle_inline sid False (cancel_init sid w) = cancel_init sid w"
    using assms(2) by (simp add: settle_inline_def cancel_init_fields [OF inv p])
  then show ?thesis using settle_raised [OF cancel_init_parts [OF inv p]] by simp
next
  case False
  then have "cancel_init sid w = w" by (auto simp: cancel_init_def split: option.splits init_phase.splits)
  then show ?thesis using inv by simp
qed

lemma inline_cancel_inv:
  assumes inv: "sandbox_inv w" and "sid \<in> set (sw_inline w)"
  shows "sandbox_inv (inline_cancel sid w)"
proof -
  obtain p where p: "init_of sid w = Some p" "p \<notin> {Ready, Raised}" using assms by (auto simp: sandbox_inv_defs)
  have "inline_cancel sid w = settle_inline sid False (cancel_init sid w)"
    using assms(2) p by (cases p) (simp_all add: inline_cancel_def settle_inline_def cancel_init_def init_of_def init_cleanup_def schedule_lifecycle_task_def set_phase_def)
  then show ?thesis using settle_raised [OF cancel_init_parts [OF inv p]] by simp
qed

lemma owned_elsewhere:
  assumes "owners_ok w" "owners w = mset xs + rest" "sid \<in># rest"
  shows "sid \<notin> set xs"
proof
  assume "sid \<in> set xs"
  then have "1 \<le> count (mset xs) sid" "1 \<le> count rest sid" using assms(3) by (simp_all add: Suc_le_eq)
  moreover have "count (mset xs) sid + count rest sid \<le> 1" using assms(1) by (simp add: owners_ok_def assms(2))
  ultimately show False by linarith
qed

lemma claim_cancel_inv:
  assumes inv: "sandbox_inv w" and "sid \<in> set (sw_claims w)"
  shows "sandbox_inv (claim_cancel sid w)"
proof -
  let ?v = "cancel_init sid w"
  have ok: "owners_ok w" using inv by (simp add: sandbox_inv_def)
  have "owners w = mset (sw_inline w) + (mset (dkeys (ps_records (sw_store w))) + mset (sw_claims w) + mset (sw_running w) + in_tasks task_owner (sw_tasks w))"
    by (simp add: owners_def)
  then have "sid \<notin> set (sw_inline w)" using assms(2) by (intro owned_elsewhere [OF ok]) auto
  then have v: "sandbox_inv ?v" using cancel_init_inv inv by blast
  have same: "sw_claims ?v = sw_claims w"
    by (auto simp: cancel_init_def init_cleanup_def schedule_lifecycle_task_def set_phase_def split: option.splits init_phase.splits)
  have w: "claim_cancel sid w = ?v\<lparr>sw_claims := remove1 sid (sw_claims ?v), sw_tasks := sw_tasks ?v @ [Dispose sid]\<rparr>"
    unfolding claim_cancel_def same
    by (auto simp: cancel_init_def init_cleanup_def schedule_lifecycle_task_def set_phase_def init_of_def split: option.splits init_phase.splits)
  have "owners (claim_cancel sid w) = owners ?v" using inline_moves [OF assms(2)] by (simp add: w owners_def same)
  then show ?thesis using v by (intro owner_moves [OF v]) (auto simp: w sandbox_inv_defs)
qed

lemma dispose_swap_inv:
  assumes inv: "sandbox_inv w" and "Dispose sid \<in> set (sw_tasks w)"
  defines "v \<equiv> w\<lparr>sw_tasks := remove1 (Dispose sid) (sw_tasks w) @ [DisposeWait sid]\<rparr>"
  shows "sandbox_inv v" "sid \<notin> set (sw_inline v)" "dispose_begin sid w = (if init_finished sid v then v else cancel_init sid v)"
proof -
  note t = in_tasks_remove1 [OF assms(2)]
  have "owners v = owners w" using t [of task_owner] by (simp add: v_def owners_def)
  then show "sandbox_inv v" using inv t [of lease_of_task] assms(2)
    by (intro owner_moves [OF inv]) (auto simp: v_def sandbox_inv_defs dest: notin_set_remove1)
  have ok: "owners_ok w" using inv by (simp add: sandbox_inv_def)
  have "owners w = mset (sw_inline w) + (mset (dkeys (ps_records (sw_store w))) + mset (sw_claims w) + mset (sw_running w) + in_tasks task_owner (sw_tasks w))"
    by (simp add: owners_def)
  moreover have "sid \<in># in_tasks task_owner (sw_tasks w)" using t [of task_owner] by simp
  ultimately show "sid \<notin> set (sw_inline v)" using owned_elsewhere [OF ok, of "sw_inline w"] by (simp add: v_def)
  show "dispose_begin sid w = (if init_finished sid v then v else cancel_init sid v)"
    by (simp add: dispose_begin_def Let_def schedule_lifecycle_task_def finish_lifecycle_task_def v_def)
qed

lemma dispose_begin_inv:
  assumes "sandbox_inv w" "Dispose sid \<in> set (sw_tasks w)"
  shows "sandbox_inv (dispose_begin sid w)"
  using dispose_swap_inv [OF assms] cancel_init_inv by simp

lemma paddock_terminate_inv:
  assumes inv: "sandbox_inv w" and task: "t \<in> set (sw_tasks w)" "task_owner t = [sid]" and finished: "init_finished sid w"
  shows "sandbox_inv (paddock_terminate sid (finish_lifecycle_task t w))"
proof (cases "init_of sid w = Some Ready")
  case False
  then have raised: "init_of sid w = Some Raised" "\<not> dmem sid (sw_leases w)" "sw_states w = sw_leases w"
    using finished inv by (auto simp: init_finished_def sandbox_inv_defs)
  have "dpop sid (sw_leases w) = sw_leases w" using raised(2) by (simp add: delete_notin_dom dmem_iff)
  then have w: "paddock_terminate sid (finish_lifecycle_task t w) = finish_lifecycle_task t w"
    using raised(2,3) by (simp add: paddock_terminate_def finish_lifecycle_task_def dmem_def)
  note r = in_tasks_remove1 [OF task(1)]
  have lt: "lease_of_task t = []" "\<And>s. OrphanCreate s \<noteq> t" using task(2) by (cases t; simp)+
  have "owners (finish_lifecycle_task t w) + {#sid#} = owners w" using r [of task_owner] task(2) by (simp add: finish_lifecycle_task_def owners_def)
  then show ?thesis unfolding w using inv r [of lease_of_task] lt raised(1)
    by (intro owner_moves [OF inv]) (auto simp: finish_lifecycle_task_def sandbox_inv_defs dest: notin_set_remove1)
next
  case True
  have own: "sid \<in># owners w" using task_owned [OF task] .
  have "dmem sid (sw_leases w)" using inv True own by (simp add: sandbox_inv_defs)
  then obtain l where l: "dget (sw_leases w) sid = Some l" by (auto simp: dmem_def)
  have ok: "dict_ok (sw_leases w)" "owners_ok w" using inv by (simp_all add: sandbox_inv_defs)
  let ?v = "paddock_terminate sid (finish_lifecycle_task t w)"
  have v: "?v = w\<lparr>sw_states := dpop sid (sw_states w), sw_leases := dpop sid (sw_leases w), sw_terminated := sw_terminated w @ [l],
      sw_tasks := remove1 t (sw_tasks w) @ [Releasing l]\<rparr>"
    using l by (simp add: paddock_terminate_def finish_lifecycle_task_def provider_terminate_def Let_def)
  note r = in_tasks_remove1 [OF task(1)]
  have lt: "lease_of_task t = []" "\<And>s. OrphanCreate s \<noteq> t" using task(2) by (cases t; simp)+
  have less: "owners ?v + {#sid#} = owners w" using r [of task_owner] task(2) by (simp add: v owners_def)
  have mem: "s \<in># owners ?v \<longleftrightarrow> s \<in># owners w \<and> s \<noteq> sid" for s by (rule owners_less(2) [OF ok(2) less]) (simp add: v)
  have "owners_ok ?v" by (rule owners_less(1) [OF ok(2) less]) (simp add: v)
  moreover have "placed_leases ?v = placed_leases w"
    using held_dpop [OF ok(1), of "\<lambda>l. [l]" sid] l r [of lease_of_task] lt by (simp add: v placed_leases_def)
  moreover have "creates_ok ?v" using inv lt(2) by (auto simp: v sandbox_inv_defs init_of_def in_set_remove1)
  moreover have "leases_live ?v" unfolding leases_live_def mem using inv True
    by (auto simp: v sandbox_inv_defs init_of_def dest: notin_set_remove1)
  ultimately show ?thesis using inv unfolding sandbox_inv_def world_tables_ok_def leases_conserved_def by (simp add: v)
qed

lemma orphan_resume_inv:
  assumes inv: "sandbox_inv w" and task: "OrphanCreate sid \<in> set (sw_tasks w)" and answered: "dget (sw_creates w) sid \<noteq> Some CreatePending"
  shows "sandbox_inv (orphan_resume sid w)"
proof -
  have ok: "dict_ok (sw_creates w)" "dmem sid (sw_creates w)" "init_of sid w = Some Raised" "count (mset (sw_tasks w)) (OrphanCreate sid) \<le> 1"
    using inv task by (auto simp: sandbox_inv_defs)
  have gone: "OrphanCreate sid \<notin> set (remove1 (OrphanCreate sid) (sw_tasks w))"
    using ok(4) inline_moves [OF task] by (metis count_add_mset count_eq_zero_iff le_zero_eq not_less_eq_eq One_nat_def set_mset_mset)
  obtain c where c: "dget (sw_creates w) sid = Some c" "c \<noteq> CreatePending" using ok(2) answered by (auto simp: dmem_def)
  define ls where "ls = lease_of_create c"
  have w: "orphan_resume sid w = w\<lparr>sw_creates := dpop sid (sw_creates w), sw_tasks := remove1 (OrphanCreate sid) (sw_tasks w) @ map Releasing ls,
      sw_terminated := sw_terminated w @ ls\<rparr>"
    using c by (cases c) (simp_all add: orphan_resume_def finish_lifecycle_task_def provider_terminate_def Let_def ls_def)
  note r = in_tasks_remove1 [OF task]
  have rel: "in_tasks f (map Releasing ls) = {#}" if "\<And>l. f (Releasing l) = []" for f :: "lifecycle_task \<Rightarrow> string list"
    using that by (induction ls) simp_all
  have cnt: "count (mset (map Releasing ls)) (OrphanCreate s) = 0" for s by (induction ls) simp_all
  have own: "owners (orphan_resume sid w) = owners w" using r [of task_owner] by (simp add: w owners_def rel)
  moreover have "placed_leases (orphan_resume sid w) = placed_leases w"
    using held_dpop [OF ok(1), of lease_of_create sid] c(1) r [of lease_of_task] rel [of lease_of_task]
    by (simp add: w placed_leases_def ac_simps flip: ls_def)
  moreover have "OrphanCreate s \<in> set (sw_tasks (orphan_resume sid w)) \<longleftrightarrow> OrphanCreate s \<in> set (sw_tasks w) \<and> s \<noteq> sid" for s
    using gone task by (cases "s = sid") (auto simp: w)
  moreover have "count (mset (sw_tasks (orphan_resume sid w))) (OrphanCreate s) \<le> 1" for s
    using inv cnt [of s] by (auto simp: w sandbox_inv_defs intro: order_trans [OF diff_le_self])
  moreover have "TerminatePaddock s \<in> set (sw_tasks (orphan_resume sid w)) \<Longrightarrow> TerminatePaddock s \<in> set (sw_tasks w)" for s
    by (auto simp: w dest: notin_set_remove1)
  moreover have "init_of s (orphan_resume sid w) = init_of s w" for s by (simp add: w init_of_def)
  ultimately show ?thesis using inv ok(3) unfolding sandbox_inv_defs by (auto simp: w)
qed

lemma run_init_cleanup_inv:
  assumes inv: "sandbox_inv w" and task: "InitCleanup sid l \<in> set (sw_tasks w)"
  shows "sandbox_inv (run_init_cleanup sid l w)"
proof -
  note r = in_tasks_remove1 [OF task]
  have w: "run_init_cleanup sid l w = w\<lparr>sw_tasks := remove1 (InitCleanup sid l) (sw_tasks w) @ [Releasing l], sw_terminated := sw_terminated w @ [l]\<rparr>"
    by (simp add: run_init_cleanup_def finish_lifecycle_task_def provider_terminate_def)
  have "owners (run_init_cleanup sid l w) = owners w" using r [of task_owner] by (simp add: w owners_def)
  moreover have "placed_leases (run_init_cleanup sid l w) = placed_leases w" using r [of lease_of_task] by (simp add: w placed_leases_def)
  moreover have "init_of s (run_init_cleanup sid l w) = init_of s w" for s by (simp add: w init_of_def)
  ultimately show ?thesis using inv unfolding sandbox_inv_defs by (auto simp: w in_set_remove1 dest: notin_set_remove1)
qed

section \<open>No sandbox is leaked\<close>

lemma sandbox_step_inv: "sandbox_step w w' \<Longrightarrow> sandbox_inv w \<Longrightarrow> sandbox_inv w'"
proof (induction rule: sandbox_step.induct)
  case (step_dispose_end sid w)
  then show ?case using paddock_terminate_inv [of w "DisposeWait sid" sid] by (simp add: dispose_end_def)
next
  case (step_terminate sid w)
  then have "init_finished sid w" by (simp add: sandbox_inv_defs init_finished_def)
  then show ?case using paddock_terminate_inv [of w "TerminatePaddock sid" sid] step_terminate by (simp add: run_terminate_def)
qed (blast intro: start_prewarm_inv init_begin_inv provider_created_inv init_resume_inv init_done_inv init_fails_inv init_raises_inv claim_begin_inv
  claim_end_inv claim_cancel_inv inline_init_inv inline_cancel_inv run_end_inv cleanup_inv dispose_begin_inv orphan_resume_inv run_init_cleanup_inv released_inv)+

interpretation sandbox: transition_system "\<lambda>w. w = new_world" sandbox_step sandbox_inv
  by unfold_locales (auto simp: new_world_inv intro: sandbox_step_inv)

text \<open>
  Every sandbox is somewhere and nowhere twice.  In every interleaving of prewarming, claiming, initialising,
  running, cancelling and cleaning up, the leases the provider has issued are exactly those that wait to
  be picked up, are being checked, are registered at the paddock, await cleanup, or have been
  terminated, each of them once: no lease is lost, none is terminated twice.  A session has at most one owner,
  and the records of the store are exactly those of its group index.
\<close>

theorem sandboxes_conserved:
  assumes "sandbox_step\<^sup>*\<^sup>* new_world w"
  shows "placed_leases w = mset (sw_issued w) \<and> distinct (sw_issued w) \<and> distinct (sw_terminated w) \<and> (\<forall>sid. count (owners w) sid \<le> 1) \<and> store_ok (sw_store w)"
proof -
  have inv: "sandbox_inv w" using sandbox.reach_inv [OF refl assms] .
  then have "mset (sw_terminated w) \<subseteq># mset (sw_issued w)" "distinct (sw_issued w)"
    by (auto simp: sandbox_inv_defs placed_leases_def dest!: sym [of _ "mset (sw_issued w)"])
  then have "distinct (sw_terminated w)"
    by (intro distinct_by_count allI) (metis distinct_count_atmost_1 le_refl mset_subset_eq_count order_trans zero_le_one)
  then show ?thesis using inv by (simp add: sandbox_inv_defs)
qed

text \<open>
  C13.  A running sample has a live sandbox: in every reachable state the sandbox of a session that a sample runs in is
  registered at the paddock, is not terminated, and belongs to no other session.
\<close>

theorem running_sandbox_live:
  assumes "sandbox_step\<^sup>*\<^sup>* new_world w" "sid \<in> set (sw_running w)"
  shows "\<exists>l. dget (sw_leases w) sid = Some l \<and> l \<notin> set (sw_terminated w) \<and> (\<forall>sid'. dget (sw_leases w) sid' = Some l \<longrightarrow> sid' = sid)"
proof -
  have inv: "sandbox_inv w" using sandbox.reach_inv [OF refl assms(1)] .
  have "sid \<in># owners w" using assms(2) by (simp add: owners_def)
  then have "dmem sid (sw_leases w)" using inv assms(2) by (simp add: sandbox_inv_defs)
  then obtain l where l: "dget (sw_leases w) sid = Some l" by (auto simp: dmem_def)
  have ok: "dict_ok (sw_leases w)" using inv by (simp add: sandbox_inv_defs)
  have once: "count (placed_leases w) l \<le> 1" using inv by (simp add: sandbox_inv_defs distinct_count_atmost_1)
  have pop: "held (\<lambda>l. [l]) (sw_leases w) = add_mset l (held (\<lambda>l. [l]) (dpop sid (sw_leases w)))"
    using held_dpop [OF ok, of "\<lambda>l. [l]" sid] l by simp
  have zero: "count (mset (sw_terminated w)) l = 0" "count (held (\<lambda>l. [l]) (dpop sid (sw_leases w))) l = 0" using once pop by (simp_all add: placed_leases_def)
  have "sid' = sid" if "dget (sw_leases w) sid' = Some l" for sid'
  proof (rule ccontr)
    assume "sid' \<noteq> sid"
    then have "dget (dpop sid (sw_leases w)) sid' = Some l" using that by simp
    then have "(sid', l) \<in> set (dpop sid (sw_leases w))" by (rule map_of_SomeD)
    then have "l \<in># held (\<lambda>l. [l]) (dpop sid (sw_leases w))" by (force simp: held_def)
    then show False using zero(2) by (simp add: count_eq_zero_iff)
  qed
  moreover have "l \<notin> set (sw_terminated w)" using zero(1) by (simp add: count_eq_zero_iff)
  ultimately show ?thesis using l by blast
qed

lemma rest_terminated:
  assumes inv: "sandbox_inv w" and rest: "owners w = {#}" "sw_tasks w = []"
  shows "mset (sw_terminated w) = mset (sw_issued w)" "sw_leases w = []" "sw_creates w = []" "init_of sid w \<in> {None, Some Ready, Some Raised}"
proof -
  show ended: "init_of sid w \<in> {None, Some Ready, Some Raised}" for sid using inv rest(1) by (cases "init_of sid w") (auto simp: sandbox_inv_defs)
  have "\<not> dmem sid (sw_leases w)" "\<not> dmem sid (sw_creates w)" for sid using inv rest ended [of sid] by (auto simp: sandbox_inv_defs)
  then show none: "sw_leases w = []" "sw_creates w = []" unfolding dmem_iff by (metis ex_in_conv image_is_empty set_empty)+
  have "dict_ok (sw_inits w)" using inv by (simp add: sandbox_inv_defs)
  then have "lease_of_phase p = []" if "(sid, p) \<in> set (sw_inits w)" for sid p
    using that ended [of sid] by (auto simp: init_of_def simp flip: dget_in_set)
  then have "held lease_of_phase (sw_inits w) = {#}" by (auto simp: held_def)
  then show "mset (sw_terminated w) = mset (sw_issued w)" using inv none rest(2) by (simp add: sandbox_inv_defs placed_leases_def)
qed

text \<open>
  C12.  Nothing is leaked.  When nobody owns a session any more and the tracked background work is done, as after the
  worker has cleaned up its store, its samples have ended and the lifecycle tasks are drained, every
  sandbox the provider has issued has been terminated exactly once, and no call of \<open>init\<close> and no request to
  the provider is under way.
\<close>

theorem no_sandbox_leaks:
  assumes "sandbox_step\<^sup>*\<^sup>* new_world w" "owners w = {#}" "sw_tasks w = []"
  shows "mset (sw_terminated w) = mset (sw_issued w) \<and> distinct (sw_terminated w) \<and> sw_leases w = [] \<and> sw_creates w = [] \<and>
    (\<forall>sid. init_of sid w \<in> {None, Some Ready, Some Raised})"
proof -
  have inv: "sandbox_inv w" using sandbox.reach_inv [OF refl assms(1)] .
  note rest = rest_terminated [OF inv assms(2,3)]
  have "distinct (sw_terminated w)" using inv mset_eq_imp_distinct_iff [OF rest(1)] by (auto simp: sandbox_inv_defs)
  then show ?thesis using rest by blast
qed

section \<open>The work comes to rest\<close>

fun phase_weight :: "init_phase \<Rightarrow> nat" where
  "phase_weight Unstarted = 10"
| "phase_weight Creating = 7"
| "phase_weight (Checking l) = 5"
| "phase_weight Failing = 1"
| "phase_weight _ = 0"

fun create_weight :: "create_status \<Rightarrow> nat" where
  "create_weight CreatePending = 1"
| "create_weight _ = 0"

fun task_weight :: "lifecycle_task \<Rightarrow> nat" where
  "task_weight (Dispose sid) = 5"
| "task_weight (DisposeWait sid) = 4"
| "task_weight (TerminatePaddock sid) = 3"
| "task_weight (OrphanCreate sid) = 2"
| "task_weight (InitCleanup sid l) = 2"
| "task_weight (Releasing l) = 1"

definition weigh :: "('v \<Rightarrow> nat) \<Rightarrow> ('k, 'v) dict \<Rightarrow> nat" where
  "weigh f d = (\<Sum>v \<leftarrow> dvalues d. f v)"

definition work_left :: "sandbox_world \<Rightarrow> nat" where
  "work_left w = weigh phase_weight (sw_inits w) + weigh create_weight (sw_creates w) + (\<Sum>t \<leftarrow> sw_tasks w. task_weight t) +
     6 * length (ps_records (sw_store w)) + 6 * length (sw_claims w) + length (sw_inline w) + 4 * length (sw_running w)"

lemma weigh_dset: "dict_ok d \<Longrightarrow> dget d k = Some u \<Longrightarrow> weigh f (dset k v d) + f u = weigh f d + f v"
  by (induction d) (auto simp: dict_ok_def weigh_def)

lemma weigh_dset_new: "\<not> dmem k d \<Longrightarrow> weigh f (dset k v d) = weigh f d + f v"
  by (simp add: dset_new weigh_def)

lemma weigh_dpop: "dict_ok d \<Longrightarrow> dget d k = Some u \<Longrightarrow> weigh f (dpop k d) + f u = weigh f d"
proof (induction d)
  case (Cons e d)
  have "k \<notin> fst ` set d \<Longrightarrow> dpop k d = d" by (simp add: delete_notin_dom)
  then show ?case using Cons by (cases e) (auto simp: dict_ok_def weigh_def)
qed simp

lemma task_weight_remove1: "t \<in> set ts \<Longrightarrow> (\<Sum>t \<leftarrow> remove1 t ts. task_weight t) + task_weight t = (\<Sum>t \<leftarrow> ts. task_weight t)"
  by (induction ts) auto

lemma length_remove1_less: "x \<in> set xs \<Longrightarrow> Suc (length (remove1 x xs)) = length xs"
  by (simp add: length_remove1) (metis Suc_pred length_pos_if_in_set)

lemma cancel_work:
  assumes "sandbox_inv w" "init_of sid w = Some p"
  shows "work_left (cancel_init sid w) \<le> work_left w" "p \<notin> {Ready, Raised} \<Longrightarrow> p \<noteq> Unstarted \<Longrightarrow> work_left (cancel_init sid w) < work_left w"
proof -
  have ok: "dict_ok (sw_inits w)" using assms(1) by (simp add: sandbox_inv_defs)
  have "cancel_init sid w = w" if "p \<in> {Ready, Raised}" using that assms(2) by (auto simp: cancel_init_def)
  moreover note cancel_init_fields [OF assms] weigh_dset [OF ok assms(2) [unfolded init_of_def], of phase_weight Raised]
  ultimately show "work_left (cancel_init sid w) \<le> work_left w" "p \<notin> {Ready, Raised} \<Longrightarrow> p \<noteq> Unstarted \<Longrightarrow> work_left (cancel_init sid w) < work_left w"
    by (cases p; simp add: work_left_def)+
qed

lemma settle_work: "work_left (settle_inline sid initialized w) + (if sid \<in> set (sw_inline w) then 1 else 0) = work_left w + (if sid \<in> set (sw_inline w) \<and> initialized then 4 else 0)"
  using length_remove1_less [of sid "sw_inline w"] by (auto simp: settle_inline_def work_left_def)

lemma create_work:
  assumes inv: "sandbox_inv w" and pending: "dget (sw_creates w) sid = Some CreatePending"
  shows "\<exists>w'. sandbox_step w w' \<and> work_left w' < work_left w"
proof -
  have "dict_ok (sw_creates w)" using inv by (simp add: sandbox_inv_defs)
  then have "work_left (provider_created sid None w) < work_left w"
    using weigh_dset [of "sw_creates w" sid CreatePending create_weight CreateFailed] pending by (simp add: provider_created_def work_left_def)
  then show ?thesis using step_created [OF pending, of None] by blast
qed

lemma cleanup_work:
  assumes "InitCleanup sid l \<in> set (sw_tasks w)"
  shows "\<exists>w'. sandbox_step w w' \<and> work_left w' < work_left w"
proof -
  have "work_left (run_init_cleanup sid l w) < work_left w"
    using task_weight_remove1 [OF assms] by (simp add: run_init_cleanup_def provider_terminate_def finish_lifecycle_task_def work_left_def)
  then show ?thesis using step_init_cleanup [OF assms] by blast
qed

lemma init_work:
  assumes inv: "sandbox_inv w" and phase: "init_of sid w = Some p" "p \<notin> {Ready, Raised}"
  shows "\<exists>w'. sandbox_step w w' \<and> work_left w' < work_left w"
proof -
  have ok: "dict_ok (sw_inits w)" "dict_ok (sw_creates w)" using inv by (simp_all add: sandbox_inv_defs)
  note weight = weigh_dset [OF ok(1) phase(1) [unfolded init_of_def], of phase_weight]
  show ?thesis
  proof (cases p)
    case Unstarted
    have "\<not> dmem sid (sw_creates w)" using inv phase Unstarted by (auto simp: sandbox_inv_defs)
    then have "work_left (init_begin sid w) < work_left w"
      using weight [of Creating] weigh_dset_new [of sid "sw_creates w" create_weight CreatePending] Unstarted
      by (simp add: init_begin_def set_phase_def work_left_def)
    then show ?thesis using step_begin [of sid w] phase(1) Unstarted by blast
  next
    case Creating
    have "dmem sid (sw_creates w)" using inv phase(1) Creating by (simp add: sandbox_inv_defs)
    then obtain c where c: "dget (sw_creates w) sid = Some c" by (auto simp: dmem_def)
    note pop = weigh_dpop [OF ok(2) c, of create_weight]
    show ?thesis
    proof (cases c)
      case CreatePending
      then show ?thesis using create_work [OF inv] c by blast
    next
      case (Created l)
      then have "work_left (init_resume sid w) < work_left w" using c pop weight [of "Checking l"] Creating by (simp add: init_resume_def set_phase_def work_left_def)
      then show ?thesis using step_resume [of sid w] phase(1) Creating c Created by auto
    next
      case CreateFailed
      let ?v = "set_phase sid Raised (w\<lparr>sw_creates := dpop sid (sw_creates w)\<rparr>)"
      have "work_left ?v < work_left w" using c pop weight [of Raised] Creating by (simp add: set_phase_def work_left_def)
      then have "work_left (init_resume sid w) < work_left w" using c CreateFailed settle_work [of sid False ?v] by (simp add: init_resume_def split: if_splits)
      then show ?thesis using step_resume [of sid w] phase(1) Creating c CreateFailed by auto
    qed
  next
    case (Checking l)
    let ?v = "set_phase sid Ready (w\<lparr>sw_leases := dset sid l (sw_leases w), sw_states := dset sid l (sw_states w)\<rparr>)"
    have "work_left ?v + 5 = work_left w" using weight [of Ready] Checking by (simp add: set_phase_def work_left_def)
    then have "work_left (init_done sid l w) < work_left w" using settle_work [of sid True ?v] by (simp add: init_done_def split: if_splits)
    then show ?thesis using step_done [of sid w l] phase(1) Checking by blast
  next
    case Failing
    show ?thesis
    proof (cases "\<exists>l. InitCleanup sid l \<in> set (sw_tasks w)")
      case False
      have "work_left (set_phase sid Raised w) < work_left w" using weight [of Raised] Failing by (simp add: set_phase_def work_left_def)
      then have "work_left (init_raises sid w) < work_left w" using settle_work [of sid False "set_phase sid Raised w"] by (simp add: init_raises_def split: if_splits)
      then show ?thesis using step_raises [of sid w] phase(1) Failing False by blast
    qed (use cleanup_work in blast)
  qed (use phase(2) in simp_all)
qed

lemma terminate_work: "work_left (paddock_terminate sid w) \<le> work_left w + 1"
  by (auto simp: paddock_terminate_def provider_terminate_def work_left_def Let_def split: option.split)

lemma finish_work: "t \<in> set (sw_tasks w) \<Longrightarrow> work_left (finish_lifecycle_task t w) + task_weight t = work_left w"
  using task_weight_remove1 [of t "sw_tasks w"] by (simp add: finish_lifecycle_task_def work_left_def)

lemma task_work:
  assumes inv: "sandbox_inv w" and t: "t \<in> set (sw_tasks w)"
  shows "\<exists>w'. sandbox_step w w' \<and> work_left w' < work_left w"
proof (cases t)
  case (Dispose sid)
  let ?v = "w\<lparr>sw_tasks := remove1 (Dispose sid) (sw_tasks w) @ [DisposeWait sid]\<rparr>"
  note swap = dispose_swap_inv [OF inv t [unfolded Dispose]]
  have less: "work_left ?v < work_left w" using task_weight_remove1 [OF t] Dispose by (simp add: work_left_def)
  have "sid \<in># owners w" using t Dispose by (intro task_owned) auto
  then obtain p where "init_of sid ?v = Some p" using inv by (auto simp: sandbox_inv_defs dmem_def init_of_def)
  then have "work_left (dispose_begin sid w) < work_left w" using swap(3) cancel_work(1) [OF swap(1)] less by fastforce
  then show ?thesis using step_dispose t Dispose by blast
next
  case (DisposeWait sid)
  show ?thesis
  proof (cases "init_finished sid w")
    case True
    have "work_left (dispose_end sid w) < work_left w"
      using terminate_work [of sid "finish_lifecycle_task t w"] finish_work [OF t] DisposeWait by (simp add: dispose_end_def)
    then show ?thesis using step_dispose_end True t DisposeWait by blast
  next
    case False
    have "sid \<in># owners w" using t DisposeWait by (intro task_owned) auto
    then obtain p where "init_of sid w = Some p" using inv by (auto simp: sandbox_inv_defs dmem_def init_of_def)
    then show ?thesis using init_work [OF inv] False by (auto simp: init_finished_def)
  qed
next
  case (TerminatePaddock sid)
  have "work_left (run_terminate sid w) < work_left w"
    using terminate_work [of sid "finish_lifecycle_task t w"] finish_work [OF t] TerminatePaddock by (simp add: run_terminate_def)
  then show ?thesis using step_terminate t TerminatePaddock by blast
next
  case (OrphanCreate sid)
  have "dmem sid (sw_creates w)" "dict_ok (sw_creates w)" using inv t OrphanCreate by (auto simp: sandbox_inv_defs)
  then obtain c where c: "dget (sw_creates w) sid = Some c" by (auto simp: dmem_def)
  note pop = weigh_dpop [OF \<open>dict_ok (sw_creates w)\<close> c, of create_weight]
  show ?thesis
  proof (cases "c = CreatePending")
    case False
    then have "work_left (orphan_resume sid w) < work_left w" using c pop task_weight_remove1 [OF t] OrphanCreate
      by (cases c) (simp_all add: orphan_resume_def provider_terminate_def finish_lifecycle_task_def work_left_def Let_def)
    then show ?thesis using step_orphan [of sid w] t OrphanCreate c False by auto
  qed (use create_work [OF inv] c in blast)
next
  case (Releasing l)
  then show ?thesis using step_released [of l w] finish_work [OF t] t by auto
qed (use cleanup_work t in blast)

lemma rest_or_work:
  assumes inv: "sandbox_inv w" and busy: "owners w \<noteq> {#} \<or> sw_tasks w \<noteq> []"
  shows "\<exists>w'. sandbox_step w w' \<and> work_left w' < work_left w"
proof -
  consider t where "t \<in> set (sw_tasks w)" | "ps_records (sw_store w) \<noteq> []" | sid where "sid \<in> set (sw_claims w)"
    | sid where "sid \<in> set (sw_inline w)" | sid where "sid \<in> set (sw_running w)"
    using busy by (fastforce simp: owners_def neq_Nil_conv)
  then show ?thesis
  proof cases
    case 1
    then show ?thesis using task_work [OF inv] by blast
  next
    case 2
    have "sum_list (map (task_weight \<circ> (Dispose \<circ> pr_session_id \<circ> snd)) d) = 5 * length d" for d :: "(string, prewarm_record) dict"
      by (induction d) simp_all
    then have "work_left (cleanup_all w) < work_left w" using 2
      by (simp add: cleanup_all_def pop_all_def dispose_records_fields work_left_def)
    then show ?thesis using step_cleanup_all by blast
  next
    case 3
    then have "sid \<in># owners w" by (simp add: owners_def)
    then obtain p where p: "init_of sid w = Some p" using inv by (auto simp: sandbox_inv_defs dmem_def init_of_def)
    show ?thesis
    proof (cases "p \<in> {Ready, Raised}")
      case True
      then have "init_finished sid w" using p by (auto simp: init_finished_def)
      moreover have "work_left (claim_end sid w) < work_left w"
        using length_remove1_less [OF 3] by (simp add: claim_end_def Let_def work_left_def)
      ultimately show ?thesis using step_claim_end 3 by blast
    qed (use init_work [OF inv p] in blast)
  next
    case 4
    then obtain p where "init_of sid w = Some p" "p \<notin> {Ready, Raised}" using inv by (auto simp: sandbox_inv_defs)
    then show ?thesis using init_work [OF inv] by blast
  next
    case 5
    then have "work_left (run_end sid w) < work_left w"
      using length_remove1_less [OF 5] by (simp add: run_end_def schedule_lifecycle_task_def work_left_def)
    then show ?thesis using step_run_end 5 by blast
  qed
qed

text \<open>
  C14.  The work comes to rest: from every reachable state, whatever is under way, finitely many steps lead to a
  state in which no session is owned and no lifecycle task is left, provided the provider answers.
  There everything has been terminated.
\<close>

theorem lifecycle_comes_to_rest:
  assumes "sandbox_step\<^sup>*\<^sup>* new_world w"
  shows "\<exists>w'. sandbox_step\<^sup>*\<^sup>* w w' \<and> owners w' = {#} \<and> sw_tasks w' = [] \<and> mset (sw_terminated w') = mset (sw_issued w')"
  using assms
proof (induction "work_left w" arbitrary: w rule: less_induct)
  case less
  have inv: "sandbox_inv w" using sandbox.reach_inv [OF refl less.prems] .
  show ?case
  proof (cases "owners w = {#} \<and> sw_tasks w = []")
    case False
    then obtain v where v: "sandbox_step w v" "work_left v < work_left w" using rest_or_work [OF inv] by blast
    have "sandbox_step\<^sup>*\<^sup>* new_world v" using less.prems v(1) by simp
    then obtain w' where "sandbox_step\<^sup>*\<^sup>* v w'" "owners w' = {#} \<and> sw_tasks w' = [] \<and> mset (sw_terminated w') = mset (sw_issued w')"
      using less.hyps [OF v(2)] by blast
    then show ?thesis using v(1) by (meson converse_rtranclp_into_rtranclp)
  next
    case True
    then show ?thesis using rest_terminated(1) [OF inv] by blast
  qed
qed

section \<open>One prewarmed sandbox from start to end\<close>

definition sample_ready :: sandbox_world where
  "sample_ready = init_done ''a'' ''L'' (init_resume ''a'' (provider_created ''a'' (Some ''L'') (init_begin ''a'' (snd (start_prewarm ''a'' 0 [] new_world)))))"

definition sample_in_use :: sandbox_world where
  "sample_in_use = claim_end ''a'' (claim_begin ''a'' sample_ready)"

definition sample_at_rest :: sandbox_world where
  "sample_at_rest = finish_lifecycle_task (Releasing ''L'') (run_terminate ''a'' (run_end ''a'' sample_in_use))"

lemma sample_ready_reached: "sandbox_step\<^sup>*\<^sup>* new_world sample_ready"
proof -
  let ?w1 = "snd (start_prewarm ''a'' 0 [] new_world)"
  let ?w2 = "init_begin ''a'' ?w1"
  let ?w3 = "provider_created ''a'' (Some ''L'') ?w2"
  let ?w4 = "init_resume ''a'' ?w3"
  have "sandbox_step new_world ?w1" by (rule step_start) (simp add: new_world_def dmem_def)
  moreover have "sandbox_step ?w1 ?w2" by (rule step_begin) code_simp
  moreover have "dget (sw_creates ?w2) ''a'' = Some CreatePending" "sw_issued ?w2 = []" by code_simp+
  then have "sandbox_step ?w2 ?w3" by (intro step_created) simp_all
  moreover have "init_of ''a'' ?w3 = Some Creating" "dget (sw_creates ?w3) ''a'' = Some (Created ''L'')" by code_simp+
  then have "sandbox_step ?w3 ?w4" by (intro step_resume) simp_all
  moreover have "init_of ''a'' ?w4 = Some (Checking ''L'')" by code_simp
  then have "sandbox_step ?w4 sample_ready" unfolding sample_ready_def by (rule step_done)
  ultimately show ?thesis by (meson converse_rtranclp_into_rtranclp rtranclp.rtrancl_refl)
qed

lemma sample_in_use_reached: "sandbox_step\<^sup>*\<^sup>* new_world sample_in_use"
proof -
  have "''a'' \<in> set (sw_claims (claim_begin ''a'' sample_ready))" "init_finished ''a'' (claim_begin ''a'' sample_ready)" by code_simp+
  then have "sandbox_step (claim_begin ''a'' sample_ready) sample_in_use" unfolding sample_in_use_def by (rule step_claim_end)
  then show ?thesis using sample_ready_reached step_claim [of sample_ready "''a''"] by (meson rtranclp.rtrancl_into_rtrancl)
qed

lemma sample_at_rest_reached: "sandbox_step\<^sup>*\<^sup>* new_world sample_at_rest"
proof -
  let ?w1 = "run_end ''a'' sample_in_use"
  let ?w2 = "run_terminate ''a'' ?w1"
  have "''a'' \<in> set (sw_running sample_in_use)" by code_simp
  then have "sandbox_step sample_in_use ?w1" by (rule step_run_end)
  moreover have "TerminatePaddock ''a'' \<in> set (sw_tasks ?w1)" by code_simp
  then have "sandbox_step ?w1 ?w2" by (rule step_terminate)
  moreover have "Releasing ''L'' \<in> set (sw_tasks ?w2)" by code_simp
  then have "sandbox_step ?w2 sample_at_rest" unfolding sample_at_rest_def by (rule step_released)
  ultimately show ?thesis using sample_in_use_reached by (meson rtranclp.rtrancl_into_rtrancl)
qed

theorem sandboxes_conserved_witness: "placed_leases sample_in_use = {#''L''#} \<and> sw_issued sample_in_use = [''L'']"
proof -
  have "sw_issued sample_in_use = [''L'']" by code_simp
  then show ?thesis using sandboxes_conserved [OF sample_in_use_reached] by simp
qed

theorem running_sandbox_live_witness: "\<exists>l. dget (sw_leases sample_in_use) ''a'' = Some l \<and> l \<notin> set (sw_terminated sample_in_use)"
proof -
  have "''a'' \<in> set (sw_running sample_in_use)" by code_simp
  then show ?thesis using running_sandbox_live [OF sample_in_use_reached] by blast
qed

theorem no_sandbox_leaks_witness: "mset (sw_terminated sample_at_rest) = {#''L''#} \<and> sw_leases sample_at_rest = []"
proof -
  have parts: "ps_records (sw_store sample_at_rest) = []" "sw_claims sample_at_rest = []" "sw_inline sample_at_rest = []" "sw_running sample_at_rest = []"
    "sw_tasks sample_at_rest = []" "sw_issued sample_at_rest = [''L'']" by code_simp+
  then have "owners sample_at_rest = {#}" by (simp add: owners_def)
  then show ?thesis using no_sandbox_leaks [OF sample_at_rest_reached _ parts(5)] parts(6) by simp
qed

theorem lifecycle_comes_to_rest_witness:
  "\<exists>w. sandbox_step\<^sup>*\<^sup>* sample_in_use w \<and> owners w = {#} \<and> sw_tasks w = [] \<and> mset (sw_terminated w) = mset (sw_issued w)"
  using lifecycle_comes_to_rest [OF sample_in_use_reached] .

end
