(* ===== verification/Prewarm_Scheduler.thy ===== *)
theory Prewarm_Scheduler
  imports Sandbox_Lifecycle
begin

text \<open>
  The scheduler that fetches groups ahead of time and asks for their sandboxes
  (\<open>dressage/rollout/prewarm/scheduler.py\<close> and \<open>config.py\<close>), over the prewarm store of \<open>Sandbox_Lifecycle\<close> and a source
  of groups.

  The source is a function that stands for \<open>data_buffer.get_samples(1)\<close>; the locale \<open>group_source\<close> states the one law
  the scheduler relies on, and is interpreted on the data source.  Whether a paddock can be made is an
  argument, and so are the random session names.

  The lemmas show that every group taken from the source is handed out once, in order and with consecutive
  numbers, and that the scheduler looks ahead no further than it may.
\<close>

section \<open>The prefetching scheduler\<close>

record prewarm_scheduler =
  sch_enabled :: bool
  sch_ahead :: nat
  sch_prefetched :: "(int \<times> data_sample list) list"
  sch_next_group_id :: int

definition normalize_blackbox_type :: "py_lib \<Rightarrow> pyval \<Rightarrow> string" where
  "normalize_blackbox_type lib v =
     (let t = lower (strip (py_str (py_repr lib) (py_or v (PStr ''opencode'')))) in if t = [] then ''opencode'' else t)"

definition sample_env_args :: "py_lib \<Rightarrow> data_sample \<Rightarrow> (string, pyval) dict" where
  "sample_env_args lib s =
     (let md = da_metadata s; t = normalize_blackbox_type lib (py_or (pget md ''blackbox_type'') (PStr ''opencode''))
      in paddock_env_args_from_metadata md (if dmem ''blackbox_type'' md \<or> t \<noteq> ''opencode'' then [(''blackbox_type'', PStr t)] else []))"

definition prewarm_sample :: "py_lib \<Rightarrow> string \<Rightarrow> int \<Rightarrow> data_sample \<Rightarrow> sandbox_world \<Rightarrow> (data_sample \<times> sandbox_world) result" where
  "prewarm_sample lib fresh gid s w =
     rbind (ensure_blackbox_session_id fresh s) (\<lambda>(sid, s').
       case start_prewarm sid gid (sample_env_args lib s) w of
         (None, w) \<Rightarrow> Inr (s', w)
       | (Some _, w) \<Rightarrow> Inr (s'\<lparr>da_metadata := dset ''prewarm_requested'' (PBool True) (da_metadata s')\<rparr>, w))"

text \<open>The samples of a group in turn; after an exception the rest stays as it is.\<close>

fun prewarm_samples :: "py_lib \<Rightarrow> (nat \<Rightarrow> string) \<Rightarrow> int \<Rightarrow> data_sample list \<Rightarrow> sandbox_world \<Rightarrow> data_sample list \<times> sandbox_world" where
  "prewarm_samples lib fresh gid [] w = ([], w)"
| "prewarm_samples lib fresh gid (s # ss) w =
     (case prewarm_sample lib (fresh (length ss)) gid s w of
        Inl e \<Rightarrow> (s # ss, w)
      | Inr (s', w) \<Rightarrow> (let (ss', w) = prewarm_samples lib fresh gid ss w in (s' # ss', w)))"

definition prefetch_and_prewarm :: "py_lib \<Rightarrow> (nat \<Rightarrow> string) \<Rightarrow> bool \<Rightarrow> int \<Rightarrow> data_sample list \<Rightarrow> sandbox_world \<Rightarrow> data_sample list \<times> sandbox_world" where
  "prefetch_and_prewarm lib fresh paddock_available gid grp w = (if paddock_available then prewarm_samples lib fresh gid grp w else (grp, w))"

fun prefetch_loop ::
  "py_lib \<Rightarrow> (int \<Rightarrow> nat \<Rightarrow> string) \<Rightarrow> bool \<Rightarrow> ('s \<Rightarrow> (data_sample list list \<times> 's) result) \<Rightarrow> nat \<Rightarrow> prewarm_scheduler \<Rightarrow> 's \<Rightarrow> sandbox_world \<Rightarrow> (prewarm_scheduler \<times> 's \<times> sandbox_world) result" where
  "prefetch_loop lib fresh avail get 0 sc src w = Inr (sc, src, w)"
| "prefetch_loop lib fresh avail get (Suc n) sc src w =
     rbind (get src) (\<lambda>(groups, src).
       case groups of
         [] \<Rightarrow> Inr (sc, src, w)
       | grp # _ \<Rightarrow>
           (let gid = sch_next_group_id sc;
                (grp, w) = prefetch_and_prewarm lib (fresh gid) avail gid grp w
            in prefetch_loop lib fresh avail get n (sc\<lparr>sch_next_group_id := gid + 1, sch_prefetched := sch_prefetched sc @ [(gid, grp)]\<rparr>) src w))"

definition do_prefetch ::
  "py_lib \<Rightarrow> (int \<Rightarrow> nat \<Rightarrow> string) \<Rightarrow> bool \<Rightarrow> ('s \<Rightarrow> (data_sample list list \<times> 's) result) \<Rightarrow> prewarm_scheduler \<Rightarrow> 's \<Rightarrow> sandbox_world \<Rightarrow> (prewarm_scheduler \<times> 's \<times> sandbox_world) result" where
  "do_prefetch lib fresh avail get sc src w =
     (if \<not> sch_enabled sc \<or> 0 < pending_lifecycle_task_count w then Inr (sc, src, w)
      else prefetch_loop lib fresh avail get (sch_ahead sc - length (sch_prefetched sc)) sc src w)"

definition pop_next_group ::
  "('s \<Rightarrow> (data_sample list list \<times> 's) result) \<Rightarrow> prewarm_scheduler \<Rightarrow> 's \<Rightarrow> ((int \<times> data_sample list) option \<times> prewarm_scheduler \<times> 's) result" where
  "pop_next_group get sc src =
     (case sch_prefetched sc of
        g # gs \<Rightarrow> Inr (Some g, sc\<lparr>sch_prefetched := gs\<rparr>, src)
      | [] \<Rightarrow> rbind (get src) (\<lambda>(groups, src).
          case groups of
            [] \<Rightarrow> Inr (None, sc, src)
          | grp # _ \<Rightarrow> Inr (Some (sch_next_group_id sc, grp), sc\<lparr>sch_next_group_id := sch_next_group_id sc + 1\<rparr>, src)))"

definition prewarm_enabled :: "string \<Rightarrow> string option \<Rightarrow> bool result" where
  "prewarm_enabled provider setting =
     (if lower (strip provider) \<noteq> ''e2b'' then Inr False
      else case setting of
        None \<Rightarrow> Inr True
      | Some v \<Rightarrow> if strip v = [] \<or> strip v = ''1'' then Inr True else if strip v = ''0'' then Inr False
                  else Inl (ValueError ''DRESSAGE_SANDBOX_PREWARM must be 0 or 1''))"

definition prewarm_ahead :: "string option \<Rightarrow> int result" where
  "prewarm_ahead setting =
     (case parse_int (case setting of None \<Rightarrow> ''8'' | Some v \<Rightarrow> v) of
        None \<Rightarrow> Inl (ValueError ''must be an integer'')
      | Some n \<Rightarrow> if n \<le> 0 then Inl (ValueError ''must be positive'') else Inr n)"

definition new_scheduler :: "string \<Rightarrow> string option \<Rightarrow> string option \<Rightarrow> prewarm_scheduler result" where
  "new_scheduler provider setting ahead =
     rbind (prewarm_enabled provider setting) (\<lambda>enabled.
     rbind (if enabled then prewarm_ahead ahead else Inr 0) (\<lambda>n.
       Inr \<lparr>sch_enabled = enabled, sch_ahead = nat n, sch_prefetched = [], sch_next_group_id = 0\<rparr>))"

section \<open>Order and look-ahead\<close>

text \<open>What prewarming leaves of a sample.\<close>

definition same_sample :: "data_sample \<Rightarrow> data_sample \<Rightarrow> bool" where
  "same_sample s t \<longleftrightarrow> da_prompt t = da_prompt s \<and> da_label t = da_label s \<and> da_index t = da_index s \<and> da_group_index t = da_group_index s \<and>
     da_generate_function_path t = da_generate_function_path s"

lemma same_sample_refl: "list_all2 same_sample grp grp"
  by (simp add: list_all2_same same_sample_def)

lemma ensure_session_sample: "ensure_blackbox_session_id fresh s = Inr (sid, s') \<Longrightarrow> s' = s\<lparr>da_session_id := Some sid\<rparr>"
  unfolding ensure_blackbox_session_id_def rbind_eq_Inr Let_def by (elim exE conjE) auto

lemma prewarm_sample_same:
  assumes "prewarm_sample lib fresh gid s w = Inr (s', w')"
  shows "same_sample s s'"
proof -
  obtain sid s1 where s: "ensure_blackbox_session_id fresh s = Inr (sid, s1)" using assms by (auto simp: prewarm_sample_def rbind_eq_Inr)
  obtain started v where st: "start_prewarm sid gid (sample_env_args lib s) w = (started, v)" by fastforce
  show ?thesis using assms ensure_session_sample [OF s] by (cases started) (auto simp: prewarm_sample_def s st same_sample_def)
qed

lemma prewarm_samples_same: "list_all2 same_sample grp (fst (prewarm_samples lib fresh gid grp w))"
proof (induction grp arbitrary: w)
  case (Cons s ss)
  show ?case
  proof (cases "prewarm_sample lib (fresh (length ss)) gid s w")
    case (Inr r)
    obtain s' w' where r: "r = (s', w')" by fastforce
    show ?thesis using Inr Cons.IH [of w'] prewarm_sample_same [of lib "fresh (length ss)" gid s w s' w'] by (simp add: r split_beta)
  qed (use same_sample_refl [of "s # ss"] in simp)
qed simp

lemma prefetch_and_prewarm_same: "list_all2 same_sample grp (fst (prefetch_and_prewarm lib fresh avail gid grp w))"
  using prewarm_samples_same same_sample_refl by (simp add: prefetch_and_prewarm_def)

text \<open>The groups a series of calls takes from a source.\<close>

inductive takes :: "('s \<Rightarrow> (data_sample list list \<times> 's) result) \<Rightarrow> 's \<Rightarrow> data_sample list list \<Rightarrow> 's \<Rightarrow> bool" for get where
  takes_nothing: "takes get src [] src"
| takes_call: "\<lbrakk>takes get src gs src1; get src1 = Inr (groups, src2)\<rbrakk> \<Longrightarrow> takes get src (gs @ groups) src2"

text \<open>Calls of the scheduler in any order, between arbitrary changes of the sandboxes.\<close>

inductive schedule_run ::
  "py_lib \<Rightarrow> ('s \<Rightarrow> (data_sample list list \<times> 's) result) \<Rightarrow> prewarm_scheduler \<Rightarrow> 's \<Rightarrow> (int \<times> data_sample list) list \<Rightarrow> prewarm_scheduler \<Rightarrow> 's \<Rightarrow> bool"
  for lib get sc src where
  run_nothing: "schedule_run lib get sc src [] sc src"
| run_prefetch: "\<lbrakk>schedule_run lib get sc src popped sc1 src1; do_prefetch lib fresh avail get sc1 src1 w = Inr (sc2, src2, w')\<rbrakk> \<Longrightarrow>
    schedule_run lib get sc src popped sc2 src2"
| run_pop: "\<lbrakk>schedule_run lib get sc src popped sc1 src1; pop_next_group get sc1 src1 = Inr (Some g, sc2, src2)\<rbrakk> \<Longrightarrow>
    schedule_run lib get sc src (popped @ [g]) sc2 src2"
| run_idle: "\<lbrakk>schedule_run lib get sc src popped sc1 src1; pop_next_group get sc1 src1 = Inr (None, sc2, src2)\<rbrakk> \<Longrightarrow>
    schedule_run lib get sc src popped sc2 src2"

text \<open>The groups the scheduler holds or has handed out, against those it has taken.\<close>

definition books :: "int \<Rightarrow> data_sample list list \<Rightarrow> (int \<times> data_sample list) list \<Rightarrow> int \<Rightarrow> bool" where
  "books first taken gs nextid \<longleftrightarrow> list_all2 (list_all2 same_sample) taken (map snd gs) \<and>
     map fst gs = map (\<lambda>k. first + int k) [0..<length gs] \<and> nextid = first + int (length gs)"

lemma books_extend:
  assumes "books first taken gs nextid" "list_all2 same_sample grp grp'"
  shows "books first (taken @ [grp]) (gs @ [(nextid, grp')]) (nextid + 1)"
  using assms by (auto simp: books_def list_all2_appendI)

locale group_source =
  fixes get :: "'s \<Rightarrow> (data_sample list list \<times> 's) result"
  assumes at_most_one: "get src = Inr (groups, src') \<Longrightarrow> length groups \<le> 1"
begin

lemma prefetch_loop_books:
  assumes "prefetch_loop lib fresh avail get n sc src w = Inr (sc', src', w')"
    and "takes get src0 taken src" "books first taken (popped @ sch_prefetched sc) (sch_next_group_id sc)"
  shows "(\<exists>taken'. takes get src0 taken' src' \<and> books first taken' (popped @ sch_prefetched sc') (sch_next_group_id sc')) \<and>
    length (sch_prefetched sc') \<le> length (sch_prefetched sc) + n \<and> sch_ahead sc' = sch_ahead sc \<and> sch_enabled sc' = sch_enabled sc"
  using assms
proof (induction n arbitrary: sc src w taken)
  case (Suc n)
  obtain groups src1 where g: "get src = Inr (groups, src1)"
    "(case groups of [] \<Rightarrow> Inr (sc, src1, w)
      | grp # _ \<Rightarrow> (let gid = sch_next_group_id sc; (grp, w) = prefetch_and_prewarm lib (fresh gid) avail gid grp w
          in prefetch_loop lib fresh avail get n (sc\<lparr>sch_next_group_id := gid + 1, sch_prefetched := sch_prefetched sc @ [(gid, grp)]\<rparr>) src1 w)) = Inr (sc', src', w')"
    using Suc.prems(1) by (auto simp: rbind_eq_Inr simp del: list.case)
  have t: "takes get src0 (taken @ groups) src1" using Suc.prems(2) g(1) by (rule takes_call)
  show ?case
  proof (cases groups)
    case Nil
    then show ?thesis using g(2) t Suc.prems(3) by auto
  next
    case (Cons grp rest)
    then have one: "groups = [grp]" using at_most_one [OF g(1)] by simp
    obtain grp' w1 where p: "prefetch_and_prewarm lib (fresh (sch_next_group_id sc)) avail (sch_next_group_id sc) grp w = (grp', w1)" by fastforce
    let ?sc = "sc\<lparr>sch_next_group_id := sch_next_group_id sc + 1, sch_prefetched := sch_prefetched sc @ [(sch_next_group_id sc, grp')]\<rparr>"
    have loop: "prefetch_loop lib fresh avail get n ?sc src1 w1 = Inr (sc', src', w')" using g(2) one p by (simp add: Let_def)
    have "list_all2 same_sample grp grp'" using prefetch_and_prewarm_same [of grp lib "fresh (sch_next_group_id sc)" avail "sch_next_group_id sc" w] p by simp
    then have "books first (taken @ groups) (popped @ sch_prefetched ?sc) (sch_next_group_id ?sc)"
      using books_extend [OF Suc.prems(3)] one by simp
    then show ?thesis using Suc.IH [OF loop t] by auto
  qed
qed auto

lemma schedule_books:
  assumes "schedule_run lib get sc src popped sc' src'" "sch_prefetched sc = []"
  shows "(\<exists>taken. takes get src taken src' \<and> books (sch_next_group_id sc) taken (popped @ sch_prefetched sc') (sch_next_group_id sc')) \<and>
    length (sch_prefetched sc') \<le> sch_ahead sc \<and> sch_ahead sc' = sch_ahead sc"
  using assms(1)
proof induction
  case run_nothing
  then show ?case using assms(2) by (auto simp: books_def intro: takes_nothing)
next
  case (run_prefetch popped sc1 src1 fresh avail w sc2 src2 w')
  show ?case
  proof (cases "\<not> sch_enabled sc1 \<or> 0 < pending_lifecycle_task_count w")
    case False
    then have loop: "prefetch_loop lib fresh avail get (sch_ahead sc1 - length (sch_prefetched sc1)) sc1 src1 w = Inr (sc2, src2, w')"
      using run_prefetch.hyps(2) by (simp add: do_prefetch_def)
    from run_prefetch.IH obtain taken where "takes get src taken src1" "books (sch_next_group_id sc) taken (popped @ sch_prefetched sc1) (sch_next_group_id sc1)" by blast
    from prefetch_loop_books [OF loop this] show ?thesis using run_prefetch.IH by auto
  qed (use run_prefetch in \<open>simp add: do_prefetch_def\<close>)
next
  case (run_pop popped sc1 src1 g sc2 src2)
  from run_pop.IH obtain taken where t: "takes get src taken src1" "books (sch_next_group_id sc) taken (popped @ sch_prefetched sc1) (sch_next_group_id sc1)" by blast
  show ?case
  proof (cases "sch_prefetched sc1")
    case (Cons h hs)
    then show ?thesis using run_pop.hyps(2) run_pop.IH t by (auto simp: pop_next_group_def)
  next
    case Nil
    obtain groups src3 where c: "get src1 = Inr (groups, src3)"
      "(case groups of [] \<Rightarrow> Inr (None, sc1, src3) | grp # _ \<Rightarrow> Inr (Some (sch_next_group_id sc1, grp), sc1\<lparr>sch_next_group_id := sch_next_group_id sc1 + 1\<rparr>, src3))
        = (Inr (Some g, sc2, src2) :: ((int \<times> data_sample list) option \<times> prewarm_scheduler \<times> 's) result)"
      using run_pop.hyps(2) Nil by (auto simp: pop_next_group_def rbind_eq_Inr simp del: list.case(2))
    then obtain grp rest where "groups = grp # rest" by (cases groups) simp_all
    with c have s: "get src1 = Inr (grp # rest, src3)" "g = (sch_next_group_id sc1, grp)" "sc2 = sc1\<lparr>sch_next_group_id := sch_next_group_id sc1 + 1\<rparr>" "src2 = src3"
      by simp_all
    have one: "rest = []" using at_most_one [OF s(1)] by simp
    have "takes get src (taken @ [grp]) src2" using takes_call [OF t(1) s(1)] one s(4) by simp
    moreover have "books (sch_next_group_id sc) (taken @ [grp]) (popped @ [g]) (sch_next_group_id sc2)"
      using books_extend [OF t(2) same_sample_refl, of grp] Nil s(2,3) by simp
    ultimately show ?thesis using run_pop.IH Nil s(3) by auto
  qed
next
  case (run_idle popped sc1 src1 sc2 src2)
  from run_idle.IH obtain taken where t: "takes get src taken src1" "books (sch_next_group_id sc) taken (popped @ sch_prefetched sc1) (sch_next_group_id sc1)" by blast
  have none: "sch_prefetched sc1 = []" using run_idle.hyps(2) by (cases "sch_prefetched sc1") (simp_all add: pop_next_group_def)
  obtain groups src3 where c: "get src1 = Inr (groups, src3)" using run_idle.hyps(2) by (auto simp: pop_next_group_def none rbind_eq_Inr)
  then have s: "get src1 = Inr ([], src2)" "sc2 = sc1" using run_idle.hyps(2) by (cases groups; auto simp: pop_next_group_def none)+
  have "takes get src taken src2" using takes_call [OF t(1) s(1)] by simp
  then show ?case using t(2) run_idle.IH s(2) by blast
qed

end

lemma draw_rows_length: "length (fst (draw_rows shuffle args n ds)) \<le> n"
proof (induction n arbitrary: ds)
  case (Suc n)
  let ?e = "next_epoch shuffle args (the (ds_samples ds)) ds"
  show ?case using Suc.IH [of "?e\<lparr>ds_sample_offset := ds_sample_offset ?e + 1\<rparr>"] by (simp add: Let_def split_beta)
qed simp

lemma draw_mixture_length: "draw_mixture shuffle args n parts = Inr (bases, parts') \<Longrightarrow> length bases = n"
  by (induction n arbitrary: parts bases) (auto simp: rbind_eq_Inr)

lemma get_samples_length:
  assumes "get_samples shuffle parent args n ds = Inr (groups, ds')" "\<And>m. length (parent m) \<le> m"
  shows "length groups \<le> n"
proof -
  let ?ds = "ds\<lparr>ds_buffer := drop n (ds_buffer ds)\<rparr>" and ?m = "n - length (ds_buffer ds)"
  have fresh: "length (fst (fresh_groups args bases ds)) = length bases" for bases ds by (induction bases arbitrary: ds) (simp_all add: split_beta)
  show ?thesis
  proof (cases "?m = 0")
    case True
    then show ?thesis using assms(1) by (auto simp: get_samples_def get_samples_from_buffer_eq)
  next
    case False
    obtain bases ds1 where b: "(case bases of None \<Rightarrow> True | Some bs \<Rightarrow> length bs \<le> ?m)"
      "(case bases of None \<Rightarrow> Inr (ds_buffer ds @ parent ?m, ds1) | Some bs \<Rightarrow> (let (gs, ds2) = fresh_groups args bs ds1 in Inr (ds_buffer ds @ gs, ds2)))
        = (Inr (groups, ds') :: (data_sample list list \<times> data_source) result)"
    proof (cases "ds_mixture ds")
      case None
      show ?thesis
      proof (cases "ds_samples ds")
        case (Some ss)
        show ?thesis by (rule that [of "Some (fst (draw_rows shuffle args ?m ?ds))" "snd (draw_rows shuffle args ?m ?ds)"])
          (use assms(1) False None Some draw_rows_length [of shuffle args ?m ?ds] in \<open>simp_all add: get_samples_def get_samples_from_buffer_eq Let_def split_beta\<close>)
      qed (use assms(1) False None that [of None ?ds] in \<open>simp add: get_samples_def get_samples_from_buffer_eq Let_def\<close>)
    next
      case (Some parts)
      then obtain bs parts' where d: "draw_mixture shuffle args ?m parts = Inr (bs, parts')"
        using assms(1) False by (auto simp: get_samples_def get_samples_from_buffer_eq Let_def rbind_eq_Inr)
      show ?thesis by (rule that [of "Some bs" "?ds\<lparr>ds_mixture := Some parts'\<rparr>"])
        (use assms(1) False Some d draw_mixture_length [OF d] in \<open>simp_all add: get_samples_def get_samples_from_buffer_eq Let_def\<close>)
    qed
    show ?thesis
    proof (cases bases)
      case None
      then show ?thesis using b(2) assms(2) [of ?m] False by auto
    next
      case (Some bs)
      then show ?thesis using b fresh [of bs ds1] False by (auto simp: split_beta)
    qed
  qed
qed

interpretation data_groups: group_source "get_samples shuffle (\<lambda>_. []) args 1" for shuffle args
  by unfold_locales (auto dest: get_samples_length)


text \<open>
  The scheduler does not ask for sandboxes while disposed ones are still being cleaned up, nor when it is switched off.
\<close>

lemma prefetch_waits_for_cleanup:
  "sw_tasks w \<noteq> [] \<or> \<not> sch_enabled sc \<Longrightarrow> do_prefetch lib fresh avail get sc src w = Inr (sc, src, w)"
  by (auto simp: do_prefetch_def pending_lifecycle_task_count_def)

section \<open>A worker with a look-ahead of one group\<close>

definition sample_scheduler :: prewarm_scheduler where
  "sample_scheduler = \<lparr>sch_enabled = True, sch_ahead = 1, sch_prefetched = [], sch_next_group_id = 0\<rparr>"

definition sample_names :: "int \<Rightarrow> nat \<Rightarrow> string" where
  "sample_names gid k = show_int gid @ ''-'' @ show_nat k"

definition sample_worker :: "((int \<times> data_sample list) option \<times> prewarm_scheduler \<times> data_source \<times> sandbox_world) result" where
  "sample_worker =
     rbind (do_prefetch sample_py_lib sample_names True (get_samples turn_round (\<lambda>_. []) sample_source_args 1) sample_scheduler
              (text_source turn_round sample_source_args sample_rows) new_world) (\<lambda>(sc, ds, w).
     rbind (pop_next_group (get_samples turn_round (\<lambda>_. []) sample_source_args 1) sc ds) (\<lambda>(g, sc, ds). Inr (g, sc, ds, w)))"

lemma sample_worker_result:
  "(case sample_worker of
      Inl e \<Rightarrow> None
    | Inr (g, sc, ds, w) \<Rightarrow> Some (map_option (\<lambda>(gid, grp). (gid, map da_index grp, map da_session_id grp)) g, length (sch_prefetched sc), dkeys (ps_records (sw_store w))))
   = Some (Some (0, [Some 0, Some 1], [Some ''bbs-0-1'', Some ''bbs-0-0'']), 0, [''bbs-0-1'', ''bbs-0-0''])"
  by code_simp


end
