(* ===== verification/Rollout_Worker.thy ===== *)
theory Rollout_Worker
  imports Partial_Rollout Prewarm_Scheduler
begin

text \<open>
  The background workers of the asynchronous rollouts (\<open>AsyncRolloutWorker\<close> of
  \<open>dressage/rollout/fully_async_rollout.py\<close> and \<open>PartialAsyncRolloutWorker\<close> of
  \<open>dressage/rollout/partial_async_rollout.py\<close>) with their bounded queue of completed groups, run against
  the calls of the partial rollout that drain the queue and hand back what they do not need.

  The two threads are interleaved at the operations on the queue: a \<open>put\<close> with its timeout is one attempt, a
  poll is a series of single \<open>get_nowait\<close> calls.  What a worker takes its groups from, the
  scheduler with the data source and the sandboxes, is an interface (locale \<open>group_feed\<close>), interpreted on the
  model of the scheduler.

  The lemmas show that in every interleaving each group handed to a worker is in exactly one place, that the queue and
  the number of running groups are bounded, that groups are only lost by stopping, and that a call
  accounts for everything it has drained; and that handing back can block forever.
\<close>

section \<open>Tasks and their results\<close>

datatype result_item = OneSample rollout_sample | Segments "rollout_sample list"

definition flatten_multi_segment_result :: "result_item list \<Rightarrow> rollout_sample list" where
  "flatten_multi_segment_result items = concat (map (\<lambda>i. case i of OneSample s \<Rightarrow> [s] | Segments ss \<Rightarrow> ss) items)"

record rollout_task =
  ta_group_id :: int
  ta_group :: "rollout_sample list"
  ta_outcome :: "result_item list result option"

definition completed_from_task :: "rollout_task \<Rightarrow> completed_group" where
  "completed_from_task t =
     (case ta_outcome t of
        Some (Inr items) \<Rightarrow>
          \<lparr>cg_group_id = ta_group_id t, cg_original_group = ta_group t, cg_result = Some (flatten_multi_segment_result items), cg_error = None\<rparr>
      | Some (Inl e) \<Rightarrow> \<lparr>cg_group_id = ta_group_id t, cg_original_group = ta_group t, cg_result = None, cg_error = Some e\<rparr>
      | None \<Rightarrow> \<lparr>cg_group_id = ta_group_id t, cg_original_group = ta_group t, cg_result = None, cg_error = Some (OtherError ''InvalidStateError'')\<rparr>)"

section \<open>The worker\<close>

text \<open>
  \<open>wk_source\<close> is the scheduler with what it works on.  \<open>wk_putting\<close> is the group the loop is
  waiting to put into the queue.  \<open>wk_rollout_id\<close> is absent in the fully asynchronous worker, which does not
  annotate the groups it submits.
\<close>

record 's rollout_worker =
  wk_source :: 's
  wk_max_active_groups :: int
  wk_queue_size :: int
  wk_queue :: "completed_group list"
  wk_active :: "rollout_task list"
  wk_putting :: "completed_group option"
  wk_running :: bool
  wk_alive :: bool
  wk_rollout_id :: "int option"

definition new_worker :: "'s \<Rightarrow> (string, pyval) dict \<Rightarrow> (string, string) dict \<Rightarrow> int option \<Rightarrow> 's rollout_worker result" where
  "new_worker src args env rollout_id =
     rbind (case dget env ''DRESSAGE_ASYNC_MAX_ACTIVE_GROUPS'' of
              Some v \<Rightarrow> py_int (PStr v)
            | None \<Rightarrow> py_int (dget_or args ''rollout_batch_size'' (PInt 1))) (\<lambda>max_active.
     rbind (case dget env ''DRESSAGE_ASYNC_OUTPUT_QUEUE_SIZE'' of Some v \<Rightarrow> py_int (PStr v) | None \<Rightarrow> Inr 1000) (\<lambda>output_size.
       Inr \<lparr>wk_source = src, wk_max_active_groups = max_active, wk_queue_size = output_size, wk_queue = [], wk_active = [], wk_putting = None,
            wk_running = True, wk_alive = True, wk_rollout_id = rollout_id\<rparr>))"

definition high_watermark :: "'s rollout_worker \<Rightarrow> int" where
  "high_watermark w = max 1 (\<lfloor>real_of_int (wk_queue_size w) * 4 / 5\<rfloor>)"

definition queue_full :: "'s rollout_worker \<Rightarrow> bool" where
  "queue_full w \<longleftrightarrow> 0 < wk_queue_size w \<and> wk_queue_size w \<le> int (length (wk_queue w))"

text \<open>One round of \<open>_put_completed\<close>: whether its loop ends, and the worker afterwards.\<close>

definition put_attempt :: "completed_group \<Rightarrow> 's rollout_worker \<Rightarrow> bool \<times> 's rollout_worker" where
  "put_attempt c w =
     (if \<not> queue_full w then (True, w\<lparr>wk_queue := wk_queue w @ [c]\<rparr>)
      else if \<not> wk_running w then (True, w) else (False, w))"

definition finish_group :: "nat \<Rightarrow> result_item list result \<Rightarrow> 's rollout_worker \<Rightarrow> 's rollout_worker" where
  "finish_group i outcome w = w\<lparr>wk_active := (wk_active w)[i := (wk_active w ! i)\<lparr>ta_outcome := Some outcome\<rparr>]\<rparr>"

definition reap :: "nat \<Rightarrow> 's rollout_worker \<Rightarrow> 's rollout_worker" where
  "reap i w = w\<lparr>wk_active := take i (wk_active w) @ drop (Suc i) (wk_active w), wk_putting := Some (completed_from_task (wk_active w ! i))\<rparr>"

definition put_reaped :: "(int \<Rightarrow> 's \<Rightarrow> 's) \<Rightarrow> 's rollout_worker \<Rightarrow> 's rollout_worker" where
  "put_reaped release w =
     (case wk_putting w of
        None \<Rightarrow> w
      | Some c \<Rightarrow> (let (ended, w') = put_attempt c w
                   in if ended then w'\<lparr>wk_putting := None, wk_source := release (cg_group_id c) (wk_source w')\<rparr> else w'))"

definition may_dispatch :: "'s rollout_worker \<Rightarrow> bool" where
  "may_dispatch w \<longleftrightarrow> wk_running w \<and> int (length (wk_active w)) < wk_max_active_groups w \<and> int (length (wk_queue w)) < high_watermark w"

definition dispatch_group :: "('s \<Rightarrow> ((int \<times> rollout_sample list) option \<times> 's) result) \<Rightarrow> 's rollout_worker \<Rightarrow> 's rollout_worker result" where
  "dispatch_group pop w =
     rbind (pop (wk_source w)) (\<lambda>(g, src).
       case g of
         None \<Rightarrow> Inr (w\<lparr>wk_source := src\<rparr>)
       | Some (gid, grp) \<Rightarrow>
           let grp = (case wk_rollout_id w of Some i \<Rightarrow> annotate_submitted_group gid i grp | None \<Rightarrow> grp)
           in Inr (w\<lparr>wk_source := src, wk_active := wk_active w @ [\<lparr>ta_group_id = gid, ta_group = grp, ta_outcome = None\<rparr>]\<rparr>))"

text \<open>The loop is left: what still runs is cancelled, and every prewarmed sandbox is released.\<close>

definition end_loop :: "(int \<Rightarrow> 's \<Rightarrow> 's) \<Rightarrow> ('s \<Rightarrow> 's) \<Rightarrow> 's rollout_worker \<Rightarrow> 's rollout_worker" where
  "end_loop release release_all w =
     w\<lparr>wk_active := [], wk_source := release_all (fold (\<lambda>t. release (ta_group_id t)) (wk_active w) (wk_source w)), wk_alive := False\<rparr>"

definition get_completed :: "'s rollout_worker \<Rightarrow> (completed_group \<times> 's rollout_worker) option" where
  "get_completed w = (case wk_queue w of [] \<Rightarrow> None | c # cs \<Rightarrow> Some (c, w\<lparr>wk_queue := cs\<rparr>))"

definition set_rollout_id :: "int \<Rightarrow> 's rollout_worker \<Rightarrow> 's rollout_worker" where
  "set_rollout_id i w = w\<lparr>wk_rollout_id := Some i\<rparr>"

definition stop_worker :: "'s rollout_worker \<Rightarrow> 's rollout_worker" where
  "stop_worker w = w\<lparr>wk_running := False\<rparr>"

section \<open>The worker and the calls that drain it\<close>

record rollout_call =
  rc_config :: rollout_config
  rc_rollout_id :: int
  rc_drain :: bool

text \<open>
  \<open>sy_polls\<close> is what the current call has drained and \<open>sy_returning\<close> what it is putting back.  The other components
  record where groups have gone: \<open>sy_used\<close> to a batch, a retry or the drop counters of an ended call,
  \<open>sy_dropped\<close> and \<open>sy_abandoned\<close> to nowhere.
\<close>

record 's rollout_system =
  sy_worker :: "'s rollout_worker"
  sy_tracker :: staleness_tracker
  sy_call :: "rollout_call option"
  sy_polls :: "completed_group list list"
  sy_returning :: "completed_group list"
  sy_used :: "completed_group list"
  sy_dropped :: "completed_group list"
  sy_abandoned :: "int list"

definition new_system :: "staleness_tracker \<Rightarrow> 's rollout_worker \<Rightarrow> 's rollout_system" where
  "new_system t w = \<lparr>sy_worker = w, sy_tracker = t, sy_call = None, sy_polls = [], sy_returning = [], sy_used = [], sy_dropped = [], sy_abandoned = []\<rparr>"

definition collected :: "py_lib \<Rightarrow> (exn \<Rightarrow> string) \<Rightarrow> rollout_call \<Rightarrow> 's rollout_system \<Rightarrow> partial_state result" where
  "collected lib error_text cl s = partial_collect lib error_text (rc_config cl) (rc_rollout_id cl) (sy_polls s) (initial_partial (sy_tracker s))"

definition put_step :: "(int \<Rightarrow> 's \<Rightarrow> 's) \<Rightarrow> 's rollout_system \<Rightarrow> 's rollout_system" where
  "put_step release s =
     (let w = sy_worker s; w' = put_reaped release w
      in s\<lparr>sy_worker := w',
           sy_dropped := (case wk_putting w of Some c \<Rightarrow> if queue_full w \<and> \<not> wk_running w then sy_dropped s @ [c] else sy_dropped s | None \<Rightarrow> sy_dropped s)\<rparr>)"

definition call_begins :: "rollout_call \<Rightarrow> 's rollout_system \<Rightarrow> 's rollout_system" where
  "call_begins cl s = s\<lparr>sy_call := Some cl, sy_worker := set_rollout_id (rc_rollout_id cl) (sy_worker s)\<rparr>"

definition poll_begins :: "'s rollout_system \<Rightarrow> 's rollout_system" where
  "poll_begins s = s\<lparr>sy_polls := sy_polls s @ [[]]\<rparr>"

definition poll_gets :: "completed_group \<Rightarrow> 's rollout_worker \<Rightarrow> 's rollout_system \<Rightarrow> 's rollout_system" where
  "poll_gets c w s = s\<lparr>sy_worker := w, sy_polls := butlast (sy_polls s) @ [last (sy_polls s) @ [c]]\<rparr>"

text \<open>The loop of the call has enough groups: the rest goes back to the queue, or nowhere on the final rollout, which then stops the worker.\<close>

definition call_collects :: "rollout_call \<Rightarrow> partial_state \<Rightarrow> 's rollout_system \<Rightarrow> 's rollout_system" where
  "call_collects cl ps s =
     s\<lparr>sy_call := None, sy_polls := [], sy_tracker := gf_tracker (ro_filter (pa_rollout ps)),
       sy_returning := returned_leftovers (rc_drain cl) ps,
       sy_used := sy_used s @ filter (\<lambda>c. cg_group_id c \<notin> cg_group_id ` set (leftovers ps)) (concat (sy_polls s)),
       sy_dropped := (if rc_drain cl then sy_dropped s @ leftovers ps else sy_dropped s),
       sy_worker := (if rc_drain cl then stop_worker (sy_worker s) else sy_worker s)\<rparr>"

definition return_step :: "'s rollout_system \<Rightarrow> 's rollout_system" where
  "return_step s =
     (case sy_returning s of
        [] \<Rightarrow> s
      | c # cs \<Rightarrow>
          (let w = sy_worker s; (ended, w') = put_attempt c w
           in if ended
              then s\<lparr>sy_worker := w', sy_returning := cs,
                     sy_dropped := (if queue_full w \<and> \<not> wk_running w then sy_dropped s @ [c] else sy_dropped s)\<rparr>
              else s))"

definition leave_loop :: "(int \<Rightarrow> 's \<Rightarrow> 's) \<Rightarrow> ('s \<Rightarrow> 's) \<Rightarrow> 's rollout_system \<Rightarrow> 's rollout_system" where
  "leave_loop release release_all s =
     s\<lparr>sy_worker := end_loop release release_all (sy_worker s), sy_abandoned := sy_abandoned s @ map ta_group_id (wk_active (sy_worker s))\<rparr>"

text \<open>
  The steps of the two threads.  \<open>moves\<close> are the changes of the source besides taking a group: prefetching, groups added
  for a retry, and the life of the sandboxes.  The worker leaves its loop when it is stopped or when the source raises, which may happen at any time.
  A call whose loop raises ends the training program and has no step.
\<close>

inductive rollout_step ::
  "py_lib \<Rightarrow> (exn \<Rightarrow> string) \<Rightarrow> ('s \<Rightarrow> ((int \<times> rollout_sample list) option \<times> 's) result) \<Rightarrow> ('s \<Rightarrow> 's \<Rightarrow> bool) \<Rightarrow>
   (int \<Rightarrow> 's \<Rightarrow> 's) \<Rightarrow> ('s \<Rightarrow> 's) \<Rightarrow> 's rollout_system \<Rightarrow> 's rollout_system \<Rightarrow> bool"
  for lib error_text pop moves release release_all where
  step_moves: "moves (wk_source (sy_worker s)) src \<Longrightarrow>
    rollout_step lib error_text pop moves release release_all s (s\<lparr>sy_worker := (sy_worker s)\<lparr>wk_source := src\<rparr>\<rparr>)"
| step_finish: "\<lbrakk>i < length (wk_active (sy_worker s)); ta_outcome (wk_active (sy_worker s) ! i) = None\<rbrakk> \<Longrightarrow>
    rollout_step lib error_text pop moves release release_all s (s\<lparr>sy_worker := finish_group i outcome (sy_worker s)\<rparr>)"
| step_reap: "\<lbrakk>wk_alive (sy_worker s); wk_putting (sy_worker s) = None; i < length (wk_active (sy_worker s)); ta_outcome (wk_active (sy_worker s) ! i) \<noteq> None\<rbrakk> \<Longrightarrow>
    rollout_step lib error_text pop moves release release_all s (s\<lparr>sy_worker := reap i (sy_worker s)\<rparr>)"
| step_put: "rollout_step lib error_text pop moves release release_all s (put_step release s)"
| step_dispatch: "\<lbrakk>wk_alive (sy_worker s); wk_putting (sy_worker s) = None; may_dispatch (sy_worker s); dispatch_group pop (sy_worker s) = Inr w\<rbrakk> \<Longrightarrow>
    rollout_step lib error_text pop moves release release_all s (s\<lparr>sy_worker := w\<rparr>)"
| step_leave: "\<lbrakk>wk_alive (sy_worker s); wk_putting (sy_worker s) = None\<rbrakk> \<Longrightarrow>
    rollout_step lib error_text pop moves release release_all s (leave_loop release release_all s)"
| step_call: "\<lbrakk>sy_call s = None; sy_returning s = []\<rbrakk> \<Longrightarrow> rollout_step lib error_text pop moves release release_all s (call_begins cl s)"
| step_poll: "\<lbrakk>sy_call s = Some cl; collected lib error_text cl s = Inr ps; \<not> enough (rc_config cl) (pa_rollout ps)\<rbrakk> \<Longrightarrow>
    rollout_step lib error_text pop moves release release_all s (poll_begins s)"
| step_get: "\<lbrakk>sy_call s \<noteq> None; sy_polls s \<noteq> []; get_completed (sy_worker s) = Some (c, w)\<rbrakk> \<Longrightarrow>
    rollout_step lib error_text pop moves release release_all s (poll_gets c w s)"
| step_collects: "\<lbrakk>sy_call s = Some cl; collected lib error_text cl s = Inr ps; enough (rc_config cl) (pa_rollout ps)\<rbrakk> \<Longrightarrow>
    rollout_step lib error_text pop moves release release_all s (call_collects cl ps s)"
| step_return: "sy_returning s \<noteq> [] \<Longrightarrow> rollout_step lib error_text pop moves release release_all s (return_step s)"
| step_stop: "\<lbrakk>sy_call s = None; sy_returning s = []\<rbrakk> \<Longrightarrow>
    rollout_step lib error_text pop moves release release_all s (s\<lparr>sy_worker := stop_worker (sy_worker s)\<rparr>)"

section \<open>What a call leaves over\<close>

definition waiting_ok :: "completed_group list \<Rightarrow> rollout_state \<Rightarrow> bool" where
  "waiting_ok drained st \<longleftrightarrow> dict_ok (ro_completed_by_id st) \<and>
     (\<forall>k c. dget (ro_completed_by_id st) k = Some c \<longrightarrow> c \<in> set drained \<and> cg_group_id c = k)"

lemma handle_completed_waiting: "handle_completed lib cfg gid c st = Inr st' \<Longrightarrow> ro_completed_by_id st' = ro_completed_by_id st"
  by (auto simp: handle_completed_def handle_failed_def Let_def rbind_eq_Inr split: if_splits)

lemma waiting_ok_pop: "waiting_ok drained st \<Longrightarrow> waiting_ok drained (st\<lparr>ro_completed_by_id := dpop k (ro_completed_by_id st)\<rparr>)"
  by (simp add: waiting_ok_def)

lemma consume_waiting: "\<lbrakk>waiting_ok drained st; consume lib cfg ids st = Inr st'\<rbrakk> \<Longrightarrow> waiting_ok drained st'"
proof (induction ids arbitrary: st)
  case (Cons gid ids)
  show ?case
  proof (cases "enough cfg st")
    case False
    let ?st = "st\<lparr>ro_completed_by_id := dpop gid (ro_completed_by_id st)\<rparr>"
    obtain c st1 where c: "handle_completed lib cfg gid c ?st = Inr st1" "consume lib cfg ids st1 = Inr st'"
      using Cons.prems(2) False by (auto simp: rbind_eq_Inr split: option.splits)
    have "waiting_ok drained st1" using waiting_ok_pop [OF Cons.prems(1), of gid] handle_completed_waiting [OF c(1)] by (simp add: waiting_ok_def)
    then show ?thesis using Cons.IH c(2) by blast
  qed (use Cons.prems in simp)
qed simp

lemma store_waiting: "waiting_ok drained st \<Longrightarrow> waiting_ok (drained @ groups) (store_completed groups st)"
proof (induction groups arbitrary: drained st)
  case (Cons c groups)
  have "waiting_ok (drained @ [c]) (st\<lparr>ro_completed_by_id := dset (cg_group_id c) c (ro_completed_by_id st)\<rparr>)"
    using Cons.prems by (auto simp: waiting_ok_def)
  from Cons.IH [OF this] show ?case by (simp add: store_completed_def)
qed (simp add: store_completed_def)

lemma collect_waiting: "\<lbrakk>waiting_ok drained st; collect lib cfg polls st = Inr st'\<rbrakk> \<Longrightarrow> waiting_ok (drained @ concat polls) st'"
proof (induction polls arbitrary: drained st)
  case (Cons groups polls)
  show ?case
  proof (cases "enough cfg st")
    case False
    obtain advanced gf st1 st2 where r: "observe_completed lib groups False (ro_filter st) = Inr (advanced, gf)"
      "refilter lib advanced (st\<lparr>ro_filter := gf\<rparr>) = Inr st1"
      "consume lib cfg (dkeys (ro_completed_by_id (store_completed groups st1))) (store_completed groups st1) = Inr st2"
      "collect lib cfg polls st2 = Inr st'"
      using Cons.prems(2) False by (auto simp: poll_round_def Let_def rbind_eq_Inr)
    have "ro_completed_by_id st1 = ro_completed_by_id st" using r(2) by (auto simp: refilter_def rbind_eq_Inr split: if_splits)
    then have "waiting_ok drained st1" using Cons.prems(1) by (simp add: waiting_ok_def)
    from Cons.IH [OF consume_waiting [OF store_waiting [OF this] r(3)] r(4)] show ?thesis by simp
  qed (use Cons.prems in \<open>auto simp: waiting_ok_def\<close>)
qed simp

lemma partial_collect_collect:
  assumes "partial_collect lib error_text cfg i polls (initial_partial t) = Inr ps"
  obtains st where "collect lib cfg polls (initial_state t) = Inr st" "pa_rollout ps = with_returned i st"
proof -
  have "pa_rollout (initial_partial t) = with_returned i (initial_state t)" by (simp add: initial_partial_def initial_state_def with_returned_def)
  from partial_collect_is_collect [OF this, of lib error_text cfg polls] assms
  show thesis using that by (cases "collect lib cfg polls (initial_state t)") simp_all
qed

lemma leftovers_drained:
  assumes "partial_collect lib error_text cfg i polls (initial_partial t) = Inr ps"
  shows "distinct (map cg_group_id (leftovers ps))" "set (leftovers ps) \<subseteq> set (concat polls)"
proof -
  obtain st where st: "collect lib cfg polls (initial_state t) = Inr st" "pa_rollout ps = with_returned i st"
    using partial_collect_collect [OF assms] .
  have "waiting_ok ([] @ concat polls) st" by (rule collect_waiting [OF _ st(1)]) (simp add: waiting_ok_def initial_state_def dict_ok_def)
  then have w: "dict_ok (ro_completed_by_id st)" "\<forall>(k, c)\<in>set (ro_completed_by_id st). c \<in> set (concat polls) \<and> cg_group_id c = k"
    by (auto simp: waiting_ok_def dget_in_set)
  have "map cg_group_id (leftovers ps) = dkeys (ro_completed_by_id st)" using w(2) st(2) by (auto simp: leftovers_def)
  then show "distinct (map cg_group_id (leftovers ps))" using w(1) by (simp add: dict_ok_def)
  show "set (leftovers ps) \<subseteq> set (concat polls)" using w(2) st(2) by (auto simp: leftovers_def)
qed

lemma mset_leftovers:
  assumes "distinct (map f cs)" "distinct (map f ls)" "set ls \<subseteq> set cs"
  shows "mset (map f cs) = mset (map f ls) + mset (map f (filter (\<lambda>c. f c \<notin> f ` set ls) cs))"
proof -
  have "mset (map f ls) = mset (map f (filter (\<lambda>c. f c \<in> f ` set ls) cs))"
    using assms by (subst set_eq_iff_mset_eq_distinct [symmetric]) (auto simp: distinct_map inj_on_def)
  then show ?thesis by (simp flip: image_mset_union add: multiset_partition [of "mset cs" "\<lambda>c. f c \<in> f ` set ls", symmetric])
qed

section \<open>Where groups are\<close>

definition places :: "'s rollout_system \<Rightarrow> int list" where
  "places s =
     map ta_group_id (wk_active (sy_worker s)) @ (case wk_putting (sy_worker s) of Some c \<Rightarrow> [cg_group_id c] | None \<Rightarrow> []) @
     map cg_group_id (wk_queue (sy_worker s)) @ map cg_group_id (concat (sy_polls s)) @ map cg_group_id (sy_returning s) @
     map cg_group_id (sy_used s) @ map cg_group_id (sy_dropped s) @ sy_abandoned s"

definition worker_bounds :: "'s rollout_worker \<Rightarrow> bool" where
  "worker_bounds w \<longleftrightarrow> (0 < wk_queue_size w \<longrightarrow> int (length (wk_queue w)) \<le> wk_queue_size w) \<and>
     int (length (wk_active w)) \<le> max 0 (wk_max_active_groups w)"

definition losses_ok :: "'s rollout_system \<Rightarrow> bool" where
  "losses_ok s \<longleftrightarrow> (wk_running (sy_worker s) \<longrightarrow> sy_dropped s = []) \<and> (wk_alive (sy_worker s) \<longrightarrow> sy_abandoned s = [])"

definition call_ok :: "py_lib \<Rightarrow> (exn \<Rightarrow> string) \<Rightarrow> 's rollout_system \<Rightarrow> bool" where
  "call_ok lib error_text s \<longleftrightarrow>
     (case sy_call s of
        None \<Rightarrow> sy_polls s = []
      | Some cl \<Rightarrow> sy_returning s = [] \<and>
          (\<forall>k < length (sy_polls s). \<forall>ps. collected lib error_text cl (s\<lparr>sy_polls := take k (sy_polls s)\<rparr>) = Inr ps \<longrightarrow>
             \<not> enough (rc_config cl) (pa_rollout ps)))"

definition ids_ok :: "('s \<Rightarrow> bool) \<Rightarrow> ('s \<Rightarrow> int) \<Rightarrow> int \<Rightarrow> 's rollout_system \<Rightarrow> bool" where
  "ids_ok feed_ok next_id first s \<longleftrightarrow>
     (\<exists>n \<ge> first. mset (places s) = mset [first..n - 1] \<and>
        (wk_alive (sy_worker s) \<longrightarrow> feed_ok (wk_source (sy_worker s)) \<and> n = next_id (wk_source (sy_worker s))))"

lemma ids_ok_distinct: "ids_ok feed_ok next_id first s \<Longrightarrow> distinct (places s)"
  unfolding ids_ok_def by (metis distinct_upto mset_eq_imp_distinct_iff)

lemma map_update_same: "i < length xs \<Longrightarrow> f y = f (xs ! i) \<Longrightarrow> map f (xs[i := y]) = map f xs"
  by (metis list_update_id map_update nth_map)

lemma mset_without: "i < length xs \<Longrightarrow> mset (map f xs) = add_mset (f (xs ! i)) (mset (map f (take i xs @ drop (Suc i) xs)))"
  by (subst (1) id_take_nth_drop [of i xs]) simp_all

lemma mset_concat_last:
  "xss \<noteq> [] \<Longrightarrow> image_mset f (mset (concat (butlast xss))) + image_mset f (mset (last xss)) = image_mset f (mset (concat xss))"
  by (induction xss rule: rev_induct) simp_all

lemma completed_from_task_id [simp]: "cg_group_id (completed_from_task t) = ta_group_id t"
  by (simp add: completed_from_task_def split: option.split sum.split)

text \<open>The interface between a worker and what it takes its groups from: groups come with consecutive numbers.\<close>

locale group_feed =
  fixes pop :: "'s \<Rightarrow> ((int \<times> rollout_sample list) option \<times> 's) result"
    and moves :: "'s \<Rightarrow> 's \<Rightarrow> bool"
    and release :: "int \<Rightarrow> 's \<Rightarrow> 's"
    and feed_ok :: "'s \<Rightarrow> bool"
    and next_id :: "'s \<Rightarrow> int"
  assumes pop_none: "\<lbrakk>feed_ok src; pop src = Inr (None, src')\<rbrakk> \<Longrightarrow> feed_ok src' \<and> next_id src' = next_id src"
    and pop_some: "\<lbrakk>feed_ok src; pop src = Inr (Some (gid, grp), src')\<rbrakk> \<Longrightarrow> gid = next_id src \<and> feed_ok src' \<and> next_id src' = next_id src + 1"
    and moves_ok: "\<lbrakk>feed_ok src; moves src src'\<rbrakk> \<Longrightarrow> feed_ok src' \<and> next_id src' = next_id src"
    and release_ok: "feed_ok src \<Longrightarrow> feed_ok (release gid src) \<and> next_id (release gid src) = next_id src"
begin

lemma ids_ok_same:
  assumes "ids_ok feed_ok next_id first s" "mset (places s') = mset (places s)"
    and "wk_alive (sy_worker s') \<Longrightarrow> wk_alive (sy_worker s)"
    and "\<lbrakk>wk_alive (sy_worker s'); feed_ok (wk_source (sy_worker s))\<rbrakk> \<Longrightarrow>
      feed_ok (wk_source (sy_worker s')) \<and> next_id (wk_source (sy_worker s')) = next_id (wk_source (sy_worker s))"
  shows "ids_ok feed_ok next_id first s'"
  using assms unfolding ids_ok_def by metis

lemma put_step_ids: "ids_ok feed_ok next_id first s \<Longrightarrow> ids_ok feed_ok next_id first (put_step release s)"
  by (rule ids_ok_same [where s = s])
    (auto simp: put_step_def put_reaped_def put_attempt_def places_def Let_def release_ok split: option.splits if_splits)

lemma return_step_ids: "ids_ok feed_ok next_id first s \<Longrightarrow> ids_ok feed_ok next_id first (return_step s)"
  by (rule ids_ok_same [where s = s]) (auto simp: return_step_def put_attempt_def places_def Let_def split: list.splits if_splits)

lemma dispatch_ids:
  assumes ids: "ids_ok feed_ok next_id first s" and alive: "wk_alive (sy_worker s)" and d: "dispatch_group pop (sy_worker s) = Inr w"
  shows "ids_ok feed_ok next_id first (s\<lparr>sy_worker := w\<rparr>)"
proof -
  obtain g src where p: "pop (wk_source (sy_worker s)) = Inr (g, src)" using d by (auto simp: dispatch_group_def rbind_eq_Inr)
  have ok: "feed_ok (wk_source (sy_worker s))" using ids alive by (auto simp: ids_ok_def)
  show ?thesis
  proof (cases g)
    case None
    then have "w = (sy_worker s)\<lparr>wk_source := src\<rparr>" using d p by (simp add: dispatch_group_def)
    then show ?thesis using pop_none [OF ok] p None by (intro ids_ok_same [OF ids]) (simp_all add: places_def)
  next
    case (Some gg)
    obtain gid grp where g: "gg = (gid, grp)" by fastforce
    have next_group: "gid = next_id (wk_source (sy_worker s))" "feed_ok src" "next_id src = next_id (wk_source (sy_worker s)) + 1"
      using pop_some [OF ok] p Some g by auto
    obtain grp' where w: "w = (sy_worker s)\<lparr>wk_source := src, wk_active := wk_active (sy_worker s) @ [\<lparr>ta_group_id = gid, ta_group = grp', ta_outcome = None\<rparr>]\<rparr>"
      using d p Some g by (auto simp: dispatch_group_def Let_def)
    obtain n where n: "first \<le> n" "mset (places s) = mset [first..n - 1]" "n = gid" using ids alive next_group(1) by (auto simp: ids_ok_def)
    have "mset (places (s\<lparr>sy_worker := w\<rparr>)) = add_mset gid (mset (places s))" by (simp add: places_def w)
    also have "\<dots> = mset [first..gid]" using n upto_rec2 [of first gid] by simp
    finally show ?thesis using n next_group w alive by (auto simp: ids_ok_def intro!: exI [of _ "gid + 1"])
  qed
qed

lemma collects_ids:
  assumes ids: "ids_ok feed_ok next_id first s" and c: "collected lib error_text cl s = Inr ps" and r: "sy_returning s = []"
  shows "ids_ok feed_ok next_id first (call_collects cl ps s)"
proof (rule ids_ok_same [OF ids])
  note l = leftovers_drained [OF c [unfolded collected_def]]
  have "distinct (map cg_group_id (concat (sy_polls s)))" using ids_ok_distinct [OF ids] by (simp add: places_def)
  from mset_leftovers [OF this l(1) l(2)] show "mset (places (call_collects cl ps s)) = mset (places s)"
    using r by (simp add: places_def call_collects_def returned_leftovers_def stop_worker_def)
qed (auto simp: call_collects_def stop_worker_def split: if_splits)

lemma rollout_step_ids:
  assumes "rollout_step lib error_text pop moves release release_all s s'" "ids_ok feed_ok next_id first s" "call_ok lib error_text s"
  shows "ids_ok feed_ok next_id first s'"
  using assms(1)
proof cases
  case (step_moves src)
  then show ?thesis using moves_ok by (intro ids_ok_same [OF assms(2)]) (auto simp: places_def)
next
  case (step_finish i outcome)
  then show ?thesis using map_update_same [of i "wk_active (sy_worker s)" ta_group_id]
    by (intro ids_ok_same [OF assms(2)]) (simp_all add: places_def finish_group_def)
next
  case (step_reap i)
  then show ?thesis using mset_without [OF step_reap(4), of ta_group_id] by (intro ids_ok_same [OF assms(2)]) (simp_all add: places_def reap_def)
next
  case step_put
  then show ?thesis using put_step_ids [OF assms(2)] by simp
next
  case (step_dispatch w)
  then show ?thesis using dispatch_ids [OF assms(2)] by simp
next
  case step_leave
  have "mset (places s') = mset (places s)" using step_leave by (simp add: places_def leave_loop_def end_loop_def)
  then show ?thesis using assms(2) step_leave(1) by (auto simp: ids_ok_def leave_loop_def end_loop_def)
next
  case (step_call cl)
  then show ?thesis by (intro ids_ok_same [OF assms(2)]) (simp_all add: places_def call_begins_def set_rollout_id_def)
next
  case (step_poll cl ps)
  then show ?thesis by (intro ids_ok_same [OF assms(2)]) (simp_all add: places_def poll_begins_def)
next
  case (step_get c w)
  then show ?thesis using mset_concat_last [OF step_get(3), of cg_group_id]
    by (intro ids_ok_same [OF assms(2)]) (auto simp: places_def poll_gets_def get_completed_def split: list.splits)
next
  case (step_collects cl ps)
  have "sy_returning s = []" using assms(3) step_collects(2) by (simp add: call_ok_def)
  then show ?thesis using step_collects collects_ids [OF assms(2)] by simp
next
  case step_return
  then show ?thesis using return_step_ids [OF assms(2)] by simp
next
  case step_stop
  then show ?thesis by (intro ids_ok_same [OF assms(2)]) (simp_all add: places_def stop_worker_def)
qed

end

section \<open>Bounds, losses and calls\<close>

lemma put_attempt_bounds: "\<lbrakk>worker_bounds w; put_attempt c w = (ended, w')\<rbrakk> \<Longrightarrow> worker_bounds w'"
  by (auto simp: put_attempt_def worker_bounds_def queue_full_def split: if_splits)

lemma dispatch_frame:
  assumes "dispatch_group pop w = Inr w'"
  shows "wk_queue w' = wk_queue w \<and> wk_queue_size w' = wk_queue_size w \<and> wk_max_active_groups w' = wk_max_active_groups w \<and>
    wk_running w' = wk_running w \<and> wk_alive w' = wk_alive w \<and> length (wk_active w') \<le> Suc (length (wk_active w))"
proof -
  obtain g src where p: "pop (wk_source w) = Inr (g, src)" using assms by (auto simp: dispatch_group_def rbind_eq_Inr)
  show ?thesis using assms p by (cases g) (auto simp: dispatch_group_def Let_def)
qed

lemma rollout_step_bounds:
  assumes "rollout_step lib error_text pop moves release release_all s s'" "worker_bounds (sy_worker s)"
  shows "worker_bounds (sy_worker s')"
  using assms(1)
proof cases
  case (step_dispatch w)
  then show ?thesis using assms(2) dispatch_frame [OF step_dispatch(5)] by (auto simp: worker_bounds_def may_dispatch_def)
next
  case step_put
  then show ?thesis using assms(2) put_attempt_bounds [OF assms(2)]
    by (auto simp: put_step_def put_reaped_def Let_def worker_bounds_def split: option.splits prod.splits)
next
  case step_return
  then show ?thesis using assms(2) put_attempt_bounds [OF assms(2)] by (auto simp: return_step_def Let_def split: list.splits prod.splits)
next
  case (step_get c w)
  then show ?thesis using assms(2) by (auto simp: poll_gets_def get_completed_def worker_bounds_def split: list.splits)
qed (use assms(2) in \<open>auto simp: worker_bounds_def finish_group_def reap_def leave_loop_def end_loop_def call_begins_def set_rollout_id_def
  poll_begins_def call_collects_def stop_worker_def\<close>)

lemma put_attempt_flags: "put_attempt c w = (ended, w') \<Longrightarrow> wk_running w' = wk_running w \<and> wk_alive w' = wk_alive w"
  by (auto simp: put_attempt_def split: if_splits)

lemma rollout_step_losses:
  assumes "rollout_step lib error_text pop moves release release_all s s'" "losses_ok s"
  shows "losses_ok s'"
  using assms(1)
proof cases
  case (step_dispatch w)
  then show ?thesis using assms(2) dispatch_frame [OF step_dispatch(5)] by (simp add: losses_ok_def)
next
  case step_put
  then show ?thesis using assms(2) put_attempt_flags
    by (fastforce simp: put_step_def put_reaped_def Let_def losses_ok_def split: option.splits prod.splits)
next
  case step_return
  then show ?thesis using assms(2) put_attempt_flags by (fastforce simp: return_step_def Let_def losses_ok_def split: list.splits prod.splits)
next
  case (step_get c w)
  then show ?thesis using assms(2) by (auto simp: poll_gets_def get_completed_def losses_ok_def split: list.splits)
qed (use assms(2) in \<open>auto simp: losses_ok_def finish_group_def reap_def leave_loop_def end_loop_def call_begins_def set_rollout_id_def
  poll_begins_def call_collects_def stop_worker_def\<close>)

lemma collected_cong: "\<lbrakk>sy_polls s' = sy_polls s; sy_tracker s' = sy_tracker s\<rbrakk> \<Longrightarrow> collected lib error_text cl s' = collected lib error_text cl s"
  by (simp add: collected_def)

lemma call_ok_frame:
  assumes "call_ok lib error_text s" "sy_call s' = sy_call s" "sy_polls s' = sy_polls s" "sy_tracker s' = sy_tracker s"
    and "sy_returning s = [] \<Longrightarrow> sy_returning s' = []"
  shows "call_ok lib error_text s'"
  using assms by (auto simp: call_ok_def collected_def split: option.splits)

lemma rollout_step_call:
  assumes "rollout_step lib error_text pop moves release release_all s s'" "call_ok lib error_text s"
  shows "call_ok lib error_text s'"
  using assms(1)
proof cases
  case (step_call cl)
  then show ?thesis using assms(2) by (simp add: call_ok_def call_begins_def)
next
  case (step_poll cl ps)
  have "\<not> enough (rc_config cl) (pa_rollout ps')" if "k < Suc (length (sy_polls s))"
    "collected lib error_text cl (s\<lparr>sy_polls := take k (sy_polls s)\<rparr>) = Inr ps'" for k ps'
  proof (cases "k = length (sy_polls s)")
    case True
    then show ?thesis using that(2) step_poll(3,4) by simp
  next
    case False
    then have "k < length (sy_polls s)" using that(1) by simp
    then show ?thesis using that(2) assms(2) step_poll(2) by (simp add: call_ok_def)
  qed
  then show ?thesis using step_poll(1,2) assms(2) by (auto simp: call_ok_def poll_begins_def collected_def less_Suc_eq_le)
next
  case (step_get c w)
  obtain cl where cl: "sy_call s = Some cl" using step_get(2) by auto
  have "take k (butlast (sy_polls s) @ [last (sy_polls s) @ [c]]) = take k (sy_polls s)" if "k < length (sy_polls s)" for k
    using that by (simp add: take_butlast)
  then show ?thesis using step_get(1,3) cl assms(2) by (auto simp: call_ok_def poll_gets_def collected_def)
next
  case (step_collects cl ps)
  then show ?thesis by (simp add: call_ok_def call_collects_def)
next
  case step_put
  then show ?thesis by (intro call_ok_frame [OF assms(2)]) (simp_all add: put_step_def Let_def)
next
  case step_return
  then show ?thesis by (intro call_ok_frame [OF assms(2)]) (auto simp: return_step_def Let_def split: list.splits prod.splits)
qed (auto intro!: call_ok_frame [OF assms(2)] simp: leave_loop_def)

section \<open>Every interleaving\<close>

definition rollout_inv :: "py_lib \<Rightarrow> (exn \<Rightarrow> string) \<Rightarrow> ('s \<Rightarrow> bool) \<Rightarrow> ('s \<Rightarrow> int) \<Rightarrow> int \<Rightarrow> 's rollout_system \<Rightarrow> bool" where
  "rollout_inv lib error_text feed_ok next_id first s \<longleftrightarrow>
     ids_ok feed_ok next_id first s \<and> worker_bounds (sy_worker s) \<and> losses_ok s \<and> call_ok lib error_text s"

text \<open>A system whose worker has just been made and whose source hands out \<open>first\<close> next.\<close>

definition fresh_system :: "('s \<Rightarrow> bool) \<Rightarrow> ('s \<Rightarrow> int) \<Rightarrow> int \<Rightarrow> 's rollout_system \<Rightarrow> bool" where
  "fresh_system feed_ok next_id first s \<longleftrightarrow>
     (\<exists>t src args env i w. new_worker src args env i = Inr w \<and> s = new_system t w \<and> feed_ok src \<and> next_id src = first)"

lemma fresh_system_inv: "fresh_system feed_ok next_id first s \<Longrightarrow> rollout_inv lib error_text feed_ok next_id first s"
  by (auto simp: fresh_system_def new_worker_def rbind_eq_Inr new_system_def rollout_inv_def ids_ok_def places_def worker_bounds_def losses_ok_def call_ok_def
      intro!: exI [of _ first])

context group_feed
begin

lemma rollout_step_inv:
  "\<lbrakk>rollout_inv lib error_text feed_ok next_id first s; rollout_step lib error_text pop moves release release_all s s'\<rbrakk> \<Longrightarrow>
   rollout_inv lib error_text feed_ok next_id first s'"
  by (auto simp: rollout_inv_def intro: rollout_step_ids rollout_step_bounds rollout_step_losses rollout_step_call)

end

sublocale group_feed \<subseteq> runs: transition_system "fresh_system feed_ok next_id first" "rollout_step lib error_text pop moves release release_all"
    "rollout_inv lib error_text feed_ok next_id first" for first lib error_text release_all
  by unfold_locales (auto intro: fresh_system_inv rollout_step_inv)

section \<open>The scheduler as the source of a worker\<close>

text \<open>The attributes of a sample that the rollouts read.\<close>

definition rollout_view :: "data_sample \<Rightarrow> rollout_sample" where
  "rollout_view s =
     \<lparr>rs_index = (case da_index s of Some i \<Rightarrow> i | None \<Rightarrow> 0), rs_status = ''PENDING'', rs_metadata = Some (da_metadata s),
      rs_session_id = (case da_session_id s of Some i \<Rightarrow> PStr i | None \<Rightarrow> PNone), rs_remove_sample = False, rs_response_length = 0, rs_loss_mask = None\<rparr>"

type_synonym scheduled = "prewarm_scheduler \<times> data_source \<times> sandbox_world"

definition scheduler_pop :: "(data_source \<Rightarrow> (data_sample list list \<times> data_source) result) \<Rightarrow> scheduled \<Rightarrow> ((int \<times> rollout_sample list) option \<times> scheduled) result" where
  "scheduler_pop get src =
     (case src of (sc, ds, w) \<Rightarrow>
        rbind (pop_next_group get sc ds) (\<lambda>(g, sc, ds). Inr (map_option (\<lambda>(gid, grp). (gid, map rollout_view grp)) g, (sc, ds, w))))"

inductive scheduler_moves :: "py_lib \<Rightarrow> (data_source \<Rightarrow> (data_sample list list \<times> data_source) result) \<Rightarrow> scheduled \<Rightarrow> scheduled \<Rightarrow> bool" for lib get where
  moves_prefetch: "do_prefetch lib fresh avail get sc ds w = Inr (sc', ds', w') \<Longrightarrow> scheduler_moves lib get (sc, ds, w) (sc', ds', w')"
| moves_retry: "scheduler_moves lib get (sc, ds, w) (sc, add_samples groups ds, w)"
| moves_sandbox: "sandbox_step w w' \<Longrightarrow> scheduler_moves lib get (sc, ds, w) (sc, ds, w')"

definition scheduler_cleanup_group :: "int \<Rightarrow> scheduled \<Rightarrow> scheduled" where
  "scheduler_cleanup_group gid src = (case src of (sc, ds, w) \<Rightarrow> (sc, ds, cleanup_group gid w))"

definition scheduler_cleanup :: "scheduled \<Rightarrow> scheduled" where
  "scheduler_cleanup src = (case src of (sc, ds, w) \<Rightarrow> (sc\<lparr>sch_prefetched := []\<rparr>, ds, cleanup_all w))"

definition next_scheduled :: "scheduled \<Rightarrow> int" where
  "next_scheduled src = sch_next_group_id (fst src) - int (length (sch_prefetched (fst src)))"

definition scheduled_ok :: "scheduled \<Rightarrow> bool" where
  "scheduled_ok src \<longleftrightarrow> map fst (sch_prefetched (fst src)) = [next_scheduled src..sch_next_group_id (fst src) - 1]"

lemma prefetch_loop_numbers:
  assumes "prefetch_loop lib fresh avail get n sc ds w = Inr (sc', ds', w')"
    and "map fst (sch_prefetched sc) = [k..sch_next_group_id sc - 1]" "k \<le> sch_next_group_id sc"
  shows "map fst (sch_prefetched sc') = [k..sch_next_group_id sc' - 1] \<and> k \<le> sch_next_group_id sc'"
  using assms
proof (induction n arbitrary: sc ds w)
  case (Suc n)
  obtain groups ds1 where g: "get ds = Inr (groups, ds1)" using Suc.prems(1) by (auto simp: rbind_eq_Inr)
  show ?case
  proof (cases groups)
    case (Cons grp rest)
    obtain grp' w1 where p: "prefetch_and_prewarm lib (fresh (sch_next_group_id sc)) avail (sch_next_group_id sc) grp w = (grp', w1)" by fastforce
    let ?sc = "sc\<lparr>sch_next_group_id := sch_next_group_id sc + 1, sch_prefetched := sch_prefetched sc @ [(sch_next_group_id sc, grp')]\<rparr>"
    have "prefetch_loop lib fresh avail get n ?sc ds1 w1 = Inr (sc', ds', w')" using Suc.prems(1) g Cons p by (simp add: Let_def)
    then show ?thesis by (rule Suc.IH) (use Suc.prems(2,3) upto_rec2 [of k "sch_next_group_id sc"] in simp_all)
  qed (use Suc.prems g in simp)
qed simp

lemma scheduled_ok_iff:
  "scheduled_ok (sc, ds, w) \<and> next_scheduled (sc, ds, w) = k \<longleftrightarrow> map fst (sch_prefetched sc) = [k..sch_next_group_id sc - 1] \<and> k \<le> sch_next_group_id sc"
proof
  assume a: "map fst (sch_prefetched sc) = [k..sch_next_group_id sc - 1] \<and> k \<le> sch_next_group_id sc"
  then have "length (sch_prefetched sc) = nat (sch_next_group_id sc - k)" by (metis length_map length_upto diff_add_cancel add_diff_eq add.commute)
  then have "next_scheduled (sc, ds, w) = k" using a by (simp add: next_scheduled_def)
  then show "scheduled_ok (sc, ds, w) \<and> next_scheduled (sc, ds, w) = k" using a by (simp add: scheduled_ok_def)
qed (auto simp: scheduled_ok_def next_scheduled_def)

lemma scheduler_pop_numbers:
  assumes "scheduled_ok (sc, ds, w)" "pop_next_group get sc ds = Inr (g, sc', ds')"
  shows "scheduled_ok (sc', ds', w) \<and> next_scheduled (sc', ds', w) = next_scheduled (sc, ds, w) + (if g = None then 0 else 1)"
    "g = Some (gid, grp) \<Longrightarrow> gid = next_scheduled (sc, ds, w)"
proof -
  let ?k = "next_scheduled (sc, ds, w)"
  have k: "map fst (sch_prefetched sc) = [?k..sch_next_group_id sc - 1]" "?k \<le> sch_next_group_id sc"
    using assms(1) scheduled_ok_iff by blast+
  have "(scheduled_ok (sc', ds', w) \<and> next_scheduled (sc', ds', w) = ?k + (if g = None then 0 else 1)) \<and> (g = Some (gid, grp) \<longrightarrow> gid = ?k)"
  proof (cases "sch_prefetched sc")
    case (Cons h hs)
    then have "?k \<le> sch_next_group_id sc - 1" using k(1) by (metis list.simps(3) map_is_Nil_conv upto_Nil not_le)
    then have "fst h = ?k" "map fst hs = [?k + 1..sch_next_group_id sc - 1]" using k(1) Cons upto_rec1 [of ?k "sch_next_group_id sc - 1"] by auto
    moreover have "g = Some h" "sc' = sc\<lparr>sch_prefetched := hs\<rparr>" using assms(2) Cons by (auto simp: pop_next_group_def)
    ultimately show ?thesis using \<open>?k \<le> sch_next_group_id sc - 1\<close> scheduled_ok_iff [of sc' ds' w "?k + 1"] by auto
  next
    case Nil
    then have next_group: "?k = sch_next_group_id sc" by (simp add: next_scheduled_def)
    obtain groups ds1 where c: "get ds = Inr (groups, ds1)" using assms(2) Nil by (auto simp: pop_next_group_def rbind_eq_Inr)
    show ?thesis
    proof (cases groups)
      case Nil
      then have "g = None" "sc' = sc" using assms(2) c \<open>sch_prefetched sc = []\<close> by (simp_all add: pop_next_group_def)
      then show ?thesis using scheduled_ok_iff [THEN iffD2, OF conjI, OF k] by simp
    next
      case (Cons grp' rest)
      then have "g = Some (?k, grp')" "sc' = sc\<lparr>sch_next_group_id := sch_next_group_id sc + 1\<rparr>"
        using assms(2) c \<open>sch_prefetched sc = []\<close> next_group by (simp_all add: pop_next_group_def)
      moreover have "scheduled_ok (sc', ds', w) \<and> next_scheduled (sc', ds', w) = ?k + 1"
        unfolding scheduled_ok_iff using calculation(2) next_group \<open>sch_prefetched sc = []\<close> by simp
      ultimately show ?thesis by simp
    qed
  qed
  then show "scheduled_ok (sc', ds', w) \<and> next_scheduled (sc', ds', w) = ?k + (if g = None then 0 else 1)"
    "g = Some (gid, grp) \<Longrightarrow> gid = ?k" by blast+
qed

lemma scheduler_moves_numbers:
  assumes "scheduler_moves lib get src src'" "scheduled_ok src"
  shows "scheduled_ok src' \<and> next_scheduled src' = next_scheduled src"
  using assms
proof cases
  case (moves_prefetch fresh avail sc ds w sc' ds' w')
  then have k: "map fst (sch_prefetched sc) = [next_scheduled src..sch_next_group_id sc - 1]" "next_scheduled src \<le> sch_next_group_id sc"
    using assms(2) scheduled_ok_iff by blast+
  show ?thesis
  proof (cases "\<not> sch_enabled sc \<or> 0 < pending_lifecycle_task_count w")
    case False
    then have "prefetch_loop lib fresh avail get (sch_ahead sc - length (sch_prefetched sc)) sc ds w = Inr (sc', ds', w')"
      using moves_prefetch(3) by (simp add: do_prefetch_def)
    from prefetch_loop_numbers [OF this k] show ?thesis using moves_prefetch(2) scheduled_ok_iff by blast
  qed (use moves_prefetch assms(2) in \<open>auto simp: do_prefetch_def scheduled_ok_def next_scheduled_def\<close>)
qed (use assms(2) in \<open>auto simp: scheduled_ok_def next_scheduled_def\<close>)

interpretation scheduled: group_feed "scheduler_pop get" "scheduler_moves lib get" scheduler_cleanup_group scheduled_ok next_scheduled for lib get
proof unfold_locales
  fix src src' :: scheduled
  obtain sc ds w where src: "src = (sc, ds, w)" by (cases src)
  show "scheduled_ok src' \<and> next_scheduled src' = next_scheduled src" if "scheduled_ok src" "scheduler_pop get src = Inr (None, src')"
    using that scheduler_pop_numbers(1) by (fastforce simp: src scheduler_pop_def rbind_eq_Inr)
  show "gid = next_scheduled src \<and> scheduled_ok src' \<and> next_scheduled src' = next_scheduled src + 1"
    if "scheduled_ok src" "scheduler_pop get src = Inr (Some (gid, grp), src')" for gid grp
    using that scheduler_pop_numbers by (fastforce simp: src scheduler_pop_def rbind_eq_Inr)
  show "scheduled_ok src' \<and> next_scheduled src' = next_scheduled src" if "scheduled_ok src" "scheduler_moves lib get src src'"
    using scheduler_moves_numbers [OF that(2,1)] .
  show "scheduled_ok (scheduler_cleanup_group gid src) \<and> next_scheduled (scheduler_cleanup_group gid src) = next_scheduled src"
    if "scheduled_ok src" for gid
    using that by (simp add: src scheduler_cleanup_group_def scheduled_ok_def next_scheduled_def)
qed

lemma started_inv:
  assumes "new_scheduler provider enabled ahead = Inr sc" "new_worker (sc, ds, w) args env i = Inr wk"
    and "(rollout_step lib error_text (scheduler_pop get) (scheduler_moves lib get) scheduler_cleanup_group release_all)\<^sup>*\<^sup>* (new_system t wk) s"
  shows "rollout_inv lib error_text scheduled_ok next_scheduled 0 s"
proof (rule scheduled.runs.reach_inv [OF _ assms(3)])
  have "sch_prefetched sc = []" "sch_next_group_id sc = 0" using assms(1) by (auto simp: new_scheduler_def rbind_eq_Inr)
  then have "scheduled_ok (sc, ds, w)" "next_scheduled (sc, ds, w) = 0" by (simp_all add: scheduled_ok_def next_scheduled_def)
  then show "fresh_system scheduled_ok next_scheduled 0 (new_system t wk)" using assms(2) unfolding fresh_system_def by blast
qed

text \<open>
  C34.  In every interleaving of the worker with the calls that drain it, every group the worker was handed, numbered from
  zero, is in exactly one place: running, waiting to be put, in the queue, drained by the current call, on its way
  back, or gone to an ended call; it is dropped only after the worker was stopped and abandoned only when its
  loop has ended.  The queue never exceeds its size and the running groups never exceed their limit.
\<close>

theorem rollout_groups_conserved:
  assumes "new_scheduler provider enabled ahead = Inr sc" "new_worker (sc, ds, w) args env i = Inr wk"
    and "(rollout_step lib error_text (scheduler_pop get) (scheduler_moves lib get) scheduler_cleanup_group scheduler_cleanup)\<^sup>*\<^sup>* (new_system t wk) s"
  shows "\<exists>n \<ge> 0. mset (places s) = mset [0..n - 1] \<and> (wk_alive (sy_worker s) \<longrightarrow> n = next_scheduled (wk_source (sy_worker s))) \<and>
    (wk_running (sy_worker s) \<longrightarrow> sy_dropped s = []) \<and> (wk_alive (sy_worker s) \<longrightarrow> sy_abandoned s = []) \<and>
    (0 < wk_queue_size (sy_worker s) \<longrightarrow> int (length (wk_queue (sy_worker s))) \<le> wk_queue_size (sy_worker s)) \<and>
    int (length (wk_active (sy_worker s))) \<le> max 0 (wk_max_active_groups (sy_worker s))"
proof -
  have "ids_ok scheduled_ok next_scheduled 0 s" "worker_bounds (sy_worker s)" "losses_ok s"
    using started_inv [OF assms] by (simp_all add: rollout_inv_def)
  then show ?thesis unfolding ids_ok_def worker_bounds_def losses_ok_def by blast
qed

lemma collect_append: "collect lib cfg (xs @ ys) st = rbind (collect lib cfg xs st) (collect lib cfg ys)"
proof (induction xs arbitrary: st)
  case (Cons x xs)
  show ?case
  proof (cases "enough cfg st")
    case True
    then show ?thesis by (cases ys) simp_all
  next
    case False
    then show ?thesis by (cases "poll_round lib cfg x st") (simp_all add: Cons.IH)
  qed
qed simp

text \<open>The loop of a call that has polled again only because it needed more groups.\<close>

lemma collect_every_poll:
  assumes "tracker_ok t" "\<forall>c\<in>set (concat polls). group_wf lib c" "distinct (map cg_group_id (concat polls))"
    and more: "\<And>st. \<lbrakk>polls \<noteq> []; collect lib cfg (butlast polls) (initial_state t) = Inr st\<rbrakk> \<Longrightarrow> \<not> enough cfg st"
  shows "collect lib cfg polls (initial_state t) = too_many_failures \<or>
    (\<exists>st. collect lib cfg polls (initial_state t) = Inr st \<and> batch_inv lib cfg (concat polls) st \<and> accounted st = length (concat polls) \<and>
      (enough cfg st \<or> ro_completed_by_id st = []))"
proof (cases polls rule: rev_cases)
  case Nil
  then show ?thesis using initial_inv [OF assms(1)] by (simp add: accounted_def initial_state_def)
next
  case (snoc ps p)
  have start: "accounted (initial_state t) = length []" "enough cfg (initial_state t) \<or> ro_completed_by_id (initial_state t) = []"
    by (simp_all add: accounted_def initial_state_def)
  have ids: "distinct (map cg_group_id (concat ps @ p))" and wf: "\<forall>c\<in>set (concat ps @ p). group_wf lib c" using assms(2,3) snoc by auto
  have "collect lib cfg ps (initial_state t) = too_many_failures \<or>
    (\<exists>st n. collect lib cfg ps (initial_state t) = Inr st \<and> n \<le> length ps \<and> batch_inv lib cfg ([] @ concat (take n ps)) st \<and>
      accounted st = length ([] @ concat (take n ps)) \<and> (enough cfg st \<or> n = length ps \<and> ro_completed_by_id st = []))"
    by (rule collect_inv [OF initial_inv [OF assms(1)] _ _ start(2,1)]) (use ids wf in simp_all)
  then consider "collect lib cfg ps (initial_state t) = too_many_failures"
    | st n where "collect lib cfg ps (initial_state t) = Inr st" "batch_inv lib cfg (concat (take n ps)) st" "accounted st = length (concat (take n ps))"
      "enough cfg st \<or> n = length ps"
    unfolding append_Nil by blast
  then show ?thesis
  proof cases
    case 2
    have "\<not> enough cfg st" using more snoc 2(1) by simp
    then have st: "collect lib cfg ps (initial_state t) = Inr st" "batch_inv lib cfg (concat ps) st" "accounted st = length (concat ps)" "\<not> enough cfg st"
      using 2 by auto
    have "collect lib cfg polls (initial_state t) = poll_round lib cfg p st"
      using st(1,4) snoc by (cases "poll_round lib cfg p st") (simp_all add: collect_append)
    then show ?thesis using poll_round_inv [OF st(2) wf ids] st(3) snoc by auto
  qed (simp add: snoc collect_append)
qed

lemma call_ok_polled_for_more:
  assumes "call_ok lib error_text s" "sy_call s = Some cl" "sy_polls s \<noteq> []"
    and "collect lib (rc_config cl) (butlast (sy_polls s)) (initial_state (sy_tracker s)) = Inr st"
  shows "\<not> enough (rc_config cl) st"
proof -
  let ?t = "sy_tracker s" and ?i = "rc_rollout_id cl"
  have "pa_rollout (initial_partial ?t) = with_returned ?i (initial_state ?t)" by (simp add: initial_partial_def initial_state_def with_returned_def)
  from partial_collect_is_collect [OF this, of lib error_text "rc_config cl" "butlast (sy_polls s)"] assms(4)
  obtain ps where ps: "partial_collect lib error_text (rc_config cl) ?i (butlast (sy_polls s)) (initial_partial ?t) = Inr ps" "pa_rollout ps = with_returned ?i st"
    by (auto simp: rbind_eq_Inr)
  then have "collected lib error_text cl (s\<lparr>sy_polls := take (length (sy_polls s) - 1) (sy_polls s)\<rparr>) = Inr ps"
    by (simp add: collected_def butlast_conv_take)
  moreover have "\<forall>k < length (sy_polls s). \<forall>ps. collected lib error_text cl (s\<lparr>sy_polls := take k (sy_polls s)\<rparr>) = Inr ps \<longrightarrow> \<not> enough (rc_config cl) (pa_rollout ps)"
    using assms(1,2) by (simp add: call_ok_def)
  moreover have "length (sy_polls s) - 1 < length (sy_polls s)" using assms(3) by simp
  ultimately have "\<not> enough (rc_config cl) (pa_rollout ps)" by blast
  then show ?thesis using ps(2) by simp
qed

text \<open>
  C35.  A call of the partial rollout accounts for everything it has drained, in every interleaving with the worker.  For
  readable groups its loop either stops because too many failed groups were dropped, or it has collected at most its
  target of successful groups within the version window, annotated with their group and the call; has put failed groups with
  retries left back into the buffer; and collected, retried, failed, stale and left-over groups add up to
  the drained ones, each left-over group being one of them.  As long as it has not enough it has no group left
  over, and once it has, the batch has exactly the target size and the left-over groups are handed back to the queue
  unless the rollout is the last one.
\<close>

theorem partial_call_accounts:
  assumes "new_scheduler provider enabled ahead = Inr sc" "new_worker (sc, ds, w) args env i = Inr wk"
    and "(rollout_step lib error_text (scheduler_pop get) (scheduler_moves lib get) scheduler_cleanup_group scheduler_cleanup)\<^sup>*\<^sup>* (new_system t wk) s"
    and "sy_call s = Some cl" "tracker_ok (sy_tracker s)" "\<forall>c\<in>set (concat (sy_polls s)). group_wf lib c"
  shows "collected lib error_text cl s = Inl (RuntimeError ''dropped too many failed groups'') \<or>
    (\<exists>ps. collected lib error_text cl s = Inr ps \<and>
      (\<forall>g\<in>set (ro_data (pa_rollout ps)). \<exists>c r. c \<in> set (concat (sy_polls s)) \<and> \<not> is_failed c \<and> cg_group_id c = pg_group_id g \<and> cg_result c = Some r \<and>
         in_window lib (gf_tracker (ro_filter (pa_rollout ps))) r \<and> pg_samples g = annotate_returned_group (pg_group_id g) (rc_rollout_id cl) r) \<and>
      (\<forall>grp\<in>set (ro_buffer (pa_rollout ps)). retried_from (rc_config cl) (concat (sy_polls s)) grp) \<and>
      length (concat (sy_polls s)) = length (ro_data (pa_rollout ps)) + length (ro_buffer (pa_rollout ps)) + ro_dropped_failed_groups (pa_rollout ps) +
        gf_dropped_groups (ro_filter (pa_rollout ps)) + length (leftovers ps) \<and>
      set (leftovers ps) \<subseteq> set (concat (sy_polls s)) \<and> length (ro_data (pa_rollout ps)) \<le> nat (rc_target_data_size (rc_config cl)) \<and>
      (if enough (rc_config cl) (pa_rollout ps)
       then length (ro_data (pa_rollout ps)) = nat (rc_target_data_size (rc_config cl)) \<and>
         sy_returning (call_collects cl ps s) = (if rc_drain cl then [] else leftovers ps)
       else leftovers ps = []))"
proof -
  let ?cfg = "rc_config cl" and ?polled = "concat (sy_polls s)" and ?i = "rc_rollout_id cl"
  have inv: "ids_ok scheduled_ok next_scheduled 0 s" "call_ok lib error_text s" using started_inv [OF assms(1-3)] by (simp_all add: rollout_inv_def)
  have ids: "distinct (map cg_group_id ?polled)" using ids_ok_distinct [OF inv(1)] by (simp add: places_def)
  have "pa_rollout (initial_partial (sy_tracker s)) = with_returned ?i (initial_state (sy_tracker s))"
    by (simp add: initial_partial_def initial_state_def with_returned_def)
  note eq = partial_collect_is_collect [OF this, of lib error_text ?cfg "sy_polls s", folded collected_def]
  from collect_every_poll [OF assms(5,6) ids call_ok_polled_for_more [OF inv(2) assms(4)]]
  consider "collect lib ?cfg (sy_polls s) (initial_state (sy_tracker s)) = too_many_failures"
    | st where "collect lib ?cfg (sy_polls s) (initial_state (sy_tracker s)) = Inr st" "batch_inv lib ?cfg ?polled st" "accounted st = length ?polled"
      "enough ?cfg st \<or> ro_completed_by_id st = []" by blast
  then show ?thesis
  proof cases
    case 1
    then show ?thesis using eq by (cases "collected lib error_text cl s") simp_all
  next
    case 2
    obtain ps where ps: "collected lib error_text cl s = Inr ps" "pa_rollout ps = with_returned ?i st" using eq 2(1) by (auto simp: rbind_eq_Inr)
    have "\<exists>c r. c \<in> set ?polled \<and> \<not> is_failed c \<and> cg_group_id c = pg_group_id g \<and> cg_result c = Some r \<and>
        in_window lib (gf_tracker (ro_filter st)) r \<and> pg_samples g = annotate_returned_group (pg_group_id g) ?i r"
      if "g \<in> set (map (returned_group ?i) (ro_data st))" for g
      using that 2(2) unfolding batch_inv_def collected_from_def returned_group_def by fastforce
    moreover have "length (ro_data st) = nat (rc_target_data_size ?cfg)" if "enough ?cfg st" using that 2(2) by (auto simp: batch_inv_def enough_def)
    moreover have "set (leftovers ps) \<subseteq> set ?polled" using leftovers_drained(2) ps(1) by (simp add: collected_def)
    moreover have "length (leftovers ps) = length (ro_completed_by_id st)" using ps(2) by (simp add: leftovers_def)
    ultimately show ?thesis using ps 2(2-4)
      by (intro disjI2 exI [of _ ps]) (auto simp: batch_inv_def accounted_def call_collects_def returned_leftovers_def leftovers_def)
  qed
qed

section \<open>Handing back to a full queue\<close>

lemma blocked_step:
  assumes "rollout_step lib error_text pop moves release release_all s s'"
    and "sy_call s = None" "sy_returning s \<noteq> []" "queue_full (sy_worker s)" "wk_running (sy_worker s)"
  shows "sy_call s' = None \<and> sy_returning s' = sy_returning s \<and> wk_queue (sy_worker s') = wk_queue (sy_worker s) \<and>
    queue_full (sy_worker s') \<and> wk_running (sy_worker s')"
  using assms(1)
proof cases
  case (step_dispatch w)
  then show ?thesis using assms(2-5) dispatch_frame [OF step_dispatch(5)] by (simp add: queue_full_def)
next
  case step_put
  then show ?thesis using assms(2-5) by (auto simp: put_step_def put_reaped_def put_attempt_def Let_def split: option.splits)
next
  case step_return
  then show ?thesis using assms(2-5) by (auto simp: return_step_def put_attempt_def Let_def split: list.splits)
qed (use assms(2-5) in \<open>simp_all add: queue_full_def finish_group_def reap_def leave_loop_def end_loop_def\<close>)

text \<open>
  A call that hands groups back to a full queue never returns: the call is the only reader of the queue, and
  whatever the worker does, the queue stays full and the groups are never handed back.
\<close>

theorem full_queue_blocks_return:
  assumes "sy_call s = None" "sy_returning s \<noteq> []" "queue_full (sy_worker s)" "wk_running (sy_worker s)"
    and "(rollout_step lib error_text pop moves release release_all)\<^sup>*\<^sup>* s s'"
  shows "sy_returning s' = sy_returning s \<and> wk_queue (sy_worker s') = wk_queue (sy_worker s) \<and> sy_call s' = None"
proof -
  have "sy_call s' = None \<and> sy_returning s' = sy_returning s \<and> wk_queue (sy_worker s') = wk_queue (sy_worker s) \<and>
    queue_full (sy_worker s') \<and> wk_running (sy_worker s')"
    using assms(5)
  proof induction
    case (step u v)
    then show ?case using blocked_step [OF step.hyps(2)] assms(2) by simp
  qed (use assms(1-4) in simp)
  then show ?thesis by blast
qed

section \<open>A run with a queue of one group\<close>

abbreviation sample_get :: "data_source \<Rightarrow> (data_sample list list \<times> data_source) result" where
  "sample_get \<equiv> get_samples turn_round (\<lambda>_. []) sample_source_args 1"

abbreviation sample_step :: "scheduled rollout_system \<Rightarrow> scheduled rollout_system \<Rightarrow> bool" where
  "sample_step \<equiv> rollout_step sample_py_lib (\<lambda>_. []) (scheduler_pop sample_get) (scheduler_moves sample_py_lib sample_get) scheduler_cleanup_group scheduler_cleanup"

definition on_worker :: "('s rollout_worker \<Rightarrow> 's rollout_worker) \<Rightarrow> 's rollout_system \<Rightarrow> 's rollout_system" where
  "on_worker f s = s\<lparr>sy_worker := f (sy_worker s)\<rparr>"

definition sample_submit :: "scheduled rollout_system \<Rightarrow> scheduled rollout_system" where
  "sample_submit s = on_worker (\<lambda>w. projr (dispatch_group (scheduler_pop sample_get) w)) s"

definition sample_outcome :: "result_item list result" where
  "sample_outcome = Inr [OneSample (versioned_sample 0 ''t'' ''1'')]"

definition sample_complete :: "scheduled rollout_system \<Rightarrow> scheduled rollout_system" where
  "sample_complete s = put_step scheduler_cleanup_group (on_worker (reap 0) (on_worker (finish_group 0 sample_outcome) s))"

definition sample_drain :: "scheduled rollout_system \<Rightarrow> scheduled rollout_system" where
  "sample_drain s = (case get_completed (sy_worker s) of Some (c, w) \<Rightarrow> poll_gets c w s | None \<Rightarrow> s)"

definition at_ease :: "scheduled rollout_system \<Rightarrow> bool" where
  "at_ease s \<longleftrightarrow> wk_alive (sy_worker s) \<and> wk_putting (sy_worker s) = None"

lemma sample_submit_steps:
  assumes "at_ease s" "may_dispatch (sy_worker s)" "\<not> isl (dispatch_group (scheduler_pop sample_get) (sy_worker s))"
  shows "sample_step\<^sup>*\<^sup>* s (sample_submit s)"
proof -
  obtain w where w: "dispatch_group (scheduler_pop sample_get) (sy_worker s) = Inr w" using assms(3) by (cases "dispatch_group (scheduler_pop sample_get) (sy_worker s)") simp_all
  then show ?thesis using step_dispatch [OF _ _ assms(2) w] assms(1) by (auto simp: at_ease_def sample_submit_def on_worker_def intro!: r_into_rtranclp)
qed

lemma sample_complete_steps:
  assumes "at_ease s" "list_ex (\<lambda>t. ta_outcome t = None) (take 1 (wk_active (sy_worker s)))"
  shows "sample_step\<^sup>*\<^sup>* s (sample_complete s)"
proof -
  let ?s1 = "on_worker (finish_group 0 sample_outcome) s" and ?s2 = "on_worker (reap 0) (on_worker (finish_group 0 sample_outcome) s)"
  obtain t ts where t: "wk_active (sy_worker s) = t # ts" "ta_outcome t = None" using assms(2) by (cases "wk_active (sy_worker s)") auto
  have 1: "sample_step s ?s1" unfolding on_worker_def by (rule step_finish) (simp_all add: t)
  have 2: "sample_step ?s1 ?s2" unfolding on_worker_def [of "reap 0"] by (rule step_reap) (use assms(1) t in \<open>simp_all add: on_worker_def finish_group_def at_ease_def\<close>)
  have "sample_step ?s2 (sample_complete s)" unfolding sample_complete_def by (rule step_put)
  then show ?thesis using 1 2 by (meson rtranclp.rtrancl_into_rtrancl rtranclp.rtrancl_refl)
qed

lemma sample_drain_steps:
  assumes "sy_call s \<noteq> None" "sy_polls s \<noteq> []"
  shows "sample_step\<^sup>*\<^sup>* s (sample_drain s)"
  using step_get [OF assms] by (auto simp: sample_drain_def split: option.split)


definition sample_worker_env :: "(string, string) dict" where
  "sample_worker_env = [(''DRESSAGE_ASYNC_MAX_ACTIVE_GROUPS'', ''3''), (''DRESSAGE_ASYNC_OUTPUT_QUEUE_SIZE'', ''1'')]"

definition sample_prompt :: data_sample where
  "sample_prompt = \<lparr>da_prompt = PStr ''p'', da_label = None, da_metadata = [], da_generate_function_path = None,
     da_group_index = None, da_index = None, da_session_id = None\<rparr>"

definition sample_rollout_worker :: "scheduled rollout_worker" where
  "sample_rollout_worker = projr (new_worker (projr (new_scheduler ''bwrap'' None None), text_source turn_round sample_source_args [sample_prompt], new_world) [] sample_worker_env (Some 0))"

definition sample_rollout_call :: rollout_call where
  "sample_rollout_call = \<lparr>rc_config = run_config 1, rc_rollout_id = 0, rc_drain = False\<rparr>"

definition sample_dispatched :: "scheduled rollout_system" where
  "sample_dispatched = sample_submit (sample_submit (sample_submit (new_system one_version sample_rollout_worker)))"

definition sample_first_poll :: "scheduled rollout_system" where
  "sample_first_poll = poll_begins (call_begins sample_rollout_call (sample_complete sample_dispatched))"

definition sample_polled :: "scheduled rollout_system" where
  "sample_polled = sample_complete (sample_drain (sample_complete (sample_drain sample_first_poll)))"

definition sample_handing_back :: "scheduled rollout_system" where
  "sample_handing_back = call_collects sample_rollout_call (projr (collected sample_py_lib (\<lambda>_. []) sample_rollout_call sample_polled)) sample_polled"

lemma sample_worker_made:
  "new_scheduler ''bwrap'' None None = Inr (projr (new_scheduler ''bwrap'' None None))"
  "new_worker (projr (new_scheduler ''bwrap'' None None), text_source turn_round sample_source_args [sample_prompt], new_world) [] sample_worker_env (Some 0)
     = Inr sample_rollout_worker"
  by code_simp+

lemma sample_dispatched_reached: "sample_step\<^sup>*\<^sup>* (new_system one_version sample_rollout_worker) sample_dispatched"
proof -
  let ?s = "new_system one_version sample_rollout_worker"
  have "at_ease ?s" "may_dispatch (sy_worker ?s)" "\<not> isl (dispatch_group (scheduler_pop sample_get) (sy_worker ?s))" by code_simp+
  from sample_submit_steps [OF this] have 1: "sample_step\<^sup>*\<^sup>* ?s (sample_submit ?s)" .
  have "at_ease (sample_submit ?s)" "may_dispatch (sy_worker (sample_submit ?s))"
    "\<not> isl (dispatch_group (scheduler_pop sample_get) (sy_worker (sample_submit ?s)))" by code_simp+
  from sample_submit_steps [OF this] have 2: "sample_step\<^sup>*\<^sup>* (sample_submit ?s) (sample_submit (sample_submit ?s))" .
  have "at_ease (sample_submit (sample_submit ?s))" "may_dispatch (sy_worker (sample_submit (sample_submit ?s)))"
    "\<not> isl (dispatch_group (scheduler_pop sample_get) (sy_worker (sample_submit (sample_submit ?s))))" by code_simp+
  from sample_submit_steps [OF this] show ?thesis using 1 2 unfolding sample_dispatched_def by (meson rtranclp_trans)
qed


lemma sample_first_poll_reached: "sample_step\<^sup>*\<^sup>* (new_system one_version sample_rollout_worker) sample_first_poll"
proof -
  let ?s = "sample_complete sample_dispatched" and ?c = "call_begins sample_rollout_call (sample_complete sample_dispatched)"
  have "at_ease sample_dispatched" "list_ex (\<lambda>t. ta_outcome t = None) (take 1 (wk_active (sy_worker sample_dispatched)))" by code_simp+
  from sample_complete_steps [OF this] have 1: "sample_step\<^sup>*\<^sup>* (new_system one_version sample_rollout_worker) ?s"
    using sample_dispatched_reached by (rule rtranclp_trans [rotated])
  have none: "sy_call ?s = None" "sy_returning ?s = []" "sy_polls ?s = []" by code_simp+
  then have 2: "sample_step ?s ?c" by (intro step_call)
  have "sy_call ?c = Some sample_rollout_call" by (simp add: call_begins_def)
  moreover have "collected sample_py_lib (\<lambda>_. []) sample_rollout_call ?c = Inr (initial_partial (sy_tracker ?c))"
    using none(3) by (simp add: collected_def call_begins_def)
  moreover have "\<not> enough (rc_config sample_rollout_call) (pa_rollout (initial_partial (sy_tracker ?c)))"
    by (simp add: enough_def initial_partial_def initial_state_def sample_rollout_call_def run_config_def)
  ultimately have "sample_step ?c sample_first_poll" unfolding sample_first_poll_def by (rule step_poll)
  with 1 2 show ?thesis by (meson rtranclp.rtrancl_into_rtrancl)
qed

lemma sample_polled_reached: "sample_step\<^sup>*\<^sup>* (new_system one_version sample_rollout_worker) sample_polled"
proof -
  let ?a = "sample_drain sample_first_poll"
  let ?b = "sample_complete ?a"
  let ?c = "sample_drain ?b"
  have "sy_call sample_first_poll \<noteq> None" "sy_polls sample_first_poll \<noteq> []" by (simp_all add: sample_first_poll_def poll_begins_def call_begins_def)
  from sample_drain_steps [OF this] have 1: "sample_step\<^sup>*\<^sup>* sample_first_poll ?a" .
  have "at_ease ?a" "list_ex (\<lambda>t. ta_outcome t = None) (take 1 (wk_active (sy_worker ?a)))" by code_simp+
  from sample_complete_steps [OF this] have 2: "sample_step\<^sup>*\<^sup>* ?a ?b" .
  have "sy_call ?b \<noteq> None" "sy_polls ?b \<noteq> []" by code_simp+
  from sample_drain_steps [OF this] have 3: "sample_step\<^sup>*\<^sup>* ?b ?c" .
  have "at_ease ?c" "list_ex (\<lambda>t. ta_outcome t = None) (take 1 (wk_active (sy_worker ?c)))" by code_simp+
  from sample_complete_steps [OF this] have "sample_step\<^sup>*\<^sup>* ?c sample_polled" unfolding sample_polled_def .
  with 1 2 3 sample_first_poll_reached show ?thesis by (meson rtranclp_trans)
qed

lemma sample_polled_call: "sy_call sample_polled = Some sample_rollout_call" "sy_tracker sample_polled = one_version"
  by (simp_all add: sample_polled_def sample_complete_def sample_drain_def sample_first_poll_def on_worker_def put_step_def poll_gets_def poll_begins_def
      call_begins_def sample_dispatched_def sample_submit_def new_system_def Let_def split: option.split prod.split)

definition polled_view :: "scheduled rollout_system \<Rightarrow> bool \<times> nat \<times> int \<times> bool \<times> bool \<times> bool" where
  "polled_view s =
     (list_all (group_wf sample_py_lib) (concat (sy_polls s)), length (concat (sy_polls s)), next_scheduled (wk_source (sy_worker s)),
      wk_alive (sy_worker s), queue_full (sy_worker s), wk_running (sy_worker s))"

lemma sample_polled_view: "polled_view sample_polled = (True, 2, 3, True, True, True)"
  by code_simp

lemmas sample_polled_facts = sample_polled_view [unfolded polled_view_def prod.inject, simplified]

lemma sample_polled_collected:
  "(case collected sample_py_lib (\<lambda>_. []) sample_rollout_call sample_polled of
      Inl e \<Rightarrow> None
    | Inr ps \<Rightarrow> Some (map pg_group_id (ro_data (pa_rollout ps)), map cg_group_id (leftovers ps), enough (rc_config sample_rollout_call) (pa_rollout ps)))
   = Some ([0], [1], True)"
  by code_simp

theorem rollout_groups_conserved_witness: "mset (places sample_polled) = {#0, 1, 2#} \<and> sy_dropped sample_polled = []"
proof -
  have "mset [0..3 - 1] = {#0, 1, 2 :: int#}" by (simp add: upto_rec1)
  then show ?thesis using rollout_groups_conserved [OF sample_worker_made sample_polled_reached] sample_polled_facts by auto
qed

theorem partial_call_accounts_witness:
  "\<exists>ps. collected sample_py_lib (\<lambda>_. []) sample_rollout_call sample_polled = Inr ps \<and> length (ro_data (pa_rollout ps)) = 1 \<and>
     map cg_group_id (leftovers ps) = [1] \<and> sy_returning (call_collects sample_rollout_call ps sample_polled) = leftovers ps \<and>
     2 = length (ro_data (pa_rollout ps)) + length (ro_buffer (pa_rollout ps)) + ro_dropped_failed_groups (pa_rollout ps) +
       gf_dropped_groups (ro_filter (pa_rollout ps)) + length (leftovers ps)"
proof -
  obtain ps where ps: "collected sample_py_lib (\<lambda>_. []) sample_rollout_call sample_polled = Inr ps" "map cg_group_id (leftovers ps) = [1]"
    "enough (rc_config sample_rollout_call) (pa_rollout ps)"
    using sample_polled_collected by (auto split: sum.splits)
  have "tracker_ok (sy_tracker sample_polled)" using three_polls_wf(3) by (simp add: sample_polled_call(2))
  moreover have "\<forall>c\<in>set (concat (sy_polls sample_polled)). group_wf sample_py_lib c"
    using sample_polled_view by (simp only: polled_view_def prod.inject list_all_iff)
  ultimately show ?thesis
    using partial_call_accounts [OF sample_worker_made sample_polled_reached sample_polled_call(1)] ps sample_polled_facts
    by (auto simp: sample_rollout_call_def run_config_def)
qed

theorem full_queue_blocks_return_witness:
  "sample_step\<^sup>*\<^sup>* (new_system one_version sample_rollout_worker) sample_handing_back \<and>
   \<not> (\<exists>s. sample_step\<^sup>*\<^sup>* sample_handing_back s \<and> sy_returning s = [])"
proof -
  obtain ps where ps: "collected sample_py_lib (\<lambda>_. []) sample_rollout_call sample_polled = Inr ps" "enough (rc_config sample_rollout_call) (pa_rollout ps)"
    "map cg_group_id (leftovers ps) = [1]"
    using sample_polled_collected by (auto split: sum.splits)
  have s: "sample_handing_back = call_collects sample_rollout_call ps sample_polled" by (simp add: sample_handing_back_def ps(1))
  have "sample_step sample_polled sample_handing_back" unfolding s by (rule step_collects [OF sample_polled_call(1) ps(1,2)])
  moreover have "queue_full (sy_worker sample_polled)" "wk_running (sy_worker sample_polled)" using sample_polled_facts by blast+
  then have "sy_call sample_handing_back = None" "sy_returning sample_handing_back \<noteq> []" "queue_full (sy_worker sample_handing_back)" "wk_running (sy_worker sample_handing_back)"
    using ps(3) by (auto simp: s call_collects_def returned_leftovers_def sample_rollout_call_def)
  from full_queue_blocks_return [OF this, where lib = sample_py_lib and error_text = "\<lambda>_. []" and pop = "scheduler_pop sample_get" and
      moves = "scheduler_moves sample_py_lib sample_get" and release = scheduler_cleanup_group and release_all = scheduler_cleanup] this(2)
  have "\<not> (\<exists>s. sample_step\<^sup>*\<^sup>* sample_handing_back s \<and> sy_returning s = [])" by metis
  ultimately show ?thesis using sample_polled_reached by (meson rtranclp.rtrancl_into_rtrancl)
qed

end
