(* ===== verification/Sync_Rollout.thy ===== *)
theory Sync_Rollout
  imports Rollout_Worker
begin

text \<open>
  The synchronous rollout (\<open>dressage/rollout/sync_rollout.py\<close>): the whole batch is submitted at once, failed groups
  are resubmitted until their retries are used up, and what still fails enters the batch as
  placeholders without gradient (\<open>_mark_no_grad_failed\<close> of \<open>fully_async_rollout.py\<close> and
  \<open>mark_aborted_no_grad\<close> of \<open>multi_segment.py\<close>).

  The tasks finish in any order, one at a time.  The lemmas show that the rollout comes to an end after a bounded number of
  attempts and that its batch has one entry for every submitted group.
\<close>

section \<open>Placeholders\<close>

text \<open>\<open>aborted\<close> is the name made from the identity of the sample.\<close>

definition no_grad_metadata :: "string \<Rightarrow> pyval \<Rightarrow> pyval \<Rightarrow> pyval \<Rightarrow> (string, pyval) dict \<Rightarrow> (string, pyval) dict" where
  "no_grad_metadata aborted session_id instance_id sample_session metadata =
     (let md = (if pget metadata ''parent_traj_id'' = PNone
                then dset ''parent_traj_id'' (py_or session_id (py_or instance_id (PStr aborted))) metadata else metadata);
          md = (if pget md ''instance_id'' = PNone then dset ''instance_id'' (py_or instance_id (pget md ''parent_traj_id'')) md else md);
          dead = py_or session_id (py_or (pget md ''session_id'') sample_session);
          md = (if dead \<noteq> PNone then dset ''last_failed_session_id'' dead md else md)
      in dpop ''session_id'' md)"

definition mark_failed_sample :: "string \<Rightarrow> string option \<Rightarrow> rollout_sample \<Rightarrow> rollout_sample" where
  "mark_failed_sample aborted error s =
     (let md = sample_metadata s;
          md = (case error of Some e \<Rightarrow> dset ''rollout_error'' (PStr e) md | None \<Rightarrow> md)
      in s\<lparr>rs_metadata := Some (no_grad_metadata aborted (pget md ''session_id'') (pget md ''instance_id'') (rs_session_id s) md),
           rs_session_id := PNone, rs_remove_sample := True, rs_status := ''FAILED'', rs_response_length := 0, rs_loss_mask := Some []\<rparr>)"

definition mark_no_grad_failed :: "(nat \<Rightarrow> string) \<Rightarrow> string option \<Rightarrow> rollout_sample list \<Rightarrow> rollout_sample list" where
  "mark_no_grad_failed aborted error grp = map (\<lambda>(k, s). mark_failed_sample (aborted k) error s) (zip [0..<length grp] grp)"

section \<open>The rollout\<close>

record sync_state =
  sn_pending :: "rollout_sample list list"
  sn_data :: "rollout_sample list list"

definition sync_start :: "int \<Rightarrow> rollout_sample list list \<Rightarrow> sync_state result" where
  "sync_start target groups =
     (if int (length groups) < target then Inl (RuntimeError ''submits the whole batch one-shot and does not oversample'')
      else Inr \<lparr>sn_pending = groups, sn_data = []\<rparr>)"

definition settle_group ::
  "int \<Rightarrow> (exn \<Rightarrow> string) \<Rightarrow> (nat \<Rightarrow> string) \<Rightarrow> rollout_sample list \<Rightarrow> result_item list result \<Rightarrow> sync_state \<Rightarrow> sync_state result" where
  "settle_group max_retries error_text aborted grp outcome st =
     (let result_group = (case outcome of Inr items \<Rightarrow> Some (flatten_multi_segment_result items) | Inl _ \<Rightarrow> None);
          error = (case outcome of Inl e \<Rightarrow> Some e | Inr _ \<Rightarrow> None);
          failed = (error \<noteq> None \<or> is_aborted_group (case result_group of Some (s # ss) \<Rightarrow> s # ss | _ \<Rightarrow> grp))
      in if \<not> failed then Inr (st\<lparr>sn_data := sn_data st @ [the result_group]\<rparr>)
         else rbind (retry_count grp) (\<lambda>n.
           if n < max_retries
           then rbind (increment_retry grp) (\<lambda>grp. Inr (st\<lparr>sn_pending := sn_pending st @ [grp]\<rparr>))
           else Inr (st\<lparr>sn_data := sn_data st @ [mark_no_grad_failed aborted (map_option error_text error) grp]\<rparr>)))"

definition task_done ::
  "int \<Rightarrow> (exn \<Rightarrow> string) \<Rightarrow> (nat \<Rightarrow> string) \<Rightarrow> nat \<Rightarrow> result_item list result \<Rightarrow> sync_state \<Rightarrow> sync_state result" where
  "task_done max_retries error_text aborted i outcome st =
     settle_group max_retries error_text aborted (sn_pending st ! i) outcome
       (st\<lparr>sn_pending := take i (sn_pending st) @ drop (Suc i) (sn_pending st)\<rparr>)"

inductive sync_step :: "int \<Rightarrow> (exn \<Rightarrow> string) \<Rightarrow> sync_state \<Rightarrow> sync_state \<Rightarrow> bool" for max_retries error_text where
  task_done_step: "\<lbrakk>i < length (sn_pending st); task_done max_retries error_text aborted i outcome st = Inr st'\<rbrakk> \<Longrightarrow>
    sync_step max_retries error_text st st'"

definition finish_sync :: "bool \<Rightarrow> sync_state \<Rightarrow> rollout_sample list list result" where
  "finish_sync allow_empty st =
     (if list_ex (\<lambda>g. g = []) (sn_data st) then Inl (IndexError ''list index out of range'')
      else let data = sort_key (\<lambda>g. rs_index (hd g)) (sn_data st)
           in if \<not> allow_empty \<and> \<not> list_ex group_has_trainable_tokens data then Inl (RuntimeError ''produced no trainable samples'') else Inr data)"

section \<open>Attempts\<close>

text \<open>A group whose retry counters can be read.\<close>

definition retries_ok :: "rollout_sample list \<Rightarrow> bool" where
  "retries_ok grp \<longleftrightarrow> grp \<noteq> [] \<and> (\<forall>s\<in>set grp. \<exists>n. metadata_int (sample_metadata s) ''dressage_retry_count'' = Inr n)"

definition attempts_left :: "int \<Rightarrow> rollout_sample list \<Rightarrow> nat" where
  "attempts_left max_retries grp = (case retry_count grp of Inr n \<Rightarrow> nat (max_retries - n) + 1 | Inl _ \<Rightarrow> 1)"

definition sync_work :: "int \<Rightarrow> sync_state \<Rightarrow> nat" where
  "sync_work max_retries st = sum_list (map (attempts_left max_retries) (sn_pending st))"

text \<open>An entry of the batch: a result that is not aborted, or a placeholder for a group without retries left.\<close>

definition placeholder :: "rollout_sample \<Rightarrow> bool" where
  "placeholder s \<longleftrightarrow> rs_remove_sample s \<and> rs_status s = ''FAILED'' \<and> \<not> sample_has_trainable_tokens s \<and> rs_session_id s = PNone \<and>
     pget (sample_metadata s) ''parent_traj_id'' \<noteq> PNone \<and> pget (sample_metadata s) ''instance_id'' \<noteq> PNone \<and>
     pget (sample_metadata s) ''session_id'' = PNone"

definition batch_entry :: "rollout_sample list \<Rightarrow> bool" where
  "batch_entry grp \<longleftrightarrow> \<not> is_aborted_group grp \<or> list_all placeholder grp"

definition sync_inv :: "nat \<Rightarrow> sync_state \<Rightarrow> bool" where
  "sync_inv n st \<longleftrightarrow> list_all retries_ok (sn_pending st) \<and> list_all batch_entry (sn_data st) \<and> length (sn_pending st) + length (sn_data st) = n"

lemma increment_retry_sample_ok:
  assumes "metadata_int (sample_metadata s) ''dressage_retry_count'' = Inr n"
  shows "\<exists>s'. increment_retry_sample s = Inr s' \<and> metadata_int (sample_metadata s') ''dressage_retry_count'' = Inr (n + 1)"
proof -
  have "metadata_int (dpop ''segment_index'' (dpop ''parent_traj_id'' (dpop ''session_id'' md))) ''dressage_retry_count'' = metadata_int md ''dressage_retry_count''" for md
    by (simp add: metadata_int_def)
  moreover have "metadata_int (dset ''last_retry_session_id'' v md) ''dressage_retry_count'' = metadata_int md ''dressage_retry_count''" for v md
    by (simp add: metadata_int_def)
  ultimately show ?thesis using assms by (auto simp: increment_retry_sample_def Let_def metadata_int_def [of "dset _ _ _"] sample_metadata_def [of "_\<lparr>rs_metadata := _, rs_session_id := _, rs_remove_sample := _\<rparr>"])
qed

lemma increment_retry_ok:
  assumes "retries_ok grp"
  obtains n grp' where "retry_count grp = Inr n" "increment_retry grp = Inr grp'" "retries_ok grp'" "retry_count grp' = Inr (n + 1)"
proof -
  have "\<exists>grp'. increment_retry grp = Inr grp' \<and> list_all2 (\<lambda>s s'. \<exists>n. metadata_int (sample_metadata s) ''dressage_retry_count'' = Inr n \<and>
      metadata_int (sample_metadata s') ''dressage_retry_count'' = Inr (n + 1)) grp grp'"
    if "\<forall>s\<in>set grp. \<exists>n. metadata_int (sample_metadata s) ''dressage_retry_count'' = Inr n" for grp
    using that
  proof (induction grp)
    case (Cons s ss)
    obtain n s' where s: "metadata_int (sample_metadata s) ''dressage_retry_count'' = Inr n" "increment_retry_sample s = Inr s'"
      "metadata_int (sample_metadata s') ''dressage_retry_count'' = Inr (n + 1)"
      using Cons.prems increment_retry_sample_ok by (metis list.set_intros(1))
    then show ?case using Cons by (auto simp: increment_retry_def)
  qed (simp add: increment_retry_def)
  then obtain grp' where g: "increment_retry grp = Inr grp'" "list_all2 (\<lambda>s s'. \<exists>n. metadata_int (sample_metadata s) ''dressage_retry_count'' = Inr n \<and>
      metadata_int (sample_metadata s') ''dressage_retry_count'' = Inr (n + 1)) grp grp'"
    using assms by (auto simp: retries_ok_def)
  obtain s ss s' ss' where "grp = s # ss" "grp' = s' # ss'" using assms g(2) by (cases grp; cases grp') (auto simp: retries_ok_def)
  moreover have "\<forall>s'\<in>set grp'. \<exists>n. metadata_int (sample_metadata s') ''dressage_retry_count'' = Inr n"
    using g(2) by (induction grp grp' rule: list_all2_induct) auto
  ultimately show thesis using that g by (auto simp: retry_count_def retries_ok_def)
qed

lemma py_or_not_none: "py_or a b = PNone \<longleftrightarrow> \<not> truthy a \<and> b = PNone"
  by (cases a) (auto simp: py_or_def)

lemma pget_updates: "pget (dset k v d) k' = (if k' = k then v else pget d k')" "pget (dpop k d) k' = (if k' = k then PNone else pget d k')"
  by (simp_all add: pget_def)

lemma no_grad_metadata_identified:
  "pget (no_grad_metadata aborted a b c md) ''parent_traj_id'' \<noteq> PNone \<and> pget (no_grad_metadata aborted a b c md) ''instance_id'' \<noteq> PNone \<and>
   pget (no_grad_metadata aborted a b c md) ''session_id'' = PNone"
proof -
  define md1 where "md1 = (if pget md ''parent_traj_id'' = PNone then dset ''parent_traj_id'' (py_or a (py_or b (PStr aborted))) md else md)"
  define md2 where "md2 = (if pget md1 ''instance_id'' = PNone then dset ''instance_id'' (py_or b (pget md1 ''parent_traj_id'')) md1 else md1)"
  have 1: "pget md1 ''parent_traj_id'' \<noteq> PNone" by (simp add: md1_def pget_updates py_or_not_none)
  then have "pget md2 ''parent_traj_id'' \<noteq> PNone" "pget md2 ''instance_id'' \<noteq> PNone" by (simp_all add: md2_def pget_updates py_or_not_none)
  then show ?thesis by (simp add: no_grad_metadata_def Let_def pget_updates flip: md1_def md2_def)
qed

lemma mark_failed_placeholder: "placeholder (mark_failed_sample aborted error s)"
  using no_grad_metadata_identified by (simp add: placeholder_def mark_failed_sample_def Let_def sample_has_trainable_tokens_def sample_metadata_def)

lemma mark_no_grad_failed_entry: "batch_entry (mark_no_grad_failed aborted error grp)"
  by (auto simp: batch_entry_def mark_no_grad_failed_def list_all_iff mark_failed_placeholder)

lemma sum_list_without: "i < length xs \<Longrightarrow> sum_list (map f xs) = f (xs ! i) + sum_list (map f (take i xs @ drop (Suc i) xs) :: nat list)"
  by (subst (1) id_take_nth_drop [of i xs]) simp_all

lemma task_done_ok:
  assumes inv: "sync_inv n st" and i: "i < length (sn_pending st)"
  shows "\<exists>st'. task_done max_retries error_text aborted i outcome st = Inr st' \<and> sync_inv n st' \<and> sync_work max_retries st' < sync_work max_retries st"
proof -
  let ?grp = "sn_pending st ! i" and ?rest = "take i (sn_pending st) @ drop (Suc i) (sn_pending st)"
  let ?st = "st\<lparr>sn_pending := ?rest\<rparr>"
  have len: "Suc (length ?rest) = length (sn_pending st)" using i by auto
  have rest: "list_all retries_ok ?rest" using inv by (auto simp: sync_inv_def list_all_iff dest: in_set_takeD in_set_dropD)
  have "retries_ok ?grp" using inv i by (auto simp: sync_inv_def list_all_iff)
  then obtain k grp' where g: "retry_count ?grp = Inr k" "increment_retry ?grp = Inr grp'" "retries_ok grp'" "retry_count grp' = Inr (k + 1)"
    by (rule increment_retry_ok)
  have work: "sync_work max_retries st = attempts_left max_retries ?grp + sum_list (map (attempts_left max_retries) ?rest)"
    unfolding sync_work_def by (rule sum_list_without [OF i])
  have data: "sync_inv n (?st\<lparr>sn_data := sn_data st @ [e]\<rparr>) \<and> sync_work max_retries (?st\<lparr>sn_data := sn_data st @ [e]\<rparr>) < sync_work max_retries st"
    if "batch_entry e" for e
    using that inv rest len work g(1) by (simp add: sync_inv_def sync_work_def attempts_left_def)
  have retry: "sync_inv n (?st\<lparr>sn_pending := ?rest @ [grp']\<rparr>) \<and> sync_work max_retries (?st\<lparr>sn_pending := ?rest @ [grp']\<rparr>) < sync_work max_retries st"
    if "k < max_retries"
    using that inv rest len work g by (simp add: sync_inv_def sync_work_def attempts_left_def)
  show ?thesis
  proof (cases "\<exists>items. outcome = Inr items \<and> \<not> is_aborted_group (case flatten_multi_segment_result items of s # ss \<Rightarrow> s # ss | [] \<Rightarrow> ?grp)")
    case True
    then obtain items where items: "outcome = Inr items" "\<not> is_aborted_group (case flatten_multi_segment_result items of s # ss \<Rightarrow> s # ss | [] \<Rightarrow> ?grp)" by blast
    have "batch_entry (flatten_multi_segment_result items)"
      using items(2) by (auto simp: batch_entry_def is_aborted_group_def split: list.splits)
    then show ?thesis using data items by (auto simp: task_done_def settle_group_def Let_def split: list.splits)
  next
    case False
    have "task_done max_retries error_text aborted i outcome st =
      (if k < max_retries then Inr (?st\<lparr>sn_pending := ?rest @ [grp']\<rparr>)
       else Inr (?st\<lparr>sn_data := sn_data st @ [mark_no_grad_failed aborted (map_option error_text (case outcome of Inl e \<Rightarrow> Some e | Inr _ \<Rightarrow> None)) ?grp]\<rparr>))"
      using False g(1,2) by (auto simp: task_done_def settle_group_def Let_def split: sum.splits list.splits)
    then show ?thesis using retry data mark_no_grad_failed_entry by auto
  qed
qed

lemma sync_steps_ok:
  assumes "(sync_step max_retries error_text ^^ k) st st'" "sync_inv n st"
  shows "sync_inv n st' \<and> k + sync_work max_retries st' \<le> sync_work max_retries st"
  using assms
proof (induction k arbitrary: st')
  case (Suc k)
  then obtain u where u: "(sync_step max_retries error_text ^^ k) st u" "sync_step max_retries error_text u st'" by auto
  have ih: "sync_inv n u" "k + sync_work max_retries u \<le> sync_work max_retries st" using Suc.IH [OF u(1) Suc.prems(2)] by simp_all
  from u(2) obtain i aborted outcome where "i < length (sn_pending u)" "task_done max_retries error_text aborted i outcome u = Inr st'"
    by (auto elim: sync_step.cases)
  then show ?case using task_done_ok [OF ih(1), of i max_retries error_text aborted outcome] ih(2) by auto
qed simp

text \<open>
  C36.  The synchronous rollout ends.  Whatever the tasks return and in whatever order they finish, no outcome
  stops the loop with an error, the number of finished tasks is at most the number of attempts the groups have
  together, and when no task is left the batch has one entry for every submitted group: a result that is not
  aborted, or samples marked as failed, removed from the loss and identified for the reward and the trainer.
\<close>

theorem sync_rollout_completes:
  assumes "sync_start target groups = Inr st" "list_all retries_ok groups" "(sync_step max_retries error_text ^^ k) st st'"
  shows "k \<le> sum_list (map (attempts_left max_retries) groups) \<and>
    (\<forall>i < length (sn_pending st'). \<forall>aborted outcome. \<exists>st''. task_done max_retries error_text aborted i outcome st' = Inr st'') \<and>
    (sn_pending st' = [] \<longrightarrow> length (sn_data st') = length groups \<and> target \<le> int (length (sn_data st')) \<and> list_all batch_entry (sn_data st'))"
proof -
  have st: "st = \<lparr>sn_pending = groups, sn_data = []\<rparr>" "target \<le> int (length groups)" using assms(1) by (simp_all add: sync_start_def split: if_splits)
  then have "sync_inv (length groups) st" using assms(2) by (simp add: sync_inv_def)
  from sync_steps_ok [OF assms(3) this] have inv: "sync_inv (length groups) st'" "k \<le> sync_work max_retries st" by simp_all
  moreover have "\<exists>st''. task_done max_retries error_text aborted i outcome st' = Inr st''" if "i < length (sn_pending st')" for i aborted outcome
    using task_done_ok [OF inv(1) that] by blast
  ultimately show ?thesis using st by (auto simp: sync_inv_def sync_work_def)
qed

section \<open>A group that fails and succeeds\<close>

definition sample_sync_group :: "rollout_sample list" where
  "sample_sync_group = [versioned_sample 0 ''t'' ''1'']"

definition sample_sync_end :: sync_state where
  "sample_sync_end = projr (task_done 1 (\<lambda>_. []) (\<lambda>_. ''x'') 0 sample_outcome
     (projr (task_done 1 (\<lambda>_. []) (\<lambda>_. ''x'') 0 (Inl (RuntimeError ''boom'')) \<lparr>sn_pending = [sample_sync_group], sn_data = []\<rparr>)))"

theorem sync_rollout_completes_witness:
  "(sync_step 1 (\<lambda>_. []) ^^ 2) \<lparr>sn_pending = [sample_sync_group], sn_data = []\<rparr> sample_sync_end \<and>
   2 \<le> sum_list (map (attempts_left 1) [sample_sync_group]) \<and> length (sn_data sample_sync_end) = 1 \<and> list_all batch_entry (sn_data sample_sync_end)"
proof -
  let ?s = "\<lparr>sn_pending = [sample_sync_group], sn_data = []\<rparr>"
  let ?u = "projr (task_done 1 (\<lambda>_. []) (\<lambda>_. ''x'') 0 (Inl (RuntimeError ''boom'')) ?s)"
  have 1: "task_done 1 (\<lambda>_. []) (\<lambda>_. ''x'') 0 (Inl (RuntimeError ''boom'')) ?s = Inr ?u" by code_simp
  have 2: "task_done 1 (\<lambda>_. []) (\<lambda>_. ''x'') 0 sample_outcome ?u = Inr sample_sync_end" by code_simp
  have len: "0 < length (sn_pending ?s)" "0 < length (sn_pending ?u)" by code_simp+
  have "sync_step 1 (\<lambda>_. []) ?s ?u" "sync_step 1 (\<lambda>_. []) ?u sample_sync_end"
    using task_done_step [OF len(1) 1] task_done_step [OF len(2) 2] by blast+
  then have steps: "(sync_step 1 (\<lambda>_. []) ^^ 2) ?s sample_sync_end" by (auto simp: numeral_2_eq_2)
  have start: "sync_start 1 [sample_sync_group] = Inr ?s" by (simp add: sync_start_def)
  have ok: "list_all retries_ok [sample_sync_group]" by (simp add: retries_ok_def sample_sync_group_def versioned_sample_def metadata_int_def sample_metadata_def)
  have "sn_pending sample_sync_end = []" by code_simp
  then show ?thesis using sync_rollout_completes [OF start ok steps] steps by simp
qed

end
